(* ===== verification/Prelude.thy ===== *)
theory Prelude
  imports Main "HOL-Library.Word" "HOL-Library.Monad_Syntax" "HOL-Library.Signed_Division"
begin

unbundle bit_operations_syntax

text \<open>
  Shared vocabulary of the development.

  \<^item> C on the WRAMP machine. \<^verbatim>\<open>sizeof(char) == sizeof(int) == 1\<close>
    (\<^verbatim>\<open>include_winix/sys/arch.h\<close>), so addresses and sizes count 32-bit words.
    Bit sets and flag words are \<open>32 word\<close>; counters, indices, addresses and error codes
    are \<open>int\<close>. Division and remainder are C's truncating ones (\<open>sdiv\<close>, \<open>smod\<close>).
  \<^item> Faults. An operation that can touch memory out of bounds, dereference \<^verbatim>\<open>NULL\<close>,
    fail an \<^verbatim>\<open>ASSERT\<close> or call \<^verbatim>\<open>PANIC\<close> returns an \<open>option\<close>: \<open>None\<close>
    is the fault. Error codes returned by the source stay ordinary negative integers.
  \<^item> Arrays (\<open>aget\<close>, \<open>aset\<close>), counted loops (\<open>for_loop\<close>) and singly linked lists
    in a store of links (\<open>chain\<close>), with their rules.
\<close>

section \<open>Types, constants and fact collections\<close>

type_synonym u32 = "32 word"
type_synonym addr = int

named_theorems bm_simps \<open>bit-level rewriting of bitmap words\<close>
named_theorems chain_simps \<open>linked lists in a store of links\<close>

text \<open>Error numbers (\<^verbatim>\<open>include/errno.h\<close>).\<close>

abbreviation (input) EPERM :: int where "EPERM \<equiv> 1"
abbreviation (input) ENOENT :: int where "ENOENT \<equiv> 2"
abbreviation (input) ESRCH :: int where "ESRCH \<equiv> 3"
abbreviation (input) EINTR :: int where "EINTR \<equiv> 4"
abbreviation (input) EIO :: int where "EIO \<equiv> 5"
abbreviation (input) EBADF :: int where "EBADF \<equiv> 9"
abbreviation (input) ECHILD :: int where "ECHILD \<equiv> 10"
abbreviation (input) EAGAIN :: int where "EAGAIN \<equiv> 11"
abbreviation (input) ENOMEM :: int where "ENOMEM \<equiv> 12"
abbreviation (input) EACCES :: int where "EACCES \<equiv> 13"
abbreviation (input) EFAULT :: int where "EFAULT \<equiv> 14"
abbreviation (input) EINVAL :: int where "EINVAL \<equiv> 22"
abbreviation (input) ENFILE :: int where "ENFILE \<equiv> 23"
abbreviation (input) EMFILE :: int where "EMFILE \<equiv> 24"
abbreviation (input) ENOSPC :: int where "ENOSPC \<equiv> 28"
abbreviation (input) EPIPE :: int where "EPIPE \<equiv> 32"
abbreviation (input) EDEADLK :: int where "EDEADLK \<equiv> 35"

text \<open>Replies of a system call handler that are not sent back (\<^verbatim>\<open>winix/comm.h\<close>).\<close>

abbreviation (input) SUSPEND :: int where "SUSPEND \<equiv> - 998"
abbreviation (input) DONTREPLY :: int where "DONTREPLY \<equiv> - 997"

text \<open>The null pointer as an address.\<close>

abbreviation (input) NULL :: addr where "NULL \<equiv> 0"

text \<open>Pointer arithmetic and the conversion of an unsigned word to \<^verbatim>\<open>int\<close>.\<close>

definition ptr_add :: "addr \<Rightarrow> int \<Rightarrow> addr" where
  "ptr_add a n = (a + n) mod 2 ^ 32"

definition to_int :: "int \<Rightarrow> int" where
  "to_int v = sint (word_of_int v :: u32)"

lemma to_int_eq: "to_int v = signed_take_bit 31 v"
  by (simp add: to_int_def signed_of_int)

lemma to_int_id: "- (2 ^ 31) \<le> v \<Longrightarrow> v < 2 ^ 31 \<Longrightarrow> to_int v = v"
  by (simp add: to_int_eq signed_take_bit_int_eq_self)

lemma to_int_small: "0 \<le> v \<Longrightarrow> v < 2 ^ 31 \<Longrightarrow> to_int v = v"
  by (rule to_int_id) auto

lemma to_int_cong: "x mod 2 ^ 32 = y mod 2 ^ 32 \<Longrightarrow> to_int x = to_int y"
  by (simp add: to_int_eq signed_take_bit_eq_iff_take_bit_eq take_bit_eq_mod)

section \<open>Arrays\<close>

definition aget :: "'a list \<Rightarrow> int \<Rightarrow> 'a option" where
  "aget xs i = (if 0 \<le> i \<and> i < int (length xs) then Some (xs ! nat i) else None)"

definition aset :: "'a list \<Rightarrow> int \<Rightarrow> 'a \<Rightarrow> 'a list option" where
  "aset xs i v = (if 0 \<le> i \<and> i < int (length xs) then Some (xs[nat i := v]) else None)"

lemma aget_int [simp]: "aget xs (int n) = (if n < length xs then Some (xs ! n) else None)"
  by (simp add: aget_def)

lemma aset_int [simp]: "aset xs (int n) v = (if n < length xs then Some (xs[n := v]) else None)"
  by (simp add: aset_def)

lemma aget_Some_iff: "aget xs i = Some v \<longleftrightarrow> 0 \<le> i \<and> i < int (length xs) \<and> v = xs ! nat i"
  by (auto simp: aget_def)

lemma aget_None_iff: "aget xs i = None \<longleftrightarrow> i < 0 \<or> int (length xs) \<le> i"
  by (auto simp: aget_def)

lemma aset_Some_iff:
  "aset xs i v = Some ys \<longleftrightarrow> 0 \<le> i \<and> i < int (length xs) \<and> ys = xs[nat i := v]"
  by (auto simp: aset_def)

lemma aget_aset:
  "aset xs i v = Some ys \<Longrightarrow> aget ys j = (if j = i then Some v else aget xs j)"
  by (auto simp: aset_def aget_def nth_list_update split: if_splits)

lemma aset_length: "aset xs i v = Some ys \<Longrightarrow> length ys = length xs"
  by (auto simp: aset_def split: if_splits)

section \<open>Counted loops\<close>

text \<open>
  \<open>for_loop lo hi body s\<close> is \<^verbatim>\<open>for (i = lo; i < hi; i++) body\<close> over the state \<open>s\<close>;
  a fault of the body stops it.
\<close>

function for_loop :: "int \<Rightarrow> int \<Rightarrow> (int \<Rightarrow> 's \<Rightarrow> 's option) \<Rightarrow> 's \<Rightarrow> 's option" where
  "for_loop lo hi body s =
     (if lo < hi then (case body lo s of None \<Rightarrow> None | Some t \<Rightarrow> for_loop (lo + 1) hi body t)
      else Some s)"
  by pat_completeness auto
termination
  by (relation "measure (\<lambda>(lo, hi, body, s). nat (hi - lo))") auto

declare for_loop.simps [simp del]

lemma for_loop_done [simp]: "hi \<le> lo \<Longrightarrow> for_loop lo hi body s = Some s"
  by (simp add: for_loop.simps)

lemma for_loop_step:
  "lo < hi \<Longrightarrow> for_loop lo hi body s = Option.bind (body lo s) (for_loop (lo + 1) hi body)"
  by (simp add: for_loop.simps [of lo hi body s] split: option.split)

text \<open>Total correctness from an invariant that every iteration re-establishes.\<close>

lemma for_loop_rule:
  assumes "lo \<le> hi" and "I lo s"
    and "\<And>i t. lo \<le> i \<Longrightarrow> i < hi \<Longrightarrow> I i t \<Longrightarrow> \<exists>t'. body i t = Some t' \<and> I (i + 1) t'"
  shows "\<exists>t. for_loop lo hi body s = Some t \<and> I hi t"
  using assms
proof (induction lo hi body s rule: for_loop.induct)
  case (1 lo hi body s)
  show ?case
  proof (cases "lo < hi")
    case True
    with "1.prems" obtain t where t: "body lo s = Some t" "I (lo + 1) t" by blast
    with True "1.IH" [OF True t(1)] "1.prems" have "\<exists>t'. for_loop (lo + 1) hi body t = Some t' \<and> I hi t'"
      by auto
    with True t show ?thesis by (simp add: for_loop_step)
  next
    case False
    with "1.prems" show ?thesis by simp
  qed
qed

section \<open>Linked lists in a store of links\<close>

text \<open>\<open>chain nxt p xs\<close>: following \<open>nxt\<close> from \<open>p\<close> visits exactly \<open>xs\<close> and ends in \<open>None\<close>.\<close>

primrec chain :: "('a \<Rightarrow> 'a option) \<Rightarrow> 'a option \<Rightarrow> 'a list \<Rightarrow> bool" where
  "chain nxt p [] \<longleftrightarrow> p = None"
| "chain nxt p (x # xs) \<longleftrightarrow> p = Some x \<and> chain nxt (nxt x) xs"

lemma chain_None [simp, chain_simps]: "chain nxt None xs \<longleftrightarrow> xs = []"
  by (cases xs) auto

lemma chain_Some [chain_simps]:
  "chain nxt (Some x) xs \<longleftrightarrow> (\<exists>ys. xs = x # ys \<and> chain nxt (nxt x) ys)"
  by (cases xs) auto

lemma chain_None_iff: "chain nxt p xs \<Longrightarrow> p = None \<longleftrightarrow> xs = []"
  by (cases xs) auto

lemma chain_hd: "chain nxt p xs \<Longrightarrow> xs \<noteq> [] \<Longrightarrow> p = Some (hd xs)"
  by (cases xs) auto

lemma chain_unique: "chain nxt p xs \<Longrightarrow> chain nxt p ys \<Longrightarrow> xs = ys"
  by (induction xs arbitrary: p ys) (auto simp: chain_Some)

lemma chain_upd [simp, chain_simps]:
  "a \<notin> set xs \<Longrightarrow> chain (nxt(a := v)) p xs = chain nxt p xs"
  by (induction xs arbitrary: p) auto

lemma chain_cong: "(\<And>x. x \<in> set xs \<Longrightarrow> nxt x = nxt' x) \<Longrightarrow> chain nxt p xs = chain nxt' p xs"
  by (induction xs arbitrary: p) auto

text \<open>The part of a chain from an element on is the chain that starts there.\<close>

lemma chain_suffix: "chain nxt p (xs @ y # ys) \<Longrightarrow> chain nxt (nxt y) ys"
  by (induction xs arbitrary: p) auto

lemma chain_hd_not_in_tl: "chain nxt (nxt x) xs \<Longrightarrow> x \<notin> set xs"
proof
  assume c: "chain nxt (nxt x) xs" and "x \<in> set xs"
  then obtain as bs where xs: "xs = as @ x # bs" by (auto simp: in_set_conv_decomp)
  with c have "chain nxt (nxt x) bs" by (auto dest: chain_suffix)
  with c xs have "as @ x # bs = bs" by (auto dest: chain_unique)
  then have "length (as @ x # bs) = length bs" by simp
  then show False by simp
qed

lemma chain_distinct: "chain nxt p xs \<Longrightarrow> distinct xs"
  by (induction xs arbitrary: p) (auto dest: chain_hd_not_in_tl)

text \<open>Appending: relink the last element to a fresh one.\<close>

lemma chain_snoc:
  assumes "chain nxt p (xs @ [y])" and "z \<notin> set (xs @ [y])" and "nxt z = None"
  shows "chain (nxt(y := Some z)) p (xs @ [y, z])"
  using assms
proof (induction xs arbitrary: p)
  case Nil
  then show ?case by auto
next
  case (Cons x xs)
  have "x \<noteq> y" using chain_distinct [OF Cons.prems(1)] by auto
  with Cons show ?case by auto
qed

text \<open>Unlinking: the predecessor skips the removed element.\<close>

lemma chain_unlink:
  assumes "chain nxt p (xs @ y # z # zs)"
  shows "chain (nxt(y := nxt z)) p (xs @ y # zs)"
proof -
  have "distinct (xs @ y # z # zs)" using assms by (rule chain_distinct)
  then show ?thesis using assms
    by (induction xs arbitrary: p) auto
qed

text \<open>Inserting in the middle.\<close>

lemma chain_link:
  assumes "chain nxt p (xs @ y # zs)" and "x \<notin> set (xs @ y # zs)"
  shows "chain (nxt(y := Some x, x := nxt y)) p (xs @ y # x # zs)"
proof -
  have "distinct (xs @ y # zs)" using assms(1) by (rule chain_distinct)
  then show ?thesis using assms
    by (induction xs arbitrary: p) (auto simp: fun_upd_twist)
qed

section \<open>Doubly linked lists\<close>

text \<open>
  \<open>dchain nxt prv b p xs\<close>: following \<open>nxt\<close> from \<open>p\<close> visits exactly \<open>xs\<close> and ends in
  \<open>None\<close>, and following \<open>prv\<close> goes back from each element to the one before it, the first
  one to \<open>b\<close>.
\<close>

primrec dchain :: "('a \<Rightarrow> 'a option) \<Rightarrow> ('a \<Rightarrow> 'a option) \<Rightarrow> 'a option \<Rightarrow> 'a option \<Rightarrow> 'a list \<Rightarrow> bool" where
  "dchain nxt prv b p [] \<longleftrightarrow> p = None"
| "dchain nxt prv b p (x # xs) \<longleftrightarrow> p = Some x \<and> prv x = b \<and> dchain nxt prv (Some x) (nxt x) xs"

definition last_opt :: "'a option \<Rightarrow> 'a list \<Rightarrow> 'a option" where
  "last_opt b xs = (if xs = [] then b else Some (last xs))"

definition hd_opt :: "'a list \<Rightarrow> 'a option" where
  "hd_opt xs = (case xs of [] \<Rightarrow> None | x # _ \<Rightarrow> Some x)"

lemma last_opt_simps [simp]: "last_opt b [] = b" "last_opt b (xs @ [y]) = Some y" "last_opt b (x # xs) = last_opt (Some x) xs"
  by (simp_all add: last_opt_def)

lemma hd_opt_simps [simp]: "hd_opt [] = None" "hd_opt (x # xs) = Some x"
  by (simp_all add: hd_opt_def)

lemma dchain_chain: "dchain nxt prv b p xs \<Longrightarrow> chain nxt p xs"
  by (induction xs arbitrary: b p) auto

lemma dchain_distinct: "dchain nxt prv b p xs \<Longrightarrow> distinct xs"
  by (rule chain_distinct [OF dchain_chain])

lemma dchain_hd: "dchain nxt prv b p xs \<Longrightarrow> p = hd_opt xs"
  by (cases xs) auto

lemma dchain_cong:
  "(\<And>x. x \<in> set xs \<Longrightarrow> nxt' x = nxt x \<and> prv' x = prv x) \<Longrightarrow> dchain nxt' prv' b p xs = dchain nxt prv b p xs"
  by (induction xs arbitrary: b p) auto

lemma dchain_links: "dchain nxt prv b p (as @ x # cs) \<Longrightarrow> prv x = last_opt b as \<and> nxt x = hd_opt cs"
  by (induction as arbitrary: b p) (auto dest: dchain_hd)

text \<open>Unlinking an element, and appending one, from what the new links are.\<close>

lemma dchain_unlink:
  assumes "dchain nxt prv b p (as @ x # cs)" "distinct (as @ x # cs)"
    and "\<And>y. y \<in> set as \<union> set cs \<Longrightarrow> nxt' y = (if as \<noteq> [] \<and> y = last as then hd_opt cs else nxt y)"
    and "\<And>y. y \<in> set as \<union> set cs \<Longrightarrow> prv' y = (if cs \<noteq> [] \<and> y = hd cs then last_opt b as else prv y)"
  shows "dchain nxt' prv' b (hd_opt (as @ cs)) (as @ cs)"
  using assms
proof (induction as arbitrary: b p)
  case Nil
  show ?case
  proof (cases cs)
    case (Cons c cs')
    have "dchain nxt' prv' (Some c) (nxt c) cs' = dchain nxt prv (Some c) (nxt c) cs'"
      using Nil.prems(2-4) by (intro dchain_cong) (auto simp: Cons)
    with Nil.prems show ?thesis by (simp add: Cons)
  qed simp
next
  case (Cons a as)
  have "dchain nxt' prv' (Some a) (hd_opt (as @ cs)) (as @ cs)"
  proof (rule Cons.IH)
    show "dchain nxt prv (Some a) (nxt a) (as @ x # cs)" "distinct (as @ x # cs)" using Cons.prems(1,2) by simp_all
    show "nxt' y = (if as \<noteq> [] \<and> y = last as then hd_opt cs else nxt y)" if "y \<in> set as \<union> set cs" for y
      using Cons.prems(2) Cons.prems(3) [of y] that by auto
    show "prv' y = (if cs \<noteq> [] \<and> y = hd cs then last_opt (Some a) as else prv y)" if "y \<in> set as \<union> set cs" for y
      using Cons.prems(4) [of y] that by auto
  qed
  moreover have "nxt' a = hd_opt (as @ cs)"
    using Cons.prems(2,3) dchain_hd [of nxt prv "Some a" "nxt a" "as @ x # cs"] Cons.prems(1) by (cases as) auto
  moreover have "prv' a = b" using Cons.prems(1,2,4) by (cases cs) auto
  ultimately show ?case by simp
qed

lemma dchain_snoc:
  assumes "dchain nxt prv b p xs" "distinct xs" "nxt' z = None" "prv' z = last_opt b xs"
    and "\<And>y. y \<in> set xs \<Longrightarrow> nxt' y = (if y = last xs then Some z else nxt y)"
    and "\<And>y. y \<in> set xs \<Longrightarrow> prv' y = prv y"
  shows "dchain nxt' prv' b (hd_opt (xs @ [z])) (xs @ [z])"
  using assms
proof (induction xs arbitrary: b p)
  case (Cons a xs)
  have "dchain nxt' prv' (Some a) (hd_opt (xs @ [z])) (xs @ [z])"
  proof (rule Cons.IH)
    show "dchain nxt prv (Some a) (nxt a) xs" "distinct xs" "nxt' z = None" "prv' z = last_opt (Some a) xs" using Cons.prems by simp_all
    show "nxt' y = (if y = last xs then Some z else nxt y)" if "y \<in> set xs" for y using Cons.prems(5) [of y] that by auto
    show "prv' y = prv y" if "y \<in> set xs" for y using Cons.prems(6) [of y] that by simp
  qed
  moreover have "nxt' a = hd_opt (xs @ [z])"
    using Cons.prems(2,5) dchain_hd [of nxt prv "Some a" "nxt a" xs] Cons.prems(1) by (cases xs) auto
  ultimately show ?case using Cons.prems by simp
qed simp

section \<open>Flag words\<close>

text \<open>The C idioms \<^verbatim>\<open>w & f\<close>, \<^verbatim>\<open>w |= f\<close> and \<^verbatim>\<open>w &= ~f\<close>.\<close>

definition has_flag :: "u32 \<Rightarrow> u32 \<Rightarrow> bool" where
  "has_flag w f \<longleftrightarrow> w AND f \<noteq> 0"

definition set_flag :: "u32 \<Rightarrow> u32 \<Rightarrow> u32" where
  "set_flag w f = w OR f"

definition clear_flag :: "u32 \<Rightarrow> u32 \<Rightarrow> u32" where
  "clear_flag w f = w AND NOT f"

lemma has_flag_pow2: "has_flag w (push_bit n 1) \<longleftrightarrow> bit w n"
  by (simp add: has_flag_def and_exp_eq_0_iff_not_bit push_bit_eq_mult flip: push_bit_eq_mult)

lemma clear_flag_self [simp]: "clear_flag f f = 0"
  by (simp add: clear_flag_def)

lemma has_flag_0 [simp]: "\<not> has_flag 0 f"
  by (simp add: has_flag_def)

lemma has_flag_clear_same [simp]: "\<not> has_flag (clear_flag w f) f"
  by (simp add: has_flag_def clear_flag_def and.assoc)

lemma has_flag_set_same [simp]: "f \<noteq> 0 \<Longrightarrow> has_flag (set_flag w f) f"
proof -
  have "(w OR f) AND f = f" by (rule bit_eqI) (auto simp: bit_simps)
  then show "f \<noteq> 0 \<Longrightarrow> ?thesis" by (simp add: has_flag_def set_flag_def)
qed

text \<open>Disjoint flags do not disturb each other.\<close>

lemma has_flag_set_other: "f AND g = 0 \<Longrightarrow> has_flag (set_flag w f) g = has_flag w g"
  by (simp add: has_flag_def set_flag_def bit.conj_disj_distrib2)

lemma has_flag_clear_other: "f AND g = 0 \<Longrightarrow> has_flag (clear_flag w f) g = has_flag w g"
proof -
  assume "f AND g = 0"
  then have "\<not> bit f n \<or> \<not> bit g n" for n by (metis bit_and_iff bit_0_eq bot_apply bot_bool_def)
  then have "(w AND NOT f) AND g = w AND g" by (intro bit_eqI) (auto simp: bit_simps)
  then show ?thesis by (simp add: has_flag_def clear_flag_def)
qed

lemma has_flag_and [simp]: "has_flag (f AND g) g = has_flag f g"
  by (simp add: has_flag_def and.assoc)

end
