(* ===== verification/Bitmap.thy ===== *)
theory Bitmap
  imports Prelude
begin

text \<open>
  The bitmap module (\<^verbatim>\<open>winix/bitmap.c\<close>): an array of 32-bit words read as one long
  sequence of bits, most significant bit of word 0 first. \<open>bits_on\<close> is the set of positions
  that are 1; every operation is specified by what it does to that set, and the two searches by
  the free runs of it.
\<close>

section \<open>The operations\<close>

abbreviation (input) BITMASK_NR :: int where "BITMASK_NR \<equiv> 32"
abbreviation (input) ZERO_BITS :: int where "ZERO_BITS \<equiv> 1"
abbreviation (input) ONE_BITS :: int where "ONE_BITS \<equiv> 2"

definition mask_table :: "u32 list" where
  "mask_table =
    [0x80000000, 0x40000000, 0x20000000, 0x10000000,
     0x08000000, 0x04000000, 0x02000000, 0x01000000,
     0x00800000, 0x00400000, 0x00200000, 0x00100000,
     0x00080000, 0x00040000, 0x00020000, 0x00010000,
     0x00008000, 0x00004000, 0x00002000, 0x00001000,
     0x00000800, 0x00000400, 0x00000200, 0x00000100,
     0x00000080, 0x00000040, 0x00000020, 0x00000010,
     0x00000008, 0x00000004, 0x00000002, 0x00000001]"

definition get_mask :: "int \<Rightarrow> int" where
  "get_mask i = (if i < 0 \<or> 32 \<le> i then - EINVAL else sint (mask_table ! nat i))"

definition bitmap_clear :: "u32 list \<Rightarrow> int \<Rightarrow> (u32 list \<times> int) option" where
  "bitmap_clear bm map_len =
     do { m \<leftarrow> for_loop 0 map_len (\<lambda>i m. aset m i 0) bm; Some (m, 0) }"

definition bitmap_fill :: "u32 list \<Rightarrow> int \<Rightarrow> (u32 list \<times> int) option" where
  "bitmap_fill bm map_len =
     do { m \<leftarrow> for_loop 0 map_len (\<lambda>i m. aset m i 0xffffffff) bm; Some (m, 0) }"

text \<open>
  The two nested loops of \<^verbatim>\<open>bitmap_search_from\<close>, with \<open>count\<close> carried across words. The
  result is the value the function returns; \<open>None\<close> is an access outside the array.
\<close>

function bitmap_search_from_loop ::
  "u32 list \<Rightarrow> int \<Rightarrow> int \<Rightarrow> int \<Rightarrow> int \<Rightarrow> int \<Rightarrow> int option" where
  "bitmap_search_from_loop bm map_len num i j count =
     (if i < map_len then
        (if j < BITMASK_NR then
           do { w \<leftarrow> aget bm i; m \<leftarrow> aget mask_table j;
                if w AND m = 0
                then (if count + 1 = num then Some (i * 32 + j - (count + 1) + 1)
                      else bitmap_search_from_loop bm map_len num i (j + 1) (count + 1))
                else bitmap_search_from_loop bm map_len num i (j + 1) 0 }
         else bitmap_search_from_loop bm map_len num (i + 1) 0 count)
      else Some (- EINVAL))"
  by pat_completeness auto
termination
  by (relation "measures [\<lambda>(bm, map_len, num, i, j, count). nat (map_len - i),
                          \<lambda>(bm, map_len, num, i, j, count). nat (32 - j)]") auto

definition bitmap_search_from :: "u32 list \<Rightarrow> int \<Rightarrow> int \<Rightarrow> int \<Rightarrow> int option" where
  "bitmap_search_from bm map_len start num =
     (if map_len * 32 \<le> num \<or> map_len * 32 \<le> start then Some (- EINVAL)
      else bitmap_search_from_loop bm map_len num (start sdiv 32) (start smod 32) 0)"

function bitmap_search_reverse_loop ::
  "u32 list \<Rightarrow> int \<Rightarrow> int \<Rightarrow> int \<Rightarrow> int \<Rightarrow> int option" where
  "bitmap_search_reverse_loop bm num i j count =
     (if 0 \<le> i then
        (if 0 \<le> j then
           do { w \<leftarrow> aget bm i; m \<leftarrow> aget mask_table j;
                if w AND m = 0
                then (if count + 1 = num then Some (i * 32 + j)
                      else bitmap_search_reverse_loop bm num i (j - 1) (count + 1))
                else bitmap_search_reverse_loop bm num i (j - 1) 0 }
         else bitmap_search_reverse_loop bm num (i - 1) (BITMASK_NR - 1) count)
      else Some (- EINVAL))"
  by pat_completeness auto
termination
  by (relation "measures [\<lambda>(bm, num, i, j, count). nat (i + 1),
                          \<lambda>(bm, num, i, j, count). nat (j + 1)]") auto

definition bitmap_search_reverse :: "u32 list \<Rightarrow> int \<Rightarrow> int \<Rightarrow> int option" where
  "bitmap_search_reverse bm map_len num =
     (if map_len * 32 \<le> num then Some (- EINVAL)
      else bitmap_search_reverse_loop bm num (map_len - 1) (BITMASK_NR - 1) 0)"

definition bitmap_set_bit :: "u32 list \<Rightarrow> int \<Rightarrow> int \<Rightarrow> (u32 list \<times> int) option" where
  "bitmap_set_bit bm map_len start =
     (if map_len * 32 \<le> start then Some (bm, - EINVAL)
      else do { w \<leftarrow> aget bm (start sdiv 32); m \<leftarrow> aget mask_table (start smod 32);
                bm' \<leftarrow> aset bm (start sdiv 32) (w OR m); Some (bm', 0) })"

definition bitmap_set_nbits :: "u32 list \<Rightarrow> int \<Rightarrow> int \<Rightarrow> int \<Rightarrow> (u32 list \<times> int) option" where
  "bitmap_set_nbits bm map_len start len =
     (if map_len * 32 \<le> start + len then Some (bm, - EINVAL)
      else do { bm' \<leftarrow> for_loop 0 len
                  (\<lambda>i bm. do { w \<leftarrow> aget bm ((start + i) sdiv 32);
                                m \<leftarrow> aget mask_table ((start + i) smod 32);
                                aset bm ((start + i) sdiv 32) (w OR m) }) bm;
                Some (bm', 0) })"

definition bitmap_clear_nbits :: "u32 list \<Rightarrow> int \<Rightarrow> int \<Rightarrow> int \<Rightarrow> (u32 list \<times> int) option" where
  "bitmap_clear_nbits bm map_len start len =
     (if map_len * 32 \<le> start + len then Some (bm, - EINVAL)
      else do { bm' \<leftarrow> for_loop 0 len
                  (\<lambda>i bm. do { w \<leftarrow> aget bm ((start + i) sdiv 32);
                                m \<leftarrow> aget mask_table ((start + i) smod 32);
                                aset bm ((start + i) sdiv 32) (w AND NOT m) }) bm;
                Some (bm', 0) })"

definition bitmap_clear_bit :: "u32 list \<Rightarrow> int \<Rightarrow> int \<Rightarrow> (u32 list \<times> int) option" where
  "bitmap_clear_bit bm map_len start =
     (if map_len * 32 \<le> start then Some (bm, - EINVAL)
      else do { w \<leftarrow> aget bm (start sdiv 32); m \<leftarrow> aget mask_table (start smod 32);
                bm' \<leftarrow> aset bm (start sdiv 32) (w AND NOT m); Some (bm', 0) })"

definition is_bit_on :: "u32 list \<Rightarrow> int \<Rightarrow> int \<Rightarrow> bool option" where
  "is_bit_on bm map_len b =
     (if map_len * 32 < b then Some False
      else do { w \<leftarrow> aget bm (b sdiv 32); m \<leftarrow> aget mask_table (b smod 32);
                Some (w AND m \<noteq> 0) })"

definition count_bits :: "u32 list \<Rightarrow> int \<Rightarrow> int \<Rightarrow> int option" where
  "count_bits bm map_len flags =
     (if flags \<noteq> ONE_BITS \<and> flags \<noteq> ZERO_BITS then Some (- EINVAL)
      else let and_mask = (flags = ONE_BITS) in
        for_loop 0 map_len
          (\<lambda>i count. do { unit \<leftarrow> aget bm i;
             for_loop 0 32 (\<lambda>j count. do { m \<leftarrow> aget mask_table j;
               Some (if and_mask \<and> m AND unit \<noteq> 0 then count + 1
                     else if \<not> and_mask \<and> m AND unit = 0 then count + 1
                     else count) }) count }) 0)"

definition bitmap_xor :: "u32 list \<Rightarrow> u32 list \<Rightarrow> int \<Rightarrow> (u32 list \<times> int) option" where
  "bitmap_xor bm1 bm2 map_len =
     do { m \<leftarrow> for_loop 0 map_len (\<lambda>i m. do { a \<leftarrow> aget m i; b \<leftarrow> aget bm2 i;
                                              aset m i (a XOR b) }) bm1;
          Some (m, 0) }"

declare bitmap_search_from_loop.simps [simp del]
declare bitmap_search_reverse_loop.simps [simp del]

section \<open>Bit positions\<close>

definition bm_on :: "u32 list \<Rightarrow> nat \<Rightarrow> bool" where
  "bm_on bm k \<longleftrightarrow> bit (bm ! (k div 32)) (31 - k mod 32)"

definition bits_on :: "u32 list \<Rightarrow> nat set" where
  "bits_on bm = {k. k < 32 * length bm \<and> bm_on bm k}"

definition run_free :: "u32 list \<Rightarrow> nat \<Rightarrow> nat \<Rightarrow> bool" where
  "run_free bm p n \<longleftrightarrow> p + n \<le> 32 * length bm \<and> (\<forall>k. p \<le> k \<and> k < p + n \<longrightarrow> k \<notin> bits_on bm)"

lemma length_mask_table [simp]: "length mask_table = 32"
  by (simp add: mask_table_def)

lemma mask_table_all: "\<forall>j\<in>set [0..<32]. mask_table ! j = push_bit (31 - j) (1 :: u32)"
  by code_simp

lemma mask_table_nth [bm_simps]: "j < 32 \<Longrightarrow> mask_table ! j = push_bit (31 - j) 1"
  using mask_table_all by simp

lemma and_mask_eq_0 [bm_simps]: "j < 32 \<Longrightarrow> (w AND mask_table ! j = 0) \<longleftrightarrow> \<not> bit w (31 - j)"
  using has_flag_pow2 [of w "31 - j"] by (auto simp: mask_table_nth has_flag_def)


lemma sdiv_smod_nat [bm_simps]:
  "int k sdiv 32 = int (k div 32)" "int k smod 32 = int (k mod 32)"
  by (simp_all add: signed_divide_int_def signed_modulo_int_def zdiv_int zmod_int sgn_if)

lemma word_index [simp]: "k < 32 * length bm \<Longrightarrow> k div 32 < length bm"
  by linarith

lemma bit_position_inj: "k div 32 = l div 32 \<Longrightarrow> 31 - k mod 32 = 31 - l mod 32 \<Longrightarrow> k = (l :: nat)"
proof -
  assume "k div 32 = l div 32" "31 - k mod 32 = 31 - l mod 32"
  moreover have "k mod 32 < 32" "l mod 32 < 32" by auto
  ultimately have "k mod 32 = l mod 32" by linarith
  with \<open>k div 32 = l div 32\<close> show "k = l" by (metis div_mult_mod_eq)
qed

lemma bit_or_mask [bm_simps]:
  "j < 32 \<Longrightarrow> n < 32 \<Longrightarrow> bit (w OR mask_table ! j) n \<longleftrightarrow> bit w n \<or> n = 31 - j"
  by (auto simp: mask_table_nth bit_simps)

lemma bit_andnot_mask [bm_simps]:
  "j < 32 \<Longrightarrow> n < 32 \<Longrightarrow> bit (w AND NOT (mask_table ! j)) n \<longleftrightarrow> bit w n \<and> n \<noteq> 31 - j"
  by (auto simp: mask_table_nth bit_simps)

text \<open>One assignment \<^verbatim>\<open>map[k/32] = map[k/32] op mask[k%32]\<close>.\<close>

lemma bits_on_set1:
  assumes "k < 32 * length bm"
  shows "bits_on (bm[k div 32 := bm ! (k div 32) OR mask_table ! (k mod 32)]) = insert k (bits_on bm)"
  using assms
  by (auto simp: bits_on_def bm_on_def nth_list_update bit_or_mask dest: bit_position_inj)

lemma bits_on_clear1:
  assumes "k < 32 * length bm"
  shows "bits_on (bm[k div 32 := bm ! (k div 32) AND NOT (mask_table ! (k mod 32))]) = bits_on bm - {k}"
  using assms
  by (auto simp: bits_on_def bm_on_def nth_list_update bit_andnot_mask dest: bit_position_inj)

lemma finite_bits_on [simp]: "finite (bits_on bm)"
  by (simp add: bits_on_def)

lemma bits_on_bound: "k \<in> bits_on bm \<Longrightarrow> k < 32 * length bm"
  by (simp add: bits_on_def)

text \<open>A map is determined by its length and its set of positions.\<close>

lemma bits_on_inject:
  assumes "length bm = length bm'" and "bits_on bm = bits_on bm'"
  shows "bm = bm'"
proof (rule nth_equalityI)
  fix i assume i: "i < length bm"
  show "bm ! i = bm' ! i"
  proof (rule bit_word_eqI)
    fix n assume "n < LENGTH(32)"
    then have n: "n < 32" by simp
    define r where "r = 31 - n"
    define k where "k = r + i * 32"
    have r: "r < 32" "31 - r = n" using n by (auto simp: r_def)
    have k: "k div 32 = i" "31 - k mod 32 = n" "k < 32 * length bm"
      using i r by (auto simp: k_def)
    have "k \<in> bits_on bm \<longleftrightarrow> k \<in> bits_on bm'" using assms(2) by simp
    with k assms(1) show "bit (bm ! i) n = bit (bm' ! i) n"
      by (simp add: bits_on_def bm_on_def)
  qed
qed (rule assms(1))


section \<open>What the operations do to the set of positions\<close>

lemma bitmap_set_nbits_run:
  assumes "start + len < 32 * length bm"
  shows "\<exists>bm'. bitmap_set_nbits bm (int (length bm)) (int start) (int len) = Some (bm', 0) \<and>
           length bm' = length bm \<and> bits_on bm' = bits_on bm \<union> {start..<start + len}"
proof -
  let ?I = "\<lambda>i m. length m = length bm \<and> bits_on m = bits_on bm \<union> {start..<start + nat i}"
  let ?b = "\<lambda>i m. do { w \<leftarrow> aget m ((int start + i) sdiv 32);
                       k \<leftarrow> aget mask_table ((int start + i) smod 32);
                       aset m ((int start + i) sdiv 32) (w OR k) }"
  have "\<exists>m. for_loop 0 (int len) ?b bm = Some m \<and> ?I (int len) m"
  proof (rule for_loop_rule [where I = ?I])
    fix i m assume i: "0 \<le> i" "i < int len" and I: "?I i m"
    define k where "k = start + nat i"
    have k: "int start + i = int k" "k < 32 * length m" using i I assms by (auto simp: k_def)
    have "{start..<start + nat (i + 1)} = insert k {start..<start + nat i}"
      using i by (auto simp: k_def)
    with k I show "\<exists>t. ?b i m = Some t \<and> ?I (i + 1) t"
      by (simp add: sdiv_smod_nat bits_on_set1)
  qed auto
  then show ?thesis using assms by (auto simp: bitmap_set_nbits_def)
qed

lemma bitmap_clear_nbits_run:
  assumes "start + len < 32 * length bm"
  shows "\<exists>bm'. bitmap_clear_nbits bm (int (length bm)) (int start) (int len) = Some (bm', 0) \<and>
           length bm' = length bm \<and> bits_on bm' = bits_on bm - {start..<start + len}"
proof -
  let ?I = "\<lambda>i m. length m = length bm \<and> bits_on m = bits_on bm - {start..<start + nat i}"
  let ?b = "\<lambda>i m. do { w \<leftarrow> aget m ((int start + i) sdiv 32);
                       k \<leftarrow> aget mask_table ((int start + i) smod 32);
                       aset m ((int start + i) sdiv 32) (w AND NOT k) }"
  have "\<exists>m. for_loop 0 (int len) ?b bm = Some m \<and> ?I (int len) m"
  proof (rule for_loop_rule [where I = ?I])
    fix i m assume i: "0 \<le> i" "i < int len" and I: "?I i m"
    define k where "k = start + nat i"
    have k: "int start + i = int k" "k < 32 * length m" using i I assms by (auto simp: k_def)
    have "{start..<start + nat (i + 1)} = insert k {start..<start + nat i}"
      using i by (auto simp: k_def)
    with k I show "\<exists>t. ?b i m = Some t \<and> ?I (i + 1) t"
      by (auto simp: sdiv_smod_nat bits_on_clear1)
  qed auto
  then show ?thesis using assms by (auto simp: bitmap_clear_nbits_def)
qed

lemma bitmap_nbits_refused:
  "int (length bm) * 32 \<le> start + len \<Longrightarrow>
     bitmap_set_nbits bm (int (length bm)) start len = Some (bm, - EINVAL) \<and>
     bitmap_clear_nbits bm (int (length bm)) start len = Some (bm, - EINVAL)"
  by (simp add: bitmap_set_nbits_def bitmap_clear_nbits_def)

lemma bitmap_set_bit_run:
  assumes "k < 32 * length bm"
  shows "\<exists>bm'. bitmap_set_bit bm (int (length bm)) (int k) = Some (bm', 0) \<and>
           length bm' = length bm \<and> bits_on bm' = insert k (bits_on bm)"
  using assms by (simp add: bitmap_set_bit_def sdiv_smod_nat bits_on_set1)

lemma bitmap_clear_bit_run:
  assumes "k < 32 * length bm"
  shows "\<exists>bm'. bitmap_clear_bit bm (int (length bm)) (int k) = Some (bm', 0) \<and>
           length bm' = length bm \<and> bits_on bm' = bits_on bm - {k}"
  using assms by (simp add: bitmap_clear_bit_def sdiv_smod_nat bits_on_clear1)

lemma is_bit_on_run:
  "k < 32 * length bm \<Longrightarrow> is_bit_on bm (int (length bm)) (int k) = Some (k \<in> bits_on bm)"
  by (simp add: is_bit_on_def sdiv_smod_nat and_mask_eq_0 bits_on_def bm_on_def)

lemma for_loop_fill:
  assumes "n \<le> length bm"
  shows "for_loop 0 (int n) (\<lambda>i m. aset m i v) bm = Some (replicate n v @ drop n bm)"
proof -
  let ?I = "\<lambda>i m. m = replicate (nat i) v @ drop (nat i) bm"
  have "\<exists>m. for_loop 0 (int n) (\<lambda>i m. aset m i v) bm = Some m \<and> ?I (int n) m"
  proof (rule for_loop_rule [where I = ?I])
    fix i m assume i: "0 \<le> i" "i < int n" and I: "?I i m"
    then obtain k where k: "i = int k" "k < length bm" using assms by (metis int_nat_eq less_le_trans of_nat_less_iff zero_le_imp_eq_int)
    have "drop k bm = bm ! k # drop (Suc k) bm" using k(2) by (simp add: Cons_nth_drop_Suc)
    with k I show "\<exists>t. aset m i v = Some t \<and> ?I (i + 1) t"
      by (simp add: aset_def list_update_append nat_add_distrib replicate_app_Cons_same)
  qed auto
  then show ?thesis by simp
qed

lemma bitmap_clear_run: "bitmap_clear bm (int (length bm)) = Some (replicate (length bm) 0, 0)"
  by (simp add: bitmap_clear_def for_loop_fill)

lemma bitmap_fill_run: "bitmap_fill bm (int (length bm)) = Some (replicate (length bm) 0xffffffff, 0)"
  by (simp add: bitmap_fill_def for_loop_fill)

lemma bits_on_replicate_0 [simp]: "bits_on (replicate n 0) = {}"
  by (simp add: bits_on_def bm_on_def)

lemma bits_on_replicate_1 [simp]: "bits_on (replicate n 0xffffffff) = {..<32 * n}"
proof -
  have all_ones: "(0xffffffff :: u32) = mask 32" by (simp add: mask_eq_exp_minus_1)
  have "bit (0xffffffff :: u32) m" if "m < 32" for m
    unfolding all_ones using that by (simp add: bit_mask_iff)
  then show ?thesis by (auto simp: bits_on_def bm_on_def)
qed


section \<open>The searches\<close>

text \<open>
  Reference definitions: a linear scan over bit positions. \<open>scan_up\<close> tests position \<open>p\<close>
  with \<open>c\<close> clear positions just before it, \<open>scan_down\<close> the position below \<open>m\<close>.
\<close>

function scan_up :: "(nat \<Rightarrow> bool) \<Rightarrow> nat \<Rightarrow> nat \<Rightarrow> nat \<Rightarrow> nat \<Rightarrow> nat option" where
  "scan_up on N num p c =
     (if p < N then
        (if on p then scan_up on N num (Suc p) 0
         else if Suc c = num then Some (p - c)
         else scan_up on N num (Suc p) (Suc c))
      else None)"
  by pat_completeness auto
termination
  by (relation "measure (\<lambda>(on, N, num, p, c). N - p)") auto

primrec scan_down :: "(nat \<Rightarrow> bool) \<Rightarrow> nat \<Rightarrow> nat \<Rightarrow> nat \<Rightarrow> nat option" where
  "scan_down on num 0 c = None"
| "scan_down on num (Suc p) c =
     (if on p then scan_down on num p 0
      else if Suc c = num then Some p
      else scan_down on num p (Suc c))"

declare scan_up.simps [simp del]

definition gap :: "(nat \<Rightarrow> bool) \<Rightarrow> nat \<Rightarrow> nat \<Rightarrow> bool" where
  "gap on q n \<longleftrightarrow> (\<forall>k. q \<le> k \<and> k < q + n \<longrightarrow> \<not> on k)"

lemma gapD: "gap on q n \<Longrightarrow> q \<le> k \<Longrightarrow> k < q + n \<Longrightarrow> \<not> on k"
  by (simp add: gap_def)

lemma scan_up_spec:
  assumes "c \<le> p" "start \<le> p - c" "c < num" "gap on (p - c) c"
    and "p - c = start \<or> on (p - c - 1)"
    and "\<And>q. start \<le> q \<Longrightarrow> q + num \<le> p \<Longrightarrow> \<not> gap on q num"
  shows "case scan_up on N num p c of
           None \<Rightarrow> \<forall>q. start \<le> q \<longrightarrow> q + num \<le> N \<longrightarrow> \<not> gap on q num
         | Some r \<Rightarrow> start \<le> r \<and> r + num \<le> N \<and> gap on r num \<and>
                     (\<forall>q. start \<le> q \<and> q < r \<longrightarrow> \<not> gap on q num)"
  using assms
proof (induction on N num p c rule: scan_up.induct)
  case (1 on N num p c)
  show ?case
  proof (cases "p < N")
    case False
    with "1.prems"(6) show ?thesis by (auto simp: scan_up.simps [of on N])
  next
    case p: True
    show ?thesis
    proof (cases "on p")
      case True
      have "\<not> gap on q num" if "start \<le> q" "q + num \<le> Suc p" for q
      proof (cases "q + num \<le> p")
        case True
        with "1.prems"(6) that(1) show ?thesis by blast
      next
        case False
        with that \<open>on p\<close> "1.prems"(3) show ?thesis by (auto dest!: gapD [where k = p])
      qed
      with p True "1.prems" "1.IH"(1) show ?thesis
        by (simp add: scan_up.simps [of on N num p] gap_def)
    next
      case False
      have gap1: "gap on (p - c) (Suc c)"
        using "1.prems"(1,4) False by (auto simp: gap_def less_Suc_eq)
      have later: "p - c \<le> q" if "start \<le> q" "gap on q num" "q + num = Suc p" for q
      proof (rule ccontr)
        assume "\<not> p - c \<le> q"
        then have "on (p - c - 1)" "q \<le> p - c - 1" using that "1.prems"(5) by auto
        then show False using that "1.prems"(1,3) by (auto dest: gapD [where k = "p - c - 1"])
      qed
      show ?thesis
      proof (cases "Suc c = num")
        case found: True
        have "\<not> gap on q num" if "start \<le> q" "q < p - c" for q
          using "1.prems"(6) [OF that(1)] that(2) found by simp
        with found p False gap1 "1.prems"(1,2) show ?thesis
          by (auto simp: scan_up.simps [of on N num p])
      next
        case more: False
        have "\<not> gap on q num" if "start \<le> q" "q + num \<le> Suc p" for q
        proof
          assume g: "gap on q num"
          with "1.prems"(6) that have "q + num = Suc p" by (metis le_Suc_eq)
          with later [OF that(1) g] more "1.prems"(1,3) show False by simp
        qed
        with more p False gap1 "1.prems" "1.IH"(2) show ?thesis
          by (simp add: scan_up.simps [of on N num p])
      qed
    qed
  qed
qed

lemma scan_up_cases:
  "N \<le> p \<Longrightarrow> scan_up on N num p c = None"
  "p < N \<Longrightarrow> on p \<Longrightarrow> scan_up on N num p c = scan_up on N num (Suc p) 0"
  "p < N \<Longrightarrow> \<not> on p \<Longrightarrow> Suc c = num \<Longrightarrow> scan_up on N num p c = Some (p - c)"
  "p < N \<Longrightarrow> \<not> on p \<Longrightarrow> Suc c \<noteq> num \<Longrightarrow> scan_up on N num p c = scan_up on N num (Suc p) (Suc c)"
  by (simp_all add: scan_up.simps [of on N num p c])

lemma search_from_loop_cases:
  "map_len \<le> i \<Longrightarrow> bitmap_search_from_loop bm map_len num i j count = Some (- EINVAL)"
  "i < map_len \<Longrightarrow> 32 \<le> j \<Longrightarrow> bitmap_search_from_loop bm map_len num i j count =
     bitmap_search_from_loop bm map_len num (i + 1) 0 count"
  "i < map_len \<Longrightarrow> j < 32 \<Longrightarrow> aget bm i = Some w \<Longrightarrow> aget mask_table j = Some m \<Longrightarrow> w AND m \<noteq> 0 \<Longrightarrow>
     bitmap_search_from_loop bm map_len num i j count =
     bitmap_search_from_loop bm map_len num i (j + 1) 0"
  "i < map_len \<Longrightarrow> j < 32 \<Longrightarrow> aget bm i = Some w \<Longrightarrow> aget mask_table j = Some m \<Longrightarrow> w AND m = 0 \<Longrightarrow>
     bitmap_search_from_loop bm map_len num i j count =
     (if count + 1 = num then Some (i * 32 + j - (count + 1) + 1)
      else bitmap_search_from_loop bm map_len num i (j + 1) (count + 1))"
  by (simp_all add: bitmap_search_from_loop.simps [of bm map_len num i j count])

lemma search_reverse_loop_cases:
  "i < 0 \<Longrightarrow> bitmap_search_reverse_loop bm num i j count = Some (- EINVAL)"
  "0 \<le> i \<Longrightarrow> j < 0 \<Longrightarrow> bitmap_search_reverse_loop bm num i j count =
     bitmap_search_reverse_loop bm num (i - 1) 31 count"
  "0 \<le> i \<Longrightarrow> 0 \<le> j \<Longrightarrow> aget bm i = Some w \<Longrightarrow> aget mask_table j = Some m \<Longrightarrow> w AND m \<noteq> 0 \<Longrightarrow>
     bitmap_search_reverse_loop bm num i j count = bitmap_search_reverse_loop bm num i (j - 1) 0"
  "0 \<le> i \<Longrightarrow> 0 \<le> j \<Longrightarrow> aget bm i = Some w \<Longrightarrow> aget mask_table j = Some m \<Longrightarrow> w AND m = 0 \<Longrightarrow>
     bitmap_search_reverse_loop bm num i j count =
     (if count + 1 = num then Some (i * 32 + j)
      else bitmap_search_reverse_loop bm num i (j - 1) (count + 1))"
  by (simp_all add: bitmap_search_reverse_loop.simps [of bm num i j count])

text \<open>What one inner iteration reads, for a word index \<open>i\<close> and a bit index \<open>j\<close>.\<close>

lemma search_reads:
  assumes "0 \<le> i" "i < int (length bm)" "0 \<le> j" "j < 32"
  shows "nat (i * 32 + j) < 32 * length bm"
    and "aget bm i = Some (bm ! nat i)" "aget mask_table j = Some (mask_table ! nat j)"
    and "bm ! nat i AND mask_table ! nat j = 0 \<longleftrightarrow> \<not> bm_on bm (nat (i * 32 + j))"
proof -
  have ij: "nat (i * 32 + j) = nat j + nat i * 32" using assms by (simp add: nat_add_distrib nat_mult_distrib)
  have "nat j < 32" "nat i < length bm" using assms by auto
  then have d: "nat (i * 32 + j) div 32 = nat i" "nat (i * 32 + j) mod 32 = nat j"
    and "nat (i * 32 + j) < 32 * length bm"
    unfolding ij by auto
  then show "nat (i * 32 + j) < 32 * length bm"
    and "bm ! nat i AND mask_table ! nat j = 0 \<longleftrightarrow> \<not> bm_on bm (nat (i * 32 + j))"
    using assms by (auto simp: bm_on_def and_mask_eq_0 nat_less_iff)
qed (use assms in \<open>auto simp: aget_def\<close>)

lemma search_from_loop_scan:
  assumes "0 \<le> i" "0 \<le> j" "j \<le> 32" "0 \<le> count" "count \<le> i * 32 + j"
    and "map_len = int (length bm)" "num = int n"
  shows "bitmap_search_from_loop bm map_len num i j count =
    Some (case scan_up (bm_on bm) (32 * length bm) n (nat (i * 32 + j)) (nat count) of
            None \<Rightarrow> - EINVAL | Some r \<Rightarrow> int r)"
  using assms
proof (induction bm map_len num i j count rule: bitmap_search_from_loop.induct)
  case (1 bm map_len num i j count)
  have suc: "nat (i * 32 + (j + 1)) = Suc (nat (i * 32 + j))" "nat (count + 1) = Suc (nat count)"
    using "1.prems" by auto
  consider "map_len \<le> i" | "i < map_len" "\<not> j < 32" | "i < map_len" "j < 32" by linarith
  then show ?case
  proof cases
    case 1
    with "1.prems" have "32 * length bm \<le> nat (i * 32 + j)" by linarith
    with 1 show ?thesis by (simp add: search_from_loop_cases scan_up_cases)
  next
    case 2
    then have "j = 32" using "1.prems" by simp
    with 2 "1.prems" "1.IH"(3) show ?thesis
      by (simp add: search_from_loop_cases distrib_right)
  next
    case 3
    have "i < int (length bm)" using 3 "1.prems" by simp
    note reads = search_reads [OF "1.prems"(1) this "1.prems"(2) 3(2)]
    show ?thesis
    proof (cases "bm_on bm (nat (i * 32 + j))")
      case True
      with "1.IH"(2) [OF 3 reads(2,3)] 3 reads "1.prems" suc show ?thesis
        by (simp add: search_from_loop_cases scan_up_cases)
    next
      case off: False
      show ?thesis
      proof (cases "count + 1 = num")
        case True
        then have "Suc (nat count) = n" using "1.prems" by linarith
        with True off 3 reads "1.prems" show ?thesis
          by (simp add: search_from_loop_cases scan_up_cases of_nat_diff)
      next
        case False
        then have "Suc (nat count) \<noteq> n" using "1.prems" by linarith
        with False off "1.IH"(1) [OF 3 reads(2,3) _ False] 3 reads "1.prems" suc show ?thesis
          by (simp add: search_from_loop_cases scan_up_cases)
      qed
    qed
  qed
qed


lemma scan_down_spec:
  assumes "c < num" "gap on m c" "m + c = M \<or> on (m + c)"
    and "\<And>q. m \<le> q \<Longrightarrow> q + num \<le> M \<Longrightarrow> \<not> gap on q num"
    and "m + c \<le> M"
  shows "case scan_down on num m c of
           None \<Rightarrow> \<forall>q. q + num \<le> M \<longrightarrow> \<not> gap on q num
         | Some r \<Rightarrow> r + num \<le> M \<and> gap on r num \<and>
                     (\<forall>q. r < q \<and> q + num \<le> M \<longrightarrow> \<not> gap on q num)"
  using assms
proof (induction m arbitrary: c)
  case 0
  then show ?case by simp
next
  case (Suc p)
  show ?case
  proof (cases "on p")
    case True
    have "\<not> gap on q num" if "p \<le> q" "q + num \<le> M" for q
    proof (cases "q = p")
      case True
      with \<open>on p\<close> Suc.prems(1) show ?thesis by (auto dest!: gapD [where k = p])
    next
      case False
      with Suc.prems(4) that show ?thesis by simp
    qed
    with True Suc.prems Suc.IH [of 0] show ?thesis by (simp add: gap_def)
  next
    case off: False
    have gap1: "gap on p (Suc c)"
    proof (unfold gap_def, intro allI impI)
      fix k assume "p \<le> k \<and> k < p + Suc c"
      with off Suc.prems(2) show "\<not> on k" by (cases "k = p") (auto simp: gap_def)
    qed
    show ?thesis
    proof (cases "Suc c = num")
      case True
      with Suc.prems(4,5) off gap1 show ?thesis by auto
    next
      case False
      have "\<not> gap on q num" if "p \<le> q" "q + num \<le> M" for q
      proof
        assume g: "gap on q num"
        with Suc.prems(4) [of q] that have "q = p" by linarith
        with that Suc.prems(1,3) False have "on (Suc p + c)" by auto
        with \<open>q = p\<close> g Suc.prems(1) False show False by (auto dest!: gapD [where k = "Suc p + c"])
      qed
      with False off Suc.prems Suc.IH [of "Suc c"] gap1 show ?thesis by simp
    qed
  qed
qed

lemma search_reverse_loop_scan:
  assumes "- 1 \<le> i" "i < int (length bm)" "- 1 \<le> j" "j < 32" "0 \<le> count" "num = int n"
    and "i = - 1 \<Longrightarrow> j = 31"
  shows "bitmap_search_reverse_loop bm num i j count =
    Some (case scan_down (bm_on bm) n (if i < 0 then 0 else nat (i * 32 + j + 1)) (nat count) of
            None \<Rightarrow> - EINVAL | Some r \<Rightarrow> int r)"
  using assms
proof (induction bm num i j count rule: bitmap_search_reverse_loop.induct)
  case (1 bm num i j count)
  consider "i < 0" | "0 \<le> i" "j < 0" | "0 \<le> i" "0 \<le> j" by linarith
  then show ?case
  proof cases
    case 1
    then show ?thesis by (simp add: search_reverse_loop_cases)
  next
    case 2
    then have j: "j = - 1" using "1.prems" by simp
    have "nat ((i - 1) * 32 + 31 + 1) = nat (i * 32 + j + 1)" by (simp add: j left_diff_distrib)
    with 2 "1.prems" "1.IH"(3) show ?thesis
      by (cases "i = 0") (simp_all add: search_reverse_loop_cases j)
  next
    case 3
    note reads = search_reads [OF 3(1) "1.prems"(2) 3(2) "1.prems"(4)]
    have suc: "nat (i * 32 + j + 1) = Suc (nat (i * 32 + j))" "nat (count + 1) = Suc (nat count)"
      "nat (i * 32 + (j - 1) + 1) = nat (i * 32 + j)"
      using 3 "1.prems" by auto
    show ?thesis
    proof (cases "bm_on bm (nat (i * 32 + j))")
      case True
      with "1.IH"(2) [OF 3 reads(2,3)] 3 reads "1.prems" suc show ?thesis
        by (simp add: search_reverse_loop_cases)
    next
      case off: False
      show ?thesis
      proof (cases "count + 1 = num")
        case True
        then have "Suc (nat count) = n" using "1.prems" by linarith
        with True off 3 reads "1.prems" suc show ?thesis by (simp add: search_reverse_loop_cases)
      next
        case False
        then have "Suc (nat count) \<noteq> n" using "1.prems" by linarith
        with False off "1.IH"(1) [OF 3 reads(2,3) _ False] 3 reads "1.prems" suc show ?thesis
          by (simp add: search_reverse_loop_cases)
      qed
    qed
  qed
qed

lemma run_free_gap: "run_free bm q n \<longleftrightarrow> q + n \<le> 32 * length bm \<and> gap (bm_on bm) q n"
  by (auto simp: run_free_def gap_def bits_on_def)

lemma search_from_result:
  assumes "0 < num" "num < 32 * length bm" "start < 32 * length bm"
  shows "bitmap_search_from bm (int (length bm)) (int start) (int num) =
    Some (if \<exists>q\<ge>start. run_free bm q num
          then int (LEAST q. start \<le> q \<and> run_free bm q num) else - EINVAL)"
proof -
  let ?s = "scan_up (bm_on bm) (32 * length bm) num start 0"
  have "int (start div 32 * 32 + start mod 32) = int start" by (simp only: div_mult_mod_eq)
  then have pos: "int (start div 32) * 32 + int (start mod 32) = int start"
    by (simp only: of_nat_add of_nat_mult of_nat_numeral)
  have eq: "bitmap_search_from bm (int (length bm)) (int start) (int num) =
      Some (case ?s of None \<Rightarrow> - EINVAL | Some r \<Rightarrow> int r)"
    using assms search_from_loop_scan [of "int start sdiv 32" "int start smod 32" 0 _ bm _ num] pos
    by (simp add: bitmap_search_from_def sdiv_smod_nat)
  have spec: "case ?s of
           None \<Rightarrow> \<forall>q. start \<le> q \<longrightarrow> q + num \<le> 32 * length bm \<longrightarrow> \<not> gap (bm_on bm) q num
         | Some r \<Rightarrow> start \<le> r \<and> r + num \<le> 32 * length bm \<and> gap (bm_on bm) r num \<and>
                     (\<forall>q. start \<le> q \<and> q < r \<longrightarrow> \<not> gap (bm_on bm) q num)"
    using assms by (intro scan_up_spec) (auto simp: gap_def)
  show ?thesis
  proof (cases ?s)
    case None
    with eq spec show ?thesis by (auto simp: run_free_gap)
  next
    case (Some r)
    with spec have "(LEAST q. start \<le> q \<and> run_free bm q num) = r"
      by (intro Least_equality) (auto simp: run_free_gap not_le [symmetric])
    with Some eq spec show ?thesis by (auto simp: run_free_gap)
  qed
qed

lemma search_reverse_result:
  assumes "0 < num" "num < 32 * length bm"
  shows "bitmap_search_reverse bm (int (length bm)) (int num) =
    Some (if \<exists>q. run_free bm q num then int (GREATEST q. run_free bm q num) else - EINVAL)"
proof -
  let ?s = "scan_down (bm_on bm) num (32 * length bm) 0"
  have "bm \<noteq> []" using assms by auto
  then have eq: "bitmap_search_reverse bm (int (length bm)) (int num) =
      Some (case ?s of None \<Rightarrow> - EINVAL | Some r \<Rightarrow> int r)"
    using assms search_reverse_loop_scan [of "int (length bm) - 1" bm 31 0 "int num" num]
    by (cases bm) (auto simp: bitmap_search_reverse_def nat_add_distrib nat_mult_distrib mult.commute)
  have spec: "case ?s of
           None \<Rightarrow> \<forall>q. q + num \<le> 32 * length bm \<longrightarrow> \<not> gap (bm_on bm) q num
         | Some r \<Rightarrow> r + num \<le> 32 * length bm \<and> gap (bm_on bm) r num \<and>
                     (\<forall>q. r < q \<and> q + num \<le> 32 * length bm \<longrightarrow> \<not> gap (bm_on bm) q num)"
    using assms by (intro scan_down_spec) (auto simp: gap_def)
  show ?thesis
  proof (cases ?s)
    case None
    with eq spec show ?thesis by (auto simp: run_free_gap)
  next
    case (Some r)
    with spec have "(GREATEST q. run_free bm q num) = r"
      by (intro Greatest_equality) (auto simp: run_free_gap not_le [symmetric])
    with Some eq spec show ?thesis by (auto simp: run_free_gap)
  qed
qed


section \<open>Counting\<close>

definition count_upto :: "(nat \<Rightarrow> bool) \<Rightarrow> nat \<Rightarrow> nat" where
  "count_upto P n = card {k. k < n \<and> P k}"

lemma count_upto_0 [simp]: "count_upto P 0 = 0"
  by (simp add: count_upto_def)

lemma count_upto_Suc: "count_upto P (Suc n) = count_upto P n + (if P n then 1 else 0)"
proof -
  have "{k. k < Suc n \<and> P k} = (if P n then insert n {k. k < n \<and> P k} else {k. k < n \<and> P k})"
    by (auto simp: less_Suc_eq)
  then show ?thesis by (simp add: count_upto_def)
qed

lemma count_upto_compl: "count_upto P n + count_upto (\<lambda>k. \<not> P k) n = n"
  by (induction n) (auto simp: count_upto_Suc)

lemma count_word_loop:
  assumes "i < length bm"
  shows "for_loop 0 32 (\<lambda>j count. do { m \<leftarrow> aget mask_table j;
               Some (if one \<and> m AND bm ! i \<noteq> 0 then count + 1
                     else if \<not> one \<and> m AND bm ! i = 0 then count + 1
                     else count) }) (int (count_upto (\<lambda>k. bm_on bm k = one) (32 * i)))
         = Some (int (count_upto (\<lambda>k. bm_on bm k = one) (32 * Suc i)))"
    (is "for_loop 0 32 ?b ?s = _")
proof -
  let ?P = "\<lambda>k. bm_on bm k = one"
  let ?I = "\<lambda>j c. c = int (count_upto ?P (32 * i + nat j))"
  have "\<exists>c. for_loop 0 32 ?b ?s = Some c \<and> ?I 32 c"
  proof (rule for_loop_rule [where I = ?I])
    fix j c assume j: "0 \<le> j" "j < 32" and c: "?I j c"
    then obtain n where n: "j = int n" "n < 32" by (metis of_nat_less_numeral_iff zero_le_imp_eq_int)
    have "mask_table ! n AND bm ! i = 0 \<longleftrightarrow> \<not> bm_on bm (32 * i + n)"
      using n assms by (subst and.commute) (simp add: bm_on_def and_mask_eq_0)
    with n c show "\<exists>t. ?b j c = Some t \<and> ?I (j + 1) t"
      by (auto simp: count_upto_Suc nat_add_distrib)
  qed auto
  then show ?thesis by (simp add: add.commute)
qed

lemma count_bits_run:
  assumes "flags = ONE_BITS \<or> flags = ZERO_BITS"
  shows "count_bits bm (int (length bm)) flags =
    Some (int (count_upto (\<lambda>k. bm_on bm k = (flags = ONE_BITS)) (32 * length bm)))"
proof -
  let ?P = "\<lambda>k. bm_on bm k = (flags = ONE_BITS)"
  let ?b = "\<lambda>i count. do { unit \<leftarrow> aget bm i;
             for_loop 0 32 (\<lambda>j count. do { m \<leftarrow> aget mask_table j;
               Some (if (flags = ONE_BITS) \<and> m AND unit \<noteq> 0 then count + 1
                     else if \<not> (flags = ONE_BITS) \<and> m AND unit = 0 then count + 1
                     else count) }) count }"
  let ?I = "\<lambda>i c. c = int (count_upto ?P (32 * nat i))"
  have "\<exists>c. for_loop 0 (int (length bm)) ?b 0 = Some c \<and> ?I (int (length bm)) c"
  proof (rule for_loop_rule [where I = ?I])
    fix i c assume i: "0 \<le> i" "i < int (length bm)" and c: "?I i c"
    then obtain n where n: "i = int n" "n < length bm" by (metis of_nat_less_iff zero_le_imp_eq_int)
    with c count_word_loop [OF n(2), of "flags = ONE_BITS"] show "\<exists>t. ?b i c = Some t \<and> ?I (i + 1) t"
      by (simp add: nat_add_distrib)
  qed auto
  then show ?thesis using assms by (auto simp: count_bits_def Let_def)
qed

lemma bits_on_card: "card (bits_on bm) = count_upto (bm_on bm) (32 * length bm)"
  by (simp add: bits_on_def count_upto_def)

section \<open>Exclusive or\<close>

lemma bitmap_xor_run:
  assumes "length bm2 = length bm1"
  shows "bitmap_xor bm1 bm2 (int (length bm1)) = Some (map2 (XOR) bm1 bm2, 0)"
proof -
  let ?I = "\<lambda>i m. m = map2 (XOR) (take (nat i) bm1) (take (nat i) bm2) @ drop (nat i) bm1"
  let ?b = "\<lambda>i m. do { a \<leftarrow> aget m i; b \<leftarrow> aget bm2 i; aset m i (a XOR b) }"
  have "\<exists>m. for_loop 0 (int (length bm1)) ?b bm1 = Some m \<and> ?I (int (length bm1)) m"
  proof (rule for_loop_rule [where I = ?I])
    fix i m assume i: "0 \<le> i" "i < int (length bm1)" and I: "?I i m"
    then obtain n where n: "i = int n" "n < length bm1" by (metis of_nat_less_iff zero_le_imp_eq_int)
    have "drop n bm1 = bm1 ! n # drop (Suc n) bm1" using n by (simp add: Cons_nth_drop_Suc)
    with n I assms show "\<exists>t. ?b i m = Some t \<and> ?I (i + 1) t"
      by (simp add: nat_add_distrib take_Suc_conv_app_nth nth_append list_update_append)
  qed auto
  then show ?thesis using assms by (auto simp: bitmap_xor_def)
qed

lemma bits_on_xor:
  "length bm2 = length bm1 \<Longrightarrow>
     bits_on (map2 (XOR) bm1 bm2) = (bits_on bm1 - bits_on bm2) \<union> (bits_on bm2 - bits_on bm1)"
  by (auto simp: bits_on_def bm_on_def bit_xor_iff)


section \<open>The contract a page allocator relies on\<close>

text \<open>
  \<open>page_set\<close> is what the memory manager uses of a bitmap: a capacity, the set of positions in
  use, and marking and unmarking a run. The last position of the map cannot be reached by a run
  (the guard \<^verbatim>\<open>start + len >= map_len * 32\<close> refuses it), hence the strict bounds.
\<close>

locale page_set =
  fixes capacity :: "'m \<Rightarrow> nat"
    and used :: "'m \<Rightarrow> nat set"
    and mark :: "'m \<Rightarrow> nat \<Rightarrow> nat \<Rightarrow> ('m \<times> int) option"
    and unmark :: "'m \<Rightarrow> nat \<Rightarrow> nat \<Rightarrow> ('m \<times> int) option"
  assumes mark_ok: "p + n < capacity m \<Longrightarrow>
      \<exists>m'. mark m p n = Some (m', 0) \<and> capacity m' = capacity m \<and> used m' = used m \<union> {p..<p + n}"
    and unmark_ok: "p + n < capacity m \<Longrightarrow>
      \<exists>m'. unmark m p n = Some (m', 0) \<and> capacity m' = capacity m \<and> used m' = used m - {p..<p + n}"
    and refused: "capacity m \<le> p + n \<Longrightarrow>
      mark m p n = Some (m, - EINVAL) \<and> unmark m p n = Some (m, - EINVAL)"
    and extensional: "capacity m = capacity m' \<Longrightarrow> used m = used m' \<Longrightarrow> m = m'"
begin

lemma never_faults: "mark m p n \<noteq> None \<and> unmark m p n \<noteq> None"
proof (cases "p + n < capacity m")
  case True
  then show ?thesis using mark_ok [OF True] unmark_ok [OF True] by auto
next
  case False
  then show ?thesis using refused [of m p n] by simp
qed

text \<open>Releasing what was just taken restores the map.\<close>

lemma unmark_mark:
  assumes "p + n < capacity m" and "used m \<inter> {p..<p + n} = {}" and "mark m p n = Some (m', r)"
  shows "unmark m' p n = Some (m, 0)"
proof -
  from mark_ok [OF assms(1)] assms(3)
  have m': "capacity m' = capacity m" "used m' = used m \<union> {p..<p + n}" by auto
  with assms(1) unmark_ok [of p n m'] obtain m'' where m'': "unmark m' p n = Some (m'', 0)"
    "capacity m'' = capacity m'" "used m'' = used m' - {p..<p + n}" by auto
  have "used m'' = used m" using m' m'' assms(2) by auto
  with m' m'' extensional [of m'' m] show ?thesis by simp
qed

text \<open>Two runs taken one after the other, each free when taken, do not overlap.\<close>

lemma marked_runs_disjoint:
  assumes "p + n < capacity m" "mark m p n = Some (m1, r)" "used m1 \<inter> {q..<q + k} = {}"
  shows "{p..<p + n} \<inter> {q..<q + k} = {}"
proof -
  from mark_ok [OF assms(1)] assms(2) have "used m1 = used m \<union> {p..<p + n}" by auto
  with assms(3) show ?thesis by blast
qed

end

interpretation bitset: page_set
  "\<lambda>bm. 32 * length bm" bits_on
  "\<lambda>bm p n. bitmap_set_nbits bm (int (length bm)) (int p) (int n)"
  "\<lambda>bm p n. bitmap_clear_nbits bm (int (length bm)) (int p) (int n)"
proof (unfold_locales, goal_cases)
  case (1 p n m) then show ?case using bitmap_set_nbits_run [of p n m] by auto
next
  case (2 p n m) then show ?case using bitmap_clear_nbits_run [of p n m] by auto
next
  case (3 m p n) then show ?case by (intro bitmap_nbits_refused) linarith
next
  case (4 m m') then show ?case by (intro bits_on_inject) auto
qed

section \<open>Properties\<close>

lemma scan_up_zero: "scan_up on N 0 p c = None"
  by (induction on N "0 :: nat" p c rule: scan_up.induct) (simp add: scan_up.simps)

lemma search_from_zero: "start < 32 * length bm \<Longrightarrow>
  bitmap_search_from bm (int (length bm)) (int start) 0 = Some (- EINVAL)"
  using search_from_loop_scan [of "int start sdiv 32" "int start smod 32" 0 "int (length bm)" bm 0 0]
  by (auto simp: bitmap_search_from_def sdiv_smod_nat scan_up_zero)

text \<open>
  \<open>bitmap_search_from\<close> is first fit: it never reads outside the map, and it returns the
  lowest position at or after \<open>start\<close> where \<open>num\<close> consecutive bits are clear, or
  \<open>-EINVAL\<close> exactly when there is none or \<open>num\<close> is zero or as long as the whole map.
\<close>

theorem bitmap_search_from_first_fit:
  assumes "start < 32 * length bm"
  shows "\<exists>r. bitmap_search_from bm (int (length bm)) (int start) (int num) = Some r \<and>
    (if 0 < num \<and> num < 32 * length bm \<and> (\<exists>q\<ge>start. run_free bm q num)
     then 0 \<le> r \<and> start \<le> nat r \<and> run_free bm (nat r) num \<and>
          (\<forall>q. start \<le> q \<and> q < nat r \<longrightarrow> \<not> run_free bm q num)
     else r = - EINVAL)"
proof -
  consider "num = 0" | "32 * length bm \<le> num" | "0 < num" "num < 32 * length bm" by linarith
  then show ?thesis
  proof cases
    case 1
    with search_from_zero [OF assms] show ?thesis by simp
  next
    case 2
    then have "int (length bm) * 32 \<le> int num" by linarith
    with 2 show ?thesis by (simp add: bitmap_search_from_def)
  next
    case 3
    let ?P = "\<lambda>q. start \<le> q \<and> run_free bm q num"
    show ?thesis
    proof (cases "\<exists>q. ?P q")
      case True
      define l where "l = (LEAST q. ?P q)"
      have "?P l" unfolding l_def using True by (rule LeastI_ex)
      moreover have "\<not> ?P q" if "q < l" for q
        using that unfolding l_def by (rule not_less_Least)
      moreover have "bitmap_search_from bm (int (length bm)) (int start) (int num) = Some (int l)"
        using True search_from_result [OF 3 assms] by (simp add: l_def)
      ultimately show ?thesis using 3 by (intro exI [of _ "int l"]) auto
    next
      case False
      with 3 search_from_result [OF 3 assms] show ?thesis by auto
    qed
  qed
qed

theorem bitmap_search_from_first_fit_witness:
  "bitmap_search_from [0xff000000, 0] 2 3 40 = Some 8 \<and> run_free [0xff000000, 0] 8 40 \<and>
   \<not> run_free [0xff000000, 0] 7 40"
proof -
  have "bitmap_search_from [0xff000000, 0] 2 3 40 = Some 8" by code_simp
  then show ?thesis
    using bitmap_search_from_first_fit [of 3 "[0xff000000, 0]" 40] by (auto split: if_splits)
qed

text \<open>
  \<open>bitmap_search_reverse\<close> is last fit: it returns the highest position where \<open>num\<close>
  consecutive bits are clear, or \<open>-EINVAL\<close> when there is none.
\<close>

theorem bitmap_search_reverse_last_fit:
  assumes "0 < num" "num < 32 * length bm"
  shows "\<exists>r. bitmap_search_reverse bm (int (length bm)) (int num) = Some r \<and>
    (if \<exists>q. run_free bm q num
     then 0 \<le> r \<and> run_free bm (nat r) num \<and> (\<forall>q>nat r. \<not> run_free bm q num)
     else r = - EINVAL)"
proof (cases "\<exists>q. run_free bm q num")
  case True
  define g where "g = (GREATEST q. run_free bm q num)"
  have bound: "q \<le> 32 * length bm" if "run_free bm q num" for q
    using that by (simp add: run_free_def)
  from True have "run_free bm g num"
    unfolding g_def using bound by (metis GreatestI_ex_nat)
  moreover have "\<not> run_free bm q num" if "g < q" for q
  proof
    assume "run_free bm q num"
    then have "q \<le> g" unfolding g_def using bound by (rule Greatest_le_nat)
    with that show False by simp
  qed
  moreover have "bitmap_search_reverse bm (int (length bm)) (int num) = Some (int g)"
    using True search_reverse_result [OF assms] by (simp add: g_def)
  ultimately show ?thesis using True by (intro exI [of _ "int g"]) auto
next
  case False
  with search_reverse_result [OF assms] show ?thesis by auto
qed

theorem bitmap_search_reverse_last_fit_witness:
  "bitmap_search_reverse [0, 0x000000ff] 2 8 = Some 48 \<and> run_free [0, 0x000000ff] 48 8 \<and>
   \<not> run_free [0, 0x000000ff] 49 8"
proof -
  have "bitmap_search_reverse [0, 0x000000ff] 2 8 = Some 48" by code_simp
  then show ?thesis
    using bitmap_search_reverse_last_fit [of 8 "[0, 0x000000ff]"] by (auto split: if_splits)
qed

text \<open>
  Setting and clearing a run inside the map change exactly the bits of that run, keep the
  length and return 0; clearing a run that was free before it was set gives the map back. A run
  that reaches the last bit of the map is refused with \<open>-EINVAL\<close> and nothing changes.
\<close>

theorem bitmap_nbits_refine:
  "(p + n < 32 * length bm \<longrightarrow>
     (\<exists>bm'. bitmap_set_nbits bm (int (length bm)) (int p) (int n) = Some (bm', 0) \<and>
        length bm' = length bm \<and> bits_on bm' = bits_on bm \<union> {p..<p + n} \<and>
        (run_free bm p n \<longrightarrow>
           bitmap_clear_nbits bm' (int (length bm)) (int p) (int n) = Some (bm, 0))) \<and>
     (\<exists>bm'. bitmap_clear_nbits bm (int (length bm)) (int p) (int n) = Some (bm', 0) \<and>
        length bm' = length bm \<and> bits_on bm' = bits_on bm - {p..<p + n})) \<and>
   (32 * length bm \<le> p + n \<longrightarrow>
     bitmap_set_nbits bm (int (length bm)) (int p) (int n) = Some (bm, - EINVAL) \<and>
     bitmap_clear_nbits bm (int (length bm)) (int p) (int n) = Some (bm, - EINVAL))"
proof (intro conjI impI)
  assume pn: "p + n < 32 * length bm"
  then obtain bm' where bm': "bitmap_set_nbits bm (int (length bm)) (int p) (int n) = Some (bm', 0)"
    "length bm' = length bm" "bits_on bm' = bits_on bm \<union> {p..<p + n}"
    using bitmap_set_nbits_run by blast
  have "bitmap_clear_nbits bm' (int (length bm)) (int p) (int n) = Some (bm, 0)" if "run_free bm p n"
    using bitset.unmark_mark [OF pn _ bm'(1)] that bm'(2) by (force simp: run_free_def)
  with bm' show "\<exists>bm'. bitmap_set_nbits bm (int (length bm)) (int p) (int n) = Some (bm', 0) \<and>
        length bm' = length bm \<and> bits_on bm' = bits_on bm \<union> {p..<p + n} \<and>
        (run_free bm p n \<longrightarrow>
           bitmap_clear_nbits bm' (int (length bm)) (int p) (int n) = Some (bm, 0))" by blast
  show "\<exists>bm'. bitmap_clear_nbits bm (int (length bm)) (int p) (int n) = Some (bm', 0) \<and>
        length bm' = length bm \<and> bits_on bm' = bits_on bm - {p..<p + n}"
    using pn by (rule bitmap_clear_nbits_run)
next
  assume "32 * length bm \<le> p + n"
  then show "bitmap_set_nbits bm (int (length bm)) (int p) (int n) = Some (bm, - EINVAL)"
    and "bitmap_clear_nbits bm (int (length bm)) (int p) (int n) = Some (bm, - EINVAL)"
    using bitset.refused [of bm p n] by auto
qed

theorem bitmap_nbits_refine_witness:
  "\<exists>bm'. bitmap_set_nbits [0, 0] 2 30 4 = Some (bm', 0) \<and> bits_on bm' = {30..<34} \<and>
         bitmap_clear_nbits bm' 2 30 4 = Some ([0, 0], 0)"
proof -
  have "bits_on [0, 0] = {}" by (auto simp: bits_on_def bm_on_def nth_Cons split: nat.splits)
  moreover from this have "run_free [0, 0] 30 4" by (auto simp: run_free_def)
  ultimately show ?thesis using bitmap_nbits_refine [of 30 4 "[0, 0]"] by auto
qed

text \<open>
  \<open>count_bits\<close> counts the positions of the map that are 1, or those that are 0; the two
  counts add up to the number of bits, and any other flag is refused.
\<close>

theorem count_bits_correct:
  "count_bits bm (int (length bm)) ONE_BITS = Some (int (card (bits_on bm))) \<and>
   count_bits bm (int (length bm)) ZERO_BITS = Some (32 * int (length bm) - int (card (bits_on bm))) \<and>
   (flags \<notin> {ONE_BITS, ZERO_BITS} \<longrightarrow> count_bits bm (int (length bm)) flags = Some (- EINVAL))"
proof (intro conjI impI)
  show "count_bits bm (int (length bm)) ONE_BITS = Some (int (card (bits_on bm)))"
    by (simp add: count_bits_run bits_on_card)
  have "count_bits bm (int (length bm)) ZERO_BITS =
      Some (int (count_upto (\<lambda>k. \<not> bm_on bm k) (32 * length bm)))"
    by (simp add: count_bits_run)
  moreover have "int (count_upto (\<lambda>k. \<not> bm_on bm k) (32 * length bm)) =
      32 * int (length bm) - int (card (bits_on bm))"
    using count_upto_compl [of "bm_on bm" "32 * length bm"] by (simp add: bits_on_card)
  ultimately show "count_bits bm (int (length bm)) ZERO_BITS =
      Some (32 * int (length bm) - int (card (bits_on bm)))" by simp
  show "flags \<notin> {ONE_BITS, ZERO_BITS} \<Longrightarrow> count_bits bm (int (length bm)) flags = Some (- EINVAL)"
    by (simp add: count_bits_def)
qed

theorem count_bits_correct_witness:
  "count_bits [0x0000ffff, 0] 2 5 = Some (- EINVAL)"
  using count_bits_correct [of "[0x0000ffff, 0]" 5] by simp

end
