(* ===== verification/Mm.thy ===== *)
theory Mm
  imports Bitmap
begin

text \<open>
  Physical page allocation (\<^verbatim>\<open>winix/mm.c\<close>, \<^verbatim>\<open>include_winix/winix/page.h\<close>,
  \<^verbatim>\<open>align_page\<close> of \<^verbatim>\<open>winix/util.c\<close>). The state is the system page map and the first
  page after the kernel's BSS. Operations on behalf of a process also take and return its
  protection table. Addresses count words; \<open>NULL\<close> is address 0. \<open>page_inv\<close> is the invariant
  the allocator keeps; under it every request of whole pages gets pages that were free.
\<close>

section \<open>Pages and addresses\<close>

abbreviation (input) PAGE_LEN :: int where "PAGE_LEN \<equiv> 1024"
abbreviation (input) MEM_MAP_LEN :: int where "MEM_MAP_LEN \<equiv> 4"
abbreviation (input) PTABLE_LEN :: int where "PTABLE_LEN \<equiv> 32"
abbreviation (input) GFP_NORM :: int where "GFP_NORM \<equiv> 1"
abbreviation (input) GFP_HIGH :: int where "GFP_HIGH \<equiv> 2"
abbreviation (input) FREE_MEM_END :: int where "FREE_MEM_END \<equiv> 0x1ffff"

definition ALIGN1K_LB :: "int \<Rightarrow> int" where
  "ALIGN1K_LB x = push_bit 10 (drop_bit 10 (x - 1))"

definition align_page :: "int \<Rightarrow> int" where
  "align_page len = ALIGN1K_LB len + PAGE_LEN"

text \<open>The casts to \<^verbatim>\<open>unsigned long\<close> of the page macros are reductions modulo \<open>2 ^ 32\<close>.\<close>

definition PADDR_TO_PAGED :: "int \<Rightarrow> int" where
  "PADDR_TO_PAGED a = (a mod 2 ^ 32) div PAGE_LEN"

definition PADDR_TO_NUM_PAGES :: "int \<Rightarrow> int" where
  "PADDR_TO_NUM_PAGES a = (align_page a mod 2 ^ 32) div PAGE_LEN"

definition PAGE_TO_PADDR :: "int \<Rightarrow> addr" where
  "PAGE_TO_PADDR i = (i * PAGE_LEN) mod 2 ^ 32"

definition get_physical_addr :: "addr \<Rightarrow> addr \<Rightarrow> addr" where
  "get_physical_addr va rbase = (va + rbase) mod 2 ^ 32"

definition get_virtual_addr :: "addr \<Rightarrow> addr \<Rightarrow> addr" where
  "get_virtual_addr pa rbase = (pa - rbase) mod 2 ^ 32"

section \<open>The operations\<close>

record mm =
  mem_map :: "u32 list"
  bss_page_end :: int

function is_vaddr_ok_loop :: "u32 list \<Rightarrow> int \<Rightarrow> int \<Rightarrow> bool \<Rightarrow> bool option" where
  "is_vaddr_ok_loop ptable start_page end_page ret =
     (if start_page \<le> end_page
      then do { on \<leftarrow> is_bit_on ptable PTABLE_LEN start_page;
                if on then is_vaddr_ok_loop ptable (start_page + 1) end_page on else Some on }
      else Some ret)"
  by pat_completeness auto
termination
  by (relation "measure (\<lambda>(ptable, s, e, r). nat (e - s + 1))") auto

definition is_vaddr_ok :: "addr \<Rightarrow> int \<Rightarrow> addr \<Rightarrow> u32 list \<Rightarrow> bool option" where
  "is_vaddr_ok vaddr len rbase ptable =
     is_vaddr_ok_loop ptable (PADDR_TO_PAGED (get_physical_addr vaddr rbase))
       (PADDR_TO_PAGED (get_physical_addr (vaddr + len) rbase)) False"

definition is_page_free :: "mm \<Rightarrow> addr \<Rightarrow> bool option" where
  "is_page_free m a = map_option Not (is_bit_on (mem_map m) MEM_MAP_LEN (PADDR_TO_PAGED a))"

function is_pages_free_from_loop :: "mm \<Rightarrow> int \<Rightarrow> int \<Rightarrow> int \<Rightarrow> bool option" where
  "is_pages_free_from_loop m i page_num paged =
     (if i < page_num
      then do { on \<leftarrow> is_bit_on (mem_map m) MEM_MAP_LEN paged;
                if on then Some False else is_pages_free_from_loop m (i + 1) page_num (paged + 1) }
      else Some True)"
  by pat_completeness auto
termination
  by (relation "measure (\<lambda>(m, i, n, p). nat (n - i))") auto

definition is_pages_free_from :: "mm \<Rightarrow> addr \<Rightarrow> int \<Rightarrow> bool option" where
  "is_pages_free_from m a sz =
     is_pages_free_from_loop m 0 (PADDR_TO_NUM_PAGES sz) (PADDR_TO_PAGED a)"

definition peek_free_pages :: "mm \<Rightarrow> int \<Rightarrow> int \<Rightarrow> int option" where
  "peek_free_pages m len flags =
     (let num = PADDR_TO_PAGED len in
      if flags AND GFP_HIGH \<noteq> 0 then bitmap_search_reverse (mem_map m) MEM_MAP_LEN num
      else bitmap_search_from (mem_map m) MEM_MAP_LEN (bss_page_end m) num)"

definition get_free_pages :: "mm \<Rightarrow> int \<Rightarrow> int \<Rightarrow> (mm \<times> addr) option" where
  "get_free_pages m len flags =
     (let num = PADDR_TO_NUM_PAGES len in
      do { nstart \<leftarrow> peek_free_pages m len flags;
           if 0 \<le> nstart
           then do { (bm, err) \<leftarrow> bitmap_set_nbits (mem_map m) MEM_MAP_LEN nstart num;
                     Some (m\<lparr>mem_map := bm\<rparr>, PAGE_TO_PADDR nstart) }
           else Some (m, NULL) })"

definition user_get_free_pages ::
  "mm \<Rightarrow> u32 list \<Rightarrow> int \<Rightarrow> int \<Rightarrow> (mm \<times> u32 list \<times> addr) option" where
  "user_get_free_pages m ptable len flags =
     do { (m', p) \<leftarrow> get_free_pages m len flags;
          if p = NULL then Some (m', ptable, NULL)
          else do { (pt, err) \<leftarrow> bitmap_set_nbits ptable PTABLE_LEN (PADDR_TO_PAGED p)
                                   (PADDR_TO_NUM_PAGES len);
                    if err \<noteq> 0 then Some (m', pt, NULL) else Some (m', pt, p) } }"

definition get_free_pages_from :: "mm \<Rightarrow> addr \<Rightarrow> int \<Rightarrow> (mm \<times> int) option" where
  "get_free_pages_from m a sz =
     do { free \<leftarrow> is_pages_free_from m a sz;
          if \<not> free then Some (m, - ENOMEM)
          else do { (bm, err) \<leftarrow> bitmap_set_nbits (mem_map m) MEM_MAP_LEN (PADDR_TO_PAGED a)
                                   (PADDR_TO_NUM_PAGES sz);
                    Some (m\<lparr>mem_map := bm\<rparr>, err) } }"

definition user_get_free_pages_from ::
  "mm \<Rightarrow> u32 list \<Rightarrow> addr \<Rightarrow> int \<Rightarrow> (mm \<times> u32 list \<times> int) option" where
  "user_get_free_pages_from m ptable a sz =
     do { (m', err) \<leftarrow> get_free_pages_from m a sz;
          if err \<noteq> 0 then Some (m', ptable, err)
          else do { (pt, err) \<leftarrow> bitmap_set_nbits ptable PTABLE_LEN (PADDR_TO_PAGED a)
                                   (PADDR_TO_NUM_PAGES sz);
                    Some (m', pt, err) } }"

definition peek_next_free_page :: "mm \<Rightarrow> int option" where
  "peek_next_free_page m = bitmap_search_from (mem_map m) MEM_MAP_LEN (bss_page_end m) 1"

definition peek_last_free_page :: "mm \<Rightarrow> int option" where
  "peek_last_free_page m = bitmap_search_reverse (mem_map m) MEM_MAP_LEN 1"

definition release_pages :: "mm \<Rightarrow> addr \<Rightarrow> int \<Rightarrow> (mm \<times> int) option" where
  "release_pages m page len =
     (if (page mod 2 ^ 32) mod PAGE_LEN \<noteq> 0 then Some (m, - EINVAL)
      else do { (bm, err) \<leftarrow> bitmap_clear_nbits (mem_map m) MEM_MAP_LEN (PADDR_TO_PAGED page)
                               (PADDR_TO_PAGED len);
                Some (m\<lparr>mem_map := bm\<rparr>, err) })"

definition user_release_pages ::
  "mm \<Rightarrow> u32 list \<Rightarrow> addr \<Rightarrow> int \<Rightarrow> (mm \<times> u32 list \<times> int) option" where
  "user_release_pages m ptable page len =
     do { (m', ret) \<leftarrow> release_pages m page len;
          if ret \<noteq> 0 then Some (m', ptable, ret)
          else do { (pt, err) \<leftarrow> bitmap_clear_nbits ptable PTABLE_LEN (PADDR_TO_PAGED page)
                                   (PADDR_TO_PAGED len);
                    Some (m', pt, err) } }"

definition init_mem_table :: "addr \<Rightarrow> mm option" where
  "init_mem_table BSS_END =
     (let free_mem_begin = (BSS_END OR 0x03ff) + 1;
          len = free_mem_begin div PAGE_LEN in
      do { (bm, _) \<leftarrow> bitmap_clear (replicate 4 0) MEM_MAP_LEN;
           (bm, _) \<leftarrow> bitmap_set_nbits bm MEM_MAP_LEN 0 len;
           (bm, _) \<leftarrow> bitmap_set_bit bm MEM_MAP_LEN (FREE_MEM_END div PAGE_LEN);
           Some \<lparr>mem_map = bm, bss_page_end = PADDR_TO_PAGED free_mem_begin\<rparr> })"

declare is_vaddr_ok_loop.simps [simp del] is_pages_free_from_loop.simps [simp del]

section \<open>Page arithmetic\<close>

lemma align_page_eq: "align_page len = (len - 1) div 1024 * 1024 + 1024"
  by (simp add: align_page_def ALIGN1K_LB_def push_bit_eq_mult drop_bit_eq_div)

lemma align_page_whole: "align_page (int n * 1024) = int n * 1024"
proof -
  have "(- 1 + int n * 1024) div 1024 = int n - 1" by (subst div_mult_self1) simp_all
  then show ?thesis by (simp add: align_page_eq)
qed

lemma paged_whole [simp]: "n < 2 ^ 22 \<Longrightarrow> PADDR_TO_PAGED (int n * 1024) = int n"
  by (simp add: PADDR_TO_PAGED_def)

lemma num_pages_whole [simp]: "n < 2 ^ 22 \<Longrightarrow> PADDR_TO_NUM_PAGES (int n * 1024) = int n"
  by (simp add: PADDR_TO_NUM_PAGES_def align_page_whole)

lemma page_to_paddr [simp]: "n < 2 ^ 22 \<Longrightarrow> PAGE_TO_PADDR (int n) = int n * 1024"
  by (simp add: PAGE_TO_PADDR_def)

text \<open>Rounding up: the least whole number of pages that holds \<open>len\<close> words.\<close>

lemma align_page_bounds: "len \<le> align_page len \<and> align_page len < len + 1024 \<and> align_page len mod 1024 = 0"
proof -
  have "(len - 1) div 1024 * 1024 = len - 1 - (len - 1) mod 1024"
    by (simp add: minus_mod_eq_div_mult)
  moreover have "0 \<le> (len - 1) mod 1024" "(len - 1) mod 1024 < 1024" by simp_all
  moreover have "((len - 1) div 1024 * 1024 + 1024) mod 1024 = 0" by simp
  ultimately show ?thesis unfolding align_page_eq by linarith
qed

lemma virt_phys: "0 \<le> pa \<Longrightarrow> pa < 2 ^ 32 \<Longrightarrow> get_physical_addr (get_virtual_addr pa rbase) rbase = pa"
  by (simp add: get_physical_addr_def get_virtual_addr_def mod_simps)


section \<open>The allocator's invariant\<close>

text \<open>
  Four words of map, the pages below \<open>bss_page_end\<close> taken, and the last page (127) taken: it
  is marked by \<open>init_mem_table\<close> and no run can reach it, which is what makes
  \<^verbatim>\<open>bitmap_set_nbits\<close> succeed on every run a search returns.
\<close>

definition page_inv :: "mm \<Rightarrow> bool" where
  "page_inv m \<longleftrightarrow> length (mem_map m) = 4 \<and> 127 \<in> bits_on (mem_map m) \<and>
     0 < bss_page_end m \<and> bss_page_end m < 128 \<and> {..<nat (bss_page_end m)} \<subseteq> bits_on (mem_map m)"

definition used_pages :: "mm \<Rightarrow> nat set" where
  "used_pages m = bits_on (mem_map m)"

text \<open>The page where a request for \<open>n\<close> whole pages may start, and the one the flags choose.\<close>

definition fits :: "mm \<Rightarrow> int \<Rightarrow> nat \<Rightarrow> nat \<Rightarrow> bool" where
  "fits m flags n p \<longleftrightarrow> (flags AND GFP_HIGH \<noteq> 0 \<or> nat (bss_page_end m) \<le> p) \<and>
     p + n \<le> 128 \<and> {p..<p + n} \<inter> used_pages m = {}"

lemma fits_run_free:
  "page_inv m \<Longrightarrow> fits m flags n p \<longleftrightarrow>
     (flags AND GFP_HIGH \<noteq> 0 \<or> nat (bss_page_end m) \<le> p) \<and> run_free (mem_map m) p n"
  by (auto simp: fits_def run_free_def page_inv_def used_pages_def)

lemma fits_below_last:
  assumes "page_inv m" "fits m flags n p" "0 < n" shows "p + n < 128"
proof (rule ccontr)
  assume "\<not> p + n < 128"
  with assms have "127 \<in> {p..<p + n} \<inter> used_pages m"
    by (auto simp: fits_def page_inv_def used_pages_def)
  with assms(2) show False by (auto simp: fits_def)
qed

lemma peek_free_pages_run:
  assumes "page_inv m" "0 < n" "n < 128"
  shows "\<exists>r. peek_free_pages m (int n * 1024) flags = Some r \<and>
    (if \<exists>p. fits m flags n p then 0 \<le> r \<and> fits m flags n (nat r) else r = - EINVAL)"
proof -
  have len: "int (length (mem_map m)) = 4" "32 * length (mem_map m) = 128"
    using assms(1) by (auto simp: page_inv_def)
  have peek: "peek_free_pages m (int n * 1024) flags =
      (if flags AND GFP_HIGH \<noteq> 0 then bitmap_search_reverse (mem_map m) 4 (int n)
       else bitmap_search_from (mem_map m) 4 (bss_page_end m) (int n))"
    using assms(3) by (simp add: peek_free_pages_def)
  show ?thesis
  proof (cases "flags AND GFP_HIGH \<noteq> 0")
    case True
    let ?P = "\<lambda>q. run_free (mem_map m) q n"
    have f: "fits m flags n p \<longleftrightarrow> ?P p" for p using fits_run_free [OF assms(1)] True by simp
    have "?P (GREATEST q. ?P q)" if "\<exists>q. ?P q"
      using that by (metis (no_types, lifting) GreatestI_ex_nat add_leE run_free_def)
    then show ?thesis
      using search_reverse_result [of n "mem_map m"] assms True len f by (simp add: peek)
  next
    case False
    let ?P = "\<lambda>q. nat (bss_page_end m) \<le> q \<and> run_free (mem_map m) q n"
    have f: "fits m flags n p \<longleftrightarrow> ?P p" for p using fits_run_free [OF assms(1)] False by simp
    have b: "int (nat (bss_page_end m)) = bss_page_end m" "nat (bss_page_end m) < 128"
      using assms(1) by (auto simp: page_inv_def)
    have "?P (LEAST q. ?P q)" if "\<exists>q. ?P q" using that by (rule LeastI_ex)
    then show ?thesis
      using search_from_result [of n "mem_map m" "nat (bss_page_end m)"] assms False len f b
      by (simp add: peek)
  qed
qed


lemma get_free_pages_run:
  assumes "page_inv m" "0 < n" "n < 128"
  shows "(\<exists>p m'. fits m flags n p \<and> get_free_pages m (int n * 1024) flags = Some (m', int p * 1024) \<and>
            page_inv m' \<and> bss_page_end m' = bss_page_end m \<and> used_pages m' = used_pages m \<union> {p..<p + n}) \<or>
         ((\<nexists>p. fits m flags n p) \<and> get_free_pages m (int n * 1024) flags = Some (m, NULL))"
proof -
  obtain r where r: "peek_free_pages m (int n * 1024) flags = Some r"
    "if \<exists>p. fits m flags n p then 0 \<le> r \<and> fits m flags n (nat r) else r = - EINVAL"
    using peek_free_pages_run [OF assms] by blast
  have n: "PADDR_TO_NUM_PAGES (int n * 1024) = int n" using assms(3) by simp
  show ?thesis
  proof (cases "\<exists>p. fits m flags n p")
    case False
    with r n show ?thesis by (simp add: get_free_pages_def)
  next
    case True
    define p where "p = nat r"
    have p: "r = int p" "fits m flags n p" using True r by (auto simp: p_def)
    have len: "length (mem_map m) = 4" using assms(1) by (simp add: page_inv_def)
    have "p + n < 32 * length (mem_map m)" using fits_below_last [OF assms(1) p(2) assms(2)] len by simp
    then obtain bm where bm: "bitmap_set_nbits (mem_map m) 4 (int p) (int n) = Some (bm, 0)"
      "length bm = 4" "bits_on bm = bits_on (mem_map m) \<union> {p..<p + n}"
      using bitmap_set_nbits_run [of p n "mem_map m"] len by auto
    have "PAGE_TO_PADDR r = int p * 1024" using p fits_def by simp
    then have "get_free_pages m (int n * 1024) flags = Some (m\<lparr>mem_map := bm\<rparr>, int p * 1024)"
      using r(1) n p bm by (simp add: get_free_pages_def)
    moreover have "page_inv (m\<lparr>mem_map := bm\<rparr>)" "used_pages (m\<lparr>mem_map := bm\<rparr>) = used_pages m \<union> {p..<p + n}"
      using assms(1) bm by (auto simp: page_inv_def used_pages_def)
    ultimately show ?thesis using p(2) by (metis mm.select_convs(2) mm.surjective mm.update_convs(1))
  qed
qed

lemma release_pages_run:
  assumes "page_inv m" "p + n < 128" "nat (bss_page_end m) \<le> p"
  shows "\<exists>m'. release_pages m (int p * 1024) (int n * 1024) = Some (m', 0) \<and> page_inv m' \<and>
           bss_page_end m' = bss_page_end m \<and> used_pages m' = used_pages m - {p..<p + n}"
proof -
  have len: "length (mem_map m) = 4" using assms(1) by (simp add: page_inv_def)
  with assms(2) obtain bm where bm: "bitmap_clear_nbits (mem_map m) 4 (int p) (int n) = Some (bm, 0)"
    "length bm = 4" "bits_on bm = bits_on (mem_map m) - {p..<p + n}"
    using bitmap_clear_nbits_run [of p n "mem_map m"] by auto
  have "release_pages m (int p * 1024) (int n * 1024) = Some (m\<lparr>mem_map := bm\<rparr>, 0)"
    using bm assms(2) by (simp add: release_pages_def)
  moreover have "page_inv (m\<lparr>mem_map := bm\<rparr>)" using assms bm by (auto simp: page_inv_def)
  ultimately show ?thesis using bm by (auto simp: used_pages_def)
qed

lemma mm_eqI:
  "length (mem_map m) = length (mem_map m') \<Longrightarrow> used_pages m = used_pages m' \<Longrightarrow>
     bss_page_end m = bss_page_end m' \<Longrightarrow> m = (m' :: mm)"
  using bits_on_inject [of "mem_map m" "mem_map m'"] by (cases m, cases m') (simp add: used_pages_def)

lemma init_mem_table_run:
  assumes "0 \<le> b" "b < 1024 * 126"
  shows "\<exists>m. init_mem_table b = Some m \<and> page_inv m \<and>
           bss_page_end m = b div 1024 + 1 \<and> used_pages m = {..<nat (b div 1024 + 1)} \<union> {127}"
proof -
  let ?f = "(b OR 0x03ff) + 1"
  have f: "?f = (b div 1024 + 1) * 1024"
  proof -
    have "b OR 0x03ff = b OR mask 10" by (simp add: mask_eq_exp_minus_1)
    also have "\<dots> = push_bit 10 (drop_bit 10 b) OR mask 10"
      by (rule bit_eqI) (auto simp: bit_simps not_less)
    also have "\<dots> = push_bit 10 (drop_bit 10 b) + mask 10"
      by (rule disjunctive_add [symmetric]) (auto simp: bit_simps)
    finally show ?thesis by (simp add: mask_eq_exp_minus_1 push_bit_eq_mult drop_bit_eq_div)
  qed
  define q where "q = nat (b div 1024 + 1)"
  have q: "b div 1024 + 1 = int q" "q \<le> 126" "0 < q" using assms by (auto simp: q_def)
  obtain bm where bm: "bitmap_set_nbits (replicate 4 0) 4 0 (int q) = Some (bm, 0)"
    "length bm = 4" "bits_on bm = {..<q}"
    using bitmap_set_nbits_run [of 0 q "replicate 4 0"] q(2) by (auto simp: lessThan_atLeast0)
  obtain bm2 where bm2: "bitmap_set_bit bm 4 127 = Some (bm2, 0)" "length bm2 = 4"
    "bits_on bm2 = insert 127 (bits_on bm)"
    using bitmap_set_bit_run [of 127 bm] bm(2) by auto
  have "init_mem_table b = Some \<lparr>mem_map = bm2, bss_page_end = int q\<rparr>"
    using bitmap_clear_run [of "replicate 4 0"] bm bm2 q(2)
    by (simp add: init_mem_table_def f Let_def q(1))
  with bm bm2 q show ?thesis by (auto simp: page_inv_def used_pages_def)
qed


lemma fits_not_page_0:
  assumes "page_inv m" "0 < n" "fits m flags n p" shows "0 < p"
proof (rule ccontr)
  assume "\<not> 0 < p"
  with assms(2) have "0 \<in> {p..<p + n}" by simp
  moreover have "0 \<in> used_pages m" using assms(1) by (auto simp: page_inv_def used_pages_def)
  ultimately show False using assms(3) by (auto simp: fits_def)
qed

lemma fits_above_kernel:
  assumes "fits m flags n p" "page_inv m" "0 < n" shows "nat (bss_page_end m) \<le> p"
proof (rule ccontr)
  assume "\<not> nat (bss_page_end m) \<le> p"
  with assms(2) have "p \<in> used_pages m" by (auto simp: page_inv_def used_pages_def)
  moreover have "p \<in> {p..<p + n}" using assms(3) by simp
  ultimately show False using assms(1) unfolding fits_def by blast
qed

lemma is_pages_free_from_loop_run:
  assumes "length (mem_map m) = 4" "i \<le> n" "p + (n - i) \<le> 128"
  shows "is_pages_free_from_loop m (int i) (int n) (int p) = Some ({p..<p + (n - i)} \<inter> used_pages m = {})"
  using assms(2,3)
proof (induction "n - i" arbitrary: i p)
  case 0
  then show ?case by (simp add: is_pages_free_from_loop.simps)
next
  case (Suc d)
  then have i: "i < n" "p < 32 * length (mem_map m)" using assms(1) by auto
  have split: "{p..<p + (n - i)} = insert p {Suc p..<Suc p + (n - Suc i)}" using i by auto
  have on: "is_bit_on (mem_map m) 4 (int p) = Some (p \<in> used_pages m)"
    using is_bit_on_run [OF i(2)] assms(1) by (simp add: used_pages_def)
  have "is_pages_free_from_loop m (int i + 1) (int n) (int p + 1) =
      Some ({Suc p..<Suc p + (n - Suc i)} \<inter> used_pages m = {})"
    using Suc.hyps(1) [of "Suc i" "Suc p"] Suc.hyps(2) Suc.prems i by (simp add: add.commute)
  with i on split show ?case
    by (simp add: is_pages_free_from_loop.simps [of m "int i"])
qed

lemma get_free_pages_from_run:
  assumes "page_inv m" "p + n < 128"
  shows "\<exists>m' r. get_free_pages_from m (int p * 1024) (int n * 1024) = Some (m', r) \<and> page_inv m' \<and>
    bss_page_end m' = bss_page_end m \<and>
    (if {p..<p + n} \<inter> used_pages m = {} then r = 0 \<and> used_pages m' = used_pages m \<union> {p..<p + n}
     else r = - ENOMEM \<and> m' = m)"
proof -
  have len: "length (mem_map m) = 4" using assms(1) by (simp add: page_inv_def)
  have free: "is_pages_free_from m (int p * 1024) (int n * 1024) = Some ({p..<p + n} \<inter> used_pages m = {})"
    using is_pages_free_from_loop_run [OF len, of 0 n p] assms(2) by (simp add: is_pages_free_from_def)
  from assms(2) len obtain bm where bm: "bitmap_set_nbits (mem_map m) 4 (int p) (int n) = Some (bm, 0)"
      "length bm = 4" "bits_on bm = bits_on (mem_map m) \<union> {p..<p + n}"
    using bitmap_set_nbits_run [of p n "mem_map m"] by auto
  have "page_inv (m\<lparr>mem_map := bm\<rparr>)" using assms(1) bm by (auto simp: page_inv_def)
  with free bm assms show ?thesis by (simp add: get_free_pages_from_def used_pages_def)
qed

text \<open>The process side: a protection table of 32 words follows the system map.\<close>

lemma user_get_free_pages_from_run:
  assumes "page_inv m" "p + n < 128" "length pt = 32"
  shows "\<exists>m' pt' r. user_get_free_pages_from m pt (int p * 1024) (int n * 1024) = Some (m', pt', r) \<and>
    page_inv m' \<and> bss_page_end m' = bss_page_end m \<and> length pt' = 32 \<and>
    (if {p..<p + n} \<inter> used_pages m = {}
     then r = 0 \<and> used_pages m' = used_pages m \<union> {p..<p + n} \<and> bits_on pt' = bits_on pt \<union> {p..<p + n}
     else r = - ENOMEM \<and> m' = m \<and> pt' = pt)"
proof -
  obtain m' r where g: "get_free_pages_from m (int p * 1024) (int n * 1024) = Some (m', r)" "page_inv m'"
    "bss_page_end m' = bss_page_end m"
    "if {p..<p + n} \<inter> used_pages m = {} then r = 0 \<and> used_pages m' = used_pages m \<union> {p..<p + n}
     else r = - ENOMEM \<and> m' = m"
    using get_free_pages_from_run [OF assms(1,2)] by blast
  obtain pt' where pt': "bitmap_set_nbits pt 32 (int p) (int n) = Some (pt', 0)" "length pt' = 32"
    "bits_on pt' = bits_on pt \<union> {p..<p + n}"
    using bitmap_set_nbits_run [of p n pt] assms(2,3) by auto
  show ?thesis using g pt' assms by (simp add: user_get_free_pages_from_def split: if_splits)
qed

lemma user_get_free_pages_run:
  assumes "page_inv m" "0 < n" "n < 128" "length pt = 32"
  shows "(\<exists>p m' pt'. fits m flags n p \<and>
            user_get_free_pages m pt (int n * 1024) flags = Some (m', pt', int p * 1024) \<and>
            page_inv m' \<and> bss_page_end m' = bss_page_end m \<and> used_pages m' = used_pages m \<union> {p..<p + n} \<and>
            length pt' = 32 \<and> bits_on pt' = bits_on pt \<union> {p..<p + n}) \<or>
         ((\<nexists>p. fits m flags n p) \<and> user_get_free_pages m pt (int n * 1024) flags = Some (m, pt, NULL))"
  using get_free_pages_run [OF assms(1-3), of flags]
proof (elim disjE exE conjE)
  fix p m' assume p: "fits m flags n p" "get_free_pages m (int n * 1024) flags = Some (m', int p * 1024)"
    and m': "page_inv m'" "bss_page_end m' = bss_page_end m" "used_pages m' = used_pages m \<union> {p..<p + n}"
  have b: "p + n < 128" "0 < p" using fits_below_last [OF assms(1) p(1) assms(2)]
    fits_not_page_0 [OF assms(1,2) p(1)] by auto
  then obtain pt' where pt': "bitmap_set_nbits pt 32 (int p) (int n) = Some (pt', 0)" "length pt' = 32"
    "bits_on pt' = bits_on pt \<union> {p..<p + n}"
    using bitmap_set_nbits_run [of p n pt] assms(4) by auto
  have "user_get_free_pages m pt (int n * 1024) flags = Some (m', pt', int p * 1024)"
    using p(2) b pt' assms(3) by (simp add: user_get_free_pages_def)
  with p m' pt' show ?thesis by blast
qed (simp add: user_get_free_pages_def)

lemma is_vaddr_ok_loop_sound:
  "is_vaddr_ok_loop pt s e r = Some True \<Longrightarrow> length pt = 32 \<Longrightarrow> 0 \<le> s \<Longrightarrow> s \<le> k \<Longrightarrow> k \<le> e \<Longrightarrow>
     nat k \<in> bits_on pt"
proof (induction pt s e r rule: is_vaddr_ok_loop.induct)
  case (1 pt s e r)
  from "1.prems" have "s \<le> e" by simp
  with "1.prems"(1) have on: "is_bit_on pt 32 s = Some True"
    and rest: "is_vaddr_ok_loop pt (s + 1) e True = Some True"
    by (auto simp: is_vaddr_ok_loop.simps [of pt s] bind_eq_Some_conv split: if_splits)
  show ?case
  proof (cases "k = s")
    case True
    from on have "s < 32 * 32" using "1.prems"(2,3)
      by (auto simp: is_bit_on_def aget_def bind_eq_Some_conv sgn_if signed_divide_int_def split: if_splits)
    with on True "1.prems"(2,3) is_bit_on_run [of "nat s" pt] show ?thesis by simp
  next
    case False
    with "1.IH" [OF \<open>s \<le> e\<close> on] rest "1.prems" show ?thesis by simp
  qed
qed


section \<open>Sequences of allocations\<close>

text \<open>
  The contract of an allocator of regions: a request either yields nothing, or a region that was
  free and is used from then on. Regions handed out in a sequence of requests are then disjoint.
\<close>

primrec alloc_all :: "('s \<Rightarrow> 'r \<Rightarrow> 's \<times> (nat \<times> nat) option) \<Rightarrow> 's \<Rightarrow> 'r list \<Rightarrow> (nat \<times> nat) list" where
  "alloc_all alloc s [] = []"
| "alloc_all alloc s (r # rs) =
     (case alloc s r of (s', None) \<Rightarrow> alloc_all alloc s' rs
      | (s', Some reg) \<Rightarrow> reg # alloc_all alloc s' rs)"

definition region :: "nat \<times> nat \<Rightarrow> nat set" where
  "region reg = {fst reg..<fst reg + snd reg}"

locale region_alloc =
  fixes inv :: "'s \<Rightarrow> bool"
    and taken :: "'s \<Rightarrow> nat set"
    and alloc :: "'s \<Rightarrow> 'r \<Rightarrow> 's \<times> (nat \<times> nat) option"
  assumes alloc_none: "inv s \<Longrightarrow> alloc s r = (s', None) \<Longrightarrow> s' = s"
    and alloc_some: "inv s \<Longrightarrow> alloc s r = (s', Some reg) \<Longrightarrow>
      inv s' \<and> region reg \<inter> taken s = {} \<and> taken s' = taken s \<union> region reg"
begin

lemma allocs_fresh: "inv s \<Longrightarrow> reg \<in> set (alloc_all alloc s rs) \<Longrightarrow> region reg \<inter> taken s = {}"
proof (induction rs arbitrary: s)
  case (Cons r rs)
  obtain s' o' where a: "alloc s r = (s', o')" by (cases "alloc s r")
  show ?case
  proof (cases o')
    case None
    with a Cons alloc_none show ?thesis by auto
  next
    case (Some g)
    with a alloc_some [OF Cons.prems(1)] have g: "inv s'" "region g \<inter> taken s = {}"
      "taken s' = taken s \<union> region g" by auto
    from a Some Cons.prems(2) have "reg = g \<or> reg \<in> set (alloc_all alloc s' rs)" by simp
    with g Cons.IH [OF g(1)] show ?thesis by blast
  qed
qed simp

lemma allocs_disjoint: "inv s \<Longrightarrow> i < j \<Longrightarrow> j < length (alloc_all alloc s rs) \<Longrightarrow>
    region (alloc_all alloc s rs ! i) \<inter> region (alloc_all alloc s rs ! j) = {}"
proof (induction rs arbitrary: s i j)
  case (Cons r rs)
  obtain s' o' where a: "alloc s r = (s', o')" by (cases "alloc s r")
  show ?case
  proof (cases o')
    case None
    with a alloc_none [OF Cons.prems(1)] have "s' = s" by simp
    with None a Cons.prems Cons.IH [OF Cons.prems(1,2)] show ?thesis by simp
  next
    case (Some g)
    with a alloc_some [OF Cons.prems(1)] have g: "inv s'" "taken s' = taken s \<union> region g" by auto
    from Cons.prems(2) obtain j' where j: "j = Suc j'" by (cases j) auto
    with a Some Cons.prems(3) have j': "j' < length (alloc_all alloc s' rs)" by simp
    show ?thesis
    proof (cases i)
      case 0
      have "region (alloc_all alloc s' rs ! j') \<inter> taken s' = {}"
        by (rule allocs_fresh [OF g(1) nth_mem [OF j']])
      with 0 a Some j g(2) show ?thesis by auto
    next
      case (Suc i')
      with Cons.IH [OF g(1), of i' j'] Cons.prems(2) a Some j j' show ?thesis by simp
    qed
  qed
qed simp

end

text \<open>A request for \<open>n\<close> whole pages with some flags, as the kernel's callers make it.\<close>

definition page_request :: "mm \<Rightarrow> nat \<times> int \<Rightarrow> mm \<times> (nat \<times> nat) option" where
  "page_request m req =
     (case get_free_pages m (int (fst req) * PAGE_LEN) (snd req) of
        None \<Rightarrow> (m, None)
      | Some (m', a) \<Rightarrow> (m', if a = NULL then None else Some (nat (PADDR_TO_PAGED a), fst req)))"

lemma page_request_cases:
  assumes "page_inv m" "page_request m (n, flags) = (m', o')" "0 < n" "n < 128"
  shows "(o' = None \<and> m' = m) \<or> (\<exists>p. o' = Some (p, n) \<and> fits m flags n p \<and> page_inv m' \<and>
            used_pages m' = used_pages m \<union> {p..<p + n})"
  using get_free_pages_run [OF assms(1,3,4), of flags]
proof (elim disjE exE conjE)
  fix p m'' assume g: "fits m flags n p" "get_free_pages m (int n * 1024) flags = Some (m'', int p * 1024)"
    "page_inv m''" "used_pages m'' = used_pages m \<union> {p..<p + n}"
  have "0 < p" "p < 2 ^ 22" using fits_not_page_0 [OF assms(1,3) g(1)] g(1) by (auto simp: fits_def)
  with g(2) assms(2) have "m'' = m'" "o' = Some (p, n)" by (auto simp: page_request_def)
  with g show ?thesis by blast
next
  assume "get_free_pages m (int n * 1024) flags = Some (m, NULL)"
  with assms(2) show ?thesis by (simp add: page_request_def)
qed

definition page_alloc :: "mm \<Rightarrow> nat \<times> int \<Rightarrow> mm \<times> (nat \<times> nat) option" where
  "page_alloc m req = (if 0 < fst req \<and> fst req < 128 then page_request m req else (m, None))"

interpretation pages: region_alloc page_inv used_pages page_alloc
proof (unfold_locales, goal_cases)
  case (1 s r s')
  then show ?case using page_request_cases [of s "fst r" "snd r" s' None]
    by (auto simp: page_alloc_def split: if_splits)
next
  case (2 s r s' reg)
  then show ?case using page_request_cases [of s "fst r" "snd r" s' "Some reg"]
    by (auto simp: page_alloc_def region_def fits_def split: if_splits)
qed


lemma alloc_all_page_alloc:
  "\<forall>r\<in>set rs. 0 < fst r \<and> fst r < 128 \<Longrightarrow> alloc_all page_request m rs = alloc_all page_alloc m rs"
  by (induction rs arbitrary: m) (auto simp: page_alloc_def split: prod.splits option.splits)

section \<open>Properties\<close>

text \<open>
  C1. A request for \<open>n\<close> whole pages keeps the allocator's invariant. It yields a run of pages
  that were all free, above the kernel unless \<open>GFP_HIGH\<close> asks for the top of memory, marks
  exactly those pages, and returns their address; it returns \<open>NULL\<close> and changes nothing only
  when no such run exists.
\<close>

theorem get_free_pages_correct:
  assumes "page_inv m" "0 < n" "n < 128"
  shows "(\<exists>p m'. get_free_pages m (int n * PAGE_LEN) flags = Some (m', int p * PAGE_LEN) \<and>
            fits m flags n p \<and> int p * PAGE_LEN \<noteq> NULL \<and>
            page_inv m' \<and> used_pages m' = used_pages m \<union> {p..<p + n}) \<or>
         (get_free_pages m (int n * PAGE_LEN) flags = Some (m, NULL) \<and> (\<forall>p. \<not> fits m flags n p))"
  using get_free_pages_run [OF assms, of flags] fits_not_page_0 [OF assms(1,2)] by fastforce

theorem get_free_pages_correct_witness:
  "\<exists>m m' p. page_inv m \<and> get_free_pages m 2048 GFP_NORM = Some (m', int p * 1024) \<and> fits m GFP_NORM 2 p"
proof -
  obtain m where m: "page_inv m" "bss_page_end m = 3" "used_pages m = {..<3} \<union> {127}"
    using init_mem_table_run [of 3000] by auto
  then have "fits m GFP_NORM 2 3" by (auto simp: fits_def)
  with get_free_pages_correct [OF m(1), of 2 GFP_NORM] m(1) show ?thesis by auto
qed

text \<open>
  C3. Releasing the pages a request returned, with the same length, restores the allocator
  exactly (pages above the kernel, which is where the kernel places everything it releases).
\<close>

theorem release_after_get_free_pages:
  assumes "page_inv m" "0 < n" "n < 128" "get_free_pages m (int n * PAGE_LEN) flags = Some (m', a)"
    and "a \<noteq> NULL"
  shows "release_pages m' a (int n * PAGE_LEN) = Some (m, 0)"
proof -
  from get_free_pages_run [OF assms(1-3), of flags] assms(4,5) obtain p where
    p: "fits m flags n p" "a = int p * 1024" "page_inv m'" "bss_page_end m' = bss_page_end m"
      "used_pages m' = used_pages m \<union> {p..<p + n}" by auto
  have "nat (bss_page_end m) \<le> p"
    using p(1) assms(1,2) by (rule fits_above_kernel)
  with release_pages_run [of m' p n] fits_below_last [OF assms(1) p(1) assms(2)] p(3,4)
  obtain m'' where m'': "release_pages m' a (int n * 1024) = Some (m'', 0)" "page_inv m''"
    "bss_page_end m'' = bss_page_end m" "used_pages m'' = used_pages m' - {p..<p + n}"
    by (auto simp: p(2))
  have "used_pages m'' = used_pages m" using m''(4) p(1,5) by (auto simp: fits_def)
  with m'' assms(1) have "m'' = m" by (intro mm_eqI) (auto simp: page_inv_def)
  with m''(1) show ?thesis by simp
qed

theorem release_after_get_free_pages_witness:
  "\<exists>m m' a. get_free_pages m 2048 GFP_HIGH = Some (m', a) \<and> a \<noteq> NULL \<and> release_pages m' a 2048 = Some (m, 0)"
proof -
  obtain m where m: "page_inv m" "bss_page_end m = 3" "used_pages m = {..<3} \<union> {127}"
    using init_mem_table_run [of 3000] by auto
  then have f: "fits m GFP_HIGH 2 3" by (auto simp: fits_def)
  from get_free_pages_run [OF m(1), of 2 GFP_HIGH] f obtain p m' where
    p: "fits m GFP_HIGH 2 p" "get_free_pages m 2048 GFP_HIGH = Some (m', int p * 1024)" by auto
  have "int p * 1024 \<noteq> 0" using fits_not_page_0 [OF m(1) _ p(1)] by simp
  with p(2) release_after_get_free_pages [OF m(1), of 2 GFP_HIGH m' "int p * 1024"] show ?thesis
    by (intro exI [of _ m] exI [of _ m'] exI [of _ "int p * 1024"]) simp
qed

text \<open>
  C2. Whatever sequence of page requests the kernel makes, no two of the regions it is given
  share a page, and none of them contains a page that was in use before.
\<close>

theorem page_requests_disjoint:
  assumes "page_inv m" "\<forall>r\<in>set rs. 0 < fst r \<and> fst r < 128"
    and "i < j" "j < length (alloc_all page_request m rs)"
  shows "region (alloc_all page_request m rs ! i) \<inter> region (alloc_all page_request m rs ! j) = {} \<and>
         region (alloc_all page_request m rs ! i) \<inter> used_pages m = {}"
  using pages.allocs_disjoint [OF assms(1,3)] pages.allocs_fresh [OF assms(1) nth_mem] assms(3,4)
  by (simp add: alloc_all_page_alloc [OF assms(2)])

theorem page_requests_disjoint_witness:
  "\<exists>m g h. page_inv m \<and> alloc_all page_request m [(2, GFP_NORM), (3, GFP_NORM)] = [g, h] \<and>
     region g \<inter> region h = {}"
proof -
  obtain m where m: "init_mem_table 3000 = Some m" "page_inv m" using init_mem_table_run [of 3000] by auto
  have "Option.bind (init_mem_table 3000)
          (\<lambda>m. Some (alloc_all page_request m [(2, GFP_NORM), (3, GFP_NORM)])) = Some [(3, 2), (5, 3)]"
    by code_simp
  with m(1) have "alloc_all page_request m [(2, GFP_NORM), (3, GFP_NORM)] = [(3, 2), (5, 3)]"
    by (simp del: alloc_all.simps)
  with page_requests_disjoint [OF m(2), of "[(2, GFP_NORM), (3, GFP_NORM)]" 0 1] m(2) show ?thesis
    by (simp del: alloc_all.simps) blast
qed

text \<open>
  A request whose length is not a whole number of pages is searched for with the length
  rounded down and marked with the length rounded up. On a map where page 4 is in use and
  page 3 is free, a request for 1500 words returns page 3 and claims pages 3 and 4; releasing
  the pages 3 and 4 with the same length leaves page 4 marked.
\<close>

theorem get_free_pages_unaligned:
  "\<exists>m m'. page_inv m \<and> 4 \<in> used_pages m \<and> is_page_free m (3 * PAGE_LEN) = Some True \<and>
     get_free_pages m 1500 GFP_NORM = Some (m', 3 * PAGE_LEN) \<and> PADDR_TO_NUM_PAGES 1500 = 2 \<and>
     (\<exists>m''. release_pages m' (3 * PAGE_LEN) 1500 = Some (m'', 0) \<and> is_page_free m'' (4 * PAGE_LEN) = Some False)"
proof -
  obtain m where m: "init_mem_table 3000 = Some m" "page_inv m" "bss_page_end m = 3"
    "used_pages m = {..<3} \<union> {127}" using init_mem_table_run [of 3000] by auto
  obtain m1 r where m1: "get_free_pages_from m (int 4 * 1024) (int 1 * 1024) = Some (m1, r)" "page_inv m1"
    "used_pages m1 = used_pages m \<union> {4..<4 + 1}"
    using get_free_pages_from_run [OF m(2), of 4 1] m(4) by (auto split: if_splits)
  have "Option.bind (init_mem_table 3000) (\<lambda>m. Option.bind (get_free_pages_from m 4096 1024) (\<lambda>(m1, r).
         Option.bind (is_page_free m1 3072) (\<lambda>f. Option.bind (get_free_pages m1 1500 GFP_NORM) (\<lambda>(m', a).
         Option.bind (release_pages m' a 1500) (\<lambda>(m'', e). Option.bind (is_page_free m'' 4096)
           (\<lambda>g. Some (f, a, e, g))))))) = Some (True, 3072, 0, False)"
    by code_simp
  moreover have "PADDR_TO_NUM_PAGES 1500 = 2" by code_simp
  ultimately show ?thesis using m m1 by (auto simp: bind_eq_Some_conv)
qed

text \<open>
  A range that \<^verbatim>\<open>is_vaddr_ok\<close> accepts lies in the process's own pages: every page from
  the one of its first word to the one of its end is set in the protection table.
\<close>

theorem is_vaddr_ok_sound:
  assumes "is_vaddr_ok vaddr len rbase ptable = Some True" "length ptable = 32"
    and "PADDR_TO_PAGED (get_physical_addr vaddr rbase) \<le> k"
    and "k \<le> PADDR_TO_PAGED (get_physical_addr (vaddr + len) rbase)"
  shows "nat k \<in> bits_on ptable"
proof -
  have "0 \<le> PADDR_TO_PAGED (get_physical_addr vaddr rbase)"
    by (simp add: PADDR_TO_PAGED_def)
  with is_vaddr_ok_loop_sound [OF assms(1) [unfolded is_vaddr_ok_def] assms(2) _ assms(3,4)]
  show ?thesis by simp
qed

theorem is_vaddr_ok_sound_witness:
  "\<exists>pt. length pt = 32 \<and> is_vaddr_ok 1000 100 5120 pt = Some True \<and> 6 \<in> bits_on pt"
proof -
  let ?pt = "0x06000000 # replicate 31 0 :: u32 list"
  have ok: "is_vaddr_ok 1000 100 5120 ?pt = Some True" by code_simp
  have k: "PADDR_TO_PAGED (get_physical_addr 1000 5120) \<le> 6"
    "6 \<le> PADDR_TO_PAGED (get_physical_addr (1000 + 100) 5120)" by code_simp+
  have "nat 6 \<in> bits_on ?pt" by (rule is_vaddr_ok_sound [OF ok _ k]) simp
  with ok show ?thesis by (intro exI [of _ ?pt]) simp
qed

end
