(* ===== verification/Timer.thy ===== *)
theory Timer
  imports Prelude
begin

text \<open>
  Timers (\<^verbatim>\<open>winix/timer.c\<close>) and the tick loop (\<^verbatim>\<open>kernel/clock.c\<close>). Timers live in
  the process table and in the scheduler's \<^verbatim>\<open>sched_timer\<close>; the pending ones form a linked
  list through their \<^verbatim>\<open>next\<close> fields, sorted by expiry. \<open>timer_inv\<close> relates the pointers to
  the list; the operations refine sorted insertion, removal and removal of the first element.
  \<^verbatim>\<open>clock_t\<close> is \<^verbatim>\<open>unsigned int\<close>, so times are 32-bit words with unsigned comparison. The
  clock's record is extended by the kernel's state, and every operation works on the extension.
\<close>

section \<open>State\<close>

datatype timer_id = ProcTimer int | SchedTimer

datatype watchdog = No_handler | Rebalance_queues | Deliver_alarm | Wakeup_process

record timer =
  tm_proc_nr :: int
  tm_time_out :: u32
  tm_next :: "timer_id option"
  tm_handler :: watchdog
  tm_flags :: u32

record clock =
  timers :: "timer_id \<Rightarrow> timer"
  pending_timers :: "timer_id option"
  next_timeout :: u32
  system_uptime :: u32

abbreviation (input) TIMER_INUSE :: u32 where "TIMER_INUSE \<equiv> 1"
abbreviation (input) TIMER_NEVER :: u32 where "TIMER_NEVER \<equiv> 0x7fffffff"

definition upd_timer :: "timer_id \<Rightarrow> (timer \<Rightarrow> timer) \<Rightarrow> 'a clock_scheme \<Rightarrow> 'a clock_scheme" where
  "upd_timer t f c = c\<lparr>timers := (timers c)(t := f (timers c t))\<rparr>"

definition get_uptime :: "'a clock_scheme \<Rightarrow> u32" where
  "get_uptime c = system_uptime c"

section \<open>Operations\<close>

text \<open>The walk of \<^verbatim>\<open>insert_timer\<close>: the last timer before the new one, and the first one after.\<close>

partial_function (option) insert_walk ::
  "(timer_id \<Rightarrow> timer) \<Rightarrow> u32 \<Rightarrow> timer_id option \<Rightarrow> timer_id option \<Rightarrow>
     (timer_id option \<times> timer_id option) option" where
  "insert_walk ts new_timeout prev cur =
     (if cur \<noteq> None \<and> tm_time_out (ts (the cur)) < new_timeout
      then insert_walk ts new_timeout cur (tm_next (ts (the cur)))
      else Some (prev, cur))"

definition insert_timer :: "timer_id \<Rightarrow> 'a clock_scheme \<Rightarrow> 'a clock_scheme option" where
  "insert_timer t c =
     do { (prev, cur) \<leftarrow> insert_walk (timers c) (tm_time_out (timers c t)) None (pending_timers c);
          let c = (case prev of
                     Some p \<Rightarrow> upd_timer t (tm_next_update (\<lambda>_. cur))
                                (upd_timer p (tm_next_update (\<lambda>_. Some t)) c)
                   | None \<Rightarrow> (let c = upd_timer t (tm_next_update (\<lambda>_. pending_timers c)) c
                             in c\<lparr>pending_timers := Some t, next_timeout := tm_time_out (timers c t)\<rparr>));
          Some (upd_timer t (tm_flags_update (\<lambda>f. f AND TIMER_INUSE)) c) }"

definition new_timer ::
  "int \<Rightarrow> timer_id \<Rightarrow> u32 \<Rightarrow> watchdog \<Rightarrow> 'a clock_scheme \<Rightarrow> ('a clock_scheme \<times> int) option" where
  "new_timer procnr_from t timeout watchdog c =
     (if timeout \<le> 0 then Some (c, - EINVAL)
      else if \<not> has_flag (tm_flags (timers c t)) TIMER_INUSE
      then do { c \<leftarrow> insert_timer t (upd_timer t (\<lambda>tm. tm\<lparr>tm_flags := set_flag (tm_flags tm) TIMER_INUSE,
                        tm_time_out := get_uptime c + timeout, tm_handler := watchdog,
                        tm_proc_nr := procnr_from, tm_next := None\<rparr>) c);
                Some (c, 0) }
      else Some (c, - EINVAL))"

definition dequeue_alarm :: "'a clock_scheme \<Rightarrow> ('a clock_scheme \<times> timer_id) option" where
  "dequeue_alarm c =
     (case pending_timers c of
        None \<Rightarrow> None
      | Some mq \<Rightarrow>
          let c = c\<lparr>pending_timers := tm_next (timers c mq)\<rparr>;
              c = (case pending_timers c of
                     Some p \<Rightarrow> c\<lparr>next_timeout := tm_time_out (timers c p)\<rparr>
                   | None \<Rightarrow> c\<lparr>next_timeout := TIMER_NEVER\<rparr>);
              c = upd_timer mq (tm_flags_update (\<lambda>f. clear_flag f TIMER_INUSE)) c
          in Some (upd_timer mq (tm_next_update (\<lambda>_. None)) c, mq))"

partial_function (option) remove_walk ::
  "(timer_id \<Rightarrow> timer) \<Rightarrow> timer_id \<Rightarrow> timer_id option \<Rightarrow> timer_id option \<Rightarrow>
     (timer_id option \<times> timer_id option) option" where
  "remove_walk ts t prev cur =
     (if cur \<noteq> None \<and> cur \<noteq> Some t then remove_walk ts t cur (tm_next (ts (the cur)))
      else Some (prev, cur))"

text \<open>A timer that is not in the list makes the source dereference a null pointer.\<close>

definition remove_timer :: "timer_id \<Rightarrow> 'a clock_scheme \<Rightarrow> 'a clock_scheme option" where
  "remove_timer t c =
     do { (prev, cur) \<leftarrow> remove_walk (timers c) t None (pending_timers c);
          c \<leftarrow> (case prev of
                  Some p \<Rightarrow> do { x \<leftarrow> cur;
                               Some (upd_timer p (tm_next_update (\<lambda>_. tm_next (timers c x))) c) }
                | None \<Rightarrow> do { x \<leftarrow> pending_timers c;
                             let c = c\<lparr>pending_timers := tm_next (timers c x)\<rparr>;
                             Some (case pending_timers c of
                                     Some p \<Rightarrow> c\<lparr>next_timeout := tm_time_out (timers c p)\<rparr>
                                   | None \<Rightarrow> c) });
          Some (upd_timer t (tm_flags_update (\<lambda>f. clear_flag f TIMER_INUSE)) c) }"

text \<open>
  The loop of \<^verbatim>\<open>do_ticks\<close>. The indirect call through \<^verbatim>\<open>next_timer->handler\<close> is the
  argument \<open>call\<close>; the kernel's own handlers are supplied where they are defined.
\<close>

partial_function (option) do_ticks ::
  "(watchdog \<Rightarrow> int \<Rightarrow> u32 \<Rightarrow> 'a clock_scheme \<Rightarrow> 'a clock_scheme option) \<Rightarrow>
     'a clock_scheme \<Rightarrow> 'a clock_scheme option" where
  "do_ticks call c =
     (if next_timeout c \<le> system_uptime c
      then do { (c, t) \<leftarrow> dequeue_alarm c;
                c \<leftarrow> call (tm_handler (timers c t)) (tm_proc_nr (timers c t)) (tm_time_out (timers c t)) c;
                do_ticks call c }
      else Some c)"

section \<open>The pending list\<close>

definition tnext :: "'a clock_scheme \<Rightarrow> timer_id \<Rightarrow> timer_id option" where
  "tnext c t = tm_next (timers c t)"

definition due :: "'a clock_scheme \<Rightarrow> timer_id \<Rightarrow> u32" where
  "due c t = tm_time_out (timers c t)"

definition inuse :: "'a clock_scheme \<Rightarrow> timer_id \<Rightarrow> bool" where
  "inuse c t \<longleftrightarrow> has_flag (tm_flags (timers c t)) TIMER_INUSE"

definition first_due :: "(timer_id \<Rightarrow> u32) \<Rightarrow> timer_id list \<Rightarrow> u32" where
  "first_due d xs = (case xs of [] \<Rightarrow> TIMER_NEVER | x # _ \<Rightarrow> d x)"

text \<open>
  The pending timers are \<open>xs\<close>: linked in that order, sorted by expiry, exactly the ones marked
  in use, and \<^verbatim>\<open>next_timeout\<close> is the expiry of the first.
\<close>

definition timer_inv :: "'a clock_scheme \<Rightarrow> timer_id list \<Rightarrow> bool" where
  "timer_inv c xs \<longleftrightarrow> chain (tnext c) (pending_timers c) xs \<and> sorted (map (due c) xs) \<and>
     next_timeout c = first_due (due c) xs \<and> inuse c = (\<lambda>t. t \<in> set xs)"

text \<open>What a timer keeps when it is linked, unlinked or marked: its owner and its handler.\<close>

definition same_owner :: "'a clock_scheme \<Rightarrow> 'a clock_scheme \<Rightarrow> bool" where
  "same_owner c c' \<longleftrightarrow> due c' = due c \<and> system_uptime c' = system_uptime c \<and> clock.more c' = clock.more c \<and>
     (\<forall>t. tm_handler (timers c' t) = tm_handler (timers c t) \<and> tm_proc_nr (timers c' t) = tm_proc_nr (timers c t))"

text \<open>Where the new timer goes: before the first one that is due no earlier.\<close>

definition timed_insert :: "(timer_id \<Rightarrow> u32) \<Rightarrow> timer_id \<Rightarrow> timer_id list \<Rightarrow> timer_id list" where
  "timed_insert d t xs = takeWhile (\<lambda>x. d x < d t) xs @ t # dropWhile (\<lambda>x. d x < d t) xs"

lemma upd_timer_simps [simp]:
  "timers (upd_timer t f c) = (timers c)(t := f (timers c t))"
  "pending_timers (upd_timer t f c) = pending_timers c"
  "next_timeout (upd_timer t f c) = next_timeout c"
  "system_uptime (upd_timer t f c) = system_uptime c"
  "clock.more (upd_timer t f c) = clock.more c"
  by (simp_all add: upd_timer_def)

lemma tnext_simps [simp]:
  "tnext (upd_timer t (tm_next_update g) c) = (tnext c)(t := g (tnext c t))"
  "tnext (upd_timer t (tm_flags_update h) c) = tnext c"
  "tnext (c\<lparr>pending_timers := p\<rparr>) = tnext c" "tnext (c\<lparr>next_timeout := n\<rparr>) = tnext c"
  by (auto simp: tnext_def fun_eq_iff)

lemma due_simps [simp]:
  "due (upd_timer t (tm_next_update g) c) = due c" "due (upd_timer t (tm_flags_update h) c) = due c"
  "due (c\<lparr>pending_timers := p\<rparr>) = due c" "due (c\<lparr>next_timeout := n\<rparr>) = due c"
  by (auto simp: due_def fun_eq_iff)

lemma inuse_simps [simp]:
  "inuse (upd_timer t (tm_next_update g) c) = inuse c"
  "inuse (upd_timer t (tm_flags_update h) c) = (inuse c)(t := has_flag (h (tm_flags (timers c t))) TIMER_INUSE)"
  "inuse (c\<lparr>pending_timers := p\<rparr>) = inuse c" "inuse (c\<lparr>next_timeout := n\<rparr>) = inuse c"
  by (auto simp: inuse_def fun_eq_iff)

lemma same_owner_simps [simp]:
  "same_owner c c" "same_owner c (upd_timer t (tm_next_update g) c') = same_owner c c'"
  "same_owner c (upd_timer t (tm_flags_update h) c') = same_owner c c'"
  "same_owner c (c'\<lparr>pending_timers := p\<rparr>) = same_owner c c'"
  "same_owner c (c'\<lparr>next_timeout := n\<rparr>) = same_owner c c'"
  by (auto simp: same_owner_def)

lemma set_timed_insert [simp]: "set (timed_insert d t xs) = insert t (set xs)"
  by (induction xs) (auto simp: timed_insert_def)

lemma sorted_timed_insert: "sorted (map d xs) \<Longrightarrow> sorted (map d (timed_insert d t xs))"
proof (induction xs)
  case (Cons x xs)
  show ?case
  proof (cases "d x < d t")
    case True
    have "timed_insert d t (x # xs) = x # timed_insert d t xs" using True by (simp add: timed_insert_def)
    with Cons True show ?thesis by auto
  next
    case False
    then have "timed_insert d t (x # xs) = t # x # xs" by (simp add: timed_insert_def)
    with Cons.prems False show ?thesis by force
  qed
qed (simp add: timed_insert_def)

lemma insert_walk_run:
  "chain (\<lambda>t. tm_next (ts t)) cur xs \<Longrightarrow>
     insert_walk ts nt prev cur =
       Some (let l = takeWhile (\<lambda>x. tm_time_out (ts x) < nt) xs in if l = [] then prev else Some (last l),
             case dropWhile (\<lambda>x. tm_time_out (ts x) < nt) xs of [] \<Rightarrow> None | x # _ \<Rightarrow> Some x)"
proof (induction xs arbitrary: prev cur)
  case Nil
  then show ?case by (simp add: insert_walk.simps)
next
  case (Cons x xs)
  then have c: "cur = Some x" "chain (\<lambda>t. tm_next (ts t)) (tm_next (ts x)) xs" by auto
  show ?case
    using Cons.IH [OF c(2), of "Some x"] c(1)
    by (subst insert_walk.simps) (auto simp: Let_def)
qed

lemma chain_next_hd: "chain nxt p (xs @ y # ys) \<Longrightarrow> nxt y = (case ys of [] \<Rightarrow> None | z # _ \<Rightarrow> Some z)"
  by (drule chain_suffix) (cases ys, auto)

lemma insert_timer_run:
  assumes c: "chain (tnext c) (pending_timers c) xs" and t: "t \<notin> set xs"
  shows "\<exists>c'. insert_timer t c = Some c' \<and> chain (tnext c') (pending_timers c') (timed_insert (due c) t xs) \<and>
           same_owner c c' \<and> inuse c' = inuse c \<and>
           next_timeout c' = (if hd (timed_insert (due c) t xs) = t then due c t else next_timeout c)"
proof -
  let ?P = "\<lambda>x. due c x < due c t"
  define as where "as = takeWhile ?P xs"
  define bs where "bs = dropWhile ?P xs"
  have xs: "xs = as @ bs" by (simp add: as_def bs_def)
  have walk: "insert_walk (timers c) (tm_time_out (timers c t)) None (pending_timers c) =
      Some (if as = [] then None else Some (last as), case bs of [] \<Rightarrow> None | x # _ \<Rightarrow> Some x)"
    using insert_walk_run [of "timers c" _ xs "due c t" None] c
    by (simp add: as_def bs_def Let_def due_def tnext_def [abs_def])
  have ti: "timed_insert (due c) t xs = as @ t # bs" by (simp add: timed_insert_def as_def bs_def)
  have use: "(inuse c)(t := inuse c t) = inuse c" by simp
  have flag: "has_flag (tm_flags (timers c t)) TIMER_INUSE = inuse c t" by (simp add: inuse_def)
  show ?thesis
  proof (cases as rule: rev_cases)
    case Nil
    then have ti': "timed_insert (due c) t xs = t # xs" using ti xs by simp
    show ?thesis
      using c t walk use Nil
      by (simp add: insert_timer_def ti' Let_def flag) (simp add: due_def)
  next
    case (snoc as' p)
    have ch: "chain (tnext c) (pending_timers c) (as' @ p # bs)" using c xs snoc by simp
    have nx: "(case bs of [] \<Rightarrow> None | x # _ \<Rightarrow> Some x) = tnext c p" using chain_next_hd [OF ch] by simp
    have ne: "t \<noteq> p" "t \<notin> set (as' @ p # bs)" using t xs snoc by auto
    have hd: "hd (as' @ p # t # bs) \<noteq> t" using ne by (cases as') auto
    show ?thesis
      using walk snoc chain_link [OF ch ne(2)] ne hd use
      by (simp add: insert_timer_def ti Let_def nx flag)
  qed
qed

section \<open>The operations on the list\<close>

lemma new_timer_run:
  assumes inv: "timer_inv c xs" and t: "t \<notin> set xs" and "0 < timeout"
  shows "\<exists>c'. new_timer n t timeout w c = Some (c', 0) \<and> timer_inv c' (timed_insert (due c') t xs) \<and>
           due c' = (due c)(t := system_uptime c + timeout) \<and> system_uptime c' = system_uptime c \<and>
           clock.more c' = clock.more c \<and> tm_handler (timers c' t) = w \<and> tm_proc_nr (timers c' t) = n \<and>
           (\<forall>u. u \<noteq> t \<longrightarrow> tm_handler (timers c' u) = tm_handler (timers c u))"
proof -
  define c1 where "c1 = upd_timer t (\<lambda>tm. tm\<lparr>tm_flags := set_flag (tm_flags tm) TIMER_INUSE,
      tm_time_out := get_uptime c + timeout, tm_handler := w, tm_proc_nr := n, tm_next := None\<rparr>) c"
  have c1: "tnext c1 = (tnext c)(t := None)" "due c1 = (due c)(t := system_uptime c + timeout)"
    "inuse c1 = (inuse c)(t := True)" "pending_timers c1 = pending_timers c" "next_timeout c1 = next_timeout c"
    "system_uptime c1 = system_uptime c" "clock.more c1 = clock.more c"
    "tm_handler (timers c1 t) = w" "tm_proc_nr (timers c1 t) = n"
    "\<forall>u. u \<noteq> t \<longrightarrow> tm_handler (timers c1 u) = tm_handler (timers c u)"
    by (auto simp: c1_def tnext_def due_def inuse_def fun_eq_iff get_uptime_def)
  let ?ys = "timed_insert (due c1) t xs"
  have ch: "chain (tnext c1) (pending_timers c1) xs" using inv t c1 by (simp add: timer_inv_def)
  obtain c' where c': "insert_timer t c1 = Some c'" "chain (tnext c') (pending_timers c') ?ys"
      "same_owner c1 c'" "inuse c' = inuse c1"
      "next_timeout c' = (if hd ?ys = t then due c1 t else next_timeout c1)"
    using insert_timer_run [OF ch t] by auto
  have d: "map (due c1) xs = map (due c) xs" using t c1(2) by auto
  have "next_timeout c' = first_due (due c1) ?ys"
  proof (cases xs)
    case Nil
    then show ?thesis by (simp add: c'(5) timed_insert_def first_due_def)
  next
    case (Cons x xs')
    with t inv c1 show ?thesis
      by (auto simp: c'(5) timed_insert_def first_due_def timer_inv_def)
  qed
  moreover have "sorted (map (due c1) ?ys)" using inv d by (intro sorted_timed_insert) (simp add: timer_inv_def del: map_eq_conv)
  moreover have "inuse c' = (\<lambda>u. u \<in> set ?ys)" using c'(4) c1(3) inv
    by (auto simp: timer_inv_def fun_eq_iff)
  ultimately have "timer_inv c' ?ys"
    using c' by (simp add: timer_inv_def same_owner_def)
  moreover have "\<not> has_flag (tm_flags (timers c t)) TIMER_INUSE" using inv t
    by (auto simp: timer_inv_def inuse_def fun_eq_iff)
  ultimately show ?thesis
    using c' c1 assms(3) by (auto simp: new_timer_def same_owner_def simp flip: c1_def)
qed

lemma new_timer_refused: "timeout = 0 \<or> inuse c t \<Longrightarrow> new_timer n t timeout w c = Some (c, - EINVAL)"
  by (auto simp: new_timer_def inuse_def)

lemma dequeue_alarm_run:
  assumes "timer_inv c (t # xs)"
  shows "\<exists>c'. dequeue_alarm c = Some (c', t) \<and> timer_inv c' xs \<and> same_owner c c'"
proof -
  have p: "pending_timers c = Some t" "chain (tnext c) (tnext c t) xs" "t \<notin> set xs"
    using assms chain_hd_not_in_tl [of "tnext c" t xs] by (auto simp: timer_inv_def)
  show ?thesis
  proof (cases xs)
    case Nil
    with p assms show ?thesis
      by (auto simp: dequeue_alarm_def timer_inv_def first_due_def Let_def tnext_def fun_eq_iff)
  next
    case (Cons x ys)
    with p have "tm_next (timers c t) = Some x" by (simp add: tnext_def)
    with p assms Cons show ?thesis
      by (auto simp: dequeue_alarm_def timer_inv_def first_due_def Let_def due_def fun_eq_iff)
  qed
qed

lemma remove_walk_run:
  "chain (\<lambda>t. tm_next (ts t)) cur xs \<Longrightarrow>
     remove_walk ts t prev cur =
       Some (let l = takeWhile (\<lambda>x. x \<noteq> t) xs in if l = [] then prev else Some (last l),
             if t \<in> set xs then Some t else None)"
proof (induction xs arbitrary: prev cur)
  case Nil
  then show ?case by (simp add: remove_walk.simps)
next
  case (Cons x xs)
  then have c: "cur = Some x" "chain (\<lambda>t. tm_next (ts t)) (tm_next (ts x)) xs" by auto
  show ?case
    using Cons.IH [OF c(2), of "Some x"] c(1)
    by (subst remove_walk.simps) (auto simp: Let_def)
qed

lemma remove_walk_split:
  assumes "timer_inv c (xs @ t # ys)"
  shows "remove_walk (timers c) t None (pending_timers c) = Some (if xs = [] then None else Some (last xs), Some t)"
proof -
  have ch: "chain (tnext c) (pending_timers c) (xs @ t # ys)" using assms by (simp add: timer_inv_def)
  then have "t \<notin> set xs" using chain_distinct by fastforce
  then have "takeWhile (\<lambda>x. x \<noteq> t) (xs @ t # ys) = xs" by (induction xs) auto
  with ch remove_walk_run [of "timers c" _ "xs @ t # ys" t None] show ?thesis
    by (simp add: tnext_def [abs_def] Let_def)
qed

lemma remove_timer_run:
  assumes inv: "timer_inv c (xs @ t # ys)" and other: "xs @ ys \<noteq> []"
  shows "\<exists>c'. remove_timer t c = Some c' \<and> timer_inv c' (xs @ ys) \<and> same_owner c c'"
proof -
  have ch: "chain (tnext c) (pending_timers c) (xs @ t # ys)" using inv by (simp add: timer_inv_def)
  then have dis: "t \<notin> set xs" "t \<notin> set ys" using chain_distinct by fastforce+
  show ?thesis
  proof (cases xs rule: rev_cases)
    case Nil
    with other obtain y ys' where ys: "ys = y # ys'" by (cases ys) auto
    with Nil ch have "tnext c t = Some y" "pending_timers c = Some t" by auto
    with inv remove_walk_split [OF inv] Nil ys dis show ?thesis
      by (auto simp: remove_timer_def timer_inv_def first_due_def Let_def due_def tnext_def [of c t] fun_eq_iff)
  next
    case (snoc xs' p)
    have ch': "chain ((tnext c)(p := tnext c t)) (pending_timers c) (xs' @ p # ys)"
      using chain_unlink [of "tnext c" _ xs' p t ys] ch snoc by simp
    have hd: "first_due d (xs' @ p # zs) = first_due d (xs' @ p # zs')" for d zs zs'
      by (cases xs') (auto simp: first_due_def)
    have srt: "sorted (map (due c) (xs' @ p # ys))"
      using inv snoc by (auto simp: timer_inv_def sorted_append)
    have tp: "t \<noteq> p" using dis snoc by auto
    show ?thesis
      using inv remove_walk_split [OF inv] snoc ch' dis tp srt hd [of _ "t # ys" ys]
      by (auto simp: remove_timer_def timer_inv_def tnext_def [of c t] fun_eq_iff)
  qed
qed

lemma remove_timer_unlinked:
  assumes ch: "chain (tnext c) (pending_timers c) xs" and "t \<notin> set xs" shows "remove_timer t c = None"
proof -
  have all: "takeWhile (\<lambda>x. x \<noteq> t) xs = xs" using assms(2) by (auto simp: takeWhile_eq_all_conv)
  with ch assms(2) remove_walk_run [of "timers c" _ xs t None] show ?thesis
    by (cases xs) (auto simp: remove_timer_def tnext_def [abs_def] Let_def)
qed

lemma remove_timer_absent: "timer_inv c xs \<Longrightarrow> t \<notin> set xs \<Longrightarrow> remove_timer t c = None"
  by (rule remove_timer_unlinked) (simp_all add: timer_inv_def)

section \<open>The tick loop returns\<close>

text \<open>
  The contract of the handlers. \<open>P\<close> is whatever else the state must satisfy. A handler, called
  on the timer just taken from the list, returns; it may re-arm timers, but only for later: it
  adds none that is due.
\<close>

definition due_now :: "'a clock_scheme \<Rightarrow> timer_id list \<Rightarrow> timer_id set" where
  "due_now c xs = {t \<in> set xs. due c t \<le> system_uptime c}"

locale tick_handlers =
  fixes call :: "watchdog \<Rightarrow> int \<Rightarrow> u32 \<Rightarrow> 'a clock_scheme \<Rightarrow> 'a clock_scheme option"
    and P :: "'a clock_scheme \<Rightarrow> bool"
  assumes call_ok: "timer_inv c (t # xs) \<Longrightarrow> P c \<Longrightarrow> system_uptime c < TIMER_NEVER \<Longrightarrow> dequeue_alarm c = Some (c1, t) \<Longrightarrow>
      \<exists>c' xs'. call (tm_handler (timers c1 t)) (tm_proc_nr (timers c1 t)) (tm_time_out (timers c1 t)) c1 = Some c' \<and>
        timer_inv c' xs' \<and> P c' \<and> system_uptime c' = system_uptime c \<and> due_now c' xs' \<subseteq> due_now c1 xs"
begin

lemma do_ticks_returns:
  assumes "timer_inv c xs" "P c" "system_uptime c < TIMER_NEVER"
  shows "\<exists>c' xs'. do_ticks call c = Some c' \<and> timer_inv c' xs' \<and> P c' \<and>
           system_uptime c' = system_uptime c \<and> system_uptime c < next_timeout c' \<and> due_now c' xs' = {}"
  using assms
proof (induction "card (due_now c xs)" arbitrary: c xs rule: less_induct)
  case less
  show ?case
  proof (cases "next_timeout c \<le> system_uptime c")
    case False
    moreover have "due_now c xs = {}"
      using less.prems(1) False
      by (cases xs) (auto simp: due_now_def timer_inv_def first_due_def)
    ultimately show ?thesis using less.prems by (subst do_ticks.simps) auto
  next
    case True
    with less.prems obtain t ys where xs: "xs = t # ys"
      by (cases xs) (auto simp: timer_inv_def first_due_def)
    obtain c1 where c1: "dequeue_alarm c = Some (c1, t)" "timer_inv c1 ys" "same_owner c c1"
      using dequeue_alarm_run less.prems(1) xs by blast
    have t: "t \<notin> set ys" using less.prems(1) xs chain_distinct [of "tnext c" _ xs] by (auto simp: timer_inv_def)
    obtain c2 zs where c2: "call (tm_handler (timers c1 t)) (tm_proc_nr (timers c1 t)) (tm_time_out (timers c1 t)) c1 = Some c2"
      "timer_inv c2 zs" "P c2" "system_uptime c2 = system_uptime c" "due_now c2 zs \<subseteq> due_now c1 ys"
      using call_ok [OF less.prems(1) [unfolded xs] less.prems(2,3) c1(1)] by blast
    have "t \<in> due_now c xs" using True less.prems(1) xs by (simp add: due_now_def timer_inv_def first_due_def)
    moreover have "due_now c1 ys \<subseteq> due_now c xs" using c1(3) xs by (auto simp: due_now_def same_owner_def)
    moreover have "t \<notin> due_now c1 ys" using t by (simp add: due_now_def)
    ultimately have "card (due_now c2 zs) < card (due_now c xs)"
      using c2(5) by (intro psubset_card_mono) (auto simp: due_now_def)
    then have "\<exists>c' xs'. do_ticks call c2 = Some c' \<and> timer_inv c' xs' \<and> P c' \<and>
        system_uptime c' = system_uptime c \<and> system_uptime c < next_timeout c' \<and> due_now c' xs' = {}"
      using less.hyps [of c2 zs] c2(2,3,4) less.prems(3) by simp
    with True c1(1) c2(1) show ?thesis by (subst do_ticks.simps) simp
  qed
qed

end

section \<open>Properties\<close>

text \<open>
  Arming a timer that is not armed, with a positive delay, links it into the pending list
  before the first timer that is due no earlier, so the list stays sorted and
  \<^verbatim>\<open>next_timeout\<close> stays the earliest expiry; the timer is due after the delay.
\<close>

theorem new_timer_correct:
  assumes "timer_inv c xs" "t \<notin> set xs" "0 < timeout"
  shows "\<exists>c'. new_timer n t timeout w c = Some (c', 0) \<and> timer_inv c' (timed_insert (due c') t xs) \<and>
           due c' = (due c)(t := system_uptime c + timeout) \<and> system_uptime c' = system_uptime c"
  using new_timer_run [OF assms, of n w] by blast

text \<open>A clock just after the first timer was armed, as \<^verbatim>\<open>init_sched\<close> leaves it.\<close>

definition clock_boot :: clock where
  "clock_boot = \<lparr>timers = (\<lambda>t. \<lparr>tm_proc_nr = 0, tm_time_out = (if t = SchedTimer then 36 else 0), tm_next = None,
     tm_handler = (if t = SchedTimer then Rebalance_queues else No_handler),
     tm_flags = (if t = SchedTimer then 1 else 0)\<rparr>),
     pending_timers = Some SchedTimer, next_timeout = 36, system_uptime = 0\<rparr>"

lemma clock_boot_inv: "timer_inv clock_boot [SchedTimer]"
  by (auto simp: timer_inv_def clock_boot_def first_due_def due_def tnext_def inuse_def has_flag_def fun_eq_iff)

theorem new_timer_correct_witness:
  "\<exists>c'. new_timer 3 (ProcTimer 3) 5 Deliver_alarm clock_boot = Some (c', 0) \<and>
     timer_inv c' [ProcTimer 3, SchedTimer]"
proof -
  obtain c' where c': "new_timer 3 (ProcTimer 3) 5 Deliver_alarm clock_boot = Some (c', 0)"
    "timer_inv c' (timed_insert (due c') (ProcTimer 3) [SchedTimer])"
    "due c' = (due clock_boot)(ProcTimer 3 := system_uptime clock_boot + 5)"
    using new_timer_correct [OF clock_boot_inv, of "ProcTimer 3" 5 3 Deliver_alarm] by auto
  have "timed_insert (due c') (ProcTimer 3) [SchedTimer] = [ProcTimer 3, SchedTimer]"
    by (simp add: timed_insert_def c'(3)) (simp add: clock_boot_def due_def)
  with c' show ?thesis by auto
qed

text \<open>
  Taking an alarm yields a pending timer no other pending one is due before, removes
  exactly that one, and leaves owner, handler and expiry of every timer as they were.
\<close>

theorem dequeue_alarm_earliest:
  assumes "timer_inv c xs" "xs \<noteq> []"
  shows "\<exists>c' t. dequeue_alarm c = Some (c', t) \<and> t \<in> set xs \<and> (\<forall>u\<in>set xs. due c t \<le> due c u) \<and>
           timer_inv c' (removeAll t xs) \<and> \<not> inuse c' t \<and> same_owner c c'"
proof -
  from assms(2) obtain t ys where xs: "xs = t # ys" by (cases xs) auto
  have "distinct xs" "\<forall>u\<in>set xs. due c t \<le> due c u"
    using assms(1) xs chain_distinct [of "tnext c" _ xs] by (auto simp: timer_inv_def)
  then have r: "removeAll t xs = ys" "t \<notin> set ys" using xs by auto
  obtain c' where c': "dequeue_alarm c = Some (c', t)" "timer_inv c' ys" "same_owner c c'"
    using dequeue_alarm_run assms(1) xs by blast
  with r have "timer_inv c' (removeAll t xs)" "\<not> inuse c' t" by (auto simp: timer_inv_def)
  with c' xs \<open>\<forall>u\<in>set xs. due c t \<le> due c u\<close> show ?thesis by auto
qed

theorem dequeue_alarm_earliest_witness:
  "\<exists>c'. dequeue_alarm clock_boot = Some (c', SchedTimer) \<and> timer_inv c' []"
  using dequeue_alarm_earliest [OF clock_boot_inv] by auto

text \<open>
  Disarming a pending timer unlinks exactly that one, as long as another timer is pending
  (the scheduler's own timer always is).
\<close>

theorem remove_timer_correct:
  assumes "timer_inv c xs" "t \<in> set xs" "removeAll t xs \<noteq> []"
  shows "\<exists>c'. remove_timer t c = Some c' \<and> timer_inv c' (removeAll t xs) \<and> same_owner c c'"
proof -
  from assms(2) obtain as bs where xs: "xs = as @ t # bs" by (auto simp: in_set_conv_decomp)
  have "distinct xs" using assms(1) chain_distinct by (auto simp: timer_inv_def)
  with xs have r: "removeAll t xs = as @ bs" by auto
  with assms(3) have "as @ bs \<noteq> []" by metis
  from remove_timer_run [OF assms(1) [unfolded xs] this] show ?thesis by (simp add: r)
qed

theorem remove_timer_correct_witness:
  "\<exists>(c::clock) c'. timer_inv c [ProcTimer 3, SchedTimer] \<and> remove_timer (ProcTimer 3) c = Some c' \<and> timer_inv c' [SchedTimer]"
proof -
  have "ProcTimer 3 \<notin> set [SchedTimer]" "(0::u32) < 5" by simp_all
  from new_timer_run [OF clock_boot_inv this, of 3 Deliver_alarm]
  obtain c :: clock where c: "timer_inv c (timed_insert (due c) (ProcTimer 3) [SchedTimer])"
    "due c = (due clock_boot)(ProcTimer 3 := system_uptime clock_boot + 5)" by blast
  have "timed_insert (due c) (ProcTimer 3) [SchedTimer] = [ProcTimer 3, SchedTimer]"
    by (simp add: timed_insert_def c(2)) (simp add: clock_boot_def due_def)
  with c(1) have inv: "timer_inv c [ProcTimer 3, SchedTimer]" by simp
  with remove_timer_correct [OF inv, of "ProcTimer 3"] show ?thesis by auto
qed

text \<open>
  The two cases \<^verbatim>\<open>remove_timer\<close> does not handle: a timer that is not pending makes it
  dereference a null pointer, and removing the only pending timer leaves \<^verbatim>\<open>next_timeout\<close> at
  its expiry, so that the tick at which it would have expired panics in \<^verbatim>\<open>dequeue_alarm\<close>.
\<close>

theorem remove_timer_corner_cases:
  assumes "timer_inv c xs"
  shows "(t \<notin> set xs \<longrightarrow> remove_timer t c = None) \<and>
         (xs = [t] \<longrightarrow> (\<exists>c'. remove_timer t c = Some c' \<and> pending_timers c' = None \<and> next_timeout c' = due c t \<and>
            (due c t \<le> system_uptime c \<longrightarrow> do_ticks call c' = None)))"
proof (intro conjI impI)
  assume "t \<notin> set xs" with assms show "remove_timer t c = None" by (rule remove_timer_absent)
next
  assume xs: "xs = [t]"
  with assms have p: "pending_timers c = Some t" "tm_next (timers c t) = None" "next_timeout c = due c t"
    by (auto simp: timer_inv_def first_due_def tnext_def)
  have "remove_walk (timers c) t None (pending_timers c) = Some (None, Some t)"
    using remove_walk_split [of c "[]" t "[]"] assms xs by simp
  with p obtain c' where c': "remove_timer t c = Some c'" "pending_timers c' = None" "next_timeout c' = due c t"
    "system_uptime c' = system_uptime c"
    by (auto simp: remove_timer_def)
  then have "do_ticks call c' = None" if "due c t \<le> system_uptime c"
    using that by (subst do_ticks.simps) (simp add: dequeue_alarm_def)
  with c' show "\<exists>c'. remove_timer t c = Some c' \<and> pending_timers c' = None \<and> next_timeout c' = due c t \<and>
      (due c t \<le> system_uptime c \<longrightarrow> do_ticks call c' = None)" by blast
qed

theorem remove_timer_corner_cases_witness:
  "remove_timer (ProcTimer 3) clock_boot = None \<and>
   (\<exists>c'. remove_timer SchedTimer clock_boot = Some c' \<and> pending_timers c' = None \<and> next_timeout c' = 36)"
proof -
  have "due clock_boot SchedTimer = 36" by (simp add: due_def clock_boot_def)
  with remove_timer_corner_cases [OF clock_boot_inv, of "ProcTimer 3"]
    remove_timer_corner_cases [OF clock_boot_inv, of SchedTimer] show ?thesis by auto
qed

end
