(* ===== verification/Memory.thy ===== *)
theory Memory
  imports Prelude
begin

text \<open>
  Physical memory as a function from word addresses to the word stored there, with the C
  library's \<^verbatim>\<open>memcpy\<close> and \<^verbatim>\<open>memset\<close> (\<^verbatim>\<open>lib/ansi/memcpy.c\<close>, \<^verbatim>\<open>lib/ansi/memset.c\<close>)
  as the word-by-word loops they are, and the layout of \<^verbatim>\<open>struct message\<close>
  (\<^verbatim>\<open>include_winix/sys/ipc.h\<close>): eight words, of which \<^verbatim>\<open>reply_res\<close> is another name of
  \<^verbatim>\<open>type\<close>.
\<close>

type_synonym memory = "addr \<Rightarrow> int"

section \<open>Copying and filling\<close>

primrec memcpy_loop :: "nat \<Rightarrow> addr \<Rightarrow> addr \<Rightarrow> memory \<Rightarrow> memory" where
  "memcpy_loop 0 p1 p2 m = m"
| "memcpy_loop (Suc n) p1 p2 m = memcpy_loop n (p1 + 1) (p2 + 1) (m(p1 := m p2))"

definition memcpy :: "addr \<Rightarrow> addr \<Rightarrow> int \<Rightarrow> memory \<Rightarrow> memory" where
  "memcpy s1 s2 n m = memcpy_loop (nat n) s1 s2 m"

primrec memset_loop :: "nat \<Rightarrow> addr \<Rightarrow> int \<Rightarrow> memory \<Rightarrow> memory" where
  "memset_loop 0 d c m = m"
| "memset_loop (Suc n) d c m = memset_loop n (d + 1) c (m(d := c))"

definition memset :: "addr \<Rightarrow> int \<Rightarrow> int \<Rightarrow> memory \<Rightarrow> memory" where
  "memset dst c n m = memset_loop (nat n) dst c m"

lemma memset_loop_apply: "memset_loop n d c m a = (if d \<le> a \<and> a < d + int n then c else m a)"
  by (induction n arbitrary: d m) auto

lemma memset_apply: "memset dst c n m a = (if dst \<le> a \<and> a < dst + n then c else m a)"
  by (auto simp: memset_def memset_loop_apply)

text \<open>
  The copy runs upwards, so it is a block copy unless the destination starts inside the source
  block after its beginning.
\<close>

definition copy_safe :: "addr \<Rightarrow> addr \<Rightarrow> int \<Rightarrow> bool" where
  "copy_safe d s n \<longleftrightarrow> d \<le> s \<or> s + n \<le> d"

lemma memcpy_loop_apply:
  "d \<le> s \<or> s + int n \<le> d \<Longrightarrow>
     memcpy_loop n d s m a = (if d \<le> a \<and> a < d + int n then m (s + (a - d)) else m a)"
proof (induction n arbitrary: d s m)
  case (Suc n)
  have "d + 1 \<le> s + 1 \<or> (s + 1) + int n \<le> d + 1" using Suc.prems by auto
  show ?case
    unfolding memcpy_loop.simps Suc.IH [OF \<open>d + 1 \<le> s + 1 \<or> (s + 1) + int n \<le> d + 1\<close>]
    using Suc.prems by auto
qed simp

lemma memcpy_apply:
  "copy_safe d s n \<Longrightarrow> memcpy d s n m a = (if d \<le> a \<and> a < d + n then m (s + (a - d)) else m a)"
  by (cases "0 \<le> n") (auto simp: memcpy_def copy_safe_def memcpy_loop_apply)

text \<open>The words at an address, as a sequence.\<close>

definition mem_words :: "memory \<Rightarrow> addr \<Rightarrow> nat \<Rightarrow> int list" where
  "mem_words m a n = map (\<lambda>i. m (a + int i)) [0..<n]"

lemma length_mem_words [simp]: "length (mem_words m a n) = n"
  by (simp add: mem_words_def)

lemma mem_words_eqI: "(\<And>i. i < n \<Longrightarrow> m (a + int i) = m' (a' + int i)) \<Longrightarrow> mem_words m a n = mem_words m' a' n"
  by (simp add: mem_words_def)

lemma mem_words_0 [simp]: "mem_words m a 0 = []"
  by (simp add: mem_words_def)

lemma mem_words_add: "mem_words m a (i + j) = mem_words m a i @ mem_words m (a + int i) j"
  by (rule nth_equalityI) (auto simp: mem_words_def nth_append add.assoc)

lemma take_mem_words [simp]: "take i (mem_words m a n) = mem_words m a (min i n)"
  by (rule nth_equalityI) (auto simp: mem_words_def)

lemma drop_mem_words [simp]: "drop i (mem_words m a n) = mem_words m (a + int i) (n - i)"
  by (rule nth_equalityI) (auto simp: mem_words_def add.assoc)

lemma mem_words_memcpy:
  "d \<le> s \<or> s + int n \<le> d \<Longrightarrow> i \<le> n \<Longrightarrow> mem_words (memcpy_loop n d s m) d i = mem_words m s i"
  by (rule mem_words_eqI) (simp add: memcpy_loop_apply)

lemma mem_words_frame:
  "(\<And>x. a \<le> x \<Longrightarrow> x < a + int n \<Longrightarrow> m' x = m x) \<Longrightarrow> mem_words m' a n = mem_words m a n"
  by (rule mem_words_eqI) auto

section \<open>Messages\<close>

abbreviation (input) MESSAGE_LEN :: int where "MESSAGE_LEN \<equiv> 8"

abbreviation (input) m_src :: "addr \<Rightarrow> addr" where "m_src m \<equiv> m"
abbreviation (input) m_type :: "addr \<Rightarrow> addr" where "m_type m \<equiv> m + 1"
abbreviation (input) reply_res :: "addr \<Rightarrow> addr" where "reply_res m \<equiv> m_type m"
abbreviation (input) m1_i1 :: "addr \<Rightarrow> addr" where "m1_i1 m \<equiv> m + 2"
abbreviation (input) m1_i2 :: "addr \<Rightarrow> addr" where "m1_i2 m \<equiv> m + 3"
abbreviation (input) m1_i3 :: "addr \<Rightarrow> addr" where "m1_i3 m \<equiv> m + 4"
abbreviation (input) m1_p1 :: "addr \<Rightarrow> addr" where "m1_p1 m \<equiv> m + 5"
abbreviation (input) m1_p2 :: "addr \<Rightarrow> addr" where "m1_p2 m \<equiv> m + 6"
abbreviation (input) m1_p3 :: "addr \<Rightarrow> addr" where "m1_p3 m \<equiv> m + 7"

text \<open>Structure assignment \<^verbatim>\<open>*dst = *src\<close> reads all of the source before it writes.\<close>

definition copy_message :: "addr \<Rightarrow> addr \<Rightarrow> memory \<Rightarrow> memory" where
  "copy_message dst src m = (\<lambda>a. if dst \<le> a \<and> a < dst + MESSAGE_LEN then m (src + (a - dst)) else m a)"

definition message_at :: "memory \<Rightarrow> addr \<Rightarrow> int list" where
  "message_at m p = map (\<lambda>i. m (p + i)) [0, 1, 2, 3, 4, 5, 6, 7]"

lemma message_at_copy [simp]: "message_at (copy_message dst src m) dst = message_at m src"
  by (simp add: message_at_def copy_message_def)

lemma message_at_frame:
  "p + 8 \<le> dst \<or> dst + 8 \<le> p \<Longrightarrow> message_at (copy_message dst src m) p = message_at m p"
  by (auto simp: message_at_def copy_message_def)

lemma message_at_upd: "a < p \<or> p + 8 \<le> a \<Longrightarrow> message_at (m(a := v)) p = message_at m p"
  by (auto simp: message_at_def)

end
