(* ===== verification/FsTypes.thy ===== *)
theory FsTypes
  imports Prelude
begin

text \<open>
  The records of the file system's tables that the process code touches:
  \<^verbatim>\<open>struct inode\<close> (\<^verbatim>\<open>include_winix/fs/inode.h\<close>) and \<^verbatim>\<open>struct filp\<close>
  (\<^verbatim>\<open>include_winix/fs/filp.h\<close>). A pointer into \<^verbatim>\<open>inode_table\<close>, \<^verbatim>\<open>fd_table\<close> or
  the list of devices is an index; null is \<open>None\<close>. The heads of the pipe waiting lists of an
  inode are kept with the pipes.
\<close>

record inode =
  i_mode :: int
  i_nlinks :: int
  i_uid :: int
  i_gid :: int
  i_size :: int
  i_atime :: int
  i_mtime :: int
  i_ctime :: int
  i_zone :: "int list"
  i_dev :: "int option"
  i_num :: int
  i_count :: int
  i_ndblock :: int
  i_sb :: "int option"
  i_flags :: u32

record filp =
  filp_mode :: int
  filp_flags :: u32
  filp_count :: int
  filp_ino :: "int option"
  filp_pos :: int
  filp_dev :: "int option"
  filp_pipe_mode :: int
  filp_pipe :: "int option"
  filp_table_index :: int
  getdents_zone_nr :: int
  getdents_dirstream_nr :: int

abbreviation (input) NR_TZONES :: nat where "NR_TZONES \<equiv> 8"
abbreviation (input) NR_INODES :: int where "NR_INODES \<equiv> 48"
abbreviation (input) NR_FILPS :: int where "NR_FILPS \<equiv> 32"

text \<open>Table entries of zeros, as \<^verbatim>\<open>memset\<close> leaves them.\<close>

definition inode_zero :: inode where
  "inode_zero = \<lparr>i_mode = 0, i_nlinks = 0, i_uid = 0, i_gid = 0, i_size = 0, i_atime = 0, i_mtime = 0,
     i_ctime = 0, i_zone = replicate NR_TZONES 0, i_dev = None, i_num = 0, i_count = 0, i_ndblock = 0,
     i_sb = None, i_flags = 0\<rparr>"

definition filp_zero :: filp where
  "filp_zero = \<lparr>filp_mode = 0, filp_flags = 0, filp_count = 0, filp_ino = None, filp_pos = 0, filp_dev = None,
     filp_pipe_mode = 0, filp_pipe = None, filp_table_index = 0, getdents_zone_nr = 0, getdents_dirstream_nr = 0\<rparr>"

end
