(* ===== verification/Proc.thy ===== *)
theory Proc
  imports Mm Timer Memory FsTypes
begin

text \<open>
  The process table and the ready queues (\<^verbatim>\<open>kernel/proc.c\<close>, \<^verbatim>\<open>include_winix/kernel/proc.h\<close>).
  A process pointer is the index of its slot (-2 to 9), a null one is \<open>None\<close>. The timer
  embedded in a slot is \<open>ProcTimer\<close> of the slot's index in the clock. \<^verbatim>\<open>ctx.ptable\<close>,
  which always points to the slot's own table, is the index of that slot; the table itself is
  a field of the slot. \<open>rq_inv\<close> relates
  the links to five lists; the queue operations refine operations on those lists.
\<close>

section \<open>Constants\<close>

abbreviation (input) INIT :: int where "INIT \<equiv> 1"
abbreviation (input) IDLE :: int where "IDLE \<equiv> - 2"
abbreviation (input) PARALLEL :: int where "PARALLEL \<equiv> - 1"
abbreviation (input) SYSTEM :: int where "SYSTEM \<equiv> 0"
abbreviation (input) NUM_TASKS :: int where "NUM_TASKS \<equiv> 3"
abbreviation (input) NUM_PROCS :: int where "NUM_PROCS \<equiv> 9"
abbreviation (input) NUM_QUEUES :: int where "NUM_QUEUES \<equiv> 5"
abbreviation (input) MAX_PRIORITY :: int where "MAX_PRIORITY \<equiv> 4"
abbreviation (input) MIN_PRIORITY :: int where "MIN_PRIORITY \<equiv> 0"
abbreviation (input) DEFAULT_PRIORITY :: int where "DEFAULT_PRIORITY \<equiv> 3"
abbreviation (input) DEFAULT_USER_QUANTUM :: int where "DEFAULT_USER_QUANTUM \<equiv> 8"
abbreviation (input) DEFAULT_CCTRL :: int where "DEFAULT_CCTRL \<equiv> 0xff9"
abbreviation (input) STACK_MAGIC :: int where "STACK_MAGIC \<equiv> 0x12345678"
abbreviation (input) REGS_NR :: nat where "REGS_NR \<equiv> 13"
abbreviation (input) OPEN_MAX :: nat where "OPEN_MAX \<equiv> 16"
abbreviation (input) NSIG :: nat where "NSIG \<equiv> 21"
abbreviation (input) INT_MAX :: int where "INT_MAX \<equiv> 2147483647"

abbreviation (input) STATE_RUNNABLE :: u32 where "STATE_RUNNABLE \<equiv> 0"
abbreviation (input) STATE_SENDING :: u32 where "STATE_SENDING \<equiv> 0x1"
abbreviation (input) STATE_RECEIVING :: u32 where "STATE_RECEIVING \<equiv> 0x2"
abbreviation (input) STATE_WAITING :: u32 where "STATE_WAITING \<equiv> 0x4"
abbreviation (input) STATE_VFORKING :: u32 where "STATE_VFORKING \<equiv> 0x8"
abbreviation (input) STATE_STOPPED :: u32 where "STATE_STOPPED \<equiv> 0x10"
abbreviation (input) STATE_ZOMBIE :: u32 where "STATE_ZOMBIE \<equiv> 0x80000000"

abbreviation (input) IN_USE :: u32 where "IN_USE \<equiv> 0x1"
abbreviation (input) BILLABLE :: u32 where "BILLABLE \<equiv> 0x2"
abbreviation (input) DIRECT_SYSCALL :: u32 where "DIRECT_SYSCALL \<equiv> 0x4"
abbreviation (input) PROC_SIGAL_HANDLER :: u32 where "PROC_SIGAL_HANDLER \<equiv> 0x8"
abbreviation (input) PROC_NO_GPF :: u32 where "PROC_NO_GPF \<equiv> 0x10"

section \<open>State\<close>

record sigaction =
  sa_handler :: addr
  sa_mask :: u32
  sa_flags :: u32

record k_context =
  c_regs :: "int list"
  c_sp :: addr
  c_ra :: addr
  c_pc :: addr
  c_rbase :: addr
  c_ptable :: int
  c_cctrl :: int

record proc =
  p_ctx :: k_context
  p_state :: u32
  p_message :: addr
  p_mem_start :: addr
  p_stack_top :: addr
  p_text_top :: addr
  p_heap_top :: addr
  p_heap_break :: addr
  p_heap_bottom :: addr
  p_rbase_offset :: int
  p_text_size :: int
  p_data_size :: int
  p_bss_size :: int
  p_stack_size :: int
  p_protection_table :: "u32 list"
  p_sender_q :: "int option"
  p_next_sender :: "int option"
  p_notify_pending :: u32
  p_next :: "int option"
  p_priority :: int
  p_quantum :: int
  p_ticks_left :: int
  p_time_used :: u32
  p_sys_time_used :: u32
  p_name :: "int list"
  p_uid :: int
  p_gid :: int
  p_exit_status :: int
  p_sig_status :: int
  p_pid :: int
  p_procgrp :: int
  p_session_id :: int
  p_wpid :: int
  p_varg :: addr
  p_woptions :: u32
  p_parent :: int
  p_thread_parent :: int
  p_flags :: u32
  p_syscall_start_time :: u32
  p_proc_nr :: int
  p_sig_pending :: u32
  p_sig_mask :: u32
  p_sig_mask2 :: u32
  p_sig_table :: "sigaction list"
  p_timer_interval :: u32
  p_umask :: int
  p_fp_filp :: "int option list"
  p_fp_rootdir :: "int option"
  p_fp_workdir :: "int option"

text \<open>Head and tail of a ready queue.\<close>

record queue =
  q_head :: "int option"
  q_tail :: "int option"

record kernel = clock +
  procs :: "int \<Rightarrow> proc"
  ready_q :: "int \<Rightarrow> queue"
  curr_scheduling_proc :: "int option"
  curr_syscall_caller :: "int option"
  bill_ptr :: "int option"
  next_pid :: int
  kmm :: mm
  kmem :: memory
  irq_count :: int
  curr_caller_proc_nr :: int
  curr_syscall :: int
  mesg_addr :: addr
  ktmp_mesg :: addr
  filps :: "int \<Rightarrow> filp"
  inodes :: "int \<Rightarrow> inode"

definition upd_proc :: "int \<Rightarrow> (proc \<Rightarrow> proc) \<Rightarrow> 'a kernel_scheme \<Rightarrow> 'a kernel_scheme" where
  "upd_proc p f k = k\<lparr>procs := (procs k)(p := f (procs k p))\<rparr>"

definition upd_mem :: "(memory \<Rightarrow> memory) \<Rightarrow> 'a kernel_scheme \<Rightarrow> 'a kernel_scheme" where
  "upd_mem f k = k\<lparr>kmem := f (kmem k)\<rparr>"

definition upd_queue :: "int \<Rightarrow> (queue \<Rightarrow> queue) \<Rightarrow> 'a kernel_scheme \<Rightarrow> 'a kernel_scheme" where
  "upd_queue i f k = k\<lparr>ready_q := (ready_q k)(i := f (ready_q k i))\<rparr>"

section \<open>Operations\<close>

definition IS_PROCN_OK :: "int \<Rightarrow> bool" where
  "IS_PROCN_OK i \<longleftrightarrow> i > - NUM_TASKS \<and> i \<le> NUM_PROCS"

definition IS_PRIORITY_OK :: "int \<Rightarrow> bool" where
  "IS_PRIORITY_OK i \<longleftrightarrow> 0 \<le> i \<and> i < NUM_QUEUES"

definition IS_INUSE :: "'a kernel_scheme \<Rightarrow> int \<Rightarrow> bool" where
  "IS_INUSE k p \<longleftrightarrow> has_flag (p_flags (procs k p)) IN_USE"

definition IS_KERNEL_PROC :: "'a kernel_scheme \<Rightarrow> int \<Rightarrow> bool" where
  "IS_KERNEL_PROC k p \<longleftrightarrow> c_rbase (p_ctx (procs k p)) = NULL"

definition IS_USER_PROC :: "'a kernel_scheme \<Rightarrow> int \<Rightarrow> bool" where
  "IS_USER_PROC k p \<longleftrightarrow> c_rbase (p_ctx (procs k p)) \<noteq> NULL"

definition IS_THREAD :: "'a kernel_scheme \<Rightarrow> int \<Rightarrow> bool" where
  "IS_THREAD k p \<longleftrightarrow> p_thread_parent (procs k p) > 0"

definition USER_ERRNO :: "'a kernel_scheme \<Rightarrow> int \<Rightarrow> addr" where
  "USER_ERRNO k p = p_stack_top (procs k p) + 1"

definition USER_TMP_MESSAGE :: "'a kernel_scheme \<Rightarrow> int \<Rightarrow> addr" where
  "USER_TMP_MESSAGE k p = p_stack_top (procs k p) + 2 * MESSAGE_LEN"

text \<open>The slots that \<^verbatim>\<open>foreach_proc\<close> and \<^verbatim>\<open>foreach_proc_and_task\<close> visit, in order.\<close>

definition foreach_proc :: "'a kernel_scheme \<Rightarrow> int list" where
  "foreach_proc k = filter (IS_INUSE k) [1..9]"

definition foreach_proc_and_task :: "'a kernel_scheme \<Rightarrow> int list" where
  "foreach_proc_and_task k = filter (IS_INUSE k) [- 2..9]"

definition get_next_pid :: "'a kernel_scheme \<Rightarrow> 'a kernel_scheme \<times> int" where
  "get_next_pid k =
     (let pid = (if next_pid k = INT_MAX then 2 else next_pid k)
      in (k\<lparr>next_pid := pid + 1\<rparr>, pid))"

definition get_proc_by_pid :: "'a kernel_scheme \<Rightarrow> int \<Rightarrow> int option" where
  "get_proc_by_pid k pid =
     (if pid = 0 then Some SYSTEM else find (\<lambda>p. p_pid (procs k p) = pid) (foreach_proc k))"

definition get_proc :: "'a kernel_scheme \<Rightarrow> int \<Rightarrow> int option" where
  "get_proc k n = (if IS_PROCN_OK n then if IS_INUSE k n then Some n else None else None)"

definition get_non_zombie_proc :: "'a kernel_scheme \<Rightarrow> int \<Rightarrow> int option" where
  "get_non_zombie_proc k n =
     (case get_proc k n of
        Some p \<Rightarrow> if \<not> has_flag (p_state (procs k p)) STATE_ZOMBIE then Some p else None
      | None \<Rightarrow> None)"

text \<open>Queue \<open>i\<close> of \<^verbatim>\<open>ready_q\<close>; an index out of range faults.\<close>

definition enqueue_tail :: "int \<Rightarrow> int \<Rightarrow> 'a kernel_scheme \<Rightarrow> 'a kernel_scheme option" where
  "enqueue_tail i p k =
     (if \<not> IS_PRIORITY_OK i \<or> p_next (procs k p) \<noteq> None \<or> q_tail (ready_q k i) = Some p then None
      else do { k \<leftarrow> (if q_head (ready_q k i) = None
                     then Some (upd_queue i (\<lambda>q. q\<lparr>q_head := Some p, q_tail := Some p\<rparr>) k)
                     else do { t \<leftarrow> q_tail (ready_q k i);
                               Some (upd_queue i (q_tail_update (\<lambda>_. Some p))
                                      (upd_proc t (p_next_update (\<lambda>_. Some p)) k)) });
                Some (upd_proc p (p_next_update (\<lambda>_. None)) k) })"

definition enqueue_head :: "int \<Rightarrow> int \<Rightarrow> 'a kernel_scheme \<Rightarrow> 'a kernel_scheme option" where
  "enqueue_head i p k =
     (if \<not> IS_PRIORITY_OK i \<or> p_next (procs k p) \<noteq> None \<or> q_head (ready_q k i) = Some p then None
      else if q_head (ready_q k i) = None
      then Some (upd_queue i (\<lambda>q. q\<lparr>q_head := Some p, q_tail := Some p\<rparr>)
                  (upd_proc p (p_next_update (\<lambda>_. None)) k))
      else Some (upd_queue i (q_head_update (\<lambda>_. Some p))
                  (upd_proc p (p_next_update (\<lambda>_. q_head (ready_q k i))) k)))"

definition dequeue :: "int \<Rightarrow> 'a kernel_scheme \<Rightarrow> ('a kernel_scheme \<times> int option) option" where
  "dequeue i k =
     (if \<not> IS_PRIORITY_OK i then None
      else case q_head (ready_q k i) of
        None \<Rightarrow> Some (k, None)
      | Some p \<Rightarrow>
          let k' = (if q_head (ready_q k i) = q_tail (ready_q k i)
                    then upd_queue i (\<lambda>q. q\<lparr>q_head := None, q_tail := None\<rparr>) k
                    else upd_queue i (q_head_update (\<lambda>_. p_next (procs k p))) k)
          in Some (upd_proc p (p_next_update (\<lambda>_. None)) k', Some p))"

partial_function (option) dequeue_walk ::
  "(int \<Rightarrow> proc) \<Rightarrow> int \<Rightarrow> int option \<Rightarrow> int option \<Rightarrow> (int option \<times> int option) option" where
  "dequeue_walk ps h prev cur =
     (if cur \<noteq> Some h \<and> cur \<noteq> None then dequeue_walk ps h cur (p_next (ps (the cur)))
      else Some (prev, cur))"

definition dequeue_schedule :: "int \<Rightarrow> 'a kernel_scheme \<Rightarrow> ('a kernel_scheme \<times> int) option" where
  "dequeue_schedule h k =
     (let i = p_priority (procs k h) in
      if \<not> IS_PRIORITY_OK i then None
      else do { (prev, cur) \<leftarrow> dequeue_walk (procs k) h None (q_head (ready_q k i));
                case cur of
                  None \<Rightarrow> Some (k, - EINVAL)
                | Some c \<Rightarrow>
                    (case prev of
                       None \<Rightarrow>
                         let k' = upd_queue i (q_head_update (\<lambda>_. p_next (procs k c))) k
                         in Some (if p_next (procs k c) = None
                                  then upd_queue i (q_tail_update (\<lambda>_. None)) k' else k', 0)
                     | Some pr \<Rightarrow> Some (upd_proc pr (p_next_update (\<lambda>_. p_next (procs k c))) k, 0)) })"

definition enqueue_schedule :: "int \<Rightarrow> 'a kernel_scheme \<Rightarrow> 'a kernel_scheme option" where
  "enqueue_schedule p k = enqueue_tail (p_priority (procs k p)) p k"

definition zombify :: "int \<Rightarrow> 'a kernel_scheme \<Rightarrow> 'a kernel_scheme option" where
  "zombify p k =
     do { (k, _) \<leftarrow> dequeue_schedule p (upd_proc p (p_state_update (\<lambda>s. set_flag s STATE_ZOMBIE)) k);
          Some k }"

definition release_zombie :: "int \<Rightarrow> 'a kernel_scheme \<Rightarrow> 'a kernel_scheme" where
  "release_zombie p k =
     (if has_flag (p_state (procs k p)) STATE_ZOMBIE
      then upd_proc p (\<lambda>r. r\<lparr>p_flags := 0, p_pid := 0, p_state := - 1\<rparr>) k else k)"

text \<open>A slot of zeros, as \<^verbatim>\<open>memset\<close> leaves it; null pointers are \<open>None\<close>.\<close>

definition proc_zero :: proc where
  "proc_zero = \<lparr>p_ctx = \<lparr>c_regs = replicate REGS_NR 0, c_sp = 0, c_ra = 0, c_pc = 0, c_rbase = 0, c_ptable = 0, c_cctrl = 0\<rparr>,
     p_state = 0, p_message = 0, p_mem_start = 0, p_stack_top = 0, p_text_top = 0, p_heap_top = 0,
     p_heap_break = 0, p_heap_bottom = 0, p_rbase_offset = 0, p_text_size = 0, p_data_size = 0,
     p_bss_size = 0, p_stack_size = 0, p_protection_table = replicate 32 0, p_sender_q = None,
     p_next_sender = None, p_notify_pending = 0, p_next = None, p_priority = 0, p_quantum = 0,
     p_ticks_left = 0, p_time_used = 0, p_sys_time_used = 0, p_name = replicate 16 0, p_uid = 0, p_gid = 0,
     p_exit_status = 0, p_sig_status = 0, p_pid = 0, p_procgrp = 0, p_session_id = 0, p_wpid = 0,
     p_varg = 0, p_woptions = 0, p_parent = 0, p_thread_parent = 0, p_flags = 0, p_syscall_start_time = 0,
     p_proc_nr = 0, p_sig_pending = 0, p_sig_mask = 0, p_sig_mask2 = 0,
     p_sig_table = replicate NSIG \<lparr>sa_handler = 0, sa_mask = 0, sa_flags = 0\<rparr>, p_timer_interval = 0,
     p_umask = 0, p_fp_filp = replicate OPEN_MAX None, p_fp_rootdir = None, p_fp_workdir = None\<rparr>"

definition timer_zero :: timer where
  "timer_zero = \<lparr>tm_proc_nr = 0, tm_time_out = 0, tm_next = None, tm_handler = No_handler, tm_flags = 0\<rparr>"

definition proc_default :: "int \<Rightarrow> int \<Rightarrow> proc" where
  "proc_default p pnr = proc_zero\<lparr>p_proc_nr := pnr, p_state := - 1,
     p_ctx := (p_ctx proc_zero)\<lparr>c_regs := replicate REGS_NR (- 1), c_ptable := p, c_cctrl := DEFAULT_CCTRL\<rparr>,
     p_quantum := DEFAULT_USER_QUANTUM, p_priority := DEFAULT_PRIORITY, p_umask := 18\<rparr>"

definition proc_set_default :: "int \<Rightarrow> 'a kernel_scheme \<Rightarrow> 'a kernel_scheme" where
  "proc_set_default p k =
     (let pnr_bak = p_proc_nr (procs k p)
      in upd_timer (ProcTimer p) (\<lambda>_. timer_zero\<lparr>tm_proc_nr := pnr_bak\<rparr>) (upd_proc p (\<lambda>_. proc_default p pnr_bak) k))"

definition get_free_proc_slot :: "'a kernel_scheme \<Rightarrow> 'a kernel_scheme \<times> int option" where
  "get_free_proc_slot k =
     (case find (\<lambda>p. \<not> IS_INUSE k p) [1..9] of
        None \<Rightarrow> (k, None)
      | Some who \<Rightarrow>
          let k = proc_set_default who k;
              k = upd_proc who (\<lambda>r. r\<lparr>p_state := STATE_RUNNABLE, p_flags := IN_USE\<rparr>) k;
              (k, pid) = get_next_pid k
          in (upd_proc who (p_pid_update (\<lambda>_. pid)) k, Some who))"

definition kset_ptable :: "int \<Rightarrow> 'a kernel_scheme \<Rightarrow> 'a kernel_scheme option" where
  "kset_ptable who k =
     (if IS_KERNEL_PROC k who
      then do { (pt, _) \<leftarrow> bitmap_fill (p_protection_table (procs k who)) PTABLE_LEN;
                (pt, _) \<leftarrow> bitmap_clear_bit pt PTABLE_LEN 0;
                Some (upd_proc who (p_protection_table_update (\<lambda>_. pt)) k) }
      else Some k)"

definition proc_memctl :: "int \<Rightarrow> addr \<Rightarrow> bool \<Rightarrow> 'a kernel_scheme \<Rightarrow> ('a kernel_scheme \<times> int) option" where
  "proc_memctl who page_addr has_access k =
     (let paged = PADDR_TO_PAGED (get_physical_addr page_addr (c_rbase (p_ctx (procs k who))));
          func = (if has_access then bitmap_set_bit else bitmap_clear_bit)
      in do { (pt, r) \<leftarrow> func (p_protection_table (procs k who)) PTABLE_LEN paged;
              Some (upd_proc who (p_protection_table_update (\<lambda>_. pt)) k, r) })"

definition init_proc :: "'a kernel_scheme \<Rightarrow> 'a kernel_scheme" where
  "init_proc k =
     (let k = fold (\<lambda>i. upd_queue i (\<lambda>q. q\<lparr>q_head := None, q_tail := None\<rparr>)) [0..4] k;
          k = fold (\<lambda>p k. upd_proc p (p_proc_nr_update (\<lambda>_. p)) (proc_set_default p k)) [- 2..9] k
      in k\<lparr>curr_scheduling_proc := None\<rparr>)"

section \<open>The ready queues as lists\<close>

definition pnext :: "'a kernel_scheme \<Rightarrow> int \<Rightarrow> int option" where
  "pnext k p = p_next (procs k p)"

text \<open>
  \<open>qs i\<close> is the list of processes in queue \<open>i\<close>. No process is in two queues, and one that is in
  none has no successor.
\<close>

definition queued :: "(int \<Rightarrow> int list) \<Rightarrow> int \<Rightarrow> bool" where
  "queued qs p \<longleftrightarrow> (\<exists>i. IS_PRIORITY_OK i \<and> p \<in> set (qs i))"

definition queue_ok :: "'a kernel_scheme \<Rightarrow> int \<Rightarrow> int list \<Rightarrow> bool" where
  "queue_ok k i xs \<longleftrightarrow> chain (pnext k) (q_head (ready_q k i)) xs \<and>
     q_tail (ready_q k i) = (if xs = [] then None else Some (last xs))"

definition rq_inv :: "'a kernel_scheme \<Rightarrow> (int \<Rightarrow> int list) \<Rightarrow> bool" where
  "rq_inv k qs \<longleftrightarrow> (\<forall>i. IS_PRIORITY_OK i \<longrightarrow> queue_ok k i (qs i)) \<and>
     (\<forall>i j. IS_PRIORITY_OK i \<and> IS_PRIORITY_OK j \<and> i \<noteq> j \<longrightarrow> set (qs i) \<inter> set (qs j) = {}) \<and>
     (\<forall>p. \<not> queued qs p \<longrightarrow> pnext k p = None)"

text \<open>The state without the links of the ready queues: what the queue operations leave alone.\<close>

definition strip :: "'a kernel_scheme \<Rightarrow> 'a kernel_scheme" where
  "strip k = k\<lparr>procs := (\<lambda>p. (procs k p)\<lparr>p_next := None\<rparr>), ready_q := (\<lambda>_. \<lparr>q_head = None, q_tail = None\<rparr>)\<rparr>"

lemma upd_proc_simps [simp]:
  "procs (upd_proc p f k) = (procs k)(p := f (procs k p))" "ready_q (upd_proc p f k) = ready_q k"
  "kmem (upd_proc p f k) = kmem k" "kmm (upd_proc p f k) = kmm k" "timers (upd_proc p f k) = timers k"
  "pending_timers (upd_proc p f k) = pending_timers k" "next_timeout (upd_proc p f k) = next_timeout k"
  "system_uptime (upd_proc p f k) = system_uptime k" "irq_count (upd_proc p f k) = irq_count k"
  "curr_scheduling_proc (upd_proc p f k) = curr_scheduling_proc k" "next_pid (upd_proc p f k) = next_pid k"
  by (simp_all add: upd_proc_def)

lemma upd_queue_simps [simp]:
  "ready_q (upd_queue i f k) = (ready_q k)(i := f (ready_q k i))" "procs (upd_queue i f k) = procs k"
  "kmem (upd_queue i f k) = kmem k" "kmm (upd_queue i f k) = kmm k" "timers (upd_queue i f k) = timers k"
  by (simp_all add: upd_queue_def)

lemma upd_mem_simps [simp]:
  "kmem (upd_mem f k) = f (kmem k)" "procs (upd_mem f k) = procs k" "ready_q (upd_mem f k) = ready_q k"
  "kmm (upd_mem f k) = kmm k" "timers (upd_mem f k) = timers k"
  by (simp_all add: upd_mem_def)

lemma pnext_simps [simp]:
  "pnext (upd_proc p (p_next_update g) k) = (pnext k)(p := g (pnext k p))"
  "pnext (upd_queue i f k) = pnext k" "pnext (upd_mem h k) = pnext k"
  by (auto simp: pnext_def fun_eq_iff)

lemma strip_simps [simp]:
  "strip (upd_proc p (p_next_update g) k) = strip k" "strip (upd_queue i f k) = strip k"
  by (simp_all add: strip_def upd_proc_def upd_queue_def fun_eq_iff)

lemma strip_proc:
  "strip k' = strip k \<Longrightarrow> (procs k' p)\<lparr>p_next := None\<rparr> = (procs k p)\<lparr>p_next := None\<rparr>"
  by (drule arg_cong [of _ _ procs]) (auto simp: strip_def fun_eq_iff)

lemma strip_field:
  assumes "strip k' = strip k" and f: "\<And>r. f (r\<lparr>p_next := None\<rparr>) = f r"
  shows "f (procs k' p) = f (procs k p)"
  using f [of "procs k' p"] f [of "procs k p"] strip_proc [OF assms(1), of p] by simp

lemma strip_fields:
  assumes "strip k' = strip k"
  shows "p_state (procs k' p) = p_state (procs k p)" "p_priority (procs k' p) = p_priority (procs k p)"
    "p_flags (procs k' p) = p_flags (procs k p)" "p_ctx (procs k' p) = p_ctx (procs k p)"
    "p_message (procs k' p) = p_message (procs k p)" "p_sender_q (procs k' p) = p_sender_q (procs k p)"
    "p_next_sender (procs k' p) = p_next_sender (procs k p)" "p_pid (procs k' p) = p_pid (procs k p)"
    "p_sig_pending (procs k' p) = p_sig_pending (procs k p)" "p_parent (procs k' p) = p_parent (procs k p)"
    "p_stack_top (procs k' p) = p_stack_top (procs k p)" "p_sig_mask (procs k' p) = p_sig_mask (procs k p)"
  by (rule strip_field [OF assms], simp)+

lemmas strip_priority = strip_fields(2)

lemma strip_mem: "strip k' = strip k \<Longrightarrow> kmem k' = kmem k"
  by (drule arg_cong [of _ _ kmem]) (simp add: strip_def)

text \<open>Updates that do not touch the links keep the queues as they are.\<close>

lemma pnext_upd_proc [simp]: "pnext (upd_proc p f k) = (pnext k)(p := p_next (f (procs k p)))"
  by (auto simp: pnext_def fun_eq_iff)

lemma pnext_triv [simp]: "(pnext k)(p := p_next (procs k p)) = pnext k"
  by (auto simp: pnext_def fun_eq_iff)

lemma rq_inv_cong: "pnext k' = pnext k \<Longrightarrow> ready_q k' = ready_q k \<Longrightarrow> rq_inv k' qs = rq_inv k qs"
  by (simp add: rq_inv_def queue_ok_def)

lemma rq_inv_queue: "rq_inv k qs \<Longrightarrow> IS_PRIORITY_OK i \<Longrightarrow> queue_ok k i (qs i)"
  by (simp add: rq_inv_def)

lemma rq_inv_disjoint:
  "rq_inv k qs \<Longrightarrow> IS_PRIORITY_OK i \<Longrightarrow> IS_PRIORITY_OK j \<Longrightarrow> i \<noteq> j \<Longrightarrow> p \<in> set (qs i) \<Longrightarrow> p \<notin> set (qs j)"
  unfolding rq_inv_def by blast

lemma rq_inv_free: "rq_inv k qs \<Longrightarrow> \<not> queued qs p \<Longrightarrow> pnext k p = None"
  by (simp add: rq_inv_def)

lemma queued_upd: "IS_PRIORITY_OK i \<Longrightarrow>
    queued (qs(i := xs)) p \<longleftrightarrow> p \<in> set xs \<or> (\<exists>j. j \<noteq> i \<and> IS_PRIORITY_OK j \<and> p \<in> set (qs j))"
  by (auto simp: queued_def split: if_splits)

text \<open>
  Changing queue \<open>i\<close> only: enough that its new list is well linked, that the links of no other
  process changed, and that what left it has no successor.
\<close>

lemma rq_inv_upd:
  assumes inv: "rq_inv k qs" and i: "IS_PRIORITY_OK i"
    and other: "\<And>j. j \<noteq> i \<Longrightarrow> ready_q k' j = ready_q k j"
    and new: "queue_ok k' i xs"
    and links: "\<And>q. q \<notin> set (qs i) \<union> set xs \<Longrightarrow> pnext k' q = pnext k q"
    and left: "\<And>q. q \<in> set (qs i) - set xs \<Longrightarrow> pnext k' q = None"
    and fresh: "\<And>q. q \<in> set xs - set (qs i) \<Longrightarrow> \<not> queued qs q"
  shows "rq_inv k' (qs(i := xs))"
proof -
  have sep: "q \<notin> set (qs i) \<union> set xs" if "j \<noteq> i" "IS_PRIORITY_OK j" "q \<in> set (qs j)" for j q
    using rq_inv_disjoint [OF inv that(2) i that(1,3)] fresh [of q] that by (auto simp: queued_def)
  have "queue_ok k' j (qs j)" if "j \<noteq> i" "IS_PRIORITY_OK j" for j
  proof -
    have "chain (pnext k') p (qs j) = chain (pnext k) p (qs j)" for p
      by (rule chain_cong) (use sep [OF that] links in blast)
    with rq_inv_queue [OF inv that(2)] other [OF that(1)] show ?thesis by (simp add: queue_ok_def)
  qed
  moreover have "pnext k' q = None" if "\<not> queued (qs(i := xs)) q" for q
  proof (cases "q \<in> set (qs i)")
    case True
    with that left i show ?thesis by (auto simp: queued_upd)
  next
    case False
    with that i have "\<not> queued qs q" "q \<notin> set xs" by (auto simp: queued_upd) (auto simp: queued_def)
    with False links rq_inv_free [OF inv] show ?thesis by simp
  qed
  moreover have "set ((qs(i := xs)) a) \<inter> set ((qs(i := xs)) b) = {}"
    if "IS_PRIORITY_OK a" "IS_PRIORITY_OK b" "a \<noteq> b" for a b
    using sep [of a] sep [of b] rq_inv_disjoint [OF inv that] that by (cases "a = i"; cases "b = i") auto
  ultimately show ?thesis
    using new unfolding rq_inv_def by simp
qed

lemma enqueue_tail_run:
  assumes inv: "rq_inv k qs" and i: "IS_PRIORITY_OK i" and p: "\<not> queued qs p"
  shows "\<exists>k'. enqueue_tail i p k = Some k' \<and> rq_inv k' (qs(i := qs i @ [p])) \<and> strip k' = strip k"
proof -
  have q: "chain (pnext k) (q_head (ready_q k i)) (qs i)"
      "q_tail (ready_q k i) = (if qs i = [] then None else Some (last (qs i)))"
    using rq_inv_queue [OF inv i] by (auto simp: queue_ok_def)
  have pn: "p \<notin> set (qs i)" "pnext k p = None" using p i rq_inv_free [OF inv p] by (auto simp: queued_def)
  show ?thesis
  proof (cases "qs i" rule: rev_cases)
    case Nil
    define k' where "k' = upd_proc p (p_next_update (\<lambda>_. None))
      (upd_queue i (\<lambda>q. q\<lparr>q_head := Some p, q_tail := Some p\<rparr>) k)"
    have "enqueue_tail i p k = Some k'"
      using i q pn Nil by (auto simp: enqueue_tail_def k'_def pnext_def)
    moreover have "rq_inv k' (qs(i := qs i @ [p]))"
      by (rule rq_inv_upd [OF inv i]) (use pn p Nil in \<open>auto simp: k'_def queue_ok_def\<close>)
    ultimately show ?thesis by (auto simp: k'_def)
  next
    case (snoc xs t)
    define k' where "k' = upd_proc p (p_next_update (\<lambda>_. None))
      (upd_queue i (q_tail_update (\<lambda>_. Some p)) (upd_proc t (p_next_update (\<lambda>_. Some p)) k))"
    have t: "q_tail (ready_q k i) = Some t" "t \<noteq> p" "q_head (ready_q k i) \<noteq> None"
      using q snoc pn chain_None_iff [OF q(1)] by auto
    have "enqueue_tail i p k = Some k'"
      using i t pn by (auto simp: enqueue_tail_def k'_def pnext_def)
    moreover have "rq_inv k' (qs(i := qs i @ [p]))"
    proof (rule rq_inv_upd [OF inv i])
      have pk': "pnext k' = (pnext k)(t := Some p)" using t pn by (auto simp: k'_def fun_eq_iff)
      then show "queue_ok k' i (qs i @ [p])"
        using chain_snoc [of "pnext k" "q_head (ready_q k i)" xs t p] q pn snoc
        by (auto simp: queue_ok_def k'_def)
      show "pnext k' q = pnext k q" if "q \<notin> set (qs i) \<union> set (qs i @ [p])" for q
        using that pk' snoc by auto
    qed (use p in \<open>auto simp: k'_def\<close>)
    ultimately show ?thesis by (auto simp: k'_def)
  qed
qed

lemma enqueue_head_run:
  assumes inv: "rq_inv k qs" and i: "IS_PRIORITY_OK i" and p: "\<not> queued qs p"
  shows "\<exists>k'. enqueue_head i p k = Some k' \<and> rq_inv k' (qs(i := p # qs i)) \<and> strip k' = strip k"
proof -
  have q: "chain (pnext k) (q_head (ready_q k i)) (qs i)"
      "q_tail (ready_q k i) = (if qs i = [] then None else Some (last (qs i)))"
    using rq_inv_queue [OF inv i] by (auto simp: queue_ok_def)
  have pn: "p \<notin> set (qs i)" "pnext k p = None" using p i rq_inv_free [OF inv p] by (auto simp: queued_def)
  have hp: "q_head (ready_q k i) \<noteq> Some p" using chain_hd [OF q(1)] chain_None_iff [OF q(1)] pn by fastforce
  define k' where "k' = (if qs i = []
      then upd_queue i (\<lambda>q. q\<lparr>q_head := Some p, q_tail := Some p\<rparr>) (upd_proc p (p_next_update (\<lambda>_. None)) k)
      else upd_queue i (q_head_update (\<lambda>_. Some p)) (upd_proc p (p_next_update (\<lambda>_. q_head (ready_q k i))) k))"
  have "enqueue_head i p k = Some k'"
    using i pn hp chain_None_iff [OF q(1)] by (auto simp: enqueue_head_def k'_def pnext_def)
  moreover have "rq_inv k' (qs(i := p # qs i))"
    by (rule rq_inv_upd [OF inv i]) (use q pn p in \<open>auto simp: k'_def queue_ok_def\<close>)
  ultimately show ?thesis by (auto simp: k'_def)
qed

lemma dequeue_run:
  assumes inv: "rq_inv k qs" and i: "IS_PRIORITY_OK i" and p: "qs i = p # xs"
  shows "\<exists>k'. dequeue i k = Some (k', Some p) \<and> rq_inv k' (qs(i := xs)) \<and> strip k' = strip k"
proof -
  have q: "q_head (ready_q k i) = Some p" "chain (pnext k) (pnext k p) xs" "q_tail (ready_q k i) = Some (last (p # xs))"
    using rq_inv_queue [OF inv i] p by (auto simp: queue_ok_def)
  have px: "p \<notin> set xs" using chain_hd_not_in_tl [OF q(2)] .
  define k' where "k' = upd_proc p (p_next_update (\<lambda>_. None)) (if xs = []
      then upd_queue i (\<lambda>q. q\<lparr>q_head := None, q_tail := None\<rparr>) k
      else upd_queue i (q_head_update (\<lambda>_. p_next (procs k p))) k)"
  have "Some p = q_tail (ready_q k i) \<longleftrightarrow> xs = []" using q(3) px by auto
  then have "dequeue i k = Some (k', Some p)" using i q by (auto simp: dequeue_def k'_def)
  moreover have "rq_inv k' (qs(i := xs))"
    by (rule rq_inv_upd [OF inv i]) (use q px p i in \<open>auto simp: k'_def queue_ok_def pnext_def\<close>)
  ultimately show ?thesis by (auto simp: k'_def)
qed

lemma dequeue_empty: "rq_inv k qs \<Longrightarrow> IS_PRIORITY_OK i \<Longrightarrow> qs i = [] \<Longrightarrow> dequeue i k = Some (k, None)"
  using rq_inv_queue [of k qs i] by (simp add: dequeue_def queue_ok_def)

lemma dequeue_walk_run:
  "chain (\<lambda>p. p_next (ps p)) cur xs \<Longrightarrow>
     dequeue_walk ps h prev cur =
       Some (let l = takeWhile (\<lambda>x. x \<noteq> h) xs in if l = [] then prev else Some (last l),
             if h \<in> set xs then Some h else None)"
proof (induction xs arbitrary: prev cur)
  case Nil
  then show ?case by (simp add: dequeue_walk.simps)
next
  case (Cons x xs)
  then have c: "cur = Some x" "chain (\<lambda>p. p_next (ps p)) (p_next (ps x)) xs" by auto
  show ?case
    using Cons.IH [OF c(2), of "Some x"] c(1)
    by (subst dequeue_walk.simps) (auto simp: Let_def)
qed

lemma dequeue_walk_queue:
  assumes "rq_inv k qs" "IS_PRIORITY_OK i"
  shows "dequeue_walk (procs k) h None (q_head (ready_q k i)) =
       Some (let l = takeWhile (\<lambda>x. x \<noteq> h) (qs i) in if l = [] then None else Some (last l),
             if h \<in> set (qs i) then Some h else None)"
  using dequeue_walk_run [of "procs k" _ "qs i" h None] rq_inv_queue [OF assms]
  by (simp add: queue_ok_def pnext_def [abs_def])

lemma dequeue_schedule_absent:
  "rq_inv k qs \<Longrightarrow> IS_PRIORITY_OK (p_priority (procs k h)) \<Longrightarrow> h \<notin> set (qs (p_priority (procs k h))) \<Longrightarrow>
     dequeue_schedule h k = Some (k, - EINVAL)"
  by (simp add: dequeue_schedule_def dequeue_walk_queue)

text \<open>
  What \<^verbatim>\<open>dequeue_schedule\<close> does to a queue that contains the process: the list seen from the
  head loses it, its own link stays, and the tail moves only when the queue becomes empty.
\<close>

lemma dequeue_schedule_run:
  assumes inv: "rq_inv k qs" and i: "IS_PRIORITY_OK i" "p_priority (procs k h) = i"
    and h: "qs i = xs @ h # ys"
  shows "\<exists>k'. dequeue_schedule h k = Some (k', 0) \<and> strip k' = strip k \<and>
           chain (pnext k') (q_head (ready_q k' i)) (xs @ ys) \<and>
           q_tail (ready_q k' i) = (if xs @ ys = [] then None else q_tail (ready_q k i)) \<and>
           (\<forall>j. j \<noteq> i \<longrightarrow> ready_q k' j = ready_q k j) \<and>
           pnext k' = (if xs = [] then pnext k else (pnext k)(last xs := pnext k h))"
proof -
  have ch: "chain (pnext k) (q_head (ready_q k i)) (xs @ h # ys)"
    using rq_inv_queue [OF inv i(1)] h by (simp add: queue_ok_def)
  then have hx: "h \<notin> set xs" using chain_distinct by fastforce
  then have tw: "takeWhile (\<lambda>x. x \<noteq> h) (xs @ h # ys) = xs" by (induction xs) auto
  have walk: "dequeue_walk (procs k) h None (q_head (ready_q k i)) =
      Some (if xs = [] then None else Some (last xs), Some h)"
    using dequeue_walk_queue [OF inv i(1), of h] h tw by (simp add: Let_def)
  show ?thesis
  proof (cases xs rule: rev_cases)
    case Nil
    have "pnext k h = None \<longleftrightarrow> ys = []" using ch Nil chain_None_iff by fastforce
    with walk i ch Nil show ?thesis
      by (auto simp: dequeue_schedule_def Let_def pnext_def [of k h])
  next
    case (snoc xs' a)
    with ch have "chain ((pnext k)(a := pnext k h)) (q_head (ready_q k i)) (xs' @ a # ys)"
      using chain_unlink [of "pnext k" _ xs' a h ys] by simp
    with walk i snoc show ?thesis
      by (auto simp: dequeue_schedule_def Let_def pnext_def [of k h])
  qed
qed

text \<open>
  When the process was not the last of several, the queues are well formed again once its own
  link is cleared.
\<close>

lemma dequeue_schedule_inner:
  assumes inv: "rq_inv k qs" and i: "IS_PRIORITY_OK i" "p_priority (procs k h) = i"
    and h: "qs i = xs @ h # ys" and inner: "ys \<noteq> [] \<or> xs = []"
  shows "\<exists>k'. dequeue_schedule h k = Some (k', 0) \<and> strip k' = strip k \<and>
           rq_inv (upd_proc h (p_next_update (\<lambda>_. None)) k') (qs(i := xs @ ys))"
proof -
  obtain k' where k': "dequeue_schedule h k = Some (k', 0)" "strip k' = strip k"
      "chain (pnext k') (q_head (ready_q k' i)) (xs @ ys)"
      "q_tail (ready_q k' i) = (if xs @ ys = [] then None else q_tail (ready_q k i))"
      "\<forall>j. j \<noteq> i \<longrightarrow> ready_q k' j = ready_q k j"
      "pnext k' = (if xs = [] then pnext k else (pnext k)(last xs := pnext k h))"
    using dequeue_schedule_run [OF inv i h] by auto
  have q: "queue_ok k i (xs @ h # ys)" using rq_inv_queue [OF inv i(1)] h by simp
  then have hx: "h \<notin> set (xs @ ys)" using chain_distinct by (fastforce simp: queue_ok_def)
  have "rq_inv (upd_proc h (p_next_update (\<lambda>_. None)) k') (qs(i := xs @ ys))"
  proof (rule rq_inv_upd [OF inv i(1)])
    show "queue_ok (upd_proc h (p_next_update (\<lambda>_. None)) k') i (xs @ ys)"
      using k'(3,4) hx q inner by (auto simp: queue_ok_def)
    show "pnext (upd_proc h (p_next_update (\<lambda>_. None)) k') r = pnext k r" if "r \<notin> set (qs i) \<union> set (xs @ ys)" for r
      using that k'(6) h by auto
  qed (use k'(5) h in auto)
  with k' show ?thesis by blast
qed

section \<open>A contract for the queues\<close>

primrec enqueue_all :: "('i \<Rightarrow> 'p \<Rightarrow> 's \<Rightarrow> 's option) \<Rightarrow> 'i \<Rightarrow> 'p list \<Rightarrow> 's \<Rightarrow> 's option" where
  "enqueue_all enq i [] s = Some s"
| "enqueue_all enq i (p # ps) s = Option.bind (enq i p s) (enqueue_all enq i ps)"

primrec dequeue_n :: "('i \<Rightarrow> 's \<Rightarrow> ('s \<times> 'p option) option) \<Rightarrow> 'i \<Rightarrow> nat \<Rightarrow> 's \<Rightarrow> ('s \<times> 'p list) option" where
  "dequeue_n deq i 0 s = Some (s, [])"
| "dequeue_n deq i (Suc n) s =
     (case deq i s of
        Some (s', Some p) \<Rightarrow> map_option (\<lambda>(t, ps). (t, p # ps)) (dequeue_n deq i n s')
      | Some (s', None) \<Rightarrow> Some (s', [])
      | None \<Rightarrow> None)"

locale list_queues =
  fixes inv :: "'s \<Rightarrow> ('i \<Rightarrow> 'p list) \<Rightarrow> bool"
    and valid :: "'i \<Rightarrow> bool"
    and enq_tail enq_head :: "'i \<Rightarrow> 'p \<Rightarrow> 's \<Rightarrow> 's option"
    and deq :: "'i \<Rightarrow> 's \<Rightarrow> ('s \<times> 'p option) option"
  assumes tail: "inv s qs \<Longrightarrow> valid i \<Longrightarrow> (\<And>j. valid j \<Longrightarrow> p \<notin> set (qs j)) \<Longrightarrow>
        \<exists>s'. enq_tail i p s = Some s' \<and> inv s' (qs(i := qs i @ [p]))"
    and head: "inv s qs \<Longrightarrow> valid i \<Longrightarrow> (\<And>j. valid j \<Longrightarrow> p \<notin> set (qs j)) \<Longrightarrow>
        \<exists>s'. enq_head i p s = Some s' \<and> inv s' (qs(i := p # qs i))"
    and deq_some: "inv s qs \<Longrightarrow> valid i \<Longrightarrow> qs i = p # xs \<Longrightarrow> \<exists>s'. deq i s = Some (s', Some p) \<and> inv s' (qs(i := xs))"
    and deq_none: "inv s qs \<Longrightarrow> valid i \<Longrightarrow> qs i = [] \<Longrightarrow> deq i s = Some (s, None)"
begin

lemma enqueue_all_ok:
  "inv s qs \<Longrightarrow> valid i \<Longrightarrow> distinct ps \<Longrightarrow> (\<And>p j. p \<in> set ps \<Longrightarrow> valid j \<Longrightarrow> p \<notin> set (qs j)) \<Longrightarrow>
     \<exists>s'. enqueue_all enq_tail i ps s = Some s' \<and> inv s' (qs(i := qs i @ ps))"
proof (induction ps arbitrary: s qs)
  case (Cons p ps)
  obtain s1 where s1: "enq_tail i p s = Some s1" "inv s1 (qs(i := qs i @ [p]))"
    using tail [OF Cons.prems(1,2), of p] Cons.prems(4) by auto
  have "\<exists>s'. enqueue_all enq_tail i ps s1 = Some s' \<and>
      inv s' ((qs(i := qs i @ [p]))(i := (qs(i := qs i @ [p])) i @ ps))"
    by (rule Cons.IH [OF s1(2) Cons.prems(2)])
      (use Cons.prems(3,4) in \<open>auto split: if_splits\<close>)
  then obtain s' where "enqueue_all enq_tail i ps s1 = Some s'" "inv s' (qs(i := qs i @ p # ps))"
    by (auto simp del: fun_upd_apply simp add: fun_upd_same)
  with s1(1) show ?case by (auto simp del: fun_upd_apply)
qed simp

lemma dequeue_n_ok:
  "inv s qs \<Longrightarrow> valid i \<Longrightarrow> qs i = ps @ xs \<Longrightarrow>
     \<exists>s'. dequeue_n deq i (length ps) s = Some (s', ps) \<and> inv s' (qs(i := xs))"
proof (induction ps arbitrary: s qs)
  case Nil
  then have "qs(i := xs) = qs" by (auto simp: fun_eq_iff)
  with Nil show ?case by simp
next
  case (Cons p ps)
  obtain s1 where s1: "deq i s = Some (s1, Some p)" "inv s1 (qs(i := ps @ xs))"
    using deq_some [OF Cons.prems(1,2), of p "ps @ xs"] Cons.prems(3) by auto
  then obtain s' where "dequeue_n deq i (length ps) s1 = Some (s', ps)" "inv s' (qs(i := xs))"
    using Cons.IH [OF s1(2) Cons.prems(2)] by (auto simp del: fun_upd_apply simp add: fun_upd_same)
  with s1(1) show ?case by (auto simp del: fun_upd_apply)
qed

text \<open>First in, first out; an entry put at the head overtakes the rest.\<close>

lemma fifo:
  assumes "inv s qs" "valid i" "distinct ps" "\<And>p j. p \<in> set ps \<Longrightarrow> valid j \<Longrightarrow> p \<notin> set (qs j)"
  shows "\<exists>s' t. enqueue_all enq_tail i ps s = Some s' \<and>
    dequeue_n deq i (length (qs i @ ps)) s' = Some (t, qs i @ ps) \<and> inv t (qs(i := []))"
proof -
  obtain s' where s': "enqueue_all enq_tail i ps s = Some s'" "inv s' (qs(i := qs i @ ps))"
    using enqueue_all_ok [OF assms] by blast
  have "(qs(i := qs i @ ps)) i = (qs i @ ps) @ []" by simp
  from dequeue_n_ok [OF s'(2) assms(2) this] s'(1) show ?thesis by (simp only: fun_upd_upd) blast
qed

lemma head_first:
  assumes "inv s qs" "valid i" "\<And>j. valid j \<Longrightarrow> p \<notin> set (qs j)"
  shows "\<exists>s' t. enq_head i p s = Some s' \<and> deq i s' = Some (t, Some p) \<and> inv t qs"
proof -
  obtain s' where s': "enq_head i p s = Some s'" "inv s' (qs(i := p # qs i))"
    using head [OF assms] by blast
  with deq_some [OF s'(2) assms(2), of p "qs i"] show ?thesis by auto
qed

end

interpretation rq: list_queues rq_inv IS_PRIORITY_OK enqueue_tail enqueue_head dequeue
proof (unfold_locales, goal_cases)
  case (1 s qs i p)
  then show ?case using enqueue_tail_run [of s qs i p] by (auto simp: queued_def)
next
  case (2 s qs i p)
  then show ?case using enqueue_head_run [of s qs i p] by (auto simp: queued_def)
next
  case (3 s qs i p xs)
  then show ?case using dequeue_run by blast
next
  case (4 s qs i)
  then show ?case by (rule dequeue_empty)
qed

section \<open>Slots and process ids\<close>

lemma upd_timer_kernel_simps [simp]:
  "procs (upd_timer t f k) = procs k" "ready_q (upd_timer t f k) = ready_q k" "kmem (upd_timer t f k) = kmem k"
  "kmm (upd_timer t f k) = kmm k" "next_pid (upd_timer t f k) = next_pid k"
  "curr_scheduling_proc (upd_timer t f k) = curr_scheduling_proc k"
  by (simp_all add: upd_timer_def)

lemma pnext_upd_timer [simp]: "pnext (upd_timer t f k) = pnext k"
  by (simp add: pnext_def fun_eq_iff)

text \<open>Process ids in use are distinct and below the next one to be given out.\<close>

definition pid_inv :: "'a kernel_scheme \<Rightarrow> bool" where
  "pid_inv k \<longleftrightarrow> 2 \<le> next_pid k \<and> (\<forall>p \<in> {1..9}. IS_INUSE k p \<longrightarrow> 0 < p_pid (procs k p) \<and> p_pid (procs k p) < next_pid k) \<and>
     (\<forall>p \<in> {1..9}. \<forall>q \<in> {1..9}. IS_INUSE k p \<and> IS_INUSE k q \<and> p \<noteq> q \<longrightarrow> p_pid (procs k p) \<noteq> p_pid (procs k q))"

lemma find_upto_Some:
  "find P [a..b] = Some x \<longleftrightarrow> a \<le> x \<and> x \<le> b \<and> P x \<and> (\<forall>y. a \<le> y \<and> y < x \<longrightarrow> \<not> P y)"
proof (induction "nat (b - a + 1)" arbitrary: a)
  case 0
  then show ?case by auto
next
  case (Suc n)
  then have ab: "[a..b] = a # [a + 1..b]" by (simp add: upto_rec1)
  show ?case
  proof (cases "P a")
    case True
    with ab Suc.hyps(2) show ?thesis by force
  next
    case False
    have "find P [a..b] = Some x \<longleftrightarrow> a + 1 \<le> x \<and> x \<le> b \<and> P x \<and> (\<forall>y. a + 1 \<le> y \<and> y < x \<longrightarrow> \<not> P y)"
      using Suc.hyps(1) [of "a + 1"] Suc.hyps(2) ab False by simp
    also have "\<dots> \<longleftrightarrow> a \<le> x \<and> x \<le> b \<and> P x \<and> (\<forall>y. a \<le> y \<and> y < x \<longrightarrow> \<not> P y)"
      using False by (metis add1_zle_eq order.order_iff_strict)
    finally show ?thesis .
  qed
qed

lemma find_upto_None: "find P [a..b] = None \<longleftrightarrow> (\<forall>x. a \<le> x \<and> x \<le> b \<longrightarrow> \<not> P x)"
  by (auto simp: find_None_iff)

lemma proc_set_default_simps [simp]:
  "ready_q (proc_set_default p k) = ready_q k" "kmem (proc_set_default p k) = kmem k"
  "kmm (proc_set_default p k) = kmm k" "next_pid (proc_set_default p k) = next_pid k"
  "procs (proc_set_default p k) = (procs k)(p := proc_default p (p_proc_nr (procs k p)))"
  by (simp_all add: proc_set_default_def Let_def)

lemma proc_default_simps [simp]:
  "p_proc_nr (proc_default q n) = n" "p_next (proc_default q n) = None" "p_priority (proc_default q n) = 3"
  "p_flags (proc_default q n) = 0" "p_state (proc_default q n) = - 1" "p_sender_q (proc_default q n) = None"
  "p_stack_top (proc_default q n) = 0" "c_regs (p_ctx (proc_default q n)) = replicate 13 (- 1)"
  "p_notify_pending (proc_default q n) = 0" "(proc_default q n)\<lparr>p_proc_nr := m\<rparr> = proc_default q m"
  by (simp_all add: proc_default_def proc_zero_def)

lemma get_free_proc_slot_run:
  assumes "find (\<lambda>p. \<not> IS_INUSE k p) [1..9] = Some who"
  shows "\<exists>k'. get_free_proc_slot k = (k', Some who) \<and> (\<forall>q. q \<noteq> who \<longrightarrow> procs k' q = procs k q) \<and>
     ready_q k' = ready_q k \<and> IS_INUSE k' who \<and> p_state (procs k' who) = STATE_RUNNABLE \<and>
     p_priority (procs k' who) = DEFAULT_PRIORITY \<and> p_next (procs k' who) = None \<and>
     p_pid (procs k' who) = (if next_pid k = INT_MAX then 2 else next_pid k) \<and>
     next_pid k' = p_pid (procs k' who) + 1 \<and> p_proc_nr (procs k' who) = p_proc_nr (procs k who)"
  using assms
  by (auto simp: get_free_proc_slot_def get_next_pid_def Let_def IS_INUSE_def has_flag_def)

lemma fold_clear_queues:
  "ready_q (fold (\<lambda>i. upd_queue i (\<lambda>q. q\<lparr>q_head := None, q_tail := None\<rparr>)) is k) j =
     (if j \<in> set is then \<lparr>q_head = None, q_tail = None\<rparr> else ready_q k j)"
  "procs (fold (\<lambda>i. upd_queue i (\<lambda>q. q\<lparr>q_head := None, q_tail := None\<rparr>)) is k) = procs k"
  by (induction "is" arbitrary: k) auto

lemma fold_default_procs:
  "ready_q (fold (\<lambda>p k. upd_proc p (p_proc_nr_update (\<lambda>_. p)) (proc_set_default p k)) ps k) = ready_q k"
  "procs (fold (\<lambda>p k. upd_proc p (p_proc_nr_update (\<lambda>_. p)) (proc_set_default p k)) ps k) q =
     (if q \<in> set ps then proc_default q q else procs k q)"
  by (induction ps arbitrary: k) auto

lemma init_proc_procs: "procs (init_proc k) p = (if IS_PROCN_OK p then proc_default p p else procs k p)"
  by (auto simp: init_proc_def Let_def fold_default_procs(2) fold_clear_queues IS_PROCN_OK_def simp del: upto_rec_numeral)

lemma init_proc_queues: "IS_PRIORITY_OK i \<Longrightarrow> ready_q (init_proc k) i = \<lparr>q_head = None, q_tail = None\<rparr>"
  by (auto simp: init_proc_def Let_def fold_default_procs(1) fold_clear_queues IS_PRIORITY_OK_def)

lemma init_proc_rq:
  assumes "\<And>p. \<not> IS_PROCN_OK p \<Longrightarrow> p_next (procs k p) = None"
  shows "rq_inv (init_proc k) (\<lambda>_. [])"
  using assms by (auto simp: rq_inv_def queue_ok_def init_proc_queues pnext_def init_proc_procs)

text \<open>A concrete kernel for the witnesses: the zeroed state after \<^verbatim>\<open>init_proc\<close>.\<close>

definition kernel_zero :: kernel where
  "kernel_zero = \<lparr>timers = (\<lambda>_. timer_zero), pending_timers = None, next_timeout = 0, system_uptime = 0,
     procs = (\<lambda>_. proc_zero), ready_q = (\<lambda>_. \<lparr>q_head = None, q_tail = None\<rparr>), curr_scheduling_proc = None,
     curr_syscall_caller = None, bill_ptr = None, next_pid = 2,
     kmm = \<lparr>mem_map = replicate 4 0, bss_page_end = 0\<rparr>, kmem = (\<lambda>_. 0), irq_count = 0,
     curr_caller_proc_nr = 0, curr_syscall = 0, mesg_addr = 2048, ktmp_mesg = 2064,
     filps = (\<lambda>_. filp_zero), inodes = (\<lambda>_. inode_zero)\<rparr>"

definition kernel0 :: kernel where
  "kernel0 = init_proc kernel_zero"

lemma kernel0_procs: "procs kernel0 p = (if IS_PROCN_OK p then proc_default p p else proc_zero)"
  by (simp add: kernel0_def init_proc_procs) (simp add: kernel_zero_def)

lemma kernel0_rq: "rq_inv kernel0 (\<lambda>_. [])"
  unfolding kernel0_def by (rule init_proc_rq) (simp add: kernel_zero_def proc_zero_def)

section \<open>Properties\<close>

text \<open>
  C16. The ready queues are first in, first out: whatever queue \<open>i\<close> holds, after processes
  that are in no queue are added at the tail, taking as many as it then holds yields the old
  content followed by the new processes in order, and the queue is empty.
\<close>

theorem ready_queue_fifo:
  assumes "rq_inv k qs" "IS_PRIORITY_OK i" "distinct ps" "\<forall>p\<in>set ps. \<not> queued qs p"
  shows "\<exists>k' k''. enqueue_all enqueue_tail i ps k = Some k' \<and>
    dequeue_n dequeue i (length (qs i @ ps)) k' = Some (k'', qs i @ ps) \<and> rq_inv k'' (qs(i := []))"
  by (rule rq.fifo [OF assms(1-3)]) (use assms(4) in \<open>auto simp: queued_def\<close>)

theorem ready_queue_fifo_witness:
  "\<exists>k' k''. enqueue_all enqueue_tail 3 [5, 1, 7] kernel0 = Some k' \<and>
     dequeue_n dequeue 3 3 k' = Some (k'', [5, 1, 7])"
  using ready_queue_fifo [OF kernel0_rq, of 3 "[5, 1, 7]"]
  by (simp add: IS_PRIORITY_OK_def queued_def numeral_3_eq_3 del: enqueue_all.simps dequeue_n.simps) blast

text \<open>
  \<^verbatim>\<open>dequeue_schedule\<close> removes exactly the given process from the queue of its priority,
  seen from the head, and leaves the other queues and everything but the links alone; it
  reports \<^verbatim>\<open>-EINVAL\<close> and changes nothing when the process is not there.
\<close>

theorem dequeue_schedule_removes:
  assumes "rq_inv k qs" "i = p_priority (procs k h)" "IS_PRIORITY_OK i"
  shows "if h \<in> set (qs i)
     then \<exists>k'. dequeue_schedule h k = Some (k', 0) \<and> strip k' = strip k \<and>
       chain (pnext k') (q_head (ready_q k' i)) (removeAll h (qs i)) \<and> (\<forall>j. j \<noteq> i \<longrightarrow> ready_q k' j = ready_q k j)
     else dequeue_schedule h k = Some (k, - EINVAL)"
proof (cases "h \<in> set (qs i)")
  case True
  then obtain xs ys where h: "qs i = xs @ h # ys" by (auto simp: in_set_conv_decomp)
  have "distinct (qs i)" using rq_inv_queue [OF assms(1,3)] chain_distinct by (auto simp: queue_ok_def)
  with h have "removeAll h (qs i) = xs @ ys" by auto
  with dequeue_schedule_run [OF assms(1,3) assms(2) [symmetric] h] True show ?thesis by auto
next
  case False
  with dequeue_schedule_absent assms show ?thesis by simp
qed

text \<open>Three processes of the default priority, queued in the order 1, 2, 3.\<close>

definition kernel3 :: kernel where
  "kernel3 = the (enqueue_all enqueue_tail 3 [1, 2, 3] kernel0)"

lemma kernel3_rq: "rq_inv kernel3 ((\<lambda>_. [])(3 := [1, 2, 3]))"
  using rq.enqueue_all_ok [OF kernel0_rq, of 3 "[1, 2, 3]"]
  by (auto simp: IS_PRIORITY_OK_def kernel3_def simp del: enqueue_all.simps)

lemma enqueue_tail_priority: "enqueue_tail i p k = Some k' \<Longrightarrow> p_priority (procs k' q) = p_priority (procs k q)"
  by (rule strip_priority) (auto simp: enqueue_tail_def bind_eq_Some_conv split: if_splits)

lemma enqueue_all_priority:
  "enqueue_all enqueue_tail i ps k = Some k' \<Longrightarrow> p_priority (procs k' q) = p_priority (procs k q)"
  by (induction ps arbitrary: k) (auto simp: bind_eq_Some_conv enqueue_tail_priority)

lemma kernel3_priority: "1 \<le> p \<Longrightarrow> p \<le> 9 \<Longrightarrow> p_priority (procs kernel3 p) = 3"
proof -
  assume p: "1 \<le> p" "p \<le> 9"
  obtain k' where "enqueue_all enqueue_tail 3 [1, 2, 3] kernel0 = Some k'"
    using rq.enqueue_all_ok [OF kernel0_rq, of 3 "[1, 2, 3]"]
    by (auto simp: IS_PRIORITY_OK_def simp del: enqueue_all.simps)
  with p show ?thesis
    using enqueue_all_priority [of 3 "[1, 2, 3]" kernel0 k' p]
    by (simp add: kernel3_def kernel0_procs IS_PROCN_OK_def del: enqueue_all.simps)
qed

theorem dequeue_schedule_removes_witness:
  "\<exists>k'. dequeue_schedule 2 kernel3 = Some (k', 0) \<and> chain (pnext k') (q_head (ready_q k' 3)) [1, 3]"
  using dequeue_schedule_removes [OF kernel3_rq, of 3 2] kernel3_priority [of 2]
  by (auto simp: IS_PRIORITY_OK_def)

text \<open>
  Removing the last of several queued processes leaves the queue's tail pointing at it, so
  the next process added at the tail is linked behind the removed one: it is the tail, but the
  list from the head does not contain it and the scheduler never reaches it.
\<close>

theorem dequeue_schedule_loses_process:
  assumes "rq_inv k qs" "IS_PRIORITY_OK i" "p_priority (procs k h) = i"
    and "qs i = xs @ [a, h]" "\<not> queued qs c"
  shows "\<exists>k' k''. dequeue_schedule h k = Some (k', 0) \<and> enqueue_tail i c k' = Some k'' \<and>
    chain (pnext k'') (q_head (ready_q k'' i)) (xs @ [a]) \<and> q_tail (ready_q k'' i) = Some c \<and> c \<notin> set (xs @ [a])"
proof -
  have h: "qs i = (xs @ [a]) @ h # []" using assms(4) by simp
  have q: "queue_ok k i (xs @ [a, h])" using rq_inv_queue [OF assms(1,2)] assms(4) by simp
  then have dis: "h \<notin> set (xs @ [a])" "pnext k h = None"
    using chain_distinct [of "pnext k" _ "xs @ [a, h]"] chain_next_hd [of "pnext k" _ "xs @ [a]" h "[]"]
    by (auto simp: queue_ok_def)
  have c: "c \<noteq> h" "c \<notin> set (xs @ [a])" "pnext k c = None"
    using assms rq_inv_free [OF assms(1,5)] by (auto simp: queued_def)
  obtain k' where k': "dequeue_schedule h k = Some (k', 0)"
      "chain (pnext k') (q_head (ready_q k' i)) (xs @ [a])" "q_tail (ready_q k' i) = Some h"
      "pnext k' = (pnext k)(a := None)"
    using dequeue_schedule_run [OF assms(1,2,3) h] q dis(2) by (auto simp: queue_ok_def)
  define k'' where "k'' = upd_proc c (p_next_update (\<lambda>_. None))
      (upd_queue i (q_tail_update (\<lambda>_. Some c)) (upd_proc h (p_next_update (\<lambda>_. Some c)) k'))"
  have "p_next (procs k' c) = None" using fun_cong [OF k'(4), of c] c by (auto simp: pnext_def split: if_splits)
  moreover have "q_head (ready_q k' i) \<noteq> None" using chain_None_iff [OF k'(2)] by simp
  ultimately have "enqueue_tail i c k' = Some k''"
    using assms(2) c(1) k'(3) by (auto simp: enqueue_tail_def k''_def)
  moreover have "chain (pnext k'') (q_head (ready_q k'' i)) (xs @ [a])"
    using k'(2) dis c by (simp add: k''_def)
  ultimately show ?thesis using k'(1) c by (auto simp: k''_def)
qed

theorem dequeue_schedule_loses_process_witness:
  "\<exists>k' k''. dequeue_schedule 3 kernel3 = Some (k', 0) \<and> enqueue_tail 3 4 k' = Some k'' \<and>
     chain (pnext k'') (q_head (ready_q k'' 3)) [1, 2] \<and> q_tail (ready_q k'' 3) = Some 4"
  using dequeue_schedule_loses_process [OF kernel3_rq, of 3 3 "[1]" 2 4] kernel3_priority [of 3]
  by (auto simp: IS_PRIORITY_OK_def queued_def)

text \<open>
  The link of a removed process is not cleared: a process that was followed by another
  when it was removed cannot be queued again, the assertion of \<^verbatim>\<open>enqueue_tail\<close> fails (a
  process stopped and continued by signals takes this path).
\<close>

theorem dequeue_schedule_then_enqueue_faults:
  assumes "rq_inv k qs" "IS_PRIORITY_OK i" "p_priority (procs k h) = i" "qs i = xs @ h # y # ys"
  shows "\<exists>k'. dequeue_schedule h k = Some (k', 0) \<and> enqueue_schedule h k' = None"
proof -
  have "queue_ok k i (xs @ h # y # ys)" using rq_inv_queue [OF assms(1,2)] assms(4) by simp
  then have n: "pnext k h = Some y" "h \<notin> set xs"
    using chain_next_hd [of "pnext k" _ xs h "y # ys"] chain_distinct [of "pnext k" _ "xs @ h # y # ys"]
    by (auto simp: queue_ok_def)
  obtain k' where k': "dequeue_schedule h k = Some (k', 0)"
      "pnext k' = (if xs = [] then pnext k else (pnext k)(last xs := pnext k h))"
    using dequeue_schedule_run [OF assms] by auto
  have "h \<noteq> last xs \<or> xs = []" using n(2) last_in_set [of xs] by blast
  with k'(2) n have "p_next (procs k' h) = Some y" by (auto simp: pnext_def fun_eq_iff split: if_splits)
  with k'(1) show ?thesis by (simp add: enqueue_schedule_def enqueue_tail_def)
qed

theorem dequeue_schedule_then_enqueue_faults_witness:
  "\<exists>k'. dequeue_schedule 1 kernel3 = Some (k', 0) \<and> enqueue_schedule 1 k' = None"
  using dequeue_schedule_then_enqueue_faults [OF kernel3_rq, of 3 1 "[]" 2 "[3]"] kernel3_priority [of 1]
  by (auto simp: IS_PRIORITY_OK_def)

text \<open>
  A free slot is found whenever there is one among the user slots: the lowest, set to
  defaults, marked in use and runnable, with a process id no live process has, while every
  other slot keeps its content. With no free slot nothing changes.
\<close>

theorem get_free_proc_slot_correct:
  assumes "pid_inv k" "next_pid k < INT_MAX"
  shows "if \<exists>p\<in>{1..9}. \<not> IS_INUSE k p
     then \<exists>k' p. get_free_proc_slot k = (k', Some p) \<and> p \<in> {1..9} \<and> \<not> IS_INUSE k p \<and>
       (\<forall>q\<in>{1..<p}. IS_INUSE k q) \<and> IS_INUSE k' p \<and> p_state (procs k' p) = STATE_RUNNABLE \<and>
       p_pid (procs k' p) = next_pid k \<and> pid_inv k' \<and> (\<forall>q. q \<noteq> p \<longrightarrow> procs k' q = procs k q)
     else get_free_proc_slot k = (k, None)"
proof (cases "find (\<lambda>p. \<not> IS_INUSE k p) [1..9]")
  case None
  then have "\<not> (\<exists>p\<in>{1..9}. \<not> IS_INUSE k p)" by (auto simp: find_upto_None)
  with None show ?thesis by (simp add: get_free_proc_slot_def)
next
  case (Some p)
  then have p: "1 \<le> p" "p \<le> 9" "\<not> IS_INUSE k p" "\<forall>q. 1 \<le> q \<and> q < p \<longrightarrow> IS_INUSE k q"
    by (auto simp: find_upto_Some)
  obtain k' where k': "get_free_proc_slot k = (k', Some p)" "\<forall>q. q \<noteq> p \<longrightarrow> procs k' q = procs k q"
      "IS_INUSE k' p" "p_state (procs k' p) = STATE_RUNNABLE" "p_pid (procs k' p) = next_pid k" "next_pid k' = next_pid k + 1"
    using get_free_proc_slot_run [OF Some] assms(2) by (elim exE conjE) (simp split: if_splits)
  have same: "IS_INUSE k' q = IS_INUSE k q" "p_pid (procs k' q) = p_pid (procs k q)" if "q \<noteq> p" for q
    using k'(2) that by (auto simp: IS_INUSE_def)
  have "pid_inv k'"
    unfolding pid_inv_def
  proof (intro conjI ballI impI)
    show "2 \<le> next_pid k'" using assms(1) k'(6) by (simp add: pid_inv_def)
  next
    fix q assume q: "q \<in> {1..9::int}" "IS_INUSE k' q"
    then show "0 < p_pid (procs k' q)" "p_pid (procs k' q) < next_pid k'"
      using same [of q] assms(1) k'(5,6) by (cases "q = p"; force simp: pid_inv_def)+
  next
    fix q r assume r: "q \<in> {1..9::int}" "r \<in> {1..9::int}" "IS_INUSE k' q \<and> IS_INUSE k' r \<and> q \<noteq> r"
    then show "p_pid (procs k' q) \<noteq> p_pid (procs k' r)"
      using same [of q] same [of r] assms(1) k'(5) by (cases "q = p"; cases "r = p"; force simp: pid_inv_def)
  qed
  with k' p show ?thesis by auto
qed

theorem get_free_proc_slot_correct_witness:
  "\<exists>k' p. get_free_proc_slot kernel0 = (k', Some p) \<and> pid_inv k'"
proof -
  have i: "\<not> IS_INUSE kernel0 p" if "p \<in> {1..9}" for p
    using that by (simp add: kernel0_procs IS_INUSE_def IS_PROCN_OK_def)
  have "next_pid (fold (\<lambda>i. upd_queue i f) is k) = next_pid k" for f "is" and k :: kernel
    by (induction "is" arbitrary: k) (auto simp: upd_queue_def)
  moreover have "next_pid (fold (\<lambda>p k. upd_proc p (p_proc_nr_update (\<lambda>_. p)) (proc_set_default p k)) ps k) = next_pid k"
    for ps and k :: kernel by (induction ps arbitrary: k) auto
  ultimately have "next_pid kernel0 = 2" by (simp add: kernel0_def init_proc_def Let_def kernel_zero_def)
  with i have "pid_inv kernel0" "next_pid kernel0 < INT_MAX" by (auto simp: pid_inv_def)
  from get_free_proc_slot_correct [OF this] i show ?thesis by (auto split: if_splits)
qed

end
