(* ===== verification/Ipc.thy ===== *)
theory Ipc
  imports Proc
begin

text \<open>
  Message passing (\<^verbatim>\<open>kernel/wini_ipc.c\<close>) and the replies to system calls
  (\<^verbatim>\<open>kernel/system.c\<close>): \<^verbatim>\<open>do_send\<close>, \<^verbatim>\<open>do_receive\<close>, \<^verbatim>\<open>do_notify\<close>,
  \<^verbatim>\<open>set_syscall_reply\<close> and \<^verbatim>\<open>syscall_reply2\<close>. Messages are words of physical memory.
  \<open>sq_inv\<close> relates the links of blocked senders to a list per destination. Logging is left out.
\<close>

abbreviation (input) GETCWD :: int where "GETCWD \<equiv> 52"

section \<open>Operations\<close>

definition set_reg0 :: "int \<Rightarrow> int \<Rightarrow> 'a kernel_scheme \<Rightarrow> 'a kernel_scheme" where
  "set_reg0 p v = upd_proc p (p_ctx_update (c_regs_update (\<lambda>r. r[0 := v])))"

definition set_syscall_reply :: "int \<Rightarrow> int \<Rightarrow> int \<Rightarrow> 'a kernel_scheme \<Rightarrow> 'a kernel_scheme \<times> int" where
  "set_syscall_reply who reply syscall_num k =
     (let (k, reply) = (if reply < 0
                        then (upd_mem (\<lambda>m. m(USER_ERRNO k who := - reply)) k, if syscall_num = GETCWD then 0 else - 1)
                        else (k, reply))
      in (set_reg0 who reply k, reply))"

text \<open>The walk over the senders blocked on the calling process.\<close>

partial_function (option) sender_walk :: "(int \<Rightarrow> proc) \<Rightarrow> int \<Rightarrow> int option \<Rightarrow> bool option" where
  "sender_walk ps d xp =
     (if xp = None then Some False
      else if xp = Some d then Some True
      else sender_walk ps d (p_next_sender (ps (the xp))))"

definition do_send :: "int \<Rightarrow> int \<Rightarrow> addr \<Rightarrow> 'a kernel_scheme \<Rightarrow> ('a kernel_scheme \<times> int) option" where
  "do_send src dest m k =
     (let k = upd_proc src (p_message_update (\<lambda>_. m)) k in
      case get_proc k dest of
        None \<Rightarrow> Some (k, - ESRCH)
      | Some d \<Rightarrow>
          do { deadlock \<leftarrow> (if has_flag (p_state (procs k d)) STATE_SENDING
                             then sender_walk (procs k) d (p_sender_q (procs k src)) else Some False);
               if deadlock then Some (k, - EDEADLK)
               else if p_state (procs k d) = STATE_RECEIVING
               then do { let k = upd_mem (copy_message (p_message (procs k d)) m) k;
                         let k = upd_proc d (p_state_update (\<lambda>s. clear_flag s STATE_RECEIVING)) k;
                         let k = set_reg0 d (kmem k (reply_res m)) k;
                         k \<leftarrow> enqueue_head (p_priority (procs k d)) d k;
                         Some (k, 0) }
               else Some (upd_proc d (p_sender_q_update (\<lambda>_. Some src))
                           (upd_proc src (\<lambda>r. r\<lparr>p_state := set_flag (p_state r) STATE_SENDING,
                              p_next_sender := p_sender_q (procs k d)\<rparr>) k), 0) })"

text \<open>The first pending notification of \<^verbatim>\<open>do_receive\<close>, from bit \<open>i\<close> on.\<close>

function notify_scan :: "u32 \<Rightarrow> int \<Rightarrow> int option option" where
  "notify_scan w i =
     (if i < 32
      then do { on \<leftarrow> is_bit_on [w] 1 i; if on then Some (Some i) else notify_scan w (i + 1) }
      else Some None)"
  by pat_completeness auto
termination
  by (relation "measure (\<lambda>(w, i). nat (32 - i))") auto

declare notify_scan.simps [simp del]

definition do_receive :: "addr \<Rightarrow> 'a kernel_scheme \<Rightarrow> ('a kernel_scheme \<times> int) option" where
  "do_receive m k =
     do { c \<leftarrow> curr_scheduling_proc k;
          note \<leftarrow> (if p_notify_pending (procs k c) \<noteq> 0 then notify_scan (p_notify_pending (procs k c)) 0 else Some None);
          case note of
            Some i \<Rightarrow>
              do { (w, _) \<leftarrow> bitmap_clear_bit [p_notify_pending (procs k c)] 1 i;
                   let k = upd_proc c (p_notify_pending_update (\<lambda>_. hd w)) k;
                   p \<leftarrow> get_proc k i;
                   Some (upd_mem (copy_message m (p_message (procs k p))) k, 0) }
          | None \<Rightarrow>
              (case p_sender_q (procs k c) of
                 Some p \<Rightarrow>
                   do { let k = upd_proc c (p_sender_q_update (\<lambda>_. p_next_sender (procs k p))) k;
                        let k = upd_mem (copy_message m (p_message (procs k p))) k;
                        let k = upd_proc p (p_state_update (\<lambda>s. clear_flag s STATE_SENDING)) k;
                        k \<leftarrow> (if p_state (procs k p) = STATE_RUNNABLE
                               then enqueue_head (p_priority (procs k p)) p k else Some k);
                        Some (k, 0) }
               | None \<Rightarrow> Some (upd_proc c (\<lambda>r. r\<lparr>p_message := m, p_state := set_flag (p_state r) STATE_RECEIVING\<rparr>) k, 0)) }"

definition do_notify :: "int \<Rightarrow> int \<Rightarrow> addr \<Rightarrow> 'a kernel_scheme \<Rightarrow> ('a kernel_scheme \<times> int) option" where
  "do_notify src dest m k =
     (case get_proc k dest of
        None \<Rightarrow> Some (k, - ESRCH)
      | Some d \<Rightarrow>
          if has_flag (p_state (procs k d)) STATE_ZOMBIE then Some (k, - EINVAL)
          else if p_state (procs k d) = STATE_RECEIVING
          then do { let k = upd_proc d (p_flags_update (\<lambda>f. clear_flag f DIRECT_SYSCALL)) k;
                    let k = fst (set_syscall_reply d (kmem k (reply_res m)) (kmem k (m_type m)) k);
                    let k = upd_mem (copy_message (p_message (procs k d)) m) k;
                    let k = upd_proc d (p_state_update (\<lambda>s. clear_flag s STATE_RECEIVING)) k;
                    k \<leftarrow> (if p_state (procs k d) = STATE_RUNNABLE
                           then enqueue_head (p_priority (procs k d)) d k else Some k);
                    Some (k, 0) }
          else do { s \<leftarrow> get_proc k src;
                    Some (if IS_USER_PROC k s then upd_proc s (p_message_update (\<lambda>_. m)) k else k, 0) })"

definition syscall_reply2 :: "int \<Rightarrow> int \<Rightarrow> int \<Rightarrow> addr \<Rightarrow> 'a kernel_scheme \<Rightarrow> ('a kernel_scheme \<times> int) option" where
  "syscall_reply2 syscall_num reply dest m k =
     (case get_proc k dest of
        None \<Rightarrow> Some (k, - ESRCH)
      | Some _ \<Rightarrow> do_notify SYSTEM dest m
                    (upd_mem (\<lambda>mm. mm(reply_res m := reply)) (upd_mem (\<lambda>mm. mm(m_type m := syscall_num)) k)))"

definition syscall_reply :: "int \<Rightarrow> int \<Rightarrow> addr \<Rightarrow> 'a kernel_scheme \<Rightarrow> ('a kernel_scheme \<times> int) option" where
  "syscall_reply reply dest m k = syscall_reply2 (curr_syscall k) reply dest m k"

section \<open>Blocked senders\<close>

definition snext :: "'a kernel_scheme \<Rightarrow> int \<Rightarrow> int option" where
  "snext k p = p_next_sender (procs k p)"

text \<open>\<open>sq d\<close> are the processes blocked sending to \<open>d\<close>, the latest first; each is in one list only.\<close>

definition sq_inv :: "'a kernel_scheme \<Rightarrow> (int \<Rightarrow> int list) \<Rightarrow> bool" where
  "sq_inv k sq \<longleftrightarrow> (\<forall>d. chain (snext k) (p_sender_q (procs k d)) (sq d)) \<and>
     (\<forall>d e. d \<noteq> e \<longrightarrow> set (sq d) \<inter> set (sq e) = {}) \<and>
     (\<forall>d. \<forall>p\<in>set (sq d). has_flag (p_state (procs k p)) STATE_SENDING)"

lemma sender_walk_run:
  "chain (\<lambda>p. p_next_sender (ps p)) xp xs \<Longrightarrow> sender_walk ps d xp = Some (d \<in> set xs)"
proof (induction xs arbitrary: xp)
  case Nil
  then show ?case by (simp add: sender_walk.simps)
next
  case (Cons x xs)
  then have c: "xp = Some x" "chain (\<lambda>p. p_next_sender (ps p)) (p_next_sender (ps x)) xs" by auto
  show ?case
    using Cons.IH [OF c(2)] c(1) by (subst sender_walk.simps) auto
qed

lemma snext_simps [simp]:
  "snext (upd_proc p f k) = (snext k)(p := p_next_sender (f (procs k p)))"
  "(snext k)(p := p_next_sender (procs k p)) = snext k" "snext (upd_mem g k) = snext k"
  by (auto simp: snext_def fun_eq_iff)

lemma strip_snext: assumes "strip k' = strip k" shows "snext k' = snext k"
  by (rule ext) (simp add: snext_def strip_fields [OF assms])

lemma sq_inv_strip: assumes "strip k' = strip k" shows "sq_inv k' sq = sq_inv k sq"
  by (simp add: sq_inv_def strip_snext [OF assms] strip_fields [OF assms])

lemma sq_inv_disjoint: "sq_inv k sq \<Longrightarrow> p \<in> set (sq d) \<Longrightarrow> p \<in> set (sq e) \<Longrightarrow> d = e"
  unfolding sq_inv_def by blast

lemma get_proc_upd [simp]:
  "p_flags (f (procs k p)) = p_flags (procs k p) \<Longrightarrow> get_proc (upd_proc p f k) n = get_proc k n"
  by (simp add: get_proc_def IS_INUSE_def)

lemma get_proc_mem [simp]: "get_proc (upd_mem f k) n = get_proc k n"
  by (simp add: get_proc_def IS_INUSE_def)

lemma get_proc_Some [simp]: "get_proc k n = Some p \<longleftrightarrow> p = n \<and> IS_PROCN_OK n \<and> IS_INUSE k n"
  by (auto simp: get_proc_def)

lemma set_reg0_simps [simp]:
  "kmem (set_reg0 p v k) = kmem k" "ready_q (set_reg0 p v k) = ready_q k" "pnext (set_reg0 p v k) = pnext k"
  "snext (set_reg0 p v k) = snext k" "p_state (procs (set_reg0 p v k) q) = p_state (procs k q)"
  "p_priority (procs (set_reg0 p v k) q) = p_priority (procs k q)"
  "p_sender_q (procs (set_reg0 p v k) q) = p_sender_q (procs k q)"
  "p_message (procs (set_reg0 p v k) q) = p_message (procs k q)"
  by (auto simp: set_reg0_def)

section \<open>Sending\<close>

text \<open>The processes the deadlock check finds: those blocked sending to the caller.\<close>

definition would_deadlock :: "'a kernel_scheme \<Rightarrow> (int \<Rightarrow> int list) \<Rightarrow> int \<Rightarrow> int \<Rightarrow> bool" where
  "would_deadlock k sq src dest \<longleftrightarrow> has_flag (p_state (procs k dest)) STATE_SENDING \<and> dest \<in> set (sq src)"

lemma do_send_check:
  assumes "sq_inv k sq" "IS_PROCN_OK d" "IS_INUSE k d"
  shows "do_send src d m k =
    (let k = upd_proc src (p_message_update (\<lambda>_. m)) k in
     if would_deadlock k sq src d then Some (k, - EDEADLK)
     else if p_state (procs k d) = STATE_RECEIVING
     then do { k \<leftarrow> enqueue_head (p_priority (procs k d)) d
                 (set_reg0 d (copy_message (p_message (procs k d)) m (kmem k) (reply_res m))
                   (upd_proc d (p_state_update (\<lambda>s. clear_flag s STATE_RECEIVING))
                     (upd_mem (copy_message (p_message (procs k d)) m) k)));
               Some (k, 0) }
     else Some (upd_proc d (p_sender_q_update (\<lambda>_. Some src))
                 (upd_proc src (\<lambda>r. r\<lparr>p_state := set_flag (p_state r) STATE_SENDING,
                    p_next_sender := p_sender_q (procs k d)\<rparr>) k), 0))"
proof -
  define k0 where "k0 = upd_proc src (p_message_update (\<lambda>_. m)) k"
  have "chain (\<lambda>p. p_next_sender (procs k0 p)) (p_sender_q (procs k0 src)) (sq src)"
    using assms(1) chain_cong [of "sq src" "\<lambda>p. p_next_sender (procs k0 p)" "snext k"]
    by (auto simp: sq_inv_def snext_def k0_def)
  note walk = sender_walk_run [OF this, of d]
  have gp: "get_proc k0 d = Some d" using assms(2,3) by (simp add: k0_def)
  have "do_send src d m k = do { deadlock \<leftarrow> Some (would_deadlock k0 sq src d);
     if deadlock then Some (k0, - EDEADLK)
     else if p_state (procs k0 d) = STATE_RECEIVING
     then do { k \<leftarrow> enqueue_head (p_priority (procs k0 d)) d
                 (set_reg0 d (copy_message (p_message (procs k0 d)) m (kmem k0) (reply_res m))
                   (upd_proc d (p_state_update (\<lambda>s. clear_flag s STATE_RECEIVING))
                     (upd_mem (copy_message (p_message (procs k0 d)) m) k0)));
               Some (k, 0) }
     else Some (upd_proc d (p_sender_q_update (\<lambda>_. Some src))
                 (upd_proc src (\<lambda>r. r\<lparr>p_state := set_flag (p_state r) STATE_SENDING,
                    p_next_sender := p_sender_q (procs k0 d)\<rparr>) k0), 0) }"
    by (simp add: do_send_def Let_def gp walk would_deadlock_def flip: k0_def)
  then show ?thesis by (simp add: Let_def flip: k0_def)
qed

lemma do_send_deliver_run:
  assumes "sq_inv k sq" "rq_inv k qs" "IS_PROCN_OK d" "IS_INUSE k d" "src \<noteq> d"
    and st: "p_state (procs k d) = STATE_RECEIVING" and "\<not> queued qs d"
    and i: "i = p_priority (procs k d)" "IS_PRIORITY_OK i"
  shows "\<exists>k'. do_send src d m k = Some (k', 0) \<and> kmem k' = copy_message (p_message (procs k d)) m (kmem k) \<and>
     p_state (procs k' d) = STATE_RUNNABLE \<and> (\<forall>q. q \<noteq> d \<longrightarrow> p_state (procs k' q) = p_state (procs k q)) \<and>
     sq_inv k' sq \<and> rq_inv k' (qs(i := d # qs i))"
proof -
  define k0 where "k0 = upd_proc src (p_message_update (\<lambda>_. m)) k"
  define k1 where "k1 = set_reg0 d (copy_message (p_message (procs k d)) m (kmem k) (reply_res m))
    (upd_proc d (p_state_update (\<lambda>s. clear_flag s STATE_RECEIVING)) (upd_mem (copy_message (p_message (procs k d)) m) k0))"
  have "\<not> would_deadlock k0 sq src d" using st assms(5) by (simp add: would_deadlock_def k0_def has_flag_def)
  then have send: "do_send src d m k = do { k \<leftarrow> enqueue_head i d k1; Some (k, 0) }"
    using do_send_check [OF assms(1,3,4), of src m] st assms(5) i
    by (simp add: Let_def k1_def k0_def)
  have "rq_inv k1 qs = rq_inv k qs" by (rule rq_inv_cong) (simp_all add: k1_def k0_def)
  then obtain k' where k': "enqueue_head i d k1 = Some k'" "rq_inv k' (qs(i := d # qs i))" "strip k' = strip k1"
    using enqueue_head_run [of k1 qs i d] assms(2,7) i(2) by blast
  have sd: "d \<notin> set (sq e)" for e using assms(1) st by (force simp: sq_inv_def has_flag_def)
  have "sq_inv k1 sq" using assms(1) sd st
    by (auto simp: sq_inv_def k1_def k0_def set_reg0_def)
  then have "sq_inv k' sq" using sq_inv_strip [OF k'(3)] by simp
  moreover have "p_state (procs k' d) = STATE_RUNNABLE" using st assms(5)
    by (simp add: strip_fields [OF k'(3)] k1_def k0_def)
  moreover have "p_state (procs k' q) = p_state (procs k q)" if "q \<noteq> d" for q
    using that by (simp add: strip_fields [OF k'(3)] k1_def k0_def)
  moreover have "kmem k' = copy_message (p_message (procs k d)) m (kmem k)"
    by (simp add: strip_mem [OF k'(3)] k1_def k0_def)
  ultimately show ?thesis using k'(1,2) send by auto
qed

lemma do_send_block_run:
  assumes "sq_inv k sq" "IS_PROCN_OK d" "IS_INUSE k d" "src \<noteq> d"
    and "\<not> has_flag (p_state (procs k src)) STATE_SENDING" "\<not> would_deadlock k sq src d"
    and "p_state (procs k d) \<noteq> STATE_RECEIVING"
  shows "\<exists>k'. do_send src d m k = Some (k', 0) \<and> kmem k' = kmem k \<and> p_message (procs k' src) = m \<and>
     p_state (procs k' src) = set_flag (p_state (procs k src)) STATE_SENDING \<and>
     (\<forall>q. q \<noteq> src \<longrightarrow> p_state (procs k' q) = p_state (procs k q)) \<and>
     pnext k' = pnext k \<and> ready_q k' = ready_q k \<and> sq_inv k' (sq(d := src # sq d)) \<and>
     p_priority (procs k' src) = p_priority (procs k src) \<and> (\<forall>q. p_notify_pending (procs k' q) = p_notify_pending (procs k q))"
proof -
  define k0 where "k0 = upd_proc src (p_message_update (\<lambda>_. m)) k"
  define k' where "k' = upd_proc d (p_sender_q_update (\<lambda>_. Some src))
    (upd_proc src (\<lambda>r. r\<lparr>p_state := set_flag (p_state r) STATE_SENDING, p_next_sender := p_sender_q (procs k d)\<rparr>) k0)"
  have "\<not> would_deadlock k0 sq src d" using assms(4,6) by (simp add: would_deadlock_def k0_def)
  then have send: "do_send src d m k = Some (k', 0)"
    using do_send_check [OF assms(1,2,3), of src m] assms(4,7)
    by (simp add: Let_def k'_def k0_def)
  have free: "src \<notin> set (sq e)" for e using assms(1,5) by (auto simp: sq_inv_def)
  have sn: "snext k' = (snext k)(src := p_sender_q (procs k d))"
    using assms(4) by (auto simp: k'_def k0_def snext_def fun_eq_iff)
  have sq: "p_sender_q (procs k' e) = (if e = d then Some src else p_sender_q (procs k e))" for e
    using assms(4) by (auto simp: k'_def k0_def)
  have "sq_inv k' (sq(d := src # sq d))"
    unfolding sq_inv_def
  proof (intro conjI allI ballI impI)
    fix e show "chain (snext k') (p_sender_q (procs k' e)) ((sq(d := src # sq d)) e)"
      using assms(1) free by (simp add: sn sq sq_inv_def)
  next
    fix d' e :: int assume "d' \<noteq> e"
    then show "set ((sq(d := src # sq d)) d') \<inter> set ((sq(d := src # sq d)) e) = {}"
      using assms(1) free by (auto simp: sq_inv_def)
  next
    fix e p assume "p \<in> set ((sq(d := src # sq d)) e)"
    then show "has_flag (p_state (procs k' p)) STATE_SENDING"
      using assms(1,4) by (auto simp: sq_inv_def k'_def k0_def split: if_splits)
  qed
  moreover have "pnext k' = pnext k" by (auto simp: k'_def k0_def pnext_def fun_eq_iff)
  ultimately show ?thesis using send assms(4) by (auto simp: k'_def k0_def)
qed

section \<open>Receiving\<close>

lemma do_receive_sender_run:
  assumes cur: "curr_scheduling_proc k = Some c" and "p_notify_pending (procs k c) = 0"
    and inv: "sq_inv k sq" "rq_inv k qs" and sq: "sq c = p # rest"
    and "\<not> has_flag (p_state (procs k c)) STATE_SENDING" "\<not> queued qs p"
    and i: "i = p_priority (procs k p)" "IS_PRIORITY_OK i"
  shows "\<exists>k'. do_receive m k = Some (k', 0) \<and> kmem k' = copy_message m (p_message (procs k p)) (kmem k) \<and>
     p_state (procs k' p) = clear_flag (p_state (procs k p)) STATE_SENDING \<and>
     (\<forall>q. q \<noteq> p \<longrightarrow> p_state (procs k' q) = p_state (procs k q)) \<and> sq_inv k' (sq(c := rest)) \<and>
     rq_inv k' (if p_state (procs k' p) = STATE_RUNNABLE then qs(i := p # qs i) else qs)"
proof -
  have p: "p_sender_q (procs k c) = Some p" "chain (snext k) (snext k p) rest" "has_flag (p_state (procs k p)) STATE_SENDING"
    using inv(1) sq unfolding sq_inv_def by (metis chain.simps(2) list.set_intros(1))+
  then have pc: "p \<noteq> c" using assms(6) by auto
  have only: "p \<notin> set rest" "\<And>e. e \<noteq> c \<Longrightarrow> p \<notin> set (sq e)"
    using chain_hd_not_in_tl [OF p(2)] sq_inv_disjoint [OF inv(1), of p c] sq by auto
  define k1 where "k1 = upd_proc p (p_state_update (\<lambda>s. clear_flag s STATE_SENDING))
    (upd_mem (copy_message m (p_message (procs k p))) (upd_proc c (p_sender_q_update (\<lambda>_. p_next_sender (procs k p))) k))"
  have k1: "rq_inv k1 qs" using inv(2) rq_inv_cong [of k1 k qs] by (auto simp: k1_def pnext_def fun_eq_iff)
  have sn: "snext k1 = snext k" by (auto simp: k1_def snext_def fun_eq_iff)
  have "sq_inv k1 (sq(c := rest))"
    unfolding sq_inv_def
  proof (intro conjI allI ballI impI)
    fix e show "chain (snext k1) (p_sender_q (procs k1 e)) ((sq(c := rest)) e)"
      using inv(1) p(2) pc by (auto simp: sn sq_inv_def k1_def snext_def [of k p])
  next
    fix d e :: int assume "d \<noteq> e"
    then show "set ((sq(c := rest)) d) \<inter> set ((sq(c := rest)) e) = {}"
      using inv(1) sq sq_inv_disjoint [OF inv(1)] by (auto; metis list.set_intros(2))
  next
    fix e q assume "q \<in> set ((sq(c := rest)) e)"
    then have "q \<noteq> p" "q \<in> set (sq e)" using only sq by (auto split: if_splits)
    then show "has_flag (p_state (procs k1 q)) STATE_SENDING"
      using inv(1) by (auto simp: sq_inv_def k1_def)
  qed
  note sq1 = this
  have st: "p_state (procs k1 p) = clear_flag (p_state (procs k p)) STATE_SENDING" "p_priority (procs k1 p) = i"
    "q \<noteq> p \<Longrightarrow> p_state (procs k1 q) = p_state (procs k q)" for q
    using pc i by (auto simp: k1_def)
  have mem1: "kmem k1 = copy_message m (p_message (procs k p)) (kmem k)" by (simp add: k1_def)
  have recv: "do_receive m k = do { k \<leftarrow> (if p_state (procs k1 p) = STATE_RUNNABLE
        then enqueue_head (p_priority (procs k1 p)) p k1 else Some k1); Some (k, 0) }"
    using pc by (simp add: do_receive_def cur assms(2) p(1) Let_def k1_def)
  show ?thesis
  proof (cases "p_state (procs k1 p) = STATE_RUNNABLE")
    case False
    with recv sq1 k1 st mem1 show ?thesis by auto
  next
    case True
    obtain k' where k': "enqueue_head i p k1 = Some k'" "rq_inv k' (qs(i := p # qs i))" "strip k' = strip k1"
      using enqueue_head_run [OF k1 i(2) assms(7)] by auto
    note same = strip_fields(1) [OF k'(3)] strip_mem [OF k'(3)]
    have "do_receive m k = Some (k', 0)" using recv True st(2) k'(1) by simp
    moreover have "sq_inv k' (sq(c := rest))" using sq1 sq_inv_strip [OF k'(3)] by simp
    moreover have "kmem k' = copy_message m (p_message (procs k p)) (kmem k)" using same mem1 by simp
    moreover have "p_state (procs k' p) = clear_flag (p_state (procs k p)) STATE_SENDING"
      "\<forall>q. q \<noteq> p \<longrightarrow> p_state (procs k' q) = p_state (procs k q)" using same st by auto
    ultimately show ?thesis using k'(2) True same by (intro exI [of _ k']) simp
  qed
qed

lemma do_receive_block_run:
  assumes "curr_scheduling_proc k = Some c" "p_notify_pending (procs k c) = 0" "sq_inv k sq" "sq c = []"
  shows "do_receive m k = Some (upd_proc c (\<lambda>r. r\<lparr>p_message := m, p_state := set_flag (p_state r) STATE_RECEIVING\<rparr>) k, 0)"
proof -
  have "p_sender_q (procs k c) = None" using assms(3,4) by (metis chain.simps(1) sq_inv_def)
  with assms show ?thesis by (simp add: do_receive_def)
qed

section \<open>Replies\<close>

definition reply_value :: "int \<Rightarrow> int" where
  "reply_value r = (if r < 0 then - 1 else r)"

lemma do_notify_deliver_run:
  assumes "IS_PROCN_OK d" "IS_INUSE k d" and st: "p_state (procs k d) = STATE_RECEIVING"
    and "rq_inv k qs" "\<not> queued qs d" and i: "i = p_priority (procs k d)" "IS_PRIORITY_OK i"
    and r: "r = kmem k (reply_res m)"
  shows "\<exists>k'. do_notify src d m k = Some (k', 0) \<and> p_state (procs k' d) = STATE_RUNNABLE \<and>
     rq_inv k' (qs(i := d # qs i)) \<and> c_regs (p_ctx (procs k' d)) = (c_regs (p_ctx (procs k d)))[0 := reply_value r] \<and>
     kmem k' = copy_message (p_message (procs k d)) m (if r < 0 then (kmem k)(USER_ERRNO k d := - r) else kmem k) \<and>
     (\<forall>q. q \<noteq> d \<longrightarrow> p_state (procs k' q) = p_state (procs k q) \<and> p_ctx (procs k' q) = p_ctx (procs k q))"
proof -
  define k0 where "k0 = upd_proc d (p_flags_update (\<lambda>f. clear_flag f DIRECT_SYSCALL)) k"
  define k1 where "k1 = set_reg0 d (reply_value r) (if r < 0 then upd_mem (\<lambda>m. m(USER_ERRNO k d := - r)) k0 else k0)"
  define k2 where "k2 = upd_proc d (p_state_update (\<lambda>s. clear_flag s STATE_RECEIVING))
    (upd_mem (copy_message (p_message (procs k1 d)) m) k1)"
  have reply: "fst (set_syscall_reply d (kmem k0 (reply_res m)) (kmem k0 (m_type m)) k0) = k1"
    using r by (auto simp: set_syscall_reply_def k1_def k0_def reply_value_def USER_ERRNO_def Let_def)
  have k2: "pnext k2 = pnext k" "ready_q k2 = ready_q k" "p_state (procs k2 d) = STATE_RUNNABLE"
    "p_priority (procs k2 d) = i"
    "kmem k2 = copy_message (p_message (procs k d)) m (if r < 0 then (kmem k)(USER_ERRNO k d := - r) else kmem k)"
    "c_regs (p_ctx (procs k2 d)) = (c_regs (p_ctx (procs k d)))[0 := reply_value r]"
    "q \<noteq> d \<Longrightarrow> procs k2 q = procs k q" for q
    using st i by (auto simp: k2_def k1_def k0_def set_reg0_def) (simp add: fun_upd_def)
  have gp: "get_proc k d = Some d" using assms(1,2) by simp
  have nz: "\<not> has_flag STATE_RECEIVING STATE_ZOMBIE" by (simp add: has_flag_def)
  have nt: "do_notify src d m k = do { k \<leftarrow> (if p_state (procs k2 d) = STATE_RUNNABLE
      then enqueue_head (p_priority (procs k2 d)) d k2 else Some k2); Some (k, 0) }"
    unfolding do_notify_def by (simp add: gp nz st Let_def k2_def reply flip: k0_def)
  have "rq_inv k2 qs" using assms(4) rq_inv_cong [OF k2(1,2)] by simp
  then obtain k' where k': "enqueue_head i d k2 = Some k'" "rq_inv k' (qs(i := d # qs i))" "strip k' = strip k2"
    using enqueue_head_run i(2) assms(5) by blast
  note same = strip_fields [OF k'(3)] strip_mem [OF k'(3)]
  have "do_notify src d m k = Some (k', 0)" using nt k2(3,4) k'(1) by simp
  with k'(2) k2 same show ?thesis by auto
qed

lemma syscall_reply2_run:
  assumes "IS_PROCN_OK d" "IS_INUSE k d" "p_state (procs k d) = STATE_RECEIVING"
    and "rq_inv k qs" "\<not> queued qs d" "i = p_priority (procs k d)" "IS_PRIORITY_OK i"
  shows "\<exists>k'. syscall_reply2 num r d m k = Some (k', 0) \<and> p_state (procs k' d) = STATE_RUNNABLE \<and>
     rq_inv k' (qs(i := d # qs i)) \<and> c_regs (p_ctx (procs k' d)) = (c_regs (p_ctx (procs k d)))[0 := reply_value r] \<and>
     kmem k' = copy_message (p_message (procs k d)) m
        (if r < 0 then (kmem k)(reply_res m := r, USER_ERRNO k d := - r) else (kmem k)(reply_res m := r)) \<and>
     (\<forall>q. q \<noteq> d \<longrightarrow> p_state (procs k' q) = p_state (procs k q) \<and> p_ctx (procs k' q) = p_ctx (procs k q))"
proof -
  define k0 where "k0 = upd_mem (\<lambda>mm. mm(reply_res m := r)) (upd_mem (\<lambda>mm. mm(m_type m := num)) k)"
  have gp: "get_proc k d = Some d" using assms(1,2) by simp
  have e: "syscall_reply2 num r d m k = do_notify SYSTEM d m k0" by (simp add: syscall_reply2_def gp k0_def)
  have k0: "procs k0 = procs k" "ready_q k0 = ready_q k" "kmem k0 = (kmem k)(reply_res m := r)" "pnext k0 = pnext k"
    by (auto simp: k0_def)
  have "rq_inv k0 qs" using assms(4) rq_inv_cong [OF k0(4,2)] by simp
  moreover have "IS_INUSE k0 d" "USER_ERRNO k0 d = USER_ERRNO k d"
    using assms(2) by (simp_all add: IS_INUSE_def USER_ERRNO_def k0(1))
  ultimately show ?thesis
    using do_notify_deliver_run [of d k0 qs i r m SYSTEM] assms k0 e by (simp split: if_splits)
qed

section \<open>Properties\<close>

text \<open>
  Sending to a process that waits for a message delivers it: the receiver's buffer holds the
  message, the receiver becomes runnable and is put at the head of its ready queue, and no other
  process changes state.
\<close>

theorem do_send_delivers:
  assumes "sq_inv k sq" "rq_inv k qs" "IS_PROCN_OK d" "IS_INUSE k d" "src \<noteq> d"
    and "p_state (procs k d) = STATE_RECEIVING" "\<not> queued qs d" "i = p_priority (procs k d)" "IS_PRIORITY_OK i"
  shows "\<exists>k'. do_send src d m k = Some (k', 0) \<and>
     message_at (kmem k') (p_message (procs k d)) = message_at (kmem k) m \<and>
     p_state (procs k' d) = STATE_RUNNABLE \<and> (\<forall>q. q \<noteq> d \<longrightarrow> p_state (procs k' q) = p_state (procs k q)) \<and>
     sq_inv k' sq \<and> rq_inv k' (qs(i := d # qs i))"
  using do_send_deliver_run [OF assms, of m] by fastforce

text \<open>A kernel in which process 1 waits for a message in a buffer at address 5000.\<close>

definition kernel_recv :: kernel where
  "kernel_recv = upd_proc 1 (\<lambda>r. r\<lparr>p_flags := IN_USE, p_state := STATE_RECEIVING, p_message := 5000\<rparr>)
     (upd_proc 2 (\<lambda>r. r\<lparr>p_flags := IN_USE, p_state := STATE_RUNNABLE\<rparr>) kernel0)"

lemma kernel_recv_inv: "rq_inv kernel_recv (\<lambda>_. [])" "sq_inv kernel_recv (\<lambda>_. [])"
  using kernel0_rq rq_inv_cong [of kernel_recv kernel0]
  by (auto simp: kernel_recv_def sq_inv_def pnext_def fun_eq_iff kernel0_procs proc_zero_def)

lemma kernel_recv_facts:
  "IS_INUSE kernel_recv 1" "IS_INUSE kernel_recv 2" "p_state (procs kernel_recv 1) = STATE_RECEIVING"
  "p_state (procs kernel_recv 2) = STATE_RUNNABLE" "p_priority (procs kernel_recv 1) = 3"
  "p_priority (procs kernel_recv 2) = 3" "p_message (procs kernel_recv 1) = 5000" "IS_PROCN_OK 1" "IS_PROCN_OK 2"
  by (simp_all add: kernel_recv_def IS_INUSE_def has_flag_def IS_PROCN_OK_def kernel0_procs)

theorem do_send_delivers_witness:
  "\<exists>k'. do_send 2 1 6000 kernel_recv = Some (k', 0) \<and>
     message_at (kmem k') 5000 = message_at (kmem kernel_recv) 6000 \<and> p_state (procs k' 1) = STATE_RUNNABLE"
  using do_send_delivers [OF kernel_recv_inv(2,1), of 1 2 3 6000] kernel_recv_facts
  by (auto simp: queued_def IS_PRIORITY_OK_def)

text \<open>
  C23. A message sent to a process that is not waiting is not lost: the sender blocks, and when
  the destination receives next, it gets exactly that message in the buffer it names, the sender
  is runnable again and at the head of its ready queue, and the lists of blocked senders are as
  before the send.
\<close>

theorem send_then_receive:
  assumes "sq_inv k sq" "rq_inv k qs" "IS_PROCN_OK d" "IS_INUSE k d" "src \<noteq> d"
    and "p_state (procs k src) = STATE_RUNNABLE" "p_state (procs k d) = STATE_RUNNABLE"
    and "p_notify_pending (procs k d) = 0" "\<not> queued qs src"
    and "i = p_priority (procs k src)" "IS_PRIORITY_OK i"
  shows "\<exists>k' k''. do_send src d m k = Some (k', 0) \<and> p_state (procs k' src) = STATE_SENDING \<and>
     do_receive buf (k'\<lparr>curr_scheduling_proc := Some d\<rparr>) = Some (k'', 0) \<and>
     message_at (kmem k'') buf = message_at (kmem k) m \<and> p_state (procs k'' src) = STATE_RUNNABLE \<and>
     sq_inv k'' sq \<and> rq_inv k'' (qs(i := src # qs i))"
proof -
  have "\<not> has_flag (p_state (procs k src)) STATE_SENDING" "p_state (procs k d) \<noteq> STATE_RECEIVING"
    "\<not> would_deadlock k sq src d" using assms(6,7) by (auto simp: would_deadlock_def)
  from do_send_block_run [OF assms(1,3,4,5) this(1,3,2), of m] obtain k' where
    k': "do_send src d m k = Some (k', 0)" "kmem k' = kmem k" "p_message (procs k' src) = m"
      "p_state (procs k' src) = set_flag (p_state (procs k src)) STATE_SENDING"
      "\<forall>q. q \<noteq> src \<longrightarrow> p_state (procs k' q) = p_state (procs k q)"
      "pnext k' = pnext k" "ready_q k' = ready_q k" "sq_inv k' (sq(d := src # sq d))"
      "p_priority (procs k' src) = p_priority (procs k src)"
      "\<forall>q. p_notify_pending (procs k' q) = p_notify_pending (procs k q)"
    by blast
  define k1 where "k1 = k'\<lparr>curr_scheduling_proc := Some d\<rparr>"
  have k1: "curr_scheduling_proc k1 = Some d" "procs k1 = procs k'" "kmem k1 = kmem k'" "ready_q k1 = ready_q k'"
    by (simp_all add: k1_def)
  have "sq_inv k1 (sq(d := src # sq d))" using k'(8) by (simp add: sq_inv_def k1 snext_def [abs_def])
  moreover have "rq_inv k1 qs" using assms(2) rq_inv_cong [of k1 k qs] k'(6,7)
    by (simp add: k1 pnext_def [abs_def])
  moreover have "\<not> has_flag (p_state (procs k1 d)) STATE_SENDING" using k'(5) assms(5,7) by (simp add: k1)
  ultimately obtain k'' where k'': "do_receive buf k1 = Some (k'', 0)" "kmem k'' = copy_message buf m (kmem k)"
    "p_state (procs k'' src) = clear_flag (set_flag (p_state (procs k src)) STATE_SENDING) STATE_SENDING"
    "sq_inv k'' ((sq(d := src # sq d))(d := sq d))"
    "rq_inv k'' (if p_state (procs k'' src) = STATE_RUNNABLE then qs(i := src # qs i) else qs)"
    using do_receive_sender_run [OF k1(1), of "sq(d := src # sq d)" qs src "sq d" i buf] assms(8-11) k'
    by (auto simp: k1 simp del: fun_upd_apply simp add: fun_upd_same)
  have "p_state (procs k' src) = STATE_SENDING" "p_state (procs k'' src) = STATE_RUNNABLE"
    using k'(4) k''(3) assms(6) by (simp_all add: set_flag_def clear_flag_def)
  with k' k'' show ?thesis by (auto simp flip: k1_def)
qed

theorem send_then_receive_witness:
  "\<exists>k' k''. do_send 2 3 6000 (upd_proc 3 (\<lambda>r. r\<lparr>p_flags := IN_USE, p_state := 0, p_notify_pending := 0\<rparr>) kernel_recv) = Some (k', 0) \<and>
     do_receive 7000 (k'\<lparr>curr_scheduling_proc := Some 3\<rparr>) = Some (k'', 0) \<and>
     p_state (procs k'' 2) = STATE_RUNNABLE"
proof -
  let ?k = "upd_proc 3 (\<lambda>r. r\<lparr>p_flags := IN_USE, p_state := 0, p_notify_pending := 0\<rparr>) kernel_recv"
  have inv: "sq_inv ?k (\<lambda>_. [])" "rq_inv ?k (\<lambda>_. [])"
    using kernel_recv_inv rq_inv_cong [of ?k kernel_recv] by (auto simp: sq_inv_def)
  have "IS_PROCN_OK 3" "IS_INUSE ?k 3" by (simp_all add: IS_PROCN_OK_def IS_INUSE_def has_flag_def)
  from send_then_receive [OF inv this, of 2 3 6000 7000] kernel_recv_facts show ?thesis
    by (auto simp: queued_def IS_PRIORITY_OK_def)
qed

text \<open>
  A send that would close a cycle of two is refused: when the destination is itself blocked
  sending to the caller the result is \<^verbatim>\<open>-EDEADLK\<close>, nothing changes but the caller's message
  pointer, and the caller is not blocked; a destination that does not exist gives
  \<^verbatim>\<open>-ESRCH\<close>.
\<close>

theorem do_send_refuses:
  assumes "sq_inv k sq"
  shows "(get_proc k d = None \<longrightarrow> do_send src d m k = Some (upd_proc src (p_message_update (\<lambda>_. m)) k, - ESRCH)) \<and>
         (get_proc k d \<noteq> None \<and> d \<in> set (sq src) \<longrightarrow>
            do_send src d m k = Some (upd_proc src (p_message_update (\<lambda>_. m)) k, - EDEADLK))"
proof (intro conjI impI)
  assume "get_proc k d = None"
  then show "do_send src d m k = Some (upd_proc src (p_message_update (\<lambda>_. m)) k, - ESRCH)"
    by (simp add: do_send_def)
next
  assume d: "get_proc k d \<noteq> None \<and> d \<in> set (sq src)"
  then have "has_flag (p_state (procs k d)) STATE_SENDING" using assms by (auto simp: sq_inv_def)
  with d have "would_deadlock (upd_proc src (p_message_update (\<lambda>_. m)) k) sq src d"
    by (auto simp: would_deadlock_def)
  then show "do_send src d m k = Some (upd_proc src (p_message_update (\<lambda>_. m)) k, - EDEADLK)"
    using do_send_check [OF assms, of d src m] d by (auto simp: Let_def)
qed

theorem do_send_refuses_witness:
  "(\<exists>k. do_send 2 20 6000 kernel_recv = Some (k, - ESRCH)) \<and>
   (\<exists>k sq k'. sq_inv (k :: kernel) sq \<and> do_send 2 1 6000 k = Some (k', - EDEADLK))"
proof
  show "\<exists>k. do_send 2 20 6000 kernel_recv = Some (k, - ESRCH)"
    using do_send_refuses [OF kernel_recv_inv(2), of 20 2 6000] by (simp add: get_proc_def IS_PROCN_OK_def)
  let ?k = "upd_proc 1 (p_state_update (\<lambda>_. STATE_RUNNABLE)) kernel_recv"
  have inv: "sq_inv ?k (\<lambda>_. [])" using kernel_recv_inv(2) by (auto simp: sq_inv_def)
  have "\<not> has_flag (p_state (procs ?k 1)) STATE_SENDING" "\<not> would_deadlock ?k (\<lambda>_. []) 1 2"
    "p_state (procs ?k 2) \<noteq> STATE_RECEIVING" using kernel_recv_facts by (simp_all add: would_deadlock_def)
  moreover have "IS_INUSE ?k 2" using kernel_recv_facts by (simp add: IS_INUSE_def)
  ultimately obtain k' where k': "do_send 1 2 5000 ?k = Some (k', 0)" "sq_inv k' ((\<lambda>_. [])(2 := [1]))"
    "p_flags (procs k' 1) = p_flags (procs ?k 1)"
    using do_send_block_run [OF inv, of 2 1 5000] kernel_recv_facts
      do_send_check [OF inv, of 2 1 5000] by (auto simp: Let_def would_deadlock_def)
  then have "get_proc k' 1 \<noteq> None" using kernel_recv_facts by (simp add: get_proc_def IS_INUSE_def)
  with do_send_refuses [OF k'(2), of 1 2 6000] k'(2)
  show "\<exists>k sq k'. sq_inv (k :: kernel) sq \<and> do_send 2 1 6000 k = Some (k', - EDEADLK)" by auto
qed

text \<open>
  A reply to a waiting caller makes it runnable, puts it at the head of its ready queue and
  sets its first register to the result: the value itself, or -1 with the error number stored
  at the caller's errno when it is negative. This holds for every system call number:
  \<^verbatim>\<open>reply_res\<close> and \<^verbatim>\<open>type\<close> are the same word, so the exception the source makes for
  \<^verbatim>\<open>GETCWD\<close> (0 instead of -1) never applies.
\<close>

theorem syscall_reply2_correct:
  assumes "IS_PROCN_OK d" "IS_INUSE k d" "p_state (procs k d) = STATE_RECEIVING"
    and "rq_inv k qs" "\<not> queued qs d" "i = p_priority (procs k d)" "IS_PRIORITY_OK i"
    and "0 < length (c_regs (p_ctx (procs k d)))"
    and "USER_ERRNO k d < p_message (procs k d) \<or> p_message (procs k d) + MESSAGE_LEN \<le> USER_ERRNO k d"
  shows "\<exists>k'. syscall_reply2 num r d m k = Some (k', 0) \<and> p_state (procs k' d) = STATE_RUNNABLE \<and>
     rq_inv k' (qs(i := d # qs i)) \<and> c_regs (p_ctx (procs k' d)) ! 0 = (if r < 0 then - 1 else r) \<and>
     (r < 0 \<longrightarrow> kmem k' (USER_ERRNO k d) = - r)"
  using syscall_reply2_run [OF assms(1-7), of num r m] assms(8,9)
  by (elim exE conjE) (auto simp: reply_value_def copy_message_def)

theorem syscall_reply2_correct_witness:
  "\<exists>k'. syscall_reply2 GETCWD (- ENOENT) 1 2048 kernel_recv = Some (k', 0) \<and> c_regs (p_ctx (procs k' 1)) ! 0 = - 1 \<and>
     kmem k' 1 = ENOENT"
proof -
  have "0 < length (c_regs (p_ctx (procs kernel_recv 1)))" "USER_ERRNO kernel_recv 1 = 1"
    by (simp_all add: kernel_recv_def USER_ERRNO_def kernel0_procs IS_PROCN_OK_def)
  with syscall_reply2_correct [of 1 kernel_recv "\<lambda>_. []" 3 GETCWD "- ENOENT" 2048] kernel_recv_facts kernel_recv_inv
  show ?thesis by (auto simp: queued_def IS_PRIORITY_OK_def)
qed

end
