(* ===== verification/Signal.thy ===== *)
theory Signal
  imports Ipc
begin

text \<open>
  Signals: the set operations (\<^verbatim>\<open>lib/posix/_sigset.c\<close>), posting and finding pending signals
  (\<^verbatim>\<open>send_sig\<close>, \<^verbatim>\<open>is_sigpending\<close> of \<^verbatim>\<open>kernel/signal.c\<close>) and the system calls that
  change masks and actions (\<^verbatim>\<open>kernel/system/do_sigaction.c\<close>, \<^verbatim>\<open>do_sigprocmask.c\<close>,
  \<^verbatim>\<open>do_sigpending.c\<close>, \<^verbatim>\<open>do_sigsuspend.c\<close>). User structures are read and written in
  physical memory, so an aliasing argument behaves as in the source. Local variables whose
  address is taken live at \<open>ktmp_mesg\<close>.
\<close>

section \<open>Constants\<close>

abbreviation (input) SIGABRT :: int where "SIGABRT \<equiv> 6"
abbreviation (input) SIGFPE :: int where "SIGFPE \<equiv> 8"
abbreviation (input) SIGKILL :: int where "SIGKILL \<equiv> 9"
abbreviation (input) SIGSEGV :: int where "SIGSEGV \<equiv> 11"
abbreviation (input) SIGPIPE :: int where "SIGPIPE \<equiv> 13"
abbreviation (input) SIGALRM :: int where "SIGALRM \<equiv> 14"
abbreviation (input) SIGSTOP :: int where "SIGSTOP \<equiv> 17"
abbreviation (input) SIGTSTP :: int where "SIGTSTP \<equiv> 18"
abbreviation (input) SIGCONT :: int where "SIGCONT \<equiv> 19"
abbreviation (input) SIGCHLD :: int where "SIGCHLD \<equiv> 20"
abbreviation (input) SIG_DFL :: addr where "SIG_DFL \<equiv> 0"
abbreviation (input) SIG_IGN :: addr where "SIG_IGN \<equiv> 1"
abbreviation (input) SIG_ERR :: addr where "SIG_ERR \<equiv> 0xffff"
abbreviation (input) SA_RESETHAND :: u32 where "SA_RESETHAND \<equiv> 0x2"
abbreviation (input) SA_NODEFER :: u32 where "SA_NODEFER \<equiv> 0x4"
abbreviation (input) SIG_BLOCK :: int where "SIG_BLOCK \<equiv> 0"
abbreviation (input) SIG_UNBLOCK :: int where "SIG_UNBLOCK \<equiv> 1"
abbreviation (input) SIG_SETMASK :: int where "SIG_SETMASK \<equiv> 2"

section \<open>Signal sets\<close>

definition sigisvalid :: "int \<Rightarrow> bool" where
  "sigisvalid signo \<longleftrightarrow> signo mod 2 ^ 32 \<le> 21"

definition sigaddset :: "u32 \<Rightarrow> int \<Rightarrow> u32 \<times> int" where
  "sigaddset s signo = (if \<not> sigisvalid signo then (s, - 1) else (s OR push_bit (nat signo) 1, 0))"

definition sigdelset :: "u32 \<Rightarrow> int \<Rightarrow> u32 \<times> int" where
  "sigdelset s signo = (if \<not> sigisvalid signo then (s, - 1) else (s AND NOT (push_bit (nat signo) 1), 0))"

definition sigemptyset :: "u32 \<Rightarrow> u32 \<times> int" where
  "sigemptyset s = (0, 0)"

definition sigfillset :: "u32 \<Rightarrow> u32 \<times> int" where
  "sigfillset s = (push_bit 1 (push_bit 21 1) - 1, 0)"

definition sigismember :: "u32 \<Rightarrow> int \<Rightarrow> int" where
  "sigismember s signo =
     (if \<not> sigisvalid signo then - 1 else if s AND push_bit (nat signo) 1 \<noteq> 0 then 1 else 0)"

section \<open>Posting and finding signals\<close>

text \<open>The loop of \<^verbatim>\<open>is_sigpending\<close>, from signal \<open>i\<close> on.\<close>

definition is_sigpending :: "'a kernel_scheme \<Rightarrow> int \<Rightarrow> int" where
  "is_sigpending k who =
     (let pendings = p_sig_pending (procs k who); blocked = p_sig_mask (procs k who) in
      if pendings \<noteq> 0 \<and> pendings \<noteq> blocked
      then case find (\<lambda>i. pendings AND push_bit (nat i) 1 \<noteq> 0 \<and> \<not> blocked AND push_bit (nat i) 1 \<noteq> 0) [1..20] of
             Some i \<Rightarrow> i | None \<Rightarrow> 0
      else 0)"

definition send_sig :: "int \<Rightarrow> int \<Rightarrow> 'a kernel_scheme \<Rightarrow> ('a kernel_scheme \<times> int) option" where
  "send_sig who signum k =
     (if \<not> IS_USER_PROC k who then Some (k, - EINVAL)
      else if sigismember (p_sig_mask (procs k who)) signum \<noteq> 0 \<and> signum \<noteq> SIGKILL \<and> signum \<noteq> SIGSTOP
      then do { act \<leftarrow> aget (p_sig_table (procs k who)) signum;
                if sa_handler act \<noteq> SIG_IGN
                then let (s, ret) = sigaddset (p_sig_pending (procs k who)) signum
                     in Some (upd_proc who (p_sig_pending_update (\<lambda>_. s)) k, ret)
                else Some (k, 0) }
      else do { k \<leftarrow> (if has_flag (p_state (procs k who)) STATE_WAITING
                     then do { let m = ktmp_mesg k;
                               let k = upd_mem (\<lambda>mem. mem(m_type m := 0)) k;
                               let k = upd_proc who (p_state_update (\<lambda>s. clear_flag s STATE_WAITING)) k;
                               (k, _) \<leftarrow> syscall_reply2 0 (- EINTR) (p_proc_nr (procs k who)) m k;
                               Some k }
                     else Some k);
                Some (upd_proc who (p_sig_pending_update (\<lambda>s. fst (sigaddset s signum))) k, 0) })"

section \<open>System calls\<close>

definition is_vaddr_accessible :: "'a kernel_scheme \<Rightarrow> addr \<Rightarrow> int \<Rightarrow> bool option" where
  "is_vaddr_accessible k a who =
     is_vaddr_ok a 1 (c_rbase (p_ctx (procs k who))) (p_protection_table (procs k who))"

definition phys :: "'a kernel_scheme \<Rightarrow> addr \<Rightarrow> int \<Rightarrow> addr" where
  "phys k a who = get_physical_addr a (c_rbase (p_ctx (procs k who)))"

definition sigaction_at :: "memory \<Rightarrow> addr \<Rightarrow> sigaction" where
  "sigaction_at m a = \<lparr>sa_handler = m a, sa_mask = word_of_int (m (a + 1)), sa_flags = word_of_int (m (a + 2))\<rparr>"

definition put_sigaction :: "addr \<Rightarrow> sigaction \<Rightarrow> memory \<Rightarrow> memory" where
  "put_sigaction a s m = m(a := sa_handler s, a + 1 := uint (sa_mask s), a + 2 := uint (sa_flags s))"

definition sys_sigaction :: "int \<Rightarrow> int \<Rightarrow> addr \<Rightarrow> addr \<Rightarrow> 'a kernel_scheme \<Rightarrow> ('a kernel_scheme \<times> int) option" where
  "sys_sigaction who signum act oact k =
     (if signum < 1 \<or> signum \<ge> 21 then Some (k, - EINVAL)
      else if signum = SIGKILL \<or> signum = SIGSTOP then Some (k, - EINVAL)
      else if kmem k act = SIG_IGN \<and> signum = SIGSEGV then Some (k, - EINVAL)
      else do { let k = (if kmem k act = SIG_IGN
                         then upd_proc who (p_sig_pending_update (\<lambda>s. fst (sigdelset s signum))) k else k);
                old \<leftarrow> aget (p_sig_table (procs k who)) signum;
                let k = (if oact \<noteq> NULL then upd_mem (put_sigaction oact old) k else k);
                let s = sigaction_at (kmem k) act;
                let s = s\<lparr>sa_mask := fst (sigdelset (fst (sigdelset (sa_mask s) SIGKILL)) SIGSTOP)\<rparr>;
                let k = upd_mem (\<lambda>m. m(act + 1 := uint (sa_mask s))) k;
                tab \<leftarrow> aset (p_sig_table (procs k who)) signum s;
                Some (upd_proc who (p_sig_table_update (\<lambda>_. tab)) k, 0) })"

definition do_sigaction :: "int \<Rightarrow> addr \<Rightarrow> 'a kernel_scheme \<Rightarrow> ('a kernel_scheme \<times> int) option" where
  "do_sigaction who m k =
     do { let signum = kmem k (m1_i1 m);
          let act = kmem k (m1_p1 m);
          let oact = kmem k (m1_p2 m);
          ok \<leftarrow> is_vaddr_accessible k act who;
          if \<not> ok then Some (k, - EFAULT)
          else do { ok2 \<leftarrow> (if oact \<noteq> NULL then is_vaddr_accessible k oact who else Some True);
                    if \<not> ok2 then Some (k, - EFAULT)
                    else sys_sigaction who signum (phys k act who)
                           (if oact \<noteq> NULL then phys k oact who else oact) k } }"

definition do_signal :: "int \<Rightarrow> addr \<Rightarrow> 'a kernel_scheme \<Rightarrow> ('a kernel_scheme \<times> int) option" where
  "do_signal who m k =
     do { let signum = kmem k (m1_i1 m);
          let sa = ktmp_mesg k;
          let oldsa = ktmp_mesg k + 3;
          let k = upd_mem (put_sigaction sa \<lparr>sa_handler = kmem k (m1_p1 m), sa_mask = 0xffff, sa_flags = SA_RESETHAND\<rparr>) k;
          (k, r) \<leftarrow> sys_sigaction who signum sa oldsa k;
          Some (k, if r \<noteq> 0 then SIG_ERR else kmem k oldsa) }"

definition do_sigprocmask :: "int \<Rightarrow> addr \<Rightarrow> 'a kernel_scheme \<Rightarrow> ('a kernel_scheme \<times> int) option" where
  "do_sigprocmask who m k =
     do { let how = kmem k (m1_i1 m);
          let vir_oldact = kmem k (m1_p1 m);
          ok \<leftarrow> (if vir_oldact \<noteq> NULL then is_vaddr_accessible k vir_oldact who else Some True);
          if \<not> ok then Some (k, - EFAULT)
          else do {
            let k = (if vir_oldact \<noteq> NULL
                     then upd_mem (\<lambda>mem. mem(phys k vir_oldact who := uint (p_sig_mask (procs k who)))) k else k);
            let sset = (word_of_int (kmem k (m1_i2 m)) :: u32);
            let sset = fst (sigdelset (fst (sigdelset sset SIGKILL)) SIGSTOP);
            let upd = (\<lambda>f. upd_proc who (p_sig_mask_update f) k);
            Some (if how = SIG_SETMASK then (upd (\<lambda>_. sset), 0)
                  else if how = SIG_BLOCK
                  then (upd (fold (\<lambda>i b. if sigismember sset i \<noteq> 0 then fst (sigaddset b i) else b) [1..20]), 0)
                  else if how = SIG_UNBLOCK
                  then (upd (fold (\<lambda>i b. if sigismember sset i \<noteq> 0 then fst (sigdelset b i) else b) [1..20]), 0)
                  else (k, - EINVAL)) } }"

definition do_sigpending :: "int \<Rightarrow> addr \<Rightarrow> 'a kernel_scheme \<Rightarrow> ('a kernel_scheme \<times> int) option" where
  "do_sigpending who m k =
     do { let vp = kmem k (m1_p1 m);
          ok \<leftarrow> is_vaddr_accessible k vp who;
          Some (if \<not> ok then (k, - EFAULT)
                else (upd_mem (\<lambda>mem. mem(phys k vp who := uint (p_sig_pending (procs k who)))) k, 0)) }"

definition do_sigsuspend :: "int \<Rightarrow> addr \<Rightarrow> 'a kernel_scheme \<Rightarrow> 'a kernel_scheme \<times> int" where
  "do_sigsuspend who m k =
     (let smask = (word_of_int (kmem k (m1_i1 m)) :: u32);
          smask = fst (sigdelset (fst (sigdelset smask SIGKILL)) SIGSTOP);
          k = upd_proc who (\<lambda>r. r\<lparr>p_sig_mask2 := p_sig_mask r, p_sig_mask := smask\<rparr>) k
      in if is_sigpending k who \<noteq> 0 then (k, - EINTR)
         else (upd_proc who (p_state_update (\<lambda>s. set_flag s STATE_WAITING)) k, SUSPEND))"

section \<open>Sets of signals\<close>

definition sigs :: "u32 \<Rightarrow> int set" where
  "sigs s = {i. 0 \<le> i \<and> bit s (nat i)}"

lemma sigisvalid_iff: "0 \<le> i \<Longrightarrow> i < 2 ^ 32 \<Longrightarrow> sigisvalid i \<longleftrightarrow> i \<le> 21"
  by (simp add: sigisvalid_def)

lemma and_push_bit_1: "(s AND push_bit n (1 :: u32) \<noteq> 0) = bit s n"
  using has_flag_pow2 [of s n] by (simp add: has_flag_def)

lemma sigaddset_run: "0 \<le> i \<Longrightarrow> i \<le> 21 \<Longrightarrow> \<exists>s'. sigaddset s i = (s', 0) \<and> sigs s' = insert i (sigs s)"
  by (auto simp: sigaddset_def sigisvalid_iff sigs_def bit_simps nat_eq_iff2)

lemma sigdelset_run: "0 \<le> i \<Longrightarrow> i \<le> 21 \<Longrightarrow> \<exists>s'. sigdelset s i = (s', 0) \<and> sigs s' = sigs s - {i}"
  by (auto simp: sigdelset_def sigisvalid_iff sigs_def bit_simps nat_eq_iff2 dest: bit_imp_le_length)

lemma sigset_edit: "0 \<le> i \<Longrightarrow> i \<le> 21 \<Longrightarrow> sigs (fst (sigaddset s i)) = insert i (sigs s)" "0 \<le> i \<Longrightarrow> i \<le> 21 \<Longrightarrow> sigs (fst (sigdelset s i)) = sigs s - {i}"
  using sigaddset_run [of i s] sigdelset_run [of i s] by auto

lemma sigismember_run: "0 \<le> i \<Longrightarrow> i \<le> 21 \<Longrightarrow> sigismember s i = (if i \<in> sigs s then 1 else 0)"
  using and_push_bit_1 [of s "nat i"] by (simp add: sigismember_def sigisvalid_iff sigs_def)

text \<open>The contract of the set operations, and what a loop over signal numbers does under it.\<close>

locale signal_sets =
  fixes add del :: "'s \<Rightarrow> 'i \<Rightarrow> 's"
    and member :: "'s \<Rightarrow> 'i \<Rightarrow> bool"
    and elems :: "'s \<Rightarrow> 'i set"
    and valid :: "'i \<Rightarrow> bool"
  assumes elems_add: "valid i \<Longrightarrow> elems (add s i) = insert i (elems s)"
    and elems_del: "valid i \<Longrightarrow> elems (del s i) = elems s - {i}"
    and member_iff: "valid i \<Longrightarrow> member s i \<longleftrightarrow> i \<in> elems s"
begin

lemma fold_add:
  "\<forall>i\<in>set is. valid i \<Longrightarrow>
     elems (fold (\<lambda>i b. if member s i then add b i else b) is b) = elems b \<union> (elems s \<inter> set is)"
  by (induction "is" arbitrary: b) (auto simp: elems_add member_iff)

lemma fold_del:
  "\<forall>i\<in>set is. valid i \<Longrightarrow>
     elems (fold (\<lambda>i b. if member s i then del b i else b) is b) = elems b - (elems s \<inter> set is)"
  by (induction "is" arbitrary: b) (auto simp: elems_del member_iff)

end

interpretation sigset: signal_sets "\<lambda>s i. fst (sigaddset s i)" "\<lambda>s i. fst (sigdelset s i)"
  "\<lambda>s i. sigismember s i \<noteq> 0" sigs "\<lambda>i. 0 \<le> i \<and> i \<le> 21"
proof (unfold_locales, goal_cases)
  case (1 i s)
  then obtain s' where "sigaddset s i = (s', 0)" "sigs s' = insert i (sigs s)" using sigaddset_run by blast
  then show ?case by simp
next
  case (2 i s)
  then obtain s' where "sigdelset s i = (s', 0)" "sigs s' = sigs s - {i}" using sigdelset_run by blast
  then show ?case by simp
next
  case (3 i s) then show ?case by (simp add: sigismember_run)
qed

lemma sigs_clean: "sigs (fst (sigdelset (fst (sigdelset s SIGKILL)) SIGSTOP)) = sigs s - {SIGKILL, SIGSTOP}"
  by (auto simp: sigset.elems_del)

lemma is_sigpending_run:
  "is_sigpending k who =
     (case find (\<lambda>i. i \<in> sigs (p_sig_pending (procs k who)) - sigs (p_sig_mask (procs k who))) [1..20] of
        Some i \<Rightarrow> i | None \<Rightarrow> 0)"
proof -
  let ?p = "p_sig_pending (procs k who)" and ?b = "p_sig_mask (procs k who)"
  have e: "find (\<lambda>i. ?p AND push_bit (nat i) 1 \<noteq> 0 \<and> \<not> ?b AND push_bit (nat i) 1 \<noteq> 0) [1..20] =
      find (\<lambda>i. i \<in> sigs ?p - sigs ?b) [1..20]"
    by (rule find_cong) (auto simp: sigs_def and_push_bit_1 simp del: upto_rec_numeral push_bit_of_1)
  show ?thesis
  proof (cases "?p \<noteq> 0 \<and> ?p \<noteq> ?b")
    case True
    then show ?thesis unfolding is_sigpending_def Let_def e by simp
  next
    case False
    then have "sigs ?p - sigs ?b = {}" by (auto simp: sigs_def)
    then have "find (\<lambda>i. i \<in> sigs ?p - sigs ?b) [1..20] = None"
      by (auto simp: find_None_iff simp del: upto_rec_numeral)
    with False show ?thesis by (auto simp: is_sigpending_def Let_def)
  qed
qed

section \<open>What can be blocked\<close>

text \<open>\<^verbatim>\<open>SIGKILL\<close> and \<^verbatim>\<open>SIGSTOP\<close> are in no mask of the process, nor in a handler's.\<close>

definition unblockable :: "u32 \<Rightarrow> bool" where
  "unblockable s \<longleftrightarrow> SIGKILL \<notin> sigs s \<and> SIGSTOP \<notin> sigs s"

definition mask_ok :: "proc \<Rightarrow> bool" where
  "mask_ok r \<longleftrightarrow> unblockable (p_sig_mask r) \<and> unblockable (p_sig_mask2 r) \<and>
     (\<forall>a\<in>set (p_sig_table r). unblockable (sa_mask a))"

lemma unblockable_clean: "unblockable (fst (sigdelset (fst (sigdelset s SIGKILL)) SIGSTOP))"
  by (simp add: unblockable_def sigs_clean)

text \<open>And there is no handler for them, in a table of \<^verbatim>\<open>_NSIG\<close> actions.\<close>

definition sig_ok :: "proc \<Rightarrow> bool" where
  "sig_ok r \<longleftrightarrow> mask_ok r \<and> length (p_sig_table r) = NSIG \<and> (\<forall>s\<in>{SIGKILL, SIGSTOP}. \<forall>a. aget (p_sig_table r) s = Some a \<longrightarrow> sa_handler a = SIG_DFL \<or> sa_handler a = SIG_IGN)"

lemma sys_sigaction_mask:
  assumes "sys_sigaction who signum act oact k = Some (k', r)" "sig_ok (procs k who)"
  shows "sig_ok (procs k' who)"
proof -
  have "mask_ok (procs k' who)" using assms unblockable_clean
    by (auto simp: sys_sigaction_def Let_def bind_eq_Some_conv aset_def mask_ok_def sig_ok_def
        dest!: subsetD [OF set_update_subset_insert] split: if_splits)
  moreover have "length (p_sig_table (procs k' who)) = NSIG" using assms
    by (auto simp: sys_sigaction_def Let_def bind_eq_Some_conv aset_def sig_ok_def split: if_splits)
  moreover have "aget (xs[nat signum := x]) s = aget xs s" if "signum \<noteq> s" "1 \<le> signum" "0 \<le> s" for xs s and x :: sigaction
    using that by (auto simp: aget_def)
  then have "aget (p_sig_table (procs k' who)) s = aget (p_sig_table (procs k who)) s" if "s \<in> {SIGKILL, SIGSTOP}" for s
    using assms(1) that by (auto simp: sys_sigaction_def Let_def bind_eq_Some_conv aset_def split: if_splits)
  ultimately show ?thesis using assms(2) by (simp add: sig_ok_def)
qed

lemma do_sigprocmask_run:
  assumes old: "kmem k (m1_p1 m) = NULL \<or>
      (is_vaddr_accessible k (kmem k (m1_p1 m)) who = Some True \<and> phys k (kmem k (m1_p1 m)) who \<noteq> m1_i2 m)"
    and S: "S = sigs (word_of_int (kmem k (m1_i2 m))) - {SIGKILL, SIGSTOP}"
    and how: "how = kmem k (m1_i1 m)" and M: "M = sigs (p_sig_mask (procs k who))"
  shows "\<exists>k' r. do_sigprocmask who m k = Some (k', r) \<and>
     sigs (p_sig_mask (procs k' who)) =
       (if how = SIG_SETMASK then S else if how = SIG_BLOCK then M \<union> (S \<inter> {1..20})
        else if how = SIG_UNBLOCK then M - (S \<inter> {1..20}) else M) \<and>
     r = (if how = SIG_SETMASK \<or> how = SIG_BLOCK \<or> how = SIG_UNBLOCK then 0 else - EINVAL) \<and>
     (kmem k (m1_p1 m) \<noteq> NULL \<longrightarrow> kmem k' (phys k (kmem k (m1_p1 m)) who) = uint (p_sig_mask (procs k who)))"
proof -
  have valid: "\<forall>i\<in>set [1..20]. 0 \<le> i \<and> i \<le> (21::int)" by auto
  have iv: "set [1..20] = {1..20::int}" by simp
  define s0 :: u32 where "s0 = fst (sigdelset (fst (sigdelset (word_of_int (kmem k (m1_i2 m))) SIGKILL)) SIGSTOP)"
  have s0: "sigs s0 = S" by (simp add: s0_def S sigs_clean)
  note fa = sigset.fold_add [OF valid, of s0] and fd = sigset.fold_del [OF valid, of s0]
  define k1 where "k1 = (if kmem k (m1_p1 m) \<noteq> NULL
    then upd_mem (\<lambda>mem. mem(phys k (kmem k (m1_p1 m)) who := uint (p_sig_mask (procs k who)))) k else k)"
  have k1: "procs k1 = procs k" "kmem k1 (m1_i2 m) = kmem k (m1_i2 m)"
    "kmem k (m1_p1 m) \<noteq> NULL \<longrightarrow> kmem k1 (phys k (kmem k (m1_p1 m)) who) = uint (p_sig_mask (procs k who))"
    using old by (auto simp: k1_def)
  have "do_sigprocmask who m k = Some (
      if how = SIG_SETMASK then (upd_proc who (p_sig_mask_update (\<lambda>_. s0)) k1, 0)
      else if how = SIG_BLOCK then (upd_proc who (p_sig_mask_update
        (fold (\<lambda>i b. if sigismember s0 i \<noteq> 0 then fst (sigaddset b i) else b) [1..20])) k1, 0)
      else if how = SIG_UNBLOCK then (upd_proc who (p_sig_mask_update
        (fold (\<lambda>i b. if sigismember s0 i \<noteq> 0 then fst (sigdelset b i) else b) [1..20])) k1, 0)
      else (k1, - EINVAL))"
    using old unfolding do_sigprocmask_def Let_def how [symmetric] k1_def [symmetric] k1(2) s0_def [symmetric]
    by (elim disjE conjE) simp_all
  with k1(1,3) s0 iv M fa fd show ?thesis
    by (cases "how = SIG_SETMASK"; cases "how = SIG_BLOCK"; cases "how = SIG_UNBLOCK") (simp_all del: upto_rec_numeral)
qed

section \<open>Properties\<close>

text \<open>
  The scheduler's choice of signal: \<^verbatim>\<open>is_sigpending\<close> returns the lowest pending signal
  that is not blocked, and 0 exactly when there is none.
\<close>

theorem is_sigpending_lowest:
  "if \<exists>i\<in>{1..20}. i \<in> sigs (p_sig_pending (procs k who)) - sigs (p_sig_mask (procs k who))
   then is_sigpending k who \<in> {1..20} \<and>
     is_sigpending k who \<in> sigs (p_sig_pending (procs k who)) - sigs (p_sig_mask (procs k who)) \<and>
     (\<forall>i. 1 \<le> i \<and> i < is_sigpending k who \<longrightarrow> i \<notin> sigs (p_sig_pending (procs k who)) - sigs (p_sig_mask (procs k who)))
   else is_sigpending k who = 0"
proof -
  let ?P = "\<lambda>i. i \<in> sigs (p_sig_pending (procs k who)) - sigs (p_sig_mask (procs k who))"
  show ?thesis
  proof (cases "find ?P [1..20]")
    case None
    then have "is_sigpending k who = 0" unfolding is_sigpending_run by simp
    moreover have "\<not> (\<exists>i\<in>{1..20}. ?P i)" using None unfolding find_upto_None by auto
    ultimately show ?thesis by simp
  next
    case (Some i)
    then have "is_sigpending k who = i" unfolding is_sigpending_run by simp
    moreover have "1 \<le> i \<and> i \<le> 20 \<and> ?P i \<and> (\<forall>y. 1 \<le> y \<and> y < i \<longrightarrow> \<not> ?P y)"
      using Some unfolding find_upto_Some .
    ultimately have i: "1 \<le> i \<and> i \<le> 20 \<and> ?P i \<and> (\<forall>y. 1 \<le> y \<and> y < i \<longrightarrow> \<not> ?P y)" "is_sigpending k who = i"
      by blast+
    then have "\<exists>i\<in>{1..20}. ?P i" by auto
    with i show ?thesis by simp
  qed
qed

theorem is_sigpending_lowest_witness:
  "is_sigpending (upd_proc 1 (\<lambda>r. r\<lparr>p_sig_pending := 0x4006, p_sig_mask := 0x2\<rparr>) kernel0) 1 = 2"
proof -
  let ?k = "upd_proc 1 (\<lambda>r. r\<lparr>p_sig_pending := 0x4006, p_sig_mask := 0x2\<rparr>) kernel0"
  have b: "bit (0x4006 :: u32) 2" "\<not> bit (0x2 :: u32) 2" "bit (0x2 :: u32) 1" by simp_all
  have two: "2 \<in> sigs (p_sig_pending (procs ?k 1)) - sigs (p_sig_mask (procs ?k 1))" using b by (simp add: sigs_def)
  have one: "1 \<notin> sigs (p_sig_pending (procs ?k 1)) - sigs (p_sig_mask (procs ?k 1))" using b by (simp add: sigs_def)
  have ex: "\<exists>i\<in>{1..20}. i \<in> sigs (p_sig_pending (procs ?k 1)) - sigs (p_sig_mask (procs ?k 1))"
    using two by (intro bexI [of _ 2]) auto
  from is_sigpending_lowest [of ?k 1] ex have r: "1 \<le> is_sigpending ?k 1" "is_sigpending ?k 1 \<le> 20"
    "is_sigpending ?k 1 \<in> sigs (p_sig_pending (procs ?k 1)) - sigs (p_sig_mask (procs ?k 1))"
    "\<forall>i. 1 \<le> i \<and> i < is_sigpending ?k 1 \<longrightarrow> i \<notin> sigs (p_sig_pending (procs ?k 1)) - sigs (p_sig_mask (procs ?k 1))"
    unfolding if_P [OF ex] by auto
  have "is_sigpending ?k 1 \<noteq> 1" using r(3) one by metis
  moreover have "\<not> 2 < is_sigpending ?k 1" using r(4) two by auto
  ultimately show ?thesis using r(1) by linarith
qed

text \<open>
  \<^verbatim>\<open>sigprocmask\<close> computes the union, the difference or the new set, never with
  \<^verbatim>\<open>SIGKILL\<close> or \<^verbatim>\<open>SIGSTOP\<close> added, stores the old mask where the caller asks, and refuses
  any other request with \<^verbatim>\<open>-EINVAL\<close> leaving the mask alone.
\<close>

theorem do_sigprocmask_correct:
  assumes "kmem k (m1_p1 m) = NULL \<or>
      (is_vaddr_accessible k (kmem k (m1_p1 m)) who = Some True \<and> phys k (kmem k (m1_p1 m)) who \<noteq> m1_i2 m)"
    and "S = sigs (word_of_int (kmem k (m1_i2 m))) - {SIGKILL, SIGSTOP}"
    and "how = kmem k (m1_i1 m)" and "M = sigs (p_sig_mask (procs k who))"
  shows "\<exists>k' r. do_sigprocmask who m k = Some (k', r) \<and>
     sigs (p_sig_mask (procs k' who)) =
       (if how = SIG_SETMASK then S else if how = SIG_BLOCK then M \<union> (S \<inter> {1..20})
        else if how = SIG_UNBLOCK then M - (S \<inter> {1..20}) else M) \<and>
     r = (if how = SIG_SETMASK \<or> how = SIG_BLOCK \<or> how = SIG_UNBLOCK then 0 else - EINVAL) \<and>
     (kmem k (m1_p1 m) \<noteq> NULL \<longrightarrow> kmem k' (phys k (kmem k (m1_p1 m)) who) = uint (p_sig_mask (procs k who)))"
  using do_sigprocmask_run [OF assms] .

theorem do_sigprocmask_correct_witness:
  "\<exists>k'. do_sigprocmask 1 100 (upd_mem (\<lambda>_. (\<lambda>_. 0)(102 := SIG_SETMASK, 103 := 0x202)) kernel0) = Some (k', 0) \<and>
     SIGKILL \<notin> sigs (p_sig_mask (procs k' 1))"
  using do_sigprocmask_correct [of "upd_mem (\<lambda>_. (\<lambda>_. 0)(102 := SIG_SETMASK, 103 := 0x202)) kernel0" 100 1 _ SIG_SETMASK,
      OF _ refl _ refl] by auto

text \<open>Every call that sets a mask keeps \<^verbatim>\<open>SIGKILL\<close> and \<^verbatim>\<open>SIGSTOP\<close> out of it.\<close>

lemma do_sigaction_mask: "do_sigaction who m k = Some (k', r) \<Longrightarrow> sig_ok (procs k who) \<Longrightarrow> sig_ok (procs k' who)"
  by (auto simp: do_sigaction_def Let_def bind_eq_Some_conv dest: sys_sigaction_mask split: if_splits)

lemma do_signal_mask:
  assumes "do_signal who m k = Some (k', r)" "sig_ok (procs k who)"
  shows "sig_ok (procs k' who)"
proof -
  from assms(1) obtain sa k1 r1 where "sys_sigaction who (kmem k (m1_i1 m)) (ktmp_mesg k) (ktmp_mesg k + 3)
      (upd_mem (put_sigaction (ktmp_mesg k) sa) k) = Some (k1, r1)" "k' = k1"
    by (auto simp: do_signal_def Let_def bind_eq_Some_conv)
  with assms(2) sys_sigaction_mask show ?thesis by fastforce
qed

lemma do_sigprocmask_mask:
  assumes "do_sigprocmask who m k = Some (k', r)" "sig_ok (procs k who)"
  shows "sig_ok (procs k' who)"
proof -
  have add: "unblockable s0 \<Longrightarrow> unblockable b \<Longrightarrow>
      unblockable (fold (\<lambda>i b. if sigismember s0 i \<noteq> 0 then fst (sigaddset b i) else b) [1..20] b)" for s0 b
    using sigset.fold_add [of "[1..20]" s0 b] by (auto simp: unblockable_def simp del: upto_rec_numeral)
  have del: "unblockable b \<Longrightarrow>
      unblockable (fold (\<lambda>i b. if sigismember s0 i \<noteq> 0 then fst (sigdelset b i) else b) [1..20] b)" for s0 b
    using sigset.fold_del [of "[1..20]" s0 b] by (auto simp: unblockable_def simp del: upto_rec_numeral)
  show ?thesis using assms add del unblockable_clean
    by (auto simp: do_sigprocmask_def Let_def bind_eq_Some_conv sig_ok_def mask_ok_def simp del: upto_rec_numeral split: if_splits)
qed

lemma do_sigsuspend_mask: "do_sigsuspend who m k = (k', r) \<Longrightarrow> sig_ok (procs k who) \<Longrightarrow> sig_ok (procs k' who)"
  using unblockable_clean by (auto simp: do_sigsuspend_def Let_def sig_ok_def mask_ok_def split: if_splits)

text \<open>
  Posting a signal to a user process that is not waiting adds it to the pending set and
  changes nothing else; a signal that is both blocked and ignored is dropped, unless it is
  \<^verbatim>\<open>SIGKILL\<close> or \<^verbatim>\<open>SIGSTOP\<close>. A kernel process is refused.
\<close>

theorem send_sig_posts:
  assumes "signum \<in> {1..20}" "length (p_sig_table (procs k who)) = NSIG"
    and "\<not> has_flag (p_state (procs k who)) STATE_WAITING"
  shows "if IS_USER_PROC k who
    then \<exists>s. send_sig who signum k = Some (upd_proc who (p_sig_pending_update (\<lambda>_. s)) k, 0) \<and>
      sigs s = (if signum \<in> sigs (p_sig_mask (procs k who)) - {SIGKILL, SIGSTOP} \<and>
                   sa_handler (p_sig_table (procs k who) ! nat signum) = SIG_IGN
                then sigs (p_sig_pending (procs k who)) else insert signum (sigs (p_sig_pending (procs k who))))
    else send_sig who signum k = Some (k, - EINVAL)"
proof (cases "IS_USER_PROC k who")
  case False
  then show ?thesis by (simp add: send_sig_def)
next
  case True
  let ?p = "p_sig_pending (procs k who)"
  have v: "0 \<le> signum" "signum \<le> 21" "signum < 21" using assms(1) by auto
  have mem: "sigismember (p_sig_mask (procs k who)) signum = (if signum \<in> sigs (p_sig_mask (procs k who)) then 1 else 0)"
    using v by (simp add: sigismember_run)
  have tab: "aget (p_sig_table (procs k who)) signum = Some (p_sig_table (procs k who) ! nat signum)"
    using v assms(2) by (simp add: aget_def)
  obtain s where s: "sigaddset ?p signum = (s, 0)" "sigs s = insert signum (sigs ?p)"
    using sigaddset_run v by blast
  have same: "upd_proc who (p_sig_pending_update (\<lambda>_. ?p)) k = k" by (simp add: upd_proc_def)
  have upd: "upd_proc who (p_sig_pending_update (\<lambda>s. fst (sigaddset s signum))) k = upd_proc who (p_sig_pending_update (\<lambda>_. s)) k"
    using s(1) by (cases "procs k who") (simp add: upd_proc_def)
  show ?thesis
  proof (cases "signum \<in> sigs (p_sig_mask (procs k who)) - {SIGKILL, SIGSTOP} \<and>
      sa_handler (p_sig_table (procs k who) ! nat signum) = SIG_IGN")
    case True
    with \<open>IS_USER_PROC k who\<close> mem tab have "send_sig who signum k = Some (k, 0)" by (simp add: send_sig_def)
    with True \<open>IS_USER_PROC k who\<close> same show ?thesis by (auto intro!: exI [of _ ?p])
  next
    case False
    with \<open>IS_USER_PROC k who\<close> mem tab s upd assms(3)
    have "send_sig who signum k = Some (upd_proc who (p_sig_pending_update (\<lambda>_. s)) k, 0)"
      by (auto simp: send_sig_def)
    with False \<open>IS_USER_PROC k who\<close> s(2) show ?thesis by auto
  qed
qed

theorem send_sig_posts_witness:
  "\<exists>s. send_sig 1 SIGALRM (upd_proc 1 (\<lambda>r. r\<lparr>p_state := 0, p_ctx := (p_ctx r)\<lparr>c_rbase := 4096\<rparr>\<rparr>) kernel0) =
     Some (upd_proc 1 (p_sig_pending_update (\<lambda>_. s)) (upd_proc 1 (\<lambda>r. r\<lparr>p_state := 0, p_ctx := (p_ctx r)\<lparr>c_rbase := 4096\<rparr>\<rparr>) kernel0), 0) \<and>
     SIGALRM \<in> sigs s"
proof -
  let ?k = "upd_proc 1 (\<lambda>r. r\<lparr>p_state := 0, p_ctx := (p_ctx r)\<lparr>c_rbase := 4096\<rparr>\<rparr>) kernel0"
  have "length (p_sig_table (procs ?k 1)) = NSIG" "\<not> has_flag (p_state (procs ?k 1)) STATE_WAITING" "IS_USER_PROC ?k 1"
    "sigs (p_sig_mask (procs ?k 1)) = {}"
    by (simp_all add: kernel0_procs IS_PROCN_OK_def proc_default_def proc_zero_def IS_USER_PROC_def sigs_def)
  with send_sig_posts [of SIGALRM ?k 1] show ?thesis by auto
qed

end
