(* ===== verification/Exit.thy ===== *)
theory Exit
  imports Signal
begin

text \<open>
  The end of a process and the delivery of signals: \<^verbatim>\<open>kernel/system/do_exit_wait.c\<close>, the
  delivery half of \<^verbatim>\<open>kernel/signal.c\<close>, \<^verbatim>\<open>do_kill.c\<close> and \<^verbatim>\<open>do_sigreturn.c\<close>, with the
  user-space copies of \<^verbatim>\<open>kernel/proc.c\<close> and the release of memory of \<^verbatim>\<open>winix/mm.c\<close>.
  The part of a slot that is saved on the user stack is its first 21 words. Closing a file goes
  through the device's \<^verbatim>\<open>fops->close\<close>: the argument \<open>fops_close\<close>.
\<close>

abbreviation (input) EXIT :: int where "EXIT \<equiv> 2"
abbreviation (input) VFORK :: int where "VFORK \<equiv> 4"
abbreviation (input) SIGRET :: int where "SIGRET \<equiv> 9"
abbreviation (input) WAITPID :: int where "WAITPID \<equiv> 10"
abbreviation (input) WNOHANG :: u32 where "WNOHANG \<equiv> 1"
abbreviation (input) WUNTRACED :: u32 where "WUNTRACED \<equiv> 2"
abbreviation (input) EXIT_MAGIC :: int where "EXIT_MAGIC \<equiv> 0x10293847"
abbreviation (input) ASM_ADDUI_SP_SP_1 :: int where "ASM_ADDUI_SP_SP_1 \<equiv> 0x1ee10001"
abbreviation (input) ASM_SYSCALL :: int where "ASM_SYSCALL \<equiv> 0x200d0000"
abbreviation (input) SIGNAL_CTX_LEN :: int where "SIGNAL_CTX_LEN \<equiv> 21"
abbreviation (input) SIGFRAME_LEN :: int where "SIGFRAME_LEN \<equiv> 3"

type_synonym 'a closer = "int \<Rightarrow> 'a kernel_scheme \<Rightarrow> ('a kernel_scheme \<times> int) option"

section \<open>User memory\<close>

definition vaddr :: "'a kernel_scheme \<Rightarrow> addr \<Rightarrow> int \<Rightarrow> addr" where
  "vaddr k a who = get_virtual_addr a (c_rbase (p_ctx (procs k who)))"

definition user_ok :: "'a kernel_scheme \<Rightarrow> addr \<Rightarrow> int \<Rightarrow> int \<Rightarrow> bool option" where
  "user_ok k a len who = is_vaddr_ok a len (c_rbase (p_ctx (procs k who))) (p_protection_table (procs k who))"

definition copy_from_user :: "int \<Rightarrow> addr \<Rightarrow> addr \<Rightarrow> int \<Rightarrow> 'a kernel_scheme \<Rightarrow> ('a kernel_scheme \<times> int) option" where
  "copy_from_user who dest src len k =
     do { ok \<leftarrow> user_ok k src len who;
          Some (if \<not> ok then (k, - EFAULT) else (upd_mem (memcpy dest (phys k src who) len) k, len)) }"

definition copy_to_user :: "int \<Rightarrow> addr \<Rightarrow> addr \<Rightarrow> int \<Rightarrow> 'a kernel_scheme \<Rightarrow> ('a kernel_scheme \<times> int) option" where
  "copy_to_user who dest src len k =
     do { ok \<leftarrow> user_ok k dest len who;
          Some (if \<not> ok then (k, - EFAULT) else (upd_mem (memcpy (phys k dest who) src len) k, len)) }"

primrec put_words :: "addr \<Rightarrow> int list \<Rightarrow> memory \<Rightarrow> memory" where
  "put_words a [] m = m"
| "put_words a (w # ws) m = put_words (a + 1) ws (m(a := w))"

text \<open>\<^verbatim>\<open>copyto_user_stack\<close> of the words \<open>ws\<close> that \<^verbatim>\<open>src\<close> points to.\<close>

definition copyto_user_stack :: "int \<Rightarrow> int list \<Rightarrow> 'a kernel_scheme \<Rightarrow> 'a kernel_scheme" where
  "copyto_user_stack who ws k =
     (let sp = phys k (c_sp (p_ctx (procs k who))) who - int (length ws);
          k = upd_mem (put_words sp ws) k
      in upd_proc who (p_ctx_update (c_sp_update (\<lambda>_. vaddr k sp who))) k)"

definition copyto_user_heap :: "int \<Rightarrow> addr \<Rightarrow> int \<Rightarrow> 'a kernel_scheme \<Rightarrow> 'a kernel_scheme \<times> addr" where
  "copyto_user_heap who src len k =
     (let a = vaddr k (p_heap_break (procs k who)) who in
      if p_heap_break (procs k who) + len \<ge> p_heap_bottom (procs k who) then (k, NULL)
      else (upd_proc who (p_heap_break_update (\<lambda>b. b + len))
              (upd_mem (memcpy (p_heap_break (procs k who)) src len) k), a))"

definition user_release :: "int \<Rightarrow> addr \<Rightarrow> int \<Rightarrow> 'a kernel_scheme \<Rightarrow> ('a kernel_scheme \<times> int) option" where
  "user_release who page len k =
     do { (m, pt, r) \<leftarrow> user_release_pages (kmm k) (p_protection_table (procs k who)) page len;
          Some (upd_proc who (p_protection_table_update (\<lambda>_. pt)) (k\<lparr>kmm := m\<rparr>), r) }"

definition release_proc_mem :: "int \<Rightarrow> 'a kernel_scheme \<Rightarrow> ('a kernel_scheme \<times> int) option" where
  "release_proc_mem who k =
     do { parent \<leftarrow> get_proc k (p_parent (procs k who));
          if has_flag (p_state (procs k parent)) STATE_VFORKING then Some (k, 0)
          else do { (k, ret) \<leftarrow> user_release who (p_stack_top (procs k who)) (p_stack_size (procs k who)) k;
                    if ret \<noteq> 0 then Some (k, ret)
                    else if \<not> IS_THREAD k who
                    then user_release who (p_mem_start (procs k who))
                           (p_heap_bottom (procs k who) + 1 - p_mem_start (procs k who)) k
                    else Some (k, ret) } }"

section \<open>Waiting for children\<close>

definition get_wstats :: "'a kernel_scheme \<Rightarrow> int \<Rightarrow> int" where
  "get_wstats k child = to_int (push_bit 8 (p_exit_status (procs k child))) OR (p_sig_status (procs k child) AND 0x7f)"

definition is_child :: "'a kernel_scheme \<Rightarrow> int \<Rightarrow> int \<Rightarrow> bool" where
  "is_child k parent c \<longleftrightarrow> IS_INUSE k c \<and> p_parent (procs k c) = p_proc_nr (procs k parent)"

definition wait_match :: "'a kernel_scheme \<Rightarrow> int \<Rightarrow> int \<Rightarrow> int \<Rightarrow> bool" where
  "wait_match k parent pid c \<longleftrightarrow>
     \<not> (pid > 0 \<and> pid \<noteq> p_pid (procs k c)) \<and> \<not> (pid < - 1 \<and> - pid \<noteq> p_procgrp (procs k c)) \<and>
     \<not> (pid = 0 \<and> p_procgrp (procs k c) \<noteq> p_procgrp (procs k parent))"

definition wait_ready :: "'a kernel_scheme \<Rightarrow> u32 \<Rightarrow> int \<Rightarrow> bool" where
  "wait_ready k options c \<longleftrightarrow> has_flag (p_state (procs k c)) STATE_ZOMBIE \<or>
     (has_flag options WUNTRACED \<and> has_flag (p_state (procs k c)) STATE_STOPPED)"

definition do_waitpid :: "int \<Rightarrow> addr \<Rightarrow> 'a kernel_scheme \<Rightarrow> ('a kernel_scheme \<times> int) option" where
  "do_waitpid parent mesg k =
     do { let pid = kmem k (m1_i1 mesg);
          let options = (word_of_int (kmem k (m1_i2 mesg)) :: u32);
          let vptr = kmem k (m1_p1 mesg);
          ok \<leftarrow> (if vptr \<noteq> NULL then is_vaddr_accessible k vptr parent else Some True);
          if \<not> ok then Some (k, - EFAULT)
          else (let children = filter (\<lambda>c. is_child k parent c \<and> wait_match k parent pid c) [1..9] in
            case find (wait_ready k options) children of
              Some child \<Rightarrow>
                let k = (if vptr \<noteq> NULL then upd_mem (\<lambda>mem. mem(phys k vptr parent := get_wstats k child)) k else k);
                    k = release_zombie child k
                in Some (k, p_pid (procs k child))
            | None \<Rightarrow>
                if has_flag options WNOHANG then Some (k, 0)
                else if children = [] then Some (k, - ECHILD)
                else Some (upd_proc parent (\<lambda>r. r\<lparr>p_wpid := pid, p_woptions := options, p_varg := vptr,
                       p_state := set_flag (p_state r) STATE_WAITING\<rparr>) k, SUSPEND)) }"

text \<open>The walk of \<^verbatim>\<open>clear_sending_mesg\<close> along one sender queue.\<close>

partial_function (option) clear_walk ::
  "(int \<Rightarrow> proc) \<Rightarrow> int \<Rightarrow> int option \<Rightarrow> int option \<Rightarrow> (int option \<times> int option) option" where
  "clear_walk ps who prev cur =
     (if cur \<noteq> None \<and> cur \<noteq> Some who then clear_walk ps who cur (p_next_sender (ps (the cur)))
      else Some (prev, cur))"

definition clear_one :: "int \<Rightarrow> int \<Rightarrow> 'a kernel_scheme \<Rightarrow> 'a kernel_scheme option" where
  "clear_one who rp k =
     do { (prev, cur) \<leftarrow> clear_walk (procs k) who None (p_sender_q (procs k rp));
          Some (case cur of
                  None \<Rightarrow> k
                | Some c \<Rightarrow>
                    (case prev of
                       None \<Rightarrow> upd_proc rp (p_sender_q_update (\<lambda>_. p_next_sender (procs k c))) k
                     | Some p \<Rightarrow> upd_proc p (p_next_sender_update (\<lambda>_. p_next_sender (procs k c))) k)) }"

primrec fold_opt :: "('b \<Rightarrow> 's \<Rightarrow> 's option) \<Rightarrow> 'b list \<Rightarrow> 's \<Rightarrow> 's option" where
  "fold_opt f [] s = Some s"
| "fold_opt f (x # xs) s = do { s \<leftarrow> f x s; fold_opt f xs s }"

definition clear_sending_mesg :: "int \<Rightarrow> 'a kernel_scheme \<Rightarrow> 'a kernel_scheme option" where
  "clear_sending_mesg who k = fold_opt (\<lambda>rp k. if IS_INUSE k rp then clear_one who rp k else Some k) [- 2..9] k"

definition clear_proc_mesg :: "int \<Rightarrow> 'a kernel_scheme \<Rightarrow> 'a kernel_scheme option" where
  "clear_proc_mesg who k = clear_sending_mesg who k"

definition check_waiting :: "int \<Rightarrow> 'a kernel_scheme \<Rightarrow> ('a kernel_scheme \<times> int) option" where
  "check_waiting who k =
     do { parent \<leftarrow> get_proc k (p_parent (procs k who));
          if has_flag (p_state (procs k parent)) STATE_WAITING
          then (let pid = p_wpid (procs k parent) in
            if (pid > 0 \<and> pid = p_pid (procs k who)) \<or> (pid < - 1 \<and> - pid = p_procgrp (procs k who)) \<or>
               (pid = 0 \<and> p_procgrp (procs k parent) = p_procgrp (procs k who)) \<or> pid = - 1
            then if has_flag (p_state (procs k who)) STATE_STOPPED \<and> \<not> has_flag (p_woptions (procs k parent)) WUNTRACED
                 then Some (k, - EINVAL)
                 else do {
                   let k = (if p_varg (procs k parent) \<noteq> NULL
                            then upd_mem (\<lambda>mem. mem(phys k (p_varg (procs k parent)) parent := get_wstats k who)) k else k);
                   let k = upd_proc parent (\<lambda>r. r\<lparr>p_state := clear_flag (p_state r) STATE_WAITING, p_wpid := 0\<rparr>) k;
                   (k, _) \<leftarrow> syscall_reply2 WAITPID (p_pid (procs k who)) (p_proc_nr (procs k parent)) (mesg_addr k) k;
                   Some (if has_flag (p_state (procs k who)) STATE_ZOMBIE then release_zombie who k else k, 0) }
            else Some (k, - ESRCH))
          else if has_flag (p_state (procs k parent)) STATE_VFORKING
          then do { let k = upd_proc parent (p_state_update (\<lambda>s. clear_flag s STATE_VFORKING)) k;
                    (k, _) \<leftarrow> syscall_reply2 VFORK (p_pid (procs k who)) (p_proc_nr (procs k parent)) (mesg_addr k) k;
                    Some (k, - ESRCH) }
          else Some (k, - ESRCH) }"

section \<open>Exiting\<close>

definition exit_proc_in_interrupt :: "int \<Rightarrow> int \<Rightarrow> int \<Rightarrow> 'a kernel_scheme \<Rightarrow> 'a kernel_scheme option" where
  "exit_proc_in_interrupt who exit_val signum k =
     (if irq_count k = 0 then Some k
      else do { let em = ktmp_mesg k;
                let k = upd_mem (\<lambda>m. m(m_type em := EXIT, m1_i1 em := exit_val, m1_i2 em := signum,
                                       m_src em := p_proc_nr (procs k who))) k;
                let (k, vptr) = copyto_user_heap who em MESSAGE_LEN k;
                let ptr = phys k vptr who;
                k \<leftarrow> zombify who k;
                (k, _) \<leftarrow> do_send who SYSTEM ptr k;
                Some k })"

definition put_inode_clean :: "int option \<Rightarrow> 'a kernel_scheme \<Rightarrow> 'a kernel_scheme \<times> int" where
  "put_inode_clean ino k =
     (case ino of
        None \<Rightarrow> (k, - EINVAL)
      | Some i \<Rightarrow> (if i_count (inodes k i) > 0
                   then k\<lparr>inodes := (inodes k)(i := (inodes k i)\<lparr>i_count := i_count (inodes k i) - 1\<rparr>)\<rparr> else k, 0))"

definition close_files :: "'a closer \<Rightarrow> int \<Rightarrow> 'a kernel_scheme \<Rightarrow> 'a kernel_scheme option" where
  "close_files fops_close who k =
     fold_opt (\<lambda>i k. do { f \<leftarrow> aget (p_fp_filp (procs k who)) i;
                         case f of
                           None \<Rightarrow> Some k
                         | Some file \<Rightarrow>
                             do { (k, _) \<leftarrow> fops_close file k;
                                  tab \<leftarrow> aset (p_fp_filp (procs k who)) i None;
                                  Some (upd_proc who (p_fp_filp_update (\<lambda>_. tab)) k) } }) [0..15] k"

definition adopt_children :: "int \<Rightarrow> 'a kernel_scheme \<Rightarrow> 'a kernel_scheme" where
  "adopt_children who k =
     fold (\<lambda>c k. if is_child k who c then upd_proc c (p_parent_update (\<lambda>_. INIT)) k else k) [1..9] k"

definition exit_proc :: "'a closer \<Rightarrow> int \<Rightarrow> int \<Rightarrow> int \<Rightarrow> 'a kernel_scheme \<Rightarrow> 'a kernel_scheme option" where
  "exit_proc fops_close who status signum k =
     (if irq_count k \<noteq> 0 then exit_proc_in_interrupt who status signum k
      else do { let mesg = mesg_addr k;
                parent \<leftarrow> get_proc k (p_parent (procs k who));
                k \<leftarrow> zombify who k;
                k \<leftarrow> clear_proc_mesg who k;
                let k = upd_proc who (\<lambda>r. r\<lparr>p_exit_status := status, p_sig_status := signum\<rparr>) k;
                k \<leftarrow> (if has_flag (p_state (procs k parent)) STATE_VFORKING
                      then do { let k = upd_proc parent (p_state_update (\<lambda>s. clear_flag s STATE_VFORKING)) k;
                                let k = upd_mem (\<lambda>m. m(m_type mesg := VFORK)) k;
                                (k, _) \<leftarrow> syscall_reply2 VFORK (p_pid (procs k who)) (p_proc_nr (procs k parent)) mesg k;
                                Some k }
                      else do { (k, _) \<leftarrow> release_proc_mem who k; Some k });
                let k = adopt_children who k;
                k \<leftarrow> close_files fops_close who k;
                let k = fst (put_inode_clean (p_fp_workdir (procs k who)) k);
                let k = fst (put_inode_clean (p_fp_rootdir (procs k who)) k);
                (k, _) \<leftarrow> check_waiting who k;
                act \<leftarrow> aget (p_sig_table (procs k parent)) SIGCHLD;
                if sa_handler act \<noteq> SIG_DFL then do { (k, _) \<leftarrow> send_sig parent SIGCHLD k; Some k } else Some k })"

definition do_exit :: "'a closer \<Rightarrow> int \<Rightarrow> addr \<Rightarrow> 'a kernel_scheme \<Rightarrow> ('a kernel_scheme \<times> int) option" where
  "do_exit fops_close who m k =
     do { let status = kmem k (m1_i1 m);
          let signum = kmem k (m1_i2 m);
          status \<leftarrow> (if status = EXIT_MAGIC then aget (c_regs (p_ctx (procs k who))) 0 else Some status);
          k \<leftarrow> exit_proc fops_close who status signum k;
          Some (k, SUSPEND) }"

section \<open>Delivering signals\<close>

text \<open>The first 21 words of a slot.\<close>

definition pcb_words :: "proc \<Rightarrow> int list" where
  "pcb_words r = c_regs (p_ctx r) @ [c_sp (p_ctx r), c_ra (p_ctx r), c_pc (p_ctx r), c_rbase (p_ctx r),
     c_ptable (p_ctx r), c_cctrl (p_ctx r), uint (p_state r), p_message r]"

definition build_signal_ctx :: "int \<Rightarrow> int \<Rightarrow> 'a kernel_scheme \<Rightarrow> ('a kernel_scheme \<times> int) option" where
  "build_signal_ctx who signum k =
     do { let k = copyto_user_stack who (pcb_words (procs k who)) k;
          let k = copyto_user_stack who [SIGRET, ASM_ADDUI_SP_SP_1, ASM_SYSCALL] k;
          let k = upd_proc who (p_ctx_update (\<lambda>c. c\<lparr>c_ra := c_sp c + 1\<rparr>)) k;
          let k = copyto_user_stack who [signum] k;
          act \<leftarrow> aget (p_sig_table (procs k who)) signum;
          Some (upd_proc who (\<lambda>r. r\<lparr>p_sig_mask2 := p_sig_mask r, p_sig_mask := sa_mask act,
                  p_ctx := (p_ctx r)\<lparr>c_pc := sa_handler act\<rparr>, p_state := STATE_RUNNABLE,
                  p_flags := set_flag (p_flags r) PROC_SIGAL_HANDLER\<rparr>) k, 0) }"

definition sys_sig_handler :: "'a closer \<Rightarrow> int \<Rightarrow> int \<Rightarrow> 'a kernel_scheme \<Rightarrow> ('a kernel_scheme \<times> int) option" where
  "sys_sig_handler fops_close who signum k =
     do { act \<leftarrow> aget (p_sig_table (procs k who)) signum;
          k \<leftarrow> (if sa_handler act = SIG_DFL
                then if signum = SIGCONT
                     then if has_flag (p_state (procs k who)) STATE_STOPPED
                          then do { let k = upd_proc who (p_state_update (\<lambda>s. clear_flag s STATE_STOPPED)) k;
                                    let k = (if has_flag (p_state (procs k who)) STATE_RECEIVING
                                             then fst (set_syscall_reply who (- EINTR) 0
                                                    (upd_proc who (p_state_update (\<lambda>s. clear_flag s STATE_RECEIVING)) k))
                                             else k);
                                    if p_state (procs k who) = STATE_RUNNABLE then enqueue_schedule who k else Some k }
                          else Some k
                     else if signum = SIGTSTP \<or> signum = SIGSTOP
                     then do { let k = upd_proc who (\<lambda>r. r\<lparr>p_state := set_flag (p_state r) STATE_STOPPED,
                                                           p_sig_status := signum\<rparr>) k;
                               (k, _) \<leftarrow> dequeue_schedule who k;
                               (k, _) \<leftarrow> check_waiting who k;
                               Some k }
                     else exit_proc fops_close who 128 signum k
                else if sa_handler act = SIG_IGN
                then if signum = SIGABRT then exit_proc fops_close who 128 signum k
                     else if signum = SIGCHLD
                     then Some (case find (\<lambda>c. is_child k who c \<and> has_flag (p_state (procs k c)) STATE_ZOMBIE) [1..9] of
                                  Some c \<Rightarrow> release_zombie c k | None \<Rightarrow> k)
                     else Some k
                else Some k);
          Some (k, 0) }"

definition upd_action :: "int \<Rightarrow> int \<Rightarrow> (sigaction \<Rightarrow> sigaction) \<Rightarrow> 'a kernel_scheme \<Rightarrow> 'a kernel_scheme option" where
  "upd_action who signum f k =
     do { act \<leftarrow> aget (p_sig_table (procs k who)) signum;
          tab \<leftarrow> aset (p_sig_table (procs k who)) signum (f act);
          Some (upd_proc who (p_sig_table_update (\<lambda>_. tab)) k) }"

definition handle_sig :: "'a closer \<Rightarrow> int \<Rightarrow> int \<Rightarrow> 'a kernel_scheme \<Rightarrow> ('a kernel_scheme \<times> int) option" where
  "handle_sig fops_close who signum k =
     do { act \<leftarrow> aget (p_sig_table (procs k who)) signum;
          let k = upd_proc who (p_sig_pending_update (\<lambda>s. fst (sigdelset s signum))) k;
          if sa_handler act = SIG_DFL \<or> sa_handler act = SIG_IGN then sys_sig_handler fops_close who signum k
          else do { k \<leftarrow> upd_action who signum (sa_mask_update (\<lambda>s. fst ((if has_flag (sa_flags act) SA_NODEFER
                           then sigaddset else sigdelset) s signum))) k;
                    (k, _) \<leftarrow> build_signal_ctx who signum k;
                    k \<leftarrow> (if has_flag (sa_flags act) SA_RESETHAND
                          then upd_action who signum (sa_handler_update (\<lambda>_. SIG_DFL)) k else Some k);
                    Some (k, 0) } }"

definition handle_pendingsig :: "'a closer \<Rightarrow> int \<Rightarrow> bool \<Rightarrow> 'a kernel_scheme \<Rightarrow> ('a kernel_scheme \<times> int) option" where
  "handle_pendingsig fops_close who check_enqueue k =
     (let signum = is_sigpending k who in
      if signum \<noteq> 0
      then do { (k, _) \<leftarrow> handle_sig fops_close who signum k;
                k \<leftarrow> (if check_enqueue \<and> p_state (procs k who) = STATE_RUNNABLE \<and>
                         has_flag (p_flags (procs k who)) PROC_SIGAL_HANDLER
                      then enqueue_schedule who k else Some k);
                Some (k, signum) }
      else Some (k, signum))"

text \<open>The loop of \<^verbatim>\<open>sys_kill\<close> over the slots still to visit; the inner option is an early return.\<close>

primrec kill_loop :: "'a closer \<Rightarrow> int \<Rightarrow> int \<Rightarrow> int \<Rightarrow> int list \<Rightarrow> int \<Rightarrow> 'a kernel_scheme \<Rightarrow>
    ('a kernel_scheme \<times> int \<times> bool) option" where
  "kill_loop fops_close who pid signum [] valid_targets k = Some (k, valid_targets, False)"
| "kill_loop fops_close who pid signum (t # ts) valid_targets k =
     (if \<not> IS_INUSE k t \<or> (pid < - 1 \<and> - pid \<noteq> p_procgrp (procs k t)) \<or>
         (pid = 0 \<and> p_procgrp (procs k t) = p_procgrp (procs k who)) \<or>
         (pid > 0 \<and> pid \<noteq> p_pid (procs k t)) \<or> (pid = - 1 \<and> p_pid (procs k t) = 1)
      then kill_loop fops_close who pid signum ts valid_targets k
      else if signum = 0 then Some (k, valid_targets, True)
      else do { (k, _) \<leftarrow> send_sig t signum k;
                k \<leftarrow> (if t \<noteq> who \<and> p_state (procs k t) \<noteq> 0
                      then do { (k, _) \<leftarrow> handle_pendingsig fops_close t True k; Some k } else Some k);
                kill_loop fops_close who pid signum ts (valid_targets + 1) k })"

definition sys_kill :: "'a closer \<Rightarrow> int \<Rightarrow> int \<Rightarrow> int \<Rightarrow> 'a kernel_scheme \<Rightarrow> ('a kernel_scheme \<times> int) option" where
  "sys_kill fops_close who pid signum k =
     (if signum < 0 \<or> signum \<ge> 21 then Some (k, - EINVAL)
      else if pid = 1 \<and> (signum = SIGSTOP \<or> signum = SIGKILL) then Some (k, - EINVAL)
      else do { (k, valid_targets, early) \<leftarrow> kill_loop fops_close who pid signum [1..9] 0 k;
                Some (k, if early then 0 else if valid_targets = 0 then - ESRCH else 0) })"

definition do_kill :: "'a closer \<Rightarrow> int \<Rightarrow> addr \<Rightarrow> 'a kernel_scheme \<Rightarrow> ('a kernel_scheme \<times> int) option" where
  "do_kill fops_close who m k = sys_kill fops_close who (kmem k (m1_i1 m)) (kmem k (m1_i2 m)) k"

definition restore_pcb :: "memory \<Rightarrow> addr \<Rightarrow> proc \<Rightarrow> proc" where
  "restore_pcb m sp r = r\<lparr>p_ctx := \<lparr>c_regs = map (\<lambda>i. m (sp + int i)) [0..<13], c_sp = m (sp + 13), c_ra = m (sp + 14),
     c_pc = m (sp + 15), c_rbase = m (sp + 16), c_ptable = m (sp + 17), c_cctrl = m (sp + 18)\<rparr>,
     p_state := word_of_int (m (sp + 19)), p_message := m (sp + 20)\<rparr>"

definition do_sigreturn :: "int \<Rightarrow> addr \<Rightarrow> 'a kernel_scheme \<Rightarrow> ('a kernel_scheme \<times> int) option" where
  "do_sigreturn who m k =
     do { let signum = kmem k (m1_i1 m);
          let sp = phys k (c_sp (p_ctx (procs k who))) who + SIGFRAME_LEN;
          let k = upd_proc who (restore_pcb (kmem k) sp) k;
          let k = upd_proc who (\<lambda>r. r\<lparr>p_flags := clear_flag (p_flags r) PROC_SIGAL_HANDLER, p_sig_mask := p_sig_mask2 r\<rparr>) k;
          k \<leftarrow> (if signum = SIGABRT
                then do { k \<leftarrow> upd_action who SIGABRT (sa_handler_update (\<lambda>_. SIG_DFL)) k;
                          (k, _) \<leftarrow> send_sig who SIGABRT k;
                          Some k }
                else if p_state (procs k who) = STATE_RUNNABLE then enqueue_schedule who k else Some k);
          Some (if has_flag (p_state (procs k who)) STATE_RECEIVING
                then (upd_proc who (p_state_update (\<lambda>_. STATE_RECEIVING)) k, - EINTR)
                else (k, DONTREPLY)) }"

section \<open>The signal frame\<close>

lemma put_words_other: "b < a \<or> a + int (length ws) \<le> b \<Longrightarrow> put_words a ws m b = m b"
  by (induction ws arbitrary: a m) auto

lemma put_words_nth: "i < length ws \<Longrightarrow> put_words a ws m (a + int i) = ws ! i"
proof (induction ws arbitrary: a m i)
  case (Cons w ws)
  show ?case
  proof (cases i)
    case 0
    then show ?thesis by (simp add: put_words_other)
  next
    case (Suc j)
    with Cons.prems have "j < length ws" by simp
    from Cons.IH [OF this] have "put_words (a + 1) ws (m(a := w)) ((a + 1) + int j) = ws ! j" .
    moreover have "(a + 1) + int j = a + int i" using Suc by simp
    ultimately have "put_words (a + 1) ws (m(a := w)) (a + int i) = ws ! j" by (simp only:)
    with Suc show ?thesis by simp
  qed
qed simp

text \<open>A push below the stack pointer, away from the ends of the address space.\<close>

lemma copyto_user_stack_run:
  assumes "ctx = p_ctx (procs k who)" "int (length ws) \<le> c_sp ctx" "0 \<le> c_rbase ctx" "c_sp ctx + c_rbase ctx < 2 ^ 32"
  shows "copyto_user_stack who ws k =
    upd_proc who (p_ctx_update (c_sp_update (\<lambda>_. c_sp ctx - int (length ws))))
      (upd_mem (put_words (c_sp ctx + c_rbase ctx - int (length ws)) ws) k)"
  using assms by (simp add: copyto_user_stack_def Let_def phys_def vaddr_def get_physical_addr_def get_virtual_addr_def)

definition signal_proc :: "int \<Rightarrow> sigaction \<Rightarrow> proc \<Rightarrow> proc" where
  "signal_proc signum act r = r\<lparr>p_ctx := (p_ctx r)\<lparr>c_sp := c_sp (p_ctx r) - 25, c_ra := c_sp (p_ctx r) - 23, c_pc := sa_handler act\<rparr>,
     p_sig_mask2 := p_sig_mask r, p_sig_mask := sa_mask act, p_state := STATE_RUNNABLE,
     p_flags := set_flag (p_flags r) PROC_SIGAL_HANDLER\<rparr>"

definition signal_frame :: "int \<Rightarrow> proc \<Rightarrow> memory \<Rightarrow> memory" where
  "signal_frame signum r m =
     (let top = c_sp (p_ctx r) + c_rbase (p_ctx r) in
      put_words (top - 25) [signum] (put_words (top - 24) [SIGRET, ASM_ADDUI_SP_SP_1, ASM_SYSCALL]
        (put_words (top - 21) (pcb_words r) m)))"

definition frame_room :: "proc \<Rightarrow> bool" where
  "frame_room r \<longleftrightarrow> 25 \<le> c_sp (p_ctx r) \<and> 0 \<le> c_rbase (p_ctx r) \<and> c_sp (p_ctx r) + c_rbase (p_ctx r) < 2 ^ 32 \<and>
     length (c_regs (p_ctx r)) = REGS_NR"

lemma build_signal_ctx_run:
  assumes "frame_room (procs k who)" and "aget (p_sig_table (procs k who)) signum = Some act"
  shows "build_signal_ctx who signum k =
    Some (upd_proc who (signal_proc signum act) (upd_mem (signal_frame signum (procs k who)) k), 0)"
proof -
  let ?r = "procs k who"
  let ?top = "c_sp (p_ctx ?r) + c_rbase (p_ctx ?r)"
  have len: "length (pcb_words ?r) = 21" using assms(1) by (simp add: pcb_words_def frame_room_def)
  define k1 where "k1 = upd_proc who (p_ctx_update (c_sp_update (\<lambda>_. c_sp (p_ctx ?r) - 21)))
      (upd_mem (put_words (?top - 21) (pcb_words ?r)) k)"
  have 1: "copyto_user_stack who (pcb_words ?r) k = k1"
    using copyto_user_stack_run [OF refl, of "pcb_words ?r" k who] assms(1) len by (simp add: frame_room_def k1_def)
  define k2 where "k2 = upd_proc who (p_ctx_update (c_sp_update (\<lambda>_. c_sp (p_ctx ?r) - 24)))
      (upd_mem (put_words (?top - 24) [SIGRET, ASM_ADDUI_SP_SP_1, ASM_SYSCALL]) k1)"
  have top: "c_sp (p_ctx ?r) - 21 + c_rbase (p_ctx ?r) - 3 = ?top - 24" "c_sp (p_ctx ?r) - 21 - 3 = c_sp (p_ctx ?r) - 24" by simp_all
  have 2: "copyto_user_stack who [SIGRET, ASM_ADDUI_SP_SP_1, ASM_SYSCALL] k1 = k2"
    using copyto_user_stack_run [OF refl, of "[SIGRET, ASM_ADDUI_SP_SP_1, ASM_SYSCALL]" k1 who] assms(1) top
    by (simp add: frame_room_def k1_def k2_def)
  define k3 where "k3 = upd_proc who (p_ctx_update (\<lambda>c. c\<lparr>c_ra := c_sp c + 1\<rparr>)) k2"
  have top: "c_sp (p_ctx ?r) - 24 + c_rbase (p_ctx ?r) - 1 = ?top - 25" "c_sp (p_ctx ?r) - 24 - 1 = c_sp (p_ctx ?r) - 25" by simp_all
  have 3: "copyto_user_stack who [signum] k3 =
      upd_proc who (p_ctx_update (c_sp_update (\<lambda>_. c_sp (p_ctx ?r) - 25))) (upd_mem (put_words (?top - 25) [signum]) k3)"
    using copyto_user_stack_run [OF refl, of "[signum]" k3 who] assms(1) top
    by (simp add: frame_room_def k1_def k2_def k3_def del: put_words.simps)
  show ?thesis
    unfolding build_signal_ctx_def Let_def 1 2 k3_def [symmetric] 3 using assms(2)
    by (simp add: k3_def k2_def k1_def upd_proc_def upd_mem_def signal_proc_def signal_frame_def Let_def fun_eq_iff del: put_words.simps)
qed

text \<open>The saved words, read back.\<close>

lemma restore_pcb_words:
  assumes "length (c_regs (p_ctx r)) = REGS_NR" and mem: "\<And>i. i < 21 \<Longrightarrow> m (sp + int i) = pcb_words r ! i"
  shows "restore_pcb m sp r' = r'\<lparr>p_ctx := p_ctx r, p_state := p_state r, p_message := p_message r\<rparr>"
proof -
  have regs: "map (\<lambda>i. m (sp + int i)) [0..<13] = c_regs (p_ctx r)"
    using assms(1) by (intro nth_equalityI) (auto simp: mem pcb_words_def nth_append)
  have w: "m (sp + 13) = c_sp (p_ctx r)" "m (sp + 14) = c_ra (p_ctx r)" "m (sp + 15) = c_pc (p_ctx r)"
    "m (sp + 16) = c_rbase (p_ctx r)" "m (sp + 17) = c_ptable (p_ctx r)" "m (sp + 18) = c_cctrl (p_ctx r)"
    "m (sp + 19) = uint (p_state r)" "m (sp + 20) = p_message r"
    using mem [of 13] mem [of 14] mem [of 15] mem [of 16] mem [of 17] mem [of 18] mem [of 19] mem [of 20] assms(1)
    by (simp_all add: pcb_words_def nth_append)
  show ?thesis unfolding restore_pcb_def regs w by simp
qed

lemma signal_frame_saved:
  assumes "frame_room r" and "i < 21"
  shows "signal_frame signum r m (c_sp (p_ctx r) + c_rbase (p_ctx r) - 21 + int i) = pcb_words r ! i"
  using assms put_words_nth [of i "pcb_words r" "c_sp (p_ctx r) + c_rbase (p_ctx r) - 21" m]
  by (simp add: signal_frame_def Let_def frame_room_def pcb_words_def)

text \<open>\<^verbatim>\<open>do_sigreturn\<close> on a stack that holds the saved words of \<open>r\<close> above the frame.\<close>

lemma do_sigreturn_run:
  assumes "length (c_regs (p_ctx r)) = REGS_NR" and sp: "phys k (c_sp (p_ctx (procs k who))) who = sp"
    and mem: "\<And>i. i < 21 \<Longrightarrow> kmem k (sp + 3 + int i) = pcb_words r ! i"
    and sig: "kmem k (m1_i1 m) \<noteq> SIGABRT" and inv: "rq_inv k qs" "\<not> queued qs who"
    and pr: "i = p_priority (procs k who)" "IS_PRIORITY_OK i"
  shows "\<exists>k' ret. do_sigreturn who m k = Some (k', ret) \<and> p_ctx (procs k' who) = p_ctx r \<and> p_message (procs k' who) = p_message r \<and>
     p_sig_mask (procs k' who) = p_sig_mask2 (procs k who) \<and> kmem k' = kmem k \<and>
     (if p_state r = STATE_RUNNABLE then ret = DONTREPLY \<and> p_state (procs k' who) = STATE_RUNNABLE \<and> rq_inv k' (qs(i := qs i @ [who]))
      else if has_flag (p_state r) STATE_RECEIVING then ret = - EINTR \<and> p_state (procs k' who) = STATE_RECEIVING \<and> rq_inv k' qs
      else ret = DONTREPLY \<and> p_state (procs k' who) = p_state r \<and> rq_inv k' qs)"
proof -
  define k1 where "k1 = upd_proc who (\<lambda>s. s\<lparr>p_ctx := p_ctx r, p_state := p_state r, p_message := p_message r,
     p_flags := clear_flag (p_flags s) PROC_SIGAL_HANDLER, p_sig_mask := p_sig_mask2 s\<rparr>) k"
  have restore: "restore_pcb (kmem k) (sp + 3) = (\<lambda>r'. r'\<lparr>p_ctx := p_ctx r, p_state := p_state r, p_message := p_message r\<rparr>)"
    by (rule ext) (rule restore_pcb_words [OF assms(1) mem])
  have k1: "upd_proc who (\<lambda>r. r\<lparr>p_flags := clear_flag (p_flags r) PROC_SIGAL_HANDLER, p_sig_mask := p_sig_mask2 r\<rparr>)
      (upd_proc who (restore_pcb (kmem k) (sp + 3)) k) = k1"
    unfolding restore k1_def by (simp add: upd_proc_def)
  have e: "do_sigreturn who m k = do { k \<leftarrow> (if p_state (procs k1 who) = STATE_RUNNABLE then enqueue_schedule who k1 else Some k1);
      Some (if has_flag (p_state (procs k who)) STATE_RECEIVING
            then (upd_proc who (p_state_update (\<lambda>_. STATE_RECEIVING)) k, - EINTR) else (k, DONTREPLY)) }"
    unfolding do_sigreturn_def Let_def sp k1 using sig by simp
  have rq: "rq_inv k1 qs" using inv(1) rq_inv_cong [of k1 k qs] by (simp add: k1_def)
  have f: "p_ctx (procs k1 who) = p_ctx r" "p_message (procs k1 who) = p_message r" "p_state (procs k1 who) = p_state r"
    "p_sig_mask (procs k1 who) = p_sig_mask2 (procs k who)" "p_priority (procs k1 who) = i" "kmem k1 = kmem k"
    using pr(1) by (simp_all add: k1_def)
  show ?thesis
  proof (cases "p_state r = STATE_RUNNABLE")
    case True
    obtain k' where k': "enqueue_tail i who k1 = Some k'" "rq_inv k' (qs(i := qs i @ [who]))" "strip k' = strip k1"
      using enqueue_tail_run [OF rq pr(2) inv(2)] by blast
    have "do_sigreturn who m k = Some (k', DONTREPLY)"
      using k'(1) True f strip_fields(1) [OF k'(3)] by (simp add: e enqueue_schedule_def)
    with k'(2) True f strip_mem [OF k'(3)] show ?thesis by (simp add: strip_fields [OF k'(3)])
  next
    case False
    then have "do_sigreturn who m k = Some (if has_flag (p_state r) STATE_RECEIVING
            then (upd_proc who (p_state_update (\<lambda>_. STATE_RECEIVING)) k1, - EINTR) else (k1, DONTREPLY))"
      using f by (simp add: e)
    moreover have "rq_inv (upd_proc who (p_state_update (\<lambda>_. STATE_RECEIVING)) k1) qs"
      using rq rq_inv_cong [of "upd_proc who (p_state_update (\<lambda>_. STATE_RECEIVING)) k1" k1 qs] by simp
    ultimately show ?thesis using False rq f by auto
  qed
qed

section \<open>Blocked senders of an exiting process\<close>

lemma clear_walk_run:
  "chain (\<lambda>p. p_next_sender (ps p)) cur xs \<Longrightarrow>
   clear_walk ps who prev cur = Some (
     if who \<in> set xs then (let as = takeWhile (\<lambda>x. x \<noteq> who) xs in (if as = [] then prev else Some (last as), Some who))
     else (if xs = [] then prev else Some (last xs), None))"
proof (induction xs arbitrary: prev cur)
  case Nil
  then show ?case by (simp add: clear_walk.simps)
next
  case (Cons x xs)
  then have c: "cur = Some x" "chain (\<lambda>p. p_next_sender (ps p)) (p_next_sender (ps x)) xs" by auto
  show ?case using Cons.IH [OF c(2), of "Some x"] c(1)
    by (subst clear_walk.simps) (auto simp: Let_def)
qed

lemma filter_neq_id: "x \<notin> set xs \<Longrightarrow> filter (\<lambda>p. p \<noteq> x) xs = xs"
  by (induction xs) auto

lemma takeWhile_neq: "x \<notin> set xs \<Longrightarrow> takeWhile (\<lambda>y. y \<noteq> x) (xs @ x # ys) = xs"
  by (induction xs) auto

lemma sq_inv_shrink:
  assumes "sq_inv k sq" "\<And>d. chain (snext k') (p_sender_q (procs k' d)) (sq' d)" "\<And>d. set (sq' d) \<subseteq> set (sq d)"
    and "\<And>p. p_state (procs k' p) = p_state (procs k p)"
  shows "sq_inv k' sq'"
proof -
  have "set (sq' d) \<inter> set (sq' e) = {}" if "d \<noteq> e" for d e
    using sq_inv_disjoint [OF assms(1)] assms(3) [of d] assms(3) [of e] that by blast
  moreover have "has_flag (p_state (procs k' p)) STATE_SENDING" if "p \<in> set (sq' d)" for p d
    using assms(1) assms(3) [of d] that assms(4) by (auto simp: sq_inv_def)
  ultimately show ?thesis using assms(2) by (simp add: sq_inv_def)
qed

lemma clear_one_run:
  assumes inv: "sq_inv k sq"
  shows "\<exists>k'. clear_one who rp k = Some k' \<and> sq_inv k' (sq(rp := filter (\<lambda>p. p \<noteq> who) (sq rp))) \<and>
    (\<forall>p. p_flags (procs k' p) = p_flags (procs k p))"
proof (cases "who \<in> set (sq rp)")
  case False
  then have "filter (\<lambda>p. p \<noteq> who) (sq rp) = sq rp" by (rule filter_neq_id)
  moreover have "chain (\<lambda>p. p_next_sender (procs k p)) (p_sender_q (procs k rp)) (sq rp)"
    using inv by (simp add: sq_inv_def snext_def [abs_def])
  from clear_walk_run [OF this, of who None] False have "clear_one who rp k = Some k"
    by (auto simp: clear_one_def)
  ultimately show ?thesis using inv by simp
next
  case True
  have ch: "chain (snext k) (p_sender_q (procs k rp)) (sq rp)" using inv by (simp add: sq_inv_def)
  then have dist: "distinct (sq rp)" by (rule chain_distinct)
  obtain as bs where split: "sq rp = as @ who # bs" "who \<notin> set as" using True by (meson split_list_first)
  have bs: "who \<notin> set bs" "filter (\<lambda>p. p \<noteq> who) (sq rp) = as @ bs" "takeWhile (\<lambda>x. x \<noteq> who) (sq rp) = as"
    using split dist by (auto simp: filter_neq_id takeWhile_neq)
  define k' where "k' = (if as = [] then upd_proc rp (p_sender_q_update (\<lambda>_. p_next_sender (procs k who))) k
      else upd_proc (last as) (p_next_sender_update (\<lambda>_. p_next_sender (procs k who))) k)"
  have run: "clear_one who rp k = Some k'"
    using clear_walk_run [of "procs k" "p_sender_q (procs k rp)" "sq rp" who None] ch True bs(3)
    by (simp add: clear_one_def Let_def k'_def snext_def [abs_def])
  have st: "p_state (procs k' p) = p_state (procs k p)" "p_flags (procs k' p) = p_flags (procs k p)" for p
    by (simp_all add: k'_def)
  have links: "snext k' q = snext k q" if "q \<notin> set as" for q using that by (auto simp: k'_def snext_def)
  have heads: "p_sender_q (procs k' d) = p_sender_q (procs k d)" if "d \<noteq> rp" for d using that by (auto simp: k'_def)
  have new: "chain (snext k') (p_sender_q (procs k' rp)) (as @ bs)"
  proof (cases as rule: rev_cases)
    case Nil
    then have "chain (snext k) (snext k who) bs" using ch split by (auto simp: chain_Some)
    moreover have "snext k' = snext k" "p_sender_q (procs k' rp) = snext k who"
      using Nil by (simp_all add: k'_def) (simp_all add: snext_def)
    ultimately show ?thesis using Nil by simp
  next
    case (snoc as' a)
    have "snext k' = (snext k)(a := snext k who)" "p_sender_q (procs k' rp) = p_sender_q (procs k rp)"
      using snoc by (auto simp: k'_def snext_def fun_eq_iff)
    with snoc split ch show ?thesis using chain_unlink [of "snext k" "p_sender_q (procs k rp)" as' a who bs] by simp
  qed
  have other: "chain (snext k') (p_sender_q (procs k' d)) (sq d)" if "d \<noteq> rp" for d
  proof -
    have "set (sq d) \<inter> set (sq rp) = {}" using inv that by (auto simp: sq_inv_def)
    then have "\<And>x. x \<in> set (sq d) \<Longrightarrow> snext k' x = snext k x" using links split by auto
    then show ?thesis using inv heads [OF that] chain_cong [of "sq d" "snext k'" "snext k"] by (simp add: sq_inv_def)
  qed
  have "sq_inv k' (sq(rp := as @ bs))"
    by (rule sq_inv_shrink [OF inv]) (use new other split st in auto)
  with run bs(2) st show ?thesis by auto
qed

lemma clear_sending_loop:
  assumes "sq_inv k sq"
  shows "\<exists>k'. fold_opt (\<lambda>rp k. if IS_INUSE k rp then clear_one who rp k else Some k) rps k = Some k' \<and>
    (\<forall>p. p_flags (procs k' p) = p_flags (procs k p)) \<and>
    sq_inv k' (\<lambda>d. if d \<in> set rps \<and> IS_INUSE k d then filter (\<lambda>p. p \<noteq> who) (sq d) else sq d)"
  using assms
proof (induction rps arbitrary: k sq)
  case Nil
  then show ?case by simp
next
  case (Cons rp rps)
  show ?case
  proof (cases "IS_INUSE k rp")
    case False
    from Cons.IH [OF Cons.prems] obtain k' where
      k': "fold_opt (\<lambda>rp k. if IS_INUSE k rp then clear_one who rp k else Some k) rps k = Some k'"
        "\<forall>p. p_flags (procs k' p) = p_flags (procs k p)"
        "sq_inv k' (\<lambda>d. if d \<in> set rps \<and> IS_INUSE k d then filter (\<lambda>p. p \<noteq> who) (sq d) else sq d)" by blast
    have "(\<lambda>d. if d \<in> set (rp # rps) \<and> IS_INUSE k d then filter (\<lambda>p. p \<noteq> who) (sq d) else sq d) =
        (\<lambda>d. if d \<in> set rps \<and> IS_INUSE k d then filter (\<lambda>p. p \<noteq> who) (sq d) else sq d)"
      using False by (auto simp: fun_eq_iff)
    with k' False show ?thesis by simp
  next
    case True
    from clear_one_run [OF Cons.prems, of who rp] obtain k1 where
      k1: "clear_one who rp k = Some k1" "sq_inv k1 (sq(rp := filter (\<lambda>p. p \<noteq> who) (sq rp)))"
        "\<forall>p. p_flags (procs k1 p) = p_flags (procs k p)" by blast
    from Cons.IH [OF k1(2)] obtain k' where
      k': "fold_opt (\<lambda>rp k. if IS_INUSE k rp then clear_one who rp k else Some k) rps k1 = Some k'"
        "\<forall>p. p_flags (procs k' p) = p_flags (procs k1 p)"
        "sq_inv k' (\<lambda>d. if d \<in> set rps \<and> IS_INUSE k1 d then filter (\<lambda>p. p \<noteq> who) ((sq(rp := filter (\<lambda>p. p \<noteq> who) (sq rp))) d)
           else (sq(rp := filter (\<lambda>p. p \<noteq> who) (sq rp))) d)" by blast
    have "(\<lambda>d. if d \<in> set rps \<and> IS_INUSE k1 d then filter (\<lambda>p. p \<noteq> who) ((sq(rp := filter (\<lambda>p. p \<noteq> who) (sq rp))) d)
           else (sq(rp := filter (\<lambda>p. p \<noteq> who) (sq rp))) d) =
        (\<lambda>d. if d \<in> set (rp # rps) \<and> IS_INUSE k d then filter (\<lambda>p. p \<noteq> who) (sq d) else sq d)"
      using True k1(3) by (auto simp: fun_eq_iff IS_INUSE_def)
    with k' k1 True show ?thesis by simp
  qed
qed

section \<open>Running a handler\<close>

lemma upd_action_run:
  assumes "aget (p_sig_table (procs k who)) signum = Some act"
  shows "upd_action who signum f k =
    Some (upd_proc who (\<lambda>r. r\<lparr>p_sig_table := (p_sig_table (procs k who))[nat signum := f act]\<rparr>) k)"
  using assms by (simp add: upd_action_def) (simp add: aset_def aget_Some_iff)

lemma handle_sig_run:
  assumes "frame_room (procs k who)" and "aget (p_sig_table (procs k who)) signum = Some act"
    and "sa_handler act \<noteq> SIG_DFL" "sa_handler act \<noteq> SIG_IGN"
    and act': "act' = act\<lparr>sa_mask := fst ((if has_flag (sa_flags act) SA_NODEFER then sigaddset else sigdelset) (sa_mask act) signum)\<rparr>"
  shows "\<exists>k'. handle_sig fops_close who signum k = Some (k', 0) \<and>
     kmem k' (c_sp (p_ctx (procs k who)) + c_rbase (p_ctx (procs k who)) - 25) = signum \<and>
     p_ctx (procs k' who) = (p_ctx (procs k who))\<lparr>c_sp := c_sp (p_ctx (procs k who)) - 25,
       c_ra := c_sp (p_ctx (procs k who)) - 23, c_pc := sa_handler act\<rparr> \<and>
     p_state (procs k' who) = STATE_RUNNABLE \<and> p_sig_mask (procs k' who) = sa_mask act' \<and>
     p_sig_mask2 (procs k' who) = p_sig_mask (procs k who) \<and>
     p_sig_pending (procs k' who) = fst (sigdelset (p_sig_pending (procs k who)) signum) \<and>
     p_sig_table (procs k' who) = (p_sig_table (procs k who))[nat signum :=
       if has_flag (sa_flags act) SA_RESETHAND then act'\<lparr>sa_handler := SIG_DFL\<rparr> else act']"
proof -
  define k1 where "k1 = upd_proc who (p_sig_pending_update (\<lambda>s. fst (sigdelset s signum))) k"
  define k2 where "k2 = upd_proc who (\<lambda>r. r\<lparr>p_sig_table := (p_sig_table (procs k1 who))[nat signum := act']\<rparr>) k1"
  have a1: "aget (p_sig_table (procs k1 who)) signum = Some act" using assms(2) by (simp add: k1_def)
  have a2: "aget (p_sig_table (procs k2 who)) signum = Some act'"
    using a1 by (auto simp: k2_def aget_Some_iff)
  have fr: "frame_room (procs k2 who)" using assms(1) by (simp add: frame_room_def k2_def k1_def)
  define k3 where "k3 = upd_proc who (signal_proc signum act') (upd_mem (signal_frame signum (procs k2 who)) k2)"
  have b: "build_signal_ctx who signum k2 = Some (k3, 0)"
    using build_signal_ctx_run [OF fr a2] by (simp add: k3_def)
  have a3: "aget (p_sig_table (procs k3 who)) signum = Some act'" using a2 by (simp add: k3_def signal_proc_def)
  have act'_upd: "sa_mask_update (\<lambda>s. fst ((if has_flag (sa_flags act) SA_NODEFER then sigaddset else sigdelset) s signum)) act = act'"
    unfolding act' by (cases act) simp
  have h: "handle_sig fops_close who signum k = do {
      k \<leftarrow> (if has_flag (sa_flags act) SA_RESETHAND then upd_action who signum (sa_handler_update (\<lambda>_. SIG_DFL)) k3 else Some k3);
      Some (k, 0) }"
    unfolding handle_sig_def Let_def k1_def [symmetric]
    using assms(3,4) upd_action_run [OF a1, of "sa_mask_update (\<lambda>s. fst ((if has_flag (sa_flags act) SA_NODEFER then sigaddset else sigdelset) s signum))"]
    unfolding act'_upd k2_def [symmetric] assms(2) by (simp add: b)
  have f3: "kmem k3 (c_sp (p_ctx (procs k who)) + c_rbase (p_ctx (procs k who)) - 25) = signum"
    by (simp add: k3_def k2_def k1_def signal_frame_def Let_def)
  have sa: "sa_handler act' = sa_handler act" by (simp add: act')
  show ?thesis
    unfolding h using upd_action_run [OF a3, of "sa_handler_update (\<lambda>_. SIG_DFL)"] f3 sa
    by (cases "has_flag (sa_flags act) SA_RESETHAND") (simp_all add: k3_def k2_def k1_def signal_proc_def)
qed

lemma find_filter: "find P (filter Q xs) = find (\<lambda>x. Q x \<and> P x) xs"
  by (induction xs) auto

section \<open>Masks\<close>

definition sig_masks :: "'a kernel_scheme \<Rightarrow> int \<Rightarrow> u32 \<times> u32 \<times> sigaction list" where
  "sig_masks k p = (p_sig_mask (procs k p), p_sig_mask2 (procs k p), p_sig_table (procs k p))"

lemma sig_ok_masks: "sig_masks k' p = sig_masks k p \<Longrightarrow> sig_ok (procs k' p) = sig_ok (procs k p)"
  by (simp add: sig_masks_def sig_ok_def mask_ok_def)

lemma sig_masks_upd [simp]:
  "sig_masks (upd_mem g k) = sig_masks k" "sig_masks (upd_queue i q k) = sig_masks k" "sig_masks (upd_proc p (p_state_update b) k) = sig_masks k"
  "sig_masks (upd_proc p (p_sig_pending_update u) k) = sig_masks k" "sig_masks (upd_proc p (p_flags_update v) k) = sig_masks k"
  "sig_masks (upd_proc p (p_message_update w) k) = sig_masks k" "sig_masks (upd_proc p (p_next_update x) k) = sig_masks k"
  "sig_masks (upd_proc p (p_ctx_update c) k) = sig_masks k"
  by (simp_all add: sig_masks_def fun_eq_iff upd_queue_def)

lemma enqueue_masks: "enqueue_tail i q k = Some k' \<Longrightarrow> sig_masks k' = sig_masks k" "enqueue_head i q k = Some k' \<Longrightarrow> sig_masks k' = sig_masks k"
  by (auto simp: enqueue_tail_def enqueue_head_def Let_def bind_eq_Some_conv split: if_splits option.splits)

lemma reply_masks: "syscall_reply2 n r d m k = Some (k', v) \<Longrightarrow> sig_masks k' = sig_masks k"
  by (auto simp: syscall_reply2_def do_notify_def set_syscall_reply_def set_reg0_def Let_def bind_eq_Some_conv
      dest!: enqueue_masks(2) split: if_splits option.splits)

lemma send_sig_masks: "send_sig p signum k = Some (k', v) \<Longrightarrow> sig_masks k' = sig_masks k"
  by (auto simp: send_sig_def Let_def bind_eq_Some_conv dest!: reply_masks split: if_splits prod.splits)

text \<open>The steps that write the masks of a process or the mask of an action: the four calls, the entry into a handler, and the return from it.\<close>

inductive mask_step :: "'a closer \<Rightarrow> int \<Rightarrow> 'a kernel_scheme \<Rightarrow> 'a kernel_scheme \<Rightarrow> bool" for fops_close who where
  sigaction_call: "do_sigaction who m k = Some (k', r) \<Longrightarrow> mask_step fops_close who k k'"
| signal_call: "do_signal who m k = Some (k', r) \<Longrightarrow> mask_step fops_close who k k'"
| sigprocmask_call: "do_sigprocmask who m k = Some (k', r) \<Longrightarrow> mask_step fops_close who k k'"
| sigsuspend_call: "do_sigsuspend who m k = (k', r) \<Longrightarrow> mask_step fops_close who k k'"
| handler_entry: "handle_sig fops_close who signum k = Some (k', r) \<Longrightarrow> aget (p_sig_table (procs k who)) signum = Some act \<Longrightarrow>
    sa_handler act \<noteq> SIG_DFL \<Longrightarrow> sa_handler act \<noteq> SIG_IGN \<Longrightarrow> mask_step fops_close who k k'"
| sigreturn_call: "do_sigreturn who m k = Some (k', r) \<Longrightarrow> mask_step fops_close who k k'"

text \<open>Changing an action keeps it in order, when its mask is.\<close>

lemma upd_action_ok:
  assumes "upd_action p signum f k = Some k'" "sig_ok (procs k p)"
    and "\<And>a. unblockable (sa_mask a) \<Longrightarrow> unblockable (sa_mask (f a))"
    and "\<And>a. sa_handler a = SIG_DFL \<or> sa_handler a = SIG_IGN \<Longrightarrow> sa_handler (f a) = SIG_DFL \<or> sa_handler (f a) = SIG_IGN"
  shows "sig_ok (procs k' p)"
proof -
  let ?t = "p_sig_table (procs k p)"
  from assms(1) have n: "0 \<le> signum" "nat signum < length ?t" and k': "k' = upd_proc p (p_sig_table_update (\<lambda>_. ?t[nat signum := f (?t ! nat signum)])) k"
    by (auto simp: upd_action_def bind_eq_Some_conv aget_def aset_def split: if_splits)
  have "unblockable (sa_mask a)" if "a \<in> set (?t[nat signum := f (?t ! nat signum)])" for a
    using that assms(2,3) n subsetD [OF set_update_subset_insert that] by (auto simp: sig_ok_def mask_ok_def)
  moreover have "sa_handler a = SIG_DFL \<or> sa_handler a = SIG_IGN"
    if "s \<in> {SIGKILL, SIGSTOP}" "aget (?t[nat signum := f (?t ! nat signum)]) s = Some a" for s a
  proof -
    have "0 \<le> s" "nat s < length ?t" "a = (if nat signum = nat s then f (?t ! nat s) else ?t ! nat s)"
      using that(2) by (auto simp: aget_def nth_list_update split: if_splits)
    moreover from this(1,2) have "aget ?t s = Some (?t ! nat s)" by (simp add: aget_def)
    then have "sa_handler (?t ! nat s) = SIG_DFL \<or> sa_handler (?t ! nat s) = SIG_IGN" using that(1) assms(2) by (auto simp: sig_ok_def)
    ultimately show ?thesis using assms(4) [of "?t ! nat s"] by simp
  qed
  ultimately show ?thesis using assms(2) unfolding k' by (simp add: sig_ok_def mask_ok_def)
qed

text \<open>Entering a handler saves the mask and takes that of the action.\<close>

lemma handler_entry_ok:
  assumes h: "handle_sig fops_close p signum k = Some (k', r)" "aget (p_sig_table (procs k p)) signum = Some act"
    "sa_handler act \<noteq> SIG_DFL" "sa_handler act \<noteq> SIG_IGN" and ok: "sig_ok (procs k p)"
  shows "sig_ok (procs k' p)"
proof -
  have sig: "signum \<noteq> SIGKILL" "signum \<noteq> SIGSTOP" "0 \<le> signum" "signum \<le> 21" using assms(2-5) by (auto simp: sig_ok_def aget_def split: if_splits)
  let ?k = "upd_proc p (p_sig_pending_update (\<lambda>s. fst (sigdelset s signum))) k"
  let ?f = "sa_mask_update (\<lambda>s. fst ((if has_flag (sa_flags act) SA_NODEFER then sigaddset else sigdelset) s signum))"
  from h obtain k1 k2 v where u: "upd_action p signum ?f ?k = Some k1" and b: "build_signal_ctx p signum k1 = Some (k2, v)"
    and k': "k' = k2 \<or> upd_action p signum (sa_handler_update (\<lambda>_. SIG_DFL)) k2 = Some k'"
    by (auto simp: handle_sig_def Let_def bind_eq_Some_conv split: if_splits)
  have "unblockable (fst ((if has_flag (sa_flags act) SA_NODEFER then sigaddset else sigdelset) s signum))" if "unblockable s" for s
    using that sig by (simp add: unblockable_def sigset_edit)
  then have ok1: "sig_ok (procs k1 p)" using ok by (intro upd_action_ok [OF u]) (auto simp: sig_ok_def mask_ok_def)
  have frame: "sig_masks (copyto_user_stack p ws c) = sig_masks c" for ws and c :: "'a kernel_scheme" by (simp add: copyto_user_stack_def Let_def)
  define k0 where "k0 = copyto_user_stack p [signum] (upd_proc p (p_ctx_update (\<lambda>c. c\<lparr>c_ra := c_sp c + 1\<rparr>))
    (copyto_user_stack p [SIGRET, ASM_ADDUI_SP_SP_1, ASM_SYSCALL] (copyto_user_stack p (pcb_words (procs k1 p)) k1)))"
  have k0: "sig_masks k0 = sig_masks k1" by (simp add: k0_def frame)
  from b obtain a where a: "aget (p_sig_table (procs k0 p)) signum = Some a"
    and k2: "sig_masks k2 p = (sa_mask a, p_sig_mask (procs k0 p), p_sig_table (procs k0 p))"
    by (auto simp: build_signal_ctx_def Let_def bind_eq_Some_conv sig_masks_def [of _ p] simp flip: k0_def)
  have "sig_ok (procs k0 p)" using ok1 sig_ok_masks [of k0 p k1] k0 by simp
  moreover from a have "a \<in> set (p_sig_table (procs k0 p))" by (auto simp: aget_def split: if_splits)
  ultimately have ok2: "sig_ok (procs k2 p)" using k2 by (simp add: sig_masks_def sig_ok_def mask_ok_def)
  then show ?thesis using k' upd_action_ok [of p signum "sa_handler_update (\<lambda>_. SIG_DFL)" k2 k'] by auto
qed

lemma sigreturn_ok:
  assumes "do_sigreturn p m k = Some (k', r)" "sig_ok (procs k p)"
  shows "sig_ok (procs k' p)"
proof -
  let ?sp = "phys k (c_sp (p_ctx (procs k p))) p + SIGFRAME_LEN"
  define k1 where "k1 = upd_proc p (\<lambda>r. r\<lparr>p_flags := clear_flag (p_flags r) PROC_SIGAL_HANDLER, p_sig_mask := p_sig_mask2 r\<rparr>) (upd_proc p (restore_pcb (kmem k) ?sp) k)"
  have ok1: "sig_ok (procs k1 p)" using assms(2) by (simp add: k1_def restore_pcb_def sig_ok_def mask_ok_def)
  define st where "st = (if kmem k (m1_i1 m) = SIGABRT
      then do { k \<leftarrow> upd_action p SIGABRT (sa_handler_update (\<lambda>_. SIG_DFL)) k1; (k, _) \<leftarrow> send_sig p SIGABRT k; Some k }
      else if p_state (procs k1 p) = STATE_RUNNABLE then enqueue_schedule p k1 else Some k1)"
  have run: "do_sigreturn p m k = do { k \<leftarrow> st; Some (if has_flag (p_state (procs k p)) STATE_RECEIVING
      then (upd_proc p (p_state_update (\<lambda>_. STATE_RECEIVING)) k, - EINTR) else (k, DONTREPLY)) }"
    unfolding do_sigreturn_def Let_def st_def k1_def ..
  from assms(1) obtain k2 where k2: "st = Some k2" and k': "sig_masks k' = sig_masks k2"
    unfolding run by (cases st) (auto split: if_splits)
  have "sig_ok (procs k2 p)"
  proof (cases "kmem k (m1_i1 m) = SIGABRT")
    case True
    with k2 [unfolded st_def] obtain k3 v where "upd_action p SIGABRT (sa_handler_update (\<lambda>_. SIG_DFL)) k1 = Some k3" "send_sig p SIGABRT k3 = Some (k2, v)"
      by (auto simp: bind_eq_Some_conv)
    then show ?thesis using upd_action_ok [OF _ ok1] sig_ok_masks send_sig_masks by fastforce
  next
    case False
    then have "sig_masks k2 = sig_masks k1" using k2 [unfolded st_def] enqueue_masks(1) by (auto simp: enqueue_schedule_def split: if_splits)
    then show ?thesis using ok1 sig_ok_masks [of k2 p k1] by simp
  qed
  then show ?thesis using sig_ok_masks [of k' p k2] k' by simp
qed

lemma mask_step_ok: "mask_step fops_close p k k' \<Longrightarrow> sig_ok (procs k p) \<Longrightarrow> sig_ok (procs k' p)"
  by (induction rule: mask_step.induct)
    (blast intro: do_sigaction_mask do_signal_mask do_sigprocmask_mask do_sigsuspend_mask handler_entry_ok sigreturn_ok)+

lemma mask_steps_ok: "(mask_step fops_close p)\<^sup>*\<^sup>* k k' \<Longrightarrow> sig_ok (procs k p) \<Longrightarrow> sig_ok (procs k' p)"
  by (induction rule: rtranclp_induct) (auto intro: mask_step_ok)

section \<open>Properties\<close>

text \<open>
  C26. A signal handler is transparent: after the kernel has built a handler's frame on the user
  stack, and the handler has returned through the frame with the saved words intact,
  \<^verbatim>\<open>sigreturn\<close> restores the registers, the message pointer and the signal mask the process had
  when it was interrupted. A process that was running is put back on its ready queue; one that
  was blocked receiving gets \<^verbatim>\<open>-EINTR\<close>; otherwise it keeps the state it had.
\<close>

theorem sigreturn_restores:
  assumes "frame_room (procs k who)" "signum \<in> {0..20}" "length (p_sig_table (procs k who)) = NSIG"
    and "build_signal_ctx who signum k = Some (k1, 0)"
    and "c_sp (p_ctx (procs k2 who)) = c_sp (p_ctx (procs k1 who)) + 1" "c_rbase (p_ctx (procs k2 who)) = c_rbase (p_ctx (procs k1 who))"
    and "\<forall>a. phys k (c_sp (p_ctx (procs k who))) who - 21 \<le> a \<and> a < phys k (c_sp (p_ctx (procs k who))) who \<longrightarrow> kmem k2 a = kmem k1 a"
    and "p_sig_mask2 (procs k2 who) = p_sig_mask2 (procs k1 who)" "kmem k2 (m1_i1 m) \<noteq> SIGABRT"
    and "rq_inv k2 qs" "\<not> queued qs who" "i = p_priority (procs k2 who)" "IS_PRIORITY_OK i"
  shows "\<exists>k3 ret. do_sigreturn who m k2 = Some (k3, ret) \<and> p_ctx (procs k3 who) = p_ctx (procs k who) \<and>
     p_message (procs k3 who) = p_message (procs k who) \<and> p_sig_mask (procs k3 who) = p_sig_mask (procs k who) \<and>
     (if p_state (procs k who) = STATE_RUNNABLE
      then ret = DONTREPLY \<and> p_state (procs k3 who) = STATE_RUNNABLE \<and> rq_inv k3 (qs(i := qs i @ [who]))
      else if has_flag (p_state (procs k who)) STATE_RECEIVING
      then ret = - EINTR \<and> p_state (procs k3 who) = STATE_RECEIVING \<and> rq_inv k3 qs
      else ret = DONTREPLY \<and> p_state (procs k3 who) = p_state (procs k who) \<and> rq_inv k3 qs)"
proof -
  let ?r = "procs k who"
  let ?top = "c_sp (p_ctx ?r) + c_rbase (p_ctx ?r)"
  have "aget (p_sig_table ?r) signum = Some (p_sig_table ?r ! nat signum)" using assms(2,3) by (simp add: aget_def)
  from build_signal_ctx_run [OF assms(1) this] assms(4)
  have k1: "k1 = upd_proc who (signal_proc signum (p_sig_table ?r ! nat signum)) (upd_mem (signal_frame signum ?r) k)" by simp
  have room: "25 \<le> c_sp (p_ctx ?r)" "0 \<le> c_rbase (p_ctx ?r)" "?top < 2 ^ 32" "length (c_regs (p_ctx ?r)) = REGS_NR"
    using assms(1) by (simp_all add: frame_room_def)
  have top: "phys k (c_sp (p_ctx ?r)) who = ?top" using room by (simp add: phys_def get_physical_addr_def)
  have sp: "phys k2 (c_sp (p_ctx (procs k2 who))) who = ?top - 24"
    using assms(5,6) room by (simp add: phys_def get_physical_addr_def k1 signal_proc_def)
  have "kmem k2 (?top - 24 + 3 + int j) = pcb_words ?r ! j" if "j < 21" for j
    using assms(7) signal_frame_saved [OF assms(1) that, of signum "kmem k"] that unfolding top by (simp add: k1)
  note run = do_sigreturn_run [OF room(4) sp this assms(9-13)]
  have "p_sig_mask2 (procs k2 who) = p_sig_mask ?r" using assms(8) by (simp add: k1 signal_proc_def)
  with run show ?thesis by metis
qed

text \<open>A running process with a handler for \<^verbatim>\<open>SIGALRM\<close> and room on its stack.\<close>

definition kernel_sig :: kernel where
  "kernel_sig = upd_proc 1 (\<lambda>r. r\<lparr>p_flags := IN_USE, p_state := STATE_RUNNABLE, p_priority := 3,
     p_ctx := (p_ctx r)\<lparr>c_regs := replicate REGS_NR 7, c_sp := 500, c_rbase := 4096\<rparr>,
     p_sig_table := replicate NSIG \<lparr>sa_handler = 300, sa_mask = 0, sa_flags = 0\<rparr>\<rparr>) kernel0"

lemma kernel_sig_facts:
  "frame_room (procs kernel_sig 1)" "length (p_sig_table (procs kernel_sig 1)) = NSIG" "p_state (procs kernel_sig 1) = 0"
  "p_priority (procs kernel_sig 1) = 3" "rq_inv kernel_sig (\<lambda>_. [])"
  using kernel0_rq rq_inv_cong [of kernel_sig kernel0]
  by (auto simp: kernel_sig_def frame_room_def)

theorem sigreturn_restores_witness:
  "\<exists>k1 k3. build_signal_ctx 1 SIGALRM kernel_sig = Some (k1, 0) \<and>
     do_sigreturn 1 9000 (upd_mem (\<lambda>m. m(9002 := 0)) (upd_proc 1 (p_ctx_update (\<lambda>c. c\<lparr>c_sp := 476, c_regs := replicate REGS_NR 0\<rparr>)) k1)) =
       Some (k3, DONTREPLY) \<and> c_regs (p_ctx (procs k3 1)) = replicate REGS_NR 7 \<and> rq_inv k3 ((\<lambda>_. [])(3 := [1]))"
proof -
  have "aget (p_sig_table (procs kernel_sig 1)) SIGALRM = Some \<lparr>sa_handler = 300, sa_mask = 0, sa_flags = 0\<rparr>"
    by (simp add: kernel_sig_def aget_def)
  note b = build_signal_ctx_run [OF kernel_sig_facts(1) this]
  define k1 where "k1 = upd_proc 1 (signal_proc SIGALRM \<lparr>sa_handler = 300, sa_mask = 0, sa_flags = 0\<rparr>)
    (upd_mem (signal_frame SIGALRM (procs kernel_sig 1)) kernel_sig)"
  define k2 where "k2 = upd_mem (\<lambda>m. m(9002 := 0)) (upd_proc 1 (p_ctx_update (\<lambda>c. c\<lparr>c_sp := 476, c_regs := replicate REGS_NR 0\<rparr>)) k1)"
  have "rq_inv k2 (\<lambda>_. [])" using kernel_sig_facts(5) rq_inv_cong [of k2 kernel_sig]
    by (simp add: k2_def k1_def signal_proc_def)
  moreover have "c_sp (p_ctx (procs k2 1)) = c_sp (p_ctx (procs k1 1)) + 1" "c_rbase (p_ctx (procs k2 1)) = c_rbase (p_ctx (procs k1 1))"
    "p_sig_mask2 (procs k2 1) = p_sig_mask2 (procs k1 1)" "kmem k2 (m1_i1 9000) \<noteq> SIGABRT" "3 = p_priority (procs k2 1)"
    by (simp_all add: k2_def k1_def signal_proc_def kernel_sig_def)
  moreover have "\<forall>a. phys kernel_sig (c_sp (p_ctx (procs kernel_sig 1))) 1 - 21 \<le> a \<and> a < phys kernel_sig (c_sp (p_ctx (procs kernel_sig 1))) 1
      \<longrightarrow> kmem k2 a = kmem k1 a"
    by (simp add: k2_def phys_def get_physical_addr_def kernel_sig_def)
  moreover have "build_signal_ctx 1 SIGALRM kernel_sig = Some (k1, 0)" using b by (simp add: k1_def)
  ultimately have "\<exists>k3 ret. do_sigreturn 1 9000 k2 = Some (k3, ret) \<and> p_ctx (procs k3 1) = p_ctx (procs kernel_sig 1) \<and>
     ret = DONTREPLY \<and> rq_inv k3 ((\<lambda>_. [])(3 := [] @ [1]))"
    using sigreturn_restores [OF kernel_sig_facts(1), of SIGALRM k1 k2 9000 "\<lambda>_. []" 3] kernel_sig_facts(2,3)
    by (fastforce simp: queued_def IS_PRIORITY_OK_def)
  moreover have "c_regs (p_ctx (procs kernel_sig 1)) = replicate REGS_NR 7" by (simp add: kernel_sig_def)
  moreover have "build_signal_ctx 1 SIGALRM kernel_sig = Some (k1, 0)" using b by (simp add: k1_def)
  ultimately show ?thesis unfolding k2_def by (metis append_Nil)
qed

text \<open>
  C33. Delivering a signal that has a handler starts the handler: the program counter is the
  handler's address, the signal number is on top of the stack, the return address is the
  second word of the frame, the signal is no longer pending, the old mask is saved, and an action
  with \<^verbatim>\<open>SA_RESETHAND\<close> goes back to the default. While the handler runs its own signal is
  blocked exactly when the action has \<^verbatim>\<open>SA_NODEFER\<close>.
\<close>

theorem handle_sig_enters_handler:
  assumes "frame_room (procs k who)" "signum \<in> {1..20}" "length (p_sig_table (procs k who)) = NSIG"
    and "act = p_sig_table (procs k who) ! nat signum" "sa_handler act \<noteq> SIG_DFL" "sa_handler act \<noteq> SIG_IGN"
  shows "\<exists>k'. handle_sig fops_close who signum k = Some (k', 0) \<and> c_pc (p_ctx (procs k' who)) = sa_handler act \<and>
     kmem k' (phys k' (c_sp (p_ctx (procs k' who))) who) = signum \<and>
     c_ra (p_ctx (procs k' who)) = c_sp (p_ctx (procs k' who)) + 2 \<and> p_state (procs k' who) = STATE_RUNNABLE \<and>
     sigs (p_sig_pending (procs k' who)) = sigs (p_sig_pending (procs k who)) - {signum} \<and>
     p_sig_mask2 (procs k' who) = p_sig_mask (procs k who) \<and>
     (signum \<in> sigs (p_sig_mask (procs k' who)) \<longleftrightarrow> has_flag (sa_flags act) SA_NODEFER) \<and>
     sigs (p_sig_mask (procs k' who)) - {signum} = sigs (sa_mask act) - {signum} \<and>
     sa_handler (p_sig_table (procs k' who) ! nat signum) = (if has_flag (sa_flags act) SA_RESETHAND then SIG_DFL else sa_handler act)"
proof -
  have v: "0 \<le> signum" "signum \<le> 21" "nat signum < NSIG" using assms(2) by auto
  have "aget (p_sig_table (procs k who)) signum = Some act" using assms(2,3,4) by (simp add: aget_def)
  from handle_sig_run [OF assms(1) this assms(5,6) refl, of fops_close]
  obtain k' where k': "handle_sig fops_close who signum k = Some (k', 0)"
     "kmem k' (c_sp (p_ctx (procs k who)) + c_rbase (p_ctx (procs k who)) - 25) = signum"
     "p_ctx (procs k' who) = (p_ctx (procs k who))\<lparr>c_sp := c_sp (p_ctx (procs k who)) - 25,
       c_ra := c_sp (p_ctx (procs k who)) - 23, c_pc := sa_handler act\<rparr>" "p_state (procs k' who) = STATE_RUNNABLE"
     "p_sig_mask (procs k' who) = fst ((if has_flag (sa_flags act) SA_NODEFER then sigaddset else sigdelset) (sa_mask act) signum)"
     "p_sig_mask2 (procs k' who) = p_sig_mask (procs k who)"
     "p_sig_pending (procs k' who) = fst (sigdelset (p_sig_pending (procs k who)) signum)"
     "sa_handler (p_sig_table (procs k' who) ! nat signum) = (if has_flag (sa_flags act) SA_RESETHAND then SIG_DFL else sa_handler act)"
    using v assms(3) by (auto split: if_splits)
  have "phys k' (c_sp (p_ctx (procs k' who))) who = c_sp (p_ctx (procs k who)) + c_rbase (p_ctx (procs k who)) - 25"
    using assms(1) by (simp add: k'(3) phys_def get_physical_addr_def frame_room_def)
  then show ?thesis
    using k' v sigset.elems_add [of signum] sigset.elems_del [of signum] by (auto split: if_splits)
qed

theorem handle_sig_enters_handler_witness:
  "\<exists>k'. handle_sig (\<lambda>_ k. Some (k, 0)) 1 SIGALRM kernel_sig = Some (k', 0) \<and> c_pc (p_ctx (procs k' 1)) = 300 \<and>
     SIGALRM \<notin> sigs (p_sig_mask (procs k' 1))"
proof -
  have "p_sig_table (procs kernel_sig 1) ! nat SIGALRM = \<lparr>sa_handler = 300, sa_mask = 0, sa_flags = 0\<rparr>"
    by (simp add: kernel_sig_def)
  with handle_sig_enters_handler [OF kernel_sig_facts(1) _ kernel_sig_facts(2) refl, of SIGALRM "\<lambda>_ k. Some (k, 0)"]
  show ?thesis by auto
qed

text \<open>
  C34. \<^verbatim>\<open>waitpid\<close> with a readable status pointer (or none): the first matching child that has
  exited is reaped, its slot is free again and its status word is stored, but the result is 0
  instead of its process id, since the slot is cleared before the id is read; a child that is
  only stopped is reported by its id and keeps its slot. With no child ready the result is 0
  under \<^verbatim>\<open>WNOHANG\<close>, \<^verbatim>\<open>-ECHILD\<close> if no child matches, and otherwise the caller is marked
  waiting with its request recorded.
\<close>

theorem do_waitpid_correct:
  assumes "pid = kmem k (m1_i1 m)" "options = word_of_int (kmem k (m1_i2 m))" "vptr = kmem k (m1_p1 m)"
    and "vptr = NULL \<or> is_vaddr_accessible k vptr parent = Some True"
    and "C = {c \<in> {1..9}. is_child k parent c \<and> wait_match k parent pid c}"
  shows "\<exists>k' r. do_waitpid parent m k = Some (k', r) \<and>
    (if \<exists>c\<in>C. wait_ready k options c
     then \<exists>c\<in>C. wait_ready k options c \<and> (\<forall>d\<in>C. d < c \<longrightarrow> \<not> wait_ready k options d) \<and>
       (vptr \<noteq> NULL \<longrightarrow> kmem k' = (kmem k)(phys k vptr parent := get_wstats k c)) \<and>
       (if has_flag (p_state (procs k c)) STATE_ZOMBIE
        then r = 0 \<and> \<not> IS_INUSE k' c \<and> p_pid (procs k' c) = 0 else r = p_pid (procs k c) \<and> procs k' = procs k)
     else if has_flag options WNOHANG then k' = k \<and> r = 0
     else if C = {} then k' = k \<and> r = - ECHILD
     else r = SUSPEND \<and> has_flag (p_state (procs k' parent)) STATE_WAITING \<and> p_wpid (procs k' parent) = pid \<and>
       p_varg (procs k' parent) = vptr \<and> p_woptions (procs k' parent) = options)"
proof -
  define children where "children = filter (\<lambda>c. is_child k parent c \<and> wait_match k parent pid c) [1..9]"
  have C: "set children = C" by (auto simp: children_def assms(5) simp del: upto_rec_numeral)
  have find: "find (wait_ready k options) children = find (\<lambda>c. c \<in> C \<and> wait_ready k options c) [1..9]"
    unfolding children_def find_filter by (rule find_cong) (auto simp: assms(5) simp del: upto_rec_numeral)
  have run: "do_waitpid parent m k = (case find (wait_ready k options) children of
              Some child \<Rightarrow>
                let k = (if vptr \<noteq> NULL then upd_mem (\<lambda>mem. mem(phys k vptr parent := get_wstats k child)) k else k);
                    k = release_zombie child k
                in Some (k, p_pid (procs k child))
            | None \<Rightarrow>
                if has_flag options WNOHANG then Some (k, 0)
                else if children = [] then Some (k, - ECHILD)
                else Some (upd_proc parent (\<lambda>r. r\<lparr>p_wpid := pid, p_woptions := options, p_varg := vptr,
                       p_state := set_flag (p_state r) STATE_WAITING\<rparr>) k, SUSPEND))"
    using assms(4) unfolding do_waitpid_def Let_def assms(1,2,3) [symmetric] children_def [symmetric]
    by (elim disjE) simp_all
  show ?thesis
  proof (cases "find (wait_ready k options) children")
    case None
    then have "\<not> (\<exists>c\<in>C. wait_ready k options c)" using C by (auto simp: find_None_iff)
    moreover have "children = [] \<longleftrightarrow> C = {}" using C by auto
    ultimately show ?thesis using None run by auto
  next
    case (Some c)
    then have c: "c \<in> C" "wait_ready k options c" "\<forall>d\<in>C. d < c \<longrightarrow> \<not> wait_ready k options d"
      using find by (auto simp: find_upto_Some assms(5))
    define k0 where "k0 = (if vptr \<noteq> NULL then upd_mem (\<lambda>mem. mem(phys k vptr parent := get_wstats k c)) k else k)"
    have k0: "procs k0 = procs k" "vptr \<noteq> NULL \<longrightarrow> kmem k0 = (kmem k)(phys k vptr parent := get_wstats k c)"
      by (simp_all add: k0_def fun_upd_def)
    have "do_waitpid parent m k = Some (release_zombie c k0, p_pid (procs (release_zombie c k0) c))"
      using run Some by (simp add: Let_def k0_def)
    moreover have "kmem (release_zombie c k0) = kmem k0" by (simp add: release_zombie_def)
    moreover have "if has_flag (p_state (procs k c)) STATE_ZOMBIE
        then p_pid (procs (release_zombie c k0) c) = 0 \<and> \<not> IS_INUSE (release_zombie c k0) c
        else procs (release_zombie c k0) = procs k"
      using k0(1) by (simp add: release_zombie_def IS_INUSE_def)
    ultimately show ?thesis using c k0(2) by (auto intro!: bexI [of _ c] split: if_splits)
  qed
qed

theorem do_waitpid_correct_witness:
  "\<exists>k' r. do_waitpid 1 2048 (upd_mem (\<lambda>_. (\<lambda>_. 0)(2050 := - 1))
      (upd_proc 2 (\<lambda>r. r\<lparr>p_flags := IN_USE, p_parent := 1, p_state := STATE_ZOMBIE, p_pid := 7\<rparr>) kernel0)) = Some (k', r) \<and>
     r = 0 \<and> \<not> IS_INUSE k' 2"
proof -
  define k where "k = upd_mem (\<lambda>_. (\<lambda>_. 0)(2050 := - 1))
      (upd_proc 2 (\<lambda>r. r\<lparr>p_flags := IN_USE, p_parent := 1, p_state := STATE_ZOMBIE, p_pid := 7\<rparr>) kernel0)"
  have mem: "kmem k (m1_i1 2048) = - 1" "kmem k (m1_p1 2048) = NULL" by (simp_all add: k_def)
  have nr: "p_proc_nr (procs k 1) = 1" "p_parent (procs k 2) = 1" by (simp_all add: k_def kernel0_procs IS_PROCN_OK_def)
  have "IS_INUSE k 2" "\<And>c. c \<in> {1..9} \<Longrightarrow> c \<noteq> 2 \<Longrightarrow> \<not> IS_INUSE k c"
    by (auto simp: k_def IS_INUSE_def kernel0_procs IS_PROCN_OK_def has_flag_def proc_default_def proc_zero_def)
  then have C: "{2} = {c \<in> {1..9}. is_child k 1 c \<and> wait_match k 1 (- 1) c}"
    using nr by (auto simp: is_child_def wait_match_def)
  have w: "wait_ready k (word_of_int (kmem k (m1_i2 2048))) 2" "has_flag (p_state (procs k 2)) STATE_ZOMBIE"
    by (simp_all add: k_def wait_ready_def has_flag_def)
  from do_waitpid_correct [OF mem(1) [symmetric] refl mem(2) [symmetric] disjI1 [OF refl] C] w
  show ?thesis unfolding k_def [symmetric] by auto
qed

text \<open>
  When a process exits it disappears from every list of blocked senders: a receiver that is
  in use never receives from it again, the other blocked senders keep their place, and the walk
  over each list ends.
\<close>

theorem clear_sending_mesg_correct:
  assumes "sq_inv k sq" and "\<forall>d. sq d \<noteq> [] \<longrightarrow> IS_PROCN_OK d \<and> IS_INUSE k d"
  shows "\<exists>k'. clear_sending_mesg who k = Some k' \<and> sq_inv k' (\<lambda>d. filter (\<lambda>p. p \<noteq> who) (sq d))"
proof -
  have "(\<lambda>d. if d \<in> set [- 2..9] \<and> IS_INUSE k d then filter (\<lambda>p. p \<noteq> who) (sq d) else sq d) = (\<lambda>d. filter (\<lambda>p. p \<noteq> who) (sq d))"
  proof (rule ext)
    fix d show "(if d \<in> set [- 2..9] \<and> IS_INUSE k d then filter (\<lambda>p. p \<noteq> who) (sq d) else sq d) = filter (\<lambda>p. p \<noteq> who) (sq d)"
      using assms(2) [rule_format, of d] by (cases "sq d = []") (auto simp: IS_PROCN_OK_def simp del: upto_rec_numeral)
  qed
  with clear_sending_loop [OF assms(1), of who "[- 2..9]"] show ?thesis
    unfolding clear_sending_mesg_def by (simp only:) blast
qed

lemma kernel_blocked:
  "\<exists>k'. do_send 2 3 6000 (upd_proc 3 (\<lambda>r. r\<lparr>p_flags := IN_USE, p_state := 0\<rparr>) kernel_recv) = Some (k', 0) \<and>
     sq_inv k' ((\<lambda>_. [])(3 := [2])) \<and> IS_INUSE k' 3"
proof -
  let ?k = "upd_proc 3 (\<lambda>r. r\<lparr>p_flags := IN_USE, p_state := 0\<rparr>) kernel_recv"
  have inv: "sq_inv ?k (\<lambda>_. [])" using kernel_recv_inv by (auto simp: sq_inv_def)
  have u: "IS_PROCN_OK 3" "IS_INUSE ?k 3" by (simp_all add: IS_PROCN_OK_def IS_INUSE_def has_flag_def)
  from do_send_block_run [OF inv u, of 2 6000] do_send_check [OF inv u, of 2 6000] kernel_recv_facts u(2)
  show ?thesis by (auto simp: would_deadlock_def Let_def IS_INUSE_def)
qed

theorem clear_sending_mesg_correct_witness:
  "\<exists>k k'. sq_inv (k :: kernel) ((\<lambda>_. [])(3 := [2])) \<and> clear_sending_mesg 2 k = Some k' \<and> sq_inv k' (\<lambda>_. [])"
proof -
  obtain k :: kernel where k: "sq_inv k ((\<lambda>_. [])(3 := [2]))" "IS_INUSE k 3" using kernel_blocked by blast
  have "(\<lambda>d. filter (\<lambda>p. p \<noteq> 2) (((\<lambda>_. [])(3 := [2])) d)) = (\<lambda>_. [] :: int list)" by (rule ext) simp
  with clear_sending_mesg_correct [OF k(1), of 2] k show ?thesis by (auto simp: IS_PROCN_OK_def)
qed

text \<open>The processes \<^verbatim>\<open>kill\<close> addresses.\<close>

definition kill_target :: "'a kernel_scheme \<Rightarrow> int \<Rightarrow> int \<Rightarrow> int \<Rightarrow> bool" where
  "kill_target k who pid t \<longleftrightarrow> IS_INUSE k t \<and> (pid < - 1 \<longrightarrow> p_procgrp (procs k t) = - pid) \<and>
     (pid = 0 \<longrightarrow> p_procgrp (procs k t) \<noteq> p_procgrp (procs k who)) \<and>
     (pid > 0 \<longrightarrow> p_pid (procs k t) = pid) \<and> (pid = - 1 \<longrightarrow> p_pid (procs k t) \<noteq> 1)"

lemma kill_loop_probe:
  "kill_loop fops_close who pid 0 ts n k = Some (k, n, \<exists>t\<in>set ts. kill_target k who pid t)"
  by (induction ts) (auto simp: kill_target_def)

text \<open>
  \<^verbatim>\<open>kill\<close> with signal 0 tests for a target without sending anything: 0 if one exists and
  \<^verbatim>\<open>-ESRCH\<close> if not, for every form of the process id. For a process id of 0 the targets are the
  processes \<^emph>\<open>outside\<close> the caller's group. A signal number out of range and an attempt to stop
  or kill process 1 are refused before any process is looked at.
\<close>

theorem sys_kill_probe:
  "sys_kill fops_close who pid signum k =
     (if signum < 0 \<or> 21 \<le> signum \<or> (pid = 1 \<and> (signum = SIGSTOP \<or> signum = SIGKILL)) then Some (k, - EINVAL)
      else if signum = 0 then Some (k, if \<exists>t. 1 \<le> t \<and> t \<le> 9 \<and> kill_target k who pid t then 0 else - ESRCH)
      else do { (k, n, early) \<leftarrow> kill_loop fops_close who pid signum [1..9] 0 k;
                Some (k, if n = 0 \<and> \<not> early then - ESRCH else 0) })"
proof (cases "signum = 0")
  case True
  have "(\<exists>t\<in>set [1..9]. kill_target k who pid t) = (\<exists>t. 1 \<le> t \<and> t \<le> 9 \<and> kill_target k who pid t)"
    by (auto simp del: upto_rec_numeral)
  with True show ?thesis by (auto simp: sys_kill_def kill_loop_probe simp del: upto_rec_numeral)
next
  case False
  have "(\<lambda>(k, valid_targets, early). Some (k, if early then 0 else if valid_targets = 0 then - ESRCH else 0)) =
      (\<lambda>(k, n, early). Some (k :: 'a kernel_scheme, if n = (0 :: int) \<and> \<not> early then - ESRCH else 0))" by auto
  with False show ?thesis by (auto simp: sys_kill_def simp del: upto_rec_numeral)
qed

end
