(* ===== verification/Sched.thy ===== *)
theory Sched
  imports Exit
begin

text \<open>
  The scheduler (\<^verbatim>\<open>kernel/sched.c\<close>), the clock interrupt (\<^verbatim>\<open>kernel/clock.c\<close>) and the
  system calls that arm timers (\<^verbatim>\<open>kernel/system/do_timer_nanosleep.c\<close>). \<open>sched\<close> ends where the
  source loads the context of the chosen process; a panic is \<open>None\<close>. Device registers are left
  out. Local structures whose address is taken live at \<open>ktmp_mesg\<close>.
\<close>

abbreviation (input) NANOSLEEP :: int where "NANOSLEEP \<equiv> 47"
abbreviation (input) REBALANCE_TIMEOUT :: u32 where "REBALANCE_TIMEOUT \<equiv> 36"
abbreviation (input) ITIMER_REAL :: int where "ITIMER_REAL \<equiv> 0"
abbreviation (input) ITIMERVAL_LEN :: int where "ITIMERVAL_LEN \<equiv> 4"
abbreviation (input) TIMESPEC_LEN :: int where "TIMESPEC_LEN \<equiv> 2"

section \<open>Scheduling\<close>

definition init_sched :: "'a kernel_scheme \<Rightarrow> 'a kernel_scheme option" where
  "init_sched k =
     do { (k, _) \<leftarrow> new_timer SYSTEM SchedTimer REBALANCE_TIMEOUT Rebalance_queues (upd_timer SchedTimer (\<lambda>_. timer_zero) k);
          Some k }"

definition rebalance_queues :: "int \<Rightarrow> u32 \<Rightarrow> 'a kernel_scheme \<Rightarrow> 'a kernel_scheme option" where
  "rebalance_queues proc_nr time k =
     do { let k = fold (\<lambda>p. upd_proc p (p_priority_update (\<lambda>_. DEFAULT_PRIORITY))) (foreach_proc k) k;
          (k, _) \<leftarrow> new_timer SYSTEM SchedTimer REBALANCE_TIMEOUT Rebalance_queues k;
          Some k }"

text \<open>\<^verbatim>\<open>pick_proc\<close> from queue \<open>i\<close> down; no process left is a panic.\<close>

function pick_from :: "int \<Rightarrow> 'a kernel_scheme \<Rightarrow> ('a kernel_scheme \<times> int) option" where
  "pick_from i k =
     (if i \<ge> MIN_PRIORITY
      then do { (k, mp) \<leftarrow> dequeue i k;
                case mp of Some p \<Rightarrow> Some (k, p) | None \<Rightarrow> pick_from (i - 1) k }
      else None)"
  by pat_completeness auto
termination
  by (relation "measure (\<lambda>(i, k). nat (i + 1))") auto

declare pick_from.simps [simp del]

definition pick_proc :: "'a kernel_scheme \<Rightarrow> ('a kernel_scheme \<times> int) option" where
  "pick_proc k = pick_from MAX_PRIORITY k"

text \<open>The loop of \<^verbatim>\<open>sched\<close>: a picked process first takes its pending signal, and is skipped if
  that leaves it blocked.\<close>

partial_function (option) sched_loop :: "'a closer \<Rightarrow> 'a kernel_scheme \<Rightarrow> ('a kernel_scheme \<times> int) option" where
  "sched_loop fops_close k =
     do { (k, p) \<leftarrow> pick_proc k;
          let k = k\<lparr>curr_scheduling_proc := Some p\<rparr>;
          k \<leftarrow> (if is_sigpending k p \<noteq> 0
                then do { (k, _) \<leftarrow> handle_sig fops_close p (is_sigpending k p) k; Some k } else Some k);
          if p_state (procs k p) \<noteq> 0 then sched_loop fops_close k else Some (k, p) }"

definition requeue_curr :: "'a kernel_scheme \<Rightarrow> 'a kernel_scheme option" where
  "requeue_curr k =
     (case curr_scheduling_proc k of
        None \<Rightarrow> Some k
      | Some c \<Rightarrow>
          if p_state (procs k c) \<noteq> 0 then Some k
          else if p_ticks_left (procs k c) > 0 then enqueue_head (p_priority (procs k c)) c k
          else let k = (if IS_USER_PROC k c \<and> p_priority (procs k c) > MIN_PRIORITY
                        then upd_proc c (p_priority_update (\<lambda>i. i - 1)) k else k)
               in enqueue_tail (p_priority (procs k c)) c k)"

definition sched :: "'a closer \<Rightarrow> 'a kernel_scheme \<Rightarrow> 'a kernel_scheme option" where
  "sched fops_close k =
     do { k \<leftarrow> requeue_curr k;
          (k, p) \<leftarrow> sched_loop fops_close k;
          let k = (if p_ticks_left (procs k p) \<le> 0
                   then upd_proc p (\<lambda>r. r\<lparr>p_ticks_left := p_quantum r\<rparr>) k else k);
          Some (k\<lparr>irq_count := 0\<rparr>) }"

section \<open>Timer handlers\<close>

definition deliver_alarm :: "'a closer \<Rightarrow> int \<Rightarrow> u32 \<Rightarrow> 'a kernel_scheme \<Rightarrow> 'a kernel_scheme option" where
  "deliver_alarm fops_close proc_nr time k =
     (case get_non_zombie_proc k proc_nr of
        None \<Rightarrow> Some k
      | Some who \<Rightarrow>
          do { (k, _) \<leftarrow> send_sig who SIGALRM k;
               k \<leftarrow> (if p_state (procs k who) \<noteq> 0
                     then do { (k, _) \<leftarrow> handle_pendingsig fops_close who True k; Some k } else Some k);
               if p_state (procs k who) = STATE_RUNNABLE \<and> p_timer_interval (procs k who) \<noteq> 0
               then do { (k, _) \<leftarrow> new_timer proc_nr (ProcTimer who) (p_timer_interval (procs k who)) Deliver_alarm k; Some k }
               else Some k })"

definition wakeup_process :: "int \<Rightarrow> u32 \<Rightarrow> 'a kernel_scheme \<Rightarrow> 'a kernel_scheme option" where
  "wakeup_process proc_nr time k =
     (case get_proc k proc_nr of
        None \<Rightarrow> Some k
      | Some p \<Rightarrow> do { (k, _) \<leftarrow> syscall_reply2 NANOSLEEP 0 proc_nr (ktmp_mesg k) k; Some k })"

text \<open>The indirect call through a timer's handler; calling a null pointer faults.\<close>

definition call_handler :: "'a closer \<Rightarrow> watchdog \<Rightarrow> int \<Rightarrow> u32 \<Rightarrow> 'a kernel_scheme \<Rightarrow> 'a kernel_scheme option" where
  "call_handler fops_close w n t k =
     (case w of
        No_handler \<Rightarrow> None
      | Rebalance_queues \<Rightarrow> rebalance_queues n t k
      | Deliver_alarm \<Rightarrow> deliver_alarm fops_close n t k
      | Wakeup_process \<Rightarrow> wakeup_process n t k)"

definition set_bill_ptr :: "int \<Rightarrow> 'a kernel_scheme \<Rightarrow> 'a kernel_scheme" where
  "set_bill_ptr who k = k\<lparr>bill_ptr := Some who\<rparr>"

definition clock_account :: "'a kernel_scheme \<Rightarrow> 'a kernel_scheme option" where
  "clock_account k =
     do { let k = k\<lparr>system_uptime := system_uptime k + 1\<rparr>;
          c \<leftarrow> curr_scheduling_proc k;
          let k = upd_proc c (\<lambda>r. r\<lparr>p_time_used := p_time_used r + 1, p_ticks_left := p_ticks_left r - 1\<rparr>) k;
          if has_flag (p_flags (procs k c)) BILLABLE
          then do { b \<leftarrow> bill_ptr k; Some (upd_proc b (p_sys_time_used_update (\<lambda>t. t + 1)) k) }
          else Some k }"

definition clock_handler :: "'a closer \<Rightarrow> 'a kernel_scheme \<Rightarrow> 'a kernel_scheme option" where
  "clock_handler fops_close k =
     do { k \<leftarrow> clock_account k;
          k \<leftarrow> do_ticks (call_handler fops_close) k;
          sched fops_close k }"

section \<open>System calls\<close>

definition convert_timeval_to_hz :: "memory \<Rightarrow> addr \<Rightarrow> u32" where
  "convert_timeval_to_hz m tv =
     (let tv_sec = (word_of_int (m tv) :: u32); tv_usec = (word_of_int (m (tv + 1)) :: u32);
          hz = tv_sec * 60;
          micro_hz = tv_usec div 16666;
          micro_hz = (if tv_usec \<noteq> 0 \<and> micro_hz = 0 then 1 else micro_hz)
      in hz + micro_hz)"

definition convert_timespec_to_hz :: "memory \<Rightarrow> addr \<Rightarrow> u32" where
  "convert_timespec_to_hz m tv =
     (let tv_sec = (word_of_int (m tv) :: u32); tv_nsec = sint (word_of_int (m (tv + 1)) :: u32);
          hz = tv_sec * 60;
          nano_hz = (word_of_int (if tv_nsec \<ge> 0 then tv_nsec div 16666666 else - (- tv_nsec div 16666666)) :: u32);
          nano_hz = (if tv_nsec \<noteq> 0 \<and> nano_hz = 0 then 1 else nano_hz)
      in hz + nano_hz)"

definition sys_setitimer :: "int \<Rightarrow> int \<Rightarrow> addr \<Rightarrow> addr \<Rightarrow> 'a kernel_scheme \<Rightarrow> ('a kernel_scheme \<times> int) option" where
  "sys_setitimer who which new_value old_value k =
     (if which \<noteq> ITIMER_REAL then Some (k, - EINVAL)
      else do {
        let prev_timeout = tm_time_out (timers k (ProcTimer who));
        let k = upd_proc who (p_timer_interval_update (\<lambda>_. 0)) k;
        k \<leftarrow> (if has_flag (tm_flags (timers k (ProcTimer who))) TIMER_INUSE then remove_timer (ProcTimer who) k else Some k);
        let new_timeout = convert_timeval_to_hz (kmem k) (new_value + 2);
        let interval = convert_timeval_to_hz (kmem k) new_value;
        let k = upd_proc who (p_timer_interval_update (\<lambda>_. interval)) k;
        k \<leftarrow> (if new_timeout > 0
              then do { (k, _) \<leftarrow> new_timer (p_proc_nr (procs k who)) (ProcTimer who) new_timeout Deliver_alarm k; Some k }
              else Some k);
        Some (if old_value \<noteq> NULL
              then upd_mem (\<lambda>m. m(old_value + 2 := uint (prev_timeout div 60), old_value + 3 := uint (prev_timeout mod 60) * 16666)) k
              else k, 0) })"

definition do_setitimer :: "int \<Rightarrow> addr \<Rightarrow> 'a kernel_scheme \<Rightarrow> ('a kernel_scheme \<times> int) option" where
  "do_setitimer who m k =
     do { let act = kmem k (m1_p1 m);
          let oact = kmem k (m1_p2 m);
          ok \<leftarrow> user_ok k act ITIMERVAL_LEN who;
          if \<not> ok then Some (k, - EFAULT)
          else do { ok2 \<leftarrow> (if oact \<noteq> NULL then user_ok k oact ITIMERVAL_LEN who else Some True);
                    if \<not> ok2 then Some (k, - EFAULT)
                    else sys_setitimer who (kmem k (m1_i1 m)) (phys k act who) (if oact \<noteq> NULL then phys k oact who else oact) k } }"

definition do_alarm :: "int \<Rightarrow> addr \<Rightarrow> 'a kernel_scheme \<Rightarrow> ('a kernel_scheme \<times> int) option" where
  "do_alarm who m k =
     do { let act = ktmp_mesg k;
          let oact = ktmp_mesg k + ITIMERVAL_LEN;
          let k = upd_mem (\<lambda>mem. (memset act 0 ITIMERVAL_LEN mem)(act + 2 := mem (m1_i1 m))) k;
          (k, ret) \<leftarrow> sys_setitimer who ITIMER_REAL act oact k;
          Some (k, if ret \<noteq> 0 then ret else kmem k (oact + 2)) }"

definition do_nanosleep :: "int \<Rightarrow> addr \<Rightarrow> 'a kernel_scheme \<Rightarrow> ('a kernel_scheme \<times> int) option" where
  "do_nanosleep who m k =
     do { ok \<leftarrow> user_ok k (kmem k (m1_p1 m)) TIMESPEC_LEN who;
          if \<not> ok then Some (k, - EFAULT)
          else if has_flag (tm_flags (timers k (ProcTimer who))) TIMER_INUSE then Some (k, - EINVAL)
          else do { let ticks = convert_timespec_to_hz (kmem k) (phys k (kmem k (m1_p1 m)) who);
                    (k, ret) \<leftarrow> new_timer (p_proc_nr (procs k who)) (ProcTimer who) ticks Wakeup_process k;
                    Some (k, if ret \<noteq> 0 then ret else SUSPEND) } }"

section \<open>The tick loop on the kernel's handlers\<close>

text \<open>
  States in which the armed timers are the scheduler's and those of sleeping processes, and every
  queued process is runnable. Alarms are excluded: the default action of \<^verbatim>\<open>SIGALRM\<close> unlinks a
  process from the middle of a ready queue, which can leave the queue's tail dangling.
\<close>

definition calm :: "'a kernel_scheme \<Rightarrow> bool" where
  "calm k \<longleftrightarrow> (\<exists>qs. rq_inv k qs \<and> (\<forall>p. queued qs p \<longrightarrow> p_state (procs k p) = STATE_RUNNABLE)) \<and>
     (\<forall>p. IS_PRIORITY_OK (p_priority (procs k p))) \<and> IS_INUSE k SYSTEM \<and>
     (\<forall>t. inuse k t \<longrightarrow> tm_handler (timers k t) = Rebalance_queues \<or> tm_handler (timers k t) = Wakeup_process)"

text \<open>The same with the two parts apart: the order of the processes, and no alarm among the armed timers.\<close>

definition orderly :: "'a kernel_scheme \<Rightarrow> bool" where
  "orderly k \<longleftrightarrow> (\<exists>qs. rq_inv k qs \<and> (\<forall>p. queued qs p \<longrightarrow> p_state (procs k p) = STATE_RUNNABLE)) \<and>
     (\<forall>p. IS_PRIORITY_OK (p_priority (procs k p))) \<and> IS_INUSE k SYSTEM"

lemma calm_iff: "calm k \<longleftrightarrow> orderly k \<and> (\<forall>t. inuse k t \<longrightarrow> tm_handler (timers k t) \<in> {Rebalance_queues, Wakeup_process})"
  by (auto simp: calm_def orderly_def)

lemma more_fields:
  fixes k k' :: "'a kernel_scheme"
  assumes "clock.more k' = clock.more k"
  shows "procs k' = procs k" "ready_q k' = ready_q k" "kmem k' = kmem k" "ktmp_mesg k' = ktmp_mesg k"
    "curr_scheduling_proc k' = curr_scheduling_proc k"
  using assms by (cases k; cases k'; simp)+

lemma calm_cong:
  assumes "calm k" "procs k' = procs k" "ready_q k' = ready_q k"
    and "\<And>t. inuse k' t \<Longrightarrow> tm_handler (timers k' t) = Rebalance_queues \<or> tm_handler (timers k' t) = Wakeup_process"
  shows "calm k'"
proof -
  have "pnext k' = pnext k" by (auto simp: pnext_def fun_eq_iff assms(2))
  then have "rq_inv k' qs = rq_inv k qs" for qs by (rule rq_inv_cong [OF _ assms(3)])
  with assms show ?thesis by (auto simp: calm_def IS_INUSE_def)
qed

lemma fold_priority_simps:
  "pnext (fold (\<lambda>p. upd_proc p (p_priority_update (\<lambda>_. v))) ps k) = pnext k"
  "ready_q (fold (\<lambda>p. upd_proc p (p_priority_update (\<lambda>_. v))) ps k) = ready_q k"
  "timers (fold (\<lambda>p. upd_proc p (p_priority_update (\<lambda>_. v))) ps k) = timers k"
  "pending_timers (fold (\<lambda>p. upd_proc p (p_priority_update (\<lambda>_. v))) ps k) = pending_timers k"
  "next_timeout (fold (\<lambda>p. upd_proc p (p_priority_update (\<lambda>_. v))) ps k) = next_timeout k"
  "system_uptime (fold (\<lambda>p. upd_proc p (p_priority_update (\<lambda>_. v))) ps k) = system_uptime k"
  by (induction ps arbitrary: k) auto

lemma fold_priority_procs:
  "procs (fold (\<lambda>p. upd_proc p (p_priority_update (\<lambda>_. v))) ps k) q =
     (if q \<in> set ps then (procs k q)\<lparr>p_priority := v\<rparr> else procs k q)"
  by (induction ps arbitrary: k) auto

lemma timer_inv_cong:
  "timers c' = timers c \<Longrightarrow> pending_timers c' = pending_timers c \<Longrightarrow> next_timeout c' = next_timeout c \<Longrightarrow>
   timer_inv c' xs = timer_inv c xs"
  by (simp add: timer_inv_def tnext_def [abs_def] due_def [abs_def] inuse_def [abs_def])

lemma uptime_later: "u < TIMER_NEVER \<Longrightarrow> \<not> u + REBALANCE_TIMEOUT \<le> u"
  unfolding word_less_nat_alt word_le_nat_alt by (simp add: unat_word_ariths)

lemma rebalance_run:
  assumes "timer_inv k xs" "calm k" "system_uptime k < TIMER_NEVER"
  shows "\<exists>k' xs'. rebalance_queues n t k = Some k' \<and> timer_inv k' xs' \<and> calm k' \<and> system_uptime k' = system_uptime k \<and>
     due_now k' xs' \<subseteq> due_now k xs \<and> (\<forall>p. 1 \<le> p \<and> p \<le> 9 \<and> IS_INUSE k p \<longrightarrow> p_priority (procs k' p) = DEFAULT_PRIORITY)"
proof -
  define k1 where "k1 = fold (\<lambda>p. upd_proc p (p_priority_update (\<lambda>_. DEFAULT_PRIORITY))) (foreach_proc k) k"
  note s = fold_priority_simps [of DEFAULT_PRIORITY "foreach_proc k" k, folded k1_def]
  note pr = fold_priority_procs [of DEFAULT_PRIORITY "foreach_proc k" k, folded k1_def]
  have inv1: "timer_inv k1 xs" using assms(1) timer_inv_cong [OF s(3-5)] by simp
  have all: "p_priority (procs k1 p) = DEFAULT_PRIORITY" if "1 \<le> p \<and> p \<le> 9 \<and> IS_INUSE k p" for p
    using that by (simp add: pr foreach_proc_def del: upto_rec_numeral)
  have "rq_inv k1 qs = rq_inv k qs" for qs by (rule rq_inv_cong [OF s(1,2)])
  moreover have "p_state (procs k1 p) = p_state (procs k p)" "IS_INUSE k1 p = IS_INUSE k p" for p
    by (simp_all add: pr IS_INUSE_def)
  moreover have "IS_PRIORITY_OK (p_priority (procs k1 p))" for p
    using assms(2) by (simp add: pr calm_def IS_PRIORITY_OK_def)
  ultimately have calm1: "calm k1" using assms(2) by (simp add: calm_def s(3) inuse_def)
  have dn: "due_now k1 xs = due_now k xs" by (simp add: due_now_def due_def s)
  have e: "rebalance_queues n t k = do { (k, _) \<leftarrow> new_timer SYSTEM SchedTimer REBALANCE_TIMEOUT Rebalance_queues k1; Some k }"
    by (simp add: rebalance_queues_def Let_def k1_def)
  show ?thesis
  proof (cases "SchedTimer \<in> set xs")
    case True
    then have "inuse k1 SchedTimer" using inv1 by (simp add: timer_inv_def)
    then have "rebalance_queues n t k = Some k1" using new_timer_refused [of REBALANCE_TIMEOUT k1 SchedTimer] by (simp add: e)
    with inv1 calm1 dn all s(6) show ?thesis by auto
  next
    case False
    from new_timer_run [OF inv1 False, of REBALANCE_TIMEOUT SYSTEM Rebalance_queues]
    obtain c' where c': "new_timer SYSTEM SchedTimer REBALANCE_TIMEOUT Rebalance_queues k1 = Some (c', 0)"
      "timer_inv c' (timed_insert (due c') SchedTimer xs)" "due c' = (due k1)(SchedTimer := system_uptime k1 + REBALANCE_TIMEOUT)"
      "system_uptime c' = system_uptime k1" "clock.more c' = clock.more k1" "tm_handler (timers c' SchedTimer) = Rebalance_queues"
      "\<forall>u. u \<noteq> SchedTimer \<longrightarrow> tm_handler (timers c' u) = tm_handler (timers k1 u)" by auto
    note m = more_fields [OF c'(5)]
    have "calm c'"
    proof (rule calm_cong [OF calm1 m(1,2)])
      fix t assume "inuse c' t"
      then have "t = SchedTimer \<or> inuse k1 t" using c'(2) inv1 by (auto simp: timer_inv_def)
      then show "tm_handler (timers c' t) = Rebalance_queues \<or> tm_handler (timers c' t) = Wakeup_process"
        using c'(6,7) calm1 by (cases "t = SchedTimer") (auto simp: calm_def)
    qed
    moreover have "due_now c' (timed_insert (due c') SchedTimer xs) \<subseteq> due_now k xs"
      using c'(3,4) uptime_later [OF assms(3)] by (auto simp: due_now_def s(6) due_def s(3))
    ultimately show ?thesis using c'(1,2,4) m(1) all s(6) by (auto simp: e)
  qed
qed

text \<open>What a notification leaves alone.\<close>

definition clock_frame :: "'a kernel_scheme \<Rightarrow> 'a kernel_scheme \<Rightarrow> bool" where
  "clock_frame k k' \<longleftrightarrow> timers k' = timers k \<and> pending_timers k' = pending_timers k \<and> next_timeout k' = next_timeout k \<and>
     system_uptime k' = system_uptime k \<and> (\<forall>p. p_priority (procs k' p) = p_priority (procs k p) \<and> IS_INUSE k' p = IS_INUSE k p)"

lemma clock_frame_refl [simp]: "clock_frame k k" by (simp add: clock_frame_def)

lemma clock_frame_trans: "clock_frame k1 k2 \<Longrightarrow> clock_frame k2 k3 \<Longrightarrow> clock_frame k1 k3"
  by (simp add: clock_frame_def)

lemma clock_frame_strip: assumes "strip k' = strip k" shows "clock_frame k k'"
proof -
  have "timers (strip k') = timers (strip k)" "pending_timers (strip k') = pending_timers (strip k)"
    "next_timeout (strip k') = next_timeout (strip k)" "system_uptime (strip k') = system_uptime (strip k)"
    by (simp_all only: assms)
  then show ?thesis by (simp add: clock_frame_def IS_INUSE_def strip_fields [OF assms]) (simp add: strip_def)
qed

lemma clock_frame_upd:
  "p_priority (f (procs k p)) = p_priority (procs k p) \<Longrightarrow>
   has_flag (p_flags (f (procs k p))) IN_USE = has_flag (p_flags (procs k p)) IN_USE \<Longrightarrow> clock_frame k (upd_proc p f k)"
  by (simp add: clock_frame_def IS_INUSE_def)

lemma clock_frame_mem [simp]: "clock_frame k (upd_mem f k)"
  by (simp add: clock_frame_def IS_INUSE_def upd_mem_def)

lemma clock_frame_reply: "clock_frame k (fst (set_syscall_reply who r n k))"
  by (simp add: set_syscall_reply_def Let_def set_reg0_def clock_frame_def IS_INUSE_def upd_mem_def upd_proc_def)

lemma enqueue_head_strip: "enqueue_head i p k = Some k' \<Longrightarrow> strip k' = strip k"
  by (auto simp: enqueue_head_def split: if_splits)

lemma do_notify_frame:
  assumes "do_notify src d m k = Some (k', r)"
  shows "clock_frame k k'"
proof -
  let ?k1 = "upd_proc d (p_flags_update (\<lambda>f. clear_flag f DIRECT_SYSCALL)) k"
  let ?k2 = "fst (set_syscall_reply d (kmem ?k1 (reply_res m)) (kmem ?k1 (m_type m)) ?k1)"
  let ?k3 = "upd_mem (copy_message (p_message (procs ?k2 d)) m) ?k2"
  let ?k4 = "upd_proc d (p_state_update (\<lambda>s. clear_flag s STATE_RECEIVING)) ?k3"
  have "clock_frame k ?k1" by (rule clock_frame_upd) (simp_all add: has_flag_clear_other)
  then have "clock_frame k ?k4"
    by (rule clock_frame_trans [OF clock_frame_trans [OF clock_frame_trans]])
      (rule clock_frame_reply clock_frame_mem clock_frame_upd; simp)+
  then have deliver: "clock_frame k k''" if "k'' = ?k4 \<or> enqueue_head i d ?k4 = Some k''" for k'' i
    using that by (auto dest!: enqueue_head_strip clock_frame_strip intro: clock_frame_trans)
  show ?thesis
    using assms deliver
    by (auto simp: do_notify_def Let_def bind_eq_Some_conv clock_frame_upd split: option.splits if_splits)
qed

text \<open>
  A reply always returns in a state whose queues hold runnable processes only, and wakes exactly the
  addressed process, when it waits for a message.
\<close>

definition rested :: "'a kernel_scheme \<Rightarrow> bool" where
  "rested k \<longleftrightarrow> (\<exists>qs. rq_inv k qs \<and> (\<forall>p. queued qs p \<longrightarrow> p_state (procs k p) = STATE_RUNNABLE)) \<and>
     (\<forall>p. IS_PRIORITY_OK (p_priority (procs k p))) \<and> IS_INUSE k SYSTEM"

lemma calm_rested: "calm k \<longleftrightarrow> rested k \<and>
     (\<forall>t. inuse k t \<longrightarrow> tm_handler (timers k t) = Rebalance_queues \<or> tm_handler (timers k t) = Wakeup_process)"
  by (auto simp: calm_def rested_def)

definition woken_by_reply :: "int \<Rightarrow> 'a kernel_scheme \<Rightarrow> bool" where
  "woken_by_reply n k \<longleftrightarrow> IS_PROCN_OK n \<and> IS_INUSE k n \<and> p_state (procs k n) = STATE_RECEIVING"

lemma syscall_reply2_frame:
  assumes "syscall_reply2 num r n m k = Some (k', e)"
  shows "clock_frame k k'"
  using assms by (auto simp: syscall_reply2_def dest!: do_notify_frame intro: clock_frame_trans [OF clock_frame_mem] clock_frame_trans
      split: option.splits)

lemma syscall_reply2_queues:
  assumes "rested k"
  shows "\<exists>k' e qs. syscall_reply2 num r n m k = Some (k', e) \<and> rq_inv k' qs \<and>
     (\<forall>p. queued qs p \<longrightarrow> p_state (procs k' p) = STATE_RUNNABLE) \<and>
     (\<forall>q. p_state (procs k' q) = (if q = n \<and> woken_by_reply n k then STATE_RUNNABLE else p_state (procs k q)))"
proof -
  obtain qs where qs: "rq_inv k qs" "\<forall>p. queued qs p \<longrightarrow> p_state (procs k p) = STATE_RUNNABLE"
    using assms by (auto simp: rested_def)
  consider (out) "get_proc k n = None" | (woken) "get_proc k n = Some n" "woken_by_reply n k"
    | (busy) "get_proc k n = Some n" "p_state (procs k n) \<noteq> STATE_RECEIVING"
    by (cases "IS_PROCN_OK n \<and> IS_INUSE k n") (auto simp: get_proc_def woken_by_reply_def)
  then show ?thesis
  proof cases
    case out
    then have "syscall_reply2 num r n m k = Some (k, - ESRCH)" "\<not> woken_by_reply n k"
      by (auto simp: syscall_reply2_def woken_by_reply_def get_proc_def split: if_splits)
    with qs show ?thesis by auto
  next
    case woken
    define i where "i = p_priority (procs k n)"
    have i: "IS_PRIORITY_OK i" using assms by (simp add: rested_def i_def)
    have w: "IS_PROCN_OK n" "IS_INUSE k n" "p_state (procs k n) = STATE_RECEIVING" using woken(2) by (auto simp: woken_by_reply_def)
    have nq: "\<not> queued qs n" using qs(2) w(3) by auto
    from syscall_reply2_run [OF w qs(1) nq i_def i, of num r m]
    obtain k' where k': "syscall_reply2 num r n m k = Some (k', 0)" "p_state (procs k' n) = STATE_RUNNABLE"
      "rq_inv k' (qs(i := n # qs i))" "\<forall>q. q \<noteq> n \<longrightarrow> p_state (procs k' q) = p_state (procs k q)" by blast
    have "p_state (procs k' q) = STATE_RUNNABLE" if "queued (qs(i := n # qs i)) q" for q
      using that k'(2,4) qs(2) i by (cases "q = n") (auto simp: queued_def split: if_splits)
    moreover have "\<forall>q. p_state (procs k' q) = (if q = n \<and> woken_by_reply n k then STATE_RUNNABLE else p_state (procs k q))"
      using k'(2,4) woken(2) by auto
    ultimately show ?thesis using k'(1,3) by blast
  next
    case busy
    let ?k1 = "upd_mem (\<lambda>mm. mm(reply_res m := r)) (upd_mem (\<lambda>mm. mm(m_type m := num)) k)"
    have sys: "get_proc k SYSTEM = Some SYSTEM" using assms by (simp add: rested_def IS_PROCN_OK_def)
    have rq: "rq_inv (upd_proc SYSTEM (p_message_update g) ?k1) qs" "rq_inv ?k1 qs" for g
      using qs(1) rq_inv_cong [of "upd_proc SYSTEM (p_message_update g) ?k1" k] rq_inv_cong [of ?k1 k] by simp_all
    define k' where "k' = (if has_flag (p_state (procs k n)) STATE_ZOMBIE then ?k1
      else if IS_USER_PROC ?k1 SYSTEM then upd_proc SYSTEM (p_message_update (\<lambda>_. m)) ?k1 else ?k1)"
    have e: "syscall_reply2 num r n m k = Some (k', if has_flag (p_state (procs k n)) STATE_ZOMBIE then - EINVAL else 0)"
      by (simp add: syscall_reply2_def do_notify_def sys k'_def busy)
    have "rq_inv k' qs" "\<And>q. p_state (procs k' q) = p_state (procs k q)" using rq by (simp_all add: k'_def)
    with e qs(2) busy(2) show ?thesis by (auto simp: woken_by_reply_def)
  qed
qed

lemma syscall_reply2_total:
  assumes "rested k"
  obtains k' e where "syscall_reply2 num r n m k = Some (k', e)" "rested k'" "clock_frame k k'"
    "\<And>q. p_state (procs k' q) = (if q = n \<and> woken_by_reply n k then STATE_RUNNABLE else p_state (procs k q))"
proof -
  from syscall_reply2_queues [OF assms] obtain k' e qs where k': "syscall_reply2 num r n m k = Some (k', e)" "rq_inv k' qs"
    "\<forall>p. queued qs p \<longrightarrow> p_state (procs k' p) = STATE_RUNNABLE"
    "\<forall>q. p_state (procs k' q) = (if q = n \<and> woken_by_reply n k then STATE_RUNNABLE else p_state (procs k q))" by blast
  have "clock_frame k k'" by (rule syscall_reply2_frame [OF k'(1)])
  moreover from this have "rested k'" using assms k'(2,3) by (auto simp: rested_def clock_frame_def)
  ultimately show thesis using that k'(1,4) by blast
qed

lemma syscall_reply2_ids:
  assumes "syscall_reply2 n r d m k = Some (k', e)"
  shows "p_pid (procs k' q) = p_pid (procs k q) \<and> p_proc_nr (procs k' q) = p_proc_nr (procs k q)"
proof -
  have e: "p_pid (procs k2 q) = p_pid (procs k1 q) \<and> p_proc_nr (procs k2 q) = p_proc_nr (procs k1 q)"
    if "enqueue_head i p k1 = Some k2" for k1 k2 :: "'a kernel_scheme" and i p
    using strip_field [OF enqueue_head_strip [OF that], of p_pid q] strip_field [OF enqueue_head_strip [OF that], of p_proc_nr q] by simp
  show ?thesis
    using assms
    by (auto simp: syscall_reply2_def do_notify_def set_syscall_reply_def set_reg0_def Let_def bind_eq_Some_conv
        dest!: e split: option.splits if_splits)
qed

text \<open>The tables of the file system and the pages are not touched by a reply.\<close>

definition file_frame :: "'a kernel_scheme \<Rightarrow> 'a kernel_scheme \<Rightarrow> bool" where
  "file_frame k k' \<longleftrightarrow> filps k' = filps k \<and> inodes k' = inodes k \<and> kmm k' = kmm k \<and> ktmp_mesg k' = ktmp_mesg k \<and>
     kernel.more k' = kernel.more k"

lemma file_frame_strip: "strip k' = strip k \<Longrightarrow> file_frame k k'"
  unfolding file_frame_def
  by (intro conjI; drule arg_cong [where f = filps] arg_cong [where f = inodes] arg_cong [where f = kmm]
        arg_cong [where f = ktmp_mesg] arg_cong [where f = kernel.more], simp add: strip_def)

lemma syscall_reply2_file_frame:
  assumes "syscall_reply2 n r d m k = Some (k', e)"
  shows "file_frame k k'"
proof -
  have e: "file_frame k1 k2" if "enqueue_head i p k1 = Some k2" for k1 k2 :: "'a kernel_scheme" and i p
    by (rule file_frame_strip [OF enqueue_head_strip [OF that]])
  have s: "file_frame k0 (upd_proc p f k1) = file_frame k0 k1" "file_frame k0 (upd_mem g k1) = file_frame k0 k1" 
    "file_frame (upd_proc p f k1) k0 = file_frame k1 k0" "file_frame (upd_mem g k1) k0 = file_frame k1 k0" "file_frame k0 k0"
    for k0 k1 :: "'a kernel_scheme" and p f g
    by (simp_all add: file_frame_def upd_proc_def upd_mem_def)
  show ?thesis
    using assms
    by (auto simp: syscall_reply2_def do_notify_def set_syscall_reply_def set_reg0_def Let_def bind_eq_Some_conv s
        dest!: e split: option.splits if_splits)
qed

lemma wakeup_run:
  assumes "calm k"
  shows "\<exists>k'. wakeup_process n t k = Some k' \<and> clock_frame k k' \<and> calm k'"
proof (cases "get_proc k n")
  case None
  with assms show ?thesis by (simp add: wakeup_process_def)
next
  case (Some p)
  have "rested k" using assms by (simp add: calm_rested)
  then obtain k' r where k': "syscall_reply2 NANOSLEEP 0 n (ktmp_mesg k) k = Some (k', r)" "rested k'" "clock_frame k k'"
    by (rule syscall_reply2_total)
  then have "calm k'" using assms by (simp add: calm_rested clock_frame_def inuse_def)
  moreover have "wakeup_process n t k = Some k'" unfolding wakeup_process_def Some using k'(1) by simp
  ultimately show ?thesis using k'(3) by blast
qed

lemma call_handler_ok:
  assumes "timer_inv k (t # xs)" "calm k" "system_uptime k < TIMER_NEVER" "dequeue_alarm k = Some (k1, t)"
  shows "\<exists>k' xs'. call_handler fops_close (tm_handler (timers k1 t)) (tm_proc_nr (timers k1 t)) (tm_time_out (timers k1 t)) k1 = Some k' \<and>
     timer_inv k' xs' \<and> calm k' \<and> system_uptime k' = system_uptime k \<and> due_now k' xs' \<subseteq> due_now k1 xs"
proof -
  have k1: "timer_inv k1 xs" "same_owner k k1" using dequeue_alarm_run [OF assms(1)] assms(4) by auto
  then have up: "system_uptime k1 = system_uptime k" and more: "clock.more k1 = clock.more k"
    and h: "\<And>u. tm_handler (timers k1 u) = tm_handler (timers k u)" by (auto simp: same_owner_def)
  have "inuse k u" if "inuse k1 u" for u using that k1(1) assms(1) by (simp add: timer_inv_def)
  then have calm1: "calm k1" using assms(2) h
    by (intro calm_cong [OF assms(2) more_fields(1) [OF more] more_fields(2) [OF more]]) (simp add: calm_def)
  have "inuse k t" using assms(1) by (simp add: timer_inv_def)
  then consider "tm_handler (timers k1 t) = Rebalance_queues" | "tm_handler (timers k1 t) = Wakeup_process"
    using assms(2) h by (auto simp: calm_def)
  then show ?thesis
  proof cases
    case 1
    have "system_uptime k1 < TIMER_NEVER" using assms(3) up by simp
    from rebalance_run [OF k1(1) calm1 this] 1 up show ?thesis by (fastforce simp: call_handler_def)
  next
    case 2
    from wakeup_run [OF calm1] obtain k' where
      k': "wakeup_process (tm_proc_nr (timers k1 t)) (tm_time_out (timers k1 t)) k1 = Some k'" "clock_frame k1 k'" "calm k'" by blast
    have "timer_inv k' xs" "due_now k' xs = due_now k1 xs"
      using k1(1) k'(2) timer_inv_cong [of k' k1 xs] by (auto simp: clock_frame_def due_now_def due_def)
    with 2 k' up show ?thesis by (auto simp: call_handler_def clock_frame_def)
  qed
qed

interpretation ticks: tick_handlers "call_handler fops_close" calm
  by unfold_locales (rule call_handler_ok)

section \<open>Choosing a process\<close>

lemma pick_from_run:
  assumes "rq_inv k qs" "IS_PRIORITY_OK i" "qs i = p # xs" "i \<le> j" "j \<le> 4" "\<forall>l. i < l \<and> l \<le> j \<longrightarrow> qs l = []"
  shows "\<exists>k'. pick_from j k = Some (k', p) \<and> rq_inv k' (qs(i := xs)) \<and> strip k' = strip k"
  using assms(4-6)
proof (induction "nat (j - i)" arbitrary: j)
  case 0
  then have "j = i" by simp
  then show ?case using dequeue_run [OF assms(1-3)] assms(2)
    by (subst pick_from.simps) (auto simp: IS_PRIORITY_OK_def)
next
  case (Suc n)
  then have j: "i < j" "i \<le> j - 1" "n = nat (j - 1 - i)" "IS_PRIORITY_OK j" using assms(2) by (auto simp: IS_PRIORITY_OK_def)
  have "dequeue j k = Some (k, None)" using dequeue_empty [OF assms(1) j(4)] Suc.prems j(1) by simp
  moreover have "\<exists>k'. pick_from (j - 1) k = Some (k', p) \<and> rq_inv k' (qs(i := xs)) \<and> strip k' = strip k"
    using Suc.hyps(1) [OF j(3,2)] Suc.prems by simp
  ultimately show ?case using j(4) by (subst pick_from.simps) (auto simp: IS_PRIORITY_OK_def)
qed

text \<open>The queues after the interrupted process has been put back.\<close>

definition requeued :: "'a kernel_scheme \<Rightarrow> int \<Rightarrow> (int \<Rightarrow> int list) \<Rightarrow> int \<Rightarrow> int list" where
  "requeued k c qs =
     (let i = p_priority (procs k c) in
      if p_state (procs k c) \<noteq> STATE_RUNNABLE then qs
      else if p_ticks_left (procs k c) > 0 then qs(i := c # qs i)
      else let i' = (if IS_USER_PROC k c \<and> i > MIN_PRIORITY then i - 1 else i) in qs(i' := qs i' @ [c]))"

definition same_procs :: "'a kernel_scheme \<Rightarrow> 'a kernel_scheme \<Rightarrow> bool" where
  "same_procs k k' \<longleftrightarrow> (\<forall>p. (procs k' p)\<lparr>p_next := None, p_priority := 0\<rparr> = (procs k p)\<lparr>p_next := None, p_priority := 0\<rparr>)"

lemma same_procs_strip: "strip k' = strip k \<Longrightarrow> same_procs k k'"
  unfolding same_procs_def by (metis (no_types, lifting) proc.surjective proc.update_convs strip_proc)

lemma same_procs_field:
  assumes "same_procs k k'" and f: "\<And>r. f (r\<lparr>p_next := None, p_priority := 0\<rparr>) = f r"
  shows "f (procs k' p) = f (procs k p)"
  using assms(1) f [of "procs k' p"] f [of "procs k p"] by (metis same_procs_def)

lemma requeue_curr_run:
  assumes "rq_inv k qs" "curr_scheduling_proc k = Some c" "\<not> queued qs c" "IS_PRIORITY_OK (p_priority (procs k c))"
  shows "\<exists>k'. requeue_curr k = Some k' \<and> rq_inv k' (requeued k c qs) \<and> same_procs k k'"
proof -
  let ?i = "p_priority (procs k c)"
  define k1 where "k1 = (if IS_USER_PROC k c \<and> ?i > MIN_PRIORITY then upd_proc c (p_priority_update (\<lambda>i. i - 1)) k else k)"
  define i' where "i' = (if IS_USER_PROC k c \<and> ?i > MIN_PRIORITY then ?i - 1 else ?i)"
  have k1: "rq_inv k1 qs" "p_priority (procs k1 c) = i'" "IS_PRIORITY_OK i'" "same_procs k k1"
    using assms(1,4) rq_inv_cong [of k1 k qs]
    by (auto simp: k1_def i'_def IS_PRIORITY_OK_def same_procs_def)
  consider "p_state (procs k c) \<noteq> 0" | "p_state (procs k c) = 0" "p_ticks_left (procs k c) > 0"
    | "p_state (procs k c) = 0" "p_ticks_left (procs k c) \<le> 0" by linarith
  then show ?thesis
  proof cases
    case 1
    with assms(1,2) show ?thesis by (simp add: requeue_curr_def requeued_def Let_def same_procs_def)
  next
    case 2
    with enqueue_head_run [OF assms(1,4,3)] assms(2) show ?thesis
      by (auto simp: requeue_curr_def requeued_def Let_def dest: same_procs_strip)
  next
    case 3
    obtain k' where "enqueue_tail i' c k1 = Some k'" "rq_inv k' (qs(i' := qs i' @ [c]))" "strip k' = strip k1"
      using enqueue_tail_run [OF k1(1,3) assms(3)] by blast
    moreover have "requeue_curr k = enqueue_tail i' c k1"
      using 3 assms(2) k1(2) by (simp add: requeue_curr_def Let_def flip: k1_def)
    moreover have "same_procs k k'" if "strip k' = strip k1" for k'
      using same_procs_strip [OF that] k1(4) by (simp add: same_procs_def)
    ultimately show ?thesis using 3 by (auto simp: requeued_def Let_def i'_def)
  qed
qed

section \<open>Properties\<close>

text \<open>
  C24. The scheduler runs the first process of the highest non-empty ready queue. The interrupted
  process, if still runnable, is first put back: at the head of its queue while it has time
  left, otherwise at the tail of the next lower queue (a user process) or of its own. The
  chosen process leaves its queue, gets a full quantum if it has no time left, and the other
  queues are untouched. The choice holds for a process with no signal to take.
\<close>

theorem sched_picks:
  assumes "rq_inv k qs" "curr_scheduling_proc k = Some c" "\<not> queued qs c" "IS_PRIORITY_OK (p_priority (procs k c))"
    and "IS_PRIORITY_OK i" "requeued k c qs i = p # xs" "\<forall>j. i < j \<and> j \<le> MAX_PRIORITY \<longrightarrow> requeued k c qs j = []"
    and "p_state (procs k p) = STATE_RUNNABLE" "is_sigpending k p = 0"
  shows "\<exists>k'. sched fops_close k = Some k' \<and> curr_scheduling_proc k' = Some p \<and> rq_inv k' ((requeued k c qs)(i := xs)) \<and>
     p_ticks_left (procs k' p) = (if p_ticks_left (procs k p) \<le> 0 then p_quantum (procs k p) else p_ticks_left (procs k p)) \<and>
     p_state (procs k' p) = STATE_RUNNABLE \<and> p_ctx (procs k' p) = p_ctx (procs k p) \<and> irq_count k' = 0"
proof -
  obtain k1 where k1: "requeue_curr k = Some k1" "rq_inv k1 (requeued k c qs)" "same_procs k k1"
    using requeue_curr_run [OF assms(1-4)] by blast
  have "i \<le> 4" using assms(5) by (simp add: IS_PRIORITY_OK_def)
  with pick_from_run [OF k1(2) assms(5,6), of MAX_PRIORITY] assms(7)
  obtain k2 where k2: "pick_proc k1 = Some (k2, p)" "rq_inv k2 ((requeued k c qs)(i := xs))" "strip k2 = strip k1"
    by (auto simp: pick_proc_def)
  define k3 where "k3 = k2\<lparr>curr_scheduling_proc := Some p\<rparr>"
  have same: "same_procs k k2" using same_procs_strip [OF k2(3)] k1(3) by (simp add: same_procs_def)
  have f: "p_state (procs k2 p) = p_state (procs k p)" "p_sig_pending (procs k2 p) = p_sig_pending (procs k p)"
    "p_sig_mask (procs k2 p) = p_sig_mask (procs k p)" "p_ticks_left (procs k2 p) = p_ticks_left (procs k p)"
    "p_quantum (procs k2 p) = p_quantum (procs k p)" "p_ctx (procs k2 p) = p_ctx (procs k p)"
    by (rule same_procs_field [OF same], simp)+
  have "is_sigpending k3 p = 0" "p_state (procs k3 p) = 0"
    using assms(8,9) f by (simp_all add: k3_def is_sigpending_def)
  then have loop: "sched_loop fops_close k1 = Some (k3, p)"
    by (subst sched_loop.simps) (simp add: k2(1) flip: k3_def)
  define k4 where "k4 = (if p_ticks_left (procs k3 p) \<le> 0 then upd_proc p (\<lambda>r. r\<lparr>p_ticks_left := p_quantum r\<rparr>) k3 else k3)\<lparr>irq_count := 0\<rparr>"
  have "sched fops_close k = Some k4" by (simp add: sched_def k1(1) loop k4_def Let_def)
  moreover have "rq_inv k4 ((requeued k c qs)(i := xs))"
    using k2(2) rq_inv_cong [of k4 k2] by (auto simp: k4_def k3_def pnext_def fun_eq_iff)
  ultimately show ?thesis using f assms(8) by (auto simp: k4_def k3_def)
qed

theorem sched_picks_witness:
  "\<exists>k'. sched (\<lambda>_ k. Some (k, 0)) ((upd_proc 1 (p_state_update (\<lambda>_. 0)) kernel0)\<lparr>curr_scheduling_proc := Some 1\<rparr>) = Some k' \<and>
     curr_scheduling_proc k' = Some 1 \<and> p_ticks_left (procs k' 1) = DEFAULT_USER_QUANTUM"
proof -
  define k where "k = (upd_proc 1 (p_state_update (\<lambda>_. 0)) kernel0)\<lparr>curr_scheduling_proc := Some 1\<rparr>"
  have "pnext k = pnext kernel0" "ready_q k = ready_q kernel0" by (simp_all add: k_def pnext_def fun_eq_iff)
  then have inv: "rq_inv k (\<lambda>_. [])" using kernel0_rq rq_inv_cong by blast
  have f: "p_state (procs k 1) = 0" "p_ticks_left (procs k 1) = 0" "p_quantum (procs k 1) = 8" "p_priority (procs k 1) = 3"
    "\<not> IS_USER_PROC k 1" "is_sigpending k 1 = 0"
    by (simp_all add: k_def kernel0_procs IS_PROCN_OK_def proc_default_def proc_zero_def IS_USER_PROC_def is_sigpending_def)
  have "requeued k 1 (\<lambda>_. []) = (\<lambda>_. [])(3 := [1])" using f by (simp add: requeued_def)
  with sched_picks [OF inv, of 1 3 1 "[]" "\<lambda>_ k. Some (k, 0)"] f show ?thesis
    by (auto simp: k_def queued_def IS_PRIORITY_OK_def)
qed

text \<open>
  C25. The tick loop ends when no alarm is armed: if every armed timer is the scheduler's or that of a
  sleeping process and the ready queues are in order, calling the handlers of all the timers that are
  due returns, keeps the pending list and the ready queues in order, and leaves no timer due. An
  alarm is excluded because its default action can unlink the last process of a ready queue and
  leave the tail of the queue behind.
\<close>

theorem do_ticks_ends:
  assumes "timer_inv k xs" "orderly k" "\<forall>t. inuse k t \<longrightarrow> tm_handler (timers k t) \<in> {Rebalance_queues, Wakeup_process}" "system_uptime k < TIMER_NEVER"
  shows "\<exists>k' xs'. do_ticks (call_handler fops_close) k = Some k' \<and> timer_inv k' xs' \<and> orderly k' \<and>
     (\<forall>t. inuse k' t \<longrightarrow> tm_handler (timers k' t) \<in> {Rebalance_queues, Wakeup_process}) \<and>
     system_uptime k' = system_uptime k \<and> system_uptime k < next_timeout k' \<and> due_now k' xs' = {}"
  using ticks.do_ticks_returns [OF assms(1) _ assms(4), of fops_close] assms(2,3) unfolding calm_iff by blast

theorem do_ticks_ends_witness:
  "\<exists>k k'. system_uptime (k :: kernel) = 36 \<and> next_timeout k = 36 \<and> do_ticks (call_handler (\<lambda>_ k. Some (k, 0))) k = Some k' \<and>
     36 < next_timeout k'"
proof -
  define k where "k = (upd_proc SYSTEM (p_flags_update (\<lambda>_. IN_USE)) kernel0)\<lparr>timers := timers clock_boot,
    pending_timers := Some SchedTimer, next_timeout := 36, system_uptime := 36\<rparr>"
  have "timer_inv k [SchedTimer]" using clock_boot_inv
    by (auto simp: timer_inv_def k_def first_due_def due_def tnext_def inuse_def fun_eq_iff clock_boot_def)
  moreover have "pnext k = pnext kernel0" "ready_q k = ready_q kernel0" by (simp_all add: k_def pnext_def fun_eq_iff)
  then have "rq_inv k (\<lambda>_. [])" using kernel0_rq rq_inv_cong by blast
  then have "calm k" unfolding calm_def
    by (auto simp: queued_def k_def kernel0_procs IS_PRIORITY_OK_def IS_INUSE_def has_flag_def inuse_def clock_boot_def
        proc_default_def proc_zero_def split: if_splits intro!: exI [of _ "\<lambda>_. []"])
  ultimately have "\<exists>k' xs'. do_ticks (call_handler (\<lambda>_ k. Some (k, 0))) k = Some k' \<and> system_uptime k < next_timeout k'"
    using do_ticks_ends [of k "[SchedTimer]" "\<lambda>_ k. Some (k, 0)"] unfolding calm_iff by (fastforce simp: k_def)
  moreover have "system_uptime k = 36" "next_timeout k = 36" by (simp_all add: k_def)
  ultimately show ?thesis by (metis (no_types, lifting))
qed

end
