(* ===== verification/Fork.thy ===== *)
theory Fork
  imports Sched
begin

text \<open>
  Creating processes and changing their memory: \<^verbatim>\<open>kernel/system/do_fork.c\<close>, \<^verbatim>\<open>do_brk.c\<close>,
  the loading of an executable's image in \<^verbatim>\<open>kernel/proc.c\<close>, \<^verbatim>\<open>dup_vm\<close> of
  \<^verbatim>\<open>winix/mm.c\<close>, and the small system calls that read or set identifiers. Copying a slot also
  copies the timer embedded in it. The two pipe list heads of a slot belong to the pipes and are
  left out here.
\<close>

abbreviation (input) FORK :: int where "FORK \<equiv> 3"
abbreviation (input) TFORK :: int where "TFORK \<equiv> 53"
abbreviation (input) WINIX_ELF_MAGIC :: int where "WINIX_ELF_MAGIC \<equiv> 0x19960503"

section \<open>Forking\<close>

definition user_get :: "int \<Rightarrow> int \<Rightarrow> int \<Rightarrow> 'a kernel_scheme \<Rightarrow> ('a kernel_scheme \<times> addr) option" where
  "user_get who len flags k =
     do { (m, pt, p) \<leftarrow> user_get_free_pages (kmm k) (p_protection_table (procs k who)) len flags;
          Some (upd_proc who (p_protection_table_update (\<lambda>_. pt)) (k\<lparr>kmm := m\<rparr>), p) }"

definition dup_vm :: "int \<Rightarrow> int \<Rightarrow> 'a kernel_scheme \<Rightarrow> ('a kernel_scheme \<times> addr) option" where
  "dup_vm parent child k =
     user_get child (p_heap_bottom (procs k parent) + 1 - p_mem_start (procs k parent)) GFP_NORM k"

definition copy_page :: "addr \<Rightarrow> addr \<Rightarrow> memory \<Rightarrow> memory" where
  "copy_page to from = memcpy to from PAGE_LEN"

text \<open>A word that points into the old stack is moved to the new one.\<close>

definition relocate :: "int \<Rightarrow> int \<Rightarrow> addr \<Rightarrow> addr \<Rightarrow> int \<Rightarrow> int" where
  "relocate vstack_top vstack_bottom new_stack rbase v =
     (let val = v mod 2 ^ 32 in
      if vstack_top \<le> val \<and> val < vstack_bottom then get_virtual_addr (val - vstack_top + new_stack) rbase else v)"

function relocate_stack :: "(int \<Rightarrow> int) \<Rightarrow> addr \<Rightarrow> addr \<Rightarrow> memory \<Rightarrow> memory" where
  "relocate_stack f stack_ptr stack_bottom m =
     (if stack_ptr < stack_bottom then relocate_stack f (stack_ptr + 1) stack_bottom (m(stack_ptr := f (m stack_ptr))) else m)"
  by pat_completeness auto
termination
  by (relation "measure (\<lambda>(f, p, b, m). nat (b - p))") auto

declare relocate_stack.simps [simp del]

definition copy_stack :: "int \<Rightarrow> int \<Rightarrow> 'a kernel_scheme \<Rightarrow> ('a kernel_scheme \<times> int) option" where
  "copy_stack parent child k =
     do { (k, new_stack) \<leftarrow> user_get child PAGE_LEN GFP_HIGH k;
          if new_stack = NULL then Some (release_zombie child k, - ENOMEM)
          else do {
            let k = upd_mem (copy_page new_stack (p_stack_top (procs k parent))) k;
            let rel = phys k (c_sp (p_ctx (procs k parent))) parent - p_stack_top (procs k parent);
            let sp = vaddr k (new_stack + rel) child;
            let k = upd_proc child (\<lambda>r. r\<lparr>p_ctx := (p_ctx r)\<lparr>c_sp := sp\<rparr>, p_stack_top := new_stack\<rparr>) k;
            let vir_old_stack = vaddr k (p_stack_top (procs k parent)) parent;
            let vstack_bottom = (vir_old_stack + p_stack_size (procs k parent)) mod 2 ^ 32;
            let f = relocate vir_old_stack vstack_bottom new_stack (c_rbase (p_ctx (procs k child)));
            let k = upd_mem (relocate_stack f new_stack (new_stack + p_stack_size (procs k child))) k;
            let k = upd_proc child (p_ctx_update (c_regs_update (map f))) k;
            (k, _) \<leftarrow> proc_memctl child vir_old_stack False k;
            Some (k, 0) } }"

definition count_files :: "int option list \<Rightarrow> (int \<Rightarrow> filp) \<Rightarrow> int \<Rightarrow> filp" where
  "count_files fds fs = fold (\<lambda>f fs. case f of None \<Rightarrow> fs
     | Some i \<Rightarrow> fs(i := (fs i)\<lparr>filp_count := filp_count (fs i) + 1\<rparr>)) fds fs"

definition copy_pcb :: "int \<Rightarrow> int \<Rightarrow> 'a kernel_scheme \<Rightarrow> 'a kernel_scheme" where
  "copy_pcb parent child k =
     (let r = procs k parent;
          k = upd_timer (ProcTimer child) (\<lambda>_. timers k (ProcTimer parent)) k;
          k = upd_proc child (\<lambda>c. r\<lparr>p_proc_nr := p_proc_nr c, p_pid := p_pid c, p_sig_pending := 0,
                p_ctx := (p_ctx r)\<lparr>c_ptable := child\<rparr>, p_time_used := 0, p_sys_time_used := 0\<rparr>) k
      in k\<lparr>filps := count_files (p_fp_filp (procs k child)) (filps k)\<rparr>)"

function copy_pages :: "addr \<Rightarrow> addr \<Rightarrow> addr \<Rightarrow> memory \<Rightarrow> memory" where
  "copy_pages src dest bottom m =
     (if src < bottom then copy_pages (src + PAGE_LEN) (dest + PAGE_LEN) bottom (copy_page dest src m) else m)"
  by pat_completeness auto
termination
  by (relation "measure (\<lambda>(src, d, b, m). nat (b - src))") auto

declare copy_pages.simps [simp del]

definition copy_mm :: "int \<Rightarrow> int \<Rightarrow> 'a kernel_scheme \<Rightarrow> ('a kernel_scheme \<times> int) option" where
  "copy_mm parent child k =
     do { (pt, _) \<leftarrow> bitmap_clear (p_protection_table (procs k child)) PTABLE_LEN;
          let k = upd_proc child (p_protection_table_update (\<lambda>_. pt)) k;
          (k, start) \<leftarrow> dup_vm parent child k;
          let k = upd_proc child (p_mem_start_update (\<lambda>_. start)) k;
          if start = NULL then Some (k, - ENOMEM)
          else do {
            let k = upd_proc child (\<lambda>r. r\<lparr>p_text_top := start, p_ctx := (p_ctx r)\<lparr>c_rbase := (start - p_rbase_offset r) mod 2 ^ 32\<rparr>\<rparr>) k;
            Some (upd_mem (copy_pages (p_mem_start (procs k parent)) start (p_heap_bottom (procs k parent))) k, 0) } }"

definition copy_pregs :: "int \<Rightarrow> int \<Rightarrow> 'a kernel_scheme \<Rightarrow> 'a kernel_scheme" where
  "copy_pregs parent child k =
     (let move = (\<lambda>a. phys k (vaddr k a parent) child) in
      upd_proc child (\<lambda>r. r\<lparr>p_message := move (p_message (procs k parent)),
         p_heap_break := move (p_heap_break (procs k parent)), p_heap_bottom := move (p_heap_bottom (procs k parent))\<rparr>) k)"

definition sys_fork :: "int \<Rightarrow> 'a kernel_scheme \<Rightarrow> ('a kernel_scheme \<times> int) option" where
  "sys_fork parent k =
     (case get_free_proc_slot k of
        (k, None) \<Rightarrow> Some (k, - EAGAIN)
      | (k, Some child) \<Rightarrow>
          do { let k = copy_pcb parent child k;
               (k, ret) \<leftarrow> copy_mm parent child k;
               if ret \<noteq> 0 then Some (release_zombie child k, ret)
               else do {
                 (k, ret) \<leftarrow> copy_stack parent child k;
                 if ret \<noteq> 0 then Some (release_zombie child k, ret)
                 else do {
                   let k = copy_pregs parent child k;
                   let k = upd_proc child (\<lambda>r. r\<lparr>p_time_used := 0, p_sys_time_used := 0,
                             p_parent := p_proc_nr (procs k parent), p_thread_parent := 0\<rparr>) k;
                   Some (k, p_proc_nr (procs k child)) } } })"

definition do_fork :: "int \<Rightarrow> addr \<Rightarrow> 'a kernel_scheme \<Rightarrow> ('a kernel_scheme \<times> int) option" where
  "do_fork who m k =
     do { (k, child_pr) \<leftarrow> sys_fork who k;
          if child_pr < 0 then Some (k, child_pr)
          else do { child \<leftarrow> get_proc k child_pr;
                    (k, _) \<leftarrow> syscall_reply2 FORK 0 child_pr m k;
                    (k, _) \<leftarrow> syscall_reply2 FORK (p_pid (procs k child)) (p_proc_nr (procs k who)) m k;
                    Some (k, DONTREPLY) } }"

definition do_vfork :: "int \<Rightarrow> addr \<Rightarrow> 'a kernel_scheme \<Rightarrow> ('a kernel_scheme \<times> int) option" where
  "do_vfork parent m k =
     (case get_free_proc_slot k of
        (k, None) \<Rightarrow> Some (k, - EAGAIN)
      | (k, Some child) \<Rightarrow>
          do { let k = copy_pcb parent child k;
               let k = upd_proc child (\<lambda>r. r\<lparr>p_parent := p_proc_nr (procs k parent), p_thread_parent := 0\<rparr>) k;
               (k, _) \<leftarrow> syscall_reply2 VFORK 0 (p_proc_nr (procs k child)) m k;
               Some (upd_proc parent (p_state_update (\<lambda>s. set_flag s STATE_VFORKING)) k, SUSPEND) })"

definition do_tfork :: "int \<Rightarrow> addr \<Rightarrow> 'a kernel_scheme \<Rightarrow> ('a kernel_scheme \<times> int) option" where
  "do_tfork parent m k =
     (case get_free_proc_slot k of
        (k, None) \<Rightarrow> Some (k, - EAGAIN)
      | (k, Some child) \<Rightarrow>
          do { let k = copy_pcb parent child k;
               let k = upd_proc child (\<lambda>r. r\<lparr>p_parent := p_proc_nr (procs k parent),
                         p_thread_parent := (if p_thread_parent (procs k parent) > 0 then p_thread_parent (procs k parent)
                                             else p_proc_nr (procs k parent))\<rparr>) k;
               (k, ret) \<leftarrow> copy_stack parent child k;
               if ret \<noteq> 0 then Some (k, ret)
               else do { (k, _) \<leftarrow> syscall_reply2 TFORK (p_pid (procs k child)) (p_proc_nr (procs k parent)) m k;
                         (k, _) \<leftarrow> syscall_reply2 TFORK 0 (p_proc_nr (procs k child)) m k;
                         Some (k, DONTREPLY) } })"

section \<open>The heap\<close>

definition sys_sbrk :: "int \<Rightarrow> int \<Rightarrow> 'a kernel_scheme \<Rightarrow> ('a kernel_scheme \<times> addr) option" where
  "sys_sbrk who sz k =
     (let r = procs k who;
          grow = (\<lambda>k. (upd_proc who (p_heap_break_update (\<lambda>b. ptr_add b sz)) k, ptr_add (p_heap_break r) sz)) in
      if sz = 0 then Some (k, p_heap_break r)
      else if sz < 0
      then if ptr_add (p_heap_break r) sz \<ge> p_heap_top r then Some (grow k) else Some (k, NULL)
      else let residual = p_heap_bottom r - p_heap_break r in
        if residual \<ge> sz then Some (grow k)
        else do { (m, pt, err) \<leftarrow> user_get_free_pages_from (kmm k) (p_protection_table r) (p_heap_bottom r + 1) (sz - residual);
                  let k = upd_proc who (p_protection_table_update (\<lambda>_. pt)) (k\<lparr>kmm := m\<rparr>);
                  if err \<noteq> 0 then Some (k, NULL)
                  else Some (grow (upd_proc who (p_heap_bottom_update (\<lambda>b. ptr_add b (align_page (sz - residual)))) k)) })"

definition do_sbrk :: "int \<Rightarrow> addr \<Rightarrow> 'a kernel_scheme \<Rightarrow> ('a kernel_scheme \<times> int) option" where
  "do_sbrk who m k =
     do { (k, ret) \<leftarrow> sys_sbrk who (kmem k (m1_i1 m)) k;
          Some (k, if ret = NULL then - ENOMEM else to_int (vaddr k ret who)) }"

definition do_brk :: "int \<Rightarrow> addr \<Rightarrow> 'a kernel_scheme \<Rightarrow> ('a kernel_scheme \<times> int) option" where
  "do_brk who m k =
     do { let va = kmem k (m1_p1 m);
          let a = phys k va who;
          let k = upd_mem (\<lambda>mem. mem(m1_p1 m := vaddr k (p_heap_break (procs k who)) who)) k;
          if a < p_heap_break (procs k who)
          then if a < p_heap_top (procs k who) then Some (k, - EINVAL)
               else Some (upd_mem (\<lambda>mem. mem(m1_p1 m := va)) (upd_proc who (p_heap_break_update (\<lambda>_. a)) k), 0)
          else do { (k, new_brk) \<leftarrow> sys_sbrk who (to_int (a - p_heap_break (procs k who))) k;
                    if new_brk = NULL then Some (k, - ENOMEM)
                    else Some (upd_mem (\<lambda>mem. mem(m1_p1 m := vaddr k new_brk who)) k, 0) } }"

section \<open>Loading an image\<close>

record winix_elf =
  elf_magic :: int
  elf_binary_pc :: int
  elf_binary_offset :: int
  elf_binary_size :: int
  elf_text_size :: int
  elf_data_size :: int
  elf_bss_size :: int

definition validate_welf :: "winix_elf \<Rightarrow> bool" where
  "validate_welf elf \<longleftrightarrow> elf_magic elf = WINIX_ELF_MAGIC \<and> elf_binary_size elf = (elf_text_size elf + elf_data_size elf) mod 2 ^ 32"

definition peek_mem_welf :: "mm \<Rightarrow> winix_elf \<Rightarrow> int \<Rightarrow> int \<Rightarrow> bool option" where
  "peek_mem_welf m elf stack_size heap_size =
     (let td_aligned = align_page (to_int (elf_binary_size elf + elf_bss_size elf))
      in map_option (\<lambda>i. i \<ge> 0) (peek_free_pages m (stack_size + td_aligned + heap_size) GFP_NORM))"

definition alloc_mem_welf :: "int \<Rightarrow> winix_elf \<Rightarrow> int \<Rightarrow> int \<Rightarrow> 'a kernel_scheme \<Rightarrow> ('a kernel_scheme \<times> int) option" where
  "alloc_mem_welf who elf stack_size heap_size k =
     (if \<not> validate_welf elf then Some (k, - EINVAL)
      else do {
        let td_aligned = align_page (to_int (elf_binary_size elf + elf_bss_size elf));
        (k, mem_start) \<leftarrow> user_get who (td_aligned + heap_size) GFP_NORM k;
        if mem_start = NULL then Some (k, - ENOMEM)
        else do {
          let k = upd_proc who (\<lambda>r. r\<lparr>p_ctx := (p_ctx r)\<lparr>c_rbase := (mem_start - elf_binary_offset elf) mod 2 ^ 32\<rparr>,
                    p_mem_start := mem_start, p_text_top := mem_start\<rparr>) k;
          (k, stack_top) \<leftarrow> user_get who stack_size GFP_HIGH k;
          let k = upd_mem (\<lambda>m. m(stack_top := STACK_MAGIC)) k;
          let sp = vaddr k (stack_top + stack_size - 1) who;
          let k = upd_mem (memset stack_top 0 stack_size) k;
          let bss_start = mem_start + elf_binary_size elf;
          let k = upd_mem (memset bss_start 0 (elf_bss_size elf)) k;
          let data_residual = td_aligned - to_int (elf_binary_size elf + elf_bss_size elf);
          let heap_top = bss_start + elf_bss_size elf;
          let k = upd_mem (memset heap_top 0 heap_size) k;
          Some (upd_proc who (\<lambda>r. r\<lparr>p_stack_top := stack_top, p_ctx := (p_ctx r)\<lparr>c_sp := sp\<rparr>,
                  p_heap_top := heap_top, p_heap_break := heap_top, p_heap_bottom := heap_top + heap_size + data_residual - 1,
                  p_data_size := elf_data_size elf, p_text_size := elf_text_size elf, p_bss_size := elf_bss_size elf,
                  p_rbase_offset := elf_binary_offset elf, p_stack_size := stack_size\<rparr>) k, 0) } })"

section \<open>Identifiers and times\<close>

definition do_getpid :: "int \<Rightarrow> addr \<Rightarrow> 'a kernel_scheme \<Rightarrow> 'a kernel_scheme \<times> int" where
  "do_getpid who m k = (upd_mem (\<lambda>mem. mem(m1_i2 m := p_parent (procs k who))) k, p_pid (procs k who))"

definition do_getppid :: "int \<Rightarrow> addr \<Rightarrow> 'a kernel_scheme \<Rightarrow> ('a kernel_scheme \<times> int) option" where
  "do_getppid who m k = map_option (\<lambda>p. (k, p_pid (procs k p))) (get_proc k (p_parent (procs k who)))"

definition do_getpgid :: "int \<Rightarrow> addr \<Rightarrow> 'a kernel_scheme \<Rightarrow> int" where
  "do_getpgid who m k =
     (let pid = kmem k (m1_i1 m) in
      if pid < 0 then - EINVAL
      else case get_proc_by_pid k (if pid = 0 then p_pid (procs k who) else pid) of
             None \<Rightarrow> - ESRCH | Some t \<Rightarrow> p_procgrp (procs k t))"

definition do_setpgid :: "int \<Rightarrow> addr \<Rightarrow> 'a kernel_scheme \<Rightarrow> 'a kernel_scheme \<times> int" where
  "do_setpgid who m k =
     (let pid = kmem k (m1_i1 m); pgid = kmem k (m1_i2 m) in
      if pid < 0 \<or> pgid < 0 then (k, - EINVAL)
      else case (if pid = 0 then Some who else get_proc_by_pid k pid) of
             None \<Rightarrow> (k, - ESRCH)
           | Some mp \<Rightarrow> (upd_proc mp (p_procgrp_update (\<lambda>_. if pgid = 0 then p_pid (procs k mp) else pgid)) k, 0))"

definition do_setsid :: "int \<Rightarrow> addr \<Rightarrow> 'a kernel_scheme \<Rightarrow> 'a kernel_scheme \<times> int" where
  "do_setsid who m k =
     (let pid = p_pid (procs k who) in
      if p_procgrp (procs k who) = pid then (k, - EPERM)
      else (upd_proc who (\<lambda>r. r\<lparr>p_session_id := pid, p_procgrp := pid\<rparr>) k, pid))"

definition do_sched_yield :: "int \<Rightarrow> addr \<Rightarrow> 'a kernel_scheme \<Rightarrow> 'a kernel_scheme \<times> int" where
  "do_sched_yield who m k = (upd_proc who (p_priority_update (\<lambda>i. if i = MIN_PRIORITY then MIN_PRIORITY else i - 1)) k, 0)"

definition do_sysconf :: "int \<Rightarrow> addr \<Rightarrow> 'a kernel_scheme \<Rightarrow> int" where
  "do_sysconf who m k = (if kmem k (m1_i1 m) = 3 then 60 else - EINVAL)"

definition do_times :: "int \<Rightarrow> addr \<Rightarrow> 'a kernel_scheme \<Rightarrow> ('a kernel_scheme \<times> int) option" where
  "do_times who m k =
     do { let vp = kmem k (m1_p1 m);
          let buf = ktmp_mesg k;
          (k, ret) \<leftarrow> (if vp \<noteq> NULL
             then do { (k, ret) \<leftarrow> copy_from_user who buf vp 4 k;
                       if ret < 0 then Some (k, ret)
                       else copy_to_user who vp buf 4 (upd_mem (\<lambda>mem. mem(buf := uint (p_time_used (procs k who)),
                              buf + 1 := uint (p_sys_time_used (procs k who)), buf + 3 := 0, buf + 2 := 0)) k) }
             else Some (k, 0));
          Some (k, if ret < 0 then ret else to_int (uint (get_uptime k))) }"

section \<open>What forking leaves alone\<close>

definition fork_frame :: "int \<Rightarrow> 'a kernel_scheme \<Rightarrow> 'a kernel_scheme \<Rightarrow> bool" where
  "fork_frame child k k' \<longleftrightarrow> (\<forall>q. q \<noteq> child \<longrightarrow> procs k' q = procs k q) \<and> ready_q k' = ready_q k \<and>
     (let r = procs k child; r' = procs k' child in
      p_state r' = p_state r \<and> p_flags r' = p_flags r \<and> p_priority r' = p_priority r \<and> p_pid r' = p_pid r \<and>
      p_proc_nr r' = p_proc_nr r \<and> p_next r' = p_next r \<and> length (c_regs (p_ctx r')) = length (c_regs (p_ctx r)))"

named_theorems fork_frames \<open>steps of a fork that change only the child's memory\<close>

lemma fork_frame_refl [simp, fork_frames]: "fork_frame c k k" by (simp add: fork_frame_def Let_def)

lemma fork_frame_trans: "fork_frame c k1 k2 \<Longrightarrow> fork_frame c k2 k3 \<Longrightarrow> fork_frame c k1 k3"
  by (simp add: fork_frame_def Let_def)

lemma fork_frame_mem [fork_frames]: "fork_frame c k (upd_mem f k)"
  by (simp add: fork_frame_def Let_def)

lemma fork_frame_kmm [fork_frames]: "fork_frame c k (k\<lparr>kmm := m\<rparr>)"
  by (simp add: fork_frame_def Let_def)

lemma fork_frame_upd:
  "p_state (f (procs k c)) = p_state (procs k c) \<Longrightarrow> p_flags (f (procs k c)) = p_flags (procs k c) \<Longrightarrow>
   p_priority (f (procs k c)) = p_priority (procs k c) \<Longrightarrow> p_pid (f (procs k c)) = p_pid (procs k c) \<Longrightarrow>
   p_proc_nr (f (procs k c)) = p_proc_nr (procs k c) \<Longrightarrow> p_next (f (procs k c)) = p_next (procs k c) \<Longrightarrow>
   length (c_regs (p_ctx (f (procs k c)))) = length (c_regs (p_ctx (procs k c))) \<Longrightarrow> fork_frame c k (upd_proc c f k)"
  by (simp add: fork_frame_def Let_def)

lemma user_get_frame:
  assumes "user_get c len flags k = Some (k', p)" shows "fork_frame c k k'"
proof -
  obtain pt m where "k' = upd_proc c (p_protection_table_update (\<lambda>_. pt)) (k\<lparr>kmm := m\<rparr>)"
    using assms by (auto simp: user_get_def bind_eq_Some_conv)
  then show ?thesis by (simp add: fork_frame_def Let_def)
qed

lemma proc_memctl_frame:
  assumes "proc_memctl c a b k = Some (k', r)" shows "fork_frame c k k'"
proof -
  obtain pt where "k' = upd_proc c (p_protection_table_update (\<lambda>_. pt)) k"
    using assms by (cases b) (auto simp: proc_memctl_def Let_def bind_eq_Some_conv)
  then show ?thesis by (simp add: fork_frame_upd)
qed

lemma copy_mm_frame:
  assumes "copy_mm parent c k = Some (k', r)"
  shows "fork_frame c k k'"
proof -
  obtain pt e where pt: "bitmap_clear (p_protection_table (procs k c)) PTABLE_LEN = Some (pt, e)"
    using assms by (auto simp: copy_mm_def bind_eq_Some_conv)
  define k0 where "k0 = upd_proc c (p_protection_table_update (\<lambda>_. pt)) k"
  obtain k1 start where k1: "dup_vm parent c k0 = Some (k1, start)"
    using assms pt by (auto simp: copy_mm_def bind_eq_Some_conv k0_def)
  define k2 where "k2 = upd_proc c (p_mem_start_update (\<lambda>_. start)) k1"
  define k3 where "k3 = upd_proc c (\<lambda>r. r\<lparr>p_text_top := start, p_ctx := (p_ctx r)\<lparr>c_rbase := (start - p_rbase_offset r) mod 2 ^ 32\<rparr>\<rparr>) k2"
  have "copy_mm parent c k = Some (if start = NULL then (k2, - ENOMEM)
     else (upd_mem (copy_pages (p_mem_start (procs k3 parent)) start (p_heap_bottom (procs k3 parent))) k3, 0))"
    using k1 unfolding copy_mm_def Let_def k0_def by (simp add: pt k2_def k3_def)
  then have k': "k' = k2 \<or> (\<exists>f. k' = upd_mem f k3)" using assms by (auto split: if_splits)
  have "fork_frame c k k0" "fork_frame c k1 k2" "fork_frame c k2 k3"
    unfolding k0_def k2_def k3_def by (rule fork_frame_upd; simp)+
  moreover have "fork_frame c k0 k1" using k1 by (simp add: dup_vm_def user_get_frame)
  ultimately show ?thesis using k' fork_frame_mem by (metis fork_frame_trans)
qed

lemma copy_stack_frame:
  assumes "copy_stack parent c k = Some (k', 0)"
  shows "fork_frame c k k'"
proof -
  obtain k1 new_stack where k1: "user_get c PAGE_LEN GFP_HIGH k = Some (k1, new_stack)" "new_stack \<noteq> NULL"
    using assms by (auto simp: copy_stack_def bind_eq_Some_conv split: if_splits)
  define k2 where "k2 = upd_mem (copy_page new_stack (p_stack_top (procs k1 parent))) k1"
  define sp where "sp = vaddr k2 (new_stack + (phys k2 (c_sp (p_ctx (procs k2 parent))) parent - p_stack_top (procs k2 parent))) c"
  define k3 where "k3 = upd_proc c (\<lambda>r. r\<lparr>p_ctx := (p_ctx r)\<lparr>c_sp := sp\<rparr>, p_stack_top := new_stack\<rparr>) k2"
  define old where "old = vaddr k3 (p_stack_top (procs k3 parent)) parent"
  define f where "f = relocate old ((old + p_stack_size (procs k3 parent)) mod 2 ^ 32) new_stack (c_rbase (p_ctx (procs k3 c)))"
  define k4 where "k4 = upd_mem (relocate_stack f new_stack (new_stack + p_stack_size (procs k3 c))) k3"
  obtain r where r: "proc_memctl c old False (upd_proc c (p_ctx_update (c_regs_update (map f))) k4) = Some (k', r)"
    using assms k1 unfolding copy_stack_def Let_def k4_def f_def old_def k3_def sp_def k2_def
    by (auto simp: bind_eq_Some_conv simp del: upd_proc_simps upd_mem_simps)
  have "fork_frame c k2 k3" "fork_frame c k4 (upd_proc c (p_ctx_update (c_regs_update (map f))) k4)"
    unfolding k3_def by (rule fork_frame_upd; simp)+
  moreover have "fork_frame c k1 k2" "fork_frame c k3 k4" unfolding k2_def k4_def by (rule fork_frame_mem)+
  ultimately show ?thesis
    using user_get_frame [OF k1(1)] proc_memctl_frame [OF r] by (meson fork_frame_trans)
qed

text \<open>The child right after its slot has been copied.\<close>

lemma copy_pcb_procs:
  assumes "p \<noteq> c"
  shows "procs (copy_pcb p c k) q = (if q = c then (procs k p)\<lparr>p_proc_nr := p_proc_nr (procs k c), p_pid := p_pid (procs k c),
     p_sig_pending := 0, p_ctx := (p_ctx (procs k p))\<lparr>c_ptable := c\<rparr>, p_time_used := 0, p_sys_time_used := 0\<rparr> else procs k q)"
    "ready_q (copy_pcb p c k) = ready_q k" "timers (copy_pcb p c k) = (timers k)(ProcTimer c := timers k (ProcTimer p))"
    "pending_timers (copy_pcb p c k) = pending_timers k"
  using assms by (simp_all add: copy_pcb_def Let_def)

lemma sys_fork_run:
  assumes "sys_fork parent k = Some (k', child)" "0 \<le> child" and nr: "\<And>p. IS_PROCN_OK p \<Longrightarrow> p_proc_nr (procs k p) = p" and "IS_INUSE k parent"
    and pn: "\<And>q. \<not> IS_INUSE k q \<Longrightarrow> p_next (procs k q) = None" and "p_next (procs k parent) = None" and "IS_PROCN_OK parent"
  shows "1 \<le> child \<and> child \<le> 9 \<and> \<not> IS_INUSE k child \<and> child \<noteq> parent \<and> (\<forall>q. q \<noteq> child \<longrightarrow> procs k' q = procs k q) \<and>
     ready_q k' = ready_q k \<and> pnext k' = pnext k \<and> p_state (procs k' child) = p_state (procs k parent) \<and>
     p_flags (procs k' child) = p_flags (procs k parent) \<and> p_priority (procs k' child) = p_priority (procs k parent) \<and>
     p_parent (procs k' child) = parent \<and> p_proc_nr (procs k' child) = child \<and>
     length (c_regs (p_ctx (procs k' child))) = length (c_regs (p_ctx (procs k parent))) \<and>
     p_pid (procs k' child) = (if next_pid k = INT_MAX then 2 else next_pid k)"
proof -
  obtain k1 c where k1: "get_free_proc_slot k = (k1, Some c)"
    using assms(1,2) by (auto simp: sys_fork_def split: prod.splits option.splits)
  then have find: "find (\<lambda>p. \<not> IS_INUSE k p) [1..9] = Some c"
    by (auto simp: get_free_proc_slot_def Let_def split: option.splits prod.splits)
  then have c: "1 \<le> c" "c \<le> 9" "\<not> IS_INUSE k c" by (auto simp: find_upto_Some)
  with assms(4) have ne: "parent \<noteq> c" by auto
  have slot: "\<And>q. q \<noteq> c \<Longrightarrow> procs k1 q = procs k q" "ready_q k1 = ready_q k" "p_proc_nr (procs k1 c) = c"
    "p_pid (procs k1 c) = (if next_pid k = INT_MAX then 2 else next_pid k)"
    using get_free_proc_slot_run [OF find] k1 nr [of c] c(1,2) by (auto simp: IS_PROCN_OK_def)
  define k2 where "k2 = copy_pcb parent c k1"
  note k2 = copy_pcb_procs [OF ne, of k1, folded k2_def]
  obtain k3 where k3: "copy_mm parent c k2 = Some (k3, 0)"
    using assms(1,2) k1 by (auto simp: sys_fork_def bind_eq_Some_conv k2_def copy_mm_def Let_def split: if_splits)
  obtain k4 where k4: "copy_stack parent c k3 = Some (k4, 0)"
    using assms(1,2) k1 k3 by (auto simp: sys_fork_def bind_eq_Some_conv k2_def copy_stack_def Let_def split: if_splits)
  have fr: "fork_frame c k2 k4" using copy_mm_frame [OF k3] copy_stack_frame [OF k4] by (rule fork_frame_trans)
  define k5 where "k5 = copy_pregs parent c k4"
  have k': "k' = upd_proc c (\<lambda>r. r\<lparr>p_time_used := 0, p_sys_time_used := 0, p_parent := p_proc_nr (procs k5 parent), p_thread_parent := 0\<rparr>) k5"
      "child = p_proc_nr (procs k5 c)"
    using assms(1) k1 k3 k4 by (simp_all add: sys_fork_def k2_def k5_def Let_def)
  have k5: "fork_frame c k4 k5" unfolding k5_def copy_pregs_def Let_def by (rule fork_frame_upd) simp_all
  note fr5 = fork_frame_trans [OF fr k5]
  have f5: "p_state (procs k5 c) = p_state (procs k parent)" "p_flags (procs k5 c) = p_flags (procs k parent)"
    "p_priority (procs k5 c) = p_priority (procs k parent)" "p_next (procs k5 c) = p_next (procs k parent)"
    "p_proc_nr (procs k5 c) = c" "p_pid (procs k5 c) = p_pid (procs k1 c)" "ready_q k5 = ready_q k"
    "length (c_regs (p_ctx (procs k5 c))) = length (c_regs (p_ctx (procs k parent)))"
    "\<And>q. q \<noteq> c \<Longrightarrow> procs k5 q = procs k q"
    using fr5 k2 slot ne by (auto simp: fork_frame_def Let_def)
  have "pnext k' = pnext k"
    using k'(1) f5(4,9) pn [OF c(3)] assms(6) by (auto simp: pnext_def fun_eq_iff)
  with k' f5 slot c ne nr [OF assms(7)] show ?thesis by (auto simp: fun_eq_iff)
qed

text \<open>A fork that fails for lack of memory for the image.\<close>

lemma sys_fork_enomem:
  assumes "get_free_proc_slot k = (k1, Some c)" "copy_mm parent c (copy_pcb parent c k1) = Some (k2, ret)" "ret \<noteq> 0"
    and "parent \<noteq> c" "IS_INUSE k parent" "\<not> has_flag (p_state (procs k parent)) STATE_ZOMBIE"
  shows "sys_fork parent k = Some (k2, ret) \<and> IS_INUSE k2 c \<and> p_pid (procs k2 c) = p_pid (procs k1 c)"
proof -
  have "find (\<lambda>p. \<not> IS_INUSE k p) [1..9] = Some c"
    using assms(1) by (auto simp: get_free_proc_slot_def Let_def split: option.splits prod.splits)
  then have "procs k1 parent = procs k parent"
    using get_free_proc_slot_run assms(1,4) by (metis option.sel prod.inject)
  note pcb = copy_pcb_procs [OF assms(4), of k1] this
  have fr: "fork_frame c (copy_pcb parent c k1) k2" using copy_mm_frame [OF assms(2)] .
  then have f: "p_state (procs k2 c) = p_state (procs k parent)" "p_flags (procs k2 c) = p_flags (procs k parent)"
    "p_pid (procs k2 c) = p_pid (procs k1 c)"
    using pcb by (simp_all add: fork_frame_def Let_def)
  then have "release_zombie c k2 = k2" using assms(6) by (simp add: release_zombie_def)
  with assms f show ?thesis by (simp add: sys_fork_def IS_INUSE_def)
qed

section \<open>The heap stays in order\<close>

definition heap_inv :: "proc \<Rightarrow> bool" where
  "heap_inv r \<longleftrightarrow> 0 < p_heap_top r \<and> p_heap_top r \<le> p_heap_break r \<and> p_heap_break r \<le> p_heap_bottom r \<and> p_heap_bottom r < 2 ^ 31"

lemma ptr_add_id: "0 \<le> a + n \<Longrightarrow> a + n < 2 ^ 32 \<Longrightarrow> ptr_add a n = a + n"
  by (simp add: ptr_add_def)

lemma sys_sbrk_run:
  assumes inv: "heap_inv (procs k who)" and sz: "0 \<le> p_heap_break (procs k who) + sz" "p_heap_break (procs k who) + sz < 2 ^ 30"
    and run: "sys_sbrk who sz k = Some (k', b)"
  shows "heap_inv (procs k' who) \<and> p_heap_top (procs k' who) = p_heap_top (procs k who) \<and>
     p_heap_break (procs k' who) = (if b = NULL then p_heap_break (procs k who) else b) \<and>
     (b \<noteq> NULL \<longrightarrow> b = p_heap_break (procs k who) + sz) \<and> (sz < 0 \<longrightarrow> p_heap_top (procs k who) \<le> p_heap_break (procs k who) + sz \<longleftrightarrow> b \<noteq> NULL)"
proof -
  let ?r = "procs k who"
  let ?res = "p_heap_bottom ?r - p_heap_break ?r"
  have i: "0 < p_heap_top ?r" "p_heap_top ?r \<le> p_heap_break ?r" "p_heap_break ?r \<le> p_heap_bottom ?r" "p_heap_bottom ?r < 2 ^ 31"
    using inv by (auto simp: heap_inv_def)
  have al: "sz - ?res \<le> align_page (sz - ?res)" "align_page (sz - ?res) < sz - ?res + 1024" using align_page_bounds by blast+
  consider "sz = 0" | "sz < 0" "p_heap_top ?r \<le> p_heap_break ?r + sz" | "sz < 0" "p_heap_break ?r + sz < p_heap_top ?r"
    | "0 < sz" "sz \<le> ?res" | "0 < sz" "?res < sz" by linarith
  then show ?thesis
  proof cases
    case 1
    with run i show ?thesis using inv by (auto simp: sys_sbrk_def Let_def)
  next
    case 2
    with i have "ptr_add (p_heap_break ?r) sz = p_heap_break ?r + sz" by (intro ptr_add_id) auto
    with 2 run i show ?thesis by (auto simp: sys_sbrk_def Let_def heap_inv_def)
  next
    case 3
    with i sz have "ptr_add (p_heap_break ?r) sz = p_heap_break ?r + sz" by (intro ptr_add_id) auto
    with 3 run i inv show ?thesis by (auto simp: sys_sbrk_def Let_def)
  next
    case 4
    with i sz have "ptr_add (p_heap_break ?r) sz = p_heap_break ?r + sz" by (intro ptr_add_id) auto
    with 4 run i show ?thesis by (auto simp: sys_sbrk_def Let_def heap_inv_def)
  next
    case 5
    with i sz have "ptr_add (p_heap_break ?r) sz = p_heap_break ?r + sz" by (intro ptr_add_id) auto
    moreover have "ptr_add (p_heap_bottom ?r) (align_page (sz - ?res)) = p_heap_bottom ?r + align_page (sz - ?res)"
      using 5 i sz al by (intro ptr_add_id) auto
    ultimately show ?thesis
      using 5 run i inv sz al by (auto simp: sys_sbrk_def Let_def heap_inv_def bind_eq_Some_conv split: if_splits)
  qed
qed

lemma sys_sbrk_wraps:
  assumes "heap_inv (procs k who)" "p_heap_break (procs k who) + sz < 0" "- (2 ^ 31) \<le> sz"
  shows "sys_sbrk who sz k = Some (upd_proc who (p_heap_break_update (\<lambda>_. p_heap_break (procs k who) + sz + 2 ^ 32)) k,
     p_heap_break (procs k who) + sz + 2 ^ 32)"
proof -
  let ?r = "procs k who"
  have i: "0 < p_heap_top ?r" "p_heap_top ?r \<le> p_heap_break ?r" "p_heap_break ?r \<le> p_heap_bottom ?r" "p_heap_bottom ?r < 2 ^ 31"
    using assms(1) by (auto simp: heap_inv_def)
  have "(p_heap_break ?r + sz + 2 ^ 32) mod 2 ^ 32 = p_heap_break ?r + sz + 2 ^ 32"
    using assms(2,3) i by (intro mod_pos_pos_trivial) auto
  then have w: "ptr_add (p_heap_break ?r) sz = p_heap_break ?r + sz + 2 ^ 32" by (simp add: ptr_add_def)
  moreover have "upd_proc who (p_heap_break_update (\<lambda>b. ptr_add b sz)) k = upd_proc who (p_heap_break_update (\<lambda>_. ptr_add (p_heap_break ?r) sz)) k"
    by (cases "procs k who") (simp add: upd_proc_def)
  ultimately show ?thesis using assms i by (simp add: sys_sbrk_def Let_def)
qed

section \<open>Properties\<close>

text \<open>
  C30. Fork returns twice: when a fork succeeds, child and parent are both runnable and at the
  head of their ready queue, the parent first; the child's result register holds 0 and the
  parent's holds the child's process id; the child's parent is the caller.
\<close>

theorem do_fork_returns_twice:
  assumes "sys_fork p k = Some (k1, c)" "0 \<le> c" "\<forall>q. IS_PROCN_OK q \<longrightarrow> p_proc_nr (procs k q) = q" "IS_INUSE k p" "IS_PROCN_OK p"
    and "\<forall>q. \<not> IS_INUSE k q \<longrightarrow> \<not> queued qs q" "rq_inv k qs" "\<not> queued qs p" "p_state (procs k p) = STATE_RECEIVING"
    and "i = p_priority (procs k p)" "IS_PRIORITY_OK i" "0 < length (c_regs (p_ctx (procs k p)))" "2 \<le> next_pid k"
  shows "\<exists>k'. do_fork p m k = Some (k', DONTREPLY) \<and> rq_inv k' (qs(i := p # c # qs i)) \<and>
     p_state (procs k' c) = STATE_RUNNABLE \<and> p_state (procs k' p) = STATE_RUNNABLE \<and>
     c_regs (p_ctx (procs k' c)) ! 0 = 0 \<and> c_regs (p_ctx (procs k' p)) ! 0 = p_pid (procs k1 c) \<and>
     p_parent (procs k1 c) = p"
proof -
  have pn: "p_next (procs k q) = None" if "\<not> IS_INUSE k q" for q
    using rq_inv_free [OF assms(7)] assms(6) that by (auto simp: pnext_def)
  have "p_next (procs k p) = None" using rq_inv_free [OF assms(7,8)] by (simp add: pnext_def)
  note f = sys_fork_run [OF assms(1,2) assms(3) [rule_format] assms(4) pn this assms(5)]
  have c: "1 \<le> c" "c \<le> 9" "\<not> IS_INUSE k c" "c \<noteq> p" "IS_PROCN_OK c" using f by (auto simp: IS_PROCN_OK_def)
  have k1: "rq_inv k1 qs" "IS_INUSE k1 c" "p_state (procs k1 c) = STATE_RECEIVING" "p_priority (procs k1 c) = i"
      "procs k1 p = procs k p" "2 \<le> p_pid (procs k1 c)"
    using f assms(4,7,9,10,13) rq_inv_cong [of k1 k qs] by (auto simp: IS_INUSE_def)
  have nq: "\<not> queued qs c" using assms(6) c(3) by blast
  from syscall_reply2_run [OF c(5) k1(2,3,1) nq k1(4) [symmetric] assms(11), of FORK 0 m]
  obtain k2 where k2: "syscall_reply2 FORK 0 c m k1 = Some (k2, 0)" "p_state (procs k2 c) = STATE_RUNNABLE"
      "rq_inv k2 (qs(i := c # qs i))" "c_regs (p_ctx (procs k2 c)) = (c_regs (p_ctx (procs k1 c)))[0 := reply_value 0]"
      "\<forall>q. q \<noteq> c \<longrightarrow> p_state (procs k2 q) = p_state (procs k1 q) \<and> p_ctx (procs k2 q) = p_ctx (procs k1 q)" by blast
  have fr2: "clock_frame k1 k2" using k2(1) c(5) k1(2)
    by (auto simp: syscall_reply2_def get_proc_def dest!: do_notify_frame intro: clock_frame_trans [OF clock_frame_mem] clock_frame_trans)
  have pid: "p_pid (procs k2 q) = p_pid (procs k1 q)" "p_proc_nr (procs k2 q) = p_proc_nr (procs k1 q)" for q
    using syscall_reply2_ids [OF k2(1)] by auto
  have p2: "IS_INUSE k2 p" "p_state (procs k2 p) = STATE_RECEIVING" "p_priority (procs k2 p) = i" "p_proc_nr (procs k2 p) = p"
    using fr2 k1(5) k2(5) c(4) assms(3,4,5,9,10) pid by (auto simp: clock_frame_def IS_INUSE_def)
  have nq2: "\<not> queued (qs(i := c # qs i)) p" using assms(8,11) c(4) by (auto simp: queued_def split: if_splits)
  from syscall_reply2_run [OF assms(5) p2(1,2) k2(3) nq2 p2(3) [symmetric] assms(11), of FORK "p_pid (procs k1 c)" m]
  obtain k3 where k3: "syscall_reply2 FORK (p_pid (procs k1 c)) p m k2 = Some (k3, 0)" "p_state (procs k3 p) = STATE_RUNNABLE"
      "rq_inv k3 ((qs(i := c # qs i))(i := p # (qs(i := c # qs i)) i))"
      "c_regs (p_ctx (procs k3 p)) = (c_regs (p_ctx (procs k2 p)))[0 := reply_value (p_pid (procs k1 c))]"
      "\<forall>q. q \<noteq> p \<longrightarrow> p_state (procs k3 q) = p_state (procs k2 q) \<and> p_ctx (procs k3 q) = p_ctx (procs k2 q)" by blast
  have gp: "get_proc k1 c = Some c" using c(5) k1(2) by simp
  have "do_fork p m k = Some (k3, DONTREPLY)"
    using k2(1) k3(1) assms(1,2) pid p2(4) by (simp add: do_fork_def gp)
  moreover have "c_regs (p_ctx (procs k3 c)) ! 0 = 0" "c_regs (p_ctx (procs k3 p)) ! 0 = p_pid (procs k1 c)"
    using k2(4,5) k3(4,5) c(4) f assms(12) k1(5,6) by (auto simp: reply_value_def)
  ultimately show ?thesis using k3(2,3,5) k2(2) c(4) f by auto
qed

text \<open>A process with one page of image and one of stack that is in the middle of a system call.\<close>

definition mm_fork :: mm where
  "mm_fork = \<lparr>mem_map = [0xe0000000, 0, 0, 1], bss_page_end = 3\<rparr>"

definition kernel_fork :: kernel where
  "kernel_fork = (upd_proc 1 (\<lambda>r. r\<lparr>p_flags := IN_USE, p_state := STATE_RECEIVING, p_mem_start := 1024, p_heap_bottom := 2047,
     p_stack_top := 2048, p_stack_size := 1024, p_ctx := (p_ctx r)\<lparr>c_sp := 3000\<rparr>\<rparr>) kernel0)\<lparr>kmm := mm_fork, next_pid := 2\<rparr>"

lemma kernel_fork_pages:
  "bitmap_clear (replicate 32 0) PTABLE_LEN = Some (replicate 32 0, 0)"
  "user_get_free_pages mm_fork (replicate 32 0) PAGE_LEN GFP_NORM =
     Some (\<lparr>mem_map = [0xf0000000, 0, 0, 1], bss_page_end = 3\<rparr>, 0x10000000 # replicate 31 0, 3072)"
  "user_get_free_pages \<lparr>mem_map = [0xf0000000, 0, 0, 1], bss_page_end = 3\<rparr> (0x10000000 # replicate 31 0) PAGE_LEN GFP_HIGH =
     Some (\<lparr>mem_map = [0xf0000000, 0, 0, 3], bss_page_end = 3\<rparr>, [0x10000000, 0, 0, 2] @ replicate 28 0, 129024)"
  by code_simp+

lemma kernel_fork_slot:
  "\<exists>k1. get_free_proc_slot kernel_fork = (k1, Some 2) \<and> procs k1 1 = procs kernel_fork 1 \<and> p_proc_nr (procs k1 2) = 2 \<and>
     kmm k1 = mm_fork"
proof -
  have "IS_INUSE kernel_fork 1" "\<not> IS_INUSE kernel_fork 2"
    by (simp_all add: kernel_fork_def IS_INUSE_def has_flag_def kernel0_procs IS_PROCN_OK_def proc_default_def proc_zero_def)
  moreover have "IS_INUSE kernel_fork y" if "1 \<le> y" "y < 2" for y
  proof -
    have "y = 1" using that by linarith
    then show ?thesis using calculation(1) by simp
  qed
  ultimately have "find (\<lambda>p. \<not> IS_INUSE kernel_fork p) [1..9] = Some 2" unfolding find_upto_Some by auto
  then show ?thesis
    by (auto simp: get_free_proc_slot_def Let_def get_next_pid_def proc_set_default_def kernel_fork_def kernel0_procs IS_PROCN_OK_def)
qed

lemma kernel_fork_runs: "\<exists>k1. sys_fork 1 kernel_fork = Some (k1, 2)"
proof -
  obtain k1 where k1: "get_free_proc_slot kernel_fork = (k1, Some 2)" "procs k1 1 = procs kernel_fork 1" "p_proc_nr (procs k1 2) = 2"
    "kmm k1 = mm_fork" using kernel_fork_slot by blast
  define k2 where "k2 = copy_pcb 1 2 k1"
  have k2: "p_protection_table (procs k2 2) = replicate 32 0" "kmm k2 = mm_fork" "procs k2 1 = procs kernel_fork 1"
    "p_proc_nr (procs k2 2) = 2" "p_rbase_offset (procs k2 2) = 0"
    using k1 by (simp_all add: k2_def copy_pcb_def Let_def kernel_fork_def kernel0_procs IS_PROCN_OK_def proc_default_def proc_zero_def)
  have p1: "p_mem_start (procs kernel_fork 1) = 1024" "p_heap_bottom (procs kernel_fork 1) = 2047" "p_stack_top (procs kernel_fork 1) = 2048"
    "c_rbase (p_ctx (procs kernel_fork 1)) = 0"
    by (simp_all add: kernel_fork_def kernel0_procs IS_PROCN_OK_def proc_default_def proc_zero_def)
  obtain k3 where k3: "copy_mm 1 2 k2 = Some (k3, 0)" "kmm k3 = \<lparr>mem_map = [0xf0000000, 0, 0, 1], bss_page_end = 3\<rparr>"
     "p_protection_table (procs k3 2) = 0x10000000 # replicate 31 0" "procs k3 1 = procs kernel_fork 1" "c_rbase (p_ctx (procs k3 2)) = 3072"
     "p_proc_nr (procs k3 2) = 2"
    using k2 p1 kernel_fork_pages(1,2) by (simp add: copy_mm_def dup_vm_def user_get_def Let_def)
  have memctl: "bitmap_clear_bit ([0x10000000, 0, 0, 2] @ replicate 28 0) PTABLE_LEN 5 = Some ([0x10000000, 0, 0, 2] @ replicate 28 0, 0)"
    by code_simp
  have pg: "PADDR_TO_PAGED 5120 = 5" by code_simp
  have "\<exists>k4. copy_stack 1 2 k3 = Some (k4, 0)"
    using k3 p1 kernel_fork_pages(3) memctl pg
    by (simp add: copy_stack_def user_get_def Let_def proc_memctl_def vaddr_def get_virtual_addr_def get_physical_addr_def)
  then obtain k4 where k4: "copy_stack 1 2 k3 = Some (k4, 0)" by blast
  have "p_proc_nr (procs k4 2) = 2" using copy_stack_frame [OF k4] k3(6) by (simp add: fork_frame_def Let_def)
  then show ?thesis using k1(1) k3(1) k4 by (simp add: sys_fork_def copy_pregs_def Let_def flip: k2_def)
qed

theorem do_fork_returns_twice_witness:
  "\<exists>k'. do_fork 1 5000 kernel_fork = Some (k', DONTREPLY) \<and> p_state (procs k' 2) = STATE_RUNNABLE \<and> c_regs (p_ctx (procs k' 2)) ! 0 = 0"
proof -
  obtain k1 where k1: "sys_fork 1 kernel_fork = Some (k1, 2)" using kernel_fork_runs by blast
  have "pnext kernel_fork = pnext kernel0" "ready_q kernel_fork = ready_q kernel0" by (simp_all add: kernel_fork_def pnext_def fun_eq_iff)
  then have inv: "rq_inv kernel_fork (\<lambda>_. [])" using kernel0_rq rq_inv_cong by blast
  have "\<forall>q. IS_PROCN_OK q \<longrightarrow> p_proc_nr (procs kernel_fork q) = q" "IS_INUSE kernel_fork 1" "IS_PROCN_OK 1" "p_state (procs kernel_fork 1) = STATE_RECEIVING"
    "p_priority (procs kernel_fork 1) = 3" "0 < length (c_regs (p_ctx (procs kernel_fork 1)))" "2 \<le> next_pid kernel_fork"
    by (simp_all add: kernel_fork_def kernel0_procs IS_PROCN_OK_def IS_INUSE_def has_flag_def)
  with do_fork_returns_twice [OF k1, of "\<lambda>_. []" 3 5000] inv show ?thesis by (auto simp: queued_def IS_PRIORITY_OK_def)
qed

text \<open>
  C35. Moving the heap break keeps the heap in order (start, break and end in this order), moves
  the break by exactly the amount asked for or not at all, never below the start of the heap, and
  returns the new break or \<^verbatim>\<open>NULL\<close>. This holds while the new break stays in the lower half of
  the address space; below address 0 the addition wraps (\<open>sys_sbrk_wraps\<close>).
\<close>

theorem sys_sbrk_correct:
  assumes "heap_inv (procs k who)" "0 \<le> p_heap_break (procs k who) + sz" "p_heap_break (procs k who) + sz < 2 ^ 30"
    and "sys_sbrk who sz k = Some (k', b)"
  shows "heap_inv (procs k' who) \<and> p_heap_top (procs k' who) = p_heap_top (procs k who) \<and>
     p_heap_break (procs k' who) = (if b = NULL then p_heap_break (procs k who) else b) \<and>
     (b \<noteq> NULL \<longrightarrow> b = p_heap_break (procs k who) + sz) \<and>
     (sz < 0 \<longrightarrow> p_heap_top (procs k who) \<le> p_heap_break (procs k who) + sz \<longleftrightarrow> b \<noteq> NULL)"
  by (rule sys_sbrk_run [OF assms])

theorem sys_sbrk_correct_witness:
  "\<exists>k'. sys_sbrk 1 (- 100) (upd_proc 1 (\<lambda>r. r\<lparr>p_heap_top := 3000, p_heap_break := 3200, p_heap_bottom := 4095\<rparr>) kernel0) = Some (k', 3100) \<and>
     heap_inv (procs k' 1) \<and> p_heap_break (procs k' 1) = 3100"
proof -
  let ?k = "upd_proc 1 (\<lambda>r. r\<lparr>p_heap_top := 3000, p_heap_break := 3200, p_heap_bottom := 4095\<rparr>) kernel0"
  obtain k' where "sys_sbrk 1 (- 100) ?k = Some (k', 3100)" by (simp add: sys_sbrk_def ptr_add_def)
  with sys_sbrk_correct [of ?k 1 "- 100" k' 3100] show ?thesis by (simp add: heap_inv_def)
qed

text \<open>
  A fork that fails because the image does not fit leaks the slot it took: the error path
  releases the slot only if it is a zombie, and the copied state is not, so the slot stays in
  use with a live process id and no process behind it.
\<close>

theorem fork_failure_leaks_slot:
  assumes "get_free_proc_slot k = (k1, Some c)" "copy_mm p c (copy_pcb p c k1) = Some (k2, ret)" "ret \<noteq> 0"
    and "p \<noteq> c" "IS_INUSE k p" "\<not> has_flag (p_state (procs k p)) STATE_ZOMBIE"
  shows "sys_fork p k = Some (k2, ret) \<and> IS_INUSE k2 c \<and> p_pid (procs k2 c) = p_pid (procs k1 c)"
  by (rule sys_fork_enomem [OF assms])

lemma mm_full_pages: "user_get_free_pages \<lparr>mem_map = [- 1, - 1, - 1, - 1], bss_page_end = 3\<rparr> (replicate 32 0) PAGE_LEN GFP_NORM =
   Some (\<lparr>mem_map = [- 1, - 1, - 1, - 1], bss_page_end = 3\<rparr>, replicate 32 0, NULL)"
  by code_simp

theorem fork_failure_leaks_slot_witness:
  "\<exists>k' k1. get_free_proc_slot (kernel_fork\<lparr>kmm := \<lparr>mem_map = [- 1, - 1, - 1, - 1], bss_page_end = 3\<rparr>\<rparr>) = (k1, Some 2) \<and>
     sys_fork 1 (kernel_fork\<lparr>kmm := \<lparr>mem_map = [- 1, - 1, - 1, - 1], bss_page_end = 3\<rparr>\<rparr>) = Some (k', - ENOMEM) \<and> IS_INUSE k' 2"
proof -
  define k where "k = kernel_fork\<lparr>kmm := \<lparr>mem_map = [- 1, - 1, - 1, - 1], bss_page_end = 3\<rparr>\<rparr>"
  have p: "procs k = procs kernel_fork" "kmm k = \<lparr>mem_map = [- 1, - 1, - 1, - 1], bss_page_end = 3\<rparr>" by (simp_all add: k_def)
  obtain k0 where "get_free_proc_slot kernel_fork = (k0, Some 2)" using kernel_fork_slot by blast
  then have "find (\<lambda>p. \<not> IS_INUSE kernel_fork p) [1..9] = Some 2"
    by (auto simp: get_free_proc_slot_def Let_def split: option.splits prod.splits)
  then have find: "find (\<lambda>p. \<not> IS_INUSE k p) [1..9] = Some 2" by (simp add: IS_INUSE_def p(1) del: upto_rec_numeral)
  then obtain k1 where k1: "get_free_proc_slot k = (k1, Some 2)" "procs k1 1 = procs kernel_fork 1"
      "kmm k1 = \<lparr>mem_map = [- 1, - 1, - 1, - 1], bss_page_end = 3\<rparr>"
    by (auto simp: get_free_proc_slot_def Let_def get_next_pid_def proc_set_default_def p)
  have "p_protection_table (procs kernel_fork 1) = replicate 32 0" "p_mem_start (procs kernel_fork 1) = 1024" "p_heap_bottom (procs kernel_fork 1) = 2047"
    by (simp_all add: kernel_fork_def kernel0_procs IS_PROCN_OK_def proc_default_def proc_zero_def)
  then obtain k2 where k2: "copy_mm 1 2 (copy_pcb 1 2 k1) = Some (k2, - ENOMEM)"
    using k1 kernel_fork_pages(1) mm_full_pages by (simp add: copy_mm_def dup_vm_def user_get_def copy_pcb_def Let_def)
  have "IS_INUSE k 1" "\<not> has_flag (p_state (procs k 1)) STATE_ZOMBIE"
    by (simp_all add: p kernel_fork_def IS_INUSE_def has_flag_def)
  with fork_failure_leaks_slot [OF k1(1) k2] k1(1) show ?thesis unfolding k_def by auto
qed

text \<open>
  Forking while the parent has a timer armed copies the armed timer: the child's timer is
  marked in use although it is not in the pending list, so the list and the marks no longer
  agree, and the child's next request that disarms it dereferences a null pointer.
\<close>

theorem fork_copies_armed_timer:
  assumes "timer_inv k xs" "ProcTimer p \<in> set xs" "ProcTimer c \<notin> set xs" "p \<noteq> c"
  shows "inuse (copy_pcb p c k) (ProcTimer c) \<and> (\<forall>ys. \<not> timer_inv (copy_pcb p c k) ys) \<and>
     sys_setitimer c ITIMER_REAL a b (copy_pcb p c k) = None"
proof -
  note t = copy_pcb_procs(3,4) [OF assms(4), of k]
  have u: "inuse (copy_pcb p c k) (ProcTimer c)" using assms(1,2) t by (simp add: inuse_def timer_inv_def fun_eq_iff)
  have "chain (tnext k) (pending_timers k) xs" using assms(1) by (simp add: timer_inv_def)
  moreover have "tnext (copy_pcb p c k) x = tnext k x" if "x \<in> set xs" for x using that assms(3) t by (auto simp: tnext_def)
  ultimately have ch: "chain (tnext (copy_pcb p c k)) (pending_timers (copy_pcb p c k)) xs"
    using chain_cong [of xs "tnext (copy_pcb p c k)" "tnext k"] t(2) by simp
  have "\<not> timer_inv (copy_pcb p c k) ys" for ys
  proof
    assume a: "timer_inv (copy_pcb p c k) ys"
    then have "chain (tnext (copy_pcb p c k)) (pending_timers (copy_pcb p c k)) ys" by (simp add: timer_inv_def)
    with ch have "xs = ys" by (rule chain_unique)
    with a u assms(3) show False by (simp add: timer_inv_def)
  qed
  moreover have "sys_setitimer c ITIMER_REAL a b (copy_pcb p c k) = None"
  proof -
    let ?k = "upd_proc c (p_timer_interval_update (\<lambda>_. 0)) (copy_pcb p c k)"
    have "chain (tnext ?k) (pending_timers ?k) xs" using ch by (simp add: tnext_def [abs_def])
    then have "remove_timer (ProcTimer c) ?k = None" using assms(3) by (rule remove_timer_unlinked)
    with u show ?thesis by (simp add: sys_setitimer_def inuse_def)
  qed
  ultimately show ?thesis using u by blast
qed

theorem fork_copies_armed_timer_witness:
  "\<exists>k xs. timer_inv (k :: kernel) xs \<and> sys_setitimer 2 ITIMER_REAL 0 0 (copy_pcb 1 2 k) = None"
proof -
  let ?t = "(\<lambda>t. timer_zero)(ProcTimer 1 := timer_zero\<lparr>tm_time_out := 9, tm_handler := Deliver_alarm, tm_flags := 1\<rparr>)"
  let ?k = "kernel0\<lparr>timers := ?t, pending_timers := Some (ProcTimer 1), next_timeout := 9\<rparr>"
  have "timer_inv ?k [ProcTimer 1]"
    by (auto simp: timer_inv_def first_due_def due_def tnext_def inuse_def timer_zero_def has_flag_def fun_eq_iff)
  with fork_copies_armed_timer [of ?k "[ProcTimer 1]" 1 2] show ?thesis by auto
qed

text \<open>
  C32. \<^verbatim>\<open>SIGKILL\<close> and \<^verbatim>\<open>SIGSTOP\<close> cannot be blocked or caught. That they are in neither mask of a process, in the mask of
  none of its actions, and have no handler, is kept by any sequence of \<^verbatim>\<open>sigaction\<close>, \<^verbatim>\<open>signal\<close>,
  \<^verbatim>\<open>sigprocmask\<close> and \<^verbatim>\<open>sigsuspend\<close> calls of the process, whatever the arguments, of entries into its handlers
  and of \<^verbatim>\<open>sigreturn\<close> calls, whatever the handler left on the stack; and the copy of its slot that a fork makes has it too.
\<close>

theorem kill_and_stop_unblockable:
  assumes "sig_ok (procs k who)" "(mask_step fops_close who)\<^sup>*\<^sup>* k k'" "child \<noteq> who"
  shows "sig_ok (procs k' who) \<and> sig_ok (procs (copy_pcb who child k') child)"
proof -
  have ok: "sig_ok (procs k' who)" by (rule mask_steps_ok [OF assms(2,1)])
  then show ?thesis using copy_pcb_procs(1) [of who child k' child] assms(3) by (simp add: sig_ok_def mask_ok_def)
qed

text \<open>A mask with \<^verbatim>\<open>SIGHUP\<close>, \<^verbatim>\<open>SIGKILL\<close> and \<^verbatim>\<open>SIGSTOP\<close>: only the first is blocked, in the process and in its child.\<close>

theorem kill_and_stop_unblockable_witness:
  "\<exists>k'. do_sigprocmask 1 100 (upd_mem (\<lambda>_. (\<lambda>_. 0)(102 := SIG_SETMASK, 103 := 0x20202)) kernel0) = Some (k', 0) \<and>
     1 \<in> sigs (p_sig_mask (procs k' 1)) \<and> sig_ok (procs k' 1) \<and> sig_ok (procs (copy_pcb 1 2 k') 2)"
proof -
  define k where "k = upd_mem (\<lambda>_. (\<lambda>_. 0)(102 := SIG_SETMASK, 103 := 0x20202)) kernel0"
  have ok: "sig_ok (procs k 1)"
    by (simp add: k_def kernel0_procs IS_PROCN_OK_def proc_default_def proc_zero_def sig_ok_def mask_ok_def unblockable_def sigs_def aget_def)
  have "1 \<in> sigs (word_of_int (kmem k (m1_i2 100)))" by (simp add: k_def sigs_def)
  then obtain k' where k': "do_sigprocmask 1 100 k = Some (k', 0)" "1 \<in> sigs (p_sig_mask (procs k' 1))"
    using do_sigprocmask_run [of k 100 1 _ SIG_SETMASK, OF _ refl _ refl] by (auto simp: k_def)
  have "mask_step (\<lambda>_ k. Some (k, 0)) 1 k k'" using k'(1) by (rule sigprocmask_call)
  then show ?thesis using kill_and_stop_unblockable [OF ok, of "\<lambda>_ k. Some (k, 0)" k' 2] k' by (auto simp: k_def)
qed

end
