(* ===== verification/System.thy ===== *)
theory System
  imports Fork
begin

text \<open>
  The way into the kernel: exceptions (\<^verbatim>\<open>kernel/exception.c\<close>) and the system task
  (\<^verbatim>\<open>kernel/system.c\<close>). A handler that ends in \<^verbatim>\<open>sched()\<close> does not come back, since the
  scheduler loads another context; \<open>Switched\<close> marks that. The device acknowledgements, the debug
  reports and the tracing are left out. \<open>ENOSYS\<close> and the call numbers are those of
  \<^verbatim>\<open>errno.h\<close> and \<^verbatim>\<open>sys/syscall.h\<close>.
\<close>

abbreviation (input) ENOSYS :: int where "ENOSYS \<equiv> 38"
abbreviation (input) NSYSCALL :: int where "NSYSCALL \<equiv> 57"
abbreviation (input) WINIX_SEND :: int where "WINIX_SEND \<equiv> 0x13370001"
abbreviation (input) WINIX_RECEIVE :: int where "WINIX_RECEIVE \<equiv> 0x13370002"
abbreviation (input) WINIX_SENDREC :: int where "WINIX_SENDREC \<equiv> 0x13370003"
abbreviation (input) WINIX_NOTIFY :: int where "WINIX_NOTIFY \<equiv> 0x13370004"
abbreviation (input) WINIX_STACK_TRACE :: int where "WINIX_STACK_TRACE \<equiv> 0x13370006"
abbreviation (input) NUM_HANDLERS :: int where "NUM_HANDLERS \<equiv> 16"

section \<open>Arguments of a direct system call\<close>

text \<open>
  \<^verbatim>\<open>set_syscall_mesg_exception\<close>: which of the caller's words on the stack go to which fields
  of the message. The five groups are the five runs of labels of the source, in its order of
  stores.
\<close>

definition ops_ints :: "int set" where
  "ops_ints = {42, 2, 11, 20, 35, 7, 16, 17, 21, 25, 34, 43, 50}"

definition ops_ints2 :: "int set" where
  "ops_ints2 = {42, 2, 11, 20, 35}"

definition ops_int_ptr_int :: "int set" where
  "ops_int_ptr_int = {10, 13, 14, 19, 22, 23, 24, 26, 28, 30, 31, 33, 38, 39, 40, 49, 52}"

definition ops_ptrs :: "int set" where
  "ops_ptrs = {5, 32, 36, 47, 51, 1, 6, 18, 27, 29, 37, 56}"

definition ops_ptrs2 :: "int set" where
  "ops_ptrs2 = {5, 32, 36, 47, 51}"

definition ops_int_ptr_ptr :: "int set" where
  "ops_int_ptr_ptr = {8, 15, 55}"

definition ops_int_int_rest :: "int set" where
  "ops_int_int_rest = {44, 45}"

definition put :: "addr \<Rightarrow> int \<Rightarrow> memory \<Rightarrow> memory" where
  "put a v mem = mem(a := v)"

definition mesg_ints :: "int \<Rightarrow> addr \<Rightarrow> addr \<Rightarrow> memory \<Rightarrow> memory" where
  "mesg_ints operation sp m mem =
     (let mem = (if operation = 42 then put (m1_i3 m) (mem (sp + 2)) mem else mem);
          mem = (if operation \<in> ops_ints2 then put (m1_i2 m) (mem (sp + 1)) mem else mem)
      in put (m1_i1 m) (mem sp) mem)"

definition mesg_int_ptr_int :: "addr \<Rightarrow> addr \<Rightarrow> memory \<Rightarrow> memory" where
  "mesg_int_ptr_int sp m mem =
     (let mem = put (m1_i1 m) (mem sp) mem;
          mem = put (m1_p1 m) (mem (sp + 1)) mem
      in put (m1_i2 m) (mem (sp + 2)) mem)"

definition mesg_ptrs :: "int \<Rightarrow> addr \<Rightarrow> addr \<Rightarrow> memory \<Rightarrow> memory" where
  "mesg_ptrs operation sp m mem =
     (let mem = (if operation = 5 then put (m1_p3 m) (mem (sp + 2)) mem else mem);
          mem = (if operation \<in> ops_ptrs2 then put (m1_p2 m) (mem (sp + 1)) mem else mem)
      in put (m1_p1 m) (mem sp) mem)"

definition mesg_int_ptr_ptr :: "addr \<Rightarrow> addr \<Rightarrow> memory \<Rightarrow> memory" where
  "mesg_int_ptr_ptr sp m mem =
     (let mem = put (m1_i1 m) (mem sp) mem;
          mem = put (m1_p1 m) (mem (sp + 1)) mem
      in put (m1_p2 m) (mem (sp + 2)) mem)"

definition mesg_int_int_rest :: "addr \<Rightarrow> addr \<Rightarrow> memory \<Rightarrow> memory" where
  "mesg_int_int_rest sp m mem =
     (let mem = put (m1_i1 m) (mem sp) mem;
          mem = put (m1_i2 m) (mem (sp + 1)) mem
      in put (m1_p1 m) (sp + 2) mem)"

definition set_syscall_mesg_exception :: "int \<Rightarrow> addr \<Rightarrow> addr \<Rightarrow> memory \<Rightarrow> memory" where
  "set_syscall_mesg_exception operation sp m mem =
     (if operation \<in> ops_ints then mesg_ints operation sp m mem
      else if operation \<in> ops_int_ptr_int then mesg_int_ptr_int sp m mem
      else if operation \<in> ops_ptrs then mesg_ptrs operation sp m mem
      else if operation \<in> ops_int_ptr_ptr then mesg_int_ptr_ptr sp m mem
      else if operation \<in> ops_int_int_rest then mesg_int_int_rest sp m mem
      else mem)"

section \<open>Exceptions\<close>

datatype 'k outcome = Returned 'k | Switched 'k

definition preempt_currproc :: "'a kernel_scheme \<Rightarrow> 'a kernel_scheme option" where
  "preempt_currproc k =
     (case curr_scheduling_proc k of
        None \<Rightarrow> Some k
      | Some c \<Rightarrow> do { k \<leftarrow> enqueue_schedule c k; Some (k\<lparr>curr_scheduling_proc := None\<rparr>) })"

definition trigger_gpf :: "int \<Rightarrow> 'a kernel_scheme \<Rightarrow> 'a kernel_scheme option" where
  "trigger_gpf who k =
     (if \<not> IS_PROCN_OK (p_proc_nr (procs k who)) then None
      else do { c \<leftarrow> curr_scheduling_proc k;
                if IS_KERNEL_PROC k c then None else do { (k, _) \<leftarrow> send_sig c SIGSEGV k; Some k } })"

definition gpf_handler :: "'a closer \<Rightarrow> 'a kernel_scheme \<Rightarrow> 'a kernel_scheme option" where
  "gpf_handler fops_close k = do { c \<leftarrow> curr_scheduling_proc k; k \<leftarrow> trigger_gpf c k; sched fops_close k }"

definition arith_handler :: "'a closer \<Rightarrow> 'a kernel_scheme \<Rightarrow> 'a kernel_scheme option" where
  "arith_handler fops_close k =
     do { c \<leftarrow> curr_scheduling_proc k; (k, _) \<leftarrow> send_sig c SIGFPE k; sched fops_close k }"

text \<open>
  The body of \<^verbatim>\<open>syscall_handler\<close> up to the call of the scheduler. \<open>junk\<close> is the value of
  the variable \<^verbatim>\<open>ret\<close>, which a stack trace request leaves uninitialised.
\<close>

definition syscall_decode :: "int \<Rightarrow> 'a kernel_scheme \<Rightarrow> 'a kernel_scheme \<times> int \<times> int \<times> addr \<times> bool" where
  "syscall_decode c k =
     (let sp = phys k (c_sp (p_ctx (procs k c))) c;
          operation = kmem k sp in
      if operation > 0 \<and> operation < NSYSCALL
      then let m = USER_TMP_MESSAGE k c;
               k = upd_proc c (p_flags_update (\<lambda>f. set_flag f DIRECT_SYSCALL)) k;
               k = upd_mem (\<lambda>mem. set_syscall_mesg_exception operation (sp + 1) m (mem(m_type m := operation))) k
           in (k, WINIX_SENDREC, SYSTEM, m, True)
      else (k, operation, kmem k (sp + 1), phys k (kmem k (sp + 2)) c, False))"

definition syscall_perform :: "int \<Rightarrow> int \<Rightarrow> int \<Rightarrow> int \<Rightarrow> addr \<Rightarrow> 'a kernel_scheme \<Rightarrow> ('a kernel_scheme \<times> int) option" where
  "syscall_perform junk c operation dest m k =
     (if operation = WINIX_SENDREC \<or> operation = WINIX_SEND
      then do { let k = (if operation = WINIX_SENDREC
                         then upd_proc c (p_state_update (\<lambda>s. set_flag s STATE_RECEIVING)) k else k);
                (k, ret) \<leftarrow> do_send c dest m k;
                Some (if ret < 0 then upd_proc c (p_state_update (\<lambda>s. clear_flag s STATE_RECEIVING)) k else k, ret) }
      else if operation = WINIX_RECEIVE then do_receive m k
      else if operation = WINIX_NOTIFY then do_notify (kmem k (m_src m)) dest m k
      else if operation = WINIX_STACK_TRACE then Some (k, junk)
      else Some (k, - EINVAL))"

definition syscall_body :: "int \<Rightarrow> 'a kernel_scheme \<Rightarrow> 'a kernel_scheme option" where
  "syscall_body junk k =
     (case curr_scheduling_proc k of
        None \<Rightarrow> Some k
      | Some c \<Rightarrow>
          let (k, operation, dest, m, direct_syscall) = syscall_decode c k;
              k = upd_mem (\<lambda>mem. mem(m_src m := p_proc_nr (procs k c))) k
          in do { (k, ret) \<leftarrow> syscall_perform junk c operation dest m k;
                  Some (if \<not> direct_syscall \<or> ret < 0 then set_reg0 c ret k else k) })"

definition syscall_handler :: "'a closer \<Rightarrow> int \<Rightarrow> 'a kernel_scheme \<Rightarrow> 'a kernel_scheme option" where
  "syscall_handler fops_close junk k = do { k \<leftarrow> syscall_body junk k; sched fops_close k }"

datatype expt_handler = No_expt | Button_handler | Clock_handler | Parallel_handler | Serial1_handler | Serial2_handler
  | Gpf_handler | Syscall_handler | Break_handler | Arith_handler | Tty_handler

definition handlers0 :: "expt_handler list" where
  "handlers0 = [No_expt, No_expt, No_expt, No_expt, No_expt, Button_handler, Clock_handler, Parallel_handler,
     Serial1_handler, Serial2_handler, No_expt, No_expt, Gpf_handler, Syscall_handler, Break_handler, Arith_handler]"

definition register_irq :: "int \<Rightarrow> expt_handler \<Rightarrow> expt_handler list \<Rightarrow> expt_handler list" where
  "register_irq irq handler handlers = (if irq < 0 \<or> irq \<ge> 15 then handlers else handlers[nat irq := handler])"

text \<open>Calling one handler; \<open>tty\<close> is the terminal driver's, which is registered at run time.\<close>

definition run_handler :: "'a closer \<Rightarrow> int \<Rightarrow> ('a kernel_scheme \<Rightarrow> 'a kernel_scheme outcome option) \<Rightarrow> expt_handler \<Rightarrow>
    'a kernel_scheme \<Rightarrow> 'a kernel_scheme outcome option" where
  "run_handler fops_close junk tty h k =
     (case h of
        No_expt \<Rightarrow> None
      | Clock_handler \<Rightarrow> map_option Switched (clock_handler fops_close k)
      | Gpf_handler \<Rightarrow> map_option Switched (gpf_handler fops_close k)
      | Syscall_handler \<Rightarrow> map_option Switched (syscall_handler fops_close junk k)
      | Arith_handler \<Rightarrow> map_option Switched (arith_handler fops_close k)
      | Tty_handler \<Rightarrow> tty k
      | _ \<Rightarrow> Some (Returned k))"

text \<open>The loop of \<^verbatim>\<open>exception_handler\<close> from bit \<open>i\<close> down. It starts at \<^verbatim>\<open>NUM_HANDLERS\<close>,
  one past the end of the table.\<close>

function exception_loop :: "('h \<Rightarrow> 'a kernel_scheme \<Rightarrow> 'a kernel_scheme outcome option) \<Rightarrow> 'h list \<Rightarrow> u32 \<Rightarrow> int \<Rightarrow>
    'a kernel_scheme \<Rightarrow> 'a kernel_scheme outcome option" where
  "exception_loop run handlers estat i k =
     (if i < 0 then Some (Returned k)
      else if bit estat (nat i)
      then do { h \<leftarrow> aget handlers i;
                r \<leftarrow> run h (k\<lparr>irq_count := irq_count k + 1\<rparr>);
                case r of Returned k \<Rightarrow> exception_loop run handlers estat (i - 1) k | Switched k \<Rightarrow> Some (Switched k) }
      else exception_loop run handlers estat (i - 1) k)"
  by pat_completeness auto
termination
  by (relation "measure (\<lambda>(run, hs, e, i, k). nat (i + 1))") auto

declare exception_loop.simps [simp del]

definition exception_handler :: "('h \<Rightarrow> 'a kernel_scheme \<Rightarrow> 'a kernel_scheme outcome option) \<Rightarrow> 'h list \<Rightarrow> u32 \<Rightarrow>
    'a kernel_scheme \<Rightarrow> 'a kernel_scheme outcome option" where
  "exception_handler run handlers estat k = exception_loop run handlers estat NUM_HANDLERS (k\<lparr>irq_count := 0\<rparr>)"

section \<open>The system task\<close>

type_synonym 'a handler = "int \<Rightarrow> addr \<Rightarrow> 'a kernel_scheme \<Rightarrow> ('a kernel_scheme \<times> int) option"

definition syscall_region_begin :: "int \<Rightarrow> 'a kernel_scheme \<Rightarrow> 'a kernel_scheme option" where
  "syscall_region_begin caller k =
     (let k = set_bill_ptr caller k;
          k = upd_proc SYSTEM (p_flags_update (\<lambda>f. set_flag f BILLABLE)) k;
          k = k\<lparr>curr_syscall := kmem k (m_type (mesg_addr k))\<rparr>;
          k = upd_proc caller (\<lambda>r. r\<lparr>p_syscall_start_time := get_uptime k, p_state := set_flag (p_state r) STATE_RECEIVING\<rparr>) k;
          k = k\<lparr>curr_syscall_caller := Some caller\<rparr>
      in if curr_caller_proc_nr k = SYSTEM then None else Some k)"

definition syscall_region_end :: "'a kernel_scheme \<Rightarrow> 'a kernel_scheme" where
  "syscall_region_end k =
     (let k = upd_proc SYSTEM (p_flags_update (\<lambda>f. clear_flag f BILLABLE)) k;
          k = upd_mem (memset (mesg_addr k) 0 MESSAGE_LEN) k
      in k\<lparr>curr_caller_proc_nr := 0, curr_syscall := 0\<rparr>)"

definition is_in_syscall :: "int \<Rightarrow> 'a kernel_scheme \<Rightarrow> bool" where
  "is_in_syscall who k \<longleftrightarrow> has_flag (p_state (procs k who)) STATE_RECEIVING \<and> curr_caller_proc_nr k = p_proc_nr (procs k who)"

definition no_syscall :: "'a handler" where
  "no_syscall who m k = Some (k, - ENOSYS)"

definition syscall_not_implemented :: "'a handler" where
  "syscall_not_implemented who m k = Some (k, - ENOSYS)"

text \<open>The table has \<^verbatim>\<open>_NSYSCALL\<close> entries; index \<^verbatim>\<open>_NSYSCALL\<close>, which the source admits, is
  outside it.\<close>

definition find_handler :: "(int \<Rightarrow> 'a handler option) \<Rightarrow> int \<Rightarrow> 'a handler option" where
  "find_handler syscall_table n =
     (if n \<ge> 1 \<and> n \<le> NSYSCALL
      then if n = NSYSCALL then None
           else Some (case syscall_table n of Some h \<Rightarrow> h | None \<Rightarrow> syscall_not_implemented)
      else Some no_syscall)"

text \<open>One turn of the loop of \<^verbatim>\<open>system_main\<close>, from the moment a message has been received.\<close>

definition system_main :: "'a closer \<Rightarrow> (int \<Rightarrow> 'a handler option) \<Rightarrow> 'a kernel_scheme \<Rightarrow> 'a kernel_scheme option" where
  "system_main fops_close syscall_table k =
     do { let mesg = mesg_addr k;
          let k = k\<lparr>curr_caller_proc_nr := kmem k (m_src mesg)\<rparr>;
          case get_proc k (curr_caller_proc_nr k) of
            None \<Rightarrow> Some k
          | Some caller \<Rightarrow>
              do { k \<leftarrow> syscall_region_begin caller k;
                   h \<leftarrow> find_handler syscall_table (kmem k (m_type mesg));
                   (k, reply) \<leftarrow> h caller mesg k;
                   k \<leftarrow> (if reply = SUSPEND \<or> reply = DONTREPLY then Some k
                         else do { (k, _) \<leftarrow> syscall_reply2 (curr_syscall k) reply (curr_caller_proc_nr k) mesg k; Some k });
                   (k, _) \<leftarrow> handle_pendingsig fops_close caller (reply = DONTREPLY \<or> reply = SUSPEND) k;
                   Some (syscall_region_end k) } }"

text \<open>\<^verbatim>\<open>init_syscall_table\<close>: the entries in the order of the source.\<close>

definition init_syscall_table :: "(int \<times> string) list" where
  "init_syscall_table =
     [(1, ''do_times''), (2, ''do_exit''), (3, ''do_fork''), (4, ''do_vfork''), (5, ''do_execve''), (6, ''do_brk''),
      (7, ''do_alarm''), (8, ''do_sigaction''), (9, ''do_sigreturn''), (10, ''do_waitpid''), (11, ''do_kill''),
      (12, ''do_getpid''), (13, ''do_winfo''), (14, ''do_winix_strerror''), (15, ''do_winix_dprintf''),
      (16, ''do_sysconf''), (17, ''do_sigsuspend''), (18, ''do_sigpending''), (19, ''do_sigprocmask''),
      (20, ''do_setpgid''), (21, ''do_getpgid''), (22, ''do_open''), (26, ''do_creat''), (25, ''do_close''),
      (23, ''do_read''), (24, ''do_write''), (27, ''do_pipe''), (28, ''do_mknod''), (29, ''do_chdir''),
      (30, ''do_chown''), (31, ''do_chmod''), (32, ''do_stat''), (33, ''do_fstat''), (34, ''do_dup''),
      (35, ''do_dup2''), (36, ''do_link''), (37, ''do_unlink''), (38, ''do_getdents''), (39, ''do_access''),
      (40, ''do_mkdir''), (41, ''do_sync''), (42, ''do_lseek''), (43, ''do_umask''), (44, ''do_fcntl''),
      (45, ''do_ioctl''), (46, ''do_setsid''), (47, ''do_nanosleep''), (48, ''do_getppid''), (49, ''do_signal''),
      (50, ''do_sbrk''), (51, ''do_statfs''), (52, ''do_getcwd''), (53, ''do_tfork''), (54, ''do_sched_yield''),
      (55, ''do_setitimer''), (56, ''do_rmdir'')]"

text \<open>The handlers of this development, by name; the others are the argument \<open>others\<close>.\<close>

definition kernel_handler :: "'a closer \<Rightarrow> (string \<Rightarrow> 'a handler option) \<Rightarrow> string \<Rightarrow> 'a handler option" where
  "kernel_handler fops_close others name =
     (if name = ''do_times'' then Some do_times else if name = ''do_exit'' then Some (do_exit fops_close)
      else if name = ''do_fork'' then Some do_fork else if name = ''do_vfork'' then Some do_vfork
      else if name = ''do_brk'' then Some do_brk else if name = ''do_alarm'' then Some do_alarm
      else if name = ''do_sigaction'' then Some do_sigaction else if name = ''do_sigreturn'' then Some do_sigreturn
      else if name = ''do_waitpid'' then Some do_waitpid else if name = ''do_kill'' then Some (do_kill fops_close)
      else if name = ''do_getpid'' then Some (\<lambda>who m k. Some (do_getpid who m k))
      else if name = ''do_sysconf'' then Some (\<lambda>who m k. Some (k, do_sysconf who m k))
      else if name = ''do_sigsuspend'' then Some (\<lambda>who m k. Some (do_sigsuspend who m k))
      else if name = ''do_sigpending'' then Some do_sigpending else if name = ''do_sigprocmask'' then Some do_sigprocmask
      else if name = ''do_setpgid'' then Some (\<lambda>who m k. Some (do_setpgid who m k))
      else if name = ''do_getpgid'' then Some (\<lambda>who m k. Some (k, do_getpgid who m k))
      else if name = ''do_setsid'' then Some (\<lambda>who m k. Some (do_setsid who m k))
      else if name = ''do_nanosleep'' then Some do_nanosleep else if name = ''do_getppid'' then Some do_getppid
      else if name = ''do_signal'' then Some do_signal else if name = ''do_sbrk'' then Some do_sbrk
      else if name = ''do_tfork'' then Some do_tfork
      else if name = ''do_sched_yield'' then Some (\<lambda>who m k. Some (do_sched_yield who m k))
      else if name = ''do_setitimer'' then Some do_setitimer else others name)"

definition syscall_table :: "'a closer \<Rightarrow> (string \<Rightarrow> 'a handler option) \<Rightarrow> int \<Rightarrow> 'a handler option" where
  "syscall_table fops_close others n = Option.bind (map_of init_syscall_table n) (kernel_handler fops_close others)"

section \<open>A system call reaches the system task\<close>

lemma ops_inter:
  "ops_ints \<inter> ops_int_ptr_int = {}" "ops_ptrs \<inter> ops_ints = {}" "ops_ptrs \<inter> ops_int_ptr_int = {}"
  "ops_int_ptr_ptr \<inter> ops_ints = {}" "ops_int_ptr_ptr \<inter> ops_int_ptr_int = {}" "ops_int_ptr_ptr \<inter> ops_ptrs = {}"
  by code_simp+

lemma ops_disjoint:
  "x \<in> ops_int_ptr_int \<Longrightarrow> x \<notin> ops_ints" "x \<in> ops_ptrs \<Longrightarrow> x \<notin> ops_ints \<and> x \<notin> ops_int_ptr_int"
  "x \<in> ops_int_ptr_ptr \<Longrightarrow> x \<notin> ops_ints \<and> x \<notin> ops_int_ptr_int \<and> x \<notin> ops_ptrs"
  using ops_inter by blast+

lemma ops_sub: "x \<in> ops_ints2 \<Longrightarrow> x \<in> ops_ints" "x \<in> ops_ptrs2 \<Longrightarrow> x \<in> ops_ptrs"
  by (auto simp: ops_ints_def ops_ints2_def ops_ptrs_def ops_ptrs2_def)

lemma put_apply: "put a v mem b = (if b = a then v else mem b)"
  by (simp add: put_def)

lemma mesg_heads:
  "mesg_ints operation sp m mem m = mem m" "mesg_ints operation sp m mem (m + 1) = mem (m + 1)"
  "mesg_int_ptr_int sp m mem m = mem m" "mesg_int_ptr_int sp m mem (m + 1) = mem (m + 1)"
  "mesg_ptrs operation sp m mem m = mem m" "mesg_ptrs operation sp m mem (m + 1) = mem (m + 1)"
  "mesg_int_ptr_ptr sp m mem m = mem m" "mesg_int_ptr_ptr sp m mem (m + 1) = mem (m + 1)"
  "mesg_int_int_rest sp m mem m = mem m" "mesg_int_int_rest sp m mem (m + 1) = mem (m + 1)"
  by (simp_all add: mesg_ints_def mesg_int_ptr_int_def mesg_ptrs_def mesg_int_ptr_ptr_def mesg_int_int_rest_def put_apply Let_def)

lemma mesg_exception_head:
  "set_syscall_mesg_exception operation sp m mem (m_src m) = mem (m_src m)"
  "set_syscall_mesg_exception operation sp m mem (m_type m) = mem (m_type m)"
  by (simp_all only: set_syscall_mesg_exception_def mesg_heads if_cancel if_distrib [of "\<lambda>f. f _"])

lemma mesg_ints_args:
  assumes "m + MESSAGE_LEN \<le> sp" "mem' = set_syscall_mesg_exception operation sp m mem" "operation \<in> ops_ints"
  shows "mem' (m1_i1 m) = mem sp" "operation \<in> ops_ints2 \<Longrightarrow> mem' (m1_i2 m) = mem (sp + 1)"
  using assms by (auto simp: set_syscall_mesg_exception_def mesg_ints_def put_apply Let_def)

lemma mesg_int_ptr_int_args:
  assumes "m + MESSAGE_LEN \<le> sp" "mem' = set_syscall_mesg_exception operation sp m mem" "operation \<in> ops_int_ptr_int"
  shows "mem' (m1_i1 m) = mem sp" "mem' (m1_p1 m) = mem (sp + 1)" "mem' (m1_i2 m) = mem (sp + 2)"
  using assms ops_disjoint(1) [OF assms(3)]
  by (auto simp: set_syscall_mesg_exception_def mesg_int_ptr_int_def put_apply Let_def)

lemma mesg_ptrs_args:
  assumes "m + MESSAGE_LEN \<le> sp" "mem' = set_syscall_mesg_exception operation sp m mem" "operation \<in> ops_ptrs"
  shows "mem' (m1_p1 m) = mem sp" "operation \<in> ops_ptrs2 \<Longrightarrow> mem' (m1_p2 m) = mem (sp + 1)"
  using assms ops_disjoint(2) [OF assms(3)]
  by (auto simp: set_syscall_mesg_exception_def mesg_ptrs_def put_apply Let_def)

lemma mesg_int_ptr_ptr_args:
  assumes "m + MESSAGE_LEN \<le> sp" "mem' = set_syscall_mesg_exception operation sp m mem" "operation \<in> ops_int_ptr_ptr"
  shows "mem' (m1_i1 m) = mem sp" "mem' (m1_p1 m) = mem (sp + 1)" "mem' (m1_p2 m) = mem (sp + 2)"
  using assms ops_disjoint(3) [OF assms(3)]
  by (auto simp: set_syscall_mesg_exception_def mesg_int_ptr_ptr_def put_apply Let_def)

lemma direct_syscall_run:
  assumes inv: "sq_inv k sq" "rq_inv k qs" and c: "curr_scheduling_proc k = Some c" "c \<noteq> SYSTEM" "p_state (procs k c) = STATE_RUNNABLE"
    and sys: "IS_INUSE k SYSTEM" "p_state (procs k SYSTEM) = STATE_RECEIVING" "\<not> queued qs SYSTEM" "i = p_priority (procs k SYSTEM)" "IS_PRIORITY_OK i"
    and sp: "sp = phys k (c_sp (p_ctx (procs k c))) c" and op: "operation = kmem k sp" "0 < operation" "operation < NSYSCALL"
    and m: "m = USER_TMP_MESSAGE k c"
    and mem: "mem = (set_syscall_mesg_exception operation (sp + 1) m ((kmem k)(m_type m := operation)))(m_src m := p_proc_nr (procs k c))"
  shows "\<exists>k'. syscall_body junk k = Some k' \<and> kmem k' = copy_message (p_message (procs k SYSTEM)) m mem \<and>
     p_state (procs k' c) = STATE_RECEIVING \<and> p_state (procs k' SYSTEM) = STATE_RUNNABLE \<and> sq_inv k' sq \<and> rq_inv k' (qs(i := SYSTEM # qs i))"
proof -
  define k1 where "k1 = upd_mem (\<lambda>mem. set_syscall_mesg_exception operation (sp + 1) m (mem(m_type m := operation)))
    (upd_proc c (p_flags_update (\<lambda>f. set_flag f DIRECT_SYSCALL)) k)"
  have dec: "syscall_decode c k = (k1, WINIX_SENDREC, SYSTEM, m, True)"
    using op unfolding syscall_decode_def Let_def sp [symmetric] op(1) [symmetric] m [symmetric] by (simp add: k1_def)
  define k2 where "k2 = upd_proc c (p_state_update (\<lambda>s. set_flag s STATE_RECEIVING)) (upd_mem (\<lambda>mem. mem(m_src m := p_proc_nr (procs k1 c))) k1)"
  have k2: "kmem k2 = mem" "p_state (procs k2 c) = STATE_RECEIVING" "p_message (procs k2 SYSTEM) = p_message (procs k SYSTEM)"
      "p_state (procs k2 SYSTEM) = STATE_RECEIVING" "IS_INUSE k2 SYSTEM" "p_priority (procs k2 SYSTEM) = i" "pnext k2 = pnext k" "ready_q k2 = ready_q k"
      "snext k2 = snext k" "\<And>q. p_sender_q (procs k2 q) = p_sender_q (procs k q)" "\<And>q. q \<noteq> c \<Longrightarrow> p_state (procs k2 q) = p_state (procs k q)"
    using c sys mem by (auto simp: k2_def k1_def IS_INUSE_def set_flag_def)
  have nc: "c \<notin> set (sq d)" for d using inv(1) c(3) by (force simp: sq_inv_def)
  have "sq_inv k2 sq" using inv(1) k2(9-11) nc unfolding sq_inv_def by (metis (no_types, lifting))
  moreover have "rq_inv k2 qs" using inv(2) rq_inv_cong [OF k2(7,8)] by simp
  moreover have "IS_PROCN_OK SYSTEM" by (simp add: IS_PROCN_OK_def)
  ultimately obtain k' where k': "do_send c SYSTEM m k2 = Some (k', 0)" "kmem k' = copy_message (p_message (procs k2 SYSTEM)) m (kmem k2)"
      "p_state (procs k' SYSTEM) = STATE_RUNNABLE" "\<forall>q. q \<noteq> SYSTEM \<longrightarrow> p_state (procs k' q) = p_state (procs k2 q)"
      "sq_inv k' sq" "rq_inv k' (qs(i := SYSTEM # qs i))"
    using do_send_deliver_run [of k2 sq qs SYSTEM c i m] k2 c(2) sys(3,5) by auto
  have "syscall_body junk k = Some k'"
    using k'(1) by (simp add: syscall_body_def c(1) dec syscall_perform_def k2_def)
  with k' k2 c(2) show ?thesis by auto
qed

section \<open>Properties\<close>

text \<open>
  A direct system call reaches the system task: the caller's number and the words on its
  stack arrive in the task's buffer as the message of that call (the stack words in the fields
  that the call's handler reads), the source field is the caller's own number whatever the
  caller wrote, the caller waits for the reply, and the task is at the head of its ready
  queue.
\<close>

theorem direct_syscall_enters:
  assumes "sq_inv k sq" "rq_inv k qs" "curr_scheduling_proc k = Some c" "c \<noteq> SYSTEM" "p_state (procs k c) = STATE_RUNNABLE"
    and "IS_INUSE k SYSTEM" "p_state (procs k SYSTEM) = STATE_RECEIVING" "\<not> queued qs SYSTEM" "i = p_priority (procs k SYSTEM)" "IS_PRIORITY_OK i"
    and "sp = phys k (c_sp (p_ctx (procs k c))) c" "operation = kmem k sp" "0 < operation" "operation < NSYSCALL"
    and "USER_TMP_MESSAGE k c + MESSAGE_LEN \<le> sp" "b = p_message (procs k SYSTEM)"
  shows "\<exists>k'. syscall_body junk k = Some k' \<and> p_state (procs k' c) = STATE_RECEIVING \<and> p_state (procs k' SYSTEM) = STATE_RUNNABLE \<and>
     rq_inv k' (qs(i := SYSTEM # qs i)) \<and> kmem k' (m_src b) = p_proc_nr (procs k c) \<and> kmem k' (m_type b) = operation \<and>
     (operation \<in> ops_ints \<longrightarrow> kmem k' (m1_i1 b) = kmem k (sp + 1)) \<and>
     (operation \<in> ops_ints2 \<longrightarrow> kmem k' (m1_i2 b) = kmem k (sp + 2)) \<and>
     (operation \<in> ops_int_ptr_int \<longrightarrow>
        kmem k' (m1_i1 b) = kmem k (sp + 1) \<and> kmem k' (m1_p1 b) = kmem k (sp + 2) \<and> kmem k' (m1_i2 b) = kmem k (sp + 3)) \<and>
     (operation \<in> ops_ptrs \<longrightarrow> kmem k' (m1_p1 b) = kmem k (sp + 1)) \<and>
     (operation \<in> ops_ptrs2 \<longrightarrow> kmem k' (m1_p2 b) = kmem k (sp + 2)) \<and>
     (operation \<in> ops_int_ptr_ptr \<longrightarrow>
        kmem k' (m1_i1 b) = kmem k (sp + 1) \<and> kmem k' (m1_p1 b) = kmem k (sp + 2) \<and> kmem k' (m1_p2 b) = kmem k (sp + 3))"
proof -
  define m where "m = USER_TMP_MESSAGE k c"
  define mem0 where "mem0 = set_syscall_mesg_exception operation (sp + 1) m ((kmem k)(m_type m := operation))"
  have far: "m + MESSAGE_LEN \<le> sp + 1" using assms(15) by (simp add: m_def)
  have words: "((kmem k)(m_type m := operation)) (sp + 1) = kmem k (sp + 1)" "((kmem k)(m_type m := operation)) (sp + 1 + 1) = kmem k (sp + 2)"
    "((kmem k)(m_type m := operation)) (sp + 1 + 2) = kmem k (sp + 3)" using assms(15) by (simp_all add: m_def add.commute)
  note args = mesg_ints_args [OF far mem0_def] mesg_int_ptr_int_args [OF far mem0_def] mesg_ptrs_args [OF far mem0_def]
    mesg_int_ptr_ptr_args [OF far mem0_def]
  have type: "mem0 (m + 1) = operation" by (simp add: mem0_def mesg_exception_head)
  obtain k' where k': "syscall_body junk k = Some k'" "kmem k' = copy_message b m (mem0(m_src m := p_proc_nr (procs k c)))"
     "p_state (procs k' c) = STATE_RECEIVING" "p_state (procs k' SYSTEM) = STATE_RUNNABLE" "rq_inv k' (qs(i := SYSTEM # qs i))"
    using direct_syscall_run [OF assms(1-14) m_def refl, of junk] assms(16) by (auto simp: mem0_def)
  have f: "kmem k' (b + j) = (mem0(m_src m := p_proc_nr (procs k c))) (m + j)" if "0 \<le> j" "j < 8" for j
    using that by (simp add: k'(2) copy_message_def)
  have g: "kmem k' b = p_proc_nr (procs k c)" "kmem k' (b + 1) = mem0 (m + 1)" "kmem k' (b + 2) = mem0 (m + 2)" "kmem k' (b + 3) = mem0 (m + 3)"
    "kmem k' (b + 5) = mem0 (m + 5)" "kmem k' (b + 6) = mem0 (m + 6)"
    using f [of 0] f [of 1] f [of 2] f [of 3] f [of 5] f [of 6] by simp_all
  show ?thesis
    using k'(1,3-5) by (intro exI [of _ k'] conjI impI) (simp_all add: g args [unfolded words] type ops_sub)
qed

text \<open>Process 1 is about to make a system call and the system task waits for a message at address 600.\<close>

definition kernel_call :: "int \<Rightarrow> kernel" where
  "kernel_call operation = upd_mem (\<lambda>m. m(4000 := operation, 4001 := 11, 4002 := 22, 4003 := 33))
     (upd_proc SYSTEM (\<lambda>r. r\<lparr>p_flags := IN_USE, p_state := STATE_RECEIVING, p_message := 600\<rparr>)
       (upd_proc 1 (\<lambda>r. r\<lparr>p_flags := IN_USE, p_state := STATE_RUNNABLE, p_stack_top := 3000, p_ctx := (p_ctx r)\<lparr>c_sp := 4000\<rparr>\<rparr>)
         (kernel0\<lparr>curr_scheduling_proc := Some 1\<rparr>)))"

lemma kernel_call_inv: "sq_inv (kernel_call n) (\<lambda>_. [])" "rq_inv (kernel_call n) (\<lambda>_. [])"
proof -
  have "pnext (kernel_call n) = pnext kernel0" "ready_q (kernel_call n) = ready_q kernel0"
    by (simp_all add: kernel_call_def pnext_def fun_eq_iff)
  then show "rq_inv (kernel_call n) (\<lambda>_. [])" using kernel0_rq rq_inv_cong by blast
  show "sq_inv (kernel_call n) (\<lambda>_. [])" by (simp add: sq_inv_def kernel_call_def kernel0_procs proc_default_def proc_zero_def)
qed

theorem direct_syscall_enters_witness:
  "\<exists>k'. syscall_body 0 (kernel_call 23) = Some k' \<and> kmem k' 601 = 23 \<and> kmem k' 602 = 11 \<and> kmem k' 605 = 22 \<and> kmem k' 603 = 33"
proof -
  have f: "curr_scheduling_proc (kernel_call 23) = Some 1" "p_state (procs (kernel_call 23) 1) = 0" "IS_INUSE (kernel_call 23) 0"
    "p_state (procs (kernel_call 23) 0) = STATE_RECEIVING" "p_priority (procs (kernel_call 23) 0) = 3" "p_message (procs (kernel_call 23) 0) = 600"
    "phys (kernel_call 23) (c_sp (p_ctx (procs (kernel_call 23) 1))) 1 = 4000" "USER_TMP_MESSAGE (kernel_call 23) 1 = 3016"
    "kmem (kernel_call 23) 4000 = 23" "kmem (kernel_call 23) 4001 = 11" "kmem (kernel_call 23) 4002 = 22" "kmem (kernel_call 23) 4003 = 33"
    by (simp_all add: kernel_call_def upd_mem_def upd_proc_def IS_INUSE_def has_flag_def kernel0_procs IS_PROCN_OK_def phys_def get_physical_addr_def
        USER_TMP_MESSAGE_def proc_default_def proc_zero_def)
  have r: "23 \<in> ops_int_ptr_int" by (simp add: ops_int_ptr_int_def)
  have q: "1 \<noteq> SYSTEM" "\<not> queued (\<lambda>_. []) SYSTEM" "IS_PRIORITY_OK 3" "0 < (23 :: int)" "23 < NSYSCALL"
    "USER_TMP_MESSAGE (kernel_call 23) 1 + MESSAGE_LEN \<le> 4000" using f(8) by (simp_all add: queued_def IS_PRIORITY_OK_def)
  obtain k' where k': "syscall_body 0 (kernel_call 23) = Some k'" "kmem k' (m_type 600) = 23"
      "23 \<in> ops_int_ptr_int \<longrightarrow> kmem k' (m1_i1 600) = kmem (kernel_call 23) (4000 + 1) \<and>
         kmem k' (m1_p1 600) = kmem (kernel_call 23) (4000 + 2) \<and> kmem k' (m1_i2 600) = kmem (kernel_call 23) (4000 + 3)"
    using direct_syscall_enters [OF kernel_call_inv f(1) q(1) f(2,3,4) q(2) f(5) [symmetric] q(3) f(7) [symmetric] f(9) [symmetric] q(4-6) f(6) [symmetric], of 0]
    by blast
  then show ?thesis using r f(10-12) by simp
qed

end
