(* ===== verification/Slab.thy ===== *)
theory Slab
  imports Mm
begin

text \<open>
  The kernel's allocator (\<^verbatim>\<open>winix/slab.c\<close>). A block is a header of six words followed by its
  data; the headers are records in a store indexed by address, and 0 is the null pointer. The
  list of blocks runs from \<^verbatim>\<open>base\<close> along the \<^verbatim>\<open>prev\<close> links. New memory comes from the page
  allocator. The printing routines are left out.
\<close>

abbreviation (input) SLAB_HEADER_SIZE :: int where "SLAB_HEADER_SIZE \<equiv> 6"

record mem_block =
  b_size :: int
  b_next :: addr
  b_prev :: addr
  b_ra :: addr
  b_free :: bool
  b_ptr :: addr

record slab =
  blocks :: "addr \<Rightarrow> mem_block"
  base :: addr
  smm :: mm

definition upd_block :: "addr \<Rightarrow> (mem_block \<Rightarrow> mem_block) \<Rightarrow> slab \<Rightarrow> slab" where
  "upd_block b f s = s\<lparr>blocks := (blocks s)(b := f (blocks s b))\<rparr>"

text \<open>\<^verbatim>\<open>b->data\<close>.\<close>

definition data :: "addr \<Rightarrow> addr" where
  "data b = b + SLAB_HEADER_SIZE"

section \<open>Operations\<close>

text \<open>The walk of \<^verbatim>\<open>find_block\<close>: the last block passed and the block found, or null.\<close>

partial_function (option) find_block :: "(addr \<Rightarrow> mem_block) \<Rightarrow> addr \<Rightarrow> addr \<Rightarrow> int \<Rightarrow> (addr \<times> addr) option" where
  "find_block bs first b sz =
     (if b \<noteq> NULL \<and> \<not> (b_free (bs b) \<and> b_size (bs b) \<ge> sz) then find_block bs b (b_prev (bs b)) sz
      else Some (first, b))"

definition split_block :: "addr \<Rightarrow> int \<Rightarrow> slab \<Rightarrow> slab \<times> addr" where
  "split_block b sz s =
     (let new = data b + b_size (blocks s b) - sz - SLAB_HEADER_SIZE;
          s = upd_block new (\<lambda>r. r\<lparr>b_size := sz, b_next := b_next (blocks s b), b_prev := b, b_free := True, b_ptr := data new\<rparr>) s;
          s = upd_block b (\<lambda>r. r\<lparr>b_size := b_size r - sz - SLAB_HEADER_SIZE, b_next := new\<rparr>) s;
          s = (if b = base s then s\<lparr>base := new\<rparr> else s);
          s = (if b_next (blocks s new) \<noteq> NULL then upd_block (b_next (blocks s new)) (b_prev_update (\<lambda>_. new)) s else s)
      in (s, new))"

definition extend_heap :: "addr \<Rightarrow> int \<Rightarrow> slab \<Rightarrow> (slab \<times> addr) option" where
  "extend_heap first sz s =
     (let sz = (if sz < SLAB_HEADER_SIZE then SLAB_HEADER_SIZE + 1 else sz);
          round_s = align_page sz in
      do { (m, ptr) \<leftarrow> get_free_pages (smm s) round_s GFP_HIGH;
           let s = s\<lparr>smm := m\<rparr>;
           if ptr = NULL then Some (s, NULL)
           else let s = upd_block ptr (\<lambda>r. r\<lparr>b_size := round_s - SLAB_HEADER_SIZE, b_prev := NULL, b_next := first,
                                             b_ptr := data ptr, b_free := True\<rparr>) s;
                    s = (if first \<noteq> NULL then upd_block first (b_prev_update (\<lambda>_. ptr)) s else s);
                    s = (if base s = NULL then s\<lparr>base := ptr\<rparr> else s)
                in Some (if round_s - sz > SLAB_HEADER_SIZE * 2 then split_block ptr sz s else (s, ptr)) })"

definition kmalloc :: "int \<Rightarrow> int \<Rightarrow> addr \<Rightarrow> slab \<Rightarrow> (slab \<times> addr) option" where
  "kmalloc nitimes sz ra s =
     (let sz = (sz * nitimes) mod 2 ^ 32 in
      do { (s, b) \<leftarrow>
             (if base s \<noteq> NULL
              then do { (first, b) \<leftarrow> find_block (blocks s) (base s) (base s) sz;
                        if b \<noteq> NULL
                        then Some (if b_size (blocks s b) - sz \<ge> SLAB_HEADER_SIZE * 2 then split_block b sz s else (s, b))
                        else extend_heap first sz s }
              else extend_heap NULL sz s);
           if b = NULL then Some (s, NULL)
           else Some (upd_block b (\<lambda>r. r\<lparr>b_ra := ra, b_free := False\<rparr>) s, data b) })"

definition get_block :: "addr \<Rightarrow> addr" where
  "get_block p = p - SLAB_HEADER_SIZE"

definition valid_addr :: "slab \<Rightarrow> addr \<Rightarrow> bool" where
  "valid_addr s p \<longleftrightarrow> p \<noteq> NULL \<and> b_ptr (blocks s (get_block p)) = p"

definition fusion :: "addr \<Rightarrow> slab \<Rightarrow> slab \<times> addr" where
  "fusion b s =
     (let next = b_next (blocks s b) in
      (if next \<noteq> NULL \<and> b_free (blocks s next) \<and> b_ptr (blocks s b) + b_size (blocks s b) = next
       then let s = upd_block b (\<lambda>r. r\<lparr>b_size := b_size r + (SLAB_HEADER_SIZE + b_size (blocks s next)),
                       b_next := b_next (blocks s next)\<rparr>) s;
                s = (if next = base s then s\<lparr>base := b\<rparr> else s)
            in (if b_next (blocks s b) \<noteq> NULL then upd_block (b_next (blocks s b)) (b_prev_update (\<lambda>_. b)) s else s)
       else s, b))"

definition kfree :: "addr \<Rightarrow> addr \<Rightarrow> slab \<Rightarrow> slab" where
  "kfree p ra s =
     (if valid_addr s p
      then let b = get_block p;
               s = upd_block b (b_free_update (\<lambda>_. True)) s;
               (s, b) = (if b_prev (blocks s b) \<noteq> NULL \<and> b_free (blocks s (b_prev (blocks s b)))
                         then fusion (b_prev (blocks s b)) s else (s, b))
           in (if b_next (blocks s b) \<noteq> NULL \<and> b_free (blocks s (b_next (blocks s b))) then fst (fusion b s) else s)
      else s)"

section \<open>The list of blocks\<close>

text \<open>
  \<open>bs\<close> are the blocks from \<^verbatim>\<open>base\<close> on, linked both ways; their extents do not overlap, and
  each header carries the address of its data.
\<close>

primrec lseg :: "(addr \<Rightarrow> mem_block) \<Rightarrow> addr \<Rightarrow> addr \<Rightarrow> addr list \<Rightarrow> addr \<Rightarrow> bool" where
  "lseg m nxt p [] q \<longleftrightarrow> p = q"
| "lseg m nxt p (x # xs) q \<longleftrightarrow> p = x \<and> x \<noteq> NULL \<and> b_next (m x) = nxt \<and> lseg m x (b_prev (m x)) xs q"

definition last_of :: "addr \<Rightarrow> addr list \<Rightarrow> addr" where
  "last_of nxt xs = (if xs = [] then nxt else last xs)"

definition extent :: "slab \<Rightarrow> addr \<Rightarrow> int set" where
  "extent s b = {b..<data b + b_size (blocks s b)}"

definition slab_inv :: "slab \<Rightarrow> addr list \<Rightarrow> bool" where
  "slab_inv s bs \<longleftrightarrow> lseg (blocks s) NULL (base s) bs NULL \<and> distinct bs \<and>
     (\<forall>b\<in>set bs. 0 < b \<and> 0 \<le> b_size (blocks s b) \<and> b_ptr (blocks s b) = data b) \<and>
     (\<forall>b\<in>set bs. \<forall>c\<in>set bs. b \<noteq> c \<longrightarrow> extent s b \<inter> extent s c = {}) \<and>
     (\<forall>b\<in>set bs. \<forall>a\<in>extent s b. nat (a div PAGE_LEN) \<in> used_pages (smm s))"

lemma upd_block_simps [simp]:
  "blocks (upd_block b f s) = (blocks s)(b := f (blocks s b))" "base (upd_block b f s) = base s" "smm (upd_block b f s) = smm s"
  by (simp_all add: upd_block_def)

lemma last_of_simps [simp]: "last_of n [] = n" "last_of n (xs @ [y]) = y" "last_of n (x # xs) = last_of x xs"
  by (simp_all add: last_of_def)

lemma lseg_append: "lseg m nxt p (xs @ ys) q \<longleftrightarrow> (\<exists>r. lseg m nxt p xs r \<and> lseg m (last_of nxt xs) r ys q)"
  by (induction xs arbitrary: nxt p) auto

lemma lseg_cong:
  "(\<And>x. x \<in> set xs \<Longrightarrow> b_next (m' x) = b_next (m x) \<and> b_prev (m' x) = b_prev (m x)) \<Longrightarrow> lseg m' nxt p xs q = lseg m nxt p xs q"
  by (induction xs arbitrary: nxt p) auto

lemma lseg_head: "lseg m nxt p xs q \<Longrightarrow> p = (if xs = [] then q else hd xs)"
  by (cases xs) auto

lemma extent_self: "0 \<le> b_size (blocks s b) \<Longrightarrow> b \<in> extent s b"
  by (simp add: extent_def data_def)

lemma slab_linked: "slab_inv s bs \<Longrightarrow> lseg (blocks s) NULL (base s) bs NULL"
  by (simp add: slab_inv_def)

lemma slab_base: "slab_inv s bs \<Longrightarrow> base s = NULL \<longleftrightarrow> bs = []"
  by (cases bs) (auto simp: slab_inv_def)

section \<open>Finding a block\<close>

definition fitting :: "slab \<Rightarrow> int \<Rightarrow> addr \<Rightarrow> bool" where
  "fitting s sz b \<longleftrightarrow> b_free (blocks s b) \<and> b_size (blocks s b) \<ge> sz"

lemma find_block_step: "find_block (blocks s) first b sz =
    (if b \<noteq> NULL \<and> \<not> fitting s sz b then find_block (blocks s) b (b_prev (blocks s b)) sz else Some (first, b))"
  by (subst find_block.simps) (simp add: fitting_def)

lemma find_block_run:
  "lseg (blocks s) nxt b bs NULL \<Longrightarrow> find_block (blocks s) first b sz =
     Some (case dropWhile (\<lambda>b. \<not> fitting s sz b) bs of
             [] \<Rightarrow> (last_of first bs, NULL)
           | x # _ \<Rightarrow> (last_of first (takeWhile (\<lambda>b. \<not> fitting s sz b) bs), x))"
proof (induction bs arbitrary: nxt b first)
  case Nil
  then show ?case by (subst find_block_step) simp
next
  case (Cons x xs)
  then have x: "b = x" "x \<noteq> NULL" "lseg (blocks s) x (b_prev (blocks s x)) xs NULL" by auto
  show ?case using Cons.IH [OF x(3), of x] x(1,2)
    by (subst find_block_step) (cases "dropWhile (\<lambda>b. \<not> fitting s sz b) xs"; simp del: dropWhile_eq_Nil_conv)
qed

section \<open>Splitting a block\<close>

lemma split_block_run:
  assumes inv: "slab_inv s bs" and bs: "bs = as @ x # cs" and fit: "0 \<le> sz" "sz + SLAB_HEADER_SIZE \<le> b_size (blocks s x)"
    and new: "new = x + b_size (blocks s x) - sz"
  shows "\<exists>s'. split_block x sz s = (s', new) \<and> slab_inv s' (as @ new # x # cs) \<and> new \<notin> set bs \<and> smm s' = smm s \<and>
     b_size (blocks s' new) = sz \<and> b_free (blocks s' new) \<and>
     (\<forall>b\<in>set bs. b_free (blocks s' b) = b_free (blocks s b)) \<and> (\<forall>b\<in>set bs. b \<noteq> x \<longrightarrow> b_size (blocks s' b) = b_size (blocks s b))"
proof -
  let ?m = "blocks s"
  have L: "lseg ?m NULL (base s) as x" "b_next (?m x) = last_of NULL as" "lseg ?m x (b_prev (?m x)) cs NULL" "x \<noteq> NULL"
    using slab_linked [OF inv] by (auto simp: bs lseg_append)
  have d: "distinct bs" and props: "\<And>b. b \<in> set bs \<Longrightarrow> 0 < b \<and> 0 \<le> b_size (?m b) \<and> b_ptr (?m b) = data b"
    and disj: "\<And>b c. b \<in> set bs \<Longrightarrow> c \<in> set bs \<Longrightarrow> b \<noteq> c \<Longrightarrow> extent s b \<inter> extent s c = {}"
    and pages: "\<And>b a. b \<in> set bs \<Longrightarrow> a \<in> extent s b \<Longrightarrow> nat (a div PAGE_LEN) \<in> used_pages (smm s)"
    using inv by (auto simp: slab_inv_def)
  have xin: "x \<in> set bs" by (simp add: bs)
  have newx: "x < new" "new \<in> extent s x" using fit by (auto simp: new extent_def data_def)
  have nin: "new \<notin> set bs"
  proof
    assume "new \<in> set bs"
    then have "new \<in> extent s new" using props extent_self by blast
    with newx disj [OF xin \<open>new \<in> set bs\<close>] show False by auto
  qed
  have n0: "new \<noteq> NULL" using newx(1) props [OF xin] by auto
  define s1 where "s1 = upd_block x (\<lambda>r. r\<lparr>b_size := b_size r - sz - SLAB_HEADER_SIZE, b_next := new\<rparr>)
    (upd_block new (\<lambda>r. r\<lparr>b_size := sz, b_next := b_next (?m x), b_prev := x, b_free := True, b_ptr := data new\<rparr>) s)"
  define s2 where "s2 = (if x = base s1 then s1\<lparr>base := new\<rparr> else s1)"
  define s' where "s' = (if b_next (blocks s2 new) \<noteq> NULL then upd_block (b_next (blocks s2 new)) (b_prev_update (\<lambda>_. new)) s2 else s2)"
  have "data x + b_size (?m x) - sz - SLAB_HEADER_SIZE = new" by (simp add: data_def new)
  then have run: "split_block x sz s = (s', new)"
    by (simp add: split_block_def Let_def s'_def s2_def s1_def)
  have nn: "b_next (blocks s2 new) = last_of NULL as" using L(2) newx by (auto simp: s2_def s1_def)
  have m2: "blocks s2 = blocks s1" "smm s2 = smm s" by (simp_all add: s2_def s1_def)
  have ln: "last_of NULL as \<noteq> new" "last_of NULL as \<noteq> x" using nin d L(4) n0 by (cases as rule: rev_cases; auto simp: bs)+
  have m': "b_next (blocks s' b) = (if b = new then last_of NULL as else if b = x then new else b_next (?m b))"
    "b_prev (blocks s' b) = (if b = new then x else if last_of NULL as \<noteq> NULL \<and> b = last_of NULL as then new else b_prev (?m b))"
    "b_size (blocks s' b) = (if b = new then sz else if b = x then b_size (?m x) - sz - SLAB_HEADER_SIZE else b_size (?m b))"
    "b_free (blocks s' b) = (if b = new then True else b_free (?m b))" "b_ptr (blocks s' b) = (if b = new then data new else b_ptr (?m b))" for b
    using newx nn ln L(2) by (auto simp: s'_def m2 s1_def)
  have base': "base s' = (if x = base s then new else base s)" "smm s' = smm s" by (simp_all add: s'_def s2_def s1_def)
  have link: "lseg (blocks s') NULL (base s') (as @ new # x # cs) NULL"
  proof -
    have cs: "lseg (blocks s') x (b_prev (blocks s' x)) cs NULL"
    proof -
      have "b_prev (blocks s' x) = b_prev (?m x)" using newx ln by (simp add: m')
      moreover have "b \<noteq> new \<and> b \<noteq> x \<and> b \<noteq> last_of NULL as \<or> last_of NULL as = NULL \<and> b \<noteq> new \<and> b \<noteq> x" if "b \<in> set cs" for b
        using that nin d by (cases as rule: rev_cases) (auto simp: bs)
      then have "lseg (blocks s') x p cs NULL = lseg ?m x p cs NULL" for p by (intro lseg_cong) (auto simp: m')
      ultimately show ?thesis using L(3) by simp
    qed
    have "lseg (blocks s') NULL (base s') as new"
    proof (cases as rule: rev_cases)
      case Nil
      with L(1) show ?thesis by (simp add: base')
    next
      case (snoc as' l)
      have lx: "l \<noteq> x" "l \<noteq> new" "l \<noteq> NULL" using d nin props [of l] by (auto simp: bs snoc)
      have "base s \<noteq> x"
        using lseg_head [OF L(1)] d snoc by (cases as') (auto simp: bs)
      moreover have "lseg (blocks s') NULL (base s) as' l = lseg ?m NULL (base s) as' l"
        using d nin by (intro lseg_cong) (auto simp: m' bs snoc)
      ultimately show ?thesis using L(1) lx by (auto simp: snoc lseg_append base' m')
    qed
    then show ?thesis using cs n0 L(4) newx by (auto simp: lseg_append m')
  qed
  have ext: "extent s' b = (if b = new then {new..<data x + b_size (?m x)} else if b = x then {x..<new} else extent s b)" for b
    by (auto simp: extent_def m' data_def new)
  have sub: "extent s' b \<subseteq> (if b = new \<or> b = x then extent s x else extent s b)" for b
    unfolding ext using newx fit(1) by (auto simp: extent_def data_def new)
  have e: "extent s' b \<inter> extent s' c = {}" if bc: "b \<in> set (new # bs)" "c \<in> set (new # bs)" "b \<noteq> c" for b c
  proof -
    consider "b = new" "c = x" | "b = x" "c = new" | "b = new \<or> b = x" "c \<in> set bs" "c \<noteq> x" | "c = new \<or> c = x" "b \<in> set bs" "b \<noteq> x"
      | "b \<in> set bs" "c \<in> set bs" "b \<noteq> x" "c \<noteq> x" using bc by auto
    then show ?thesis
    proof cases
      case 3
      then have "extent s' b \<subseteq> extent s x" "extent s' c \<subseteq> extent s c" using sub [of b] sub [of c] nin by (auto split: if_splits)
      with disj [OF xin 3(2)] 3(3) show ?thesis by blast
    next
      case 4
      then have "extent s' c \<subseteq> extent s x" "extent s' b \<subseteq> extent s b" using sub [of b] sub [of c] nin by (auto split: if_splits)
      with disj [OF xin 4(2)] 4(3) show ?thesis by blast
    next
      case 5
      then have "extent s' b = extent s b" "extent s' c = extent s c" using nin by (auto simp: ext)
      with disj [OF 5(1,2) bc(3)] show ?thesis by simp
    qed (use newx(1) in \<open>auto simp: ext\<close>)
  qed
  have pg: "nat (a div PAGE_LEN) \<in> used_pages (smm s')" if "b \<in> set (new # bs)" "a \<in> extent s' b" for a b
    using that sub [of b] pages [of b a] pages [OF xin, of a] by (auto simp: base' split: if_splits)
  have "slab_inv s' (as @ new # x # cs)"
    unfolding slab_inv_def
  proof (intro conjI ballI impI)
    show "distinct (as @ new # x # cs)" using d nin by (auto simp: bs)
  next
    fix b assume b: "b \<in> set (as @ new # x # cs)"
    have "0 < new" using newx(1) props [OF xin] by linarith
    then show "0 < b" using b props by (auto simp: bs)
    show "0 \<le> b_size (blocks s' b)" using b props fit by (auto simp: m' bs)
    show "b_ptr (blocks s' b) = data b" using b props by (auto simp: m' bs)
  qed (use link e pg in \<open>auto simp: bs\<close>)
  then show ?thesis using run nin m' base' by auto
qed

section \<open>Extending the heap\<close>

text \<open>A block in fresh pages goes to the far end of the list.\<close>

lemma add_block_run:
  assumes inv: "slab_inv s bs" and p: "0 < p" "p mod PAGE_LEN = 0"
    and fresh: "\<And>a. p \<le> a \<Longrightarrow> a < p + len \<Longrightarrow> nat (a div PAGE_LEN) \<notin> used_pages (smm s)"
    and used: "\<And>a. p \<le> a \<Longrightarrow> a < p + len \<Longrightarrow> nat (a div PAGE_LEN) \<in> used_pages m" "used_pages (smm s) \<subseteq> used_pages m"
    and len: "SLAB_HEADER_SIZE < len" and first: "first = last_of NULL bs"
    and s1: "s1 = upd_block p (\<lambda>r. r\<lparr>b_size := len - SLAB_HEADER_SIZE, b_prev := NULL, b_next := first, b_ptr := data p, b_free := True\<rparr>) (s\<lparr>smm := m\<rparr>)"
    and s2: "s2 = (if first \<noteq> NULL then upd_block first (b_prev_update (\<lambda>_. p)) s1 else s1)"
    and s': "s' = (if base s2 = NULL then s2\<lparr>base := p\<rparr> else s2)"
  shows "slab_inv s' (bs @ [p]) \<and> p \<notin> set bs \<and> smm s' = m \<and> b_size (blocks s' p) = len - SLAB_HEADER_SIZE \<and> b_free (blocks s' p) \<and>
     (\<forall>b\<in>set bs. b_free (blocks s' b) = b_free (blocks s b) \<and> b_size (blocks s' b) = b_size (blocks s b))"
proof -
  let ?m = "blocks s"
  have L: "lseg ?m NULL (base s) bs NULL" and d: "distinct bs" and props: "\<And>b. b \<in> set bs \<Longrightarrow> 0 < b \<and> 0 \<le> b_size (?m b) \<and> b_ptr (?m b) = data b"
    and disj: "\<And>b c. b \<in> set bs \<Longrightarrow> c \<in> set bs \<Longrightarrow> b \<noteq> c \<Longrightarrow> extent s b \<inter> extent s c = {}"
    and pages: "\<And>b a. b \<in> set bs \<Longrightarrow> a \<in> extent s b \<Longrightarrow> nat (a div PAGE_LEN) \<in> used_pages (smm s)"
    using inv by (auto simp: slab_inv_def)
  have far: "extent s b \<inter> {p..<p + len} = {}" if "b \<in> set bs" for b using pages [OF that] fresh by fastforce
  have nin: "p \<notin> set bs" using far props extent_self len by fastforce
  have fp: "first \<noteq> p" using nin p(1) first by (cases bs rule: rev_cases) auto
  have fn: "first \<noteq> NULL \<longleftrightarrow> bs \<noteq> []" using props first by (cases bs rule: rev_cases) auto
  have m': "b_next (blocks s' b) = (if b = p then first else b_next (?m b))"
    "b_prev (blocks s' b) = (if b = p then NULL else if first \<noteq> NULL \<and> b = first then p else b_prev (?m b))"
    "b_size (blocks s' b) = (if b = p then len - SLAB_HEADER_SIZE else b_size (?m b))"
    "b_free (blocks s' b) = (if b = p then True else b_free (?m b))" "b_ptr (blocks s' b) = (if b = p then data p else b_ptr (?m b))" for b
    using fp by (auto simp: s' s2 s1)
  have base': "base s' = (if bs = [] then p else base s)" "smm s' = m" using slab_base [OF inv] by (simp_all add: s' s2 s1)
  have link: "lseg (blocks s') NULL (base s') (bs @ [p]) NULL"
  proof (cases bs rule: rev_cases)
    case Nil
    with p(1) show ?thesis by (simp add: base' m' first)
  next
    case (snoc bs' l)
    have "lseg (blocks s') NULL (base s) bs' q = lseg ?m NULL (base s) bs' q" for q
      using d nin by (intro lseg_cong) (auto simp: m' snoc first)
    with L nin p(1) props [of l] show ?thesis by (auto simp: snoc lseg_append base' m' first)
  qed
  have ext: "extent s' b = (if b = p then {p..<p + len} else extent s b)" for b by (auto simp: extent_def m' data_def)
  have "slab_inv s' (bs @ [p])"
    unfolding slab_inv_def
  proof (intro conjI ballI impI)
    show "lseg (blocks s') NULL (base s') (bs @ [p]) NULL" by (rule link)
    show "distinct (bs @ [p])" using d nin by simp
  next
    fix b assume b: "b \<in> set (bs @ [p])"
    show "0 < b" "0 \<le> b_size (blocks s' b)" "b_ptr (blocks s' b) = data b" using b props p(1) len by (auto simp: m')
    fix a assume "a \<in> extent s' b"
    then show "nat (a div PAGE_LEN) \<in> used_pages (smm s')" using b used pages by (auto simp: ext base' split: if_splits)
  next
    fix b c assume "b \<in> set (bs @ [p])" "c \<in> set (bs @ [p])" "b \<noteq> c"
    then show "extent s' b \<inter> extent s' c = {}"
      using far [of b] far [of c] disj [of b c] by (auto simp: ext split: if_splits)
  qed
  then show ?thesis using nin base' m' by auto
qed

definition used_blocks :: "slab \<Rightarrow> addr list \<Rightarrow> addr set" where
  "used_blocks s bs = {b \<in> set bs. \<not> b_free (blocks s b)}"

text \<open>The words to take from the page allocator, and whether a header fits beside them.\<close>

definition request :: "int \<Rightarrow> int" where
  "request sz = (if sz < SLAB_HEADER_SIZE then SLAB_HEADER_SIZE + 1 else sz)"

lemma extend_heap_run:
  assumes inv: "slab_inv s bs" "page_inv (smm s)" and first: "first = last_of NULL bs"
    and sz: "0 \<le> sz" "request sz \<le> 127 * PAGE_LEN" and hdr: "request sz + SLAB_HEADER_SIZE \<le> align_page (request sz)"
  shows "\<exists>s' b bs'. extend_heap first sz s = Some (s', b) \<and> slab_inv s' bs' \<and> page_inv (smm s') \<and> set bs \<subseteq> set bs' \<and>
     (b = NULL \<longrightarrow> bs' = bs) \<and> (b \<noteq> NULL \<longrightarrow> b \<in> set bs' - set bs \<and> sz \<le> b_size (blocks s' b)) \<and>
     (\<forall>c\<in>set bs' - set bs. b_free (blocks s' c)) \<and>
     (\<forall>c\<in>set bs. b_free (blocks s' c) = b_free (blocks s c) \<and> b_size (blocks s' c) = b_size (blocks s c))"
proof -
  let ?q = "request sz"
  define len where "len = align_page ?q"
  have q: "sz \<le> ?q" "0 < ?q" using sz(1) by (auto simp: request_def)
  have al: "?q \<le> len" "len < ?q + 1024" "len mod 1024 = 0" using align_page_bounds [of ?q] by (auto simp: len_def)
  define n where "n = nat (len div 1024)"
  have n: "len = int n * 1024" "0 < n" "n < 128" using al q sz(2) by (auto simp: n_def elim!: dvdE simp: mod_eq_0_iff_dvd)
  have e: "extend_heap first sz s = do { (m, ptr) \<leftarrow> get_free_pages (smm s) len GFP_HIGH;
     let s = s\<lparr>smm := m\<rparr>;
     if ptr = NULL then Some (s, NULL)
     else let s = upd_block ptr (\<lambda>r. r\<lparr>b_size := len - SLAB_HEADER_SIZE, b_prev := NULL, b_next := first,
                                             b_ptr := data ptr, b_free := True\<rparr>) s;
                    s = (if first \<noteq> NULL then upd_block first (b_prev_update (\<lambda>_. ptr)) s else s);
                    s = (if base s = NULL then s\<lparr>base := ptr\<rparr> else s)
                in Some (if len - ?q > SLAB_HEADER_SIZE * 2 then split_block ptr ?q s else (s, ptr)) }"
    by (simp only: extend_heap_def Let_def request_def [symmetric] len_def [symmetric])
  consider (full) "get_free_pages (smm s) len GFP_HIGH = Some (smm s, NULL)"
    | (ok) p m where "fits (smm s) GFP_HIGH n p" "get_free_pages (smm s) len GFP_HIGH = Some (m, int p * 1024)" "page_inv m"
        "used_pages m = used_pages (smm s) \<union> {p..<p + n}"
    using get_free_pages_run [OF inv(2) n(2,3), of GFP_HIGH] n(1) by auto
  then show ?thesis
  proof cases
    case full
    then have "extend_heap first sz s = Some (s, NULL)" by (simp add: e)
    then show ?thesis using inv by auto
  next
    case ok
    let ?p = "int p * 1024"
    have "0 \<in> used_pages (smm s)" using inv(2) by (auto simp: page_inv_def used_pages_def)
    moreover have pd: "{p..<p + n} \<inter> used_pages (smm s) = {}" using ok(1) by (simp add: fits_def)
    ultimately have "p \<noteq> 0" using n(2) by force
    then have p: "0 < p" "{p..<p + n} \<inter> used_pages (smm s) = {}" using pd by simp_all
    have pg: "nat (a div 1024) \<in> {p..<p + n}" if "?p \<le> a" "a < ?p + len" for a
    proof -
      have "int p \<le> a div 1024" "a div 1024 < int p + int n" using that n(1) by auto
      then show ?thesis by auto
    qed
    have fresh: "nat (a div PAGE_LEN) \<notin> used_pages (smm s)" if "?p \<le> a" "a < ?p + len" for a using pg [OF that] p(2) by blast
    have used1: "nat (a div PAGE_LEN) \<in> used_pages m" if "?p \<le> a" "a < ?p + len" for a using pg [OF that] ok(4) by blast
    have used2: "used_pages (smm s) \<subseteq> used_pages m" using ok(4) by blast
    have p0: "0 < ?p" "?p mod PAGE_LEN = 0" and len6: "SLAB_HEADER_SIZE < len" using p(1) hdr q by (simp_all add: len_def)
    define s1 where "s1 = upd_block ?p (\<lambda>r. r\<lparr>b_size := len - SLAB_HEADER_SIZE, b_prev := NULL, b_next := first, b_ptr := data ?p, b_free := True\<rparr>) (s\<lparr>smm := m\<rparr>)"
    define s2 where "s2 = (if first \<noteq> NULL then upd_block first (b_prev_update (\<lambda>_. ?p)) s1 else s1)"
    define s3 where "s3 = (if base s2 = NULL then s2\<lparr>base := ?p\<rparr> else s2)"
    have add: "slab_inv s3 (bs @ [?p])" "?p \<notin> set bs" "smm s3 = m" "b_size (blocks s3 ?p) = len - SLAB_HEADER_SIZE" "b_free (blocks s3 ?p)"
       "\<forall>b\<in>set bs. b_free (blocks s3 b) = b_free (blocks s b) \<and> b_size (blocks s3 b) = b_size (blocks s b)"
      using add_block_run [OF inv(1) p0 fresh used1 used2 len6 first s1_def s2_def s3_def] by blast+
    have run: "extend_heap first sz s = Some (if len - ?q > SLAB_HEADER_SIZE * 2 then split_block ?p ?q s3 else (s3, ?p))"
      using ok(2) p(1) by (simp add: e Let_def s3_def s2_def s1_def)
    show ?thesis
    proof (cases "len - ?q > SLAB_HEADER_SIZE * 2")
      case False
      with run add ok(3) q hdr p(1) show ?thesis by (intro exI [of _ s3] exI [of _ ?p] exI [of _ "bs @ [?p]"]) (auto simp: len_def)
    next
      case True
      have "?q + SLAB_HEADER_SIZE \<le> b_size (blocks s3 ?p)" using True add(4) by simp
      from split_block_run [OF add(1) _ _ this refl, of bs "[]"] q(2)
      obtain s4 new where s4: "split_block ?p ?q s3 = (s4, new)" "slab_inv s4 (bs @ [new, ?p])" "new \<notin> set (bs @ [?p])" "smm s4 = smm s3"
        "b_size (blocks s4 new) = ?q" "b_free (blocks s4 new)" "\<forall>b\<in>set (bs @ [?p]). b_free (blocks s4 b) = b_free (blocks s3 b)"
        "\<forall>b\<in>set (bs @ [?p]). b \<noteq> ?p \<longrightarrow> b_size (blocks s4 b) = b_size (blocks s3 b)" by auto
      have "new \<noteq> NULL" using s4(2) by (auto simp: slab_inv_def)
      with run True s4 add ok(3) q show ?thesis
        by (intro exI [of _ s4] exI [of _ new] exI [of _ "bs @ [new, ?p]"]) auto
    qed
  qed
qed

section \<open>Allocation\<close>

lemma find_fitting:
  assumes "slab_inv s bs" "base s \<noteq> NULL"
  shows "(\<exists>as x cs first. bs = as @ x # cs \<and> fitting s sz x \<and> find_block (blocks s) (base s) (base s) sz = Some (first, x)) \<or>
         find_block (blocks s) (base s) (base s) sz = Some (last_of NULL bs, NULL)"
proof (cases "dropWhile (\<lambda>b. \<not> fitting s sz b) bs")
  case Nil
  have "bs \<noteq> []" using assms slab_base by blast
  then have "last_of (base s) bs = last_of NULL bs" by (simp add: last_of_def)
  with find_block_run [OF slab_linked [OF assms(1)], of "base s" sz] Nil show ?thesis by (simp del: dropWhile_eq_Nil_conv)
next
  case (Cons x cs)
  then have "bs = takeWhile (\<lambda>b. \<not> fitting s sz b) bs @ x # cs" "fitting s sz x"
    by (metis takeWhile_dropWhile_id, metis dropWhile_eq_Cons_conv)
  with find_block_run [OF slab_linked [OF assms(1)], of "base s" sz] Cons show ?thesis by auto
qed

text \<open>The block \<^verbatim>\<open>kmalloc\<close> settles on, before it is marked.\<close>

lemma choose_block_run:
  assumes inv: "slab_inv s bs" "page_inv (smm s)" and sz: "0 \<le> sz" "request sz \<le> 127 * PAGE_LEN"
    and hdr: "request sz + SLAB_HEADER_SIZE \<le> align_page (request sz)"
  shows "\<exists>s' b bs'. (if base s \<noteq> NULL
              then do { (first, b) \<leftarrow> find_block (blocks s) (base s) (base s) sz;
                        if b \<noteq> NULL
                        then Some (if b_size (blocks s b) - sz \<ge> SLAB_HEADER_SIZE * 2 then split_block b sz s else (s, b))
                        else extend_heap first sz s }
              else extend_heap NULL sz s) = Some (s', b) \<and> slab_inv s' bs' \<and> page_inv (smm s') \<and>
     used_blocks s' bs' = used_blocks s bs \<and> (\<forall>c\<in>used_blocks s bs. extent s' c = extent s c) \<and>
     (b \<noteq> NULL \<longrightarrow> b \<in> set bs' \<and> b_free (blocks s' b) \<and> sz \<le> b_size (blocks s' b))"
proof -
  have ext: "\<exists>s' b bs'. extend_heap (last_of NULL bs) sz s = Some (s', b) \<and> slab_inv s' bs' \<and> page_inv (smm s') \<and>
     used_blocks s' bs' = used_blocks s bs \<and> (\<forall>c\<in>used_blocks s bs. extent s' c = extent s c) \<and>
     (b \<noteq> NULL \<longrightarrow> b \<in> set bs' \<and> b_free (blocks s' b) \<and> sz \<le> b_size (blocks s' b))"
  proof -
    obtain s' b bs' where r: "extend_heap (last_of NULL bs) sz s = Some (s', b)" "slab_inv s' bs'" "page_inv (smm s')" "set bs \<subseteq> set bs'"
      "b \<noteq> NULL \<longrightarrow> b \<in> set bs' - set bs \<and> sz \<le> b_size (blocks s' b)" "\<forall>c\<in>set bs' - set bs. b_free (blocks s' c)"
      "\<forall>c\<in>set bs. b_free (blocks s' c) = b_free (blocks s c) \<and> b_size (blocks s' c) = b_size (blocks s c)"
      using extend_heap_run [OF inv refl sz hdr] by blast
    have "used_blocks s' bs' = used_blocks s bs" using r(4,6,7) by (auto simp: used_blocks_def)
    moreover have "\<forall>c\<in>used_blocks s bs. extent s' c = extent s c" using r(7) by (simp add: used_blocks_def extent_def)
    ultimately show ?thesis using r by (intro exI [of _ s'] exI [of _ b] exI [of _ bs']) simp
  qed
  show ?thesis
  proof (cases "base s = NULL")
    case True
    then have "last_of NULL bs = NULL" using slab_base [OF inv(1)] by simp
    with ext True show ?thesis by simp
  next
    case False
    from find_fitting [OF inv(1) False, of sz] show ?thesis
    proof (elim disjE exE conjE)
      fix as x cs first assume bs: "bs = as @ x # cs" and fit: "fitting s sz x" and fb: "find_block (blocks s) (base s) (base s) sz = Some (first, x)"
      have x0: "x \<noteq> NULL" using inv(1) by (auto simp: slab_inv_def bs)
      show ?thesis
      proof (cases "b_size (blocks s x) - sz \<ge> SLAB_HEADER_SIZE * 2")
        case no_split: False
        with fb x0 \<open>base s \<noteq> NULL\<close> fit inv show ?thesis
          by (intro exI [of _ s] exI [of _ x] exI [of _ bs]) (auto simp: bs fitting_def)
      next
        case True
        then have "sz + SLAB_HEADER_SIZE \<le> b_size (blocks s x)" by simp
        from split_block_run [OF inv(1) bs sz(1) this refl]
        obtain s' new where s': "split_block x sz s = (s', new)" "slab_inv s' (as @ new # x # cs)" "new \<notin> set bs" "smm s' = smm s"
          "b_size (blocks s' new) = sz" "b_free (blocks s' new)" "\<forall>b\<in>set bs. b_free (blocks s' b) = b_free (blocks s b)"
          "\<forall>b\<in>set bs. b \<noteq> x \<longrightarrow> b_size (blocks s' b) = b_size (blocks s b)" by blast
        have xf: "b_free (blocks s x)" using fit by (simp add: fitting_def)
        have u: "used_blocks s' (as @ new # x # cs) = used_blocks s bs" using s'(3,6,7) by (auto simp: used_blocks_def bs)
        have "extent s' c = extent s c" if "c \<in> used_blocks s bs" for c
        proof -
          have "c \<in> set bs" "c \<noteq> x" using that xf by (auto simp: used_blocks_def)
          then show ?thesis using s'(8) by (simp add: extent_def)
        qed
        with u s' fb x0 False True inv(2) show ?thesis
          by (intro exI [of _ s'] exI [of _ new] exI [of _ "as @ new # x # cs"]) simp
      qed
    next
      assume "find_block (blocks s) (base s) (base s) sz = Some (last_of NULL bs, NULL)"
      with ext False show ?thesis by simp
    qed
  qed
qed

section \<open>Freeing\<close>

lemma slab_linkD:
  assumes "slab_inv s (as @ x # cs)"
  shows "b_next (blocks s x) = last_of NULL as" "b_prev (blocks s x) = (if cs = [] then NULL else hd cs)"
  using slab_linked [OF assms] by (auto simp: lseg_append dest: lseg_head)

lemma fusion_none:
  "\<not> (b_next (blocks s b) \<noteq> NULL \<and> b_free (blocks s (b_next (blocks s b))) \<and>
      b_ptr (blocks s b) + b_size (blocks s b) = b_next (blocks s b)) \<Longrightarrow> fusion b s = (s, b)"
  by (auto simp: fusion_def Let_def)

text \<open>Fusing \<open>x\<close> with the free block \<open>y\<close> right after it takes \<open>y\<close> out of the list.\<close>

lemma fusion_run:
  assumes inv: "slab_inv s bs" and bs: "bs = as @ y # x # cs" and y: "b_free (blocks s y)" "b_ptr (blocks s x) + b_size (blocks s x) = y"
  shows "\<exists>s'. fusion x s = (s', x) \<and> slab_inv s' (as @ x # cs) \<and> smm s' = smm s \<and> (\<forall>b. b_free (blocks s' b) = b_free (blocks s b)) \<and>
     (\<forall>b. b \<noteq> x \<longrightarrow> b_size (blocks s' b) = b_size (blocks s b))"
proof -
  let ?m = "blocks s"
  have L: "lseg ?m NULL (base s) as y" "b_next (?m y) = last_of NULL as" "b_next (?m x) = y" "b_prev (?m y) = x"
      "lseg ?m x (b_prev (?m x)) cs NULL" "x \<noteq> NULL" "y \<noteq> NULL"
    using slab_linked [OF inv] by (auto simp: bs lseg_append)
  have d: "distinct bs" and props: "\<And>b. b \<in> set bs \<Longrightarrow> 0 < b \<and> 0 \<le> b_size (?m b) \<and> b_ptr (?m b) = data b"
    and disj: "\<And>b c. b \<in> set bs \<Longrightarrow> c \<in> set bs \<Longrightarrow> b \<noteq> c \<Longrightarrow> extent s b \<inter> extent s c = {}"
    and pages: "\<And>b a. b \<in> set bs \<Longrightarrow> a \<in> extent s b \<Longrightarrow> nat (a div PAGE_LEN) \<in> used_pages (smm s)"
    using inv by (auto simp: slab_inv_def)
  have xy: "x \<noteq> y" "x \<in> set bs" "y \<in> set bs" using d by (auto simp: bs)
  have ya: "y = data x + b_size (?m x)" using y(2) props [OF xy(2)] by simp
  define l where "l = last_of NULL as"
  have ln: "l \<noteq> x" "l \<noteq> y" using d L(6,7) by (cases as rule: rev_cases; auto simp: bs l_def)+
  define s1 where "s1 = upd_block x (\<lambda>r. r\<lparr>b_size := b_size r + (SLAB_HEADER_SIZE + b_size (?m y)), b_next := b_next (?m y)\<rparr>) s"
  define s2 where "s2 = (if y = base s1 then s1\<lparr>base := x\<rparr> else s1)"
  define s' where "s' = (if b_next (blocks s2 x) \<noteq> NULL then upd_block (b_next (blocks s2 x)) (b_prev_update (\<lambda>_. x)) s2 else s2)"
  have run: "fusion x s = (s', x)" using y L(3,7) by (simp add: fusion_def Let_def s'_def s2_def s1_def)
  have nn: "b_next (blocks s2 x) = l" using L(2) by (auto simp: s2_def s1_def l_def)
  have m': "b_next (blocks s' b) = (if b = x then l else b_next (?m b))"
    "b_prev (blocks s' b) = (if l \<noteq> NULL \<and> b = l then x else b_prev (?m b))"
    "b_size (blocks s' b) = (if b = x then b_size (?m x) + (SLAB_HEADER_SIZE + b_size (?m y)) else b_size (?m b))"
    "b_free (blocks s' b) = b_free (?m b)" "b_ptr (blocks s' b) = b_ptr (?m b)" for b
    using nn ln L(2) by (auto simp: s'_def s2_def s1_def l_def)
  have base': "base s' = (if y = base s then x else base s)" "smm s' = smm s" by (simp_all add: s'_def s2_def s1_def)
  have cs: "lseg (blocks s') x (b_prev (blocks s' x)) cs NULL"
  proof -
    have "lseg (blocks s') x p cs NULL = lseg ?m x p cs NULL" for p
      using d by (intro lseg_cong, cases as rule: rev_cases) (auto simp: m' bs l_def)
    with L(5) ln show ?thesis by (simp add: m')
  qed
  have as: "lseg (blocks s') NULL (base s') as x"
  proof (cases as rule: rev_cases)
    case Nil
    with L(1) show ?thesis by (simp add: base')
  next
    case (snoc as' z)
    have z: "z \<noteq> x" "z \<noteq> y" "z \<noteq> NULL" "l = z" using d props [of z] by (auto simp: bs snoc l_def)
    have "base s \<noteq> y" using lseg_head [OF L(1)] d snoc by (cases as') (auto simp: bs)
    moreover have "lseg (blocks s') NULL (base s) as' z = lseg ?m NULL (base s) as' z"
      using d z by (intro lseg_cong) (auto simp: m' bs snoc)
    ultimately show ?thesis using L(1) z by (auto simp: snoc lseg_append base' m')
  qed
  have ext: "extent s' b = (if b = x then extent s x \<union> extent s y else extent s b)" for b
    using props [OF xy(2)] props [OF xy(3)] by (auto simp: extent_def m' data_def ya)
  have "slab_inv s' (as @ x # cs)"
    unfolding slab_inv_def
  proof (intro conjI ballI impI)
    show "lseg (blocks s') NULL (base s') (as @ x # cs) NULL" using as cs L(6) by (auto simp: lseg_append m' l_def)
    show "distinct (as @ x # cs)" using d by (auto simp: bs)
  next
    fix b assume b: "b \<in> set (as @ x # cs)"
    then have bin: "b \<in> set bs" "b \<noteq> y" using d by (auto simp: bs)
    show "0 < b" "0 \<le> b_size (blocks s' b)" "b_ptr (blocks s' b) = data b" using props [OF bin(1)] props [OF xy(3)] by (auto simp: m')
    fix a assume "a \<in> extent s' b"
    then show "nat (a div PAGE_LEN) \<in> used_pages (smm s')"
      using pages [OF bin(1)] pages [OF xy(3)] by (auto simp: ext base' split: if_splits)
  next
    fix b c assume bc: "b \<in> set (as @ x # cs)" "c \<in> set (as @ x # cs)" "b \<noteq> c"
    then have "b \<in> set bs" "b \<noteq> y" "c \<in> set bs" "c \<noteq> y" using d by (auto simp: bs)
    with disj [of b c] disj [of y c] disj [of b y] bc(3) xy(3) show "extent s' b \<inter> extent s' c = {}" by (auto simp: ext)
  qed
  then show ?thesis using run m' base' by auto
qed

text \<open>One call of \<^verbatim>\<open>fusion\<close> on a block of the list, whatever lies after it.\<close>

lemma fusion_keeps:
  assumes inv: "slab_inv s bs" and x: "x \<in> set bs"
  shows "\<exists>s' bs'. fusion x s = (s', x) \<and> slab_inv s' bs' \<and> smm s' = smm s \<and> x \<in> set bs' \<and> (\<forall>b. b_free (blocks s' b) = b_free (blocks s b)) \<and>
     (\<forall>b. b \<noteq> x \<longrightarrow> b_size (blocks s' b) = b_size (blocks s b)) \<and> (\<exists>dead. set bs' = set bs - dead \<and> (\<forall>b\<in>dead. b_free (blocks s b)))"
proof (cases "b_next (blocks s x) \<noteq> NULL \<and> b_free (blocks s (b_next (blocks s x))) \<and> b_ptr (blocks s x) + b_size (blocks s x) = b_next (blocks s x)")
  case False
  with inv x show ?thesis by (intro exI [of _ s] exI [of _ bs] conjI exI [of _ "{}"]) (auto intro: fusion_none)
next
  case True
  obtain as' cs where bs': "bs = as' @ x # cs" using x by (auto dest: split_list)
  have nx: "b_next (blocks s x) = last_of NULL as'" using slab_linkD(1) inv by (simp add: bs')
  with True obtain as y where as: "as' = as @ [y]" by (cases as' rule: rev_cases) auto
  from True nx have y: "b_free (blocks s y)" "b_ptr (blocks s x) + b_size (blocks s x) = y" by (simp_all add: as)
  have bs: "bs = as @ y # x # cs" by (simp add: bs' as)
  obtain s' where s': "fusion x s = (s', x)" "slab_inv s' (as @ x # cs)" "smm s' = smm s" "\<forall>b. b_free (blocks s' b) = b_free (blocks s b)"
     "\<forall>b. b \<noteq> x \<longrightarrow> b_size (blocks s' b) = b_size (blocks s b)" using fusion_run [OF inv bs y] by blast
  have "set (as @ x # cs) = set bs - {y}" using inv by (auto simp: slab_inv_def bs)
  with s' y show ?thesis by (intro exI [of _ s'] exI [of _ "as @ x # cs"] conjI exI [of _ "{y}"]) auto
qed

text \<open>Changing no link, size or data address of a block keeps the list well formed.\<close>

lemma slab_inv_cong:
  assumes "\<And>b. b_next (blocks s' b) = b_next (blocks s b) \<and> b_prev (blocks s' b) = b_prev (blocks s b) \<and>
      b_size (blocks s' b) = b_size (blocks s b) \<and> b_ptr (blocks s' b) = b_ptr (blocks s b)"
    and "base s' = base s" "smm s' = smm s"
  shows "slab_inv s' bs = slab_inv s bs"
proof -
  have "lseg (blocks s') NULL (base s) bs NULL = lseg (blocks s) NULL (base s) bs NULL" using assms(1) by (intro lseg_cong) simp
  moreover have "extent s' = extent s" using assms(1) by (simp add: extent_def fun_eq_iff)
  ultimately show ?thesis using assms by (simp add: slab_inv_def)
qed

lemma kfree_run:
  assumes inv: "slab_inv s bs" and b: "b \<in> set bs"
  shows "\<exists>s' bs'. kfree (data b) ra s = s' \<and> slab_inv s' bs' \<and> smm s' = smm s \<and> used_blocks s' bs' = used_blocks s bs - {b} \<and>
     (\<forall>c\<in>used_blocks s bs - {b}. extent s' c = extent s c)"
proof -
  have v: "valid_addr s (data b)" "get_block (data b) = b" using inv b by (auto simp: slab_inv_def valid_addr_def get_block_def data_def)
  define s1 where "s1 = upd_block b (b_free_update (\<lambda>_. True)) s"
  have i1: "slab_inv s1 bs" by (subst slab_inv_cong [of _ s]) (auto simp: s1_def inv)
  have f1: "b_free (blocks s1 c) = (c = b \<or> b_free (blocks s c))" "b_size (blocks s1 c) = b_size (blocks s c)" for c by (auto simp: s1_def)
  let ?prev = "b_prev (blocks s1 b)"
  obtain s2 b2 bs2 dead where s2: "(if ?prev \<noteq> NULL \<and> b_free (blocks s1 ?prev) then fusion ?prev s1 else (s1, b)) = (s2, b2)"
      "slab_inv s2 bs2" "smm s2 = smm s" "b2 \<in> set bs2" "b_free (blocks s1 b2)" "\<forall>c. b_free (blocks s2 c) = b_free (blocks s1 c)"
      "\<forall>c. c \<noteq> b2 \<longrightarrow> b_size (blocks s2 c) = b_size (blocks s1 c)" "set bs2 = set bs - dead" "\<forall>c\<in>dead. b_free (blocks s1 c)"
  proof (cases "?prev \<noteq> NULL \<and> b_free (blocks s1 ?prev)")
    case False
    show ?thesis by (rule that [of s1 b bs "{}"]) (use False i1 b f1 in \<open>auto simp: s1_def\<close>)
  next
    case True
    obtain as cs where bs: "bs = as @ b # cs" using b by (auto dest: split_list)
    have "?prev \<in> set bs" using True slab_linkD(2) [of s1 as b cs] i1 by (auto simp: bs split: if_splits)
    from fusion_keeps [OF i1 this] obtain s2 bs2 dead where "fusion ?prev s1 = (s2, ?prev)" "slab_inv s2 bs2" "smm s2 = smm s1" "?prev \<in> set bs2"
      "\<forall>c. b_free (blocks s2 c) = b_free (blocks s1 c)" "\<forall>c. c \<noteq> ?prev \<longrightarrow> b_size (blocks s2 c) = b_size (blocks s1 c)"
      "set bs2 = set bs - dead" "\<forall>c\<in>dead. b_free (blocks s1 c)" by blast
    with True show ?thesis by (intro that [of s2 ?prev bs2 dead]) (simp_all add: s1_def)
  qed
  obtain s3 bs3 dead3 where s3: "kfree (data b) ra s = s3" "slab_inv s3 bs3" "smm s3 = smm s" "\<forall>c. b_free (blocks s3 c) = b_free (blocks s2 c)"
      "\<forall>c. c \<noteq> b2 \<longrightarrow> b_size (blocks s3 c) = b_size (blocks s2 c)" "set bs3 = set bs2 - dead3" "\<forall>c\<in>dead3. b_free (blocks s2 c)"
  proof -
    have run: "kfree (data b) ra s = (if b_next (blocks s2 b2) \<noteq> NULL \<and> b_free (blocks s2 (b_next (blocks s2 b2))) then fst (fusion b2 s2) else s2)"
      unfolding kfree_def Let_def v(2) s1_def [symmetric] s2(1) using v(1) by simp
    show ?thesis
    proof (cases "b_next (blocks s2 b2) \<noteq> NULL \<and> b_free (blocks s2 (b_next (blocks s2 b2)))")
      case False
      show ?thesis by (rule that [of s2 bs2 "{}"]) (use run False s2 in auto)
    next
      case True
      from fusion_keeps [OF s2(2,4)] obtain s3 bs3 dead where "fusion b2 s2 = (s3, b2)" "slab_inv s3 bs3" "smm s3 = smm s2"
        "\<forall>c. b_free (blocks s3 c) = b_free (blocks s2 c)" "\<forall>c. c \<noteq> b2 \<longrightarrow> b_size (blocks s3 c) = b_size (blocks s2 c)"
        "set bs3 = set bs2 - dead" "\<forall>c\<in>dead. b_free (blocks s2 c)" by blast
      with True run s2(3) show ?thesis by (intro that [of s3 bs3 dead]) simp_all
    qed
  qed
  have u: "used_blocks s3 bs3 = used_blocks s bs - {b}" using s2(6,8,9) s3(4,6,7) by (auto simp: used_blocks_def f1)
  have "extent s3 c = extent s c" if "c \<in> used_blocks s bs - {b}" for c
  proof -
    have "c \<noteq> b2" using that s2(5) by (auto simp: used_blocks_def f1)
    then show ?thesis using s2(7) s3(5) f1 by (simp add: extent_def)
  qed
  with s3(1-3) u show ?thesis by (intro exI [of _ s3] exI [of _ bs3]) simp
qed

section \<open>Properties\<close>

text \<open>
  C9. The kernel allocator: from a well-formed list of blocks, a request that leaves room for a
  block header in its last page yields a list that is well formed again. A null result leaves
  the blocks in use as they were; otherwise the result is the data of a block that was not in
  use, is now the only additional one, is at least as large as the request and overlaps no
  other block, and the blocks in use keep their extents.
\<close>

theorem kmalloc_correct:
  assumes "slab_inv s bs" "page_inv (smm s)" "0 \<le> n * sz" "request (n * sz) \<le> 127 * PAGE_LEN"
    and "request (n * sz) + SLAB_HEADER_SIZE \<le> align_page (request (n * sz))"
  shows "\<exists>s' p bs'. kmalloc n sz ra s = Some (s', p) \<and> slab_inv s' bs' \<and> page_inv (smm s') \<and>
     (\<forall>b\<in>used_blocks s bs. extent s' b = extent s b) \<and>
     (if p = NULL then used_blocks s' bs' = used_blocks s bs
      else valid_addr s' p \<and> get_block p \<notin> used_blocks s bs \<and> used_blocks s' bs' = insert (get_block p) (used_blocks s bs) \<and>
        {p..<p + n * sz} \<subseteq> extent s' (get_block p))"
proof -
  let ?sz = "n * sz"
  have "n * sz < 2 ^ 32" using assms(4) by (auto simp: request_def split: if_splits)
  then have m: "(sz * n) mod 2 ^ 32 = ?sz" using assms(3) by (simp add: mult.commute)
  obtain s1 b bs' where c: "(if base s \<noteq> NULL
              then do { (first, b) \<leftarrow> find_block (blocks s) (base s) (base s) ?sz;
                        if b \<noteq> NULL
                        then Some (if b_size (blocks s b) - ?sz \<ge> SLAB_HEADER_SIZE * 2 then split_block b ?sz s else (s, b))
                        else extend_heap first ?sz s }
              else extend_heap NULL ?sz s) = Some (s1, b)" "slab_inv s1 bs'" "page_inv (smm s1)"
     "used_blocks s1 bs' = used_blocks s bs" "\<forall>c\<in>used_blocks s bs. extent s1 c = extent s c"
     "b \<noteq> NULL \<longrightarrow> b \<in> set bs' \<and> b_free (blocks s1 b) \<and> ?sz \<le> b_size (blocks s1 b)"
    using choose_block_run [OF assms] by blast
  define s' where "s' = upd_block b (\<lambda>r. r\<lparr>b_ra := ra, b_free := False\<rparr>) s1"
  have run: "kmalloc n sz ra s = Some (if b = NULL then (s1, NULL) else (s', data b))"
    unfolding kmalloc_def Let_def m c(1) by (simp add: s'_def)
  show ?thesis
  proof (cases "b = NULL")
    case True
    with run c show ?thesis by (intro exI [of _ s1] exI [of _ NULL] exI [of _ bs']) simp
  next
    case False
    with c(6) have b: "b \<in> set bs'" "b_free (blocks s1 b)" "?sz \<le> b_size (blocks s1 b)" by auto
    have f: "b_next (blocks s' x) = b_next (blocks s1 x)" "b_prev (blocks s' x) = b_prev (blocks s1 x)" "b_size (blocks s' x) = b_size (blocks s1 x)"
      "b_ptr (blocks s' x) = b_ptr (blocks s1 x)" "b_free (blocks s' x) = (x \<noteq> b \<and> b_free (blocks s1 x))" for x
      by (auto simp: s'_def)
    have e: "extent s' x = extent s1 x" for x by (simp add: extent_def f)
    have st: "base s' = base s1" "smm s' = smm s1" by (simp_all add: s'_def)
    have "slab_inv s' bs'" using c(2) by (subst slab_inv_cong [of _ s1]) (simp_all add: f st)
    moreover have "used_blocks s' bs' = insert b (used_blocks s bs)" using c(4) b(1) by (auto simp: used_blocks_def f)
    moreover have "b \<notin> used_blocks s bs" using c(4) b(2) by (auto simp: used_blocks_def)
    moreover have "b_ptr (blocks s1 b) = data b" "0 < b" using c(2) b(1) by (auto simp: slab_inv_def)
    ultimately show ?thesis
      using run False c(3,5) b(3) by (intro exI [of _ s'] exI [of _ "data b"] exI [of _ bs'])
        (auto simp: st e f valid_addr_def get_block_def data_def extent_def)
  qed
qed

text \<open>The allocator of a machine with nothing allocated yet.\<close>

definition empty_slab :: "mm \<Rightarrow> slab" where
  "empty_slab m = \<lparr>blocks = \<lambda>_. \<lparr>b_size = 0, b_next = NULL, b_prev = NULL, b_ra = NULL, b_free = False, b_ptr = NULL\<rparr>, base = NULL, smm = m\<rparr>"

lemma empty_slab_inv: "slab_inv (empty_slab m) []" "used_blocks s [] = {}"
  by (simp_all add: slab_inv_def empty_slab_def used_blocks_def)

theorem kmalloc_correct_witness:
  "\<exists>m s' p bs'. page_inv m \<and> kmalloc 1 10 NULL (empty_slab m) = Some (s', p) \<and> slab_inv s' bs' \<and> p \<noteq> NULL \<and> valid_addr s' p"
proof -
  obtain m where m: "init_mem_table 3000 = Some m" "page_inv m" using init_mem_table_run [of 3000] by auto
  have sm: "page_inv (smm (empty_slab m))" using m(2) by (simp add: empty_slab_def)
  have "request (1 * 10) \<le> 127 * PAGE_LEN" "request (1 * 10) + SLAB_HEADER_SIZE \<le> align_page (request (1 * 10))" by code_simp+
  from kmalloc_correct [OF empty_slab_inv(1) sm _ this, of NULL]
  obtain s' p bs' where k: "kmalloc 1 10 NULL (empty_slab m) = Some (s', p)" "slab_inv s' bs'"
    "if p = NULL then used_blocks s' bs' = used_blocks (empty_slab m) []
      else valid_addr s' p \<and> get_block p \<notin> used_blocks (empty_slab m) [] \<and> used_blocks s' bs' = insert (get_block p) (used_blocks (empty_slab m) []) \<and>
        {p..<p + 1 * 10} \<subseteq> extent s' (get_block p)" by force
  have "Option.bind (init_mem_table 3000) (\<lambda>m. map_option snd (kmalloc 1 10 NULL (empty_slab m))) = Some 130038" by code_simp
  with m(1) k(1) have "p = 130038" by simp
  with m(2) k show ?thesis by (intro exI [of _ m] exI [of _ s'] exI [of _ p] exI [of _ bs']) simp
qed

text \<open>
  C10. Freeing a block in use: the list stays well formed, the block is no longer in use, and
  every other block in use keeps its extent, whether the freed block is fused with the block
  before it, with the one after it, with both or with none. No page is given back.
\<close>

theorem kfree_correct:
  assumes "slab_inv s bs" "b \<in> used_blocks s bs"
  shows "\<exists>bs'. slab_inv (kfree (data b) ra s) bs' \<and> smm (kfree (data b) ra s) = smm s \<and>
     used_blocks (kfree (data b) ra s) bs' = used_blocks s bs - {b} \<and>
     (\<forall>c\<in>used_blocks s bs - {b}. extent (kfree (data b) ra s) c = extent s c)"
proof -
  have "b \<in> set bs" using assms(2) by (simp add: used_blocks_def)
  from kfree_run [OF assms(1) this] show ?thesis by blast
qed

text \<open>A list of one block in use, which fills the last page.\<close>

definition one_block :: "mm \<Rightarrow> slab" where
  "one_block m = (empty_slab m)\<lparr>base := 130048, blocks := \<lambda>_. \<lparr>b_size = 1018, b_next = NULL, b_prev = NULL, b_ra = NULL, b_free = False,
     b_ptr = 130054\<rparr>\<rparr>"

theorem kfree_correct_witness:
  "\<exists>m bs'. slab_inv (one_block m) [130048] \<and> used_blocks (one_block m) [130048] = {130048} \<and>
     slab_inv (kfree 130054 NULL (one_block m)) bs' \<and> used_blocks (kfree 130054 NULL (one_block m)) bs' = {}"
proof -
  obtain m where m: "page_inv m" using init_mem_table_run [of 3000] by auto
  have "a div 1024 = 127" if "130048 \<le> a" "a < 131072" for a :: int using that by linarith
  then have inv: "slab_inv (one_block m) [130048]"
    using m by (auto simp: slab_inv_def one_block_def empty_slab_def extent_def data_def page_inv_def used_pages_def)
  have u: "used_blocks (one_block m) [130048] = {130048}" by (auto simp: used_blocks_def one_block_def)
  have "data 130048 = 130054" by (simp add: data_def)
  with kfree_correct [OF inv, of 130048 NULL] inv u show ?thesis by auto
qed

text \<open>
  A request whose header does not fit beside it in the rounded pages gets a block smaller
  than the request: the rounding leaves the header out.
\<close>

theorem kmalloc_short_block:
  "Option.bind (init_mem_table 3000) (\<lambda>m. map_option (\<lambda>(s, p). (p, b_size (blocks s (get_block p))))
     (kmalloc 1 1020 NULL (empty_slab m))) = Some (129030, 1018)"
  by code_simp

end
