(* ===== verification/Cache.thy ===== *)
theory Cache
  imports Proc
begin

text \<open>
  The block layer: the root device, whose disk is an array in memory (\<^verbatim>\<open>fs/rootfs.c\<close> in its
  \<^verbatim>\<open>DIRECT_BLOCK_IO\<close> configuration, where a buffer points into the disk), the superblock and
  the cache of four block buffers with its list from the least to the most recently used
  (\<^verbatim>\<open>fs/cache.c\<close>). Buffers are numbered by their position in \<^verbatim>\<open>buf_table\<close>; a pointer to
  one is its number or \<open>None\<close>. The root device is the only one with block operations; using
  those of another device is a fault.
\<close>

abbreviation (input) BLOCK_SIZE :: int where "BLOCK_SIZE \<equiv> 256"
abbreviation (input) CHAR_BIT :: int where "CHAR_BIT \<equiv> 32"
abbreviation (input) LRU_LEN :: int where "LRU_LEN \<equiv> 4"
abbreviation (input) DISK_SIZE :: int where "DISK_SIZE \<equiv> 40960"
abbreviation (input) SUPER_BLOCK_MAGIC :: int where "SUPER_BLOCK_MAGIC \<equiv> 0xabcdefff"
abbreviation (input) rootfs_dev :: int where "rootfs_dev \<equiv> 0"

record block_buffer =
  buf_block :: addr
  buf_prev :: "int option"
  buf_next :: "int option"
  b_blocknr :: int
  b_dev :: "int option"
  b_dirt :: bool
  b_count :: int
  initialised :: bool

record superblock =
  sb_magic :: int
  s_block_inuse :: int
  s_inode_inuse :: int
  s_free_blocks :: int
  s_free_inodes :: int
  s_block_size :: int
  s_inode_size :: int
  s_rootnr :: int
  s_superblock_nr :: int
  s_superblock_size :: int
  s_blockmapnr :: int
  s_blockmap_size :: int
  s_inodemapnr :: int
  s_inodemap_size :: int
  s_inode_tablenr :: int
  s_inode_table_size :: int
  s_char_bit :: int
  s_name :: "int list"

record device =
  dev_id :: int
  device_type :: int

record fsk = kernel +
  bufs :: "int \<Rightarrow> block_buffer"
  lru_front :: "int option"
  lru_rear :: "int option"
  root_sb :: superblock
  rootfs_disk :: addr
  rootfs_disk_size :: int
  start_unix_time :: u32
  device :: "int \<Rightarrow> device"
  devices_list :: "int list"
  kstring :: addr

definition upd_buf :: "int \<Rightarrow> (block_buffer \<Rightarrow> block_buffer) \<Rightarrow> 'a fsk_scheme \<Rightarrow> 'a fsk_scheme" where
  "upd_buf b f k = k\<lparr>bufs := (bufs k)(b := f (bufs k b))\<rparr>"

definition buf_zero :: block_buffer where
  "buf_zero = \<lparr>buf_block = NULL, buf_prev = None, buf_next = None, b_blocknr = 0, b_dev = None, b_dirt = False,
     b_count = 0, initialised = False\<rparr>"

section \<open>Devices\<close>

text \<open>
  Devices (\<^verbatim>\<open>fs/dev.c\<close>) are numbered; the list holds the registered ones, the newest first. The
  operation tables are those of the device's driver, so they are not fields.
\<close>

definition init_dev :: "'a fsk_scheme \<Rightarrow> 'a fsk_scheme" where
  "init_dev k = k\<lparr>devices_list := []\<rparr>"

definition register_device :: "int \<Rightarrow> int \<Rightarrow> int \<Rightarrow> 'a fsk_scheme \<Rightarrow> 'a fsk_scheme \<times> int" where
  "register_device dev ident type k =
     (k\<lparr>device := (device k)(dev := \<lparr>dev_id = ident, device_type = type\<rparr>), devices_list := dev # devices_list k\<rparr>, 0)"

definition get_dev :: "int \<Rightarrow> 'a fsk_scheme \<Rightarrow> int option" where
  "get_dev ident k = List.find (\<lambda>d. dev_id (device k d) = ident) (devices_list k)"

section \<open>The root device\<close>

definition get_sb :: "int option \<Rightarrow> 'a fsk_scheme \<Rightarrow> superblock option" where
  "get_sb dev k = (if dev = Some rootfs_dev then Some (root_sb k) else None)"

primrec blk_io_loop :: "bool \<Rightarrow> nat \<Rightarrow> addr \<Rightarrow> addr \<Rightarrow> memory \<Rightarrow> memory" where
  "blk_io_loop write_mode 0 ptr buf m = m"
| "blk_io_loop write_mode (Suc n) ptr buf m =
     blk_io_loop write_mode n (ptr + 1) (buf + 1) (if write_mode then m(ptr := m buf) else m(buf := m ptr))"

definition blk_dev_io_read_write :: "addr \<Rightarrow> int \<Rightarrow> int \<Rightarrow> bool \<Rightarrow> 'a fsk_scheme \<Rightarrow> 'a fsk_scheme \<times> int" where
  "blk_dev_io_read_write buf off len write_mode k =
     (if off \<ge> rootfs_disk_size k then (k, 0)
      else let len = (if (off + len) mod 2 ^ 32 > rootfs_disk_size k then rootfs_disk_size k - off else len)
           in (upd_mem (blk_io_loop write_mode (nat (to_int len)) (rootfs_disk k + off) buf) k, len))"

definition blk_dev_io_read :: "addr \<Rightarrow> int \<Rightarrow> int \<Rightarrow> 'a fsk_scheme \<Rightarrow> 'a fsk_scheme \<times> int" where
  "blk_dev_io_read buf off len k = blk_dev_io_read_write buf off len False k"

definition blk_dev_io_write :: "addr \<Rightarrow> int \<Rightarrow> int \<Rightarrow> 'a fsk_scheme \<Rightarrow> 'a fsk_scheme \<times> int" where
  "blk_dev_io_write buf off len k = blk_dev_io_read_write buf off len True k"

text \<open>
  Sizes on a disk image made on another machine count its characters; \<^verbatim>\<open>ARCH_CHAR_SIZE\<close> and
  \<^verbatim>\<open>DEARCH_CHAR_SIZE\<close> convert them (\<open>None\<close> is a division by zero).
\<close>

definition char_ratio :: "superblock \<Rightarrow> int option" where
  "char_ratio sb = (if s_char_bit sb = 0 then None else Some (CHAR_BIT div s_char_bit sb))"

definition ARCH_CHAR_SIZE :: "int \<Rightarrow> superblock \<Rightarrow> int option" where
  "ARCH_CHAR_SIZE x sb = do { r \<leftarrow> char_ratio sb; if r = 0 then None else Some (x div r) }"

definition DEARCH_CHAR_SIZE :: "int \<Rightarrow> superblock \<Rightarrow> int option" where
  "DEARCH_CHAR_SIZE x sb = do { r \<leftarrow> char_ratio sb; Some ((x * r) mod 2 ^ 32) }"

definition arch_superblock :: "superblock \<Rightarrow> superblock option" where
  "arch_superblock sb = do {
     a \<leftarrow> ARCH_CHAR_SIZE (s_inode_size sb) sb; b \<leftarrow> ARCH_CHAR_SIZE (s_block_size sb) sb;
     c \<leftarrow> ARCH_CHAR_SIZE (s_superblock_size sb) sb; d \<leftarrow> ARCH_CHAR_SIZE (s_blockmap_size sb) sb;
     e \<leftarrow> ARCH_CHAR_SIZE (s_inodemap_size sb) sb; f \<leftarrow> ARCH_CHAR_SIZE (s_inode_table_size sb) sb;
     Some (sb\<lparr>s_inode_size := a, s_block_size := b, s_superblock_size := c, s_blockmap_size := d,
              s_inodemap_size := e, s_inode_table_size := f\<rparr>) }"

definition dearch_superblock :: "superblock \<Rightarrow> superblock option" where
  "dearch_superblock sb = do {
     a \<leftarrow> DEARCH_CHAR_SIZE (s_inode_size sb) sb; b \<leftarrow> DEARCH_CHAR_SIZE (s_block_size sb) sb;
     c \<leftarrow> DEARCH_CHAR_SIZE (s_superblock_size sb) sb; d \<leftarrow> DEARCH_CHAR_SIZE (s_blockmap_size sb) sb;
     e \<leftarrow> DEARCH_CHAR_SIZE (s_inodemap_size sb) sb; f \<leftarrow> DEARCH_CHAR_SIZE (s_inode_table_size sb) sb;
     Some (sb\<lparr>s_inode_size := a, s_block_size := b, s_superblock_size := c, s_blockmap_size := d,
              s_inodemap_size := e, s_inode_table_size := f\<rparr>) }"

text \<open>The superblock as the words of its structure.\<close>

abbreviation (input) SUPERBLOCK_NAME_LEN :: nat where "SUPERBLOCK_NAME_LEN \<equiv> 32"
abbreviation (input) SUPERBLOCK_LEN :: int where "SUPERBLOCK_LEN \<equiv> 49"

definition sb_words :: "superblock \<Rightarrow> int list" where
  "sb_words sb = [sb_magic sb, s_block_inuse sb, s_inode_inuse sb, s_free_blocks sb, s_free_inodes sb, s_block_size sb,
     s_inode_size sb, s_rootnr sb, s_superblock_nr sb, s_superblock_size sb, s_blockmapnr sb, s_blockmap_size sb,
     s_inodemapnr sb, s_inodemap_size sb, s_inode_tablenr sb, s_inode_table_size sb, s_char_bit sb] @ s_name sb"

definition words_sb :: "(int \<Rightarrow> int) \<Rightarrow> superblock" where
  "words_sb w = \<lparr>sb_magic = w 0, s_block_inuse = w 1, s_inode_inuse = w 2, s_free_blocks = w 3, s_free_inodes = w 4,
     s_block_size = w 5, s_inode_size = w 6, s_rootnr = w 7, s_superblock_nr = w 8, s_superblock_size = w 9,
     s_blockmapnr = w 10, s_blockmap_size = w 11, s_inodemapnr = w 12, s_inodemap_size = w 13, s_inode_tablenr = w 14,
     s_inode_table_size = w 15, s_char_bit = w 16, s_name = map (\<lambda>i. w (17 + int i)) [0..<SUPERBLOCK_NAME_LEN]\<rparr>"

definition blk_dev_init :: "addr \<Rightarrow> int \<Rightarrow> 'a fsk_scheme \<Rightarrow> 'a fsk_scheme option" where
  "blk_dev_init disk sz k =
     (let k = k\<lparr>rootfs_disk_size := sz, rootfs_disk := disk\<rparr> in
      do { sb \<leftarrow> arch_superblock (words_sb (\<lambda>i. kmem k (disk + i)));
           if sb_magic sb = SUPER_BLOCK_MAGIC then Some (k\<lparr>root_sb := sb\<rparr>) else None })"

text \<open>Block operations of the root device; those of no other device exist.\<close>

definition init_block :: "int option \<Rightarrow> int \<Rightarrow> 'a fsk_scheme \<Rightarrow> ('a fsk_scheme \<times> int) option" where
  "init_block dev b k = (if dev = Some rootfs_dev then Some (k, 0) else None)"

definition retrieve_block :: "int option \<Rightarrow> int \<Rightarrow> int \<Rightarrow> 'a fsk_scheme \<Rightarrow> ('a fsk_scheme \<times> int) option" where
  "retrieve_block dev b bnr k =
     (if dev = Some rootfs_dev
      then let off = (bnr * BLOCK_SIZE) mod 2 ^ 32 in
           Some (if off \<ge> rootfs_disk_size k then (k, - ENOSPC)
                 else (upd_buf b (buf_block_update (\<lambda>_. rootfs_disk k + off)) k, BLOCK_SIZE))
      else None)"

definition flush_block :: "int option \<Rightarrow> int \<Rightarrow> 'a fsk_scheme \<Rightarrow> ('a fsk_scheme \<times> int) option" where
  "flush_block dev b k = (if dev = Some rootfs_dev then Some (k, BLOCK_SIZE) else None)"

definition bops_release_block :: "int option \<Rightarrow> int \<Rightarrow> 'a fsk_scheme \<Rightarrow> ('a fsk_scheme \<times> int) option" where
  "bops_release_block dev b k = (if dev = Some rootfs_dev then Some (k, 0) else None)"

section \<open>The list of buffers\<close>

definition rm_lru :: "int \<Rightarrow> 'a fsk_scheme \<Rightarrow> 'a fsk_scheme" where
  "rm_lru b k =
     (let k = (case buf_prev (bufs k b) of Some p \<Rightarrow> upd_buf p (buf_next_update (\<lambda>_. buf_next (bufs k b))) k | None \<Rightarrow> k);
          k = (case buf_next (bufs k b) of Some n \<Rightarrow> upd_buf n (buf_prev_update (\<lambda>_. buf_prev (bufs k b))) k | None \<Rightarrow> k);
          k = (if lru_rear k = Some b then k\<lparr>lru_rear := buf_next (bufs k b)\<rparr> else k)
      in (if lru_front k = Some b then k\<lparr>lru_front := buf_prev (bufs k b)\<rparr> else k))"

definition dequeue_buf :: "'a fsk_scheme \<Rightarrow> 'a fsk_scheme \<times> int option" where
  "dequeue_buf k =
     (case lru_rear k of
        None \<Rightarrow> (k, None)
      | Some rear \<Rightarrow>
          let k = (case buf_next (bufs k rear) of Some n \<Rightarrow> upd_buf n (buf_prev_update (\<lambda>_. None)) k | None \<Rightarrow> k);
              k = k\<lparr>lru_rear := buf_next (bufs k rear)\<rparr>;
              k = upd_buf rear (\<lambda>r. r\<lparr>buf_next := None, buf_prev := None\<rparr>) k
          in (k, Some rear))"

definition enqueue_buf :: "int \<Rightarrow> 'a fsk_scheme \<Rightarrow> 'a fsk_scheme option" where
  "enqueue_buf b k =
     (let front = lru_front k;
          k = upd_buf b (\<lambda>r. r\<lparr>buf_next := None, buf_prev := front\<rparr>) k in
      do { f \<leftarrow> front;
           Some ((upd_buf f (buf_next_update (\<lambda>_. Some b)) k)\<lparr>lru_front := Some b\<rparr>) })"

definition flush_all_buffer :: "'a fsk_scheme \<Rightarrow> ('a fsk_scheme \<times> int) option" where
  "flush_all_buffer k =
     do { k \<leftarrow> for_loop 0 LRU_LEN (\<lambda>j k.
            if b_dirt (bufs k j)
            then do { (k, _) \<leftarrow> flush_block (b_dev (bufs k j)) j k; Some (upd_buf j (b_dirt_update (\<lambda>_. False)) k) }
            else Some k) k;
          Some (k, 0) }"

definition flush_inode_zones :: "int list \<Rightarrow> 'a fsk_scheme \<Rightarrow> ('a fsk_scheme \<times> int) option" where
  "flush_inode_zones zones k =
     do { k \<leftarrow> for_loop 0 (int NR_TZONES) (\<lambda>i k.
            do { zid \<leftarrow> aget zones i;
                 if zid > 0
                 then for_loop 0 LRU_LEN (\<lambda>j k.
                        if b_blocknr (bufs k j) = zid \<and> b_dirt (bufs k j)
                        then do { (k, _) \<leftarrow> flush_block (b_dev (bufs k j)) j k; Some (upd_buf j (b_dirt_update (\<lambda>_. False)) k) }
                        else Some k) k
                 else Some k }) k;
          Some (k, 0) }"

definition put_block_buffer :: "int \<Rightarrow> 'a fsk_scheme \<Rightarrow> ('a fsk_scheme \<times> int) option" where
  "put_block_buffer b k =
     do { k \<leftarrow> enqueue_buf b k;
          let k = upd_buf b (b_count_update (\<lambda>c. c - 1)) k;
          Some (if b_count (bufs k b) \<le> 0 then upd_buf b (b_count_update (\<lambda>_. 0)) k else k, 0) }"

definition put_block_buffer_immed :: "int \<Rightarrow> 'a fsk_scheme \<Rightarrow> ('a fsk_scheme \<times> int) option" where
  "put_block_buffer_immed b k =
     do { (k, n) \<leftarrow> flush_block (b_dev (bufs k b)) b k;
          if n = 0 then Some (k, - EIO)
          else put_block_buffer b (upd_buf b (b_dirt_update (\<lambda>_. False)) k) }"

definition put_block_buffer_dirt :: "int \<Rightarrow> 'a fsk_scheme \<Rightarrow> ('a fsk_scheme \<times> int) option" where
  "put_block_buffer_dirt b k = put_block_buffer b (upd_buf b (b_dirt_update (\<lambda>_. True)) k)"

text \<open>The scan of the table for a buffer that holds the block.\<close>

definition find_buffer :: "int \<Rightarrow> 'a fsk_scheme \<Rightarrow> int option" where
  "find_buffer blocknr k = List.find (\<lambda>i. b_blocknr (bufs k i) = blocknr) [0, 1, 2, 3]"

definition get_block_buffer :: "int \<Rightarrow> int option \<Rightarrow> 'a fsk_scheme \<Rightarrow> ('a fsk_scheme \<times> int option) option" where
  "get_block_buffer blocknr dev k =
     (case find_buffer blocknr k of
        Some b \<Rightarrow> Some (upd_buf b (b_count_update (\<lambda>c. c + 1)) (rm_lru b k), Some b)
      | None \<Rightarrow>
          (case dequeue_buf k of
             (k, None) \<Rightarrow> Some (k, None)
           | (k, Some b) \<Rightarrow>
               do { k \<leftarrow> (if b_dirt (bufs k b)
                         then do { (k, _) \<leftarrow> flush_block (b_dev (bufs k b)) b k; Some (upd_buf b (b_dirt_update (\<lambda>_. False)) k) }
                         else Some k);
                    k \<leftarrow> (if b_dev (bufs k b) \<noteq> None \<and> b_dev (bufs k b) \<noteq> dev
                         then do { (k, _) \<leftarrow> bops_release_block (b_dev (bufs k b)) b k; Some (upd_buf b (initialised_update (\<lambda>_. False)) k) }
                         else Some k);
                    k \<leftarrow> (if \<not> initialised (bufs k b)
                         then do { (k, _) \<leftarrow> init_block dev b k; Some (upd_buf b (initialised_update (\<lambda>_. True)) k) }
                         else Some k);
                    (k, ret) \<leftarrow> retrieve_block dev b blocknr k;
                    if ret \<le> 0
                    then do { (k, _) \<leftarrow> bops_release_block dev b k;
                              k \<leftarrow> enqueue_buf b (upd_buf b (initialised_update (\<lambda>_. False)) k);
                              Some (k, None) }
                    else Some (upd_buf b (\<lambda>r. r\<lparr>b_blocknr := blocknr, b_dev := dev, buf_next := None, buf_prev := None,
                                                 b_dirt := False, b_count := 1\<rparr>) k, Some b) }))"

definition get_imap :: "int option \<Rightarrow> 'a fsk_scheme \<Rightarrow> ('a fsk_scheme \<times> int option) option" where
  "get_imap dev k = do { sb \<leftarrow> get_sb dev k; get_block_buffer (s_inodemapnr sb) dev k }"

definition get_bmap :: "int option \<Rightarrow> 'a fsk_scheme \<Rightarrow> ('a fsk_scheme \<times> int option) option" where
  "get_bmap dev k = do { sb \<leftarrow> get_sb dev k; get_block_buffer (s_blockmapnr sb) dev k }"

definition get_inode_table :: "int \<Rightarrow> int option \<Rightarrow> 'a fsk_scheme \<Rightarrow> ('a fsk_scheme \<times> int option) option" where
  "get_inode_table num dev k =
     do { sb \<leftarrow> get_sb dev k;
          let bnr = ((num * s_inode_size sb) mod 2 ^ 32) div BLOCK_SIZE;
          if bnr * BLOCK_SIZE > s_inode_table_size sb then Some (k, None)
          else get_block_buffer (s_inode_tablenr sb + bnr) dev k }"

text \<open>The words of the superblock written to the start of the disk.\<close>

definition flush_super_block :: "int option \<Rightarrow> 'a fsk_scheme \<Rightarrow> 'a fsk_scheme option" where
  "flush_super_block dev k =
     do { sb \<leftarrow> get_sb dev k;
          sb \<leftarrow> dearch_superblock sb;
          let k = k\<lparr>root_sb := sb\<rparr>;
          let len = (if SUPERBLOCK_LEN > rootfs_disk_size k then rootfs_disk_size k else SUPERBLOCK_LEN);
          Some (upd_mem (\<lambda>m a. if rootfs_disk k \<le> a \<and> a < rootfs_disk k + len then sb_words sb ! nat (a - rootfs_disk k) else m a) k) }"

definition init_buf :: "'a fsk_scheme \<Rightarrow> 'a fsk_scheme option" where
  "init_buf k =
     do { (k, _) \<leftarrow> for_loop 0 LRU_LEN (\<lambda>i (k, prevbuf).
            let k = upd_buf i (\<lambda>_. buf_zero) k in
            Some (case prevbuf of
                    None \<Rightarrow> k\<lparr>lru_front := Some i, lru_rear := Some i\<rparr>
                  | Some p \<Rightarrow> (upd_buf i (buf_prev_update (\<lambda>_. Some p)) (upd_buf p (buf_next_update (\<lambda>_. Some i)) k))\<lparr>lru_front := Some i\<rparr>,
                  Some i)) (k, None);
          Some k }"

section \<open>The order of the buffers\<close>

text \<open>
  \<open>xs\<close> are the buffers not in use, from the least to the most recently used. A buffer of the
  root device points at its block on the disk, no two buffers hold the same block, and those
  never used hold none.
\<close>

definition lru_list :: "'a fsk_scheme \<Rightarrow> int list \<Rightarrow> bool" where
  "lru_list k xs \<longleftrightarrow> set xs \<subseteq> {0..<LRU_LEN} \<and> distinct xs \<and> lru_front k = last_opt None xs \<and>
     dchain (\<lambda>b. buf_next (bufs k b)) (\<lambda>b. buf_prev (bufs k b)) None (lru_rear k) xs"

definition buf_ok :: "'a fsk_scheme \<Rightarrow> int \<Rightarrow> bool" where
  "buf_ok k b \<longleftrightarrow> (case b_dev (bufs k b) of
       None \<Rightarrow> b_blocknr (bufs k b) = 0 \<and> \<not> initialised (bufs k b) \<and> \<not> b_dirt (bufs k b)
     | Some d \<Rightarrow> d = rootfs_dev \<and> b_blocknr (bufs k b) \<noteq> 0 \<and> buf_block (bufs k b) = rootfs_disk k + b_blocknr (bufs k b) * BLOCK_SIZE)"

definition cache_inv :: "'a fsk_scheme \<Rightarrow> int list \<Rightarrow> bool" where
  "cache_inv k xs \<longleftrightarrow> lru_list k xs \<and> (\<forall>b\<in>{0..<LRU_LEN}. buf_ok k b) \<and>
     (\<forall>b\<in>{0..<LRU_LEN}. \<forall>c\<in>{0..<LRU_LEN}. b_blocknr (bufs k b) = b_blocknr (bufs k c) \<longrightarrow> b_blocknr (bufs k b) \<noteq> 0 \<longrightarrow> b = c)"

lemma upd_buf_simps [simp]:
  "bufs (upd_buf b f k) = (bufs k)(b := f (bufs k b))" "lru_front (upd_buf b f k) = lru_front k" "lru_rear (upd_buf b f k) = lru_rear k"
  "rootfs_disk (upd_buf b f k) = rootfs_disk k" "rootfs_disk_size (upd_buf b f k) = rootfs_disk_size k" "root_sb (upd_buf b f k) = root_sb k"
  "kmem (upd_buf b f k) = kmem k" "inodes (upd_buf b f k) = inodes k" "procs (upd_buf b f k) = procs k" "filps (upd_buf b f k) = filps k"
  by (simp_all add: upd_buf_def)

text \<open>What the cache operations leave alone, and what only the list operations do.\<close>

definition cache_frame :: "'a fsk_scheme \<Rightarrow> 'a fsk_scheme \<Rightarrow> bool" where
  "cache_frame k' k \<longleftrightarrow> k'\<lparr>bufs := bufs k, lru_front := lru_front k, lru_rear := lru_rear k\<rparr> = k"

definition same_buf :: "block_buffer \<Rightarrow> block_buffer \<Rightarrow> bool" where
  "same_buf r' r \<longleftrightarrow> buf_block r' = buf_block r \<and> b_blocknr r' = b_blocknr r \<and> b_dev r' = b_dev r \<and> b_dirt r' = b_dirt r \<and>
     b_count r' = b_count r \<and> initialised r' = initialised r"

lemma cache_frame_refl [simp]: "cache_frame k k"
  by (simp add: cache_frame_def)

lemma cache_frame_upd_buf [simp]: "cache_frame (upd_buf b f k') k = cache_frame k' k"
  by (simp add: cache_frame_def upd_buf_def)

lemma cache_frame_lru [simp]: "cache_frame (k'\<lparr>lru_front := x\<rparr>) k = cache_frame k' k" "cache_frame (k'\<lparr>lru_rear := x\<rparr>) k = cache_frame k' k"
  by (simp_all add: cache_frame_def)

lemma cache_frameD:
  assumes "cache_frame k' k"
  shows "kmem k' = kmem k" "inodes k' = inodes k" "procs k' = procs k" "filps k' = filps k" "rootfs_disk k' = rootfs_disk k"
    "rootfs_disk_size k' = rootfs_disk_size k" "root_sb k' = root_sb k"
proof -
  have e: "k = k'\<lparr>bufs := bufs k, lru_front := lru_front k, lru_rear := lru_rear k\<rparr>" using assms by (simp add: cache_frame_def)
  show "kmem k' = kmem k" by (subst e) simp
  show "inodes k' = inodes k" by (subst e) simp
  show "procs k' = procs k" by (subst e) simp
  show "filps k' = filps k" by (subst e) simp
  show "rootfs_disk k' = rootfs_disk k" by (subst e) simp
  show "rootfs_disk_size k' = rootfs_disk_size k" by (subst e) simp
  show "root_sb k' = root_sb k" by (subst e) simp
qed

lemma cache_frame_trans:
  assumes "cache_frame k3 k2" "cache_frame k2 k1"
  shows "cache_frame k3 k1"
proof -
  have "k3\<lparr>bufs := bufs k1, lru_front := lru_front k1, lru_rear := lru_rear k1\<rparr> =
      k3\<lparr>bufs := bufs k2, lru_front := lru_front k2, lru_rear := lru_rear k2\<rparr>\<lparr>bufs := bufs k1, lru_front := lru_front k1, lru_rear := lru_rear k1\<rparr>"
    by simp
  then show ?thesis unfolding cache_frame_def assms [unfolded cache_frame_def] .
qed

lemma rm_lru_links:
  assumes "buf_prev (bufs k b) \<noteq> Some b" "buf_next (bufs k b) \<noteq> Some b"
  shows "buf_next (bufs (rm_lru b k) y) = (if buf_prev (bufs k b) = Some y then buf_next (bufs k b) else buf_next (bufs k y))"
    "buf_prev (bufs (rm_lru b k) y) = (if buf_next (bufs k b) = Some y then buf_prev (bufs k b) else buf_prev (bufs k y))"
    "lru_rear (rm_lru b k) = (if lru_rear k = Some b then buf_next (bufs k b) else lru_rear k)"
    "lru_front (rm_lru b k) = (if lru_front k = Some b then buf_prev (bufs k b) else lru_front k)"
  using assms by (auto simp: rm_lru_def Let_def split: option.splits)

lemma rm_lru_run:
  assumes "lru_list k (as @ b # cs)"
  shows "lru_list (rm_lru b k) (as @ cs)" "cache_frame (rm_lru b k) k" "same_buf (bufs (rm_lru b k) c) (bufs k c)"
proof -
  have d: "distinct (as @ b # cs)" and D: "dchain (\<lambda>b. buf_next (bufs k b)) (\<lambda>b. buf_prev (bufs k b)) None (lru_rear k) (as @ b # cs)"
    and F: "lru_front k = last_opt None (as @ b # cs)" and S: "set (as @ b # cs) \<subseteq> {0..<LRU_LEN}" using assms by (auto simp: lru_list_def)
  have R: "lru_rear k = hd_opt (as @ b # cs)" using dchain_hd [OF D] .
  have lb: "buf_prev (bufs k b) = last_opt None as" "buf_next (bufs k b) = hd_opt cs"
    using dchain_links [OF D] by simp_all
  show "cache_frame (rm_lru b k) k" by (simp add: rm_lru_def Let_def split: option.split)
  show "same_buf (bufs (rm_lru b k) c) (bufs k c)" by (simp add: rm_lru_def Let_def same_buf_def split: option.split)
  have "buf_prev (bufs k b) \<noteq> Some b" "buf_next (bufs k b) \<noteq> Some b"
    using d by (cases as rule: rev_cases; cases cs; simp add: lb; auto)+
  note L = rm_lru_links [OF this]
  have n: "buf_next (bufs (rm_lru b k) y) = (if as \<noteq> [] \<and> y = last as then hd_opt cs else buf_next (bufs k y))" for y
    by (cases as rule: rev_cases) (auto simp: L lb)
  have p: "buf_prev (bufs (rm_lru b k) y) = (if cs \<noteq> [] \<and> y = hd cs then last_opt None as else buf_prev (bufs k y))" for y
    by (cases cs) (auto simp: L lb)
  have r: "lru_rear (rm_lru b k) = hd_opt (as @ cs)" using d R by (cases as) (auto simp: L lb)
  have f: "lru_front (rm_lru b k) = last_opt None (as @ cs)"
    using d F by (cases cs rule: rev_cases) (auto simp: L lb last_opt_def)
  show "lru_list (rm_lru b k) (as @ cs)"
    using d S dchain_unlink [OF D d, of "\<lambda>y. buf_next (bufs (rm_lru b k) y)" "\<lambda>y. buf_prev (bufs (rm_lru b k) y)"] n p
    by (simp add: lru_list_def r f)
qed

lemma dequeue_buf_run:
  assumes "lru_list k (b # cs)" "cs \<noteq> []"
  shows "\<exists>k'. dequeue_buf k = (k', Some b) \<and> lru_list k' cs \<and> cache_frame k' k \<and> (\<forall>c. same_buf (bufs k' c) (bufs k c))"
proof -
  obtain c cs' where cs: "cs = c # cs'" using assms(2) by (cases cs) auto
  have D: "dchain (\<lambda>b. buf_next (bufs k b)) (\<lambda>b. buf_prev (bufs k b)) None (lru_rear k) (b # cs)" and d: "distinct (b # cs)"
    using assms(1) by (auto simp: lru_list_def)
  have l: "lru_rear k = Some b" "buf_next (bufs k b) = Some c" using D by (auto simp: cs)
  define k' where "k' = upd_buf b (\<lambda>r. r\<lparr>buf_next := None, buf_prev := None\<rparr>)
     ((upd_buf c (buf_prev_update (\<lambda>_. None)) k)\<lparr>lru_rear := Some c\<rparr>)"
  have "c \<noteq> b" using d by (auto simp: cs)
  then have run: "dequeue_buf k = (k', Some b)" using l by (simp add: dequeue_buf_def k'_def Let_def)
  have "dchain (\<lambda>b. buf_next (bufs k' b)) (\<lambda>b. buf_prev (bufs k' b)) None (hd_opt ([] @ cs)) ([] @ cs)"
  proof (rule dchain_unlink)
    show "dchain (\<lambda>b. buf_next (bufs k b)) (\<lambda>b. buf_prev (bufs k b)) None (lru_rear k) ([] @ b # cs)" using D by simp
  qed (use d in \<open>auto simp: k'_def cs\<close>)
  moreover have "lru_rear k' = hd_opt ([] @ cs)" "lru_front k' = lru_front k" by (simp_all add: k'_def cs)
  ultimately have "lru_list k' cs" using assms(1) by (simp add: lru_list_def cs)
  moreover have "cache_frame k' k" "same_buf (bufs k' x) (bufs k x)" for x by (simp_all add: k'_def same_buf_def)
  ultimately show ?thesis using run by blast
qed

lemma enqueue_buf_run:
  assumes "lru_list k xs" "xs \<noteq> []" "b \<notin> set xs" "b \<in> {0..<LRU_LEN}"
  shows "\<exists>k'. enqueue_buf b k = Some k' \<and> lru_list k' (xs @ [b]) \<and> cache_frame k' k \<and> (\<forall>c. same_buf (bufs k' c) (bufs k c))"
proof -
  have D: "dchain (\<lambda>b. buf_next (bufs k b)) (\<lambda>b. buf_prev (bufs k b)) None (lru_rear k) xs" and d: "distinct xs"
    and F: "lru_front k = Some (last xs)" using assms(1,2) by (auto simp: lru_list_def last_opt_def)
  define k' where "k' = (upd_buf (last xs) (buf_next_update (\<lambda>_. Some b)) (upd_buf b (\<lambda>r. r\<lparr>buf_next := None, buf_prev := Some (last xs)\<rparr>) k))\<lparr>lru_front := Some b\<rparr>"
  have run: "enqueue_buf b k = Some k'" using F by (simp add: enqueue_buf_def k'_def Let_def)
  have lb: "last xs \<noteq> b" using assms(2,3) by auto
  have "dchain (\<lambda>b. buf_next (bufs k' b)) (\<lambda>b. buf_prev (bufs k' b)) None (hd_opt (xs @ [b])) (xs @ [b])"
    by (rule dchain_snoc [OF D d]) (use assms(2,3) lb in \<open>auto simp: k'_def last_opt_def\<close>)
  moreover have "lru_rear k = hd_opt (xs @ [b])" using dchain_hd [OF D] assms(2) by (cases xs) auto
  moreover have "lru_rear k' = lru_rear k" "lru_front k' = Some b" by (simp_all add: k'_def)
  ultimately have "lru_list k' (xs @ [b])" using assms by (simp add: lru_list_def)
  moreover have "cache_frame k' k" "same_buf (bufs k' x) (bufs k x)" for x by (simp_all add: k'_def same_buf_def)
  ultimately show ?thesis using run by blast
qed

section \<open>Taking and returning a buffer\<close>

lemma same_buf_refl [simp]: "same_buf r r"
  by (simp add: same_buf_def)

lemma same_buf_trans: "same_buf r3 r2 \<Longrightarrow> same_buf r2 r1 \<Longrightarrow> same_buf r3 r1"
  by (simp add: same_buf_def)

lemma same_buf_ok: "cache_frame k' k \<Longrightarrow> same_buf (bufs k' b) (bufs k b) \<Longrightarrow> buf_ok k' b = buf_ok k b"
  by (auto simp: buf_ok_def same_buf_def dest: cache_frameD split: option.splits)

lemma lru_list_links:
  "(\<And>b. b \<in> set xs \<Longrightarrow> buf_next (bufs k' b) = buf_next (bufs k b) \<and> buf_prev (bufs k' b) = buf_prev (bufs k b)) \<Longrightarrow>
     lru_front k' = lru_front k \<Longrightarrow> lru_rear k' = lru_rear k \<Longrightarrow> lru_list k xs \<Longrightarrow> lru_list k' xs"
  using dchain_cong [of xs "\<lambda>b. buf_next (bufs k' b)" "\<lambda>b. buf_next (bufs k b)" "\<lambda>b. buf_prev (bufs k' b)" "\<lambda>b. buf_prev (bufs k b)"]
  by (simp add: lru_list_def)

lemma find_buffer_Some: "find_buffer nr k = Some b \<Longrightarrow> b \<in> {0..<LRU_LEN} \<and> b_blocknr (bufs k b) = nr"
  by (auto simp: find_buffer_def split: if_splits)

lemma find_buffer_None: "find_buffer nr k = None \<Longrightarrow> b \<in> {0..<LRU_LEN} \<Longrightarrow> b_blocknr (bufs k b) \<noteq> nr"
proof -
  assume "find_buffer nr k = None" and b: "b \<in> {0..<LRU_LEN}"
  from b have "b = 0 \<or> b = 1 \<or> b = 2 \<or> b = 3" by auto
  with \<open>find_buffer nr k = None\<close> show ?thesis by (auto simp: find_buffer_def split: if_splits)
qed

text \<open>The buffer after it is loaded.\<close>

definition loaded :: "int \<Rightarrow> 'a fsk_scheme \<Rightarrow> block_buffer \<Rightarrow> block_buffer" where
  "loaded nr k r = r\<lparr>buf_block := rootfs_disk k + nr * BLOCK_SIZE, b_blocknr := nr, b_dev := Some rootfs_dev, buf_next := None,
     buf_prev := None, b_dirt := False, b_count := 1, initialised := True\<rparr>"

lemma get_block_buffer_miss:
  assumes "find_buffer nr k = None" "dequeue_buf k = (k1, Some b)" "buf_ok k1 b" "rootfs_disk_size k1 < 2 ^ 31"
    and "0 \<le> nr" "nr * BLOCK_SIZE < rootfs_disk_size k1"
  shows "get_block_buffer nr (Some rootfs_dev) k = Some (upd_buf b (loaded nr k1) k1, Some b)"
proof -
  have off: "(nr * BLOCK_SIZE) mod 2 ^ 32 = nr * BLOCK_SIZE" using assms(4-6) by simp
  show ?thesis
  proof (cases "b_dev (bufs k1 b)")
    case None
    with assms show ?thesis
      by (cases "bufs k1 b") (simp add: get_block_buffer_def buf_ok_def init_block_def retrieve_block_def off Let_def upd_buf_def loaded_def)
  next
    case (Some d)
    then have "d = rootfs_dev" using assms(3) by (simp add: buf_ok_def)
    with assms Some show ?thesis
      by (cases "bufs k1 b") (simp add: get_block_buffer_def flush_block_def init_block_def retrieve_block_def off Let_def upd_buf_def loaded_def)
  qed
qed

text \<open>Taking a block that is not held: from the cache if it is there, else in the least recently used buffer.\<close>

lemma get_block_buffer_run:
  assumes inv: "cache_inv k xs" and xs: "2 \<le> length xs" and nr: "0 < nr" "nr * BLOCK_SIZE < rootfs_disk_size k" "rootfs_disk_size k < 2 ^ 31"
    and free: "\<And>b. b \<in> {0..<LRU_LEN} \<Longrightarrow> b \<notin> set xs \<Longrightarrow> b_blocknr (bufs k b) \<noteq> nr"
  shows "\<exists>k' b. get_block_buffer nr (Some rootfs_dev) k = Some (k', Some b) \<and>
     b = (case find_buffer nr k of Some c \<Rightarrow> c | None \<Rightarrow> hd xs) \<and> b \<in> set xs \<and> cache_inv k' (remove1 b xs) \<and> cache_frame k' k \<and>
     b_blocknr (bufs k' b) = nr \<and> buf_block (bufs k' b) = rootfs_disk k + nr * BLOCK_SIZE \<and> b_dev (bufs k' b) = Some rootfs_dev \<and>
     (\<forall>c. c \<noteq> b \<longrightarrow> same_buf (bufs k' c) (bufs k c))"
proof -
  have L: "lru_list k xs" and ok: "\<And>b. b \<in> {0..<LRU_LEN} \<Longrightarrow> buf_ok k b"
    and u: "\<And>b c. b \<in> {0..<LRU_LEN} \<Longrightarrow> c \<in> {0..<LRU_LEN} \<Longrightarrow> b_blocknr (bufs k b) = b_blocknr (bufs k c) \<Longrightarrow> b_blocknr (bufs k b) \<noteq> 0 \<Longrightarrow> b = c"
    using inv by (auto simp: cache_inv_def)
  have sub: "set xs \<subseteq> {0..<LRU_LEN}" and dist: "distinct xs" using L by (simp_all add: lru_list_def)
  show ?thesis
  proof (cases "find_buffer nr k")
    case (Some b)
    then have b: "b \<in> {0..<LRU_LEN}" "b_blocknr (bufs k b) = nr" using find_buffer_Some by auto
    then have bx: "b \<in> set xs" using free by blast
    then obtain as cs where split: "xs = as @ b # cs" by (auto dest: split_list)
    define k' where "k' = upd_buf b (b_count_update (\<lambda>c. c + 1)) (rm_lru b k)"
    note R = rm_lru_run [OF L [unfolded split]]
    have rem: "remove1 b xs = as @ cs" using dist by (simp add: split remove1_append)
    have sb: "buf_block (bufs k' c) = buf_block (bufs k c) \<and> b_blocknr (bufs k' c) = b_blocknr (bufs k c) \<and> b_dev (bufs k' c) = b_dev (bufs k c) \<and>
        b_dirt (bufs k' c) = b_dirt (bufs k c) \<and> initialised (bufs k' c) = initialised (bufs k c)" for c
      using R(3) [of c] by (auto simp: k'_def same_buf_def)
    have fr: "cache_frame k' k" using R(2) by (simp add: k'_def)
    have "buf_ok k' c = buf_ok k c" for c using sb [of c] cache_frameD(5) [OF fr] by (simp add: buf_ok_def split: option.split)
    moreover have "lru_list k' (as @ cs)" by (rule lru_list_links [OF _ _ _ R(1)]) (auto simp: k'_def)
    ultimately have "cache_inv k' (remove1 b xs)" using ok u sb by (simp add: cache_inv_def rem)
    moreover have "buf_block (bufs k b) = rootfs_disk k + nr * BLOCK_SIZE \<and> b_dev (bufs k b) = Some rootfs_dev"
      using ok [OF b(1)] b(2) nr(1) by (auto simp: buf_ok_def split: option.splits)
    moreover have "get_block_buffer nr (Some rootfs_dev) k = Some (k', Some b)" by (simp add: get_block_buffer_def Some k'_def)
    moreover have "same_buf (bufs k' c) (bufs k c)" if "c \<noteq> b" for c using R(3) [of c] that by (simp add: k'_def)
    ultimately show ?thesis using Some bx fr sb b(2) by (intro exI [of _ k'] exI [of _ b]) simp
  next
    case None
    obtain b cs where split: "xs = b # cs" "cs \<noteq> []" using xs by (cases xs; cases "tl xs") auto
    then have b: "b \<in> {0..<LRU_LEN}" "b \<notin> set cs" using sub dist by auto
    obtain k1 where k1: "dequeue_buf k = (k1, Some b)" "lru_list k1 cs" "cache_frame k1 k" "\<And>c. same_buf (bufs k1 c) (bufs k c)"
      using dequeue_buf_run [OF L [unfolded split(1)] split(2)] by blast
    note F = cache_frameD [OF k1(3)]
    define k' where "k' = upd_buf b (loaded nr k1) k1"
    have ok1: "buf_ok k1 b" using ok [OF b(1)] same_buf_ok [OF k1(3,4)] by simp
    have run: "get_block_buffer nr (Some rootfs_dev) k = Some (k', Some b)"
      unfolding k'_def by (rule get_block_buffer_miss [OF None k1(1) ok1]) (use nr F in simp_all)
    have fr: "cache_frame k' k" using k1(3) by (simp add: k'_def)
    have sb: "same_buf (bufs k' c) (bufs k c)" if "c \<noteq> b" for c using k1(4) [of c] that by (simp add: k'_def)
    have kb: "b_blocknr (bufs k' b) = nr \<and> buf_block (bufs k' b) = rootfs_disk k + nr * BLOCK_SIZE \<and> b_dev (bufs k' b) = Some rootfs_dev"
      by (simp add: k'_def loaded_def F)
    have "buf_ok k' c" if "c \<in> {0..<LRU_LEN}" for c
      using same_buf_ok [OF fr sb] ok [OF that] kb nr(1) cache_frameD(5) [OF fr] by (cases "c = b") (simp_all add: buf_ok_def)
    moreover have "lru_list k' cs" by (rule lru_list_links [OF _ _ _ k1(2)]) (use b(2) in \<open>auto simp: k'_def\<close>)
    moreover have "x = y" if xy: "x \<in> {0..<LRU_LEN}" "y \<in> {0..<LRU_LEN}" "b_blocknr (bufs k' x) = b_blocknr (bufs k' y)" "b_blocknr (bufs k' x) \<noteq> 0" for x y
      using u [OF xy(1,2)] xy sb [of x] sb [of y] kb find_buffer_None [OF None, of x] find_buffer_None [OF None, of y]
      by (cases "x = b"; cases "y = b") (auto simp: same_buf_def)
    ultimately have "cache_inv k' cs" by (auto simp: cache_inv_def)
    then show ?thesis using run fr kb sb None by (intro exI [of _ k'] exI [of _ b]) (simp add: split)
  qed
qed

lemma put_block_buffer_run:
  assumes inv: "cache_inv k xs" and b: "xs \<noteq> []" "b \<in> {0..<LRU_LEN}" "b \<notin> set xs"
  shows "\<exists>k'. put_block_buffer b k = Some (k', 0) \<and> cache_inv k' (xs @ [b]) \<and> cache_frame k' k \<and>
     (\<forall>c. b_blocknr (bufs k' c) = b_blocknr (bufs k c) \<and> buf_block (bufs k' c) = buf_block (bufs k c) \<and> b_dirt (bufs k' c) = b_dirt (bufs k c))"
proof -
  have L: "lru_list k xs" and ok: "\<And>b. b \<in> {0..<LRU_LEN} \<Longrightarrow> buf_ok k b" using inv by (auto simp: cache_inv_def)
  obtain k1 where k1: "enqueue_buf b k = Some k1" "lru_list k1 (xs @ [b])" "cache_frame k1 k" "\<And>c. same_buf (bufs k1 c) (bufs k c)"
    using enqueue_buf_run [OF L b(1,3,2)] by blast
  define k2 where "k2 = upd_buf b (b_count_update (\<lambda>c. c - 1)) k1"
  define k' where "k' = (if b_count (bufs k2 b) \<le> 0 then upd_buf b (b_count_update (\<lambda>_. 0)) k2 else k2)"
  have run: "put_block_buffer b k = Some (k', 0)" by (simp add: put_block_buffer_def k1(1) k'_def k2_def Let_def)
  have fr: "cache_frame k' k" using k1(3) by (simp add: k'_def k2_def)
  have sb: "buf_block (bufs k' c) = buf_block (bufs k c) \<and> b_blocknr (bufs k' c) = b_blocknr (bufs k c) \<and> b_dev (bufs k' c) = b_dev (bufs k c) \<and>
        b_dirt (bufs k' c) = b_dirt (bufs k c) \<and> initialised (bufs k' c) = initialised (bufs k c)" for c
    using k1(4) [of c] by (auto simp: k'_def k2_def same_buf_def)
  have "buf_ok k' c = buf_ok k c" for c using sb [of c] cache_frameD(5) [OF fr] by (simp add: buf_ok_def split: option.split)
  moreover have "lru_list k' (xs @ [b])" by (rule lru_list_links [OF _ _ _ k1(2)]) (auto simp: k'_def k2_def)
  ultimately have "cache_inv k' (xs @ [b])" using inv sb by (simp add: cache_inv_def)
  with run fr sb show ?thesis by blast
qed

lemma init_buf_run: "\<exists>k'. init_buf k = Some k' \<and> cache_inv k' [0, 1, 2, 3] \<and> cache_frame k' k \<and> (\<forall>b\<in>{0..<LRU_LEN}. b_blocknr (bufs k' b) = 0)"
proof -
  define k0 where "k0 = (upd_buf 0 (\<lambda>_. buf_zero) k)\<lparr>lru_front := Some 0, lru_rear := Some 0\<rparr>"
  define nx where "nx i k = (upd_buf i (buf_prev_update (\<lambda>_. Some (i - 1))) (upd_buf (i - 1) (buf_next_update (\<lambda>_. Some i))
     (upd_buf i (\<lambda>_. buf_zero) k)))\<lparr>lru_front := Some i\<rparr>" for i and k :: "'a fsk_scheme"
  have run: "init_buf k = Some (nx 3 (nx 2 (nx 1 k0)))"
    by (simp add: init_buf_def for_loop.simps Let_def k0_def nx_def)
  have b: "b = 0 \<or> b = 1 \<or> b = 2 \<or> b = 3" if "b \<in> {0..<LRU_LEN}" for b :: int using that by auto
  have nr: "b_blocknr (bufs (nx 3 (nx 2 (nx 1 k0))) b) = 0" "buf_ok (nx 3 (nx 2 (nx 1 k0))) b" if "b \<in> {0..<LRU_LEN}" for b
    using b [OF that] by (auto simp: nx_def k0_def buf_zero_def buf_ok_def)
  have "lru_list (nx 3 (nx 2 (nx 1 k0))) [0, 1, 2, 3]" by (simp add: lru_list_def nx_def k0_def buf_zero_def)
  with nr have "cache_inv (nx 3 (nx 2 (nx 1 k0))) [0, 1, 2, 3]" by (simp add: cache_inv_def)
  moreover have "cache_frame (nx 3 (nx 2 (nx 1 k0))) k" by (simp add: nx_def k0_def)
  ultimately show ?thesis using run nr by blast
qed

text \<open>The words of a superblock determine it.\<close>

definition sb_sizes_ok :: "superblock \<Rightarrow> bool" where
  "sb_sizes_ok sb \<longleftrightarrow> (\<forall>x\<in>{s_inode_size sb, s_block_size sb, s_superblock_size sb, s_blockmap_size sb, s_inodemap_size sb, s_inode_table_size sb}.
     0 \<le> x \<and> x < 2 ^ 30)"

lemma words_sb_cong: "(\<And>i. 0 \<le> i \<Longrightarrow> i < SUPERBLOCK_LEN \<Longrightarrow> v i = w i) \<Longrightarrow> words_sb v = words_sb w"
  by (simp add: words_sb_def)

lemma words_sb_words: "length (s_name sb) = SUPERBLOCK_NAME_LEN \<Longrightarrow> words_sb (\<lambda>i. sb_words sb ! nat i) = sb"
proof -
  assume len: "length (s_name sb) = SUPERBLOCK_NAME_LEN"
  have n: "sb_words sb ! nat (17 + int i) = s_name sb ! i" for i
    by (simp add: sb_words_def nat_add_distrib)
  have "map (\<lambda>i. sb_words sb ! nat (17 + int i)) [0..<SUPERBLOCK_NAME_LEN] = s_name sb"
    unfolding n using map_nth [of "s_name sb"] len by simp
  then show ?thesis by (simp add: words_sb_def) (simp add: sb_words_def)
qed

section \<open>Properties\<close>

text \<open>
  C8. The block cache is a least-recently-used cache over the disk. Taking a block that no one
  holds, while at least two buffers are unused, gives the buffer that already holds it or else
  the least recently used one, pointing at the block's words on the disk; returning it makes it
  the most recently used. Neither step touches memory, so the buffers never disagree with the
  disk, and the invariant (linked both ways, no block in two buffers) is kept.
\<close>

theorem block_cache_lru:
  assumes "cache_inv k xs" "2 \<le> length xs" "0 < nr" "nr * BLOCK_SIZE < rootfs_disk_size k" "rootfs_disk_size k < 2 ^ 31"
    and "\<And>b. b \<in> {0..<LRU_LEN} \<Longrightarrow> b \<notin> set xs \<Longrightarrow> b_blocknr (bufs k b) \<noteq> nr"
    and "b = (case find_buffer nr k of Some c \<Rightarrow> c | None \<Rightarrow> hd xs)"
  shows "\<exists>k1 k2. get_block_buffer nr (Some rootfs_dev) k = Some (k1, Some b) \<and> b \<in> set xs \<and> cache_inv k1 (remove1 b xs) \<and>
     buf_block (bufs k1 b) = rootfs_disk k + nr * BLOCK_SIZE \<and> kmem k1 = kmem k \<and>
     put_block_buffer b k1 = Some (k2, 0) \<and> cache_inv k2 (remove1 b xs @ [b]) \<and> kmem k2 = kmem k"
proof -
  obtain k1 where k1: "get_block_buffer nr (Some rootfs_dev) k = Some (k1, Some b)" "b \<in> set xs" "cache_inv k1 (remove1 b xs)" "cache_frame k1 k"
      "buf_block (bufs k1 b) = rootfs_disk k + nr * BLOCK_SIZE"
    using get_block_buffer_run [OF assms(1-6)] assms(7) by auto
  have d: "distinct xs" "set xs \<subseteq> {0..<LRU_LEN}" using assms(1) by (simp_all add: cache_inv_def lru_list_def)
  have "remove1 b xs \<noteq> []" using assms(2) k1(2) by (cases xs; cases "tl xs") auto
  moreover have "b \<in> {0..<LRU_LEN}" "b \<notin> set (remove1 b xs)" using k1(2) d by auto
  ultimately obtain k2 where "put_block_buffer b k1 = Some (k2, 0)" "cache_inv k2 (remove1 b xs @ [b])" "cache_frame k2 k1"
    using put_block_buffer_run [OF k1(3)] by blast
  with k1 show ?thesis by - (rule exI [of _ k1], rule exI [of _ k2], auto simp: cache_frameD(1))
qed

theorem block_cache_lru_witness:
  "\<exists>(k :: fsk) k1 k2. init_buf (k\<lparr>rootfs_disk_size := 40960\<rparr>) = Some k1 \<and> cache_inv k1 [0, 1, 2, 3] \<and>
     get_block_buffer 7 (Some rootfs_dev) k1 = Some (k2, Some 0) \<and> buf_block (bufs k2 0) = rootfs_disk k1 + 7 * BLOCK_SIZE"
proof -
  fix k :: fsk
  obtain k1 where k1: "init_buf (k\<lparr>rootfs_disk_size := 40960\<rparr>) = Some k1" "cache_inv k1 [0, 1, 2, 3]" "cache_frame k1 (k\<lparr>rootfs_disk_size := 40960\<rparr>)"
    "\<forall>b\<in>{0..<LRU_LEN}. b_blocknr (bufs k1 b) = 0" using init_buf_run by blast
  have "find_buffer 7 k1 = None" using k1(4) by (simp add: find_buffer_def)
  moreover have "rootfs_disk_size k1 = 40960" using cache_frameD(6) [OF k1(3)] by simp
  ultimately show ?thesis
    using block_cache_lru [OF k1(2), of 7 0] k1(1,2,4) by - (rule exI [of _ k], rule exI [of _ k1], auto)
qed

text \<open>
  Writing the superblock back and reading it from the disk at the next start restores it,
  but the copy in memory is left in the units of the machine that made the disk: with 8-bit
  characters there, every \<^verbatim>\<open>sync\<close> multiplies the in-memory sizes by four, the inode size
  among them, and the inode table is then addressed wrongly until the next start.
\<close>

theorem superblock_sync_roundtrip:
  assumes "s_char_bit (root_sb k) = 8" "length (s_name (root_sb k)) = SUPERBLOCK_NAME_LEN" "sb_magic (root_sb k) = SUPER_BLOCK_MAGIC"
    and "SUPERBLOCK_LEN \<le> rootfs_disk_size k" "sb_sizes_ok (root_sb k)"
  shows "\<exists>k'. flush_super_block (Some rootfs_dev) k = Some k' \<and> s_inode_size (root_sb k') = 4 * s_inode_size (root_sb k) \<and>
     (\<exists>k''. blk_dev_init (rootfs_disk k) (rootfs_disk_size k) k' = Some k'' \<and> root_sb k'' = root_sb k)"
proof -
  let ?sb = "root_sb k"
  define d where "d = ?sb\<lparr>s_inode_size := 4 * s_inode_size ?sb, s_block_size := 4 * s_block_size ?sb, s_superblock_size := 4 * s_superblock_size ?sb,
    s_blockmap_size := 4 * s_blockmap_size ?sb, s_inodemap_size := 4 * s_inodemap_size ?sb, s_inode_table_size := 4 * s_inode_table_size ?sb\<rparr>"
  have dea: "dearch_superblock ?sb = Some d"
    using assms(1,5) by (simp add: dearch_superblock_def DEARCH_CHAR_SIZE_def char_ratio_def sb_sizes_ok_def d_def mult.commute)
  have arch: "arch_superblock d = Some ?sb"
    using assms(1) by (simp add: arch_superblock_def ARCH_CHAR_SIZE_def char_ratio_def d_def)
  define k' where "k' = upd_mem (\<lambda>m a. if rootfs_disk k \<le> a \<and> a < rootfs_disk k + SUPERBLOCK_LEN then sb_words d ! nat (a - rootfs_disk k) else m a) (k\<lparr>root_sb := d\<rparr>)"
  have run: "flush_super_block (Some rootfs_dev) k = Some k'"
    using assms(4) by (simp add: flush_super_block_def get_sb_def dea k'_def Let_def cong: if_cong)
  have "words_sb (\<lambda>i. kmem k' (rootfs_disk k + i)) = words_sb (\<lambda>i. sb_words d ! nat i)"
    by (rule words_sb_cong) (simp add: k'_def upd_mem_def)
  also have "\<dots> = d" by (rule words_sb_words) (simp add: d_def assms(2))
  finally have "blk_dev_init (rootfs_disk k) (rootfs_disk_size k) k' = Some (k'\<lparr>rootfs_disk_size := rootfs_disk_size k, rootfs_disk := rootfs_disk k, root_sb := ?sb\<rparr>)"
    using assms(3) by (simp add: blk_dev_init_def arch Let_def)
  then show ?thesis using run by (simp add: k'_def upd_mem_def d_def)
qed

theorem superblock_sync_roundtrip_witness:
  "\<exists>(k :: fsk) k'. flush_super_block (Some rootfs_dev) k = Some k' \<and> s_inode_size (root_sb k) = 17 \<and> s_inode_size (root_sb k') = 68"
proof -
  fix k :: fsk and sb :: superblock
  let ?sb = "sb\<lparr>sb_magic := SUPER_BLOCK_MAGIC, s_block_size := 256, s_inode_size := 17, s_superblock_size := 256, s_blockmap_size := 256,
    s_inodemap_size := 256, s_inode_table_size := 1024, s_char_bit := 8, s_name := replicate SUPERBLOCK_NAME_LEN 0\<rparr>"
  have "\<exists>k'. flush_super_block (Some rootfs_dev) (k\<lparr>root_sb := ?sb, rootfs_disk_size := 40960\<rparr>) = Some k' \<and> s_inode_size (root_sb k') = 68"
    using superblock_sync_roundtrip [of "k\<lparr>root_sb := ?sb, rootfs_disk_size := 40960\<rparr>"] by (auto simp: sb_sizes_ok_def)
  then show ?thesis by - (rule exI [of _ "k\<lparr>root_sb := ?sb, rootfs_disk_size := 40960\<rparr>"], simp)
qed

end
