(* ===== verification/Str.thy ===== *)
theory Str
  imports Memory
begin

text \<open>
  The C library's strings (\<^verbatim>\<open>lib/ansi\<close>, \<^verbatim>\<open>lib/stdlib/strtol.c\<close>, \<^verbatim>\<open>include/ctype.h\<close>)
  and the file system's copies of them (\<^verbatim>\<open>fs/util.c\<close>), on strings in memory. A loop that runs
  past the end of a string without finding a terminator does not return: \<open>None\<close>.
\<close>

section \<open>Operations\<close>

partial_function (option) strlen_loop :: "memory \<Rightarrow> addr \<Rightarrow> addr option" where
  "strlen_loop m s = (if m s \<noteq> 0 then strlen_loop m (s + 1) else Some s)"

definition strlen :: "memory \<Rightarrow> addr \<Rightarrow> int option" where
  "strlen m s = do { e \<leftarrow> strlen_loop m s; Some (e - s) }"

partial_function (option) index_loop :: "memory \<Rightarrow> addr \<Rightarrow> int \<Rightarrow> addr option" where
  "index_loop m s c = (if m s \<noteq> 0 \<and> m s \<noteq> c then index_loop m (s + 1) c else Some s)"

definition index :: "memory \<Rightarrow> addr \<Rightarrow> int \<Rightarrow> addr option" where
  "index m s c = do { e \<leftarrow> index_loop m s c; Some (if m e \<noteq> 0 then e else NULL) }"

partial_function (option) strcmp :: "memory \<Rightarrow> addr \<Rightarrow> addr \<Rightarrow> int option" where
  "strcmp m s1 s2 = (if m s1 \<noteq> 0 \<and> m s2 \<noteq> 0 \<and> m s1 = m s2 then strcmp m (s1 + 1) (s2 + 1) else Some (to_int (m s1 - m s2)))"

partial_function (option) strcspn_loop :: "memory \<Rightarrow> addr \<Rightarrow> addr \<Rightarrow> int \<Rightarrow> int option" where
  "strcspn_loop m s1 s2 ret =
     (if m s1 \<noteq> 0
      then do { p \<leftarrow> index m s2 (m s1); if p \<noteq> NULL then Some ret else strcspn_loop m (s1 + 1) s2 (ret + 1) }
      else Some ret)"

definition strcspn :: "memory \<Rightarrow> addr \<Rightarrow> addr \<Rightarrow> int option" where
  "strcspn m s1 s2 = strcspn_loop m s1 s2 0"

partial_function (option) strspn_loop :: "memory \<Rightarrow> addr \<Rightarrow> addr \<Rightarrow> int \<Rightarrow> int option" where
  "strspn_loop m s1 s2 ret =
     (if m s1 \<noteq> 0
      then do { p \<leftarrow> index m s2 (m s1); if p \<noteq> NULL then strspn_loop m (s1 + 1) s2 (ret + 1) else Some ret }
      else Some ret)"

definition strspn :: "memory \<Rightarrow> addr \<Rightarrow> addr \<Rightarrow> int option" where
  "strspn m s1 s2 = strspn_loop m s1 s2 0"

text \<open>The copying loop \<^verbatim>\<open>while (*src && n--)\<close>; it stops after \<open>n\<close> characters.\<close>

primrec copy_loop :: "nat \<Rightarrow> addr \<Rightarrow> addr \<Rightarrow> memory \<Rightarrow> memory \<times> addr" where
  "copy_loop 0 dest src m = (m, dest)"
| "copy_loop (Suc n) dest src m = (if m src \<noteq> 0 then copy_loop n (dest + 1) (src + 1) (m(dest := m src)) else (m, dest))"

definition strlcpy :: "addr \<Rightarrow> addr \<Rightarrow> int \<Rightarrow> memory \<Rightarrow> memory" where
  "strlcpy dest src n m = (let (m, dest) = copy_loop (nat ((n + 1) mod 2 ^ 32)) dest src m in m(dest := 0))"

definition strlcat :: "addr \<Rightarrow> addr \<Rightarrow> int \<Rightarrow> memory \<Rightarrow> memory option" where
  "strlcat dest src n m =
     do { e \<leftarrow> strlen_loop m dest;
          let n = (n - (e - dest)) mod 2 ^ 32;
          if n = 0 then Some m
          else let (m, e) = copy_loop (nat n) e src m in Some (m(e := 0)) }"

text \<open>\<^verbatim>\<open>compare\<close> of \<^verbatim>\<open>strstr.c\<close>: whether the string at \<open>x\<close> starts with the one at \<open>y\<close>.\<close>

partial_function (option) strstr_compare :: "memory \<Rightarrow> addr \<Rightarrow> addr \<Rightarrow> bool option" where
  "strstr_compare m x y =
     (if m x \<noteq> 0 \<and> m y \<noteq> 0 then (if m x \<noteq> m y then Some False else strstr_compare m (x + 1) (y + 1)) else Some (m y = 0))"

partial_function (option) strstr :: "memory \<Rightarrow> addr \<Rightarrow> addr \<Rightarrow> addr option" where
  "strstr m x y =
     (if m x \<noteq> 0
      then do { c \<leftarrow> (if m x = m y then strstr_compare m x y else Some False);
                if c then Some x else strstr m (x + 1) y }
      else Some NULL)"

primrec move_down :: "nat \<Rightarrow> addr \<Rightarrow> addr \<Rightarrow> memory \<Rightarrow> memory" where
  "move_down 0 to from m = m"
| "move_down (Suc i) to from m = move_down i to from (m(to + int i := m (from + int i)))"

definition memmove :: "addr \<Rightarrow> addr \<Rightarrow> int \<Rightarrow> memory \<Rightarrow> memory" where
  "memmove to from n m =
     (if from = to \<or> n = 0 then m
      else if to > from \<and> to - from < to_int n then move_down (nat (to_int n)) to from m
      else memcpy_loop (nat n) to from m)"

definition char32_strlcpy :: "addr \<Rightarrow> addr \<Rightarrow> int \<Rightarrow> memory \<Rightarrow> memory" where
  "char32_strlcpy dest src n m = (let (m, dest) = copy_loop (nat n) dest src m in m(dest := 0))"

definition char32_strlcpy2 :: "addr \<Rightarrow> addr \<Rightarrow> int \<Rightarrow> memory \<Rightarrow> memory" where
  "char32_strlcpy2 dest src n m = (let (m, dest) = copy_loop (nat n) dest src m in m(dest := 0))"

definition char32_strlen :: "memory \<Rightarrow> addr \<Rightarrow> int option" where
  "char32_strlen m s = do { e \<leftarrow> strlen_loop m s; Some (to_int (e - s)) }"

definition char32_strcmp :: "memory \<Rightarrow> addr \<Rightarrow> addr \<Rightarrow> int option" where
  "char32_strcmp m s1 s2 = strcmp m s1 s2"

definition char32_index :: "memory \<Rightarrow> addr \<Rightarrow> int \<Rightarrow> addr option" where
  "char32_index m s c = do { e \<leftarrow> index_loop m s c; Some (if m e \<noteq> 0 then e else NULL) }"

section \<open>Numbers\<close>

definition in_class :: "int \<Rightarrow> int \<Rightarrow> int \<Rightarrow> bool" where
  "in_class c lo n \<longleftrightarrow> (c - lo) mod 2 ^ 32 < n"

definition isdigit :: "int \<Rightarrow> bool" where "isdigit c \<longleftrightarrow> in_class c 48 10"
definition islower :: "int \<Rightarrow> bool" where "islower c \<longleftrightarrow> in_class c 97 26"
definition isupper :: "int \<Rightarrow> bool" where "isupper c \<longleftrightarrow> in_class c 65 26"
definition isxdigit :: "int \<Rightarrow> bool" where "isxdigit c \<longleftrightarrow> isdigit c \<or> in_class c 97 6 \<or> in_class c 65 6"
definition isprint :: "int \<Rightarrow> bool" where "isprint c \<longleftrightarrow> (c - 32) mod 2 ^ 32 < 95"
definition toupper :: "int \<Rightarrow> int" where "toupper c = (if islower c then c + 65 - 97 else c)"
definition tolower :: "int \<Rightarrow> int" where "tolower c = (if isupper c then c + 97 - 65 else c)"

text \<open>The conversion to unsigned in \<^verbatim>\<open>isspace\<close> is around the whole test, so its difference is signed.\<close>

definition isspace :: "int \<Rightarrow> bool" where "isspace c \<longleftrightarrow> to_int (c - 9) < 5 \<or> c = 32"

abbreviation (input) LONG_MAX :: int where "LONG_MAX \<equiv> 2147483647"
abbreviation (input) LONG_MIN :: int where "LONG_MIN \<equiv> - 2147483648"

partial_function (option) skip_space :: "memory \<Rightarrow> addr \<Rightarrow> addr option" where
  "skip_space m s = (if isspace (m s) then skip_space m (s + 1) else Some s)"

definition digit_of :: "int \<Rightarrow> int" where
  "digit_of c = (if isdigit c then c - 48 else toupper c - 65 + 10)"

partial_function (option) strtol_digits :: "memory \<Rightarrow> int \<Rightarrow> int \<Rightarrow> addr \<Rightarrow> int \<Rightarrow> bool \<Rightarrow> (addr \<times> int \<times> bool) option" where
  "strtol_digits m sign base s result erange =
     (if isxdigit (m s) \<and> digit_of (m s) < base
      then (if result > (LONG_MAX - digit_of (m s)) sdiv base
            then strtol_digits m sign base (s + 1) (if sign = 1 then LONG_MAX else LONG_MIN) True
            else strtol_digits m sign base (s + 1) (to_int (result * base + digit_of (m s))) erange)
      else Some (s, result, erange))"

text \<open>The value, the end pointer and whether \<^verbatim>\<open>errno\<close> was set to \<^verbatim>\<open>ERANGE\<close>.\<close>

definition strtol :: "memory \<Rightarrow> addr \<Rightarrow> int \<Rightarrow> (int \<times> addr \<times> bool) option" where
  "strtol m str base =
     do { s \<leftarrow> skip_space m str;
          let (sign, s) = (if m s = 43 then (1, s + 1) else if m s = 45 then (- 1, s + 1) else (1, s));
          let (base, s) =
            (if base = 0
             then (if m s = 48 then (if tolower (m (s + 1)) = 120 then (16, s + 2) else (8, s + 1)) else (10, s))
             else (base, s));
          if base < 2 \<or> base > 36 then Some (0, s, False)
          else do { (s, result, erange) \<leftarrow> strtol_digits m sign base s 0 False;
                    Some (to_int (sign * result), s, erange) } }"

section \<open>Strings in memory\<close>

primrec cstring :: "memory \<Rightarrow> addr \<Rightarrow> int list \<Rightarrow> bool" where
  "cstring m a [] \<longleftrightarrow> m a = 0"
| "cstring m a (c # cs) \<longleftrightarrow> m a = c \<and> c \<noteq> 0 \<and> cstring m (a + 1) cs"

lemma cstring_unique: "cstring m a xs \<Longrightarrow> cstring m a ys \<Longrightarrow> xs = ys"
  by (induction xs arbitrary: a ys) (case_tac ys; auto)+

lemma cstring_drop: "cstring m a xs \<Longrightarrow> i \<le> length xs \<Longrightarrow> cstring m (a + int i) (drop i xs)"
proof (induction i arbitrary: a xs)
  case (Suc i)
  then show ?case by (cases xs) (auto simp: algebra_simps dest: Suc.IH)
qed simp

lemma cstring_nth: "cstring m a xs \<Longrightarrow> i < length xs \<Longrightarrow> m (a + int i) = xs ! i \<and> xs ! i \<noteq> 0"
  using cstring_drop [of m a xs i] by (simp add: Cons_nth_drop_Suc [symmetric])

lemma cstring_end: "cstring m a xs \<Longrightarrow> m (a + int (length xs)) = 0"
  using cstring_drop [of m a xs "length xs"] by simp

lemma cstring_cong: "(\<And>i. a \<le> i \<Longrightarrow> i \<le> a + int (length xs) \<Longrightarrow> m' i = m i) \<Longrightarrow> cstring m' a xs = cstring m a xs"
  by (induction xs arbitrary: a) auto

lemma strlen_loop_run: "cstring m a xs \<Longrightarrow> strlen_loop m a = Some (a + int (length xs))"
  by (induction xs arbitrary: a) (subst strlen_loop.simps; simp)+

lemma strlen_run: "cstring m a xs \<Longrightarrow> strlen m a = Some (int (length xs))"
  by (simp add: strlen_def strlen_loop_run)

lemma index_loop_run: "cstring m a xs \<Longrightarrow> index_loop m a c = Some (a + int (length (takeWhile (\<lambda>x. x \<noteq> c) xs)))"
proof (induction xs arbitrary: a)
  case Nil
  then show ?case by (subst index_loop.simps) simp
next
  case (Cons x xs)
  then have "index_loop m (a + 1) c = Some (a + 1 + int (length (takeWhile (\<lambda>x. x \<noteq> c) xs)))" by simp
  with Cons.prems show ?case by (subst index_loop.simps) simp
qed

lemma index_run:
  assumes "cstring m a xs" "0 < a" "c \<noteq> 0"
  shows "\<exists>p. index m a c = Some p \<and> (p \<noteq> NULL \<longleftrightarrow> c \<in> set xs)"
proof -
  let ?n = "length (takeWhile (\<lambda>x. x \<noteq> c) xs)"
  have "?n < length xs \<longleftrightarrow> c \<in> set xs"
    using takeWhile_eq_all_conv [of "\<lambda>x. x \<noteq> c" xs] length_takeWhile_le [of "\<lambda>x. x \<noteq> c" xs]
    by (metis le_neq_implies_less nat_neq_iff takeWhile_eq_take take_all_iff)
  moreover have "m (a + int ?n) \<noteq> 0 \<longleftrightarrow> ?n < length xs"
    using cstring_nth [OF assms(1), of ?n] cstring_end [OF assms(1)] length_takeWhile_le [of "\<lambda>x. x \<noteq> c" xs] by (cases "?n < length xs") auto
  ultimately show ?thesis using assms by (simp add: index_def index_loop_run)
qed

text \<open>A string of machine words; on those the difference of characters is 0 only if they are equal.\<close>

definition word_chars :: "int list \<Rightarrow> bool" where
  "word_chars xs \<longleftrightarrow> (\<forall>c\<in>set xs. 0 \<le> c \<and> c < 2 ^ 31)"

lemma to_int_0_iff: "- (2 ^ 31) < v \<Longrightarrow> v < 2 ^ 31 \<Longrightarrow> to_int v = 0 \<longleftrightarrow> v = 0"
  by (simp add: to_int_id)

lemma strcmp_run:
  "cstring m a xs \<Longrightarrow> cstring m b ys \<Longrightarrow> word_chars xs \<Longrightarrow> word_chars ys \<Longrightarrow> \<exists>r. strcmp m a b = Some r \<and> (r = 0 \<longleftrightarrow> xs = ys)"
proof (induction xs arbitrary: a b ys)
  case Nil
  then show ?case by (subst strcmp.simps) (cases ys; auto simp: word_chars_def to_int_0_iff)
next
  case (Cons x xs)
  show ?case
  proof (cases ys)
    case Nil
    with Cons.prems show ?thesis by (subst strcmp.simps) (auto simp: word_chars_def to_int_0_iff)
  next
    case (Cons y ys')
    show ?thesis
    proof (cases "x = y")
      case True
      have "\<exists>r. strcmp m (a + 1) (b + 1) = Some r \<and> (r = 0 \<longleftrightarrow> xs = ys')"
        using Cons.IH [of "a + 1" "b + 1" ys'] Cons.prems by (simp add: Cons word_chars_def)
      with True Cons.prems show ?thesis by (subst strcmp.simps) (simp add: Cons)
    next
      case False
      have "strcmp m a b = Some (to_int (x - y))" using Cons.prems False by (subst strcmp.simps) (simp add: Cons)
      moreover have "to_int (x - y) \<noteq> 0" using Cons.prems False by (subst to_int_0_iff) (auto simp: Cons word_chars_def)
      ultimately show ?thesis using False by (simp add: Cons)
    qed
  qed
qed

section \<open>Searching\<close>

lemma strstr_compare_run:
  "cstring m x xs \<Longrightarrow> cstring m y ys \<Longrightarrow> strstr_compare m x y = Some (take (length ys) xs = ys)"
proof (induction ys arbitrary: x y xs)
  case Nil
  then show ?case by (subst strstr_compare.simps) simp
next
  case (Cons c ys)
  show ?case
  proof (cases xs)
    case Nil
    with Cons.prems show ?thesis by (subst strstr_compare.simps) simp
  next
    case (Cons d xs')
    with Cons.prems Cons.IH [of "x + 1" xs' "y + 1"] show ?thesis by (subst strstr_compare.simps) auto
  qed
qed

definition occurs_at :: "int list \<Rightarrow> int list \<Rightarrow> nat \<Rightarrow> bool" where
  "occurs_at xs ys i \<longleftrightarrow> i < length xs \<and> take (length ys) (drop i xs) = ys"

lemma strstr_run:
  assumes "cstring m x xs" "cstring m y ys" "ys \<noteq> []"
  shows "strstr m x y = Some (if \<exists>i. occurs_at xs ys i then x + int (LEAST i. occurs_at xs ys i) else NULL)"
  using assms(1)
proof (induction xs arbitrary: x)
  case Nil
  have "\<not> occurs_at [] ys i" for i by (simp add: occurs_at_def)
  with Nil show ?case by (subst strstr.simps) auto
next
  case (Cons c xs)
  have shift: "occurs_at (c # xs) ys (Suc i) = occurs_at xs ys i" for i by (simp add: occurs_at_def)
  have test: "(if m x = m y then strstr_compare m x y else Some False) = Some (occurs_at (c # xs) ys 0)"
  proof (cases "m x = m y")
    case True
    then show ?thesis using strstr_compare_run [OF Cons.prems assms(2)] by (simp add: occurs_at_def)
  next
    case False
    then show ?thesis using Cons.prems assms(2,3) by (cases ys) (auto simp: occurs_at_def)
  qed
  show ?case
  proof (cases "occurs_at (c # xs) ys 0")
    case True
    then have "(LEAST i. occurs_at (c # xs) ys i) = 0" by (simp add: Least_eq_0)
    with True test Cons.prems show ?thesis by (subst strstr.simps) auto
  next
    case False
    have ex: "(\<exists>i. occurs_at (c # xs) ys i) = (\<exists>i. occurs_at xs ys i)" using False shift by (metis not0_implies_Suc)
    have "(LEAST i. occurs_at (c # xs) ys i) = Suc (LEAST i. occurs_at xs ys i)" if "occurs_at xs ys j" for j
      using Least_Suc [of "occurs_at (c # xs) ys" "Suc j"] False that shift by simp
    then have "(if \<exists>i. occurs_at xs ys i then x + 1 + int (LEAST i. occurs_at xs ys i) else NULL) =
        (if \<exists>i. occurs_at (c # xs) ys i then x + int (LEAST i. occurs_at (c # xs) ys i) else NULL)" unfolding ex by auto
    with False test Cons show ?thesis by (subst strstr.simps) simp
  qed
qed

section \<open>Copying\<close>

lemma move_down_apply:
  "from < to \<Longrightarrow> move_down n to from m a = (if to \<le> a \<and> a < to + int n then m (from + (a - to)) else m a)"
  by (induction n arbitrary: m) auto

lemma copy_loop_run:
  assumes "cstring m src xs" "dest + int n < src \<or> src + int (length xs) < dest"
  shows "\<exists>m'. copy_loop n dest src m = (m', dest + int (min n (length xs))) \<and>
     (\<forall>a. m' a = (if dest \<le> a \<and> a < dest + int (min n (length xs)) then xs ! nat (a - dest) else m a))"
  using assms
proof (induction n arbitrary: dest src m xs)
  case (Suc n)
  show ?case
  proof (cases xs)
    case (Cons x xs')
    have s: "cstring (m(dest := x)) (src + 1) xs'" using Suc.prems by (subst cstring_cong [of _ _ _ m]) (auto simp: Cons)
    have "dest + 1 + int n < src + 1 \<or> src + 1 + int (length xs') < dest + 1" using Suc.prems(2) by (auto simp: Cons)
    from Suc.IH [OF s this] obtain m' where m': "copy_loop n (dest + 1) (src + 1) (m(dest := x)) = (m', dest + 1 + int (min n (length xs')))"
      "\<And>a. m' a = (if dest + 1 \<le> a \<and> a < dest + 1 + int (min n (length xs')) then xs' ! nat (a - (dest + 1)) else (m(dest := x)) a)" by blast
    have "copy_loop (Suc n) dest src m = (m', dest + int (min (Suc n) (length xs)))" using Suc.prems(1) m'(1) by (simp add: Cons)
    moreover have "m' a = (if dest \<le> a \<and> a < dest + int (min (Suc n) (length xs)) then xs ! nat (a - dest) else m a)" for a
    proof -
      have "nat (a - dest) = Suc (nat (a - (dest + 1)))" if "dest < a" using that by simp
      then show ?thesis unfolding m'(2) by (auto simp: Cons)
    qed
    ultimately show ?thesis by blast
  qed (use Suc.prems in simp)
qed simp

section \<open>Digits\<close>

text \<open>The value a sequence of digits denotes, and the digits of \<open>m\<close> from an address on.\<close>

definition horner :: "int \<Rightarrow> int \<Rightarrow> int list \<Rightarrow> int" where
  "horner base r ds = foldl (\<lambda>r d. r * base + d) r ds"

primrec digits_at :: "memory \<Rightarrow> int \<Rightarrow> addr \<Rightarrow> int list \<Rightarrow> bool" where
  "digits_at m base a [] \<longleftrightarrow> \<not> (isxdigit (m a) \<and> digit_of (m a) < base)"
| "digits_at m base a (d # ds) \<longleftrightarrow> isxdigit (m a) \<and> digit_of (m a) = d \<and> 0 \<le> d \<and> d < base \<and> digits_at m base (a + 1) ds"

lemma horner_ge: "0 \<le> r \<Longrightarrow> 1 \<le> base \<Longrightarrow> (\<And>d. d \<in> set ds \<Longrightarrow> 0 \<le> d) \<Longrightarrow> r \<le> horner base r ds"
proof (induction ds arbitrary: r)
  case (Cons d ds)
  have "r * 1 \<le> r * base" using Cons.prems(1,2) by (intro mult_left_mono) auto
  then have "r \<le> r * base + d" using Cons.prems(3) [of d] by simp
  also have "\<dots> \<le> horner base (r * base + d) ds" using Cons calculation by (intro Cons.IH) auto
  finally show ?case by (simp add: horner_def)
qed (simp add: horner_def)

lemma xdigit_not_space: "isxdigit c \<Longrightarrow> \<not> isspace c"
proof -
  have key: "\<not> isspace c" if "in_class c lo n" "n \<le> 10" "48 \<le> lo" "lo \<le> 97" for lo n
  proof -
    define e where "e = (c - lo) mod 2 ^ 32"
    have e: "0 \<le> e" "e < 10" using that by (auto simp: e_def in_class_def)
    have "(c - 9) mod 2 ^ 32 = (lo - 9 + e) mod 2 ^ 32"
      using mod_add_right_eq [of "lo - 9" "c - lo" "2 ^ 32"] by (simp add: e_def)
    then have "to_int (c - 9) = lo - 9 + e" using to_int_cong [of "c - 9" "lo - 9 + e"] e that by (simp add: to_int_small)
    moreover have "c \<noteq> 32"
    proof
      assume "c = 32"
      then have "to_int (c - 9) = 23" by (simp add: to_int_small)
      with \<open>to_int (c - 9) = lo - 9 + e\<close> e(1) that(3) show False by simp
    qed
    ultimately show ?thesis using e that by (simp add: isspace_def)
  qed
  show "isxdigit c \<Longrightarrow> \<not> isspace c" using key [of 48 10] key [of 97 6] key [of 65 6] by (auto simp: isxdigit_def isdigit_def)
qed

lemma digits_nonneg: "digits_at m base a ds \<Longrightarrow> d \<in> set ds \<Longrightarrow> 0 \<le> d"
  by (induction ds arbitrary: a) auto

lemma strtol_digits_run:
  "digits_at m base s ds \<Longrightarrow> 2 \<le> base \<Longrightarrow> 0 \<le> r \<Longrightarrow> horner base r ds \<le> LONG_MAX \<Longrightarrow>
     strtol_digits m sign base s r e = Some (s + int (length ds), horner base r ds, e)"
proof (induction ds arbitrary: s r)
  case Nil
  then show ?case by (subst strtol_digits.simps) (auto simp: horner_def)
next
  case (Cons d ds)
  let ?r = "r * base + d"
  have d: "isxdigit (m s)" "digit_of (m s) = d" "0 \<le> d" "d < base" "digits_at m base (s + 1) ds" using Cons.prems(1) by auto
  have r0: "0 \<le> ?r" using Cons.prems d by simp
  have "?r \<le> horner base ?r ds" using Cons.prems(2) digits_nonneg [OF d(5)] by (intro horner_ge [OF r0]) auto
  also have h: "horner base ?r ds = horner base r (d # ds)" by (simp add: horner_def)
  finally have lim: "?r \<le> LONG_MAX" using Cons.prems(4) by simp
  have "r \<le> (LONG_MAX - d) div base"
    using lim Cons.prems(2) by (metis (no_types) add_diff_cancel_right' diff_right_mono less_le_trans zero_less_numeral zdiv_mono1 nonzero_mult_div_cancel_right less_irrefl)
  moreover have "0 \<le> r * base" using Cons.prems by simp
  then have "d \<le> LONG_MAX" using lim by linarith
  then have "(LONG_MAX - d) sdiv base = (LONG_MAX - d) div base" using Cons.prems(2) by (simp add: signed_divide_int_def sgn_if)
  ultimately have "\<not> r > (LONG_MAX - d) sdiv base" by simp
  moreover have "to_int ?r = ?r" using r0 lim by (intro to_int_small) auto
  moreover have "strtol_digits m sign base (s + 1) ?r e = Some (s + 1 + int (length ds), horner base ?r ds, e)"
    using Cons.IH [OF d(5) Cons.prems(2) r0] Cons.prems(4) h by simp
  ultimately show ?case using d h by (subst strtol_digits.simps) simp
qed

section \<open>Properties\<close>

text \<open>
  \<^verbatim>\<open>memmove\<close> moves a block as if through a copy of it, however source and destination
  overlap.
\<close>

theorem memmove_correct:
  assumes "0 \<le> n" "n < 2 ^ 31"
  shows "memmove to from n m = (\<lambda>a. if to \<le> a \<and> a < to + n then m (from + (a - to)) else m a)"
proof -
  have t: "to_int n = n" using assms by (simp add: to_int_small)
  show ?thesis
  proof (cases "to > from \<and> to - from < n")
    case True
    then show ?thesis using assms t by (auto simp: memmove_def move_down_apply fun_eq_iff)
  next
    case False
    then have "to \<le> from \<or> from + int (nat n) \<le> to" using assms by auto
    from memcpy_loop_apply [OF this] show ?thesis using False assms(1) t by (auto simp: memmove_def fun_eq_iff)
  qed
qed

theorem memmove_correct_witness:
  "(0 :: int) \<le> 3 \<and> (3 :: int) < 2 ^ 31 \<and> memmove 11 10 3 (\<lambda>a. a * a) 13 = 144 \<and> memmove 11 10 3 (\<lambda>a. a * a) 11 = 100"
  using memmove_correct [of 3 11 10 "\<lambda>a. a * a"] by simp

text \<open>
  \<^verbatim>\<open>strstr\<close> returns the first place where the needle occurs in the haystack, and null when
  there is none. For an empty needle it returns null, where the C library's specification says
  the haystack.
\<close>

theorem strstr_first:
  assumes "cstring m x xs" "cstring m y ys"
  shows "strstr m x y = Some (if ys \<noteq> [] \<and> (\<exists>i. occurs_at xs ys i) then x + int (LEAST i. occurs_at xs ys i) else NULL)"
proof (cases "ys = []")
  case True
  have "strstr m x y = Some NULL" using assms(1)
  proof (induction xs arbitrary: x)
    case Nil
    then show ?case by (subst strstr.simps) simp
  next
    case (Cons c xs)
    then show ?case using assms(2) True by (subst strstr.simps) simp
  qed
  then show ?thesis by (simp add: True)
next
  case False
  then show ?thesis using strstr_run [OF assms False] by simp
qed

theorem strstr_first_witness:
  "strstr (\<lambda>a. if a = 5 then 1 else if a = 6 then 2 else if a = 7 then 3 else if a = 20 then 2 else if a = 21 then 3 else 0) 5 20 = Some 6"
proof -
  let ?m = "\<lambda>a :: int. if a = 5 then 1 else if a = 6 then 2 else if a = 7 then 3 else if a = 20 then 2 else if a = 21 then (3 :: int) else 0"
  have c: "cstring ?m 5 [1, 2, 3]" "cstring ?m 20 [2, 3]" by simp_all
  have o: "occurs_at [1, 2, 3 :: int] [2, 3] i \<longleftrightarrow> i = 1" for i
    by (cases i; cases "i - 1"; cases "i - 2") (auto simp: occurs_at_def)
  have "(LEAST i. occurs_at [1, 2, 3 :: int] [2, 3] i) = 1" by (rule Least_equality) (simp_all add: o)
  moreover have "\<exists>i. occurs_at [1, 2, 3 :: int] [2, 3] i" by (simp add: o)
  ultimately show ?thesis using strstr_first [OF c] by simp
qed

lemma strtol_run:
  assumes "digits_at m base (if neg then a + 1 else a) ds" "ds \<noteq> []" "2 \<le> base" "base \<le> 36" "horner base 0 ds \<le> LONG_MAX"
    and "neg \<Longrightarrow> m a = 45"
  shows "strtol m a base = Some (if neg then - horner base 0 ds else horner base 0 ds, (if neg then a + 1 else a) + int (length ds), False)"
proof -
  let ?a = "if neg then a + 1 else a"
  let ?v = "horner base 0 ds"
  have "isxdigit (m ?a)" using assms(1,2) by (cases ds) auto
  then have x: "m ?a \<noteq> 43 \<and> m ?a \<noteq> 45 \<and> \<not> isspace (m ?a) \<or> neg"
    using xdigit_not_space by (auto simp: isxdigit_def isdigit_def in_class_def)
  have ns: "\<not> isspace (m a)" using x assms(6) by (cases neg) (auto simp: isspace_def to_int_def)
  have v: "0 \<le> ?v" using digits_nonneg [OF assms(1)] assms(3) by (intro horner_ge) auto
  have sk: "skip_space m a = Some a" using ns by (subst skip_space.simps) simp
  have dg: "strtol_digits m sign base ?a 0 False = Some (?a + int (length ds), ?v, False)" for sign
    by (rule strtol_digits_run [OF assms(1,3) _ assms(5)]) simp
  have "to_int ?v = ?v" "to_int (- ?v) = - ?v"
    using v assms(5) by (simp_all add: to_int_id)
  then show ?thesis using sk dg x assms(3,4,6) by (cases neg) (auto simp: strtol_def Let_def)
qed

text \<open>
  \<^verbatim>\<open>strtol\<close> reads the number a sequence of digits denotes in the given base, with or without
  a minus sign before it, and leaves the end pointer after the last digit, whenever the value
  fits a \<^verbatim>\<open>long\<close>.
\<close>

theorem strtol_reads_number:
  assumes "digits_at m base (if neg then a + 1 else a) ds" "ds \<noteq> []" "2 \<le> base" "base \<le> 36" "horner base 0 ds \<le> LONG_MAX"
    and "neg \<Longrightarrow> m a = 45"
  shows "strtol m a base = Some (if neg then - horner base 0 ds else horner base 0 ds, (if neg then a + 1 else a) + int (length ds), False)"
  by (rule strtol_run [OF assms])

theorem strtol_reads_number_witness:
  "strtol (\<lambda>a. if a = 100 then 45 else if a = 101 then 52 else if a = 102 then 50 else 0) 100 10 = Some (- 42, 103, False)"
  using strtol_reads_number [of "\<lambda>a. if a = 100 then 45 else if a = 101 then 52 else if a = 102 then 50 else 0" 10 True 100 "[4, 2]"]
  by (simp add: isxdigit_def isdigit_def in_class_def digit_of_def horner_def)

text \<open>
  The blank test of \<^verbatim>\<open>ctype.h\<close> holds for the terminator, so skipping leading blanks runs
  past the end of an empty or blank string: \<^verbatim>\<open>strtol\<close> then parses whatever follows in memory.
\<close>

theorem strtol_skips_terminator:
  "strtol (m(a := 0)) a base = strtol (m(a := 0)) (a + 1) base"
proof -
  have "isspace 0" by (simp add: isspace_def to_int_def)
  then have "skip_space (m(a := 0)) a = skip_space (m(a := 0)) (a + 1)" by (subst skip_space.simps) simp
  then show ?thesis by (simp add: strtol_def)
qed

end
