(* ===== verification/Inode.thy ===== *)
theory Inode
  imports Cache Str
begin

text \<open>
  Inodes (\<^verbatim>\<open>fs/inode.c\<close>): the table of inodes in memory, their place on the disk, the maps of
  blocks and inodes, the zones of a file and the entries of a directory. Inodes are numbered by
  their position in \<^verbatim>\<open>inode_table\<close>, and a pointer to one is that number. Bitmaps and directory
  entries are read and written in memory, where the disk is; the local iterator structures are
  records that are passed along.
\<close>

abbreviation (input) NR_DIRECT_ZONE :: int where "NR_DIRECT_ZONE \<equiv> 6"
abbreviation (input) MAX_ZONES :: int where "MAX_ZONES \<equiv> 22"
abbreviation (input) INODE_DISK_SIZE :: int where "INODE_DISK_SIZE \<equiv> 16"
abbreviation (input) INODE_FLAG_PIPE :: u32 where "INODE_FLAG_PIPE \<equiv> 0x2"
abbreviation (input) INODE_FLAG_ZONE :: u32 where "INODE_FLAG_ZONE \<equiv> 0x20"
abbreviation (input) INODE_FLAG_DIRTY :: u32 where "INODE_FLAG_DIRTY \<equiv> 0x40"
abbreviation (input) S_IFMT :: int where "S_IFMT \<equiv> 0xf000"
abbreviation (input) S_IFCHR :: int where "S_IFCHR \<equiv> 0x2000"
abbreviation (input) S_IFDIR :: int where "S_IFDIR \<equiv> 0x4000"
abbreviation (input) S_IFBLK :: int where "S_IFBLK \<equiv> 0x6000"
abbreviation (input) S_IFREG :: int where "S_IFREG \<equiv> 0x8000"
abbreviation (input) W_OK :: int where "W_OK \<equiv> 2"
abbreviation (input) NAME_MAX :: int where "NAME_MAX \<equiv> 28"
abbreviation (input) WINIX_NAME_LEN :: int where "WINIX_NAME_LEN \<equiv> 29"
abbreviation (input) ENOTDIR :: int where "ENOTDIR \<equiv> 20"
abbreviation (input) EFBIG :: int where "EFBIG \<equiv> 27"
abbreviation (input) ENAMETOOLONG :: int where "ENAMETOOLONG \<equiv> 36"
abbreviation (input) FS_HZ :: u32 where "FS_HZ \<equiv> 60"

definition S_ISDIR :: "int \<Rightarrow> bool" where
  "S_ISDIR m \<longleftrightarrow> m AND S_IFMT = S_IFDIR"

definition upd_inode :: "int \<Rightarrow> (inode \<Rightarrow> inode) \<Rightarrow> 'a fsk_scheme \<Rightarrow> 'a fsk_scheme" where
  "upd_inode i f k = k\<lparr>inodes := (inodes k)(i := f (inodes k i))\<rparr>"

definition upd_sb :: "(superblock \<Rightarrow> superblock) \<Rightarrow> 'a fsk_scheme \<Rightarrow> 'a fsk_scheme" where
  "upd_sb f k = k\<lparr>root_sb := f (root_sb k)\<rparr>"

definition get_unix_time :: "'a fsk_scheme \<Rightarrow> int" where
  "get_unix_time k = uint (start_unix_time k + get_uptime k div FS_HZ)"

text \<open>A bitmap in memory.\<close>

definition bm_at :: "memory \<Rightarrow> addr \<Rightarrow> u32 list" where
  "bm_at m p = map (\<lambda>i. word_of_int (m (p + int i))) [0..<256]"

definition put_bm :: "addr \<Rightarrow> u32 list \<Rightarrow> memory \<Rightarrow> memory" where
  "put_bm p bm m = (\<lambda>a. if p \<le> a \<and> a < p + 256 then uint (bm ! nat (a - p)) else m a)"

text \<open>The block of a buffer.\<close>

definition block_of :: "'a fsk_scheme \<Rightarrow> int \<Rightarrow> addr" where
  "block_of k b = buf_block (bufs k b)"

section \<open>The inode table\<close>

definition get_free_inode_slot :: "'a fsk_scheme \<Rightarrow> 'a fsk_scheme \<times> int option" where
  "get_free_inode_slot k =
     (case List.find (\<lambda>i. i_num (inodes k i) = 0) [0..NR_INODES - 1] of
        Some i \<Rightarrow> (upd_inode i (\<lambda>_. inode_zero) k, Some i)
      | None \<Rightarrow> (k, None))"

definition has_file_access :: "int \<Rightarrow> int \<Rightarrow> int \<Rightarrow> 'a fsk_scheme \<Rightarrow> bool" where
  "has_file_access who ino mode k \<longleftrightarrow>
     p_uid (procs k who) = 0 \<or>
     p_uid (procs k who) = i_uid (inodes k ino) \<and> push_bit 8 mode AND i_mode (inodes k ino) \<noteq> 0 \<or>
     p_gid (procs k who) = i_gid (inodes k ino) \<and> push_bit 4 mode AND i_mode (inodes k ino) \<noteq> 0 \<or>
     mode AND i_mode (inodes k ino) \<noteq> 0"

definition is_valid_inode_num :: "int \<Rightarrow> int option \<Rightarrow> 'a fsk_scheme \<Rightarrow> bool option" where
  "is_valid_inode_num num dev k =
     do { sb \<leftarrow> get_sb dev k;
          if s_inode_size sb = 0 then None
          else Some (1 \<le> num \<and> num \<le> s_inode_table_size sb div s_inode_size sb) }"

definition is_valid_block_num :: "int \<Rightarrow> int option \<Rightarrow> 'a fsk_scheme \<Rightarrow> bool option" where
  "is_valid_block_num bnr dev k = do { sb \<leftarrow> get_sb dev k; Some (bnr < (s_block_inuse sb + s_free_blocks sb) mod 2 ^ 32) }"

partial_function (option) inode_in_use_loop :: "int \<Rightarrow> int \<Rightarrow> int \<Rightarrow> int option \<Rightarrow> 'a fsk_scheme \<Rightarrow> ('a fsk_scheme \<times> bool) option" where
  "inode_in_use_loop num imap_end buf dev k =
     (if b_blocknr (bufs k buf) < imap_end
      then do { on \<leftarrow> is_bit_on (bm_at (kmem k) (block_of k buf)) BLOCK_SIZE num;
                if on then do { (k, _) \<leftarrow> put_block_buffer buf k; Some (k, True) }
                else do { (k, _) \<leftarrow> put_block_buffer buf k;
                          (k, next) \<leftarrow> get_block_buffer (b_blocknr (bufs k buf) + 1) dev k;
                          if next = None then None else inode_in_use_loop num imap_end (the next) dev k } }
      else do { (k, _) \<leftarrow> put_block_buffer buf k; Some (k, False) })"

definition is_inode_in_use :: "int \<Rightarrow> int option \<Rightarrow> 'a fsk_scheme \<Rightarrow> ('a fsk_scheme \<times> bool) option" where
  "is_inode_in_use num dev k =
     do { sb \<leftarrow> get_sb dev k;
          valid \<leftarrow> is_valid_inode_num num dev k;
          if \<not> valid then Some (k, False)
          else do { (k, buf) \<leftarrow> get_block_buffer (s_inodemapnr sb) dev k;
                    buf \<leftarrow> buf;
                    inode_in_use_loop num (b_blocknr (bufs k buf) + s_inodemap_size sb div BLOCK_SIZE) buf dev k } }"

section \<open>The block map\<close>

partial_function (option) alloc_block_loop :: "int \<Rightarrow> int \<Rightarrow> int \<Rightarrow> int option \<Rightarrow> 'a fsk_scheme \<Rightarrow> ('a fsk_scheme \<times> int) option" where
  "alloc_block_loop bmap_end bnr bmap dev k =
     (if b_blocknr (bufs k bmap) < bmap_end
      then do { free_bit \<leftarrow> bitmap_search_from (bm_at (kmem k) (block_of k bmap)) 256 0 1;
                if free_bit > 0
                then do { valid \<leftarrow> is_valid_block_num free_bit dev k;
                          if \<not> valid then Some (k, - ENOSPC)
                          else do { (bm, _) \<leftarrow> bitmap_set_bit (bm_at (kmem k) (block_of k bmap)) 256 free_bit;
                                    let k = upd_mem (put_bm (block_of k bmap) bm) k;
                                    let k = upd_sb (\<lambda>sb. sb\<lparr>s_block_inuse := (s_block_inuse sb + 1) mod 2 ^ 32,
                                                            s_free_blocks := (s_free_blocks sb - 1) mod 2 ^ 32\<rparr>) k;
                                    (k, _) \<leftarrow> put_block_buffer_dirt bmap k;
                                    Some (k, free_bit) } }
                else do { (k, _) \<leftarrow> put_block_buffer bmap k;
                          (k, next) \<leftarrow> get_block_buffer (bnr + 1) dev k;
                          if next = None then None else alloc_block_loop bmap_end (bnr + 1) (the next) dev k } }
      else do { (k, _) \<leftarrow> put_block_buffer bmap k; Some (k, - ENOSPC) })"

definition alloc_block :: "int option \<Rightarrow> 'a fsk_scheme \<Rightarrow> ('a fsk_scheme \<times> int) option" where
  "alloc_block dev k =
     do { sb \<leftarrow> get_sb dev k;
          (k, bmap) \<leftarrow> get_block_buffer (s_blockmapnr sb) dev k;
          bmap \<leftarrow> bmap;
          alloc_block_loop (s_blockmapnr sb + s_blockmap_size sb div BLOCK_SIZE) (b_blocknr (bufs k bmap)) bmap dev k }"

definition release_block :: "int \<Rightarrow> int option \<Rightarrow> 'a fsk_scheme \<Rightarrow> ('a fsk_scheme \<times> int) option" where
  "release_block bnr dev k =
     do { sb \<leftarrow> get_sb dev k;
          let bmap_nr = s_blockmapnr sb + bnr div BLOCK_SIZE;
          valid \<leftarrow> is_valid_block_num bnr dev k;
          if \<not> valid then Some (k, - EINVAL)
          else do {
            (k, block) \<leftarrow> get_block_buffer bnr dev k;
            block \<leftarrow> block;
            let k = upd_mem (memset (block_of k block) 0 BLOCK_SIZE) k;
            (k, _) \<leftarrow> put_block_buffer_dirt block k;
            (k, bmap) \<leftarrow> get_block_buffer bmap_nr dev k;
            bmap \<leftarrow> bmap;
            (bm, _) \<leftarrow> bitmap_clear_bit (bm_at (kmem k) (block_of k bmap)) 256 bnr;
            let k = upd_mem (put_bm (block_of k bmap) bm) k;
            let k = upd_sb (\<lambda>sb. sb\<lparr>s_block_inuse := (s_block_inuse sb - 1) mod 2 ^ 32,
                                    s_free_blocks := (s_free_blocks sb + 1) mod 2 ^ 32\<rparr>) k;
            put_block_buffer bmap k } }"

section \<open>Reading and writing inodes\<close>

definition init_inode_non_disk :: "int \<Rightarrow> int \<Rightarrow> int option \<Rightarrow> int option \<Rightarrow> 'a fsk_scheme \<Rightarrow> ('a fsk_scheme \<times> int) option" where
  "init_inode_non_disk ino num dev sbp k =
     (let k = upd_inode ino (\<lambda>r. r\<lparr>i_dev := dev, i_sb := sbp, i_num := num\<rparr>) k in
      case sbp of
        None \<Rightarrow> Some (k, 0)
      | Some d \<Rightarrow>
          do { sb \<leftarrow> get_sb (Some d) k;
               let bnr = ((num * s_inode_size sb) mod 2 ^ 32) div BLOCK_SIZE + s_inode_tablenr sb;
               if bnr * BLOCK_SIZE \<ge> s_inode_tablenr sb * BLOCK_SIZE + s_inode_table_size sb then Some (k, - EINVAL)
               else Some (upd_inode ino (i_ndblock_update (\<lambda>_. bnr)) k, 0) })"

definition arch_inode :: "int \<Rightarrow> 'a fsk_scheme \<Rightarrow> 'a fsk_scheme option" where
  "arch_inode ino k =
     do { sb \<leftarrow> get_sb (i_sb (inodes k ino)) k;
          n \<leftarrow> ARCH_CHAR_SIZE (i_size (inodes k ino)) sb;
          Some (upd_inode ino (i_size_update (\<lambda>_. n)) k) }"

definition dearch_inode :: "int \<Rightarrow> 'a fsk_scheme \<Rightarrow> 'a fsk_scheme option" where
  "dearch_inode ino k =
     do { sb \<leftarrow> get_sb (i_sb (inodes k ino)) k;
          n \<leftarrow> DEARCH_CHAR_SIZE (i_size (inodes k ino)) sb;
          Some (upd_inode ino (i_size_update (\<lambda>_. n)) k) }"

text \<open>The part of an inode that is on the disk, as words.\<close>

definition inode_words :: "inode \<Rightarrow> int list" where
  "inode_words r = [i_mode r, i_nlinks r, i_uid r, i_gid r, i_size r, i_atime r, i_mtime r, i_ctime r] @ i_zone r"

definition load_inode :: "(int \<Rightarrow> int) \<Rightarrow> inode \<Rightarrow> inode" where
  "load_inode w r = r\<lparr>i_mode := w 0, i_nlinks := w 1, i_uid := w 2, i_gid := w 3, i_size := w 4, i_atime := w 5, i_mtime := w 6,
     i_ctime := w 7, i_zone := map (\<lambda>i. w (8 + int i)) [0..<NR_TZONES]\<rparr>"

definition store_inode :: "addr \<Rightarrow> inode \<Rightarrow> memory \<Rightarrow> memory" where
  "store_inode p r m = (\<lambda>a. if p \<le> a \<and> a < p + INODE_DISK_SIZE then inode_words r ! nat (a - p) else m a)"

definition read_inode :: "int \<Rightarrow> int option \<Rightarrow> 'a fsk_scheme \<Rightarrow> ('a fsk_scheme \<times> (int + int)) option" where
  "read_inode num dev k =
     do { sb \<leftarrow> get_sb dev k;
          let n = (num * s_inode_size sb) mod 2 ^ 32;
          let offset = n mod BLOCK_SIZE;
          let blocknr = s_inode_tablenr sb + n div BLOCK_SIZE;
          (case get_free_inode_slot k of
             (k, None) \<Rightarrow> Some (k, Inl (- ENOSPC))
           | (k, Some inode) \<Rightarrow>
               do { (k, used) \<leftarrow> is_inode_in_use num dev k;
                    if \<not> used then Some (k, Inl (- EINVAL))
                    else if num = 0 then Some (k, Inl (- EINVAL))
                    else do {
                      (k, buffer) \<leftarrow> get_block_buffer blocknr dev k;
                      buffer \<leftarrow> buffer;
                      let p = block_of k buffer + offset;
                      let k = upd_inode inode (load_inode (\<lambda>i. kmem k (p + i))) k;
                      let k = upd_inode inode (i_count_update (\<lambda>c. c + 1)) k;
                      (k, _) \<leftarrow> init_inode_non_disk inode num dev dev k;
                      k \<leftarrow> arch_inode inode k;
                      (k, _) \<leftarrow> put_block_buffer buffer k;
                      Some (k, Inr inode) } }) }"

definition get_inode :: "int \<Rightarrow> int option \<Rightarrow> 'a fsk_scheme \<Rightarrow> ('a fsk_scheme \<times> int option) option" where
  "get_inode num dev k =
     (case List.find (\<lambda>i. i_num (inodes k i) = num) [0..NR_INODES - 1] of
        Some i \<Rightarrow> Some (upd_inode i (i_count_update (\<lambda>c. c + 1)) k, Some i)
      | None \<Rightarrow> do { (k, r) \<leftarrow> read_inode num dev k; Some (k, case r of Inl _ \<Rightarrow> None | Inr i \<Rightarrow> Some i) })"

definition put_inode :: "int option \<Rightarrow> bool \<Rightarrow> 'a fsk_scheme \<Rightarrow> ('a fsk_scheme \<times> int) option" where
  "put_inode inode is_dirty k =
     (case inode of
        None \<Rightarrow> Some (k, - EINVAL)
      | Some i \<Rightarrow>
          let k = (if i_count (inodes k i) > 0 then upd_inode i (i_count_update (\<lambda>c. c - 1)) k else k) in
          if \<not> is_dirty then Some (k, 0)
          else do {
            sb \<leftarrow> get_sb (i_dev (inodes k i)) k;
            let offset = ((i_num (inodes k i) * s_inode_size sb) mod 2 ^ 32) mod BLOCK_SIZE;
            (k, buffer) \<leftarrow> get_block_buffer (i_ndblock (inodes k i)) (i_dev (inodes k i)) k;
            buffer \<leftarrow> buffer;
            k \<leftarrow> dearch_inode i k;
            let k = upd_mem (store_inode (block_of k buffer + offset) (inodes k i)) k;
            k \<leftarrow> arch_inode i k;
            (k, _) \<leftarrow> put_block_buffer_dirt buffer k;
            Some (upd_inode i (\<lambda>r. r\<lparr>i_flags := clear_flag (i_flags r) INODE_FLAG_DIRTY\<rparr>) k, 0) })"

partial_function (option) alloc_inode_loop ::
  "int \<Rightarrow> int \<Rightarrow> int \<Rightarrow> int option \<Rightarrow> 'a fsk_scheme \<Rightarrow> ('a fsk_scheme \<times> int \<times> int \<times> bool) option" where
  "alloc_inode_loop imap_end bnr imap dev k =
     (if b_blocknr (bufs k imap) < imap_end
      then do { inum \<leftarrow> bitmap_search_from (bm_at (kmem k) (block_of k imap)) 256 0 1;
                if inum > 0 then Some (k, imap, inum, True)
                else do { (k, _) \<leftarrow> put_block_buffer imap k;
                          (k, next) \<leftarrow> get_block_buffer (bnr + 1) dev k;
                          if next = None then None else alloc_inode_loop imap_end (bnr + 1) (the next) dev k } }
      else Some (k, imap, 0, False))"

definition alloc_inode :: "int option \<Rightarrow> int option \<Rightarrow> 'a fsk_scheme \<Rightarrow> ('a fsk_scheme \<times> int option) option" where
  "alloc_inode parentdev inodev k =
     do { let unix_time = get_unix_time k;
          sb \<leftarrow> get_sb parentdev k;
          (k, imap) \<leftarrow> get_imap parentdev k;
          imap \<leftarrow> imap;
          (k, imap, inum, found) \<leftarrow> alloc_inode_loop (b_blocknr (bufs k imap) + s_blockmap_size sb div BLOCK_SIZE) 0 imap parentdev k;
          if \<not> found then do { (k, _) \<leftarrow> put_block_buffer imap k; Some (k, None) }
          else do {
            (bm, _) \<leftarrow> bitmap_set_bit (bm_at (kmem k) (block_of k imap)) 256 inum;
            let k = upd_mem (put_bm (block_of k imap) bm) k;
            (k, _) \<leftarrow> put_block_buffer_dirt imap k;
            (case get_free_inode_slot k of
               (k, None) \<Rightarrow> Some (k, None)
             | (k, Some inode) \<Rightarrow>
                 do { (k, _) \<leftarrow> init_inode_non_disk inode inum inodev parentdev k;
                      let k = upd_inode inode (\<lambda>r. r\<lparr>i_count := i_count r + 1, i_ctime := unix_time, i_mtime := unix_time, i_atime := unix_time\<rparr>) k;
                      let k = upd_sb (\<lambda>sb. sb\<lparr>s_free_inodes := (s_free_inodes sb - 1) mod 2 ^ 32,
                                              s_inode_inuse := (s_inode_inuse sb + 1) mod 2 ^ 32\<rparr>) k;
                      Some (k, Some inode) }) } }"

definition init_inode_proc_field :: "int \<Rightarrow> int \<Rightarrow> int \<Rightarrow> int \<Rightarrow> 'a fsk_scheme \<Rightarrow> 'a fsk_scheme" where
  "init_inode_proc_field ino who devtype mode k =
     upd_inode ino (\<lambda>r. r\<lparr>i_gid := p_gid (procs k who), i_uid := p_uid (procs k who),
       i_mode := devtype OR (mode AND (NOT (p_umask (procs k who))))\<rparr>) k"

section \<open>Zones\<close>

text \<open>
  The iterator over the zones of a file: the first six zone numbers are in the inode, the next
  sixteen in two further inodes whose numbers are in the last two.
\<close>

record zone_iterator =
  zi_inode :: int
  zi_zone_idx :: int

definition iter_zone_init :: "int \<Rightarrow> int \<Rightarrow> 'a fsk_scheme \<Rightarrow> 'a fsk_scheme \<times> zone_iterator" where
  "iter_zone_init inode zone_idx k =
     (upd_inode inode (i_count_update (\<lambda>c. c + 1)) k, \<lparr>zi_inode = inode, zi_zone_idx = zone_idx\<rparr>)"

definition zone_get :: "int \<Rightarrow> int \<Rightarrow> 'a fsk_scheme \<Rightarrow> int option" where
  "zone_get ino i k = aget (i_zone (inodes k ino)) i"

definition zone_set :: "int \<Rightarrow> int \<Rightarrow> int \<Rightarrow> 'a fsk_scheme \<Rightarrow> 'a fsk_scheme option" where
  "zone_set ino i z k = do { zs \<leftarrow> aset (i_zone (inodes k ino)) i z; Some (upd_inode ino (i_zone_update (\<lambda>_. zs)) k) }"

text \<open>The end of \<^verbatim>\<open>_iter_get_current_zone\<close>, once the place of the zone number is known.\<close>

definition iter_zone_at :: "int \<Rightarrow> int \<Rightarrow> bool \<Rightarrow> 'a fsk_scheme \<Rightarrow> ('a fsk_scheme \<times> int) option" where
  "iter_zone_at ino i create_block k =
     do { z \<leftarrow> zone_get ino i k;
          if create_block
          then (if z \<noteq> 0 then Some (k, - EINVAL)
                else do { (k, ret) \<leftarrow> alloc_block (i_dev (inodes k ino)) k;
                          if ret < 0 then Some (k, ret)
                          else do { k \<leftarrow> zone_set ino i ret k; Some (k, ret) } })
          else Some (k, z) }"

definition iter_get_current_zone :: "zone_iterator \<Rightarrow> bool \<Rightarrow> bool \<Rightarrow> 'a fsk_scheme \<Rightarrow> ('a fsk_scheme \<times> int) option" where
  "iter_get_current_zone iter create_inode create_block k =
     (let inode = zi_inode iter; dev = i_dev (inodes k inode) in
      if zi_zone_idx iter \<ge> MAX_ZONES then Some (k, 0)
      else if zi_zone_idx iter < NR_DIRECT_ZONE then iter_zone_at inode (zi_zone_idx iter) create_block k
      else let indirect_idx = zi_zone_idx iter - NR_DIRECT_ZONE;
               ino_iter = indirect_idx div int NR_TZONES;
               ino_rem = indirect_idx mod int NR_TZONES in
           do { z \<leftarrow> zone_get inode (NR_DIRECT_ZONE + ino_iter) k;
                (k, r) \<leftarrow>
                  (if z = 0
                   then (if \<not> create_inode then Some (k, Inl 0)
                         else do { (k, ino) \<leftarrow> alloc_inode dev dev k;
                                   case ino of
                                     None \<Rightarrow> Some (k, Inl (- ENOSPC))
                                   | Some i \<Rightarrow>
                                       do { let k = upd_inode inode (\<lambda>r. r\<lparr>i_flags := set_flag (i_flags r) INODE_FLAG_DIRTY\<rparr>) k;
                                            let k = upd_inode i (\<lambda>r. r\<lparr>i_flags := set_flag (i_flags r) INODE_FLAG_ZONE\<rparr>) k;
                                            k \<leftarrow> zone_set inode (NR_DIRECT_ZONE + ino_iter) (i_num (inodes k i)) k;
                                            Some (k, Inr i) } })
                   else do { (k, ino) \<leftarrow> get_inode z (i_dev (inodes k inode)) k;
                             Some (k, case ino of None \<Rightarrow> Inl (- EINVAL) | Some i \<Rightarrow> Inr i) });
                (case r of
                   Inl ret \<Rightarrow> Some (k, ret)
                 | Inr i \<Rightarrow>
                     do { (k, ret) \<leftarrow> iter_zone_at i ino_rem create_block k;
                          (k, _) \<leftarrow> put_inode (Some i) (create_inode \<or> create_block) k;
                          Some (k, ret) }) })"

definition iter_zone_has_next :: "zone_iterator \<Rightarrow> 'a fsk_scheme \<Rightarrow> ('a fsk_scheme \<times> bool) option" where
  "iter_zone_has_next iter k = do { (k, z) \<leftarrow> iter_get_current_zone iter False False k; Some (k, z \<noteq> 0) }"

definition iter_zone_get_next :: "zone_iterator \<Rightarrow> 'a fsk_scheme \<Rightarrow> ('a fsk_scheme \<times> zone_iterator \<times> int) option" where
  "iter_zone_get_next iter k =
     do { (k, z) \<leftarrow> iter_get_current_zone iter False False k;
          Some (k, if z \<noteq> 0 then iter\<lparr>zi_zone_idx := zi_zone_idx iter + 1\<rparr> else iter, z) }"

definition iter_zone_alloc :: "zone_iterator \<Rightarrow> 'a fsk_scheme \<Rightarrow> ('a fsk_scheme \<times> int) option" where
  "iter_zone_alloc iter k =
     (if zi_zone_idx iter \<ge> MAX_ZONES then Some (k, - EFBIG) else iter_get_current_zone iter True True k)"

definition iter_zone_close :: "zone_iterator \<Rightarrow> 'a fsk_scheme \<Rightarrow> 'a fsk_scheme \<times> int" where
  "iter_zone_close iter k = (upd_inode (zi_inode iter) (i_count_update (\<lambda>c. c - 1)) k, 0)"

partial_function (option) inode_blocks_loop :: "zone_iterator \<Rightarrow> int \<Rightarrow> 'a fsk_scheme \<Rightarrow> ('a fsk_scheme \<times> zone_iterator \<times> int) option" where
  "inode_blocks_loop iter ret k =
     do { (k, more) \<leftarrow> iter_zone_has_next iter k;
          if more
          then do { (k, iter, _) \<leftarrow> iter_zone_get_next iter k; inode_blocks_loop iter (ret + 1) k }
          else Some (k, iter, ret) }"

definition get_inode_blocks :: "int \<Rightarrow> 'a fsk_scheme \<Rightarrow> ('a fsk_scheme \<times> int) option" where
  "get_inode_blocks ino k =
     (let (k, iter) = iter_zone_init ino 0 k in
      do { (k, iter, ret) \<leftarrow> inode_blocks_loop iter 0 k; Some (fst (iter_zone_close iter k), ret) })"

definition get_inode_total_size_word :: "int \<Rightarrow> 'a fsk_scheme \<Rightarrow> ('a fsk_scheme \<times> int) option" where
  "get_inode_total_size_word ino k = do { (k, bnum) \<leftarrow> get_inode_blocks ino k; Some (k, BLOCK_SIZE * bnum) }"

partial_function (option) truncate_loop :: "int option \<Rightarrow> zone_iterator \<Rightarrow> 'a fsk_scheme \<Rightarrow> ('a fsk_scheme \<times> zone_iterator) option" where
  "truncate_loop dev iter k =
     do { (k, more) \<leftarrow> iter_zone_has_next iter k;
          if more
          then do { (k, iter, zone) \<leftarrow> iter_zone_get_next iter k;
                    (k, _) \<leftarrow> release_block zone dev k;
                    truncate_loop dev iter k }
          else Some (k, iter) }"

definition truncate_inode :: "int \<Rightarrow> 'a fsk_scheme \<Rightarrow> ('a fsk_scheme \<times> int) option" where
  "truncate_inode inode k =
     (let (k, iter) = iter_zone_init inode 0 k in
      do { (k, iter) \<leftarrow> truncate_loop (i_dev (inodes k inode)) iter k; Some (iter_zone_close iter k) })"

text \<open>
  \<^verbatim>\<open>_release_inode\<close> calls itself only for the inode of an indirect zone, and then never again;
  \<open>rec\<close> is that inner call.
\<close>

definition release_inode_body :: "(int \<Rightarrow> 'a fsk_scheme \<Rightarrow> ('a fsk_scheme \<times> int) option) \<Rightarrow> bool \<Rightarrow> int \<Rightarrow> 'a fsk_scheme \<Rightarrow> ('a fsk_scheme \<times> int) option" where
  "release_inode_body rec is_indirect_zone inode k =
     (let dev = i_dev (inodes k inode); inum = i_num (inodes k inode) in
      if i_count (inodes k inode) \<noteq> 0 then Some (k, - EINVAL)
      else do {
        k \<leftarrow> for_loop 0 (int NR_TZONES) (\<lambda>i k.
               do { zone_id \<leftarrow> zone_get inode i k;
                    if zone_id > 0
                    then (if is_indirect_zone \<or> i < NR_DIRECT_ZONE
                          then do { (k, _) \<leftarrow> release_block zone_id dev k; zone_set inode i 0 k }
                          else do { (k, ind) \<leftarrow> get_inode zone_id dev k;
                                    case ind of
                                      None \<Rightarrow> Some k
                                    | Some j \<Rightarrow> do { (k, _) \<leftarrow> put_inode (Some j) False k; (k, _) \<leftarrow> rec j k; Some k } })
                    else Some k }) k;
        sb \<leftarrow> get_sb dev k;
        (k, imap) \<leftarrow> get_block_buffer (s_inode_tablenr sb) dev k;
        imap \<leftarrow> imap;
        (bm, _) \<leftarrow> bitmap_clear_bit (bm_at (kmem k) (block_of k imap)) 256 inum;
        let k = upd_mem (put_bm (block_of k imap) bm) k;
        let k = upd_sb (\<lambda>sb. sb\<lparr>s_inode_inuse := (s_inode_inuse sb - 1) mod 2 ^ 32, s_free_inodes := (s_free_inodes sb + 1) mod 2 ^ 32\<rparr>) k;
        (k, _) \<leftarrow> put_block_buffer_dirt imap k;
        Some (upd_inode inode (\<lambda>_. inode_zero) k, 0) })"

definition release_inode :: "int \<Rightarrow> 'a fsk_scheme \<Rightarrow> ('a fsk_scheme \<times> int) option" where
  "release_inode = release_inode_body (release_inode_body (\<lambda>_ _. None) True) False"

definition flush_inodes :: "'a fsk_scheme \<Rightarrow> 'a fsk_scheme option" where
  "flush_inodes k = for_loop 0 NR_INODES (\<lambda>i k.
     if has_flag (i_flags (inodes k i)) INODE_FLAG_DIRTY then do { (k, _) \<leftarrow> put_inode (Some i) True k; Some k } else Some k) k"

definition init_inode :: "'a fsk_scheme \<Rightarrow> 'a fsk_scheme option" where
  "init_inode k = for_loop 0 NR_INODES (\<lambda>i k. Some (upd_inode i (\<lambda>r. r\<lparr>i_num := 0, i_count := 0\<rparr>) k)) k"

section \<open>Directories\<close>

text \<open>An entry is 32 words: the inode number, the type, 29 characters of the name and the device.\<close>

abbreviation (input) DIRENT_LEN :: int where "DIRENT_LEN \<equiv> 32"
abbreviation (input) d_ino :: "addr \<Rightarrow> addr" where "d_ino p \<equiv> p"
abbreviation (input) d_type :: "addr \<Rightarrow> addr" where "d_type p \<equiv> p + 1"
abbreviation (input) d_name :: "addr \<Rightarrow> addr" where "d_name p \<equiv> p + 2"
abbreviation (input) dirent_dev :: "addr \<Rightarrow> addr" where "dirent_dev p \<equiv> p + 31"

definition fill_dirent :: "int \<Rightarrow> addr \<Rightarrow> addr \<Rightarrow> 'a fsk_scheme \<Rightarrow> 'a fsk_scheme" where
  "fill_dirent ino cur string k =
     (let mode = i_mode (inodes k ino);
          k = upd_mem (char32_strlcpy (d_name cur) string WINIX_NAME_LEN) k;
          k = upd_mem (\<lambda>m. m(d_ino cur := i_num (inodes k ino))) k
      in if mode AND S_IFDIR \<noteq> 0 then upd_mem (\<lambda>m. m(d_type cur := 4)) k
         else if mode AND S_IFCHR \<noteq> 0 then upd_mem (\<lambda>m. m(d_type cur := 2)) k
         else if mode AND S_IFREG \<noteq> 0 then upd_mem (\<lambda>m. m(d_type cur := 8)) k
         else if mode AND S_IFBLK \<noteq> 0 then upd_mem (\<lambda>m. m(d_type cur := 6)) k
         else k)"

text \<open>\<open>dot1\<close> and \<open>dot2\<close> are the addresses of the strings \<^verbatim>\<open>"."\<close> and \<^verbatim>\<open>".."\<close> in the kernel.\<close>

definition init_dirent :: "addr \<Rightarrow> addr \<Rightarrow> int \<Rightarrow> int \<Rightarrow> 'a fsk_scheme \<Rightarrow> ('a fsk_scheme \<times> int) option" where
  "init_dirent dot1 dot2 dir ino k =
     (if \<not> S_ISDIR (i_mode (inodes k ino)) then Some (k, - ENOTDIR)
      else do {
        bnr \<leftarrow> zone_get ino 0 k;
        if bnr = 0 then Some (k, - EINVAL)
        else do {
          (k, buf) \<leftarrow> get_block_buffer bnr (i_dev (inodes k ino)) k;
          buf \<leftarrow> buf;
          let cur = block_of k buf;
          let k = fill_dirent ino cur dot1 k;
          let k = fill_dirent dir (cur + DIRENT_LEN) dot2 k;
          (k, _) \<leftarrow> put_block_buffer_dirt buf k;
          Some (k, 0) } })"

record dirent_iterator =
  di_dirent :: addr
  di_end :: addr
  di_buffer :: "int option"
  di_zone_iter :: zone_iterator
  di_non_empty :: bool

definition has_dirent_iter_reached_end :: "dirent_iterator \<Rightarrow> bool" where
  "has_dirent_iter_reached_end iter \<longleftrightarrow> di_dirent iter + DIRENT_LEN > di_end iter"

definition iter_dirent_get_current :: "dirent_iterator \<Rightarrow> 'a fsk_scheme \<Rightarrow> ('a fsk_scheme \<times> dirent_iterator \<times> addr) option" where
  "iter_dirent_get_current iter k =
     (if has_dirent_iter_reached_end iter
      then do { (k, more) \<leftarrow> iter_zone_has_next (di_zone_iter iter) k;
                if \<not> more then Some (k, iter, NULL)
                else do {
                  (k, zi, zone) \<leftarrow> iter_zone_get_next (di_zone_iter iter) k;
                  (k, buffer) \<leftarrow> get_block_buffer zone (i_dev (inodes k (zi_inode zi))) k;
                  buffer \<leftarrow> buffer;
                  k \<leftarrow> (case di_buffer iter of Some b \<Rightarrow> do { (k, _) \<leftarrow> put_block_buffer b k; Some k } | None \<Rightarrow> Some k);
                  Some (k, iter\<lparr>di_zone_iter := zi, di_dirent := block_of k buffer, di_end := block_of k buffer + BLOCK_SIZE,
                               di_buffer := Some buffer\<rparr>, block_of k buffer) } }
      else Some (k, iter, di_dirent iter))"

text \<open>\<^verbatim>\<open>iter->dirent\<close> is not set before the first fetch; against a null end any address is past it.\<close>

definition iter_dirent_init :: "int \<Rightarrow> int \<Rightarrow> int \<Rightarrow> bool \<Rightarrow> 'a fsk_scheme \<Rightarrow> ('a fsk_scheme \<times> dirent_iterator) option" where
  "iter_dirent_init inode zone_idx dir_idx non_empty k =
     (let (k, zi) = iter_zone_init inode zone_idx k in
      do { (k, iter, p) \<leftarrow> iter_dirent_get_current
             \<lparr>di_dirent = NULL, di_end = NULL, di_buffer = None, di_zone_iter = zi, di_non_empty = False\<rparr> k;
           Some (k, iter\<lparr>di_dirent := p + dir_idx * DIRENT_LEN, di_non_empty := non_empty\<rparr>) })"

partial_function (option) iter_dirent_has_next :: "dirent_iterator \<Rightarrow> 'a fsk_scheme \<Rightarrow> ('a fsk_scheme \<times> dirent_iterator \<times> bool) option" where
  "iter_dirent_has_next iter k =
     do { (k, more) \<leftarrow> (if has_dirent_iter_reached_end iter then iter_zone_has_next (di_zone_iter iter) k else Some (k, True));
          if \<not> more then Some (k, iter, False)
          else if \<not> di_non_empty iter \<or> kmem k (d_ino (di_dirent iter)) \<noteq> 0 then Some (k, iter, True)
          else iter_dirent_has_next (iter\<lparr>di_dirent := di_dirent iter + DIRENT_LEN\<rparr>) k }"

definition iter_dirent_get_next :: "dirent_iterator \<Rightarrow> 'a fsk_scheme \<Rightarrow> ('a fsk_scheme \<times> dirent_iterator \<times> addr) option" where
  "iter_dirent_get_next iter k =
     do { (k, iter, p) \<leftarrow> iter_dirent_get_current iter k; Some (k, iter\<lparr>di_dirent := p + DIRENT_LEN\<rparr>, p) }"

definition iter_dirent_alloc :: "dirent_iterator \<Rightarrow> 'a fsk_scheme \<Rightarrow> ('a fsk_scheme \<times> int) option" where
  "iter_dirent_alloc iter k = do { (k, ret) \<leftarrow> iter_zone_alloc (di_zone_iter iter) k; Some (k, if ret \<ge> 0 then 0 else ret) }"

definition iter_dirent_close :: "dirent_iterator \<Rightarrow> 'a fsk_scheme \<Rightarrow> ('a fsk_scheme \<times> int) option" where
  "iter_dirent_close iter k =
     do { k \<leftarrow> (case di_buffer iter of Some b \<Rightarrow> do { (k, _) \<leftarrow> put_block_buffer b k; Some k } | None \<Rightarrow> Some k);
          Some (iter_zone_close (di_zone_iter iter) k) }"

text \<open>The search of \<^verbatim>\<open>add_inode_to_directory\<close> for a free entry, and the writing of it.\<close>

partial_function (option) add_dirent_loop ::
  "int \<Rightarrow> int \<Rightarrow> addr \<Rightarrow> dirent_iterator \<Rightarrow> 'a fsk_scheme \<Rightarrow> ('a fsk_scheme \<times> dirent_iterator \<times> int) option" where
  "add_dirent_loop dir ino string iter k =
     do { (k, iter, more) \<leftarrow> iter_dirent_has_next iter k;
          (k, ret) \<leftarrow>
            (if \<not> more
             then do { (k, ret) \<leftarrow> iter_dirent_alloc iter k;
                       Some (if ret < 0 then k else upd_inode dir (i_size_update (\<lambda>n. (n + BLOCK_SIZE) mod 2 ^ 32)) k, ret) }
             else Some (k, 0));
          if ret < 0 then Some (k, iter, ret)
          else do {
            (k, iter, cur) \<leftarrow> iter_dirent_get_next iter k;
            if kmem k (d_ino cur) = 0
            then do {
              let k = fill_dirent ino cur string k;
              d \<leftarrow> i_dev (inodes k ino);
              let k = upd_mem (\<lambda>m. m(dirent_dev cur := dev_id (device k d))) k;
              let k = upd_inode ino (i_nlinks_update (\<lambda>n. (n + 1) mod 2 ^ 32)) k;
              b \<leftarrow> di_buffer iter;
              Some (upd_buf b (b_dirt_update (\<lambda>_. True)) k, iter, 0) }
            else add_dirent_loop dir ino string iter k } }"

definition add_inode_to_directory :: "int \<Rightarrow> int \<Rightarrow> int \<Rightarrow> addr \<Rightarrow> 'a fsk_scheme \<Rightarrow> ('a fsk_scheme \<times> int) option" where
  "add_inode_to_directory who dir ino string k =
     (if \<not> S_ISDIR (i_mode (inodes k dir)) then Some (k, - EINVAL)
      else if \<not> has_file_access who dir W_OK k then Some (k, - EACCES)
      else do {
        len \<leftarrow> strlen (kmem k) string;
        if len > NAME_MAX then Some (k, - ENAMETOOLONG)
        else do {
          (k, iter) \<leftarrow> iter_dirent_init dir 0 0 False k;
          (k, iter, ret) \<leftarrow> add_dirent_loop dir ino string iter k;
          (k, _) \<leftarrow> iter_dirent_close iter k;
          Some (k, ret) } })"

text \<open>Loops over the entries of a directory until one is accepted; the entry is 0 if none is.\<close>

partial_function (option) find_dirent ::
  "('a fsk_scheme \<Rightarrow> addr \<Rightarrow> bool option) \<Rightarrow> dirent_iterator \<Rightarrow> 'a fsk_scheme \<Rightarrow> ('a fsk_scheme \<times> dirent_iterator \<times> addr) option" where
  "find_dirent ok iter k =
     do { (k, iter, more) \<leftarrow> iter_dirent_has_next iter k;
          if \<not> more then Some (k, iter, NULL)
          else do { (k, iter, cur) \<leftarrow> iter_dirent_get_next iter k;
                    found \<leftarrow> ok k cur;
                    if found then Some (k, iter, cur) else find_dirent ok iter k } }"

definition remove_inode_from_dir :: "int \<Rightarrow> int \<Rightarrow> int \<Rightarrow> addr \<Rightarrow> 'a fsk_scheme \<Rightarrow> ('a fsk_scheme \<times> int) option" where
  "remove_inode_from_dir who dir target name k =
     (if \<not> has_file_access who dir W_OK k then Some (k, - EACCES)
      else do {
        (k, iter) \<leftarrow> iter_dirent_init dir 0 0 False k;
        (k, iter, cur) \<leftarrow> find_dirent (\<lambda>k cur.
             if kmem k (d_ino cur) = i_num (inodes k target)
             then do { c \<leftarrow> char32_strcmp (kmem k) (d_name cur) name; Some (c = 0) } else Some False) iter k;
        (k, ret) \<leftarrow>
          (if cur = NULL then Some (k, - ENOENT)
           else do { let k = upd_mem (\<lambda>m. m(d_name cur := 0, d_ino cur := 0)) k;
                     b \<leftarrow> di_buffer iter;
                     let k = upd_buf b (b_dirt_update (\<lambda>_. True)) k;
                     Some (upd_inode target (i_nlinks_update (\<lambda>n. (n - 1) mod 2 ^ 32)) k, 0) });
        (k, _) \<leftarrow> iter_dirent_close iter k;
        Some (k, ret) })"

end
