(* ===== verification/Blocks.thy ===== *)
theory Blocks
  imports Inode
begin

text \<open>
  The block cache as its clients use it: take a buffer, change the block's words or other state,
  return the buffer. The interface is stated once; the maps of blocks and the places of inodes on
  the disk (\<^verbatim>\<open>fs/inode.c\<close>) are verified over it.
\<close>

section \<open>The interface\<close>

locale block_cache =
  fixes idle :: "'k \<Rightarrow> bool"
    and held :: "int \<Rightarrow> int \<Rightarrow> 'k \<Rightarrow> bool"
    and valid :: "int \<Rightarrow> 'k \<Rightarrow> bool"
    and frame same :: "'k \<Rightarrow> 'k \<Rightarrow> bool"
    and get :: "int \<Rightarrow> 'k \<Rightarrow> ('k \<times> int option) option"
    and put :: "int \<Rightarrow> 'k \<Rightarrow> ('k \<times> int) option"
  assumes get: "idle k \<Longrightarrow> valid nr k \<Longrightarrow> \<exists>k1 b. get nr k = Some (k1, Some b) \<and> held nr b k1 \<and> frame k1 k"
    and keep: "held nr b k1 \<Longrightarrow> same k2 k1 \<Longrightarrow> held nr b k2"
    and put: "held nr b k2 \<Longrightarrow> \<exists>k3. put b k2 = Some (k3, 0) \<and> idle k3 \<and> frame k3 k2"
begin

lemma transaction:
  assumes "idle k" "valid nr k" "\<And>k1 b. held nr b k1 \<Longrightarrow> frame k1 k \<Longrightarrow> same (body b k1) k1"
  obtains k1 b k3 where "get nr k = Some (k1, Some b)" "held nr b k1" "frame k1 k"
    "put b (body b k1) = Some (k3, 0)" "idle k3" "frame k3 (body b k1)"
  using get [OF assms(1,2)] assms(3) keep put by metis

end

text \<open>No buffer in use, or exactly one.\<close>

definition cache_idle :: "'a fsk_scheme \<Rightarrow> bool" where
  "cache_idle k \<longleftrightarrow> (\<exists>xs. cache_inv k xs \<and> length xs = 4) \<and> rootfs_disk_size k < 2 ^ 31"

definition block_held :: "int \<Rightarrow> int \<Rightarrow> 'a fsk_scheme \<Rightarrow> bool" where
  "block_held nr b k \<longleftrightarrow> (\<exists>xs. cache_inv k xs \<and> length xs = 3 \<and> b \<notin> set xs) \<and> b \<in> {0..<LRU_LEN} \<and> rootfs_disk_size k < 2 ^ 31 \<and>
     b_blocknr (bufs k b) = nr \<and> block_of k b = rootfs_disk k + nr * BLOCK_SIZE \<and> b_dev (bufs k b) = Some rootfs_dev"

definition block_on_disk :: "int \<Rightarrow> 'a fsk_scheme \<Rightarrow> bool" where
  "block_on_disk nr k \<longleftrightarrow> 0 < nr \<and> nr * BLOCK_SIZE < rootfs_disk_size k"

definition same_cache :: "'a fsk_scheme \<Rightarrow> 'a fsk_scheme \<Rightarrow> bool" where
  "same_cache k' k \<longleftrightarrow> bufs k' = bufs k \<and> lru_front k' = lru_front k \<and> lru_rear k' = lru_rear k \<and> rootfs_disk k' = rootfs_disk k \<and>
     rootfs_disk_size k' = rootfs_disk_size k"

lemma cache_inv_same:
  assumes "same_cache k' k"
  shows "cache_inv k' xs = cache_inv k xs"
proof -
  have "buf_ok k' b = buf_ok k b" for b using assms by (simp add: buf_ok_def same_cache_def split: option.split)
  with assms show ?thesis by (simp add: cache_inv_def same_cache_def lru_list_def)
qed

lemma cache_inv_dirt:
  assumes "cache_inv k xs" "b_dev (bufs k b) \<noteq> None"
  shows "cache_inv (upd_buf b (b_dirt_update (\<lambda>_. d)) k) xs"
proof -
  have "buf_ok (upd_buf b (b_dirt_update (\<lambda>_. d)) k) c = buf_ok k c" for c
    using assms(2) by (cases "c = b") (simp_all add: buf_ok_def split: option.split, auto)
  moreover have "lru_list k xs" using assms(1) by (simp add: cache_inv_def)
  then have "lru_list (upd_buf b (b_dirt_update (\<lambda>_. d)) k) xs"
    by (rule lru_list_links [rotated 3]) simp_all
  moreover have "b_blocknr (bufs (upd_buf b (b_dirt_update (\<lambda>_. d)) k) c) = b_blocknr (bufs k c)" for c by simp
  ultimately show ?thesis using assms(1) unfolding cache_inv_def by metis
qed

lemma get_idle:
  assumes "cache_idle k" "block_on_disk nr k"
  shows "\<exists>k1 b. get_block_buffer nr (Some rootfs_dev) k = Some (k1, Some b) \<and> block_held nr b k1 \<and> cache_frame k1 k"
proof -
  obtain xs where xs: "cache_inv k xs" "length xs = 4" and sz: "rootfs_disk_size k < 2 ^ 31" using assms(1) by (auto simp: cache_idle_def)
  have d: "distinct xs" "set xs \<subseteq> {0..<LRU_LEN}" using xs(1) by (simp_all add: cache_inv_def lru_list_def)
  have "card (set xs) = 4" using d(1) xs(2) by (simp add: distinct_card)
  then have "set xs = {0..<LRU_LEN}" using d(2) by (intro card_subset_eq) auto
  then obtain k1 b where k1: "get_block_buffer nr (Some rootfs_dev) k = Some (k1, Some b)" "b \<in> set xs" "cache_inv k1 (remove1 b xs)" "cache_frame k1 k"
    "b_blocknr (bufs k1 b) = nr" "buf_block (bufs k1 b) = rootfs_disk k + nr * BLOCK_SIZE" "b_dev (bufs k1 b) = Some rootfs_dev"
    using get_block_buffer_run [OF xs(1), of nr] xs(2) sz assms(2) by (auto simp: block_on_disk_def)
  have "length (remove1 b xs) = 3" "b \<notin> set (remove1 b xs)" "b \<in> {0..<LRU_LEN}" using k1(2) xs(2) d by (auto simp: length_remove1)
  with k1(3,5-7) cache_frameD(5,6) [OF k1(4)] sz have "block_held nr b k1" by (auto simp: block_held_def block_of_def)
  with k1(1,4) show ?thesis by blast
qed

lemma held_same: "block_held nr b k1 \<Longrightarrow> same_cache k2 k1 \<Longrightarrow> block_held nr b k2"
  using cache_inv_same [of k2 k1] by (simp add: block_held_def same_cache_def block_of_def)

lemma held_dirt: "block_held nr b k \<Longrightarrow> block_held nr b (upd_buf b (b_dirt_update (\<lambda>_. d)) k)"
  by (auto simp: block_held_def block_of_def intro: cache_inv_dirt)

lemma put_held:
  assumes "block_held nr b k"
  shows "\<exists>k3. put_block_buffer b k = Some (k3, 0) \<and> cache_idle k3 \<and> cache_frame k3 k"
proof -
  obtain xs where xs: "cache_inv k xs" "length xs = 3" "b \<notin> set xs" "b \<in> {0..<LRU_LEN}" "rootfs_disk_size k < 2 ^ 31"
    using assms by (auto simp: block_held_def)
  then obtain k3 where k3: "put_block_buffer b k = Some (k3, 0)" "cache_inv k3 (xs @ [b])" "cache_frame k3 k"
    using put_block_buffer_run [OF xs(1), of b] by fastforce
  then have "cache_idle k3" using xs(2,5) cache_frameD(6) [OF k3(3)] by (auto simp: cache_idle_def intro!: exI [of _ "xs @ [b]"])
  with k3 show ?thesis by blast
qed

lemma put_held_dirt:
  assumes "block_held nr b k"
  shows "\<exists>k3. put_block_buffer_dirt b k = Some (k3, 0) \<and> cache_idle k3 \<and> cache_frame k3 k"
  using put_held [OF held_dirt [OF assms, of True]] cache_frame_trans [of _ "upd_buf b (b_dirt_update (\<lambda>_. True)) k" k]
  by (auto simp: put_block_buffer_dirt_def)

interpretation cache: block_cache cache_idle block_held block_on_disk cache_frame same_cache
  "\<lambda>nr. get_block_buffer nr (Some rootfs_dev)" put_block_buffer
  by unfold_locales (fact get_idle, fact held_same, fact put_held)

interpretation cache_dirt: block_cache cache_idle block_held block_on_disk cache_frame same_cache
  "\<lambda>nr. get_block_buffer nr (Some rootfs_dev)" put_block_buffer_dirt
  by unfold_locales (fact get_idle, fact held_same, fact put_held_dirt)

section \<open>The map of blocks\<close>

lemma length_bm_at [simp]: "length (bm_at m p) = 256"
  by (simp add: bm_at_def)

lemma bm_at_put: "length bm = 256 \<Longrightarrow> bm_at (put_bm p bm m) p = bm"
  by (rule nth_equalityI) (auto simp: bm_at_def put_bm_def)

lemma bm_at_cong: "(\<And>x. p \<le> x \<Longrightarrow> x < p + 256 \<Longrightarrow> m' x = m x) \<Longrightarrow> bm_at m' p = bm_at m p"
  by (auto simp: bm_at_def)

definition block_map :: "'a fsk_scheme \<Rightarrow> nat set" where
  "block_map k = bits_on (bm_at (kmem k) (rootfs_disk k + s_blockmapnr (root_sb k) * BLOCK_SIZE))"

lemma search_first_clear:
  assumes "length bm = 256" "0 \<in> bits_on bm" "f = (LEAST q. q \<notin> bits_on bm)" "f < 8192"
  shows "bitmap_search_from bm 256 0 1 = Some (int f)" "0 < f" "f \<notin> bits_on bm"
proof -
  have free: "run_free bm q (Suc 0) \<longleftrightarrow> q < 8192 \<and> q \<notin> bits_on bm" for q
    using assms(1) by (auto simp: run_free_def less_Suc_eq)
  have nf: "f \<notin> bits_on bm" using LeastI [of "\<lambda>q. q \<notin> bits_on bm" 8192] bits_on_bound [of 8192 bm] assms(1,3) by auto
  moreover have "(LEAST q. 0 \<le> q \<and> run_free bm q 1) = f"
    using nf assms(3,4) by (intro Least_equality) (auto simp: free intro: Least_le)
  moreover have "\<exists>q\<ge>0. run_free bm q 1" using nf assms(4) by (auto simp: free)
  ultimately show "bitmap_search_from bm 256 0 1 = Some (int f)" "f \<notin> bits_on bm"
    using search_from_result [of 1 bm 0] assms(1) by simp_all
  show "0 < f" using nf assms(2) by (cases f) auto
qed

lemma same_cache_upd [simp]:
  "same_cache (upd_mem g k) k' = same_cache k k'" "same_cache (upd_inode i f k) k' = same_cache k k'"
  "same_cache (upd_sb h k) k' = same_cache k k'" "same_cache k k"
  by (simp_all add: same_cache_def upd_mem_def upd_inode_def upd_sb_def)

lemma fsk_upd_simps [simp]:
  "root_sb (upd_mem g k) = root_sb k" "rootfs_disk (upd_mem g k) = rootfs_disk k" "bufs (upd_mem g k) = bufs k"
  "root_sb (upd_sb h k) = h (root_sb k)" "rootfs_disk (upd_sb h k) = rootfs_disk k" "bufs (upd_sb h k) = bufs k" "kmem (upd_sb h k) = kmem k"
  "inodes (upd_sb h k) = inodes k" "filps (upd_sb h k) = filps k" "inodes (upd_mem g k) = inodes k" "filps (upd_mem g k) = filps k"
  "root_sb (upd_inode i f k) = root_sb k" "rootfs_disk (upd_inode i f k) = rootfs_disk k" "bufs (upd_inode i f k) = bufs k"
  "kmem (upd_inode i f k) = kmem k" "inodes (upd_inode i f k) = (inodes k)(i := f (inodes k i))" "filps (upd_inode i f k) = filps k"
  "rootfs_disk_size (upd_mem g k) = rootfs_disk_size k" "rootfs_disk_size (upd_sb h k) = rootfs_disk_size k"
  "rootfs_disk_size (upd_inode i f k) = rootfs_disk_size k" "kmem (upd_mem g k) = g (kmem k)"
  "procs (upd_inode i f k) = procs k" "procs (upd_sb h k) = procs k"
  "block_of (upd_mem g k) b = block_of k b" "block_of (upd_inode i f k) b = block_of k b" "block_of (upd_sb h k) b = block_of k b"
  by (simp_all add: upd_mem_def upd_inode_def upd_sb_def block_of_def)

lemma cache_frame_iff: "cache_frame k' k \<longleftrightarrow> (\<exists>a b c. k = k'\<lparr>bufs := a, lru_front := b, lru_rear := c\<rparr>)"
proof
  assume "cache_frame k' k"
  then have "k = k'\<lparr>bufs := bufs k, lru_front := lru_front k, lru_rear := lru_rear k\<rparr>" by (simp add: cache_frame_def)
  then show "\<exists>a b c. k = k'\<lparr>bufs := a, lru_front := b, lru_rear := c\<rparr>" by blast
qed (auto simp: cache_frame_def)

lemma cache_frame_upd:
  assumes "cache_frame k' k"
  shows "cache_frame (upd_mem g k') (upd_mem g k)" "cache_frame (upd_sb h k') (upd_sb h k)" "cache_frame (upd_inode i f k') (upd_inode i f k)"
proof -
  obtain a b c where k: "k = k'\<lparr>bufs := a, lru_front := b, lru_rear := c\<rparr>" using assms by (auto simp: cache_frame_iff)
  show "cache_frame (upd_mem g k') (upd_mem g k)" "cache_frame (upd_sb h k') (upd_sb h k)" "cache_frame (upd_inode i f k') (upd_inode i f k)"
    unfolding k by (cases k'; simp add: cache_frame_def upd_mem_def upd_sb_def upd_inode_def)+
qed

text \<open>The state when the map has a free bit at \<open>f\<close> that is a block of the disk.\<close>

definition take_block :: "nat \<Rightarrow> int \<Rightarrow> 'a fsk_scheme \<Rightarrow> u32 list \<Rightarrow> 'a fsk_scheme" where
  "take_block f p k bm = upd_sb (\<lambda>sb. sb\<lparr>s_block_inuse := (s_block_inuse sb + 1) mod 2 ^ 32, s_free_blocks := (s_free_blocks sb - 1) mod 2 ^ 32\<rparr>)
     (upd_mem (put_bm p bm) k)"

lemma alloc_block_run:
  fixes k :: "'a fsk_scheme"
  defines "sb \<equiv> root_sb k" and "f \<equiv> LEAST q. q \<notin> block_map k"
  assumes "cache_idle k" "block_on_disk (s_blockmapnr sb) k" "BLOCK_SIZE \<le> s_blockmap_size sb" "0 \<in> block_map k" "f < 8192"
  shows "int f < (s_block_inuse sb + s_free_blocks sb) mod 2 ^ 32 \<Longrightarrow>
      \<exists>k' bm. alloc_block (Some rootfs_dev) k = Some (k', int f) \<and> length bm = 256 \<and> bits_on bm = insert f (block_map k) \<and> cache_idle k' \<and>
        cache_frame k' (take_block f (rootfs_disk k + s_blockmapnr sb * BLOCK_SIZE) k bm)"
    and "\<not> int f < (s_block_inuse sb + s_free_blocks sb) mod 2 ^ 32 \<Longrightarrow>
      \<exists>k' b. alloc_block (Some rootfs_dev) k = Some (k', - ENOSPC) \<and> cache_frame k' k \<and> block_held (s_blockmapnr sb) b k'"
proof -
  let ?nr = "s_blockmapnr sb"
  let ?p = "rootfs_disk k + ?nr * BLOCK_SIZE"
  let ?bm = "bm_at (kmem k) ?p"
  obtain k1 b where k1: "get_block_buffer ?nr (Some rootfs_dev) k = Some (k1, Some b)" "block_held ?nr b k1" "cache_frame k1 k"
    using get_idle [OF assms(3,4)] by blast
  note F = cache_frameD [OF k1(3)]
  have blk: "b_blocknr (bufs k1 b) = ?nr" "block_of k1 b = ?p" using k1(2) F by (auto simp: block_held_def)
  have lt: "?nr < ?nr + s_blockmap_size sb div BLOCK_SIZE" using assms(5) by simp
  have bm: "block_map k = bits_on ?bm" by (simp add: block_map_def sb_def)
  have f: "bitmap_search_from ?bm 256 0 1 = Some (int f)" "0 < f" "f \<notin> bits_on ?bm"
    using search_first_clear [of ?bm f] assms(6,7) by (simp_all add: f_def bm)
  obtain bm' where bm': "bitmap_set_bit ?bm 256 (int f) = Some (bm', 0)" "length bm' = 256" "bits_on bm' = insert f (bits_on ?bm)"
    using bitmap_set_bit_run [of f ?bm] assms(7) by auto
  have valid: "is_valid_block_num (int f) (Some rootfs_dev) k1 = Some (int f < (s_block_inuse sb + s_free_blocks sb) mod 2 ^ 32)"
    by (simp add: is_valid_block_num_def get_sb_def F sb_def)
  have start: "alloc_block (Some rootfs_dev) k = alloc_block_loop (?nr + s_blockmap_size sb div BLOCK_SIZE) ?nr b (Some rootfs_dev) k1"
    using k1(1) by (simp add: alloc_block_def get_sb_def sb_def blk)
  {
    assume v: "int f < (s_block_inuse sb + s_free_blocks sb) mod 2 ^ 32"
    let ?k2 = "take_block f ?p k1 bm'"
    have "same_cache ?k2 k1" by (simp add: take_block_def)
    then obtain k3 where k3: "put_block_buffer_dirt b ?k2 = Some (k3, 0)" "cache_idle k3" "cache_frame k3 ?k2"
      using held_same [OF k1(2)] put_held_dirt by blast
    have "alloc_block (Some rootfs_dev) k = Some (k3, int f)"
      unfolding start using f(2) lt v k3(1)
      by (subst alloc_block_loop.simps) (simp add: blk F f(1) bm'(1) valid Let_def take_block_def)
    moreover have "cache_frame ?k2 (take_block f ?p k bm')" 
      unfolding take_block_def by (intro cache_frame_upd k1(3))
    ultimately show "\<exists>k' bm. alloc_block (Some rootfs_dev) k = Some (k', int f) \<and> length bm = 256 \<and> bits_on bm = insert f (block_map k) \<and> cache_idle k' \<and>
        cache_frame k' (take_block f ?p k bm)"
      using k3(2) bm'(2,3) cache_frame_trans [OF k3(3)] by (intro exI [of _ k3] exI [of _ bm']) (simp add: bm)
  }
  assume v: "\<not> int f < (s_block_inuse sb + s_free_blocks sb) mod 2 ^ 32"
  have "alloc_block (Some rootfs_dev) k = Some (k1, - ENOSPC)"
    unfolding start using f(2) lt v by (subst alloc_block_loop.simps) (simp add: blk F f(1) valid)
  with k1(2,3) show "\<exists>k' b. alloc_block (Some rootfs_dev) k = Some (k', - ENOSPC) \<and> cache_frame k' k \<and> block_held ?nr b k'" by blast
qed

section \<open>Inodes on the disk\<close>

lemma load_inode_cong: "(\<And>i. 0 \<le> i \<Longrightarrow> i < INODE_DISK_SIZE \<Longrightarrow> v i = w i) \<Longrightarrow> load_inode v r = load_inode w r"
  by (simp add: load_inode_def)

text \<open>The part of an inode that is kept on the disk.\<close>

definition disk_part :: "inode \<Rightarrow> inode" where
  "disk_part r = r\<lparr>i_dev := None, i_num := 0, i_count := 0, i_ndblock := 0, i_sb := None, i_flags := 0\<rparr>"

lemma disk_part_size: "disk_part (r\<lparr>i_size := n\<rparr>) = (disk_part r)\<lparr>i_size := n\<rparr>"
  by (cases r) (simp add: disk_part_def)

lemma load_inode_words:
  assumes "length (i_zone r) = NR_TZONES"
  shows "disk_part (load_inode (\<lambda>i. inode_words r ! nat i) r') = disk_part r"
proof -
  have "inode_words r ! nat (8 + int i) = i_zone r ! i" for i by (simp add: inode_words_def nat_add_distrib)
  then have "map (\<lambda>i. inode_words r ! nat (8 + int i)) [0..<NR_TZONES] = i_zone r" using map_nth [of "i_zone r"] assms by simp
  then show ?thesis by (cases r; cases r') (simp add: load_inode_def disk_part_def inode_words_def)
qed

definition disk_size_ok :: "inode \<Rightarrow> superblock \<Rightarrow> bool" where
  "disk_size_ok r sb \<longleftrightarrow> s_char_bit sb = 8 \<and> 0 \<le> i_size r \<and> i_size r < 2 ^ 30"

lemma dearch_arch:
  assumes "disk_size_ok r sb"
  shows "DEARCH_CHAR_SIZE (i_size r) sb = Some (4 * i_size r)" "ARCH_CHAR_SIZE (4 * i_size r) sb = Some (i_size r)"
  using assms by (simp_all add: disk_size_ok_def DEARCH_CHAR_SIZE_def ARCH_CHAR_SIZE_def char_ratio_def mult.commute)

definition inode_map :: "'a fsk_scheme \<Rightarrow> nat set" where
  "inode_map k = bits_on (bm_at (kmem k) (rootfs_disk k + s_inodemapnr (root_sb k) * BLOCK_SIZE))"

text \<open>An inode of the table whose number is in use and whose place is inside the inode table on the disk.\<close>

definition num_placed :: "int \<Rightarrow> 'a fsk_scheme \<Rightarrow> bool" where
  "num_placed n k \<longleftrightarrow> (let sb = root_sb k in
     1 \<le> n \<and> n < 8192 \<and> nat n \<in> inode_map k \<and> 0 < s_inode_size sb \<and> n * s_inode_size sb < s_inode_table_size sb \<and>
     s_inode_table_size sb < 2 ^ 31 \<and> BLOCK_SIZE \<le> s_inodemap_size sb \<and> s_inodemapnr sb < s_inode_tablenr sb \<and>
     block_on_disk (s_inodemapnr sb) k \<and> block_on_disk (s_inode_tablenr sb + n * s_inode_size sb div BLOCK_SIZE) k)"

definition inode_block :: "int \<Rightarrow> 'a fsk_scheme \<Rightarrow> int" where
  "inode_block n k = s_inode_tablenr (root_sb k) + n * s_inode_size (root_sb k) div BLOCK_SIZE"

definition inode_addr :: "int \<Rightarrow> 'a fsk_scheme \<Rightarrow> addr" where
  "inode_addr n k = rootfs_disk k + inode_block n k * BLOCK_SIZE + n * s_inode_size (root_sb k) mod BLOCK_SIZE"

definition inode_placed :: "int \<Rightarrow> 'a fsk_scheme \<Rightarrow> bool" where
  "inode_placed i k \<longleftrightarrow> (let r = inodes k i in
     num_placed (i_num r) k \<and> i_dev r = Some rootfs_dev \<and> i_sb r = Some rootfs_dev \<and> length (i_zone r) = NR_TZONES \<and>
     disk_size_ok r (root_sb k) \<and> i_ndblock r = inode_block (i_num r) k)"

lemma idle_same: "same_cache k' k \<Longrightarrow> cache_idle k' = cache_idle k"
  using cache_inv_same [of k' k] by (simp add: cache_idle_def same_cache_def)

lemma cache_frame_same:
  assumes "cache_frame k' k"
  shows "inode_block n k' = inode_block n k" "inode_addr n k' = inode_addr n k" "inode_map k' = inode_map k" "block_map k' = block_map k"
    "block_on_disk b k' = block_on_disk b k" "num_placed n k' = num_placed n k" "get_sb d k' = get_sb d k"
  using cache_frameD [OF assms]
  by (simp_all add: inode_block_def inode_addr_def inode_map_def block_map_def block_on_disk_def num_placed_def get_sb_def)

lemma put_inode_run:
  fixes k :: "'a fsk_scheme"
  assumes "cache_idle k" "inode_placed i k"
  defines "r \<equiv> inodes k i"
  shows "\<exists>k' r'. put_inode (Some i) True k = Some (k', 0) \<and> cache_idle k' \<and>
     cache_frame k' (upd_inode i (\<lambda>_. r') (upd_mem (store_inode (inode_addr (i_num r) k) (r\<lparr>i_size := 4 * i_size r\<rparr>)) k)) \<and>
     disk_part r' = disk_part r \<and> i_num r' = i_num r \<and> i_count r' = (if 0 < i_count r then i_count r - 1 else i_count r)"
proof -
  let ?n = "i_num r" and ?sb = "root_sb k"
  define c where "c = (if 0 < i_count r then i_count r - 1 else i_count r)"
  define k0 where "k0 = upd_inode i (i_count_update (\<lambda>_. c)) k"
  have P: "i_dev r = Some rootfs_dev" "i_sb r = Some rootfs_dev" "length (i_zone r) = NR_TZONES" "disk_size_ok r ?sb"
      "i_ndblock r = inode_block ?n k" "num_placed ?n k"
    using assms(2) by (simp_all add: inode_placed_def r_def Let_def)
  have off: "(?n * s_inode_size ?sb) mod 2 ^ 32 = ?n * s_inode_size ?sb" using P(6) by (simp add: num_placed_def Let_def)
  have dec: "(if 0 < i_count r then upd_inode i (i_count_update (\<lambda>c. c - 1)) k else k) = k0"
    by (cases k) (auto simp: k0_def c_def upd_inode_def r_def fun_eq_iff)
  have i0: "inodes k0 i = r\<lparr>i_count := c\<rparr>" by (simp add: k0_def r_def)
  have "cache_idle k0" using assms(1) idle_same [of k0 k] by (simp add: k0_def)
  moreover have "block_on_disk (inode_block ?n k) k0" using P(6) by (simp add: num_placed_def block_on_disk_def inode_block_def k0_def Let_def)
  ultimately obtain k1 b where k1: "get_block_buffer (inode_block ?n k) (Some rootfs_dev) k0 = Some (k1, Some b)"
    "block_held (inode_block ?n k) b k1" "cache_frame k1 k0" using get_idle by blast
  note F = cache_frameD [OF k1(3)]
  have addr: "block_of k1 b + ?n * s_inode_size ?sb mod BLOCK_SIZE = inode_addr ?n k"
    using k1(2) F(5) by (simp add: block_held_def inode_addr_def k0_def)
  define q where "q = inode_addr ?n k"
  define k4 where "k4 = upd_inode i (i_size_update (\<lambda>_. i_size r)) (upd_mem (store_inode q (r\<lparr>i_count := c, i_size := 4 * i_size r\<rparr>)) (upd_inode i (i_size_update (\<lambda>_. 4 * i_size r)) k1))"
  have "same_cache k4 k1" by (simp add: k4_def)
  then obtain k5 where k5: "put_block_buffer_dirt b k4 = Some (k5, 0)" "cache_idle k5" "cache_frame k5 k4"
    using held_same [OF k1(2)] put_held_dirt by blast
  define k' where "k' = upd_inode i (\<lambda>r. r\<lparr>i_flags := clear_flag (i_flags r) INODE_FLAG_DIRTY\<rparr>) k5"
  have sb: "root_sb k1 = ?sb" "root_sb k0 = ?sb" using F by (simp_all add: k0_def)
  have i1: "inodes k1 i = r\<lparr>i_count := c\<rparr>" using F(2) i0 by simp
  have run: "put_inode (Some i) True k = Some (k', 0)"
    using P(1,2,5) k1(1) k5(1) addr
    by (simp add: put_inode_def r_def [symmetric] dec Let_def i0 get_sb_def sb off [simplified] dearch_inode_def arch_inode_def i1
        dearch_arch [OF P(4)] k4_def k'_def q_def)
  define r' where "r' = r\<lparr>i_count := c, i_flags := clear_flag (i_flags r) INODE_FLAG_DIRTY\<rparr>"
  have st: "store_inode q (r\<lparr>i_count := c, i_size := 4 * i_size r\<rparr>) = store_inode q (r\<lparr>i_size := 4 * i_size r\<rparr>)"
    by (simp add: store_inode_def inode_words_def fun_eq_iff)
  have "cache_frame k' (upd_inode i (\<lambda>r. r\<lparr>i_flags := clear_flag (i_flags r) INODE_FLAG_DIRTY\<rparr>)
      (upd_inode i (i_size_update (\<lambda>_. i_size r)) (upd_mem (store_inode q (r\<lparr>i_size := 4 * i_size r\<rparr>)) (upd_inode i (i_size_update (\<lambda>_. 4 * i_size r)) k0))))"
    unfolding k'_def by (intro cache_frame_upd cache_frame_trans [OF k5(3)]) (simp add: k4_def st cache_frame_upd k1(3))
  also have "upd_inode i (\<lambda>r. r\<lparr>i_flags := clear_flag (i_flags r) INODE_FLAG_DIRTY\<rparr>)
      (upd_inode i (i_size_update (\<lambda>_. i_size r)) (upd_mem (store_inode q (r\<lparr>i_size := 4 * i_size r\<rparr>)) (upd_inode i (i_size_update (\<lambda>_. 4 * i_size r)) k0))) =
      upd_inode i (\<lambda>_. r') (upd_mem (store_inode q (r\<lparr>i_size := 4 * i_size r\<rparr>)) k)"
    by (cases k) (simp add: k0_def upd_inode_def upd_mem_def r'_def r_def)
  finally have "cache_frame k' (upd_inode i (\<lambda>_. r') (upd_mem (store_inode q (r\<lparr>i_size := 4 * i_size r\<rparr>)) k))" .
  moreover have "cache_idle k'" using k5(2) idle_same [of k' k5] by (simp add: k'_def)
  moreover have "disk_part r' = disk_part r" "i_num r' = i_num r" "i_count r' = c" by (simp_all add: r'_def disk_part_def)
  ultimately show ?thesis using run unfolding q_def c_def by blast
qed

lemma inode_in_use_run:
  assumes "cache_idle k" "num_placed n k"
  shows "\<exists>k'. is_inode_in_use n (Some rootfs_dev) k = Some (k', True) \<and> cache_idle k' \<and> cache_frame k' k"
proof -
  let ?sb = "root_sb k"
  have P: "1 \<le> n" "n < 8192" "nat n \<in> inode_map k" "0 < s_inode_size ?sb" "n * s_inode_size ?sb < s_inode_table_size ?sb"
    "BLOCK_SIZE \<le> s_inodemap_size ?sb" "block_on_disk (s_inodemapnr ?sb) k" using assms(2) by (simp_all add: num_placed_def Let_def)
  have "n \<le> s_inode_table_size ?sb div s_inode_size ?sb" 
    using zdiv_mono1 [of "n * s_inode_size ?sb" "s_inode_table_size ?sb" "s_inode_size ?sb"] P(4,5) by simp
  then have valid: "is_valid_inode_num n (Some rootfs_dev) k = Some True" using P(1,4) by (simp add: is_valid_inode_num_def get_sb_def)
  obtain k1 b where k1: "get_block_buffer (s_inodemapnr ?sb) (Some rootfs_dev) k = Some (k1, Some b)" "block_held (s_inodemapnr ?sb) b k1" "cache_frame k1 k"
    using get_idle [OF assms(1) P(7)] by blast
  note F = cache_frameD [OF k1(3)]
  obtain k' where k': "put_block_buffer b k1 = Some (k', 0)" "cache_idle k'" "cache_frame k' k1" using put_held [OF k1(2)] by blast
  have blk: "b_blocknr (bufs k1 b) = s_inodemapnr ?sb" "block_of k1 b = rootfs_disk k + s_inodemapnr ?sb * BLOCK_SIZE"
    using k1(2) F by (auto simp: block_held_def)
  have on: "is_bit_on (bm_at (kmem k) (rootfs_disk k + s_inodemapnr ?sb * BLOCK_SIZE)) BLOCK_SIZE n = Some True"
    using is_bit_on_run [of "nat n" "bm_at (kmem k) (rootfs_disk k + s_inodemapnr ?sb * BLOCK_SIZE)"] P(1-3) by (simp add: inode_map_def)
  have "0 < s_inodemap_size ?sb div BLOCK_SIZE" using P(6) by simp
  then have "inode_in_use_loop n (s_inodemapnr ?sb + s_inodemap_size ?sb div BLOCK_SIZE) b (Some rootfs_dev) k1 = Some (k', True)"
    by (subst inode_in_use_loop.simps) (simp add: blk F on k'(1))
  then have "is_inode_in_use n (Some rootfs_dev) k = Some (k', True)"
    using k1(1) valid by (simp add: is_inode_in_use_def get_sb_def blk)
  with k' k1(3) cache_frame_trans show ?thesis by blast
qed

lemma upd_inode_upd: "upd_inode j g (upd_inode j f k) = upd_inode j (\<lambda>r. g (f r)) k"
  by (simp add: upd_inode_def)

lemma init_inode_placed:
  assumes "num_placed n k"
  shows "init_inode_non_disk j n (Some rootfs_dev) (Some rootfs_dev) k =
     Some (upd_inode j (\<lambda>r. r\<lparr>i_dev := Some rootfs_dev, i_sb := Some rootfs_dev, i_num := n, i_ndblock := inode_block n k\<rparr>) k, 0)"
proof -
  let ?sb = "root_sb k"
  have P: "1 \<le> n" "0 < s_inode_size ?sb" "n * s_inode_size ?sb < s_inode_table_size ?sb" "s_inode_table_size ?sb < 2 ^ 31"
    using assms by (simp_all add: num_placed_def Let_def)
  have m: "(n * s_inode_size ?sb) mod 2 ^ 32 = n * s_inode_size ?sb" using P by simp
  have "n * s_inode_size ?sb div BLOCK_SIZE * BLOCK_SIZE \<le> n * s_inode_size ?sb" by (simp add: div_mult_mod_eq [of _ BLOCK_SIZE, symmetric] del: div_mult_mod_eq)
  then have "inode_block n k * BLOCK_SIZE < s_inode_tablenr ?sb * BLOCK_SIZE + s_inode_table_size ?sb"
    using P(3) by (simp add: inode_block_def algebra_simps)
  then show ?thesis
    by (simp add: init_inode_non_disk_def Let_def get_sb_def m [simplified] inode_block_def upd_inode_upd add.commute cong: if_cong)
qed

lemma find_free_inode:
  assumes "find (\<lambda>i. i_num (inodes k i) = 0) [0..NR_INODES - 1] = Some j"
  shows "get_free_inode_slot k = (upd_inode j (\<lambda>_. inode_zero) k, Some j)"
  using assms by (simp add: get_free_inode_slot_def)

lemma read_inode_run:
  fixes k :: "'a fsk_scheme"
  assumes "cache_idle k" "num_placed n k" "find (\<lambda>i. i_num (inodes k i) = 0) [0..NR_INODES - 1] = Some j"
    and r: "r = load_inode (\<lambda>i. kmem k (inode_addr n k + i)) inode_zero" and asz: "ARCH_CHAR_SIZE (i_size r) (root_sb k) = Some sz"
  shows "\<exists>k'. read_inode n (Some rootfs_dev) k = Some (k', Inr j) \<and> cache_idle k' \<and> disk_part (inodes k' j) = disk_part (r\<lparr>i_size := sz\<rparr>) \<and>
     i_num (inodes k' j) = n \<and> i_count (inodes k' j) = 1 \<and> (\<forall>i. i \<noteq> j \<longrightarrow> inodes k' i = inodes k i)"
proof -
  let ?sb = "root_sb k"
  define k0 where "k0 = upd_inode j (\<lambda>_. inode_zero) k"
  have s0: "root_sb k0 = ?sb" "kmem k0 = kmem k" "rootfs_disk k0 = rootfs_disk k" "rootfs_disk_size k0 = rootfs_disk_size k" by (simp_all add: k0_def)
  have same0: "inode_block m k0 = inode_block m k" "inode_addr m k0 = inode_addr m k" "num_placed m k0 = num_placed m k" for m
    by (simp_all add: inode_block_def inode_addr_def num_placed_def inode_map_def block_on_disk_def s0)
  have idle0: "cache_idle k0" using assms(1) idle_same [of k0 k] by (simp add: k0_def)
  obtain k1 where k1: "is_inode_in_use n (Some rootfs_dev) k0 = Some (k1, True)" "cache_idle k1" "cache_frame k1 k0"
    using inode_in_use_run [OF idle0] assms(2) same0(3) by blast
  note F1 = cache_frameD [OF k1(3)] and G1 = cache_frame_same [OF k1(3)]
  have np: "num_placed n k1" using assms(2) G1(6) same0(3) by simp
  then have "block_on_disk (inode_block n k1) k1" by (simp add: num_placed_def inode_block_def Let_def)
  then obtain k2 b where k2: "get_block_buffer (inode_block n k) (Some rootfs_dev) k1 = Some (k2, Some b)" "block_held (inode_block n k) b k2" "cache_frame k2 k1"
    using get_idle [OF k1(2), of "inode_block n k"] G1(1) same0(1) by auto
  note F2 = cache_frameD [OF k2(3)] and G2 = cache_frame_same [OF k2(3)]
  have P: "n \<noteq> 0" "(n * s_inode_size ?sb) mod 2 ^ 32 = n * s_inode_size ?sb" using assms(2) by (simp_all add: num_placed_def Let_def)
  have addr: "block_of k2 b + n * s_inode_size ?sb mod BLOCK_SIZE = inode_addr n k"
    using k2(2) F2(5) F1(5) s0(3) by (simp add: block_held_def inode_addr_def)
  have mem: "kmem k2 = kmem k" "root_sb k2 = ?sb" using F2 F1 s0 by simp_all
  define k3 where "k3 = upd_inode j (i_count_update (\<lambda>c. c + 1)) (upd_inode j (load_inode (\<lambda>i. kmem k (inode_addr n k + i))) k2)"
  have i2: "inodes k2 = inodes k0" using F2(2) F1(2) by simp
  have i3: "inodes k3 j = r\<lparr>i_count := 1\<rparr>" by (simp add: k3_def i2 k0_def r load_inode_def inode_zero_def)
  have np3: "num_placed n k3" using np G2(6) by (simp add: k3_def num_placed_def inode_map_def block_on_disk_def)
  define k4 where "k4 = upd_inode j (\<lambda>r. r\<lparr>i_dev := Some rootfs_dev, i_sb := Some rootfs_dev, i_num := n, i_ndblock := inode_block n k3\<rparr>) k3"
  define k5 where "k5 = upd_inode j (i_size_update (\<lambda>_. sz)) k4"
  have "same_cache k5 k2" by (simp add: k5_def k4_def k3_def)
  then obtain k' where k': "put_block_buffer b k5 = Some (k', 0)" "cache_idle k'" "cache_frame k' k5"
    using held_same [OF k2(2)] put_held by blast
  have i4: "inodes k4 j = r\<lparr>i_count := 1, i_dev := Some rootfs_dev, i_sb := Some rootfs_dev, i_num := n, i_ndblock := inode_block n k3\<rparr>" "root_sb k4 = ?sb"
    by (simp_all add: k4_def i3) (simp add: k3_def mem)
  have arch: "arch_inode j k4 = Some k5" by (simp add: arch_inode_def get_sb_def i4 asz k5_def)
  have ini: "init_inode_non_disk j n (Some rootfs_dev) (Some rootfs_dev) k3 = Some (k4, 0)" unfolding k4_def by (rule init_inode_placed [OF np3])
  have "read_inode n (Some rootfs_dev) k = Some (k', Inr j)"
    using k1(1) k2(1) addr ini arch k'(1) P(1)
    by (simp add: read_inode_def get_sb_def find_free_inode [OF assms(3)] k0_def [symmetric] P(2) [simplified] Let_def inode_block_def [symmetric]
        mem k3_def [symmetric])
  moreover have "inodes k' = inodes k5" using cache_frameD(2) [OF k'(3)] .
  ultimately show ?thesis using k'(2)
    by (intro exI [of _ k']) (simp add: k5_def i4 disk_part_def, simp add: k4_def k3_def i2 k0_def)
qed

section \<open>Properties\<close>

text \<open>
  C28. Allocating a disk block takes the lowest block whose bit is clear, marks exactly it and moves
  one block from the free to the used count, writing nothing but the block map. When that block is
  past the end of the disk the call reports \<^verbatim>\<open>-ENOSPC\<close> and changes no memory, but it never
  returns the buffer of the map to the cache.
\<close>

theorem alloc_block_correct:
  assumes "cache_idle k" "block_on_disk (s_blockmapnr (root_sb k)) k" "BLOCK_SIZE \<le> s_blockmap_size (root_sb k)" "0 \<in> block_map k"
    and f: "f = (LEAST q. q \<notin> block_map k)" "f < 8192"
  shows "\<exists>k' r. alloc_block (Some rootfs_dev) k = Some (k', r) \<and> f \<notin> block_map k \<and>
     (if int f < (s_block_inuse (root_sb k) + s_free_blocks (root_sb k)) mod 2 ^ 32
      then r = int f \<and> block_map k' = insert f (block_map k) \<and> cache_idle k' \<and>
           s_block_inuse (root_sb k') = (s_block_inuse (root_sb k) + 1) mod 2 ^ 32 \<and>
           s_free_blocks (root_sb k') = (s_free_blocks (root_sb k) - 1) mod 2 ^ 32 \<and>
           (\<forall>a. a < rootfs_disk k + s_blockmapnr (root_sb k) * BLOCK_SIZE \<or> rootfs_disk k + s_blockmapnr (root_sb k) * BLOCK_SIZE + BLOCK_SIZE \<le> a \<longrightarrow>
              kmem k' a = kmem k a)
      else r = - ENOSPC \<and> kmem k' = kmem k \<and> (\<exists>b. block_held (s_blockmapnr (root_sb k)) b k'))"
proof -
  note run = alloc_block_run [OF assms(1-4), folded f(1), OF f(2)]
  have nf: "f \<notin> block_map k"
    using search_first_clear(3) [OF length_bm_at, of _ _ f] assms(4) f by (simp add: block_map_def)
  show ?thesis
  proof (cases "int f < (s_block_inuse (root_sb k) + s_free_blocks (root_sb k)) mod 2 ^ 32")
    case True
    from run(1) [OF True] obtain k' bm where k': "alloc_block (Some rootfs_dev) k = Some (k', int f)" "length bm = 256"
      "bits_on bm = insert f (block_map k)" "cache_idle k'"
      "cache_frame k' (take_block f (rootfs_disk k + s_blockmapnr (root_sb k) * BLOCK_SIZE) k bm)" by blast
    have "block_map k' = insert f (block_map k)"
      unfolding cache_frame_same(4) [OF k'(5)] using k'(2,3) by (simp add: block_map_def take_block_def bm_at_put)
    with k' nf True cache_frameD [OF k'(5)] show ?thesis by (auto simp: take_block_def put_bm_def)
  next
    case False
    from run(2) [OF False] nf False show ?thesis by (auto dest: cache_frameD(1))
  qed
qed

text \<open>
  C27. Writing an inode back and reading it again is the identity on everything the disk keeps: after
  \<^verbatim>\<open>put_inode\<close> with the dirty flag, \<^verbatim>\<open>read_inode\<close> of the same number fills the first free entry of the
  table with an inode equal to the one written in mode, links, owner, size, times and zones.
\<close>

theorem inode_disk_roundtrip:
  assumes "cache_idle k" "inode_placed i k" "find (\<lambda>j. i_num (inodes k j) = 0) [0..NR_INODES - 1] = Some j"
  shows "\<exists>k1 k2. put_inode (Some i) True k = Some (k1, 0) \<and> read_inode (i_num (inodes k i)) (Some rootfs_dev) k1 = Some (k2, Inr j) \<and>
     disk_part (inodes k2 j) = disk_part (inodes k i) \<and> i_num (inodes k2 j) = i_num (inodes k i) \<and> cache_idle k2"
proof -
  let ?r = "inodes k i" and ?n = "i_num (inodes k i)"
  let ?w = "?r\<lparr>i_size := 4 * i_size ?r\<rparr>"
  have P: "num_placed ?n k" "length (i_zone ?r) = NR_TZONES" "disk_size_ok ?r (root_sb k)" using assms(2) by (simp_all add: inode_placed_def Let_def)
  obtain k1 r' where k1: "put_inode (Some i) True k = Some (k1, 0)" "cache_idle k1" "disk_part r' = disk_part ?r" "i_num r' = ?n"
    "cache_frame k1 (upd_inode i (\<lambda>_. r') (upd_mem (store_inode (inode_addr ?n k) ?w) k))" using put_inode_run [OF assms(1,2)] by blast
  note F = cache_frameD [OF k1(5)]
  have sb: "root_sb k1 = root_sb k" "rootfs_disk k1 = rootfs_disk k" "rootfs_disk_size k1 = rootfs_disk_size k" using F by simp_all
  have a: "inode_addr ?n k1 = inode_addr ?n k" by (simp add: inode_addr_def inode_block_def sb)
  have "0 \<le> ?n * s_inode_size (root_sb k)" "s_inodemapnr (root_sb k) < s_inode_tablenr (root_sb k)" using P(1) by (simp_all add: num_placed_def Let_def)
  moreover have "inode_addr ?n k = rootfs_disk k + s_inode_tablenr (root_sb k) * BLOCK_SIZE + ?n * s_inode_size (root_sb k)"
    by (simp add: inode_addr_def inode_block_def)
  ultimately have lo: "rootfs_disk k + s_inodemapnr (root_sb k) * BLOCK_SIZE + BLOCK_SIZE \<le> inode_addr ?n k" by linarith
  have "inode_map k1 = inode_map k"
    unfolding inode_map_def sb F(1) using lo by (intro arg_cong [where f = bits_on] bm_at_cong) (simp add: store_inode_def)
  then have np: "num_placed ?n k1" using P(1) by (simp add: num_placed_def sb block_on_disk_def)
  have "i_num (inodes k1 x) = i_num (inodes k x)" for x using F(2) k1(4) by simp
  then have free: "find (\<lambda>j. i_num (inodes k1 j) = 0) [0..NR_INODES - 1] = Some j" using assms(3) by simp
  define r where "r = load_inode (\<lambda>x. kmem k1 (inode_addr ?n k1 + x)) inode_zero"
  have "r = load_inode (\<lambda>x. inode_words ?w ! nat x) inode_zero"
    unfolding r_def a F(1) by (rule load_inode_cong) (simp add: store_inode_def)
  then have rd: "disk_part r = disk_part ?w" using load_inode_words [of ?w inode_zero] P(2) by simp
  then have "i_size r = 4 * i_size ?r" by (drule_tac arg_cong [where f = i_size]) (simp add: disk_part_def)
  then have asz: "ARCH_CHAR_SIZE (i_size r) (root_sb k1) = Some (i_size ?r)" using dearch_arch(2) [OF P(3)] by (simp add: sb)
  obtain k2 where k2: "read_inode ?n (Some rootfs_dev) k1 = Some (k2, Inr j)" "cache_idle k2" "i_num (inodes k2 j) = ?n"
    "disk_part (inodes k2 j) = disk_part (r\<lparr>i_size := i_size ?r\<rparr>)" using read_inode_run [OF k1(2) np free r_def asz] by blast
  have "disk_part (r\<lparr>i_size := i_size ?r\<rparr>) = disk_part ?r"
    unfolding disk_part_size rd by (simp add: disk_part_size [symmetric])
  with k1(1) k2 show ?thesis by auto
qed

text \<open>A disk of forty blocks whose maps have the first 32 bits set.\<close>

definition disk_demo :: "fsk \<Rightarrow> bool" where
  "disk_demo k \<longleftrightarrow> cache_idle k \<and> rootfs_disk_size k = 40960 \<and> block_map k = {..<32} \<and> inode_map k = {..<32} \<and>
     s_blockmapnr (root_sb k) = 1 \<and> s_inodemapnr (root_sb k) = 1 \<and> s_inode_tablenr (root_sb k) = 2 \<and> s_blockmap_size (root_sb k) = 256 \<and>
     s_inodemap_size (root_sb k) = 256 \<and> s_inode_size (root_sb k) = 17 \<and> s_inode_table_size (root_sb k) = 1024 \<and> s_char_bit (root_sb k) = 8 \<and>
     s_block_inuse (root_sb k) = 32 \<and> s_free_blocks (root_sb k) = 8 \<and>
     inodes k = (\<lambda>i. if i = 0 then inode_zero\<lparr>i_num := 3, i_dev := Some rootfs_dev, i_sb := Some rootfs_dev, i_ndblock := 2, i_size := 77, i_mode := 420\<rparr> else inode_zero)"

lemma disk_demo: "\<exists>k. disk_demo k"
proof -
  obtain bm where bm: "length bm = 256" "bits_on bm = {..<32}" using bitmap_set_nbits_run [of 0 32 "replicate 256 0"] by (auto simp: atLeast0LessThan)
  fix k0 :: fsk and sb :: superblock
  let ?sb = "sb\<lparr>s_blockmapnr := 1, s_inodemapnr := 1, s_inode_tablenr := 2, s_blockmap_size := 256, s_inodemap_size := 256, s_inode_size := 17,
    s_inode_table_size := 1024, s_char_bit := 8, s_block_inuse := 32, s_free_blocks := 8\<rparr>"
  let ?i = "\<lambda>i. if i = 0 then inode_zero\<lparr>i_num := 3, i_dev := Some rootfs_dev, i_sb := Some rootfs_dev, i_ndblock := 2, i_size := 77, i_mode := 420\<rparr> else inode_zero"
  define k where "k = k0\<lparr>root_sb := ?sb, rootfs_disk := 0, rootfs_disk_size := 40960, kmem := put_bm 256 bm (\<lambda>_. 0), inodes := ?i\<rparr>"
  obtain k' where k': "init_buf k = Some k'" "cache_inv k' [0, 1, 2, 3]" "cache_frame k' k" using init_buf_run by blast
  note F = cache_frameD [OF k'(3)]
  have "rootfs_disk_size k' = 40960" using F(6) by (simp add: k_def)
  then have "cache_idle k'" using k'(2) by (auto simp: cache_idle_def intro!: exI [of _ "[0, 1, 2, 3]"])
  moreover have "block_map k' = {..<32}" "inode_map k' = {..<32}"
    unfolding cache_frame_same [OF k'(3)] using bm by (simp_all add: block_map_def inode_map_def bm_at_put k_def)
  moreover have "root_sb k' = ?sb" "inodes k' = ?i" unfolding F by (simp_all add: k_def)
  ultimately have "disk_demo k'" using \<open>rootfs_disk_size k' = 40960\<close> unfolding disk_demo_def by (intro conjI) simp_all
  then show ?thesis ..
qed

theorem alloc_block_correct_witness:
  "\<exists>(k :: fsk) k'. block_map k = {..<32} \<and> alloc_block (Some rootfs_dev) k = Some (k', 32) \<and> block_map k' = insert 32 {..<32} \<and>
     s_block_inuse (root_sb k') = 33 \<and> s_free_blocks (root_sb k') = 7"
proof -
  obtain k where "disk_demo k" using disk_demo ..
  then have k: "cache_idle k" "block_on_disk (s_blockmapnr (root_sb k)) k" "BLOCK_SIZE \<le> s_blockmap_size (root_sb k)" "0 \<in> block_map k"
    and bm: "block_map k = {..<32}" and sb: "s_block_inuse (root_sb k) = 32" "s_free_blocks (root_sb k) = 8"
    by (simp_all add: disk_demo_def block_on_disk_def)
  have f: "32 = (LEAST q. q \<notin> block_map k)" unfolding bm by (rule Least_equality [symmetric]) auto
  obtain k' r where "alloc_block (Some rootfs_dev) k = Some (k', r)" "r = int 32 \<and> block_map k' = insert 32 (block_map k) \<and> cache_idle k' \<and>
      s_block_inuse (root_sb k') = 33 \<and> s_free_blocks (root_sb k') = 7"
    using alloc_block_correct [OF k f] by (auto simp: sb)
  then show ?thesis using bm by - (rule exI [of _ k], simp)
qed

theorem inode_disk_roundtrip_witness:
  "\<exists>(k :: fsk) k1 k2. i_size (inodes k 0) = 77 \<and> put_inode (Some 0) True k = Some (k1, 0) \<and>
     read_inode 3 (Some rootfs_dev) k1 = Some (k2, Inr 1) \<and> disk_part (inodes k2 1) = disk_part (inodes k 0)"
proof -
  obtain k where d: "disk_demo k" using disk_demo ..
  then have k: "cache_idle k" "inode_placed 0 k" "i_size (inodes k 0) = 77" "i_num (inodes k 0) = 3"
    by (simp_all add: disk_demo_def inode_placed_def num_placed_def Let_def block_on_disk_def inode_block_def disk_size_ok_def inode_zero_def)
  have "find (\<lambda>j. i_num (inodes k j) = 0) [0..NR_INODES - 1] = Some 1" using d by (simp add: disk_demo_def upto_rec1 inode_zero_def)
  from inode_disk_roundtrip [OF k(1,2) this] k(3,4) show ?thesis by - (rule exI [of _ k], auto)
qed

end
