(* ===== verification/Rootfs.thy ===== *)
theory Rootfs
  imports Inode
begin

text \<open>
  Files of the root file system (\<^verbatim>\<open>root_fs_read_write\<close> and the other file operations of
  \<^verbatim>\<open>fs/rootfs.c\<close>): the loop over the blocks of a file, through the block cache or directly.
\<close>

abbreviation (input) O_DIRECT :: u32 where "O_DIRECT \<equiv> 0x80000"

definition upd_filp :: "int \<Rightarrow> (filp \<Rightarrow> filp) \<Rightarrow> 'a fsk_scheme \<Rightarrow> 'a fsk_scheme" where
  "upd_filp f g k = k\<lparr>filps := (filps k)(f := g (filps k f))\<rparr>"

text \<open>The word loop over a buffer; the same loop as the device's.\<close>

definition copy_block :: "bool \<Rightarrow> int \<Rightarrow> addr \<Rightarrow> addr \<Rightarrow> memory \<Rightarrow> memory" where
  "copy_block write_mode len p data m = blk_io_loop write_mode (nat len) p data m"

text \<open>One block: the state after it and the number of words moved.\<close>

definition rw_block :: "int \<Rightarrow> bool \<Rightarrow> int \<Rightarrow> addr \<Rightarrow> int \<Rightarrow> int \<Rightarrow> 'a fsk_scheme \<Rightarrow> ('a fsk_scheme \<times> int) option" where
  "rw_block f write_mode bnr data off len k =
     (if has_flag (filp_flags (filps k f)) O_DIRECT
      then Some (blk_dev_io_read_write data ((off + bnr * BLOCK_SIZE) mod 2 ^ 32) len write_mode k)
      else do {
        (k, buffer) \<leftarrow> get_block_buffer bnr (filp_dev (filps k f)) k;
        buffer \<leftarrow> buffer;
        let k = upd_mem (copy_block write_mode len (block_of k buffer + off) data) k;
        let k = (if write_mode then upd_buf buffer (b_dirt_update (\<lambda>_. True)) k else k);
        (k, _) \<leftarrow> put_block_buffer buffer k;
        Some (k, to_int len) })"

partial_function (option) rw_loop ::
  "int \<Rightarrow> int \<Rightarrow> bool \<Rightarrow> zone_iterator \<Rightarrow> addr \<Rightarrow> int \<Rightarrow> int \<Rightarrow> int \<Rightarrow> 'a fsk_scheme \<Rightarrow> ('a fsk_scheme \<times> zone_iterator \<times> int) option" where
  "rw_loop f ino write_mode iter data off count ret k =
     (if count > 0
      then do {
        (k, more) \<leftarrow> iter_zone_has_next iter k;
        if \<not> more \<and> \<not> write_mode then Some (k, iter, ret)
        else do {
          (k, result) \<leftarrow> (if more then Some (k, 0) else iter_zone_alloc iter k);
          if result < 0 then Some (k, iter, if ret = 0 then result else ret)
          else do {
            (k, iter, bnr) \<leftarrow> iter_zone_get_next iter k;
            let len = (if BLOCK_SIZE - off > count then count else BLOCK_SIZE - off);
            (k, r) \<leftarrow> rw_block f write_mode bnr data off len k;
            if r = 0 then Some (k, iter, ret)
            else do {
              let k = upd_filp f (filp_pos_update (\<lambda>n. (n + r) mod 2 ^ 32)) k;
              let k = (if write_mode then upd_inode ino (i_size_update (\<lambda>n. (n + r) mod 2 ^ 32)) k else k);
              rw_loop f ino write_mode iter (data + r) 0 (count - len) (ret + r) k } } } }
      else Some (k, iter, ret))"

definition root_fs_read_write :: "int \<Rightarrow> addr \<Rightarrow> int \<Rightarrow> int \<Rightarrow> bool \<Rightarrow> 'a fsk_scheme \<Rightarrow> ('a fsk_scheme \<times> int) option" where
  "root_fs_read_write f data count offset write_mode k =
     do { ino \<leftarrow> filp_ino (filps k f);
          let remaining = (i_size (inodes k ino) - offset) mod 2 ^ 32;
          let count = (if write_mode then count else if count < remaining then count else remaining);
          let (k, iter) = iter_zone_init ino (offset div BLOCK_SIZE) k;
          (k, iter, ret) \<leftarrow> rw_loop f ino write_mode iter data (offset mod BLOCK_SIZE) count 0 k;
          Some (fst (iter_zone_close iter k), ret) }"

definition root_fs_read :: "int \<Rightarrow> addr \<Rightarrow> int \<Rightarrow> int \<Rightarrow> 'a fsk_scheme \<Rightarrow> ('a fsk_scheme \<times> int) option" where
  "root_fs_read f data count offset k = root_fs_read_write f data count offset False k"

definition root_fs_write :: "int \<Rightarrow> addr \<Rightarrow> int \<Rightarrow> int \<Rightarrow> 'a fsk_scheme \<Rightarrow> ('a fsk_scheme \<times> int) option" where
  "root_fs_write f data count offset k = root_fs_read_write f data count offset True k"

definition root_fs_open :: "int \<Rightarrow> 'a fsk_scheme \<Rightarrow> ('a fsk_scheme \<times> int) option" where
  "root_fs_open f k = Some (k, 0)"

definition root_fs_close :: "int \<Rightarrow> 'a fsk_scheme \<Rightarrow> ('a fsk_scheme \<times> int) option" where
  "root_fs_close f k =
     (let k = upd_filp f (filp_count_update (\<lambda>c. c - 1)) k in
      if filp_count (filps k f) = 0
      then do { (k, _) \<leftarrow> put_inode (filp_ino (filps k f)) True k;
                ino \<leftarrow> filp_ino (filps k f);
                if i_count (inodes k ino) = 0 \<and> i_nlinks (inodes k ino) = 0
                then do { (k, _) \<leftarrow> release_inode ino k; Some (k, 0) }
                else Some (k, 0) }
      else Some (k, 0))"

definition root_fs_ioctl :: "int \<Rightarrow> int \<Rightarrow> addr \<Rightarrow> 'a fsk_scheme \<Rightarrow> ('a fsk_scheme \<times> int) option" where
  "root_fs_ioctl f request arg k = Some (k, 0)"

end
