(* ===== verification/FileIo.thy ===== *)
theory FileIo
  imports Rootfs Blocks
begin

text \<open>
  Reading and writing the files of the root file system: the block-wise loop of
  \<^verbatim>\<open>root_fs_read_write\<close>, through the zones of the inode and the block cache, is the word-by-word
  transfer between the caller's buffer and the words of the file.
\<close>

section \<open>A file as a sequence of words\<close>

text \<open>Where word \<open>x\<close> of a file is, for the zones that are in the inode itself.\<close>

definition file_addr :: "int \<Rightarrow> 'a fsk_scheme \<Rightarrow> int \<Rightarrow> addr" where
  "file_addr ino k x = rootfs_disk k + (i_zone (inodes k ino) ! nat (x div BLOCK_SIZE)) * BLOCK_SIZE + x mod BLOCK_SIZE"

text \<open>The reference: one word at a time, at the addresses \<open>A x\<close>, \<open>A (x + 1)\<close> and so on.\<close>

primrec io_words :: "bool \<Rightarrow> nat \<Rightarrow> (int \<Rightarrow> addr) \<Rightarrow> int \<Rightarrow> addr \<Rightarrow> memory \<Rightarrow> memory" where
  "io_words wm 0 A x d m = m"
| "io_words wm (Suc n) A x d m = io_words wm n A (x + 1) (d + 1) (if wm then m(A x := m d) else m(d := m (A x)))"

lemma io_words_add: "io_words wm (i + j) A x d m = io_words wm j A (x + int i) (d + int i) (io_words wm i A x d m)"
  by (induction i arbitrary: x d m) (auto simp: ac_simps)

lemma io_words_block:
  "(\<And>i. i < n \<Longrightarrow> A (x + int i) = p + int i) \<Longrightarrow> io_words wm n A x d m = blk_io_loop wm n p d m"
proof (induction n arbitrary: x p d m)
  case (Suc n)
  have "A x = p" using Suc.prems [of 0] by simp
  moreover have "A (x + 1 + int i) = p + 1 + int i" if "i < n" for i using Suc.prems [of "Suc i"] that by (simp add: ac_simps)
  ultimately show ?case using Suc.IH [of "x + 1" "p + 1"] by simp
qed simp

lemma io_words_frame:
  "(\<And>i. i < n \<Longrightarrow> (if wm then A (x + int i) else d + int i) \<noteq> a) \<Longrightarrow> io_words wm n A x d m a = m a"
proof (induction n arbitrary: x d m)
  case (Suc n)
  have "(if wm then A (x + 1 + int i) else d + 1 + int i) \<noteq> a" if "i < n" for i using Suc.prems [of "Suc i"] that by (simp add: ac_simps split: if_splits)
  then have "io_words wm n A (x + 1) (d + 1) m' a = m' a" for m' by (rule Suc.IH)
  with Suc.prems [of 0] show ?case by (simp split: if_splits)
qed simp

lemma io_words_cong: "(\<And>i. i < n \<Longrightarrow> A (x + int i) = B (x + int i)) \<Longrightarrow> io_words wm n A x d m = io_words wm n B x d m"
proof (induction n arbitrary: x d m)
  case (Suc n)
  have "A x = B x" using Suc.prems [of 0] by simp
  moreover have "A (x + 1 + int i) = B (x + 1 + int i)" if "i < n" for i using Suc.prems [of "Suc i"] that by (simp add: ac_simps)
  ultimately show ?case using Suc.IH [of "x + 1"] by simp
qed simp

lemma io_words_read:
  assumes "\<And>i j. i < n \<Longrightarrow> j < n \<Longrightarrow> A (x + int i) \<noteq> d + int j" "i < n"
  shows "io_words False n A x d m (d + int i) = m (A (x + int i))"
  using assms
proof (induction n arbitrary: x d m i)
  case (Suc n)
  have d: "A (x + 1 + int i) \<noteq> d + 1 + int j" if "i < n" "j < n" for i j using Suc.prems(1) [of "Suc i" "Suc j"] that by (simp add: ac_simps)
  have f: "io_words False n A (x + 1) (d + 1) m' d = m' d" for m' by (rule io_words_frame) simp
  show ?case
  proof (cases i)
    case 0
    with f show ?thesis by simp
  next
    case (Suc j)
    with Suc.prems(2) have "j < n" by simp
    have "A (x + int (Suc j)) \<noteq> d" using Suc.prems(1) [of "Suc j" 0] \<open>j < n\<close> by simp
    with Suc.IH [OF d \<open>j < n\<close>] Suc show ?thesis by (simp add: ac_simps)
  qed
qed simp

lemma io_words_write:
  assumes "\<And>i j. i < n \<Longrightarrow> j < n \<Longrightarrow> A (x + int i) \<noteq> d + int j" "inj_on A {x..<x + int n}" "i < n"
  shows "io_words True n A x d m (A (x + int i)) = m (d + int i)"
  using assms
proof (induction n arbitrary: x d m i)
  case (Suc n)
  have d: "A (x + 1 + int i) \<noteq> d + 1 + int j" if "i < n" "j < n" for i j using Suc.prems(1) [of "Suc i" "Suc j"] that by (simp add: ac_simps)
  have inj: "inj_on A {x + 1..<x + 1 + int n}" using Suc.prems(2) by (rule inj_on_subset) auto
  have f: "io_words True n A (x + 1) (d + 1) m' (A x) = m' (A x)" for m'
    by (rule io_words_frame) (use Suc.prems(2) in \<open>auto dest!: inj_onD\<close>)
  show ?case
  proof (cases i)
    case 0
    with f show ?thesis by simp
  next
    case (Suc j)
    with Suc.prems(3) have "j < n" by simp
    have "A x \<noteq> d + int (Suc j)" using Suc.prems(1) [of 0 "Suc j"] \<open>j < n\<close> by simp
    with Suc.IH [OF d inj \<open>j < n\<close>] Suc show ?thesis by (simp add: ac_simps)
  qed
qed simp

section \<open>The loop over the blocks\<close>

text \<open>An open file of the root file system, and words \<open>x\<close> to \<open>x + n\<close> of it within its direct zones.\<close>

definition file_open :: "int \<Rightarrow> int \<Rightarrow> 'a fsk_scheme \<Rightarrow> bool" where
  "file_open f ino k \<longleftrightarrow> filp_ino (filps k f) = Some ino \<and> filp_dev (filps k f) = Some rootfs_dev \<and> \<not> has_flag (filp_flags (filps k f)) O_DIRECT \<and>
     0 \<le> filp_pos (filps k f) \<and> filp_pos (filps k f) < 2 ^ 32 \<and> 0 \<le> i_size (inodes k ino) \<and> i_size (inodes k ino) < 2 ^ 32"

definition file_span :: "int \<Rightarrow> int \<Rightarrow> int \<Rightarrow> 'a fsk_scheme \<Rightarrow> bool" where
  "file_span ino x n k \<longleftrightarrow> length (i_zone (inodes k ino)) = NR_TZONES \<and> 0 \<le> x \<and> x + n \<le> NR_DIRECT_ZONE * BLOCK_SIZE \<and>
     (\<forall>y. x \<le> y \<and> y < x + n \<longrightarrow> block_on_disk (i_zone (inodes k ino) ! nat (y div BLOCK_SIZE)) k)"

text \<open>What a transfer of \<open>n\<close> words leaves.\<close>

definition io_post :: "bool \<Rightarrow> int \<Rightarrow> int \<Rightarrow> int \<Rightarrow> memory \<Rightarrow> 'a fsk_scheme \<Rightarrow> 'a fsk_scheme \<Rightarrow> bool" where
  "io_post wm f ino n m k k' \<longleftrightarrow> kmem k' = m \<and>
     inodes k' = (if wm then (inodes k)(ino := (inodes k ino)\<lparr>i_size := (i_size (inodes k ino) + n) mod 2 ^ 32\<rparr>) else inodes k) \<and>
     filps k' = (filps k)(f := (filps k f)\<lparr>filp_pos := (filp_pos (filps k f) + n) mod 2 ^ 32\<rparr>) \<and>
     root_sb k' = root_sb k \<and> rootfs_disk k' = rootfs_disk k \<and> rootfs_disk_size k' = rootfs_disk_size k \<and> procs k' = procs k"

lemma filp_upd_simps [simp]:
  "kmem (upd_filp f g k) = kmem k" "inodes (upd_filp f g k) = inodes k" "filps (upd_filp f g k) = (filps k)(f := g (filps k f))"
  "root_sb (upd_filp f g k) = root_sb k" "rootfs_disk (upd_filp f g k) = rootfs_disk k" "rootfs_disk_size (upd_filp f g k) = rootfs_disk_size k"
  "procs (upd_filp f g k) = procs k" "bufs (upd_filp f g k) = bufs k" "same_cache (upd_filp f g k) k' = same_cache k k'"
  by (simp_all add: upd_filp_def same_cache_def)

lemma copy_block_eq: "copy_block wm len p data = blk_io_loop wm (nat len) p data"
  by (rule ext) (simp add: copy_block_def)

lemma rw_block_run:
  fixes k :: "'a fsk_scheme"
  assumes "cache_idle k" "file_open f ino k" "block_on_disk bnr k" "0 < len" "len \<le> BLOCK_SIZE"
  shows "\<exists>k'. rw_block f wm bnr data off len k = Some (k', len) \<and> cache_idle k' \<and>
     cache_frame k' (upd_mem (blk_io_loop wm (nat len) (rootfs_disk k + bnr * BLOCK_SIZE + off) data) k)"
proof -
  have dev: "filp_dev (filps k f) = Some rootfs_dev" "\<not> has_flag (filp_flags (filps k f)) O_DIRECT" using assms(2) by (simp_all add: file_open_def)
  obtain k1 b where k1: "get_block_buffer bnr (Some rootfs_dev) k = Some (k1, Some b)" "block_held bnr b k1" "cache_frame k1 k"
    using get_idle [OF assms(1,3)] by blast
  note F = cache_frameD [OF k1(3)]
  define p where "p = rootfs_disk k + bnr * BLOCK_SIZE + off"
  have p: "block_of k1 b + off = p" using k1(2) F(5) by (simp add: block_held_def p_def)
  define k2 where "k2 = upd_mem (blk_io_loop wm (nat len) p data) k1"
  define k3 where "k3 = (if wm then upd_buf b (b_dirt_update (\<lambda>_. True)) k2 else k2)"
  have "same_cache k2 k1" by (simp add: k2_def)
  then have "block_held bnr b k2" by (rule held_same [OF k1(2)])
  then have "block_held bnr b k3" by (simp add: k3_def held_dirt)
  then obtain k' where k': "put_block_buffer b k3 = Some (k', 0)" "cache_idle k'" "cache_frame k' k3" using put_held by blast
  have "rw_block f wm bnr data off len k = Some (k', to_int len)"
    using k1(1) k'(1) by (cases wm) (simp_all add: rw_block_def dev p copy_block_eq Let_def k2_def k3_def)
  moreover have "to_int len = len" using assms(4,5) by (intro to_int_small) auto
  moreover have "cache_frame k3 k2" by (simp add: k3_def)
  moreover have "cache_frame k2 (upd_mem (blk_io_loop wm (nat len) p data) k)" unfolding k2_def by (rule cache_frame_upd [OF k1(3)])
  ultimately show ?thesis using k'(2,3) cache_frame_trans unfolding p_def by metis
qed

lemma direct_zone:
  assumes "length (i_zone (inodes k ino)) = NR_TZONES" "0 \<le> z" "z < NR_DIRECT_ZONE" "zone = i_zone (inodes k ino) ! nat z"
  shows "iter_zone_has_next \<lparr>zi_inode = ino, zi_zone_idx = z\<rparr> k = Some (k, zone \<noteq> 0)"
    "zone \<noteq> 0 \<Longrightarrow> iter_zone_get_next \<lparr>zi_inode = ino, zi_zone_idx = z\<rparr> k = Some (k, \<lparr>zi_inode = ino, zi_zone_idx = z + 1\<rparr>, zone)"
  using assms by (simp_all add: iter_zone_has_next_def iter_zone_get_next_def iter_get_current_zone_def iter_zone_at_def zone_get_def aget_def)

lemma span_addr:
  assumes "0 \<le> off" "off + int i < BLOCK_SIZE"
  shows "file_addr ino k (BLOCK_SIZE * z + off + int i) = rootfs_disk k + (i_zone (inodes k ino) ! nat z) * BLOCK_SIZE + off + int i"
proof -
  have "(BLOCK_SIZE * z + off + int i) div BLOCK_SIZE = z" "(BLOCK_SIZE * z + off + int i) mod BLOCK_SIZE = off + int i"
    using assms by (simp_all add: add.assoc)
  then show ?thesis by (simp add: file_addr_def)
qed

lemma rw_loop_run:
  fixes k :: "'a fsk_scheme"
  assumes "cache_idle k" "file_open f ino k" "file_span ino (BLOCK_SIZE * z + off) count k" "0 \<le> off" "off < BLOCK_SIZE" "0 \<le> count" "0 \<le> z"
  shows "\<exists>k' iter. rw_loop f ino wm \<lparr>zi_inode = ino, zi_zone_idx = z\<rparr> data off count ret k = Some (k', iter, ret + count) \<and> zi_inode iter = ino \<and>
     cache_idle k' \<and> io_post wm f ino count (io_words wm (nat count) (file_addr ino k) (BLOCK_SIZE * z + off) data (kmem k)) k k'"
  using assms
proof (induction "nat count" arbitrary: k z off count data ret rule: less_induct)
  case less
  show ?case
  proof (cases "count = 0")
    case True
    then show ?thesis using less.prems(1,2)
      by (subst rw_loop.simps) (auto simp: io_post_def file_open_def)
  next
    case False
    define len where "len = (if BLOCK_SIZE - off > count then count else BLOCK_SIZE - off)"
    have len: "0 < len" "len \<le> BLOCK_SIZE" "len \<le> count" "off + len \<le> BLOCK_SIZE" using less.prems(4-6) False by (auto simp: len_def)
    define bnr where "bnr = i_zone (inodes k ino) ! nat z"
    have zl: "length (i_zone (inodes k ino)) = NR_TZONES" using less.prems(3) by (simp add: file_span_def)
    have z6: "z < NR_DIRECT_ZONE" using less.prems(3,4,6,7) False by (simp add: file_span_def)
    have "(BLOCK_SIZE * z + off) div BLOCK_SIZE = z" using less.prems(4,5) by simp
    then have bd: "block_on_disk bnr k" using less.prems(3,6) False by (auto simp: file_span_def bnr_def dest!: spec [of _ "BLOCK_SIZE * z + off"])
    then have nz: "bnr \<noteq> 0" by (simp add: block_on_disk_def)
    note zone = direct_zone [OF zl less.prems(7) z6 bnr_def]
    define p where "p = rootfs_disk k + bnr * BLOCK_SIZE + off"
    define m1 where "m1 = blk_io_loop wm (nat len) p data (kmem k)"
    obtain k1 where k1: "rw_block f wm bnr data off len k = Some (k1, len)" "cache_idle k1" "cache_frame k1 (upd_mem (blk_io_loop wm (nat len) p data) k)"
      using rw_block_run [OF less.prems(1,2) bd len(1,2)] unfolding p_def by blast
    note F = cache_frameD [OF k1(3)]
    define k2 where "k2 = upd_filp f (filp_pos_update (\<lambda>n. (n + len) mod 2 ^ 32)) k1"
    define k3 where "k3 = (if wm then upd_inode ino (i_size_update (\<lambda>n. (n + len) mod 2 ^ 32)) k2 else k2)"
    have post3: "io_post wm f ino len m1 k k3"
      by (simp add: io_post_def k3_def k2_def F m1_def) (cases "filps k f"; cases "inodes k ino"; simp)
    have idle3: "cache_idle k3" using k1(2) idle_same [of k3 k1] by (simp add: k3_def k2_def)
    have open3: "file_open f ino k3" using less.prems(2) post3 by (auto simp: file_open_def io_post_def split: if_splits)
    have zones3: "i_zone (inodes k3 ino) = i_zone (inodes k ino)" using post3 by (simp add: io_post_def)
    have bd3: "block_on_disk b k3 = block_on_disk b k" for b using post3 by (simp add: block_on_disk_def io_post_def)
    have span3: "file_span ino (BLOCK_SIZE * (z + 1)) (count - len) k3"
    proof (cases "count = len")
      case True
      then show ?thesis using less.prems(7) z6 by (auto simp: file_span_def zones3 zl)
    next
      case ne: False
      then have "BLOCK_SIZE * (z + 1) = BLOCK_SIZE * z + off + len" by (auto simp: len_def split: if_splits)
      then show ?thesis using less.prems(3) len by (auto simp: file_span_def zones3 bd3)
    qed
    have less_len: "nat (count - len) < nat count" using len by simp
    obtain k' iter where k': "rw_loop f ino wm \<lparr>zi_inode = ino, zi_zone_idx = z + 1\<rparr> (data + len) 0 (count - len) (ret + len) k3 =
        Some (k', iter, ret + len + (count - len))" "zi_inode iter = ino" "cache_idle k'"
      "io_post wm f ino (count - len) (io_words wm (nat (count - len)) (file_addr ino k3) (BLOCK_SIZE * (z + 1) + 0) (data + len) (kmem k3)) k3 k'"
      using less.hyps [OF less_len idle3 open3, of "z + 1" 0 "data + len" "ret + len"] span3 len less.prems(7) by auto
    have run: "rw_loop f ino wm \<lparr>zi_inode = ino, zi_zone_idx = z\<rparr> data off count ret k = Some (k', iter, ret + count)"
      using less.prems(6) False len(1) k'(1) k1(1)
      by (subst rw_loop.simps, cases wm) (simp_all add: zone(1) zone(2) [OF nz] nz len_def [symmetric] Let_def k2_def k3_def)
    have A: "file_addr ino k3 = file_addr ino k" using zones3 post3 by (simp add: file_addr_def io_post_def fun_eq_iff)
    have "io_words wm (nat count) (file_addr ino k) (BLOCK_SIZE * z + off) data (kmem k) =
        io_words wm (nat (count - len)) (file_addr ino k) (BLOCK_SIZE * z + off + len) (data + len) m1"
    proof -
      have "nat count = nat len + nat (count - len)" using len by simp
      then have "io_words wm (nat count) (file_addr ino k) (BLOCK_SIZE * z + off) data (kmem k) =
          io_words wm (nat (count - len)) (file_addr ino k) (BLOCK_SIZE * z + off + len) (data + len)
            (io_words wm (nat len) (file_addr ino k) (BLOCK_SIZE * z + off) data (kmem k))"
        using len(1) by (simp only: io_words_add) simp
      moreover have "io_words wm (nat len) (file_addr ino k) (BLOCK_SIZE * z + off) data (kmem k) = m1"
        unfolding m1_def p_def bnr_def by (rule io_words_block, rule span_addr) (use len less.prems(4) in auto)
      ultimately show ?thesis by simp
    qed
    also have "\<dots> = io_words wm (nat (count - len)) (file_addr ino k) (BLOCK_SIZE * (z + 1)) (data + len) m1"
      by (cases "count = len") (auto simp: len_def split: if_splits)
    finally have mem: "kmem k' = io_words wm (nat count) (file_addr ino k) (BLOCK_SIZE * z + off) data (kmem k)"
      using k'(4) post3 A by (simp add: io_post_def)
    have "io_post wm f ino count (io_words wm (nat count) (file_addr ino k) (BLOCK_SIZE * z + off) data (kmem k)) k k'"
      using k'(4) post3 unfolding io_post_def by (auto simp: mem [symmetric] mod_add_left_eq)
    with run k' show ?thesis by blast
  qed
qed

lemma file_cong:
  assumes "i_zone (inodes k' ino) = i_zone (inodes k ino)" "rootfs_disk k' = rootfs_disk k" "rootfs_disk_size k' = rootfs_disk_size k"
  shows "file_addr ino k' = file_addr ino k" "file_span ino x n k' = file_span ino x n k"
  using assms by (simp_all add: file_addr_def fun_eq_iff file_span_def block_on_disk_def)

lemma root_fs_rw_run:
  fixes k :: "'a fsk_scheme"
  assumes "cache_idle k" "file_open f ino k" "0 \<le> offset" "0 \<le> count"
    and n: "n = (if wm then count else min count (i_size (inodes k ino) - offset))" and "wm \<or> offset \<le> i_size (inodes k ino)"
    and "file_span ino offset n k"
  shows "\<exists>k'. root_fs_read_write f data count offset wm k = Some (k', n) \<and> cache_idle k' \<and>
     io_post wm f ino n (io_words wm (nat n) (file_addr ino k) offset data (kmem k)) k k'"
proof -
  define k0 where "k0 = upd_inode ino (i_count_update (\<lambda>c. c + 1)) k"
  have s0: "i_zone (inodes k0 ino) = i_zone (inodes k ino)" "rootfs_disk k0 = rootfs_disk k" "rootfs_disk_size k0 = rootfs_disk_size k" "kmem k0 = kmem k"
    by (simp_all add: k0_def)
  have n0: "0 \<le> n" using n assms(4,6) by (auto simp: min_def)
  have idle0: "cache_idle k0" using assms(1) idle_same [of k0 k] by (simp add: k0_def)
  have open0: "file_open f ino k0" using assms(2) by (simp add: file_open_def k0_def)
  have x: "BLOCK_SIZE * (offset div BLOCK_SIZE) + offset mod BLOCK_SIZE = offset" by simp
  have span0: "file_span ino (BLOCK_SIZE * (offset div BLOCK_SIZE) + offset mod BLOCK_SIZE) n k0" unfolding x using assms(7) file_cong(2) [OF s0(1-3)] by simp
  obtain k1 iter where k1: "rw_loop f ino wm \<lparr>zi_inode = ino, zi_zone_idx = offset div BLOCK_SIZE\<rparr> data (offset mod BLOCK_SIZE) n 0 k0 = Some (k1, iter, 0 + n)"
    "zi_inode iter = ino" "cache_idle k1" "io_post wm f ino n (io_words wm (nat n) (file_addr ino k) offset data (kmem k)) k0 k1"
    using rw_loop_run [OF idle0 open0 span0 _ _ n0, of wm data 0] assms(3) unfolding x file_cong(1) [OF s0(1-3)] s0(4) by (auto simp: pos_imp_zdiv_nonneg_iff)
  define k' where "k' = upd_inode ino (i_count_update (\<lambda>c. c - 1)) k1"
  have ino: "filp_ino (filps k f) = Some ino" "0 \<le> i_size (inodes k ino)" "i_size (inodes k ino) < 2 ^ 32" using assms(2) by (simp_all add: file_open_def)
  have cnt: "(if wm then count else if count < (i_size (inodes k ino) - offset) mod 2 ^ 32 then count else (i_size (inodes k ino) - offset) mod 2 ^ 32) = n"
    using n assms(3,6) ino(2,3) by (cases wm) (auto simp: min_def)
  have "root_fs_read_write f data count offset wm k = Some (k', n)"
    unfolding root_fs_read_write_def using k1(1)
    by (simp only: ino Option.bind.bind_lunit Let_def cnt) (simp add: iter_zone_init_def k0_def [symmetric] iter_zone_close_def k1(2) k'_def)
  moreover have "cache_idle k'" using k1(3) idle_same [of k' k1] by (simp add: k'_def)
  moreover have "io_post wm f ino n (io_words wm (nat n) (file_addr ino k) offset data (kmem k)) k k'"
    using k1(4) by (cases "inodes k ino") (simp add: io_post_def k'_def k0_def fun_upd_idem split: if_splits)
  ultimately show ?thesis by blast
qed

section \<open>Properties\<close>

text \<open>
  C4. Reading and writing a file block by block, through its zones and the block cache, is
  equivalent to moving one word after the other between the caller's buffer and the words of the
  file: the same memory, the file position advanced by the number of words moved, and that number
  is what was asked for, for reading limited to the rest of the file. Nothing else changes, except
  that every write adds its length to the size of the file, wherever in the file it was.
\<close>

theorem root_fs_rw_words:
  fixes k :: "'a fsk_scheme"
  assumes "cache_idle k" "file_open f ino k" "0 \<le> offset" "0 \<le> count"
    and "n = (if wm then count else min count (i_size (inodes k ino) - offset))" "wm \<or> offset \<le> i_size (inodes k ino)"
    and "file_span ino offset n k"
  shows "\<exists>k'. root_fs_read_write f data count offset wm k = Some (k', n) \<and> cache_idle k' \<and>
     kmem k' = io_words wm (nat n) (file_addr ino k) offset data (kmem k) \<and>
     filps k' = (filps k)(f := (filps k f)\<lparr>filp_pos := (filp_pos (filps k f) + n) mod 2 ^ 32\<rparr>) \<and>
     inodes k' = (if wm then (inodes k)(ino := (inodes k ino)\<lparr>i_size := (i_size (inodes k ino) + n) mod 2 ^ 32\<rparr>) else inodes k)"
  using root_fs_rw_run [OF assms, of data] unfolding io_post_def by blast

definition off_disk :: "addr \<Rightarrow> int \<Rightarrow> 'a fsk_scheme \<Rightarrow> bool" where
  "off_disk a n k \<longleftrightarrow> a + n \<le> rootfs_disk k \<or> rootfs_disk k + rootfs_disk_size k + BLOCK_SIZE \<le> a"

lemma file_addr_range:
  assumes "file_span ino x n k" "x \<le> y" "y < x + n"
  shows "rootfs_disk k \<le> file_addr ino k y" "file_addr ino k y < rootfs_disk k + rootfs_disk_size k + BLOCK_SIZE"
proof -
  have "block_on_disk (i_zone (inodes k ino) ! nat (y div BLOCK_SIZE)) k" using assms by (simp add: file_span_def)
  moreover have "0 \<le> y mod BLOCK_SIZE" "y mod BLOCK_SIZE < BLOCK_SIZE" by simp_all
  ultimately show "rootfs_disk k \<le> file_addr ino k y" "file_addr ino k y < rootfs_disk k + rootfs_disk_size k + BLOCK_SIZE"
    unfolding file_addr_def block_on_disk_def by linarith+
qed

lemma block_split_inj:
  fixes a b r s :: int
  shows "a * BLOCK_SIZE + r = b * BLOCK_SIZE + s \<Longrightarrow> 0 \<le> r \<Longrightarrow> r < BLOCK_SIZE \<Longrightarrow> 0 \<le> s \<Longrightarrow> s < BLOCK_SIZE \<Longrightarrow> a = b \<and> r = s"
  by (cases a b rule: linorder_cases) linarith+

lemma file_addr_inj:
  assumes "file_span ino x n k" "distinct (take 6 (i_zone (inodes k ino)))"
  shows "inj_on (file_addr ino k) {x..<x + n}"
proof (rule inj_onI)
  fix y y' assume y: "y \<in> {x..<x + n}" "y' \<in> {x..<x + n}" "file_addr ino k y = file_addr ino k y'"
  let ?z = "\<lambda>y. i_zone (inodes k ino) ! nat (y div BLOCK_SIZE)"
  have e: "?z y * BLOCK_SIZE + y mod BLOCK_SIZE = ?z y' * BLOCK_SIZE + y' mod BLOCK_SIZE" using y(3) by (simp add: file_addr_def)
  have zm: "?z y = ?z y'" "y mod BLOCK_SIZE = y' mod BLOCK_SIZE" using block_split_inj [OF e] by simp_all
  have b: "0 \<le> v div BLOCK_SIZE \<and> v div BLOCK_SIZE < 6" if "v \<in> {x..<x + n}" for v
    using assms(1) that by (auto simp: file_span_def pos_imp_zdiv_nonneg_iff div_less_iff_less_mult)
  have l: "length (i_zone (inodes k ino)) = 8" using assms(1) by (simp add: file_span_def)
  have "nat (y div BLOCK_SIZE) = nat (y' div BLOCK_SIZE)"
    using nth_eq_iff_index_eq [OF assms(2), of "nat (y div BLOCK_SIZE)" "nat (y' div BLOCK_SIZE)"] b [OF y(1)] b [OF y(2)] l zm(1) by (simp add: nat_less_iff)
  then have "y div BLOCK_SIZE = y' div BLOCK_SIZE" using b [OF y(1)] b [OF y(2)] by linarith
  then have "y div BLOCK_SIZE * BLOCK_SIZE + y mod BLOCK_SIZE = y' div BLOCK_SIZE * BLOCK_SIZE + y' mod BLOCK_SIZE" by (simp only: zm(2))
  then show "y = y'" by (simp only: div_mult_mod_eq)
qed

text \<open>
  C5. What is written to a file is read back: after writing \<open>count\<close> words at \<open>offset\<close>, reading as
  many from there into another buffer gives the words written, from any buffers outside the disk.
\<close>

theorem root_fs_write_read:
  fixes k :: "'a fsk_scheme"
  assumes "cache_idle k" "file_open f ino k" "0 \<le> offset" "0 \<le> count" "offset \<le> i_size (inodes k ino)" "i_size (inodes k ino) + count < 2 ^ 32"
    and "file_span ino offset count k" "distinct (take 6 (i_zone (inodes k ino)))" "off_disk data count k" "off_disk data2 count k"
  shows "\<exists>k1 k2. root_fs_write f data count offset k = Some (k1, count) \<and> root_fs_read f data2 count offset k1 = Some (k2, count) \<and>
     mem_words (kmem k2) data2 (nat count) = mem_words (kmem k) data (nat count) \<and> i_size (inodes k2 ino) = i_size (inodes k ino) + count"
proof -
  let ?A = "file_addr ino k"
  obtain k1 where k1: "root_fs_write f data count offset k = Some (k1, count)" "cache_idle k1"
    and p1: "io_post True f ino count (io_words True (nat count) ?A offset data (kmem k)) k k1"
    using root_fs_rw_run [OF assms(1-4), of count True] assms(7) by (auto simp: root_fs_write_def)
  have s1: "i_zone (inodes k1 ino) = i_zone (inodes k ino)" "rootfs_disk k1 = rootfs_disk k" "rootfs_disk_size k1 = rootfs_disk_size k"
    "i_size (inodes k1 ino) = i_size (inodes k ino) + count" using p1 assms(2,4,6) by (auto simp: io_post_def file_open_def)
  have o1: "file_open f ino k1" using p1 assms(2) by (auto simp: file_open_def io_post_def)
  have n: "count = (if False then count else min count (i_size (inodes k1 ino) - offset))" using assms(5) s1(4) by simp
  have "file_span ino offset count k1" using assms(7) file_cong(2) [OF s1(1-3)] by simp
  then obtain k2 where k2: "root_fs_read f data2 count offset k1 = Some (k2, count)"
    and p2: "io_post False f ino count (io_words False (nat count) ?A offset data2 (kmem k1)) k1 k2"
    using root_fs_rw_run [OF k1(2) o1 assms(3,4) n] assms(5) s1(4) assms(4) file_cong(1) [OF s1(1-3)] by (auto simp: root_fs_read_def)
  have dj: "?A (offset + int i) \<noteq> a + int j" if "i < nat count" "j < nat count" "off_disk a count k" for i j a
  proof -
    have "int i < count" "int j < count" using that(1,2) by linarith+
    then show ?thesis using file_addr_range [OF assms(7), of "offset + int i"] that(3) by (auto simp: off_disk_def)
  qed
  have inj: "inj_on ?A {offset..<offset + int (nat count)}" using file_addr_inj [OF assms(7,8)] assms(4) by simp
  have "mem_words (kmem k2) data2 (nat count) = mem_words (kmem k) data (nat count)"
  proof (rule mem_words_eqI)
    fix i assume i: "i < nat count"
    have "kmem k2 (data2 + int i) = kmem k1 (?A (offset + int i))" using p2 io_words_read [of "nat count" ?A offset data2 i "kmem k1"] dj [OF _ _ assms(10)] i by (simp add: io_post_def)
    also have "\<dots> = kmem k (data + int i)" using p1 io_words_write [of "nat count" ?A offset data i "kmem k"] dj [OF _ _ assms(9)] inj i by (simp add: io_post_def)
    finally show "kmem k2 (data2 + int i) = kmem k (data + int i)" .
  qed
  moreover have "i_size (inodes k2 ino) = i_size (inodes k ino) + count" using p2 s1(4) by (simp add: io_post_def)
  ultimately show ?thesis using k1(1) k2 by blast
qed

text \<open>A file with two zones on a disk of forty blocks.\<close>

definition file_demo :: "fsk \<Rightarrow> bool" where
  "file_demo k \<longleftrightarrow> cache_idle k \<and> file_open 4 0 k \<and> rootfs_disk k = 0 \<and> rootfs_disk_size k = 40960 \<and>
     i_zone (inodes k 0) = [20, 21, 22, 23, 24, 25, 0, 0] \<and> i_size (inodes k 0) = 1000"

lemma file_demo: "\<exists>k. file_demo k"
proof -
  fix k0 :: fsk
  define k where "k = k0\<lparr>rootfs_disk := 0, rootfs_disk_size := 40960, inodes := \<lambda>_. inode_zero\<lparr>i_zone := [20, 21, 22, 23, 24, 25, 0, 0], i_size := 1000\<rparr>,
    filps := \<lambda>_. filp_zero\<lparr>filp_ino := Some 0, filp_dev := Some rootfs_dev\<rparr>\<rparr>"
  obtain k' where k': "init_buf k = Some k'" "cache_inv k' [0, 1, 2, 3]" "cache_frame k' k" using init_buf_run by blast
  note F = cache_frameD [OF k'(3)]
  have sz: "rootfs_disk_size k' = 40960" using F(6) by (simp add: k_def)
  then have "cache_idle k'" using k'(2) by (auto simp: cache_idle_def intro!: exI [of _ "[0, 1, 2, 3]"])
  then have "file_demo k'" unfolding file_demo_def file_open_def using sz by (simp add: F) (simp add: k_def filp_zero_def has_flag_def)
  then show ?thesis ..
qed

lemma file_demo_span: "file_demo k \<Longrightarrow> 0 \<le> x \<Longrightarrow> x + n \<le> 1536 \<Longrightarrow> file_span 0 x n k"
proof -
  assume d: "file_demo k" "0 \<le> x" "x + n \<le> 1536"
  have "block_on_disk (i_zone (inodes k 0) ! nat z) k" if "0 \<le> z" "z < 6" for z
  proof -
    from that have "z = 0 \<or> z = 1 \<or> z = 2 \<or> z = 3 \<or> z = 4 \<or> z = 5" by auto
    with d(1) show ?thesis by (auto simp: file_demo_def block_on_disk_def)
  qed
  with d show ?thesis by (auto simp: file_span_def file_demo_def pos_imp_zdiv_nonneg_iff div_less_iff_less_mult)
qed

theorem root_fs_rw_words_witness:
  "\<exists>(k :: fsk) k'. root_fs_read_write 4 90000 600 200 False k = Some (k', 600) \<and>
     kmem k' = io_words False 600 (file_addr 0 k) 200 90000 (kmem k)"
proof -
  obtain k where d: "file_demo k" using file_demo ..
  then have k: "cache_idle k" "file_open 4 0 k" "i_size (inodes k 0) = 1000" by (simp_all add: file_demo_def)
  have "file_span 0 200 600 k" by (rule file_demo_span [OF d]) simp_all
  with root_fs_rw_words [OF k(1,2), of 200 600 600 False 90000] k(3) show ?thesis by - (rule exI [of _ k], auto)
qed

theorem root_fs_write_read_witness:
  "\<exists>(k :: fsk) k1 k2. root_fs_write 4 90000 600 200 k = Some (k1, 600) \<and> root_fs_read 4 95000 600 200 k1 = Some (k2, 600) \<and>
     mem_words (kmem k2) 95000 600 = mem_words (kmem k) 90000 600 \<and> i_size (inodes k 0) = 1000 \<and> i_size (inodes k2 0) = 1600"
proof -
  obtain k where d: "file_demo k" using file_demo ..
  then have k: "cache_idle k" "file_open 4 0 k" "i_size (inodes k 0) = 1000" "distinct (take 6 (i_zone (inodes k 0)))"
    "off_disk 90000 600 k" "off_disk 95000 600 k" by (simp_all add: file_demo_def off_disk_def)
  have "file_span 0 200 600 k" by (rule file_demo_span [OF d]) simp_all
  from root_fs_write_read [OF k(1,2) _ _ _ _ this k(4-6)] k(3) show ?thesis by - (rule exI [of _ k], auto)
qed

end
