(* ===== verification/Path.thy ===== *)
theory Path
  imports Inode
begin

text \<open>
  Path names (\<^verbatim>\<open>fs/path.c\<close>): splitting off a component, looking it up in a directory and walking
  a path. Strings are addresses in memory; \<open>kstring\<close> is where the local array of a component
  name lives.
\<close>

abbreviation (input) PATH_MAX :: int where "PATH_MAX \<equiv> 128"
abbreviation (input) slash :: int where "slash \<equiv> 47"
abbreviation (input) ROOT_INODE_NUM :: int where "ROOT_INODE_NUM \<equiv> 1"
abbreviation (input) ROOT_DEV :: int where "ROOT_DEV \<equiv> 0x101"
abbreviation (input) OPEN_MAX :: int where "OPEN_MAX \<equiv> 16"

section \<open>Components\<close>

partial_function (option) skip_leading :: "memory \<Rightarrow> addr \<Rightarrow> addr option" where
  "skip_leading m rnp = (if m rnp = slash then skip_leading m (rnp + 1) else Some rnp)"

function copy_component :: "addr \<Rightarrow> addr \<Rightarrow> addr \<Rightarrow> addr \<Rightarrow> memory \<Rightarrow> memory \<times> addr \<times> addr" where
  "copy_component lim slim np rnp m =
     (if rnp < lim \<and> m rnp \<noteq> slash \<and> m rnp \<noteq> 0
      then (if np < slim then copy_component lim slim (np + 1) (rnp + 1) (m(np := m rnp))
            else copy_component lim slim np (rnp + 1) m)
      else (m, np, rnp))"
  by pat_completeness auto
termination
  by (relation "measure (\<lambda>(lim, slim, np, rnp, m). nat (lim - rnp))") auto

declare copy_component.simps [simp del]

function skip_trailing :: "addr \<Rightarrow> memory \<Rightarrow> addr \<Rightarrow> addr" where
  "skip_trailing lim m rnp = (if m rnp = slash \<and> rnp < lim then skip_trailing lim m (rnp + 1) else rnp)"
  by pat_completeness auto
termination
  by (relation "measure (\<lambda>(lim, m, rnp). nat (lim - rnp))") auto

declare skip_trailing.simps [simp del]

definition get_name :: "addr \<Rightarrow> addr \<Rightarrow> memory \<Rightarrow> (memory \<times> addr) option" where
  "get_name old_name string m =
     do { rnp \<leftarrow> skip_leading m old_name;
          let (m, np, rnp) = copy_component (old_name + PATH_MAX) (string + WINIX_NAME_LEN) string rnp m;
          let rnp = skip_trailing (old_name + PATH_MAX) m rnp;
          let m = (if np < string + WINIX_NAME_LEN then m(np := 0) else m);
          Some (m, if rnp \<ge> old_name + PATH_MAX then NULL else rnp) }"

section \<open>Looking up\<close>

definition name_is :: "addr \<Rightarrow> 'a fsk_scheme \<Rightarrow> addr \<Rightarrow> bool option" where
  "name_is string k cur = do { c \<leftarrow> char32_strcmp (kmem k) (d_name cur) string; Some (c = 0) }"

definition advance :: "int \<Rightarrow> addr \<Rightarrow> 'a fsk_scheme \<Rightarrow> ('a fsk_scheme \<times> int) option" where
  "advance dirp string k =
     (if kmem k string = 0 then Some (k, - EINVAL)
      else do { (k, iter) \<leftarrow> iter_dirent_init dirp 0 0 False k;
                (k, iter, cur) \<leftarrow> find_dirent (name_is string) iter k;
                let ret = (if cur = NULL then - EINVAL else kmem k (d_ino cur));
                (k, _) \<leftarrow> iter_dirent_close iter k;
                Some (k, ret) })"

definition get_parent_inode_num :: "addr \<Rightarrow> int \<Rightarrow> 'a fsk_scheme \<Rightarrow> ('a fsk_scheme \<times> int) option" where
  "get_parent_inode_num dot2 dirp k =
     do { (k, iter) \<leftarrow> iter_dirent_init dirp 0 0 False k;
          (k, iter, cur) \<leftarrow> find_dirent (name_is dot2) iter k;
          let ret = (if cur = NULL then - EINVAL else kmem k (d_ino cur));
          (k, _) \<leftarrow> iter_dirent_close iter k;
          Some (k, ret) }"

definition get_child_inode_name :: "int \<Rightarrow> int \<Rightarrow> addr \<Rightarrow> 'a fsk_scheme \<Rightarrow> ('a fsk_scheme \<times> int) option" where
  "get_child_inode_name parent child string k =
     do { (k, iter) \<leftarrow> iter_dirent_init parent 0 0 False k;
          (k, iter, cur) \<leftarrow> find_dirent (\<lambda>k cur. Some (kmem k (d_ino cur) = i_num (inodes k child))) iter k;
          (k, ret) \<leftarrow>
            (if cur = NULL then Some (k, - EINVAL)
             else do { len \<leftarrow> char32_strlen (kmem k) (d_name cur);
                       Some (upd_mem (char32_strlcpy2 string (d_name cur) (len + 1)) k, len) });
          (k, _) \<leftarrow> iter_dirent_close iter k;
          Some (k, ret) }"

text \<open>
  \<^verbatim>\<open>__eath_path\<close>: the result code with the last directory and the inode found, each null when it
  was not set.
\<close>

partial_function (option) eath_path_loop ::
  "int option \<Rightarrow> int \<Rightarrow> addr \<Rightarrow> addr \<Rightarrow> 'a fsk_scheme \<Rightarrow> ('a fsk_scheme \<times> int \<times> int option \<times> int option) option" where
  "eath_path_loop dev rip path string k =
     do { (m, component_name) \<leftarrow> get_name path string (kmem k);
          let k = upd_mem (\<lambda>_. m) k;
          if component_name = NULL then Some (k, - ENOENT, None, None)
          else if kmem k component_name = 0
          then (if i_mode (inodes k rip) AND S_IFDIR \<noteq> 0
                then do { (k, inum) \<leftarrow> advance rip string k;
                          if inum = - EINVAL then Some (k, 0, Some rip, None)
                          else do { (k, new_rip) \<leftarrow> get_inode inum (i_dev (inodes k rip)) k; Some (k, 0, Some rip, new_rip) } }
                else Some (k, - ENOTDIR, None, None))
          else if i_mode (inodes k rip) AND S_IFDIR = 0 then Some (k, - ENOTDIR, None, None)
          else do {
            (k, inum) \<leftarrow> advance rip string k;
            if inum = - EINVAL then Some (k, 0, None, None)
            else do {
              (k, _) \<leftarrow> put_inode (Some rip) False k;
              (k, new_rip) \<leftarrow> get_inode inum dev k;
              if new_rip = None then None else eath_path_loop dev (the new_rip) component_name string k } } }"

definition eath_path :: "int \<Rightarrow> addr \<Rightarrow> addr \<Rightarrow> 'a fsk_scheme \<Rightarrow> ('a fsk_scheme \<times> int \<times> int option \<times> int option) option" where
  "eath_path cur_ino path string k =
     (if i_nlinks (inodes k cur_ino) = 0 \<or> kmem k path = 0 then Some (k, - ENOENT, None, None)
      else eath_path_loop (i_dev (inodes k cur_ino)) cur_ino path string k)"

definition eat_path :: "int \<Rightarrow> addr \<Rightarrow> addr \<Rightarrow> 'a fsk_scheme \<Rightarrow> ('a fsk_scheme \<times> int \<times> int option \<times> int option) option" where
  "eat_path who path string k =
     do { k \<leftarrow>
            (if p_fp_workdir (procs k who) = None \<or> p_fp_rootdir (procs k who) = None
             then do { (k, d) \<leftarrow> get_inode ROOT_INODE_NUM (get_dev ROOT_DEV k) k;
                       Some (upd_proc who (\<lambda>r. r\<lparr>p_fp_workdir := d, p_fp_rootdir := d\<rparr>) k) }
             else Some k);
          cur_dir \<leftarrow> (if kmem k path = slash then p_fp_rootdir (procs k who) else p_fp_workdir (procs k who));
          let k = upd_inode cur_dir (i_count_update (\<lambda>c. c + 1)) k;
          (k, ret, last_dir, ret_ino) \<leftarrow> eath_path cur_dir path string k;
          Some (k, if last_dir = None then - ENOENT else ret, last_dir, ret_ino) }"

definition get_inode_by_path :: "int \<Rightarrow> addr \<Rightarrow> 'a fsk_scheme \<Rightarrow> ('a fsk_scheme \<times> int \<times> int option) option" where
  "get_inode_by_path who path k =
     do { (k, ret, lastdir, inode) \<leftarrow> eat_path who path (kstring k) k;
          (k, _) \<leftarrow> put_inode lastdir False k;
          Some (k, ret, inode) }"

definition is_fd_opened_and_valid :: "int \<Rightarrow> int \<Rightarrow> 'a kernel_scheme \<Rightarrow> bool option" where
  "is_fd_opened_and_valid who fd k =
     (if fd < 0 \<or> fd \<ge> OPEN_MAX then Some False
      else do { f \<leftarrow> aget (p_fp_filp (procs k who)) fd; Some (f \<noteq> None) })"

section \<open>Splitting off a component\<close>

lemma skip_leading_run:
  "(\<And>j. j < i \<Longrightarrow> m (a + int j) = slash) \<Longrightarrow> m (a + int i) \<noteq> slash \<Longrightarrow> skip_leading m a = Some (a + int i)"
proof (induction i arbitrary: a)
  case 0
  then show ?case by (subst skip_leading.simps) simp
next
  case (Suc i)
  have "m a = slash" using Suc.prems(1) [of 0] by simp
  moreover have "m (a + 1 + int j) = slash" if "j < i" for j using Suc.prems(1) [of "Suc j"] that by (simp add: ac_simps)
  then have "skip_leading m (a + 1) = Some (a + 1 + int i)" using Suc.prems(2) by (intro Suc.IH) (simp_all add: ac_simps)
  ultimately show ?case by (subst skip_leading.simps) (simp add: ac_simps)
qed

lemma skip_trailing_run:
  "(\<And>j. j < i \<Longrightarrow> m (a + int j) = slash) \<Longrightarrow> m (a + int i) \<noteq> slash \<Longrightarrow> a + int i < lim \<Longrightarrow> skip_trailing lim m a = a + int i"
proof (induction i arbitrary: a)
  case 0
  then show ?case by (subst skip_trailing.simps) simp
next
  case (Suc i)
  have "m a = slash" using Suc.prems(1) [of 0] by simp
  moreover have "m (a + 1 + int j) = slash" if "j < i" for j using Suc.prems(1) [of "Suc j"] that by (simp add: ac_simps)
  then have "skip_trailing lim m (a + 1) = a + 1 + int i" using Suc.prems(2,3) by (intro Suc.IH) (simp_all add: ac_simps)
  ultimately show ?case using Suc.prems(3) by (subst skip_trailing.simps) (simp add: ac_simps)
qed

text \<open>The part of the component that fits is copied; the source is not in the target.\<close>

lemma copy_component_run:
  assumes "\<And>j. j < n \<Longrightarrow> m (a + int j) \<noteq> slash \<and> m (a + int j) \<noteq> 0" "m (a + int n) = slash \<or> m (a + int n) = 0"
    and "a + int n < lim" "np \<le> slim" "\<And>x. np \<le> x \<Longrightarrow> x < slim \<Longrightarrow> x < a \<or> a + int n < x" "c = min (int n) (slim - np)"
  shows "\<exists>m'. copy_component lim slim np a m = (m', np + c, a + int n) \<and>
     (\<forall>x. m' x = (if np \<le> x \<and> x < np + c then m (a + (x - np)) else m x))"
  using assms
proof (induction n arbitrary: a np m c)
  case 0
  then show ?case by (subst copy_component.simps) auto
next
  case (Suc n)
  have ch: "m a \<noteq> slash \<and> m a \<noteq> 0" using Suc.prems(1) [of 0] by simp
  have rest: "m (a + 1 + int j) \<noteq> slash \<and> m (a + 1 + int j) \<noteq> 0" if "j < n" for j using Suc.prems(1) [of "Suc j"] that by (simp add: ac_simps)
  have stop: "m (a + 1 + int n) = slash \<or> m (a + 1 + int n) = 0" using Suc.prems(2) by (simp add: ac_simps)
  show ?case
  proof (cases "np < slim")
    case True
    define m1 where "m1 = m(np := m a)"
    have np: "np < a \<or> a + int (Suc n) < np" using Suc.prems(5) [of np] True by simp
    have eq: "m1 (a + 1 + int j) = m (a + 1 + int j)" if "j \<le> n" for j using np that by (auto simp: m1_def)
    have out: "x < a + 1 \<or> a + 1 + int n < x" if "np + 1 \<le> x" "x < slim" for x using Suc.prems(5) [of x] that by auto
    define c1 where "c1 = min (int n) (slim - (np + 1))"
    have "\<exists>m'. copy_component lim slim (np + 1) (a + 1) m1 = (m', np + 1 + c1, a + 1 + int n) \<and>
       (\<forall>x. m' x = (if np + 1 \<le> x \<and> x < np + 1 + c1 then m1 (a + 1 + (x - (np + 1))) else m1 x))"
      by (rule Suc.IH) (use eq rest stop Suc.prems(3) True out c1_def in auto)
    then obtain m' where m': "copy_component lim slim (np + 1) (a + 1) m1 = (m', np + 1 + c1, a + 1 + int n)"
       "\<And>x. m' x = (if np + 1 \<le> x \<and> x < np + 1 + c1 then m1 (a + 1 + (x - (np + 1))) else m1 x)" by blast
    have "0 \<le> c1" using True by (simp add: c1_def)
    have c: "c = 1 + c1" using Suc.prems(6) True by (auto simp: c1_def min_def)
    have "m' x = (if np \<le> x \<and> x < np + c then m (a + (x - np)) else m x)" for x
    proof -
      have "m1 (a + (x - np)) = m (a + (x - np))" if "np + 1 \<le> x" "x < np + 1 + c1"
        using eq [of "nat (x - np - 1)"] that by (simp add: c1_def)
      then show ?thesis using m'(2) [of x] c \<open>0 \<le> c1\<close> by (auto simp: m1_def)
    qed
    moreover have "copy_component lim slim np a m = (m', np + c, a + int (Suc n))"
      using ch Suc.prems(3) True m'(1) c by (subst copy_component.simps) (simp add: m1_def ac_simps)
    ultimately show ?thesis by blast
  next
    case False
    have "\<exists>m'. copy_component lim slim np (a + 1) m = (m', np + 0, a + 1 + int n) \<and>
       (\<forall>x. m' x = (if np \<le> x \<and> x < np + 0 then m (a + 1 + (x - np)) else m x))"
      by (rule Suc.IH) (use rest stop Suc.prems(3,4) False in auto)
    moreover have "c = 0" using Suc.prems(4,6) False by simp
    ultimately show ?thesis using ch Suc.prems(3) False by (subst copy_component.simps) (auto simp: ac_simps)
  qed
qed

section \<open>Properties\<close>

text \<open>
  \<^verbatim>\<open>get_name\<close> splits a path: for a path of \<open>i\<close> slashes, a component of \<open>n\<close> characters and
  \<open>j\<close> slashes it returns the rest of the path after them and leaves the component in the caller's
  array, with its terminating zero when it has fewer than 29 characters. A longer component is cut
  and left without a terminator.
\<close>

theorem get_name_splits:
  assumes "\<And>q. q < i \<Longrightarrow> m (a + int q) = slash"
    and "\<And>q. q < n \<Longrightarrow> m (a + int i + int q) \<noteq> slash \<and> m (a + int i + int q) \<noteq> 0"
    and "\<And>q. q < j \<Longrightarrow> m (a + int i + int n + int q) = slash"
    and "j = 0 \<Longrightarrow> m (a + int i + int n) = 0" "m (a + int i + int n + int j) \<noteq> slash"
    and "i + n + j < 128" "0 \<le> a" "s + WINIX_NAME_LEN \<le> a \<or> a + PATH_MAX < s"
    and "n = 0 \<Longrightarrow> j = 0"
  shows "\<exists>m'. get_name a s m = Some (m', a + int (i + n + j)) \<and>
     mem_words m' s (min n 29) = take 29 (mem_words m (a + int i) n) \<and>
     (if n < 29 then m' (s + int n) = 0 else m' (s + 29) = m (s + 29)) \<and>
     (\<forall>x. x < s \<or> s + WINIX_NAME_LEN \<le> x \<longrightarrow> m' x = m x)"
proof -
  have ns: "m (a + int i) \<noteq> slash" using assms(2) [of 0] assms(4,5,9) by (cases n; cases j) auto
  have lead: "skip_leading m a = Some (a + int i)" using skip_leading_run [of i m a] assms(1) ns by simp
  define c where "c = min (int n) 29"
  have "\<exists>m1. copy_component (a + 128) (s + 29) s (a + int i) m = (m1, s + c, a + int i + int n) \<and>
      (\<forall>x. m1 x = (if s \<le> x \<and> x < s + c then m (a + int i + (x - s)) else m x))"
  proof (rule copy_component_run)
    show "m (a + int i + int n) = slash \<or> m (a + int i + int n) = 0" using assms(3) [of 0] assms(4) by (cases j) auto
    show "x < a + int i \<or> a + int i + int n < x" if "s \<le> x" "x < s + 29" for x using assms(6,8) that by auto
  qed (use assms(2,6) c_def in auto)
  then obtain m1 where m1: "copy_component (a + 128) (s + 29) s (a + int i) m = (m1, s + c, a + int i + int n)"
    "\<And>x. m1 x = (if s \<le> x \<and> x < s + c then m (a + int i + (x - s)) else m x)" by blast
  have same: "m1 (a + int i + int n + int q) = m (a + int i + int n + int q)" if "q \<le> j" for q
    using m1(2) [of "a + int i + int n + int q"] assms(6,8) that by (auto simp: c_def)
  have trail: "skip_trailing (a + 128) m1 (a + int i + int n) = a + int i + int n + int j"
    by (rule skip_trailing_run) (use assms(3,5,6) same in auto)
  define m' where "m' = (if s + c < s + 29 then m1(s + c := 0) else m1)"
  have "get_name a s m = Some (m', a + int (i + n + j))"
    using assms(6,7) by (simp add: get_name_def lead m1(1) trail m'_def)
  moreover have "mem_words m' s (min n 29) = take 29 (mem_words m (a + int i) n)"
  proof -
    have "take 29 (mem_words m (a + int i) n) = mem_words m (a + int i) (min n 29)" by (simp add: min.commute)
    moreover have "mem_words m' s (min n 29) = mem_words m (a + int i) (min n 29)"
      by (rule mem_words_eqI) (auto simp: m'_def m1(2) c_def)
    ultimately show ?thesis by simp
  qed
  moreover have "if n < 29 then m' (s + int n) = 0 else m' (s + 29) = m (s + 29)" by (auto simp: m'_def m1(2) c_def)
  moreover have "m' x = m x" if "x < s \<or> s + 29 \<le> x" for x using that by (auto simp: m'_def m1(2) c_def)
  ultimately show ?thesis by blast
qed

theorem get_name_splits_witness:
  "\<exists>m'. get_name 100 300 ((\<lambda>_. 0)(100 := 47, 101 := 98, 102 := 105, 103 := 110, 104 := 47, 105 := 115, 106 := 104)) = Some (m', 105) \<and>
     mem_words m' 300 4 = [98, 105, 110, 0]"
proof -
  let ?m = "(\<lambda>_ :: addr. 0 :: int)(100 := 47, 101 := 98, 102 := 105, 103 := 110, 104 := 47, 105 := 115, 106 := 104)"
  have q: "q = 0 \<or> q = 1 \<or> q = 2" if "q < 3" for q :: nat using that by auto
  have "\<exists>m'. get_name 100 300 ?m = Some (m', 100 + int (1 + 3 + 1)) \<and> mem_words m' 300 (min 3 29) = take 29 (mem_words ?m (100 + int 1) 3) \<and>
     (if (3 :: nat) < 29 then m' (300 + int 3) = 0 else m' (300 + 29) = ?m (300 + 29)) \<and> (\<forall>x. x < 300 \<or> 300 + 29 \<le> x \<longrightarrow> m' x = ?m x)"
    by (rule get_name_splits) (use q in auto)
  then show ?thesis by (auto simp: mem_words_def upt_rec)
qed

end
