(* ===== verification/Filp.thy ===== *)
theory Filp
  imports Path Rootfs Exit
begin

text \<open>
  Open files: the table of open files (\<^verbatim>\<open>fs/filp.c\<close>), closing, reading and writing through
  the operations of the file's device (\<^verbatim>\<open>fs/system/open_close.c\<close>, \<^verbatim>\<open>read_write.c\<close>),
  duplicating descriptors (\<^verbatim>\<open>dup.c\<close>) and the flags of a file (\<^verbatim>\<open>fcntl.c\<close>). A pointer to an
  open file is its position in \<^verbatim>\<open>fd_table\<close>. The table of a device's file operations is an
  argument: \<open>ops d\<close> is the table of device \<open>d\<close>, and its operations get the open file, whose
  device is that one.
\<close>

record 'k filp_operations =
  fop_open :: "int \<Rightarrow> 'k \<Rightarrow> ('k \<times> int) option"
  fop_read :: "int \<Rightarrow> addr \<Rightarrow> int \<Rightarrow> int \<Rightarrow> 'k \<Rightarrow> ('k \<times> int) option"
  fop_write :: "int \<Rightarrow> addr \<Rightarrow> int \<Rightarrow> int \<Rightarrow> 'k \<Rightarrow> ('k \<times> int) option"
  fop_close :: "int \<Rightarrow> 'k \<Rightarrow> ('k \<times> int) option"
  fop_ioctl :: "int \<Rightarrow> int \<Rightarrow> addr \<Rightarrow> 'k \<Rightarrow> ('k \<times> int) option"

abbreviation (input) EISDIR :: int where "EISDIR \<equiv> 21"
abbreviation (input) F_GETFL :: int where "F_GETFL \<equiv> 3"
abbreviation (input) F_SETFL :: int where "F_SETFL \<equiv> 4"

definition root_fs_ops :: "'a fsk_scheme filp_operations" where
  "root_fs_ops = \<lparr>fop_open = root_fs_open, fop_read = root_fs_read, fop_write = root_fs_write, fop_close = root_fs_close,
     fop_ioctl = root_fs_ioctl\<rparr>"

section \<open>The table of open files\<close>

definition fd_slot :: "int \<Rightarrow> int \<Rightarrow> 'a kernel_scheme \<Rightarrow> int option option" where
  "fd_slot who fd k = aget (p_fp_filp (procs k who)) fd"

definition set_fd_slot :: "int \<Rightarrow> int \<Rightarrow> int option \<Rightarrow> 'a kernel_scheme \<Rightarrow> 'a kernel_scheme option" where
  "set_fd_slot who fd f k = do { fs \<leftarrow> aset (p_fp_filp (procs k who)) fd f; Some (upd_proc who (p_fp_filp_update (\<lambda>_. fs)) k) }"

text \<open>The first free descriptor from \<open>start\<close> on, or the error.\<close>

definition get_fd :: "int \<Rightarrow> int \<Rightarrow> int \<Rightarrow> 'a fsk_scheme \<Rightarrow> 'a fsk_scheme \<times> (int + int)" where
  "get_fd who start fpt k =
     (case List.find (\<lambda>i. fd_slot who i k = Some None) [start..OPEN_MAX - 1] of
        None \<Rightarrow> (k, Inl (- EMFILE))
      | Some i \<Rightarrow> (upd_filp fpt (filp_table_index_update (\<lambda>_. i)) k, Inr i))"

definition init_filp_by_inode :: "int \<Rightarrow> int \<Rightarrow> 'a fsk_scheme \<Rightarrow> 'a fsk_scheme \<times> int" where
  "init_filp_by_inode f inode k =
     (upd_filp f (\<lambda>r. r\<lparr>filp_ino := Some inode, filp_count := filp_count r + 1, filp_dev := i_dev (inodes k inode)\<rparr>) k, 0)"

definition release_filp :: "int \<Rightarrow> 'a fsk_scheme \<Rightarrow> 'a fsk_scheme \<times> int" where
  "release_filp f k = (upd_filp f (filp_count_update (\<lambda>_. 0)) k, 0)"

definition find_filp :: "int option \<Rightarrow> 'a fsk_scheme \<Rightarrow> int option" where
  "find_filp inode k = List.find (\<lambda>i. filp_ino (filps k i) = inode) [0..NR_FILPS - 1]"

definition get_free_filp :: "'a fsk_scheme \<Rightarrow> 'a fsk_scheme \<times> int option" where
  "get_free_filp k =
     (case List.find (\<lambda>i. filp_count (filps k i) = 0) [0..NR_FILPS - 1] of
        Some i \<Rightarrow> (upd_filp i (\<lambda>_. filp_zero) k, Some i)
      | None \<Rightarrow> (k, None))"

definition init_filp :: "'a fsk_scheme \<Rightarrow> 'a fsk_scheme option" where
  "init_filp k = for_loop 0 NR_FILPS (\<lambda>i k. Some (upd_filp i (\<lambda>r. r\<lparr>filp_count := 0, filp_table_index := i\<rparr>) k)) k"

section \<open>Closing, reading and writing\<close>

definition filp_close :: "(int \<Rightarrow> 'a fsk_scheme filp_operations) \<Rightarrow> int \<Rightarrow> 'a fsk_scheme \<Rightarrow> ('a fsk_scheme \<times> int) option" where
  "filp_close ops f k = do { d \<leftarrow> filp_dev (filps k f); fop_close (ops d) f k }"

definition sys_close :: "(int \<Rightarrow> 'a fsk_scheme filp_operations) \<Rightarrow> int \<Rightarrow> int \<Rightarrow> 'a fsk_scheme \<Rightarrow> ('a fsk_scheme \<times> int) option" where
  "sys_close ops who fd k =
     do { valid \<leftarrow> is_fd_opened_and_valid who fd k;
          if \<not> valid then Some (k, - EBADF)
          else do { f \<leftarrow> fd_slot who fd k; f \<leftarrow> f;
                    (k, ret) \<leftarrow> filp_close ops f k;
                    if ret \<noteq> 0 then Some (k, ret)
                    else do { k \<leftarrow> set_fd_slot who fd None k; Some (k, 0) } } }"

definition filp_read :: "(int \<Rightarrow> 'a fsk_scheme filp_operations) \<Rightarrow> int \<Rightarrow> int \<Rightarrow> addr \<Rightarrow> int \<Rightarrow> 'a fsk_scheme \<Rightarrow> ('a fsk_scheme \<times> int) option" where
  "filp_read ops who f buf count k =
     (let k = k\<lparr>curr_syscall_caller := Some who\<rparr> in
      do { d \<leftarrow> filp_dev (filps k f); fop_read (ops d) f buf count (filp_pos (filps k f)) k })"

definition sys_read :: "(int \<Rightarrow> 'a fsk_scheme filp_operations) \<Rightarrow> int \<Rightarrow> int \<Rightarrow> addr \<Rightarrow> int \<Rightarrow> 'a fsk_scheme \<Rightarrow> ('a fsk_scheme \<times> int) option" where
  "sys_read ops who fd buf count k =
     do { valid \<leftarrow> is_fd_opened_and_valid who fd k;
          if \<not> valid then Some (k, - EBADF)
          else do { f \<leftarrow> fd_slot who fd k; f \<leftarrow> f;
                    ino \<leftarrow> filp_ino (filps k f);
                    if i_mode (inodes k ino) AND S_IFDIR \<noteq> 0 then Some (k, - EISDIR)
                    else filp_read ops who f buf count k } }"

definition filp_write :: "(int \<Rightarrow> 'a fsk_scheme filp_operations) \<Rightarrow> int \<Rightarrow> int \<Rightarrow> addr \<Rightarrow> int \<Rightarrow> 'a fsk_scheme \<Rightarrow> ('a fsk_scheme \<times> int) option" where
  "filp_write ops who f buf count k =
     (let k = k\<lparr>curr_syscall_caller := Some who\<rparr> in
      do { d \<leftarrow> filp_dev (filps k f); fop_write (ops d) f buf count (filp_pos (filps k f)) k })"

definition sys_write :: "(int \<Rightarrow> 'a fsk_scheme filp_operations) \<Rightarrow> int \<Rightarrow> int \<Rightarrow> addr \<Rightarrow> int \<Rightarrow> 'a fsk_scheme \<Rightarrow> ('a fsk_scheme \<times> int) option" where
  "sys_write ops who fd buf count k =
     do { valid \<leftarrow> is_fd_opened_and_valid who fd k;
          if \<not> valid then Some (k, - EBADF)
          else do { f \<leftarrow> fd_slot who fd k; f \<leftarrow> f;
                    ino \<leftarrow> filp_ino (filps k f);
                    if i_mode (inodes k ino) AND S_IFDIR \<noteq> 0 then Some (k, - EISDIR)
                    else do { (k, ret) \<leftarrow> filp_write ops who f buf count k;
                              if ret > 0
                              then do { ino \<leftarrow> filp_ino (filps k f);
                                        Some (upd_inode ino (i_mtime_update (\<lambda>_. get_unix_time k)) k, ret) }
                              else Some (k, ret) } } }"

definition do_read :: "(int \<Rightarrow> 'a fsk_scheme filp_operations) \<Rightarrow> int \<Rightarrow> addr \<Rightarrow> 'a fsk_scheme \<Rightarrow> ('a fsk_scheme \<times> int) option" where
  "do_read ops who m k =
     do { let buf = phys k (kmem k (m1_p1 m)) who;
          ok \<leftarrow> is_vaddr_accessible k (kmem k (m1_p1 m)) who;
          if \<not> ok then Some (k, - EFAULT)
          else sys_read ops who (kmem k (m1_i1 m)) buf (kmem k (m1_i2 m) mod 2 ^ 32) k }"

definition do_write :: "(int \<Rightarrow> 'a fsk_scheme filp_operations) \<Rightarrow> int \<Rightarrow> addr \<Rightarrow> 'a fsk_scheme \<Rightarrow> ('a fsk_scheme \<times> int) option" where
  "do_write ops who m k =
     do { let buf = phys k (kmem k (m1_p1 m)) who;
          ok \<leftarrow> is_vaddr_accessible k (kmem k (m1_p1 m)) who;
          if \<not> ok then Some (k, - EFAULT)
          else sys_write ops who (kmem k (m1_i1 m)) buf (kmem k (m1_i2 m) mod 2 ^ 32) k }"

definition do_close :: "(int \<Rightarrow> 'a fsk_scheme filp_operations) \<Rightarrow> int \<Rightarrow> addr \<Rightarrow> 'a fsk_scheme \<Rightarrow> ('a fsk_scheme \<times> int) option" where
  "do_close ops who m k = sys_close ops who (kmem k (m1_i1 m)) k"

definition sys_ioctl :: "(int \<Rightarrow> 'a fsk_scheme filp_operations) \<Rightarrow> int \<Rightarrow> int \<Rightarrow> int \<Rightarrow> addr \<Rightarrow> 'a fsk_scheme \<Rightarrow> ('a fsk_scheme \<times> int) option" where
  "sys_ioctl ops who fd request arg k =
     do { valid \<leftarrow> is_fd_opened_and_valid who fd k;
          if \<not> valid then Some (k, - EBADF)
          else do { f \<leftarrow> fd_slot who fd k; f \<leftarrow> f; d \<leftarrow> filp_dev (filps k f); fop_ioctl (ops d) f request arg k } }"

definition do_ioctl :: "(int \<Rightarrow> 'a fsk_scheme filp_operations) \<Rightarrow> int \<Rightarrow> addr \<Rightarrow> 'a fsk_scheme \<Rightarrow> ('a fsk_scheme \<times> int) option" where
  "do_ioctl ops who m k = sys_ioctl ops who (kmem k (m1_i1 m)) (kmem k (m1_i2 m)) (kmem k (m1_p1 m)) k"

section \<open>Duplicating descriptors\<close>

definition sys_dup :: "int \<Rightarrow> int \<Rightarrow> 'a fsk_scheme \<Rightarrow> ('a fsk_scheme \<times> int) option" where
  "sys_dup who oldfd k =
     do { valid \<leftarrow> is_fd_opened_and_valid who oldfd k;
          if \<not> valid then Some (k, - EBADF)
          else (case get_free_filp k of
                  (k, None) \<Rightarrow> Some (k, - ENFILE)
                | (k, Some file2) \<Rightarrow>
                    (case get_fd who 0 file2 k of
                       (k, Inl ret) \<Rightarrow> Some (k, ret)
                     | (k, Inr open_slot) \<Rightarrow>
                         do { file1 \<leftarrow> fd_slot who oldfd k;
                              k \<leftarrow> set_fd_slot who open_slot file1 k;
                              file1 \<leftarrow> file1;
                              Some (upd_filp file1 (filp_count_update (\<lambda>c. c + 1)) k, open_slot) })) }"

definition sys_dup2 :: "(int \<Rightarrow> 'a fsk_scheme filp_operations) \<Rightarrow> int \<Rightarrow> int \<Rightarrow> int \<Rightarrow> 'a fsk_scheme \<Rightarrow> ('a fsk_scheme \<times> int) option" where
  "sys_dup2 ops who oldfd newfd k =
     do { valid \<leftarrow> is_fd_opened_and_valid who oldfd k;
          if \<not> valid then Some (k, - EBADF)
          else if newfd < 0 \<or> newfd \<ge> OPEN_MAX then Some (k, - EBADF)
          else (case get_free_filp k of
                  (k, None) \<Rightarrow> Some (k, - ENFILE)
                | (k, Some file2) \<Rightarrow>
                    (case get_fd who 0 file2 k of
                       (k, Inl ret) \<Rightarrow> Some (k, ret)
                     | (k, Inr open_slot) \<Rightarrow>
                         do { new \<leftarrow> fd_slot who newfd k;
                              (k, ret) \<leftarrow> (if new \<noteq> None then sys_close ops who newfd k else Some (k, 0));
                              if ret \<noteq> 0 then Some (k, ret)
                              else do {
                                file1 \<leftarrow> fd_slot who oldfd k;
                                case file1 of
                                  None \<Rightarrow> Some (k, - EBADF)
                                | Some f \<Rightarrow>
                                    do { k \<leftarrow> set_fd_slot who newfd (Some f) k;
                                         Some (upd_filp f (filp_count_update (\<lambda>c. c + 1)) k, newfd) } } })) }"

definition do_dup :: "int \<Rightarrow> addr \<Rightarrow> 'a fsk_scheme \<Rightarrow> ('a fsk_scheme \<times> int) option" where
  "do_dup who m k = sys_dup who (kmem k (m1_i1 m)) k"

definition do_dup2 :: "(int \<Rightarrow> 'a fsk_scheme filp_operations) \<Rightarrow> int \<Rightarrow> addr \<Rightarrow> 'a fsk_scheme \<Rightarrow> ('a fsk_scheme \<times> int) option" where
  "do_dup2 ops who m k = sys_dup2 ops who (kmem k (m1_i1 m)) (kmem k (m1_i2 m)) k"

definition sys_fcntl :: "int \<Rightarrow> int \<Rightarrow> int \<Rightarrow> addr \<Rightarrow> 'a fsk_scheme \<Rightarrow> ('a fsk_scheme \<times> int) option" where
  "sys_fcntl who fd cmd arg k =
     do { valid \<leftarrow> is_fd_opened_and_valid who fd k;
          if \<not> valid then Some (k, - EBADF)
          else do { f \<leftarrow> fd_slot who fd k; f \<leftarrow> f;
                    Some (if cmd = F_GETFL then (k, sint (filp_flags (filps k f)))
                          else if cmd = F_SETFL then (upd_filp f (filp_flags_update (\<lambda>_. word_of_int (kmem k arg))) k, 0)
                          else (k, - EINVAL)) } }"

definition do_fcntl :: "int \<Rightarrow> addr \<Rightarrow> 'a fsk_scheme \<Rightarrow> ('a fsk_scheme \<times> int) option" where
  "do_fcntl who m k =
     do { ok \<leftarrow> is_vaddr_accessible k (kmem k (m1_p1 m)) who;
          if \<not> ok then Some (k, - EFAULT)
          else sys_fcntl who (kmem k (m1_i1 m)) (kmem k (m1_i2 m)) (phys k (kmem k (m1_p1 m)) who) k }"

definition sys_umask :: "int \<Rightarrow> int \<Rightarrow> 'a fsk_scheme \<Rightarrow> 'a fsk_scheme \<times> int" where
  "sys_umask who msk k = (upd_proc who (p_umask_update (\<lambda>_. msk AND 511)) k, p_umask (procs k who))"

definition do_umask :: "int \<Rightarrow> addr \<Rightarrow> 'a fsk_scheme \<Rightarrow> 'a fsk_scheme \<times> int" where
  "do_umask who m k = sys_umask who (kmem k (m1_i1 m)) k"

end
