(* ===== verification/FsCalls.thy ===== *)
theory FsCalls
  imports Filp
begin

text \<open>
  The system calls on names and files (\<^verbatim>\<open>fs/system\<close>): opening and creating, seeking,
  directories, links, permissions and status.
\<close>

abbreviation (input) O_WRONLY :: u32 where "O_WRONLY \<equiv> 0x1"
abbreviation (input) O_CREAT :: u32 where "O_CREAT \<equiv> 0x100"
abbreviation (input) O_EXCL :: u32 where "O_EXCL \<equiv> 0x200"
abbreviation (input) O_TRUNC :: u32 where "O_TRUNC \<equiv> 0x1000"
abbreviation (input) O_APPEND :: u32 where "O_APPEND \<equiv> 0x2000"
abbreviation (input) SEEK_SET :: int where "SEEK_SET \<equiv> 0"
abbreviation (input) SEEK_CUR :: int where "SEEK_CUR \<equiv> 1"
abbreviation (input) SEEK_END :: int where "SEEK_END \<equiv> 2"
abbreviation (input) EEXIST :: int where "EEXIST \<equiv> 17"
abbreviation (input) ENXIO :: int where "ENXIO \<equiv> 6"
abbreviation (input) ESPIPE :: int where "ESPIPE \<equiv> 29"
abbreviation (input) ERANGE :: int where "ERANGE \<equiv> 34"
abbreviation (input) ENOSYS :: int where "ENOSYS \<equiv> 38"
abbreviation (input) ENOTEMPTY :: int where "ENOTEMPTY \<equiv> 39"
abbreviation (input) F_OK :: int where "F_OK \<equiv> 0"

section \<open>Opening\<close>

definition alloc_inode_under_dir :: "int \<Rightarrow> int \<Rightarrow> addr \<Rightarrow> 'a fsk_scheme \<Rightarrow> ('a fsk_scheme \<times> (int + int)) option" where
  "alloc_inode_under_dir who lastdir string k =
     (let dev = i_dev (inodes k lastdir) in
      do { (k, inode) \<leftarrow> alloc_inode dev dev k;
           case inode of
             None \<Rightarrow> Some (k, Inl (- ENOSPC))
           | Some i \<Rightarrow>
               do { (k, ret) \<leftarrow> add_inode_to_directory who lastdir i string k;
                    if ret \<noteq> 0 then do { (k, _) \<leftarrow> release_inode i k; Some (k, Inl ret) } else Some (k, Inr i) } })"

text \<open>The inode to open: an error, or the inode and whether it is new.\<close>

definition open_inode :: "int \<Rightarrow> u32 \<Rightarrow> int \<Rightarrow> int \<Rightarrow> int option \<Rightarrow> addr \<Rightarrow> 'a fsk_scheme \<Rightarrow> ('a fsk_scheme \<times> (int + int \<times> bool)) option" where
  "open_inode who flags mode lastdir inode string k =
     (case inode of
        Some i \<Rightarrow> Some (k, if has_flag flags O_EXCL \<and> has_flag flags O_CREAT then Inl (- EEXIST) else Inr (i, False))
      | None \<Rightarrow>
          if kmem k string \<noteq> 0
          then (if \<not> has_flag flags O_CREAT then Some (k, Inl (- ENOENT))
                else do { d \<leftarrow> i_dev (inodes k lastdir);
                          (k, r) \<leftarrow> alloc_inode_under_dir who lastdir string k;
                          case r of
                            Inl ret \<Rightarrow> Some (k, Inl ret)
                          | Inr i \<Rightarrow> Some (init_inode_proc_field i who (device_type (device k d)) mode k, Inr (i, True)) })
          else Some (k, if has_flag flags O_WRONLY then Inl (- EISDIR) else Inr (lastdir, False)))"

definition filp_open ::
  "(int \<Rightarrow> 'a fsk_scheme filp_operations) \<Rightarrow> int \<Rightarrow> addr \<Rightarrow> u32 \<Rightarrow> int \<Rightarrow> 'a fsk_scheme \<Rightarrow> ('a fsk_scheme \<times> int \<times> int option) option" where
  "filp_open ops who path flags mode k =
     do { let unix_time = get_unix_time k;
          (k, ret, lastdir, inode) \<leftarrow> eat_path who path (kstring k) k;
          if ret \<noteq> 0 then Some (k, ret, None)
          else do {
            lastdir \<leftarrow> lastdir;
            (k, r) \<leftarrow> open_inode who flags mode lastdir inode (kstring k) k;
            case r of
              Inl ret \<Rightarrow> do { (k, _) \<leftarrow> put_inode (Some lastdir) False k; Some (k, ret, None) }
            | Inr (inode, is_new) \<Rightarrow>
                (case get_free_filp k of
                   (k, None) \<Rightarrow> Some (k, - ENFILE, None)
                 | (k, Some filp) \<Rightarrow>
                     do { k \<leftarrow> (if has_flag flags O_TRUNC then do { (k, _) \<leftarrow> truncate_inode inode k; Some k } else Some k);
                          let k = fst (init_filp_by_inode filp inode k);
                          let k = (if has_flag flags O_APPEND then upd_filp filp (filp_pos_update (\<lambda>_. i_size (inodes k inode))) k else k);
                          let k = upd_filp filp (\<lambda>r. r\<lparr>filp_mode := mode, filp_flags := flags\<rparr>) k;
                          let k = upd_inode inode (i_atime_update (\<lambda>_. unix_time)) k;
                          d \<leftarrow> i_dev (inodes k inode);
                          (k, ret) \<leftarrow> fop_open (ops d) filp k;
                          (k, _) \<leftarrow> put_inode (Some lastdir) is_new k;
                          Some (k, ret, if ret \<noteq> 0 then None else Some filp) }) } }"

definition sys_open :: "(int \<Rightarrow> 'a fsk_scheme filp_operations) \<Rightarrow> int \<Rightarrow> addr \<Rightarrow> u32 \<Rightarrow> int \<Rightarrow> 'a fsk_scheme \<Rightarrow> ('a fsk_scheme \<times> int) option" where
  "sys_open ops who path flags mode k =
     do { (k, ret, filp) \<leftarrow> filp_open ops who path flags mode k;
          if ret \<noteq> 0 then Some (k, ret)
          else do { filp \<leftarrow> filp;
                    case get_fd who 0 filp k of
                      (k, Inl ret) \<Rightarrow> do { (k, _) \<leftarrow> filp_close ops filp k; Some (k, ret) }
                    | (k, Inr open_slot) \<Rightarrow> do { k \<leftarrow> set_fd_slot who open_slot (Some filp) k; Some (k, open_slot) } } }"

definition sys_creat :: "(int \<Rightarrow> 'a fsk_scheme filp_operations) \<Rightarrow> int \<Rightarrow> addr \<Rightarrow> int \<Rightarrow> 'a fsk_scheme \<Rightarrow> ('a fsk_scheme \<times> int) option" where
  "sys_creat ops who path mode k = sys_open ops who path (O_CREAT OR O_EXCL) mode k"

text \<open>The handlers that take a path check its first word and pass its physical address.\<close>

definition with_path :: "int \<Rightarrow> addr \<Rightarrow> (addr \<Rightarrow> 'a fsk_scheme \<Rightarrow> ('a fsk_scheme \<times> int) option) \<Rightarrow> 'a fsk_scheme \<Rightarrow> ('a fsk_scheme \<times> int) option" where
  "with_path who vp call k =
     do { ok \<leftarrow> is_vaddr_accessible k vp who; if \<not> ok then Some (k, - EFAULT) else call (phys k vp who) k }"

definition do_open :: "(int \<Rightarrow> 'a fsk_scheme filp_operations) \<Rightarrow> int \<Rightarrow> addr \<Rightarrow> 'a fsk_scheme \<Rightarrow> ('a fsk_scheme \<times> int) option" where
  "do_open ops who m k =
     with_path who (kmem k (m1_p1 m)) (\<lambda>path. sys_open ops who path (word_of_int (kmem k (m1_i1 m))) (kmem k (m1_i2 m))) k"

definition do_creat :: "(int \<Rightarrow> 'a fsk_scheme filp_operations) \<Rightarrow> int \<Rightarrow> addr \<Rightarrow> 'a fsk_scheme \<Rightarrow> ('a fsk_scheme \<times> int) option" where
  "do_creat ops who m k = with_path who (kmem k (m1_p1 m)) (\<lambda>path. sys_creat ops who path (kmem k (m1_i1 m))) k"

section \<open>Seeking\<close>

text \<open>The loop \<^verbatim>\<open>while(iter_zone_has_next(&iter));\<close>.\<close>

partial_function (option) zone_spin :: "zone_iterator \<Rightarrow> 'a fsk_scheme \<Rightarrow> 'a fsk_scheme option" where
  "zone_spin iter k = do { (k, more) \<leftarrow> iter_zone_has_next iter k; if more then zone_spin iter k else Some k }"

partial_function (option) extend_loop :: "zone_iterator \<Rightarrow> int \<Rightarrow> int \<Rightarrow> 'a fsk_scheme \<Rightarrow> ('a fsk_scheme \<times> int) option" where
  "extend_loop iter user_increment allocated k =
     (if user_increment > 0
      then do { (k, ret) \<leftarrow> iter_zone_alloc iter k;
                if ret < 0 then Some (k, ret)
                else extend_loop iter ((user_increment - BLOCK_SIZE) mod 2 ^ 32) (allocated + BLOCK_SIZE) k }
      else Some (k, allocated))"

definition ALIGN1K :: "int \<Rightarrow> int" where
  "ALIGN1K x = push_bit 10 (drop_bit 10 ((x - 1) mod 2 ^ 32)) + 1023"

definition extend_file :: "int \<Rightarrow> int \<Rightarrow> int \<Rightarrow> 'a fsk_scheme \<Rightarrow> ('a fsk_scheme \<times> int) option" where
  "extend_file f count whence k =
     do { ino \<leftarrow> filp_ino (filps k f);
          (k, total_size) \<leftarrow> get_inode_total_size_word ino k;
          let count = (if whence = SEEK_END then (count + total_size) mod 2 ^ 32 else count);
          if count < total_size then Some (upd_filp f (filp_pos_update (\<lambda>_. count)) k, to_int count)
          else do {
            let (k, iter) = iter_zone_init ino 0 k;
            k \<leftarrow> zone_spin iter k;
            (k, ret) \<leftarrow> extend_loop iter (ALIGN1K (count - total_size)) 0 k;
            Some (fst (iter_zone_close iter k), to_int ret) } }"

definition sys_lseek :: "int \<Rightarrow> int \<Rightarrow> int \<Rightarrow> int \<Rightarrow> 'a fsk_scheme \<Rightarrow> ('a fsk_scheme \<times> int) option" where
  "sys_lseek who fd offset whence k =
     do { valid \<leftarrow> is_fd_opened_and_valid who fd k;
          if \<not> valid then Some (k, - EBADF)
          else do { f \<leftarrow> fd_slot who fd k; f \<leftarrow> f;
                    ino \<leftarrow> filp_ino (filps k f);
                    if has_flag (i_flags (inodes k ino)) INODE_FLAG_PIPE then Some (k, - ESPIPE)
                    else if whence = SEEK_SET then extend_file f offset whence k
                    else if whence = SEEK_CUR then extend_file f ((filp_pos (filps k f) + offset) mod 2 ^ 32) whence k
                    else if whence = SEEK_END then extend_file f offset whence k
                    else Some (k, - EINVAL) } }"

definition do_lseek :: "int \<Rightarrow> addr \<Rightarrow> 'a fsk_scheme \<Rightarrow> ('a fsk_scheme \<times> int) option" where
  "do_lseek who m k = sys_lseek who (kmem k (m1_i1 m)) (kmem k (m1_i2 m) mod 2 ^ 32) (kmem k (m1_i3 m)) k"

section \<open>Directories\<close>

definition sys_chdir :: "int \<Rightarrow> addr \<Rightarrow> 'a fsk_scheme \<Rightarrow> ('a fsk_scheme \<times> int) option" where
  "sys_chdir who path k =
     do { (k, ret, inode) \<leftarrow> get_inode_by_path who path k;
          if ret \<noteq> 0 then Some (k, ret)
          else (case inode of
                  None \<Rightarrow> Some (k, - EEXIST)
                | Some i \<Rightarrow>
                    if \<not> S_ISDIR (i_mode (inodes k i)) then do { (k, _) \<leftarrow> put_inode (Some i) False k; Some (k, - ENOTDIR) }
                    else let old = p_fp_workdir (procs k who);
                             k = upd_proc who (p_fp_workdir_update (\<lambda>_. Some i)) k
                         in do { (k, _) \<leftarrow> put_inode old False k; Some (k, 0) }) }"

text \<open>The body of \<^verbatim>\<open>sys_mkdir\<close> after the new inode is allocated; the flag is \<^verbatim>\<open>is_dirty\<close>.\<close>

definition mkdir_fill :: "addr \<Rightarrow> addr \<Rightarrow> int \<Rightarrow> int \<Rightarrow> int \<Rightarrow> addr \<Rightarrow> int \<Rightarrow> 'a fsk_scheme \<Rightarrow> ('a fsk_scheme \<times> int \<times> bool \<times> bool) option" where
  "mkdir_fill dot1 dot2 who lastdir ino string mode k =
     (let k = init_inode_proc_field ino who S_IFDIR mode k in
      do { (k, bnr) \<leftarrow> alloc_block (i_dev (inodes k lastdir)) k;
           if bnr \<le> 0 then Some (k, bnr, False, True)
           else do {
             k \<leftarrow> zone_set ino 0 bnr k;
             let k = upd_inode ino (i_size_update (\<lambda>_. BLOCK_SIZE)) k;
             (k, ret) \<leftarrow> init_dirent dot1 dot2 lastdir ino k;
             if ret \<noteq> 0 then Some (k, ret, False, True)
             else do {
               (k, ret) \<leftarrow> add_inode_to_directory who lastdir ino string k;
               if ret \<noteq> 0 then do { (k, _) \<leftarrow> release_inode ino k; Some (k, ret, False, False) }
               else Some (k, ret, True, True) } } })"

definition sys_mkdir :: "addr \<Rightarrow> addr \<Rightarrow> int \<Rightarrow> addr \<Rightarrow> int \<Rightarrow> 'a fsk_scheme \<Rightarrow> ('a fsk_scheme \<times> int) option" where
  "sys_mkdir dot1 dot2 who path mode k =
     do { (k, ret, lastdir, ino) \<leftarrow> eat_path who path (kstring k) k;
          if ret \<noteq> 0 then Some (k, ret)
          else do {
            ld \<leftarrow> lastdir;
            (k, ret, ino, is_dirty, put_ino) \<leftarrow>
              (case ino of
                 Some i \<Rightarrow> Some (k, - EEXIST, Some i, False, True)
               | None \<Rightarrow>
                   do { (k, new) \<leftarrow> alloc_inode (i_dev (inodes k ld)) (i_dev (inodes k ld)) k;
                        case new of
                          None \<Rightarrow> Some (k, - ENOSPC, None, False, True)
                        | Some i \<Rightarrow> do { (k, ret, dirty, put) \<leftarrow> mkdir_fill dot1 dot2 who ld i (kstring k) mode k;
                                         Some (k, ret, Some i, dirty, put) } });
            k \<leftarrow> (if put_ino then do { (k, _) \<leftarrow> put_inode ino is_dirty k; Some k } else Some k);
            (k, _) \<leftarrow> put_inode lastdir is_dirty k;
            Some (k, ret) } }"

definition do_chdir :: "int \<Rightarrow> addr \<Rightarrow> 'a fsk_scheme \<Rightarrow> ('a fsk_scheme \<times> int) option" where
  "do_chdir who m k = with_path who (kmem k (m1_p1 m)) (sys_chdir who) k"

definition do_mkdir :: "addr \<Rightarrow> addr \<Rightarrow> int \<Rightarrow> addr \<Rightarrow> 'a fsk_scheme \<Rightarrow> ('a fsk_scheme \<times> int) option" where
  "do_mkdir dot1 dot2 who m k = with_path who (kmem k (m1_p1 m)) (\<lambda>path. sys_mkdir dot1 dot2 who path (kmem k (m1_i1 m))) k"

section \<open>Links\<close>

definition sys_link :: "int \<Rightarrow> addr \<Rightarrow> addr \<Rightarrow> 'a fsk_scheme \<Rightarrow> ('a fsk_scheme \<times> int) option" where
  "sys_link who oldpath newpath k =
     do { (k, ret, oldinode) \<leftarrow> get_inode_by_path who oldpath k;
          (k, ret) \<leftarrow>
            (if ret \<noteq> 0 then Some (k, ret)
             else do {
               (k, ret, lastdir, newinode) \<leftarrow> eat_path who newpath (kstring k) k;
               (k, ret) \<leftarrow>
                 (if ret \<noteq> 0 then Some (k, ret)
                  else if newinode \<noteq> None then Some (k, - EEXIST)
                  else do { ld \<leftarrow> lastdir; old \<leftarrow> oldinode; add_inode_to_directory who ld old (kstring k) k });
               k \<leftarrow> (if newinode \<noteq> None then do { (k, _) \<leftarrow> put_inode newinode False k; Some k } else Some k);
               k \<leftarrow> (if lastdir \<noteq> None then do { (k, _) \<leftarrow> put_inode lastdir (ret = 0) k; Some k } else Some k);
               Some (k, ret) });
          k \<leftarrow> (if oldinode \<noteq> None then do { (k, _) \<leftarrow> put_inode oldinode False k; Some k } else Some k);
          Some (k, ret) }"

definition sys_unlink :: "int \<Rightarrow> addr \<Rightarrow> bool \<Rightarrow> 'a fsk_scheme \<Rightarrow> ('a fsk_scheme \<times> int) option" where
  "sys_unlink who path allow_dir k =
     do { (k, ret, lastdir, ino) \<leftarrow> eat_path who path (kstring k) k;
          (k, ret) \<leftarrow>
            (if ret \<noteq> 0 then Some (k, ret)
             else (case ino of
                     None \<Rightarrow> Some (k, - ENOENT)
                   | Some i \<Rightarrow>
                       if \<not> allow_dir \<and> S_ISDIR (i_mode (inodes k i))
                       then do { (k, _) \<leftarrow> put_inode ino False k; Some (k, - EISDIR) }
                       else do { ld \<leftarrow> lastdir;
                                 (k, ret) \<leftarrow> remove_inode_from_dir who ld i (kstring k) k;
                                 (k, _) \<leftarrow> put_inode ino False k;
                                 if i_nlinks (inodes k i) = 0 \<and> i_count (inodes k i) = 0 then release_inode i k else Some (k, ret) }));
          (k, _) \<leftarrow> put_inode lastdir False k;
          Some (k, ret) }"

definition do_link :: "int \<Rightarrow> addr \<Rightarrow> 'a fsk_scheme \<Rightarrow> ('a fsk_scheme \<times> int) option" where
  "do_link who m k =
     do { ok1 \<leftarrow> is_vaddr_accessible k (kmem k (m1_p1 m)) who;
          ok2 \<leftarrow> (if ok1 then is_vaddr_accessible k (kmem k (m1_p2 m)) who else Some True);
          if \<not> ok1 \<or> \<not> ok2 then Some (k, - EFAULT)
          else sys_link who (phys k (kmem k (m1_p1 m)) who) (phys k (kmem k (m1_p2 m)) who) k }"

definition do_unlink :: "int \<Rightarrow> addr \<Rightarrow> 'a fsk_scheme \<Rightarrow> ('a fsk_scheme \<times> int) option" where
  "do_unlink who m k = with_path who (kmem k (m1_p1 m)) (\<lambda>path. sys_unlink who path False) k"

definition sys_mknod :: "int \<Rightarrow> addr \<Rightarrow> int \<Rightarrow> int \<Rightarrow> 'a fsk_scheme \<Rightarrow> ('a fsk_scheme \<times> int) option" where
  "sys_mknod who path mode devid k =
     (case get_dev devid k of
        None \<Rightarrow> Some (k, - ENXIO)
      | Some dev \<Rightarrow>
          do { (k, ret, lastdir, inode) \<leftarrow> eat_path who path (kstring k) k;
               if ret \<noteq> 0 then Some (k, ret)
               else do {
                 ld \<leftarrow> lastdir;
                 (k, ret, inode) \<leftarrow>
                   (if inode \<noteq> None \<or> kmem k (kstring k) = 0 then Some (k, - EEXIST, inode)
                    else do {
                      (k, new) \<leftarrow> alloc_inode (i_dev (inodes k ld)) (Some dev) k;
                      case new of
                        None \<Rightarrow> Some (k, - ENOSPC, None)
                      | Some i \<Rightarrow>
                          do { (k, ret) \<leftarrow> add_inode_to_directory who ld i (kstring k) k;
                               if ret \<noteq> 0 then do { (k, _) \<leftarrow> release_inode i k; Some (k, ret, Some i) }
                               else Some (init_inode_proc_field i who (device_type (device k dev)) mode k, ret, Some i) } });
                 (k, _) \<leftarrow> put_inode inode False k;
                 (k, _) \<leftarrow> put_inode lastdir (ret = 0) k;
                 Some (k, ret) } })"

definition do_mknod :: "int \<Rightarrow> addr \<Rightarrow> 'a fsk_scheme \<Rightarrow> ('a fsk_scheme \<times> int) option" where
  "do_mknod who m k = with_path who (kmem k (m1_p1 m)) (\<lambda>path. sys_mknod who path (kmem k (m1_i1 m)) (kmem k (m1_i2 m))) k"

text \<open>Removing a directory: any entry other than the two dots that has an inode makes it non-empty.\<close>

definition rmdir_entry :: "addr \<Rightarrow> addr \<Rightarrow> 'a fsk_scheme \<Rightarrow> addr \<Rightarrow> bool option" where
  "rmdir_entry dot1 dot2 k cur =
     do { c2 \<leftarrow> char32_strcmp (kmem k) (d_name cur) dot2;
          if c2 = 0 then Some False
          else do { c1 \<leftarrow> char32_strcmp (kmem k) (d_name cur) dot1; Some (c1 \<noteq> 0 \<and> kmem k (d_ino cur) \<noteq> 0) } }"

definition sys_rmdir :: "addr \<Rightarrow> addr \<Rightarrow> int \<Rightarrow> addr \<Rightarrow> 'a fsk_scheme \<Rightarrow> ('a fsk_scheme \<times> int) option" where
  "sys_rmdir dot1 dot2 who path k =
     (if path = NULL then Some (k, - EFAULT)
      else do {
        (k, ret, inode) \<leftarrow> get_inode_by_path who path k;
        if ret < 0 then Some (k, ret)
        else do {
          i \<leftarrow> inode;
          if \<not> S_ISDIR (i_mode (inodes k i)) then do { (k, _) \<leftarrow> put_inode inode False k; Some (k, - ENOTDIR) }
          else do {
            (k, iter) \<leftarrow> iter_dirent_init i 0 0 False k;
            (k, iter, cur) \<leftarrow> find_dirent (rmdir_entry dot1 dot2) iter k;
            (k, _) \<leftarrow> iter_dirent_close iter k;
            (k, _) \<leftarrow> put_inode inode False k;
            if cur \<noteq> NULL then Some (k, - ENOTEMPTY) else sys_unlink who path True k } } })"

text \<open>The path is copied to the local array \<^verbatim>\<open>path\<close>, whose address is \<open>buf\<close>.\<close>

definition do_rmdir :: "addr \<Rightarrow> addr \<Rightarrow> addr \<Rightarrow> int \<Rightarrow> addr \<Rightarrow> 'a fsk_scheme \<Rightarrow> ('a fsk_scheme \<times> int) option" where
  "do_rmdir dot1 dot2 buf who m k =
     do { (k, n) \<leftarrow> copy_from_user who buf (kmem k (m1_p1 m)) PATH_MAX k;
          if n < 0 then Some (k, - EFAULT) else sys_rmdir dot1 dot2 who buf k }"

section \<open>Permissions and status\<close>

definition sys_chown :: "int \<Rightarrow> addr \<Rightarrow> int \<Rightarrow> int \<Rightarrow> 'a fsk_scheme \<Rightarrow> ('a fsk_scheme \<times> int) option" where
  "sys_chown who path owner grp k = Some (k, - EINVAL)"

definition do_chown :: "int \<Rightarrow> addr \<Rightarrow> 'a fsk_scheme \<Rightarrow> ('a fsk_scheme \<times> int) option" where
  "do_chown who m k = with_path who (kmem k (m1_p1 m)) (\<lambda>path. sys_chown who path (kmem k (m1_i1 m)) (kmem k (m1_i2 m))) k"

definition sys_chmod :: "int \<Rightarrow> addr \<Rightarrow> int \<Rightarrow> 'a fsk_scheme \<Rightarrow> ('a fsk_scheme \<times> int) option" where
  "sys_chmod who path mode k =
     do { (k, ret, inode) \<leftarrow> get_inode_by_path who path k;
          if ret \<noteq> 0 then Some (k, ret)
          else (case inode of
                  None \<Rightarrow> Some (k, - ENOENT)
                | Some i \<Rightarrow> do { (k, _) \<leftarrow> put_inode (Some i) True (upd_inode i (i_mode_update (\<lambda>_. mode)) k); Some (k, 0) }) }"

definition do_chmod :: "int \<Rightarrow> addr \<Rightarrow> 'a fsk_scheme \<Rightarrow> ('a fsk_scheme \<times> int) option" where
  "do_chmod who m k = with_path who (kmem k (m1_p1 m)) (\<lambda>path. sys_chmod who path (kmem k (m1_i1 m))) k"

definition sys_access :: "int \<Rightarrow> addr \<Rightarrow> int \<Rightarrow> 'a fsk_scheme \<Rightarrow> ('a fsk_scheme \<times> int) option" where
  "sys_access who path mode k =
     do { (k, ret, ino) \<leftarrow> get_inode_by_path who path k;
          if mode = F_OK
          then (if ino = None then Some (k, - ENOENT) else do { (k, _) \<leftarrow> put_inode ino False k; Some (k, ret) })
          else do { i \<leftarrow> (if p_uid (procs k who) = 0 then Some 0 else ino);
                    let ret = (if has_file_access who i mode k then 0 else - EACCES);
                    (k, _) \<leftarrow> put_inode ino False k;
                    Some (k, ret) } }"

definition do_access :: "int \<Rightarrow> addr \<Rightarrow> 'a fsk_scheme \<Rightarrow> ('a fsk_scheme \<times> int) option" where
  "do_access who m k = with_path who (kmem k (m1_p1 m)) (\<lambda>path. sys_access who path (kmem k (m1_i1 m))) k"

text \<open>The thirteen words of \<^verbatim>\<open>struct stat\<close>.\<close>

definition set_statbuf :: "int \<Rightarrow> addr \<Rightarrow> 'a fsk_scheme \<Rightarrow> 'a fsk_scheme option" where
  "set_statbuf ino buf k =
     do { let r = inodes k ino;
          d \<leftarrow> i_dev r;
          sb \<leftarrow> get_sb (i_sb r) k;
          sz \<leftarrow> DEARCH_CHAR_SIZE (i_size r) sb;
          let ws = [dev_id (device k d), i_num r, i_mode r, i_nlinks r, i_uid r, i_gid r, dev_id (device k d), sz, BLOCK_SIZE];
          let k = upd_mem (\<lambda>m a. if buf \<le> a \<and> a < buf + 9 then ws ! nat (a - buf) else m a) k;
          (k, blocks) \<leftarrow> get_inode_blocks ino k;
          let r = inodes k ino;
          Some (upd_mem (\<lambda>m. m(buf + 9 := blocks, buf + 10 := i_atime r, buf + 11 := i_mtime r, buf + 12 := i_ctime r)) k) }"

definition sys_fstat :: "int \<Rightarrow> int \<Rightarrow> addr \<Rightarrow> 'a fsk_scheme \<Rightarrow> ('a fsk_scheme \<times> int) option" where
  "sys_fstat who fd statbuf k =
     do { valid \<leftarrow> is_fd_opened_and_valid who fd k;
          if \<not> valid then Some (k, - EBADF)
          else do { f \<leftarrow> fd_slot who fd k; f \<leftarrow> f; ino \<leftarrow> filp_ino (filps k f);
                    k \<leftarrow> set_statbuf ino statbuf k; Some (k, 0) } }"

definition sys_stat :: "int \<Rightarrow> addr \<Rightarrow> addr \<Rightarrow> 'a fsk_scheme \<Rightarrow> ('a fsk_scheme \<times> int) option" where
  "sys_stat who path statbuf k =
     do { (k, ret, inode) \<leftarrow> get_inode_by_path who path k;
          if ret \<noteq> 0 then Some (k, ret)
          else (case inode of
                  None \<Rightarrow> Some (k, - ENOENT)
                | Some i \<Rightarrow> do { k \<leftarrow> set_statbuf i statbuf k; (k, _) \<leftarrow> put_inode (Some i) False k; Some (k, 0) }) }"

definition do_stat :: "int \<Rightarrow> addr \<Rightarrow> 'a fsk_scheme \<Rightarrow> ('a fsk_scheme \<times> int) option" where
  "do_stat who m k =
     do { ok1 \<leftarrow> is_vaddr_accessible k (kmem k (m1_p1 m)) who;
          ok2 \<leftarrow> (if ok1 then user_ok k (kmem k (m1_p2 m)) 13 who else Some True);
          if \<not> ok1 \<or> \<not> ok2 then Some (k, - EFAULT)
          else sys_stat who (phys k (kmem k (m1_p1 m)) who) (phys k (kmem k (m1_p2 m)) who) k }"

definition do_fstat :: "int \<Rightarrow> addr \<Rightarrow> 'a fsk_scheme \<Rightarrow> ('a fsk_scheme \<times> int) option" where
  "do_fstat who m k =
     do { ok \<leftarrow> user_ok k (kmem k (m1_p1 m)) 13 who;
          if \<not> ok then Some (k, - EFAULT) else sys_fstat who (kmem k (m1_i1 m)) (phys k (kmem k (m1_p1 m)) who) k }"

definition sys_statfs :: "int \<Rightarrow> addr \<Rightarrow> addr \<Rightarrow> 'a fsk_scheme \<Rightarrow> ('a fsk_scheme \<times> int) option" where
  "sys_statfs who path buf k =
     do { (k, ret, last_dir, inode) \<leftarrow> eat_path who path (kstring k) k;
          if ret \<noteq> 0 then Some (k, ret)
          else do {
            (k, ret) \<leftarrow>
              (case last_dir of
                 None \<Rightarrow> Some (k, - ENOENT)
               | Some ld \<Rightarrow>
                   (case get_sb (i_dev (inodes k ld)) k of
                      None \<Rightarrow> Some (k, - ENOSYS)
                    | Some sb \<Rightarrow>
                        do { bsize \<leftarrow> DEARCH_CHAR_SIZE (s_block_size sb) sb;
                             let ws = [sb_magic sb, bsize, s_block_inuse sb + s_free_blocks sb, s_free_blocks sb, s_free_blocks sb,
                                       s_inode_inuse sb + s_free_inodes sb, s_free_inodes sb, NAME_MAX];
                             Some (upd_mem (\<lambda>m a. if buf \<le> a \<and> a < buf + 8 then ws ! nat (a - buf) else m a) k, 0) }));
            (k, _) \<leftarrow> put_inode last_dir False k;
            (k, _) \<leftarrow> put_inode inode False k;
            Some (k, ret) } }"

definition do_statfs :: "int \<Rightarrow> addr \<Rightarrow> 'a fsk_scheme \<Rightarrow> ('a fsk_scheme \<times> int) option" where
  "do_statfs who m k =
     do { ok1 \<leftarrow> is_vaddr_accessible k (kmem k (m1_p1 m)) who;
          ok2 \<leftarrow> (if ok1 then is_vaddr_accessible k (kmem k (m1_p2 m)) who else Some True);
          if \<not> ok1 \<or> \<not> ok2 then Some (k, - EFAULT)
          else sys_statfs who (phys k (kmem k (m1_p1 m)) who) (phys k (kmem k (m1_p2 m)) who) k }"

definition do_sync :: "int \<Rightarrow> addr \<Rightarrow> 'a fsk_scheme \<Rightarrow> ('a fsk_scheme \<times> int) option" where
  "do_sync who m k =
     do { (k, _) \<leftarrow> flush_all_buffer k;
          k \<leftarrow> flush_inodes k;
          k \<leftarrow> flush_super_block (get_dev ROOT_DEV k) k;
          Some (k, 0) }"

section \<open>Listing a directory and the working directory\<close>

partial_function (option) getdents_loop ::
  "dirent_iterator \<Rightarrow> addr \<Rightarrow> int \<Rightarrow> int \<Rightarrow> 'a fsk_scheme \<Rightarrow> ('a fsk_scheme \<times> dirent_iterator \<times> int) option" where
  "getdents_loop iter dst count ret k =
     do { (k, iter, more) \<leftarrow> iter_dirent_has_next iter k;
          if \<not> more \<or> count = 0 then Some (k, iter, ret)
          else do {
            (k, iter, cur) \<leftarrow> iter_dirent_get_next iter k;
            if kmem k (d_ino cur) > 0
            then getdents_loop iter (dst + 31) (count - 1) (ret + 31) (upd_mem (memcpy dst cur 31) k)
            else getdents_loop iter dst count ret k } }"

definition sys_getdents :: "int \<Rightarrow> int \<Rightarrow> addr \<Rightarrow> int \<Rightarrow> 'a fsk_scheme \<Rightarrow> ('a fsk_scheme \<times> int) option" where
  "sys_getdents who fd dst count k =
     do { valid \<leftarrow> is_fd_opened_and_valid who fd k;
          if \<not> valid then Some (k, - EBADF)
          else do {
            f \<leftarrow> fd_slot who fd k; f \<leftarrow> f;
            dirp \<leftarrow> filp_ino (filps k f);
            if \<not> S_ISDIR (i_mode (inodes k dirp)) then Some (k, - ENOTDIR)
            else do {
              (k, iter) \<leftarrow> iter_dirent_init dirp (getdents_zone_nr (filps k f)) (getdents_dirstream_nr (filps k f)) False k;
              (k, iter, ret) \<leftarrow> getdents_loop iter dst count 0 k;
              b \<leftarrow> di_buffer iter;
              let k = upd_filp f (\<lambda>r. r\<lparr>getdents_zone_nr := zi_zone_idx (di_zone_iter iter) - 1,
                                        getdents_dirstream_nr := (di_dirent iter - block_of k b) div DIRENT_LEN\<rparr>) k;
              (k, _) \<leftarrow> iter_dirent_close iter k;
              Some (k, ret) } } }"

definition do_getdents :: "int \<Rightarrow> addr \<Rightarrow> 'a fsk_scheme \<Rightarrow> ('a fsk_scheme \<times> int) option" where
  "do_getdents who m k =
     do { ok \<leftarrow> user_ok k (kmem k (m1_p1 m)) (31 * kmem k (m1_i2 m)) who;
          if \<not> ok then Some (k, - EFAULT)
          else sys_getdents who (kmem k (m1_i1 m)) (phys k (kmem k (m1_p1 m)) who) (kmem k (m1_i2 m) mod 2 ^ 32) k }"

text \<open>
  \<^verbatim>\<open>sys_getcwd\<close> fills the user's buffer from its end; the result is the code and the start of the
  path.
\<close>

partial_function (option) getcwd_loop ::
  "addr \<Rightarrow> int \<Rightarrow> int \<Rightarrow> int \<Rightarrow> addr \<Rightarrow> 'a fsk_scheme \<Rightarrow> ('a fsk_scheme \<times> int \<times> int \<times> addr) option" where
  "getcwd_loop dot2 sz inode len p k =
     (if i_num (inodes k inode) \<noteq> ROOT_INODE_NUM
      then do {
        (k, inum) \<leftarrow> get_parent_inode_num dot2 inode k;
        (k, parent) \<leftarrow> get_inode inum (i_dev (inodes k inode)) k;
        if parent = None then None
        else do {
          (k, ret2) \<leftarrow> get_child_inode_name (the parent) inode (kstring k) k;
          if ret2 < 0 then Some (k, ret2, inode, p)
          else do {
            (k, _) \<leftarrow> put_inode (Some inode) False k;
            if len + (ret2 + 1) \<ge> sz then Some (k, - ERANGE, the parent, p)
            else getcwd_loop dot2 sz (the parent) (len + (ret2 + 1)) (p - 1 - ret2)
                   (upd_mem (\<lambda>m. memcpy (p - 1 - ret2) (kstring k) ret2 (m(p - 1 := slash))) k) } } }
      else Some (upd_mem (\<lambda>m. m(p - 1 := slash)) k, 0, inode, p - 1))"

definition sys_getcwd :: "addr \<Rightarrow> int \<Rightarrow> addr \<Rightarrow> int \<Rightarrow> 'a fsk_scheme \<Rightarrow> ('a fsk_scheme \<times> int \<times> addr) option" where
  "sys_getcwd dot2 who pathname sz k =
     (if sz \<le> 1 then Some (k, - ERANGE, NULL)
      else do {
        let p = pathname + sz - 1;
        let k = upd_mem (\<lambda>m. m(p := 0)) k;
        inode \<leftarrow> p_fp_workdir (procs k who);
        let k = upd_inode inode (i_count_update (\<lambda>c. c + 1)) k;
        (k, ret, inode, p) \<leftarrow> getcwd_loop dot2 sz inode 1 p k;
        (k, _) \<leftarrow> put_inode (Some inode) False k;
        Some (k, ret, p) })"

definition do_getcwd :: "addr \<Rightarrow> int \<Rightarrow> addr \<Rightarrow> 'a fsk_scheme \<Rightarrow> ('a fsk_scheme \<times> int) option" where
  "do_getcwd dot2 who m k =
     do { let sz = kmem k (m1_i1 m);
          ok \<leftarrow> user_ok k (kmem k (m1_p1 m)) sz who;
          if \<not> ok then Some (k, - EFAULT)
          else do {
            (k, ret, p) \<leftarrow> sys_getcwd dot2 who (phys k (kmem k (m1_p1 m)) who) sz k;
            Some (k, if ret \<noteq> 0 then ret else to_int (vaddr k p who)) } }"

end
