(* ===== verification/Pipe.thy ===== *)
theory Pipe
  imports Filp Slab Sched
begin

text \<open>
  Pipes (\<^verbatim>\<open>fs/system/pipe.c\<close>): a page of data shared by two open files, with the lists of
  processes blocked on it. The structures from the kernel allocator are records in stores
  indexed by address; the two rings of waiting requests of an inode are the sequences of their
  entries, newest first, as \<^verbatim>\<open>list_add\<close> puts them in. The local message lives at
  \<open>ktmp_mesg\<close>.
\<close>

abbreviation (input) PIPE_LIMIT :: int where "PIPE_LIMIT \<equiv> 1024"
abbreviation (input) PIPE_INODE_INUM :: int where "PIPE_INODE_INUM \<equiv> 2147483647"
abbreviation (input) FILP_PIPE_READ :: int where "FILP_PIPE_READ \<equiv> 2"
abbreviation (input) FILP_PIPE_WRITE :: int where "FILP_PIPE_WRITE \<equiv> 0"
abbreviation (input) O_NONBLOCK :: u32 where "O_NONBLOCK \<equiv> 0x4000"
abbreviation (input) READ :: int where "READ \<equiv> 23"
abbreviation (input) WRITE :: int where "WRITE \<equiv> 24"
abbreviation (input) SIGPIPE :: int where "SIGPIPE \<equiv> 13"
abbreviation (input) pipe_dev :: int where "pipe_dev \<equiv> 1"
abbreviation (input) S_IFIFO :: int where "S_IFIFO \<equiv> 0x1000"

record filp_pipe =
  pipe_data :: addr
  pipe_pos :: int

record pipe_waiting =
  w_who :: int
  w_sys_call_num :: int
  w_filp :: int
  w_data :: addr
  w_count :: int
  w_offset :: int

record psk = fsk +
  kblocks :: "addr \<Rightarrow> mem_block"
  kbase :: addr
  pipes :: "addr \<Rightarrow> filp_pipe"
  waitings :: "addr \<Rightarrow> pipe_waiting"
  pipe_reading_list :: "int \<Rightarrow> addr list"
  pipe_writing_list :: "int \<Rightarrow> addr list"

text \<open>The kernel allocator on this state.\<close>

definition slab_of :: "'a psk_scheme \<Rightarrow> slab" where
  "slab_of k = \<lparr>blocks = kblocks k, base = kbase k, smm = kmm k\<rparr>"

definition set_slab :: "slab \<Rightarrow> 'a psk_scheme \<Rightarrow> 'a psk_scheme" where
  "set_slab s k = k\<lparr>kblocks := blocks s, kbase := base s, kmm := smm s\<rparr>"

definition pk_kmalloc :: "int \<Rightarrow> int \<Rightarrow> 'a psk_scheme \<Rightarrow> ('a psk_scheme \<times> addr) option" where
  "pk_kmalloc n sz k = do { (s, p) \<leftarrow> kmalloc n sz NULL (slab_of k); Some (set_slab s k, p) }"

definition pk_kfree :: "addr \<Rightarrow> 'a psk_scheme \<Rightarrow> 'a psk_scheme" where
  "pk_kfree p k = set_slab (kfree p NULL (slab_of k)) k"

definition upd_pipe :: "addr \<Rightarrow> (filp_pipe \<Rightarrow> filp_pipe) \<Rightarrow> 'a psk_scheme \<Rightarrow> 'a psk_scheme" where
  "upd_pipe p f k = k\<lparr>pipes := (pipes k)(p := f (pipes k p))\<rparr>"

section \<open>The data\<close>

primrec shift_loop :: "nat \<Rightarrow> addr \<Rightarrow> int \<Rightarrow> int \<Rightarrow> memory \<Rightarrow> memory" where
  "shift_loop 0 dat i j m = m"
| "shift_loop (Suc n) dat i j m = shift_loop n dat (i + 1) (j + 1) (m(dat + j := m (dat + i), dat + i := 0))"

definition shift_pipe_data :: "int \<Rightarrow> int \<Rightarrow> 'a psk_scheme \<Rightarrow> 'a psk_scheme option" where
  "shift_pipe_data file i k =
     do { p \<leftarrow> filp_pipe (filps k file);
          let dat = pipe_data (pipes k p);
          let e = pipe_pos (pipes k p);
          let j = (if i < e then e - i else 0);
          let k = upd_mem (shift_loop (nat (e - i)) dat i 0) k;
          let k = upd_mem (memset (dat + j) 0 (e - j)) k;
          Some (upd_pipe p (pipe_pos_update (\<lambda>_. j)) k) }"

definition pipe_do_read :: "int \<Rightarrow> addr \<Rightarrow> int \<Rightarrow> 'a psk_scheme \<Rightarrow> ('a psk_scheme \<times> int) option" where
  "pipe_do_read file dat count k =
     do { p \<leftarrow> filp_pipe (filps k file);
          let e = (if count < pipe_pos (pipes k p) then count else pipe_pos (pipes k p));
          let k = upd_mem (memcpy_loop (nat e) dat (pipe_data (pipes k p))) k;
          k \<leftarrow> shift_pipe_data file e k;
          Some (k, to_int e) }"

definition pipe_do_write :: "int \<Rightarrow> addr \<Rightarrow> int \<Rightarrow> 'a psk_scheme \<Rightarrow> ('a psk_scheme \<times> int) option" where
  "pipe_do_write file dat count k =
     do { p \<leftarrow> filp_pipe (filps k file);
          let off = pipe_pos (pipes k p);
          let e = (if (off + count) mod 2 ^ 32 < PIPE_LIMIT then (off + count) mod 2 ^ 32 else PIPE_LIMIT);
          let n = (if off < e then e - off else 0);
          let k = upd_mem (memcpy_loop (nat n) (pipe_data (pipes k p) + off) dat) k;
          Some (upd_pipe p (pipe_pos_update (\<lambda>x. x + n)) k, n) }"

section \<open>Waiting\<close>

text \<open>Performing the request of a blocked process and waking it.\<close>

definition wake :: "addr \<Rightarrow> int \<Rightarrow> 'a psk_scheme \<Rightarrow> 'a psk_scheme option" where
  "wake w ret k =
     do { let who = w_who (waitings k w);
          let k = upd_proc who (p_flags_update (\<lambda>f. clear_flag f STATE_WAITING)) k;
          (k, _) \<leftarrow> syscall_reply2 (w_sys_call_num (waitings k w)) ret (p_proc_nr (procs k who)) (ktmp_mesg k) k;
          Some k }"

definition finish_read :: "addr \<Rightarrow> 'a psk_scheme \<Rightarrow> 'a psk_scheme option" where
  "finish_read w k =
     do { (k, ret) \<leftarrow> pipe_do_read (w_filp (waitings k w)) (w_data (waitings k w)) (w_count (waitings k w)) k; wake w ret k }"

definition finish_write :: "addr \<Rightarrow> 'a psk_scheme \<Rightarrow> 'a psk_scheme option" where
  "finish_write w k =
     do { (k, ret) \<leftarrow> pipe_do_write (w_filp (waitings k w)) (w_data (waitings k w)) (w_count (waitings k w)) k; wake w ret k }"

definition del_reading :: "int \<Rightarrow> addr \<Rightarrow> 'a psk_scheme \<Rightarrow> 'a psk_scheme" where
  "del_reading ino w k = k\<lparr>pipe_reading_list := (pipe_reading_list k)(ino := remove1 w (pipe_reading_list k ino))\<rparr>"

definition del_writing :: "int \<Rightarrow> addr \<Rightarrow> 'a psk_scheme \<Rightarrow> 'a psk_scheme" where
  "del_writing ino w k = k\<lparr>pipe_writing_list := (pipe_writing_list k)(ino := remove1 w (pipe_writing_list k ino))\<rparr>"

definition get_next_waiting :: "addr list \<Rightarrow> addr option" where
  "get_next_waiting ws = (case ws of [] \<Rightarrow> None | w # _ \<Rightarrow> Some w)"

definition pipe_read :: "int \<Rightarrow> addr \<Rightarrow> int \<Rightarrow> int \<Rightarrow> 'a psk_scheme \<Rightarrow> ('a psk_scheme \<times> int) option" where
  "pipe_read file dat count offset k =
     (if filp_pipe_mode (filps k file) = FILP_PIPE_WRITE then Some (k, 0)
      else do {
        ino \<leftarrow> filp_ino (filps k file);
        p \<leftarrow> filp_pipe (filps k file);
        if pipe_pos (pipes k p) = 0
        then (if has_flag (filp_flags (filps k file)) O_NONBLOCK then Some (k, 0)
              else if i_count (inodes k ino) = 1 then Some (k, 0)
              else do {
                (k, w) \<leftarrow> pk_kmalloc 1 8 k;
                if w = NULL then Some (k, - ENOMEM)
                else do {
                  caller \<leftarrow> curr_syscall_caller k;
                  let k = upd_proc caller (p_flags_update (\<lambda>f. set_flag f STATE_WAITING)) k;
                  let k = k\<lparr>waitings := (waitings k)(w := \<lparr>w_who = caller, w_sys_call_num = READ, w_filp = file, w_data = dat,
                                w_count = count, w_offset = 0\<rparr>)\<rparr>;
                  Some (k\<lparr>pipe_reading_list := (pipe_reading_list k)(ino := w # pipe_reading_list k ino)\<rparr>, SUSPEND) } })
        else do {
          (k, ret) \<leftarrow> pipe_do_read file dat count k;
          case get_next_waiting (pipe_writing_list k ino) of
            None \<Rightarrow> Some (k, ret)
          | Some w \<Rightarrow>
              do { let k = del_writing ino w k;
                   k \<leftarrow> finish_write w k;
                   let k = pk_kfree (w_data (waitings k w)) k;
                   Some (pk_kfree w k, ret) } } })"

text \<open>
  The blocked writer's copy of its data. The source tests \<^verbatim>\<open>next\<close> again after the second
  allocation, so a null copy is used as an address.
\<close>

definition pipe_write :: "int \<Rightarrow> addr \<Rightarrow> int \<Rightarrow> int \<Rightarrow> 'a psk_scheme \<Rightarrow> ('a psk_scheme \<times> int) option" where
  "pipe_write file dat count offset k =
     (if filp_pipe_mode (filps k file) = FILP_PIPE_READ then Some (k, 0)
      else do {
        ino \<leftarrow> filp_ino (filps k file);
        p \<leftarrow> filp_pipe (filps k file);
        if i_count (inodes k ino) = 1
        then do { caller \<leftarrow> curr_syscall_caller k;
                  act \<leftarrow> aget (p_sig_table (procs k caller)) SIGPIPE;
                  if sa_handler act = SIG_IGN then Some (k, - EPIPE)
                  else do { (k, _) \<leftarrow> send_sig caller SIGPIPE k; Some (k, SUSPEND) } }
        else if count > PIPE_LIMIT then Some (k, - ENOSPC)
        else do {
          k \<leftarrow> (if count > PIPE_LIMIT - pipe_pos (pipes k p)
                then (case get_next_waiting (pipe_reading_list k ino) of
                        None \<Rightarrow> Some k
                      | Some w \<Rightarrow> do { k \<leftarrow> finish_read w (del_reading ino w k); Some (pk_kfree w k) })
                else Some k);
          if count > PIPE_LIMIT - pipe_pos (pipes k p)
          then (if has_flag (filp_flags (filps k file)) O_NONBLOCK then Some (k, 0)
                else do {
                  (k, w) \<leftarrow> pk_kmalloc 1 8 k;
                  if w = NULL then Some (k, - ENOMEM)
                  else do {
                    (k, copy) \<leftarrow> pk_kmalloc count 1 k;
                    let k = upd_mem (memcpy_loop (nat count) copy dat) k;
                    caller \<leftarrow> curr_syscall_caller k;
                    let k = upd_proc caller (p_flags_update (\<lambda>f. set_flag f STATE_WAITING)) k;
                    let k = k\<lparr>waitings := (waitings k)(w := \<lparr>w_who = caller, w_sys_call_num = WRITE, w_filp = file, w_data = copy,
                                w_count = count, w_offset = offset\<rparr>)\<rparr>;
                    Some (k\<lparr>pipe_writing_list := (pipe_writing_list k)(ino := w # pipe_writing_list k ino)\<rparr>, SUSPEND) } })
          else pipe_do_write file dat count k } })"

section \<open>Opening and closing\<close>

definition pipe_open :: "int \<Rightarrow> 'a psk_scheme \<Rightarrow> ('a psk_scheme \<times> int) option" where
  "pipe_open file k = Some (k, 0)"

text \<open>Closing the last descriptor of an end performs every request blocked on the other.\<close>

partial_function (option) drain_reading :: "int \<Rightarrow> 'a psk_scheme \<Rightarrow> 'a psk_scheme option" where
  "drain_reading ino k =
     (if pipe_reading_list k ino = [] then Some k
      else do { let w = hd (pipe_reading_list k ino);
                k \<leftarrow> finish_read w (del_reading ino w k);
                drain_reading ino (pk_kfree w k) })"

partial_function (option) drain_writing :: "int \<Rightarrow> 'a psk_scheme \<Rightarrow> 'a psk_scheme option" where
  "drain_writing ino k =
     (if pipe_writing_list k ino = [] then Some k
      else do { let w = hd (pipe_writing_list k ino);
                k \<leftarrow> finish_write w (del_writing ino w k);
                drain_writing ino (pk_kfree w k) })"

definition pipe_close :: "int \<Rightarrow> 'a psk_scheme \<Rightarrow> ('a psk_scheme \<times> int) option" where
  "pipe_close file k =
     do { ino \<leftarrow> filp_ino (filps k file);
          let k = upd_filp file (filp_count_update (\<lambda>c. c - 1)) k;
          if filp_count (filps k file) = 0
          then do {
            let k = upd_inode ino (i_count_update (\<lambda>c. c - 1)) k;
            k \<leftarrow> (if filp_pipe_mode (filps k file) = FILP_PIPE_READ then drain_writing ino k else drain_reading ino k);
            if i_count (inodes k ino) = 0
            then do { p \<leftarrow> filp_pipe (filps k file);
                      (mm, _) \<leftarrow> release_pages (kmm k) (pipe_data (pipes k p)) PAGE_LEN;
                      let k = pk_kfree p (k\<lparr>kmm := mm\<rparr>);
                      Some (upd_inode ino (\<lambda>_. inode_zero) k, 0) }
            else Some (k, 0) }
          else Some (k, 0) }"

text \<open>A free entry in the table of open files and a free descriptor.\<close>

definition set_filp :: "int \<Rightarrow> 'a fsk_scheme \<Rightarrow> 'a fsk_scheme \<times> (int + int \<times> int)" where
  "set_filp who k =
     (case get_free_filp k of
        (k, None) \<Rightarrow> (k, Inl (- ENFILE))
      | (k, Some file) \<Rightarrow>
          (case get_fd who 0 file k of
             (k, Inl ret) \<Rightarrow> (k, Inl ret)
           | (k, Inr open_slot) \<Rightarrow> (k, Inr (open_slot, file))))"

definition make_end :: "int \<Rightarrow> int \<Rightarrow> int \<Rightarrow> addr \<Rightarrow> int \<Rightarrow> int \<Rightarrow> addr \<Rightarrow> 'a psk_scheme \<Rightarrow> 'a psk_scheme option" where
  "make_end who file mode pipe ino fd fdp k =
     (let k = upd_filp file (\<lambda>r. r\<lparr>filp_pipe_mode := mode, filp_pipe := Some pipe\<rparr>) k;
          k = fst (init_filp_by_inode file ino k)
      in do { k \<leftarrow> set_fd_slot who fd (Some file) k; Some (upd_mem (\<lambda>m. m(fdp := fd)) k) })"

text \<open>The clean-up labels of \<^verbatim>\<open>sys_pipe\<close>, from the last one up.\<close>

definition undo_page :: "addr \<Rightarrow> 'a psk_scheme \<Rightarrow> 'a psk_scheme option" where
  "undo_page ptr k = do { (mm, _) \<leftarrow> release_pages (kmm k) ptr PAGE_LEN; Some (k\<lparr>kmm := mm\<rparr>) }"

definition undo_pipe :: "addr \<Rightarrow> addr \<Rightarrow> 'a psk_scheme \<Rightarrow> 'a psk_scheme option" where
  "undo_pipe pipe ptr k = undo_page ptr (pk_kfree pipe k)"

definition undo_inode :: "int \<Rightarrow> addr \<Rightarrow> addr \<Rightarrow> 'a psk_scheme \<Rightarrow> 'a psk_scheme option" where
  "undo_inode ino pipe ptr k = undo_pipe pipe ptr (upd_inode ino (i_count_update (\<lambda>_. 0)) k)"

definition sys_pipe :: "int \<Rightarrow> addr \<Rightarrow> 'a psk_scheme \<Rightarrow> ('a psk_scheme \<times> int) option" where
  "sys_pipe who fd k =
     do { (mm, ptr) \<leftarrow> get_free_pages (kmm k) PAGE_LEN GFP_HIGH;
          let k = k\<lparr>kmm := mm\<rparr>;
          if ptr = NULL then Some (k, - ENOMEM)
          else do {
            (k, pipe) \<leftarrow> pk_kmalloc 1 3 k;
            if pipe = NULL then do { k \<leftarrow> undo_page ptr k; Some (k, - ENOMEM) }
            else do {
              let k = upd_pipe pipe (\<lambda>r. r\<lparr>pipe_data := ptr, pipe_pos := 0\<rparr>) k;
              case get_free_inode_slot k of
                (k, None) \<Rightarrow> do { k \<leftarrow> undo_pipe pipe ptr k; Some (k, - ENFILE) }
              | (k, Some ino) \<Rightarrow>
                  do { let k = upd_inode ino (\<lambda>r. r\<lparr>i_flags := set_flag (i_flags r) INODE_FLAG_PIPE, i_count := 2, i_nlinks := 1\<rparr>) k;
                       (k, _) \<leftarrow> init_inode_non_disk ino PIPE_INODE_INUM (Some pipe_dev) None k;
                       case set_filp who k of
                         (k, Inl ret) \<Rightarrow> do { k \<leftarrow> undo_inode ino pipe ptr k; Some (k, ret) }
                       | (k, Inr (fd1, file1)) \<Rightarrow>
                           do { k \<leftarrow> make_end who file1 FILP_PIPE_READ pipe ino fd1 fd k;
                                case set_filp who k of
                                  (k, Inl ret) \<Rightarrow>
                                    do { k \<leftarrow> set_fd_slot who fd1 None k;
                                         k \<leftarrow> undo_inode ino pipe ptr (fst (release_filp file1 k));
                                         Some (k, ret) }
                                | (k, Inr (fd2, file2)) \<Rightarrow>
                                    do { k \<leftarrow> make_end who file2 FILP_PIPE_WRITE pipe ino fd2 (fd + 1) k;
                                         Some (k\<lparr>pipe_writing_list := (pipe_writing_list k)(ino := []),
                                                 pipe_reading_list := (pipe_reading_list k)(ino := [])\<rparr>, 0) } } } } } }"

definition do_pipe :: "int \<Rightarrow> addr \<Rightarrow> 'a psk_scheme \<Rightarrow> ('a psk_scheme \<times> int) option" where
  "do_pipe who m k =
     do { let vp = kmem k (m1_p1 m);
          ok \<leftarrow> is_vaddr_accessible k vp who;
          if \<not> ok then Some (k, - EFAULT) else sys_pipe who (phys k vp who) k }"

definition init_pipe :: "'a fsk_scheme \<Rightarrow> 'a fsk_scheme" where
  "init_pipe k = fst (register_device pipe_dev 0x201 S_IFIFO k)"

definition pipe_fops :: "'a psk_scheme filp_operations" where
  "pipe_fops = \<lparr>fop_open = pipe_open, fop_read = pipe_read, fop_write = pipe_write, fop_close = pipe_close, fop_ioctl = \<lambda>_ _ _ _. None\<rparr>"

section \<open>The buffer as a bounded queue of words\<close>

definition pipe_words :: "int \<Rightarrow> 'a psk_scheme \<Rightarrow> int list" where
  "pipe_words file k =
     (case filp_pipe (filps k file) of
        None \<Rightarrow> []
      | Some p \<Rightarrow> mem_words (kmem k) (pipe_data (pipes k p)) (nat (pipe_pos (pipes k p))))"

definition pipe_ok :: "int \<Rightarrow> addr \<Rightarrow> addr \<Rightarrow> 'a psk_scheme \<Rightarrow> bool" where
  "pipe_ok file p d k \<longleftrightarrow> filp_pipe (filps k file) = Some p \<and> pipe_data (pipes k p) = d \<and>
     0 \<le> pipe_pos (pipes k p) \<and> pipe_pos (pipes k p) \<le> PIPE_LIMIT"

text \<open>A buffer of words outside the pipe's page, of a size that a C integer holds.\<close>

definition outside_page :: "addr \<Rightarrow> addr \<times> int \<Rightarrow> bool" where
  "outside_page d b \<longleftrightarrow> (case b of (a, n) \<Rightarrow> 0 < n \<and> n < 2 ^ 31 \<and> (a + n \<le> d \<or> d + PIPE_LIMIT \<le> a))"

lemma upd_pipe_simps [simp]:
  "kmem (upd_pipe p f k) = kmem k" "filps (upd_pipe p f k) = filps k" "procs (upd_pipe p f k) = procs k"
  "pipes (upd_pipe p f k) = (pipes k)(p := f (pipes k p))" "inodes (upd_pipe p f k) = inodes k"
  "pipe_reading_list (upd_pipe p f k) = pipe_reading_list k" "pipe_writing_list (upd_pipe p f k) = pipe_writing_list k"
  "waitings (upd_pipe p f k) = waitings k" "ktmp_mesg (upd_pipe p f k) = ktmp_mesg k" "ready_q (upd_pipe p f k) = ready_q k"
  by (simp_all add: upd_pipe_def)

lemma upd_mem_psk [simp]:
  "pipes (upd_mem g k) = pipes k" "pipe_reading_list (upd_mem g k) = pipe_reading_list k"
  "pipe_writing_list (upd_mem g k) = pipe_writing_list k" "waitings (upd_mem g k) = waitings k"
  "filps (upd_mem g k) = filps k" "inodes (upd_mem g k) = inodes k" "kmem (upd_mem g k) = g (kmem k)"
  "ktmp_mesg (upd_mem g k) = ktmp_mesg k"
  by (simp_all add: upd_mem_def)

text \<open>Moving the rest of the data down.\<close>

lemma shift_loop_apply:
  "j < i \<Longrightarrow> shift_loop n dat i j m a =
     (if dat + j \<le> a \<and> a < dat + j + int n then m (a + (i - j))
      else if dat + i \<le> a \<and> a < dat + i + int n then 0 else m a)"
  by (induction n arbitrary: i j m) auto

lemma shift_loop_same: "shift_loop n dat i i m a = (if dat + i \<le> a \<and> a < dat + i + int n then 0 else m a)"
  by (induction n arbitrary: i m) auto

lemma pipe_do_write_run:
  assumes "pipe_ok file p d k" "outside_page d (dat, count)" and e: "n = min count (PIPE_LIMIT - pipe_pos (pipes k p))"
  shows "\<exists>m. pipe_do_write file dat count k = Some (upd_pipe p (pipe_pos_update (\<lambda>x. x + n)) (upd_mem (\<lambda>_. m) k), n) \<and>
     mem_words m d (nat (pipe_pos (pipes k p) + n)) = pipe_words file k @ mem_words (kmem k) dat (nat n) \<and>
     (\<forall>x. x < d \<or> d + PIPE_LIMIT \<le> x \<longrightarrow> m x = kmem k x)"
proof -
  let ?pos = "pipe_pos (pipes k p)"
  define m where "m = memcpy_loop (nat n) (d + ?pos) dat (kmem k)"
  have pos: "0 \<le> ?pos" "?pos \<le> 1024" "filp_pipe (filps k file) = Some p" "pipe_data (pipes k p) = d"
    using assms(1) by (auto simp: pipe_ok_def)
  have b: "0 < count" "count < 2 ^ 31" "dat + count \<le> d \<or> d + 1024 \<le> dat" using assms(2) by (auto simp: outside_page_def)
  have n: "0 \<le> n" "n \<le> count" "n \<le> 1024 - ?pos" using e pos b by auto
  have run: "pipe_do_write file dat count k = Some (upd_pipe p (pipe_pos_update (\<lambda>x. x + n)) (upd_mem (\<lambda>_. m) k), n)"
  proof -
    have w: "(?pos + count) mod 2 ^ 32 = ?pos + count" using pos b by simp
    have "(if (?pos + count) mod 2 ^ 32 < 1024 then (?pos + count) mod 2 ^ 32 else 1024) = ?pos + n"
      unfolding w using e by auto
    moreover have "(if ?pos < ?pos + n then ?pos + n - ?pos else 0) = n" using n by simp
    ultimately show ?thesis
      by (simp only: pipe_do_write_def pos Option.bind.bind_lunit Let_def upd_mem_psk) (simp add: m_def upd_mem_def)
  qed
  have sep: "d + ?pos \<le> dat \<or> dat + int (nat n) \<le> d + ?pos" using b n pos by auto
  have "mem_words m d (nat ?pos) = mem_words (kmem k) d (nat ?pos)"
    by (rule mem_words_frame) (use sep pos in \<open>auto simp: m_def memcpy_loop_apply\<close>)
  moreover have "mem_words m (d + ?pos) (nat n) = mem_words (kmem k) dat (nat n)"
    unfolding m_def by (rule mem_words_memcpy [OF sep order_refl])
  moreover have "nat (?pos + n) = nat ?pos + nat n" using pos n by simp
  ultimately have "mem_words m d (nat (?pos + n)) = pipe_words file k @ mem_words (kmem k) dat (nat n)"
    using pos by (simp add: mem_words_add pipe_words_def)
  moreover have "m x = kmem k x" if "x < d \<or> d + 1024 \<le> x" for x
    using that sep n pos by (auto simp: m_def memcpy_loop_apply)
  ultimately show ?thesis using run by blast
qed

lemma pipe_do_read_run:
  assumes "pipe_ok file p d k" "outside_page d (dat, count)" and e: "n = min count (pipe_pos (pipes k p))"
  shows "\<exists>m. pipe_do_read file dat count k = Some (upd_pipe p (pipe_pos_update (\<lambda>_. pipe_pos (pipes k p) - n)) (upd_mem (\<lambda>_. m) k), n) \<and>
     mem_words m d (nat (pipe_pos (pipes k p) - n)) = drop (nat n) (pipe_words file k) \<and>
     mem_words m dat (nat n) = take (nat n) (pipe_words file k) \<and>
     (\<forall>x. (x < d \<or> d + PIPE_LIMIT \<le> x) \<and> (x < dat \<or> dat + n \<le> x) \<longrightarrow> m x = kmem k x)"
proof -
  let ?pos = "pipe_pos (pipes k p)"
  define m1 where "m1 = memcpy_loop (nat n) dat d (kmem k)"
  define m2 where "m2 = shift_loop (nat (?pos - n)) d n 0 m1"
  define m where "m = memset (d + (?pos - n)) 0 n m2"
  have pos: "0 \<le> ?pos" "?pos \<le> 1024" "filp_pipe (filps k file) = Some p" "pipe_data (pipes k p) = d"
    using assms(1) by (auto simp: pipe_ok_def)
  have b: "0 < count" "count < 2 ^ 31" "dat + count \<le> d \<or> d + 1024 \<le> dat" using assms(2) by (auto simp: outside_page_def)
  have n: "0 \<le> n" "n \<le> count" "n \<le> ?pos" "n = 0 \<longrightarrow> ?pos = 0" using e pos b by auto
  have ti: "to_int n = n" using n pos by (intro to_int_small) auto
  have sh: "shift_pipe_data file n (upd_mem (\<lambda>_. m1) k) = Some (upd_pipe p (pipe_pos_update (\<lambda>_. ?pos - n)) (upd_mem (\<lambda>_. m) k))"
  proof -
    have "(if n < ?pos then ?pos - n else 0) = ?pos - n" using n by simp
    then show ?thesis by (simp add: shift_pipe_data_def pos Let_def m_def m2_def upd_mem_def)
  qed
  have run: "pipe_do_read file dat count k = Some (upd_pipe p (pipe_pos_update (\<lambda>_. ?pos - n)) (upd_mem (\<lambda>_. m) k), n)"
  proof -
    have "(if count < ?pos then count else ?pos) = n" using e by auto
    with sh ti show ?thesis by (simp only: pipe_do_read_def pos Option.bind.bind_lunit Let_def) (simp add: m1_def upd_mem_def)
  qed
  have sep: "dat \<le> d \<or> d + int (nat n) \<le> dat" using b n pos by auto
  have m1: "m1 x = (if dat \<le> x \<and> x < dat + n then kmem k (d + (x - dat)) else kmem k x)" for x
    using memcpy_loop_apply [OF sep] n(1) by (simp add: m1_def)
  have m: "m x = (if d \<le> x \<and> x < d + (?pos - n) then m1 (x + n) else if d + (?pos - n) \<le> x \<and> x < d + ?pos then 0 else m1 x)" for x
  proof (cases "n = 0")
    case True
    then have "?pos = 0" using n(4) by simp
    with True show ?thesis by (simp add: m_def m2_def memset_apply)
  next
    case False
    with n show ?thesis by (simp add: m_def m2_def memset_apply shift_loop_apply)
  qed
  have "mem_words m d (nat (?pos - n)) = drop (nat n) (pipe_words file k)"
    using pos n b by (auto simp: pipe_words_def nat_diff_distrib m m1 intro!: mem_words_eqI arg_cong [where f = "kmem k"])
  moreover have "mem_words m dat (nat n) = take (nat n) (pipe_words file k)"
    using pos n b by (auto simp: pipe_words_def min_def m m1 intro!: mem_words_eqI arg_cong [where f = "kmem k"])
  moreover have "m x = kmem k x" if "x < d \<or> d + 1024 \<le> x" "x < dat \<or> dat + n \<le> x" for x
    using that pos n by (auto simp: m m1)
  ultimately show ?thesis using run by blast
qed

text \<open>
  The promise of a bounded stream of words: a write appends what fits of the words offered, a read
  takes words from the front into the reader's buffer. Whatever else happens between them leaves the
  stream alone.
\<close>

datatype ('b, 'k) stream_op = Put 'b | Get 'b | Other "'k \<Rightarrow> 'k"

primrec run_stream ::
  "('b \<Rightarrow> 'k \<Rightarrow> ('k \<times> int) option) \<Rightarrow> ('b \<Rightarrow> 'k \<Rightarrow> ('k \<times> int) option) \<Rightarrow> ('b \<Rightarrow> 'k \<Rightarrow> 'w list) \<Rightarrow>
   ('b, 'k) stream_op list \<Rightarrow> 'k \<Rightarrow> ('k \<times> 'w list \<times> 'w list) option" where
  "run_stream wr rd buf [] k = Some (k, [], [])"
| "run_stream wr rd buf (x # xs) k =
     (case x of
        Put b \<Rightarrow> do { (k1, n) \<leftarrow> wr b k; (k2, sent, got) \<leftarrow> run_stream wr rd buf xs k1; Some (k2, take (nat n) (buf b k) @ sent, got) }
      | Get b \<Rightarrow> do { (k1, n) \<leftarrow> rd b k; (k2, sent, got) \<leftarrow> run_stream wr rd buf xs k1; Some (k2, sent, take (nat n) (buf b k1) @ got) }
      | Other f \<Rightarrow> run_stream wr rd buf xs (f k))"

definition stream_allowed :: "('k \<Rightarrow> bool) \<Rightarrow> ('k \<Rightarrow> 'w list) \<Rightarrow> ('b \<Rightarrow> bool) \<Rightarrow> ('b, 'k) stream_op \<Rightarrow> bool" where
  "stream_allowed ok contents good x \<longleftrightarrow>
     (case x of Put b \<Rightarrow> good b | Get b \<Rightarrow> good b | Other f \<Rightarrow> (\<forall>k. ok k \<longrightarrow> ok (f k) \<and> contents (f k) = contents k))"

locale word_stream =
  fixes ok :: "'k \<Rightarrow> bool"
    and contents :: "'k \<Rightarrow> 'w list"
    and capacity :: nat
    and good :: "'b \<Rightarrow> bool"
    and wr rd :: "'b \<Rightarrow> 'k \<Rightarrow> ('k \<times> int) option"
    and buf :: "'b \<Rightarrow> 'k \<Rightarrow> 'w list"
  assumes put: "ok k \<Longrightarrow> good b \<Longrightarrow> \<exists>k' n. wr b k = Some (k', int n) \<and> n = min (length (buf b k)) (capacity - length (contents k)) \<and>
        contents k' = contents k @ take n (buf b k) \<and> ok k'"
    and get: "ok k \<Longrightarrow> good b \<Longrightarrow> \<exists>k' n. rd b k = Some (k', int n) \<and> n = min (length (buf b k)) (length (contents k)) \<and>
        contents k' = drop n (contents k) \<and> take n (buf b k') = take n (contents k) \<and> ok k'"
    and bounded: "ok k \<Longrightarrow> length (contents k) \<le> capacity"
begin

lemma fifo:
  "ok k \<Longrightarrow> list_all (stream_allowed ok contents good) xs \<Longrightarrow>
     \<exists>k' sent got. run_stream wr rd buf xs k = Some (k', sent, got) \<and> contents k @ sent = got @ contents k' \<and> ok k'"
proof (induction xs arbitrary: k)
  case (Cons x xs)
  have rest: "list_all (stream_allowed ok contents good) xs" using Cons.prems(2) by simp
  show ?case
  proof (cases x)
    case (Put b)
    from put [OF Cons.prems(1), of b] Cons.prems(2) Put obtain k1 n where
      k1: "wr b k = Some (k1, int n)" "contents k1 = contents k @ take n (buf b k)" "ok k1" by (auto simp: stream_allowed_def)
    from Cons.IH [OF k1(3) rest] obtain k' sent got where
      "run_stream wr rd buf xs k1 = Some (k', sent, got)" "contents k1 @ sent = got @ contents k'" "ok k'" by blast
    with k1 Put show ?thesis by simp
  next
    case (Get b)
    from get [OF Cons.prems(1), of b] Cons.prems(2) Get obtain k1 n where
      k1: "rd b k = Some (k1, int n)" "contents k1 = drop n (contents k)" "take n (buf b k1) = take n (contents k)" "ok k1"
      by (auto simp: stream_allowed_def)
    from Cons.IH [OF k1(4) rest] obtain k' sent got where
      r: "run_stream wr rd buf xs k1 = Some (k', sent, got)" "contents k1 @ sent = got @ contents k'" "ok k'" by blast
    have "contents k @ sent = take n (contents k) @ contents k1 @ sent" by (simp add: k1(2) append_assoc [symmetric] del: append_assoc)
    with r k1 Get show ?thesis by simp
  next
    case (Other f)
    with Cons.prems have "ok (f k)" "contents (f k) = contents k" by (auto simp: stream_allowed_def)
    with Cons.IH [OF this(1) rest] Other show ?thesis by simp
  qed
qed simp

end

lemma pipe_words_run:
  assumes "filp_pipe (filps k file) = Some p" "pipe_data (pipes k p) = d"
  shows "pipe_words file (upd_pipe p (pipe_pos_update f) (upd_mem g k)) = mem_words (g (kmem k)) d (nat (f (pipe_pos (pipes k p))))"
    and "pipe_words file k = mem_words (kmem k) d (nat (pipe_pos (pipes k p)))"
  using assms by (simp_all add: pipe_words_def)

interpretation pipe_stream: word_stream "pipe_ok f p d" "pipe_words f" 1024 "outside_page d"
  "\<lambda>b. pipe_do_write f (fst b) (snd b)" "\<lambda>b. pipe_do_read f (fst b) (snd b)"
  "\<lambda>b k. mem_words (kmem k) (fst b) (nat (snd b))" for f p d
proof (unfold_locales, goal_cases)
  case (1 k b)
  obtain a c where b: "b = (a, c)" by (cases b)
  define n where "n = min c (1024 - pipe_pos (pipes k p))"
  have ok: "filp_pipe (filps k f) = Some p" "pipe_data (pipes k p) = d" "0 \<le> pipe_pos (pipes k p)" "pipe_pos (pipes k p) \<le> 1024"
    using 1(1) by (auto simp: pipe_ok_def)
  have c: "0 < c" using 1(2) by (simp add: b outside_page_def)
  from pipe_do_write_run [OF 1(1) 1(2) [unfolded b] n_def] obtain m where
    m: "pipe_do_write f a c k = Some (upd_pipe p (pipe_pos_update (\<lambda>x. x + n)) (upd_mem (\<lambda>_. m) k), n)"
    "mem_words m d (nat (pipe_pos (pipes k p) + n)) = pipe_words f k @ mem_words (kmem k) a (nat n)" by blast
  have "nat n = min (nat c) (1024 - nat (pipe_pos (pipes k p)))" "int (nat n) = n" using ok c by (auto simp: n_def)
  moreover have "min (nat n) (nat c) = nat n" "0 \<le> n" "pipe_pos (pipes k p) + n \<le> 1024" using ok c by (auto simp: n_def)
  ultimately show ?case
    using m ok 1(1) pipe_words_run [OF ok(1,2)]
    by (intro exI [of _ "upd_pipe p (pipe_pos_update (\<lambda>x. x + n)) (upd_mem (\<lambda>_. m) k)"] exI [of _ "nat n"])
      (auto simp: b pipe_ok_def)
next
  case (2 k b)
  obtain a c where b: "b = (a, c)" by (cases b)
  define n where "n = min c (pipe_pos (pipes k p))"
  have ok: "filp_pipe (filps k f) = Some p" "pipe_data (pipes k p) = d" "0 \<le> pipe_pos (pipes k p)" "pipe_pos (pipes k p) \<le> 1024"
    using 2(1) by (auto simp: pipe_ok_def)
  have c: "0 < c" using 2(2) by (simp add: b outside_page_def)
  from pipe_do_read_run [OF 2(1) 2(2) [unfolded b] n_def] obtain m where
    m: "pipe_do_read f a c k = Some (upd_pipe p (pipe_pos_update (\<lambda>_. pipe_pos (pipes k p) - n)) (upd_mem (\<lambda>_. m) k), n)"
    "mem_words m d (nat (pipe_pos (pipes k p) - n)) = drop (nat n) (pipe_words f k)"
    "mem_words m a (nat n) = take (nat n) (pipe_words f k)" by blast
  have "nat n = min (nat c) (nat (pipe_pos (pipes k p)))" "int (nat n) = n" using ok c by (auto simp: n_def)
  moreover have "min (nat n) (nat c) = nat n" "0 \<le> n" "n \<le> pipe_pos (pipes k p)" using ok c by (auto simp: n_def)
  ultimately show ?case
    using m ok 2(1) pipe_words_run [OF ok(1,2)]
    by (intro exI [of _ "upd_pipe p (pipe_pos_update (\<lambda>_. pipe_pos (pipes k p) - n)) (upd_mem (\<lambda>_. m) k)"] exI [of _ "nat n"])
      (auto simp: b pipe_ok_def)
next
  case (3 k)
  then show ?case by (auto simp: pipe_ok_def pipe_words_def)
qed

definition run_pipe :: "int \<Rightarrow> (addr \<times> int, 'a psk_scheme) stream_op list \<Rightarrow> 'a psk_scheme \<Rightarrow>
    ('a psk_scheme \<times> int list \<times> int list) option" where
  "run_pipe f = run_stream (\<lambda>b. pipe_do_write f (fst b) (snd b)) (\<lambda>b. pipe_do_read f (fst b) (snd b))
     (\<lambda>b k. mem_words (kmem k) (fst b) (nat (snd b)))"

section \<open>Waking the readers\<close>

lemma set_slab_simps [simp]:
  "procs (set_slab s k) = procs k" "ready_q (set_slab s k) = ready_q k" "kmem (set_slab s k) = kmem k" "filps (set_slab s k) = filps k"
  "inodes (set_slab s k) = inodes k" "pipes (set_slab s k) = pipes k" "waitings (set_slab s k) = waitings k"
  "pipe_reading_list (set_slab s k) = pipe_reading_list k" "pipe_writing_list (set_slab s k) = pipe_writing_list k"
  by (simp_all add: set_slab_def)

lemma del_reading_simps [simp]:
  "procs (del_reading ino w k) = procs k" "ready_q (del_reading ino w k) = ready_q k" "kmem (del_reading ino w k) = kmem k"
  "filps (del_reading ino w k) = filps k" "inodes (del_reading ino w k) = inodes k" "pipes (del_reading ino w k) = pipes k"
  "waitings (del_reading ino w k) = waitings k"
  "pipe_reading_list (del_reading ino w k) = (pipe_reading_list k)(ino := remove1 w (pipe_reading_list k ino))"
  by (simp_all add: del_reading_def)

lemma rested_cong: "procs k' = procs k \<Longrightarrow> ready_q k' = ready_q k \<Longrightarrow> rested k' = rested k"
  using rq_inv_cong [of k' k] by (simp add: rested_def IS_INUSE_def pnext_def fun_eq_iff)

text \<open>What serving a blocked process keeps.\<close>

definition pipe_frame :: "'a psk_scheme \<Rightarrow> 'a psk_scheme \<Rightarrow> bool" where
  "pipe_frame k k' \<longleftrightarrow> filps k' = filps k \<and> inodes k' = inodes k \<and> waitings k' = waitings k \<and>
     pipe_reading_list k' = pipe_reading_list k \<and> pipe_writing_list k' = pipe_writing_list k \<and>
     (\<forall>q. p_proc_nr (procs k' q) = p_proc_nr (procs k q) \<and> IS_INUSE k' q = IS_INUSE k q)"

lemma more_psk:
  fixes k k' :: "'a psk_scheme"
  assumes "kernel.more k' = kernel.more k"
  shows "waitings k' = waitings k" "pipe_reading_list k' = pipe_reading_list k" "pipe_writing_list k' = pipe_writing_list k"
  using assms by (cases k; cases k'; simp)+

lemma wake_run:
  fixes k :: "'a psk_scheme"
  assumes "rested k" "p_proc_nr (procs k (w_who (waitings k w))) = w_who (waitings k w)"
  shows "\<exists>k'. wake w ret k = Some k' \<and> rested k' \<and> pipe_frame k k' \<and>
     (\<forall>q. p_state (procs k' q) = (if q = w_who (waitings k w) \<and> woken_by_reply q k then STATE_RUNNABLE else p_state (procs k q)))"
proof -
  let ?who = "w_who (waitings k w)"
  define k1 where "k1 = upd_proc ?who (p_flags_update (\<lambda>f. clear_flag f STATE_WAITING)) k"
  have iu: "IS_INUSE k1 q = IS_INUSE k q" for q
    by (simp add: k1_def IS_INUSE_def upd_proc_def has_flag_clear_other)
  have pr: "p_state (procs k1 q) = p_state (procs k q)" "p_priority (procs k1 q) = p_priority (procs k q)"
    "p_proc_nr (procs k1 q) = p_proc_nr (procs k q)" "p_next (procs k1 q) = p_next (procs k q)" for q
    by (simp_all add: k1_def upd_proc_def)
  have f1: "filps k1 = filps k" "inodes k1 = inodes k" "waitings k1 = waitings k" "pipe_reading_list k1 = pipe_reading_list k"
    "pipe_writing_list k1 = pipe_writing_list k" "ready_q k1 = ready_q k" by (simp_all add: k1_def upd_proc_def)
  have "rq_inv k1 qs = rq_inv k qs" for qs using f1 pr by (intro rq_inv_cong) (auto simp: pnext_def fun_eq_iff)
  then have r1: "rested k1" using assms(1) by (simp add: rested_def iu pr)
  then obtain k' e where k': "syscall_reply2 (w_sys_call_num (waitings k1 w)) ret ?who (ktmp_mesg k1) k1 = Some (k', e)" "rested k'" "clock_frame k1 k'"
    "\<And>q. p_state (procs k' q) = (if q = ?who \<and> woken_by_reply ?who k1 then STATE_RUNNABLE else p_state (procs k1 q))"
    by (rule syscall_reply2_total) blast
  have ff: "file_frame k1 k'" by (rule syscall_reply2_file_frame [OF k'(1)])
  then have "pipe_frame k1 k'"
    using more_psk [of k' k1] k'(3) syscall_reply2_ids [OF k'(1)] by (simp add: pipe_frame_def file_frame_def clock_frame_def)
  then have "pipe_frame k k'" by (simp add: pipe_frame_def f1 iu pr)
  moreover have "wake w ret k = Some k'"
    using k'(1) assms(2) pr by (simp add: wake_def Let_def k1_def [symmetric] f1)
  moreover have "woken_by_reply q k1 = woken_by_reply q k" for q by (simp add: woken_by_reply_def iu pr)
  ultimately show ?thesis using k'(2,4) pr by auto
qed

lemma finish_read_run:
  fixes k :: "'a psk_scheme"
  assumes "rested k" "p_proc_nr (procs k (w_who (waitings k w))) = w_who (waitings k w)"
    and "filp_pipe (filps k (w_filp (waitings k w))) = Some p"
  shows "\<exists>k'. finish_read w k = Some k' \<and> rested k' \<and> pipe_frame k k' \<and>
     (\<forall>q. p_state (procs k' q) = (if q = w_who (waitings k w) \<and> woken_by_reply q k then STATE_RUNNABLE else p_state (procs k q)))"
proof -
  obtain k1 ret where k1: "pipe_do_read (w_filp (waitings k w)) (w_data (waitings k w)) (w_count (waitings k w)) k = Some (k1, ret)"
    and f: "procs k1 = procs k" "ready_q k1 = ready_q k" "filps k1 = filps k" "inodes k1 = inodes k" "waitings k1 = waitings k"
      "pipe_reading_list k1 = pipe_reading_list k" "pipe_writing_list k1 = pipe_writing_list k"
    using assms(3) by (simp add: pipe_do_read_def shift_pipe_data_def Let_def)
  have iu: "IS_INUSE k1 q = IS_INUSE k q" "woken_by_reply q k1 = woken_by_reply q k" for q by (simp_all add: IS_INUSE_def woken_by_reply_def f)
  have "rested k1" using assms(1) rested_cong [of k1 k] f by simp
  from wake_run [OF this, of w ret] assms(2) obtain k' where
    k': "wake w ret k1 = Some k'" "rested k'" "pipe_frame k1 k'"
    "\<forall>q. p_state (procs k' q) = (if q = w_who (waitings k w) \<and> woken_by_reply q k1 then STATE_RUNNABLE else p_state (procs k1 q))"
    by (auto simp: f)
  then show ?thesis using k1 f by (auto simp: finish_read_def pipe_frame_def iu)
qed

definition readers_ok :: "int \<Rightarrow> 'a psk_scheme \<Rightarrow> bool" where
  "readers_ok ino k \<longleftrightarrow> (\<forall>w \<in> set (pipe_reading_list k ino).
     p_proc_nr (procs k (w_who (waitings k w))) = w_who (waitings k w) \<and> filp_pipe (filps k (w_filp (waitings k w))) \<noteq> None)"

definition blocked_readers :: "int \<Rightarrow> 'a psk_scheme \<Rightarrow> int set" where
  "blocked_readers ino k = (\<lambda>w. w_who (waitings k w)) ` set (pipe_reading_list k ino)"

lemma drain_reading_run:
  fixes k :: "'a psk_scheme"
  assumes "pipe_reading_list k ino = ws" "rested k" "readers_ok ino k"
  shows "\<exists>k'. drain_reading ino k = Some k' \<and> pipe_reading_list k' ino = [] \<and> rested k' \<and> inodes k' = inodes k \<and> filps k' = filps k \<and>
     (\<forall>q. p_state (procs k' q) = (if q \<in> blocked_readers ino k \<and> woken_by_reply q k then STATE_RUNNABLE else p_state (procs k q)))"
  using assms
proof (induction ws arbitrary: k)
  case Nil
  then show ?case by (subst drain_reading.simps) (simp add: blocked_readers_def)
next
  case (Cons w ws)
  let ?k1 = "del_reading ino w k"
  have "rested ?k1" using Cons.prems(2) rested_cong [of ?k1 k] by simp
  then obtain k2 where k2: "finish_read w ?k1 = Some k2" "rested k2" "pipe_frame ?k1 k2"
    and st: "\<forall>q. p_state (procs k2 q) = (if q = w_who (waitings k w) \<and> woken_by_reply q ?k1 then STATE_RUNNABLE else p_state (procs k q))"
    using finish_read_run [of ?k1 w] Cons.prems(1,3) by (auto simp: readers_ok_def cong: if_cong)
  let ?k3 = "pk_kfree w k2"
  have w3: "woken_by_reply q ?k3 \<longleftrightarrow> woken_by_reply q k \<and> q \<noteq> w_who (waitings k w)" for q
    using k2(3) st by (auto simp: woken_by_reply_def pk_kfree_def pipe_frame_def IS_INUSE_def)
  have p3: "procs ?k3 = procs k2" by (simp add: pk_kfree_def)
  have wk: "woken_by_reply q ?k1 = woken_by_reply q k" for q by (simp add: woken_by_reply_def IS_INUSE_def)
  have "pipe_reading_list ?k3 ino = ws" using Cons.prems(1) k2(3) by (simp add: pk_kfree_def pipe_frame_def)
  moreover have "rested ?k3" using k2(2) rested_cong [of ?k3 k2] by (simp add: pk_kfree_def)
  moreover have "readers_ok ino ?k3" using Cons.prems(1,3) k2(3) by (simp add: readers_ok_def pk_kfree_def pipe_frame_def)
  ultimately obtain k' where k': "drain_reading ino ?k3 = Some k'" "pipe_reading_list k' ino = []" "rested k'"
    "inodes k' = inodes ?k3" "filps k' = filps ?k3"
    "\<forall>q. p_state (procs k' q) = (if q \<in> blocked_readers ino ?k3 \<and> woken_by_reply q ?k3 then STATE_RUNNABLE else p_state (procs ?k3 q))"
    using Cons.IH by blast
  have b: "blocked_readers ino k = insert (w_who (waitings k w)) (blocked_readers ino ?k3)"
    using Cons.prems(1) k2(3) by (simp add: blocked_readers_def pk_kfree_def pipe_frame_def)
  have s: "p_state (procs k' q) = (if q \<in> blocked_readers ino k \<and> woken_by_reply q k then STATE_RUNNABLE else p_state (procs k q))" for q
    using k'(6) st p3 by (simp add: b w3 wk)
  have "drain_reading ino k = Some k'"
    by (subst drain_reading.simps) (simp add: Cons.prems(1) k2(1) k'(1))
  with k' s k2(3) show ?case by (auto simp: pk_kfree_def pipe_frame_def)
qed

section \<open>Properties\<close>

text \<open>
  C7. A pipe is a bounded first in, first out queue of words: along any sequence of writes, reads and
  other steps that leave the pipe alone, the words read followed by the words left in the pipe are
  the words it held followed by the words written, and the pipe never holds more than a page.
\<close>

theorem pipe_fifo:
  assumes "pipe_ok f p d k" "list_all (stream_allowed (pipe_ok f p d) (pipe_words f) (outside_page d)) xs"
  shows "\<exists>k' sent got. run_pipe f xs k = Some (k', sent, got) \<and> pipe_words f k @ sent = got @ pipe_words f k' \<and>
     length (pipe_words f k') \<le> 1024"
proof -
  from pipe_stream.fifo [OF assms] obtain k' sent got where
    r: "run_pipe f xs k = Some (k', sent, got)" "pipe_words f k @ sent = got @ pipe_words f k'" "pipe_ok f p d k'"
    by (auto simp: run_pipe_def)
  then show ?thesis using pipe_stream.bounded [OF r(3)] by blast
qed

definition pipe_state0 :: "psk \<Rightarrow> psk" where
  "pipe_state0 k = k\<lparr>filps := \<lambda>_. filp_zero\<lparr>filp_pipe := Some 64, filp_ino := Some 5\<rparr>, pipes := \<lambda>_. \<lparr>pipe_data = 2048, pipe_pos = 0\<rparr>,
     kmem := \<lambda>a. a, inodes := \<lambda>_. inode_zero\<lparr>i_count := 2\<rparr>\<rparr>"

theorem pipe_fifo_witness:
  "\<exists>(k :: psk) k' sent got. run_pipe 3 [Put (5000, 2), Other (upd_mem (\<lambda>m. m(5000 := 1))), Get (6000, 1)] k = Some (k', sent, got) \<and>
     pipe_words 3 k @ sent = got @ pipe_words 3 k' \<and> length (pipe_words 3 k') \<le> 1024"
proof -
  fix k :: psk
  have "pipe_ok 3 64 2048 (pipe_state0 k)" by (simp add: pipe_ok_def pipe_state0_def)
  moreover have "pipe_words 3 (upd_mem (\<lambda>m. m(5000 := 1)) s) = pipe_words 3 s" if "pipe_ok 3 64 2048 s" for s :: psk
    using that by (auto simp: pipe_words_def pipe_ok_def intro!: mem_words_frame)
  then have "list_all (stream_allowed (pipe_ok 3 64 2048) (pipe_words 3) (outside_page 2048))
      [Put (5000, 2), Other (upd_mem (\<lambda>m. m(5000 := 1))) :: (addr \<times> int, psk) stream_op, Get (6000, 1)]"
    by (simp add: stream_allowed_def outside_page_def pipe_ok_def)
  ultimately have "\<exists>k' sent got. run_pipe 3 [Put (5000, 2), Other (upd_mem (\<lambda>m. m(5000 := 1))), Get (6000, 1)] (pipe_state0 k) =
      Some (k', sent, got) \<and> pipe_words 3 (pipe_state0 k) @ sent = got @ pipe_words 3 k' \<and> length (pipe_words 3 k') \<le> 1024"
    by (rule pipe_fifo)
  then show ?thesis by (rule exI [of _ "pipe_state0 k"])
qed

text \<open>
  Reading no words from a pipe that holds some keeps their number and replaces every one of
  them by zero.
\<close>

theorem pipe_read_zero_erases:
  assumes "pipe_ok f p d k"
  shows "\<exists>k'. pipe_do_read f dat 0 k = Some (k', 0) \<and> pipe_words f k' = replicate (length (pipe_words f k)) 0"
proof -
  let ?pos = "pipe_pos (pipes k p)"
  have pos: "0 \<le> ?pos" "filp_pipe (filps k f) = Some p" "pipe_data (pipes k p) = d" using assms by (auto simp: pipe_ok_def)
  have "mem_words (shift_loop (nat ?pos) d 0 0 (kmem k)) d (nat ?pos) = replicate (nat ?pos) 0"
    using pos by (auto simp: mem_words_def shift_loop_same intro!: nth_equalityI)
  then show ?thesis using pos
    by (auto simp: pipe_do_read_def shift_pipe_data_def Let_def pipe_words_def memset_def to_int_small)
qed

theorem pipe_read_zero_erases_witness:
  "\<exists>(k :: psk) k'. pipe_do_read 3 6000 0 k = Some (k', 0) \<and> pipe_words 3 k = [2048, 2049] \<and> pipe_words 3 k' = [0, 0]"
proof -
  fix k0 :: psk
  define k where "k = (pipe_state0 k0)\<lparr>pipes := \<lambda>_. \<lparr>pipe_data = 2048, pipe_pos = 2\<rparr>\<rparr>"
  have "pipe_ok 3 64 2048 k" by (simp add: pipe_ok_def pipe_state0_def k_def)
  moreover have "pipe_words 3 k = [2048, 2049]" by (simp add: pipe_words_def pipe_state0_def k_def mem_words_def upt_rec)
  ultimately show ?thesis using pipe_read_zero_erases [of 3 64 2048 k 6000]
    by - (rule exI [of _ k], simp add: numeral_2_eq_2)
qed

text \<open>
  A write that fits appends its words and wakes nobody: a reader blocked on the empty pipe is
  still blocked, on the list of readers and off the ready queues, with its data in the pipe.
\<close>

theorem pipe_write_wakes_no_reader:
  assumes "pipe_ok f p d k" "outside_page d (dat, count)" "filp_ino (filps k f) = Some ino"
    and "filp_pipe_mode (filps k f) \<noteq> FILP_PIPE_READ" "i_count (inodes k ino) \<noteq> 1"
    and "int (length (pipe_words f k)) + count \<le> 1024"
  shows "\<exists>k'. pipe_write f dat count off k = Some (k', count) \<and>
     pipe_words f k' = pipe_words f k @ mem_words (kmem k) dat (nat count) \<and>
     pipe_reading_list k' = pipe_reading_list k \<and> procs k' = procs k \<and> ready_q k' = ready_q k"
proof -
  let ?pos = "pipe_pos (pipes k p)"
  have pos: "0 \<le> ?pos" "filp_pipe (filps k f) = Some p" "pipe_data (pipes k p) = d" using assms(1) by (auto simp: pipe_ok_def)
  have fits: "count \<le> 1024 - ?pos" using assms(6) pos by (simp add: pipe_words_def)
  then have n: "count = min count (1024 - ?pos)" by simp
  from pipe_do_write_run [OF assms(1,2) n] obtain m where
    m: "pipe_do_write f dat count k = Some (upd_pipe p (pipe_pos_update (\<lambda>x. x + count)) (upd_mem (\<lambda>_. m) k), count)"
    "mem_words m d (nat (?pos + count)) = pipe_words f k @ mem_words (kmem k) dat (nat count)" by blast
  have "pipe_write f dat count off k = pipe_do_write f dat count k"
    using assms(3-5) pos fits by (simp add: pipe_write_def)
  with m pipe_words_run(1) [OF pos(2,3)] show ?thesis by auto
qed

theorem pipe_write_wakes_no_reader_witness:
  "\<exists>(k :: psk) k'. pipe_reading_list k 5 = [80] \<and> pipe_write 3 5000 2 0 k = Some (k', 2) \<and> pipe_words 3 k' = [5000, 5001] \<and>
     pipe_reading_list k' 5 = [80]"
proof -
  fix k0 :: psk
  define k where "k = (pipe_state0 k0)\<lparr>pipe_reading_list := \<lambda>_. [80]\<rparr>"
  have "pipe_ok 3 64 2048 k" "outside_page 2048 (5000, 2)" "filp_ino (filps k 3) = Some 5" "filp_pipe_mode (filps k 3) \<noteq> 2"
    "i_count (inodes k 5) \<noteq> 1" "pipe_words 3 k = []" "kmem k = (\<lambda>a. a)" "pipe_reading_list k 5 = [80]"
    by (simp_all add: pipe_ok_def pipe_state0_def k_def outside_page_def pipe_words_def filp_zero_def)
  with pipe_write_wakes_no_reader [of 3 64 2048 k 5000 2 5 0] show ?thesis
    by - (rule exI [of _ k], auto simp: mem_words_def upt_rec)
qed

text \<open>
  C31. Closing the last descriptor of the writing end of a pipe ends every wait on it: the call
  returns, no reader is left on the list, and every process that was waiting for its reply becomes
  runnable; no other process changes state.
\<close>

theorem pipe_close_releases_readers:
  assumes "rested k" "readers_ok ino k" "filp_ino (filps k f) = Some ino" "filp_count (filps k f) = 1"
    and "filp_pipe_mode (filps k f) \<noteq> FILP_PIPE_READ" "1 < i_count (inodes k ino)"
  shows "\<exists>k'. pipe_close f k = Some (k', 0) \<and> pipe_reading_list k' ino = [] \<and> rested k' \<and>
     i_count (inodes k' ino) = i_count (inodes k ino) - 1 \<and> filp_count (filps k' f) = 0 \<and>
     (\<forall>q. p_state (procs k' q) = (if q \<in> blocked_readers ino k \<and> woken_by_reply q k then STATE_RUNNABLE else p_state (procs k q)))"
proof -
  define k1 where "k1 = upd_inode ino (i_count_update (\<lambda>c. c - 1)) (upd_filp f (filp_count_update (\<lambda>c. c - 1)) k)"
  have s: "procs k1 = procs k" "ready_q k1 = ready_q k" "waitings k1 = waitings k" "pipe_reading_list k1 = pipe_reading_list k"
    by (simp_all add: k1_def upd_inode_def upd_filp_def)
  have "filp_pipe (filps k1 g) = filp_pipe (filps k g)" for g by (simp add: k1_def upd_inode_def upd_filp_def)
  then have "readers_ok ino k1" using assms(2) by (simp add: readers_ok_def s)
  moreover have "rested k1" using assms(1) rested_cong [OF s(1,2)] by simp
  ultimately obtain k' where k': "drain_reading ino k1 = Some k'" "pipe_reading_list k' ino = []" "rested k'" "inodes k' = inodes k1" "filps k' = filps k1"
    "\<forall>q. p_state (procs k' q) = (if q \<in> blocked_readers ino k1 \<and> woken_by_reply q k1 then STATE_RUNNABLE else p_state (procs k1 q))"
    using drain_reading_run [OF refl] by blast
  have e: "blocked_readers ino k1 = blocked_readers ino k" "\<And>q. woken_by_reply q k1 = woken_by_reply q k"
    by (simp_all add: blocked_readers_def s woken_by_reply_def IS_INUSE_def)
  have c: "i_count (inodes k1 ino) = i_count (inodes k ino) - 1" "filp_count (filps k1 f) = 0" "filp_pipe_mode (filps k1 f) \<noteq> 2"
    using assms(4,5) by (simp_all add: k1_def upd_inode_def upd_filp_def)
  have "pipe_close f k = Some (k', 0)"
    using assms(3-6) c k'(1,4) by (simp add: pipe_close_def Let_def k1_def upd_filp_def upd_inode_def)
  with k' c e s show ?thesis by (auto cong: if_cong)
qed

theorem pipe_close_releases_readers_witness:
  "\<exists>(k :: psk) k'. pipe_reading_list k 5 = [80] \<and> p_state (procs k 1) = STATE_RECEIVING \<and> pipe_close 4 k = Some (k', 0) \<and>
     pipe_reading_list k' 5 = [] \<and> p_state (procs k' 1) = STATE_RUNNABLE"
proof -
  fix k0 :: psk
  define pr where "pr q = proc_zero\<lparr>p_proc_nr := q, p_flags := IN_USE, p_priority := 3, p_state := if q = 1 then STATE_RECEIVING else 0\<rparr>" for q
  define k where "k = (pipe_state0 k0)\<lparr>pipe_reading_list := \<lambda>_. [80], procs := pr, ready_q := \<lambda>_. \<lparr>q_head = None, q_tail = None\<rparr>,
    waitings := \<lambda>_. \<lparr>w_who = 1, w_sys_call_num = READ, w_filp = 3, w_data = 6000, w_count = 4, w_offset = 0\<rparr>,
    filps := \<lambda>_. filp_zero\<lparr>filp_pipe := Some 64, filp_ino := Some 5, filp_count := 1\<rparr>\<rparr>"
  have p: "procs k = pr" by (simp add: k_def)
  have "pnext k q = None" for q by (simp add: pnext_def p pr_def proc_zero_def)
  then have "rq_inv k (\<lambda>_. [])" by (simp add: rq_inv_def queue_ok_def k_def)
  then have "rested k" unfolding rested_def
    by (intro conjI exI [of _ "\<lambda>_. []"]) (auto simp: p pr_def queued_def IS_PRIORITY_OK_def IS_INUSE_def has_flag_def)
  moreover have "readers_ok 5 k" "filp_ino (filps k 4) = Some 5" "filp_count (filps k 4) = 1" "filp_pipe_mode (filps k 4) \<noteq> 2"
    "1 < i_count (inodes k 5)" "pipe_reading_list k 5 = [80]" "p_state (procs k 1) = STATE_RECEIVING"
    by (simp_all add: readers_ok_def k_def pr_def pipe_state0_def filp_zero_def)
  moreover have "1 \<in> blocked_readers 5 k" "woken_by_reply 1 k"
    by (simp_all add: blocked_readers_def woken_by_reply_def k_def pr_def IS_PROCN_OK_def IS_INUSE_def has_flag_def)
  ultimately show ?thesis using pipe_close_releases_readers [of k 5 4] by - (rule exI [of _ k], auto)
qed

end
