(* ===== verification/Descriptors.thy ===== *)
theory Descriptors
  imports FsCalls FileIo
begin

text \<open>
  What the calls on descriptors do: duplicating one (\<^verbatim>\<open>fs/system/dup.c\<close>), moving the position of
  an open file (\<^verbatim>\<open>fs/system/lseek.c\<close>), and the counts of references to open files, for any device
  whose close operation meets the contract \<open>closing_ops\<close>.
\<close>

section \<open>The number of blocks of a file\<close>

text \<open>A file whose first \<open>b\<close> zones are blocks and whose next zone is empty, all in the inode.\<close>

definition file_blocks :: "int \<Rightarrow> int \<Rightarrow> 'a fsk_scheme \<Rightarrow> bool" where
  "file_blocks ino b k \<longleftrightarrow> length (i_zone (inodes k ino)) = NR_TZONES \<and> 0 \<le> b \<and> b < NR_DIRECT_ZONE \<and>
     (\<forall>z. 0 \<le> z \<and> z < b \<longrightarrow> i_zone (inodes k ino) ! nat z \<noteq> 0) \<and> i_zone (inodes k ino) ! nat b = 0"

lemma inode_blocks_loop_run:
  assumes "file_blocks ino b k" "0 \<le> z" "z \<le> b"
  shows "inode_blocks_loop \<lparr>zi_inode = ino, zi_zone_idx = z\<rparr> ret k = Some (k, \<lparr>zi_inode = ino, zi_zone_idx = b\<rparr>, ret + (b - z))"
  using assms(2,3)
proof (induction "nat (b - z)" arbitrary: z ret)
  case 0
  then have z: "z = b" by simp
  have "length (i_zone (inodes k ino)) = NR_TZONES" "b < NR_DIRECT_ZONE" "i_zone (inodes k ino) ! nat b = 0" using assms(1) by (simp_all add: file_blocks_def)
  with direct_zone(1) [OF this(1) 0(2) _ refl] z show ?case by (subst inode_blocks_loop.simps) simp
next
  case (Suc n)
  then have zb: "z < b" by simp
  have f: "length (i_zone (inodes k ino)) = NR_TZONES" "z < NR_DIRECT_ZONE" "i_zone (inodes k ino) ! nat z \<noteq> 0"
    using assms(1) Suc.prems(1) zb by (simp_all add: file_blocks_def)
  note d = direct_zone [OF f(1) Suc.prems(1) f(2) refl]
  have "inode_blocks_loop \<lparr>zi_inode = ino, zi_zone_idx = z + 1\<rparr> (ret + 1) k = Some (k, \<lparr>zi_inode = ino, zi_zone_idx = b\<rparr>, ret + 1 + (b - (z + 1)))"
    by (rule Suc.hyps(1)) (use Suc zb in auto)
  with d(1) d(2) [OF f(3)] f(3) show ?case by (subst inode_blocks_loop.simps) simp
qed

lemma upd_inode_id: "(\<And>r. f r = r) \<Longrightarrow> upd_inode i f k = k"
  by (simp add: upd_inode_def)

lemma inode_total_size_run:
  assumes "file_blocks ino b k"
  shows "get_inode_total_size_word ino k = Some (k, BLOCK_SIZE * b)"
proof -
  let ?k = "upd_inode ino (i_count_update (\<lambda>c. c + 1)) k"
  have "file_blocks ino b ?k" using assms by (simp add: file_blocks_def)
  moreover have "0 \<le> b" using assms by (simp add: file_blocks_def)
  ultimately have "inode_blocks_loop \<lparr>zi_inode = ino, zi_zone_idx = 0\<rparr> 0 ?k = Some (?k, \<lparr>zi_inode = ino, zi_zone_idx = b\<rparr>, b)"
    using inode_blocks_loop_run [of ino b ?k 0 0] by simp
  moreover have "upd_inode ino (i_count_update (\<lambda>c. c - 1)) ?k = k" by (simp add: upd_inode_upd upd_inode_id)
  ultimately show ?thesis
    by (simp add: get_inode_total_size_word_def get_inode_blocks_def iter_zone_init_def iter_zone_close_def)
qed

text \<open>The loop that waits for the iterator to run out, without moving it.\<close>

lemma zone_spin_None:
  assumes "iter_zone_has_next iter k = Some (k, True)"
  shows "zone_spin iter k = None"
proof (rule ccontr)
  assume "zone_spin iter k \<noteq> None"
  then obtain y where "zone_spin iter k = Some y" by auto
  then have "iter_zone_has_next iter k \<noteq> Some (k, True)"
    by (rule zone_spin.raw_induct [rotated, where P = "\<lambda>iter k y. iter_zone_has_next iter k \<noteq> Some (k, True)"]) (auto simp: bind_eq_Some_conv split: if_splits)
  with assms show False by simp
qed

section \<open>What the file system leaves alone\<close>

text \<open>Work on blocks and inodes changes no process and no open file.\<close>

definition pf :: "'a fsk_scheme \<Rightarrow> (int \<Rightarrow> proc) \<times> (int \<Rightarrow> filp)" where
  "pf k = (procs k, filps k)"

lemma pf_upd [simp]:
  "pf (upd_buf b f k) = pf k" "pf (upd_mem g k) = pf k" "pf (upd_inode i h k) = pf k" "pf (upd_sb j k) = pf k"
  "pf (k\<lparr>lru_front := x\<rparr>) = pf k" "pf (k\<lparr>lru_rear := x\<rparr>) = pf k"
  by (simp_all add: pf_def upd_mem_def)

lemma pf_cache:
  "pf (rm_lru b k) = pf k"
  "dequeue_buf k = (k', x) \<Longrightarrow> pf k' = pf k"
  "enqueue_buf b k = Some k' \<Longrightarrow> pf k' = pf k"
  "flush_block d b k = Some (k', r) \<Longrightarrow> pf k' = pf k"
  "bops_release_block d b k = Some (k', r) \<Longrightarrow> pf k' = pf k"
  "init_block d b k = Some (k', r) \<Longrightarrow> pf k' = pf k"
  "retrieve_block d b nr k = Some (k', r) \<Longrightarrow> pf k' = pf k"
  by (auto simp: rm_lru_def dequeue_buf_def enqueue_buf_def flush_block_def bops_release_block_def init_block_def retrieve_block_def Let_def
      bind_eq_Some_conv split: option.splits if_splits)

lemma pf_put_block: "put_block_buffer b k = Some (k', r) \<Longrightarrow> pf k' = pf k"
  by (auto simp: put_block_buffer_def Let_def bind_eq_Some_conv dest!: pf_cache(3) split: if_splits)

lemma pf_put_block_dirt: "put_block_buffer_dirt b k = Some (k', r) \<Longrightarrow> pf k' = pf k"
  by (auto simp: put_block_buffer_dirt_def dest!: pf_put_block)

lemma pf_get_block: "get_block_buffer nr d k = Some (k', r) \<Longrightarrow> pf k' = pf k"
  by (auto simp: get_block_buffer_def bind_eq_Some_conv pf_cache(1) dest!: pf_cache(2-) split: option.splits if_splits prod.splits)

lemmas pf_blocks = pf_put_block pf_put_block_dirt pf_get_block

lemma pf_release_block: "release_block b d k = Some (k', r) \<Longrightarrow> pf k' = pf k"
  by (auto simp: release_block_def Let_def bind_eq_Some_conv dest!: pf_blocks split: if_splits)

lemma pf_in_use_loop: "inode_in_use_loop n e b d k = Some (k', r) \<Longrightarrow> pf k' = pf k"
proof -
  assume "inode_in_use_loop n e b d k = Some (k', r)"
  then have "pf (fst (k', r)) = pf k"
    by (rule inode_in_use_loop.raw_induct [rotated, where P = "\<lambda>n e b d k y. pf (fst y) = pf k"])
      (auto simp: bind_eq_Some_conv dest!: pf_blocks split: if_splits)
  then show ?thesis by simp
qed

lemma pf_read_inode: "read_inode n d k = Some (k', r) \<Longrightarrow> pf k' = pf k"
  by (auto simp: read_inode_def is_inode_in_use_def get_free_inode_slot_def init_inode_non_disk_def arch_inode_def Let_def bind_eq_Some_conv
      dest!: pf_blocks pf_in_use_loop split: option.splits if_splits prod.splits)

lemma pf_get_inode: "get_inode n d k = Some (k', r) \<Longrightarrow> pf k' = pf k"
  by (auto simp: get_inode_def bind_eq_Some_conv dest!: pf_read_inode split: option.splits)

lemma pf_put_inode: "put_inode i d k = Some (k', r) \<Longrightarrow> pf k' = pf k"
  by (auto simp: put_inode_def dearch_inode_def arch_inode_def Let_def bind_eq_Some_conv dest!: pf_blocks split: option.splits if_splits)

lemma pf_for_loop:
  assumes "\<And>i s t. body i s = Some t \<Longrightarrow> pf t = pf s" "for_loop lo hi body k = Some k'"
  shows "pf k' = pf k"
  using assms(2)
proof (induction "nat (hi - lo)" arbitrary: lo k)
  case (Suc n)
  then obtain t where "body lo k = Some t" "for_loop (lo + 1) hi body t = Some k'" by (auto simp: for_loop_step bind_eq_Some_conv)
  moreover have "n = nat (hi - (lo + 1))" using Suc.hyps(2) by simp
  ultimately show ?case using Suc.hyps(1) assms(1) by metis
qed simp

lemma pf_release_inode_body:
  assumes "release_inode_body rec z i k = Some (k', r)" "\<And>j s t x. rec j s = Some (t, x) \<Longrightarrow> pf t = pf s"
  shows "pf k' = pf k"
proof -
  have loop: "pf t = pf s" if "(do { zone_id \<leftarrow> zone_get i q s;
                    if zone_id > 0
                    then (if z \<or> q < NR_DIRECT_ZONE
                          then do { (k, _) \<leftarrow> release_block zone_id d s; zone_set i q 0 k }
                          else do { (k, ind) \<leftarrow> get_inode zone_id d s;
                                    case ind of
                                      None \<Rightarrow> Some k
                                    | Some j \<Rightarrow> do { (k, _) \<leftarrow> put_inode (Some j) False k; (k, _) \<leftarrow> rec j k; Some k } })
                    else Some s }) = Some t" for q d s t
    using that by (auto simp: bind_eq_Some_conv zone_set_def dest!: pf_release_block pf_get_inode pf_put_inode assms(2) split: if_splits option.splits)
  show ?thesis
    using assms(1) by (auto simp: release_inode_body_def Let_def bind_eq_Some_conv dest!: pf_blocks split: if_splits)
      (erule pf_for_loop [rotated], erule loop)
qed

lemma pf_release_inode: "release_inode i k = Some (k', r) \<Longrightarrow> pf k' = pf k"
  unfolding release_inode_def by (erule pf_release_inode_body, erule pf_release_inode_body, simp)

section \<open>Reference counts\<close>

text \<open>
  The entry of an open file counts the descriptors that refer to it, over all processes, and every
  descriptor refers to an entry of the table. The devices in \<open>U\<close> do not count: their entries start
  with a count of their own, which closing does not lower (the terminals, whose entries start at
  100), so that all that holds of them is that they are never free.
\<close>

definition refs :: "int \<Rightarrow> 'a fsk_scheme \<Rightarrow> (int \<times> int) set" where
  "refs f k = {(p, d). IS_PROCN_OK p \<and> fd_slot p d k = Some (Some f)}"

definition uncounted :: "int set \<Rightarrow> 'a fsk_scheme \<Rightarrow> int \<Rightarrow> bool" where
  "uncounted U k f \<longleftrightarrow> (case filp_dev (filps k f) of None \<Rightarrow> False | Some d \<Rightarrow> d \<in> U)"

definition fd_inv :: "int set \<Rightarrow> 'a fsk_scheme \<Rightarrow> bool" where
  "fd_inv U k \<longleftrightarrow> (\<forall>p. IS_PROCN_OK p \<longrightarrow> length (p_fp_filp (procs k p)) = 16) \<and>
     (\<forall>p d f. IS_PROCN_OK p \<longrightarrow> fd_slot p d k = Some (Some f) \<longrightarrow> 0 \<le> f \<and> f < NR_FILPS) \<and>
     (\<forall>f. 0 \<le> f \<and> f < NR_FILPS \<longrightarrow> (if uncounted U k f then 0 < filp_count (filps k f) else filp_count (filps k f) = int (card (refs f k))))"

lemma finite_refs: "fd_inv U k \<Longrightarrow> finite (refs f k)"
proof -
  assume "fd_inv U k"
  then have "refs f k \<subseteq> {- NUM_TASKS..NUM_PROCS} \<times> {0..<16}"
    by (auto simp: refs_def fd_inv_def fd_slot_def aget_Some_iff IS_PROCN_OK_def)
  then show ?thesis by (rule finite_subset) simp
qed

lemma fd_inv_counts:
  assumes "fd_inv U k" "procs k' = procs k"
    and "\<And>f. filp_count (filps k' f) = filp_count (filps k f) \<and>
       (filp_dev (filps k' f) = filp_dev (filps k f) \<or> filp_count (filps k f) = 0 \<and> filp_dev (filps k' f) = None)"
  shows "fd_inv U k'"
proof -
  have "refs f k' = refs f k" for f using assms(2) by (simp add: refs_def fd_slot_def)
  moreover have "if uncounted U k' f then 0 < filp_count (filps k' f) else filp_count (filps k' f) = int (card (refs f k))"
    if "0 \<le> f" "f < NR_FILPS" for f
  proof -
    have "if uncounted U k f then 0 < filp_count (filps k f) else filp_count (filps k f) = int (card (refs f k))"
      using assms(1) that by (simp add: fd_inv_def)
    then show ?thesis using assms(3) [of f] by (auto simp: uncounted_def split: if_splits)
  qed
  ultimately show ?thesis using assms(1,2) by (simp add: fd_inv_def fd_slot_def)
qed

lemma fd_slot_set:
  assumes "fd_inv U k" "IS_PROCN_OK who" "0 \<le> d" "d < OPEN_MAX"
  shows "\<exists>k1. set_fd_slot who d v k = Some k1 \<and> (\<forall>p e. fd_slot p e k1 = (if p = who \<and> e = d then Some v else fd_slot p e k)) \<and> filps k1 = filps k \<and>
     (\<forall>p. length (p_fp_filp (procs k1 p)) = length (p_fp_filp (procs k p)))"
proof -
  have "length (p_fp_filp (procs k who)) = 16" using assms(1,2) by (simp add: fd_inv_def)
  then show ?thesis using assms(3,4) by (auto simp: set_fd_slot_def aset_def fd_slot_def aget_def nth_list_update upd_proc_def nat_eq_iff2)
qed

text \<open>Making a free descriptor refer to \<open>f\<close>, or a descriptor free, with the count following.\<close>

lemma fd_inv_add:
  assumes "fd_inv U k" "IS_PROCN_OK who" "0 \<le> f" "f < NR_FILPS" "fd_slot who d k = Some None"
    and "\<And>p e. fd_slot p e k' = (if p = who \<and> e = d then Some (Some f) else fd_slot p e k)"
    and "\<And>p. length (p_fp_filp (procs k' p)) = length (p_fp_filp (procs k p))"
    and "\<And>g. filp_dev (filps k' g) = filp_dev (filps k g)"
    and "\<And>g. filp_count (filps k' g) = (if g = f then filp_count (filps k g) + 1 else filp_count (filps k g))"
  shows "fd_inv U k'"
proof -
  have u: "uncounted U k' g = uncounted U k g" for g using assms(8) by (simp add: uncounted_def)
  have "refs g k' = (if g = f then insert (who, d) (refs g k) else refs g k)" for g using assms(2,5,6) by (auto simp: refs_def)
  moreover have "(who, d) \<notin> refs g k" for g using assms(5) by (simp add: refs_def)
  ultimately show ?thesis using assms finite_refs [OF assms(1)] by (auto simp: fd_inv_def u split: if_splits)
qed

lemma fd_inv_drop:
  assumes "fd_inv U k" "IS_PROCN_OK who" "fd_slot who d k = Some (Some f)"
    and "\<And>p e. fd_slot p e k' = (if p = who \<and> e = d then Some None else fd_slot p e k)"
    and "\<And>p. length (p_fp_filp (procs k' p)) = length (p_fp_filp (procs k p))"
    and "\<And>g. filp_dev (filps k' g) = filp_dev (filps k g)"
    and "\<And>g. filp_count (filps k' g) = (if g = f \<and> \<not> uncounted U k f then filp_count (filps k g) - 1 else filp_count (filps k g))"
  shows "fd_inv U k'"
proof -
  have u: "uncounted U k' g = uncounted U k g" for g using assms(6) by (simp add: uncounted_def)
  have r: "refs g k' = (if g = f then refs g k - {(who, d)} else refs g k)" for g using assms(2-4) by (auto simp: refs_def)
  have "(who, d) \<in> refs f k" using assms(2,3) by (simp add: refs_def)
  then have "int (card (refs f k - {(who, d)})) = int (card (refs f k)) - 1"
    using card_Suc_Diff1 [OF finite_refs [OF assms(1)], of "(who, d)" f] by simp
  then show ?thesis using assms by (auto simp: fd_inv_def r u split: if_splits)
qed

lemma get_free_filp_same:
  "get_free_filp k = (k1, x) \<Longrightarrow> procs k1 = procs k \<and> (\<forall>g. filp_count (filps k1 g) = filp_count (filps k g) \<and>
     (filp_dev (filps k1 g) = filp_dev (filps k g) \<or> filp_count (filps k g) = 0 \<and> filp_dev (filps k1 g) = None))"
  by (auto simp: get_free_filp_def find_upto_Some filp_zero_def split: option.splits if_splits)

lemma get_fd_same:
  "get_fd who s g k = (k1, x) \<Longrightarrow> procs k1 = procs k \<and> (\<forall>g. filp_count (filps k1 g) = filp_count (filps k g) \<and> filp_dev (filps k1 g) = filp_dev (filps k g)) \<and>
     (\<forall>d. x = Inr d \<longrightarrow> s \<le> d \<and> d < OPEN_MAX \<and> fd_slot who d k = Some None)"
  by (auto simp: get_fd_def find_upto_Some split: option.splits)

lemma sys_dup_inv:
  assumes "fd_inv U k" "IS_PROCN_OK who" "sys_dup who fd k = Some (k', r)"
  shows "fd_inv U k'"
proof (cases "is_fd_opened_and_valid who fd k = Some True")
  case False
  with assms show ?thesis by (auto simp: sys_dup_def bind_eq_Some_conv)
next
  case valid: True
  obtain k1 x where k1: "get_free_filp k = (k1, x)" by (cases "get_free_filp k")
  note s1 = get_free_filp_same [OF k1]
  have inv1: "fd_inv U k1" by (rule fd_inv_counts [OF assms(1)]) (use s1 in auto)
  show ?thesis
  proof (cases x)
    case None
    with assms(3) valid k1 inv1 show ?thesis by (simp add: sys_dup_def)
  next
    case (Some g)
    obtain k2 y where k2: "get_fd who 0 g k1 = (k2, y)" by (cases "get_fd who 0 g k1")
    note s2 = get_fd_same [OF k2]
    have inv2: "fd_inv U k2" by (rule fd_inv_counts [OF inv1]) (use s2 in auto)
    show ?thesis
    proof (cases y)
      case (Inl e)
      with assms(3) valid k1 k2 Some inv2 show ?thesis by (simp add: sys_dup_def)
    next
      case (Inr d)
      have d: "0 \<le> d" "d < OPEN_MAX" "fd_slot who d k2 = Some None" using s2 Inr by (auto simp: fd_slot_def)
      obtain f where f: "fd_slot who fd k2 = Some (Some f)"
        using valid s1 s2 by (auto simp: is_fd_opened_and_valid_def fd_slot_def bind_eq_Some_conv split: if_splits)
      then have fr: "0 \<le> f" "f < NR_FILPS" using inv2 assms(2) by (auto simp: fd_inv_def)
      from fd_slot_set [OF inv2 assms(2) d(1,2), of "Some f"] obtain k3 where k3: "set_fd_slot who d (Some f) k2 = Some k3" "filps k3 = filps k2"
        "\<And>p e. fd_slot p e k3 = (if p = who \<and> e = d then Some (Some f) else fd_slot p e k2)"
        "\<And>p. length (p_fp_filp (procs k3 p)) = length (p_fp_filp (procs k2 p))" by blast
      have "k' = upd_filp f (filp_count_update (\<lambda>c. c + 1)) k3"
        using assms(3) valid k1 k2 Some Inr f k3(1) by (simp add: sys_dup_def)
      then show ?thesis using k3 by (intro fd_inv_add [OF inv2 assms(2) fr d(3)]) (simp_all add: fd_slot_def)
    qed
  qed
qed

lemma fold_opt_keeps:
  assumes "fold_opt f xs s = Some t" "P s" "\<And>x s t. P s \<Longrightarrow> f x s = Some t \<Longrightarrow> P t"
  shows "P t"
  using assms(1,2) by (induction xs arbitrary: s) (auto simp: bind_eq_Some_conv dest: assms(3))

text \<open>
  What descriptors rely on from a device: closing an open file touches no table of descriptors and
  no device of an open file, and drops one reference to the file, or none when the device is one
  that does not count.
\<close>

definition dropped :: "int \<Rightarrow> int \<Rightarrow> 'a fsk_scheme \<Rightarrow> 'a fsk_scheme \<Rightarrow> bool" where
  "dropped n f k k' \<longleftrightarrow> (\<forall>p. p_fp_filp (procs k' p) = p_fp_filp (procs k p)) \<and>
     (\<forall>g. filp_dev (filps k' g) = filp_dev (filps k g) \<and>
        filp_count (filps k' g) = (if g = f then filp_count (filps k g) - n else filp_count (filps k g)))"

locale closing_ops =
  fixes ops :: "int \<Rightarrow> 'a fsk_scheme filp_operations"
    and U :: "int set"
  assumes close: "fop_close (ops dev) f k = Some (k', r) \<Longrightarrow> r = 0 \<and> dropped (if dev \<in> U then 0 else 1) f k k'"
begin

lemma close_slot:
  assumes "fd_inv U k" "IS_PROCN_OK who" "fd_slot who fd k = Some (Some f)" "filp_close ops f k = Some (k1, r1)"
    and "set_fd_slot who fd None k1 = Some k'"
  shows "fd_inv U k'" "fd_slot p e k' = (if p = who \<and> e = fd then Some None else fd_slot p e k)"
proof -
  obtain dev where dev: "filp_dev (filps k f) = Some dev" "fop_close (ops dev) f k = Some (k1, r1)"
    using assms(4) by (auto simp: filp_close_def bind_eq_Some_conv)
  from close [OF this(2)] have c: "\<And>p. p_fp_filp (procs k1 p) = p_fp_filp (procs k p)" "\<And>g. filp_dev (filps k1 g) = filp_dev (filps k g)"
    "\<And>g. filp_count (filps k1 g) = (if g = f then filp_count (filps k g) - (if dev \<in> U then 0 else 1) else filp_count (filps k g))"
    by (simp_all add: dropped_def)
  have slots: "fd_slot p e k1 = fd_slot p e k" for p e by (simp add: fd_slot_def c(1))
  have l: "length (p_fp_filp (procs k1 who)) = 16" using assms(1,2) by (simp add: fd_inv_def c(1))
  have e: "fd_slot p e k' = (if p = who \<and> e = fd then Some None else fd_slot p e k)" for p e
    using assms(5) l slots [of p e] by (auto simp: set_fd_slot_def aset_def fd_slot_def aget_def nth_list_update upd_proc_def nat_eq_iff2 split: if_splits)
  have fl: "filps k' = filps k1" "length (p_fp_filp (procs k' p)) = length (p_fp_filp (procs k p))" for p
    using assms(5) l by (auto simp: c(1) set_fd_slot_def aset_def upd_proc_def split: if_splits)
  show "fd_inv U k'" by (rule fd_inv_drop [OF assms(1-3) e fl(2)]) (use c fl dev in \<open>auto simp: uncounted_def\<close>)
  show "fd_slot p e k' = (if p = who \<and> e = fd then Some None else fd_slot p e k)" by (rule e)
qed

lemma sys_close_run:
  assumes "fd_inv U k" "IS_PROCN_OK who" "sys_close ops who fd k = Some (k', r)"
  shows "fd_inv U k' \<and> (\<forall>p e. fd_slot p e k' = (if p = who \<and> e = fd \<and> r = 0 then Some None else fd_slot p e k))"
proof (cases "is_fd_opened_and_valid who fd k = Some True")
  case False
  with assms show ?thesis by (auto simp: sys_close_def bind_eq_Some_conv)
next
  case valid: True
  then obtain f where f: "fd_slot who fd k = Some (Some f)"
    by (auto simp: is_fd_opened_and_valid_def fd_slot_def bind_eq_Some_conv split: if_splits)
  with assms(3) valid obtain k1 r1 where k1: "filp_close ops f k = Some (k1, r1)"
    and k': "(if r1 \<noteq> 0 then Some (k1, r1) else do { k \<leftarrow> set_fd_slot who fd None k1; Some (k, 0) }) = Some (k', r)"
    by (auto simp: sys_close_def bind_eq_Some_conv split: if_splits)
  have "r1 = 0" using k1 close by (auto simp: filp_close_def bind_eq_Some_conv)
  with k' have s: "set_fd_slot who fd None k1 = Some k'" "r = 0" by (auto simp: bind_eq_Some_conv)
  show ?thesis using close_slot [OF assms(1,2) f k1 s(1)] s(2) by simp
qed

text \<open>The descriptors of a process that exits.\<close>

lemma close_files_inv:
  assumes "fd_inv U k" "IS_PROCN_OK who" "close_files (filp_close ops) who k = Some k'"
  shows "fd_inv U k'"
  using assms(3,1) unfolding close_files_def
proof (rule fold_opt_keeps)
  fix i :: int and s t :: "'a fsk_scheme"
  assume s: "fd_inv U s" and run: "(do { f \<leftarrow> aget (p_fp_filp (procs s who)) i;
      case f of None \<Rightarrow> Some s
      | Some file \<Rightarrow> do { (k, _) \<leftarrow> filp_close ops file s;
                          tab \<leftarrow> aset (p_fp_filp (procs k who)) i None;
                          Some (upd_proc who (p_fp_filp_update (\<lambda>_. tab)) k) } }) = Some t"
  show "fd_inv U t"
  proof (cases "fd_slot who i s = Some None")
    case True
    with s run show ?thesis by (auto simp: fd_slot_def)
  next
    case False
    with run obtain f k1 r1 where "fd_slot who i s = Some (Some f)" "filp_close ops f s = Some (k1, r1)" "set_fd_slot who i None k1 = Some t"
      by (auto simp: fd_slot_def set_fd_slot_def bind_eq_Some_conv split: option.splits)
    then show ?thesis by (rule close_slot(1) [OF s assms(2)])
  qed
qed

lemma sys_dup2_inv:
  assumes "fd_inv U k" "IS_PROCN_OK who" "sys_dup2 ops who fd newfd k = Some (k', r)"
  shows "fd_inv U k'"
proof (cases "is_fd_opened_and_valid who fd k = Some True \<and> 0 \<le> newfd \<and> newfd < OPEN_MAX")
  case False
  with assms show ?thesis by (auto simp: sys_dup2_def bind_eq_Some_conv split: if_splits)
next
  case valid: True
  obtain k1 x where k1: "get_free_filp k = (k1, x)" by (cases "get_free_filp k")
  note s1 = get_free_filp_same [OF k1]
  have inv1: "fd_inv U k1" by (rule fd_inv_counts [OF assms(1)]) (use s1 in auto)
  show ?thesis
  proof (cases x)
    case None
    with assms(3) valid k1 inv1 show ?thesis by (simp add: sys_dup2_def)
  next
    case (Some g)
    obtain k2 y where k2: "get_fd who 0 g k1 = (k2, y)" by (cases "get_fd who 0 g k1")
    note s2 = get_fd_same [OF k2]
    have inv2: "fd_inv U k2" by (rule fd_inv_counts [OF inv1]) (use s2 in auto)
    show ?thesis
    proof (cases y)
      case (Inl e)
      with assms(3) valid k1 k2 Some inv2 show ?thesis by (simp add: sys_dup2_def)
    next
      case (Inr d)
      from assms(3) valid k1 k2 Some Inr obtain new k3 r3 where k3: "fd_slot who newfd k2 = Some new"
        "(if new \<noteq> None then sys_close ops who newfd k2 else Some (k2, 0)) = Some (k3, r3)"
        and k': "(if r3 \<noteq> 0 then Some (k3, r3) else do { file1 \<leftarrow> fd_slot who fd k3;
            case file1 of None \<Rightarrow> Some (k3, - EBADF)
            | Some f \<Rightarrow> do { k \<leftarrow> set_fd_slot who newfd (Some f) k3; Some (upd_filp f (filp_count_update (\<lambda>c. c + 1)) k, newfd) } }) = Some (k', r)"
        by (auto simp: sys_dup2_def bind_eq_Some_conv)
      have inv3: "fd_inv U k3" and free: "r3 = 0 \<Longrightarrow> fd_slot who newfd k3 = Some None"
        using k3 sys_close_run [OF inv2 assms(2)] inv2 by (auto split: if_splits)
      show ?thesis
      proof (cases "r3 = 0 \<and> (\<exists>f. fd_slot who fd k3 = Some (Some f))")
        case False
        with k' inv3 show ?thesis by (auto simp: bind_eq_Some_conv split: if_splits option.splits)
      next
        case True
        then obtain f where f: "r3 = 0" "fd_slot who fd k3 = Some (Some f)" by blast
        then have fr: "0 \<le> f" "f < NR_FILPS" using inv3 assms(2) by (auto simp: fd_inv_def)
        from fd_slot_set [OF inv3 assms(2), of newfd "Some f"] valid obtain k4 where k4: "set_fd_slot who newfd (Some f) k3 = Some k4" "filps k4 = filps k3"
          "\<And>p e. fd_slot p e k4 = (if p = who \<and> e = newfd then Some (Some f) else fd_slot p e k3)"
          "\<And>p. length (p_fp_filp (procs k4 p)) = length (p_fp_filp (procs k3 p))" by blast
        have "k' = upd_filp f (filp_count_update (\<lambda>c. c + 1)) k4" using k' f k4(1) by simp
        then show ?thesis using k4 by (intro fd_inv_add [OF inv3 assms(2) fr free [OF f(1)]]) (simp_all add: fd_slot_def)
      qed
    qed
  qed
qed

end

lemma root_fs_close_refs:
  assumes "root_fs_close f k = Some (k', r)"
  shows "r = 0 \<and> dropped 1 f k k'"
proof -
  have "pf k' = pf (upd_filp f (filp_count_update (\<lambda>c. c - 1)) k) \<and> r = 0"
    using assms by (auto simp: root_fs_close_def Let_def bind_eq_Some_conv dest!: pf_put_inode pf_release_inode split: if_splits)
  then show ?thesis by (simp add: pf_def dropped_def)
qed

section \<open>Properties\<close>

text \<open>
  C40. Seeking within the blocks a file has sets the position and returns it. Seeking to or past
  their end never returns when the file has a block: the call waits, without moving the iterator,
  for the zones of the file to run out.
\<close>

theorem lseek_past_end_hangs:
  assumes "0 \<le> fd" "fd < OPEN_MAX" "fd_slot who fd k = Some (Some f)" "filp_ino (filps k f) = Some ino"
    and "\<not> has_flag (i_flags (inodes k ino)) INODE_FLAG_PIPE" "file_blocks ino b k" "0 < b" "0 \<le> offset" "offset < 2 ^ 31"
  shows "sys_lseek who fd offset SEEK_SET k =
     (if offset < BLOCK_SIZE * b then Some (upd_filp f (filp_pos_update (\<lambda>_. offset)) k, offset) else None)"
proof -
  let ?k = "upd_inode ino (i_count_update (\<lambda>c. c + 1)) k"
  have "is_fd_opened_and_valid who fd k = Some True" using assms(1-3) by (simp add: is_fd_opened_and_valid_def fd_slot_def)
  then have e: "sys_lseek who fd offset SEEK_SET k = extend_file f offset SEEK_SET k" using assms(3-5) by (simp add: sys_lseek_def)
  have zl: "length (i_zone (inodes ?k ino)) = NR_TZONES" "i_zone (inodes ?k ino) ! nat 0 \<noteq> 0"
    using assms(6,7) by (auto simp: file_blocks_def dest!: spec [of _ 0])
  have "iter_zone_has_next \<lparr>zi_inode = ino, zi_zone_idx = 0\<rparr> ?k = Some (?k, True)"
    using direct_zone(1) [OF zl(1) _ _ refl, of 0] zl(2) by simp
  then have "zone_spin \<lparr>zi_inode = ino, zi_zone_idx = 0\<rparr> ?k = None" by (rule zone_spin_None)
  moreover have "to_int offset = offset" using assms(8,9) by (rule to_int_small)
  ultimately show ?thesis unfolding e
    by (simp add: extend_file_def assms(4) inode_total_size_run [OF assms(6)] iter_zone_init_def)
qed

theorem lseek_past_end_hangs_witness:
  "\<exists>k :: fsk. sys_lseek 1 0 300 SEEK_SET k = Some (upd_filp 4 (filp_pos_update (\<lambda>_. 300)) k, 300) \<and> sys_lseek 1 0 512 SEEK_SET k = None"
proof -
  fix k0 :: fsk
  define k where "k = k0\<lparr>procs := \<lambda>_. proc_zero\<lparr>p_fp_filp := [Some 4]\<rparr>, filps := \<lambda>_. filp_zero\<lparr>filp_ino := Some 0\<rparr>,
    inodes := \<lambda>_. inode_zero\<lparr>i_zone := [20, 21, 0, 0, 0, 0, 0, 0]\<rparr>\<rparr>"
  have z: "z = 0 \<or> z = 1" if "0 \<le> z" "z < (2 :: int)" for z using that by auto
  have k: "fd_slot 1 0 k = Some (Some 4)" "filp_ino (filps k 4) = Some 0" "\<not> has_flag (i_flags (inodes k 0)) INODE_FLAG_PIPE" "file_blocks 0 2 k"
    by (auto simp: k_def fd_slot_def aget_def has_flag_def inode_zero_def file_blocks_def dest: z)
  from lseek_past_end_hangs [OF _ _ k, of 300] lseek_past_end_hangs [OF _ _ k, of 512] show ?thesis by - (rule exI [of _ k], simp)
qed

text \<open>Closing one of several descriptors of a file always returns.\<close>

lemma sys_close_shared:
  assumes "length (p_fp_filp (procs k who)) = 16" "fd_slot who fd k = Some (Some f)" "filp_dev (filps k f) = Some dev" "1 < filp_count (filps k f)"
    and "fop_close (ops dev) = root_fs_close"
  shows "\<exists>k'. sys_close ops who fd k = Some (k', 0) \<and> fd_slot who fd k' = Some None \<and>
     filps k' = filps (upd_filp f (filp_count_update (\<lambda>c. c - 1)) k)"
proof -
  let ?k = "upd_filp f (filp_count_update (\<lambda>c. c - 1)) k"
  have fd: "0 \<le> fd" "fd < OPEN_MAX" using assms(1,2) by (auto simp: fd_slot_def aget_def split: if_splits)
  have valid: "is_fd_opened_and_valid who fd k = Some True" using fd assms(2) by (simp add: is_fd_opened_and_valid_def fd_slot_def)
  have cl: "root_fs_close f k = Some (?k, 0)" using assms(4) by (simp add: root_fs_close_def Let_def)
  have "\<exists>k'. set_fd_slot who fd None ?k = Some k' \<and> fd_slot who fd k' = Some None \<and> filps k' = filps ?k"
    using fd assms(1) by (auto simp: set_fd_slot_def aset_def fd_slot_def aget_def upd_proc_def)
  then show ?thesis using valid assms(2,3) cl by (auto simp: sys_close_def filp_close_def assms(5))
qed

text \<open>
  Duplicating a descriptor, on every branch: a descriptor that is not open, a full table of open
  files and a process with no free descriptor are refused; otherwise the lowest free descriptor
  refers to the same open file, and the counts of references stay right.
\<close>

theorem sys_dup_correct:
  assumes "fd_inv U k" "IS_PROCN_OK who"
  shows "\<exists>k' r. sys_dup who fd k = Some (k', r) \<and> fd_inv U k' \<and>
     (if fd < 0 \<or> OPEN_MAX \<le> fd \<or> fd_slot who fd k = Some None then r = - EBADF \<and> k' = k
      else if \<forall>g\<in>{0..<NR_FILPS}. filp_count (filps k g) \<noteq> 0 then r = - ENFILE \<and> k' = k
      else if \<forall>d\<in>{0..<OPEN_MAX}. fd_slot who d k \<noteq> Some None then r = - EMFILE \<and> procs k' = procs k
      else 0 \<le> r \<and> r < OPEN_MAX \<and> fd_slot who r k = Some None \<and> (\<forall>d. 0 \<le> d \<and> d < r \<longrightarrow> fd_slot who d k \<noteq> Some None) \<and>
           fd_slot who r k' = fd_slot who fd k)"
proof -
  have len: "length (p_fp_filp (procs k who)) = 16" using assms by (simp add: fd_inv_def)
  have "\<exists>k' r. sys_dup who fd k = Some (k', r) \<and>
     (if fd < 0 \<or> OPEN_MAX \<le> fd \<or> fd_slot who fd k = Some None then r = - EBADF \<and> k' = k
      else if \<forall>g\<in>{0..<NR_FILPS}. filp_count (filps k g) \<noteq> 0 then r = - ENFILE \<and> k' = k
      else if \<forall>d\<in>{0..<OPEN_MAX}. fd_slot who d k \<noteq> Some None then r = - EMFILE \<and> procs k' = procs k
      else 0 \<le> r \<and> r < OPEN_MAX \<and> fd_slot who r k = Some None \<and> (\<forall>d. 0 \<le> d \<and> d < r \<longrightarrow> fd_slot who d k \<noteq> Some None) \<and>
           fd_slot who r k' = fd_slot who fd k)"
  proof (cases "fd < 0 \<or> OPEN_MAX \<le> fd \<or> fd_slot who fd k = Some None")
    case True
    then have "is_fd_opened_and_valid who fd k = Some False" using len by (auto simp: is_fd_opened_and_valid_def fd_slot_def aget_def)
    with True show ?thesis by (auto simp: sys_dup_def)
  next
    case opened: False
    then obtain f where f: "fd_slot who fd k = Some (Some f)" using len by (auto simp: fd_slot_def aget_def)
    have valid: "is_fd_opened_and_valid who fd k = Some True" using opened f by (auto simp: is_fd_opened_and_valid_def fd_slot_def)
    show ?thesis
    proof (cases "find (\<lambda>i. filp_count (filps k i) = 0) [0..NR_FILPS - 1]")
      case None
      then have "get_free_filp k = (k, None)" by (simp add: get_free_filp_def)
      moreover have "\<forall>g\<in>{0..<NR_FILPS}. filp_count (filps k g) \<noteq> 0" using None by (auto simp: find_None_iff)
      ultimately show ?thesis using opened valid by (simp add: sys_dup_def)
    next
      case (Some g)
      then have g: "\<not> (\<forall>g\<in>{0..<NR_FILPS}. filp_count (filps k g) \<noteq> 0)" by (auto simp: find_upto_Some)
      let ?k1 = "upd_filp g (\<lambda>_. filp_zero) k"
      have k1: "get_free_filp k = (?k1, Some g)" using Some by (simp add: get_free_filp_def)
      show ?thesis
      proof (cases "find (\<lambda>i. fd_slot who i k = Some None) [0..OPEN_MAX - 1]")
        case None
        then have "get_fd who 0 g ?k1 = (?k1, Inl (- EMFILE))" by (simp add: get_fd_def fd_slot_def)
        moreover have "\<forall>d\<in>{0..<OPEN_MAX}. fd_slot who d k \<noteq> Some None" using None by (auto simp: find_None_iff)
        ultimately show ?thesis using opened valid g k1 by (simp add: sys_dup_def)
      next
        case (Some d)
        then have d: "0 \<le> d" "d < OPEN_MAX" "fd_slot who d k = Some None" "\<forall>e. 0 \<le> e \<and> e < d \<longrightarrow> fd_slot who e k \<noteq> Some None"
          by (auto simp: find_upto_Some)
        let ?k2 = "upd_filp g (filp_table_index_update (\<lambda>_. d)) ?k1"
        have k2: "get_fd who 0 g ?k1 = (?k2, Inr d)" using Some by (simp add: get_fd_def fd_slot_def)
        have "\<exists>k3. set_fd_slot who d (Some f) ?k2 = Some k3 \<and> fd_slot who d k3 = Some (Some f)"
          using d(1,2) len by (auto simp: set_fd_slot_def aset_def fd_slot_def aget_def upd_proc_def)
        then obtain k3 where k3: "set_fd_slot who d (Some f) ?k2 = Some k3" "fd_slot who d k3 = Some (Some f)" by blast
        have "sys_dup who fd k = Some (upd_filp f (filp_count_update (\<lambda>c. c + 1)) k3, d)"
          using valid k1 k2 k3(1) f by (simp add: sys_dup_def fd_slot_def)
        with opened g d k3(2) f show ?thesis by (auto simp: fd_slot_def)
      qed
    qed
  qed
  then show ?thesis using sys_dup_inv [OF assms] by blast
qed

text \<open>
  Duplicating a descriptor onto itself closes it: \<^verbatim>\<open>dup2(fd, fd)\<close> on an open descriptor returns
  \<^verbatim>\<open>-EBADF\<close>, with the descriptor free and one reference to the file gone.
\<close>

theorem dup2_same_descriptor:
  assumes "fd_inv U k" "IS_PROCN_OK who" "fd_slot who fd k = Some (Some f)" "filp_dev (filps k f) = Some dev" "1 < filp_count (filps k f)"
    and "find (\<lambda>i. filp_count (filps k i) = 0) [0..NR_FILPS - 1] = Some g" "find (\<lambda>i. fd_slot who i k = Some None) [0..OPEN_MAX - 1] = Some d"
  shows "\<exists>k'. sys_dup2 (\<lambda>_. root_fs_ops) who fd fd k = Some (k', - EBADF) \<and> fd_slot who fd k' = Some None \<and>
     filp_count (filps k' f) = filp_count (filps k f) - 1"
proof -
  have len: "length (p_fp_filp (procs k who)) = 16" using assms(1,2) by (simp add: fd_inv_def)
  then have fd: "0 \<le> fd" "fd < OPEN_MAX" using assms(3) by (auto simp: fd_slot_def aget_def split: if_splits)
  have gf: "g \<noteq> f" using assms(5,6) by (auto simp: find_upto_Some)
  let ?k2 = "upd_filp g (filp_table_index_update (\<lambda>_. d)) (upd_filp g (\<lambda>_. filp_zero) k)"
  have k2: "get_free_filp k = (upd_filp g (\<lambda>_. filp_zero) k, Some g)" "get_fd who 0 g (upd_filp g (\<lambda>_. filp_zero) k) = (?k2, Inr d)"
    using assms(6,7) by (simp_all add: get_free_filp_def get_fd_def fd_slot_def)
  have f2: "fd_slot who fd ?k2 = Some (Some f)" "filps ?k2 f = filps k f" using assms(3) gf by (simp_all add: fd_slot_def)
  have valid: "is_fd_opened_and_valid who fd k = Some True" using fd assms(3) by (simp add: is_fd_opened_and_valid_def fd_slot_def)
  have "length (p_fp_filp (procs ?k2 who)) = 16" using len by simp
  from sys_close_shared [OF this f2(1), of dev "\<lambda>_. root_fs_ops"] f2(2) assms(4,5) obtain k' where
    k': "sys_close (\<lambda>_. root_fs_ops) who fd ?k2 = Some (k', 0)" "fd_slot who fd k' = Some None"
    "filps k' = filps (upd_filp f (filp_count_update (\<lambda>c. c - 1)) ?k2)" by (auto simp: root_fs_ops_def)
  have "sys_dup2 (\<lambda>_. root_fs_ops) who fd fd k = Some (k', - EBADF)"
    using valid fd k2 f2(1) k'(1,2) by (simp add: sys_dup2_def)
  with k'(2,3) gf show ?thesis by auto
qed

text \<open>One process with two descriptors of the same open file and one of a terminal.\<close>

lemma fd_demo:
  fixes k0 :: "'a fsk_scheme"
  defines "k \<equiv> k0\<lparr>procs := \<lambda>p. proc_zero\<lparr>p_fp_filp := if p = 1 then [Some 4, Some 4, Some 1] @ replicate 13 None else replicate 16 None\<rparr>,
    filps := (\<lambda>_. filp_zero)(4 := filp_zero\<lparr>filp_count := 2, filp_dev := Some rootfs_dev, filp_ino := Some 0\<rparr>,
      1 := filp_zero\<lparr>filp_count := 100, filp_dev := Some 2\<rparr>)\<rparr>"
  shows "fd_inv {2, 3} k" "fd_slot 1 0 k = Some (Some 4)" "find (\<lambda>i. filp_count (filps k i) = 0) [0..NR_FILPS - 1] = Some 0"
    "find (\<lambda>i. fd_slot 1 i k = Some None) [0..OPEN_MAX - 1] = Some 3" "filp_dev (filps k 4) = Some rootfs_dev" "filp_count (filps k 4) = 2"
    "fd_slot 1 2 k = Some (Some 1)" "filp_dev (filps k 1) = Some 2" "filp_count (filps k 1) = 100"
proof -
  have slot: "fd_slot p d k = (if 0 \<le> d \<and> d < 16 then Some (if p = 1 \<and> d < 2 then Some 4 else if p = 1 \<and> d = 2 then Some 1 else None) else None)" for p d
  proof (cases "0 \<le> d \<and> d < 16")
    case True
    have "([Some 4, Some 4, Some 1] @ replicate 13 None) ! nat d = (if d < 2 then Some 4 else if d = 2 then Some 1 else None)"
    proof (cases "d < 3")
      case True
      with \<open>0 \<le> d \<and> d < 16\<close> have "d = 0 \<or> d = 1 \<or> d = 2" by auto
      then show ?thesis by auto
    next
      case False
      with \<open>0 \<le> d \<and> d < 16\<close> have "([Some 4, Some 4, Some 1] @ replicate 13 None) ! nat d = replicate 13 None ! (nat d - 3)" by (subst nth_append) auto
      with False \<open>0 \<le> d \<and> d < 16\<close> show ?thesis by simp
    qed
    with True show ?thesis by (auto simp: fd_slot_def aget_def k_def nat_less_iff)
  next
    case False
    then show ?thesis by (auto simp: fd_slot_def aget_def k_def)
  qed
  have r: "refs f k = (if f = 4 then {(1, 0), (1, 1)} else if f = 1 then {(1, 2)} else {})" for f
    by (auto simp: refs_def slot IS_PROCN_OK_def split: if_splits)
  have "if uncounted {2, 3} k f then 0 < filp_count (filps k f) else filp_count (filps k f) = int (card (refs f k))" for f
    unfolding r by (auto simp: uncounted_def k_def filp_zero_def)
  moreover have "length (p_fp_filp (procs k p)) = 16" for p by (simp add: k_def)
  ultimately show "fd_inv {2, 3} k" by (auto simp: fd_inv_def slot split: if_splits)
  show "fd_slot 1 0 k = Some (Some 4)" "find (\<lambda>i. fd_slot 1 i k = Some None) [0..OPEN_MAX - 1] = Some 3" "fd_slot 1 2 k = Some (Some 1)"
    by (auto simp: slot find_upto_Some)
  show "find (\<lambda>i. filp_count (filps k i) = 0) [0..NR_FILPS - 1] = Some 0" "filp_dev (filps k 4) = Some rootfs_dev" "filp_count (filps k 4) = 2"
    "filp_dev (filps k 1) = Some 2" "filp_count (filps k 1) = 100"
    by (auto simp: find_upto_Some k_def filp_zero_def)
qed

theorem sys_dup_correct_witness:
  "\<exists>(k :: fsk) k' r. fd_slot 1 0 k = Some (Some 4) \<and> sys_dup 1 0 k = Some (k', r) \<and> 0 \<le> r \<and> fd_slot 1 r k' = Some (Some 4)"
proof -
  obtain k :: fsk where k: "fd_inv {2, 3} k" "fd_slot 1 0 k = Some (Some 4)" "find (\<lambda>i. filp_count (filps k i) = 0) [0..NR_FILPS - 1] = Some 0"
    "find (\<lambda>i. fd_slot 1 i k = Some None) [0..OPEN_MAX - 1] = Some 3" using fd_demo by blast
  have "IS_PROCN_OK 1" by (simp add: IS_PROCN_OK_def)
  from sys_dup_correct [OF k(1) this, of 0] k(2-4) show ?thesis
    by - (rule exI [of _ k], auto simp: find_upto_Some split: if_splits)
qed

theorem dup2_same_descriptor_witness:
  "\<exists>(k :: fsk) k'. fd_slot 1 0 k = Some (Some 4) \<and> sys_dup2 (\<lambda>_. root_fs_ops) 1 0 0 k = Some (k', - EBADF) \<and> fd_slot 1 0 k' = Some None"
proof -
  obtain k :: fsk where k: "fd_inv {2, 3} k" "fd_slot 1 0 k = Some (Some 4)" "find (\<lambda>i. filp_count (filps k i) = 0) [0..NR_FILPS - 1] = Some 0"
    "find (\<lambda>i. fd_slot 1 i k = Some None) [0..OPEN_MAX - 1] = Some 3" "filp_dev (filps k 4) = Some rootfs_dev" "filp_count (filps k 4) = 2"
    using fd_demo by blast
  have "IS_PROCN_OK 1" "1 < filp_count (filps k 4)" using k(6) by (simp_all add: IS_PROCN_OK_def)
  from dup2_same_descriptor [OF k(1) this(1) k(2,5) this(2) k(3,4)] k(2) show ?thesis by - (rule exI [of _ k], auto)
qed

end
