(* ===== verification/Tty.thy ===== *)
theory Tty
  imports Pipe
begin

text \<open>
  The terminal driver (\<^verbatim>\<open>driver/tty.c\<close>). The two terminals have numbers 1 and 2, and each has a
  serial port. A port is the words its transmit register was given, in order, and its other
  registers; waiting for the transmitter is left out, as is the switching of interrupts. The input
  buffer of a terminal lies in memory, so \<^verbatim>\<open>bptr\<close>, \<^verbatim>\<open>read_ptr\<close> and \<^verbatim>\<open>buffer_end\<close> are
  addresses. The private pointers of devices and open files are numbers of terminals. Reading the
  record of a process through a null pointer reads the words at the bottom of memory.
\<close>

abbreviation (input) BACKSPACE :: int where "BACKSPACE \<equiv> 8"
abbreviation (input) TTY_BUFFER_SIZ :: int where "TTY_BUFFER_SIZ \<equiv> 64"
abbreviation (input) EOF :: int where "EOF \<equiv> - 1"
abbreviation (input) newline :: int where "newline \<equiv> 10"
abbreviation (input) ISIG :: u32 where "ISIG \<equiv> 1"
abbreviation (input) ICANON :: u32 where "ICANON \<equiv> 2"
abbreviation (input) ECHO :: u32 where "ECHO \<equiv> 8"
abbreviation (input) ECHOE :: u32 where "ECHOE \<equiv> 16"
abbreviation (input) ECHOK :: u32 where "ECHOK \<equiv> 32"
abbreviation (input) ICRNL :: u32 where "ICRNL \<equiv> 256"
abbreviation (input) IMAXBEL :: u32 where "IMAXBEL \<equiv> 8192"
abbreviation (input) VINTR :: nat where "VINTR \<equiv> 0"
abbreviation (input) VQUIT :: nat where "VQUIT \<equiv> 1"
abbreviation (input) VERASE :: nat where "VERASE \<equiv> 2"
abbreviation (input) VKILL :: nat where "VKILL \<equiv> 3"
abbreviation (input) VEOF :: nat where "VEOF \<equiv> 4"
abbreviation (input) VMIN :: nat where "VMIN \<equiv> 6"
abbreviation (input) VSUSP :: nat where "VSUSP \<equiv> 10"
abbreviation (input) NCCS :: nat where "NCCS \<equiv> 32"
abbreviation (input) TERMIOS_LEN :: int where "TERMIOS_LEN \<equiv> 39"
abbreviation (input) SIGHUP :: int where "SIGHUP \<equiv> 1"
abbreviation (input) SIGINT :: int where "SIGINT \<equiv> 2"
abbreviation (input) SIGQUIT :: int where "SIGQUIT \<equiv> 3"
abbreviation (input) EBUSY :: int where "EBUSY \<equiv> 16"
abbreviation (input) ENOTTY :: int where "ENOTTY \<equiv> 25"
abbreviation (input) TCGETS :: int where "TCGETS \<equiv> 1"
abbreviation (input) TCSETS :: int where "TCSETS \<equiv> 2"
abbreviation (input) TIOCGPGRP :: int where "TIOCGPGRP \<equiv> 11"
abbreviation (input) TIOCSPGRP :: int where "TIOCSPGRP \<equiv> 12"
abbreviation (input) TIOCSCTTY :: int where "TIOCSCTTY \<equiv> 18"
abbreviation (input) TIOCNOTTY :: int where "TIOCNOTTY \<equiv> 19"
abbreviation (input) TTY1_DEV_NUM :: int where "TTY1_DEV_NUM \<equiv> 0x301"
abbreviation (input) TTY2_DEV_NUM :: int where "TTY2_DEV_NUM \<equiv> 0x302"
abbreviation (input) tty_dev :: int where "tty_dev \<equiv> 2"
abbreviation (input) tty2_dev :: int where "tty2_dev \<equiv> 3"

section \<open>State\<close>

record rex_sp =
  sp_Tx :: "int list"
  sp_Rx :: int
  sp_Ctrl :: int
  sp_Stat :: u32
  sp_Iack :: int

record termios =
  c_iflag :: u32
  c_oflag :: u32
  c_cflag :: u32
  c_lflag :: u32
  c_line :: int
  c_cc :: "int list"
  c_ispeed :: int
  c_ospeed :: int

record tty_state =
  t_dev :: "int option"
  t_rex :: int
  bptr :: addr
  buffer_end :: addr
  read_ptr :: addr
  reader :: "int option"
  reader_filp :: "int option"
  read_data :: addr
  read_count :: int
  termios :: termios
  tty_buffer :: addr
  foreground_group :: int
  controlling_session :: int

record tsk = psk +
  ttys :: "int \<Rightarrow> tty_state"
  sports :: "int \<Rightarrow> rex_sp"
  filp_private :: "int \<Rightarrow> int option"
  dev_private :: "int \<Rightarrow> int option"
  exception_m :: addr
  tty1_filp :: "int option"
  tty2_filp :: "int option"

type_synonym 'a tty_closer = "int \<Rightarrow> 'a tsk_scheme \<Rightarrow> ('a tsk_scheme \<times> int) option"

definition upd_tty :: "int \<Rightarrow> (tty_state \<Rightarrow> tty_state) \<Rightarrow> 'a tsk_scheme \<Rightarrow> 'a tsk_scheme" where
  "upd_tty n f k = k\<lparr>ttys := (ttys k)(n := f (ttys k n))\<rparr>"

definition upd_sp :: "int \<Rightarrow> (rex_sp \<Rightarrow> rex_sp) \<Rightarrow> 'a tsk_scheme \<Rightarrow> 'a tsk_scheme" where
  "upd_sp n f k = k\<lparr>sports := (sports k)(n := f (sports k n))\<rparr>"

section \<open>Output\<close>

definition rex_kputc :: "int \<Rightarrow> int \<Rightarrow> 'a tsk_scheme \<Rightarrow> 'a tsk_scheme \<times> int" where
  "rex_kputc rex c k = (if 0 \<le> c \<and> c \<le> 127 then (upd_sp rex (sp_Tx_update (\<lambda>t. t @ [c])) k, c) else (k, EOF))"

primrec rex_kputs :: "int \<Rightarrow> int list \<Rightarrow> int \<Rightarrow> 'a tsk_scheme \<Rightarrow> 'a tsk_scheme \<times> int" where
  "rex_kputs rex [] count k = (k, count)"
| "rex_kputs rex (c # s) count k =
     (let (k, r) = rex_kputc rex c k in rex_kputs rex s (if r \<noteq> EOF then count + 1 else count) k)"

definition clear_screen :: "int \<Rightarrow> 'a tsk_scheme \<Rightarrow> 'a tsk_scheme" where
  "clear_screen rex k = fst (rex_kputs rex [0x1b, 0x5b, 0x31, 0x3b, 0x31, 0x48, 0x1b, 0x5b, 0x32, 0x4a] 0 k)"

definition move_cursor :: "int \<Rightarrow> int \<Rightarrow> int \<Rightarrow> 'a tsk_scheme \<Rightarrow> 'a tsk_scheme" where
  "move_cursor rex num direction k =
     fst (rex_kputs rex (takeWhile (\<lambda>c. c \<noteq> 0) [0x5c, 0x30, 0x33, 0x33, 0x5b, 48 + num, direction]) 0 k)"

primrec tty_write_loop :: "nat \<Rightarrow> int \<Rightarrow> addr \<Rightarrow> 'a tsk_scheme \<Rightarrow> 'a tsk_scheme \<times> addr" where
  "tty_write_loop 0 rex p k = (k, p)"
| "tty_write_loop (Suc len) rex p k = tty_write_loop len rex (p + 1) (fst (rex_kputc rex (kmem k p) k))"

definition tty_write_rex :: "int \<Rightarrow> addr \<Rightarrow> int \<Rightarrow> 'a tsk_scheme \<Rightarrow> 'a tsk_scheme \<times> int" where
  "tty_write_rex rex dat len k = (let (k, p) = tty_write_loop (nat len) rex dat k in (k, to_int (p - dat)))"

section \<open>Editing the line\<close>

definition terminal_backspace :: "int \<Rightarrow> bool \<Rightarrow> 'a tsk_scheme \<Rightarrow> 'a tsk_scheme" where
  "terminal_backspace n echo_erase k =
     (if bptr (ttys k n) > tty_buffer (ttys k n)
      then let k = (if bptr (ttys k n) = read_ptr (ttys k n) then upd_tty n (read_ptr_update (\<lambda>p. p - 1)) k else k);
               k = upd_tty n (bptr_update (\<lambda>p. p - 1)) k
           in if echo_erase then fst (rex_kputc (t_rex (ttys k n)) BACKSPACE k) else k
      else k)"

partial_function (option) clear_terminal_buffer :: "int \<Rightarrow> bool \<Rightarrow> 'a tsk_scheme \<Rightarrow> 'a tsk_scheme option" where
  "clear_terminal_buffer n echo_erase k =
     (if bptr (ttys k n) > tty_buffer (ttys k n)
      then clear_terminal_buffer n echo_erase (terminal_backspace n echo_erase k)
      else Some k)"

definition clear_reader :: "int \<Rightarrow> 'a tsk_scheme \<Rightarrow> 'a tsk_scheme" where
  "clear_reader n k = upd_tty n (\<lambda>t. t\<lparr>reader := None, reader_filp := None\<rparr>) k"

definition can_return_in_non_canonical :: "tty_state \<Rightarrow> bool" where
  "can_return_in_non_canonical t \<longleftrightarrow> \<not> has_flag (c_lflag (termios t)) ICANON \<and>
     c_cc (termios t) ! VMIN mod 2 ^ 32 \<le> (bptr t - read_ptr t) mod 2 ^ 32"

section \<open>The interrupt\<close>

text \<open>The signal a character stands for, 0 for none.\<close>

definition tty_signal :: "termios \<Rightarrow> int \<Rightarrow> int" where
  "tty_signal t val =
     (if \<not> has_flag (c_lflag t) ISIG then 0
      else if val = c_cc t ! VINTR then SIGINT
      else if val = c_cc t ! VSUSP then SIGTSTP
      else if val = c_cc t ! VQUIT then SIGQUIT
      else 0)"

text \<open>The editing characters; \<open>True\<close> when the character was one.\<close>

definition tty_edit :: "int \<Rightarrow> int \<Rightarrow> 'a tsk_scheme \<Rightarrow> ('a tsk_scheme \<times> bool) option" where
  "tty_edit n val k =
     (let t = termios (ttys k n) in
      if \<not> has_flag (c_lflag t) ICANON then Some (k, False)
      else if val = c_cc t ! VERASE then Some (terminal_backspace n (has_flag (c_lflag t) ECHOE) k, True)
      else if has_flag (c_lflag t) ECHOK \<and> val = c_cc t ! VKILL
      then do { k \<leftarrow> clear_terminal_buffer n (has_flag (c_lflag t) ECHOE) k; Some (k, True) }
      else Some (k, False))"

text \<open>Putting a character into the buffer; the answer says whether it completes a raw read.\<close>

definition tty_store :: "int \<Rightarrow> int \<Rightarrow> 'a tsk_scheme \<Rightarrow> 'a tsk_scheme \<times> bool" where
  "tty_store n val k =
     (let t = termios (ttys k n) in
      if bptr (ttys k n) < buffer_end (ttys k n)
      then let k = (if \<not> has_flag (c_lflag t) ICANON \<or> isprint val \<or> val = newline
                    then let k = upd_mem (\<lambda>m. m(bptr (ttys k n) := val)) k;
                             k = upd_tty n (bptr_update (\<lambda>p. p + 1)) k
                         in if has_flag (c_lflag t) (ICANON OR ECHO) then fst (rex_kputc (t_rex (ttys k n)) val k) else k
                    else k)
           in (k, can_return_in_non_canonical (ttys k n))
      else if has_flag (c_iflag t) IMAXBEL then (fst (rex_kputc (t_rex (ttys k n)) 7 k), False)
      else (k, False))"

definition null_proc :: "'a tsk_scheme \<Rightarrow> proc" where
  "null_proc k = (procs k 0)\<lparr>p_proc_nr := kmem k 103, p_sig_pending := word_of_int (kmem k 104), p_sig_mask := word_of_int (kmem k 105)\<rparr>"

definition reader_proc :: "int \<Rightarrow> 'a tsk_scheme \<Rightarrow> proc" where
  "reader_proc n k = (case reader (ttys k n) of None \<Rightarrow> null_proc k | Some p \<Rightarrow> procs k p)"

definition tty_respond :: "int \<Rightarrow> bool \<Rightarrow> 'a tsk_scheme \<Rightarrow> 'a tsk_scheme option" where
  "tty_respond n send_response k =
     (if is_sigpending (k\<lparr>procs := \<lambda>_. reader_proc n k\<rparr>) 0 \<noteq> 0
      then do { (k, _) \<leftarrow> syscall_reply2 READ (- EINTR) (p_proc_nr (reader_proc n k)) (exception_m k) k;
                Some (clear_reader n k) }
      else case reader (ttys k n) of
             None \<Rightarrow> Some k
           | Some r \<Rightarrow>
               do { answer \<leftarrow> (if send_response \<or> bptr (ttys k n) \<ge> buffer_end (ttys k n) then Some True
                              else do { f \<leftarrow> reader_filp (ttys k n); Some (has_flag (filp_flags (filps k f)) O_NONBLOCK) });
                    if answer
                    then do { let len = bptr (ttys k n) - read_ptr (ttys k n);
                              let k = upd_mem (memcpy (read_data (ttys k n)) (read_ptr (ttys k n)) len) k;
                              (k, _) \<leftarrow> syscall_reply2 READ len (p_proc_nr (procs k r)) (exception_m k) k;
                              let k = upd_tty n (\<lambda>t. t\<lparr>bptr := tty_buffer t, read_ptr := tty_buffer t\<rparr>) k;
                              Some (clear_reader n k) }
                    else Some k })"

definition tty_receive :: "'a tty_closer \<Rightarrow> int \<Rightarrow> 'a tsk_scheme \<Rightarrow> 'a tsk_scheme option" where
  "tty_receive fops_close n k =
     do { let t = termios (ttys k n);
          let val = sp_Rx (sports k (t_rex (ttys k n)));
          let val = (if has_flag (c_iflag t) ICRNL \<and> val = 13 then newline else val);
          let signal = tty_signal t val;
          if signal \<noteq> 0 \<and> foreground_group (ttys k n) > 0
          then do { (k, _) \<leftarrow> sys_kill fops_close SYSTEM (- foreground_group (ttys k n)) signal k; Some k }
          else do { (k, edited) \<leftarrow> tty_edit n val k;
                    if edited then Some k
                    else do { let (k, full) = tty_store n val k;
                              tty_respond n (val = newline \<or> has_flag (c_lflag t) ICANON \<and> val = c_cc t ! VEOF \<or> full) k } } }"

definition tty_exception_handler :: "'a tty_closer \<Rightarrow> int \<Rightarrow> 'a tsk_scheme \<Rightarrow> 'a tsk_scheme option" where
  "tty_exception_handler fops_close n k =
     do { let rex = t_rex (ttys k n);
          k \<leftarrow> (if has_flag (sp_Stat (sports k rex)) 1 then tty_receive fops_close n k else Some k);
          Some (upd_sp rex (sp_Iack_update (\<lambda>_. 0)) k) }"

definition tty1_handler :: "'a tty_closer \<Rightarrow> 'a tsk_scheme \<Rightarrow> 'a tsk_scheme option" where
  "tty1_handler fops_close k = tty_exception_handler fops_close 1 k"

definition tty2_handler :: "'a tty_closer \<Rightarrow> 'a tsk_scheme \<Rightarrow> 'a tsk_scheme option" where
  "tty2_handler fops_close k = tty_exception_handler fops_close 2 k"

section \<open>Reading and writing\<close>

definition tty_read_buffer :: "int \<Rightarrow> addr \<Rightarrow> int \<Rightarrow> 'a tsk_scheme \<Rightarrow> 'a tsk_scheme \<times> int" where
  "tty_read_buffer n dat len k =
     (let t = ttys k n;
          buffer_count = (bptr t - read_ptr t) mod 2 ^ 32;
          count = (if buffer_count < len then buffer_count else len)
      in if count > 0 \<and> bptr t > read_ptr t
         then let k = upd_mem (\<lambda>m. m(bptr t := 0)) k;
                  k = upd_mem (strlcpy dat (read_ptr t) count) k
              in (upd_tty n (read_ptr_update (\<lambda>p. p + count)) k, to_int count)
         else (k, 0))"

text \<open>A read by a process of the foreground group: from the buffer at once, or suspended.\<close>

definition tty_take :: "int \<Rightarrow> int \<Rightarrow> int \<Rightarrow> addr \<Rightarrow> int \<Rightarrow> 'a tsk_scheme \<Rightarrow> 'a tsk_scheme \<times> int" where
  "tty_take n f who dat count k =
     (if has_flag (filp_flags (filps k f)) O_NONBLOCK \<or> can_return_in_non_canonical (ttys k n)
      then tty_read_buffer n dat count k
      else (upd_tty n (\<lambda>t. t\<lparr>read_data := dat, read_count := count, reader := Some who, reader_filp := Some f\<rparr>) k, SUSPEND))"

definition tty_read :: "int \<Rightarrow> addr \<Rightarrow> int \<Rightarrow> int \<Rightarrow> 'a tsk_scheme \<Rightarrow> ('a tsk_scheme \<times> int) option" where
  "tty_read f dat count offset k =
     do { n \<leftarrow> filp_private k f;
          who \<leftarrow> curr_syscall_caller k;
          if p_session_id (procs k who) \<noteq> controlling_session (ttys k n) \<or> foreground_group (ttys k n) \<noteq> p_procgrp (procs k who)
          then do { action \<leftarrow> aget (p_sig_table (procs k who)) SIGINT;
                    if sa_handler action = SIG_IGN \<or> sigismember (p_sig_mask (procs k who)) SIGINT \<noteq> 0 then Some (k, - EIO)
                    else do { (k, _) \<leftarrow> send_sig who SIGINT k; Some (k, DONTREPLY) } }
          else case reader (ttys k n) of
                 Some r \<Rightarrow> if IS_INUSE k r then Some (k, - EBUSY) else Some (tty_take n f who dat count (clear_reader n k))
               | None \<Rightarrow> Some (tty_take n f who dat count k) }"

definition tty_write :: "int \<Rightarrow> addr \<Rightarrow> int \<Rightarrow> int \<Rightarrow> 'a tsk_scheme \<Rightarrow> ('a tsk_scheme \<times> int) option" where
  "tty_write f dat count offset k = do { n \<leftarrow> filp_private k f; Some (tty_write_rex (t_rex (ttys k n)) dat count k) }"

definition tty_open :: "int \<Rightarrow> 'a tsk_scheme \<Rightarrow> ('a tsk_scheme \<times> int) option" where
  "tty_open f k = do { d \<leftarrow> filp_dev (filps k f); Some (k\<lparr>filp_private := (filp_private k)(f := dev_private k d)\<rparr>, 0) }"

definition tty_close :: "int \<Rightarrow> 'a tsk_scheme \<Rightarrow> ('a tsk_scheme \<times> int) option" where
  "tty_close f k = Some (k, 0)"

section \<open>Control\<close>

definition termios_words :: "termios \<Rightarrow> int list" where
  "termios_words t = [uint (c_iflag t), uint (c_oflag t), uint (c_cflag t), uint (c_lflag t), c_line t] @ c_cc t @
     [c_ispeed t, c_ospeed t]"

definition termios_at :: "memory \<Rightarrow> addr \<Rightarrow> termios" where
  "termios_at m p = \<lparr>c_iflag = word_of_int (m p), c_oflag = word_of_int (m (p + 1)), c_cflag = word_of_int (m (p + 2)),
     c_lflag = word_of_int (m (p + 3)), c_line = m (p + 4), c_cc = map (\<lambda>i. m (p + 5 + int i)) [0..<NCCS],
     c_ispeed = m (p + 37), c_ospeed = m (p + 38)\<rparr>"

definition tty_tiocspgrp :: "int \<Rightarrow> int \<Rightarrow> addr \<Rightarrow> 'a tsk_scheme \<Rightarrow> ('a tsk_scheme \<times> int) option" where
  "tty_tiocspgrp n who ptr k =
     (if controlling_session (ttys k n) \<noteq> p_session_id (procs k who) then Some (k, - ENOTTY)
      else do { ok \<leftarrow> user_ok k (kmem k ptr) 1 who;
                if \<not> ok then Some (k, - EFAULT)
                else let pgrp = kmem k (phys k (kmem k ptr) who) in
                     if \<exists>p \<in> set [1..9]. IS_INUSE k p \<and> p_procgrp (procs k p) = pgrp \<and>
                          p_session_id (procs k p) = p_session_id (procs k who)
                     then Some (upd_tty n (foreground_group_update (\<lambda>_. pgrp)) k, 0)
                     else Some (k, - EINVAL) })"

definition IS_SESSION_LEADER :: "'a kernel_scheme \<Rightarrow> int \<Rightarrow> bool" where
  "IS_SESSION_LEADER k p \<longleftrightarrow> p_session_id (procs k p) = p_pid (procs k p)"

definition tty_ioctl :: "'a tty_closer \<Rightarrow> int \<Rightarrow> int \<Rightarrow> addr \<Rightarrow> 'a tsk_scheme \<Rightarrow> ('a tsk_scheme \<times> int) option" where
  "tty_ioctl fops_close f req stack_ptr k =
     do { who \<leftarrow> curr_syscall_caller k;
          d \<leftarrow> filp_dev (filps k f);
          n \<leftarrow> dev_private k d;
          if req = TCGETS
          then do { ok \<leftarrow> user_ok k (kmem k stack_ptr) TERMIOS_LEN who;
                    if \<not> ok then Some (k, - EFAULT)
                    else Some (upd_mem (put_words (phys k (kmem k stack_ptr) who) (termios_words (termios (ttys k n)))) k, 0) }
          else if req = TCSETS
          then do { ok \<leftarrow> user_ok k (kmem k stack_ptr) TERMIOS_LEN who;
                    if \<not> ok then Some (k, - EFAULT)
                    else Some (upd_tty n (termios_update (\<lambda>_. termios_at (kmem k) (phys k (kmem k stack_ptr) who))) k, 0) }
          else if req = TIOCGPGRP then Some (upd_mem (\<lambda>m. m(stack_ptr := foreground_group (ttys k n))) k, 0)
          else if req = TIOCSPGRP then tty_tiocspgrp n who stack_ptr k
          else if req = TIOCSCTTY
          then if \<not> IS_SESSION_LEADER k who \<or> controlling_session (ttys k n) \<noteq> 0 \<and> p_uid (procs k who) \<noteq> 0
               then Some (k, - EPERM)
               else Some (upd_tty n (controlling_session_update (\<lambda>_. p_session_id (procs k who))) k, 0)
          else if req = TIOCNOTTY
          then if \<not> IS_SESSION_LEADER k who then Some (k, - EPERM)
               else do { k \<leftarrow> (if foreground_group (ttys k n) \<noteq> 0
                              then do { (k, _) \<leftarrow> sys_kill fops_close SYSTEM (- foreground_group (ttys k n)) SIGHUP k; Some k }
                              else Some k);
                         Some (upd_tty n (\<lambda>t. t\<lparr>foreground_group := 0, controlling_session := 0\<rparr>) k, 0) }
          else Some (k, - EINVAL) }"

definition tty_fops :: "'a tty_closer \<Rightarrow> 'a tsk_scheme filp_operations" where
  "tty_fops fops_close = \<lparr>fop_open = tty_open, fop_read = tty_read, fop_write = tty_write, fop_close = tty_close,
     fop_ioctl = tty_ioctl fops_close\<rparr>"

section \<open>Start\<close>

definition tty_init :: "int \<Rightarrow> int \<Rightarrow> int \<Rightarrow> 'a tsk_scheme \<Rightarrow> 'a tsk_scheme \<times> int" where
  "tty_init rex dev n k =
     (let k = k\<lparr>dev_private := (dev_private k)(dev := Some n)\<rparr>;
          k = upd_sp rex (sp_Ctrl_update (\<lambda>_. 256 OR 7)) k
      in (upd_tty n (\<lambda>t. t\<lparr>bptr := tty_buffer t, buffer_end := tty_buffer t + TTY_BUFFER_SIZ - 1, t_rex := rex,
            read_ptr := tty_buffer t\<rparr>) k, 0))"

definition tty_dev_init :: "'a tsk_scheme \<Rightarrow> 'a tsk_scheme \<times> int" where
  "tty_dev_init k = tty_init 1 tty_dev 1 k"

definition tty2_dev_init :: "'a tsk_scheme \<Rightarrow> 'a tsk_scheme \<times> int" where
  "tty2_dev_init k = tty_init 2 tty2_dev 2 k"

definition tty_dev_io_read :: "addr \<Rightarrow> int \<Rightarrow> int \<Rightarrow> 'a tsk_scheme \<Rightarrow> 'a tsk_scheme \<times> int" where
  "tty_dev_io_read buf off len k = tty_read_buffer 1 buf len k"

definition tty_dev_io_write :: "addr \<Rightarrow> int \<Rightarrow> int \<Rightarrow> 'a tsk_scheme \<Rightarrow> 'a tsk_scheme \<times> int" where
  "tty_dev_io_write buf off len k = tty_write_rex 1 buf len k"

definition tty2_dev_io_read :: "addr \<Rightarrow> int \<Rightarrow> int \<Rightarrow> 'a tsk_scheme \<Rightarrow> 'a tsk_scheme \<times> int" where
  "tty2_dev_io_read buf off len k = tty_read_buffer 2 buf len k"

definition tty2_dev_io_write :: "addr \<Rightarrow> int \<Rightarrow> int \<Rightarrow> 'a tsk_scheme \<Rightarrow> 'a tsk_scheme \<times> int" where
  "tty2_dev_io_write buf off len k = tty_write_rex 2 buf len k"

definition init_tty_filp :: "int \<Rightarrow> int \<Rightarrow> 'a tsk_scheme \<Rightarrow> ('a tsk_scheme \<times> int option) option" where
  "init_tty_filp dev n k =
     do { let (k, f) = get_free_filp k;
          f \<leftarrow> f;
          let k = upd_filp f (\<lambda>r. r\<lparr>filp_count := 100, filp_dev := Some dev\<rparr>) k;
          let k = upd_tty n (t_dev_update (\<lambda>_. Some dev)) k;
          Some (k\<lparr>filp_private := (filp_private k)(f := Some n)\<rparr>, Some f) }"

definition init_tty :: "'a tsk_scheme \<Rightarrow> 'a tsk_scheme option" where
  "init_tty k =
     do { (k, f) \<leftarrow> init_tty_filp tty_dev 1 k;
          let k = k\<lparr>tty1_filp := f\<rparr>;
          (k, f) \<leftarrow> init_tty_filp tty2_dev 2 k;
          let k = k\<lparr>tty2_filp := f\<rparr>;
          let (k, _) = register_device tty_dev TTY1_DEV_NUM S_IFCHR k;
          let (k, _) = register_device tty2_dev TTY2_DEV_NUM S_IFCHR k;
          Some k }"

section \<open>Selectors of updated states\<close>

lemma upd_tty_simps [simp]:
  "ttys (upd_tty n f k) = (ttys k)(n := f (ttys k n))" "kmem (upd_tty n f k) = kmem k" "procs (upd_tty n f k) = procs k"
  "sports (upd_tty n f k) = sports k" "filps (upd_tty n f k) = filps k" "exception_m (upd_tty n f k) = exception_m k"
  "ready_q (upd_tty n f k) = ready_q k"
  by (simp_all add: upd_tty_def)

lemma upd_sp_simps [simp]:
  "sports (upd_sp n g k) = (sports k)(n := g (sports k n))" "kmem (upd_sp n g k) = kmem k" "procs (upd_sp n g k) = procs k"
  "ttys (upd_sp n g k) = ttys k" "filps (upd_sp n g k) = filps k" "exception_m (upd_sp n g k) = exception_m k"
  "ready_q (upd_sp n g k) = ready_q k"
  by (simp_all add: upd_sp_def)

lemma upd_mem_tsk [simp]:
  "ttys (upd_mem g k) = ttys k" "sports (upd_mem g k) = sports k" "exception_m (upd_mem g k) = exception_m k"
  by (simp_all add: upd_mem_def)

lemma more_tsk:
  fixes k k' :: "'a tsk_scheme"
  assumes "kernel.more k' = kernel.more k"
  shows "ttys k' = ttys k" "sports k' = sports k" "exception_m k' = exception_m k"
  using assms by (cases k; cases k'; simp)+

end
