(* ===== verification/Devices.thy ===== *)
theory Devices
  imports Tty Descriptors Fork
begin

text \<open>
  The file operations of all registered devices together: the root file system
  (\<^verbatim>\<open>fs/rootfs.c\<close>), pipes (\<^verbatim>\<open>fs/system/pipe.c\<close>) and the two terminals
  (\<^verbatim>\<open>driver/tty.c\<close>), each with its own close operation, and the counts of references to open
  files through closing, duplicating, exiting and forking.
\<close>

section \<open>The registered devices\<close>

text \<open>A device that nothing registered has no operations: a call through it does not return.\<close>

definition no_fops :: "'k filp_operations" where
  "no_fops = \<lparr>fop_open = \<lambda>_ _. None, fop_read = \<lambda>_ _ _ _ _. None, fop_write = \<lambda>_ _ _ _ _. None, fop_close = \<lambda>_ _. None,
     fop_ioctl = \<lambda>_ _ _ _. None\<rparr>"

definition device_fops :: "'a tty_closer \<Rightarrow> int \<Rightarrow> 'a tsk_scheme filp_operations" where
  "device_fops fops_close dev =
     (if dev = rootfs_dev then root_fs_ops
      else if dev = pipe_dev then pipe_fops
      else if dev = tty_dev \<or> dev = tty2_dev then tty_fops fops_close
      else no_fops)"

abbreviation (input) terminals :: "int set" where "terminals \<equiv> {tty_dev, tty2_dev}"

section \<open>What waking a process on a pipe leaves alone\<close>

text \<open>The tables of descriptors and the table of open files.\<close>

definition fdv :: "'a kernel_scheme \<Rightarrow> (int \<Rightarrow> int option list) \<times> (int \<Rightarrow> filp)" where
  "fdv k = (\<lambda>p. p_fp_filp (procs k p), filps k)"

lemma fdv_upd [simp]:
  "fdv (upd_mem g k) = fdv k" "fdv (upd_queue i q k) = fdv k" "fdv (upd_proc p (p_state_update b) k) = fdv k"
  "fdv (upd_proc p (p_flags_update v) k) = fdv k" "fdv (upd_proc p (p_message_update w) k) = fdv k"
  "fdv (upd_proc p (p_next_update x) k) = fdv k" "fdv (upd_proc p (p_ctx_update c) k) = fdv k"
  by (simp_all add: fdv_def fun_eq_iff upd_queue_def upd_mem_def upd_proc_def)

lemma fdv_psk [simp]:
  "fdv (upd_pipe p f k) = fdv k" "fdv (set_slab s k) = fdv k" "fdv (del_reading ino w k) = fdv k" "fdv (del_writing ino w k) = fdv k"
  "fdv (pk_kfree a k) = fdv k" "fdv (upd_inode i h k) = fdv k" "fdv (k\<lparr>kmm := mm\<rparr>) = fdv k"
  by (simp_all add: fdv_def upd_pipe_def set_slab_def del_reading_def del_writing_def pk_kfree_def)

lemma enqueue_fdv: "enqueue_head i q k = Some k' \<Longrightarrow> fdv k' = fdv k"
  by (auto simp: enqueue_head_def Let_def bind_eq_Some_conv split: if_splits option.splits)

lemma reply_fdv: "syscall_reply2 n r d m k = Some (k', v) \<Longrightarrow> fdv k' = fdv k"
  by (auto simp: syscall_reply2_def do_notify_def set_syscall_reply_def set_reg0_def Let_def bind_eq_Some_conv
      dest!: enqueue_fdv split: if_splits option.splits)

lemma finish_fdv:
  "finish_read w k = Some k' \<Longrightarrow> fdv k' = fdv k" "finish_write w k = Some k' \<Longrightarrow> fdv k' = fdv k"
  by (auto simp: finish_read_def finish_write_def wake_def pipe_do_read_def pipe_do_write_def shift_pipe_data_def Let_def bind_eq_Some_conv
      dest!: reply_fdv)

lemma drain_fdv:
  "drain_reading ino k = Some k' \<Longrightarrow> fdv k' = fdv k" "drain_writing ino k = Some k' \<Longrightarrow> fdv k' = fdv k"
proof -
  show "fdv k' = fdv k" if "drain_reading ino k = Some k'"
    using that by (rule drain_reading.raw_induct [rotated, where P = "\<lambda>ino k y. fdv y = fdv k"])
      (auto simp: Let_def bind_eq_Some_conv dest!: finish_fdv split: if_splits)
  show "fdv k' = fdv k" if "drain_writing ino k = Some k'"
    using that by (rule drain_writing.raw_induct [rotated, where P = "\<lambda>ino k y. fdv y = fdv k"])
      (auto simp: Let_def bind_eq_Some_conv dest!: finish_fdv split: if_splits)
qed

lemma pipe_close_refs:
  assumes "pipe_close f k = Some (k', r)"
  shows "r = 0 \<and> dropped 1 f k k'"
proof -
  have "fdv k' = fdv (upd_filp f (filp_count_update (\<lambda>c. c - 1)) k) \<and> r = 0"
    using assms by (auto simp: pipe_close_def Let_def bind_eq_Some_conv dest!: drain_fdv split: if_splits)
  then show ?thesis by (auto simp: fdv_def dropped_def fun_eq_iff)
qed

text \<open>Every registered device closes as the descriptors expect, and the terminals are the ones that do not count.\<close>

interpretation all_files: closing_ops "device_fops fops_close" terminals for fops_close
proof
  fix dev f r and k k' :: "'a tsk_scheme"
  assume "fop_close (device_fops fops_close dev) f k = Some (k', r)"
  then show "r = 0 \<and> dropped (if dev \<in> terminals then 0 else 1) f k k'"
    by (auto simp: device_fops_def root_fs_ops_def pipe_fops_def tty_fops_def tty_close_def no_fops_def dropped_def
        dest!: root_fs_close_refs pipe_close_refs split: if_splits)
qed

section \<open>Forking\<close>

lemma count_files_apply:
  "filp_count (count_files fds fs g) = filp_count (fs g) + int (count_list fds (Some g)) \<and> filp_dev (count_files fds fs g) = filp_dev (fs g)"
  unfolding count_files_def by (induction fds arbitrary: fs) (auto split: option.splits)

lemma card_slots: "card {d. aget xs d = Some v} = count_list xs v"
proof -
  have "{d. aget xs d = Some v} = int ` {i. i < length xs \<and> v = xs ! i}"
    by (auto simp: aget_def image_iff dest!: zero_le_imp_eq_int)
  then have "card {d. aget xs d = Some v} = card {i. i < length xs \<and> v = xs ! i}" by (simp add: card_image)
  then show ?thesis by (simp add: count_list_eq_length_filter length_filter_conv_card)
qed

text \<open>Copying a process into a slot without open descriptors.\<close>

lemma copy_pcb_inv:
  fixes k :: "'a fsk_scheme"
  assumes "fd_inv U k" "IS_PROCN_OK parent" "IS_PROCN_OK child" "\<And>d f. fd_slot child d k \<noteq> Some (Some f)"
  shows "fd_inv U (copy_pcb parent child k)"
proof -
  let ?k = "copy_pcb parent child k" and ?fds = "p_fp_filp (procs k parent)"
  have p: "p_fp_filp (procs ?k q) = (if q = child then ?fds else p_fp_filp (procs k q))" for q
    by (simp add: copy_pcb_def Let_def upd_proc_def upd_timer_def)
  then have slot: "fd_slot q d ?k = (if q = child then fd_slot parent d k else fd_slot q d k)" for q d by (simp add: fd_slot_def)
  have fl: "filps ?k = count_files ?fds (filps k)" by (simp add: copy_pcb_def Let_def upd_proc_def upd_timer_def)
  have u: "uncounted U ?k f = uncounted U k f" for f by (simp add: uncounted_def fl count_files_apply)
  have refs: "refs f ?k = refs f k \<union> Pair child ` {d. aget ?fds d = Some (Some f)}" for f
    using assms(3,4) by (auto simp: refs_def slot) (auto simp: fd_slot_def)
  have fin: "finite {d. aget ?fds d = Some (Some f)}" for f
    by (rule finite_subset [of _ "{0..<int (length ?fds)}"]) (auto simp: aget_def split: if_splits)
  have "card (refs f ?k) = card (refs f k) + count_list ?fds (Some f)" for f
  proof -
    have "refs f k \<inter> Pair child ` {d. aget ?fds d = Some (Some f)} = {}" using assms(4) by (auto simp: refs_def)
    then show ?thesis unfolding refs using finite_refs [OF assms(1)] fin
      by (simp add: card_Un_disjoint card_image inj_on_def card_slots)
  qed
  then show ?thesis using assms(1-3) by (auto simp: fd_inv_def p slot fl u count_files_apply)
qed

section \<open>Properties\<close>

text \<open>
  What changes a reference to an open file here: the calls \<^verbatim>\<open>close\<close>, \<^verbatim>\<open>dup\<close> and \<^verbatim>\<open>dup2\<close> of any
  process, the closing of all files by \<^verbatim>\<open>exit_proc\<close>, and the copy of a process by \<^verbatim>\<open>fork\<close> and
  \<^verbatim>\<open>vfork\<close> into a slot that has no open descriptor.
\<close>

inductive fd_step :: "'a tty_closer \<Rightarrow> 'a tsk_scheme \<Rightarrow> 'a tsk_scheme \<Rightarrow> bool" for fops_close where
  close_call: "IS_PROCN_OK who \<Longrightarrow> sys_close (device_fops fops_close) who fd k = Some (k', r) \<Longrightarrow> fd_step fops_close k k'"
| dup_call: "IS_PROCN_OK who \<Longrightarrow> sys_dup who fd k = Some (k', r) \<Longrightarrow> fd_step fops_close k k'"
| dup2_call: "IS_PROCN_OK who \<Longrightarrow> sys_dup2 (device_fops fops_close) who fd newfd k = Some (k', r) \<Longrightarrow> fd_step fops_close k k'"
| exit_files: "IS_PROCN_OK who \<Longrightarrow> close_files (filp_close (device_fops fops_close)) who k = Some k' \<Longrightarrow> fd_step fops_close k k'"
| fork_copy: "IS_PROCN_OK parent \<Longrightarrow> IS_PROCN_OK child \<Longrightarrow> (\<And>d f. fd_slot child d k \<noteq> Some (Some f)) \<Longrightarrow>
     fd_step fops_close k (copy_pcb parent child k)"

lemma fd_step_inv: "fd_step fops_close k k' \<Longrightarrow> fd_inv terminals k \<Longrightarrow> fd_inv terminals k'"
proof (induction rule: fd_step.induct)
  case (close_call who fd k k' r)
  then show ?case using all_files.sys_close_run by blast
next
  case (dup_call who fd k k' r)
  then show ?case using sys_dup_inv by blast
next
  case (dup2_call who fd newfd k k' r)
  then show ?case using all_files.sys_dup2_inv by blast
next
  case (exit_files who k k')
  then show ?case using all_files.close_files_inv by blast
next
  case (fork_copy parent child k)
  then show ?case by (intro copy_pcb_inv)
qed

text \<open>The state the terminals are set up in: no entry used and no descriptor open.\<close>

definition no_files :: "'a fsk_scheme \<Rightarrow> bool" where
  "no_files k \<longleftrightarrow> (\<forall>f\<in>{0..<NR_FILPS}. filp_count (filps k f) = 0 \<and> filp_dev (filps k f) = None) \<and>
     (\<forall>p. IS_PROCN_OK p \<longrightarrow> p_fp_filp (procs k p) = replicate 16 None)"

lemma no_files_inv: "no_files k \<Longrightarrow> fd_inv terminals k"
proof -
  assume n: "no_files k"
  then have "fd_slot p d k \<noteq> Some (Some f)" if "IS_PROCN_OK p" for p d f using that by (auto simp: no_files_def fd_slot_def aget_def split: if_splits)
  moreover from this have "refs f k = {}" for f by (auto simp: refs_def)
  ultimately show ?thesis using n by (auto simp: fd_inv_def no_files_def uncounted_def)
qed

lemma init_tty_filp_inv:
  assumes "fd_inv terminals k" "dev \<in> terminals" "init_tty_filp dev n k = Some (k', x)"
  shows "fd_inv terminals k'"
proof -
  obtain k1 f where k1: "get_free_filp k = (k1, Some f)" and k': "procs k' = procs k1" "filps k' = filps (upd_filp f (\<lambda>r. r\<lparr>filp_count := 100, filp_dev := Some dev\<rparr>) k1)"
    using assms(3) by (auto simp: init_tty_filp_def bind_eq_Some_conv Let_def split: prod.splits)
  have "fd_inv terminals k1" by (rule fd_inv_counts [OF assms(1)]) (use get_free_filp_same [OF k1] in auto)
  moreover have "fd_slot p d k' = fd_slot p d k1" "refs g k' = refs g k1" for p d g using k'(1) by (simp_all add: fd_slot_def refs_def)
  ultimately show ?thesis using k' assms(2) by (auto simp: fd_inv_def uncounted_def)
qed

lemma fd_inv_same: "procs k' = procs k \<Longrightarrow> filps k' = filps k \<Longrightarrow> fd_inv U k \<Longrightarrow> fd_inv U k'"
  by (rule fd_inv_counts [of U k]) auto

lemma init_tty_inv:
  assumes "no_files k0" "init_tty k0 = Some k"
  shows "fd_inv terminals k"
proof -
  obtain k1 f k2 g where k1: "init_tty_filp tty_dev 1 k0 = Some (k1, f)" and k2: "init_tty_filp tty2_dev 2 (k1\<lparr>tty1_filp := f\<rparr>) = Some (k2, g)"
    and k: "procs k = procs k2" "filps k = filps k2"
    using assms(2) by (auto simp: init_tty_def bind_eq_Some_conv register_device_def Let_def split: prod.splits)
  have "fd_inv terminals k1" by (rule init_tty_filp_inv [OF no_files_inv [OF assms(1)] _ k1]) simp
  then have "fd_inv terminals (k1\<lparr>tty1_filp := f\<rparr>)" by (rule fd_inv_same [rotated 2]) simp_all
  then have "fd_inv terminals k2" by (rule init_tty_filp_inv [OF _ _ k2]) simp
  then show ?thesis by (rule fd_inv_same [OF k])
qed

text \<open>
  C29. The table of open files stays well formed from the set-up of the terminals on, with the close
  operation of every device: along any sequence of \<^verbatim>\<open>close\<close>, \<^verbatim>\<open>dup\<close> and \<^verbatim>\<open>dup2\<close> calls of any
  processes, exits and forks into slots without open descriptors, every descriptor of every process
  refers to an entry of the table, the count of an entry that is free, of a file or of an end of a
  pipe is the number of descriptors that refer to it, and the entries of the two terminals, whose
  close operation lowers no count, are never free.
\<close>

theorem descriptors_counted:
  assumes "fd_inv terminals k \<or> (\<exists>k0. no_files k0 \<and> init_tty k0 = Some k)" "(fd_step fops_close)\<^sup>*\<^sup>* k k'"
  shows "fd_inv terminals k'"
proof -
  have "fd_inv terminals k" using assms(1) init_tty_inv by blast
  with assms(2) show ?thesis by (induction rule: rtranclp_induct) (auto dest: fd_step_inv)
qed

theorem descriptors_counted_witness:
  "\<exists>(k :: tsk) k1 k2. filp_count (filps k 1) = 100 \<and> filp_count (filps k 4) = 2 \<and>
     sys_close (device_fops (\<lambda>_ _. None)) 1 2 k = Some (k1, 0) \<and> sys_close (device_fops (\<lambda>_ _. None)) 1 0 k1 = Some (k2, 0) \<and>
     fd_inv terminals k2 \<and> filp_count (filps k2 1) = 100 \<and> filp_count (filps k2 4) = 1"
proof -
  obtain k :: tsk where k: "fd_inv terminals k" "fd_slot 1 0 k = Some (Some 4)" "filp_dev (filps k 4) = Some rootfs_dev" "filp_count (filps k 4) = 2"
    "fd_slot 1 2 k = Some (Some 1)" "filp_dev (filps k 1) = Some tty_dev" "filp_count (filps k 1) = 100"
    using fd_demo by blast
  have one: "IS_PROCN_OK 1" by (simp add: IS_PROCN_OK_def)
  then have len: "length (p_fp_filp (procs k 1)) = 16" using k(1) by (simp add: fd_inv_def)
  have valid: "is_fd_opened_and_valid 1 2 k = Some True" using k(5) by (simp add: is_fd_opened_and_valid_def fd_slot_def)
  obtain k1 where k1: "sys_close (device_fops (\<lambda>_ _. None)) 1 2 k = Some (k1, 0)" "filps k1 = filps k" "fd_slot 1 0 k1 = Some (Some 4)"
    "length (p_fp_filp (procs k1 1)) = 16"
    using valid k(2,5,6) len by (auto simp: sys_close_def filp_close_def device_fops_def tty_fops_def tty_close_def set_fd_slot_def aset_def fd_slot_def aget_def
        upd_proc_def)
  obtain k2 where k2: "sys_close (device_fops (\<lambda>_ _. None)) 1 0 k1 = Some (k2, 0)" "filps k2 = filps (upd_filp 4 (filp_count_update (\<lambda>c. c - 1)) k1)"
    using sys_close_shared [OF k1(4,3), of rootfs_dev "device_fops (\<lambda>_ _. None)"] k(3,4) k1(2) by (auto simp: device_fops_def root_fs_ops_def)
  have "(fd_step (\<lambda>_ _. None))\<^sup>*\<^sup>* k k2"
    using close_call [OF one k1(1)] close_call [OF one k2(1)] by (rule converse_rtranclp_into_rtranclp [OF _ r_into_rtranclp])
  then have "fd_inv terminals k2" by (rule descriptors_counted [OF disjI1 [OF k(1)]])
  with k k1 k2 show ?thesis by - (rule exI [of _ k], simp)
qed

end
