(* ===== verification/TtyLine.thy ===== *)
theory TtyLine
  imports Tty
begin

text \<open>
  What the line discipline of a terminal does: characters received one interrupt at a time edit a
  line, the line is echoed and, when it ends, handed to the waiting reader.
\<close>

lemma is_sigpending_procs: "is_sigpending (k\<lparr>procs := \<lambda>_. procs k r\<rparr>) q = is_sigpending k r"
  by (simp add: is_sigpending_def)

section \<open>The reference editor\<close>

text \<open>What a character other than the end of the line makes of a line, and what is sent back.\<close>

definition edit_key :: "termios \<Rightarrow> int list \<Rightarrow> int \<Rightarrow> int list" where
  "edit_key t line c =
     (if c = c_cc t ! VERASE then butlast line
      else if has_flag (c_lflag t) ECHOK \<and> c = c_cc t ! VKILL then []
      else if isprint c then line @ [c]
      else line)"

definition echo_key :: "termios \<Rightarrow> int list \<Rightarrow> int \<Rightarrow> int list" where
  "echo_key t line c =
     (let erase = (\<lambda>n. if has_flag (c_lflag t) ECHOE then replicate n BACKSPACE else []) in
      if c = c_cc t ! VERASE then erase (min 1 (length line))
      else if has_flag (c_lflag t) ECHOK \<and> c = c_cc t ! VKILL then erase (length line)
      else if isprint c then filter (\<lambda>c. 0 \<le> c \<and> c \<le> 127) [c]
      else [])"

lemma length_edit_key: "length (edit_key t line c) \<le> Suc (length line)"
  by (auto simp: edit_key_def)

lemma length_edit_keys: "length (foldl (edit_key t) line cs) \<le> length line + length cs"
proof (induction cs arbitrary: line)
  case (Cons c cs)
  from Cons.IH [of "edit_key t line c"] length_edit_key [of t line c] show ?case by simp
qed simp

primrec echo_keys :: "termios \<Rightarrow> int list \<Rightarrow> int list \<Rightarrow> int list" where
  "echo_keys t line [] = []"
| "echo_keys t line (c # cs) = echo_key t line c @ echo_keys t (edit_key t line c) cs"

text \<open>A character arrives: the port holds it and says so, and interrupts.\<close>

definition received :: "int \<Rightarrow> int \<Rightarrow> 'a tsk_scheme \<Rightarrow> 'a tsk_scheme" where
  "received n c k = upd_sp (t_rex (ttys k n)) (\<lambda>s. s\<lparr>sp_Rx := c, sp_Stat := set_flag (sp_Stat s) 1\<rparr>) k"

primrec type_keys :: "'a tty_closer \<Rightarrow> int \<Rightarrow> int list \<Rightarrow> 'a tsk_scheme \<Rightarrow> 'a tsk_scheme option" where
  "type_keys fops_close n [] k = Some k"
| "type_keys fops_close n (c # cs) k =
     do { k \<leftarrow> tty_exception_handler fops_close n (received n c k); type_keys fops_close n cs k }"

lemma type_keys_append: "type_keys fops_close n (xs @ ys) k = do { k \<leftarrow> type_keys fops_close n xs k; type_keys fops_close n ys k }"
proof (induction xs arbitrary: k)
  case (Cons c cs)
  then show ?case by (cases "tty_exception_handler fops_close n (received n c k)") simp_all
qed simp

section \<open>Lines in the buffer\<close>

definition line_held :: "int \<Rightarrow> int list \<Rightarrow> 'a tsk_scheme \<Rightarrow> bool" where
  "line_held n line k \<longleftrightarrow> read_ptr (ttys k n) = tty_buffer (ttys k n) \<and>
     bptr (ttys k n) = tty_buffer (ttys k n) + int (length line) \<and> buffer_end (ttys k n) = tty_buffer (ttys k n) + 63 \<and>
     mem_words (kmem k) (tty_buffer (ttys k n)) (length line) = line"

definition key_frame :: "int \<Rightarrow> 'a tsk_scheme \<Rightarrow> 'a tsk_scheme \<Rightarrow> bool" where
  "key_frame n k k' \<longleftrightarrow> k' = k\<lparr>kmem := kmem k', ttys := ttys k', sports := sports k'\<rparr> \<and>
     ttys k' n = (ttys k n)\<lparr>bptr := bptr (ttys k' n)\<rparr> \<and>
     (\<forall>a. a < tty_buffer (ttys k n) \<or> tty_buffer (ttys k n) + 64 \<le> a \<longrightarrow> kmem k' a = kmem k a)"

definition keyed :: "int \<Rightarrow> 'a tsk_scheme \<Rightarrow> int list \<Rightarrow> int list \<Rightarrow> 'a tsk_scheme \<Rightarrow> bool" where
  "keyed n k echo line k' \<longleftrightarrow> line_held n line k' \<and> key_frame n k k' \<and>
     sp_Tx (sports k' (t_rex (ttys k n))) = sp_Tx (sports k (t_rex (ttys k n))) @ echo"

lemma key_frame_refl [simp]: "key_frame n k k" by (simp add: key_frame_def)

lemma key_frame_fields:
  assumes "key_frame n k k'"
  shows "procs k' = procs k" "ready_q k' = ready_q k" "filps k' = filps k" "exception_m k' = exception_m k"
    "t_rex (ttys k' n) = t_rex (ttys k n)" "tty_buffer (ttys k' n) = tty_buffer (ttys k n)" "termios (ttys k' n) = termios (ttys k n)"
    "reader (ttys k' n) = reader (ttys k n)" "reader_filp (ttys k' n) = reader_filp (ttys k n)"
    "read_data (ttys k' n) = read_data (ttys k n)"
proof -
  have e: "k' = k\<lparr>kmem := kmem k', ttys := ttys k', sports := sports k'\<rparr>"
    and t: "ttys k' n = (ttys k n)\<lparr>bptr := bptr (ttys k' n)\<rparr>" using assms by (simp_all add: key_frame_def)
  show "procs k' = procs k" "ready_q k' = ready_q k" "filps k' = filps k" "exception_m k' = exception_m k"
    by (subst e, simp)+
  show "t_rex (ttys k' n) = t_rex (ttys k n)" "tty_buffer (ttys k' n) = tty_buffer (ttys k n)" "termios (ttys k' n) = termios (ttys k n)"
    "reader (ttys k' n) = reader (ttys k n)" "reader_filp (ttys k' n) = reader_filp (ttys k n)"
    "read_data (ttys k' n) = read_data (ttys k n)"
    by (subst t, simp)+
qed

lemma key_frame_trans:
  assumes "key_frame n k k1" "key_frame n k1 k2"
  shows "key_frame n k k2"
proof -
  have e: "k1 = k\<lparr>kmem := kmem k1, ttys := ttys k1, sports := sports k1\<rparr>" "k2 = k1\<lparr>kmem := kmem k2, ttys := ttys k2, sports := sports k2\<rparr>"
    and t: "ttys k1 n = (ttys k n)\<lparr>bptr := bptr (ttys k1 n)\<rparr>" "ttys k2 n = (ttys k1 n)\<lparr>bptr := bptr (ttys k2 n)\<rparr>"
    using assms by (simp_all add: key_frame_def)
  have "k2 = k\<lparr>kmem := kmem k2, ttys := ttys k2, sports := sports k2\<rparr>" by (subst e(2), subst e(1)) simp
  moreover have "ttys k2 n = (ttys k n)\<lparr>bptr := bptr (ttys k2 n)\<rparr>" by (subst t(2), subst t(1)) simp
  ultimately show ?thesis using assms key_frame_fields(6) [OF assms(1)] by (simp add: key_frame_def)
qed

lemma keyed_trans: "keyed n k o1 l1 k1 \<Longrightarrow> keyed n k1 o2 l2 k2 \<Longrightarrow> keyed n k (o1 @ o2) l2 k2"
  using key_frame_fields(5) [of n k k1] by (auto simp: keyed_def intro: key_frame_trans)

lemma rex_kputc_key: "key_frame n k (fst (rex_kputc rex c k))"
  "sp_Tx (sports (fst (rex_kputc rex c k)) rex) = sp_Tx (sports k rex) @ filter (\<lambda>c. 0 \<le> c \<and> c \<le> 127) [c]"
  "ttys (fst (rex_kputc rex c k)) = ttys k" "kmem (fst (rex_kputc rex c k)) = kmem k"
  by (simp_all add: key_frame_def rex_kputc_def upd_sp_def)

lemma backspace_keyed:
  assumes "line_held n line k"
  shows "keyed n k (if e then replicate (min 1 (length line)) BACKSPACE else []) (butlast line) (terminal_backspace n e k)"
proof (cases "line = []")
  case True
  with assms show ?thesis by (simp add: terminal_backspace_def line_held_def keyed_def)
next
  case False
  define k1 where "k1 = upd_tty n (bptr_update (\<lambda>p. p - 1)) k"
  have h: "line_held n (butlast line) k1"
  proof -
    have w: "mem_words (kmem k) (tty_buffer (ttys k n)) (length line) = line" using assms by (simp add: line_held_def)
    have "mem_words (kmem k) (tty_buffer (ttys k n)) (length line - 1) = take (length line - 1) line"
      by (subst (2) w [symmetric]) simp
    then show ?thesis using assms False
      by (simp add: line_held_def k1_def butlast_conv_take of_nat_diff Suc_le_eq)
  qed
  have f: "key_frame n k k1" by (simp add: key_frame_def k1_def upd_tty_def)
  have b: "terminal_backspace n e k = (if e then fst (rex_kputc (t_rex (ttys k1 n)) BACKSPACE k1) else k1)"
    using assms False by (simp add: terminal_backspace_def line_held_def k1_def Let_def)
  have m: "min 1 (length line) = 1" using False by (cases line) auto
  show ?thesis
    using h f rex_kputc_key(1) [of n k1] key_frame_trans [OF f] unfolding b keyed_def m
    by (auto simp: rex_kputc_key line_held_def k1_def)
qed

lemma clear_keyed:
  assumes "line_held n line k"
  shows "\<exists>k'. clear_terminal_buffer n e k = Some k' \<and> keyed n k (if e then replicate (length line) BACKSPACE else []) [] k'"
  using assms
proof (induction "length line" arbitrary: line k)
  case 0
  then show ?case by (subst clear_terminal_buffer.simps) (simp add: line_held_def keyed_def)
next
  case (Suc m)
  let ?k1 = "terminal_backspace n e k"
  have b: "keyed n k (if e then replicate (min 1 (length line)) BACKSPACE else []) (butlast line) ?k1"
    by (rule backspace_keyed [OF Suc.prems])
  have len: "length (butlast line) = m" using Suc.hyps(2) by simp
  from b have "line_held n (butlast line) ?k1" by (simp add: keyed_def)
  from Suc.hyps(1) [OF len [symmetric] this, unfolded len] obtain k' where k': "clear_terminal_buffer n e ?k1 = Some k'"
    "keyed n ?k1 (if e then replicate m BACKSPACE else []) [] k'" by blast
  have "clear_terminal_buffer n e k = Some k'"
    using Suc.prems Suc.hyps(2) k'(1) by (subst clear_terminal_buffer.simps) (auto simp: line_held_def)
  moreover have "keyed n k (if e then replicate (length line) BACKSPACE else []) [] k'"
    using keyed_trans [OF b k'(2)] Suc.hyps(2) [symmetric] by (cases e) (simp_all flip: replicate_app_Cons_same)
  ultimately show ?case by blast
qed

text \<open>A terminal that edits lines.\<close>

definition cooked :: "tty_state \<Rightarrow> bool" where
  "cooked t \<longleftrightarrow> has_flag (c_lflag (termios t)) ICANON"

lemma ICANON_echo: "has_flag w ICANON \<Longrightarrow> has_flag w (ICANON OR ECHO)"
proof -
  have "(w AND (ICANON OR ECHO)) AND ICANON = w AND ICANON" by (simp add: and.assoc)
  then show "has_flag w ICANON \<Longrightarrow> ?thesis" by (auto simp: has_flag_def)
qed

lemma store_keyed:
  assumes "line_held n line k" "cooked (ttys k n)" "length line < 63" "isprint c \<or> c = newline"
  shows "\<exists>k'. tty_store n c k = (k', False) \<and> keyed n k (filter (\<lambda>c. 0 \<le> c \<and> c \<le> 127) [c]) (line @ [c]) k'"
proof -
  define k1 where "k1 = upd_tty n (bptr_update (\<lambda>p. p + 1)) (upd_mem (\<lambda>m. m(bptr (ttys k n) := c)) k)"
  let ?k' = "fst (rex_kputc (t_rex (ttys k1 n)) c k1)"
  have b: "bptr (ttys k n) = tty_buffer (ttys k n) + int (length line)" "bptr (ttys k n) < buffer_end (ttys k n)"
    and w: "mem_words (kmem k) (tty_buffer (ttys k n)) (length line) = line"
    using assms(1,3) by (simp_all add: line_held_def)
  have "mem_words ((kmem k)(bptr (ttys k n) := c)) (tty_buffer (ttys k n)) (length line) = line"
    by (rule trans [OF mem_words_frame w]) (simp add: b)
  then have "mem_words (kmem k1) (tty_buffer (ttys k n)) (length line + 1) = line @ [c]"
    by (simp add: k1_def mem_words_add b(1)) (simp add: mem_words_def)
  then have h: "line_held n (line @ [c]) k1" using assms(1) by (simp add: line_held_def k1_def)
  have f: "key_frame n k k1" using b assms(3) by (simp add: key_frame_def k1_def upd_tty_def upd_mem_def)
  have "has_flag (c_lflag (termios (ttys k n))) ICANON" using assms(2) by (simp add: cooked_def)
  then have "tty_store n c k = (?k', False)"
    using b(2) assms(4) ICANON_echo
    by (simp add: tty_store_def k1_def Let_def can_return_in_non_canonical_def rex_kputc_key)
  moreover have "keyed n k (filter (\<lambda>c. 0 \<le> c \<and> c \<le> 127) [c]) (line @ [c]) ?k'"
    using h key_frame_trans [OF f rex_kputc_key(1)] rex_kputc_key(2) [of "t_rex (ttys k1 n)" c k1]
    by (auto simp: keyed_def line_held_def rex_kputc_key k1_def)
  ultimately show ?thesis by blast
qed

lemma store_unprintable:
  assumes "line_held n line k" "cooked (ttys k n)" "length line < 63" "\<not> isprint c" "c \<noteq> newline"
  shows "tty_store n c k = (k, False)"
  using assms by (simp add: tty_store_def line_held_def cooked_def can_return_in_non_canonical_def)

definition reader_waits :: "int \<Rightarrow> int \<Rightarrow> 'a tsk_scheme \<Rightarrow> bool" where
  "reader_waits n r k \<longleftrightarrow> reader (ttys k n) = Some r \<and> is_sigpending k r = 0 \<and>
     (\<exists>f. reader_filp (ttys k n) = Some f \<and> \<not> has_flag (filp_flags (filps k f)) O_NONBLOCK)"

lemma reader_waits_frame: "key_frame n k k' \<Longrightarrow> reader_waits n r k \<Longrightarrow> reader_waits n r k'"
  using key_frame_fields [of n k k'] by (auto simp: reader_waits_def is_sigpending_def)

lemma cooked_frame: "key_frame n k k' \<Longrightarrow> cooked (ttys k' n) = cooked (ttys k n)"
  using key_frame_fields [of n k k'] by (simp add: cooked_def)

lemma respond_quiet:
  assumes "reader_waits n r k" "bptr (ttys k n) < buffer_end (ttys k n)"
  shows "tty_respond n False k = Some k"
  using assms by (auto simp: tty_respond_def reader_waits_def reader_proc_def is_sigpending_procs)

lemma received_keyed: "line_held n line k \<Longrightarrow> keyed n k [] line (received n c k)"
  by (simp add: keyed_def line_held_def key_frame_def received_def upd_sp_def)

lemma ack_keyed: "line_held n line k \<Longrightarrow> keyed n k [] line (upd_sp rex (sp_Iack_update g) k)"
  by (simp add: keyed_def line_held_def key_frame_def upd_sp_def)

text \<open>A character that neither ends the line nor stands for a signal.\<close>

definition ordinary_key :: "termios \<Rightarrow> int \<Rightarrow> bool" where
  "ordinary_key t c \<longleftrightarrow> tty_signal t c = 0 \<and> c \<noteq> newline \<and> \<not> (has_flag (c_iflag t) ICRNL \<and> c = 13) \<and> c \<noteq> c_cc t ! VEOF"

lemma key_step:
  assumes "line_held n line k" "cooked (ttys k n)" "length line < 62" "reader_waits n r k" "ordinary_key (termios (ttys k n)) c"
  shows "\<exists>k'. tty_exception_handler fops_close n (received n c k) = Some k' \<and>
     keyed n k (echo_key (termios (ttys k n)) line c) (edit_key (termios (ttys k n)) line c) k'"
proof -
  define t where "t = termios (ttys k n)"
  define k1 where "k1 = received n c k"
  have d1: "keyed n k [] line k1" using assms(1) by (simp add: k1_def received_keyed)
  then have h1: "line_held n line k1" and f1: "key_frame n k k1" by (simp_all add: keyed_def)
  note f = key_frame_fields [OF f1]
  have ck: "cooked (ttys k1 n)" "reader_waits n r k1" using assms(2,4) f1 by (simp_all add: cooked_frame reader_waits_frame)
  have rx: "sp_Rx (sports k1 (t_rex (ttys k1 n))) = c" "has_flag (sp_Stat (sports k1 (t_rex (ttys k1 n)))) 1"
    by (simp_all add: k1_def received_def)
  have ok: "tty_signal t c = 0" "c \<noteq> newline" "\<not> (has_flag (c_iflag t) ICRNL \<and> c = 13)" "c \<noteq> c_cc t ! VEOF"
    using assms(5) by (simp_all add: ordinary_key_def t_def)
  have i: "has_flag (c_lflag t) ICANON" using assms(2) by (simp add: cooked_def t_def)
  have "\<exists>k2. tty_receive fops_close n k1 = Some k2 \<and> keyed n k1 (echo_key t line c) (edit_key t line c) k2"
  proof (cases "c = c_cc t ! VERASE \<or> has_flag (c_lflag t) ECHOK \<and> c = c_cc t ! VKILL")
    case True
    have "\<exists>k2. tty_edit n c k1 = Some (k2, True) \<and> keyed n k1 (echo_key t line c) (edit_key t line c) k2"
    proof (cases "c = c_cc t ! VERASE")
      case True
      then show ?thesis using backspace_keyed [OF h1, of "has_flag (c_lflag t) ECHOE"] i
        by (auto simp: tty_edit_def f t_def [symmetric] echo_key_def edit_key_def Let_def split: if_splits)
    next
      case False
      with True clear_keyed [OF h1, of "has_flag (c_lflag t) ECHOE"] i show ?thesis
        by (auto simp: tty_edit_def f t_def [symmetric] echo_key_def edit_key_def Let_def)
    qed
    then show ?thesis using ok by (auto simp: tty_receive_def Let_def f t_def [symmetric] rx [unfolded f])
  next
    case False
    then have e: "tty_edit n c k1 = Some (k1, False)" by (auto simp: tty_edit_def f t_def [symmetric] Let_def)
    have l: "length line < 63" using assms(3) by simp
    have "\<exists>k2. tty_store n c k1 = (k2, False) \<and> keyed n k1 (echo_key t line c) (edit_key t line c) k2"
    proof (cases "isprint c")
      case True
      then have "echo_key t line c = filter (\<lambda>c. 0 \<le> c \<and> c \<le> 127) [c]" "edit_key t line c = line @ [c]"
        using False by (auto simp: echo_key_def edit_key_def)
      then show ?thesis using store_keyed [OF h1 ck(1) l, of c] True by simp
    next
      case np: False
      then show ?thesis using store_unprintable [OF h1 ck(1) l np ok(2)] h1 False
        by (auto simp: echo_key_def edit_key_def Let_def keyed_def)
    qed
    then obtain k2 where k2: "tty_store n c k1 = (k2, False)" "keyed n k1 (echo_key t line c) (edit_key t line c) k2" by blast
    then have "line_held n (edit_key t line c) k2" "key_frame n k1 k2" by (simp_all add: keyed_def)
    moreover have "length (edit_key t line c) < 63" using assms(3) length_edit_key [of t line c] by simp
    ultimately have "tty_respond n False k2 = Some k2"
      by (intro respond_quiet [OF reader_waits_frame [OF _ ck(2)]]) (auto simp: line_held_def)
    with k2 e ok show ?thesis by (auto simp: tty_receive_def Let_def f t_def [symmetric] rx [unfolded f])
  qed
  then obtain k2 where k2: "tty_receive fops_close n k1 = Some k2" "keyed n k1 (echo_key t line c) (edit_key t line c) k2" by blast
  let ?k3 = "upd_sp (t_rex (ttys k1 n)) (sp_Iack_update (\<lambda>_. 0)) k2"
  have "keyed n k2 [] (edit_key t line c) ?k3" using k2(2) by (intro ack_keyed) (simp add: keyed_def)
  from keyed_trans [OF d1 keyed_trans [OF k2(2) this]] have "keyed n k (echo_key t line c) (edit_key t line c) ?k3" by simp
  then show ?thesis using k2(1) rx(2) by (simp add: tty_exception_handler_def Let_def t_def flip: k1_def)
qed

lemma type_keys_run:
  assumes "line_held n line k" "cooked (ttys k n)" "length line + length cs \<le> 62" "reader_waits n r k"
    "\<forall>c \<in> set cs. ordinary_key (termios (ttys k n)) c"
  shows "\<exists>k'. type_keys fops_close n cs k = Some k' \<and>
     keyed n k (echo_keys (termios (ttys k n)) line cs) (foldl (edit_key (termios (ttys k n))) line cs) k'"
  using assms
proof (induction cs arbitrary: line k)
  case Nil
  then show ?case by (simp add: keyed_def)
next
  case (Cons c cs)
  let ?t = "termios (ttys k n)"
  obtain k1 where k1: "tty_exception_handler fops_close n (received n c k) = Some k1"
    "keyed n k (echo_key ?t line c) (edit_key ?t line c) k1"
    using key_step [OF Cons.prems(1,2) _ Cons.prems(4), of c fops_close] Cons.prems(3,5) by auto
  then have h: "line_held n (edit_key ?t line c) k1" and f: "key_frame n k k1" by (simp_all add: keyed_def)
  have t: "termios (ttys k1 n) = ?t" using key_frame_fields [OF f] by simp
  have "length (edit_key ?t line c) + length cs \<le> 62" using Cons.prems(3) length_edit_key [of ?t line c] by simp
  then obtain k2 where "type_keys fops_close n cs k1 = Some k2"
    "keyed n k1 (echo_keys ?t (edit_key ?t line c) cs) (foldl (edit_key ?t) (edit_key ?t line c) cs) k2"
    using Cons.IH [OF h] Cons.prems(2,4,5) f by (auto simp: cooked_frame reader_waits_frame t)
  with k1 keyed_trans [OF k1(2)] show ?case by auto
qed

lemma cstring_mem_words: "mem_words m a (length ws) = ws \<Longrightarrow> 0 \<notin> set ws \<Longrightarrow> m (a + int (length ws)) = 0 \<Longrightarrow> cstring m a ws"
proof (induction ws arbitrary: a)
  case (Cons w ws)
  have "mem_words m a 1 @ mem_words m (a + 1) (length ws) = [w] @ ws"
    using Cons.prems(1) mem_words_add [of m a 1 "length ws"] by simp
  then have "m a = w" "mem_words m (a + 1) (length ws) = ws" by (simp_all add: mem_words_def)
  with Cons.IH [of "a + 1"] Cons.prems(2,3) show ?case by (simp add: ac_simps)
qed simp

section \<open>Handing over a line\<close>

text \<open>The reader's buffer lies apart from the terminal's and from the two messages of the reply.\<close>

definition apart :: "addr \<Rightarrow> addr \<Rightarrow> int \<Rightarrow> bool" where
  "apart d a n \<longleftrightarrow> d + 64 \<le> a \<or> a + n \<le> d"

definition reader_room :: "int \<Rightarrow> int \<Rightarrow> 'a tsk_scheme \<Rightarrow> bool" where
  "reader_room n r k \<longleftrightarrow> apart (read_data (ttys k n)) (tty_buffer (ttys k n)) 64 \<and>
     apart (read_data (ttys k n)) (exception_m k) MESSAGE_LEN \<and> apart (read_data (ttys k n)) (p_message (procs k r)) MESSAGE_LEN"

lemma respond_answer:
  fixes k :: "'a tsk_scheme"
  assumes "line_held n line k" "length line \<le> 63" "reader_waits n r k" "reader_room n r k"
    and p: "p_proc_nr (procs k r) = r" "IS_PROCN_OK r" "IS_INUSE k r" "p_state (procs k r) = STATE_RECEIVING"
      "rq_inv k qs" "\<not> queued qs r" "i = p_priority (procs k r)" "IS_PRIORITY_OK i"
  shows "\<exists>k'. tty_respond n True k = Some k' \<and> p_state (procs k' r) = STATE_RUNNABLE \<and> rq_inv k' (qs(i := r # qs i)) \<and>
     c_regs (p_ctx (procs k' r)) = (c_regs (p_ctx (procs k r)))[0 := int (length line)] \<and>
     mem_words (kmem k') (read_data (ttys k n)) (length line) = line \<and> line_held n [] k' \<and>
     reader (ttys k' n) = None \<and> sports k' = sports k"
proof -
  let ?d = "read_data (ttys k n)" and ?b = "tty_buffer (ttys k n)"
  define k1 where "k1 = upd_mem (memcpy ?d (read_ptr (ttys k n)) (int (length line))) k"
  have l: "bptr (ttys k n) - read_ptr (ttys k n) = int (length line)" "read_ptr (ttys k n) = ?b"
    "mem_words (kmem k) ?b (length line) = line" using assms(1) by (simp_all add: line_held_def)
  have sep: "?d \<le> ?b \<or> ?b + int (length line) \<le> ?d" using assms(2,4) by (auto simp: reader_room_def apart_def)
  have m1: "mem_words (kmem k1) ?d (length line) = line"
    using mem_words_memcpy [OF sep order_refl, of "kmem k"] l by (simp add: k1_def memcpy_def)
  have k1: "procs k1 = procs k" "ready_q k1 = ready_q k" "ttys k1 = ttys k" "sports k1 = sports k" "exception_m k1 = exception_m k"
    "pnext k1 = pnext k" "IS_INUSE k1 r = IS_INUSE k r"
    by (simp_all add: k1_def IS_INUSE_def)
  have "rq_inv k1 qs" using p(5) rq_inv_cong [OF k1(6,2)] by simp
  with syscall_reply2_run [of r k1 qs i READ "int (length line)" "exception_m k1"] p k1
  obtain k2 where k2: "syscall_reply2 READ (int (length line)) r (exception_m k1) k1 = Some (k2, 0)"
    "p_state (procs k2 r) = STATE_RUNNABLE" "rq_inv k2 (qs(i := r # qs i))"
    "c_regs (p_ctx (procs k2 r)) = (c_regs (p_ctx (procs k r)))[0 := int (length line)]"
    "kmem k2 = copy_message (p_message (procs k r)) (exception_m k) ((kmem k1)(reply_res (exception_m k) := int (length line)))"
    by (auto simp: reply_value_def)
  have more: "ttys k2 = ttys k" "sports k2 = sports k"
    using more_tsk [of k2 k1] syscall_reply2_file_frame [OF k2(1)] k1 by (simp_all add: file_frame_def)
  have m2: "mem_words (kmem k2) ?d (length line) = line"
    using assms(2,4) by (intro trans [OF mem_words_frame m1]) (auto simp: k2(5) copy_message_def reader_room_def apart_def)
  let ?k3 = "clear_reader n (upd_tty n (\<lambda>t. t\<lparr>bptr := tty_buffer t, read_ptr := tty_buffer t\<rparr>) k2)"
  have "tty_respond n True k = Some ?k3"
    using assms(3) p(1) k2(1) l(1)
    by (simp add: tty_respond_def reader_waits_def reader_proc_def is_sigpending_procs Let_def k1 flip: k1_def)
  moreover have "rq_inv ?k3 qs' = rq_inv k2 qs'" for qs'
    by (rule rq_inv_cong) (simp_all add: clear_reader_def pnext_def fun_eq_iff)
  moreover have "line_held n [] ?k3" using assms(1) more by (simp add: line_held_def clear_reader_def)
  ultimately show ?thesis using k2 m2 more by (intro exI [of _ ?k3]) (simp add: clear_reader_def)
qed

section \<open>Properties\<close>

text \<open>
  C19. The line discipline. On a terminal that edits lines, with an empty buffer and a reader waiting,
  up to 62 characters and then a newline arrive, one interrupt each. The reader gets the line the
  reference editor makes of them, with the newline; its length is the result of the read; the
  reader is runnable; the terminal has sent back the echo of every character; its buffer is empty
  again and no reader is left. The number of words the reader asked for plays no part: a longer
  line is written past the end of its buffer.
\<close>

theorem tty_line:
  fixes k :: "'a tsk_scheme"
  assumes "line_held n [] k" "cooked (ttys k n)" "length cs \<le> 62" "reader_waits n r k" "reader_room n r k"
    and t: "t = termios (ttys k n)" "\<forall>c \<in> set cs. ordinary_key t c"
    and nl: "tty_signal t newline = 0" "c_cc t ! VERASE \<noteq> newline" "c_cc t ! VKILL \<noteq> newline"
    and p: "p_proc_nr (procs k r) = r" "IS_PROCN_OK r" "IS_INUSE k r" "p_state (procs k r) = STATE_RECEIVING"
      "rq_inv k qs" "\<not> queued qs r" "i = p_priority (procs k r)" "IS_PRIORITY_OK i" "c_regs (p_ctx (procs k r)) \<noteq> []"
  shows "\<exists>k' line. line = foldl (edit_key t) [] cs @ [newline] \<and> type_keys fops_close n (cs @ [newline]) k = Some k' \<and>
     mem_words (kmem k') (read_data (ttys k n)) (length line) = line \<and>
     c_regs (p_ctx (procs k' r)) ! 0 = int (length line) \<and> p_state (procs k' r) = STATE_RUNNABLE \<and> rq_inv k' (qs(i := r # qs i)) \<and>
     sp_Tx (sports k' (t_rex (ttys k n))) = sp_Tx (sports k (t_rex (ttys k n))) @ echo_keys t [] cs @ [newline] \<and>
     line_held n [] k' \<and> reader (ttys k' n) = None"
proof -
  let ?line = "foldl (edit_key t) [] cs"
  obtain k1 where k1: "type_keys fops_close n cs k = Some k1" "keyed n k (echo_keys t [] cs) ?line k1"
    using type_keys_run [OF assms(1,2) _ assms(4), of cs fops_close] assms(3) t by auto
  define k2 where "k2 = received n newline k1"
  have d2: "keyed n k (echo_keys t [] cs) ?line k2"
    using keyed_trans [OF k1(2) received_keyed [of n ?line k1 newline]] k1(2) by (simp add: keyed_def k2_def)
  have len: "length ?line \<le> 62" using length_edit_keys [of t "[]" cs] assms(3) by simp
  have f2: "key_frame n k k2" "line_held n ?line k2" using d2 by (simp_all add: keyed_def)
  obtain k3 where k3: "tty_store n newline k2 = (k3, False)" "keyed n k2 [newline] (?line @ [newline]) k3"
    using store_keyed [OF f2(2), of newline] assms(2) len f2(1) by (auto simp: cooked_frame)
  have d3: "keyed n k (echo_keys t [] cs @ [newline]) (?line @ [newline]) k3" by (rule keyed_trans [OF d2 k3(2)])
  then have f3: "key_frame n k k3" "line_held n (?line @ [newline]) k3" by (simp_all add: keyed_def)
  note g = key_frame_fields [OF f3(1)] and g2 = key_frame_fields [OF f2(1)]
  have rest: "reader_waits n r k3" "reader_room n r k3" "IS_INUSE k3 r" "rq_inv k3 qs"
    using assms(4,5) p(3,5) reader_waits_frame [OF f3(1)] rq_inv_cong [of k3 k] g
    by (simp_all add: reader_room_def IS_INUSE_def pnext_def fun_eq_iff)
  from respond_answer [OF f3(2) _ rest(1,2) _ p(2) rest(3) _ rest(4) p(6), of i] len p g
  obtain k4 where k4: "tty_respond n True k3 = Some k4" "p_state (procs k4 r) = STATE_RUNNABLE" "rq_inv k4 (qs(i := r # qs i))"
    "c_regs (p_ctx (procs k4 r)) = (c_regs (p_ctx (procs k r)))[0 := int (Suc (length ?line))]"
    "mem_words (kmem k4) (read_data (ttys k n)) (Suc (length ?line)) = ?line @ [newline]" "line_held n [] k4"
    "reader (ttys k4 n) = None" "sports k4 = sports k3" by auto
  let ?k5 = "upd_sp (t_rex (ttys k2 n)) (sp_Iack_update (\<lambda>_. 0)) k4"
  have rx: "sp_Rx (sports k2 (t_rex (ttys k n))) = newline" "has_flag (sp_Stat (sports k2 (t_rex (ttys k n)))) 1"
    using key_frame_fields [of n k k1] k1(2) by (simp_all add: k2_def received_def keyed_def)
  have e: "tty_edit n newline k2 = Some (k2, False)" using nl by (simp add: tty_edit_def g2 t(1) [symmetric] Let_def)
  have "tty_receive fops_close n k2 = Some k4"
    using k3(1) k4(1) e nl(1) rx by (simp add: tty_receive_def Let_def g2 t(1) [symmetric])
  then have "tty_exception_handler fops_close n k2 = Some ?k5" using rx by (simp add: tty_exception_handler_def Let_def g2)
  then have run: "type_keys fops_close n (cs @ [newline]) k = Some ?k5" using k1(1) by (simp add: type_keys_append k2_def)
  have "rq_inv ?k5 qs' = rq_inv k4 qs'" for qs' by (rule rq_inv_cong) (simp_all add: pnext_def fun_eq_iff)
  moreover have "sp_Tx (sports ?k5 (t_rex (ttys k n))) = sp_Tx (sports k3 (t_rex (ttys k n)))" using k4(8) by simp
  ultimately show ?thesis using run k4 d3 p(9) by (intro exI [of _ ?k5] exI [of _ "?line @ [newline]"]) (simp add: keyed_def line_held_def)
qed

definition termios0 :: termios where
  "termios0 = \<lparr>c_iflag = ICRNL, c_oflag = 0, c_cflag = 0, c_lflag = ICANON OR ECHOE, c_line = 0,
     c_cc = [3, 28, 127, 21, 4, 0, 1, 0, 0, 0, 26] @ replicate 21 0, c_ispeed = 0, c_ospeed = 0\<rparr>"

definition tty0 :: tty_state where
  "tty0 = \<lparr>t_dev = None, t_rex = 1, bptr = 3000, buffer_end = 3063, read_ptr = 3000, reader = Some 1, reader_filp = Some 0,
     read_data = 5000, read_count = 1, termios = termios0, tty_buffer = 3000, foreground_group = 0, controlling_session = 0\<rparr>"

theorem tty_line_witness:
  "\<exists>(k :: tsk) k'. read_count (ttys k 1) = 1 \<and> type_keys (\<lambda>_ _. None) 1 [104, 105, 127, 33, 10] k = Some k' \<and>
     mem_words (kmem k') (read_data (ttys k 1)) 3 = [104, 33, 10] \<and> c_regs (p_ctx (procs k' 1)) ! 0 = 3"
proof -
  fix k0 :: tsk
  define pr where "pr q = proc_zero\<lparr>p_proc_nr := q, p_flags := IN_USE, p_priority := 3, p_state := STATE_RECEIVING, p_message := 2000\<rparr>" for q
  define k where "k = k0\<lparr>procs := pr, ready_q := \<lambda>_. \<lparr>q_head = None, q_tail = None\<rparr>, ttys := \<lambda>_. tty0, exception_m := 1000, kmem := \<lambda>_. 0,
    filps := \<lambda>_. filp_zero\<rparr>"
  have p: "procs k = pr" "ttys k = (\<lambda>_. tty0)" "exception_m k = 1000" "filps k = (\<lambda>_. filp_zero)" by (simp_all add: k_def)
  have "pnext k q = None" for q by (simp add: pnext_def p pr_def proc_zero_def)
  then have rq: "rq_inv k (\<lambda>_. [])" by (simp add: rq_inv_def queue_ok_def k_def)
  have c: "c_cc termios0 ! VERASE = 127" "c_cc termios0 ! VKILL = 21" "c_cc termios0 ! VEOF = 4" "tty_signal termios0 c = 0" for c
    by (simp_all add: termios0_def tty_signal_def has_flag_def)
  have "line_held 1 [] k" "cooked (ttys k 1)" "reader_waits 1 1 k" "reader_room 1 1 k"
    by (simp_all add: p tty0_def line_held_def cooked_def termios0_def has_flag_def reader_waits_def is_sigpending_def pr_def
        proc_zero_def filp_zero_def reader_room_def apart_def)
  moreover have "termios0 = termios (ttys k 1)" "\<forall>c \<in> set [104, 105, 127, 33]. ordinary_key termios0 c"
    by (simp_all add: p tty0_def ordinary_key_def c)
  moreover have "p_proc_nr (procs k 1) = 1" "IS_PROCN_OK 1" "IS_INUSE k 1" "p_state (procs k 1) = STATE_RECEIVING"
    "3 = p_priority (procs k 1)" "IS_PRIORITY_OK 3" "c_regs (p_ctx (procs k 1)) \<noteq> []"
    by (simp_all add: p pr_def IS_PROCN_OK_def IS_INUSE_def has_flag_def IS_PRIORITY_OK_def proc_zero_def)
  ultimately have "\<exists>k' line. line = foldl (edit_key termios0) [] [104, 105, 127, 33] @ [newline] \<and>
     type_keys (\<lambda>_ _. None) 1 ([104, 105, 127, 33] @ [newline]) k = Some k' \<and> mem_words (kmem k') (read_data (ttys k 1)) (length line) = line \<and>
     c_regs (p_ctx (procs k' 1)) ! 0 = int (length line)"
    using tty_line [of 1 k "[104, 105, 127, 33]" 1 termios0 "\<lambda>_. []" 3 "\<lambda>_ _. None"] rq c
    by (simp add: queued_def del: type_keys.simps foldl_Cons) blast
  moreover have "foldl (edit_key termios0) [] [104, 105, 127, 33] @ [newline] = [104, 33, 10]"
    by (simp add: edit_key_def c isprint_def)
  moreover have "read_count (ttys k 1) = 1" by (simp add: p tty0_def)
  ultimately show ?thesis by - (rule exI [of _ k], simp add: eval_nat_numeral del: type_keys.simps foldl_Cons)
qed

text \<open>
  Reading at once from a terminal's buffer. The call returns the smaller of the number of unread
  words and the number asked for, gives that many of the words and moves on by as many. It writes
  further: when fewer words were asked for than are there it also stores the next one and a zero,
  and otherwise a zero, beyond the words it reports.
\<close>

theorem tty_read_overruns:
  fixes k :: "'a tsk_scheme"
  assumes "read_ptr (ttys k n) = p" "bptr (ttys k n) = p + int (length ws)" "mem_words (kmem k) p (length ws) = ws" "0 \<notin> set ws"
    and "ws \<noteq> []" "length ws \<le> 63" "0 < count" "dat + 65 < p \<or> p + int (length ws) < dat"
    and "m = min (length ws) count"
  shows "\<exists>k'. tty_read_buffer n dat (int count) k = (k', int m) \<and> mem_words (kmem k') dat m = take m ws \<and>
     read_ptr (ttys k' n) = p + int m \<and>
     (if count < length ws then kmem k' (dat + int m) = ws ! m \<and> kmem k' (dat + int m + 1) = 0 else kmem k' (dat + int m) = 0)"
proof -
  define m1 where "m1 = (kmem k)(p + int (length ws) := 0)"
  have "mem_words m1 p (length ws) = ws" by (rule trans [OF mem_words_frame assms(3)]) (simp add: m1_def)
  then have c: "cstring m1 p ws" using assms(4) by (intro cstring_mem_words) (simp_all add: m1_def)
  have bc: "int (length ws) mod 2 ^ 32 = int (length ws)" using assms(6) by simp
  have mc: "(if int (length ws) < int count then int (length ws) else int count) = int m" using assms(9) by simp
  have mn: "nat ((int m + 1) mod 2 ^ 32) = Suc m" using assms(6,9) by simp
  have "dat + int (Suc m) < p \<or> p + int (length ws) < dat" using assms(6,8,9) by auto
  from copy_loop_run [OF c this] obtain m2 where m2: "copy_loop (Suc m) dat p m1 = (m2, dat + int (min (Suc m) (length ws)))"
    "\<And>a. m2 a = (if dat \<le> a \<and> a < dat + int (min (Suc m) (length ws)) then ws ! nat (a - dat) else m1 a)" by blast
  let ?e = "dat + int (min (Suc m) (length ws))"
  define k' where "k' = upd_tty n (read_ptr_update (\<lambda>p. p + int m)) (upd_mem (strlcpy dat p (int m)) (upd_mem (\<lambda>m. m(p + int (length ws) := 0)) k))"
  have s: "strlcpy dat p (int m) m1 = m2(?e := 0)" unfolding strlcpy_def mn m2(1) by simp
  have run: "tty_read_buffer n dat (int count) k = (k', int m)"
    using assms(1,2,5,7,9) bc mc assms(6) by (auto simp: tty_read_buffer_def Let_def to_int_small k'_def)
  have mem: "kmem k' = m2(?e := 0)" using s by (simp add: m1_def fun_upd_def k'_def)
  have "mem_words (kmem k') dat m = take m ws"
    using assms(9) by (intro nth_equalityI) (auto simp: mem mem_words_def m2(2))
  moreover have "read_ptr (ttys k' n) = p + int m" using assms(1) by (simp add: k'_def)
  ultimately show ?thesis using run assms(9) by (intro exI [of _ k']) (auto simp: mem m2(2))
qed

theorem tty_read_overruns_witness:
  "\<exists>(k :: tsk) k'. tty_read_buffer 1 6000 1 k = (k', 1) \<and> kmem k' 6001 = 105 \<and> kmem k' 6002 = 0"
proof -
  fix k0 :: tsk
  define k where "k = k0\<lparr>ttys := \<lambda>_. tty0\<lparr>bptr := 3002\<rparr>, kmem := (\<lambda>_. 7)(3000 := 104, 3001 := 105)\<rparr>"
  have "\<exists>k'. tty_read_buffer 1 6000 (int 1) k = (k', int 1) \<and> mem_words (kmem k') 6000 1 = take 1 [104, 105] \<and>
     read_ptr (ttys k' 1) = 3000 + int 1 \<and>
     (if 1 < length [104, 105 :: int] then kmem k' (6000 + int 1) = [104, 105] ! 1 \<and> kmem k' (6000 + int 1 + 1) = 0 else kmem k' (6000 + int 1) = 0)"
    by (rule tty_read_overruns) (simp_all add: k_def tty0_def mem_words_def)
  then show ?thesis by - (rule exI [of _ k], auto)
qed

end
