(* ===== verification/ListHead.thy ===== *)
theory ListHead
  imports Prelude
begin

text \<open>
  The lists of \<^verbatim>\<open>include_winix/winix/list.h\<close>: rings of \<^verbatim>\<open>struct list_head\<close> threaded through the entries.
  The links of all entries are one store. The operations are macros: an argument is an expression
  that is evaluated again at each place it stands, so an argument that reads the store is a function
  of the store. \<^verbatim>\<open>list_splice\<close> and its variants name variables they do not declare and are left
  out.
\<close>

abbreviation (input) LIST_POISON1 :: addr where "LIST_POISON1 \<equiv> 0"
abbreviation (input) LIST_POISON2 :: addr where "LIST_POISON2 \<equiv> 2"

record list_head =
  l_next :: "addr \<Rightarrow> addr"
  l_prev :: "addr \<Rightarrow> addr"

definition set_next :: "addr \<Rightarrow> addr \<Rightarrow> list_head \<Rightarrow> list_head" where
  "set_next p v s = s\<lparr>l_next := (l_next s)(p := v)\<rparr>"

definition set_prev :: "addr \<Rightarrow> addr \<Rightarrow> list_head \<Rightarrow> list_head" where
  "set_prev p v s = s\<lparr>l_prev := (l_prev s)(p := v)\<rparr>"

section \<open>Operations\<close>

definition INIT_LIST_HEAD :: "addr \<Rightarrow> list_head \<Rightarrow> list_head" where
  "INIT_LIST_HEAD l s = set_prev l l (set_next l l s)"

definition list_add_between :: "addr \<Rightarrow> (list_head \<Rightarrow> addr) \<Rightarrow> (list_head \<Rightarrow> addr) \<Rightarrow> list_head \<Rightarrow> list_head" where
  "list_add_between new prevl nextl s =
     (let s = set_prev (nextl s) new s;
          s = set_next new (nextl s) s;
          s = set_prev new (prevl s) s
      in set_next (prevl s) new s)"

definition list_add :: "addr \<Rightarrow> addr \<Rightarrow> list_head \<Rightarrow> list_head" where
  "list_add new head s = list_add_between new (\<lambda>s. head) (\<lambda>s. l_next s head) s"

definition list_add_tail :: "addr \<Rightarrow> addr \<Rightarrow> list_head \<Rightarrow> list_head" where
  "list_add_tail new head s = list_add_between new (\<lambda>s. l_prev s head) (\<lambda>s. head) s"

definition list_del_between :: "(list_head \<Rightarrow> addr) \<Rightarrow> (list_head \<Rightarrow> addr) \<Rightarrow> list_head \<Rightarrow> list_head" where
  "list_del_between prevl nextl s = (let s = set_prev (nextl s) (prevl s) s in set_next (prevl s) (nextl s) s)"

definition list_del_entry :: "addr \<Rightarrow> list_head \<Rightarrow> list_head" where
  "list_del_entry entry s = list_del_between (\<lambda>s. l_prev s entry) (\<lambda>s. l_next s entry) s"

definition list_del :: "addr \<Rightarrow> list_head \<Rightarrow> list_head" where
  "list_del entry s =
     (let s = list_del_entry entry s;
          s = set_next entry LIST_POISON1 s
      in set_prev entry LIST_POISON2 s)"

definition list_del_init :: "addr \<Rightarrow> list_head \<Rightarrow> list_head" where
  "list_del_init entry s = INIT_LIST_HEAD entry (list_del_entry entry s)"

definition list_move :: "addr \<Rightarrow> addr \<Rightarrow> list_head \<Rightarrow> list_head" where
  "list_move l head s = list_add l head (list_del_entry l s)"

definition list_move_tail :: "addr \<Rightarrow> addr \<Rightarrow> list_head \<Rightarrow> list_head" where
  "list_move_tail l head s = list_add_tail l head (list_del_entry l s)"

definition list_is_last :: "addr \<Rightarrow> addr \<Rightarrow> list_head \<Rightarrow> bool" where
  "list_is_last l head s \<longleftrightarrow> l_next s l = head"

definition list_empty :: "addr \<Rightarrow> list_head \<Rightarrow> bool" where
  "list_empty head s \<longleftrightarrow> l_next s head = head"

definition list_empty_careful :: "addr \<Rightarrow> list_head \<Rightarrow> bool" where
  "list_empty_careful head s \<longleftrightarrow> l_next s head = head \<and> l_next s head = l_prev s head"

definition list_rotate_left :: "addr \<Rightarrow> list_head \<Rightarrow> list_head" where
  "list_rotate_left head s =
     (if list_empty head s then s
      else let s = list_del_between (\<lambda>s. l_prev s (l_next s head)) (\<lambda>s. l_next s (l_next s head)) s;
               s = set_prev head (l_next s head) s;
               s = set_next (l_next s head) head s;
               s = set_prev (l_next s head) (l_prev s head) s
           in set_next (l_prev s head) (l_next s head) s)"

definition list_is_singular :: "addr \<Rightarrow> list_head \<Rightarrow> bool" where
  "list_is_singular head s \<longleftrightarrow> \<not> list_empty head s \<and> l_next s head = l_prev s head"

definition list_cut_at :: "addr \<Rightarrow> addr \<Rightarrow> addr \<Rightarrow> list_head \<Rightarrow> list_head" where
  "list_cut_at l head entry s =
     (let s = set_next l (l_next s head) s;
          s = set_prev (l_next s l) l s;
          s = set_prev l entry s;
          s = set_next head (l_next s entry) s;
          s = set_next entry l s
      in set_prev (l_next s head) head s)"

definition list_cut_position :: "addr \<Rightarrow> addr \<Rightarrow> addr \<Rightarrow> list_head \<Rightarrow> list_head" where
  "list_cut_position l head entry s =
     (if list_empty head s then s
      else if list_is_singular head s \<and> l_next s head \<noteq> entry \<and> head \<noteq> entry then s
      else if entry = head then INIT_LIST_HEAD l s
      else list_cut_at l head entry s)"

section \<open>Traversal\<close>

text \<open>The entries a loop visits; \<open>None\<close> when it does not end. An entry is the structure around a link.\<close>

definition list_entry :: "addr \<Rightarrow> int \<Rightarrow> addr" where
  "list_entry ptr offset = ptr - offset"

partial_function (option) for_each_from :: "(list_head \<Rightarrow> addr \<Rightarrow> addr) \<Rightarrow> addr \<Rightarrow> addr \<Rightarrow> list_head \<Rightarrow> addr list option" where
  "for_each_from step pos head s =
     (if pos = head then Some [] else do { ps \<leftarrow> for_each_from step (step s pos) head s; Some (pos # ps) })"

definition list_for_each :: "addr \<Rightarrow> list_head \<Rightarrow> addr list option" where
  "list_for_each head s = for_each_from l_next (l_next s head) head s"

definition list_for_each_prev :: "addr \<Rightarrow> list_head \<Rightarrow> addr list option" where
  "list_for_each_prev head s = for_each_from l_prev (l_prev s head) head s"

definition list_first_entry :: "addr \<Rightarrow> int \<Rightarrow> list_head \<Rightarrow> addr" where
  "list_first_entry ptr offset s = list_entry (l_next s ptr) offset"

definition list_last_entry :: "addr \<Rightarrow> int \<Rightarrow> list_head \<Rightarrow> addr" where
  "list_last_entry ptr offset s = list_entry (l_prev s ptr) offset"

definition list_next_entry :: "addr \<Rightarrow> int \<Rightarrow> list_head \<Rightarrow> addr" where
  "list_next_entry pos offset s = list_entry (l_next s (pos + offset)) offset"

definition list_prev_entry :: "addr \<Rightarrow> int \<Rightarrow> list_head \<Rightarrow> addr" where
  "list_prev_entry pos offset s = list_entry (l_prev s (pos + offset)) offset"

partial_function (option) for_each_entry_from :: "int \<Rightarrow> addr \<Rightarrow> addr \<Rightarrow> list_head \<Rightarrow> addr list option" where
  "for_each_entry_from offset pos head s =
     (if pos + offset = head then Some []
      else do { ps \<leftarrow> for_each_entry_from offset (list_next_entry pos offset s) head s; Some (pos # ps) })"

definition list_for_each_entry :: "int \<Rightarrow> addr \<Rightarrow> list_head \<Rightarrow> addr list option" where
  "list_for_each_entry offset head s = for_each_entry_from offset (list_first_entry head offset s) head s"

text \<open>The loop that may remove the entry it visits.\<close>

partial_function (option) for_each_safe_from ::
    "(addr \<Rightarrow> list_head \<Rightarrow> list_head) \<Rightarrow> addr \<Rightarrow> addr \<Rightarrow> addr \<Rightarrow> list_head \<Rightarrow> list_head option" where
  "for_each_safe_from body pos n head s =
     (if pos = head then Some s
      else let s = body pos s in for_each_safe_from body n (l_next s n) head s)"

definition list_for_each_safe :: "(addr \<Rightarrow> list_head \<Rightarrow> list_head) \<Rightarrow> addr \<Rightarrow> list_head \<Rightarrow> list_head option" where
  "list_for_each_safe body head s = (let pos = l_next s head in for_each_safe_from body pos (l_next s pos) head s)"

section \<open>Rings\<close>

text \<open>The links run forward and backward from \<open>p\<close> through the entries to \<open>q\<close>.\<close>

primrec linked :: "list_head \<Rightarrow> addr \<Rightarrow> addr list \<Rightarrow> addr \<Rightarrow> bool" where
  "linked s p [] q \<longleftrightarrow> l_next s p = q \<and> l_prev s q = p"
| "linked s p (x # xs) q \<longleftrightarrow> l_next s p = x \<and> l_prev s x = p \<and> linked s x xs q"

definition ring :: "list_head \<Rightarrow> addr \<Rightarrow> addr list \<Rightarrow> bool" where
  "ring s h xs \<longleftrightarrow> distinct (h # xs) \<and> linked s h xs h"

lemma set_links_simps [simp]:
  "l_next (set_next p v s) = (l_next s)(p := v)" "l_prev (set_next p v s) = l_prev s"
  "l_prev (set_prev p v s) = (l_prev s)(p := v)" "l_next (set_prev p v s) = l_next s"
  by (simp_all add: set_next_def set_prev_def)

lemma linked_append: "linked s p (xs @ y # ys) q \<longleftrightarrow> linked s p xs y \<and> linked s y ys q"
  by (induction xs arbitrary: p) auto

lemma linked_cong:
  "(\<And>x. x \<in> set (p # xs) \<Longrightarrow> l_next s' x = l_next s x) \<Longrightarrow> (\<And>x. x \<in> set (xs @ [q]) \<Longrightarrow> l_prev s' x = l_prev s x) \<Longrightarrow>
     linked s' p xs q = linked s p xs q"
  by (induction xs arbitrary: p) auto

lemma linked_first: "linked s p xs q \<Longrightarrow> l_next s p = hd (xs @ [q])"
  by (cases xs) auto

lemma linked_last: "linked s p xs q \<Longrightarrow> l_prev s q = last (p # xs)"
  by (induction xs arbitrary: p) auto

text \<open>What an operation does to one ring it does not do to another.\<close>

lemma ring_cong: "(\<And>x. x \<in> set (h # xs) \<Longrightarrow> l_next s' x = l_next s x \<and> l_prev s' x = l_prev s x) \<Longrightarrow> ring s' h xs = ring s h xs"
  unfolding ring_def by (subst linked_cong [of h xs s' s h]) auto

lemma INIT_LIST_HEAD_ring: "ring (INIT_LIST_HEAD h s) h []"
  by (simp add: ring_def INIT_LIST_HEAD_def)

lemma list_add_ring:
  assumes "ring s h xs" "new \<notin> set (h # xs)"
  shows "ring (list_add new h s) h (new # xs)"
proof -
  let ?s = "list_add new h s" and ?n = "l_next s h"
  have n: "?n = hd (xs @ [h])" using assms(1) by (auto simp: ring_def dest: linked_first)
  have s: "l_next ?s = (l_next s)(new := ?n, h := new)" "l_prev ?s = (l_prev s)(?n := new, new := h)"
    using assms(2) by (auto simp: list_add_def list_add_between_def Let_def)
  have "linked ?s new xs h"
  proof (cases xs)
    case Nil
    then show ?thesis using assms(2) n by (simp add: s)
  next
    case (Cons x ys)
    have "linked ?s x ys h = linked s x ys h"
      using assms Cons n by (intro linked_cong) (auto simp: s ring_def)
    then show ?thesis using assms Cons n by (auto simp: s ring_def)
  qed
  then show ?thesis using assms by (auto simp: ring_def s)
qed

lemma list_del_entry_links:
  assumes "ring s h (xs @ e # ys)"
  shows "l_next (list_del_entry e s) = (l_next s)(last (h # xs) := hd (ys @ [h]))"
    "l_prev (list_del_entry e s) = (l_prev s)(hd (ys @ [h]) := last (h # xs))"
proof -
  have e: "l_prev s e = last (h # xs)" "l_next s e = hd (ys @ [h])"
    using assms linked_last [of s h xs e] linked_first [of s e ys h] by (auto simp: ring_def linked_append)
  have ne: "e \<noteq> hd (ys @ [h])" using assms by (cases ys) (auto simp: ring_def)
  show "l_next (list_del_entry e s) = (l_next s)(last (h # xs) := hd (ys @ [h]))"
    "l_prev (list_del_entry e s) = (l_prev s)(hd (ys @ [h]) := last (h # xs))"
    using e ne by (auto simp: list_del_entry_def list_del_between_def Let_def)
qed

lemma list_del_entry_ring:
  assumes "ring s h (xs @ e # ys)"
  shows "ring (list_del_entry e s) h (xs @ ys)"
proof -
  let ?s = "list_del_entry e s"
  have l: "linked s h xs e" "linked s e ys h" and d: "distinct (h # xs @ e # ys)" using assms by (auto simp: ring_def linked_append)
  note links = list_del_entry_links [OF assms]
  have front: "linked ?s h xs (hd (ys @ [h])) \<and> (case ys of [] \<Rightarrow> True | y # zs \<Rightarrow> linked ?s y zs h)"
  proof
    show "linked ?s h xs (hd (ys @ [h]))"
    proof (cases xs rule: rev_cases)
      case Nil
      then show ?thesis by (simp add: links)
    next
      case (snoc zs z)
      have z: "linked s h zs z" using l(1) snoc by (simp add: linked_append)
      have "linked ?s h zs z = linked s h zs z"
        using d snoc by (intro linked_cong) (cases ys; auto simp: links)+
      then show ?thesis using z snoc by (simp add: linked_append links)
    qed
    show "case ys of [] \<Rightarrow> True | y # zs \<Rightarrow> linked ?s y zs h"
    proof (cases ys)
      case (Cons y zs)
      have "linked ?s y zs h = linked s y zs h"
        using d Cons by (intro linked_cong) (cases xs rule: rev_cases; auto simp: links)+
      then show ?thesis using l(2) Cons by simp
    qed simp
  qed
  then have "linked ?s h (xs @ ys) h" by (cases ys) (auto simp: linked_append)
  then show ?thesis using d by (auto simp: ring_def)
qed

lemma list_del_ring:
  assumes "ring s h (xs @ e # ys)"
  shows "ring (list_del e s) h (xs @ ys)"
proof -
  have "ring (list_del e s) h (xs @ ys) = ring (list_del_entry e s) h (xs @ ys)"
    using assms by (intro ring_cong) (auto simp: list_del_def Let_def ring_def)
  then show ?thesis using list_del_entry_ring [OF assms] by simp
qed

lemma for_each_from_run: "linked s p xs q \<Longrightarrow> q \<notin> set xs \<Longrightarrow> for_each_from l_next (l_next s p) q s = Some xs"
proof (induction xs arbitrary: p)
  case Nil
  then show ?case by (subst for_each_from.simps) simp
next
  case (Cons x xs)
  then show ?case by (subst for_each_from.simps) auto
qed

lemma list_for_each_run: "ring s h xs \<Longrightarrow> list_for_each h s = Some xs"
  by (simp add: list_for_each_def ring_def for_each_from_run)

section \<open>Lists of entries as an interface\<close>

text \<open>Entries are put in front and taken out wherever they stand.\<close>

datatype 'e entry_op = Enter 'e | Leave 'e

primrec seq_op :: "'e entry_op \<Rightarrow> 'e list \<Rightarrow> 'e list" where
  "seq_op (Enter e) xs = e # xs"
| "seq_op (Leave e) xs = remove1 e xs"

primrec op_allowed :: "'e \<Rightarrow> 'e list \<Rightarrow> 'e entry_op \<Rightarrow> bool" where
  "op_allowed h xs (Enter e) \<longleftrightarrow> e \<notin> set (h # xs)"
| "op_allowed h xs (Leave e) \<longleftrightarrow> e \<in> set xs"

primrec ops_allowed :: "'e \<Rightarrow> 'e list \<Rightarrow> 'e entry_op list \<Rightarrow> bool" where
  "ops_allowed h xs [] \<longleftrightarrow> True"
| "ops_allowed h xs (x # os) \<longleftrightarrow> op_allowed h xs x \<and> ops_allowed h (seq_op x xs) os"

primrec entry_of :: "'e entry_op \<Rightarrow> 'e" where
  "entry_of (Enter e) = e"
| "entry_of (Leave e) = e"

primrec store_op :: "('e \<Rightarrow> 'e \<Rightarrow> 's \<Rightarrow> 's) \<Rightarrow> ('e \<Rightarrow> 's \<Rightarrow> 's) \<Rightarrow> 'e \<Rightarrow> 'e entry_op \<Rightarrow> 's \<Rightarrow> 's" where
  "store_op add del h (Enter e) s = add e h s"
| "store_op add del h (Leave e) s = del e s"

locale entry_lists =
  fixes holds :: "'s \<Rightarrow> 'e \<Rightarrow> 'e list \<Rightarrow> bool" and start :: "'e \<Rightarrow> 's \<Rightarrow> 's" and add :: "'e \<Rightarrow> 'e \<Rightarrow> 's \<Rightarrow> 's"
    and del :: "'e \<Rightarrow> 's \<Rightarrow> 's" and walk :: "'e \<Rightarrow> 's \<Rightarrow> 'e list option"
  assumes start: "holds (start h s) h []"
    and distinct: "holds s h xs \<Longrightarrow> distinct (h # xs)"
    and add: "holds s h xs \<Longrightarrow> e \<notin> set (h # xs) \<Longrightarrow> holds (add e h s) h (e # xs)"
    and del: "holds s h (xs @ e # ys) \<Longrightarrow> holds (del e s) h (xs @ ys)"
    and add_other: "holds s h xs \<Longrightarrow> e \<notin> set (h # xs) \<Longrightarrow> holds s g zs \<Longrightarrow> set (g # zs) \<inter> set (e # h # xs) = {} \<Longrightarrow> holds (add e h s) g zs"
    and del_other: "holds s h xs \<Longrightarrow> e \<in> set xs \<Longrightarrow> holds s g zs \<Longrightarrow> set (g # zs) \<inter> set (h # xs) = {} \<Longrightarrow> holds (del e s) g zs"
    and walk: "holds s h xs \<Longrightarrow> walk h s = Some xs"
begin

lemma op_holds:
  assumes "holds s h xs" "op_allowed h xs x"
  shows "holds (store_op add del h x s) h (seq_op x xs)"
proof (cases x)
  case (Enter e)
  with assms add show ?thesis by simp
next
  case (Leave e)
  with assms(2) obtain ys zs where "xs = ys @ e # zs" "e \<notin> set ys" by (auto dest: split_list_first)
  with assms(1) Leave del show ?thesis by (auto simp: remove1_append)
qed

lemma op_other:
  assumes "holds s h xs" "op_allowed h xs x" "holds s g zs" "set (g # zs) \<inter> set (entry_of x # h # xs) = {}"
  shows "holds (store_op add del h x s) g zs"
  using assms add_other del_other by (cases x) auto

lemma run_holds:
  "holds s h xs \<Longrightarrow> ops_allowed h xs os \<Longrightarrow> holds (fold (store_op add del h) os s) h (fold seq_op os xs)"
proof (induction os arbitrary: s xs)
  case (Cons x os)
  with op_holds show ?case by auto
qed simp

lemma run_other:
  "holds s h xs \<Longrightarrow> ops_allowed h xs os \<Longrightarrow> holds s g zs \<Longrightarrow> set (g # zs) \<inter> (set (h # xs) \<union> entry_of ` set os) = {} \<Longrightarrow>
     holds (fold (store_op add del h) os s) g zs"
proof (induction os arbitrary: s xs)
  case (Cons x os)
  have "set (seq_op x xs) \<subseteq> insert (entry_of x) (set xs)" by (cases x) (auto dest: notin_set_remove1 [rotated])
  then have "set (g # zs) \<inter> (set (h # seq_op x xs) \<union> entry_of ` set os) = {}" using Cons.prems(4) by auto
  moreover have "op_allowed h xs x" "ops_allowed h (seq_op x xs) os" using Cons.prems(2) by simp_all
  moreover have "set (g # zs) \<inter> set (entry_of x # h # xs) = {}" using Cons.prems(4) by auto
  ultimately have "holds (fold (store_op add del h) os (store_op add del h x s)) g zs"
    using Cons.IH op_holds [OF Cons.prems(1)] op_other [OF Cons.prems(1) _ Cons.prems(3)] by blast
  then show ?case by simp
qed simp

end

lemma list_add_links:
  assumes "ring s h xs" "new \<notin> set (h # xs)" "x \<notin> set (new # h # xs)"
  shows "l_next (list_add new h s) x = l_next s x" "l_prev (list_add new h s) x = l_prev s x"
proof -
  have "l_next s h \<in> set (h # xs)" using assms(1) by (cases xs) (auto simp: ring_def)
  then show "l_next (list_add new h s) x = l_next s x" "l_prev (list_add new h s) x = l_prev s x"
    using assms(2,3) by (auto simp: list_add_def list_add_between_def Let_def)
qed

lemma list_del_links:
  assumes "ring s h xs" "e \<in> set xs" "x \<notin> set (h # xs)"
  shows "l_next (list_del e s) x = l_next s x" "l_prev (list_del e s) x = l_prev s x"
proof -
  obtain ys zs where xs: "xs = ys @ e # zs" using assms(2) by (auto dest: split_list)
  have "last (h # ys) \<in> set (h # xs)" "hd (zs @ [h]) \<in> set (h # xs)" by (cases ys rule: rev_cases; cases zs; auto simp: xs)+
  with assms(3) xs show "l_next (list_del e s) x = l_next s x" "l_prev (list_del e s) x = l_prev s x"
    using list_del_entry_links [OF assms(1) [unfolded xs]] by (auto simp: list_del_def Let_def)
qed

interpretation rings: entry_lists ring INIT_LIST_HEAD list_add list_del list_for_each
proof (unfold_locales, goal_cases)
  case (1 h s) show ?case by (rule INIT_LIST_HEAD_ring)
next
  case (2 s h xs) then show ?case by (simp add: ring_def)
next
  case (3 s h xs e) then show ?case by (rule list_add_ring)
next
  case (4 s h xs e ys) then show ?case by (rule list_del_ring)
next
  case (5 s h xs e g zs)
  have "ring (list_add e h s) g zs = ring s g zs" using list_add_links [OF 5(1,2)] 5(4) by (intro ring_cong) blast
  with 5 show ?case by simp
next
  case (6 s h xs e g zs)
  have "ring (list_del e s) g zs = ring s g zs" using list_del_links [OF 6(1,2)] 6(4) by (intro ring_cong) blast
  with 6 show ?case by simp
next
  case (7 s h xs) then show ?case by (rule list_for_each_run)
qed

section \<open>Properties\<close>

text \<open>
  C11. The rings implement sequences of entries. From an initialised head, along any run of
  insertions of new entries and removals of present ones, a traversal visits exactly the entries of
  the sequence on which the run puts new entries in front and takes the others out; every other ring
  keeps its entries. The waiting lists of pipes and the list of devices are such sequences.
\<close>

theorem list_ops_refine:
  assumes "ops_allowed h [] os"
  shows "\<exists>s'. s' = fold (store_op list_add list_del h) os (INIT_LIST_HEAD h s) \<and> list_for_each h s' = Some (fold seq_op os []) \<and>
     (\<forall>g zs. ring s g zs \<longrightarrow> set (g # zs) \<inter> insert h (entry_of ` set os) = {} \<longrightarrow> ring s' g zs)"
proof -
  let ?s = "INIT_LIST_HEAD h s"
  note i = INIT_LIST_HEAD_ring [of h s]
  have "ring ?s g zs" if "ring s g zs" "h \<notin> set (g # zs)" for g zs
  proof -
    have "ring ?s g zs = ring s g zs" by (rule ring_cong) (use that(2) in \<open>auto simp: INIT_LIST_HEAD_def\<close>)
    with that(1) show ?thesis by simp
  qed
  then show ?thesis using rings.walk [OF rings.run_holds [OF i assms]] rings.run_other [OF i assms] by auto
qed

definition list_store0 :: list_head where
  "list_store0 = \<lparr>l_next = \<lambda>_. 0, l_prev = \<lambda>_. 0\<rparr>"

theorem list_ops_refine_witness:
  "\<exists>s'. s' = fold (store_op list_add list_del 100) [Enter 8, Enter 16, Enter 24, Leave 16] (INIT_LIST_HEAD 100 list_store0) \<and>
     list_for_each 100 s' = Some [24, 8]"
  using list_ops_refine [of 100 "[Enter 8, Enter 16, Enter 24, Leave 16]" list_store0] by simp

text \<open>
  C39. Putting an entry at the tail loses it. The macro reads the head's backward link again after it
  has overwritten it, so the new entry is linked to itself: a forward traversal visits the entries
  of before, a backward traversal does not end.
\<close>

theorem list_add_tail_loses_entry:
  assumes "ring s h xs" "new \<notin> set (h # xs)"
  shows "\<exists>s'. s' = list_add_tail new h s \<and> list_for_each h s' = Some xs \<and> list_for_each_prev h s' = None \<and>
     l_next s' new = new \<and> l_prev s' new = new"
proof -
  let ?s = "list_add_tail new h s"
  have l: "l_next ?s = (l_next s)(new := new)" "l_prev ?s = (l_prev s)(h := new, new := new)"
    using assms(2) by (auto simp: list_add_tail_def list_add_between_def Let_def)
  have run: "linked t p zs q \<Longrightarrow> q \<notin> set zs \<Longrightarrow> (\<And>x. x \<in> set (p # zs) \<Longrightarrow> l_next t' x = l_next t x) \<Longrightarrow>
      for_each_from l_next (l_next t' p) q t' = Some zs" for t t' p zs q
  proof (induction zs arbitrary: p)
    case Nil
    then show ?case by (subst for_each_from.simps) simp
  next
    case (Cons z zs)
    then show ?case by (subst for_each_from.simps) auto
  qed
  have "list_for_each h ?s = Some xs" unfolding list_for_each_def
    by (rule run [of s]) (use assms in \<open>auto simp: ring_def l\<close>)
  moreover have "for_each_from l_prev new h ?s = None"
  proof (cases "for_each_from l_prev new h ?s")
    case (Some ps)
    then have "Some ps = do { ps \<leftarrow> Some ps; Some (new # ps) }"
      using assms(2) for_each_from.simps [of l_prev new h ?s] by (simp add: l)
    then show ?thesis by simp
  qed simp
  ultimately show ?thesis using assms(2) by (auto simp: list_for_each_prev_def l)
qed

theorem list_add_tail_loses_entry_witness:
  "\<exists>s'. s' = list_add_tail 8 100 (INIT_LIST_HEAD 100 list_store0) \<and> list_for_each 100 s' = Some [] \<and> list_for_each_prev 100 s' = None"
  using list_add_tail_loses_entry [of "INIT_LIST_HEAD 100 list_store0" 100 "[]" 8] INIT_LIST_HEAD_ring [of 100 list_store0] by simp

text \<open>The loop that removes each entry it visits ends and leaves an empty ring.\<close>

lemma for_each_safe_empties:
  "ring s h (x # xs) \<Longrightarrow> \<exists>s'. for_each_safe_from list_del x (l_next s x) h s = Some s' \<and> ring s' h []"
proof (induction xs arbitrary: s x)
  case Nil
  have r: "ring (list_del x s) h []" using list_del_ring [of s h "[]" x "[]"] Nil by simp
  have "l_next s x = h" "x \<noteq> h" using Nil by (auto simp: ring_def)
  then show ?case using r by (subst for_each_safe_from.simps, subst for_each_safe_from.simps) (simp add: Let_def)
next
  case (Cons y ys)
  have r: "ring (list_del x s) h (y # ys)" using list_del_ring [of s h "[]" x "y # ys"] Cons.prems by simp
  have "l_next s x = y" "x \<noteq> h" using Cons.prems by (auto simp: ring_def)
  then show ?case using Cons.IH [OF r] by (subst for_each_safe_from.simps) (simp add: Let_def)
qed

theorem list_for_each_safe_del:
  assumes "ring s h xs"
  shows "\<exists>s'. list_for_each_safe list_del h s = Some s' \<and> ring s' h []"
proof (cases xs)
  case Nil
  with assms show ?thesis by (simp add: list_for_each_safe_def ring_def, subst for_each_safe_from.simps) simp
next
  case (Cons x ys)
  with assms for_each_safe_empties [of s h x ys] show ?thesis by (simp add: list_for_each_safe_def Let_def ring_def)
qed

end
