(* ===== verification/Stdio.thy ===== *)
theory Stdio
  imports Tty
begin

text \<open>
  Formatted output of the kernel (\<^verbatim>\<open>winix/sys_stdio.c\<close>) and the system calls that use it
  (\<^verbatim>\<open>kernel/system/do_dprintf.c\<close>). The local arrays of \<^verbatim>\<open>kprintf_vm\<close> and \<^verbatim>\<open>pass_number\<close>
  lie at the addresses \<open>fb\<close> (the digits of a number), \<open>pb\<close> (the text not yet written) and \<open>nb\<close>
  (the digits of a width), of \<^verbatim>\<open>FORMAT_BUF_SIZ\<close>, \<^verbatim>\<open>BUFFER_SIZ\<close> and \<^verbatim>\<open>PASS_NUMBER_BUF_SIZ\<close> words: nothing in the code keeps a
  store within them, so a number that is too long goes on to the words after \<open>fb\<close>, and theorems say for which
  arguments it does not. \<open>null_str\<close> is the address of the text printed for a null string. The
  write operation is that of the file's device. The logging functions, which print the time
  first, are calls of \<^verbatim>\<open>kprintf_vm\<close> in sequence and are left out.
\<close>

abbreviation (input) BUFFER_SIZ :: int where "BUFFER_SIZ \<equiv> 101"
abbreviation (input) FORMAT_BUF_SIZ :: int where "FORMAT_BUF_SIZ \<equiv> 11"
abbreviation (input) PASS_NUMBER_BUF_SIZ :: nat where "PASS_NUMBER_BUF_SIZ \<equiv> 20"

definition errlist :: "string list" where
  "errlist = [''OK'', ''EPERM'', ''ENOENT'', ''ESRCH'', ''EINTR'', ''EIO'', ''ENXIO'', ''E2BIG'', ''ENOEXEC'', ''EBADF'',
     ''ECHILD'', ''EAGAIN'', ''ENOMEM'', ''EACCES'', ''EFAULT'', ''ENOTBLK'', ''EBUSY'', ''EEXIST'', ''EXDEV'', ''ENODEV'',
     ''ENOTDIR'', ''EISDIR'', ''EINVAL'', ''ENFILE'', ''EMFILE'', ''ENOTTY'', ''ETXTBSY'', ''EFBIG'', ''ENOSPC'', ''ESPIPE'',
     ''EROFS'', ''EMLINK'', ''EPIPE'', ''EDOM'', ''ERANGE'', ''EDEADLK'', ''ENAMETOOLONG'', ''ENOLCK'', ''ENOSYS'', ''ENOTEMPTY'']"

definition kstr_error :: "int \<Rightarrow> string option" where
  "kstr_error err =
     (let err = (if err < 0 then to_int (- err) else err) in
      if err = DONTREPLY then Some ''DONTREPLY''
      else if err = SUSPEND then Some ''SUSPEND''
      else if err < 0 \<or> err \<ge> 40 then None
      else Some (errlist ! nat err))"

section \<open>Numbers\<close>

text \<open>The loop over the positions \<open>i\<close> of the digits, the highest first.\<close>

primrec kputnum_loop :: "int list \<Rightarrow> int \<Rightarrow> int \<Rightarrow> bool \<Rightarrow> addr \<Rightarrow> int \<Rightarrow> memory \<Rightarrow> memory \<times> addr \<times> int" where
  "kputnum_loop [] n msk v buf offset m = (m, buf, offset)"
| "kputnum_loop (i # is) n msk v buf offset m =
     (let d = (n div 2 ^ nat i) AND msk;
          v = (d \<noteq> 0 \<or> v)
      in if d < 10
         then if v then kputnum_loop is n msk v (buf + 1) (offset + 1) (m(buf := d + 48))
              else kputnum_loop is n msk v buf offset m
         else kputnum_loop is n msk v (buf + 1) (offset + 1) (m(buf := d - 10 + 65)))"

definition digit_positions :: "nat \<Rightarrow> nat \<Rightarrow> int list" where
  "digit_positions start decrease = map (\<lambda>j. int start - int decrease * int j) [0..<start div decrease + 1]"

definition kputnum_buf :: "int \<Rightarrow> addr \<Rightarrow> nat \<Rightarrow> nat \<Rightarrow> int \<Rightarrow> memory \<Rightarrow> memory \<times> int" where
  "kputnum_buf n buf start decrease msk m =
     (if n = 0 then (m(buf := 48, buf + 1 := 0), 1)
      else let (m, buf, offset) = kputnum_loop (digit_positions start decrease) n msk False buf 0 m
           in (m(buf := 0), offset))"

fun first_place :: "nat \<Rightarrow> nat \<Rightarrow> nat" where
  "first_place place n = (if place > n then first_place (place div 10) n else place)"

fun kputud_loop :: "nat \<Rightarrow> nat \<Rightarrow> addr \<Rightarrow> int \<Rightarrow> memory \<Rightarrow> memory \<times> addr \<times> int" where
  "kputud_loop place n buf offset m =
     (if place = 0 then (m, buf, offset)
      else kputud_loop (place div 10) n (buf + 1) (offset + 1) (m(buf := to_int (int (n div place)) smod 10 + 48)))"

definition kputud_buf :: "nat \<Rightarrow> addr \<Rightarrow> memory \<Rightarrow> memory \<times> int" where
  "kputud_buf n buf m =
     (if n = 0 then (m(buf := 48, buf + 1 := 0), 1)
      else let (m, buf, offset) = kputud_loop (first_place 1000000000 n) n buf 0 m in (m(buf := 0), offset))"

definition kputd_buf :: "int \<Rightarrow> addr \<Rightarrow> memory \<Rightarrow> memory \<times> int" where
  "kputd_buf n buf m =
     (if n < 0
      then let (m, r) = kputud_buf (nat (to_int (n * - 1) mod 2 ^ 32)) (buf + 1) (m(buf := 45)) in (m, r + 1)
      else kputud_buf (nat (n mod 2 ^ 32)) buf m)"

declare first_place.simps [simp del] kputud_loop.simps [simp del]

section \<open>The output buffer\<close>

definition tty_non_init_write :: "addr \<Rightarrow> int \<Rightarrow> 'a tsk_scheme \<Rightarrow> ('a tsk_scheme \<times> int) option" where
  "tty_non_init_write dat len k = Some (tty_write_rex 2 dat len k)"

record printf_buffer =
  pb_buffer :: addr
  pb_limit :: int
  pb_pos :: int
  pb_total_count :: int
  pb_filp :: "int option"

type_synonym 'a fops_of = "int \<Rightarrow> 'a tsk_scheme filp_operations"
type_synonym 'a printing = "printf_buffer \<Rightarrow> 'a tsk_scheme \<Rightarrow> ('a tsk_scheme \<times> printf_buffer) option"

definition printf_write :: "'a fops_of \<Rightarrow> int option \<Rightarrow> addr \<Rightarrow> int \<Rightarrow> 'a tsk_scheme \<Rightarrow> ('a tsk_scheme \<times> int) option" where
  "printf_write ops file dat len k =
     (case file of
        None \<Rightarrow> tty_non_init_write dat len k
      | Some f \<Rightarrow> do { d \<leftarrow> filp_dev (filps k f); fop_write (ops d) f dat len (filp_pos (filps k f)) k })"

definition flush_buffer_data :: "'a fops_of \<Rightarrow> addr \<Rightarrow> int \<Rightarrow> 'a printing" where
  "flush_buffer_data ops dat len tb k =
     do { (k, ret) \<leftarrow> printf_write ops (pb_filp tb) dat len k;
          Some (k, tb\<lparr>pb_total_count := pb_total_count tb + ret\<rparr>) }"

definition flush_buffer :: "'a fops_of \<Rightarrow> 'a printing" where
  "flush_buffer ops tb k =
     (if pb_pos tb > 0
      then do { (k, tb) \<leftarrow> flush_buffer_data ops (pb_buffer tb) (pb_pos tb) tb k; Some (k, tb\<lparr>pb_pos := 0\<rparr>) }
      else Some (k, tb))"

definition add_char_to_buffer :: "'a fops_of \<Rightarrow> int \<Rightarrow> 'a printing" where
  "add_char_to_buffer ops c tb k =
     do { (k, tb) \<leftarrow> (if pb_pos tb \<ge> pb_limit tb then flush_buffer ops tb k else Some (k, tb));
          Some (upd_mem (\<lambda>m. m(pb_buffer tb + pb_pos tb := c)) k, tb\<lparr>pb_pos := pb_pos tb + 1\<rparr>) }"

definition append_buffer :: "'a fops_of \<Rightarrow> addr \<Rightarrow> int \<Rightarrow> 'a printing" where
  "append_buffer ops sbuf sbuf_len tb k =
     (if sbuf_len > pb_limit tb
      then do { (k, tb) \<leftarrow> flush_buffer ops tb k; flush_buffer_data ops sbuf sbuf_len tb k }
      else do { (k, tb) \<leftarrow> (if sbuf_len + pb_pos tb \<ge> pb_limit tb then flush_buffer ops tb k else Some (k, tb));
                Some (upd_mem (memcpy_loop (nat sbuf_len) (pb_buffer tb + pb_pos tb) sbuf) k, tb\<lparr>pb_pos := pb_pos tb + sbuf_len\<rparr>) })"

primrec fill_loop :: "nat \<Rightarrow> 'a fops_of \<Rightarrow> int \<Rightarrow> 'a printing" where
  "fill_loop 0 ops token tb k = Some (k, tb)"
| "fill_loop (Suc len) ops token tb k = do { (k, tb) \<leftarrow> add_char_to_buffer ops token tb k; fill_loop len ops token tb k }"

definition fill_padding :: "'a fops_of \<Rightarrow> int \<Rightarrow> int \<Rightarrow> 'a printing" where
  "fill_padding ops token len tb k =
     do { (k, tb) \<leftarrow> (if len + pb_pos tb \<ge> pb_limit tb then flush_buffer ops tb k else Some (k, tb));
          fill_loop (nat len) ops token tb k }"

section \<open>Formats\<close>

primrec pass_digits :: "nat \<Rightarrow> addr \<Rightarrow> addr \<Rightarrow> memory \<Rightarrow> memory \<times> addr \<times> addr" where
  "pass_digits 0 nb format m = (m, nb, format)"
| "pass_digits (Suc n) nb format m =
     (if isdigit (m format) then pass_digits n (nb + 1) (format + 1) (m(nb := m format)) else (m, nb, format))"

definition pass_number :: "addr \<Rightarrow> addr \<Rightarrow> memory \<Rightarrow> (memory \<times> addr \<times> int) option" where
  "pass_number nb format m =
     (let (m, e, format) = pass_digits (PASS_NUMBER_BUF_SIZ - 1) nb format m in
      if e \<noteq> nb
      then do { let m = m(e := 0); (ret, _, _) \<leftarrow> strtol m nb 10; Some (m, format, ret) }
      else Some (m, format, 0))"

text \<open>The options between the percent sign and the conversion: direction (right when \<open>True\<close>), token, width and precision.\<close>

definition decode_options :: "addr \<Rightarrow> addr \<Rightarrow> memory \<Rightarrow> (memory \<times> addr \<times> bool \<times> int \<times> int \<times> int) option" where
  "decode_options nb format m =
     do { let right = (m format = 45);
          let format = (if right then format + 1 else format);
          let token = (if m format = 48 then 48 else 32);
          let format = (if m format = 48 then format + 1 else format);
          (m, format, padding_len) \<leftarrow> pass_number nb format m;
          (m, format, token, left_limit) \<leftarrow>
            (if m format = 46
             then do { (m, format, l) \<leftarrow> pass_number nb (format + 1) m; Some (m, format, 48, l) }
             else Some (m, format, token, 0));
          let format = (if m format = 108 \<or> m format = 122 then format + 1 else format);
          Some (m, format, right, token, padding_len, left_limit) }"

text \<open>The text of one argument: where it lies and its length; \<open>None\<close> when the call returns early.\<close>

definition convert_arg :: "addr \<Rightarrow> addr \<Rightarrow> int \<Rightarrow> int \<Rightarrow> addr \<Rightarrow> 'a tsk_scheme \<Rightarrow> ('a tsk_scheme \<times> (addr \<times> int) option) option" where
  "convert_arg fb null_str who c arg k =
     (let m = kmem k in
      if c = 117 then let (m, l) = kputud_buf (nat (m arg mod 2 ^ 32)) fb m in Some (upd_mem (\<lambda>_. m) k, Some (fb, l))
      else if c = 100 then let (m, l) = kputd_buf (to_int (m arg)) fb m in Some (upd_mem (\<lambda>_. m) k, Some (fb, l))
      else if c = 111 then let (m, l) = kputnum_buf (to_int (m arg)) fb 30 3 7 m in Some (upd_mem (\<lambda>_. m) k, Some (fb, l))
      else if c = 112 then let (m, l) = kputnum_buf (to_int (m arg)) (fb + 2) 28 4 15 (m(fb := 48, fb + 1 := 120, fb + 2 := 0))
                           in Some (upd_mem (\<lambda>_. m) k, Some (fb, 2 + l))
      else if c = 120 then let (m, l) = kputnum_buf (to_int (m arg)) fb 28 4 15 m in Some (upd_mem (\<lambda>_. m) k, Some (fb, l))
      else if c = 115
      then do { bad \<leftarrow> (if IS_USER_PROC k who then do { ok \<leftarrow> is_vaddr_accessible k (m arg) who; Some (\<not> ok) } else Some False);
                if bad then do { (k, _) \<leftarrow> send_sig who SIGSEGV k; Some (k, None) }
                else do { let p = phys k (m arg) who;
                          let p = (if p = NULL then null_str else p);
                          l \<leftarrow> strlen m p;
                          Some (k, Some (p, l)) } }
      else Some (upd_mem (\<lambda>m. m(fb := m arg)) k, Some (fb, 1)))"

definition put_padded :: "'a fops_of \<Rightarrow> bool \<Rightarrow> int \<Rightarrow> int \<Rightarrow> int \<Rightarrow> addr \<Rightarrow> int \<Rightarrow> 'a printing" where
  "put_padded ops right token padding_len left_limit p len tb k =
     (let padding_len = padding_len - len;
          (token, padding_len, len) =
            (if left_limit > 0
             then if left_limit > len then (48, left_limit - len, len) else (token, padding_len, left_limit)
             else (token, padding_len, len))
      in if padding_len > 0
         then if \<not> right
              then do { (k, tb) \<leftarrow> fill_padding ops token padding_len tb k; append_buffer ops p len tb k }
              else do { (k, tb) \<leftarrow> append_buffer ops p len tb k; fill_padding ops token padding_len tb k }
         else append_buffer ops p len tb k)"

partial_function (option) kprintf_loop :: "'a fops_of \<Rightarrow> addr \<Rightarrow> addr \<Rightarrow> addr \<Rightarrow> int \<Rightarrow> addr \<Rightarrow> addr \<Rightarrow> printf_buffer \<Rightarrow> 'a tsk_scheme \<Rightarrow>
    ('a tsk_scheme \<times> int) option" where
  "kprintf_loop ops fb nb null_str who format arg tb k =
     (if kmem k format = 0
      then do { (k, tb) \<leftarrow> flush_buffer ops tb k; Some (k, pb_total_count tb) }
      else if kmem k format = 37
      then do { (m, format, right, token, padding_len, left_limit) \<leftarrow> decode_options nb (format + 1) (kmem k);
                let k = upd_mem (\<lambda>_. m) k;
                (k, text) \<leftarrow> convert_arg fb null_str who (kmem k format) arg k;
                (case text of
                   None \<Rightarrow> Some (k, SUSPEND)
                 | Some (p, len) \<Rightarrow>
                     do { (k, tb) \<leftarrow> put_padded ops right token padding_len left_limit p len tb k;
                          kprintf_loop ops fb nb null_str who (format + 1) (arg + 1) tb k }) }
      else do { (k, tb) \<leftarrow> add_char_to_buffer ops (kmem k format) tb k;
                kprintf_loop ops fb nb null_str who (format + 1) arg tb k })"

definition kprintf_vm :: "'a fops_of \<Rightarrow> addr \<Rightarrow> addr \<Rightarrow> addr \<Rightarrow> addr \<Rightarrow> int option \<Rightarrow> addr \<Rightarrow> addr \<Rightarrow> int \<Rightarrow> 'a tsk_scheme \<Rightarrow>
    ('a tsk_scheme \<times> int) option" where
  "kprintf_vm ops fb pb nb null_str file format arg who k =
     kprintf_loop ops fb nb null_str who format arg
       \<lparr>pb_buffer = pb, pb_limit = BUFFER_SIZ, pb_pos = 0, pb_total_count = 0, pb_filp = file\<rparr>
       (upd_mem (memset pb 0 BUFFER_SIZ) k)"

text \<open>The arguments follow the format on the caller's stack, at \<open>sp\<close>.\<close>

definition filp_kprint :: "'a fops_of \<Rightarrow> addr \<Rightarrow> addr \<Rightarrow> addr \<Rightarrow> addr \<Rightarrow> int option \<Rightarrow> addr \<Rightarrow> 'a tsk_scheme \<Rightarrow> ('a tsk_scheme \<times> int) option" where
  "filp_kprint ops fb pb nb null_str file sp k = kprintf_vm ops fb pb nb null_str file (kmem k sp) (sp + 1) SYSTEM k"

definition kprintf :: "'a fops_of \<Rightarrow> addr \<Rightarrow> addr \<Rightarrow> addr \<Rightarrow> addr \<Rightarrow> addr \<Rightarrow> 'a tsk_scheme \<Rightarrow> ('a tsk_scheme \<times> int) option" where
  "kprintf ops fb pb nb null_str sp k = kprintf_vm ops fb pb nb null_str (tty1_filp k) (kmem k sp) (sp + 1) SYSTEM k"

definition kprintf2 :: "'a fops_of \<Rightarrow> addr \<Rightarrow> addr \<Rightarrow> addr \<Rightarrow> addr \<Rightarrow> addr \<Rightarrow> 'a tsk_scheme \<Rightarrow> ('a tsk_scheme \<times> int) option" where
  "kprintf2 ops fb pb nb null_str sp k = kprintf_vm ops fb pb nb null_str (tty2_filp k) (kmem k sp) (sp + 1) SYSTEM k"

section \<open>System calls\<close>

definition do_winix_strerror :: "int \<Rightarrow> addr \<Rightarrow> 'a tsk_scheme \<Rightarrow> ('a tsk_scheme \<times> int) option" where
  "do_winix_strerror who msg k =
     do { ok \<leftarrow> is_vaddr_accessible k (kmem k (m1_p1 msg)) who;
          if \<not> ok then Some (k, - EFAULT)
          else do { let len = kmem k (m1_i1 msg);
                    let usr_errno = kmem k (m1_i2 msg);
                    if usr_errno \<le> 0 \<or> usr_errno \<ge> 40 then Some (k, - EINVAL)
                    else do { s \<leftarrow> kstr_error usr_errno;
                              let ws = take (nat ((len + 1) mod 2 ^ 32)) (map (\<lambda>c. int (of_char c)) s) @ [0];
                              Some (upd_mem (put_words (phys k (kmem k (m1_p1 msg)) who) ws) k, 0) } } }"

definition do_winix_dprintf :: "'a fops_of \<Rightarrow> addr \<Rightarrow> addr \<Rightarrow> addr \<Rightarrow> addr \<Rightarrow> int \<Rightarrow> addr \<Rightarrow> 'a tsk_scheme \<Rightarrow> ('a tsk_scheme \<times> int) option" where
  "do_winix_dprintf ops fb pb nb null_str who m k =
     do { let fd = kmem k (m1_i1 m);
          let vp1 = kmem k (m1_p1 m);
          let vp2 = kmem k (m1_p2 m);
          ok \<leftarrow> is_vaddr_accessible k vp1 who;
          ok \<leftarrow> (if ok then is_vaddr_accessible k vp2 who else Some False);
          if \<not> ok then Some (k, - EFAULT)
          else do { valid \<leftarrow> is_fd_opened_and_valid who fd k;
                    if \<not> valid then Some (k, - EBADF)
                    else do { file \<leftarrow> fd_slot who fd k;
                              kprintf_vm ops fb pb nb null_str file (phys k vp1 who) (phys k vp2 who) who k } } }"

end
