(* ===== verification/Printing.thy ===== *)
theory Printing
  imports Stdio
begin

text \<open>
  What the kernel prints: numbers in decimal, read back by \<^verbatim>\<open>strtol\<close>, and the buffered text of a
  format.
\<close>

section \<open>Decimal numbers\<close>

text \<open>The digits of the last \<open>Suc j\<close> places of \<open>n\<close>.\<close>

primrec places :: "nat \<Rightarrow> nat \<Rightarrow> int list" where
  "places 0 n = [int (n mod 10)]"
| "places (Suc j) n = int (n div 10 ^ Suc j mod 10) # places j n"

lemma length_places [simp]: "length (places j n) = Suc j"
  by (induction j) simp_all

lemma places_digit: "d \<in> set (places j n) \<Longrightarrow> 0 \<le> d \<and> d < 10"
  by (induction j) auto

lemma horner_places: "horner 10 r (places j n) = r * 10 ^ Suc j + int (n mod 10 ^ Suc j)"
proof (induction j arbitrary: r)
  case 0
  then show ?case by (simp add: horner_def)
next
  case (Suc j)
  have "n mod 10 ^ Suc (Suc j) = 10 ^ Suc j * (n div 10 ^ Suc j mod 10) + n mod 10 ^ Suc j"
    using mod_mult2_eq [of n "10 ^ Suc j" 10] by (simp add: mult.commute)
  then have "int (n mod 10 ^ Suc (Suc j)) = 10 ^ Suc j * int (n div 10 ^ Suc j mod 10) + int (n mod 10 ^ Suc j)"
    by (metis of_nat_add of_nat_mult of_nat_power of_nat_numeral)
  moreover have "horner 10 r (places (Suc j) n) = horner 10 (r * 10 + int (n div 10 ^ Suc j mod 10)) (places j n)"
    by (simp add: horner_def)
  ultimately show ?case by (simp add: Suc.IH algebra_simps)
qed

text \<open>The decimal digits of a number.\<close>

fun digits_of :: "nat \<Rightarrow> int list" where
  "digits_of n = (if n < 10 then [int n] else digits_of (n div 10) @ [int (n mod 10)])"

declare digits_of.simps [simp del]

lemma places_snoc: "places (Suc j) n = places j (n div 10) @ [int (n mod 10)]"
proof (induction j)
  case 0
  then show ?case by simp
next
  case (Suc j)
  have "n div 10 ^ Suc (Suc j) = n div 10 div 10 ^ Suc j" by (simp only: power_Suc [of 10 "Suc j"] div_mult2_eq)
  then have "places (Suc (Suc j)) n = int (n div 10 div 10 ^ Suc j mod 10) # places (Suc j) n" by simp
  also have "\<dots> = places (Suc j) (n div 10) @ [int (n mod 10)]" by (subst Suc.IH) simp
  finally show ?case .
qed

lemma places_digits_of: "n < 10 ^ Suc j \<Longrightarrow> j = 0 \<or> 10 ^ j \<le> n \<Longrightarrow> places j n = digits_of n"
proof (induction j arbitrary: n)
  case 0
  then show ?case by (simp add: digits_of.simps)
next
  case (Suc j)
  have "(1::nat) \<le> 10 ^ j" by simp
  then have "10 \<le> n" using Suc.prems(2) by (simp only: power_Suc) linarith
  moreover have "places j (n div 10) = digits_of (n div 10)"
    using Suc.prems by (intro Suc.IH) (auto simp: div_less_iff_less_mult less_eq_div_iff_mult_less_eq)
  ultimately show ?case using places_snoc [of j n] by (simp add: digits_of.simps [of n])
qed

lemma put_words_append: "put_words a (xs @ ys) m = put_words (a + int (length xs)) ys (put_words a xs m)"
  by (induction xs arbitrary: a m) (simp_all add: ac_simps)

lemma put_words_apply: "put_words a ws m x = (if a \<le> x \<and> x < a + int (length ws) then ws ! nat (x - a) else m x)"
proof (induction ws arbitrary: a m)
  case (Cons w ws)
  have "nat (x - a) = Suc (nat (x - (a + 1)))" if "a < x" using that by simp
  then show ?case by (auto simp: Cons.IH nth_Cons')
qed simp

lemma small_digit: "n < 2 ^ 31 \<Longrightarrow> to_int (int (n div p)) smod 10 = int (n div p mod 10)"
proof -
  assume "n < 2 ^ 31"
  then have "n div p < 2 ^ 31" by (meson div_le_dividend le_less_trans)
  then have "to_int (int (n div p)) = int (n div p)" by (intro to_int_small) (simp_all flip: of_nat_less_iff)
  then show ?thesis by (simp add: signed_modulo_int_def sgn_if zmod_int)
qed

lemma kputud_loop_run:
  assumes "n < 2 ^ 31"
  shows "kputud_loop (10 ^ j) n buf off m = (put_words buf (map (\<lambda>d. d + 48) (places j n)) m, buf + int (Suc j), off + int (Suc j))"
proof (induction j arbitrary: buf off m)
  case 0
  have "kputud_loop 0 n b o' m' = (m', b, o')" for b o' m' by (simp add: kputud_loop.simps [of 0])
  then show ?case using small_digit [OF assms, of 1] by (subst kputud_loop.simps) simp
next
  case (Suc j)
  have "(10::nat) ^ Suc j div 10 = 10 ^ j" by simp
  then show ?case using small_digit [OF assms, of "10 ^ Suc j"] by (subst kputud_loop.simps) (simp add: Suc.IH fun_upd_def del: power_Suc)
qed

lemma first_place_run:
  assumes "10 ^ j \<le> n" "n < 10 ^ Suc j"
  shows "first_place (10 ^ (j + i)) n = 10 ^ j"
proof (induction i)
  case 0
  then show ?case using assms(1) by (subst first_place.simps) simp
next
  case (Suc i)
  have "n < 10 ^ (j + Suc i)" using assms(2) by (rule less_le_trans) (intro power_increasing; simp)
  moreover have "(10::nat) ^ (j + Suc i) div 10 = 10 ^ (j + i)" by simp
  ultimately show ?case using Suc.IH by (subst first_place.simps) (simp del: power_Suc add_Suc_right)
qed

text \<open>The digits of a number that is not zero start with its highest place.\<close>

lemma kputud_buf_run:
  assumes "n < 2 ^ 31"
  obtains ds where "ds = digits_of n" "kputud_buf n buf m = (put_words buf (map (\<lambda>d. d + 48) ds @ [0]) m, int (length ds))"
    "ds \<noteq> []" "\<And>d. d \<in> set ds \<Longrightarrow> 0 \<le> d \<and> d < 10" "horner 10 0 ds = int n" "length ds \<le> 10"
proof (cases "n = 0")
  case True
  then show thesis by (intro that [of "[0]"]) (simp_all add: kputud_buf_def horner_def digits_of.simps)
next
  case False
  with ex_power_ivl1 [of 10 n] obtain j where j: "10 ^ j \<le> n" "n < 10 ^ Suc j" by auto
  have "j < 10" by (rule ccontr) (use j(1) assms power_increasing [of 10 j "10 :: nat"] in simp)
  then have "first_place (10 ^ 9) n = 10 ^ j" using first_place_run [OF j, of "9 - j"] by simp
  then have "kputud_buf n buf m = (put_words buf (map (\<lambda>d. d + 48) (places j n) @ [0]) m, int (Suc j))"
    using False kputud_loop_run [OF assms, of j] by (simp add: kputud_buf_def put_words_append)
  then have b: "kputud_buf n buf m = (put_words buf (map (\<lambda>d. d + 48) (places j n) @ [0]) m, int (length (places j n)))" by simp
  have h: "horner 10 0 (places j n) = int n" using horner_places [of 0 j n] j(2) by simp
  show thesis
  proof (rule that [OF _ b _ _ h])
    show "places j n = digits_of n" using j by (intro places_digits_of) simp_all
    show "places j n \<noteq> []" by (simp flip: length_greater_0_conv)
  qed (use \<open>j < 10\<close> places_digit in simp_all)
qed

lemma digits_at_put:
  assumes "\<And>d. d \<in> set ds \<Longrightarrow> 0 \<le> d \<and> d < 10" "mem_words m a (length ds) = map (\<lambda>d. d + 48) ds" "m (a + int (length ds)) = 0"
  shows "digits_at m 10 a ds"
  using assms
proof (induction ds arbitrary: a)
  case Nil
  then show ?case by (simp add: isxdigit_def isdigit_def in_class_def)
next
  case (Cons d ds)
  have "mem_words m a 1 @ mem_words m (a + 1) (length ds) = [d + 48] @ map (\<lambda>d. d + 48) ds"
    using Cons.prems(2) mem_words_add [of m a 1 "length ds"] by simp
  then have h: "m a = d + 48" "mem_words m (a + 1) (length ds) = map (\<lambda>d. d + 48) ds" by (simp_all add: mem_words_def)
  have d: "0 \<le> d" "d < 10" using Cons.prems(1) [of d] by simp_all
  then have "isdigit (m a)" by (simp add: isdigit_def in_class_def h(1))
  then have "isxdigit (m a)" "digit_of (m a) = d" by (simp_all add: isxdigit_def digit_of_def h(1))
  moreover have "digits_at m 10 (a + 1) ds"
    by (rule Cons.IH) (use Cons.prems h in \<open>auto simp: ac_simps\<close>)
  ultimately show ?case using d by simp
qed

lemma mem_words_put: "mem_words (put_words a ws m) a (length ws) = ws"
  by (rule nth_equalityI) (simp_all add: mem_words_def put_words_apply)

text \<open>What is printed for a number: an optional sign and digits, and where it ends.\<close>

lemma kputd_buf_run:
  assumes "- (2 ^ 31) < n" "n < 2 ^ 31"
  obtains ds where "ds = digits_of (nat \<bar>n\<bar>)" "kputd_buf n buf m = (put_words buf ((if n < 0 then [45] else []) @ map (\<lambda>d. d + 48) ds @ [0]) m,
      int (length ds) + (if n < 0 then 1 else 0))"
    "ds \<noteq> []" "\<And>d. d \<in> set ds \<Longrightarrow> 0 \<le> d \<and> d < 10" "horner 10 0 ds = \<bar>n\<bar>" "length ds \<le> 10"
proof -
  have a: "nat \<bar>n\<bar> < 2 ^ 31" using assms by (simp add: nat_less_iff)
  have u: "to_int (n * - 1) mod 2 ^ 32 = \<bar>n\<bar>" if "n < 0" using that assms to_int_small [of "- n"] by simp
  show thesis
  proof (cases "n < 0")
    case True
    obtain ds where "ds = digits_of (nat \<bar>n\<bar>)" "kputud_buf (nat \<bar>n\<bar>) (buf + 1) (m(buf := 45)) = (put_words (buf + 1) (map (\<lambda>d. d + 48) ds @ [0]) (m(buf := 45)), int (length ds))"
      "ds \<noteq> []" "\<And>d. d \<in> set ds \<Longrightarrow> 0 \<le> d \<and> d < 10" "horner 10 0 ds = int (nat \<bar>n\<bar>)" "length ds \<le> 10"
      by (rule kputud_buf_run [OF a]) blast
    then show thesis using True u by (intro that [of ds]) (simp_all add: kputd_buf_def)
  next
    case False
    obtain ds where "ds = digits_of (nat \<bar>n\<bar>)" "kputud_buf (nat \<bar>n\<bar>) buf m = (put_words buf (map (\<lambda>d. d + 48) ds @ [0]) m, int (length ds))"
      "ds \<noteq> []" "\<And>d. d \<in> set ds \<Longrightarrow> 0 \<le> d \<and> d < 10" "horner 10 0 ds = int (nat \<bar>n\<bar>)" "length ds \<le> 10"
      by (rule kputud_buf_run [OF a]) blast
    then show thesis using False assms by (intro that [of ds]) (simp_all add: kputd_buf_def)
  qed
qed

text \<open>
  Printing a number and reading it gives the number: what \<^verbatim>\<open>%d\<close> stores for an \<^verbatim>\<open>int\<close>
  other than the least, \<^verbatim>\<open>strtol\<close> reads as that number, up to the end of what was stored.
\<close>

theorem kputd_strtol_roundtrip:
  assumes "- (2 ^ 31) < n" "n < 2 ^ 31"
  shows "\<exists>m' l. kputd_buf n buf m = (m', l) \<and> strtol m' buf 10 = Some (n, buf + l, False) \<and> m' (buf + l) = 0 \<and> l \<le> 11 \<and>
     (\<forall>a. a < buf \<or> buf + 12 \<le> a \<longrightarrow> m' a = m a)"
proof -
  obtain ds where ds: "kputd_buf n buf m = (put_words buf ((if n < 0 then [45] else []) @ map (\<lambda>d. d + 48) ds @ [0]) m,
      int (length ds) + (if n < 0 then 1 else 0))"
    "ds \<noteq> []" "\<And>d. d \<in> set ds \<Longrightarrow> 0 \<le> d \<and> d < 10" "horner 10 0 ds = \<bar>n\<bar>" "length ds \<le> 10"
    by (rule kputd_buf_run [OF assms]) blast
  define m' where "m' = put_words buf ((if n < 0 then [45] else []) @ map (\<lambda>d. d + 48) ds @ [0]) m"
  let ?a = "if n < 0 then buf + 1 else buf"
  define l where "l = int (length ds) + (if n < 0 then 1 else 0)"
  have n1: "nat (1 + int i) = Suc i" for i by simp
  have w: "mem_words m' ?a (length ds) = map (\<lambda>d. d + 48) ds" and z: "m' (?a + int (length ds)) = 0" and "n < 0 \<Longrightarrow> m' buf = 45"
    by (auto simp: m'_def mem_words_def put_words_apply nth_append nth_Cons' nat_diff_distrib n1 intro!: nth_equalityI)
  moreover have "digits_at m' 10 ?a ds" by (intro digits_at_put ds w z)
  ultimately have "strtol m' buf 10 = Some (n, ?a + int (length ds), False)"
    using strtol_run [of m' 10 "n < 0" buf ds] ds(2,4) assms by simp
  moreover have "m' x = m x" if "x < buf \<or> buf + 12 \<le> x" for x using that ds(5) by (auto simp: m'_def put_words_apply)
  moreover have e: "?a + int (length ds) = buf + l" "l \<le> 11" using ds(5) by (simp_all add: l_def)
  moreover have "kputd_buf n buf m = (m', l)" using ds(1) by (simp only: m'_def l_def)
  ultimately show ?thesis using z unfolding e(1) by (intro exI [of _ m'] exI [of _ l]) simp
qed

theorem kputd_strtol_roundtrip_witness:
  "\<exists>m' l. kputd_buf (- 4096) 100 (\<lambda>_. 7) = (m', l) \<and> strtol m' 100 10 = Some (- 4096, 100 + l, False)"
  using kputd_strtol_roundtrip [of "- 4096" 100 "\<lambda>_. 7"] by auto

text \<open>
  An unsigned number of 31 bits or more loses its last digit: the quotient by one is stored in a
  signed variable, and the remainder of a negative number is not positive.
\<close>

lemma kputud_loop_last:
  "\<exists>m'. kputud_loop (10 ^ j) n buf off m = (m', buf + int (Suc j), off + int (Suc j)) \<and> m' (buf + int j) = to_int (int n) smod 10 + 48"
proof (induction j arbitrary: buf off m)
  case 0
  have "kputud_loop 0 n b o' m' = (m', b, o')" for b o' m' by (simp add: kputud_loop.simps [of 0])
  then show ?case by (subst kputud_loop.simps) simp
next
  case (Suc j)
  let ?m = "m(buf := to_int (int (n div 10 ^ Suc j)) smod 10 + 48)"
  have "(10::nat) ^ Suc j div 10 = 10 ^ j" by simp
  then have "kputud_loop (10 ^ Suc j) n buf off m = kputud_loop (10 ^ j) n (buf + 1) (off + 1) ?m"
    by (subst kputud_loop.simps) (simp del: power_Suc)
  then show ?case using Suc.IH [of "buf + 1" "off + 1" ?m] by (auto simp: ac_simps fun_upd_def simp del: power_Suc)
qed

theorem kputud_misprints:
  assumes "2 ^ 31 \<le> n" "n < 2 ^ 32"
  shows "\<exists>m'. kputud_buf n buf m = (m', 10) \<and> m' (buf + 9) = 48 - (2 ^ 32 - int n) mod 10"
proof -
  have j: "10 ^ 9 \<le> n" "n < 10 ^ Suc 9" using assms by simp_all
  have "first_place (10 ^ 9) n = 10 ^ 9" using first_place_run [OF j, of 0] by simp
  moreover obtain m' where "kputud_loop (10 ^ 9) n buf 0 m = (m', buf + int (Suc 9), int (Suc 9))" "m' (buf + int 9) = to_int (int n) smod 10 + 48"
    using kputud_loop_last [of 9 n buf 0 m] by auto
  moreover have "to_int (int n) = int n - 2 ^ 32" using assms to_int_cong [of "int n" "int n - 2 ^ 32"] to_int_id [of "int n - 2 ^ 32"] by simp
  moreover have "(int n - 2 ^ 32) smod 10 = - ((2 ^ 32 - int n) mod 10)"
    using assms by (simp add: signed_modulo_int_def sgn_if)
  ultimately show ?thesis using assms by (simp add: kputud_buf_def)
qed

section \<open>Text through the buffer\<close>

definition visible :: "int list \<Rightarrow> int list" where
  "visible ws = filter (\<lambda>c. 0 \<le> c \<and> c \<le> 127) ws"

lemma visible_append [simp]: "visible (xs @ ys) = visible xs @ visible ys" by (simp add: visible_def)

text \<open>What the printing functions ask of the file they write to: the words arrive, in order, and nothing else changes.\<close>

locale text_sink =
  fixes ops :: "'a fops_of" and out :: "int option" and sent :: "'a tsk_scheme \<Rightarrow> int list" and ready :: "'a tsk_scheme \<Rightarrow> bool"
  assumes wrote: "ready k \<Longrightarrow> 0 \<le> len \<Longrightarrow> len < 2 ^ 31 \<Longrightarrow> \<exists>k'. printf_write ops out dat len k = Some (k', len) \<and>
      sent k' = sent k @ visible (mem_words (kmem k) dat (nat len)) \<and> kmem k' = kmem k \<and> procs k' = procs k \<and> ready k'"
    and ready_mem: "ready (upd_mem g k) = ready k"
    and sent_mem: "sent (upd_mem g k) = sent k"
begin

definition buf_ok :: "printf_buffer \<Rightarrow> 'a tsk_scheme \<Rightarrow> bool" where
  "buf_ok tb k \<longleftrightarrow> ready k \<and> pb_limit tb = BUFFER_SIZ \<and> 0 \<le> pb_pos tb \<and> pb_pos tb \<le> BUFFER_SIZ \<and> pb_filp tb = out"

definition printed :: "printf_buffer \<Rightarrow> 'a tsk_scheme \<Rightarrow> int list" where
  "printed tb k = sent k @ visible (mem_words (kmem k) (pb_buffer tb) (nat (pb_pos tb)))"

definition emits :: "int list \<Rightarrow> printf_buffer \<Rightarrow> 'a tsk_scheme \<Rightarrow> ('a tsk_scheme \<times> printf_buffer) option \<Rightarrow> bool" where
  "emits ws tb k r \<longleftrightarrow> (\<exists>k' tb'. r = Some (k', tb') \<and> buf_ok tb' k' \<and> printed tb' k' = printed tb k @ visible ws \<and>
     pb_total_count tb' + pb_pos tb' = pb_total_count tb + pb_pos tb + int (length ws) \<and> pb_buffer tb' = pb_buffer tb \<and>
     procs k' = procs k \<and> (\<forall>a. a < pb_buffer tb \<or> pb_buffer tb + BUFFER_SIZ \<le> a \<longrightarrow> kmem k' a = kmem k a))"

lemma flush_data_run:
  assumes "buf_ok tb k" "0 \<le> len" "len < 2 ^ 31"
  shows "\<exists>k'. flush_buffer_data ops dat len tb k = Some (k', tb\<lparr>pb_total_count := pb_total_count tb + len\<rparr>) \<and>
     sent k' = sent k @ visible (mem_words (kmem k) dat (nat len)) \<and> kmem k' = kmem k \<and> procs k' = procs k \<and> ready k'"
  using wrote [of k len dat] assms by (auto simp: flush_buffer_data_def buf_ok_def)

lemma flush_run:
  assumes "buf_ok tb k"
  shows "\<exists>k' tb'. flush_buffer ops tb k = Some (k', tb') \<and> buf_ok tb' k' \<and> pb_pos tb' = 0 \<and> sent k' = printed tb k \<and>
     pb_total_count tb' = pb_total_count tb + pb_pos tb \<and> pb_buffer tb' = pb_buffer tb \<and> kmem k' = kmem k \<and> procs k' = procs k"
proof (cases "pb_pos tb > 0")
  case True
  from flush_data_run [OF assms, of "pb_pos tb" "pb_buffer tb"] assms obtain k' where
    "flush_buffer_data ops (pb_buffer tb) (pb_pos tb) tb k = Some (k', tb\<lparr>pb_total_count := pb_total_count tb + pb_pos tb\<rparr>)"
    "sent k' = printed tb k" "kmem k' = kmem k" "procs k' = procs k" "ready k'" by (auto simp: buf_ok_def printed_def)
  with True assms show ?thesis by (auto simp: flush_buffer_def buf_ok_def)
next
  case False
  with assms have "pb_pos tb = 0" by (simp add: buf_ok_def)
  with assms show ?thesis by (simp add: flush_buffer_def printed_def visible_def)
qed

lemma flush_emits:
  assumes "buf_ok tb k"
  shows "\<exists>k' tb'. flush_buffer ops tb k = Some (k', tb') \<and> pb_pos tb' = 0 \<and> kmem k' = kmem k \<and> emits [] tb k (Some (k', tb'))"
  using flush_run [OF assms] by (auto simp: emits_def printed_def visible_def)

lemma emits_trans: "emits ws tb k (Some (k1, tb1)) \<Longrightarrow> emits vs tb1 k1 r \<Longrightarrow> emits (ws @ vs) tb k r"
  by (auto simp: emits_def)

lemma room_emits:
  assumes "buf_ok tb k"
  shows "\<exists>k' tb'. (if c then flush_buffer ops tb k else Some (k, tb)) = Some (k', tb') \<and> kmem k' = kmem k \<and>
     (if c then pb_pos tb' = 0 else tb' = tb) \<and> emits [] tb k (Some (k', tb'))"
  using flush_emits [OF assms] assms by (cases c) (auto simp: emits_def visible_def)

text \<open>Words copied to the end of the text in the buffer, when they fit.\<close>

lemma store_emits:
  assumes "buf_ok tb k" "pb_pos tb + int (length ws) \<le> BUFFER_SIZ" "mem_words (g (kmem k)) (pb_buffer tb + pb_pos tb) (length ws) = ws"
    and "\<And>a. a < pb_buffer tb + pb_pos tb \<or> pb_buffer tb + pb_pos tb + int (length ws) \<le> a \<Longrightarrow> g (kmem k) a = kmem k a"
  shows "emits ws tb k (Some (upd_mem g k, tb\<lparr>pb_pos := pb_pos tb + int (length ws)\<rparr>))"
proof -
  obtain p where p: "pb_pos tb = int p" using assms(1) by (auto simp: buf_ok_def elim: nonneg_int_cases)
  have "mem_words (g (kmem k)) (pb_buffer tb) p = mem_words (kmem k) (pb_buffer tb) p"
    by (intro mem_words_frame assms(4)) (simp add: p)
  then have "mem_words (g (kmem k)) (pb_buffer tb) (p + length ws) = mem_words (kmem k) (pb_buffer tb) p @ ws"
    using assms(3) by (simp add: mem_words_add p)
  moreover have "nat (int p + int (length ws)) = p + length ws" by (simp flip: of_nat_add)
  ultimately have "printed (tb\<lparr>pb_pos := pb_pos tb + int (length ws)\<rparr>) (upd_mem g k) = printed tb k @ visible ws"
    by (simp add: printed_def sent_mem p)
  moreover have "g (kmem k) a = kmem k a" if "a < pb_buffer tb \<or> pb_buffer tb + BUFFER_SIZ \<le> a" for a
    using that assms(1,2) by (intro assms(4)) (auto simp: buf_ok_def)
  ultimately show ?thesis using assms(1,2) by (simp add: emits_def buf_ok_def ready_mem)
qed

lemma emits_ok: "emits ws tb k (Some (k', tb')) \<Longrightarrow> buf_ok tb' k'"
  by (auto simp: emits_def)

lemma add_char_emits:
  assumes "buf_ok tb k"
  shows "emits [c] tb k (add_char_to_buffer ops c tb k)"
proof -
  obtain k1 tb1 where r: "(if pb_pos tb \<ge> pb_limit tb then flush_buffer ops tb k else Some (k, tb)) = Some (k1, tb1)"
    "if pb_pos tb \<ge> pb_limit tb then pb_pos tb1 = 0 else tb1 = tb" "emits [] tb k (Some (k1, tb1))"
    using room_emits [OF assms, of "pb_pos tb \<ge> pb_limit tb"] by blast
  have "pb_pos tb1 < BUFFER_SIZ" using r(2) assms by (auto simp: buf_ok_def split: if_splits)
  then have "emits [c] tb1 k1 (Some (upd_mem (\<lambda>m. m(pb_buffer tb1 + pb_pos tb1 := c)) k1, tb1\<lparr>pb_pos := pb_pos tb1 + int (length [c])\<rparr>))"
    by (intro store_emits [OF emits_ok [OF r(3)]]) (auto simp: mem_words_def)
  from emits_trans [OF r(3) this] show ?thesis by (simp add: add_char_to_buffer_def r(1))
qed

lemma append_emits:
  assumes "buf_ok tb k" "mem_words (kmem k) s (length ws) = ws" "s + int (length ws) \<le> pb_buffer tb \<or> pb_buffer tb + BUFFER_SIZ \<le> s"
    "int (length ws) < 2 ^ 31"
  shows "emits ws tb k (append_buffer ops s (int (length ws)) tb k)"
proof (cases "int (length ws) > BUFFER_SIZ")
  case True
  obtain k1 tb1 where r: "flush_buffer ops tb k = Some (k1, tb1)" "pb_pos tb1 = 0" "kmem k1 = kmem k" "emits [] tb k (Some (k1, tb1))"
    using flush_emits [OF assms(1)] by blast
  from flush_data_run [OF emits_ok [OF r(4)], of "int (length ws)" s] assms(2,4) r(3) obtain k2 where
    k2: "flush_buffer_data ops s (int (length ws)) tb1 k1 = Some (k2, tb1\<lparr>pb_total_count := pb_total_count tb1 + int (length ws)\<rparr>)"
    "sent k2 = sent k1 @ visible ws" "kmem k2 = kmem k1" "procs k2 = procs k1" "ready k2" by auto
  have "emits ws tb1 k1 (flush_buffer_data ops s (int (length ws)) tb1 k1)"
    using k2 emits_ok [OF r(4)] r(2) by (simp add: emits_def buf_ok_def printed_def visible_def)
  from emits_trans [OF r(4) this] show ?thesis
    using True assms(1) r(1) by (simp add: append_buffer_def buf_ok_def)
next
  case False
  let ?c = "int (length ws) + pb_pos tb \<ge> pb_limit tb"
  obtain k1 tb1 where r: "(if ?c then flush_buffer ops tb k else Some (k, tb)) = Some (k1, tb1)" "kmem k1 = kmem k"
    "if ?c then pb_pos tb1 = 0 else tb1 = tb" "emits [] tb k (Some (k1, tb1))"
    using room_emits [OF assms(1), of ?c] by blast
  have l: "pb_limit tb = BUFFER_SIZ" using assms(1) by (simp add: buf_ok_def)
  have b: "pb_buffer tb1 = pb_buffer tb" "pb_pos tb1 + int (length ws) \<le> BUFFER_SIZ" "0 \<le> pb_pos tb1"
    using r(3,4) False assms(1) by (auto simp: emits_def buf_ok_def split: if_splits)
  have sep: "pb_buffer tb1 + pb_pos tb1 \<le> s \<or> s + int (length ws) \<le> pb_buffer tb1 + pb_pos tb1" using assms(3) b by auto
  have "emits ws tb1 k1 (Some (upd_mem (memcpy_loop (length ws) (pb_buffer tb1 + pb_pos tb1) s) k1, tb1\<lparr>pb_pos := pb_pos tb1 + int (length ws)\<rparr>))"
    using mem_words_memcpy [OF sep order_refl, of "kmem k1"] assms(2) r(2)
    by (intro store_emits [OF emits_ok [OF r(4)] b(2)]) (auto simp: memcpy_loop_apply [OF sep])
  from emits_trans [OF r(4) this] show ?thesis using False l r(1) by (simp add: append_buffer_def)
qed

end

section \<open>Formats\<close>

text \<open>The parts of a format: a character, a number in decimal, a string at an address.\<close>

datatype fmt_item = Lit int | Dec int | Txt "int list" addr

definition decimal :: "int \<Rightarrow> int list" where
  "decimal n = (if n < 0 then [45] else []) @ map (\<lambda>d. d + 48) (digits_of (nat \<bar>n\<bar>))"

primrec item_text :: "fmt_item \<Rightarrow> int list" where
  "item_text (Lit c) = [c]"
| "item_text (Dec n) = decimal n"
| "item_text (Txt ws p) = ws"

text \<open>
  A format and its arguments in memory, outside the words of \<open>W\<close>. A number has at most ten characters, so
  that it fits with its terminator in the eleven words of \<^verbatim>\<open>format_buffer\<close>; from \<open>-10\<^sup>9\<close> down it has eleven and
  the terminator overruns them.
\<close>

fun items_at :: "addr set \<Rightarrow> memory \<Rightarrow> addr \<Rightarrow> addr \<Rightarrow> fmt_item list \<Rightarrow> bool" where
  "items_at W m format arg [] \<longleftrightarrow> m format = 0 \<and> format \<notin> W"
| "items_at W m format arg (Lit c # its) \<longleftrightarrow> m format = c \<and> c \<noteq> 0 \<and> c \<noteq> 37 \<and> format \<notin> W \<and> items_at W m (format + 1) arg its"
| "items_at W m format arg (Dec n # its) \<longleftrightarrow> m format = 37 \<and> m (format + 1) = 100 \<and> to_int (m arg) = n \<and> - (10 ^ 9) < n \<and> n < 2 ^ 31 \<and>
     {format, format + 1, arg} \<inter> W = {} \<and> items_at W m (format + 2) (arg + 1) its"
| "items_at W m format arg (Txt ws p # its) \<longleftrightarrow> m format = 37 \<and> m (format + 1) = 115 \<and> m arg = p \<and> 0 < p \<and> p < 2 ^ 32 \<and>
     int (length ws) < 2 ^ 31 \<and> cstring m p ws \<and> ({format, format + 1, arg} \<union> {p..p + int (length ws)}) \<inter> W = {} \<and>
     items_at W m (format + 2) (arg + 1) its"

lemma items_at_cong: "(\<And>a. a \<notin> W \<Longrightarrow> m' a = m a) \<Longrightarrow> items_at W m format arg its \<Longrightarrow> items_at W m' format arg its"
proof (induction W m format arg its rule: items_at.induct)
  case (4 W m format arg ws p its)
  have "m' a = m a" if "p \<le> a" "a \<le> p + int (length ws)" for a using that 4(2,3) by (intro 4(2)) auto
  then have "cstring m' p ws" using 4(3) cstring_cong [of p ws m' m] by auto
  with 4 show ?case by auto
qed auto

lemma cstring_words: "cstring m a ws \<Longrightarrow> mem_words m a (length ws) = ws"
  using cstring_nth [of m a ws] by (intro nth_equalityI) (auto simp: mem_words_def)

lemma pass_number_none:
  assumes "\<not> isdigit (m format)"
  shows "pass_number nb format m = Some (m, format, 0)"
proof -
  have "pass_digits (Suc 18) nb format m = (m, nb, format)" using assms by (simp del: Suc_numeral)
  then show ?thesis by (simp add: pass_number_def)
qed

lemma decode_plain: "m format = 100 \<or> m format = 115 \<Longrightarrow> decode_options nb format m = Some (m, format, False, 32, 0, 0)"
proof -
  assume c: "m format = 100 \<or> m format = 115"
  then have "\<not> isdigit (m format)" by (auto simp: isdigit_def in_class_def)
  from pass_number_none [of m format nb, OF this] c show ?thesis by (auto simp: decode_options_def)
qed

lemma upd_mem_same [simp]: "upd_mem (\<lambda>_. kmem k) k = k"
  by (simp add: upd_mem_def)

lemma decimal_put:
  assumes "- (2 ^ 31) < n" "n < 2 ^ 31"
  shows "kputd_buf n buf m = (put_words buf (decimal n @ [0]) m, int (length (decimal n)))" "decimal n \<noteq> []" "length (decimal n) \<le> 11"
proof -
  obtain ds where ds: "ds = digits_of (nat \<bar>n\<bar>)" "kputd_buf n buf m = (put_words buf ((if n < 0 then [45] else []) @ map (\<lambda>d. d + 48) ds @ [0]) m,
      int (length ds) + (if n < 0 then 1 else 0))" "ds \<noteq> []" "length ds \<le> 10"
    by (rule kputd_buf_run [OF assms]) blast
  have t: "decimal n = (if n < 0 then [45] else []) @ map (\<lambda>d. d + 48) ds" by (simp only: decimal_def ds(1))
  show "kputd_buf n buf m = (put_words buf (decimal n @ [0]) m, int (length (decimal n)))" unfolding t ds(2) by simp
  show "decimal n \<noteq> []" "length (decimal n) \<le> 11" using ds(3,4) by (simp_all add: t)
qed

text \<open>Above \<open>-10\<^sup>9\<close> ten characters are enough.\<close>

lemma digits_of_length: "n < 10 ^ Suc j \<Longrightarrow> length (digits_of n) \<le> Suc j"
proof (induction j arbitrary: n)
  case 0
  then show ?case by (simp add: digits_of.simps [of n])
next
  case (Suc j)
  have "length (digits_of (n div 10)) \<le> Suc j" using Suc.prems by (intro Suc.IH) (simp add: div_less_iff_less_mult)
  then show ?case by (subst digits_of.simps) simp
qed

lemma decimal_length: "- (10 ^ 9) < n \<Longrightarrow> n < 2 ^ 31 \<Longrightarrow> length (decimal n) \<le> 10"
  using digits_of_length [of "nat \<bar>n\<bar>" 8] digits_of_length [of "nat \<bar>n\<bar>" 9] by (auto simp: decimal_def)

context text_sink
begin

lemma put_plain: "0 \<le> len \<Longrightarrow> put_padded ops False 32 0 0 p len tb k = append_buffer ops p len tb k"
  by (simp add: put_padded_def)

lemma kprintf_loop_run:
  assumes "items_at ({fb..<fb + FORMAT_BUF_SIZ} \<union> {pb..<pb + BUFFER_SIZ}) (kmem k) format arg its" "buf_ok tb k" "pb_buffer tb = pb"
    "\<not> IS_USER_PROC k who" "fb + FORMAT_BUF_SIZ \<le> pb \<or> pb + BUFFER_SIZ \<le> fb"
  shows "\<exists>k'. kprintf_loop ops fb nb null_str who format arg tb k =
      Some (k', pb_total_count tb + pb_pos tb + int (length (concat (map item_text its)))) \<and>
    sent k' = printed tb k @ visible (concat (map item_text its))"
  using assms
proof (induction its arbitrary: format arg tb k)
  case Nil
  then show ?case using flush_run [OF Nil.prems(2)] by (subst kprintf_loop.simps) (auto simp: visible_def)
next
  case (Cons it its)
  let ?W = "{fb..<fb + FORMAT_BUF_SIZ} \<union> {pb..<pb + BUFFER_SIZ}"
  have step: "\<exists>k'. kprintf_loop ops fb nb null_str who f a tb1 k1 =
      Some (k', pb_total_count tb + pb_pos tb + int (length (concat (map item_text (it # its))))) \<and>
      sent k' = printed tb k @ visible (concat (map item_text (it # its)))"
    if e: "emits (item_text it) tb k0 (Some (k1, tb1))" and k0: "printed tb k0 = printed tb k" "procs k0 = procs k"
      "\<And>x. x \<notin> ?W \<Longrightarrow> kmem k0 x = kmem k x" and its: "items_at ?W (kmem k) f a its" for f a k0 k1 tb1
  proof -
    have "kmem k1 x = kmem k x" if "x \<notin> ?W" for x
      using e that Cons.prems(3) k0(3) [OF that] by (auto simp: emits_def)
    then have "items_at ?W (kmem k1) f a its" using its by (rule items_at_cong)
    moreover have "buf_ok tb1 k1" "pb_buffer tb1 = pb" "\<not> IS_USER_PROC k1 who"
      using e k0(2) Cons.prems(3,4) by (auto simp: emits_def IS_USER_PROC_def)
    ultimately obtain k' where "kprintf_loop ops fb nb null_str who f a tb1 k1 =
      Some (k', pb_total_count tb1 + pb_pos tb1 + int (length (concat (map item_text its))))"
      "sent k' = printed tb1 k1 @ visible (concat (map item_text its))" using Cons.IH Cons.prems(5) by blast
    then show ?thesis using e k0(1) by (auto simp: emits_def)
  qed
  show ?case
  proof (cases it)
    case (Lit c)
    then have i: "kmem k format = c" "c \<noteq> 0" "c \<noteq> 37" "items_at ?W (kmem k) (format + 1) arg its" using Cons.prems(1) by auto
    have e: "emits [c] tb k (add_char_to_buffer ops c tb k)" by (rule add_char_emits [OF Cons.prems(2)])
    then obtain k1 tb1 where r: "add_char_to_buffer ops c tb k = Some (k1, tb1)" by (auto simp: emits_def)
    show ?thesis using step [of k k1 tb1 "format + 1" arg] e r i Lit by (subst kprintf_loop.simps) simp
  next
    case (Dec n)
    then have i: "kmem k format = 37" "kmem k (format + 1) = 100" "to_int (kmem k arg) = n" "- (10 ^ 9) < n" "n < 2 ^ 31"
      "items_at ?W (kmem k) (format + 2) (arg + 1) its" using Cons.prems(1) by auto
    define k0 where "k0 = upd_mem (\<lambda>_. put_words fb (decimal n @ [0]) (kmem k)) k"
    have "- (2 ^ 31) < n" using i(4) by simp
    note d = decimal_put(1,2) [OF this i(5)] decimal_length [OF i(4,5)]
    have c: "convert_arg fb null_str who 100 arg k = Some (k0, Some (fb, int (length (decimal n))))"
      by (simp add: convert_arg_def i(3) d(1) k0_def)
    have m0: "kmem k0 x = kmem k x" if "x < fb \<or> fb + FORMAT_BUF_SIZ \<le> x" for x using that d(3) by (auto simp: k0_def put_words_apply)
    have "mem_words (kmem k0) pb (nat (pb_pos tb)) = mem_words (kmem k) pb (nat (pb_pos tb))"
      using Cons.prems(2,5) by (intro mem_words_frame m0) (auto simp: buf_ok_def)
    then have p0: "printed tb k0 = printed tb k" using Cons.prems(2,3) by (simp add: printed_def k0_def sent_mem buf_ok_def)
    have pr: "procs k0 = procs k" by (simp add: k0_def)
    have b0: "buf_ok tb k0" using Cons.prems(2) by (simp add: buf_ok_def k0_def ready_mem)
    have "mem_words (kmem k0) fb (length (decimal n)) = decimal n"
      by (rule nth_equalityI) (simp_all add: k0_def mem_words_def put_words_apply nth_append)
    then have e: "emits (decimal n) tb k0 (append_buffer ops fb (int (length (decimal n))) tb k0)"
      using Cons.prems(3,5) d(3) by (intro append_emits [OF b0]) auto
    then obtain k1 tb1 where r: "append_buffer ops fb (int (length (decimal n))) tb k0 = Some (k1, tb1)" by (auto simp: emits_def)
    have "\<exists>k'. kprintf_loop ops fb nb null_str who (format + 2) (arg + 1) tb1 k1 =
      Some (k', pb_total_count tb + pb_pos tb + int (length (concat (map item_text (it # its))))) \<and>
      sent k' = printed tb k @ visible (concat (map item_text (it # its)))"
      using e r Dec m0 by (intro step [OF _ p0 pr _ i(6)]) auto
    then show ?thesis using i(1,2) c r decode_plain [of "kmem k" "format + 1" nb]
      by (subst kprintf_loop.simps) (simp add: put_plain Let_def add.commute [of 2 format])
  next
    case (Txt ws p)
    then have i: "kmem k format = 37" "kmem k (format + 1) = 115" "kmem k arg = p" "0 < p" "p < 2 ^ 32" "int (length ws) < 2 ^ 31"
      "cstring (kmem k) p ws" "items_at ?W (kmem k) (format + 2) (arg + 1) its" and apart: "{p..p + int (length ws)} \<inter> ?W = {}"
      using Cons.prems(1) by auto
    have "phys k p who = p" using Cons.prems(4) i(4,5) by (simp add: phys_def get_physical_addr_def IS_USER_PROC_def)
    then have c: "convert_arg fb null_str who 115 arg k = Some (k, Some (p, int (length ws)))"
      using i(3,4,7) Cons.prems(4) by (simp add: convert_arg_def strlen_run)
    have "p + int (length ws) \<le> pb \<or> pb + BUFFER_SIZ \<le> p"
    proof (rule ccontr)
      assume "\<not> ?thesis"
      then have "max p pb \<in> {p..p + int (length ws)} \<inter> ?W" by auto
      with apart show False by blast
    qed
    then have e: "emits ws tb k (append_buffer ops p (int (length ws)) tb k)"
      using cstring_words [OF i(7)] Cons.prems(3) i(6) by (intro append_emits [OF Cons.prems(2)]) auto
    then obtain k1 tb1 where r: "append_buffer ops p (int (length ws)) tb k = Some (k1, tb1)" by (auto simp: emits_def)
    have "\<exists>k'. kprintf_loop ops fb nb null_str who (format + 2) (arg + 1) tb1 k1 =
      Some (k', pb_total_count tb + pb_pos tb + int (length (concat (map item_text (it # its))))) \<and>
      sent k' = printed tb k @ visible (concat (map item_text (it # its)))"
      using e r Txt by (intro step [OF _ refl refl _ i(8)]) simp_all
    then show ?thesis using i(1,2) c r decode_plain [of "kmem k" "format + 1" nb]
      by (subst kprintf_loop.simps) (simp add: put_plain Let_def add.commute [of 2 format])
  qed
qed

end

lemma tty_write_loop_run:
  "\<exists>k'. tty_write_loop len rex p k = (k', p + int len) \<and>
     sp_Tx (sports k' rex) = sp_Tx (sports k rex) @ visible (mem_words (kmem k) p len) \<and> kmem k' = kmem k \<and> procs k' = procs k \<and>
     filps k' = filps k \<and> ttys k' = ttys k \<and> filp_private k' = filp_private k"
proof (induction len arbitrary: p k)
  case 0
  then show ?case by (simp add: visible_def)
next
  case (Suc len)
  let ?k = "fst (rex_kputc rex (kmem k p) k)"
  have k: "kmem ?k = kmem k" "procs ?k = procs k" "filps ?k = filps k" "ttys ?k = ttys k" "filp_private ?k = filp_private k"
    "sp_Tx (sports ?k rex) = sp_Tx (sports k rex) @ visible [kmem k p]"
    by (simp_all add: rex_kputc_def upd_sp_def visible_def)
  have "mem_words (kmem k) p (Suc len) = kmem k p # mem_words (kmem k) (p + 1) len"
    using mem_words_add [of "kmem k" p 1 len] by (simp add: mem_words_def)
  then have "visible (mem_words (kmem k) p (Suc len)) = visible [kmem k p] @ visible (mem_words (kmem k) (p + 1) len)"
    by (simp flip: visible_append)
  with Suc.IH [of "p + 1" ?k] k show ?case by (auto simp: ac_simps)
qed

definition terminal_file :: "int \<Rightarrow> int \<Rightarrow> int \<Rightarrow> 'a tsk_scheme \<Rightarrow> bool" where
  "terminal_file f n rex k \<longleftrightarrow> filp_dev (filps k f) \<noteq> None \<and> filp_private k f = Some n \<and> t_rex (ttys k n) = rex"

interpretation terminal: text_sink "\<lambda>_. tty_fops fops_close" "Some f" "\<lambda>k. sp_Tx (sports k rex)" "terminal_file f n rex"
proof (unfold_locales, goal_cases)
  case (1 k len dat)
  then show ?case using tty_write_loop_run [of "nat len" rex dat k]
    by (auto simp: printf_write_def tty_fops_def tty_write_def tty_write_rex_def terminal_file_def to_int_small Let_def)
qed (simp_all add: terminal_file_def upd_mem_def)

section \<open>Properties\<close>

text \<open>
  C12. The kernel prints what the format says: for a format of characters, decimal numbers above \<open>-10\<^sup>9\<close> and
  strings, of any length, printing to the first terminal sends the characters of the
  parts, in order, through the output buffer, and returns their number. The terminal takes characters of
  seven bits only, and those are the ones sent. The format, its arguments, the number buffer of eleven words and the
  output buffer are apart.
\<close>

theorem kprintf_prints:
  assumes "terminal_file f n rex k" "tty1_filp k = Some f" "\<not> IS_USER_PROC k SYSTEM" "fb + FORMAT_BUF_SIZ \<le> pb \<or> pb + BUFFER_SIZ \<le> fb"
    and "items_at ({fb..<fb + FORMAT_BUF_SIZ} \<union> {pb..<pb + BUFFER_SIZ}) (kmem k) (kmem k sp) (sp + 1) its"
    and "text = concat (map item_text its)"
  shows "\<exists>k'. kprintf (\<lambda>_. tty_fops fops_close) fb pb nb null_str sp k = Some (k', int (length text)) \<and>
     sp_Tx (sports k' rex) = sp_Tx (sports k rex) @ visible text"
proof -
  let ?k = "upd_mem (memset pb 0 BUFFER_SIZ) k"
  let ?tb = "\<lparr>pb_buffer = pb, pb_limit = BUFFER_SIZ, pb_pos = 0, pb_total_count = 0, pb_filp = Some f\<rparr>"
  have "items_at ({fb..<fb + FORMAT_BUF_SIZ} \<union> {pb..<pb + BUFFER_SIZ}) (kmem ?k) (kmem k sp) (sp + 1) its"
    by (rule items_at_cong [OF _ assms(5)]) (auto simp: memset_apply)
  moreover have "terminal.buf_ok f n rex ?tb ?k" using assms(1) by (simp add: terminal.buf_ok_def terminal.ready_mem)
  moreover have "\<not> IS_USER_PROC ?k SYSTEM" using assms(3) by (simp add: IS_USER_PROC_def)
  ultimately obtain k' where "kprintf_loop (\<lambda>_. tty_fops fops_close) fb nb null_str SYSTEM (kmem k sp) (sp + 1) ?tb ?k = Some (k', int (length text))"
    "sp_Tx (sports k' rex) = terminal.printed rex ?tb ?k @ visible text"
    using terminal.kprintf_loop_run [of fb pb ?k "kmem k sp" "sp + 1" its f n rex ?tb SYSTEM fops_close nb null_str] assms(4,6) by auto
  then show ?thesis by (simp add: kprintf_def kprintf_vm_def assms(2) terminal.printed_def visible_def)
qed

theorem kprintf_prints_witness:
  "\<exists>(k :: tsk) k'. kprintf (\<lambda>_. tty_fops (\<lambda>_ _. None)) 100 200 400 500 9000 k = Some (k', 5) \<and>
     sp_Tx (sports k' 1) = sp_Tx (sports k 1) @ [110, 45, 52, 50, 10]"
proof -
  fix k0 :: tsk
  define k where "k = k0\<lparr>procs := \<lambda>_. proc_zero, ttys := (\<lambda>n. (ttys k0 n)\<lparr>t_rex := 1\<rparr>), filps := \<lambda>_. filp_zero\<lparr>filp_dev := Some 2\<rparr>, filp_private := \<lambda>_. Some 1,
    tty1_filp := Some 0, kmem := (\<lambda>_. 0)(8000 := 110, 8001 := 37, 8002 := 100, 8003 := 10, 9000 := 8000, 9001 := - 42)\<rparr>"
  have "terminal_file 0 1 1 k" "tty1_filp k = Some 0" "\<not> IS_USER_PROC k SYSTEM" "(100::int) + FORMAT_BUF_SIZ \<le> 200 \<or> 200 + BUFFER_SIZ \<le> (100::int)"
    by (simp_all add: terminal_file_def k_def IS_USER_PROC_def proc_zero_def)
  moreover have "items_at ({100..<100 + FORMAT_BUF_SIZ} \<union> {200..<200 + BUFFER_SIZ}) (kmem k) (kmem k 9000) (9000 + 1) [Lit 110, Dec (- 42), Lit 10]"
    by (simp add: k_def to_int_def)
  moreover have "[110, 45, 52, 50, 10] = concat (map item_text [Lit 110, Dec (- 42), Lit 10])"
    by (simp add: decimal_def digits_of.simps)
  ultimately have "\<exists>k'. kprintf (\<lambda>_. tty_fops (\<lambda>_ _. None)) 100 200 400 500 9000 k = Some (k', int (length [110, 45, 52, 50, 10 :: int])) \<and>
     sp_Tx (sports k' 1) = sp_Tx (sports k 1) @ visible [110, 45, 52, 50, 10]"
    by (rule kprintf_prints)
  then show ?thesis by - (rule exI [of _ k], simp add: visible_def)
qed

end
