(* ===== verification/Exec.thy ===== *)
theory Exec
  imports FsCalls Pipe Fork
begin

text \<open>
  Replacing the program of a process: \<^verbatim>\<open>kernel/system/do_execve.c\<close>, with \<^verbatim>\<open>set_proc\<close> of
  \<^verbatim>\<open>kernel/proc.c\<close>, and the start of the kernel's own tasks and of init
  (\<^verbatim>\<open>kernel/main.c\<close>, \<^verbatim>\<open>kernel/proc.c\<close>). A vector of strings is an array of pointers in
  memory that ends with a null pointer; the kernel keeps a copy of it while the old image goes
  away. The structures that \<^verbatim>\<open>exec_welf\<close> and \<^verbatim>\<open>do_execve\<close> keep on the kernel stack lie at the
  addresses \<open>elf_a\<close> (the header of the executable), \<open>m\<close> (the reply to the parent) and \<open>buffer\<close>
  (the path). Logging is left out.
\<close>

abbreviation (input) ENOEXEC :: int where "ENOEXEC \<equiv> 8"
abbreviation (input) USER_STACK_SIZE :: int where "USER_STACK_SIZE \<equiv> 1024"
abbreviation (input) USER_HEAP_SIZE :: int where "USER_HEAP_SIZE \<equiv> 1024"
abbreviation (input) KERNEL_STACK_SIZE :: int where "KERNEL_STACK_SIZE \<equiv> 1024"
abbreviation (input) PROC_NAME_LEN :: nat where "PROC_NAME_LEN \<equiv> 16"
abbreviation (input) ASM_ADDUI_SP_SP_2 :: int where "ASM_ADDUI_SP_SP_2 \<equiv> 0x1ee10002"
abbreviation (input) ELF_LEN :: int where "ELF_LEN \<equiv> 7"
abbreviation (input) EXIT_CODE_LEN :: int where "EXIT_CODE_LEN \<equiv> 2"
text \<open>A page for each string, and as many strings as pages fit into \<^verbatim>\<open>ARG_MAX\<close>, which is 10240.\<close>

abbreviation (input) limit_per_arg :: int where "limit_per_arg \<equiv> 1024"
abbreviation (input) limit_arg_num :: nat where "limit_arg_num \<equiv> 10"

section \<open>Vectors of strings\<close>

record string_array =
  arr_array :: addr
  arr_size :: int

record initial_frame =
  f_argc :: int
  f_argv :: addr
  f_syscall_num :: int
  f_exit_code :: int
  f_signum :: int
  f_code :: "int \<times> int"

text \<open>The loop \<^verbatim>\<open>while (*pptr++ && count-- > 0) size++\<close>.\<close>

primrec count_args :: "nat \<Rightarrow> addr \<Rightarrow> memory \<Rightarrow> int" where
  "count_args 0 pptr mem = 0"
| "count_args (Suc n) pptr mem = (if mem pptr \<noteq> 0 then 1 + count_args n (pptr + 1) mem else 0)"

text \<open>The copying of the remaining \<open>n\<close> strings, from the one with index \<open>i\<close> on.\<close>

primrec copy_args :: "nat \<Rightarrow> int \<Rightarrow> addr \<Rightarrow> addr \<Rightarrow> int \<Rightarrow> bool \<Rightarrow> 'a psk_scheme \<Rightarrow> ('a psk_scheme \<times> int) option" where
  "copy_args 0 i arr from who is_physical k = Some (upd_mem (\<lambda>mem. mem(arr + i := NULL)) k, 0)"
| "copy_args (Suc n) i arr from who is_physical k =
     do { let physical = kmem k (from + i);
          let physical = (if is_physical then physical else phys k physical who);
          strsize \<leftarrow> strlen (kmem k) physical;
          let strsize = (if strsize < limit_per_arg then strsize else limit_per_arg);
          (k, p) \<leftarrow> pk_kmalloc (strsize + 1) 1 k;
          let k = upd_mem (\<lambda>mem. mem(arr + i := p)) k;
          if p = NULL
          then Some (pk_kfree arr (fold (\<lambda>j k. pk_kfree (kmem k (arr + j)) k) [0..i - 1] k), - ENOMEM)
          else copy_args n (i + 1) arr from who is_physical (upd_mem (strlcpy p physical limit_per_arg) k) }"

definition copy_stirng_array ::
  "addr \<Rightarrow> int \<Rightarrow> bool \<Rightarrow> 'a psk_scheme \<Rightarrow> ('a psk_scheme \<times> int \<times> string_array) option" where
  "copy_stirng_array from who is_physical k =
     (if from = NULL then Some (k, 0, \<lparr>arr_array = NULL, arr_size = 0\<rparr>)
      else do {
        let sz = count_args limit_arg_num from (kmem k) + 1;
        (k, a) \<leftarrow> pk_kmalloc sz 1 k;
        if a = NULL then Some (k, - ENOMEM, \<lparr>arr_array = NULL, arr_size = 0\<rparr>)
        else do { (k, ret) \<leftarrow> copy_args (nat (sz - 1)) 0 a from who is_physical k;
                  Some (k, ret, \<lparr>arr_array = a, arr_size = sz\<rparr>) } })"

definition kfree_string_array :: "string_array \<Rightarrow> 'a psk_scheme \<Rightarrow> 'a psk_scheme" where
  "kfree_string_array arr k =
     pk_kfree (arr_array arr)
       (fold (\<lambda>j k. let p = kmem k (arr_array arr + j) in if p \<noteq> NULL then pk_kfree p k else k) [0..arr_size arr - 1] k)"

section \<open>The first stack and heap of a program\<close>

primrec sarray_loop :: "nat \<Rightarrow> addr \<Rightarrow> addr \<Rightarrow> int \<Rightarrow> 'a kernel_scheme \<Rightarrow> 'a kernel_scheme option" where
  "sarray_loop 0 a p who k = Some (upd_mem (\<lambda>mem. mem(p := 0)) k)"
| "sarray_loop (Suc n) a p who k =
     do { len \<leftarrow> strlen (kmem k) (kmem k a);
          let (k, v) = copyto_user_heap who (kmem k a) (len + 1) k;
          sarray_loop n (a + 1) (p + 1) who (upd_mem (\<lambda>mem. mem(p := v)) k) }"

definition copy_sarray_to_heap :: "int \<Rightarrow> string_array \<Rightarrow> addr \<Rightarrow> 'a kernel_scheme \<Rightarrow> 'a kernel_scheme option" where
  "copy_sarray_to_heap who arr p = sarray_loop (nat (arr_size arr - 1)) (arr_array arr) p who"

text \<open>The strings and then the array of pointers to them; the result is the array's address, \<open>None\<close> when there is none.\<close>

definition sarray_to_user :: "int \<Rightarrow> string_array \<Rightarrow> 'a psk_scheme \<Rightarrow> ('a psk_scheme \<times> addr option) option" where
  "sarray_to_user who arr k =
     (if arr_size arr > 0
      then do { (k, p) \<leftarrow> pk_kmalloc (arr_size arr) 1 k;
                if p = NULL then Some (k, None)
                else do { k \<leftarrow> copy_sarray_to_heap who arr p k;
                          let (k, v) = copyto_user_heap who p (arr_size arr) k;
                          Some (pk_kfree p k, Some v) } }
      else Some (k, None))"

definition frame_words :: "initial_frame \<Rightarrow> int list" where
  "frame_words f = [f_argc f, f_argv f, f_syscall_num f, f_exit_code f, f_signum f, fst (f_code f), snd (f_code f)]"

definition build_user_stack :: "int \<Rightarrow> string_array \<Rightarrow> string_array \<Rightarrow> 'a psk_scheme \<Rightarrow> ('a psk_scheme \<times> int) option" where
  "build_user_stack who argv env k =
     do { let sp_btm = phys k (align_page (to_int (c_sp (p_ctx (procs k who)))) - 1) who;
          (k, argv_ptr) \<leftarrow> sarray_to_user who argv k;
          (k, env_ptr) \<leftarrow> sarray_to_user who env k;
          let k = (case env_ptr of None \<Rightarrow> k | Some v \<Rightarrow> upd_mem (\<lambda>mem. mem(sp_btm := v)) k);
          let k = upd_proc who (p_ctx_update (\<lambda>c. c\<lparr>c_ra := ptr_add (c_sp c) (- EXIT_CODE_LEN)\<rparr>)) k;
          let init_stack = \<lparr>f_argc = (case argv_ptr of None \<Rightarrow> 0 | Some _ \<Rightarrow> arr_size argv - 1),
                            f_argv = (case argv_ptr of None \<Rightarrow> NULL | Some v \<Rightarrow> v),
                            f_syscall_num = EXIT, f_exit_code = EXIT_MAGIC, f_signum = 0,
                            f_code = (ASM_ADDUI_SP_SP_2, ASM_SYSCALL)\<rparr>;
          Some (copyto_user_stack who (frame_words init_stack) k, 0) }"

section \<open>The image\<close>

text \<open>\<^verbatim>\<open>struct winix_elf\<close> in memory, and the conversion of its sizes to this machine's characters.\<close>

definition elf_at :: "memory \<Rightarrow> addr \<Rightarrow> winix_elf" where
  "elf_at mem a = \<lparr>elf_magic = mem a mod 2 ^ 32, elf_binary_pc = mem (a + 1) mod 2 ^ 32, elf_binary_offset = mem (a + 2) mod 2 ^ 32,
     elf_binary_size = mem (a + 3) mod 2 ^ 32, elf_text_size = mem (a + 4) mod 2 ^ 32, elf_data_size = mem (a + 5) mod 2 ^ 32,
     elf_bss_size = mem (a + 6) mod 2 ^ 32\<rparr>"

definition arch_elf :: "winix_elf \<Rightarrow> superblock \<Rightarrow> winix_elf option" where
  "arch_elf elf sb =
     do { bin \<leftarrow> ARCH_CHAR_SIZE (elf_binary_size elf) sb;
          bss \<leftarrow> ARCH_CHAR_SIZE (elf_bss_size elf) sb;
          dat \<leftarrow> ARCH_CHAR_SIZE (elf_data_size elf) sb;
          txt \<leftarrow> ARCH_CHAR_SIZE (elf_text_size elf) sb;
          off \<leftarrow> ARCH_CHAR_SIZE (elf_binary_offset elf) sb;
          Some (elf\<lparr>elf_binary_size := bin, elf_bss_size := bss, elf_data_size := dat, elf_text_size := txt, elf_binary_offset := off\<rparr>) }"

text \<open>From the reading of the header to the new stack; a failure is \<open>Inl\<close> of the error.\<close>

definition exec_image ::
  "(int \<Rightarrow> 'a psk_scheme filp_operations) \<Rightarrow> addr \<Rightarrow> int \<Rightarrow> int \<Rightarrow> string_array \<Rightarrow> string_array \<Rightarrow> 'a psk_scheme \<Rightarrow>
   ('a psk_scheme \<times> (int + winix_elf)) option" where
  "exec_image ops elf_a who filp argv_copy envp_copy k =
     do { (k, ret) \<leftarrow> filp_read ops who filp elf_a ELF_LEN k;
          if ret \<noteq> ELF_LEN then Some (k, Inl (- EIO))
          else do {
            ino \<leftarrow> filp_ino (filps k filp);
            sb \<leftarrow> get_sb (i_sb (inodes k ino)) k;
            elf \<leftarrow> arch_elf (elf_at (kmem k) elf_a) sb;
            has_enough_ram \<leftarrow> peek_mem_welf (kmm k) elf USER_STACK_SIZE USER_HEAP_SIZE;
            if \<not> has_enough_ram then Some (k, Inl (- ENOMEM))
            else if \<not> validate_welf elf then Some (k, Inl (- ENOEXEC))
            else do {
              (k, ret) \<leftarrow> release_proc_mem who k;
              if ret \<noteq> 0 then Some (k, Inl ret)
              else do {
                (pt, _) \<leftarrow> bitmap_clear (p_protection_table (procs k who)) PTABLE_LEN;
                let k = upd_proc who (p_protection_table_update (\<lambda>_. pt)) k;
                (k, ret) \<leftarrow> alloc_mem_welf who elf USER_STACK_SIZE USER_HEAP_SIZE k;
                if ret \<noteq> 0 then Some (k, Inl ret)
                else do {
                  (k, ret) \<leftarrow> filp_read ops who filp (ptr_add (c_rbase (p_ctx (procs k who))) (elf_binary_offset elf)) (elf_binary_size elf) k;
                  if ret mod 2 ^ 32 \<noteq> elf_binary_size elf then Some (k, Inl (if ret \<ge> 0 then - EAGAIN else ret))
                  else do {
                    let k = upd_proc who (p_thread_parent_update (\<lambda>_. 0)) k;
                    (k, _) \<leftarrow> build_user_stack who argv_copy envp_copy k;
                    (k, _) \<leftarrow> proc_memctl who 0 False k;
                    Some (k, Inr elf) } } } } } }"

text \<open>From the opening of the file to its closing. The label \<^verbatim>\<open>err_open\<close> comes after the closing.\<close>

definition exec_file ::
  "(int \<Rightarrow> 'a psk_scheme filp_operations) \<Rightarrow> addr \<Rightarrow> int \<Rightarrow> addr \<Rightarrow> string_array \<Rightarrow> string_array \<Rightarrow> 'a psk_scheme \<Rightarrow>
   ('a psk_scheme \<times> (int + winix_elf)) option" where
  "exec_file ops elf_a who path argv_copy envp_copy k =
     do { (k, ret, filp) \<leftarrow> filp_open ops who path O_DIRECT 0 k;
          if ret \<noteq> 0 then Some (k, Inl ret)
          else do {
            filp \<leftarrow> filp;
            ino \<leftarrow> filp_ino (filps k filp);
            if i_mode (inodes k ino) AND S_IFDIR \<noteq> 0 then Some (k, Inl (- EISDIR))
            else do { (k, r) \<leftarrow> exec_image ops elf_a who filp argv_copy envp_copy k;
                      (k, _) \<leftarrow> filp_close ops filp k;
                      Some (k, r) } } }"

section \<open>The call\<close>

text \<open>The characters that \<^verbatim>\<open>strlcpy\<close> takes from \<open>src\<close> when its bound is \<open>n - 1\<close>.\<close>

primrec taken :: "nat \<Rightarrow> addr \<Rightarrow> memory \<Rightarrow> int list" where
  "taken 0 src mem = []"
| "taken (Suc n) src mem = (if mem src \<noteq> 0 then mem src # taken n (src + 1) mem else [])"

text \<open>
  \<^verbatim>\<open>strlcpy\<close> into the name of a slot: the words of the slot from the name on are overwritten with
  the characters taken and a zero. The field after the name is the user id.
\<close>

definition set_name :: "int list \<Rightarrow> proc \<Rightarrow> proc" where
  "set_name ws r =
     (let fields = ws @ drop (length ws) (p_name r @ [p_uid r]) in
      r\<lparr>p_name := take PROC_NAME_LEN fields, p_uid := fields ! PROC_NAME_LEN\<rparr>)"

definition set_proc :: "int \<Rightarrow> addr \<Rightarrow> addr \<Rightarrow> 'a kernel_scheme \<Rightarrow> 'a kernel_scheme" where
  "set_proc p entry name k =
     upd_proc p (set_name (taken (PROC_NAME_LEN - 1 + 1) name (kmem k) @ [0])) (upd_proc p (p_ctx_update (c_pc_update (\<lambda>_. entry))) k)"

text \<open>What follows the last label: a new program is made ready, and a parent blocked by \<^verbatim>\<open>vfork\<close> resumed.\<close>

definition start_program :: "int \<Rightarrow> addr \<Rightarrow> winix_elf \<Rightarrow> 'a kernel_scheme \<Rightarrow> 'a kernel_scheme option" where
  "start_program who path elf k =
     do { let k = upd_proc who (p_state_update (\<lambda>_. STATE_RUNNABLE)) k;
          k \<leftarrow> enqueue_schedule who k;
          Some (set_proc who (elf_binary_pc elf) path k) }"

definition resume_parent :: "addr \<Rightarrow> int \<Rightarrow> int option \<Rightarrow> 'a kernel_scheme \<Rightarrow> 'a kernel_scheme option" where
  "resume_parent m who parent k =
     do { parent \<leftarrow> parent;
          if has_flag (p_state (procs k parent)) STATE_VFORKING
          then do { let k = upd_proc parent (p_state_update (\<lambda>s. clear_flag s STATE_VFORKING)) k;
                    let k = upd_mem (\<lambda>mem. mem(m_type m := VFORK)) k;
                    (k, _) \<leftarrow> syscall_reply2 VFORK (p_pid (procs k who)) (p_proc_nr (procs k parent)) m k;
                    Some k }
          else Some k }"

definition exec_return ::
  "addr \<Rightarrow> int \<Rightarrow> addr \<Rightarrow> int option \<Rightarrow> bool \<Rightarrow> int + winix_elf \<Rightarrow> 'a kernel_scheme \<Rightarrow> ('a kernel_scheme \<times> int) option" where
  "exec_return m who path parent is_new r k =
     do { k \<leftarrow> (case r of Inl _ \<Rightarrow> Some k | Inr elf \<Rightarrow> start_program who path elf k);
          k \<leftarrow> (if is_new then Some k else resume_parent m who parent k);
          Some (k, case r of Inl ret \<Rightarrow> ret | Inr _ \<Rightarrow> DONTREPLY) }"

definition exec_welf ::
  "(int \<Rightarrow> 'a psk_scheme filp_operations) \<Rightarrow> addr \<Rightarrow> addr \<Rightarrow> int \<Rightarrow> addr \<Rightarrow> addr \<Rightarrow> addr \<Rightarrow> bool \<Rightarrow> 'a psk_scheme \<Rightarrow>
   ('a psk_scheme \<times> int) option" where
  "exec_welf ops elf_a m who path argv envp is_new k =
     do { let parent = get_proc k (p_parent (procs k who));
          let k = upd_mem (memset m 0 MESSAGE_LEN) k;
          (k, ret, argv_copy) \<leftarrow> copy_stirng_array argv who is_new k;
          if ret \<noteq> 0 then Some (k, ret)
          else do {
            (k, ret, envp_copy) \<leftarrow> copy_stirng_array envp who is_new k;
            (k, r) \<leftarrow> (if ret \<noteq> 0 then Some (k, Inl ret)
                        else do { (k, r) \<leftarrow> exec_file ops elf_a who path argv_copy envp_copy k;
                                  Some (if envp \<noteq> NULL then kfree_string_array envp_copy k else k, r) });
            exec_return m who path parent is_new r (if argv \<noteq> NULL then kfree_string_array argv_copy k else k) } }"

definition do_execve ::
  "(int \<Rightarrow> 'a psk_scheme filp_operations) \<Rightarrow> addr \<Rightarrow> addr \<Rightarrow> addr \<Rightarrow> int \<Rightarrow> addr \<Rightarrow> 'a psk_scheme \<Rightarrow>
   ('a psk_scheme \<times> int) option" where
  "do_execve ops elf_a reply buffer who m k =
     do { let path = kmem k (m1_p1 m);
          let argv = kmem k (m1_p2 m);
          let envp = kmem k (m1_p3 m);
          ok \<leftarrow> is_vaddr_accessible k path who;
          ok \<leftarrow> (if ok then is_vaddr_accessible k argv who else Some False);
          ok \<leftarrow> (if ok then is_vaddr_accessible k envp who else Some False);
          if \<not> ok then Some (k, - EFAULT)
          else do { let argv = phys k argv who;
                    let envp = phys k envp who;
                    (k, ret) \<leftarrow> copy_from_user who buffer path PATH_MAX k;
                    if ret < 0 then Some (k, ret)
                    else exec_welf ops elf_a reply who buffer argv envp False k } }"

section \<open>The first processes\<close>

text \<open>
  The kernel's tasks, with the addresses of their names and entry points; \<open>text_len\<close> is the length
  of the kernel's text, which the linker sets.
\<close>

record boot_image =
  bi_name :: addr
  bi_entry :: addr
  bi_proc_nr :: int
  bi_quantum :: int
  bi_priority :: int
  bi_stack_size :: int

definition boot_table :: "(addr \<times> addr) \<Rightarrow> (addr \<times> addr) \<Rightarrow> (addr \<times> addr) \<Rightarrow> boot_image list" where
  "boot_table idle parallel winix =
     [\<lparr>bi_name = fst idle, bi_entry = snd idle, bi_proc_nr = IDLE, bi_quantum = 1, bi_priority = MIN_PRIORITY, bi_stack_size = 50\<rparr>,
      \<lparr>bi_name = fst parallel, bi_entry = snd parallel, bi_proc_nr = PARALLEL, bi_quantum = 1, bi_priority = MIN_PRIORITY, bi_stack_size = 50\<rparr>,
      \<lparr>bi_name = fst winix, bi_entry = snd winix, bi_proc_nr = SYSTEM, bi_quantum = 64, bi_priority = MAX_PRIORITY, bi_stack_size = KERNEL_STACK_SIZE\<rparr>]"

definition alloc_kstack :: "int \<Rightarrow> int \<Rightarrow> 'a psk_scheme \<Rightarrow> ('a psk_scheme \<times> addr) option" where
  "alloc_kstack who sz k =
     do { (k, stack_top) \<leftarrow> (if sz smod PAGE_LEN = 0
                            then do { (m, p) \<leftarrow> get_free_pages (kmm k) sz GFP_HIGH; Some (k\<lparr>kmm := m\<rparr>, p) }
                            else pk_kmalloc sz 1 k);
          let k = upd_mem (\<lambda>mem. mem(stack_top := STACK_MAGIC)) k;
          Some (upd_proc who (p_stack_top_update (\<lambda>_. stack_top)) k, stack_top + sz - 1) }"

definition start_kernel_proc :: "int \<Rightarrow> boot_image \<Rightarrow> 'a psk_scheme \<Rightarrow> ('a psk_scheme \<times> int) option" where
  "start_kernel_proc text_len task k =
     do { let who = bi_proc_nr task;
          let k = proc_set_default who k;
          let k = upd_proc who (p_flags_update (\<lambda>f. set_flag f IN_USE)) k;
          let k = set_proc who (bi_entry task) (bi_name task) k;
          k \<leftarrow> kset_ptable who k;
          let k = upd_proc who (p_quantum_update (\<lambda>_. bi_quantum task)) k;
          (k, sp) \<leftarrow> alloc_kstack who (bi_stack_size task) k;
          let k = upd_proc who (\<lambda>r. r\<lparr>p_ctx := (p_ctx r)\<lparr>c_sp := sp\<rparr>, p_mem_start := PAGE_LEN, p_text_top := PAGE_LEN, p_text_size := text_len,
                    p_stack_size := bi_stack_size task, p_priority := bi_priority task, p_pid := 0, p_state := STATE_RUNNABLE\<rparr>) k;
          k \<leftarrow> enqueue_schedule who k;
          Some (k, who) }"

text \<open>\<^verbatim>\<open>add_free_mem\<close>, called at the end, is empty.\<close>

definition init_kernel_tasks :: "int \<Rightarrow> boot_image list \<Rightarrow> 'a psk_scheme \<Rightarrow> 'a psk_scheme option" where
  "init_kernel_tasks text_len tasks k = fold_opt (\<lambda>task k. map_option fst (start_kernel_proc text_len task k)) tasks k"

text \<open>\<open>None\<close> is the panic that ends a start without init.\<close>

definition start_init ::
  "(int \<Rightarrow> 'a psk_scheme filp_operations) \<Rightarrow> addr \<Rightarrow> addr \<Rightarrow> addr \<Rightarrow> addr \<Rightarrow> 'a psk_scheme \<Rightarrow> 'a psk_scheme option" where
  "start_init ops elf_a m init_path init_argv k =
     do { let k = proc_set_default INIT k;
          let k = upd_proc INIT (\<lambda>r. r\<lparr>p_state := STATE_RUNNABLE, p_flags := IN_USE, p_pid := INIT\<rparr>) k;
          (k, ret) \<leftarrow> exec_welf ops elf_a m INIT init_path init_argv NULL True k;
          if ret \<noteq> 0 \<and> ret \<noteq> DONTREPLY then None else Some k }"

end
