(* ===== verification/ExecStack.thy ===== *)
theory ExecStack
  imports Exec
begin

text \<open>
  What a program finds when it starts, and what its parent finds. \<open>strings_at\<close> reads a vector of
  strings in memory through a translation of pointers; the first heap and stack of a program hold
  the vectors the call was given.
\<close>

section \<open>Vectors of strings in memory\<close>

text \<open>The array of pointers at \<open>a\<close>; the strings they point to lie in \<open>R\<close>.\<close>

primrec strings_at :: "memory \<Rightarrow> (addr \<Rightarrow> addr) \<Rightarrow> addr set \<Rightarrow> addr \<Rightarrow> int list list \<Rightarrow> bool" where
  "strings_at m f R a [] \<longleftrightarrow> m a = 0"
| "strings_at m f R a (xs # xss) \<longleftrightarrow> m a \<noteq> 0 \<and> {f (m a)..f (m a) + int (length xs)} \<subseteq> R \<and> cstring m (f (m a)) xs \<and>
     strings_at m f R (a + 1) xss"

primrec chars :: "int list list \<Rightarrow> int" where
  "chars [] = 0"
| "chars (xs # xss) = int (length xs) + 1 + chars xss"

lemma chars_nonneg: "0 \<le> chars xss"
  by (induction xss) auto

lemma strings_at_move:
  assumes "strings_at m f R a xss" "\<And>i. i \<le> length xss \<Longrightarrow> m' (b + int i) = m (a + int i)" "\<And>x. x \<in> R \<Longrightarrow> m' x = m x" "R \<subseteq> R'"
  shows "strings_at m' f R' b xss"
  using assms(1,2)
proof (induction xss arbitrary: a b)
  case Nil
  then show ?case using Nil.prems(2) [of 0] by simp
next
  case (Cons xs xss)
  have b: "m' b = m a" using Cons.prems(2) [of 0] by simp
  have R: "{f (m a)..f (m a) + int (length xs)} \<subseteq> R" using Cons.prems(1) by simp
  have "m' x = m x" if "f (m a) \<le> x" "x \<le> f (m a) + int (length xs)" for x using R that assms(3) by auto
  then have "cstring m' (f (m a)) xs" using Cons.prems(1) cstring_cong [of "f (m a)" xs m' m] by simp
  moreover have "strings_at m' f R' (b + 1) xss"
  proof (rule Cons.IH)
    show "strings_at m f R (a + 1) xss" using Cons.prems(1) by simp
    show "m' (b + 1 + int i) = m (a + 1 + int i)" if "i \<le> length xss" for i
      using Cons.prems(2) [of "Suc i"] that by (simp add: add.assoc)
  qed
  ultimately show ?case using Cons.prems(1) R assms(4) by (auto simp: b)
qed

lemma cstring_move:
  "cstring m a xs \<Longrightarrow> (\<And>i. i \<le> length xs \<Longrightarrow> m' (b + int i) = m (a + int i)) \<Longrightarrow> cstring m' b xs"
proof (induction xs arbitrary: a b)
  case Nil
  then show ?case using Nil.prems(2) [of 0] by simp
next
  case (Cons x xs)
  have "m' b = m a" using Cons.prems(2) [of 0] by simp
  moreover have "m' (b + 1 + int i) = m (a + 1 + int i)" if "i \<le> length xs" for i
    using Cons.prems(2) [of "Suc i"] that by (simp add: add.assoc)
  ultimately show ?case using Cons.IH [of "a + 1" "b + 1"] Cons.prems(1) by simp
qed

section \<open>Copying a vector to the user's heap\<close>

lemma upd_mem_proc: "upd_mem f (upd_proc p g k) = upd_proc p g (upd_mem f k)" "upd_mem f (upd_mem h k) = upd_mem (\<lambda>m. f (h m)) k"
  "upd_mem f (upd_mem (\<lambda>_. m) k) = upd_mem (\<lambda>_. f m) k"
  by (simp_all add: upd_mem_def upd_proc_def)

lemma upd_mem_const: "upd_mem f k = upd_mem (\<lambda>_. f (kmem k)) k"
  by (simp add: upd_mem_def)

lemma upd_proc_twice: "upd_proc p f (upd_proc p g k) = upd_proc p (\<lambda>r. f (g r)) k"
  by (simp add: upd_proc_def)

lemma copyto_user_heap_run:
  assumes "hb = p_heap_break (procs k who)" "hb + len < p_heap_bottom (procs k who)"
  shows "copyto_user_heap who src len k =
    (upd_proc who (p_heap_break_update (\<lambda>_. hb + len)) (upd_mem (\<lambda>_. memcpy hb src len (kmem k)) k), vaddr k hb who)"
proof -
  have upd: "p_heap_break_update (\<lambda>b. b + len) r = r\<lparr>p_heap_break := p_heap_break r + len\<rparr>" for r :: proc by simp
  show ?thesis using assms by (simp add: copyto_user_heap_def Let_def upd_proc_def upd upd_mem_def)
qed

lemma phys_vaddr: "0 \<le> a \<Longrightarrow> a < 2 ^ 32 \<Longrightarrow> c_rbase (p_ctx (procs k' who)) = c_rbase (p_ctx (procs k who)) \<Longrightarrow> phys k' (vaddr k a who) who = a"
  by (simp add: phys_def vaddr_def virt_phys)

text \<open>The user's addresses from \<open>lo\<close> to \<open>hi\<close> have virtual addresses other than the null pointer.\<close>

definition user_range :: "'a kernel_scheme \<Rightarrow> int \<Rightarrow> addr \<Rightarrow> addr \<Rightarrow> bool" where
  "user_range k who lo hi \<longleftrightarrow> 0 \<le> c_rbase (p_ctx (procs k who)) \<and> c_rbase (p_ctx (procs k who)) < lo \<and> hi < 2 ^ 32"

lemma vaddr_not_null: "user_range k who lo hi \<Longrightarrow> lo \<le> a \<Longrightarrow> a \<le> hi \<Longrightarrow> vaddr k a who \<noteq> 0"
  by (simp add: user_range_def vaddr_def get_virtual_addr_def)

lemma sarray_loop_run:
  assumes "strings_at (kmem k) (\<lambda>p. p) K a xss" "{a..a + int (length xss)} \<subseteq> K"
    and "hb = p_heap_break (procs k who)" "hb + chars xss < p_heap_bottom (procs k who)" "user_range k who hb (hb + chars xss)"
    and "K \<inter> {hb..<hb + chars xss} = {}" "{p..p + int (length xss)} \<inter> (K \<union> {hb..<hb + chars xss}) = {}"
  shows "\<exists>mem. sarray_loop (length xss) a p who k = Some (upd_proc who (p_heap_break_update (\<lambda>_. hb + chars xss)) (upd_mem (\<lambda>_. mem) k)) \<and>
    strings_at mem (\<lambda>v. phys k v who) {hb..<hb + chars xss} p xss \<and>
    (\<forall>x. x \<notin> {hb..<hb + chars xss} \<union> {p..p + int (length xss)} \<longrightarrow> mem x = kmem k x)"
  using assms
proof (induction xss arbitrary: a p hb k)
  case Nil
  then show ?case by (intro exI [of _ "(kmem k)(p := 0)"]) (auto simp: upd_proc_def upd_mem_def fun_upd_def)
next
  case (Cons xs xss)
  let ?n = "int (length xs)" let ?src = "kmem k a"
  have src: "{?src..?src + ?n} \<subseteq> K" "cstring (kmem k) ?src xs" "?src \<noteq> 0" using Cons.prems(1) by simp_all
  define v where "v = vaddr k hb who"
  define mem1 where "mem1 = (memcpy hb ?src (?n + 1) (kmem k))(p := v)"
  define k1 where "k1 = upd_proc who (p_heap_break_update (\<lambda>_. hb + (?n + 1))) (upd_mem (\<lambda>_. mem1) k)"
  have len: "strlen (kmem k) ?src = Some ?n" by (rule strlen_run [OF src(2)])
  have "hb + (?n + 1) < p_heap_bottom (procs k who)" using Cons.prems(4) chars_nonneg [of xss] by simp
  note heap = copyto_user_heap_run [OF Cons.prems(3) this]
  have loop: "sarray_loop (length (xs # xss)) a p who k = sarray_loop (length xss) (a + 1) (p + 1) who k1"
    by (simp add: len heap k1_def v_def [symmetric] mem1_def upd_mem_proc)
  have "?src + ?n < hb \<or> hb + ?n < ?src"
  proof (rule ccontr)
    assume "\<not> ?thesis"
    then have "max ?src hb \<in> K \<inter> {hb..<hb + chars (xs # xss)}" using src(1) chars_nonneg [of xss] by (auto simp: max_def)
    then show False using Cons.prems(6) by auto
  qed
  then have safe: "copy_safe hb ?src (?n + 1)" by (auto simp: copy_safe_def)
  have mem1: "mem1 x = (if x = p then v else if hb \<le> x \<and> x < hb + (?n + 1) then kmem k (?src + (x - hb)) else kmem k x)" for x
    by (simp add: mem1_def memcpy_apply [OF safe])
  have P: "x \<notin> K \<and> x \<notin> {hb..<hb + chars (xs # xss)}" if "x \<in> {p..p + int (length (xs # xss))}" for x
    using Cons.prems(7) that by blast
  have pK: "p \<notin> K" "p \<notin> {hb..<hb + chars (xs # xss)}" using P [of p] by simp_all
  have onK: "mem1 x = kmem k x" if "x \<in> K" for x
  proof -
    have "x \<notin> {hb..<hb + chars (xs # xss)}" using Cons.prems(6) that by blast
    then show ?thesis using that pK chars_nonneg [of xss] by (auto simp: mem1)
  qed
  have "\<exists>mem. sarray_loop (length xss) (a + 1) (p + 1) who k1 =
      Some (upd_proc who (p_heap_break_update (\<lambda>_. hb + (?n + 1) + chars xss)) (upd_mem (\<lambda>_. mem) k1)) \<and>
    strings_at mem (\<lambda>v. phys k1 v who) {hb + (?n + 1)..<hb + (?n + 1) + chars xss} (p + 1) xss \<and>
    (\<forall>x. x \<notin> {hb + (?n + 1)..<hb + (?n + 1) + chars xss} \<union> {p + 1..p + 1 + int (length xss)} \<longrightarrow> mem x = kmem k1 x)"
  proof (rule Cons.IH)
    show "strings_at (kmem k1) (\<lambda>p. p) K (a + 1) xss"
    proof (rule strings_at_move [of "kmem k" _ K "a + 1"])
      show "strings_at (kmem k) (\<lambda>p. p) K (a + 1) xss" using Cons.prems(1) by simp
      show "kmem k1 (a + 1 + int i) = kmem k (a + 1 + int i)" if "i \<le> length xss" for i
        using onK Cons.prems(2) that by (simp add: k1_def subset_iff)
    qed (simp_all add: k1_def onK)
    show "{a + 1..a + 1 + int (length xss)} \<subseteq> K" using Cons.prems(2) by auto
    show "hb + (?n + 1) = p_heap_break (procs k1 who)" by (simp add: k1_def)
    show "hb + (?n + 1) + chars xss < p_heap_bottom (procs k1 who)" using Cons.prems(4) by (simp add: k1_def)
    show "user_range k1 who (hb + (?n + 1)) (hb + (?n + 1) + chars xss)" using Cons.prems(5) by (simp add: user_range_def k1_def)
    show "K \<inter> {hb + (?n + 1)..<hb + (?n + 1) + chars xss} = {}" using Cons.prems(6) by auto
    show "{p + 1..p + 1 + int (length xss)} \<inter> (K \<union> {hb + (?n + 1)..<hb + (?n + 1) + chars xss}) = {}"
      using P by (auto simp: add.assoc)
  qed
  then obtain mem where mem: "sarray_loop (length xss) (a + 1) (p + 1) who k1 =
      Some (upd_proc who (p_heap_break_update (\<lambda>_. hb + (?n + 1) + chars xss)) (upd_mem (\<lambda>_. mem) k1))"
    "strings_at mem (\<lambda>v. phys k1 v who) {hb + (?n + 1)..<hb + (?n + 1) + chars xss} (p + 1) xss"
    "\<And>x. x \<notin> {hb + (?n + 1)..<hb + (?n + 1) + chars xss} \<union> {p + 1..p + 1 + int (length xss)} \<Longrightarrow> mem x = mem1 x"
    by (auto simp: k1_def)
  have f: "(\<lambda>v. phys k1 v who) = (\<lambda>v. phys k v who)" by (simp add: phys_def k1_def)
  have hb0: "0 \<le> hb" "hb < 2 ^ 32" using Cons.prems(5) chars_nonneg [of xss] by (simp_all add: user_range_def)
  have "mem p = mem1 p" using pK by (intro mem(3)) auto
  then have mp: "mem p = v" by (simp add: mem1)
  have fv: "phys k v who = hb" unfolding v_def using hb0 by (intro phys_vaddr) simp_all
  have v0: "v \<noteq> 0" unfolding v_def by (rule vaddr_not_null [OF Cons.prems(5)]) (use chars_nonneg [of xss] in simp_all)
  have "mem (hb + int i) = kmem k (?src + int i)" if "i \<le> length xs" for i
  proof -
    have "hb + int i \<notin> {p..p + 1 + int (length xss)}"
      using P [of "hb + int i"] that chars_nonneg [of xss] by (auto simp: add.assoc)
    then have "mem (hb + int i) = mem1 (hb + int i)" "hb + int i \<noteq> p" using that by (auto intro!: mem(3))
    then show ?thesis using that by (simp add: mem1)
  qed
  then have cs: "cstring mem hb xs" by (rule cstring_move [OF src(2)])
  show ?case
    unfolding loop mem(1)
  proof (intro exI [of _ mem] conjI)
    show "Some (upd_proc who (p_heap_break_update (\<lambda>_. hb + (?n + 1) + chars xss)) (upd_mem (\<lambda>_. mem) k1)) =
      Some (upd_proc who (p_heap_break_update (\<lambda>_. hb + chars (xs # xss))) (upd_mem (\<lambda>_. mem) k))"
      by (simp add: k1_def upd_mem_proc upd_proc_twice add.assoc)
    have "strings_at mem (\<lambda>v. phys k v who) {hb..<hb + chars (xs # xss)} (p + 1) xss"
      by (rule strings_at_move [OF mem(2) [unfolded f]]) auto
    then show "strings_at mem (\<lambda>v. phys k v who) {hb..<hb + chars (xs # xss)} p (xs # xss)"
      using chars_nonneg [of xss] by (auto simp: mp fv v0 cs)
    show "\<forall>x. x \<notin> {hb..<hb + chars (xs # xss)} \<union> {p..p + int (length (xs # xss))} \<longrightarrow> mem x = kmem k x"
      using chars_nonneg [of xss] by (auto simp: mem(3) mem1)
  qed
qed

lemma slab_upd [simp]:
  "slab_of (upd_proc p f k) = slab_of k" "slab_of (upd_mem g k) = slab_of k" "slab_of (set_slab s k) = s"
  by (simp_all add: slab_of_def set_slab_def upd_proc_def upd_mem_def)

lemma set_slab_upd:
  "upd_proc p f (set_slab s k) = set_slab s (upd_proc p f k)" "upd_mem g (set_slab s k) = set_slab s (upd_mem g k)"
  "set_slab s (set_slab s' k) = set_slab s k"
  by (simp_all add: slab_of_def set_slab_def upd_proc_def upd_mem_def)

lemma sarray_to_user_run:
  assumes vec: "strings_at (kmem k) (\<lambda>p. p) K (arr_array arr) xss" "arr_size arr = int (length xss) + 1"
      "{arr_array arr..arr_array arr + int (length xss)} \<subseteq> K"
    and heap: "hb = p_heap_break (procs k who)" "hb' = hb + chars xss + arr_size arr" "hb' < p_heap_bottom (procs k who)" "user_range k who hb hb'"
    and alloc: "kmalloc (arr_size arr) 1 NULL (slab_of k) = Some (s, p)" "p \<noteq> NULL"
    and sep: "K \<inter> {hb..<hb'} = {}" "{p..<p + arr_size arr} \<inter> (K \<union> {hb..<hb'}) = {}"
  shows "\<exists>mem v. sarray_to_user who arr k =
      Some (set_slab (kfree p NULL s) (upd_proc who (p_heap_break_update (\<lambda>_. hb')) (upd_mem (\<lambda>_. mem) k)), Some v) \<and>
    phys k v who \<in> {hb..<hb'} \<and> phys k v who + int (length xss) < hb' \<and>
    strings_at mem (\<lambda>v. phys k v who) {hb..<hb'} (phys k v who) xss \<and>
    (\<forall>x. x \<notin> {hb..<hb'} \<union> {p..<p + arr_size arr} \<longrightarrow> mem x = kmem k x)"
proof -
  let ?n = "int (length xss)" let ?e = "hb + chars xss"
  define k1 where "k1 = set_slab s k"
  have e: "hb \<le> ?e" "hb' = ?e + (?n + 1)" using chars_nonneg [of xss] heap(2) vec(2) by simp_all
  have "\<exists>mem. sarray_loop (length xss) (arr_array arr) p who k1 = Some (upd_proc who (p_heap_break_update (\<lambda>_. ?e)) (upd_mem (\<lambda>_. mem) k1)) \<and>
    strings_at mem (\<lambda>v. phys k1 v who) {hb..<?e} p xss \<and>
    (\<forall>x. x \<notin> {hb..<?e} \<union> {p..p + ?n} \<longrightarrow> mem x = kmem k1 x)"
  proof (rule sarray_loop_run)
    show "K \<inter> {hb..<?e} = {}" using sep(1) e by auto
    have "x \<notin> K \<and> x \<notin> {hb..<hb'}" if "x \<in> {p..<p + arr_size arr}" for x using sep(2) that by blast
    then show "{p..p + ?n} \<inter> (K \<union> {hb..<?e}) = {}" using e vec(2) by fastforce
    show "user_range k1 who hb ?e" using heap(4) e by (simp add: user_range_def k1_def)
  qed (use vec heap e in \<open>simp_all add: k1_def\<close>)
  then obtain mem where mem: "sarray_loop (length xss) (arr_array arr) p who k1 = Some (upd_proc who (p_heap_break_update (\<lambda>_. ?e)) (upd_mem (\<lambda>_. mem) k1))"
    "strings_at mem (\<lambda>v. phys k v who) {hb..<?e} p xss" "\<And>x. x \<notin> {hb..<?e} \<union> {p..p + ?n} \<Longrightarrow> mem x = kmem k x"
    by (auto simp: k1_def phys_def)
  define k2 where "k2 = upd_proc who (p_heap_break_update (\<lambda>_. ?e)) (upd_mem (\<lambda>_. mem) k1)"
  define v where "v = vaddr k ?e who"
  have "?e = p_heap_break (procs k2 who)" "?e + arr_size arr < p_heap_bottom (procs k2 who)" using heap e by (simp_all add: k2_def k1_def)
  note copy = copyto_user_heap_run [OF this, of p]
  have v2: "vaddr k2 ?e who = v" by (simp add: v_def vaddr_def k2_def k1_def)
  define mem2 where "mem2 = memcpy ?e p (arr_size arr) mem"
  have fv: "phys k v who = ?e" unfolding v_def using heap(4) e by (intro phys_vaddr) (simp_all add: user_range_def)
  have "p + ?n < ?e \<or> ?e + ?n < p"
  proof (rule ccontr)
    assume "\<not> ?thesis"
    then have "max p ?e \<in> {p..<p + arr_size arr} \<inter> {hb..<hb'}" using e vec(2) by (auto simp: max_def)
    then show False using sep(2) by blast
  qed
  then have safe: "copy_safe ?e p (arr_size arr)" using vec(2) by (auto simp: copy_safe_def)
  note mem2 = memcpy_apply [OF safe, of mem, folded mem2_def]
  have "sarray_to_user who arr k = Some (set_slab (kfree p NULL s) (upd_proc who (p_heap_break_update (\<lambda>_. hb')) (upd_mem (\<lambda>_. mem2) k)), Some v)"
    using mem(1) vec(2) alloc e
    by (simp add: sarray_to_user_def pk_kmalloc_def copy_sarray_to_heap_def k1_def [symmetric] k2_def [symmetric] copy [unfolded vec(2)] v2)
      (simp add: k2_def k1_def pk_kfree_def mem2_def upd_mem_proc upd_proc_twice set_slab_upd)
  moreover have "strings_at mem2 (\<lambda>v. phys k v who) {hb..<hb'} ?e xss"
    by (rule strings_at_move [OF mem(2)]) (use vec(2) e in \<open>auto simp: mem2\<close>)
  moreover have "\<forall>x. x \<notin> {hb..<hb'} \<union> {p..<p + arr_size arr} \<longrightarrow> mem2 x = kmem k x"
    using e vec(2) by (auto simp: mem2 mem(3))
  ultimately show ?thesis using fv e by (intro exI [of _ mem2] exI [of _ v]) simp
qed

section \<open>The first frame\<close>

text \<open>
  A stack pointer at the last word of its page, with room for the frame, and below \<open>2 ^ 31\<close>.
\<close>

definition stack_ready :: "k_context \<Rightarrow> bool" where
  "stack_ready c \<longleftrightarrow> 7 \<le> c_sp c \<and> c_sp c mod PAGE_LEN = PAGE_LEN - 1 \<and> c_sp c < 2 ^ 31 - PAGE_LEN \<and> 0 \<le> c_rbase c \<and> c_sp c + c_rbase c < 2 ^ 32"

lemma align_stack: "stack_ready c \<Longrightarrow> align_page (to_int (c_sp c)) - 1 = c_sp c"
proof -
  assume c: "stack_ready c"
  define q where "q = c_sp c div 1024"
  have sp: "c_sp c = 1024 * q + 1023" using c mult_div_mod_eq [of 1024 "c_sp c"] by (simp add: stack_ready_def q_def)
  have "to_int (c_sp c) = c_sp c" using c by (intro to_int_small) (simp_all add: stack_ready_def)
  moreover have "(1024 * q + 1022) div 1024 = q" by simp
  ultimately show ?thesis by (simp add: align_page_eq sp)
qed

lemma copyto_frame_run:
  assumes "c = p_ctx (procs k who)" "stack_ready c" "length ws = 7"
  shows "copyto_user_stack who ws k =
    upd_proc who (p_ctx_update (c_sp_update (\<lambda>_. c_sp c - 7))) (upd_mem (put_words (c_sp c + c_rbase c - 7) ws) k)"
  using copyto_user_stack_run [OF assms(1), of ws] assms(2,3) by (simp add: stack_ready_def)

lemma vectors_to_user_run:
  assumes argv: "strings_at (kmem k) (\<lambda>p. p) K (arr_array argv) args" "arr_size argv = int (length args) + 1"
      "{arr_array argv..arr_array argv + int (length args)} \<subseteq> K"
    and env: "strings_at (kmem k) (\<lambda>p. p) K (arr_array env) envs" "arr_size env = int (length envs) + 1"
      "{arr_array env..arr_array env + int (length envs)} \<subseteq> K"
    and alloc: "kmalloc (arr_size argv) 1 NULL (slab_of k) = Some (s1, p1)" "p1 \<noteq> NULL"
      "kmalloc (arr_size env) 1 NULL (kfree p1 NULL s1) = Some (s2, p2)" "p2 \<noteq> NULL"
    and heap: "hb = p_heap_break (procs k who)" "hb' = hb + chars args + arr_size argv + chars envs + arr_size env"
      "hb' < p_heap_bottom (procs k who)" "user_range k who hb hb'"
    and sep: "K \<inter> {hb..<hb'} = {}" "{p1..<p1 + arr_size argv} \<inter> (K \<union> {hb..<hb'}) = {}" "{p2..<p2 + arr_size env} \<inter> (K \<union> {hb..<hb'}) = {}"
  shows "\<exists>k1 k2 v e. sarray_to_user who argv k = Some (k1, Some v) \<and> sarray_to_user who env k1 = Some (k2, Some e) \<and>
    procs k2 who = (procs k who)\<lparr>p_heap_break := hb'\<rparr> \<and>
    (\<forall>i\<le>length args. phys k v who + int i \<in> {hb..<hb'}) \<and> (\<forall>i\<le>length envs. phys k e who + int i \<in> {hb..<hb'}) \<and>
    strings_at (kmem k2) (\<lambda>v. phys k v who) {hb..<hb'} (phys k v who) args \<and>
    strings_at (kmem k2) (\<lambda>v. phys k v who) {hb..<hb'} (phys k e who) envs"
proof -
  let ?n = "int (length args)" let ?m = "int (length envs)"
  define h1 where "h1 = hb + chars args + arr_size argv"
  have h: "hb < h1" "h1 < hb'" "hb' = h1 + chars envs + arr_size env"
    using heap(2) argv(2) env(2) chars_nonneg [of args] chars_nonneg [of envs] by (simp_all add: h1_def)
  have disj: "x \<notin> K \<and> x \<notin> {hb..<hb'}" if "x \<in> {p1..<p1 + arr_size argv} \<union> {p2..<p2 + arr_size env}" for x
    using sep(2,3) that by blast
  have K: "x \<notin> {hb..<hb'}" if "x \<in> K" for x using sep(1) that by blast
  have "\<exists>mem v. sarray_to_user who argv k =
      Some (set_slab (kfree p1 NULL s1) (upd_proc who (p_heap_break_update (\<lambda>_. h1)) (upd_mem (\<lambda>_. mem) k)), Some v) \<and>
    phys k v who \<in> {hb..<h1} \<and> phys k v who + ?n < h1 \<and> strings_at mem (\<lambda>v. phys k v who) {hb..<h1} (phys k v who) args \<and>
    (\<forall>x. x \<notin> {hb..<h1} \<union> {p1..<p1 + arr_size argv} \<longrightarrow> mem x = kmem k x)"
    by (rule sarray_to_user_run [OF argv heap(1) h1_def _ _ alloc(1,2)])
      (use heap h K disj in \<open>fastforce simp: user_range_def\<close>)+
  then obtain mem1 v where 1: "sarray_to_user who argv k =
      Some (set_slab (kfree p1 NULL s1) (upd_proc who (p_heap_break_update (\<lambda>_. h1)) (upd_mem (\<lambda>_. mem1) k)), Some v)"
    "phys k v who \<in> {hb..<h1}" "phys k v who + ?n < h1" "strings_at mem1 (\<lambda>v. phys k v who) {hb..<h1} (phys k v who) args"
    "\<And>x. x \<notin> {hb..<h1} \<union> {p1..<p1 + arr_size argv} \<Longrightarrow> mem1 x = kmem k x" by blast
  define k1 where "k1 = set_slab (kfree p1 NULL s1) (upd_proc who (p_heap_break_update (\<lambda>_. h1)) (upd_mem (\<lambda>_. mem1) k))"
  have k1: "procs k1 who = (procs k who)\<lparr>p_heap_break := h1\<rparr>" "kmem k1 = mem1" "slab_of k1 = kfree p1 NULL s1" by (simp_all add: k1_def)
  then have f: "phys k1 x who = phys k x who" for x by (simp add: phys_def)
  have "mem1 x = kmem k x" if "x \<in> K" for x using K [OF that] disj [of x] that h by (intro 1(5)) auto
  then have "strings_at (kmem k1) (\<lambda>p. p) K (arr_array env) envs"
    using env(3) by (intro strings_at_move [OF env(1)]) (simp_all add: k1 subset_iff)
  then have "\<exists>mem e. sarray_to_user who env k1 =
      Some (set_slab (kfree p2 NULL s2) (upd_proc who (p_heap_break_update (\<lambda>_. hb')) (upd_mem (\<lambda>_. mem) k1)), Some e) \<and>
    phys k1 e who \<in> {h1..<hb'} \<and> phys k1 e who + ?m < hb' \<and> strings_at mem (\<lambda>v. phys k1 v who) {h1..<hb'} (phys k1 e who) envs \<and>
    (\<forall>x. x \<notin> {h1..<hb'} \<union> {p2..<p2 + arr_size env} \<longrightarrow> mem x = kmem k1 x)"
    by (rule sarray_to_user_run [OF _ env(2,3) _ h(3) _ _ _ alloc(4)])
      (use heap h K disj alloc in \<open>fastforce simp: user_range_def k1\<close>)+
  then obtain mem2 e where 2: "sarray_to_user who env k1 =
      Some (set_slab (kfree p2 NULL s2) (upd_proc who (p_heap_break_update (\<lambda>_. hb')) (upd_mem (\<lambda>_. mem2) k1)), Some e)"
    "phys k1 e who \<in> {h1..<hb'}" "phys k1 e who + ?m < hb'" "strings_at mem2 (\<lambda>v. phys k1 v who) {h1..<hb'} (phys k1 e who) envs"
    "\<And>x. x \<notin> {h1..<hb'} \<union> {p2..<p2 + arr_size env} \<Longrightarrow> mem2 x = mem1 x" unfolding k1 by blast
  have U: "mem2 x = mem1 x" if "x \<in> {hb..<h1}" for x using disj [of x] that h by (intro 2(5)) auto
  have "strings_at mem2 (\<lambda>v. phys k v who) {hb..<hb'} (phys k v who) args"
    by (rule strings_at_move [OF 1(4)]) (use 1(2,3) h in \<open>auto intro!: U\<close>)
  moreover have "strings_at mem2 (\<lambda>v. phys k v who) {hb..<hb'} (phys k e who) envs"
    by (rule strings_at_move [OF 2(4) [unfolded f]]) (use h in auto)
  moreover have "\<forall>i\<le>length args. phys k v who + int i \<in> {hb..<hb'}" "\<forall>i\<le>length envs. phys k e who + int i \<in> {hb..<hb'}"
    using 1(2,3) 2(2,3) h f [of e] by auto
  ultimately show ?thesis
    by (intro exI [of _ k1] exI [of _ "set_slab (kfree p2 NULL s2) (upd_proc who (p_heap_break_update (\<lambda>_. hb')) (upd_mem (\<lambda>_. mem2) k1))"]
          exI [of _ v] exI [of _ e] conjI 1(1) [folded k1_def] 2(1)) (simp_all add: k1)
qed

text \<open>
  C20. A program starts with the arguments and the environment it was given. The two vectors that
  the kernel copied, \<open>args\<close> and \<open>envs\<close>, are in the new heap, both the strings and the arrays of
  pointers to them: the word at the stack pointer of the program is the number of arguments, the
  next one the address of their array, and the address of the other array is in the last word of the
  stack. The return address is that of the two instructions in the frame that turn the return of
  \<^verbatim>\<open>main\<close> into the system call exit, whose message is in the frame as well.
\<close>

theorem build_user_stack_correct:
  assumes argv: "strings_at (kmem k) (\<lambda>p. p) K (arr_array argv) args" "arr_size argv = int (length args) + 1"
      "{arr_array argv..arr_array argv + int (length args)} \<subseteq> K"
    and env: "strings_at (kmem k) (\<lambda>p. p) K (arr_array env) envs" "arr_size env = int (length envs) + 1"
      "{arr_array env..arr_array env + int (length envs)} \<subseteq> K"
    and alloc: "kmalloc (arr_size argv) 1 NULL (slab_of k) = Some (s1, p1)" "p1 \<noteq> NULL"
      "kmalloc (arr_size env) 1 NULL (kfree p1 NULL s1) = Some (s2, p2)" "p2 \<noteq> NULL"
    and heap: "hb = p_heap_break (procs k who)" "hb' = hb + chars args + arr_size argv + chars envs + arr_size env"
      "hb' < p_heap_bottom (procs k who)" "user_range k who hb hb'"
    and sep: "K \<inter> {hb..<hb'} = {}" "{p1..<p1 + arr_size argv} \<inter> (K \<union> {hb..<hb'}) = {}" "{p2..<p2 + arr_size env} \<inter> (K \<union> {hb..<hb'}) = {}"
    and stack: "c = p_ctx (procs k who)" "stack_ready c" "{c_sp c + c_rbase c - 7..c_sp c + c_rbase c} \<inter> {hb..<hb'} = {}"
  shows "\<exists>k' v e. build_user_stack who argv env k = Some (k', 0) \<and>
    c_sp (p_ctx (procs k' who)) = c_sp c - 7 \<and> c_rbase (p_ctx (procs k' who)) = c_rbase c \<and>
    mem_words (kmem k') (phys k' (c_sp c - 7) who) 8 = [int (length args), v, EXIT, EXIT_MAGIC, 0, ASM_ADDUI_SP_SP_2, ASM_SYSCALL, e] \<and>
    phys k' (c_ra (p_ctx (procs k' who))) who = phys k' (c_sp c - 7) who + 5 \<and>
    strings_at (kmem k') (\<lambda>v. phys k' v who) {hb..<hb'} (phys k' v who) args \<and>
    strings_at (kmem k') (\<lambda>v. phys k' v who) {hb..<hb'} (phys k' e who) envs"
proof -
  obtain k1 k2 v e where run: "sarray_to_user who argv k = Some (k1, Some v)" "sarray_to_user who env k1 = Some (k2, Some e)"
      "procs k2 who = (procs k who)\<lparr>p_heap_break := hb'\<rparr>"
    and loc: "\<And>i. i \<le> length args \<Longrightarrow> phys k v who + int i \<in> {hb..<hb'}" "\<And>i. i \<le> length envs \<Longrightarrow> phys k e who + int i \<in> {hb..<hb'}"
    and vec: "strings_at (kmem k2) (\<lambda>v. phys k v who) {hb..<hb'} (phys k v who) args"
      "strings_at (kmem k2) (\<lambda>v. phys k v who) {hb..<hb'} (phys k e who) envs"
    using vectors_to_user_run [OF argv env alloc heap sep] by blast
  let ?top = "c_sp c + c_rbase c"
  define ws where "ws = [int (length args), v, EXIT, EXIT_MAGIC, 0, ASM_ADDUI_SP_SP_2, ASM_SYSCALL]"
  define k3 where "k3 = upd_proc who (p_ctx_update (\<lambda>c. c\<lparr>c_ra := ptr_add (c_sp c) (- EXIT_CODE_LEN)\<rparr>)) (upd_mem (\<lambda>mem. mem(?top := e)) k2)"
  define k4 where "k4 = upd_proc who (p_ctx_update (c_sp_update (\<lambda>_. c_sp c - 7))) (upd_mem (put_words (?top - 7) ws) k3)"
  have top: "phys k (c_sp c) who = ?top" using stack(2) by (simp add: phys_def stack_ready_def get_physical_addr_def stack(1))
  have sp3: "c_sp (p_ctx (procs k3 who)) = c_sp c" "c_rbase (p_ctx (procs k3 who)) = c_rbase c" by (simp_all add: k3_def run(3) stack(1))
  then have "stack_ready (p_ctx (procs k3 who))" using stack(2) by (simp add: stack_ready_def)
  from copyto_frame_run [OF refl this, of ws] have push: "copyto_user_stack who ws k3 = k4" by (simp add: k4_def sp3 ws_def)
  have "build_user_stack who argv env k = Some (k4, 0)"
    using run(1,2) align_stack [OF stack(2)] push argv(2)
    by (simp add: build_user_stack_def stack(1) [symmetric] top frame_words_def k3_def [symmetric] ws_def [symmetric])
  moreover have kept: "kmem k4 x = kmem k2 x" if "x \<in> {hb..<hb'}" for x
  proof -
    have "x \<notin> {?top - 7..?top}" using stack(3) that by blast
    then show ?thesis by (auto simp: k4_def k3_def ws_def put_words_other simp del: put_words.simps)
  qed
  moreover have f: "phys k4 x who = phys k x who" for x by (simp add: phys_def k4_def k3_def run(3))
  moreover have sp4: "phys k (c_sp c - 7) who = ?top - 7" "phys k (c_sp c - 2) who = ?top - 2"
    using stack(1,2) by (simp_all add: phys_def get_physical_addr_def stack_ready_def)
  moreover have "mem_words (kmem k4) (?top - 7) 8 = ws @ [e]"
    by (simp add: mem_words_def k4_def k3_def ws_def upt_rec)
  moreover have "c_ra (p_ctx (procs k4 who)) = c_sp c - 2"
    using stack(1,2) by (simp add: k4_def k3_def run(3) ptr_add_def stack_ready_def)
  moreover have "strings_at (kmem k4) (\<lambda>v. phys k v who) {hb..<hb'} (phys k v who) args"
    "strings_at (kmem k4) (\<lambda>v. phys k v who) {hb..<hb'} (phys k e who) envs"
    by (rule strings_at_move [OF vec(1)] strings_at_move [OF vec(2)], use loc kept in simp_all)+
  moreover have "c_sp (p_ctx (procs k4 who)) = c_sp c - 7" "c_rbase (p_ctx (procs k4 who)) = c_rbase c" by (simp_all add: k4_def sp3)
  ultimately show ?thesis by (intro exI [of _ k4] exI [of _ v] exI [of _ e]) (simp add: ws_def)
qed

text \<open>An allocator with one free block of 900 words.\<close>

definition demo_slab :: slab where
  "demo_slab = \<lparr>blocks = (\<lambda>_. \<lparr>b_size = 900, b_next = 0, b_prev = 0, b_ra = 0, b_free = True, b_ptr = 40006\<rparr>), base = 40000,
     smm = \<lparr>mem_map = replicate 4 0, bss_page_end = 0\<rparr>\<rparr>"

declare find_block.simps [code]

lemma demo_slab_alloc:
  "\<exists>s1 s2. kmalloc 3 1 NULL demo_slab = Some (s1, 40903) \<and> kmalloc 2 1 NULL (kfree 40903 NULL s1) = Some (s2, 40904)"
proof -
  have "map_option snd (kmalloc 3 1 NULL demo_slab) = Some 40903" by code_simp
  then obtain s1 where 1: "kmalloc 3 1 NULL demo_slab = Some (s1, 40903)" by auto
  have "Option.bind (kmalloc 3 1 NULL demo_slab) (\<lambda>(s, p). map_option snd (kmalloc 2 1 NULL (kfree p NULL s))) = Some 40904" by code_simp
  with 1 have "map_option snd (kmalloc 2 1 NULL (kfree 40903 NULL s1)) = Some 40904" by simp
  then show ?thesis using 1 by auto
qed

theorem build_user_stack_correct_witness:
  "\<exists>(k :: psk) k' v e. build_user_stack 1 \<lparr>arr_array = 3000, arr_size = 3\<rparr> \<lparr>arr_array = 3300, arr_size = 2\<rparr> k = Some (k', 0) \<and>
    mem_words (kmem k') 26616 8 = [2, v, EXIT, EXIT_MAGIC, 0, ASM_ADDUI_SP_SP_2, ASM_SYSCALL, e] \<and>
    strings_at (kmem k') (\<lambda>v. phys k' v 1) {20000..<20012} (phys k' v 1) [[97], [98, 99]] \<and>
    strings_at (kmem k') (\<lambda>v. phys k' v 1) {20000..<20012} (phys k' e 1) [[69]]"
proof -
  fix k0 :: psk
  define r where "r = proc_zero\<lparr>p_heap_break := 20000, p_heap_bottom := 21000, p_ctx := (p_ctx proc_zero)\<lparr>c_sp := 16383, c_rbase := 10240\<rparr>\<rparr>"
  define k where "k = (set_slab demo_slab k0)\<lparr>procs := \<lambda>_. r, kmem := (\<lambda>_. 0)(3000 := 3100, 3001 := 3200, 3100 := 97, 3200 := 98, 3201 := 99,
    3300 := 3400, 3400 := 69)\<rparr>"
  obtain s1 s2 where s: "kmalloc 3 1 NULL demo_slab = Some (s1, 40903)" "kmalloc 2 1 NULL (kfree 40903 NULL s1) = Some (s2, 40904)"
    using demo_slab_alloc by blast
  have "slab_of k = demo_slab" by (simp add: k_def slab_of_def set_slab_def)
  then have alloc: "kmalloc (arr_size \<lparr>arr_array = 3000, arr_size = 3\<rparr>) 1 NULL (slab_of k) = Some (s1, 40903)"
    "kmalloc (arr_size \<lparr>arr_array = 3300, arr_size = 2\<rparr>) 1 NULL (kfree 40903 NULL s1) = Some (s2, 40904)" using s by simp_all
  have vec: "strings_at (kmem k) (\<lambda>p. p) {3000..3500} (arr_array \<lparr>arr_array = 3000, arr_size = 3\<rparr>) [[97], [98, 99]]"
    "strings_at (kmem k) (\<lambda>p. p) {3000..3500} (arr_array \<lparr>arr_array = 3300, arr_size = 2\<rparr>) [[69]]" by (simp_all add: k_def)
  have sep: "{3000..3500} \<inter> {20000..<20012} = ({} :: int set)"
    "{40903..<40903 + arr_size \<lparr>arr_array = 3000, arr_size = 3\<rparr>} \<inter> ({3000..3500} \<union> {20000..<20012}) = {}"
    "{40904..<40904 + arr_size \<lparr>arr_array = 3300, arr_size = 2\<rparr>} \<inter> ({3000..3500} \<union> {20000..<20012}) = {}" by auto
  have stack: "stack_ready (p_ctx r)" "{c_sp (p_ctx r) + c_rbase (p_ctx r) - 7..c_sp (p_ctx r) + c_rbase (p_ctx r)} \<inter> {20000..<20012} = {}"
    by (auto simp: stack_ready_def r_def)
  have heap: "20000 = p_heap_break (procs k 1)" "20012 < p_heap_bottom (procs k 1)" "user_range k 1 20000 20012" "p_ctx r = p_ctx (procs k 1)"
    by (simp_all add: user_range_def k_def r_def)
  obtain k' v e where run: "build_user_stack 1 \<lparr>arr_array = 3000, arr_size = 3\<rparr> \<lparr>arr_array = 3300, arr_size = 2\<rparr> k = Some (k', 0)"
      "c_rbase (p_ctx (procs k' 1)) = c_rbase (p_ctx r)"
      "mem_words (kmem k') (phys k' (c_sp (p_ctx r) - 7) 1) 8 = [int (length [[97], [98, 99 :: int]]), v, EXIT, EXIT_MAGIC, 0, ASM_ADDUI_SP_SP_2, ASM_SYSCALL, e]"
      "strings_at (kmem k') (\<lambda>v. phys k' v 1) {20000..<20012} (phys k' v 1) [[97], [98, 99]]"
      "strings_at (kmem k') (\<lambda>v. phys k' v 1) {20000..<20012} (phys k' e 1) [[69]]"
    using build_user_stack_correct [OF vec(1) _ _ vec(2) _ _ alloc(1) _ alloc(2) _ heap(1) _ heap(2,3) sep heap(4) stack] by auto
  have "phys k' (c_sp (p_ctx r) - 7) 1 = 26616" unfolding phys_def run(2) by (simp add: get_physical_addr_def r_def)
  with run(3) have "mem_words (kmem k') 26616 8 = [2, v, EXIT, EXIT_MAGIC, 0, ASM_ADDUI_SP_SP_2, ASM_SYSCALL, e]" by simp
  with run(1,4,5) show ?thesis by blast
qed

section \<open>The name of a program\<close>

lemma taken_run: "cstring m a xs \<Longrightarrow> taken n a m = take n xs"
proof (induction n arbitrary: a xs)
  case (Suc n)
  then show ?case by (cases xs) auto
qed simp

lemma set_proc_simps:
  assumes "cstring (kmem k) path xs" "length (p_name (procs k who)) = PROC_NAME_LEN"
  shows "p_uid (procs (set_proc who entry path k) q) = (if q = who \<and> PROC_NAME_LEN \<le> length xs then 0 else p_uid (procs k q))"
    "c_pc (p_ctx (procs (set_proc who entry path k) who)) = entry" "p_state (procs (set_proc who entry path k) q) = p_state (procs k q)"
  using taken_run [OF assms(1), of PROC_NAME_LEN] assms(2)
  by (auto simp: set_proc_def set_name_def Let_def nth_append min_def)

lemma set_proc_same:
  "p_priority (procs (set_proc who entry path k) q) = p_priority (procs k q)" "IS_INUSE (set_proc who entry path k) q = IS_INUSE k q"
  "pnext (set_proc who entry path k) = pnext k" "ready_q (set_proc who entry path k) = ready_q k"
  by (auto simp: set_proc_def set_name_def Let_def IS_INUSE_def pnext_def)

text \<open>What a reply to another process keeps of a slot.\<close>

definition image_of :: "proc \<Rightarrow> int list \<times> u32 list" where
  "image_of r = ([p_uid r, c_pc (p_ctx r), p_mem_start r, p_stack_top r, p_heap_bottom r, p_stack_size r, p_parent r, p_thread_parent r],
     p_protection_table r)"

lemma syscall_reply2_image:
  assumes "syscall_reply2 n r d m k = Some (k', e)"
  shows "image_of (procs k' q) = image_of (procs k q)"
proof -
  have e: "image_of (procs k2 q) = image_of (procs k1 q)" if "enqueue_head i p k1 = Some k2" for k1 k2 :: "'a kernel_scheme" and i p
    using strip_field [OF enqueue_head_strip [OF that], of image_of q] by (simp add: image_of_def)
  show ?thesis
    using assms
    by (auto simp: syscall_reply2_def do_notify_def set_syscall_reply_def set_reg0_def Let_def bind_eq_Some_conv image_of_def
        dest!: e [unfolded image_of_def] split: option.splits if_splits)
qed

section \<open>The end of the call\<close>

lemma rested_keep:
  assumes "rested k" "pnext k' = pnext k" "ready_q k' = ready_q k"
    and "\<And>q. p_priority (procs k' q) = p_priority (procs k q)" "\<And>q. IS_INUSE k' q = IS_INUSE k q"
    and "\<And>q. p_state (procs k q) = STATE_RUNNABLE \<Longrightarrow> p_state (procs k' q) = STATE_RUNNABLE"
  shows "rested k'"
proof -
  obtain qs where "rq_inv k qs" "\<forall>p. queued qs p \<longrightarrow> p_state (procs k p) = STATE_RUNNABLE" using assms(1) by (auto simp: rested_def)
  then have "rq_inv k' qs \<and> (\<forall>p. queued qs p \<longrightarrow> p_state (procs k' p) = STATE_RUNNABLE)" using assms(6) rq_inv_cong [OF assms(2,3)] by blast
  then show ?thesis using assms(1,4,5) by (auto simp: rested_def)
qed

lemma resume_parent_run:
  assumes "rested k"
  shows "\<exists>k'. resume_parent m who (Some par) k = Some k' \<and> (\<forall>q. image_of (procs k' q) = image_of (procs k q)) \<and>
    kmm k' = kmm k \<and> (\<forall>q. IS_INUSE k' q = IS_INUSE k q) \<and> \<not> has_flag (p_state (procs k' par)) STATE_VFORKING"
proof (cases "has_flag (p_state (procs k par)) STATE_VFORKING")
  case True
  let ?k1 = "upd_mem (\<lambda>mem. mem(m_type m := VFORK)) (upd_proc par (p_state_update (\<lambda>s. clear_flag s STATE_VFORKING)) k)"
  have "pnext ?k1 = pnext k" by (auto simp: pnext_def)
  then have "rested ?k1" by (rule rested_keep [OF assms]) (auto simp: IS_INUSE_def clear_flag_def)
  then obtain k' e where k': "syscall_reply2 VFORK (p_pid (procs ?k1 who)) (p_proc_nr (procs ?k1 par)) m ?k1 = Some (k', e)"
    "p_state (procs k' par) = (if par = p_proc_nr (procs ?k1 par) \<and> woken_by_reply (p_proc_nr (procs ?k1 par)) ?k1 then STATE_RUNNABLE else p_state (procs ?k1 par))"
    by (rule syscall_reply2_total) blast
  have "image_of (procs k' q) = image_of (procs k q)" for q using syscall_reply2_image [OF k'(1), of q] by (simp add: image_of_def)
  moreover have "kmm k' = kmm k" using syscall_reply2_file_frame [OF k'(1)] by (simp add: file_frame_def)
  moreover have "IS_INUSE k' q = IS_INUSE k q" for q using syscall_reply2_frame [OF k'(1)] by (simp add: clock_frame_def IS_INUSE_def)
  ultimately show ?thesis using True k' by (simp add: resume_parent_def Let_def)
next
  case False
  then show ?thesis by (simp add: resume_parent_def)
qed

lemma start_program_run:
  assumes qs: "rq_inv k qs" "\<forall>p. queued qs p \<longrightarrow> p_state (procs k p) = STATE_RUNNABLE" "\<forall>p. IS_PRIORITY_OK (p_priority (procs k p))" "IS_INUSE k SYSTEM"
    and "\<not> queued qs who" and name: "cstring (kmem k) path xs" "length (p_name (procs k who)) = PROC_NAME_LEN"
  shows "\<exists>k'. start_program who path elf k = Some k' \<and> rested k' \<and> c_pc (p_ctx (procs k' who)) = elf_binary_pc elf \<and>
    p_uid (procs k' who) = (if PROC_NAME_LEN \<le> length xs then 0 else p_uid (procs k who))"
proof -
  let ?k1 = "upd_proc who (p_state_update (\<lambda>_. STATE_RUNNABLE)) k" let ?i = "p_priority (procs k who)"
  have "pnext ?k1 = pnext k" by (auto simp: pnext_def)
  then have "rq_inv ?k1 qs" using qs(1) rq_inv_cong [of ?k1 k] by simp
  from enqueue_tail_run [OF this _ assms(5), of ?i] obtain k2 where
    k2: "enqueue_tail ?i who ?k1 = Some k2" "rq_inv k2 (qs(?i := qs ?i @ [who]))" "strip k2 = strip ?k1" using qs(3) by blast
  note f = strip_fields [OF k2(3)] strip_field [OF k2(3), of p_uid] strip_field [OF k2(3), of p_name] strip_mem [OF k2(3)]
  let ?k3 = "set_proc who (elf_binary_pc elf) path k2"
  have "start_program who path elf k = Some ?k3" using k2(1) by (simp add: start_program_def enqueue_schedule_def)
  moreover have "rested k2"
    unfolding rested_def
  proof (intro conjI exI [of _ "qs(?i := qs ?i @ [who])"] k2(2) allI impI)
    show "p_state (procs k2 p) = STATE_RUNNABLE" if "queued (qs(?i := qs ?i @ [who])) p" for p
      using that qs(2) f(1) [of p] by (auto simp: queued_def split: if_splits)
  qed (use qs(3,4) f in \<open>simp_all add: IS_INUSE_def\<close>)
  then have "rested ?k3" by (rule rested_keep) (use name f in \<open>simp_all add: set_proc_same set_proc_simps\<close>)
  ultimately show ?thesis using set_proc_simps [of k2 path xs who "elf_binary_pc elf"] name f by simp
qed

text \<open>
  C21. A program whose path has at least sixteen characters runs as the superuser: the name of a
  process has sixteen words, the sixteen characters that are copied fill it, and the zero after them
  lands in the user id. Every check of the permissions of a file succeeds from then on. A shorter path
  leaves the user id alone. In both cases the call ends without a reply and the process is to run from
  the entry point of the program.
\<close>

theorem exec_long_path_gains_root:
  assumes "rq_inv k qs" "\<forall>p. queued qs p \<longrightarrow> p_state (procs k p) = STATE_RUNNABLE" "\<forall>p. IS_PRIORITY_OK (p_priority (procs k p))" "IS_INUSE k SYSTEM"
    and "\<not> queued qs who" "cstring (kmem k) path xs" "length (p_name (procs k who)) = PROC_NAME_LEN"
  shows "\<exists>k'. exec_return m who path (Some par) is_new (Inr elf) k = Some (k', DONTREPLY) \<and> c_pc (p_ctx (procs k' who)) = elf_binary_pc elf \<and>
    (if PROC_NAME_LEN \<le> length xs then p_uid (procs k' who) = 0 \<and> (\<forall>ino mode. has_file_access who ino mode k')
     else p_uid (procs k' who) = p_uid (procs k who))"
proof -
  from start_program_run [OF assms, of elf] obtain k1 where k1: "start_program who path elf k = Some k1" "rested k1"
    "c_pc (p_ctx (procs k1 who)) = elf_binary_pc elf" "p_uid (procs k1 who) = (if PROC_NAME_LEN \<le> length xs then 0 else p_uid (procs k who))" by blast
  from resume_parent_run [OF k1(2), of m who par] obtain k2 where k2: "resume_parent m who (Some par) k1 = Some k2"
    "image_of (procs k2 who) = image_of (procs k1 who)" by blast
  show ?thesis using k1 k2 by (cases is_new) (simp_all add: exec_return_def image_of_def has_file_access_def)
qed

theorem exec_long_path_gains_root_witness:
  "\<exists>(k :: fsk) k'. p_uid (procs k 1) = 1000 \<and> cstring (kmem k) 500 (map (\<lambda>c. of_char c) ''/usr/bin/program'') \<and>
     exec_return 600 1 500 (Some 2) False (Inr \<lparr>elf_magic = WINIX_ELF_MAGIC, elf_binary_pc = 1024, elf_binary_offset = 1024, elf_binary_size = 0,
       elf_text_size = 0, elf_data_size = 0, elf_bss_size = 0\<rparr>) k = Some (k', DONTREPLY) \<and>
     p_uid (procs k' 1) = 0 \<and> (\<forall>ino mode. has_file_access 1 ino mode k')"
proof -
  fix k0 :: fsk
  let ?xs = "map (\<lambda>c. of_char c) ''/usr/bin/program'' :: int list"
  define k where "k = k0\<lparr>procs := \<lambda>q. proc_zero\<lparr>p_proc_nr := q, p_flags := IN_USE, p_priority := 3, p_uid := 1000\<rparr>, ready_q := \<lambda>_. \<lparr>q_head = None, q_tail = None\<rparr>,
    kmem := (\<lambda>a. if 500 \<le> a \<and> a < 516 then ?xs ! nat (a - 500) else 0)\<rparr>"
  have "pnext k q = None" for q by (simp add: pnext_def k_def proc_zero_def)
  then have "rq_inv k (\<lambda>_. [])" by (simp add: rq_inv_def queue_ok_def k_def)
  moreover have "\<not> queued (\<lambda>_. []) q" for q by (simp add: queued_def)
  moreover have cs: "cstring (kmem k) 500 ?xs" by (simp add: k_def)
  moreover have "IS_PRIORITY_OK (p_priority (procs k q))" "IS_INUSE k q" "length (p_name (procs k q)) = PROC_NAME_LEN" "p_uid (procs k q) = 1000" for q
    by (simp_all add: k_def IS_PRIORITY_OK_def IS_INUSE_def proc_zero_def has_flag_def)
  ultimately show ?thesis
    using exec_long_path_gains_root [of k "\<lambda>_. []" 1 500 ?xs 600 2 False "\<lparr>elf_magic = WINIX_ELF_MAGIC, elf_binary_pc = 1024, elf_binary_offset = 1024,
      elf_binary_size = 0, elf_text_size = 0, elf_data_size = 0, elf_bss_size = 0\<rparr>"]
    by - (rule exI [of _ k], auto)
qed

lemma user_release_run:
  assumes "page_inv (kmm k)" "p + n < 128" "nat (bss_page_end (kmm k)) \<le> p" "length (p_protection_table (procs k who)) = 32"
  shows "\<exists>k'. user_release who (int p * 1024) (int n * 1024) k = Some (k', 0) \<and> page_inv (kmm k') \<and> bss_page_end (kmm k') = bss_page_end (kmm k) \<and>
    used_pages (kmm k') = used_pages (kmm k) - {p..<p + n} \<and> length (p_protection_table (procs k' who)) = 32 \<and>
    image_of ((procs k' who)\<lparr>p_protection_table := []\<rparr>) = image_of ((procs k who)\<lparr>p_protection_table := []\<rparr>)"
proof -
  obtain m where m: "release_pages (kmm k) (int p * 1024) (int n * 1024) = Some (m, 0)" "page_inv m" "bss_page_end m = bss_page_end (kmm k)"
    "used_pages m = used_pages (kmm k) - {p..<p + n}" using release_pages_run [OF assms(1-3)] by blast
  obtain bm where "bitmap_clear_nbits (p_protection_table (procs k who)) 32 (int p) (int n) = Some (bm, 0)" "length bm = 32"
    using bitmap_clear_nbits_run [of p n "p_protection_table (procs k who)"] assms(2,4) by auto
  then show ?thesis using m assms(2) by (simp add: user_release_def user_release_pages_def image_of_def upd_proc_def)
qed

text \<open>
  C22. A call that fails lets the memory of the parent go. A child of \<^verbatim>\<open>vfork\<close> uses the pages of its
  parent, which is blocked until the child exits or runs another program: while it is blocked the
  pages are not released on the child's behalf. A failed call resumes the parent all the same, and
  when the child then exits, the stack and the image that it shares with the running parent are
  released.
\<close>

theorem failed_exec_frees_parent:
  assumes "rested k" "get_proc k (p_parent (procs k who)) = Some par" "has_flag (p_state (procs k par)) STATE_VFORKING" "\<not> IS_THREAD k who"
    and shared: "p_stack_top (procs k who) = p_stack_top (procs k par)" "p_stack_size (procs k who) = p_stack_size (procs k par)"
      "p_mem_start (procs k who) = p_mem_start (procs k par)" "p_heap_bottom (procs k who) = p_heap_bottom (procs k par)"
    and pages: "page_inv (kmm k)" "length (p_protection_table (procs k who)) = 32"
      "p_stack_top (procs k par) = int p * 1024" "p_stack_size (procs k par) = int n * 1024" "p + n < 128" "nat (bss_page_end (kmm k)) \<le> p"
      "p_mem_start (procs k par) = int q * 1024" "p_heap_bottom (procs k par) + 1 = int (q + j) * 1024" "q + j < 128" "nat (bss_page_end (kmm k)) \<le> q"
  shows "release_proc_mem who k = Some (k, 0) \<and>
    (\<exists>k' k''. exec_return m who path (Some par) False (Inl err) k = Some (k', err) \<and> release_proc_mem who k' = Some (k'', 0) \<and>
      used_pages (kmm k') = used_pages (kmm k) \<and> used_pages (kmm k'') = used_pages (kmm k) - {p..<p + n} - {q..<q + j})"
proof -
  from resume_parent_run [OF assms(1), of m who par] obtain k1 where k1: "resume_parent m who (Some par) k = Some k1"
    "\<And>i. image_of (procs k1 i) = image_of (procs k i)" "kmm k1 = kmm k" "\<And>i. IS_INUSE k1 i = IS_INUSE k i" "\<not> has_flag (p_state (procs k1 par)) STATE_VFORKING" by blast
  have par: "get_proc k1 (p_parent (procs k who)) = Some par" using assms(2) by (auto simp: get_proc_def k1(4) split: if_splits)
  note im = k1(2) [of who, unfolded image_of_def, simplified]
  have len: "length (p_protection_table (procs k1 who)) = 32" using pages(2) im by simp
  obtain k2 where k2: "user_release who (int p * 1024) (int n * 1024) k1 = Some (k2, 0)" "page_inv (kmm k2)" "bss_page_end (kmm k2) = bss_page_end (kmm k)"
      "used_pages (kmm k2) = used_pages (kmm k) - {p..<p + n}" "length (p_protection_table (procs k2 who)) = 32" "image_of ((procs k2 who)\<lparr>p_protection_table := []\<rparr>) = image_of ((procs k1 who)\<lparr>p_protection_table := []\<rparr>)"
    using user_release_run [of k1 p n who] len pages k1(3) by auto
  note im2 = k2(6) [unfolded image_of_def, simplified]
  obtain k3 where k3: "user_release who (int q * 1024) (int j * 1024) k2 = Some (k3, 0)" "used_pages (kmm k3) = used_pages (kmm k2) - {q..<q + j}"
    using user_release_run [of k2 q j who] k2 pages by auto
  have im3: "p_heap_bottom (procs k2 who) + 1 - int q * 1024 = int j * 1024" "p_mem_start (procs k2 who) = int q * 1024" "\<not> IS_THREAD k2 who"
      "p_stack_top (procs k1 who) = int p * 1024" "p_stack_size (procs k1 who) = int n * 1024" "p_parent (procs k1 who) = p_parent (procs k who)"
    using im im2 shared pages assms(4) by (simp_all add: IS_THREAD_def)
  have "release_proc_mem who k1 = Some (k3, 0)" unfolding release_proc_mem_def im3(6) by (simp add: par k1(5) im3 k2(1) k3(1))
  moreover have "exec_return m who path (Some par) False (Inl err) k = Some (k1, err)" using k1(1) by (simp add: exec_return_def)
  moreover have "release_proc_mem who k = Some (k, 0)" by (simp add: release_proc_mem_def assms(2,3))
  ultimately show ?thesis using k1(3) k2(4) k3(2) by simp
qed

theorem failed_exec_frees_parent_witness:
  "\<exists>(k :: kernel) k' k''. p_stack_top (procs k 1) = 20480 \<and> used_pages (kmm k) = {..<128} \<and>
     exec_return 600 2 500 (Some 1) False (Inl (- ENOENT)) k = Some (k', - ENOENT) \<and> release_proc_mem 2 k' = Some (k'', 0) \<and>
     used_pages (kmm k'') = {..<128} - {20..<21} - {10..<13}"
proof -
  define r where "r = proc_zero\<lparr>p_flags := IN_USE, p_priority := 3, p_parent := 1, p_stack_top := 20480, p_stack_size := 1024, p_mem_start := 10240,
    p_heap_bottom := 13311, p_protection_table := replicate 32 0\<rparr>"
  define k where "k = kernel_zero\<lparr>procs := \<lambda>q. r\<lparr>p_proc_nr := q, p_state := (if q = 1 then set_flag STATE_RECEIVING STATE_VFORKING else STATE_RECEIVING)\<rparr>,
    kmm := \<lparr>mem_map = replicate 4 0xffffffff, bss_page_end = 5\<rparr>\<rparr>"
  have u: "used_pages (kmm k) = {..<128}" by (simp add: used_pages_def k_def)
  have "pnext k q = None" for q by (simp add: pnext_def k_def r_def proc_zero_def)
  then have "rq_inv k (\<lambda>_. [])" by (simp add: rq_inv_def queue_ok_def k_def kernel_zero_def)
  then have "rested k" unfolding rested_def
    by (intro conjI exI [of _ "\<lambda>_. []"]) (simp_all add: queued_def k_def r_def proc_zero_def IS_PRIORITY_OK_def IS_INUSE_def has_flag_def)
  moreover have "{..<5} \<subseteq> used_pages (kmm k)" "127 \<in> used_pages (kmm k)" unfolding u by auto
  then have "page_inv (kmm k)" by (simp add: page_inv_def used_pages_def k_def)
  moreover have "get_proc k (p_parent (procs k 2)) = Some 1" "\<not> IS_THREAD k 2" "has_flag (p_state (procs k 1)) STATE_VFORKING"
    by (simp_all add: k_def r_def proc_zero_def IS_THREAD_def get_proc_def IS_PROCN_OK_def IS_INUSE_def has_flag_def set_flag_def)
  moreover have f: "p_stack_top (procs k i) = int 20 * 1024" "p_stack_size (procs k i) = int 1 * 1024" "p_mem_start (procs k i) = int 10 * 1024"
    "p_heap_bottom (procs k i) + 1 = int (10 + 3) * 1024" "length (p_protection_table (procs k i)) = 32" "bss_page_end (kmm k) = 5" for i
    by (simp_all add: k_def r_def)
  moreover have "p_heap_bottom (procs k 2) = p_heap_bottom (procs k 1)" by (simp add: k_def)
  ultimately obtain k' k'' where "exec_return 600 2 500 (Some 1) False (Inl (- ENOENT)) k = Some (k', - ENOENT)" "release_proc_mem 2 k' = Some (k'', 0)"
    "used_pages (kmm k'') = used_pages (kmm k) - {20..<20 + 1} - {10..<10 + 3}"
    using failed_exec_frees_parent [of k 2 1 20 1 10 3 600 500 "- ENOENT"] by auto
  then show ?thesis using u f(1) [of 1] by - (rule exI [of _ k], simp)
qed

end
