(* ===== verification/Boot.thy ===== *)
theory Boot
  imports ExecStack
begin

text \<open>
  The tasks of the kernel after a start: each has its slot, its stack and its place in the ready
  queues.
\<close>

section \<open>One task\<close>

text \<open>A stack of whole pages comes from the page allocator, another from the kernel's heap.\<close>

definition kstack :: "int \<Rightarrow> slab \<Rightarrow> slab \<Rightarrow> addr \<Rightarrow> bool" where
  "kstack sz s s' p \<longleftrightarrow>
     (if sz smod PAGE_LEN = 0 then \<exists>m. get_free_pages (smm s) sz GFP_HIGH = Some (m, p) \<and> s' = s\<lparr>smm := m\<rparr>
      else kmalloc sz 1 NULL s = Some (s', p))"

lemma alloc_kstack_run:
  assumes "kstack sz (slab_of k) s' p"
  shows "alloc_kstack who sz k =
    Some (upd_proc who (p_stack_top_update (\<lambda>_. p)) (upd_mem (\<lambda>mem. mem(p := STACK_MAGIC)) (set_slab s' k)), p + sz - 1)"
proof (cases "sz smod PAGE_LEN = 0")
  case True
  then obtain m where "get_free_pages (kmm k) sz GFP_HIGH = Some (m, p)" "s' = (slab_of k)\<lparr>smm := m\<rparr>"
    using assms by (auto simp: kstack_def slab_of_def)
  moreover have "k\<lparr>kmm := m\<rparr> = set_slab ((slab_of k)\<lparr>smm := m\<rparr>) k" by (simp add: slab_of_def set_slab_def)
  ultimately show ?thesis using True by (simp add: alloc_kstack_def)
next
  case False
  then show ?thesis using assms by (simp add: alloc_kstack_def kstack_def pk_kmalloc_def)
qed

lemma kset_ptable_run:
  assumes "length (p_protection_table (procs k who)) = 32"
  shows "\<exists>pt. kset_ptable who k = Some (upd_proc who (p_protection_table_update (\<lambda>_. pt)) k)"
proof (cases "IS_KERNEL_PROC k who")
  case True
  have "bitmap_fill (p_protection_table (procs k who)) PTABLE_LEN = Some (replicate 32 0xffffffff, 0)"
    using bitmap_fill_run [of "p_protection_table (procs k who)"] assms by simp
  moreover obtain pt where "bitmap_clear_bit (replicate 32 0xffffffff) PTABLE_LEN 0 = Some (pt, 0)"
    using bitmap_clear_bit_run [of 0 "replicate 32 0xffffffff"] by auto
  ultimately show ?thesis using True by (auto simp: kset_ptable_def)
next
  case False
  have "upd_proc who (p_protection_table_update (\<lambda>_. p_protection_table (procs k who))) k = k" by (simp add: upd_proc_def)
  then show ?thesis using False by (metis kset_ptable_def)
qed

text \<open>What of a slot makes it run: in use, its state, its entry point, its stack and stack pointer.\<close>

definition task_of :: "'a kernel_scheme \<Rightarrow> int \<Rightarrow> bool \<times> u32 \<times> addr \<times> addr \<times> addr" where
  "task_of k q = (IS_INUSE k q, p_state (procs k q), c_pc (p_ctx (procs k q)), p_stack_top (procs k q), c_sp (p_ctx (procs k q)))"

lemma start_kernel_proc_run:
  assumes "rq_inv k qs" "\<not> queued qs who" "who = bi_proc_nr task" "i = bi_priority task" "IS_PRIORITY_OK i" "kstack (bi_stack_size task) (slab_of k) s' p"
  shows "\<exists>k'. start_kernel_proc text_len task k = Some (k', who) \<and> rq_inv k' (qs(i := qs i @ [who])) \<and> slab_of k' = s' \<and>
    task_of k' who = (True, STATE_RUNNABLE, bi_entry task, p, p + bi_stack_size task - 1) \<and> (\<forall>q. q \<noteq> who \<longrightarrow> task_of k' q = task_of k q)"
proof -
  let ?sz = "bi_stack_size task"
  define k1 where "k1 = set_proc who (bi_entry task) (bi_name task) (upd_proc who (p_flags_update (\<lambda>f. set_flag f IN_USE)) (proc_set_default who k))"
  have k1: "procs k1 q = procs k q" if "q \<noteq> who" for q using that by (simp add: k1_def set_proc_def)
  have k1w: "p_next (procs k1 who) = None" "c_pc (p_ctx (procs k1 who)) = bi_entry task" "p_flags (procs k1 who) = IN_USE"
      "length (p_protection_table (procs k1 who)) = 32"
    by (simp_all add: k1_def set_proc_def set_name_def Let_def set_flag_def proc_default_def proc_zero_def)
  have k1s: "slab_of k1 = slab_of k" "ready_q k1 = ready_q k"
    by (simp_all add: k1_def set_proc_def proc_set_default_def slab_of_def upd_timer_def upd_proc_def Let_def)
  obtain pt where pt: "kset_ptable who k1 = Some (upd_proc who (p_protection_table_update (\<lambda>_. pt)) k1)" using kset_ptable_run [OF k1w(4)] by blast
  define k2 where "k2 = upd_proc who (p_quantum_update (\<lambda>_. bi_quantum task)) (upd_proc who (p_protection_table_update (\<lambda>_. pt)) k1)"
  have "kstack ?sz (slab_of k2) s' p" using assms(6) by (simp add: k2_def k1s)
  note stack = alloc_kstack_run [OF this, of who]
  define k3 where "k3 = upd_proc who (\<lambda>r. r\<lparr>p_ctx := (p_ctx r)\<lparr>c_sp := p + ?sz - 1\<rparr>, p_mem_start := PAGE_LEN, p_text_top := PAGE_LEN, p_text_size := text_len,
      p_stack_size := ?sz, p_priority := i, p_pid := 0, p_state := STATE_RUNNABLE\<rparr>)
    (upd_proc who (p_stack_top_update (\<lambda>_. p)) (upd_mem (\<lambda>mem. mem(p := STACK_MAGIC)) (set_slab s' k2)))"
  have k3: "procs k3 q = procs k q" if "q \<noteq> who" for q using that by (simp add: k3_def k2_def k1)
  have k3w: "p_next (procs k3 who) = None" "c_pc (p_ctx (procs k3 who)) = bi_entry task" "p_flags (procs k3 who) = IN_USE" "p_priority (procs k3 who) = i"
      "p_state (procs k3 who) = STATE_RUNNABLE" "p_stack_top (procs k3 who) = p" "c_sp (p_ctx (procs k3 who)) = p + ?sz - 1"
    by (simp_all add: k3_def k2_def k1w)
  have "pnext k3 q = pnext k q" for q
    using k3 [of q] k3w(1) rq_inv_free [OF assms(1,2)] by (cases "q = who") (simp_all add: pnext_def)
  then have "pnext k3 = pnext k" by (rule ext)
  moreover have "ready_q k3 = ready_q k" by (simp add: k3_def k2_def k1s)
  ultimately have "rq_inv k3 qs" using assms(1) rq_inv_cong [of k3 k qs] by blast
  from enqueue_tail_run [OF this assms(5,2)] obtain k4 where k4: "enqueue_tail i who k3 = Some k4" "rq_inv k4 (qs(i := qs i @ [who]))" "strip k4 = strip k3" by blast
  have run: "start_kernel_proc text_len task k = Some (k4, who)"
    using k4(1) pt stack k3w(4)
    by (simp add: start_kernel_proc_def assms(3) [symmetric] assms(4) [symmetric] Let_def k1_def [symmetric] k2_def [symmetric] k3_def [symmetric] enqueue_schedule_def)
  have "slab_of (strip k) = slab_of k" for k :: "'a psk_scheme" by (simp add: slab_of_def strip_def)
  then have "slab_of k4 = slab_of k3" using k4(3) by metis
  then have "slab_of k4 = s'" by (simp add: k3_def)
  then show ?thesis
    using run k4(2) k3w strip_fields [OF k4(3)] k3 by (simp add: task_of_def IS_INUSE_def has_flag_def)
qed

section \<open>All tasks\<close>

text \<open>
  After the start of the kernel's tasks from empty ready queues, the idle task and the parallel
  task are in the queue of the lowest priority, in this order, and the system task is alone in that of
  the highest: each is in use and runnable, to run from its entry point on the stack that the allocator
  gave it.
\<close>

theorem init_kernel_tasks_ready:
  assumes "rq_inv k (\<lambda>_. [])" "kstack 50 (slab_of k) s1 p1" "kstack 50 s1 s2 p2" "kstack KERNEL_STACK_SIZE s2 s3 p3"
  shows "\<exists>k'. init_kernel_tasks text_len (boot_table idle par winix) k = Some k' \<and>
    rq_inv k' ((\<lambda>_. [])(MIN_PRIORITY := [IDLE, PARALLEL], MAX_PRIORITY := [SYSTEM])) \<and> slab_of k' = s3 \<and>
    task_of k' IDLE = (True, STATE_RUNNABLE, snd idle, p1, p1 + 50 - 1) \<and> task_of k' PARALLEL = (True, STATE_RUNNABLE, snd par, p2, p2 + 50 - 1) \<and>
    task_of k' SYSTEM = (True, STATE_RUNNABLE, snd winix, p3, p3 + KERNEL_STACK_SIZE - 1)"
proof -
  obtain t1 t2 t3 where tab: "boot_table idle par winix = [t1, t2, t3]"
    and t: "bi_proc_nr t1 = IDLE" "bi_proc_nr t2 = PARALLEL" "bi_proc_nr t3 = SYSTEM" "bi_priority t1 = MIN_PRIORITY" "bi_priority t2 = MIN_PRIORITY"
      "bi_priority t3 = MAX_PRIORITY" "bi_entry t1 = snd idle" "bi_entry t2 = snd par" "bi_entry t3 = snd winix"
      "bi_stack_size t1 = 50" "bi_stack_size t2 = 50" "bi_stack_size t3 = KERNEL_STACK_SIZE"
    by (simp add: boot_table_def)
  define q1 :: "int \<Rightarrow> int list" where "q1 = (\<lambda>_. [])(MIN_PRIORITY := [IDLE])"
  define q2 where "q2 = q1(MIN_PRIORITY := [IDLE, PARALLEL])"
  have n: "\<not> queued (\<lambda>_. []) IDLE" "\<not> queued q1 PARALLEL" "\<not> queued q2 SYSTEM" by (simp_all add: queued_def q1_def q2_def)
  have pr: "IS_PRIORITY_OK MIN_PRIORITY" "IS_PRIORITY_OK MAX_PRIORITY" by (simp_all add: IS_PRIORITY_OK_def)
  note step = start_kernel_proc_run [where text_len = text_len]
  have "\<exists>k1. start_kernel_proc text_len t1 k = Some (k1, IDLE) \<and> rq_inv k1 q1 \<and> slab_of k1 = s1 \<and>
      task_of k1 IDLE = (True, STATE_RUNNABLE, snd idle, p1, p1 + 50 - 1) \<and> (\<forall>q. q \<noteq> IDLE \<longrightarrow> task_of k1 q = task_of k q)"
    using step [OF assms(1) n(1) t(1) [symmetric] t(4) [symmetric] pr(1) assms(2) [folded t(10)]] by (simp add: t q1_def)
  then obtain k1 where k1: "start_kernel_proc text_len t1 k = Some (k1, IDLE)" "rq_inv k1 q1" "slab_of k1 = s1"
      "task_of k1 IDLE = (True, STATE_RUNNABLE, snd idle, p1, p1 + 50 - 1)" by blast
  have "\<exists>k2. start_kernel_proc text_len t2 k1 = Some (k2, PARALLEL) \<and> rq_inv k2 q2 \<and> slab_of k2 = s2 \<and>
      task_of k2 PARALLEL = (True, STATE_RUNNABLE, snd par, p2, p2 + 50 - 1) \<and> (\<forall>q. q \<noteq> PARALLEL \<longrightarrow> task_of k2 q = task_of k1 q)"
    using step [OF k1(2) n(2) t(2) [symmetric] t(5) [symmetric] pr(1) assms(3) [folded k1(3) t(11)]] by (simp add: t q1_def q2_def)
  then obtain k2 where k2: "start_kernel_proc text_len t2 k1 = Some (k2, PARALLEL)" "rq_inv k2 q2" "slab_of k2 = s2"
      "task_of k2 PARALLEL = (True, STATE_RUNNABLE, snd par, p2, p2 + 50 - 1)" "task_of k2 IDLE = task_of k1 IDLE" by force
  have "\<exists>k3. start_kernel_proc text_len t3 k2 = Some (k3, SYSTEM) \<and> rq_inv k3 (q2(MAX_PRIORITY := [SYSTEM])) \<and> slab_of k3 = s3 \<and>
      task_of k3 SYSTEM = (True, STATE_RUNNABLE, snd winix, p3, p3 + KERNEL_STACK_SIZE - 1) \<and> (\<forall>q. q \<noteq> SYSTEM \<longrightarrow> task_of k3 q = task_of k2 q)"
    using step [OF k2(2) n(3) t(3) [symmetric] t(6) [symmetric] pr(2) assms(4) [folded k2(3) t(12)]] by (simp add: t q1_def q2_def)
  then obtain k3 where k3: "start_kernel_proc text_len t3 k2 = Some (k3, SYSTEM)" "rq_inv k3 (q2(MAX_PRIORITY := [SYSTEM]))" "slab_of k3 = s3"
      "task_of k3 SYSTEM = (True, STATE_RUNNABLE, snd winix, p3, p3 + KERNEL_STACK_SIZE - 1)"
      "task_of k3 IDLE = task_of k2 IDLE" "task_of k3 PARALLEL = task_of k2 PARALLEL" by force
  have "init_kernel_tasks text_len (boot_table idle par winix) k = Some k3" by (simp add: init_kernel_tasks_def tab k1(1) k2(1) k3(1))
  then show ?thesis using k1(4) k2(4,5) k3 by (auto simp: q1_def q2_def)
qed

theorem init_kernel_tasks_ready_witness:
  "\<exists>(k :: psk) k' p1 p2 p3. init_kernel_tasks 7000 (boot_table (100, 2000) (116, 3000) (132, 4000)) k = Some k' \<and>
    task_of k' IDLE = (True, STATE_RUNNABLE, 2000, p1, p1 + 50 - 1) \<and> task_of k' SYSTEM = (True, STATE_RUNNABLE, 4000, p3, p3 + KERNEL_STACK_SIZE - 1)"
proof -
  fix k0 :: psk
  define k where "k = (set_slab demo_slab k0)\<lparr>procs := \<lambda>_. proc_zero, ready_q := \<lambda>_. \<lparr>q_head = None, q_tail = None\<rparr>\<rparr>"
  have "pnext k q = None" for q by (simp add: pnext_def k_def proc_zero_def)
  then have rq: "rq_inv k (\<lambda>_. [])" by (simp add: rq_inv_def queue_ok_def k_def)
  have s: "slab_of k = demo_slab" by (simp add: k_def slab_of_def set_slab_def)
  have "Option.bind (kmalloc 50 1 NULL demo_slab) (\<lambda>(s, p). Option.bind (kmalloc 50 1 NULL s) (\<lambda>(s, q).
      map_option (\<lambda>(m, r). r \<noteq> 0) (get_free_pages (smm s) 1024 GFP_HIGH))) = Some True" by code_simp
  then obtain s1 p1 s2 p2 m p3 where "kmalloc 50 1 NULL demo_slab = Some (s1, p1)" "kmalloc 50 1 NULL s1 = Some (s2, p2)"
    "get_free_pages (smm s2) 1024 GFP_HIGH = Some (m, p3)" by (auto simp: bind_eq_Some_conv)
  moreover have modulo: "50 smod (1024 :: int) \<noteq> 0" "1024 smod (1024 :: int) = 0" by code_simp+
  ultimately have "kstack 50 (slab_of k) s1 p1" "kstack 50 s1 s2 p2" "kstack KERNEL_STACK_SIZE s2 (s2\<lparr>smm := m\<rparr>) p3"
    unfolding s by (simp_all add: kstack_def modulo)
  from init_kernel_tasks_ready [OF rq this, of 7000 "(100, 2000)" "(116, 3000)" "(132, 4000)"] show ?thesis
    by - (rule exI [of _ k], auto)
qed

end
