(* ===== verification/UserHeap.thy ===== *)
theory UserHeap
  imports Fork
begin

text \<open>
  The heap of user programs: \<^verbatim>\<open>lib/stdlib/stdlib.c\<close>, \<^verbatim>\<open>realloc.c\<close> and \<^verbatim>\<open>calloc.c\<close> over
  \<^verbatim>\<open>lib/syscall/sbrk.c\<close>. Blocks lie one after the other below the break, each a header of five words and its data,
  all in the program's memory \<open>umem\<close>: the operations read and write the words of the headers there, and
  \<open>ublocks\<close> is the view of those words as a structure. Page 0 of a program is protected when it is
  loaded (\<^verbatim>\<open>do_execve.c:264\<close>), so reading or writing a header there is a fault. The system call
  is the argument \<open>call\<close> on the rest of the machine \<open>ukern\<close>; what the library relies on is the
  locale \<open>heap_break\<close>, interpreted on the kernel's own \<^verbatim>\<open>sys_sbrk\<close>.
\<close>

abbreviation (input) BLOCK_SIZE :: int where "BLOCK_SIZE \<equiv> 5"

section \<open>The operations\<close>

text \<open>The structure at the start of a block, and where its fields lie.\<close>

record s_block =
  u_size :: int
  u_next :: addr
  u_prev :: addr
  u_free :: bool
  u_ptr :: addr

abbreviation (input) AT_SIZE :: int where "AT_SIZE \<equiv> 0"
abbreviation (input) AT_NEXT :: int where "AT_NEXT \<equiv> 1"
abbreviation (input) AT_PREV :: int where "AT_PREV \<equiv> 2"
abbreviation (input) AT_FREE :: int where "AT_FREE \<equiv> 3"
abbreviation (input) AT_PTR :: int where "AT_PTR \<equiv> 4"

record 'k uheap =
  ubase :: addr
  ubrk :: addr
  umem :: memory
  ukern :: 'k

type_synonym 'k sbrk_call = "int \<Rightarrow> 'k \<Rightarrow> ('k \<times> int) option"

text \<open>A word of the program: addresses wrap, and those of page 0 are a fault.\<close>

definition uload :: "addr \<Rightarrow> 'k uheap \<Rightarrow> int option" where
  "uload a h = (if ptr_add a 0 < 1024 then None else Some (umem h (ptr_add a 0)))"

definition ustore :: "addr \<Rightarrow> int \<Rightarrow> 'k uheap \<Rightarrow> 'k uheap option" where
  "ustore a v h = (if ptr_add a 0 < 1024 then None else Some (h\<lparr>umem := (umem h)(ptr_add a 0 := v)\<rparr>))"

definition udata :: "addr \<Rightarrow> addr" where
  "udata b = ptr_add b BLOCK_SIZE"

definition align4 :: "int \<Rightarrow> int" where
  "align4 x = ((x - 1) mod 2 ^ 32 div 4 * 4 + 4) mod 2 ^ 32"

definition sbrk :: "'k sbrk_call \<Rightarrow> int \<Rightarrow> 'k uheap \<Rightarrow> ('k uheap \<times> addr) option" where
  "sbrk call incr h =
     (if ubrk h \<noteq> NULL \<and> incr = 0 then Some (h, ubrk h)
      else do { (k, r) \<leftarrow> call incr (ukern h);
                let v = r mod 2 ^ 32;
                Some (h\<lparr>ukern := k, ubrk := v\<rparr>, v) })"

partial_function (option) find_sblock :: "'k uheap \<Rightarrow> addr \<Rightarrow> addr \<Rightarrow> int \<Rightarrow> (addr \<times> addr) option" where
  "find_sblock h lst b sz =
     (if b = NULL then Some (lst, b)
      else do { fr \<leftarrow> uload (b + AT_FREE) h;
                fits \<leftarrow> (if fr \<noteq> 0 then do { n \<leftarrow> uload (b + AT_SIZE) h; Some (n \<ge> sz) } else Some False);
                if fits then Some (lst, b)
                else do { nxt \<leftarrow> uload (b + AT_NEXT) h; find_sblock h b nxt sz } })"

definition split_sblock :: "addr \<Rightarrow> int \<Rightarrow> 'k uheap \<Rightarrow> 'k uheap option" where
  "split_sblock b s h =
     do { let new = ptr_add (udata b) s;
          n \<leftarrow> uload (b + AT_SIZE) h;
          h \<leftarrow> ustore (new + AT_SIZE) ((n - s - BLOCK_SIZE) mod 2 ^ 32) h;
          nxt \<leftarrow> uload (b + AT_NEXT) h;
          h \<leftarrow> ustore (new + AT_NEXT) nxt h;
          h \<leftarrow> ustore (new + AT_PREV) b h;
          h \<leftarrow> ustore (new + AT_FREE) 1 h;
          h \<leftarrow> ustore (new + AT_PTR) (udata new) h;
          h \<leftarrow> ustore (b + AT_SIZE) s h;
          h \<leftarrow> ustore (b + AT_NEXT) new h;
          nxt \<leftarrow> uload (new + AT_NEXT) h;
          if nxt \<noteq> NULL then ustore (nxt + AT_PREV) new h else Some h }"

text \<open>The header of a new block at the end.\<close>

definition link_sblock :: "addr \<Rightarrow> addr \<Rightarrow> int \<Rightarrow> 'k uheap \<Rightarrow> 'k uheap option" where
  "link_sblock b lst s h =
     do { h \<leftarrow> ustore (b + AT_SIZE) s h;
          h \<leftarrow> ustore (b + AT_NEXT) NULL h;
          h \<leftarrow> ustore (b + AT_PREV) lst h;
          h \<leftarrow> ustore (b + AT_PTR) (udata b) h;
          h \<leftarrow> (if lst \<noteq> NULL then ustore (lst + AT_NEXT) b h else Some h);
          ustore (b + AT_FREE) 0 h }"

definition extend_sblock_heap :: "'k sbrk_call \<Rightarrow> addr \<Rightarrow> int \<Rightarrow> 'k uheap \<Rightarrow> ('k uheap \<times> addr) option" where
  "extend_sblock_heap call lst s h =
     do { (h, b) \<leftarrow> sbrk call 0 h;
          (h, sb) \<leftarrow> sbrk call (to_int (BLOCK_SIZE + s)) h;
          if to_int sb < 0 then Some (h, NULL)
          else do { h \<leftarrow> link_sblock b lst s h; Some (h, b) } }"

text \<open>\<^verbatim>\<open>if (b->size - s >= BLOCK_SIZE + 4) split_sblock(b, s)\<close>, in \<^verbatim>\<open>malloc\<close> and \<^verbatim>\<open>realloc\<close>.\<close>

definition trim_sblock :: "addr \<Rightarrow> int \<Rightarrow> 'k uheap \<Rightarrow> 'k uheap option" where
  "trim_sblock b s h =
     do { n \<leftarrow> uload (b + AT_SIZE) h;
          if (n - s) mod 2 ^ 32 \<ge> BLOCK_SIZE + 4 then split_sblock b s h else Some h }"

definition malloc :: "'k sbrk_call \<Rightarrow> int \<Rightarrow> 'k uheap \<Rightarrow> ('k uheap \<times> addr) option" where
  "malloc call sz h =
     (let s = align4 sz in
      if ubase h \<noteq> NULL
      then do { (lst, b) \<leftarrow> find_sblock h (ubase h) (ubase h) s;
                if b \<noteq> NULL
                then do { h \<leftarrow> trim_sblock b s h;
                          h \<leftarrow> ustore (b + AT_FREE) 0 h;
                          Some (h, udata b) }
                else do { (h, b) \<leftarrow> extend_sblock_heap call lst s h;
                          Some (h, if b = NULL then NULL else udata b) } }
      else do { (h, b) \<leftarrow> extend_sblock_heap call NULL s h;
                Some (if b = NULL then (h, NULL) else (h\<lparr>ubase := b\<rparr>, udata b)) })"

text \<open>\<^verbatim>\<open>b && b->free\<close>, and whether \<open>nxt\<close> is free and starts where \<open>b\<close> ends.\<close>

definition sblock_free :: "addr \<Rightarrow> 'k uheap \<Rightarrow> bool option" where
  "sblock_free b h = (if b = NULL then Some False else do { fr \<leftarrow> uload (b + AT_FREE) h; Some (fr \<noteq> 0) })"

definition sblock_joins :: "addr \<Rightarrow> addr \<Rightarrow> 'k uheap \<Rightarrow> bool option" where
  "sblock_joins b nxt h =
     do { fr \<leftarrow> sblock_free nxt h;
          if fr then do { p \<leftarrow> uload (b + AT_PTR) h; n \<leftarrow> uload (b + AT_SIZE) h; Some ((p + n) mod 2 ^ 32 = nxt) }
          else Some False }"

definition fusion_sblock :: "addr \<Rightarrow> 'k uheap \<Rightarrow> ('k uheap \<times> addr) option" where
  "fusion_sblock b h =
     do { nxt \<leftarrow> uload (b + AT_NEXT) h;
          joins \<leftarrow> sblock_joins b nxt h;
          if joins
          then do { n \<leftarrow> uload (b + AT_SIZE) h;
                    l \<leftarrow> uload (nxt + AT_SIZE) h;
                    h \<leftarrow> ustore (b + AT_SIZE) ((n + (BLOCK_SIZE + l)) mod 2 ^ 32) h;
                    nn \<leftarrow> uload (nxt + AT_NEXT) h;
                    h \<leftarrow> ustore (b + AT_NEXT) nn h;
                    h \<leftarrow> (if nn \<noteq> NULL then ustore (nn + AT_PREV) b h else Some h);
                    Some (h, b) }
          else Some (h, b) }"

definition get_sblock :: "addr \<Rightarrow> addr" where
  "get_sblock p = p - BLOCK_SIZE"

definition sblock_valid_addr :: "'k sbrk_call \<Rightarrow> addr \<Rightarrow> 'k uheap \<Rightarrow> ('k uheap \<times> bool) option" where
  "sblock_valid_addr call p h =
     (if ubase h \<noteq> NULL \<and> p > ubase h
      then do { (h, e) \<leftarrow> sbrk call 0 h;
                if p < e then do { q \<leftarrow> uload (get_sblock p + AT_PTR) h; Some (h, p = q) } else Some (h, False) }
      else Some (h, False))"

text \<open>The fusions of \<^verbatim>\<open>free\<close>, with the block before and with the one after.\<close>

definition free_fuse :: "addr \<Rightarrow> 'k uheap \<Rightarrow> 'k uheap option" where
  "free_fuse b h =
     do { prv \<leftarrow> uload (b + AT_PREV) h;
          fr \<leftarrow> sblock_free prv h;
          (h, b) \<leftarrow> (if fr then fusion_sblock prv h else Some (h, b));
          nxt \<leftarrow> uload (b + AT_NEXT) h;
          fr \<leftarrow> sblock_free nxt h;
          if fr then do { (h, _) \<leftarrow> fusion_sblock b h; Some h } else Some h }"

definition free :: "'k sbrk_call \<Rightarrow> addr \<Rightarrow> 'k uheap \<Rightarrow> 'k uheap option" where
  "free call p h =
     do { (h, ok) \<leftarrow> sblock_valid_addr call p h;
          if ok then do { h \<leftarrow> ustore (get_sblock p + AT_FREE) 1 h; free_fuse (get_sblock p) h } else Some h }"

text \<open>\<^verbatim>\<open>for (i = 0; i * 4 < src->size && i * 4 < dst->size; i++)\<close>: the loop reads both sizes again in every round.\<close>

partial_function (option) copy_sblock_loop :: "addr \<Rightarrow> addr \<Rightarrow> addr \<Rightarrow> addr \<Rightarrow> int \<Rightarrow> 'k uheap \<Rightarrow> 'k uheap option" where
  "copy_sblock_loop src dst sdata ddata i h =
     do { n \<leftarrow> uload (src + AT_SIZE) h;
          l \<leftarrow> (if i * 4 < n then uload (dst + AT_SIZE) h else Some 0);
          if i * 4 < n \<and> i * 4 < l
          then do { w \<leftarrow> uload (sdata + i) h;
                    h \<leftarrow> ustore (ddata + i) w h;
                    copy_sblock_loop src dst sdata ddata (i + 1) h }
          else Some h }"

definition copy_sblock :: "addr \<Rightarrow> addr \<Rightarrow> 'k uheap \<Rightarrow> 'k uheap option" where
  "copy_sblock src dst h =
     do { sdata \<leftarrow> uload (src + AT_PTR) h;
          ddata \<leftarrow> uload (dst + AT_PTR) h;
          copy_sblock_loop src dst sdata ddata 0 h }"

definition realloc :: "'k sbrk_call \<Rightarrow> addr \<Rightarrow> int \<Rightarrow> 'k uheap \<Rightarrow> ('k uheap \<times> addr) option" where
  "realloc call p sz h =
     (if p = NULL then malloc call sz h
      else do {
        (h, ok) \<leftarrow> sblock_valid_addr call p h;
        if \<not> ok then Some (h, NULL)
        else do {
          let s = align4 sz;
          let b = get_sblock p;
          n \<leftarrow> uload (b + AT_SIZE) h;
          if n \<ge> s then do { h \<leftarrow> trim_sblock b s h; Some (h, p) }
          else do {
            nxt \<leftarrow> uload (b + AT_NEXT) h;
            joins \<leftarrow> sblock_joins b nxt h;
            enough \<leftarrow> (if joins then do { l \<leftarrow> uload (nxt + AT_SIZE) h; Some ((n + BLOCK_SIZE + l) mod 2 ^ 32 \<ge> s) } else Some False);
            if enough then do { (h, _) \<leftarrow> fusion_sblock b h; h \<leftarrow> trim_sblock b s h; Some (h, p) }
            else do { (h, newp) \<leftarrow> malloc call s h;
                      if newp = NULL then Some (h, NULL)
                      else do { h \<leftarrow> copy_sblock b (get_sblock newp) h;
                                h \<leftarrow> free call p h;
                                Some (h, newp) } } } } })"

text \<open>\<^verbatim>\<open>for (i = 0; i < s4; i++) new[i] = 0\<close>.\<close>

definition calloc :: "'k sbrk_call \<Rightarrow> int \<Rightarrow> int \<Rightarrow> 'k uheap \<Rightarrow> ('k uheap \<times> addr) option" where
  "calloc call number sz h =
     do { let s4 = (number * sz) mod 2 ^ 32;
          (h, new) \<leftarrow> malloc call s4 h;
          Some (if new \<noteq> NULL then h\<lparr>umem := memset_loop (nat s4) new 0 (umem h)\<rparr> else h, new) }"

section \<open>Headers in memory\<close>

definition ublocks :: "'k uheap \<Rightarrow> addr \<Rightarrow> s_block" where
  "ublocks h b = \<lparr>u_size = umem h (b + AT_SIZE), u_next = umem h (b + AT_NEXT), u_prev = umem h (b + AT_PREV),
     u_free = (umem h (b + AT_FREE) \<noteq> 0), u_ptr = umem h (b + AT_PTR)\<rparr>"

text \<open>The words of the headers of some blocks.\<close>

definition headers :: "addr list \<Rightarrow> addr set" where
  "headers bs = (\<Union>b\<in>set bs. {b..<b + BLOCK_SIZE})"

lemma uload_run: "1024 \<le> a \<Longrightarrow> a < 2 ^ 32 \<Longrightarrow> uload a h = Some (umem h a)"
  and ustore_run: "1024 \<le> a \<Longrightarrow> a < 2 ^ 32 \<Longrightarrow> ustore a v h = Some (h\<lparr>umem := (umem h)(a := v)\<rparr>)"
  by (simp_all add: uload_def ustore_def ptr_add_def)

lemma ublocks_sel:
  "u_size (ublocks h b) = umem h b" "u_next (ublocks h b) = umem h (b + 1)" "u_prev (ublocks h b) = umem h (b + 2)"
  "u_free (ublocks h b) \<longleftrightarrow> umem h (b + 3) \<noteq> 0" "u_ptr (ublocks h b) = umem h (b + 4)"
  by (simp_all add: ublocks_def)

lemma ublocks_cong: "(\<And>a. b \<le> a \<Longrightarrow> a < b + BLOCK_SIZE \<Longrightarrow> umem h' a = umem h a) \<Longrightarrow> ublocks h' b = ublocks h b"
  by (simp add: ublocks_def)

lemma ublocks_fields [simp]: "ublocks (h\<lparr>ubase := x\<rparr>) = ublocks h" "ublocks (h\<lparr>ubrk := x\<rparr>) = ublocks h" "ublocks (h\<lparr>ukern := k\<rparr>) = ublocks h"
  by (simp_all add: ublocks_def fun_eq_iff)

lemma headers_simps [simp]: "headers [] = {}" "headers (b # bs) = {b..<b + BLOCK_SIZE} \<union> headers bs" "headers (xs @ ys) = headers xs \<union> headers ys"
  by (auto simp: headers_def)

lemma headers_mono: "set xs \<subseteq> set ys \<Longrightarrow> headers xs \<subseteq> headers ys"
  by (auto simp: headers_def)

section \<open>The sequence of blocks\<close>

text \<open>
  \<open>hseg m lo prv p xs q\<close>: from \<open>p\<close> on the blocks \<open>xs\<close> follow each other through their links up to
  \<open>q\<close>, at increasing addresses from \<open>lo\<close> on, each past the end of the one before it.
\<close>

primrec hseg :: "(addr \<Rightarrow> s_block) \<Rightarrow> int \<Rightarrow> addr \<Rightarrow> addr \<Rightarrow> addr list \<Rightarrow> addr \<Rightarrow> bool" where
  "hseg m lo prv p [] q \<longleftrightarrow> p = q"
| "hseg m lo prv p (x # xs) q \<longleftrightarrow> p = x \<and> lo \<le> x \<and> 0 < x \<and> u_prev (m x) = prv \<and> u_ptr (m x) = x + BLOCK_SIZE \<and> 0 \<le> u_size (m x) \<and>
     hseg m (x + BLOCK_SIZE + u_size (m x)) x (u_next (m x)) xs q"

definition uend :: "(addr \<Rightarrow> s_block) \<Rightarrow> int \<Rightarrow> addr list \<Rightarrow> int" where
  "uend m lo xs = (if xs = [] then lo else last xs + BLOCK_SIZE + u_size (m (last xs)))"

definition ulast :: "addr \<Rightarrow> addr list \<Rightarrow> addr" where
  "ulast prv xs = (if xs = [] then prv else last xs)"

lemma uend_simps [simp]: "uend m lo [] = lo" "uend m lo (x # xs) = uend m (x + BLOCK_SIZE + u_size (m x)) xs"
    "uend m lo (xs @ [y]) = y + BLOCK_SIZE + u_size (m y)"
  and ulast_simps [simp]: "ulast p [] = p" "ulast p (x # xs) = ulast x xs" "ulast p (xs @ [y]) = y"
  by (simp_all add: uend_def ulast_def)

lemma uend_append: "uend m lo (xs @ ys) = uend m (uend m lo xs) ys"
  by (simp add: uend_def)

lemma uend_cong: "(\<And>x. x \<in> set xs \<Longrightarrow> u_size (m' x) = u_size (m x)) \<Longrightarrow> uend m' lo xs = uend m lo xs"
  by (simp add: uend_def)

lemma hseg_append: "hseg m lo prv p (xs @ ys) q \<longleftrightarrow> (\<exists>r. hseg m lo prv p xs r \<and> hseg m (uend m lo xs) (ulast prv xs) r ys q)"
  by (induction xs arbitrary: lo prv p) auto

lemma hseg_cong: "(\<And>x. x \<in> set xs \<Longrightarrow> m' x = m x) \<Longrightarrow> hseg m' lo prv p xs q = hseg m lo prv p xs q"
  by (induction xs arbitrary: lo prv p) auto

text \<open>The sequence does not depend on which blocks are free.\<close>

definition same_links :: "s_block \<Rightarrow> s_block \<Rightarrow> bool" where
  "same_links r r' \<longleftrightarrow> u_size r' = u_size r \<and> u_next r' = u_next r \<and> u_prev r' = u_prev r \<and> u_ptr r' = u_ptr r"

lemma hseg_links: "(\<And>x. x \<in> set xs \<Longrightarrow> same_links (m x) (m' x)) \<Longrightarrow> hseg m' lo prv p xs q = hseg m lo prv p xs q"
  by (induction xs arbitrary: lo prv p) (auto simp: same_links_def)

lemma uend_links: "(\<And>x. x \<in> set xs \<Longrightarrow> same_links (m x) (m' x)) \<Longrightarrow> uend m' lo xs = uend m lo xs"
  by (rule uend_cong) (simp add: same_links_def)

lemma hseg_bounds:
  assumes "hseg m lo prv p xs q"
  shows "lo \<le> uend m lo xs" "x \<in> set xs \<Longrightarrow> lo \<le> x \<and> 0 < x \<and> 0 \<le> u_size (m x) \<and> u_ptr (m x) = x + BLOCK_SIZE \<and> x + BLOCK_SIZE + u_size (m x) \<le> uend m lo xs"
  using assms
proof (induction xs arbitrary: lo prv p)
  case (Cons y ys)
  { case 1 then show ?case using Cons.IH(1) [of "y + BLOCK_SIZE + u_size (m y)"] by fastforce }
  { case 2 then show ?case using Cons.IH [of "y + BLOCK_SIZE + u_size (m y)"] by fastforce }
qed auto

text \<open>Blocks at different places of the sequence do not overlap.\<close>

lemma hseg_apart:
  assumes "hseg m lo prv p xs q" "x \<in> set xs" "y \<in> set xs" "x < y"
  shows "x + BLOCK_SIZE + u_size (m x) \<le> y"
  using assms
proof (induction xs arbitrary: lo prv p)
  case (Cons z zs)
  then have z: "hseg m (z + BLOCK_SIZE + u_size (m z)) z (u_next (m z)) zs q" "0 \<le> u_size (m z)" by auto
  note ge = hseg_bounds(2) [OF z(1)]
  consider "x = z" "y \<in> set zs" | "y = z" "x \<in> set zs" | "x \<in> set zs" "y \<in> set zs" using Cons.prems(2-4) by auto
  then show ?case
  proof cases
    case 2
    then show ?thesis using ge [of x] z(2) Cons.prems(4) by linarith
  qed (use ge [of y] Cons.IH [OF z(1)] Cons.prems(4) in auto)
qed simp

lemma hseg_distinct: "hseg m lo prv p xs q \<Longrightarrow> distinct xs"
proof (induction xs arbitrary: lo prv p)
  case (Cons z zs)
  then have z: "hseg m (z + BLOCK_SIZE + u_size (m z)) z (u_next (m z)) zs q" "0 \<le> u_size (m z)" by auto
  have "z \<notin> set zs" using hseg_bounds(2) [OF z(1), of z] z(2) by linarith
  then show ?case using Cons.IH [OF z(1)] by simp
qed simp

text \<open>Links of the first block and of the last may be changed.\<close>

lemma hseg_set_prev:
  assumes "hseg m lo prv p xs NULL"
  shows "hseg (if p \<noteq> NULL then m(p := (m p)\<lparr>u_prev := prv'\<rparr>) else m) lo prv' p xs NULL"
proof (cases xs)
  case (Cons y ys)
  then have "y \<notin> set ys" using hseg_distinct [OF assms] by simp
  then have "hseg (m(y := (m y)\<lparr>u_prev := prv'\<rparr>)) l y n ys NULL = hseg m l y n ys NULL" for l n by (intro hseg_cong) auto
  then show ?thesis using assms Cons by simp
qed (use assms in auto)

lemma hseg_set_next:
  assumes "hseg m lo prv p (xs @ [y]) q"
  shows "hseg (m(y := (m y)\<lparr>u_next := q'\<rparr>)) lo prv p (xs @ [y]) q'"
proof -
  let ?m = "m(y := (m y)\<lparr>u_next := q'\<rparr>)"
  have "y \<notin> set xs" using hseg_distinct [OF assms] by simp
  then have "hseg ?m lo prv p xs r = hseg m lo prv p xs r" "uend ?m lo xs = uend m lo xs" for r by (intro hseg_cong uend_cong; auto)+
  then show ?thesis using assms by (simp add: hseg_append)
qed

lemma hseg_first: "hseg m lo prv p xs NULL \<Longrightarrow> p \<noteq> NULL \<Longrightarrow> p \<in> set xs"
  by (cases xs) auto

lemma hseg_lo: "hseg m lo prv p xs q \<Longrightarrow> lo' \<le> lo \<Longrightarrow> hseg m lo' prv p xs q"
  by (cases xs) auto

text \<open>What changes of the other blocks: at most their links.\<close>

definition same_block :: "s_block \<Rightarrow> s_block \<Rightarrow> bool" where
  "same_block r r' \<longleftrightarrow> u_size r' = u_size r \<and> u_free r' = u_free r \<and> u_ptr r' = u_ptr r"

lemma same_block_refl [simp]: "same_block r r" by (simp add: same_block_def)

section \<open>Splitting and fusing\<close>

text \<open>A block of the sequence becomes two: what that takes of the headers, wherever they are kept.\<close>

lemma hseg_split:
  assumes inv: "hseg m lo NULL p (as @ x # cs) NULL" and s: "0 \<le> s" "s + BLOCK_SIZE \<le> u_size (m x)" and new: "new = x + BLOCK_SIZE + s"
    and x: "m' x = (m x)\<lparr>u_size := s, u_next := new\<rparr>"
    and n: "m' new = \<lparr>u_size = u_size (m x) - s - BLOCK_SIZE, u_next = u_next (m x), u_prev = x, u_free = True, u_ptr = new + BLOCK_SIZE\<rparr>"
    and others: "\<And>b. b \<in> set (as @ cs) \<Longrightarrow> m' b = (if b = u_next (m x) then (m b)\<lparr>u_prev := new\<rparr> else m b)"
  shows "hseg m' lo NULL p (as @ x # new # cs) NULL" "uend m' lo (as @ x # new # cs) = uend m lo (as @ x # cs)"
proof -
  let ?e = "x + BLOCK_SIZE + u_size (m x)" let ?n = "u_next (m x)"
  have A: "hseg m lo NULL p as x" "uend m lo as \<le> x" "0 < x" "u_prev (m x) = ulast NULL as" "u_ptr (m x) = x + BLOCK_SIZE" "0 \<le> u_size (m x)"
    and C: "hseg m ?e x ?n cs NULL" using inv by (auto simp: hseg_append)
  have as: "b < x" if "b \<in> set as" for b using hseg_bounds(2) [OF A(1) that] A(2) by linarith
  have cs: "new < b" "0 < b" if "b \<in> set cs" for b using hseg_bounds(2) [OF C that] s new by auto
  have nx: "?n = NULL \<or> new < ?n" using cs hseg_first [OF C] by blast
  have "b \<noteq> ?n" if "b \<in> set as" for b using as [OF that] hseg_bounds(2) [OF A(1) that] nx s new by auto
  then have as_eq: "m' b = m b" if "b \<in> set as" for b using others [of b] that by simp
  have "hseg m' ?e new ?n cs NULL = hseg (if ?n \<noteq> NULL then m(?n := (m ?n)\<lparr>u_prev := new\<rparr>) else m) ?e new ?n cs NULL"
    using others cs by (intro hseg_cong) fastforce
  then have tail: "hseg m' ?e new ?n cs NULL" using hseg_set_prev [OF C, of new] by simp
  have eq: "new + BLOCK_SIZE + u_size (m' new) = ?e" using n new by simp
  have "hseg m' lo NULL p as x" "uend m' lo as = uend m lo as" using A(1) as_eq hseg_cong [of as m' m] uend_cong [of as m' m] by simp_all
  moreover have "x + BLOCK_SIZE + s \<le> new" "0 < new" "0 \<le> u_size (m' new)" "u_prev (m' new) = x" "u_ptr (m' new) = new + BLOCK_SIZE"
    using A(3) s new n by simp_all
  moreover have "hseg m' (new + BLOCK_SIZE + u_size (m' new)) new (u_next (m' new)) cs NULL" using tail n unfolding eq by simp
  ultimately show "hseg m' lo NULL p (as @ x # new # cs) NULL" using A s(1) x by (simp add: hseg_append)
  have "u_size (m' b) = u_size (m b)" if "b \<in> set cs" for b using others [of b] that by simp
  then have "uend m' ?e cs = uend m ?e cs" by (rule uend_cong)
  then show "uend m' lo (as @ x # new # cs) = uend m lo (as @ x # cs)" unfolding uend_append uend_simps eq .
qed

text \<open>Two neighbours become one.\<close>

lemma hseg_fuse:
  assumes inv: "hseg m lo NULL p (as @ x # y # cs) NULL" and y: "x + BLOCK_SIZE + u_size (m x) = y"
    and x: "m' x = (m x)\<lparr>u_size := u_size (m x) + BLOCK_SIZE + u_size (m y), u_next := u_next (m y)\<rparr>"
    and others: "\<And>b. b \<in> set (as @ cs) \<Longrightarrow> m' b = (if b = u_next (m y) then (m b)\<lparr>u_prev := x\<rparr> else m b)"
  shows "hseg m' lo NULL p (as @ x # cs) NULL" "uend m' lo (as @ x # cs) = uend m lo (as @ x # y # cs)"
proof -
  let ?e = "y + BLOCK_SIZE + u_size (m y)" let ?n = "u_next (m y)"
  have A: "hseg m lo NULL p as x" "uend m lo as \<le> x" "0 < x" "u_prev (m x) = ulast NULL as" "u_ptr (m x) = x + BLOCK_SIZE" "0 \<le> u_size (m x)"
      "0 \<le> u_size (m y)"
    and C: "hseg m ?e y ?n cs NULL" using inv by (auto simp: hseg_append)
  have as: "b < x" if "b \<in> set as" for b using hseg_bounds(2) [OF A(1) that] A(2) by linarith
  have cs: "x < b" "0 < b" if "b \<in> set cs" for b using hseg_bounds(2) [OF C that] A y by auto
  have nx: "?n = NULL \<or> x < ?n" using cs hseg_first [OF C] by blast
  have "b \<noteq> ?n" if "b \<in> set as" for b using as [OF that] hseg_bounds(2) [OF A(1) that] nx by auto
  then have as_eq: "m' b = m b" if "b \<in> set as" for b using others [of b] that by simp
  have "hseg m' ?e x ?n cs NULL = hseg (if ?n \<noteq> NULL then m(?n := (m ?n)\<lparr>u_prev := x\<rparr>) else m) ?e x ?n cs NULL"
    using others cs by (intro hseg_cong) fastforce
  then have tail: "hseg m' ?e x ?n cs NULL" using hseg_set_prev [OF C, of x] by simp
  have eq: "x + BLOCK_SIZE + u_size (m' x) = ?e" using x y by simp
  have "hseg m' lo NULL p as x" "uend m' lo as = uend m lo as" using A(1) as_eq hseg_cong [of as m' m] uend_cong [of as m' m] by simp_all
  moreover have "hseg m' (x + BLOCK_SIZE + u_size (m' x)) x (u_next (m' x)) cs NULL" using tail x unfolding eq by simp
  moreover have "0 \<le> u_size (m' x)" "u_prev (m' x) = u_prev (m x)" "u_ptr (m' x) = u_ptr (m x)" using A x by simp_all
  ultimately show "hseg m' lo NULL p (as @ x # cs) NULL" using A by (simp add: hseg_append)
  have "u_size (m' b) = u_size (m b)" if "b \<in> set cs" for b using others [of b] that by simp
  then have "uend m' ?e cs = uend m ?e cs" by (rule uend_cong)
  then show "uend m' lo (as @ x # cs) = uend m lo (as @ x # y # cs)" unfolding uend_append uend_simps eq .
qed

text \<open>A block at the end.\<close>

lemma hseg_snoc:
  assumes inv: "hseg m lo NULL p bs NULL" and b: "uend m lo bs \<le> b" "0 < b" and s: "0 \<le> s"
    and nb: "m' b = \<lparr>u_size = s, u_next = NULL, u_prev = ulast NULL bs, u_free = False, u_ptr = b + BLOCK_SIZE\<rparr>"
    and others: "\<And>x. x \<in> set bs \<Longrightarrow> m' x = (if x = ulast NULL bs then (m x)\<lparr>u_next := b\<rparr> else m x)"
  shows "hseg m' lo NULL (if bs = [] then b else p) (bs @ [b]) NULL"
proof (cases bs rule: rev_cases)
  case Nil
  then show ?thesis using b s nb by simp
next
  case (snoc ys y)
  have "hseg m' lo NULL p (ys @ [y]) b = hseg (m(y := (m y)\<lparr>u_next := b\<rparr>)) lo NULL p (ys @ [y]) b"
    using others snoc by (intro hseg_cong) fastforce
  then have "hseg m' lo NULL p bs b" using hseg_set_next [of m lo NULL p ys y NULL b] inv snoc by simp
  moreover have "uend m' lo bs = uend m lo bs" using others by (intro uend_cong) simp
  ultimately show ?thesis using b s nb snoc unfolding hseg_append by auto
qed

section \<open>The operations on the sequence\<close>

text \<open>Nothing changes but words of \<open>W\<close>.\<close>

definition heap_frame :: "addr set \<Rightarrow> 'k uheap \<Rightarrow> 'k uheap \<Rightarrow> bool" where
  "heap_frame W h h' \<longleftrightarrow> ubase h' = ubase h \<and> ubrk h' = ubrk h \<and> ukern h' = ukern h \<and> (\<forall>a. a \<notin> W \<longrightarrow> umem h' a = umem h a)"

lemma heap_frame_refl [simp]: "heap_frame W h h"
  by (simp add: heap_frame_def)

lemma heap_frame_trans: "heap_frame V h h1 \<Longrightarrow> heap_frame W h1 h2 \<Longrightarrow> V \<union> W \<subseteq> X \<Longrightarrow> heap_frame X h h2"
  unfolding heap_frame_def by (metis UnCI subsetD)

lemma heap_frame_mono: "heap_frame V h h' \<Longrightarrow> V \<subseteq> W \<Longrightarrow> heap_frame W h h'"
  by (auto simp: heap_frame_def)

lemma heap_frame_block: "heap_frame W h h' \<Longrightarrow> {b..<b + BLOCK_SIZE} \<inter> W = {} \<Longrightarrow> ublocks h' b = ublocks h b"
  by (rule ublocks_cong) (auto simp: heap_frame_def disjoint_iff)

lemma hseg_gap:
  assumes "hseg m lo prv p xs q" "x \<in> set xs" "y \<in> set xs" "x \<noteq> y"
  shows "x + BLOCK_SIZE \<le> y \<or> y + BLOCK_SIZE \<le> x"
proof -
  have "0 \<le> u_size (m x)" "0 \<le> u_size (m y)" using hseg_bounds(2) [OF assms(1)] assms(2,3) by blast+
  then show ?thesis using hseg_apart [OF assms(1-3)] hseg_apart [OF assms(1,3,2)] assms(4) by linarith
qed

text \<open>The blocks of a sequence above page 0 and below the end of the address space.\<close>

lemma hseg_at:
  assumes "hseg (ublocks h) 1024 NULL p bs NULL" "uend (ublocks h) 1024 bs < 2 ^ 32" "x \<in> set bs"
  shows "1024 \<le> x" "x + BLOCK_SIZE + umem h x < 2 ^ 32" "0 \<le> umem h x" "umem h (x + 4) = x + BLOCK_SIZE" "{x..<x + BLOCK_SIZE} \<subseteq> headers bs"
    "umem h (x + 1) = NULL \<or> umem h (x + 1) \<in> set bs" "umem h (x + 2) = NULL \<or> umem h (x + 2) \<in> set bs"
proof -
  show "1024 \<le> x" "x + BLOCK_SIZE + umem h x < 2 ^ 32" "0 \<le> umem h x" "umem h (x + 4) = x + BLOCK_SIZE"
    using hseg_bounds(2) [OF assms(1,3)] assms(2) by (auto simp: ublocks_sel)
  show "{x..<x + BLOCK_SIZE} \<subseteq> headers bs" using assms(3) by (auto simp: headers_def)
  obtain as cs where bs: "bs = as @ x # cs" using assms(3) by (auto simp: in_set_conv_decomp)
  show "umem h (x + 1) = NULL \<or> umem h (x + 1) \<in> set bs" using assms(1) by (cases cs) (auto simp: bs hseg_append ublocks_sel)
  show "umem h (x + 2) = NULL \<or> umem h (x + 2) \<in> set bs" using assms(1) by (cases as rule: rev_cases) (auto simp: bs hseg_append ublocks_sel)
qed

lemma set_free_run:
  assumes seg: "hseg (ublocks h) 1024 NULL p bs NULL" "uend (ublocks h) 1024 bs < 2 ^ 32" and b: "b \<in> set bs"
  shows "\<exists>h'. ustore (b + AT_FREE) v h = Some h' \<and> heap_frame (headers bs) h h' \<and> hseg (ublocks h') 1024 NULL p bs NULL \<and>
    uend (ublocks h') 1024 bs = uend (ublocks h) 1024 bs \<and> (\<forall>c\<in>set bs. u_size (ublocks h' c) = u_size (ublocks h c)) \<and>
    (\<forall>c\<in>set bs. u_free (ublocks h' c) = (if c = b then v \<noteq> 0 else u_free (ublocks h c)))"
proof -
  note at = hseg_at [OF seg b]
  define h' where "h' = h\<lparr>umem := (umem h)(b + 3 := v)\<rparr>"
  have run: "ustore (b + AT_FREE) v h = Some h'" using at by (simp add: h'_def ustore_run)
  have fr: "heap_frame {b..<b + BLOCK_SIZE} h h'" by (simp add: h'_def heap_frame_def)
  have view: "ublocks h' c = (ublocks h c)\<lparr>u_free := if c = b then v \<noteq> 0 else u_free (ublocks h c)\<rparr>" if "c \<in> set bs" for c
  proof (cases "c = b")
    case False
    then have "ublocks h' c = ublocks h c" using hseg_gap [OF seg(1) that b] by (intro heap_frame_block [OF fr]) auto
    then show ?thesis using False by simp
  qed (simp add: h'_def ublocks_def)
  then have "same_links (ublocks h c) (ublocks h' c)" if "c \<in> set bs" for c using that by (simp add: same_links_def)
  then have "hseg (ublocks h') 1024 NULL p bs NULL" "uend (ublocks h') 1024 bs = uend (ublocks h) 1024 bs"
    using seg(1) hseg_links [of bs "ublocks h" "ublocks h'"] uend_links [of bs "ublocks h" "ublocks h'"] by simp_all
  then show ?thesis using run heap_frame_mono [OF fr at(5)] view by simp
qed

lemma split_sblock_run:
  assumes inv: "hseg (ublocks h) 1024 NULL p (as @ x # cs) NULL" and s: "0 \<le> s" "s + BLOCK_SIZE \<le> u_size (ublocks h x)"
    and lim: "uend (ublocks h) 1024 (as @ x # cs) < 2 ^ 32" and new: "new = x + BLOCK_SIZE + s"
  shows "\<exists>h'. split_sblock x s h = Some h' \<and> hseg (ublocks h') 1024 NULL p (as @ x # new # cs) NULL \<and>
    heap_frame (headers (as @ x # new # cs)) h h' \<and> new \<notin> set (as @ x # cs) \<and>
    uend (ublocks h') 1024 (as @ x # new # cs) = uend (ublocks h) 1024 (as @ x # cs) \<and>
    u_size (ublocks h' x) = s \<and> u_free (ublocks h' x) = u_free (ublocks h x) \<and> u_free (ublocks h' new) \<and>
    (\<forall>b\<in>set (as @ cs). same_block (ublocks h b) (ublocks h' b))"
proof -
  let ?bs = "as @ x # cs" let ?n = "umem h (x + 1)"
  note at = hseg_at [OF inv lim]
  have x: "1024 \<le> x" "x + BLOCK_SIZE + umem h x < 2 ^ 32" "umem h x < 2 ^ 32" using at [of x] by auto
  have s': "s + BLOCK_SIZE \<le> umem h x" using s(2) by (simp add: ublocks_sel)
  have C: "hseg (ublocks h) (x + BLOCK_SIZE + umem h x) x ?n cs NULL" and A: "hseg (ublocks h) 1024 NULL p as x" "uend (ublocks h) 1024 as \<le> x"
    using inv by (auto simp: hseg_append ublocks_sel)
  have as: "b + BLOCK_SIZE \<le> x" if "b \<in> set as" for b using hseg_bounds(2) [OF A(1) that] A(2) by linarith
  have cs: "new + BLOCK_SIZE \<le> b" if "b \<in> set cs" for b using hseg_bounds(2) [OF C that] s' new by linarith
  have nin: "?n \<in> set cs" if "?n \<noteq> NULL" using hseg_first [OF C that] .
  have n: "new + BLOCK_SIZE \<le> ?n" "?n + BLOCK_SIZE < 2 ^ 32" if "?n \<noteq> NULL" using cs [OF nin [OF that]] at(2,3) [of ?n] nin [OF that] by auto
  define M where "M = (umem h)(new := umem h x - s - BLOCK_SIZE, new + 1 := ?n, new + 2 := x, new + 3 := 1, new + 4 := new + BLOCK_SIZE, x := s, x + 1 := new)"
  define h' where "h' = h\<lparr>umem := (if ?n \<noteq> NULL then M(?n + 2 := new) else M)\<rparr>"
  have ptr: "udata x = x + BLOCK_SIZE" "ptr_add (x + BLOCK_SIZE) s = new" "udata new = new + BLOCK_SIZE" "(umem h x - s - BLOCK_SIZE) mod 2 ^ 32 = umem h x - s - BLOCK_SIZE"
    using x s s' new by (simp_all add: udata_def ptr_add_def)
  have lt: "x + 5 \<le> new" "new + 5 < 2 ^ 32" using s s' new x by simp_all
  have run: "split_sblock x s h = Some h'"
    using x lt n ptr by (cases "?n = NULL"; simp add: split_sblock_def Let_def uload_run ustore_run h'_def M_def)
  have fr: "heap_frame ({new..<new + BLOCK_SIZE} \<union> {x..<x + BLOCK_SIZE} \<union> (if ?n \<noteq> NULL then {?n..<?n + BLOCK_SIZE} else {})) h h'"
    by (auto simp: h'_def M_def heap_frame_def)
  have hx: "ublocks h' x = (ublocks h x)\<lparr>u_size := s, u_next := new\<rparr>"
    and hn: "ublocks h' new = \<lparr>u_size = u_size (ublocks h x) - s - BLOCK_SIZE, u_next = u_next (ublocks h x), u_prev = x, u_free = True, u_ptr = new + BLOCK_SIZE\<rparr>"
    using lt n by (cases "?n = NULL"; simp add: h'_def M_def ublocks_def)+
  have nx: "ublocks h' ?n = (ublocks h ?n)\<lparr>u_prev := new\<rparr>" if "?n \<noteq> NULL" using n [OF that] lt that by (simp add: h'_def M_def ublocks_def)
  have others: "ublocks h' b = (if b = u_next (ublocks h x) then (ublocks h b)\<lparr>u_prev := new\<rparr> else ublocks h b)" if b: "b \<in> set (as @ cs)" for b
  proof (cases "b = ?n")
    case True
    then show ?thesis using nx at(1) [of b] b by (simp add: ublocks_sel)
  next
    case False
    have "b + BLOCK_SIZE \<le> ?n \<or> ?n + BLOCK_SIZE \<le> b" if "?n \<noteq> NULL" using hseg_gap [OF inv, of b ?n] b nin [OF that] False by simp
    moreover have "b + BLOCK_SIZE \<le> x \<or> new + BLOCK_SIZE \<le> b" using as cs b by auto
    ultimately have "ublocks h' b = ublocks h b" using lt by (intro heap_frame_block [OF fr]) auto
    then show ?thesis using False by (simp add: ublocks_sel)
  qed
  have "{?n..<?n + BLOCK_SIZE} \<subseteq> headers cs" if "?n \<noteq> NULL" using nin [OF that] by (auto simp: headers_def)
  then have "heap_frame (headers (as @ x # new # cs)) h h'" by (intro heap_frame_mono [OF fr]) auto
  moreover have "new \<notin> set ?bs" using as [of new] cs [of new] lt by auto
  moreover have "same_block (ublocks h b) (ublocks h' b)" if "b \<in> set (as @ cs)" for b using others [OF that] by (simp add: same_block_def)
  ultimately show ?thesis using run hx hn hseg_split [OF inv s new hx hn others] by simp
qed

lemma fusion_sblock_run:
  assumes inv: "hseg (ublocks h) 1024 NULL p (as @ x # y # cs) NULL" and lim: "uend (ublocks h) 1024 (as @ x # y # cs) < 2 ^ 32"
    and y: "u_free (ublocks h y)" "x + BLOCK_SIZE + u_size (ublocks h x) = y"
  shows "\<exists>h'. fusion_sblock x h = Some (h', x) \<and> hseg (ublocks h') 1024 NULL p (as @ x # cs) NULL \<and> heap_frame (headers (as @ x # cs)) h h' \<and>
    uend (ublocks h') 1024 (as @ x # cs) = uend (ublocks h) 1024 (as @ x # y # cs) \<and>
    u_size (ublocks h' x) = u_size (ublocks h x) + BLOCK_SIZE + u_size (ublocks h y) \<and> u_free (ublocks h' x) = u_free (ublocks h x) \<and>
    (\<forall>b\<in>set (as @ cs). same_block (ublocks h b) (ublocks h' b))"
proof -
  let ?bs = "as @ x # y # cs" let ?n = "umem h (y + 1)"
  note at = hseg_at [OF inv lim]
  have x: "1024 \<le> x" "0 \<le> umem h x" "umem h (x + 1) = y" "umem h (x + 4) = x + BLOCK_SIZE" using at [of x] inv by (auto simp: hseg_append ublocks_sel)
  have yy: "y + BLOCK_SIZE + umem h y < 2 ^ 32" "0 \<le> umem h y" "umem h (y + 3) \<noteq> 0" "y = x + BLOCK_SIZE + umem h x"
    using at [of y] y by (auto simp: ublocks_sel)
  have C: "hseg (ublocks h) (y + BLOCK_SIZE + umem h y) y ?n cs NULL" and A: "hseg (ublocks h) 1024 NULL p as x" "uend (ublocks h) 1024 as \<le> x"
    using inv by (auto simp: hseg_append ublocks_sel)
  have as: "b + BLOCK_SIZE \<le> x" if "b \<in> set as" for b using hseg_bounds(2) [OF A(1) that] A(2) by linarith
  have cs: "y + BLOCK_SIZE \<le> b" if "b \<in> set cs" for b using hseg_bounds(2) [OF C that] yy(2) by linarith
  have nin: "?n \<in> set cs" if "?n \<noteq> NULL" using hseg_first [OF C that] .
  have n: "y + BLOCK_SIZE \<le> ?n" "?n + BLOCK_SIZE < 2 ^ 32" if "?n \<noteq> NULL" using cs [OF nin [OF that]] at(2,3) [of ?n] nin [OF that] by auto
  define M where "M = (umem h)(x := umem h x + BLOCK_SIZE + umem h y, x + 1 := ?n)"
  define h' where "h' = h\<lparr>umem := (if ?n \<noteq> NULL then M(?n + 2 := x) else M)\<rparr>"
  have lt: "x + 5 \<le> y" "y + 5 < 2 ^ 32" "(x + BLOCK_SIZE + umem h x) mod 2 ^ 32 = y" "(umem h x + (BLOCK_SIZE + umem h y)) mod 2 ^ 32 = umem h x + BLOCK_SIZE + umem h y"
    using x yy by simp_all
  have joins: "sblock_joins x y h = Some True" using x yy(3) lt by (simp add: sblock_joins_def sblock_free_def uload_run)
  have run: "fusion_sblock x h = Some (h', x)"
    using x lt n joins by (cases "?n = NULL"; simp add: fusion_sblock_def uload_run ustore_run h'_def M_def)
  have fr: "heap_frame ({x..<x + BLOCK_SIZE} \<union> (if ?n \<noteq> NULL then {?n..<?n + BLOCK_SIZE} else {})) h h'"
    by (auto simp: h'_def M_def heap_frame_def)
  have hx: "ublocks h' x = (ublocks h x)\<lparr>u_size := u_size (ublocks h x) + BLOCK_SIZE + u_size (ublocks h y), u_next := u_next (ublocks h y)\<rparr>"
    using lt(1,2) n by (cases "?n = NULL"; simp add: h'_def M_def ublocks_def)
  have nx: "ublocks h' ?n = (ublocks h ?n)\<lparr>u_prev := x\<rparr>" if "?n \<noteq> NULL" using n [OF that] lt that by (simp add: h'_def M_def ublocks_def)
  have others: "ublocks h' b = (if b = u_next (ublocks h y) then (ublocks h b)\<lparr>u_prev := x\<rparr> else ublocks h b)" if b: "b \<in> set (as @ cs)" for b
  proof (cases "b = ?n")
    case True
    then show ?thesis using nx at(1) [of b] b by (simp add: ublocks_sel)
  next
    case False
    have "b + BLOCK_SIZE \<le> ?n \<or> ?n + BLOCK_SIZE \<le> b" if "?n \<noteq> NULL" using hseg_gap [OF inv, of b ?n] b nin [OF that] False by simp
    moreover have "b + BLOCK_SIZE \<le> x \<or> x + BLOCK_SIZE \<le> b" using as cs b lt(1) by fastforce
    ultimately have "ublocks h' b = ublocks h b" using lt by (intro heap_frame_block [OF fr]) auto
    then show ?thesis using False by (simp add: ublocks_sel)
  qed
  have "{?n..<?n + BLOCK_SIZE} \<subseteq> headers cs" if "?n \<noteq> NULL" using nin [OF that] by (auto simp: headers_def)
  then have "heap_frame (headers (as @ x # cs)) h h'" by (intro heap_frame_mono [OF fr]) auto
  moreover have "same_block (ublocks h b) (ublocks h' b)" if "b \<in> set (as @ cs)" for b using others [OF that] by (simp add: same_block_def)
  ultimately show ?thesis using run hx hseg_fuse [OF inv y(2) hx others] by simp
qed

text \<open>Whether the next block can be joined, for a block of the sequence.\<close>

lemma sblock_free_run:
  assumes "hseg (ublocks h) 1024 NULL p bs NULL" "uend (ublocks h) 1024 bs < 2 ^ 32" "b = NULL \<or> b \<in> set bs"
  shows "sblock_free b h = Some (b \<noteq> NULL \<and> u_free (ublocks h b))"
proof (cases "b = NULL")
  case False
  then show ?thesis using hseg_at(1-3) [OF assms(1,2), of b] assms(3) by (simp add: sblock_free_def uload_run ublocks_sel)
qed (simp add: sblock_free_def)

lemma sblock_joins_run:
  assumes "hseg (ublocks h) 1024 NULL p (as @ x # cs) NULL" "uend (ublocks h) 1024 (as @ x # cs) < 2 ^ 32"
  shows "sblock_joins x (u_next (ublocks h x)) h =
    Some (case cs of [] \<Rightarrow> False | y # _ \<Rightarrow> u_free (ublocks h y) \<and> x + BLOCK_SIZE + u_size (ublocks h x) = y)"
proof -
  note at = hseg_at [OF assms, of x]
  have "u_next (ublocks h x) = (case cs of [] \<Rightarrow> NULL | y # _ \<Rightarrow> y)" "\<And>y. y \<in> set cs \<Longrightarrow> y \<noteq> NULL"
    using assms(1) hseg_at(1) [OF assms] by (cases cs; force simp: hseg_append)+
  moreover have "sblock_free (u_next (ublocks h x)) h = Some (u_next (ublocks h x) \<noteq> NULL \<and> u_free (ublocks h (u_next (ublocks h x))))"
    using at by (intro sblock_free_run [OF assms]) (simp add: ublocks_sel)
  ultimately show ?thesis using at by (cases cs) (auto simp: sblock_joins_def uload_run ublocks_sel)
qed

lemma link_sblock_run:
  assumes inv: "hseg (ublocks h) 1024 NULL p bs NULL" and b: "uend (ublocks h) 1024 bs \<le> b" "1024 \<le> b" "b + BLOCK_SIZE + s < 2 ^ 32" and s: "0 \<le> s"
  shows "\<exists>h'. link_sblock b (ulast NULL bs) s h = Some h' \<and> heap_frame (headers (bs @ [b])) h h' \<and> b \<notin> set bs \<and>
    hseg (ublocks h') 1024 NULL (if bs = [] then b else p) (bs @ [b]) NULL \<and> u_size (ublocks h' b) = s \<and> \<not> u_free (ublocks h' b) \<and>
    (\<forall>x\<in>set bs. same_block (ublocks h x) (ublocks h' x))"
proof -
  let ?l = "ulast NULL bs"
  have lim: "uend (ublocks h) 1024 bs < 2 ^ 32" using b s by simp
  note at = hseg_at [OF inv lim]
  have less: "x + BLOCK_SIZE \<le> b" if "x \<in> set bs" for x using hseg_bounds(2) [OF inv that] b(1) by linarith
  have lin: "?l \<in> set bs" if "?l \<noteq> NULL" using that by (cases bs rule: rev_cases) auto
  have l: "1024 \<le> ?l" "?l + BLOCK_SIZE \<le> b" if "?l \<noteq> NULL" using at(1) [OF lin [OF that]] less [OF lin [OF that]] by auto
  define M where "M = (umem h)(b := s, b + 1 := NULL, b + 2 := ?l, b + 4 := b + BLOCK_SIZE)"
  define h' where "h' = h\<lparr>umem := (if ?l \<noteq> NULL then M(?l + 1 := b) else M)(b + 3 := 0)\<rparr>"
  have ptr: "udata b = b + BLOCK_SIZE" using b s by (simp add: udata_def ptr_add_def)
  have run: "link_sblock b ?l s h = Some h'"
    using b s l ptr by (cases "?l = NULL"; simp add: link_sblock_def ustore_run h'_def M_def)
  have fr: "heap_frame ({b..<b + BLOCK_SIZE} \<union> (if ?l \<noteq> NULL then {?l..<?l + BLOCK_SIZE} else {})) h h'"
    by (auto simp: h'_def M_def heap_frame_def)
  have hb: "ublocks h' b = \<lparr>u_size = s, u_next = NULL, u_prev = ?l, u_free = False, u_ptr = b + BLOCK_SIZE\<rparr>"
    using l by (cases "?l = NULL"; simp add: h'_def M_def ublocks_def)
  have hl: "ublocks h' ?l = (ublocks h ?l)\<lparr>u_next := b\<rparr>" if "?l \<noteq> NULL" using l [OF that] that by (simp add: h'_def M_def ublocks_def)
  have others: "ublocks h' x = (if x = ?l then (ublocks h x)\<lparr>u_next := b\<rparr> else ublocks h x)" if x: "x \<in> set bs" for x
  proof (cases "x = ?l")
    case True
    then show ?thesis using hl at(1) [OF x] by simp
  next
    case False
    have "x + BLOCK_SIZE \<le> ?l \<or> ?l + BLOCK_SIZE \<le> x" if "?l \<noteq> NULL" using hseg_gap [OF inv x lin [OF that] False] .
    then have "ublocks h' x = ublocks h x" using less [OF x] by (intro heap_frame_block [OF fr]) auto
    then show ?thesis using False by simp
  qed
  have "{?l..<?l + BLOCK_SIZE} \<subseteq> headers bs" if "?l \<noteq> NULL" using lin [OF that] by (auto simp: headers_def)
  then have "heap_frame (headers (bs @ [b])) h h'" by (intro heap_frame_mono [OF fr]) auto
  moreover have "0 < b" "b \<notin> set bs" using b less [of b] by auto
  moreover have "same_block (ublocks h x) (ublocks h' x)" if "x \<in> set bs" for x using others [OF that] by (simp add: same_block_def)
  ultimately show ?thesis using run hb hseg_snoc [OF inv b(1) _ s hb others] by simp
qed

section \<open>Finding a block\<close>

definition ufit :: "(addr \<Rightarrow> s_block) \<Rightarrow> int \<Rightarrow> addr \<Rightarrow> bool" where
  "ufit m sz b \<longleftrightarrow> u_free (m b) \<and> u_size (m b) \<ge> sz"

lemma find_sblock_run:
  "hseg (ublocks h) lo prv b bs NULL \<Longrightarrow> 1024 \<le> lo \<Longrightarrow> uend (ublocks h) lo bs < 2 ^ 32 \<Longrightarrow> find_sblock h lst b sz =
     Some (case dropWhile (\<lambda>b. \<not> ufit (ublocks h) sz b) bs of
             [] \<Rightarrow> (ulast lst bs, NULL)
           | x # _ \<Rightarrow> (ulast lst (takeWhile (\<lambda>b. \<not> ufit (ublocks h) sz b) bs), x))"
proof (induction bs arbitrary: lo prv b lst)
  case Nil
  then show ?case by (subst find_sblock.simps) simp
next
  case (Cons x xs)
  let ?lo = "x + BLOCK_SIZE + u_size (ublocks h x)"
  have x: "b = x" "1024 \<le> x" "hseg (ublocks h) ?lo x (u_next (ublocks h x)) xs NULL" "1024 \<le> ?lo" "uend (ublocks h) ?lo xs < 2 ^ 32" using Cons.prems by auto
  have "x + 5 < 2 ^ 32" using hseg_bounds(1) [OF x(3)] x(5) Cons.prems(1) by auto
  then have ld: "uload (x + 3) h = Some (umem h (x + 3))" "uload x h = Some (umem h x)" "uload (x + 1) h = Some (umem h (x + 1))"
    using x(2) by (simp_all add: uload_run)
  have "find_sblock h lst b sz = (if ufit (ublocks h) sz x then Some (lst, x) else find_sblock h x (u_next (ublocks h x)) sz)"
    using x(1,2) ld by (subst find_sblock.simps) (simp add: ufit_def ublocks_sel)
  then show ?case using Cons.IH [OF x(3,4,5), of x] by (cases "dropWhile (\<lambda>b. \<not> ufit (ublocks h) sz b) xs"; simp del: dropWhile_eq_Nil_conv)
qed

lemma find_sblock_cases:
  assumes seg: "hseg (ublocks h) 1024 NULL b bs NULL" "uend (ublocks h) 1024 bs < 2 ^ 32" and bs: "bs \<noteq> []"
  obtains (hit) as x cs lst where "bs = as @ x # cs" "ufit (ublocks h) sz x" "find_sblock h b b sz = Some (lst, x)" "x \<noteq> NULL"
  | (miss) "find_sblock h b b sz = Some (ulast NULL bs, NULL)"
proof (cases "dropWhile (\<lambda>b. \<not> ufit (ublocks h) sz b) bs")
  case Nil
  then have "find_sblock h b b sz = Some (ulast b bs, NULL)" using find_sblock_run [OF seg(1) _ seg(2), of b sz] by (simp del: dropWhile_eq_Nil_conv)
  moreover have "ulast b bs = ulast NULL bs" using bs by (simp add: ulast_def)
  ultimately show thesis using miss by simp
next
  case (Cons x cs)
  let ?as = "takeWhile (\<lambda>b. \<not> ufit (ublocks h) sz b) bs"
  have split: "bs = ?as @ x # cs" using Cons takeWhile_dropWhile_id [of "\<lambda>b. \<not> ufit (ublocks h) sz b" bs] by simp
  then have "x \<in> set bs" by (metis in_set_conv_decomp)
  then have "x \<noteq> NULL" using hseg_at(1) [OF seg] by force
  moreover have "ufit (ublocks h) sz x" using Cons hd_dropWhile [of "\<lambda>b. \<not> ufit (ublocks h) sz b" bs] by simp
  moreover have "find_sblock h b b sz = Some (ulast b ?as, x)" using find_sblock_run [OF seg(1) _ seg(2), of b sz] Cons by simp
  ultimately show thesis using hit split by blast
qed

lemma align4_bounds: "0 < sz \<Longrightarrow> sz \<le> 2 ^ 19 \<Longrightarrow> sz \<le> align4 sz \<and> align4 sz < sz + 4"
  unfolding align4_def by (simp, presburger)

text \<open>The copy of \<^verbatim>\<open>realloc\<close>: the index counts words and is multiplied by 4 against sizes in words.\<close>

lemma copy_sblock_loop_run:
  assumes "n = min (umem h src) (umem h dst)" "0 \<le> i" "{s..<s + n} \<inter> {d..<d + n} = {}" "src \<notin> {d..<d + n}" "dst \<notin> {d..<d + n}"
    and "1024 \<le> src" "src < 2 ^ 32" "1024 \<le> dst" "dst < 2 ^ 32" "1024 \<le> s" "s + n < 2 ^ 32" "1024 \<le> d" "d + n < 2 ^ 32"
  shows "copy_sblock_loop src dst s d i h =
    Some (h\<lparr>umem := \<lambda>a. if d + i \<le> a \<and> (a - d) * 4 < n then umem h (s + (a - d)) else umem h a\<rparr>)"
  using assms(1,2)
proof (induction "nat (n - i * 4)" arbitrary: i h rule: less_induct)
  case less
  have ld: "uload src h = Some (umem h src)" "uload dst h = Some (umem h dst)" using assms(6-9) by (simp_all add: uload_run)
  show ?case
  proof (cases "i * 4 < n")
    case True
    define h1 where "h1 = h\<lparr>umem := (umem h)(d + i := umem h (s + i))\<rparr>"
    have "uload (s + i) h = Some (umem h (s + i))" "ustore (d + i) (umem h (s + i)) h = Some h1"
      using True assms(10-13) less.prems(2) by (simp_all add: uload_run ustore_run h1_def)
    then have step: "copy_sblock_loop src dst s d i h = copy_sblock_loop src dst s d (i + 1) h1"
      using True ld less.prems(1) by (subst copy_sblock_loop.simps) simp
    have at: "d + i \<in> {d..<d + n}" using True less.prems(2) by auto
    then have "n = min (umem h1 src) (umem h1 dst)" using less.prems(1) assms(4,5) by (auto simp: h1_def)
    then have IH: "copy_sblock_loop src dst s d (i + 1) h1 =
        Some (h1\<lparr>umem := \<lambda>a. if d + (i + 1) \<le> a \<and> (a - d) * 4 < n then umem h1 (s + (a - d)) else umem h1 a\<rparr>)"
      using True less.prems(2) by (intro less.hyps) auto
    have "s + (a - d) \<noteq> d + i" if "d + i + 1 \<le> a" "(a - d) * 4 < n" for a
    proof -
      have "s + (a - d) \<in> {s..<s + n}" using that less.prems(2) by auto
      then show ?thesis using assms(3) at by (metis disjoint_iff)
    qed
    then have "(\<lambda>a. if d + (i + 1) \<le> a \<and> (a - d) * 4 < n then umem h1 (s + (a - d)) else umem h1 a) =
        (\<lambda>a. if d + i \<le> a \<and> (a - d) * 4 < n then umem h (s + (a - d)) else umem h a)"
      using True by (auto simp: h1_def fun_eq_iff)
    then show ?thesis unfolding step IH by (simp add: h1_def)
  next
    case False
    then have "copy_sblock_loop src dst s d i h = Some h" using ld less.prems(1) by (subst copy_sblock_loop.simps) auto
    moreover have "(\<lambda>a. if d + i \<le> a \<and> (a - d) * 4 < n then umem h (s + (a - d)) else umem h a) = umem h" using False by (auto simp: fun_eq_iff)
    ultimately show ?thesis by simp
  qed
qed

section \<open>Relying on the break\<close>

text \<open>The heap of a program is in order: the break is known or not yet asked for, and the blocks lie between page 0 and the break.\<close>

definition uheap_inv :: "('k \<Rightarrow> bool) \<Rightarrow> ('k \<Rightarrow> int) \<Rightarrow> 'k uheap \<Rightarrow> addr list \<Rightarrow> bool" where
  "uheap_inv ok brk_of h bs \<longleftrightarrow> ok (ukern h) \<and> (ubrk h = NULL \<or> ubrk h = brk_of (ukern h)) \<and>
     hseg (ublocks h) 1024 NULL (ubase h) bs NULL \<and> uend (ublocks h) 1024 bs \<le> brk_of (ukern h)"

definition used_sblocks :: "'k uheap \<Rightarrow> addr list \<Rightarrow> addr set" where
  "used_sblocks h bs = {b \<in> set bs. \<not> u_free (ublocks h b)}"

text \<open>A block was granted at \<open>p\<close>: it was not in use, it has the size asked for, and no other block in use has changed.\<close>

definition granted :: "'k uheap \<Rightarrow> addr list \<Rightarrow> 'k uheap \<Rightarrow> addr list \<Rightarrow> int \<Rightarrow> addr \<Rightarrow> bool" where
  "granted h bs h' bs' sz p \<longleftrightarrow> get_sblock p \<in> set bs' \<and> get_sblock p \<notin> used_sblocks h bs \<and> sz \<le> u_size (ublocks h' (get_sblock p)) \<and>
     used_sblocks h' bs' = insert (get_sblock p) (used_sblocks h bs) \<and> (\<forall>b\<in>used_sblocks h bs. u_size (ublocks h' b) = u_size (ublocks h b))"

text \<open>Words outside the headers may change.\<close>

lemma headers_ublocks: "(\<And>a. a \<in> headers bs \<Longrightarrow> umem h' a = umem h a) \<Longrightarrow> b \<in> set bs \<Longrightarrow> ublocks h' b = ublocks h b"
  by (rule ublocks_cong) (auto simp: headers_def)

lemma outside_headers:
  assumes "\<And>a. a \<in> headers bs \<Longrightarrow> umem h' a = umem h a" "ubase h' = ubase h" "ubrk h' = ubrk h" "ukern h' = ukern h"
  shows "uheap_inv ok brk_of h' bs = uheap_inv ok brk_of h bs" "used_sblocks h' bs = used_sblocks h bs" "granted g gs h' bs sz p = granted g gs h bs sz p"
proof -
  note eq = headers_ublocks [OF assms(1)]
  show inv: "uheap_inv ok brk_of h' bs = uheap_inv ok brk_of h bs"
    using hseg_cong [of bs "ublocks h'" "ublocks h"] uend_cong [of bs "ublocks h'" "ublocks h"] eq assms(2-4) by (simp add: uheap_inv_def)
  show used: "used_sblocks h' bs = used_sblocks h bs" using eq by (auto simp: used_sblocks_def)
  show "granted g gs h' bs sz p = granted g gs h bs sz p"
  proof (cases "used_sblocks h bs = insert (get_sblock p) (used_sblocks g gs)")
    case True
    then have "b \<in> set bs" if "b \<in> insert (get_sblock p) (used_sblocks g gs)" for b using that by (auto simp: used_sblocks_def)
    then show ?thesis using eq by (auto simp: granted_def used)
  qed (simp add: granted_def used)
qed

lemma fuse_next:
  assumes seg: "hseg (ublocks h) 1024 NULL p (as @ x # cs) NULL" "uend (ublocks h) 1024 (as @ x # cs) < 2 ^ 32"
  shows "\<exists>h' cs'. fusion_sblock x h = Some (h', x) \<and> hseg (ublocks h') 1024 NULL p (as @ x # cs') NULL \<and> heap_frame (headers (as @ x # cs)) h h' \<and>
    uend (ublocks h') 1024 (as @ x # cs') = uend (ublocks h) 1024 (as @ x # cs) \<and> set cs' \<subseteq> set cs \<and> u_free (ublocks h' x) = u_free (ublocks h x) \<and>
    (\<forall>b\<in>set cs - set cs'. u_free (ublocks h b)) \<and> (\<forall>b\<in>set (as @ cs'). same_block (ublocks h b) (ublocks h' b))"
proof (cases "\<exists>y ds. cs = y # ds \<and> u_free (ublocks h y) \<and> x + BLOCK_SIZE + u_size (ublocks h x) = y")
  case True
  then obtain y ds where cs: "cs = y # ds" and y: "u_free (ublocks h y)" "x + BLOCK_SIZE + u_size (ublocks h x) = y" by blast
  from fusion_sblock_run [OF seg [unfolded cs] y] obtain h' where
    "fusion_sblock x h = Some (h', x)" "hseg (ublocks h') 1024 NULL p (as @ x # ds) NULL" and fr: "heap_frame (headers (as @ x # ds)) h h'"
    and "uend (ublocks h') 1024 (as @ x # ds) = uend (ublocks h) 1024 (as @ x # y # ds)" "u_free (ublocks h' x) = u_free (ublocks h x)"
    "\<forall>b\<in>set (as @ ds). same_block (ublocks h b) (ublocks h' b)" by blast
  moreover have "heap_frame (headers (as @ x # cs)) h h'" by (rule heap_frame_mono [OF fr], rule headers_mono) (auto simp: cs)
  ultimately show ?thesis using y(1) cs by (intro exI [of _ h'] exI [of _ ds]) auto
next
  case False
  then have "sblock_joins x (u_next (ublocks h x)) h = Some False" using sblock_joins_run [OF seg] by (cases cs) auto
  then have "fusion_sblock x h = Some (h, x)" using hseg_at(1-3) [OF seg, of x] by (simp add: fusion_sblock_def uload_run ublocks_sel)
  then show ?thesis using seg by (intro exI [of _ h] exI [of _ cs]) simp
qed

lemma fuse_free:
  assumes seg: "hseg (ublocks h) 1024 NULL p (as @ x # cs) NULL" "uend (ublocks h) 1024 (as @ x # cs) < 2 ^ 32" and x: "u_free (ublocks h x)"
  shows "\<exists>h' cs'. fusion_sblock x h = Some (h', x) \<and> hseg (ublocks h') 1024 NULL p (as @ x # cs') NULL \<and> heap_frame (headers (as @ x # cs)) h h' \<and>
    uend (ublocks h') 1024 (as @ x # cs') = uend (ublocks h) 1024 (as @ x # cs) \<and> u_free (ublocks h' x) \<and> set cs' \<subseteq> set cs \<and>
    used_sblocks h' (as @ x # cs') = used_sblocks h (as @ x # cs) \<and> (\<forall>c\<in>used_sblocks h (as @ x # cs). u_size (ublocks h' c) = u_size (ublocks h c))"
proof -
  from fuse_next [OF seg] obtain h' cs' where f: "fusion_sblock x h = Some (h', x)" "hseg (ublocks h') 1024 NULL p (as @ x # cs') NULL"
    "heap_frame (headers (as @ x # cs)) h h'" "uend (ublocks h') 1024 (as @ x # cs') = uend (ublocks h) 1024 (as @ x # cs)" "set cs' \<subseteq> set cs"
    "u_free (ublocks h' x) = u_free (ublocks h x)" "\<forall>b\<in>set cs - set cs'. u_free (ublocks h b)" "\<forall>b\<in>set (as @ cs'). same_block (ublocks h b) (ublocks h' b)" by blast
  have "used_sblocks h' (as @ x # cs') = used_sblocks h (as @ x # cs)" using f(5-8) x by (auto simp: used_sblocks_def same_block_def)
  moreover have "\<forall>c\<in>used_sblocks h (as @ x # cs). u_size (ublocks h' c) = u_size (ublocks h c)"
    using f(7,8) x by (auto simp: used_sblocks_def same_block_def)
  ultimately show ?thesis using f(1-6) x by (intro exI [of _ h'] exI [of _ cs']) simp
qed

lemma hseg_first_le: "hseg m lo prv p xs NULL \<Longrightarrow> x \<in> set xs \<Longrightarrow> p \<le> x"
proof (cases xs)
  case (Cons y ys)
  assume "hseg m lo prv p xs NULL" "x \<in> set xs"
  then show ?thesis using hseg_bounds(2) [of m "y + BLOCK_SIZE + u_size (m y)" y "u_next (m y)" ys NULL x] Cons by auto
qed simp

lemma free_fuse_run:
  assumes seg: "hseg (ublocks h) 1024 NULL p bs NULL" "uend (ublocks h) 1024 bs < 2 ^ 32" and b: "b \<in> set bs" "u_free (ublocks h b)"
  shows "\<exists>h' bs'. free_fuse b h = Some h' \<and> hseg (ublocks h') 1024 NULL p bs' NULL \<and> heap_frame (headers bs) h h' \<and> set bs' \<subseteq> set bs \<and>
    uend (ublocks h') 1024 bs' = uend (ublocks h) 1024 bs \<and> used_sblocks h' bs' = used_sblocks h bs \<and>
    (\<forall>c\<in>used_sblocks h bs. u_size (ublocks h' c) = u_size (ublocks h c))"
proof -
  obtain as cs where bs: "bs = as @ b # cs" using b(1) by (auto simp: in_set_conv_decomp)
  note at = hseg_at [OF seg b(1)]
  define prv where "prv = u_prev (ublocks h b)"
  have prv: "prv = ulast NULL as" using seg(1) by (simp add: bs hseg_append prv_def)
  have load: "uload (b + 2) h = Some prv" "sblock_free prv h = Some (prv \<noteq> NULL \<and> u_free (ublocks h prv))"
    using at sblock_free_run [OF seg, of prv] by (simp_all add: uload_run prv_def ublocks_sel)
  obtain h1 x as1 cs1 where 1: "(if prv \<noteq> NULL \<and> u_free (ublocks h prv) then fusion_sblock prv h else Some (h, b)) = Some (h1, x)"
      "hseg (ublocks h1) 1024 NULL p (as1 @ x # cs1) NULL" "heap_frame (headers bs) h h1" "uend (ublocks h1) 1024 (as1 @ x # cs1) = uend (ublocks h) 1024 bs"
      "u_free (ublocks h1 x)" "set (as1 @ x # cs1) \<subseteq> set bs" "used_sblocks h1 (as1 @ x # cs1) = used_sblocks h bs"
      "\<forall>c\<in>used_sblocks h bs. u_size (ublocks h1 c) = u_size (ublocks h c)"
  proof (cases "prv \<noteq> NULL \<and> u_free (ublocks h prv)")
    case True
    then obtain ds y where as: "as = ds @ [y]" "prv = y" using prv by (cases as rule: rev_cases) auto
    from fuse_free [of h p ds y "b # cs"] seg True as bs obtain h1 cs1 where
      "fusion_sblock y h = Some (h1, y)" "hseg (ublocks h1) 1024 NULL p (ds @ y # cs1) NULL" "heap_frame (headers (ds @ y # b # cs)) h h1"
      "uend (ublocks h1) 1024 (ds @ y # cs1) = uend (ublocks h) 1024 bs" "u_free (ublocks h1 y)" "set cs1 \<subseteq> set (b # cs)"
      "used_sblocks h1 (ds @ y # cs1) = used_sblocks h bs" "\<forall>c\<in>used_sblocks h bs. u_size (ublocks h1 c) = u_size (ublocks h c)" by auto
    then show ?thesis using True as bs by (intro that [of h1 y ds cs1]) (auto simp: Un_assoc)
  next
    case False
    then show ?thesis using seg bs b(2) by (intro that [of h b as cs]) auto
  qed
  have lim: "uend (ublocks h1) 1024 (as1 @ x # cs1) < 2 ^ 32" using 1(4) seg(2) by simp
  define nxt where "nxt = u_next (ublocks h1 x)"
  have load1: "uload (x + 1) h1 = Some nxt" "sblock_free nxt h1 = Some (nxt \<noteq> NULL \<and> u_free (ublocks h1 nxt))"
    using hseg_at [OF 1(2) lim, of x] sblock_free_run [OF 1(2) lim, of nxt] by (simp_all add: uload_run nxt_def ublocks_sel)
  have run: "free_fuse b h = (if nxt \<noteq> NULL \<and> u_free (ublocks h1 nxt) then do { (h, _) \<leftarrow> fusion_sblock x h1; Some h } else Some h1)"
    using load load1 1(1) by (simp add: free_fuse_def)
  show ?thesis
  proof (cases "nxt \<noteq> NULL \<and> u_free (ublocks h1 nxt)")
    case True
    from fuse_free [OF 1(2) lim 1(5)] obtain h2 cs2 where 2: "fusion_sblock x h1 = Some (h2, x)" "hseg (ublocks h2) 1024 NULL p (as1 @ x # cs2) NULL"
      "heap_frame (headers (as1 @ x # cs1)) h1 h2" "set cs2 \<subseteq> set cs1"
      "uend (ublocks h2) 1024 (as1 @ x # cs2) = uend (ublocks h1) 1024 (as1 @ x # cs1)" "used_sblocks h2 (as1 @ x # cs2) = used_sblocks h1 (as1 @ x # cs1)"
      "\<forall>c\<in>used_sblocks h1 (as1 @ x # cs1). u_size (ublocks h2 c) = u_size (ublocks h1 c)" by blast
    have "heap_frame (headers bs) h h2" using headers_mono [OF 1(6)] by (intro heap_frame_trans [OF 1(3) 2(3)]) simp
    moreover have "set (as1 @ x # cs2) \<subseteq> set bs" using 1(6) 2(4) by auto
    ultimately show ?thesis using run True 1(4,7,8) 2 by (intro exI [of _ h2] exI [of _ "as1 @ x # cs2"]) auto
  next
    case False
    then show ?thesis using run 1 by (intro exI [of _ h1] exI [of _ "as1 @ x # cs1"]) auto
  qed
qed

text \<open>
  What may change besides the words copied: header words between the base and the break, none of them in
  the data of a block in use.
\<close>

definition header_words :: "addr \<Rightarrow> int \<Rightarrow> 'k uheap \<Rightarrow> addr list \<Rightarrow> addr set \<Rightarrow> bool" where
  "header_words base brk h bs W \<longleftrightarrow> W \<subseteq> {base..<brk} \<and> (\<forall>b\<in>used_sblocks h bs. W \<inter> {udata b..<udata b + u_size (ublocks h b)} = {})"

text \<open>The next block is free, begins where \<open>b\<close> ends, and together they are large enough.\<close>

definition can_fuse :: "'k uheap \<Rightarrow> addr \<Rightarrow> addr list \<Rightarrow> int \<Rightarrow> bool" where
  "can_fuse h b cs s \<longleftrightarrow> (\<exists>y ds. cs = y # ds \<and> u_free (ublocks h y) \<and> b + BLOCK_SIZE + u_size (ublocks h b) = y \<and>
     s \<le> u_size (ublocks h b) + BLOCK_SIZE + u_size (ublocks h y))"

text \<open>
  The break as the library sees it: asked for nothing, the call returns it; asked for more, it
  returns the new break, or fails and leaves it. The break lies above page 0.
\<close>

locale heap_break =
  fixes call :: "'k sbrk_call" and brk_of :: "'k \<Rightarrow> int" and ok :: "'k \<Rightarrow> bool"
  assumes brk_range: "ok k \<Longrightarrow> 1024 \<le> brk_of k \<and> brk_of k < 2 ^ 30"
    and call_now: "ok k \<Longrightarrow> call 0 k = Some (k, brk_of k)"
    and call_move: "ok k \<Longrightarrow> 0 < n \<Longrightarrow> n \<le> 2 ^ 20 \<Longrightarrow>
      \<exists>k' r. call n k = Some (k', r) \<and> ok k' \<and> (r = - 1 \<and> brk_of k' = brk_of k \<or> r = brk_of k + n \<and> brk_of k' = brk_of k + n)"
begin

lemma sbrk_now:
  assumes "ok (ukern h)" "ubrk h = NULL \<or> ubrk h = brk_of (ukern h)"
  shows "sbrk call 0 h = Some (h\<lparr>ubrk := brk_of (ukern h)\<rparr>, brk_of (ukern h))"
  using assms(2) brk_range [OF assms(1)] call_now [OF assms(1)] by (auto simp: sbrk_def Let_def)

lemma inv_seg:
  assumes "uheap_inv ok brk_of h bs"
  shows "hseg (ublocks h) 1024 NULL (ubase h) bs NULL" "uend (ublocks h) 1024 bs < 2 ^ 32" "uend (ublocks h) 1024 bs < 2 ^ 30"
  using assms brk_range [of "ukern h"] by (auto simp: uheap_inv_def)

lemma inv_less:
  assumes "uheap_inv ok brk_of h bs" "x \<in> set bs"
  shows "1024 \<le> x \<and> x + BLOCK_SIZE + u_size (ublocks h x) < 2 ^ 30 \<and> 0 \<le> u_size (ublocks h x) \<and> udata x = x + BLOCK_SIZE \<and> u_ptr (ublocks h x) = x + BLOCK_SIZE"
  using hseg_bounds(2) [OF inv_seg(1) [OF assms(1)] assms(2)] inv_seg(3) [OF assms(1)] by (simp add: udata_def ptr_add_def)

text \<open>Two blocks do not overlap, and the data of a block are apart from every header.\<close>

lemma blocks_apart:
  assumes "uheap_inv ok brk_of h bs" "x \<in> set bs" "y \<in> set bs" "x \<noteq> y"
  shows "{udata x..<udata x + u_size (ublocks h x)} \<inter> {udata y..<udata y + u_size (ublocks h y)} = {}"
proof -
  note seg = inv_seg(1) [OF assms(1)] and xy = inv_less [OF assms(1,2)] inv_less [OF assms(1,3)]
  from assms(4) consider "x < y" | "y < x" by linarith
  then show ?thesis
    by cases (use hseg_apart [OF seg assms(2,3)] hseg_apart [OF seg assms(3,2)] xy in auto)
qed

lemma data_headers:
  assumes inv: "uheap_inv ok brk_of h bs" and x: "x \<in> set bs" "udata x \<le> a" "a < udata x + u_size (ublocks h x)"
  shows "a \<notin> headers bs"
proof
  assume "a \<in> headers bs"
  then obtain y where y: "y \<in> set bs" "y \<le> a" "a < y + BLOCK_SIZE" by (auto simp: headers_def)
  note seg = inv_seg(1) [OF inv] and xy = inv_less [OF inv x(1)] inv_less [OF inv y(1)]
  consider "x = y" | "x < y" | "y < x" by linarith
  then show False
    by cases (use hseg_apart [OF seg x(1) y(1)] hseg_apart [OF seg y(1) x(1)] xy x y in auto)
qed

lemma extend_run:
  assumes inv: "uheap_inv ok brk_of h bs" and s: "0 < s" "s \<le> 2 ^ 19 + 4"
  shows "\<exists>h' b. extend_sblock_heap call (ulast NULL bs) s h = Some (h', b) \<and> ubase h' = ubase h \<and> ok (ukern h') \<and>
    (if b = NULL then umem h' = umem h \<and> ubrk h' = 2 ^ 32 - 1
     else b \<notin> set bs \<and> hseg (ublocks h') 1024 NULL (if bs = [] then b else ubase h) (bs @ [b]) NULL \<and>
       (\<forall>a. a \<notin> headers (bs @ [b]) \<longrightarrow> umem h' a = umem h a) \<and>
       ubrk h' = brk_of (ukern h') \<and> uend (ublocks h') 1024 (bs @ [b]) \<le> brk_of (ukern h') \<and>
       u_size (ublocks h' b) = s \<and> \<not> u_free (ublocks h' b) \<and> (\<forall>x\<in>set bs. same_block (ublocks h x) (ublocks h' x)))"
proof -
  let ?k = "ukern h" let ?b = "brk_of ?k" let ?n = "BLOCK_SIZE + s" let ?l = "ulast NULL bs"
  have h: "ok ?k" "ubrk h = NULL \<or> ubrk h = ?b" "hseg (ublocks h) 1024 NULL (ubase h) bs NULL" "uend (ublocks h) 1024 bs \<le> ?b"
    using inv by (auto simp: uheap_inv_def)
  note now = sbrk_now [OF h(1,2)] and range = brk_range [OF h(1)]
  have n: "to_int ?n = ?n" using s by (intro to_int_small) auto
  obtain k' r where call: "call ?n ?k = Some (k', r)" "ok k'" "r = - 1 \<and> brk_of k' = ?b \<or> r = ?b + ?n \<and> brk_of k' = ?b + ?n"
    using call_move [OF h(1), of ?n] s by auto
  have run: "extend_sblock_heap call ?l s h = (let v = r mod 2 ^ 32; h1 = h\<lparr>ukern := k', ubrk := v\<rparr> in
      if to_int v < 0 then Some (h1, NULL) else do { h \<leftarrow> link_sblock ?b ?l s h1; Some (h, ?b) })"
    using now call(1) s(1) by (simp add: extend_sblock_heap_def n sbrk_def Let_def)
  from call(3) show ?thesis
  proof
    assume r: "r = - 1 \<and> brk_of k' = ?b"
    have "to_int (2 ^ 32 - 1) = - 1" by (simp add: to_int_def)
    then show ?thesis using run r call(2) by (simp add: Let_def)
  next
    assume r: "r = ?b + ?n \<and> brk_of k' = ?b + ?n"
    have v: "(?b + ?n) mod 2 ^ 32 = ?b + ?n" "to_int (?b + ?n) = ?b + ?n" using brk_range [OF call(2)] r s range by (simp_all add: to_int_small)
    define h1 where "h1 = h\<lparr>ukern := k', ubrk := ?b + ?n\<rparr>"
    have h1: "hseg (ublocks h1) 1024 NULL (ubase h) bs NULL" "uend (ublocks h1) 1024 bs \<le> ?b" "ublocks h1 = ublocks h" using h by (simp_all add: h1_def)
    from link_sblock_run [OF h1(1,2), of s] range s obtain h' where l: "link_sblock ?b ?l s h1 = Some h'" "heap_frame (headers (bs @ [?b])) h1 h'" "?b \<notin> set bs"
        "hseg (ublocks h') 1024 NULL (if bs = [] then ?b else ubase h) (bs @ [?b]) NULL" "u_size (ublocks h' ?b) = s" "\<not> u_free (ublocks h' ?b)"
        "\<forall>x\<in>set bs. same_block (ublocks h x) (ublocks h' x)" unfolding h1(3) by force
    have "extend_sblock_heap call ?l s h = Some (h', ?b)" using run r v range s l(1) by (simp add: Let_def h1_def)
    moreover have "uend (ublocks h') 1024 (bs @ [?b]) = ?b + ?n" using l(5) by simp
    ultimately show ?thesis using l call(2) r range by (intro exI [of _ h'] exI [of _ ?b]) (auto simp: heap_frame_def h1_def)
  qed
qed

text \<open>A block is cut to size when enough is left for another.\<close>

lemma trim_run:
  assumes inv: "uheap_inv ok brk_of h bs" and x: "x \<in> set bs" and s: "0 < s" "s \<le> u_size (ublocks h x)"
  shows "\<exists>h' bs'. trim_sblock x s h = Some h' \<and> uheap_inv ok brk_of h' bs' \<and> set bs \<subseteq> set bs' \<and> heap_frame (headers bs') h h' \<and>
    (\<forall>c\<in>set bs. u_free (ublocks h' c) = u_free (ublocks h c)) \<and> (\<forall>c\<in>set bs' - set bs. u_free (ublocks h' c)) \<and>
    s \<le> u_size (ublocks h' x) \<and> (\<forall>c\<in>set bs - {x}. u_size (ublocks h' c) = u_size (ublocks h c))"
proof -
  note seg = inv_seg [OF inv] and lt = inv_less [OF inv x]
  let ?fits = "u_size (ublocks h x) - s \<ge> BLOCK_SIZE + 4"
  have "(umem h x - s) mod 2 ^ 32 = umem h x - s" using s lt by (simp add: ublocks_sel)
  then have run: "trim_sblock x s h = (if ?fits then split_sblock x s h else Some h)"
    using lt by (simp add: trim_sblock_def uload_run ublocks_sel)
  show ?thesis
  proof (cases ?fits)
    case True
    obtain as cs where bs: "bs = as @ x # cs" using x by (auto simp: in_set_conv_decomp)
    define new where "new = x + BLOCK_SIZE + s"
    from split_sblock_run [OF seg(1) [unfolded bs] _ _ seg(2) [unfolded bs] new_def] True s obtain h' where
      sp: "split_sblock x s h = Some h'" "hseg (ublocks h') 1024 NULL (ubase h) (as @ x # new # cs) NULL" "heap_frame (headers (as @ x # new # cs)) h h'"
        "new \<notin> set (as @ x # cs)" "uend (ublocks h') 1024 (as @ x # new # cs) = uend (ublocks h) 1024 (as @ x # cs)" "u_size (ublocks h' x) = s"
        "u_free (ublocks h' x) = u_free (ublocks h x)" "u_free (ublocks h' new)" "\<forall>b\<in>set (as @ cs). same_block (ublocks h b) (ublocks h' b)" by auto
    have "uheap_inv ok brk_of h' (as @ x # new # cs)" using inv sp(2,3,5) by (simp add: uheap_inv_def heap_frame_def bs)
    then show ?thesis using run True sp by (intro exI [of _ h'] exI [of _ "as @ x # new # cs"]) (auto simp: bs same_block_def)
  next
    case False
    then show ?thesis using run inv s by (intro exI [of _ h] exI [of _ bs]) auto
  qed
qed

lemma grant_block:
  assumes inv: "uheap_inv ok brk_of h bs" and x: "x \<in> set bs" "ufit (ublocks h) s x" and s: "0 < s" "sz \<le> s"
  shows "\<exists>h' bs'. do { h \<leftarrow> trim_sblock x s h; h \<leftarrow> ustore (x + AT_FREE) 0 h; Some (h, udata x) } = Some (h', udata x) \<and> uheap_inv ok brk_of h' bs' \<and>
    granted h bs h' bs' sz (udata x) \<and> set bs \<subseteq> set bs' \<and> ubase h' = ubase h \<and> (\<forall>a. a \<notin> headers bs' \<longrightarrow> umem h' a = umem h a)"
proof -
  have fit: "u_free (ublocks h x)" "s \<le> u_size (ublocks h x)" using x(2) by (auto simp: ufit_def)
  from trim_run [OF inv x(1) s(1) fit(2)] obtain h1 bs' where t: "trim_sblock x s h = Some h1" "uheap_inv ok brk_of h1 bs'" "set bs \<subseteq> set bs'"
      "heap_frame (headers bs') h h1" "\<forall>c\<in>set bs. u_free (ublocks h1 c) = u_free (ublocks h c)" "\<forall>c\<in>set bs' - set bs. u_free (ublocks h1 c)"
      "s \<le> u_size (ublocks h1 x)" "\<forall>c\<in>set bs - {x}. u_size (ublocks h1 c) = u_size (ublocks h c)" by blast
  have x': "x \<in> set bs'" using x(1) t(3) by auto
  from set_free_run [OF inv_seg(1,2) [OF t(2)] x', of 0] obtain h' where f: "ustore (x + AT_FREE) 0 h1 = Some h'" "heap_frame (headers bs') h1 h'"
      "hseg (ublocks h') 1024 NULL (ubase h1) bs' NULL" "uend (ublocks h') 1024 bs' = uend (ublocks h1) 1024 bs'"
      "\<forall>c\<in>set bs'. u_size (ublocks h' c) = u_size (ublocks h1 c)" "\<forall>c\<in>set bs'. u_free (ublocks h' c) = (c \<noteq> x \<and> u_free (ublocks h1 c))" by auto
  have "uheap_inv ok brk_of h' bs'" using t(2) f(2-4) by (simp add: uheap_inv_def heap_frame_def)
  moreover have gx: "get_sblock (udata x) = x" using inv_less [OF inv x(1)] by (simp add: get_sblock_def)
  have used: "used_sblocks h' bs' = insert x (used_sblocks h bs)" using f(6) t(3,5,6) x' fit(1) by (auto simp: used_sblocks_def)
  have "u_size (ublocks h' c) = u_size (ublocks h c)" if "c \<in> used_sblocks h bs" for c
    using that f(5) t(3,8) fit(1) by (metis (mono_tags, lifting) Diff_iff mem_Collect_eq singletonD subsetD used_sblocks_def)
  then have "granted h bs h' bs' sz (udata x)"
    using used f(5) t(7) x' fit(1) s(2) by (simp add: granted_def gx) (simp add: used_sblocks_def)
  moreover have "heap_frame (headers bs') h h'" by (rule heap_frame_trans [OF t(4) f(2)]) simp
  ultimately show ?thesis using t(1,3) f(1) by (intro exI [of _ h'] exI [of _ bs']) (simp add: heap_frame_def)
qed

lemma malloc_run:
  assumes inv: "uheap_inv ok brk_of h bs" and sz: "0 < sz" "sz \<le> 2 ^ 19"
  shows "\<exists>h' p. malloc call sz h = Some (h', p) \<and>
    (if p = NULL then umem h' = umem h \<and> ubase h' = ubase h \<and> ok (ukern h') \<and> ubrk h' = 2 ^ 32 - 1
     else \<exists>bs'. uheap_inv ok brk_of h' bs' \<and> granted h bs h' bs' sz p \<and> set bs \<subseteq> set bs' \<and> (bs \<noteq> [] \<longrightarrow> ubase h' = ubase h) \<and>
       (\<forall>a. a \<notin> headers bs' \<longrightarrow> umem h' a = umem h a))"
proof -
  define s where "s = align4 sz"
  have s: "0 < s" "sz \<le> s" "s \<le> 2 ^ 19 + 4" using align4_bounds [OF sz] sz by (simp_all add: s_def)
  note seg = inv_seg [OF inv]
  obtain h1 b where ext: "extend_sblock_heap call (ulast NULL bs) s h = Some (h1, b)" "ubase h1 = ubase h" "ok (ukern h1)"
      "if b = NULL then umem h1 = umem h \<and> ubrk h1 = 2 ^ 32 - 1
       else b \<notin> set bs \<and> hseg (ublocks h1) 1024 NULL (if bs = [] then b else ubase h) (bs @ [b]) NULL \<and>
         (\<forall>a. a \<notin> headers (bs @ [b]) \<longrightarrow> umem h1 a = umem h a) \<and>
         ubrk h1 = brk_of (ukern h1) \<and> uend (ublocks h1) 1024 (bs @ [b]) \<le> brk_of (ukern h1) \<and>
         u_size (ublocks h1 b) = s \<and> \<not> u_free (ublocks h1 b) \<and> (\<forall>x\<in>set bs. same_block (ublocks h x) (ublocks h1 x))"
    using extend_run [OF inv s(1,3)] by blast
  define h2 where "h2 = (if bs = [] then h1\<lparr>ubase := b\<rparr> else h1)"
  have ext2: "uheap_inv ok brk_of h2 (bs @ [b]) \<and> granted h bs h2 (bs @ [b]) sz (udata b) \<and> udata b \<noteq> NULL \<and>
      (\<forall>a. a \<notin> headers (bs @ [b]) \<longrightarrow> umem h2 a = umem h a)" if "b \<noteq> NULL"
  proof -
    have inv2: "uheap_inv ok brk_of h2 (bs @ [b])" using ext that by (cases "bs = []") (simp_all add: uheap_inv_def h2_def)
    have b: "udata b = b + BLOCK_SIZE" "1024 \<le> b" using inv_less [OF inv2, of b] by simp_all
    have "granted h bs h2 (bs @ [b]) sz (udata b)" using b ext that s by (auto simp: granted_def get_sblock_def used_sblocks_def h2_def same_block_def)
    moreover have "\<forall>a. a \<notin> headers (bs @ [b]) \<longrightarrow> umem h2 a = umem h a" using ext that by (auto simp: h2_def)
    ultimately show ?thesis using inv2 b by auto
  qed
  show ?thesis
  proof (cases "bs = []")
    case True
    then have "malloc call sz h = Some (if b = NULL then (h1, NULL) else (h2, udata b))"
      using seg ext(1) by (simp add: malloc_def s_def [symmetric] h2_def)
    then show ?thesis using ext ext2 True by (cases "b = NULL") (auto intro!: exI [of _ "[b]"])
  next
    case False
    then have base: "ubase h \<noteq> NULL" using seg by (cases bs) auto
    show ?thesis
    proof (cases rule: find_sblock_cases [OF seg(1,2) False, of s])
      case (1 as x cs lst)
      then have x: "x \<in> set bs" by simp
      from grant_block [OF inv x 1(2) s(1,2)] obtain h' bs' where
        g: "do { h \<leftarrow> trim_sblock x s h; h \<leftarrow> ustore (x + AT_FREE) 0 h; Some (h, udata x) } = Some (h', udata x)" "uheap_inv ok brk_of h' bs'"
          "granted h bs h' bs' sz (udata x)" "set bs \<subseteq> set bs'" "ubase h' = ubase h" "\<forall>a. a \<notin> headers bs' \<longrightarrow> umem h' a = umem h a" by blast
      have "malloc call sz h = Some (h', udata x)" using base 1(3,4) g(1) by (simp add: malloc_def s_def [symmetric])
      moreover have "udata x \<noteq> NULL" using inv_less [OF inv x] by simp
      ultimately show ?thesis using g(2-) by auto
    next
      case 2
      then have "malloc call sz h = Some (h1, if b = NULL then NULL else udata b)" using base ext(1) by (simp add: malloc_def s_def [symmetric])
      then show ?thesis using ext ext2 False by (cases "b = NULL") (auto simp: h2_def intro!: exI [of _ "bs @ [b]"])
    qed
  qed
qed

text \<open>The data of the blocks in use, the new block's own room included, are among the words that do not change.\<close>

lemma granted_data:
  assumes "uheap_inv ok brk_of h' bs'" "granted h bs h' bs' sz p"
  shows "udata (get_sblock p) = p" "1024 + BLOCK_SIZE \<le> p" "p + sz < 2 ^ 30" "p \<le> a \<Longrightarrow> a < p + sz \<Longrightarrow> a \<notin> headers bs'"
    "b \<in> used_sblocks h bs \<Longrightarrow> {p..<p + sz} \<inter> {udata b..<udata b + u_size (ublocks h b)} = {}"
    "b \<in> used_sblocks h bs \<Longrightarrow> udata b \<le> a \<Longrightarrow> a < udata b + u_size (ublocks h b) \<Longrightarrow> a \<notin> headers bs'"
proof -
  have g: "get_sblock p \<in> set bs'" "sz \<le> u_size (ublocks h' (get_sblock p))" using assms(2) by (auto simp: granted_def)
  note at = inv_less [OF assms(1) g(1)]
  then show p: "udata (get_sblock p) = p" "1024 + BLOCK_SIZE \<le> p" "p + sz < 2 ^ 30" using g(2) by (simp_all add: get_sblock_def)
  show "a \<notin> headers bs'" if "p \<le> a" "a < p + sz" using that g p by (intro data_headers [OF assms(1) g(1)]) auto
  assume "b \<in> used_sblocks h bs"
  then have b: "b \<in> set bs'" "b \<noteq> get_sblock p" "u_size (ublocks h' b) = u_size (ublocks h b)"
    using assms(2) by (auto simp: granted_def used_sblocks_def)
  show "{p..<p + sz} \<inter> {udata b..<udata b + u_size (ublocks h b)} = {}" using blocks_apart [OF assms(1) g(1) b(1)] b(2,3) g(2) p(1) by fastforce
  show "a \<notin> headers bs'" if "udata b \<le> a" "a < udata b + u_size (ublocks h b)" using that b(3) by (intro data_headers [OF assms(1) b(1)]) simp_all
qed

lemma headers_range:
  assumes "uheap_inv ok brk_of h bs"
  shows "headers bs \<subseteq> {ubase h..<brk_of (ukern h)}"
proof
  fix a assume "a \<in> headers bs"
  then obtain b where b: "b \<in> set bs" "b \<le> a" "a < b + BLOCK_SIZE" by (auto simp: headers_def)
  have "ubase h \<le> b" using hseg_first_le [OF inv_seg(1) [OF assms] b(1)] .
  moreover have "b + BLOCK_SIZE + u_size (ublocks h b) \<le> brk_of (ukern h)" "0 \<le> u_size (ublocks h b)"
    using hseg_bounds(2) [OF inv_seg(1) [OF assms] b(1)] assms by (auto simp: uheap_inv_def)
  ultimately show "a \<in> {ubase h..<brk_of (ukern h)}" using b by simp
qed

text \<open>The address of a block in use is valid, once the break is known.\<close>

lemma valid_run:
  assumes inv: "uheap_inv ok brk_of h bs" and b: "b \<in> used_sblocks h bs" "0 < u_size (ublocks h b)"
  shows "sblock_valid_addr call (udata b) h = Some (h\<lparr>ubrk := brk_of (ukern h)\<rparr>, True)" "uheap_inv ok brk_of (h\<lparr>ubrk := brk_of (ukern h)\<rparr>) bs"
proof -
  have bin: "b \<in> set bs" using b(1) by (simp add: used_sblocks_def)
  note lt = inv_less [OF inv bin]
  have h: "ok (ukern h)" "ubrk h = NULL \<or> ubrk h = brk_of (ukern h)" "hseg (ublocks h) 1024 NULL (ubase h) bs NULL" "uend (ublocks h) 1024 bs \<le> brk_of (ukern h)"
    using inv by (auto simp: uheap_inv_def)
  have base: "ubase h \<noteq> NULL" "ubase h \<le> b" using h(3) bin hseg_bounds(2) [OF h(3) bin] hseg_first_le [OF h(3) bin] by (cases bs; auto)+
  have "udata b < brk_of (ukern h)" using hseg_bounds(2) [OF h(3) bin] h(4) b(2) lt by linarith
  then show "sblock_valid_addr call (udata b) h = Some (h\<lparr>ubrk := brk_of (ukern h)\<rparr>, True)"
    using base lt sbrk_now [OF h(1,2)] by (simp add: sblock_valid_addr_def get_sblock_def uload_run ublocks_sel)
  show "uheap_inv ok brk_of (h\<lparr>ubrk := brk_of (ukern h)\<rparr>) bs" using inv by (simp add: uheap_inv_def)
qed

lemma free_run:
  assumes inv: "uheap_inv ok brk_of h bs" and b: "b \<in> used_sblocks h bs" "0 < u_size (ublocks h b)"
  shows "\<exists>h' bs'. free call (udata b) h = Some h' \<and> uheap_inv ok brk_of h' bs' \<and> set bs' \<subseteq> set bs \<and> ubase h' = ubase h \<and> ukern h' = ukern h \<and> (\<forall>a. a \<notin> headers bs \<longrightarrow> umem h' a = umem h a) \<and>
    used_sblocks h' bs' = used_sblocks h bs - {b} \<and> (\<forall>c\<in>used_sblocks h bs - {b}. u_size (ublocks h' c) = u_size (ublocks h c))"
proof -
  have bin: "b \<in> set bs" using b(1) by (simp add: used_sblocks_def)
  note lt = inv_less [OF inv bin] and valid = valid_run [OF inv b]
  define h0 where "h0 = h\<lparr>ubrk := brk_of (ukern h)\<rparr>"
  have h0: "ublocks h0 = ublocks h" "umem h0 = umem h" "ubase h0 = ubase h" "ukern h0 = ukern h" by (simp_all add: h0_def)
  note inv0 = valid(2) [folded h0_def]
  from set_free_run [OF inv_seg(1,2) [OF inv0] bin, of 1] obtain h1 where h1: "ustore (b + AT_FREE) 1 h0 = Some h1" "heap_frame (headers bs) h0 h1"
      "hseg (ublocks h1) 1024 NULL (ubase h0) bs NULL" "uend (ublocks h1) 1024 bs = uend (ublocks h0) 1024 bs"
      "\<forall>c\<in>set bs. u_size (ublocks h1 c) = u_size (ublocks h0 c)" "\<forall>c\<in>set bs. u_free (ublocks h1 c) = (c = b \<or> u_free (ublocks h0 c))" by auto
  have used1: "used_sblocks h1 bs = used_sblocks h bs - {b}" using h1(6) h0(1) by (auto simp: used_sblocks_def)
  have "uend (ublocks h1) 1024 bs < 2 ^ 32" "u_free (ublocks h1 b)" using h1(4,6) inv_seg(2) [OF inv0] bin by simp_all
  from free_fuse_run [OF h1(3) this(1) bin this(2)] obtain h2 bs2 where fuse: "free_fuse b h1 = Some h2" "hseg (ublocks h2) 1024 NULL (ubase h0) bs2 NULL"
      "heap_frame (headers bs) h1 h2" "set bs2 \<subseteq> set bs" "uend (ublocks h2) 1024 bs2 = uend (ublocks h1) 1024 bs"
      "used_sblocks h2 bs2 = used_sblocks h1 bs" "\<forall>c\<in>used_sblocks h1 bs. u_size (ublocks h2 c) = u_size (ublocks h1 c)" by blast
  have gb: "get_sblock (udata b) = b" using lt by (simp add: get_sblock_def)
  have "free call (udata b) h = Some h2" using valid(1) h1(1) fuse(1) by (simp add: free_def gb h0_def)
  moreover have fr: "heap_frame (headers bs) h0 h2" by (rule heap_frame_trans [OF h1(2) fuse(3)]) simp
  then have "uheap_inv ok brk_of h2 bs2" using fuse(2,5) h1(4) inv0 by (simp add: uheap_inv_def heap_frame_def)
  moreover have "ubase h2 = ubase h" "ukern h2 = ukern h" "\<forall>a. a \<notin> headers bs \<longrightarrow> umem h2 a = umem h a" using fr h0 by (simp_all add: heap_frame_def)
  moreover have "\<forall>c\<in>used_sblocks h bs - {b}. u_size (ublocks h2 c) = u_size (ublocks h c)"
    using fuse(7) h1(5) h0(1) used1 by (auto simp: used_sblocks_def)
  ultimately show ?thesis using fuse(4,6) used1 by (intro exI [of _ h2] exI [of _ bs2]) auto
qed

lemma inv_header_words:
  assumes "uheap_inv ok brk_of h bs"
  shows "header_words (ubase h) (brk_of (ukern h)) h bs (headers bs)"
proof -
  have "headers bs \<inter> {udata b..<udata b + u_size (ublocks h b)} = {}" if "b \<in> used_sblocks h bs" for b
    using data_headers [OF assms, of b] that by (auto simp: used_sblocks_def)
  then show ?thesis using headers_range [OF assms] by (simp add: header_words_def)
qed

lemma shrink_run:
  assumes inv: "uheap_inv ok brk_of h bs" and b: "b \<in> used_sblocks h bs" and s: "0 < s" "s \<le> u_size (ublocks h b)"
  shows "\<exists>h' bs'. trim_sblock b s h = Some h' \<and> uheap_inv ok brk_of h' bs' \<and> set bs \<subseteq> set bs' \<and> heap_frame (headers bs') h h' \<and>
    used_sblocks h' bs' = used_sblocks h bs \<and> s \<le> u_size (ublocks h' b) \<and> (\<forall>c\<in>used_sblocks h bs - {b}. u_size (ublocks h' c) = u_size (ublocks h c))"
proof -
  have bin: "b \<in> set bs" using b by (simp add: used_sblocks_def)
  from trim_run [OF inv bin s] obtain h' bs' where t: "trim_sblock b s h = Some h'" "uheap_inv ok brk_of h' bs'" "set bs \<subseteq> set bs'" "heap_frame (headers bs') h h'"
    "\<forall>c\<in>set bs. u_free (ublocks h' c) = u_free (ublocks h c)" "\<forall>c\<in>set bs' - set bs. u_free (ublocks h' c)" "s \<le> u_size (ublocks h' b)"
    "\<forall>c\<in>set bs - {b}. u_size (ublocks h' c) = u_size (ublocks h c)" by blast
  have "used_sblocks h' bs' = used_sblocks h bs" using t(3,5,6) by (auto simp: used_sblocks_def)
  then show ?thesis using t by (intro exI [of _ h'] exI [of _ bs']) (simp add: used_sblocks_def)
qed

lemma grow_run:
  assumes inv: "uheap_inv ok brk_of h bs" and b: "b \<in> used_sblocks h bs" and bs: "bs = as @ b # y # cs"
    and y: "u_free (ublocks h y)" "b + BLOCK_SIZE + u_size (ublocks h b) = y"
  shows "\<exists>h' bs'. fusion_sblock b h = Some (h', b) \<and> uheap_inv ok brk_of h' bs' \<and> set bs' \<subseteq> set bs \<and> heap_frame (headers bs') h h' \<and>
    used_sblocks h' bs' = used_sblocks h bs \<and> u_size (ublocks h' b) = u_size (ublocks h b) + BLOCK_SIZE + u_size (ublocks h y) \<and>
    (\<forall>c\<in>used_sblocks h bs - {b}. u_size (ublocks h' c) = u_size (ublocks h c))"
proof -
  note seg = inv_seg [OF inv, unfolded bs]
  from fusion_sblock_run [OF seg(1,2) y] obtain h' where f: "fusion_sblock b h = Some (h', b)" "hseg (ublocks h') 1024 NULL (ubase h) (as @ b # cs) NULL"
      "heap_frame (headers (as @ b # cs)) h h'" "uend (ublocks h') 1024 (as @ b # cs) = uend (ublocks h) 1024 (as @ b # y # cs)"
      "u_size (ublocks h' b) = u_size (ublocks h b) + BLOCK_SIZE + u_size (ublocks h y)" "u_free (ublocks h' b) = u_free (ublocks h b)"
      "\<forall>c\<in>set (as @ cs). same_block (ublocks h c) (ublocks h' c)" by blast
  have "used_sblocks h' (as @ b # cs) = used_sblocks h bs" using y(1) f(6,7) by (auto simp: used_sblocks_def bs same_block_def)
  moreover have "uheap_inv ok brk_of h' (as @ b # cs)" using inv f(2-4) by (simp add: uheap_inv_def heap_frame_def bs)
  moreover have "\<forall>c\<in>used_sblocks h bs - {b}. u_size (ublocks h' c) = u_size (ublocks h c)"
    using f(7) y(1) by (auto simp: same_block_def used_sblocks_def bs)
  ultimately show ?thesis using f(1,3,5) by (intro exI [of _ h'] exI [of _ "as @ b # cs"]) (auto simp: bs)
qed

text \<open>The copy between two blocks in use, and the words it leaves.\<close>

lemma copy_run:
  assumes inv: "uheap_inv ok brk_of h bs" and b: "b \<in> set bs" "g \<in> set bs" "b \<noteq> g" and s: "u_size (ublocks h b) \<le> u_size (ublocks h g)"
  shows "\<exists>h'. copy_sblock b g h = Some h' \<and> heap_frame {udata g..<udata g + u_size (ublocks h g)} h h' \<and>
    (\<forall>a. umem h' a = (if udata g \<le> a \<and> (a - udata g) * 4 < u_size (ublocks h b) then umem h (udata b + (a - udata g)) else umem h a))"
proof -
  note at = inv_less [OF inv b(1)] inv_less [OF inv b(2)]
  let ?n = "u_size (ublocks h b)"
  have n: "?n = min (umem h b) (umem h g)" "0 \<le> ?n" using s at by (simp_all add: ublocks_sel)
  have apart: "{udata b..<udata b + ?n} \<inter> {udata g..<udata g + ?n} = {}" using blocks_apart [OF inv b] s by fastforce
  have hdr: "x \<notin> {udata g..<udata g + ?n}" if "x \<in> headers bs" for x using data_headers [OF inv b(2), of x] that s by auto
  have in_h: "b \<in> headers bs" "g \<in> headers bs" using b by (auto simp: headers_def)
  have ld: "uload (b + 4) h = Some (udata b)" "uload (g + 4) h = Some (udata g)" using at by (simp_all add: uload_run ublocks_sel)
  define h' where "h' = h\<lparr>umem := \<lambda>a. if udata g \<le> a \<and> (a - udata g) * 4 < ?n then umem h (udata b + (a - udata g)) else umem h a\<rparr>"
  have "copy_sblock_loop b g (udata b) (udata g) 0 h = Some h'"
    using copy_sblock_loop_run [OF n(1) _ apart hdr [OF in_h(1)] hdr [OF in_h(2)], of 0] at s n(2) by (simp add: h'_def)
  then have "copy_sblock b g h = Some h'" using ld by (simp add: copy_sblock_def)
  moreover have "heap_frame {udata g..<udata g + u_size (ublocks h g)} h h'" using s n(2) by (auto simp: h'_def heap_frame_def)
  ultimately show ?thesis by (simp add: h'_def)
qed

text \<open>The move: a new block, the copy, and the old block freed.\<close>

lemma move_run:
  assumes inv: "uheap_inv ok brk_of h bs" and b: "b \<in> used_sblocks h bs" "0 < u_size (ublocks h b)"
    and mall: "uheap_inv ok brk_of h1 bs1" "granted h bs h1 bs1 s p" "set bs \<subseteq> set bs1" "ubase h1 = ubase h" "\<forall>a. a \<notin> headers bs1 \<longrightarrow> umem h1 a = umem h a"
    and s: "u_size (ublocks h b) \<le> s"
  shows "\<exists>h' bs' W. do { h \<leftarrow> copy_sblock b (get_sblock p) h1; free call (udata b) h } = Some h' \<and> uheap_inv ok brk_of h' bs' \<and>
    used_sblocks h' bs' = insert (get_sblock p) (used_sblocks h bs - {b}) \<and> s \<le> u_size (ublocks h' (get_sblock p)) \<and>
    (\<forall>c\<in>used_sblocks h bs - {b}. u_size (ublocks h' c) = u_size (ublocks h c)) \<and> get_sblock p \<notin> used_sblocks h bs \<and>
    header_words (ubase h) (brk_of (ukern h')) h' bs' W \<and>
    (\<forall>a. a \<notin> W \<longrightarrow> umem h' a = (if p \<le> a \<and> (a - p) * 4 < u_size (ublocks h b) then umem h (udata b + (a - p)) else umem h a))"
proof -
  let ?g = "get_sblock p"
  have g: "?g \<in> set bs1" "?g \<notin> used_sblocks h bs" "s \<le> u_size (ublocks h1 ?g)" "used_sblocks h1 bs1 = insert ?g (used_sblocks h bs)"
    "\<forall>c\<in>used_sblocks h bs. u_size (ublocks h1 c) = u_size (ublocks h c)" using mall(2) by (auto simp: granted_def)
  have b1: "b \<in> used_sblocks h1 bs1" "b \<in> set bs1" "b \<noteq> ?g" "u_size (ublocks h1 b) = u_size (ublocks h b)" using b g by (auto simp: used_sblocks_def)
  note p = granted_data(1) [OF mall(1,2)]
  have "u_size (ublocks h1 b) \<le> u_size (ublocks h1 ?g)" using g(3) s b1(4) by simp
  from copy_run [OF mall(1) b1(2) g(1) b1(3) this] obtain h2 where c: "copy_sblock b ?g h1 = Some h2" "heap_frame {p..<p + u_size (ublocks h1 ?g)} h1 h2"
      "\<forall>a. umem h2 a = (if p \<le> a \<and> (a - p) * 4 < u_size (ublocks h b) then umem h1 (udata b + (a - p)) else umem h1 a)" unfolding p b1(4) by blast
  have hdr: "umem h2 a = umem h1 a" if "a \<in> headers bs1" for a
    using c(2) data_headers [OF mall(1) g(1), of a] that p by (auto simp: heap_frame_def)
  have fr: "ubase h2 = ubase h1" "ubrk h2 = ubrk h1" "ukern h2 = ukern h1" using c(2) by (auto simp: heap_frame_def)
  have h2: "uheap_inv ok brk_of h2 bs1" "used_sblocks h2 bs1 = used_sblocks h1 bs1" using outside_headers [OF hdr fr] mall(1) by simp_all
  have sz2: "ublocks h2 c = ublocks h1 c" if "c \<in> set bs1" for c using headers_ublocks [OF hdr that] .
  from free_run [OF h2(1), of b] b1 b(2) h2(2) sz2 obtain h' bs' where f: "free call (udata b) h2 = Some h'" "uheap_inv ok brk_of h' bs'" "set bs' \<subseteq> set bs1"
      "ubase h' = ubase h2" "ukern h' = ukern h2" "\<forall>a. a \<notin> headers bs1 \<longrightarrow> umem h' a = umem h2 a"
      "used_sblocks h' bs' = used_sblocks h1 bs1 - {b}" "\<forall>c\<in>used_sblocks h1 bs1 - {b}. u_size (ublocks h' c) = u_size (ublocks h2 c)" by auto
  have sz': "u_size (ublocks h' c) = u_size (ublocks h1 c)" if "c \<in> used_sblocks h1 bs1 - {b}" for c using f(8) that sz2 by (auto simp: used_sblocks_def)
  have W: "header_words (ubase h) (brk_of (ukern h')) h' bs' (headers bs1)"
    using inv_header_words [OF mall(1)] sz' f(5,7) fr mall(4) by (auto simp: header_words_def)
  have "umem h1 (udata b + (a - p)) = umem h (udata b + (a - p))" if "p \<le> a" "(a - p) * 4 < u_size (ublocks h b)" for a
    using mall(5) granted_data(6) [OF mall(1,2) b(1), of "udata b + (a - p)"] that by simp
  then have mem: "\<forall>a. a \<notin> headers bs1 \<longrightarrow> umem h' a = (if p \<le> a \<and> (a - p) * 4 < u_size (ublocks h b) then umem h (udata b + (a - p)) else umem h a)"
    using f(6) c(3) mall(5) by auto
  have "do { h \<leftarrow> copy_sblock b ?g h1; free call (udata b) h } = Some h'" using c(1) f(1) by simp
  moreover have "used_sblocks h' bs' = insert ?g (used_sblocks h bs - {b})" using f(7) g(4) b1(3) by auto
  moreover have "s \<le> u_size (ublocks h' ?g)" using sz' [of ?g] g(3,4) b1(3) by simp
  moreover have "\<forall>c\<in>used_sblocks h bs - {b}. u_size (ublocks h' c) = u_size (ublocks h c)" using sz' g(4,5) by simp
  ultimately show ?thesis using f(2) W mem g(2) by blast
qed

text \<open>What \<^verbatim>\<open>realloc\<close> does of a block in use, on the sequence.\<close>

lemma realloc_unfold:
  assumes inv: "uheap_inv ok brk_of h bs" and b: "b \<in> used_sblocks h bs" "0 < u_size (ublocks h b)" and bs: "bs = as @ b # cs"
    and h0: "h0 = h\<lparr>ubrk := brk_of (ukern h)\<rparr>" and s: "s = align4 sz"
  shows "realloc call (udata b) sz h = (if u_size (ublocks h0 b) \<ge> s then do { h \<leftarrow> trim_sblock b s h0; Some (h, udata b) }
      else if can_fuse h0 b cs s then do { (h, _) \<leftarrow> fusion_sblock b h0; h \<leftarrow> trim_sblock b s h; Some (h, udata b) }
      else do { (h, newp) \<leftarrow> malloc call s h0;
                if newp = NULL then Some (h, NULL)
                else do { h \<leftarrow> copy_sblock b (get_sblock newp) h; h \<leftarrow> free call (udata b) h; Some (h, newp) } })"
proof -
  let ?n = "u_size (ublocks h0 b)" let ?nxt = "u_next (ublocks h0 b)"
  have bin: "b \<in> set bs" by (simp add: bs)
  have valid: "sblock_valid_addr call (udata b) h = Some (h0, True)" "uheap_inv ok brk_of h0 bs" using valid_run [OF inv b] by (simp_all add: h0)
  note seg = inv_seg [OF valid(2)] and at = inv_less [OF valid(2) bin]
  note joins = sblock_joins_run [OF seg(1,2) [unfolded bs]]
  have gb: "get_sblock (udata b) = b" "udata b \<noteq> NULL" using at by (simp_all add: get_sblock_def)
  have ld: "uload b h0 = Some ?n" "uload (b + 1) h0 = Some ?nxt" using at by (simp_all add: uload_run ublocks_sel)
  have "do { joins \<leftarrow> sblock_joins b ?nxt h0; if joins then do { l \<leftarrow> uload ?nxt h0; Some ((?n + BLOCK_SIZE + l) mod 2 ^ 32 \<ge> s) } else Some False } =
      Some (can_fuse h0 b cs s)"
  proof (cases cs)
    case Nil
    then show ?thesis using joins by (simp add: can_fuse_def)
  next
    case (Cons y ds)
    have y: "?nxt = y" "y \<in> set bs" using seg(1) by (auto simp: bs Cons hseg_append)
    note aty = inv_less [OF valid(2) y(2)]
    then have "(?n + (BLOCK_SIZE + u_size (ublocks h0 y))) mod 2 ^ 32 = ?n + BLOCK_SIZE + u_size (ublocks h0 y)" if "b + BLOCK_SIZE + ?n = y"
      using that at by simp
    moreover have "uload y h0 = Some (u_size (ublocks h0 y))" using aty by (simp add: uload_run ublocks_sel)
    ultimately show ?thesis using joins y(1) by (auto simp: Cons can_fuse_def add.assoc)
  qed
  then show ?thesis using gb(2) ld by (auto simp: realloc_def valid(1) gb(1) s [symmetric] Let_def bind_eq_Some_conv split: if_splits)
qed

lemma realloc_run:
  assumes inv: "uheap_inv ok brk_of h bs" and b: "b \<in> used_sblocks h bs" "0 < u_size (ublocks h b)" and sz: "0 < sz" "sz \<le> 2 ^ 19 - 4"
  shows "\<exists>h' q. realloc call (udata b) sz h = Some (h', q) \<and>
    (if q = NULL then umem h' = umem h \<and> ubase h' = ubase h \<and> ok (ukern h')
     else \<exists>bs' W. uheap_inv ok brk_of h' bs' \<and> used_sblocks h' bs' = insert (get_sblock q) (used_sblocks h bs - {b}) \<and>
       sz \<le> u_size (ublocks h' (get_sblock q)) \<and> (\<forall>c\<in>used_sblocks h bs - {b}. u_size (ublocks h' c) = u_size (ublocks h c)) \<and>
       header_words (ubase h) (brk_of (ukern h')) h' bs' W \<and>
       (if q = udata b then \<forall>a. a \<notin> W \<longrightarrow> umem h' a = umem h a
        else get_sblock q \<notin> used_sblocks h bs \<and>
          (\<forall>a. a \<notin> W \<longrightarrow> umem h' a = (if q \<le> a \<and> (a - q) * 4 < u_size (ublocks h b) then umem h (udata b + (a - q)) else umem h a))))"
proof -
  define s where "s = align4 sz"
  have s: "0 < s" "sz \<le> s" "s \<le> 2 ^ 19" using align4_bounds [of sz] sz by (simp_all add: s_def)
  define h0 where "h0 = h\<lparr>ubrk := brk_of (ukern h)\<rparr>"
  have h0: "ublocks h0 = ublocks h" "umem h0 = umem h" "ubase h0 = ubase h" "used_sblocks h0 bs = used_sblocks h bs" by (simp_all add: h0_def used_sblocks_def)
  have inv0: "uheap_inv ok brk_of h0 bs" using valid_run(2) [OF inv b] by (simp add: h0_def)
  have bin: "b \<in> set bs" using b(1) by (simp add: used_sblocks_def)
  have gb: "get_sblock (udata b) = b" "udata b \<noteq> NULL" using inv_less [OF inv bin] by (simp_all add: get_sblock_def)
  have b0: "b \<in> used_sblocks h0 bs" "0 < u_size (ublocks h0 b)" using b h0 by simp_all
  obtain as cs where bs: "bs = as @ b # cs" using bin by (auto simp: in_set_conv_decomp)
  let ?n = "u_size (ublocks h0 b)"
  note run = realloc_unfold [OF inv b bs h0_def s_def]
  have used: "insert b (used_sblocks h bs - {b}) = used_sblocks h bs" using b(1) by auto
  consider (shrinks) "s \<le> ?n" | (fuses) "\<not> s \<le> ?n" "can_fuse h0 b cs s" | (moves) "?n < s" "\<not> can_fuse h0 b cs s" by linarith
  then show ?thesis
  proof cases
    case shrinks
    from shrink_run [OF inv0 b0(1) s(1) shrinks] obtain h' bs' where t: "trim_sblock b s h0 = Some h'" "uheap_inv ok brk_of h' bs'" "heap_frame (headers bs') h0 h'"
      "used_sblocks h' bs' = used_sblocks h0 bs" "s \<le> u_size (ublocks h' b)" "\<forall>c\<in>used_sblocks h0 bs - {b}. u_size (ublocks h' c) = u_size (ublocks h0 c)" by blast
    then show ?thesis using run shrinks gb used s(2) h0 inv_header_words [OF t(2)]
      by (intro exI [of _ h'] exI [of _ "udata b"]) (auto simp: heap_frame_def intro!: exI [of _ bs'] exI [of _ "headers bs'"])
  next
    case fuses
    then obtain y ds where y: "cs = y # ds" "u_free (ublocks h0 y)" "b + BLOCK_SIZE + ?n = y" "s \<le> ?n + BLOCK_SIZE + u_size (ublocks h0 y)" by (auto simp: can_fuse_def)
    from grow_run [OF inv0 b0(1) bs [unfolded y(1)] y(2,3)] obtain h1 bs1 where g: "fusion_sblock b h0 = Some (h1, b)" "uheap_inv ok brk_of h1 bs1"
      "heap_frame (headers bs1) h0 h1" "used_sblocks h1 bs1 = used_sblocks h0 bs" "u_size (ublocks h1 b) = ?n + BLOCK_SIZE + u_size (ublocks h0 y)"
      "\<forall>c\<in>used_sblocks h0 bs - {b}. u_size (ublocks h1 c) = u_size (ublocks h0 c)" by blast
    have "b \<in> used_sblocks h1 bs1" "s \<le> u_size (ublocks h1 b)" using b0(1) g(4,5) y(4) by simp_all
    from shrink_run [OF g(2) this(1) s(1) this(2)] obtain h' bs' where t: "trim_sblock b s h1 = Some h'" "uheap_inv ok brk_of h' bs'" "set bs1 \<subseteq> set bs'"
      "heap_frame (headers bs') h1 h'" "used_sblocks h' bs' = used_sblocks h1 bs1" "s \<le> u_size (ublocks h' b)"
      "\<forall>c\<in>used_sblocks h1 bs1 - {b}. u_size (ublocks h' c) = u_size (ublocks h1 c)" by blast
    have "heap_frame (headers bs') h0 h'" using headers_mono [OF t(3)] by (intro heap_frame_trans [OF g(3) t(4)]) simp
    then show ?thesis using run fuses gb used s(2) h0 inv_header_words [OF t(2)] g t
      by (intro exI [of _ h'] exI [of _ "udata b"]) (auto simp: heap_frame_def intro!: exI [of _ bs'] exI [of _ "headers bs'"])
  next
    case moves
    from malloc_run [OF inv0 s(1,3)] obtain h1 p where m: "malloc call s h0 = Some (h1, p)"
        "if p = NULL then umem h1 = umem h0 \<and> ubase h1 = ubase h0 \<and> ok (ukern h1) \<and> ubrk h1 = 2 ^ 32 - 1
         else \<exists>bs'. uheap_inv ok brk_of h1 bs' \<and> granted h0 bs h1 bs' s p \<and> set bs \<subseteq> set bs' \<and> (bs \<noteq> [] \<longrightarrow> ubase h1 = ubase h0) \<and>
           (\<forall>a. a \<notin> headers bs' \<longrightarrow> umem h1 a = umem h0 a)" by blast
    show ?thesis
    proof (cases "p = NULL")
      case True
      then show ?thesis using run moves m h0 by simp
    next
      case False
      then obtain bs1 where m1: "uheap_inv ok brk_of h1 bs1" "granted h0 bs h1 bs1 s p" "set bs \<subseteq> set bs1" "ubase h1 = ubase h0"
        "\<forall>a. a \<notin> headers bs1 \<longrightarrow> umem h1 a = umem h0 a" using m(2) bs by auto
      have n: "?n \<le> s" using moves(1) by simp
      from move_run [OF inv0 b0 m1 n] obtain h' bs' W where f: "do { h \<leftarrow> copy_sblock b (get_sblock p) h1; free call (udata b) h } = Some h'"
          "uheap_inv ok brk_of h' bs'" "used_sblocks h' bs' = insert (get_sblock p) (used_sblocks h bs - {b})" "s \<le> u_size (ublocks h' (get_sblock p))"
          "\<forall>c\<in>used_sblocks h bs - {b}. u_size (ublocks h' c) = u_size (ublocks h c)" "get_sblock p \<notin> used_sblocks h bs"
          "header_words (ubase h) (brk_of (ukern h')) h' bs' W"
          "\<forall>a. a \<notin> W \<longrightarrow> umem h' a = (if p \<le> a \<and> (a - p) * 4 < u_size (ublocks h b) then umem h (udata b + (a - p)) else umem h a)"
        unfolding h0 by blast
      have "realloc call (udata b) sz h = Some (h', p)" using run moves m(1) False f(1) by (auto simp: bind_eq_Some_conv)
      moreover have "p \<noteq> udata b" using f(6) b(1) gb(1) by auto
      ultimately show ?thesis using f False s(2) by (intro exI [of _ h'] exI [of _ p]) (auto intro!: exI [of _ bs'] exI [of _ W])
    qed
  qed
qed

lemma calloc_run:
  assumes inv: "uheap_inv ok brk_of h bs" and n: "0 < number * sz" "number * sz \<le> 2 ^ 19"
  shows "\<exists>h' p. calloc call number sz h = Some (h', p) \<and>
    (if p = NULL then umem h' = umem h
     else \<exists>bs'. uheap_inv ok brk_of h' bs' \<and> granted h bs h' bs' (number * sz) p \<and>
       (\<forall>a. a \<notin> headers bs' \<longrightarrow> umem h' a = (if p \<le> a \<and> a < p + number * sz then 0 else umem h a)))"
proof -
  from malloc_run [OF inv n] obtain h1 p where m: "malloc call (number * sz) h = Some (h1, p)" "p = NULL \<Longrightarrow> umem h1 = umem h"
      "p \<noteq> NULL \<Longrightarrow> \<exists>bs'. uheap_inv ok brk_of h1 bs' \<and> granted h bs h1 bs' (number * sz) p \<and> (\<forall>a. a \<notin> headers bs' \<longrightarrow> umem h1 a = umem h a)"
    by (metis (no_types, lifting))
  define h' where "h' = (if p \<noteq> NULL then h1\<lparr>umem := memset_loop (nat (number * sz)) p 0 (umem h1)\<rparr> else h1)"
  have run: "calloc call number sz h = Some (h', p)" using m(1) n by (simp add: calloc_def h'_def)
  show ?thesis
  proof (cases "p = NULL")
    case False
    then obtain bs' where g: "uheap_inv ok brk_of h1 bs'" "granted h bs h1 bs' (number * sz) p" "\<forall>a. a \<notin> headers bs' \<longrightarrow> umem h1 a = umem h a" using m(3) by blast
    have mem: "umem h' a = (if p \<le> a \<and> a < p + number * sz then 0 else umem h1 a)" for a using n False by (simp add: h'_def memset_loop_apply)
    then have hdr: "umem h' a = umem h1 a" if "a \<in> headers bs'" for a using granted_data(4) [OF g(1,2), of a] that by auto
    have fr: "ubase h' = ubase h1" "ubrk h' = ubrk h1" "ukern h' = ukern h1" by (simp_all add: h'_def)
    show ?thesis using run False g mem outside_headers(1,3) [OF hdr fr] by (intro exI [of _ h'] exI [of _ p]) (auto intro!: exI [of _ bs'])
  qed (use run m in \<open>simp add: h'_def\<close>)
qed

text \<open>
  After a call that failed, the cached break is \<open>-1\<close>. A header is then to be written at \<open>0xffffffff\<close> and on: its second
  word is word 0 of the program, in the protected page.
\<close>

lemma malloc_after_failure:
  assumes inv: "uheap_inv ok brk_of h bs" and sz0: "0 < sz0" "sz0 \<le> 2 ^ 19" and fail: "malloc call sz0 h = Some (h1, NULL)"
    and sz: "0 < sz" "sz \<le> 2 ^ 19" and none: "\<forall>b\<in>set bs. \<not> ufit (ublocks h) (align4 sz) b"
    and grows: "call (BLOCK_SIZE + align4 sz) (ukern h1) = Some (k', r)" "r \<noteq> - 1"
  shows "sbrk call 0 h1 = Some (h1, 2 ^ 32 - 1) \<and> malloc call sz h1 = None"
proof -
  define s where "s = align4 sz"
  have s: "0 < s" "s \<le> 2 ^ 19 + 4" using align4_bounds [OF sz] sz by (simp_all add: s_def)
  have h1: "umem h1 = umem h" "ubase h1 = ubase h" "ok (ukern h1)" "ubrk h1 = 2 ^ 32 - 1" using malloc_run [OF inv sz0] fail by auto
  have m1: "ublocks h1 = ublocks h" using h1(1) by (simp add: ublocks_def fun_eq_iff)
  note seg = inv_seg [OF inv]
  have n: "to_int (BLOCK_SIZE + s) = BLOCK_SIZE + s" using s by (intro to_int_small) auto
  from call_move [OF h1(3), of "BLOCK_SIZE + s"] s grows have r: "r = brk_of (ukern h1) + (BLOCK_SIZE + s)" by (auto simp: s_def)
  then have r': "0 \<le> r" "r < 2 ^ 31" using brk_range [OF h1(3)] s by auto
  then have v: "r mod 2 ^ 32 = r" "to_int r = r" by (simp_all add: to_int_small)
  have now: "sbrk call 0 h1 = Some (h1, 2 ^ 32 - 1)" using h1(4) by (simp add: sbrk_def)
  have "link_sblock (2 ^ 32 - 1) lst s h = None" for lst and h :: "'k uheap" by (simp add: link_sblock_def ustore_def ptr_add_def)
  then have ext: "extend_sblock_heap call lst s h1 = None" for lst
    using grows(1) s(1) v r' now by (simp add: extend_sblock_heap_def) (simp add: sbrk_def n s_def [symmetric] Let_def)
  have "malloc call sz h1 = None"
  proof (cases "bs = []")
    case True
    then show ?thesis using seg h1 ext by (simp add: malloc_def s_def [symmetric])
  next
    case False
    have seg1: "hseg (ublocks h1) 1024 NULL (ubase h) bs NULL" "uend (ublocks h1) 1024 bs < 2 ^ 32" using seg m1 by simp_all
    have base: "ubase h \<noteq> NULL" using seg False by (cases bs) auto
    show ?thesis
    proof (cases rule: find_sblock_cases [OF seg1 False, of s])
      case (1 as x cs lst)
      then show ?thesis using none m1 by (simp add: s_def)
    next
      case 2
      then show ?thesis using base h1 ext by (simp add: malloc_def s_def [symmetric])
    qed
  qed
  then show ?thesis using now by simp
qed

end

section \<open>The break of a process\<close>

text \<open>
  The system call as the library calls it: \<^verbatim>\<open>sys_sbrk\<close>, the reply of \<^verbatim>\<open>do_sbrk\<close>, and what
  \<^verbatim>\<open>set_syscall_reply\<close> makes of a negative one.
\<close>

definition user_sbrk :: "int \<Rightarrow> 'a kernel_scheme sbrk_call" where
  "user_sbrk who n k =
     do { (k, ret) \<leftarrow> sys_sbrk who n k;
          let reply = (if ret = NULL then - ENOMEM else to_int (vaddr k ret who));
          Some (k, snd (set_syscall_reply who reply 50 k)) }"

definition user_break :: "int \<Rightarrow> 'a kernel_scheme \<Rightarrow> int" where
  "user_break who k = p_heap_break (procs k who) - c_rbase (p_ctx (procs k who))"

definition break_ok :: "int \<Rightarrow> 'a kernel_scheme \<Rightarrow> bool" where
  "break_ok who k \<longleftrightarrow> heap_inv (procs k who) \<and> page_inv (kmm k) \<and> length (p_protection_table (procs k who)) = 32 \<and>
     (p_heap_bottom (procs k who) + 1) mod 1024 = 0 \<and> p_heap_bottom (procs k who) < 127 * 1024 \<and>
     0 \<le> c_rbase (p_ctx (procs k who)) \<and> c_rbase (p_ctx (procs k who)) + 1024 \<le> p_heap_top (procs k who)"

lemma break_ok_range: "break_ok who k \<Longrightarrow> 1024 \<le> user_break who k \<and> user_break who k < 2 ^ 30"
  by (auto simp: break_ok_def user_break_def heap_inv_def)

lemma pages_free_hits_end:
  assumes "length (mem_map m) = 4" "127 \<in> used_pages m" "p \<le> 127" "127 - p < n - i" "i \<le> n"
  shows "is_pages_free_from_loop m (int i) (int n) (int p) = Some False"
  using assms(3-)
proof (induction "127 - p" arbitrary: i p)
  case 0
  then show ?case using is_bit_on_run [of 127 "mem_map m"] assms(1,2) by (simp add: is_pages_free_from_loop.simps used_pages_def)
next
  case (Suc d)
  then have "is_pages_free_from_loop m (int (Suc i)) (int n) (int (Suc p)) = Some False" by (intro Suc.hyps(1)) auto
  then show ?case using is_bit_on_run [of p "mem_map m"] assms(1) Suc.hyps(2) Suc.prems
    by (subst is_pages_free_from_loop.simps) (simp add: add.commute)
qed

text \<open>A request of any size above the heap: the pages, or \<^verbatim>\<open>-ENOMEM\<close>, and never a fault.\<close>

lemma user_pages_total:
  assumes inv: "page_inv m" "length pt = 32" and a: "a mod 1024 = 0" "0 \<le> a" "a \<le> 127 * 1024" and sz: "0 < sz" "sz \<le> 2 ^ 20"
  shows "\<exists>m' pt' r. user_get_free_pages_from m pt a sz = Some (m', pt', r) \<and> page_inv m' \<and> length pt' = 32 \<and>
    (r = 0 \<longrightarrow> a + align_page sz \<le> 127 * 1024)"
proof -
  define p where "p = nat (a div 1024)"
  define n where "n = nat (align_page sz div 1024)"
  have p: "a = int p * 1024" "p \<le> 127" using a by (auto simp: p_def)
  have n: "align_page sz = int n * 1024" "n \<le> 1024" "0 < n" using align_page_bounds [of sz] sz by (auto simp: n_def)
  have num: "PADDR_TO_NUM_PAGES sz = int n" using n by (simp add: PADDR_TO_NUM_PAGES_def)
  have num': "PADDR_TO_NUM_PAGES (int n * 1024) = int n" using n(2) by simp
  show ?thesis
  proof (cases "p + n < 128")
    case True
    have "user_get_free_pages_from m pt a sz = user_get_free_pages_from m pt (int p * 1024) (int n * 1024)"
      by (simp only: user_get_free_pages_from_def get_free_pages_from_def is_pages_free_from_def num num' p(1))
    then show ?thesis using user_get_free_pages_from_run [OF inv(1) True inv(2)] n(1) p True by (fastforce split: if_splits)
  next
    case False
    have m: "length (mem_map m) = 4" "127 \<in> used_pages m" using inv(1) by (auto simp: page_inv_def used_pages_def)
    have "is_pages_free_from m a sz = Some False"
      using pages_free_hits_end [OF m p(2), of n 0] False p by (simp add: is_pages_free_from_def num)
    then show ?thesis using inv by (simp add: user_get_free_pages_from_def get_free_pages_from_def)
  qed
qed

lemma sys_sbrk_total:
  assumes ok: "break_ok who k" and n: "0 < n" "n \<le> 2 ^ 20"
  shows "\<exists>k' b. sys_sbrk who n k = Some (k', b) \<and> break_ok who k' \<and> c_rbase (p_ctx (procs k' who)) = c_rbase (p_ctx (procs k who)) \<and>
    (b = NULL \<and> p_heap_break (procs k' who) = p_heap_break (procs k who) \<or>
     b = p_heap_break (procs k who) + n \<and> p_heap_break (procs k' who) = p_heap_break (procs k who) + n)"
proof -
  let ?r = "procs k who"
  let ?res = "p_heap_bottom ?r - p_heap_break ?r"
  have i: "heap_inv ?r" "page_inv (kmm k)" "length (p_protection_table ?r) = 32" "(p_heap_bottom ?r + 1) mod 1024 = 0" "p_heap_bottom ?r < 127 * 1024"
      "0 \<le> c_rbase (p_ctx ?r)" "c_rbase (p_ctx ?r) + 1024 \<le> p_heap_top ?r" "0 < p_heap_top ?r" "p_heap_top ?r \<le> p_heap_break ?r" "p_heap_break ?r \<le> p_heap_bottom ?r"
    using ok by (auto simp: break_ok_def heap_inv_def)
  have "\<exists>k' b. sys_sbrk who n k = Some (k', b) \<and> page_inv (kmm k') \<and> length (p_protection_table (procs k' who)) = 32 \<and>
      p_ctx (procs k' who) = p_ctx ?r \<and> (p_heap_bottom (procs k' who) + 1) mod 1024 = 0 \<and> p_heap_bottom (procs k' who) < 127 * 1024"
  proof (cases "n \<le> ?res")
    case True
    then show ?thesis using i n by (simp add: sys_sbrk_def Let_def)
  next
    case False
    obtain m' pt' r where g: "user_get_free_pages_from (kmm k) (p_protection_table ?r) (p_heap_bottom ?r + 1) (n - ?res) = Some (m', pt', r)"
        "page_inv m'" "length pt' = 32" "r = 0 \<longrightarrow> p_heap_bottom ?r + 1 + align_page (n - ?res) \<le> 127 * 1024"
      using user_pages_total [OF i(2,3,4), of "n - ?res"] i n False by auto
    have al: "0 < align_page (n - ?res)" "align_page (n - ?res) mod 1024 = 0" using align_page_bounds [of "n - ?res"] False by linarith+
    then have "(p_heap_bottom ?r + 1 + align_page (n - ?res)) mod 1024 = 0" using i(4) by (metis add_0 mod_add_eq mod_0)
    moreover have "ptr_add (p_heap_bottom ?r) (align_page (n - ?res)) = p_heap_bottom ?r + align_page (n - ?res)" if "r = 0"
      using g(4) that i al by (intro ptr_add_id) auto
    ultimately show ?thesis using g i n False by (cases "r = 0") (simp_all add: sys_sbrk_def Let_def algebra_simps)
  qed
  then obtain k' b where run: "sys_sbrk who n k = Some (k', b)" and k': "page_inv (kmm k')" "length (p_protection_table (procs k' who)) = 32"
      "p_ctx (procs k' who) = p_ctx ?r" "(p_heap_bottom (procs k' who) + 1) mod 1024 = 0" "p_heap_bottom (procs k' who) < 127 * 1024" by auto
  have "heap_inv (procs k' who) \<and> p_heap_top (procs k' who) = p_heap_top ?r \<and> p_heap_break (procs k' who) = (if b = NULL then p_heap_break ?r else b) \<and>
      (b \<noteq> NULL \<longrightarrow> b = p_heap_break ?r + n)"
    using sys_sbrk_run [OF i(1) _ _ run] i n by auto
  then show ?thesis using run k' i(6,7) by (auto simp: break_ok_def)
qed

interpretation process_break: heap_break "user_sbrk who" "user_break who" "break_ok who"
proof
  fix k :: "'a kernel_scheme" and n :: int
  assume ok: "break_ok who k"
  show "1024 \<le> user_break who k \<and> user_break who k < 2 ^ 30" using break_ok_range [OF ok] .
  have reply: "snd (set_syscall_reply who (to_int (vaddr k' (p_heap_break (procs k' who)) who)) 50 k'') = user_break who k'" if "break_ok who k'"
    for k' k'' :: "'a kernel_scheme"
  proof -
    have "vaddr k' (p_heap_break (procs k' who)) who = user_break who k'"
      using break_ok_range [OF that] by (simp add: vaddr_def get_virtual_addr_def user_break_def)
    then show ?thesis using break_ok_range [OF that] by (simp add: to_int_small set_syscall_reply_def)
  qed
  have pos: "p_heap_break (procs k' who) \<noteq> NULL" if "break_ok who k'" for k' :: "'a kernel_scheme" using that by (auto simp: break_ok_def heap_inv_def)
  show "user_sbrk who 0 k = Some (k, user_break who k)" using reply [OF ok] pos [OF ok] by (simp add: user_sbrk_def sys_sbrk_def Let_def)
  assume n: "0 < n" "n \<le> 2 ^ 20"
  from sys_sbrk_total [OF ok n] obtain k' b where run: "sys_sbrk who n k = Some (k', b)" and k': "break_ok who k'"
      "c_rbase (p_ctx (procs k' who)) = c_rbase (p_ctx (procs k who))"
    and b: "b = NULL \<and> p_heap_break (procs k' who) = p_heap_break (procs k who) \<or>
      b = p_heap_break (procs k who) + n \<and> p_heap_break (procs k' who) = p_heap_break (procs k who) + n" by blast
  from b show "\<exists>k' r. user_sbrk who n k = Some (k', r) \<and> break_ok who k' \<and>
      (r = - 1 \<and> user_break who k' = user_break who k \<or> r = user_break who k + n \<and> user_break who k' = user_break who k + n)"
  proof
    assume "b = NULL \<and> p_heap_break (procs k' who) = p_heap_break (procs k who)"
    then show ?thesis using run k' by (simp add: user_sbrk_def user_break_def set_syscall_reply_def)
  next
    assume b: "b = p_heap_break (procs k who) + n \<and> p_heap_break (procs k' who) = p_heap_break (procs k who) + n"
    then have "user_sbrk who n k = Some (k', user_break who k')" using run reply [OF k'(1), of k'] pos [OF k'(1)] by (simp add: user_sbrk_def)
    then show ?thesis using k' b by (simp add: user_break_def)
  qed
qed

section \<open>Properties\<close>

text \<open>
  C13. \<^verbatim>\<open>malloc\<close> on the break of a process, for a heap in order and a request of up to
  half a megaword. It returns. Either it fails, and no word of memory has changed; or the
  heap is in order again, the block was not in use before and is large enough, it is the only
  block added to those in use, which keep their sizes, and its data overlap none of theirs. Then no word
  outside the block headers has changed; in particular every block in use keeps its contents.
\<close>

theorem malloc_correct:
  assumes "uheap_inv (break_ok who) (user_break who) h bs" "0 < sz" "sz \<le> 2 ^ 19"
  shows "\<exists>h' p. malloc (user_sbrk who) sz h = Some (h', p) \<and>
    (if p = NULL then umem h' = umem h \<and> ubase h' = ubase h \<and> break_ok who (ukern h')
     else \<exists>bs'. uheap_inv (break_ok who) (user_break who) h' bs' \<and> granted h bs h' bs' sz p \<and>
       (\<forall>a. a \<notin> headers bs' \<longrightarrow> umem h' a = umem h a) \<and>
       (\<forall>b\<in>used_sblocks h bs. {p..<p + sz} \<inter> {udata b..<udata b + u_size (ublocks h b)} = {} \<and>
         (\<forall>a\<in>{udata b..<udata b + u_size (ublocks h b)}. umem h' a = umem h a)))"
proof -
  from process_break.malloc_run [OF assms] obtain h' p where m: "malloc (user_sbrk who) sz h = Some (h', p)"
      "if p = NULL then umem h' = umem h \<and> ubase h' = ubase h \<and> break_ok who (ukern h') \<and> ubrk h' = 2 ^ 32 - 1
       else \<exists>bs'. uheap_inv (break_ok who) (user_break who) h' bs' \<and> granted h bs h' bs' sz p \<and> set bs \<subseteq> set bs' \<and>
         (bs \<noteq> [] \<longrightarrow> ubase h' = ubase h) \<and> (\<forall>a. a \<notin> headers bs' \<longrightarrow> umem h' a = umem h a)" by blast
  show ?thesis
  proof (cases "p = NULL")
    case False
    then obtain bs' where g: "uheap_inv (break_ok who) (user_break who) h' bs'" "granted h bs h' bs' sz p" "\<forall>a. a \<notin> headers bs' \<longrightarrow> umem h' a = umem h a"
      using m(2) by auto
    note apart = process_break.granted_data(5,6) [OF g(1,2)]
    show ?thesis using m(1) False g apart by (intro exI [of _ h'] exI [of _ p]) (auto intro!: exI [of _ bs'])
  qed (use m in auto)
qed

text \<open>
  C14. \<^verbatim>\<open>free\<close> of a block in use: it returns, whatever is fused the heap is in order again, exactly that
  block is no longer in use, every other block in use keeps its size, and no word outside the headers of the blocks changes.
\<close>

theorem free_correct:
  assumes "uheap_inv (break_ok who) (user_break who) h bs" "b \<in> used_sblocks h bs" "0 < u_size (ublocks h b)"
  shows "\<exists>h' bs'. free (user_sbrk who) (udata b) h = Some h' \<and> uheap_inv (break_ok who) (user_break who) h' bs' \<and> set bs' \<subseteq> set bs \<and>
    (\<forall>a. a \<notin> headers bs \<longrightarrow> umem h' a = umem h a) \<and>
    used_sblocks h' bs' = used_sblocks h bs - {b} \<and> (\<forall>c\<in>used_sblocks h bs - {b}. u_size (ublocks h' c) = u_size (ublocks h c))"
  using process_break.free_run [OF assms] by blast

text \<open>
  C15. \<^verbatim>\<open>realloc\<close> of a block in use. It fails with every word as before; or it returns a block that is large
  enough in place of the old one, and the other blocks in use keep their sizes. Besides the copy, only words of headers
  change, between the base and the break and in the data of no block in use. When
  the block moves, only the words whose index times four is below the old size are copied: the first
  quarter of the block; the rest of its contents is lost.
\<close>

theorem realloc_copies_quarter:
  assumes "uheap_inv (break_ok who) (user_break who) h bs" "b \<in> used_sblocks h bs" "0 < u_size (ublocks h b)" "0 < sz" "sz \<le> 2 ^ 19 - 4"
  shows "\<exists>h' q. realloc (user_sbrk who) (udata b) sz h = Some (h', q) \<and>
    (if q = NULL then umem h' = umem h \<and> ubase h' = ubase h \<and> break_ok who (ukern h')
     else \<exists>bs' W. uheap_inv (break_ok who) (user_break who) h' bs' \<and> used_sblocks h' bs' = insert (get_sblock q) (used_sblocks h bs - {b}) \<and>
       sz \<le> u_size (ublocks h' (get_sblock q)) \<and> (\<forall>c\<in>used_sblocks h bs - {b}. u_size (ublocks h' c) = u_size (ublocks h c)) \<and>
       header_words (ubase h) (user_break who (ukern h')) h' bs' W \<and>
       (if q = udata b then \<forall>a. a \<notin> W \<longrightarrow> umem h' a = umem h a
        else get_sblock q \<notin> used_sblocks h bs \<and>
          (\<forall>a. a \<notin> W \<longrightarrow> umem h' a = (if q \<le> a \<and> (a - q) * 4 < u_size (ublocks h b) then umem h (udata b + (a - q)) else umem h a))))"
  by (rule process_break.realloc_run [OF assms])

text \<open>
  C38. A failed request spoils the break that \<^verbatim>\<open>sbrk\<close> caches: asked for the break, it answers \<open>0xffffffff\<close>. The
  next request that no free block fits is a fault, though the system call grants the memory: the header of the new block
  is written there and on, and its second word is word 0 of the program, in the page that is protected.
\<close>

theorem malloc_after_failed_sbrk_faults:
  assumes "uheap_inv (break_ok who) (user_break who) h bs" "0 < sz0" "sz0 \<le> 2 ^ 19" "malloc (user_sbrk who) sz0 h = Some (h1, NULL)"
    and "0 < sz" "sz \<le> 2 ^ 19" "\<forall>b\<in>set bs. \<not> ufit (ublocks h) (align4 sz) b"
    and "user_sbrk who (BLOCK_SIZE + align4 sz) (ukern h1) = Some (k', r)" "r \<noteq> - 1"
  shows "sbrk (user_sbrk who) 0 h1 = Some (h1, 2 ^ 32 - 1) \<and> malloc (user_sbrk who) sz h1 = None"
  by (rule process_break.malloc_after_failure [OF assms])

section \<open>A process with a heap\<close>

text \<open>
  All pages are taken; the heap of process 1 starts at its word 1524 and has 523 words left. In \<open>uheap1\<close> there is one block of
  12 words. Each word of memory outside the header holds its address.
\<close>

definition kernel_heap :: "int \<Rightarrow> kernel" where
  "kernel_heap brk = (upd_proc 1 (\<lambda>r. r\<lparr>p_heap_top := 4596, p_heap_break := brk, p_heap_bottom := 5119, p_protection_table := replicate 32 0,
     p_ctx := (p_ctx r)\<lparr>c_rbase := 3072\<rparr>\<rparr>) kernel0)\<lparr>kmm := \<lparr>mem_map = replicate 4 0xffffffff, bss_page_end = 5\<rparr>\<rparr>"

definition uheap0 :: "kernel uheap" where
  "uheap0 = \<lparr>ubase = NULL, ubrk = NULL, umem = \<lambda>a. a, ukern = kernel_heap 4596\<rparr>"

definition uheap1 :: "kernel uheap" where
  "uheap1 = \<lparr>ubase = 1524, ubrk = 1541, umem = (\<lambda>a. a)(1524 := 12, 1525 := NULL, 1526 := NULL, 1527 := 0, 1528 := 1529), ukern = kernel_heap 4613\<rparr>"

lemma kernel_heap_ok: "4596 \<le> brk \<Longrightarrow> brk \<le> 5119 \<Longrightarrow> break_ok 1 (kernel_heap brk)"
proof -
  have "used_pages (kmm (kernel_heap brk)) = {..<128}" by (simp add: kernel_heap_def used_pages_def)
  moreover have "{..<5} \<subseteq> {..<128 :: nat}" by auto
  moreover assume "4596 \<le> brk" "brk \<le> 5119"
  ultimately show ?thesis by (simp add: break_ok_def page_inv_def heap_inv_def used_pages_def) (simp add: kernel_heap_def)
qed

lemma uheap0_inv: "uheap_inv (break_ok 1) (user_break 1) uheap0 []"
  using kernel_heap_ok [of 4596] by (simp add: uheap_inv_def uheap0_def user_break_def) (simp add: kernel_heap_def)

lemma uheap1_inv: "uheap_inv (break_ok 1) (user_break 1) uheap1 [1524]" and uheap1_used: "used_sblocks uheap1 [1524] = {1524}"
proof -
  have "user_break 1 (kernel_heap 4613) = 1541" by (simp add: user_break_def kernel_heap_def)
  then show "uheap_inv (break_ok 1) (user_break 1) uheap1 [1524]" using kernel_heap_ok [of 4613] by (simp add: uheap_inv_def uheap1_def ublocks_def)
  show "used_sblocks uheap1 [1524] = {1524}" by (auto simp: used_sblocks_def uheap1_def ublocks_def)
qed

lemmas heap_eval = malloc_def extend_sblock_heap_def link_sblock_def sbrk_def user_sbrk_def sys_sbrk_def vaddr_def get_virtual_addr_def set_syscall_reply_def
  align4_def to_int_def udata_def ptr_add_def uload_def ustore_def

text \<open>An address handed out on the empty heap.\<close>

lemma malloc_correct_witness:
  "\<exists>h' bs'. malloc (user_sbrk 1) 10 uheap0 = Some (h', 1529) \<and> uheap_inv (break_ok 1) (user_break 1) h' bs' \<and> granted uheap0 [] h' bs' 10 1529 \<and>
     (\<forall>a. a \<notin> headers bs' \<longrightarrow> umem h' a = umem uheap0 a)"
proof -
  have "\<exists>h'. malloc (user_sbrk 1) 10 uheap0 = Some (h', 1529)" by (simp add: heap_eval uheap0_def kernel_heap_def)
  with malloc_correct [OF uheap0_inv, of 10] show ?thesis by auto
qed

lemma free_correct_witness:
  "\<exists>h' bs'. free (user_sbrk 1) 1529 uheap1 = Some h' \<and> uheap_inv (break_ok 1) (user_break 1) h' bs' \<and> used_sblocks h' bs' = {} \<and>
     (\<forall>a. a \<notin> {1524..<1529} \<longrightarrow> umem h' a = umem uheap1 a)"
proof -
  have "udata 1524 = 1529" "0 < u_size (ublocks uheap1 1524)" by (simp_all add: udata_def ptr_add_def uheap1_def ublocks_def)
  with free_correct [OF uheap1_inv, of 1524] uheap1_used show ?thesis by auto
qed

lemma find_uheap1: "umem h = umem uheap1 \<Longrightarrow> 12 < s \<Longrightarrow> find_sblock h 1524 1524 s = Some (1524, 0)"
  by (subst find_sblock.simps, subst find_sblock.simps) (simp add: uheap1_def uload_def ptr_add_def)

text \<open>A block of 12 words, moved: the third word is copied, the fourth is not.\<close>

lemma realloc_copies_quarter_witness:
  "\<exists>h' bs'. realloc (user_sbrk 1) 1529 20 uheap1 = Some (h', 1546) \<and> uheap_inv (break_ok 1) (user_break 1) h' bs' \<and>
     umem h' 1548 = umem uheap1 1531 \<and> umem h' 1549 = umem uheap1 1549 \<and> umem uheap1 1549 \<noteq> umem uheap1 1532"
proof -
  have b: "udata 1524 = 1529" "u_size (ublocks uheap1 1524) = 12" by (simp_all add: udata_def ptr_add_def uheap1_def ublocks_def)
  have "find_sblock uheap1 1524 1524 20 = Some (1524, 0)" by (simp add: find_uheap1)
  then have "\<exists>h1. realloc (user_sbrk 1) 1529 20 uheap1 =
      do { h \<leftarrow> copy_sblock 1524 1541 h1; h \<leftarrow> free (user_sbrk 1) 1529 h; Some (h, 1546) }"
    by (simp add: realloc_def sblock_valid_addr_def sblock_joins_def sblock_free_def get_sblock_def heap_eval uheap1_def kernel_heap_def) blast
  then obtain h1 where eval: "realloc (user_sbrk 1) 1529 20 uheap1 =
      do { h \<leftarrow> copy_sblock 1524 1541 h1; h \<leftarrow> free (user_sbrk 1) 1529 h; Some (h, 1546) }" by blast
  obtain h' q where rq: "realloc (user_sbrk 1) 1529 20 uheap1 = Some (h', q)"
    using realloc_copies_quarter [OF uheap1_inv, of 1524 20] b uheap1_used by auto
  then have "q = 1546" unfolding eval by (auto simp: bind_eq_Some_conv)
  then have r: "realloc (user_sbrk 1) 1529 20 uheap1 = Some (h', 1546)" using rq by simp
  with realloc_copies_quarter [OF uheap1_inv, of 1524 20] b uheap1_used obtain bs' W where g: "uheap_inv (break_ok 1) (user_break 1) h' bs'"
      "used_sblocks h' bs' = {1541}" "20 \<le> u_size (ublocks h' 1541)" "header_words (ubase uheap1) (user_break 1 (ukern h')) h' bs' W"
      "\<forall>a. a \<notin> W \<longrightarrow> umem h' a = (if 1546 \<le> a \<and> (a - 1546) * 4 < 12 then umem uheap1 (1529 + (a - 1546)) else umem uheap1 a)"
    by (auto simp: get_sblock_def)
  have "a \<notin> W" if "1546 \<le> a" "a < 1566" for a using g(2-4) that by (auto simp: header_words_def udata_def ptr_add_def)
  then show ?thesis using r g(1,5) by (auto simp: uheap1_def)
qed

lemma malloc_after_failed_sbrk_faults_witness:
  "\<exists>h1. malloc (user_sbrk 1) 1000 uheap0 = Some (h1, NULL) \<and> malloc (user_sbrk 1) 10 h1 = None"
proof -
  have full: "user_get_free_pages_from \<lparr>mem_map = replicate 4 0xffffffff, bss_page_end = 5\<rparr> (replicate 32 0) 5120 482 =
      Some (\<lparr>mem_map = replicate 4 0xffffffff, bss_page_end = 5\<rparr>, replicate 32 0, - ENOMEM)" by code_simp
  then have "\<exists>h1. malloc (user_sbrk 1) 1000 uheap0 = Some (h1, NULL) \<and> (\<exists>k' r. user_sbrk 1 17 (ukern h1) = Some (k', r) \<and> r \<noteq> - 1)"
    by (simp add: heap_eval uheap0_def kernel_heap_def)
  moreover have "align4 10 = 12" by (simp add: align4_def)
  ultimately show ?thesis using malloc_after_failed_sbrk_faults [OF uheap0_inv, of 1000 _ 10] by fastforce
qed

end
