(* ===== verification/Shell.thy ===== *)
theory Shell
  imports Str
begin

text \<open>
  The command line parser of the shell (\<^verbatim>\<open>user/wsh/parse.c\<close>). The structure it fills lies in memory at \<open>sc\<close>,
  word by word as \<^verbatim>\<open>struct cmdLine\<close> declares it, so that a store past the end of one of its
  arrays lands in the next field. A scan that runs off the line does not stop at its end.
\<close>

section \<open>Operations\<close>

abbreviation (input) MAX_LINE :: int where "MAX_LINE \<equiv> 100"
abbreviation (input) MAX_COMMANDS :: int where "MAX_COMMANDS \<equiv> 8"
abbreviation (input) MAX_ARGS :: int where "MAX_ARGS \<equiv> 30"

definition cl_buf :: "addr \<Rightarrow> addr" where "cl_buf sc = sc"
definition cl_numCommands :: "addr \<Rightarrow> addr" where "cl_numCommands sc = sc + MAX_LINE"
definition cl_cmdStart :: "addr \<Rightarrow> int \<Rightarrow> addr" where "cl_cmdStart sc i = cl_numCommands sc + 1 + i"
definition cl_job_pid :: "addr \<Rightarrow> int \<Rightarrow> addr" where "cl_job_pid sc i = cl_cmdStart sc MAX_COMMANDS + i"
definition cl_argc :: "addr \<Rightarrow> addr" where "cl_argc sc = cl_job_pid sc MAX_COMMANDS"
definition cl_argv :: "addr \<Rightarrow> int \<Rightarrow> addr" where "cl_argv sc i = cl_argc sc + 1 + i"
definition cl_infile :: "addr \<Rightarrow> addr" where "cl_infile sc = cl_argv sc (MAX_ARGS + 1)"
definition cl_outfile :: "addr \<Rightarrow> addr" where "cl_outfile sc = cl_infile sc + 1"
definition cl_append :: "addr \<Rightarrow> addr" where "cl_append sc = cl_infile sc + 2"
definition cl_background :: "addr \<Rightarrow> addr" where "cl_background sc = cl_infile sc + 3"
definition cl_env :: "addr \<Rightarrow> addr" where "cl_env sc = cl_infile sc + 4"
definition cl_env_val :: "addr \<Rightarrow> addr" where "cl_env_val sc = cl_infile sc + 5"

lemmas cl_defs = cl_buf_def cl_numCommands_def cl_cmdStart_def cl_job_pid_def cl_argc_def cl_argv_def cl_infile_def cl_outfile_def cl_append_def
  cl_background_def cl_env_def cl_env_val_def

text \<open>\<^verbatim>\<open>| < > ' = " `\<close>\<close>

definition isShellSymb :: "int \<Rightarrow> bool" where
  "isShellSymb c \<longleftrightarrow> c = 124 \<or> c = 60 \<or> c = 62 \<or> c = 39 \<or> c = 61 \<or> c = 34 \<or> c = 96"

definition isSeparator :: "int \<Rightarrow> bool" where
  "isSeparator c \<longleftrightarrow> isspace c \<or> isShellSymb c"

text \<open>\<^verbatim>\<open>while (*line != c) line++\<close>: a quote that is not closed is searched for beyond the line.\<close>

partial_function (option) find_char :: "memory \<Rightarrow> int \<Rightarrow> addr \<Rightarrow> addr option" where
  "find_char m c line = (if m line \<noteq> c then find_char m c (line + 1) else Some line)"

partial_function (option) find_end :: "memory \<Rightarrow> addr \<Rightarrow> addr option" where
  "find_end m line = (if m line \<noteq> 0 \<and> \<not> isSeparator (m line) then find_end m (line + 1) else Some line)"

partial_function (option) find_symbol :: "memory \<Rightarrow> int \<Rightarrow> addr \<Rightarrow> addr option" where
  "find_symbol m c line = (if m line \<noteq> 0 \<and> m line \<noteq> c then find_symbol m c (line + 1) else Some line)"

text \<open>The \<^verbatim>\<open>switch\<close>; the last component says that the loop is continued at once.\<close>

definition parse_switch :: "addr \<Rightarrow> memory \<Rightarrow> int \<Rightarrow> addr \<Rightarrow> (memory \<times> int \<times> addr \<times> bool) option" where
  "parse_switch sc m argc line =
     (let c = m line in
      if c = 124
      then let m = m(line := 0, cl_argv sc argc := NULL);
               m = m(cl_numCommands sc := m (cl_numCommands sc) + 1);
               m = m(cl_cmdStart sc (m (cl_numCommands sc)) := argc + 1)
           in Some (m, argc + 1, line + 1, True)
      else if c = 60
      then let m = m(line := 0) in
           do { line \<leftarrow> skip_space m (line + 1); Some (m(cl_infile sc := line), argc, line, False) }
      else if c = 62
      then let m = m(line := 0); line = line + 1;
               (m, line) = (if m line = 62 then (m(cl_append sc := 1), line + 1) else (m, line)) in
           do { line \<leftarrow> skip_space m line; Some (m(cl_outfile sc := line), argc, line, False) }
      else if c = 38 then Some (m(cl_background sc := 1), argc, line, False)
      else if c = 92 then Some (m(cl_argv sc argc := line + 1), argc + 1, line + 2, False)
      else if c = 39
      then let m = m(cl_argv sc argc := line + 1) in
           do { line \<leftarrow> find_char m 39 (line + 1); Some (m(line := 0), argc + 1, line, False) }
      else if c = 34 \<or> c = 96
      then let m = m(cl_argv sc argc := line) in
           do { line \<leftarrow> find_char m c (line + 1); Some (m(line + 1 := 0), argc + 1, line + 2, True) }
      else Some (m(cl_argv sc argc := line), argc + 1, line, False))"

definition parse_env :: "addr \<Rightarrow> memory \<Rightarrow> int \<Rightarrow> addr \<Rightarrow> (memory \<times> int \<times> addr) option" where
  "parse_env sc m argc line =
     (if m line = 61
      then let m = m(line := 0); line = line + 1;
               m = m(cl_env sc := m (cl_argv sc (argc - 1)));
               m = m(cl_argv sc argc := line);
               m = m(cl_env_val sc := m (cl_argv sc argc));
               symbol = (if m line = 34 \<or> m line = 39 then m line else 0) in
           do { line \<leftarrow> find_symbol m symbol (line + 1); Some (m, argc + 1, line + 1) }
      else Some (m, argc, line))"

partial_function (option) parse_loop :: "addr \<Rightarrow> memory \<Rightarrow> int \<Rightarrow> addr \<Rightarrow> (memory \<times> int) option" where
  "parse_loop sc m argc line =
     (if argc < MAX_ARGS - 1 \<and> m (cl_numCommands sc) < MAX_COMMANDS
      then do { line \<leftarrow> skip_space m line;
                if m line = 0 then Some (m, argc)
                else do { (m, argc, line, cont) \<leftarrow> parse_switch sc m argc line;
                          if cont then parse_loop sc m argc line
                          else do { line \<leftarrow> find_end m line;
                                    (m, argc, line) \<leftarrow> parse_env sc m argc line;
                                    if m line = 0 then Some (m, argc)
                                    else parse_loop sc (m(line := 0)) argc (line + 1) } } }
      else Some (m, argc))"

definition parse_init :: "addr \<Rightarrow> memory \<Rightarrow> memory" where
  "parse_init sc m =
     m(cl_argv sc 0 := NULL, cl_outfile sc := NULL, cl_infile sc := NULL, cl_background sc := 0, cl_numCommands sc := 0, cl_append sc := 0,
       cl_cmdStart sc 0 := 0, cl_env_val sc := NULL, cl_env sc := NULL)"

definition parse :: "addr \<Rightarrow> addr \<Rightarrow> memory \<Rightarrow> memory option" where
  "parse input_line sc m =
     do { let m = parse_init sc (strlcpy (cl_buf sc) input_line MAX_LINE m);
          (m, argc) \<leftarrow> parse_loop sc m 0 (cl_buf sc);
          let m = m(cl_argv sc argc := NULL, cl_argv sc (argc + 1) := NULL);
          let m = (if argc > 0 then m(cl_numCommands sc := m (cl_numCommands sc) + 1) else m);
          let m = (if argc = 0 then m(cl_argv sc 0 := cl_buf sc, cl_buf sc := 0) else m);
          Some (m(cl_argc sc := argc)) }"

section \<open>Looking up the environment\<close>

text \<open>\<^verbatim>\<open>getenv\<close>: the rest of an entry after a name it starts with, and the walk over the entries.\<close>

partial_function (option) env_match :: "memory \<Rightarrow> addr \<Rightarrow> addr \<Rightarrow> (addr \<times> addr) option" where
  "env_match m q p = (if m q \<noteq> 0 then if m q = m p then env_match m (q + 1) (p + 1) else Some (q, p + 1) else Some (q, p))"

partial_function (option) getenv_loop :: "memory \<Rightarrow> addr \<Rightarrow> addr \<Rightarrow> addr option" where
  "getenv_loop m name v =
     (if m v = NULL then Some NULL
      else do { (q, p) \<leftarrow> env_match m name (m v);
                if m q \<noteq> 0 \<or> m p \<noteq> 61 then getenv_loop m name (v + 1) else Some (p + 1) })"

definition getenv :: "memory \<Rightarrow> addr \<Rightarrow> addr \<Rightarrow> addr option" where
  "getenv m env name = (if name = NULL then Some NULL else getenv_loop m name env)"

text \<open>\<^verbatim>\<open>parse_quotes\<close>: the value of a variable with \<^verbatim>\<open>$NAME\<close> replaced.\<close>

partial_function (option) name_end :: "memory \<Rightarrow> addr \<Rightarrow> addr option" where
  "name_end m a = (if m a \<noteq> 0 \<and> (isupper (m a) \<or> islower (m a)) then name_end m (a + 1) else Some a)"

partial_function (option) parse_quotes_loop :: "addr \<Rightarrow> int \<Rightarrow> memory \<Rightarrow> addr \<Rightarrow> addr \<Rightarrow> (memory \<times> addr) option" where
  "parse_quotes_loop env buf_len m i out =
     (if m i = 0 then Some (m, out)
      else let m = (if m i = 34 \<or> m i = 39 then m(i := 0) else m) in
           if m i = 36
           then do { let val_start = i + 1;
                     i \<leftarrow> name_end m val_start;
                     let bak_char = m i;
                     let m = m(i := 0);
                     envval \<leftarrow> getenv m env val_start;
                     if envval = NULL then parse_quotes_loop env buf_len (m(i := bak_char)) i out
                     else do { m \<leftarrow> strlcat out envval buf_len (m(out := 0));
                               n \<leftarrow> strlen m envval;
                               parse_quotes_loop env buf_len (m(i := bak_char)) i (out + n) } }
           else parse_quotes_loop env buf_len (m(out := m i)) (i + 1) (out + 1))"

definition parse_quotes :: "addr \<Rightarrow> addr \<Rightarrow> addr \<Rightarrow> int \<Rightarrow> memory \<Rightarrow> memory option" where
  "parse_quotes env input buffer buf_len m =
     do { let i = (if m input = 34 \<or> m input = 39 then input + 1 else input);
          (m, out) \<leftarrow> parse_quotes_loop env buf_len m i buffer;
          Some (m(out := 0)) }"

section \<open>Lines of words and bars\<close>

text \<open>A line is a sequence of words and bars with a blank between each two.\<close>

datatype token = Word "int list" | Bar

primrec token_text :: "token \<Rightarrow> int list" where
  "token_text (Word w) = w"
| "token_text Bar = [124]"

fun line_text :: "token list \<Rightarrow> int list" where
  "line_text [] = []"
| "line_text [t] = token_text t"
| "line_text (t # ts) = token_text t @ 32 # line_text ts"

text \<open>The characters of a word: no separator and none that the parser treats specially.\<close>

definition plain :: "int \<Rightarrow> bool" where
  "plain c \<longleftrightarrow> \<not> isSeparator c \<and> c \<noteq> 38 \<and> c \<noteq> 92"

primrec token_ok :: "token \<Rightarrow> bool" where
  "token_ok (Word w) \<longleftrightarrow> w \<noteq> [] \<and> list_all plain w"
| "token_ok Bar \<longleftrightarrow> True"

text \<open>The positions in the argument vector where the commands after the first start.\<close>

primrec starts :: "int \<Rightarrow> token list \<Rightarrow> int list" where
  "starts n [] = []"
| "starts n (t # ts) = (case t of Word w \<Rightarrow> [] | Bar \<Rightarrow> [n + 1]) @ starts (n + 1) ts"

text \<open>What the parser leaves for a token: a terminated copy of the word in the line buffer, or a null pointer.\<close>

primrec token_at :: "addr \<Rightarrow> memory \<Rightarrow> addr \<Rightarrow> token \<Rightarrow> bool" where
  "token_at sc m p (Word w) \<longleftrightarrow> p \<noteq> NULL \<and> sc \<le> p \<and> p + int (length w) < sc + MAX_LINE \<and> cstring m p w"
| "token_at sc m p Bar \<longleftrightarrow> p = NULL"

lemma isspace_0 [simp]: "isspace 0" and isspace_32 [simp]: "isspace 32" and isspace_124 [simp]: "\<not> isspace 124"
  by (simp_all add: isspace_def to_int_def)

lemma plain_facts: "plain c \<Longrightarrow> c \<noteq> 0 \<and> \<not> isspace c \<and> \<not> isSeparator c \<and> c \<notin> {124, 60, 62, 39, 61, 34, 96, 38, 92}"
  using isspace_0 by (auto simp: plain_def isSeparator_def isShellSymb_def)

lemma skip_space_none: "\<not> isspace (m a) \<Longrightarrow> skip_space m a = Some a"
  by (subst skip_space.simps) simp

lemma skip_space_one: "isspace (m a) \<Longrightarrow> skip_space m a = skip_space m (a + 1)"
  by (subst skip_space.simps) simp

lemma find_end_word: "list_all plain w \<Longrightarrow> \<forall>i<length w. m (a + int i) = w ! i \<Longrightarrow> isSeparator (m (a + int (length w))) \<Longrightarrow>
    find_end m a = Some (a + int (length w))"
proof (induction w arbitrary: a)
  case Nil
  then show ?case by (subst find_end.simps) simp
next
  case (Cons c w)
  have c: "m a = c" "plain c" using Cons.prems(1,2) by auto
  have "m (a + 1 + int i) = w ! i" if "i < length w" for i using Cons.prems(2) [rule_format, of "Suc i"] that by (simp add: algebra_simps)
  then have "find_end m (a + 1) = Some (a + 1 + int (length w))" using Cons.prems by (intro Cons.IH) (auto simp: algebra_simps)
  then show ?case using c plain_facts [of c] by (subst find_end.simps) (simp add: algebra_simps)
qed

text \<open>One turn of the loop at a word.\<close>

lemma parse_word:
  assumes loop: "argc < 29" "m (cl_numCommands sc) < 8" and sp: "skip_space m line0 = Some line" and w: "w \<noteq> []" "list_all plain w"
    and at: "\<forall>i<length w. m (line + int i) = w ! i" and buf: "sc \<le> line" "line + int (length w) < sc + 100" "0 \<le> argc"
    and e: "e = line + int (length w)" "isSeparator (m e)" "m e \<noteq> 61"
  shows "parse_loop sc m argc line0 =
    (if m e = 0 then Some (m(cl_argv sc argc := line), argc + 1) else parse_loop sc (m(cl_argv sc argc := line, e := 0)) (argc + 1) (e + 1))"
proof -
  have c: "plain (m line)" using at w by (cases w) auto
  note f = plain_facts [OF c]
  define m1 where "m1 = m(cl_argv sc argc := line)"
  have same: "m1 a = m a" if "a < sc + 100" for a using that buf(3) by (auto simp: m1_def cl_defs)
  have "find_end m1 line = Some e" unfolding e(1) using at buf e by (intro find_end_word [OF w(2)]) (auto simp: same)
  moreover have "parse_switch sc m argc line = Some (m1, argc + 1, line, False)" using f by (simp add: parse_switch_def Let_def m1_def)
  moreover have "parse_env sc m1 (argc + 1) e = Some (m1, argc + 1, e)" using e buf by (auto simp: parse_env_def same)
  moreover have "m1 e = m e" using buf e by (simp add: same)
  ultimately show ?thesis using loop sp f by (subst parse_loop.simps) (simp add: m1_def [symmetric])
qed

lemma parse_bar:
  assumes "argc < 29" "m (cl_numCommands sc) < 8" "skip_space m line0 = Some line" "m line = 124" "sc \<le> line" "line < sc + 100" "0 \<le> argc"
    and n: "m (cl_numCommands sc) = n"
  shows "parse_loop sc m argc line0 =
    parse_loop sc (m(line := 0, cl_argv sc argc := NULL, cl_numCommands sc := n + 1, cl_cmdStart sc (n + 1) := argc + 1)) (argc + 1) (line + 1)"
proof -
  have "parse_switch sc m argc line =
      Some (m(line := 0, cl_argv sc argc := NULL, cl_numCommands sc := n + 1, cl_cmdStart sc (n + 1) := argc + 1), argc + 1, line + 1, True)"
    using assms by (simp add: parse_switch_def Let_def cl_defs)
  then show ?thesis using assms by (subst parse_loop.simps) simp
qed

lemma cstringI: "(\<And>i. i < length xs \<Longrightarrow> m (a + int i) = xs ! i \<and> xs ! i \<noteq> 0) \<Longrightarrow> m (a + int (length xs)) = 0 \<Longrightarrow> cstring m a xs"
proof (induction xs arbitrary: a)
  case (Cons x xs)
  have "m (a + 1 + int i) = xs ! i \<and> xs ! i \<noteq> 0" if "i < length xs" for i using Cons.prems(1) [of "Suc i"] that by (simp add: algebra_simps)
  then have "cstring m (a + 1) xs" using Cons.prems(2) by (intro Cons.IH) (auto simp: algebra_simps)
  then show ?case using Cons.prems(1) [of 0] by simp
qed simp

lemma cstring_split:
  assumes "cstring m a (xs @ ys)"
  shows "\<forall>i<length xs. m (a + int i) = xs ! i" "cstring m (a + int (length xs)) ys"
  using cstring_nth [OF assms] cstring_drop [OF assms, of "length xs"] by (auto simp: nth_append)

lemma line_text_Cons: "ts \<noteq> [] \<Longrightarrow> line_text (t # ts) = token_text t @ 32 # line_text ts"
  by (cases ts) simp_all

lemma line_text_first: "ts \<noteq> [] \<Longrightarrow> list_all token_ok ts \<Longrightarrow> cstring m a (line_text ts) \<Longrightarrow> \<not> isspace (m a)"
proof -
  assume a: "ts \<noteq> []" "list_all token_ok ts" "cstring m a (line_text ts)"
  obtain t us where ts: "ts = t # us" using a(1) by (cases ts) auto
  then obtain rest where "line_text ts = token_text t @ rest" by (cases "us = []") (simp_all add: line_text_Cons)
  moreover have "token_text t \<noteq> []" "\<not> isspace (hd (token_text t))"
    using a(2) ts plain_facts by (cases t; auto simp: neq_Nil_conv)+
  ultimately show ?thesis using a(3) by (cases "token_text t") auto
qed

text \<open>What the rest of the line, read from \<open>line\<close> on, adds to what was parsed before.\<close>

definition parsed :: "addr \<Rightarrow> memory \<Rightarrow> int \<Rightarrow> addr \<Rightarrow> int \<Rightarrow> token list \<Rightarrow> memory \<Rightarrow> bool" where
  "parsed sc m argc line n ts m' \<longleftrightarrow>
     (\<forall>i<length ts. token_at sc m' (m' (cl_argv sc (argc + int i))) (ts ! i)) \<and> m' (cl_numCommands sc) = n + int (length (starts argc ts)) \<and>
     (\<forall>j<length (starts argc ts). m' (cl_cmdStart sc (n + 1 + int j)) = starts argc ts ! j) \<and>
     (\<forall>a. (a < line \<or> sc + 100 \<le> a) \<and> (a < cl_argv sc argc \<or> cl_argv sc (argc + int (length ts)) \<le> a) \<and> a \<noteq> cl_numCommands sc \<and>
        (a < cl_cmdStart sc (n + 1) \<or> cl_cmdStart sc (n + 1 + int (length (starts argc ts))) \<le> a) \<longrightarrow> m' a = m a)"

lemma parsed_word:
  assumes rest: "parsed sc m1 (argc + 1) (e + 1) n ts m'" and m1: "m1 = m(cl_argv sc argc := line, e := 0)" and n: "n + int (length (starts (argc + 1) ts)) < 8" "0 \<le> n" "0 \<le> argc"
    and e: "e = line + int (length w)" "e < sc + 100" "sc \<le> line" "0 < sc" and w: "list_all plain w" "\<forall>i<length w. m (line + int i) = w ! i"
  shows "parsed sc m argc line n (Word w # ts) m'"
proof -
  have fr: "m' a = m1 a" if "a \<le> e \<or> sc + 100 \<le> a" "a < cl_argv sc (argc + 1) \<or> cl_argv sc (argc + 1 + int (length ts)) \<le> a" "a \<noteq> cl_numCommands sc"
      "a < cl_cmdStart sc (n + 1) \<or> cl_cmdStart sc (n + 1 + int (length (starts (argc + 1) ts))) \<le> a" for a
    using rest that unfolding parsed_def by auto
  have low: "m' a = m1 a" if "a \<le> e" for a using that e n by (intro fr) (auto simp: cl_defs)
  have p: "m' (cl_argv sc argc) = line" using e n by (subst fr) (auto simp: m1 cl_defs)
  have word: "m' (line + int i) = w ! i" if "i < length w" for i
    using that w(2) e n by (subst low) (auto simp: m1 cl_defs)
  have "w ! i \<noteq> 0" if "i < length w" for i using w(1) that plain_facts [of "w ! i"] by (simp add: list_all_length)
  moreover have "m' e = 0" using low [of e] by (simp add: m1)
  ultimately have "cstring m' line w" using word e(1) by (intro cstringI) auto
  then have tok: "token_at sc m' (m' (cl_argv sc argc)) (Word w)" using p e by simp
  have "token_at sc m' (m' (cl_argv sc (argc + int i))) ((Word w # ts) ! i)" if "i < length (Word w # ts)" for i
    using that rest tok unfolding parsed_def by (cases i) (auto simp: algebra_simps)
  moreover have "m' a = m a" if "(a < line \<or> sc + 100 \<le> a) \<and> (a < cl_argv sc argc \<or> cl_argv sc (argc + int (length (Word w # ts))) \<le> a) \<and> a \<noteq> cl_numCommands sc \<and>
        (a < cl_cmdStart sc (n + 1) \<or> cl_cmdStart sc (n + 1 + int (length (starts argc (Word w # ts)))) \<le> a)" for a
    using that e by (subst fr) (auto simp: m1 cl_defs)
  ultimately show ?thesis using rest unfolding parsed_def by simp
qed

lemma parsed_bar:
  assumes rest: "parsed sc m1 (argc + 1) (line + 2) (n + 1) ts m'" and n: "n + 1 + int (length (starts (argc + 1) ts)) < 8" "0 \<le> n" "0 \<le> argc"
    and m1: "m1 = m(line := 0, cl_argv sc argc := NULL, cl_numCommands sc := n + 1, cl_cmdStart sc (n + 1) := argc + 1)"
    and buf: "sc \<le> line" "line < sc + 100"
  shows "parsed sc m argc line n (Bar # ts) m'"
proof -
  have fr: "m' a = m1 a" if "a < line + 2 \<or> sc + 100 \<le> a" "a < cl_argv sc (argc + 1) \<or> cl_argv sc (argc + 1 + int (length ts)) \<le> a" "a \<noteq> cl_numCommands sc"
      "a < cl_cmdStart sc (n + 2) \<or> cl_cmdStart sc (n + 2 + int (length (starts (argc + 1) ts))) \<le> a" for a
    using rest that unfolding parsed_def by (auto simp: algebra_simps)
  have p: "m' (cl_argv sc argc) = NULL" using n buf by (subst fr) (auto simp: m1 cl_defs)
  have c: "m' (cl_cmdStart sc (n + 1)) = argc + 1" using n buf by (subst fr) (auto simp: m1 cl_defs)
  have "token_at sc m' (m' (cl_argv sc (argc + int i))) ((Bar # ts) ! i)" if "i < length (Bar # ts)" for i
    using that rest p unfolding parsed_def by (cases i) (auto simp: algebra_simps)
  moreover have "m' (cl_cmdStart sc (n + 1 + int j)) = starts argc (Bar # ts) ! j" if "j < length (starts argc (Bar # ts))" for j
    using that rest c unfolding parsed_def by (cases j) (auto simp: algebra_simps)
  moreover have "m' a = m a" if "(a < line \<or> sc + 100 \<le> a) \<and> (a < cl_argv sc argc \<or> cl_argv sc (argc + int (length (Bar # ts))) \<le> a) \<and> a \<noteq> cl_numCommands sc \<and>
        (a < cl_cmdStart sc (n + 1) \<or> cl_cmdStart sc (n + 1 + int (length (starts argc (Bar # ts)))) \<le> a)" for a
    using that buf by (subst fr) (auto simp: m1 cl_defs)
  ultimately show ?thesis using rest unfolding parsed_def by simp
qed

lemma parse_tokens:
  assumes "ts \<noteq> []" "list_all token_ok ts" "last ts \<noteq> Bar" "skip_space m line0 = Some line" "cstring m line (line_text ts)"
    "sc \<le> line" "line + int (length (line_text ts)) < sc + 100" "0 < sc" "0 \<le> argc" "argc + int (length ts) \<le> 29"
    "m (cl_numCommands sc) = n" "0 \<le> n" "n + int (length (starts argc ts)) < 8"
  shows "\<exists>m'. parse_loop sc m argc line0 = Some (m', argc + int (length ts)) \<and> parsed sc m argc line n ts m'"
  using assms
proof (induction ts arbitrary: m line0 line argc n)
  case (Cons t ts)
  note buf = Cons.prems(6-9)
  show ?case
  proof (cases t)
    case (Word w)
    define e where "e = line + int (length w)"
    have w: "w \<noteq> []" "list_all plain w" using Cons.prems(2) Word by auto
    define rest where "rest = (if ts = [] then [] else 32 # line_text ts)"
    have tx: "line_text (t # ts) = w @ rest" using Word by (cases "ts = []") (simp_all add: rest_def line_text_Cons)
    note at = cstring_split [OF Cons.prems(5) [unfolded tx]]
    have len: "e < sc + 100" using Cons.prems(7) by (simp add: tx e_def)
    have me: "m e = (if ts = [] then 0 else 32)" using at(2) by (simp add: rest_def e_def split: if_splits)
    then have sep: "isSeparator (m e)" "m e \<noteq> 61" by (auto simp: isSeparator_def)
    have n: "n + int (length (starts (argc + 1) ts)) < 8" using Cons.prems(13) Word by simp
    then have loop: "argc < 29" "m (cl_numCommands sc) < 8" using Cons.prems(10,11) by auto
    note step = parse_word [OF loop Cons.prems(4) w at(1) buf(1) len [unfolded e_def] buf(4) e_def sep]
    define m1 where "m1 = m(cl_argv sc argc := line, e := 0)"
    show ?thesis
    proof (cases "ts = []")
      case True
      have run: "parse_loop sc m argc line0 = Some (m(cl_argv sc argc := line), argc + 1)" using step me True by simp
      have "m1 = m(cl_argv sc argc := line)" using me True len buf by (auto simp: m1_def fun_upd_def cl_defs)
      moreover have "parsed sc m1 (argc + 1) (e + 1) n [] m1" using Cons.prems(11) len buf by (auto simp: parsed_def m1_def cl_defs)
      from parsed_word [OF this m1_def _ Cons.prems(12) buf(4) e_def len buf(1,3) w(2) at(1)] n True
      have "parsed sc m argc line n [Word w] m1" by simp
      ultimately show ?thesis using run True Word by simp
    next
      case False
      have rest1: "cstring m (e + 1) (line_text ts)" using at(2) False by (simp add: rest_def e_def)
      have ok: "list_all token_ok ts" "last ts \<noteq> Bar" using Cons.prems(2,3) False by auto
      have e1: "e + 1 + int (length (line_text ts)) < sc + 100" using Cons.prems(7) False by (simp add: tx rest_def e_def)
      have same: "m1 a = m a" if "e < a" "a < sc + 100" for a using that buf(4) by (auto simp: m1_def cl_defs)
      have c1: "cstring m1 (e + 1) (line_text ts)" using rest1 e1 by (subst cstring_cong [of _ _ _ m]) (auto simp: same)
      have n1: "m1 (cl_numCommands sc) = n" using Cons.prems(11) len buf(4) by (auto simp: m1_def cl_defs)
      have s1: "skip_space m1 (e + 1) = Some (e + 1)" using line_text_first [OF False ok(1) c1] by (rule skip_space_none)
      have "sc \<le> e + 1" "argc + 1 + int (length ts) \<le> 29" using buf(1) Cons.prems(10) by (auto simp: e_def)
      from Cons.IH [OF False ok s1 c1 this(1) e1 buf(3) _ this(2) n1 Cons.prems(12) n] buf(4)
      obtain m' where m': "parse_loop sc m1 (argc + 1) (e + 1) = Some (m', argc + 1 + int (length ts))" "parsed sc m1 (argc + 1) (e + 1) n ts m'" by auto
      have "parse_loop sc m argc line0 = Some (m', argc + int (length (t # ts)))" using step me False m'(1) by (simp add: m1_def)
      moreover have "parsed sc m argc line n (t # ts) m'"
        using parsed_word [OF m'(2) m1_def n Cons.prems(12) buf(4) e_def len buf(1,3) w(2) at(1)] Word by simp
      ultimately show ?thesis by blast
    qed
  next
    case Bar
    then have ne: "ts \<noteq> []" using Cons.prems(3) by auto
    have tx: "line_text (t # ts) = [124, 32] @ line_text ts" using Bar ne by (simp add: line_text_Cons)
    note at = cstring_split [OF Cons.prems(5) [unfolded tx]]
    have at0: "m line = 124" "m (line + 1) = 32" and rest: "cstring m (line + 2) (line_text ts)" using at(1) [rule_format, of 0] at(1) [rule_format, of 1] at(2) by simp_all
    have ok: "list_all token_ok ts" "last ts \<noteq> Bar" using Cons.prems(2,3) ne by auto
    have n: "n + 1 + int (length (starts (argc + 1) ts)) < 8" using Cons.prems(13) Bar by simp
    have len: "line < sc + 100" "line + 2 + int (length (line_text ts)) < sc + 100" using Cons.prems(7) by (simp_all add: tx)
    define m1 where "m1 = m(line := 0, cl_argv sc argc := NULL, cl_numCommands sc := n + 1, cl_cmdStart sc (n + 1) := argc + 1)"
    have same: "m1 a = m a" if "line < a" "a < sc + 100" for a using that buf(4) Cons.prems(12) by (auto simp: m1_def cl_defs)
    have c1: "cstring m1 (line + 2) (line_text ts)" using rest len by (subst cstring_cong [of _ _ _ m]) (auto simp: same)
    have "m1 (line + 1) = 32" using at0(2) len by (subst same) auto
    then have s1: "skip_space m1 (line + 1) = Some (line + 2)"
      using skip_space_one [of m1 "line + 1"] skip_space_none [of m1 "line + 2"] line_text_first [OF ne ok(1) c1] by (simp add: add.commute)
    have n1: "m1 (cl_numCommands sc) = n + 1" using Cons.prems(12) by (simp add: m1_def cl_defs)
    have "sc \<le> line + 2" "argc + 1 + int (length ts) \<le> 29" using buf(1) Cons.prems(10) by auto
    from Cons.IH [OF ne ok s1 c1 this(1) len(2) buf(3) _ this(2) n1 _ n] buf(4) Cons.prems(12)
    obtain m' where m': "parse_loop sc m1 (argc + 1) (line + 1) = Some (m', argc + 1 + int (length ts))" "parsed sc m1 (argc + 1) (line + 2) (n + 1) ts m'" by auto
    have "argc < 29" "m (cl_numCommands sc) < 8" using Cons.prems(10,11) n by auto
    from parse_bar [OF this Cons.prems(4) at0(1) buf(1) len(1) buf(4) Cons.prems(11)] m'(1)
    have "parse_loop sc m argc line0 = Some (m', argc + int (length (t # ts)))" by (simp add: m1_def)
    moreover have "parsed sc m argc line n (t # ts) m'" using parsed_bar [OF m'(2) n Cons.prems(12) buf(4) m1_def buf(1) len(1)] Bar by simp
    ultimately show ?thesis by blast
  qed
qed simp

section \<open>The finished structure\<close>

definition command_line :: "addr \<Rightarrow> memory \<Rightarrow> token list \<Rightarrow> bool" where
  "command_line sc m ts \<longleftrightarrow>
     m (cl_argc sc) = int (length ts) \<and> (\<forall>i<length ts. token_at sc m (m (cl_argv sc (int i))) (ts ! i)) \<and>
     m (cl_argv sc (int (length ts))) = NULL \<and> m (cl_argv sc (int (length ts) + 1)) = NULL \<and>
     m (cl_numCommands sc) = 1 + int (length (starts 0 ts)) \<and> m (cl_cmdStart sc 0) = 0 \<and>
     (\<forall>j<length (starts 0 ts). m (cl_cmdStart sc (1 + int j)) = starts 0 ts ! j) \<and>
     m (cl_infile sc) = NULL \<and> m (cl_outfile sc) = NULL \<and> m (cl_background sc) = 0 \<and> m (cl_env sc) = NULL"

lemma token_at_cong: "(\<And>a. a < sc + 100 \<Longrightarrow> m' a = m a) \<Longrightarrow> token_at sc m p t \<Longrightarrow> token_at sc m' p t"
  using cstring_cong [of p _ m' m] by (cases t) auto

lemma length_starts: "length (starts n ts) \<le> length ts"
  by (induction ts arbitrary: n) (auto split: token.splits intro: le_SucI)

lemma parsed_mono: "parsed sc m argc line n ts m' \<Longrightarrow> line' \<le> line \<Longrightarrow> parsed sc m argc line' n ts m'"
  by (auto simp: parsed_def)

lemma parse_finish:
  assumes line: "cstring m input xs" "length xs < 100" "sc + 155 \<le> input \<or> input + int (length xs) < sc" "0 < sc"
    and ts: "ts \<noteq> []" "length ts \<le> 29" "length (starts 0 ts) < 8"
    and loop: "\<And>m1. cstring m1 sc xs \<Longrightarrow> (\<forall>a. sc + int (length xs) < a \<and> a < sc + 100 \<longrightarrow> m1 a = m a) \<Longrightarrow> m1 (cl_numCommands sc) = 0 \<Longrightarrow>
      \<exists>m'. parse_loop sc m1 0 sc = Some (m', int (length ts)) \<and> parsed sc m1 0 sc 0 ts m'"
  shows "\<exists>m'. parse input sc m = Some m' \<and> command_line sc m' ts"
proof -
  have "sc + int 101 < input \<or> input + int (length xs) < sc" using line(2,3) by auto
  from copy_loop_run [OF line(1) this] obtain m0 where m0: "copy_loop 101 sc input m = (m0, sc + int (length xs))"
    "\<And>a. m0 a = (if sc \<le> a \<and> a < sc + int (length xs) then xs ! nat (a - sc) else m a)" using line(2) by (auto simp: min_def)
  define m1 where "m1 = parse_init sc (m0(sc + int (length xs) := 0))"
  have low: "m1 a = (m0(sc + int (length xs) := 0)) a" if "a < sc + 100" for a using that by (simp add: m1_def parse_init_def cl_defs)
  have nz: "xs ! i \<noteq> 0" if "i < length xs" for i using cstring_nth [OF line(1) that] by simp
  have cs: "cstring m1 sc xs" using line(2) nz by (intro cstringI) (auto simp: low m0(2))
  have "\<forall>a. sc + int (length xs) < a \<and> a < sc + 100 \<longrightarrow> m1 a = m a" by (auto simp: low m0(2))
  moreover have fields: "m1 (cl_numCommands sc) = 0" "m1 (cl_cmdStart sc 0) = 0" "m1 (cl_infile sc) = NULL" "m1 (cl_outfile sc) = NULL"
    "m1 (cl_background sc) = 0" "m1 (cl_env sc) = NULL" by (simp_all add: m1_def parse_init_def cl_defs)
  ultimately obtain m' where m': "parse_loop sc m1 0 sc = Some (m', int (length ts))" "parsed sc m1 0 sc 0 ts m'" using loop [OF cs] by blast
  let ?n = "int (length ts)" let ?k = "int (length (starts 0 ts))"
  define m2 where "m2 = m'(cl_argv sc ?n := NULL, cl_argv sc (?n + 1) := NULL, cl_numCommands sc := m' (cl_numCommands sc) + 1, cl_argc sc := ?n)"
  have "parse input sc m = Some m2"
    using m0(1) m'(1) ts(1) by (simp add: parse_def strlcpy_def cl_buf_def m1_def [symmetric] m2_def) (simp add: cl_defs)
  moreover have "command_line sc m2 ts"
  proof -
    have fr: "m' a = m1 a" if "sc + 100 \<le> a" "a < cl_argv sc 0 \<or> cl_argv sc ?n \<le> a" "a \<noteq> cl_numCommands sc" "a < cl_cmdStart sc 1 \<or> cl_cmdStart sc (1 + ?k) \<le> a" for a
      using m'(2) that unfolding parsed_def by simp
    have k: "?k < 8" "?n \<le> 29" using ts by auto
    have "m2 (cl_cmdStart sc 0) = 0" "m2 (cl_infile sc) = NULL" "m2 (cl_outfile sc) = NULL" "m2 (cl_background sc) = 0" "m2 (cl_env sc) = NULL"
      using fr [of "cl_cmdStart sc 0"] fr [of "cl_infile sc"] fr [of "cl_outfile sc"] fr [of "cl_background sc"] fr [of "cl_env sc"] fields k
      by (simp_all add: m2_def) (simp_all add: cl_defs)
    moreover have "token_at sc m2 (m2 (cl_argv sc (int i))) (ts ! i)" if "i < length ts" for i
    proof -
      have "token_at sc m' (m' (cl_argv sc (int i))) (ts ! i)" using m'(2) that by (simp add: parsed_def)
      moreover have "m2 (cl_argv sc (int i)) = m' (cl_argv sc (int i))" using that by (simp add: m2_def cl_defs)
      ultimately show ?thesis using token_at_cong [of sc m2 m'] by (simp add: m2_def cl_defs)
    qed
    moreover have "m2 (cl_cmdStart sc (1 + int j)) = starts 0 ts ! j" if "j < length (starts 0 ts)" for j
      using m'(2) that k by (simp add: parsed_def m2_def) (simp add: cl_defs)
    moreover have "m2 (cl_numCommands sc) = 1 + ?k" using m'(2) by (simp add: parsed_def m2_def) (simp add: cl_defs)
    moreover have "m2 (cl_argc sc) = ?n" "m2 (cl_argv sc ?n) = NULL" "m2 (cl_argv sc (?n + 1)) = NULL" by (simp_all add: m2_def cl_defs)
    ultimately show ?thesis by (simp add: command_line_def)
  qed
  ultimately show ?thesis by blast
qed

text \<open>Two words, the second found some blanks or zeros after the end of the first.\<close>

lemma parse_two_words:
  assumes u: "u \<noteq> []" "list_all plain u" and v: "v \<noteq> []" "list_all plain v" and at: "\<forall>i<length u. m (sc + int i) = u ! i"
    and e: "e = sc + int (length u)" "isSeparator (m e)" "m e \<noteq> 61" "m e \<noteq> 0" and sp: "skip_space (m(e := 0)) (e + 1) = Some b" "e < b"
    and second: "cstring m b v" "b + int (length v) < sc + 100" and m: "0 < sc" "m (cl_numCommands sc) = 0"
  shows "\<exists>m'. parse_loop sc m 0 sc = Some (m', 2) \<and> parsed sc m 0 sc 0 [Word u, Word v] m'"
proof -
  have c0: "m sc = u ! 0" "plain (u ! 0)" using at [rule_format, of 0] u by (auto simp: list_all_length)
  have len: "e < sc + 100" using second(2) sp(2) by simp
  define m1 where "m1 = m(cl_argv sc 0 := sc, e := 0)"
  have sp0: "skip_space m sc = Some sc" using c0 plain_facts by (intro skip_space_none) auto
  have loop: "(0 :: int) < 29" "m (cl_numCommands sc) < 8" using m(2) by simp_all
  from parse_word [OF loop sp0 u at _ len [unfolded e(1)] _ e(1-3)] e(4)
  have step: "parse_loop sc m 0 sc = parse_loop sc m1 1 (e + 1)" by (simp add: m1_def)
  have same: "m1 a = (m(e := 0)) a" if "a < sc + 100" for a using that by (auto simp: m1_def cl_defs)
  have skip: "skip_space m1 a = Some b" if "skip_space (m(e := 0)) a = Some b" "e < a" "a \<le> b" for a
    using that
  proof (induction "nat (b - a)" arbitrary: a)
    case 0
    then have "a = b" by simp
    moreover have "\<not> isspace (m1 b)" using second same [of b] sp(2) v plain_facts by (cases v) (auto)
    ultimately show ?case by (simp add: skip_space_none)
  next
    case (Suc k)
    have lt: "a < b" using Suc.hyps(2) by linarith
    have "isspace ((m(e := 0)) a)"
    proof (rule ccontr)
      assume "\<not> isspace ((m(e := 0)) a)"
      then have "skip_space (m(e := 0)) a = Some a" by (rule skip_space_none)
      then show False using Suc.prems(1) lt by simp
    qed
    then have s: "isspace (m1 a)" "skip_space (m(e := 0)) (a + 1) = Some b"
      using Suc.prems(1) skip_space_one [of "m(e := 0)" a] same [of a] lt second(2) by auto
    then have "skip_space m1 (a + 1) = Some b" using lt Suc.hyps(2) Suc.prems(2) by (intro Suc.hyps(1)) auto
    then show ?case using skip_space_one [of m1 a] s(1) by simp
  qed
  have sk: "skip_space m1 (e + 1) = Some b" using sp by (intro skip) auto
  have "m1 a = m a" if "b \<le> a" "a \<le> b + int (length v)" for a using that same [of a] second(2) sp(2) by simp
  then have c1: "cstring m1 b (line_text [Word v])" using second(1) by (simp add: cstring_cong [of b v m1 m])
  have n1: "m1 (cl_numCommands sc) = 0" using m(2) len by (auto simp: m1_def cl_defs)
  from parse_tokens [where argc = 1, OF _ _ _ sk c1 _ _ m(1) _ _ n1] v second(2) sp(2) e(1)
  obtain m' where m': "parse_loop sc m1 1 (e + 1) = Some (m', 2)" "parsed sc m1 1 b 0 [Word v] m'" by auto
  have "parsed sc m1 (0 + 1) (e + 1) 0 [Word v] m'" using parsed_mono [OF m'(2)] sp(2) by simp
  from parsed_word [OF this m1_def _ _ _ e(1) len _ m(1) u(2) at] have "parsed sc m 0 sc 0 [Word u, Word v] m'" by simp
  then show ?thesis using step m'(1) by auto
qed

section \<open>Properties\<close>

text \<open>
  C17. The parser reads back what a line says. A line of words and bars with a blank between each two, that
  ends in a word and fits the limits on characters, arguments and commands, gives a structure
  with the words in order as terminated strings, a null pointer for each bar and two at the end, the number of
  commands and the index where each command starts, and no redirection or assignment.
\<close>

theorem parse_line_text:
  assumes "ts \<noteq> []" "list_all token_ok ts" "last ts \<noteq> Bar" "length (line_text ts) < 100" "length ts \<le> 29" "length (starts 0 ts) < 8"
    and "cstring m input (line_text ts)" "sc + 155 \<le> input \<or> input + int (length (line_text ts)) < sc" "0 < sc"
  shows "\<exists>m'. parse input sc m = Some m' \<and> command_line sc m' ts"
proof (rule parse_finish [OF assms(7,4,8,9,1,5,6)])
  fix m1 assume m1: "cstring m1 sc (line_text ts)" "m1 (cl_numCommands sc) = 0"
  have "skip_space m1 sc = Some sc" using line_text_first [OF assms(1,2) m1(1)] by (rule skip_space_none)
  from parse_tokens [where argc = 0, OF assms(1-3) this m1(1) _ _ assms(9) _ _ m1(2)] assms(4-6)
  show "\<exists>m'. parse_loop sc m1 0 sc = Some (m', int (length ts)) \<and> parsed sc m1 0 sc 0 ts m'" by auto
qed

text \<open>
  A bar that touches the word before it is lost: it ends the word, and the terminator is stored over
  it. The line \<open>u|v\<close> is one command with two words, not a pipe between two commands.
\<close>

theorem parse_loses_glued_bar:
  assumes "u \<noteq> []" "list_all plain u" "v \<noteq> []" "list_all plain v" "length u + length v < 99"
    and "cstring m input (u @ 124 # v)" "sc + 155 \<le> input \<or> input + int (length u + length v + 1) < sc" "0 < sc"
  shows "\<exists>m'. parse input sc m = Some m' \<and> command_line sc m' [Word u, Word v]"
proof (rule parse_finish [OF assms(6) _ _ assms(8)])
  fix m1 assume m1: "cstring m1 sc (u @ 124 # v)" "m1 (cl_numCommands sc) = 0"
  define e where "e = sc + int (length u)"
  note at = cstring_split [OF m1(1), folded e_def]
  have second: "cstring m1 (e + 1) v" "m1 e = 124" using at(2) by simp_all
  have "cstring (m1(e := 0)) (e + 1) v" using second(1) by (subst cstring_cong [of _ _ _ m1]) auto
  then have sp: "skip_space (m1(e := 0)) (e + 1) = Some (e + 1)" using assms(3,4) plain_facts by (intro skip_space_none) (cases v; auto)
  show "\<exists>m'. parse_loop sc m1 0 sc = Some (m', int (length [Word u, Word v])) \<and> parsed sc m1 0 sc 0 [Word u, Word v] m'"
    using parse_two_words [OF assms(1-4) at(1) e_def _ _ _ sp _ second(1) _ assms(8) m1(2)] second(2) assms(5)
    by (simp add: isSeparator_def isShellSymb_def e_def)
qed (use assms(5,7) in auto)

text \<open>
  C36. A blank at the end of a line makes the parser read on behind its end, because \<^verbatim>\<open>isspace\<close> holds for the
  terminating zero as well. A word \<open>v\<close> that an earlier use of the stack left in the rest of the buffer
  becomes an argument of the command.
\<close>

theorem parse_reads_past_end:
  assumes "u \<noteq> []" "list_all plain u" "v \<noteq> []" "list_all plain v" "length u + length v < 97"
    and "cstring m input (u @ [32])" "sc + 155 \<le> input \<or> input + int (length u + 1) < sc" "0 < sc"
    and "cstring m (sc + int (length u) + 2) v"
  shows "\<exists>m'. parse input sc m = Some m' \<and> command_line sc m' [Word u, Word v]"
proof (rule parse_finish [OF assms(6) _ _ assms(8)])
  fix m1 assume m1: "cstring m1 sc (u @ [32])" "\<forall>a. sc + int (length (u @ [32])) < a \<and> a < sc + 100 \<longrightarrow> m1 a = m a" "m1 (cl_numCommands sc) = 0"
  define e where "e = sc + int (length u)"
  note at = cstring_split [OF m1(1), folded e_def]
  have m1e: "m1 e = 32" "m1 (e + 1) = 0" using at(2) by simp_all
  have second: "cstring m1 (e + 2) v" using assms(5,9) m1(2) by (subst cstring_cong [of _ _ _ m]) (auto simp: e_def)
  have "cstring (m1(e := 0)) (e + 2) v" using second(1) by (subst cstring_cong [of _ _ _ m1]) auto
  then have "skip_space (m1(e := 0)) (e + 2) = Some (e + 2)" using assms(3,4) plain_facts by (intro skip_space_none) (cases v; auto)
  then have sp: "skip_space (m1(e := 0)) (e + 1) = Some (e + 2)" using skip_space_one [of "m1(e := 0)" "e + 1"] m1e by (simp add: add.commute)
  show "\<exists>m'. parse_loop sc m1 0 sc = Some (m', int (length [Word u, Word v])) \<and> parsed sc m1 0 sc 0 [Word u, Word v] m'"
    using parse_two_words [OF assms(1-4) at(1) e_def _ _ _ sp _ second _ assms(8) m1(3)] m1e assms(5)
    by (simp add: isSeparator_def e_def)
qed (use assms(5,7) in auto)

text \<open>The line \<open>ls a | wc\<close>, and \<open>ls|wc\<close>, and \<open>ls\<close> with a blank before an old \<open>wc\<close>, in a memory of zeros.\<close>

definition put_text :: "addr \<Rightarrow> int list \<Rightarrow> memory \<Rightarrow> memory" where
  "put_text p xs m = (\<lambda>a. if p \<le> a \<and> a < p + int (length xs) then xs ! nat (a - p) else m a)"

lemma cstring_put_text: "0 \<notin> set xs \<Longrightarrow> m (p + int (length xs)) = 0 \<Longrightarrow> cstring (put_text p xs m) p xs"
  by (intro cstringI) (auto simp: put_text_def in_set_conv_nth)

lemma plain_letters: "plain 97" "plain 99" "plain 108" "plain 115" "plain 119"
  by (simp_all add: plain_def isSeparator_def isShellSymb_def isspace_def to_int_def)

lemma parse_line_text_witness:
  "\<exists>m'. parse 5000 1000 (put_text 5000 [108, 115, 32, 97, 32, 124, 32, 119, 99] (\<lambda>_. 0)) = Some m' \<and> m' (cl_argc 1000) = 4 \<and>
     m' (cl_numCommands 1000) = 2 \<and> m' (cl_cmdStart 1000 1) = 3 \<and> cstring m' (m' (cl_argv 1000 3)) [119, 99]"
proof -
  let ?ts = "[Word [108, 115], Word [97], Bar, Word [119, 99]]"
  have "line_text ?ts = [108, 115, 32, 97, 32, 124, 32, 119, 99]" by simp
  moreover have "list_all token_ok ?ts" using plain_letters by simp
  ultimately obtain m' where m': "parse 5000 1000 (put_text 5000 [108, 115, 32, 97, 32, 124, 32, 119, 99] (\<lambda>_. 0)) = Some m'" "command_line 1000 m' ?ts"
    using parse_line_text [of ?ts "put_text 5000 [108, 115, 32, 97, 32, 124, 32, 119, 99] (\<lambda>_. 0)" 5000 1000]
      cstring_put_text [of "[108, 115, 32, 97, 32, 124, 32, 119, 99]" "\<lambda>_. 0" 5000] by auto
  have tok: "token_at 1000 m' (m' (cl_argv 1000 (int i))) (?ts ! i)" if "i < 4" for i using m'(2) that by (simp add: command_line_def)
  have st: "m' (cl_cmdStart 1000 (1 + int j)) = starts 0 ?ts ! j" if "j < 1" for j using m'(2) that by (simp add: command_line_def)
  show ?thesis using m' tok [of 3] st [of 0] by (auto simp: command_line_def)
qed

lemma parse_loses_glued_bar_witness:
  "\<exists>m'. parse 5000 1000 (put_text 5000 [108, 115, 124, 119, 99] (\<lambda>_. 0)) = Some m' \<and> m' (cl_argc 1000) = 2 \<and> m' (cl_numCommands 1000) = 1"
proof -
  from parse_loses_glued_bar [of "[108, 115]" "[119, 99]" "put_text 5000 [108, 115, 124, 119, 99] (\<lambda>_. 0)" 5000 1000]
    cstring_put_text [of "[108, 115, 124, 119, 99]" "\<lambda>_. 0" 5000] plain_letters
  obtain m' where "parse 5000 1000 (put_text 5000 [108, 115, 124, 119, 99] (\<lambda>_. 0)) = Some m'" "command_line 1000 m' [Word [108, 115], Word [119, 99]]" by auto
  then show ?thesis by (auto simp: command_line_def)
qed

lemma parse_reads_past_end_witness:
  "\<exists>m'. parse 5000 1000 (put_text 1004 [119, 99] (put_text 5000 [108, 115, 32] (\<lambda>_. 0))) = Some m' \<and> m' (cl_argc 1000) = 2"
proof -
  let ?m = "put_text 1004 [119, 99] (put_text 5000 [108, 115, 32] (\<lambda>_. 0))"
  have "cstring (put_text 5000 [108, 115, 32] (\<lambda>_. 0)) 5000 [108, 115, 32]" by (rule cstring_put_text) simp_all
  then have "cstring ?m 5000 [108, 115, 32]" by (subst cstring_cong [of _ _ _ "put_text 5000 [108, 115, 32] (\<lambda>_. 0)"]) (auto simp: put_text_def)
  moreover have "cstring ?m 1004 [119, 99]" by (rule cstring_put_text) (simp_all add: put_text_def)
  ultimately obtain m' where "parse 5000 1000 ?m = Some m'" "command_line 1000 m' [Word [108, 115], Word [119, 99]]"
    using parse_reads_past_end [of "[108, 115]" "[119, 99]" ?m 5000 1000] plain_letters by auto
  then show ?thesis by (auto simp: command_line_def)
qed

end
