(* ===== verification/UserLib.thy ===== *)
theory UserLib
  imports UserHeap Shell
begin

text \<open>
  The parts of the user library that keep their data in the heap: \<^verbatim>\<open>strdup\<close>, the environment
  (\<^verbatim>\<open>lib/ansi/env.c\<close>, \<^verbatim>\<open>putenv.c\<close>, \<^verbatim>\<open>setenv.c\<close>), the history of lines (\<^verbatim>\<open>lib/readline/history.c\<close>) and
  \<^verbatim>\<open>basename\<close>. Strings, tables and entries are words of the program's memory; the variables of
  the library are records that the operations take and return.
\<close>

section \<open>Strings\<close>

definition strdup :: "'k sbrk_call \<Rightarrow> addr \<Rightarrow> 'k uheap \<Rightarrow> ('k uheap \<times> addr) option" where
  "strdup call s h =
     do { n \<leftarrow> strlen (umem h) s;
          let len = n + 1;
          (h, d) \<leftarrow> malloc call len h;
          Some (if d = NULL then (h, NULL) else (h\<lparr>umem := strlcpy d s len (umem h)\<rparr>, d)) }"

partial_function (option) basename_loop :: "memory \<Rightarrow> addr \<Rightarrow> addr \<Rightarrow> addr option" where
  "basename_loop m str last_slash =
     (if m str \<noteq> 0 then basename_loop m (str + 1) (if m str = 47 then str else last_slash) else Some last_slash)"

definition basename :: "memory \<Rightarrow> addr \<Rightarrow> addr option" where
  "basename m str = do { last_slash \<leftarrow> basename_loop m str NULL; Some (if last_slash \<noteq> NULL then last_slash + 1 else str) }"

section \<open>The environment\<close>

record env_state =
  e_environ :: addr
  e_size :: int

text \<open>The address of the environment is the last word of the page of the stack, where \<^verbatim>\<open>build_user_stack\<close> puts it.\<close>

definition get_environ :: "addr \<Rightarrow> memory \<Rightarrow> env_state \<Rightarrow> env_state" where
  "get_environ sp m e = (if e_environ e = NULL then e\<lparr>e_environ := m ((sp mod 2 ^ 32) div 1024 * 1024 + 1023)\<rparr> else e)"

definition rounded :: "int \<Rightarrow> int" where
  "rounded x = (x div 10 + 1) * 10"

text \<open>
  The comparison of \<^verbatim>\<open>putenv\<close>, \<^verbatim>\<open>while (*q && (*q++ == *p++))\<close>: both pointers advance also
  past characters that differ.
\<close>

partial_function (option) put_compare :: "memory \<Rightarrow> addr \<Rightarrow> addr \<Rightarrow> (addr \<times> addr) option" where
  "put_compare m q p = (if m q \<noteq> 0 then if m q = m p then put_compare m (q + 1) (p + 1) else Some (q + 1, p + 1) else Some (q, p))"

partial_function (option) putenv_find :: "memory \<Rightarrow> addr \<Rightarrow> addr \<Rightarrow> addr option" where
  "putenv_find m name v =
     (if m v = NULL then Some NULL
      else do { (q, p) \<leftarrow> put_compare m name (m v);
                if m q \<noteq> 0 \<or> m p \<noteq> 61 then putenv_find m name (v + 1) else Some v })"

partial_function (option) count_entries :: "memory \<Rightarrow> addr \<Rightarrow> int \<Rightarrow> int option" where
  "count_entries m v i = (if m v \<noteq> NULL then count_entries m (v + 1) (i + 1) else Some (i + 1))"

partial_function (option) copy_entries :: "addr \<Rightarrow> addr \<Rightarrow> memory \<Rightarrow> memory option" where
  "copy_entries v p m = (if m p \<noteq> NULL then copy_entries (v + 1) (p + 1) (m(v := m p)) else Some (m(v := NULL)))"

text \<open>The part of \<^verbatim>\<open>putenv\<close> that adds an entry: the table is copied to the heap, or grown, when it has to be.\<close>

definition putenv_add :: "'k sbrk_call \<Rightarrow> addr \<Rightarrow> 'k uheap \<Rightarrow> env_state \<Rightarrow> ('k uheap \<times> env_state \<times> int) option" where
  "putenv_add call name h e =
     (let store = (\<lambda>h e. (h\<lparr>umem := (umem h)(e_environ e + e_size e - 1 := name, e_environ e + e_size e := NULL)\<rparr>, e\<lparr>e_size := e_size e + 1\<rparr>, 0)) in
      if e_size e = 0
      then do { i \<leftarrow> (if e_environ e \<noteq> NULL then count_entries (umem h) (e_environ e) 0 else Some 0);
                (h, v) \<leftarrow> malloc call (rounded i) h;
                if v = NULL then Some (h, e, 1)
                else do { m \<leftarrow> copy_entries v (e_environ e) (umem h);
                          Some (store (h\<lparr>umem := m\<rparr>) \<lparr>e_environ = v, e_size = i\<rparr>) } }
      else if e_size e mod 10 = 0
      then do { (h, v) \<leftarrow> realloc call (e_environ e) (rounded (e_size e)) h;
                Some (if v = NULL then (h, e, 1) else store h (e\<lparr>e_environ := v\<rparr>)) }
      else Some (store h e))"

definition putenv :: "'k sbrk_call \<Rightarrow> addr \<Rightarrow> addr \<Rightarrow> 'k uheap \<Rightarrow> env_state \<Rightarrow> ('k uheap \<times> env_state \<times> int) option" where
  "putenv call sp name h e =
     (if name = NULL then Some (h, e, 0)
      else do {
        let e = get_environ sp (umem h) e;
        r \<leftarrow> index (umem h) name 61;
        if r = NULL then putenv_add call name h e
        else do {
          let m = (umem h)(r := 0);
          v \<leftarrow> (if e_environ e \<noteq> NULL then putenv_find m name (e_environ e) else Some NULL);
          let h = h\<lparr>umem := m(r := 61)\<rparr>;
          if v \<noteq> NULL then Some (h\<lparr>umem := (umem h)(v := name)\<rparr>, e, 0) else putenv_add call name h e } })"

text \<open>\<open>eq\<close> is the address of the string literal \<^verbatim>\<open>"="\<close>.\<close>

definition setenv :: "'k sbrk_call \<Rightarrow> addr \<Rightarrow> addr \<Rightarrow> addr \<Rightarrow> addr \<Rightarrow> bool \<Rightarrow> 'k uheap \<Rightarrow> env_state \<Rightarrow> ('k uheap \<times> env_state \<times> int) option" where
  "setenv call sp eq name val overwrite h e =
     do { let e1 = (if overwrite \<or> name = NULL then e else get_environ sp (umem h) e);
          old \<leftarrow> (if overwrite then Some NULL else getenv (umem h) (e_environ e1) name);
          if old \<noteq> NULL then Some (h, e1, 0)
          else do {
            n \<leftarrow> strlen (umem h) name;
            l \<leftarrow> strlen (umem h) val;
            let len = n + l + 2;
            (h, buf) \<leftarrow> malloc call len h;
            if buf = NULL then Some (h, e1, - 1)
            else do { let m = strlcpy buf name len (umem h);
                      m \<leftarrow> strlcat buf eq len m;
                      m \<leftarrow> strlcat buf val len m;
                      putenv call sp buf (h\<lparr>umem := m\<rparr>) e1 } } }"

section \<open>The history\<close>

record hist_state =
  hs_entries :: addr
  hs_offset :: int
  hs_length :: int
  hs_size :: int
  hs_flags :: int

definition init_history :: "'k sbrk_call \<Rightarrow> 'k uheap \<Rightarrow> hist_state \<Rightarrow> ('k uheap \<times> hist_state) option" where
  "init_history call h s =
     (if hs_entries s \<noteq> NULL then Some (h, s)
      else do { (h, p) \<leftarrow> malloc call 10 h; Some (h, \<lparr>hs_entries = p, hs_offset = 0, hs_length = 0, hs_size = 10, hs_flags = 0\<rparr>) })"

definition add_history :: "'k sbrk_call \<Rightarrow> addr \<Rightarrow> 'k uheap \<Rightarrow> hist_state \<Rightarrow> ('k uheap \<times> hist_state) option" where
  "add_history call line h s =
     do { (h, entry) \<leftarrow> malloc call 2 h;
          (h, s) \<leftarrow> init_history call h s;
          (h, l) \<leftarrow> strdup call line h;
          h \<leftarrow> ustore entry l h;
          h \<leftarrow> ustore (entry + 1) NULL h;
          (h, s) \<leftarrow> (if hs_length s \<ge> hs_size s
                    then do { (h, p) \<leftarrow> realloc call (hs_entries s) (hs_size s * 2) h;
                              Some (h, s\<lparr>hs_size := hs_size s * 2, hs_entries := p\<rparr>) }
                    else Some (h, s));
          h \<leftarrow> ustore (hs_entries s + hs_length s) entry h;
          Some (h, s\<lparr>hs_offset := hs_offset s + 1, hs_length := hs_length s + 1\<rparr>) }"

definition history_get :: "memory \<Rightarrow> int \<Rightarrow> hist_state \<Rightarrow> addr" where
  "history_get m offset s = (if offset < 0 \<or> offset \<ge> hs_length s then NULL else m (hs_entries s + offset))"

definition previous_history :: "memory \<Rightarrow> hist_state \<Rightarrow> hist_state \<times> addr" where
  "previous_history m s =
     (if hs_offset s \<le> 0 then (s, NULL)
      else let s = s\<lparr>hs_offset := hs_offset s - 1\<rparr> in (s, m (hs_entries s + hs_offset s)))"

definition next_history :: "memory \<Rightarrow> hist_state \<Rightarrow> hist_state \<times> addr" where
  "next_history m s =
     (if hs_offset s \<ge> hs_length s - 1 then (s, NULL)
      else let s = s\<lparr>hs_offset := hs_offset s + 1\<rparr> in (s, m (hs_entries s + hs_offset s)))"

definition current_history :: "memory \<Rightarrow> hist_state \<Rightarrow> addr" where
  "current_history m s = (if hs_offset s < 0 \<or> hs_offset s \<ge> hs_length s then NULL else m (hs_entries s + hs_offset s))"

section \<open>Tables of entries\<close>

text \<open>A table at \<open>v\<close>: the addresses and texts of its entries, up to the null pointer. Each entry has a name and a value.\<close>

primrec env_at :: "memory \<Rightarrow> addr \<Rightarrow> (addr \<times> int list) list \<Rightarrow> bool" where
  "env_at m v [] \<longleftrightarrow> m v = NULL"
| "env_at m v (e # es) \<longleftrightarrow> m v = fst e \<and> fst e \<noteq> NULL \<and> cstring m (fst e) (snd e) \<and> 61 \<in> set (snd e) \<and> env_at m (v + 1) es"

lemma env_at_cong:
  "(\<And>a. v \<le> a \<Longrightarrow> a \<le> v + int (length es) \<Longrightarrow> m' a = m a) \<Longrightarrow>
   (\<And>e a. e \<in> set es \<Longrightarrow> fst e \<le> a \<Longrightarrow> a \<le> fst e + int (length (snd e)) \<Longrightarrow> m' a = m a) \<Longrightarrow> env_at m' v es = env_at m v es"
proof (induction es arbitrary: v)
  case (Cons e es)
  have "env_at m' (v + 1) es = env_at m (v + 1) es" using Cons.prems by (intro Cons.IH) auto
  moreover have "cstring m' (fst e) (snd e) = cstring m (fst e) (snd e)" using Cons.prems(2) [of e] by (intro cstring_cong) auto
  ultimately show ?case using Cons.prems(1) [of v] by simp
qed simp

text \<open>What \<^verbatim>\<open>getenv\<close> compares: the whole name and the sign after it.\<close>

lemma env_match_run:
  assumes "cstring m q n" "cstring m p s" "61 \<notin> set n"
  shows "\<exists>q' p'. env_match m q p = Some (q', p') \<and> (m q' = 0 \<and> m p' = 61 \<longleftrightarrow> take (length n) s = n \<and> length n < length s \<and> s ! length n = 61) \<and>
    (m q' = 0 \<longrightarrow> p' = p + int (length n))"
  using assms
proof (induction n arbitrary: q p s)
  case Nil
  then show ?case by (cases s) (simp_all add: env_match.simps [of m q])
next
  case (Cons c n)
  show ?case
  proof (cases s)
    case Nil
    then show ?thesis using Cons.prems by (simp add: env_match.simps [of m q])
  next
    case (Cons x t)
    with Cons.prems have c: "m q = c" "c \<noteq> 0" "cstring m (q + 1) n" "m p = x" "cstring m (p + 1) t" "61 \<notin> set n" by auto
    show ?thesis
    proof (cases "c = x")
      case True
      from Cons.IH [OF c(3,5,6)] obtain q' p' where "env_match m (q + 1) (p + 1) = Some (q', p')"
          "m q' = 0 \<and> m p' = 61 \<longleftrightarrow> take (length n) t = n \<and> length n < length t \<and> t ! length n = 61" "m q' = 0 \<longrightarrow> p' = p + 1 + int (length n)" by blast
      then show ?thesis using c(1,2,4) True \<open>s = x # t\<close> by (auto simp: env_match.simps [of m q])
    next
      case False
      then show ?thesis using c \<open>s = x # t\<close> by (auto simp: env_match.simps [of m q])
    qed
  qed
qed

lemma getenv_run:
  assumes "env_at m v (xs @ (p, s) # ys)" "cstring m name n" "61 \<notin> set n"
    and "\<forall>e\<in>set xs. \<not> (take (length n) (snd e) = n \<and> length n < length (snd e) \<and> snd e ! length n = 61)" "s = n @ 61 # val"
  shows "getenv_loop m name v = Some (p + int (length n) + 1)"
  using assms(1,4)
proof (induction xs arbitrary: v)
  case Nil
  then have e: "m v = p" "p \<noteq> NULL" "cstring m p s" by auto
  from env_match_run [OF assms(2) e(3) assms(3)] obtain q' p' where "env_match m name p = Some (q', p')"
      "m q' = 0 \<and> m p' = 61 \<longleftrightarrow> take (length n) s = n \<and> length n < length s \<and> s ! length n = 61" "m q' = 0 \<longrightarrow> p' = p + int (length n)" by blast
  then show ?case using e(1,2) assms(5) by (subst getenv_loop.simps) simp
next
  case (Cons e xs)
  then have e: "m v = fst e" "fst e \<noteq> NULL" "cstring m (fst e) (snd e)" by auto
  from env_match_run [OF assms(2) e(3) assms(3)] obtain q' p' where "env_match m name (fst e) = Some (q', p')" "\<not> (m q' = 0 \<and> m p' = 61)"
    using Cons.prems(2) by auto
  moreover have "getenv_loop m name (v + 1) = Some (p + int (length n) + 1)" using Cons.prems by (intro Cons.IH) auto
  ultimately show ?case using e(1,2) by (subst getenv_loop.simps) simp
qed

text \<open>What \<^verbatim>\<open>putenv\<close> compares: the name but for its last character, and the sign after that.\<close>

definition put_match :: "int list \<Rightarrow> int list \<Rightarrow> bool" where
  "put_match n s \<longleftrightarrow> take (length n - 1) s = butlast n \<and> length n < length s \<and> s ! length n = 61"

lemma put_match_Nil: "put_match [] s \<longleftrightarrow> s \<noteq> [] \<and> s ! 0 = 61"
  by (simp add: put_match_def)

lemma put_match_Cons: "put_match (c # n) (x # s) \<longleftrightarrow> (if n = [] then s \<noteq> [] \<and> s ! 0 = 61 else c = x \<and> put_match n s)"
  by (cases n) (auto simp: put_match_def)

lemma put_compare_run:
  assumes "cstring m q n" "cstring m p s" "61 \<notin> set n" "61 \<in> set s"
  shows "\<exists>q' p'. put_compare m q p = Some (q', p') \<and> (m q' = 0 \<and> m p' = 61 \<longleftrightarrow> put_match n s)"
  using assms
proof (induction n arbitrary: q p s)
  case Nil
  then show ?case by (cases s) (simp_all add: put_compare.simps [of m q] put_match_def)
next
  case (Cons c n)
  then obtain x t where s: "s = x # t" by (cases s) auto
  with Cons.prems have c: "m q = c" "c \<noteq> 0" "cstring m (q + 1) n" "m p = x" "cstring m (p + 1) t" "61 \<notin> set n" "c \<noteq> 61" by auto
  have n: "m (q + 1) = 0 \<longleftrightarrow> n = []" and t: "m (p + 1) = 61 \<longleftrightarrow> t \<noteq> [] \<and> t ! 0 = 61" using c(3,5) by (cases n; cases t; auto)+
  show ?case
  proof (cases "c = x")
    case True
    then have "61 \<in> set t" using Cons.prems(4) s c(7) by auto
    from Cons.IH [OF c(3,5,6) this] obtain q' p' where "put_compare m (q + 1) (p + 1) = Some (q', p')" "m q' = 0 \<and> m p' = 61 \<longleftrightarrow> put_match n t" by blast
    moreover have "put_match n t \<longleftrightarrow> put_match (c # n) s" using True s by (cases "n = []") (simp_all add: put_match_Cons put_match_Nil)
    ultimately show ?thesis using c(1,2,4) True by (auto simp: put_compare.simps [of m q])
  next
    case False
    then show ?thesis using c(1,2,4) n t s by (auto simp: put_compare.simps [of m q] put_match_Cons)
  qed
qed

lemma putenv_find_run:
  assumes "env_at m v (xs @ (p, s) # ys)" "cstring m name n" "61 \<notin> set n" "\<forall>e\<in>set xs. \<not> put_match n (snd e)" "put_match n s"
  shows "putenv_find m name v = Some (v + int (length xs))"
  using assms(1,4)
proof (induction xs arbitrary: v)
  case Nil
  then have e: "m v = p" "p \<noteq> NULL" "cstring m p s" "61 \<in> set s" by auto
  from put_compare_run [OF assms(2) e(3) assms(3) e(4)] assms(5) obtain q' p' where "put_compare m name p = Some (q', p')" "m q' = 0" "m p' = 61" by blast
  then show ?case using e(1,2) by (subst putenv_find.simps) simp
next
  case (Cons e xs)
  then have e: "m v = fst e" "fst e \<noteq> NULL" "cstring m (fst e) (snd e)" "61 \<in> set (snd e)" by auto
  from put_compare_run [OF assms(2) e(3) assms(3) e(4)] obtain q' p' where "put_compare m name (fst e) = Some (q', p')" "\<not> (m q' = 0 \<and> m p' = 61)"
    using Cons.prems(2) by auto
  moreover have "putenv_find m name (v + 1) = Some (v + 1 + int (length xs))" using Cons.prems by (intro Cons.IH) auto
  ultimately show ?case using e(1,2) by (subst putenv_find.simps) simp
qed

lemma cstring_no_zero: "cstring m a xs \<Longrightarrow> 0 \<notin> set xs"
  by (induction xs arbitrary: a) auto

lemma strlcpy_run:
  assumes "cstring m src xs" "length xs < 2 ^ 20" "int (length xs) \<le> n" "n < 2 ^ 21" "dest + n + 1 < src \<or> src + int (length xs) < dest"
  shows "cstring (strlcpy dest src n m) dest xs" "a < dest \<or> dest + int (length xs) < a \<Longrightarrow> strlcpy dest src n m a = m a"
proof -
  have "dest + int (nat (n + 1)) < src \<or> src + int (length xs) < dest" using assms by auto
  from copy_loop_run [OF assms(1) this] obtain m0 where m0: "copy_loop (nat (n + 1)) dest src m = (m0, dest + int (min (nat (n + 1)) (length xs)))"
    "\<And>a. m0 a = (if dest \<le> a \<and> a < dest + int (min (nat (n + 1)) (length xs)) then xs ! nat (a - dest) else m a)" by blast
  have min: "min (nat (n + 1)) (length xs) = length xs" using assms(3) by linarith
  have eq: "strlcpy dest src n m = m0(dest + int (length xs) := 0)" using m0(1) assms(3,4) by (simp add: strlcpy_def min)
  have nz: "xs ! i \<noteq> 0" if "i < length xs" for i using cstring_nth [OF assms(1) that] by simp
  show "cstring (strlcpy dest src n m) dest xs" using nz by (intro cstringI) (auto simp: eq m0(2) min)
  show "a < dest \<or> dest + int (length xs) < a \<Longrightarrow> strlcpy dest src n m a = m a" by (auto simp: eq m0(2) min)
qed

section \<open>Properties\<close>

text \<open>
  \<^verbatim>\<open>getenv\<close> returns the value of the first entry for the name: the address after the sign.
\<close>

theorem getenv_first:
  assumes "env_at m env (xs @ (p, n @ 61 # val) # ys)" "cstring m name n" "61 \<notin> set n" "name \<noteq> NULL"
    and "\<forall>e\<in>set xs. \<not> (take (length n) (snd e) = n \<and> length n < length (snd e) \<and> snd e ! length n = 61)"
  shows "\<exists>q. getenv m env name = Some q \<and> cstring m q val"
proof -
  have "cstring m p (n @ 61 # val)" using assms(1) by (induction xs arbitrary: env) auto
  then have "cstring m (p + int (length n) + 1) val" using cstring_split(2) by fastforce
  moreover have "getenv m env name = Some (p + int (length n) + 1)" using getenv_run [OF assms(1-3,5) refl] assms(4) by (simp add: getenv_def)
  ultimately show ?thesis by blast
qed

text \<open>
  C37. \<^verbatim>\<open>putenv\<close> does not compare the last character of a name. The text for the name \<open>n c\<close> takes
  the place of the first entry whose name is \<open>n d\<close>, whatever the character \<open>d\<close> is, and the variable of that other name is gone.
\<close>

theorem putenv_ignores_last_char:
  assumes "cstring (umem h) name (n @ c # 61 # val)" "61 \<notin> set (n @ [c])" "0 < name" "0 < e_environ e"
    and "env_at (umem h) (e_environ e) (xs @ (p, n @ d # 61 # old) # ys)" "\<forall>x\<in>set xs. \<not> put_match (n @ [c]) (snd x)"
    and "\<forall>x\<in>set (xs @ (p, n @ d # 61 # old) # ys). r < fst x \<or> fst x + int (length (snd x)) < r"
    and "r < e_environ e \<or> e_environ e + int (length xs + length ys + 1) < r" "r = name + int (length n) + 1"
  shows "putenv call sp name h e = Some (h\<lparr>umem := (umem h)(e_environ e + int (length xs) := name)\<rparr>, e, 0)"
proof -
  let ?m = "umem h" let ?es = "xs @ (p, n @ d # 61 # old) # ys"
  define m0 where "m0 = ?m(r := 0)"
  have nm: "cstring ?m name ((n @ [c]) @ 61 # val)" using assms(1) by simp
  note at = cstring_split [OF nm]
  have r: "?m r = 61" using at(2) assms(9) by (simp add: algebra_simps)
  have "0 \<notin> set (n @ [c])" using cstring_no_zero [OF nm] by auto
  then have "(n @ [c]) ! i \<noteq> 0" if "i < length (n @ [c])" for i using that by (metis nth_mem)
  then have "cstring m0 name (n @ [c])" using at(1) assms(9) by (intro cstringI) (auto simp: m0_def)
  moreover have "env_at m0 (e_environ e) ?es = env_at ?m (e_environ e) ?es"
  proof (rule env_at_cong)
    show "m0 a = ?m a" if "e_environ e \<le> a" "a \<le> e_environ e + int (length ?es)" for a using that assms(8) by (auto simp: m0_def)
    show "m0 a = ?m a" if "x \<in> set ?es" "fst x \<le> a" "a \<le> fst x + int (length (snd x))" for x a
      using assms(7) [rule_format, OF that(1)] that(2,3) by (auto simp: m0_def)
  qed
  moreover have "put_match (n @ [c]) (n @ d # 61 # old)" by (simp add: put_match_def nth_append)
  ultimately have find: "putenv_find m0 name (e_environ e) = Some (e_environ e + int (length xs))"
    using assms(2,5,6) by (intro putenv_find_run) auto
  have tw: "takeWhile (\<lambda>x. x \<noteq> 61) (n @ c # 61 # val) = n @ [c]" using assms(2) by (induction n) auto
  have "index_loop ?m name 61 = Some r" using index_loop_run [OF assms(1), of 61] assms(9) by (simp add: tw algebra_simps)
  then have "index ?m name 61 = Some r" using r by (simp add: index_def)
  moreover have "r \<noteq> NULL" using assms(3,9) by simp
  moreover have "?m(r := 61) = ?m" using r by (simp add: fun_upd_idem)
  ultimately show ?thesis using assms(3,4) find by (simp add: putenv_def get_environ_def m0_def)
qed

text \<open>
  \<^verbatim>\<open>strdup\<close> of a string in a block of the heap returns, and gives null or a block of its own with a copy of the
  string that ends within it; besides the copy, only words of block headers change.
\<close>

theorem strdup_copies:
  assumes inv: "uheap_inv (break_ok who) (user_break who) h bs" and b: "b \<in> used_sblocks h bs"
    and s: "udata b \<le> s" "s + int (length xs) < udata b + u_size (ublocks h b)" "cstring (umem h) s xs" "length xs < 2 ^ 19"
  shows "\<exists>h' d. strdup (user_sbrk who) s h = Some (h', d) \<and>
    (d \<noteq> NULL \<longrightarrow> (\<exists>bs'. uheap_inv (break_ok who) (user_break who) h' bs' \<and> granted h bs h' bs' (int (length xs) + 1) d \<and>
       cstring (umem h') d xs \<and> (\<forall>a. (a < d \<or> d + int (length xs) < a) \<and> a \<notin> headers bs' \<longrightarrow> umem h' a = umem h a)))"
proof -
  let ?l = "int (length xs) + 1"
  have l: "0 < ?l" "?l \<le> 2 ^ 19" using s(4) by auto
  from process_break.malloc_run [OF inv l] obtain h1 d where m: "malloc (user_sbrk who) ?l h = Some (h1, d)"
    "d \<noteq> NULL \<Longrightarrow> \<exists>bs'. uheap_inv (break_ok who) (user_break who) h1 bs' \<and> granted h bs h1 bs' ?l d \<and> (\<forall>a. a \<notin> headers bs' \<longrightarrow> umem h1 a = umem h a)"
    by (metis (no_types, lifting))
  define h' where "h' = h1\<lparr>umem := strlcpy d s ?l (umem h1)\<rparr>"
  have run: "strdup (user_sbrk who) s h = Some (if d = NULL then (h1, NULL) else (h', d))"
    using m(1) by (simp add: strdup_def strlen_run [OF s(3)] h'_def)
  show ?thesis
  proof (cases "d = NULL")
    case False
    then obtain bs' where g: "uheap_inv (break_ok who) (user_break who) h1 bs'" "granted h bs h1 bs' ?l d" "\<forall>a. a \<notin> headers bs' \<longrightarrow> umem h1 a = umem h a"
      using m(2) by blast
    note data = process_break.granted_data [OF g(1,2)]
    have str: "cstring (umem h1) s xs"
      using data(6) [OF b] g(3) s by (subst cstring_cong [of _ _ _ "umem h"]) auto
    have in_bs: "b \<in> set bs'" "get_sblock d \<in> set bs'" "b \<noteq> get_sblock d" "u_size (ublocks h1 b) = u_size (ublocks h b)" "?l \<le> u_size (ublocks h1 (get_sblock d))"
      using g(2) b by (auto simp: granted_def used_sblocks_def)
    note seg = process_break.inv_seg(1) [OF g(1)]
    have ud: "udata b = b + 5" "d = get_sblock d + 5" using process_break.inv_less [OF g(1) in_bs(1)] by (simp_all add: get_sblock_def)
    have "d + ?l + 1 < s \<or> s + int (length xs) < d"
    proof (cases "b < get_sblock d")
      case True
      then show ?thesis using hseg_apart [OF seg in_bs(1,2)] in_bs(4) ud s(2) by linarith
    next
      case False
      then show ?thesis using hseg_apart [OF seg in_bs(2,1)] in_bs(3,5) ud s(1) by linarith
    qed
    then have copy: "cstring (umem h') d xs" "\<And>a. a < d \<or> d + int (length xs) < a \<Longrightarrow> umem h' a = umem h1 a"
      using strlcpy_run [OF str, of ?l d] s(4) by (auto simp: h'_def)
    have hdr: "umem h' a = umem h1 a" if "a \<in> headers bs'" for a using copy(2) [of a] data(4) [of a] that by force
    have fr: "ubase h' = ubase h1" "ubrk h' = ubrk h1" "ukern h' = ukern h1" by (simp_all add: h'_def)
    have "\<forall>a. (a < d \<or> d + int (length xs) < a) \<and> a \<notin> headers bs' \<longrightarrow> umem h' a = umem h a" using copy(2) g(3) by auto
    then show ?thesis using run copy(1) False g(1,2) outside_headers(1,3) [OF hdr fr] by (intro exI [of _ h'] exI [of _ d]) (auto intro!: exI [of _ bs'])
  qed (use run in simp)
qed

section \<open>Examples\<close>

definition env_example :: memory where
  "env_example = put_text 2300 [72, 79, 77, 70, 61, 120] (put_text 2200 [72, 79, 77, 69, 61, 47] ((\<lambda>_. 0)(2100 := 2200)))"

lemma env_example_at: "env_at env_example 2100 [(2200, [72, 79, 77, 69, 61, 47])]" "cstring env_example 2300 [72, 79, 77, 70, 61, 120]"
  by code_simp+

text \<open>Setting \<^verbatim>\<open>HOMF\<close> replaces \<^verbatim>\<open>HOME\<close>.\<close>

lemma putenv_ignores_last_char_witness:
  "\<exists>h' e'. putenv (user_sbrk 1) 0 2300 (uheap0\<lparr>umem := env_example\<rparr>) \<lparr>e_environ = 2100, e_size = 0\<rparr> = Some (h', e', 0) \<and> umem h' 2100 = 2300"
proof -
  define h where "h = uheap0\<lparr>umem := env_example\<rparr>"
  define e where "e = \<lparr>e_environ = 2100, e_size = 0\<rparr>"
  have h: "umem h = env_example" "e_environ e = 2100" by (simp_all add: h_def e_def)
  have "putenv (user_sbrk 1) 0 2300 h e = Some (h\<lparr>umem := (umem h)(e_environ e + int (length ([] :: (addr \<times> int list) list)) := 2300)\<rparr>, e, 0)"
    by (rule putenv_ignores_last_char [where n = "[72, 79, 77]" and c = 70 and val = "[120]" and p = 2200 and d = 69 and old = "[47]" and ys = "[]" and r = 2304])
      (use env_example_at in \<open>simp_all add: h\<close>)
  then show ?thesis by (simp add: h h_def [symmetric] e_def [symmetric])
qed

lemma getenv_first_witness: "\<exists>q. getenv (put_text 2400 [72, 79, 77, 69] env_example) 2100 2400 = Some q \<and> cstring (put_text 2400 [72, 79, 77, 69] env_example) q [47]"
proof -
  let ?m = "put_text 2400 [72, 79, 77, 69] env_example"
  have "env_at ?m 2100 [(2200, [72, 79, 77, 69, 61, 47])]" "cstring ?m 2400 [72, 79, 77, 69]" by code_simp+
  then show ?thesis using getenv_first [of ?m 2100 "[]" 2200 "[72, 79, 77, 69]" "[47]" "[]" 2400] by simp
qed

lemma strdup_copies_witness:
  "\<exists>h' d. strdup (user_sbrk 1) 1529 (uheap1\<lparr>umem := put_text 1529 [108, 115, 0] (umem uheap1)\<rparr>) = Some (h', d) \<and> d \<noteq> NULL \<and> cstring (umem h') d [108, 115]"
proof -
  define h where "h = uheap1\<lparr>umem := put_text 1529 [108, 115, 0] (umem uheap1)\<rparr>"
  have hdr: "umem h a = umem uheap1 a" if "a \<in> headers [1524]" for a using that by (auto simp: h_def put_text_def)
  have fr: "ubase h = ubase uheap1" "ubrk h = ubrk uheap1" "ukern h = ukern uheap1" by (simp_all add: h_def)
  have inv: "uheap_inv (break_ok 1) (user_break 1) h [1524]" "1524 \<in> used_sblocks h [1524]"
    using outside_headers(1,2) [of "[1524]" h uheap1, OF hdr fr] uheap1_inv uheap1_used by simp_all
  have at: "udata 1524 = 1529" "u_size (ublocks h 1524) = 12" "cstring (umem h) 1529 [108, 115]"
    by (simp_all add: h_def udata_def ptr_add_def uheap1_def put_text_def ublocks_def)
  have "find_sblock h 1524 1524 4 = Some (1524, 0)"
    by (subst find_sblock.simps, subst find_sblock.simps) (simp add: h_def uheap1_def put_text_def uload_def ptr_add_def)
  then have "\<exists>h1. malloc (user_sbrk 1) 3 h = Some (h1, 1546)"
    by (simp add: heap_eval h_def uheap1_def kernel_heap_def)
  then have "\<exists>h'. strdup (user_sbrk 1) 1529 h = Some (h', 1546)" using strlen_run [OF at(3)] by (auto simp: strdup_def)
  with strdup_copies [OF inv, of 1529 "[108, 115]"] at show ?thesis by (auto simp: h_def)
qed

end
