(* ===== verification/Streams.thy ===== *)
theory Streams
  imports FileIo Filp
begin

text \<open>
  Buffered input of the user library: \<^verbatim>\<open>fgetc\<close> and \<^verbatim>\<open>getdelim\<close> (\<^verbatim>\<open>lib/stdio\<close>). The system call and the
  allocator are the operations of a record \<open>libc\<close>; what reading character by character relies on is the locale
  \<open>word_source\<close>, interpreted on the kernel's \<^verbatim>\<open>sys_read\<close> for a file of the root file system.
\<close>

section \<open>Operations\<close>

abbreviation (input) EOF :: int where "EOF \<equiv> - 1"
abbreviation (input) IOEOF :: int where "IOEOF \<equiv> 16"
abbreviation (input) FILE_BUFFER_SIZ :: int where "FILE_BUFFER_SIZ \<equiv> 500"

record FILE =
  io_count :: int
  io_fd :: int
  io_flags :: int
  io_bufsiz :: int
  io_buf :: addr
  io_ptr :: addr

text \<open>The calls of the library on the rest of the machine, and the program's memory in it.\<close>

record 'k libc =
  c_read :: "int \<Rightarrow> addr \<Rightarrow> int \<Rightarrow> 'k \<Rightarrow> ('k \<times> int) option"
  c_malloc :: "int \<Rightarrow> 'k \<Rightarrow> ('k \<times> addr) option"
  c_realloc :: "addr \<Rightarrow> int \<Rightarrow> 'k \<Rightarrow> ('k \<times> addr) option"
  c_mem :: "'k \<Rightarrow> memory"
  c_put :: "addr \<Rightarrow> int \<Rightarrow> 'k \<Rightarrow> 'k"

definition next_char :: "'k libc \<Rightarrow> FILE \<Rightarrow> 'k \<Rightarrow> 'k \<times> FILE \<times> int" where
  "next_char L s k = (k, s\<lparr>io_ptr := io_ptr s + 1\<rparr>, to_int (c_mem L k (io_ptr s)))"

definition fgetc :: "'k libc \<Rightarrow> FILE \<Rightarrow> 'k \<Rightarrow> ('k \<times> FILE \<times> int) option" where
  "fgetc L s k =
     (if io_flags s AND IOEOF \<noteq> 0 then Some (k, s, EOF)
      else do {
        (k, s) \<leftarrow> (if io_buf s = NULL
                  then do { (k, p) \<leftarrow> c_malloc L FILE_BUFFER_SIZ k; Some (k, s\<lparr>io_buf := p, io_bufsiz := FILE_BUFFER_SIZ\<rparr>) }
                  else Some (k, s));
        let buf_end = io_buf s + io_count s;
        if io_ptr s = NULL \<or> io_ptr s \<ge> buf_end
        then do { (k, ret) \<leftarrow> c_read L (io_fd s) (io_buf s) (io_bufsiz s) k;
                  Some (if ret \<le> 0 then (k, s\<lparr>io_flags := io_flags s OR IOEOF\<rparr>, EOF)
                        else next_char L (s\<lparr>io_count := ret, io_ptr := io_buf s\<rparr>) k) }
        else Some (next_char L s k) })"

text \<open>
  The loop of \<^verbatim>\<open>getdelim\<close>, with the index and the character read last; the flag says that the line could not be
  enlarged. \<open>lineptr\<close> and \<open>n\<close> are the addresses of the caller's variables.
\<close>

partial_function (option) getdelim_loop :: "'k libc \<Rightarrow> addr \<Rightarrow> addr \<Rightarrow> int \<Rightarrow> int \<Rightarrow> FILE \<Rightarrow> 'k \<Rightarrow> ('k \<times> FILE \<times> int \<times> int \<times> bool) option" where
  "getdelim_loop L lineptr n delimiter i s k =
     do { (k, s, c) \<leftarrow> fgetc L s k;
          if c = EOF then Some (k, s, i, c, False)
          else do {
            (k, failed) \<leftarrow> (if i + 1 \<ge> c_mem L k n
                            then do { let k = c_put L n ((c_mem L k n * 2) mod 2 ^ 32) k;
                                      (k, p) \<leftarrow> c_realloc L (c_mem L k lineptr) (c_mem L k n) k;
                                      Some (c_put L lineptr p k, p = NULL) }
                            else Some (k, False));
            if failed then Some (k, s, i, c, True)
            else do { let k = c_put L (c_mem L k lineptr + i) c k;
                      if c = delimiter then Some (k, s, i + 1, c, False) else getdelim_loop L lineptr n delimiter (i + 1) s k } } }"

definition getdelim :: "'k libc \<Rightarrow> addr \<Rightarrow> addr \<Rightarrow> int \<Rightarrow> FILE option \<Rightarrow> 'k \<Rightarrow> ('k \<times> FILE option \<times> int) option" where
  "getdelim L lineptr n delimiter stream k =
     (case stream of
        None \<Rightarrow> Some (k, stream, - 1)
      | Some s \<Rightarrow>
          if lineptr = NULL \<or> n = NULL then Some (k, stream, - 1)
          else do {
            (k, failed) \<leftarrow> (if c_mem L k lineptr = NULL
                            then do { let k = c_put L n 120 k; (k, p) \<leftarrow> c_malloc L (c_mem L k n) k; Some (c_put L lineptr p k, p = NULL) }
                            else Some (k, False));
            if failed then Some (k, stream, - 1)
            else do {
              (k, s, i, c, failed) \<leftarrow> getdelim_loop L lineptr n delimiter 0 s k;
              Some (if failed \<or> i = 0 \<and> c = EOF then (k, Some s, - 1) else (c_put L (c_mem L k lineptr + i) 0 k, Some s, i)) } })"

section \<open>Reading from a source\<close>

text \<open>The results of \<open>n\<close> calls.\<close>

primrec fgetc_n :: "nat \<Rightarrow> 'k libc \<Rightarrow> FILE \<Rightarrow> 'k \<Rightarrow> ('k \<times> FILE \<times> int list) option" where
  "fgetc_n 0 L s k = Some (k, s, [])"
| "fgetc_n (Suc n) L s k = do { (k, s, c) \<leftarrow> fgetc L s k; (k, s, cs) \<leftarrow> fgetc_n n L s k; Some (k, s, c # cs) }"

lemma mem_words_Suc: "mem_words m a (Suc n) = m a # mem_words m (a + 1) n"
  by (simp add: mem_words_def map_upt_Suc add.assoc del: upt_Suc)

text \<open>What was read into the buffer and not yet returned.\<close>

definition buffered :: "memory \<Rightarrow> FILE \<Rightarrow> int list" where
  "buffered m s = (if io_ptr s = NULL then [] else mem_words m (io_ptr s) (nat (io_buf s + io_count s - io_ptr s)))"

text \<open>A stream whose buffer is the area of \<open>len\<close> words; at the end of its file nothing is left.\<close>

definition stream_ok :: "'k libc \<Rightarrow> int \<Rightarrow> ('k \<Rightarrow> int list) \<Rightarrow> ('k \<Rightarrow> bool) \<Rightarrow> addr \<Rightarrow> int \<Rightarrow> FILE \<Rightarrow> 'k \<Rightarrow> bool" where
  "stream_ok L fd rest ok area len s k \<longleftrightarrow> ok k \<and> io_fd s = fd \<and> io_buf s = area \<and> io_bufsiz s = len \<and> 0 < area \<and> 0 < len \<and>
     (io_ptr s = NULL \<or> area \<le> io_ptr s \<and> io_ptr s \<le> area + io_count s) \<and>
     (io_flags s AND IOEOF \<noteq> 0 \<longrightarrow> buffered (c_mem L k) s @ rest k = [])"

locale word_source =
  fixes L :: "'k libc" and fd :: int and rest :: "'k \<Rightarrow> int list" and ok :: "'k \<Rightarrow> bool" and area :: "addr" and len :: int
  assumes source_read: "ok k \<Longrightarrow> 0 < len \<Longrightarrow> \<exists>k'. c_read L fd area len k = Some (k', int (min (nat len) (length (rest k)))) \<and> ok k' \<and>
      rest k' = drop (nat len) (rest k) \<and> mem_words (c_mem L k') area (min (nat len) (length (rest k))) = take (nat len) (rest k)"
begin

lemma fgetc_step:
  assumes "stream_ok L fd rest ok area len s k"
  shows "\<exists>k' s'. fgetc L s k = Some (k', s', case buffered (c_mem L k) s @ rest k of [] \<Rightarrow> EOF | c # _ \<Rightarrow> to_int c) \<and> stream_ok L fd rest ok area len s' k' \<and>
    buffered (c_mem L k') s' @ rest k' = tl (buffered (c_mem L k) s @ rest k)"
proof -
  have s: "ok k" "io_fd s = fd" "io_buf s = area" "io_bufsiz s = len" "0 < area" "0 < len"
    "io_ptr s = NULL \<or> area \<le> io_ptr s \<and> io_ptr s \<le> area + io_count s" using assms by (auto simp: stream_ok_def)
  consider (eof) "io_flags s AND IOEOF \<noteq> 0" | (hit) "io_flags s AND IOEOF = 0" "io_ptr s \<noteq> NULL" "io_ptr s < area + io_count s"
    | (fill) "io_flags s AND IOEOF = 0" "io_ptr s = NULL \<or> area + io_count s \<le> io_ptr s" by linarith
  then show ?thesis
  proof cases
    case eof
    then show ?thesis using assms by (simp add: fgetc_def stream_ok_def)
  next
    case hit
    define n where "n = nat (area + io_count s - io_ptr s - 1)"
    have n: "nat (area + io_count s - io_ptr s) = Suc n" "nat (area + io_count s - (io_ptr s + 1)) = n" using hit by (simp_all add: n_def)
    have "io_ptr s + 1 \<noteq> NULL" using hit(2) s(5,7) by linarith
    then have "buffered (c_mem L k) s = c_mem L k (io_ptr s) # buffered (c_mem L k) (s\<lparr>io_ptr := io_ptr s + 1\<rparr>)"
      using hit(2) n s(3) by (simp add: buffered_def mem_words_Suc)
    then show ?thesis using hit s by (simp add: fgetc_def next_char_def stream_ok_def)
  next
    case fill
    have none: "buffered (c_mem L k) s = []" using fill(2) s(3) by (auto simp: buffered_def)
    obtain k' where k': "c_read L fd area len k = Some (k', int (min (nat len) (length (rest k))))" "ok k'" "rest k' = drop (nat len) (rest k)"
      "mem_words (c_mem L k') area (min (nat len) (length (rest k))) = take (nat len) (rest k)" using source_read [OF s(1,6)] by blast
    show ?thesis
    proof (cases "rest k")
      case Nil
      then have "fgetc L s k = Some (k', s\<lparr>io_flags := io_flags s OR IOEOF\<rparr>, EOF)" using fill s k'(1) by (auto simp: fgetc_def)
      moreover have "buffered (c_mem L k') (s\<lparr>io_flags := io_flags s OR IOEOF\<rparr>) = []" using fill(2) s(3) by (auto simp: buffered_def)
      ultimately show ?thesis using s k'(2,3) Nil none by (auto simp: stream_ok_def)
    next
      case (Cons c cs)
      obtain l where l: "nat len = Suc l" using s(6) by (cases "nat len") auto
      define j where "j = min l (length cs)"
      have j: "min (nat len) (length (rest k)) = Suc j" using Cons l by (simp add: j_def)
      define s' where "s' = s\<lparr>io_count := int (Suc j), io_ptr := area + 1\<rparr>"
      have "mem_words (c_mem L k') area (Suc j) = take (Suc l) (c # cs)" using k'(4) [unfolded j] by (simp only: Cons l)
      then have head: "c_mem L k' area = c" "mem_words (c_mem L k') (area + 1) j = take j cs"
        by (simp_all add: mem_words_Suc) (simp add: j_def min_def)
      have "fgetc L s k = Some (k', s', to_int c)" using fill s k'(1) j head(1) by (auto simp: fgetc_def next_char_def s'_def)
      moreover have "buffered (c_mem L k') s' = take j cs" using head(2) s(3,5) by (simp add: buffered_def s'_def)
      moreover have "take j cs @ rest k' = cs" using k'(3) Cons l by (simp add: j_def min_def)
      ultimately show ?thesis using s k'(2) none Cons fill(1) by (auto simp: stream_ok_def s'_def)
    qed
  qed
qed

lemma fgetc_n_run:
  "stream_ok L fd rest ok area len s k \<Longrightarrow> \<exists>k' s'. fgetc_n n L s k = Some (k', s', take n (map to_int (buffered (c_mem L k) s @ rest k) @ replicate n EOF)) \<and> stream_ok L fd rest ok area len s' k'"
proof (induction n arbitrary: s k)
  case (Suc n)
  let ?u = "buffered (c_mem L k) s @ rest k"
  obtain k1 s1 where 1: "fgetc L s k = Some (k1, s1, case ?u of [] \<Rightarrow> EOF | c # _ \<Rightarrow> to_int c)" "stream_ok L fd rest ok area len s1 k1" "buffered (c_mem L k1) s1 @ rest k1 = tl ?u"
    using fgetc_step [OF Suc.prems] by blast
  from Suc.IH [OF 1(2)] obtain k' s' where 2: "fgetc_n n L s1 k1 = Some (k', s', take n (map to_int (tl ?u) @ replicate n EOF))" "stream_ok L fd rest ok area len s' k'"
    unfolding 1(3) by blast
  have "take (Suc n) (map to_int ?u @ replicate (Suc n) EOF) = (case ?u of [] \<Rightarrow> EOF | c # _ \<Rightarrow> to_int c) # take n (map to_int (tl ?u) @ replicate n EOF)"
    by (cases ?u) (auto simp: take_append replicate_append_same [symmetric])
  then show ?case using 1(1) 2 by auto
qed simp

end

section \<open>A file as a source\<close>

text \<open>
  A process whose memory starts at \<open>rbase\<close> reads through \<^verbatim>\<open>sys_read\<close>; the two calls of the allocator are arguments.
\<close>

definition file_libc :: "int \<Rightarrow> addr \<Rightarrow> (int \<Rightarrow> 'a fsk_scheme \<Rightarrow> ('a fsk_scheme \<times> addr) option) \<Rightarrow> (addr \<Rightarrow> int \<Rightarrow> 'a fsk_scheme \<Rightarrow> ('a fsk_scheme \<times> addr) option) \<Rightarrow> 'a fsk_scheme libc" where
  "file_libc who rbase mal ral =
     \<lparr>c_read = \<lambda>fd p n. sys_read (\<lambda>_. root_fs_ops) who fd (p + rbase) n, c_malloc = mal, c_realloc = ral, c_mem = \<lambda>k a. kmem k (a + rbase),
      c_put = \<lambda>a v. upd_mem (\<lambda>m. m(a + rbase := v))\<rparr>"

definition file_rest :: "int \<Rightarrow> int \<Rightarrow> 'a fsk_scheme \<Rightarrow> int list" where
  "file_rest f ino k = map (\<lambda>i. kmem k (file_addr ino k (filp_pos (filps k f) + int i))) [0..<nat (i_size (inodes k ino) - filp_pos (filps k f))]"

definition file_ready :: "int \<Rightarrow> int \<Rightarrow> int \<Rightarrow> int \<Rightarrow> addr \<Rightarrow> int \<Rightarrow> 'a fsk_scheme \<Rightarrow> bool" where
  "file_ready who fd f ino a n k \<longleftrightarrow> 0 \<le> fd \<and> fd < OPEN_MAX \<and> fd_slot who fd k = Some (Some f) \<and> file_open f ino k \<and> i_mode (inodes k ino) AND S_IFDIR = 0 \<and>
     cache_idle k \<and> file_span ino 0 (i_size (inodes k ino)) k \<and> filp_pos (filps k f) \<le> i_size (inodes k ino) \<and> off_disk a n k"

lemma file_read_run:
  assumes ok: "file_ready who fd f ino a n k" and n: "0 < n" and c: "c = min n (i_size (inodes k ino) - filp_pos (filps k f))"
  shows "\<exists>k'. sys_read (\<lambda>_. root_fs_ops) who fd a n k = Some (k', c) \<and> file_ready who fd f ino a n k' \<and> file_rest f ino k' = drop (nat n) (file_rest f ino k) \<and>
    mem_words (kmem k') a (nat c) = take (nat n) (file_rest f ino k)"
proof -
  let ?k = "k\<lparr>curr_syscall_caller := Some who\<rparr>" let ?p = "filp_pos (filps k f)" let ?sz = "i_size (inodes k ino)" let ?A = "file_addr ino k"
  have k: "0 \<le> fd" "fd < OPEN_MAX" "fd_slot who fd k = Some (Some f)" "file_open f ino k" "i_mode (inodes k ino) AND S_IFDIR = 0"
     "cache_idle k" "file_span ino 0 ?sz k" "?p \<le> ?sz" "off_disk a n k" using ok by (auto simp: file_ready_def)
  have o: "filp_ino (filps k f) = Some ino" "filp_dev (filps k f) = Some rootfs_dev" "0 \<le> ?p" "?sz < 2 ^ 32" using k(4) by (auto simp: file_open_def)
  have k0: "cache_idle ?k" "file_open f ino ?k" using k(4,6) idle_same [of ?k k] by (simp_all add: same_cache_def file_open_def)
  have c0: "0 \<le> c" "c \<le> n" "?p + c \<le> ?sz" using c n k(8) by (auto simp: min_def)
  have span: "file_span ino ?p c ?k" using k(7) c0(1,3) o(3) by (auto simp: file_span_def block_on_disk_def)
  have addr: "file_addr ino ?k = ?A" by (simp add: file_addr_def fun_eq_iff)
  obtain k' where k': "root_fs_read f a n ?p ?k = Some (k', c)" "cache_idle k'" "io_post False f ino c (io_words False (nat c) ?A ?p a (kmem k)) ?k k'"
    using root_fs_rw_run [OF k0 o(3), of n c False a] n span c k(8) addr by (auto simp: root_fs_read_def)
  have valid: "is_fd_opened_and_valid who fd k = Some True" using k(1-3) by (auto simp: is_fd_opened_and_valid_def fd_slot_def)
  have run: "sys_read (\<lambda>_. root_fs_ops) who fd a n k = Some (k', c)"
    using valid k(3,5) o(1,2) k'(1) by (simp add: sys_read_def filp_read_def root_fs_ops_def)
  have P: "kmem k' = io_words False (nat c) ?A ?p a (kmem k)" "inodes k' = inodes k" "procs k' = procs k" "rootfs_disk k' = rootfs_disk k" "rootfs_disk_size k' = rootfs_disk_size k"
    "filps k' = (filps k)(f := (filps k f)\<lparr>filp_pos := ?p + c\<rparr>)" using k'(3) c0 o by (auto simp: io_post_def)
  have same: "file_addr ino k' = ?A" "file_span ino x y k' = file_span ino x y k" for x y using file_cong [of k' ino k] P(2,4,5) by auto
  have apart: "?A y \<noteq> a + int j" if "0 \<le> y" "y < ?sz" "int j < n" for y j
    using file_addr_range [OF k(7), of y] k(9) that by (auto simp: off_disk_def)
  have kept: "kmem k' (?A y) = kmem k (?A y)" if "0 \<le> y" "y < ?sz" for y
    unfolding P(1)
  proof (rule io_words_frame)
    fix i assume "i < nat c"
    then have "int i < n" using c0(2) by linarith
    then show "(if False then ?A (?p + int i) else a + int i) \<noteq> ?A y" using apart [OF that, of i] by auto
  qed
  have "file_ready who fd f ino a n k'"
    using k same k'(2) P c0 o by (auto simp: file_ready_def file_open_def fd_slot_def off_disk_def)
  moreover have "file_rest f ino k' = drop (nat n) (file_rest f ino k)"
  proof (rule nth_equalityI)
    show "length (file_rest f ino k') = length (drop (nat n) (file_rest f ino k))" using P(2,6) c c0 n by (auto simp: file_rest_def min_def)
    fix i assume i: "i < length (file_rest f ino k')"
    then have c_eq: "c = n" "?p + n + int i < ?sz" using P(2,6) c c0 by (auto simp: file_rest_def min_def split: if_splits)
    then have "file_rest f ino k' ! i = kmem k (?A (?p + n + int i))" using i P(2,6) same(1) kept [of "?p + n + int i"] o(3) n by (simp add: file_rest_def algebra_simps)
    moreover have "i + nat n < nat (?sz - ?p)" using c_eq(2) n by linarith
    then have "drop (nat n) (file_rest f ino k) ! i = kmem k (?A (?p + n + int i))" using n by (simp add: file_rest_def algebra_simps)
    ultimately show "file_rest f ino k' ! i = drop (nat n) (file_rest f ino k) ! i" by simp
  qed
  moreover have "mem_words (kmem k') a (nat c) = take (nat n) (file_rest f ino k)"
  proof (rule nth_equalityI)
    show "length (mem_words (kmem k') a (nat c)) = length (take (nat n) (file_rest f ino k))" using c n k(8) by (auto simp: file_rest_def min_def nat_le_eq_zle)
    fix i assume "i < length (mem_words (kmem k') a (nat c))"
    then have i: "i < nat c" "int i < c" by auto
    have "kmem k' (a + int i) = kmem k (?A (?p + int i))"
      unfolding P(1) using apart c0 o(3) i(1) by (intro io_words_read) auto
    moreover have "file_rest f ino k ! i = kmem k (?A (?p + int i))" "i < nat n" using i c0 by (simp_all add: file_rest_def)
    ultimately show "mem_words (kmem k') a (nat c) ! i = take (nat n) (file_rest f ino k) ! i" using i(1) by (simp add: mem_words_def)
  qed
  ultimately show ?thesis using run by blast
qed

interpretation file_source: word_source "file_libc who rbase mal ral" fd "file_rest f ino" "file_ready who fd f ino (area + rbase) len" area len
  for who rbase mal ral fd f ino area len
proof
  fix k :: "'a fsk_scheme"
  assume ok: "file_ready who fd f ino (area + rbase) len k" "0 < len"
  define c where "c = min len (i_size (inodes k ino) - filp_pos (filps k f))"
  have "filp_pos (filps k f) \<le> i_size (inodes k ino)" using ok(1) by (simp add: file_ready_def)
  then have eq: "int (min (nat len) (length (file_rest f ino k))) = c" "min (nat len) (length (file_rest f ino k)) = nat c" 
    and c: "0 \<le> c" using ok(2) by (auto simp: c_def file_rest_def min_def)
  have w: "mem_words (\<lambda>x. m (x + rbase)) area j = mem_words m (area + rbase) j" for m j by (simp add: mem_words_def algebra_simps)
  from file_read_run [OF ok c_def] show "\<exists>k'. c_read (file_libc who rbase mal ral) fd area len k = Some (k', int (min (nat len) (length (file_rest f ino k)))) \<and>
      file_ready who fd f ino (area + rbase) len k' \<and> file_rest f ino k' = drop (nat len) (file_rest f ino k) \<and>
      mem_words (c_mem (file_libc who rbase mal ral) k') area (min (nat len) (length (file_rest f ino k))) = take (nat len) (file_rest f ino k)"
    unfolding eq using c by (simp add: file_libc_def w)
qed

section \<open>Properties\<close>

text \<open>
  C6. Reading a file character by character through a buffer is reading the file. A stream with a buffer
  of any size on an open file of the root file system returns, call by call, the words of the file from
  its position on, whatever the borders of buffer, blocks and zones, and the end-of-file mark from then on.
\<close>

theorem fgetc_reads_file:
  assumes "file_ready who fd f ino (area + rbase) len k" "io_fd s = fd" "io_buf s = area" "io_bufsiz s = len" "0 < area" "0 < len"
    and "io_ptr s = NULL" "io_flags s AND IOEOF = 0"
  shows "\<exists>k' s'. fgetc_n n (file_libc who rbase mal ral) s k = Some (k', s', take n (map to_int (file_rest f ino k) @ replicate n EOF))"
proof -
  have "stream_ok (file_libc who rbase mal ral) fd (file_rest f ino) (file_ready who fd f ino (area + rbase) len) area len s k" using assms by (simp add: stream_ok_def)
  moreover have "buffered (c_mem (file_libc who rbase mal ral) k) s = []" using assms(7) by (simp add: buffered_def)
  ultimately show ?thesis using file_source.fgetc_n_run [where n = n] by fastforce
qed

text \<open>The last two words of a file of a thousand, and the end.\<close>

lemma fgetc_reads_file_witness:
  "\<exists>(k :: fsk) k' s'. fgetc_n 3 (file_libc 1 0 (\<lambda>_ _. None) (\<lambda>_ _ _. None)) \<lparr>io_count = 0, io_fd = 0, io_flags = 0, io_bufsiz = 500, io_buf = 90000, io_ptr = NULL\<rparr> k =
     Some (k', s', [to_int (kmem k (file_addr 0 k 998)), to_int (kmem k (file_addr 0 k 999)), EOF])"
proof -
  obtain k0 where d: "file_demo k0" using file_demo ..
  define k where "k = k0\<lparr>procs := \<lambda>_. proc_zero\<lparr>p_fp_filp := replicate 20 (Some 4)\<rparr>, inodes := (inodes k0)(0 := (inodes k0 0)\<lparr>i_mode := 0\<rparr>),
    filps := (filps k0)(4 := (filps k0 4)\<lparr>filp_pos := 998\<rparr>)\<rparr>"
  have "cache_idle k" using d idle_same [of k k0] by (simp add: file_demo_def k_def same_cache_def)
  moreover have "file_open 4 0 k" using d by (simp add: file_demo_def k_def file_open_def)
  moreover have "file_span 0 0 1000 k" using file_demo_span [OF d, of 0 1000] file_cong(2) [of k 0 k0] by (simp add: k_def)
  moreover have sz: "i_size (inodes k 0) = 1000" "i_mode (inodes k 0) = 0" "filp_pos (filps k 4) = 998" "rootfs_disk k = 0" "rootfs_disk_size k = 40960"
    using d by (simp_all add: file_demo_def k_def)
  moreover have "fd_slot 1 0 k = Some (Some 4)" by (simp add: fd_slot_def k_def aget_def)
  ultimately have "file_ready 1 0 4 0 (90000 + 0) 500 k" by (simp add: file_ready_def off_disk_def)
  from fgetc_reads_file [OF this, of "\<lparr>io_count = 0, io_fd = 0, io_flags = 0, io_bufsiz = 500, io_buf = 90000, io_ptr = NULL\<rparr>" 3 "\<lambda>_ _. None" "\<lambda>_ _ _. None"]
  have "\<exists>k' s'. fgetc_n 3 (file_libc 1 0 (\<lambda>_ _. None) (\<lambda>_ _ _. None)) \<lparr>io_count = 0, io_fd = 0, io_flags = 0, io_bufsiz = 500, io_buf = 90000, io_ptr = NULL\<rparr> k =
     Some (k', s', take 3 (map to_int (file_rest 4 0 k) @ replicate 3 EOF))" by simp
  moreover have "file_rest 4 0 k = [kmem k (file_addr 0 k 998), kmem k (file_addr 0 k 999)]" by (simp add: file_rest_def sz upt_rec numeral_2_eq_2)
  ultimately show ?thesis by - (rule exI [of _ k], simp add: numeral_3_eq_3)
qed

end
