(* ===== verification/Readline.thy ===== *)
theory Readline
  imports UserLib
begin

text \<open>
  Interactive line input (\<^verbatim>\<open>lib/readline/readline.c\<close>). The results of the calls that read one character are a
  list of events, the characters written to the terminal are collected in \<open>rl_out\<close>; the line is a block of
  the user heap, and the history is that of \<open>UserLib\<close>. Without a further event the call waits: \<open>None\<close>. The result of
  \<^verbatim>\<open>malloc\<close> is not tested: storing a character at null is a fault, since page 0 of a program is protected, and \<open>None\<close> too.
\<close>

section \<open>Operations\<close>

abbreviation (input) BUFFER_SIZ :: int where "BUFFER_SIZ \<equiv> 128"
abbreviation (input) CTRL_P :: int where "CTRL_P \<equiv> 16"
abbreviation (input) CTRL_N :: int where "CTRL_N \<equiv> 14"

text \<open>What \<^verbatim>\<open>fread\<close> may do: store a character, store nothing at the end of the input, be interrupted, or fail.\<close>

datatype rl_event = Key int | Nothing | Interrupted | Failed

record rl_keys =
  VEOF :: int
  VERASE :: int
  VKILL :: int

record rl_state =
  rl_point :: int
  rl_end :: int
  rl_eof_found :: bool
  rl_line_buffer :: addr
  rl_out :: "int list"
  history_offset :: int

definition rl_backspace :: "rl_state \<Rightarrow> rl_state" where
  "rl_backspace s = s\<lparr>rl_point := rl_point s - 1, rl_end := rl_end s - 1, rl_out := rl_out s @ [8]\<rparr>"

function rl_clear :: "rl_state \<Rightarrow> rl_state" where
  "rl_clear s = (if rl_end s > 0 then rl_clear (rl_backspace s) else s)"
  by pat_completeness auto
termination
  by (relation "measure (\<lambda>s. nat (rl_end s))") (auto simp: rl_backspace_def)

declare rl_clear.simps [simp del]

text \<open>A store to the line buffer.\<close>

definition rl_store :: "addr \<Rightarrow> int \<Rightarrow> memory \<Rightarrow> memory option" where
  "rl_store a v m = (if ptr_add a 0 < 1024 then None else Some (m(a := v)))"

definition navigate_history :: "bool \<Rightarrow> rl_state \<Rightarrow> hist_state \<Rightarrow> memory \<Rightarrow> (rl_state \<times> hist_state \<times> memory) option" where
  "navigate_history back s hs m =
     (let s = (rl_clear s)\<lparr>rl_end := 0, rl_point := 0\<rparr>;
          (s, hs, entry) =
            (if \<not> back \<and> history_offset s = - 1 \<or> back \<and> history_offset s = 1
             then (s\<lparr>history_offset := 0\<rparr>, hs, current_history m hs)
             else let (hs, entry) = (if back then previous_history m hs else next_history m hs) in (s, hs, entry))
      in if entry = NULL then Some (s\<lparr>history_offset := (if back then - 1 else 1)\<rparr>, hs, m)
         else do { let line = m entry;
                   len \<leftarrow> strlen m line;
                   let (m, len) = (if m (line + len - 1) = 10 then (m(line + len - 1 := 0), len - 1) else (m, len));
                   let s = s\<lparr>rl_out := rl_out s @ mem_words m line (nat len)\<rparr>;
                   m \<leftarrow> (if ptr_add (rl_line_buffer s) 0 < 1024 then None else Some (strlcpy (rl_line_buffer s) line BUFFER_SIZ m));
                   Some (s\<lparr>rl_end := len, rl_point := len\<rparr>, hs, m) })"

definition reset_history_offset :: "hist_state \<Rightarrow> hist_state" where
  "reset_history_offset hs = hs\<lparr>hs_offset := hs_length hs\<rparr>"

text \<open>The loop with the character read last; the result says whether it was left by an error.\<close>

fun rl_loop :: "rl_keys \<Rightarrow> rl_event list \<Rightarrow> int \<Rightarrow> rl_state \<Rightarrow> hist_state \<Rightarrow> memory \<Rightarrow> (rl_state \<times> hist_state \<times> memory \<times> bool) option" where
  "rl_loop ks [] c s hs m = None"
| "rl_loop ks (ev # evs) c s hs m =
     (case ev of
        Interrupted \<Rightarrow> rl_loop ks evs c s hs m
      | Failed \<Rightarrow> Some (s, hs, m, True)
      | _ \<Rightarrow>
        let c = (case ev of Key x \<Rightarrow> x | _ \<Rightarrow> c) in
        if c = VEOF ks then Some (s\<lparr>rl_eof_found := True\<rparr>, hs, m, False)
        else if c = VERASE ks then rl_loop ks evs c (if rl_point s > 0 then rl_backspace s else s) hs m
        else if c = VKILL ks then rl_loop ks evs c (rl_clear s) hs m
        else if c = CTRL_P then do { (s, hs, m) \<leftarrow> navigate_history True s hs m; rl_loop ks evs c s hs m }
        else if c = CTRL_N then do { (s, hs, m) \<leftarrow> navigate_history False s hs m; rl_loop ks evs c s hs m }
        else if rl_end s \<ge> BUFFER_SIZ then Some (s, hs, m, False)
        else do { let c = (if c = 13 then 10 else c);
                  (s, m) \<leftarrow> (if isprint c \<or> c = 10
                            then do { m \<leftarrow> rl_store (rl_line_buffer s + rl_end s) c m;
                                      Some (s\<lparr>rl_point := rl_point s + 1, rl_end := rl_end s + 1, rl_out := rl_out s @ [c]\<rparr>, m) }
                            else Some (s, m));
                  if c = 10 then Some (s, hs, m, False) else rl_loop ks evs c s hs m })"

definition rl_getline :: "'k sbrk_call \<Rightarrow> rl_keys \<Rightarrow> rl_event list \<Rightarrow> rl_state \<Rightarrow> hist_state \<Rightarrow> 'k uheap \<Rightarrow> ('k uheap \<times> rl_state \<times> hist_state \<times> bool) option" where
  "rl_getline call ks evs s hs h =
     do { let s = s\<lparr>rl_point := 0, rl_end := 0, rl_eof_found := False\<rparr>;
          (h, p) \<leftarrow> malloc call BUFFER_SIZ h;
          (s, hs, m, failed) \<leftarrow> rl_loop ks evs 0 (s\<lparr>rl_line_buffer := p\<rparr>) hs (umem h);
          if failed then Some (h\<lparr>umem := m\<rparr>, s, hs, True)
          else do { m \<leftarrow> rl_store (rl_line_buffer s + rl_end s) 0 m;
                    Some (h\<lparr>umem := m\<rparr>, s, reset_history_offset hs, False) } }"

text \<open>\<^verbatim>\<open>readline\<close> after the terminal was set up: the prompt, the line, and whether there is one.\<close>

definition readline :: "'k sbrk_call \<Rightarrow> rl_keys \<Rightarrow> int list \<Rightarrow> rl_event list \<Rightarrow> rl_state \<Rightarrow> hist_state \<Rightarrow> 'k uheap \<Rightarrow> ('k uheap \<times> rl_state \<times> hist_state \<times> addr) option" where
  "readline call ks prompt evs s hs h =
     do { (h, s, hs, failed) \<leftarrow> rl_getline call ks evs (s\<lparr>rl_out := rl_out s @ prompt\<rparr>) hs h;
          Some (h, s, hs, if rl_eof_found s \<and> rl_end s = 0 \<or> failed then NULL else rl_line_buffer s) }"

section \<open>The edited line\<close>

text \<open>The reference: erasing takes back the last character, killing takes back all; each character taken back is echoed as a backspace.\<close>

fun edit :: "rl_keys \<Rightarrow> int list \<times> int list \<Rightarrow> int \<Rightarrow> int list \<times> int list" where
  "edit ks (line, echo) c =
     (if c = VERASE ks then if line = [] then (line, echo) else (butlast line, echo @ [8])
      else if c = VKILL ks then ([], echo @ replicate (length line) 8)
      else (line @ [c], echo @ [c]))"

definition edit_key :: "rl_keys \<Rightarrow> int \<Rightarrow> bool" where
  "edit_key ks c \<longleftrightarrow> c \<noteq> VEOF ks \<and> (c = VERASE ks \<or> c = VKILL ks \<or> isprint c \<and> c \<noteq> CTRL_P \<and> c \<noteq> CTRL_N \<and> c \<noteq> 13 \<and> c \<noteq> 10)"

text \<open>The state of the loop for a line typed so far.\<close>

definition typed :: "addr \<Rightarrow> int list \<Rightarrow> int list \<Rightarrow> rl_state \<Rightarrow> memory \<Rightarrow> bool" where
  "typed p line echo s m \<longleftrightarrow> rl_line_buffer s = p \<and> rl_point s = int (length line) \<and> rl_end s = int (length line) \<and> rl_out s = echo \<and>
     (\<forall>i<length line. m (p + int i) = line ! i)"

lemma rl_clear_run: "rl_end s = int n \<Longrightarrow> rl_clear s = s\<lparr>rl_point := rl_point s - int n, rl_end := 0, rl_out := rl_out s @ replicate n 8\<rparr>"
proof (induction n arbitrary: s)
  case 0
  then show ?case by (simp add: rl_clear.simps [of s])
next
  case (Suc n)
  have "rl_clear s = rl_clear (rl_backspace s)" using Suc.prems by (simp add: rl_clear.simps [of s])
  also have "\<dots> = (rl_backspace s)\<lparr>rl_point := rl_point (rl_backspace s) - int n, rl_end := 0, rl_out := rl_out (rl_backspace s) @ replicate n 8\<rparr>"
    using Suc.prems by (intro Suc.IH) (simp add: rl_backspace_def)
  also have "\<dots> = s\<lparr>rl_point := rl_point s - int (Suc n), rl_end := 0, rl_out := rl_out s @ replicate (Suc n) 8\<rparr>"
    by (simp add: rl_backspace_def replicate_append_same algebra_simps)
  finally show ?case .
qed

lemma rl_store_run: "1024 \<le> a \<Longrightarrow> a < 2 ^ 32 \<Longrightarrow> rl_store a v m = Some (m(a := v))"
  and rl_store_null: "0 \<le> a \<Longrightarrow> a < 1024 \<Longrightarrow> rl_store a v m = None"
  by (simp_all add: rl_store_def ptr_add_def)

text \<open>One key: the line in the buffer is the line edited by it.\<close>

lemma rl_key:
  assumes p: "1024 \<le> p" "p < 2 ^ 30" and t: "typed p line echo s m" and c: "edit_key ks c" and len: "length line < 127" and e: "edit ks (line, echo) c = (line', echo')"
  shows "\<exists>s' m'. rl_loop ks (Key c # evs) cl s hs m = rl_loop ks evs c s' hs m' \<and> typed p line' echo' s' m' \<and> (\<forall>a. a < p \<or> p + 127 \<le> a \<longrightarrow> m' a = m a)"
proof -
  consider (erase) "c = VERASE ks" | (kill) "c \<noteq> VERASE ks" "c = VKILL ks" | (char) "c \<noteq> VERASE ks" "c \<noteq> VKILL ks" by blast
  then show ?thesis
  proof cases
    case erase
    define s' where "s' = (if rl_point s > 0 then rl_backspace s else s)"
    have "typed p line' echo' s' m" using t e erase by (cases "line = []") (auto simp: typed_def s'_def rl_backspace_def nth_butlast of_nat_diff Suc_leI)
    moreover have "rl_loop ks (Key c # evs) cl s hs m = rl_loop ks evs c s' hs m" using c erase by (simp add: edit_key_def s'_def)
    ultimately show ?thesis by blast
  next
    case kill
    have "typed p line' echo' (rl_clear s) m" using t e kill rl_clear_run [of s "length line"] by (auto simp: typed_def)
    moreover have "rl_loop ks (Key c # evs) cl s hs m = rl_loop ks evs c (rl_clear s) hs m" using c kill by (simp add: edit_key_def)
    ultimately show ?thesis by blast
  next
    case char
    define s' where "s' = s\<lparr>rl_point := rl_point s + 1, rl_end := rl_end s + 1, rl_out := rl_out s @ [c]\<rparr>"
    define m' where "m' = m(rl_line_buffer s + rl_end s := c)"
    have "typed p line' echo' s' m'" using t e char by (auto simp: typed_def s'_def m'_def nth_append)
    moreover have "rl_loop ks (Key c # evs) cl s hs m = rl_loop ks evs c s' hs m'"
      using c char t len p by (simp add: edit_key_def s'_def m'_def typed_def rl_store_run)
    moreover have "\<forall>a. a < p \<or> p + 127 \<le> a \<longrightarrow> m' a = m a" using t len by (auto simp: m'_def typed_def)
    ultimately show ?thesis by blast
  qed
qed

lemma length_edit: "length (fst (edit ks (line, echo) c)) \<le> Suc (length line)"
  by (cases line rule: rev_cases) auto

lemma rl_keys_run:
  assumes "typed p line echo s m" "list_all (edit_key ks) cs" "length line + length cs < 128" "fold (\<lambda>c x. edit ks x c) cs (line, echo) = (line', echo')"
    "VEOF ks \<noteq> 10" "VERASE ks \<noteq> 10" "VKILL ks \<noteq> 10" "1024 \<le> p" "p < 2 ^ 30"
  shows "\<exists>s' m'. rl_loop ks (map Key cs @ Key 10 # evs) cl s hs m = Some (s', hs, m', False) \<and> typed p (line' @ [10]) (echo' @ [10]) s' m' \<and>
    (\<forall>a. a < p \<or> p + 128 \<le> a \<longrightarrow> m' a = m a)"
  using assms(1-4)
proof (induction cs arbitrary: line echo s m cl)
  case Nil
  define s' where "s' = s\<lparr>rl_point := rl_point s + 1, rl_end := rl_end s + 1, rl_out := rl_out s @ [10]\<rparr>"
  define m' where "m' = m(rl_line_buffer s + rl_end s := 10)"
  have "rl_loop ks (map Key [] @ Key 10 # evs) cl s hs m = Some (s', hs, m', False)"
    using Nil assms(5-9) by (simp add: s'_def m'_def typed_def rl_store_run)
  moreover have "typed p (line' @ [10]) (echo' @ [10]) s' m'" using Nil by (auto simp: typed_def s'_def m'_def nth_append less_Suc_eq)
  moreover have "\<forall>a. a < p \<or> p + 128 \<le> a \<longrightarrow> m' a = m a" using Nil by (auto simp: m'_def typed_def)
  ultimately show ?case by blast
next
  case (Cons c cs)
  obtain l1 e1 where e: "edit ks (line, echo) c = (l1, e1)" by (cases "edit ks (line, echo) c")
  have "length line < 127" using Cons.prems(3) by simp
  from rl_key [OF assms(8,9) Cons.prems(1) _ this e] Cons.prems(2) obtain s1 m1 where
    1: "rl_loop ks (Key c # map Key cs @ Key 10 # evs) cl s hs m = rl_loop ks (map Key cs @ Key 10 # evs) c s1 hs m1" "typed p l1 e1 s1 m1" "\<forall>a. a < p \<or> p + 127 \<le> a \<longrightarrow> m1 a = m a"
    by force
  have "length l1 \<le> Suc (length line)" using length_edit [of ks line echo c] e by simp
  then have "length l1 + length cs < 128" using Cons.prems(3) by simp
  from Cons.IH [where cl = c, OF 1(2) _ this] Cons.prems(2,4) e obtain s' m' where
    "rl_loop ks (map Key cs @ Key 10 # evs) c s1 hs m1 = Some (s', hs, m', False)" "typed p (line' @ [10]) (echo' @ [10]) s' m'" "\<forall>a. a < p \<or> p + 128 \<le> a \<longrightarrow> m' a = m1 a" by auto
  then show ?case using 1(1,3) by (intro exI [of _ s'] exI [of _ m']) auto
qed

lemma isprint_nonzero: "isprint c \<Longrightarrow> c \<noteq> 0"
  by (auto simp: isprint_def)

lemma edit_nonzero: "edit_key ks c \<Longrightarrow> 0 \<notin> set (fst x) \<Longrightarrow> 0 \<notin> set (fst (edit ks x c))"
  using isprint_nonzero by (cases x) (auto simp: edit_key_def dest: in_set_butlastD)

lemma edits_nonzero: "list_all (edit_key ks) cs \<Longrightarrow> 0 \<notin> set (fst x) \<Longrightarrow> 0 \<notin> set (fst (fold (\<lambda>c x. edit ks x c) cs x))"
  using edit_nonzero by (induction cs arbitrary: x) auto

lemma edits_length: "length (fst (fold (\<lambda>c x. edit ks x c) cs x)) \<le> length (fst x) + length cs"
proof (induction cs arbitrary: x)
  case (Cons c cs)
  have "length (fst (edit ks x c)) \<le> Suc (length (fst x))" using length_edit [of ks "fst x" "snd x" c] by simp
  then show ?case using Cons.IH [of "edit ks x c"] by simp
qed simp

text \<open>Without a buffer the first character that is stored is a fault, and until then nothing is stored.\<close>

lemma rl_keys_null:
  assumes "list_all (edit_key ks) cs" "rl_line_buffer s = NULL" "rl_end s = 0" "rl_point s = 0" "VEOF ks \<noteq> 10" "VERASE ks \<noteq> 10" "VKILL ks \<noteq> 10"
  shows "rl_loop ks (map Key cs @ Key 10 # evs) cl s hs m = None"
  using assms(1-4)
proof (induction cs arbitrary: s cl)
  case Nil
  then show ?case using assms(5-7) by (simp add: rl_store_null)
next
  case (Cons c cs)
  have "rl_clear s = s" using Cons.prems(3) by (simp add: rl_clear.simps [of s])
  then show ?case using Cons by (auto simp: edit_key_def rl_store_null)
qed

section \<open>Properties\<close>

text \<open>
  C18. Typing a line gives the edited line. For keys that erase, kill or stand for themselves, up to 126 of them before
  the line feed: when \<^verbatim>\<open>malloc\<close> grants the buffer, \<^verbatim>\<open>readline\<close> returns in it a terminated copy of the line that a reference editor
  makes of them, in a block of its own; the terminal shows the prompt and the echo of that editor; and the history is
  set to its end. Nothing outside the block changes but words of block headers. When there is no memory for the buffer, storing the
  first character is a fault.
\<close>

theorem readline_edits:
  assumes inv: "uheap_inv (break_ok who) (user_break who) h bs" and cs: "list_all (edit_key ks) cs" "length cs \<le> 126"
    and ks: "VEOF ks \<noteq> 10" "VERASE ks \<noteq> 10" "VKILL ks \<noteq> 10"
    and e: "fold (\<lambda>c x. edit ks x c) cs ([], rl_out s @ prompt) = (line, echo)"
  shows "\<exists>h1 q. malloc (user_sbrk who) 128 h = Some (h1, q) \<and>
    (if q = NULL then readline (user_sbrk who) ks prompt (map Key cs @ Key 10 # evs) s hs h = None
     else \<exists>h' s' hs'. readline (user_sbrk who) ks prompt (map Key cs @ Key 10 # evs) s hs h = Some (h', s', hs', q) \<and> hs_offset hs' = hs_length hs' \<and>
       rl_out s' = echo @ [10] \<and> cstring (umem h') q (line @ [10]) \<and>
       (\<exists>bs'. uheap_inv (break_ok who) (user_break who) h' bs' \<and> granted h bs h' bs' 128 q \<and>
         (\<forall>a. (a < q \<or> q + 128 \<le> a) \<and> a \<notin> headers bs' \<longrightarrow> umem h' a = umem h a)))"
proof -
  have l: "(0 :: int) < 128" "(128 :: int) \<le> 2 ^ 19" by simp_all
  from process_break.malloc_run [OF inv l] obtain h1 p where m: "malloc (user_sbrk who) 128 h = Some (h1, p)"
    "p \<noteq> NULL \<Longrightarrow> \<exists>bs'. uheap_inv (break_ok who) (user_break who) h1 bs' \<and> granted h bs h1 bs' 128 p \<and> (\<forall>a. a \<notin> headers bs' \<longrightarrow> umem h1 a = umem h a)"
    by (metis (no_types, lifting))
  define s0 where "s0 = s\<lparr>rl_out := rl_out s @ prompt, rl_point := 0, rl_end := 0, rl_eof_found := False, rl_line_buffer := p\<rparr>"
  show ?thesis
  proof (cases "p = NULL")
    case True
    then have "rl_loop ks (map Key cs @ Key 10 # evs) 0 s0 hs (umem h1) = None" using rl_keys_null [OF cs(1) _ _ _ ks, of s0] by (simp add: s0_def)
    then have "readline (user_sbrk who) ks prompt (map Key cs @ Key 10 # evs) s hs h = None" using m(1) True by (simp add: readline_def rl_getline_def s0_def)
    then show ?thesis using m(1) True by simp
  next
    case False
    then obtain bs' where g: "uheap_inv (break_ok who) (user_break who) h1 bs'" "granted h bs h1 bs' 128 p" "\<forall>a. a \<notin> headers bs' \<longrightarrow> umem h1 a = umem h a"
      using m(2) by blast
    note data = process_break.granted_data [OF g(1,2)]
    have p: "1024 \<le> p" "p < 2 ^ 30" using data(2,3) by simp_all
    have t: "typed p [] (rl_out s @ prompt) s0 (umem h1)" by (simp add: typed_def s0_def)
    have "length ([] :: int list) + length cs < 128" using cs(2) by simp
    from rl_keys_run [OF t cs(1) this e ks p, of evs 0 hs] obtain s1 m1 where
      1: "rl_loop ks (map Key cs @ Key 10 # evs) 0 s0 hs (umem h1) = Some (s1, hs, m1, False)" "typed p (line @ [10]) (echo @ [10]) s1 m1"
        "\<forall>a. a < p \<or> p + 128 \<le> a \<longrightarrow> m1 a = umem h1 a" by blast
    have len: "length line \<le> 126" "0 \<notin> set line"
      using edits_length [of ks cs "([], rl_out s @ prompt)"] edits_nonzero [OF cs(1), of "([], rl_out s @ prompt)"] e cs(2) by auto
    define m2 where "m2 = m1(p + int (length line) + 1 := 0)"
    define h' where "h' = h1\<lparr>umem := m2\<rparr>"
    have s1: "rl_line_buffer s1 = p" "rl_end s1 = int (length line) + 1" "rl_out s1 = echo @ [10]" "\<And>i. i \<le> length line \<Longrightarrow> m1 (p + int i) = (line @ [10]) ! i"
      using 1(2) by (auto simp: typed_def)
    have "rl_store (rl_line_buffer s1 + rl_end s1) 0 m1 = Some m2" using s1(1,2) p len(1) by (simp add: m2_def rl_store_run add.assoc)
    then have "rl_getline (user_sbrk who) ks (map Key cs @ Key 10 # evs) (s\<lparr>rl_out := rl_out s @ prompt\<rparr>) hs h = Some (h', s1, reset_history_offset hs, False)"
      using m(1) 1(1) by (simp add: rl_getline_def s0_def h'_def)
    then have run: "readline (user_sbrk who) ks prompt (map Key cs @ Key 10 # evs) s hs h = Some (h', s1, reset_history_offset hs, p)"
      using s1(1,2) by (simp add: readline_def)
    have "(line @ [10]) ! i \<noteq> 0" if "i < Suc (length line)" for i using that len(2) by (auto simp: nth_append in_set_conv_nth)
    then have str: "cstring (umem h') p (line @ [10])" using s1(4) by (intro cstringI) (auto simp: h'_def m2_def add.assoc)
    have out: "umem h' a = umem h1 a" if "a < p \<or> p + 128 \<le> a" for a using 1(3) len(1) that by (auto simp: h'_def m2_def)
    have hdr: "umem h' a = umem h1 a" if "a \<in> headers bs'" for a using out [of a] data(4) [of a] that by force
    have fr: "ubase h' = ubase h1" "ubrk h' = ubrk h1" "ukern h' = ukern h1" by (simp_all add: h'_def)
    have "\<forall>a. (a < p \<or> p + 128 \<le> a) \<and> a \<notin> headers bs' \<longrightarrow> umem h' a = umem h a" using out g(3) by auto
    then show ?thesis using m(1) run s1(3) str False g(1,2) outside_headers(1,3) [OF hdr fr]
      by (intro exI [of _ h1] exI [of _ p]) (auto simp: reset_history_offset_def intro!: exI [of _ bs'])
  qed
qed

text \<open>The keys \<open>l x <erase> s\<close> and a line feed, in the heap of \<open>uheap0\<close>.\<close>

lemma readline_edits_witness:
  "\<exists>h' s' hs'. readline (user_sbrk 1) \<lparr>VEOF = 4, VERASE = 8, VKILL = 21\<rparr> [62] [Key 108, Key 120, Key 8, Key 115, Key 10]
     \<lparr>rl_point = 0, rl_end = 0, rl_eof_found = False, rl_line_buffer = NULL, rl_out = [], history_offset = 0\<rparr>
     \<lparr>hs_entries = NULL, hs_offset = 0, hs_length = 0, hs_size = 0, hs_flags = 0\<rparr> uheap0 = Some (h', s', hs', 1529) \<and>
     rl_out s' = [62, 108, 120, 8, 115, 10] \<and> cstring (umem h') 1529 [108, 115, 10]"
proof -
  let ?ks = "\<lparr>VEOF = 4, VERASE = 8, VKILL = 21\<rparr>"
  let ?s = "\<lparr>rl_point = 0, rl_end = 0, rl_eof_found = False, rl_line_buffer = NULL, rl_out = [], history_offset = 0\<rparr>"
  have "list_all (edit_key ?ks) [108, 120, 8, 115]" by (simp add: edit_key_def isprint_def)
  moreover have "fold (\<lambda>c x. edit ?ks x c) [108, 120, 8, 115] ([], rl_out ?s @ [62]) = ([108, 115], [62, 108, 120, 8, 115])" by simp
  moreover obtain h1 where "malloc (user_sbrk 1) 128 uheap0 = Some (h1, 1529)" by (simp add: heap_eval uheap0_def kernel_heap_def)
  ultimately show ?thesis
    using readline_edits [OF uheap0_inv, of ?ks "[108, 120, 8, 115]" ?s "[62]" "[108, 115]" "[62, 108, 120, 8, 115]" "[]"
      "\<lparr>hs_entries = NULL, hs_offset = 0, hs_length = 0, hs_size = 0, hs_flags = 0\<rparr>"] by force
qed

end
