(* ===== verification/Spec2Isabelle.thy ===== *)
theory Spec2Isabelle
  imports Prelude Bitmap Mm Timer Memory FsTypes Proc Ipc Signal Exit Sched Fork System Slab Cache Str Inode Blocks Rootfs FileIo Path Filp FsCalls Pipe Descriptors Tty Devices TtyLine ListHead Stdio Printing Exec ExecStack Boot UserHeap Shell UserLib Streams Readline
begin

text \<open>
  Winix is a small Unix-like kernel for the WRAMP board. This development models the kernel, its
  file system and the library routines they share, and proves the properties that make each part
  correct. All paths below are relative to \<^verbatim>\<open>src/\<close>.

  \<^bold>\<open>The program.\<close> A user program traps into \<^verbatim>\<open>kernel/exception.c\<close>, which copies the call from the
  user's stack into a message and hands it to the system task (\<^verbatim>\<open>kernel/system.c\<close>) or to another
  task by rendezvous messages (\<^verbatim>\<open>kernel/wini_ipc.c\<close>). The handlers (\<^verbatim>\<open>kernel/system/*.c\<close>,
  \<^verbatim>\<open>fs/system/*.c\<close>) change the process table and the tables of the file system; a reply makes the
  caller runnable. The process table and the ready queues are in \<^verbatim>\<open>kernel/proc.c\<close>, the scheduler in
  \<^verbatim>\<open>kernel/sched.c\<close>, ticks and timers in \<^verbatim>\<open>kernel/clock.c\<close> and \<^verbatim>\<open>winix/timer.c\<close>, memory in
  \<^verbatim>\<open>winix/mm.c\<close> (pages, over the bitmaps of \<^verbatim>\<open>winix/bitmap.c\<close>) and \<^verbatim>\<open>winix/slab.c\<close> (kernel
  heap). The file system keeps a cache of disk blocks (\<^verbatim>\<open>fs/cache.c\<close>), inodes and directories
  (\<^verbatim>\<open>fs/inode.c\<close>), path names (\<^verbatim>\<open>fs/path.c\<close>) and open files (\<^verbatim>\<open>fs/filp.c\<close>); the disk is an array
  in memory (\<^verbatim>\<open>fs/rootfs.c\<close>). The terminal is a serial port with a line discipline
  (\<^verbatim>\<open>driver/tty.c\<close>), to which the kernel prints (\<^verbatim>\<open>winix/sys_stdio.c\<close>). Programs are files; executing
  one replaces the memory of a process (\<^verbatim>\<open>kernel/system/do_execve.c\<close>), and the first processes are
  started by \<^verbatim>\<open>kernel/main.c\<close>.

  \<^bold>\<open>The machine.\<close> On WRAMP a \<^verbatim>\<open>char\<close> is a 32-bit word and \<^verbatim>\<open>sizeof(int)\<close> is 1, so memory is a
  function from word addresses to words, and strings are sequences of words ended by 0. Bitmap
  words, masks and process states, on which the code works bitwise, are \<^typ>\<open>32 word\<close> values; counters and addresses are \<^typ>\<open>int\<close>
  values with the reduction modulo 2 to the power 32 written out where the code relies on it or may suffer from it.

  \<^bold>\<open>Results.\<close> An operation takes and returns the state. \<^term>\<open>None\<close> stands for an execution that
  faults (an access outside an array, a dereferenced null pointer where the model keeps a table of
  objects) or does not return; loops whose end depends on the data are \<^theory_text>\<open>partial_function (option)\<close>,
  so no fuel is chosen anywhere, and that they end is part of each theorem: the conclusions state
  that the operation returns \<open>Some\<close> result. Error codes are the negative integers of the source.

  \<^bold>\<open>The state.\<close> The records extend each other the way the components do: the clock and its timers
  (\<^verbatim>\<open>Timer.clock\<close>) are extended by the process table, queues, page map and memory
  (\<^verbatim>\<open>Proc.kernel\<close>), these by the tables of the file system (\<^verbatim>\<open>Cache.fsk\<close>), those by the kernel's
  heap and the pipes (\<^verbatim>\<open>Pipe.psk\<close>) and those by the terminals (\<^verbatim>\<open>Tty.tsk\<close>). An operation of a lower component is defined on every extension of its record, so
  the upper components call it as the code does.

  \<^bold>\<open>The theories.\<close>
  \<^item> \<^verbatim>\<open>Prelude\<close>: machine words, arrays with bounds, linked chains, generic lemmas; \<^verbatim>\<open>Memory\<close>:
    \<^verbatim>\<open>memcpy\<close> and \<^verbatim>\<open>memset\<close>; \<^verbatim>\<open>Str\<close>: the strings of \<^verbatim>\<open>lib/ansi\<close> and \<^verbatim>\<open>strtol\<close>. Shown:
    \<^verbatim>\<open>memmove\<close> is right for every overlap, \<^verbatim>\<open>strstr\<close> finds the first occurrence, \<^verbatim>\<open>strtol\<close> reads
    the number it is given or reports overflow.
  \<^item> \<^verbatim>\<open>Bitmap\<close> (\<^verbatim>\<open>winix/bitmap.c\<close>) and \<^verbatim>\<open>Mm\<close> (\<^verbatim>\<open>winix/mm.c\<close>): bit runs refine sets of page
    numbers, the search is first fit, page requests are correct and disjoint, a release undoes a
    request, accepted user ranges lie in the process's pages.
  \<^item> \<^verbatim>\<open>Slab\<close> (\<^verbatim>\<open>winix/slab.c\<close>): the block list stays well formed, blocks in use are disjoint.
  \<^item> \<^verbatim>\<open>Timer\<close> (\<^verbatim>\<open>winix/timer.c\<close>, the tick loop of \<^verbatim>\<open>kernel/clock.c\<close>): the pending list is sorted,
    the next timeout is the earliest, the loop over due timers ends.
  \<^item> \<^verbatim>\<open>Proc\<close> (\<^verbatim>\<open>kernel/proc.c\<close>) and \<^verbatim>\<open>Sched\<close> (\<^verbatim>\<open>kernel/sched.c\<close>, the interrupt of
    \<^verbatim>\<open>kernel/clock.c\<close>, sleeping and interval timers): the linked ready queues refine lists, slots
    and process ids are fresh, the scheduler takes the head of the highest queue.
  \<^item> \<^verbatim>\<open>Ipc\<close> (\<^verbatim>\<open>kernel/wini_ipc.c\<close>, the replies of \<^verbatim>\<open>kernel/system.c\<close>) and \<^verbatim>\<open>System\<close>
    (\<^verbatim>\<open>kernel/exception.c\<close>, dispatch in \<^verbatim>\<open>kernel/system.c\<close>): messages are delivered or wait for
    their receiver, calls arrive with their arguments, replies reach the caller.
  \<^item> \<^verbatim>\<open>Signal\<close> and \<^verbatim>\<open>Exit\<close> (\<^verbatim>\<open>kernel/signal.c\<close>, \<^verbatim>\<open>kernel/system/do_sig*.c\<close>, \<^verbatim>\<open>do_kill.c\<close>,
    \<^verbatim>\<open>do_exit_wait.c\<close>), \<^verbatim>\<open>Fork\<close> (\<^verbatim>\<open>do_fork.c\<close>, \<^verbatim>\<open>do_brk.c\<close> and the small calls): no call on masks, no entry
    into a handler or return from one and no fork puts one of the two signals that cannot be blocked into a mask, handlers are entered and left transparently,
    \<^verbatim>\<open>waitpid\<close> and \<^verbatim>\<open>fork\<close> on every branch, the break stays within the heap.
  \<^item> \<^verbatim>\<open>FsTypes\<close> (\<^verbatim>\<open>include_winix/fs\<close>), \<^verbatim>\<open>Cache\<close> (\<^verbatim>\<open>fs/cache.c\<close>, \<^verbatim>\<open>fs/dev.c\<close>, the device part
    of \<^verbatim>\<open>fs/rootfs.c\<close>): the block cache is a least-recently-used cache over the disk.
  \<^item> \<^verbatim>\<open>Inode\<close> (\<^verbatim>\<open>fs/inode.c\<close>: definitions) and \<^verbatim>\<open>Blocks\<close> (its properties over the cache):
    allocation of blocks, inodes written back and read again.
  \<^item> \<^verbatim>\<open>Rootfs\<close> (file operations of \<^verbatim>\<open>fs/rootfs.c\<close>) and \<^verbatim>\<open>FileIo\<close> (their properties): block-wise
    transfers equal word-wise ones, what is written is read back.
  \<^item> \<^verbatim>\<open>Path\<close> (\<^verbatim>\<open>fs/path.c\<close>), \<^verbatim>\<open>Filp\<close> (\<^verbatim>\<open>fs/filp.c\<close>, opening, closing, reading, writing,
    duplicating), \<^verbatim>\<open>FsCalls\<close> (the other calls of \<^verbatim>\<open>fs/system\<close>), \<^verbatim>\<open>Descriptors\<close> (properties of
    descriptors), \<^verbatim>\<open>Devices\<close> (the file operations of all devices together): splitting of names, positions, and
    counts of open files that stay right through closing, duplicating, exiting and forking.
  \<^item> \<^verbatim>\<open>Pipe\<close> (\<^verbatim>\<open>fs/system/pipe.c\<close>): a pipe is a bounded queue of words; closing the writing end
    releases the readers.
  \<^item> \<^verbatim>\<open>Tty\<close> (\<^verbatim>\<open>driver/tty.c\<close>: definitions) and \<^verbatim>\<open>TtyLine\<close> (its properties): characters received one
    interrupt at a time are edited and echoed as by a reference line editor, and the finished line
    reaches the reader.
  \<^item> \<^verbatim>\<open>ListHead\<close> (\<^verbatim>\<open>include_winix/winix/list.h\<close>): the intrusive rings are sequences of entries; the
    macros are expanded, so an argument is evaluated as often as its expansion does.
  \<^item> \<^verbatim>\<open>Stdio\<close> (\<^verbatim>\<open>winix/sys_stdio.c\<close>, \<^verbatim>\<open>kernel/system/do_dprintf.c\<close>: definitions) and \<^verbatim>\<open>Printing\<close> (their
    properties): a printed number is read back by \<^verbatim>\<open>strtol\<close>, a formatted text reaches the terminal
    whole as long as its numbers fit the buffer of eleven words.
  \<^item> \<^verbatim>\<open>Exec\<close> (\<^verbatim>\<open>kernel/system/do_execve.c\<close>, the start of tasks in \<^verbatim>\<open>kernel/proc.c\<close> and
    \<^verbatim>\<open>kernel/main.c\<close>: definitions), \<^verbatim>\<open>ExecStack\<close> and \<^verbatim>\<open>Boot\<close> (their properties): a program finds its
    arguments and environment on its stack and heap, the kernel's tasks are in their queues.
  \<^item> \<^verbatim>\<open>UserHeap\<close> (\<^verbatim>\<open>lib/stdlib\<close>, \<^verbatim>\<open>lib/syscall/sbrk.c\<close>): \<^verbatim>\<open>malloc\<close>, \<^verbatim>\<open>free\<close>, \<^verbatim>\<open>realloc\<close> and \<^verbatim>\<open>calloc\<close> of
    user programs, over the kernel's own \<^verbatim>\<open>sys_sbrk\<close>: blocks in use never overlap
    and keep their contents. The headers of blocks are words of the program's memory, and an access to page 0, which
    \<^verbatim>\<open>execve\<close> makes inaccessible, is a fault; the other pages that a program does not own are not told apart.
  \<^item> \<^verbatim>\<open>Shell\<close> (\<^verbatim>\<open>user/wsh/parse.c\<close>, \<^verbatim>\<open>lib/ansi/getenv.c\<close>) and \<^verbatim>\<open>UserLib\<close> (\<^verbatim>\<open>putenv.c\<close>, \<^verbatim>\<open>setenv.c\<close>, \<^verbatim>\<open>strdup.c\<close>,
    \<^verbatim>\<open>lib/readline/history.c\<close>): the shell reads back the words and commands of a line; the environment and
    copied strings in the user heap.
  \<^item> \<^verbatim>\<open>Streams\<close> (\<^verbatim>\<open>lib/stdio/fgetc.c\<close>, \<^verbatim>\<open>getdelim.c\<close>): reading a file through a stream's buffer, the system call, the
    block cache and the zones gives the words of the file.
  \<^item> \<^verbatim>\<open>Readline\<close> (\<^verbatim>\<open>lib/readline/readline.c\<close>): typing a line gives the line and the echo of a reference editor.

  \<^bold>\<open>Interfaces.\<close> Each contract between components is a locale, interpreted on the definitions of the
  model: \<^verbatim>\<open>page_set\<close> (a bitmap as a set; \<^verbatim>\<open>bitset\<close>), \<^verbatim>\<open>region_alloc\<close> (an allocator of disjoint
  regions; \<^verbatim>\<open>pages\<close>), \<^verbatim>\<open>tick_handlers\<close> (what the tick loop asks of timer handlers; \<^verbatim>\<open>ticks\<close>, in
  \<^verbatim>\<open>Sched\<close>), \<^verbatim>\<open>list_queues\<close> (linked queues as lists; \<^verbatim>\<open>rq\<close>), \<^verbatim>\<open>signal_sets\<close> (masks as sets;
  \<^verbatim>\<open>sigset\<close>), \<^verbatim>\<open>block_cache\<close> (take a buffer, change the block, return it; \<^verbatim>\<open>cache\<close> for returned
  buffers and \<^verbatim>\<open>cache_dirt\<close> for buffers returned dirty), \<^verbatim>\<open>word_stream\<close> (a bounded first in, first
  out stream; \<^verbatim>\<open>pipe_stream\<close>), \<^verbatim>\<open>closing_ops\<close> (what closing a descriptor asks of the close
  operation of its device; \<^verbatim>\<open>all_files\<close>, for every registered device), \<^verbatim>\<open>entry_lists\<close> (rings as sequences; \<^verbatim>\<open>rings\<close>),
  \<^verbatim>\<open>text_sink\<close> (what formatted output asks of the file it is written to; \<^verbatim>\<open>terminal\<close>),
  \<^verbatim>\<open>heap_break\<close> (what the user heap asks of the break; \<^verbatim>\<open>process_break\<close>) and \<^verbatim>\<open>word_source\<close> (what a stream asks of
  the read call; \<^verbatim>\<open>file_source\<close>).

  \<^bold>\<open>Parameters.\<close> Function pointers of the source are arguments: the close operation of a device where
  exit uses it, the tables of file operations of a device, the handlers of the calls outside the
  model where the system task dispatches. Arrays and structures on the kernel's stack lie at addresses
  that are arguments, and so are the addresses that the linker chooses. The user library takes the system
  calls it makes as arguments; the theorems give it the kernel's own operations.

  \<^bold>\<open>Behaviour worth knowing.\<close> Some theorems state what the code does where its comments or its
  callers expect something else: \<^verbatim>\<open>exec_long_path_gains_root\<close> (a program with a path of sixteen
  characters runs as the superuser), \<^verbatim>\<open>failed_exec_frees_parent\<close> (a failed execution in a child of
  \<^verbatim>\<open>vfork\<close> makes its exit release the parent's memory), \<^verbatim>\<open>root_fs_rw_words\<close> (a write always adds its
  length to the size of the file, also when it overwrites), \<^verbatim>\<open>lseek_past_end_hangs\<close> (seeking to or past
  the last block never returns), \<^verbatim>\<open>tty_line\<close> (a line is given to the reader whole, however little it
  asked for), \<^verbatim>\<open>tty_read_overruns\<close>, \<^verbatim>\<open>parse_reads_past_end\<close> (a blank at the end of a
  command line makes old words arguments), \<^verbatim>\<open>parse_loses_glued_bar\<close>, \<^verbatim>\<open>putenv_ignores_last_char\<close>,
  \<^verbatim>\<open>realloc_copies_quarter\<close>, \<^verbatim>\<open>malloc_after_failed_sbrk_faults\<close> (a request after one that failed stores
  into page 0), \<^verbatim>\<open>readline_edits\<close> (without memory the line is stored into page 0), \<^verbatim>\<open>list_add_tail_loses_entry\<close>, \<^verbatim>\<open>kputud_misprints\<close>,
  \<^verbatim>\<open>pipe_read_zero_erases\<close>, \<^verbatim>\<open>pipe_write_wakes_no_reader\<close>, \<^verbatim>\<open>dup2_same_descriptor\<close>,
  \<^verbatim>\<open>do_waitpid_correct\<close> (a child that is reaped is reported as 0) and \<^verbatim>\<open>handle_sig_enters_handler\<close>
  (the flag \<^verbatim>\<open>SA_NODEFER\<close> has the opposite effect).

  \<^bold>\<open>Not modelled.\<close> \<^verbatim>\<open>main\<close>, the idle loop and the parallel task (\<^verbatim>\<open>kernel/main.c\<close>,
  \<^verbatim>\<open>kernel/idle.c\<close>, \<^verbatim>\<open>winix/parallel_task.c\<close>), which call modelled operations in sequence or drive a
  device; log messages and the reports of tables for debugging (\<^verbatim>\<open>winix/kdebug.c\<close>); the macros of
  \<^verbatim>\<open>list.h\<close> that join two rings, whose expansion does not compile; opening streams, formatted output and
  directory streams in the user library; the third-party regular expression matcher; the shell's
  execution of commands and the user commands, which are sequences of system calls; the host tools that
  build the disk image; tests and their stubs; assembly.

  \<^bold>\<open>To come.\<close> The copies of the argument vectors over the kernel's allocator, directory operations and
  the walk along a path as properties, indirect zones in the file transfers, opening a
  file among the steps that keep the counts of open files, alarms in the tick loop, writers waiting on a pipe, growing the
  environment and the history over the user heap.
\<close>

end
